(* ===== verification/Prelude.thy ===== *)
theory Prelude
  imports Main "HOL-Library.Product_Lexorder" "HOL-Library.List_Lexorder" "HOL-Library.Sublist"
begin

section \<open>Prelude: JavaScript strings, arrays, sets and sorting\<close>

text \<open>
  What the TypeScript sources use of the JavaScript runtime, shared by every component.

  A JavaScript string is the list of its UTF-16 code units, each an integer, so that
  \<open>length\<close>, indexing, \<open>slice\<close>, \<open>split\<close> and \<open>trim\<close> count what the runtime counts. The term
  \<open>js ''abc''\<close> is the string literal \<open>'abc'\<close>; literals outside ASCII are written as code units.
  \<open>new Set(xs)\<close> is the list of its members in insertion order (\<open>js_set\<close>),
  \<open>Array.prototype.sort\<close> with a comparator is a stable insertion sort (\<open>js_sort\<close>).

  The collections \<open>js_lit\<close> (unfolding of literals), \<open>js_text\<close> (laws of trim, split and join)
  and \<open>js_set_laws\<close> (laws of insertion-ordered sets) carry the component proofs.
\<close>

named_theorems js_lit \<open>unfolding of string literals into code units\<close>
named_theorems js_text \<open>laws of trim, split, join\<close>
named_theorems js_set_laws \<open>laws of insertion-ordered sets\<close>

subsection \<open>Strings\<close>

type_synonym code_unit = int
type_synonym jsstr = "code_unit list"

definition js :: "string \<Rightarrow> jsstr" where
  "js s = map of_char s"

lemma js_Nil [js_lit]: "js [] = []"
  by (simp add: js_def)

lemma js_Cons [js_lit]: "js (c # s) = of_char c # js s"
  by (simp add: js_def)

lemma js_append: "js (s @ t) = js s @ js t"
  by (simp add: js_def)

lemma js_eq_Nil [simp]: "js s = [] \<longleftrightarrow> s = []"
  by (simp add: js_def)

lemma length_js [simp]: "length (js s) = length s"
  by (simp add: js_def)

text \<open>The code units JavaScript strips in \<open>trim\<close> and matches with \<open>\s\<close>.\<close>

definition is_ws :: "code_unit \<Rightarrow> bool" where
  "is_ws c \<longleftrightarrow> (9 \<le> c \<and> c \<le> 13) \<or> c = 32 \<or> c = 160 \<or> c = 5760 \<or> (8192 \<le> c \<and> c \<le> 8202)
     \<or> c = 8232 \<or> c = 8233 \<or> c = 8239 \<or> c = 8287 \<or> c = 12288 \<or> c = 65279"

definition is_digit :: "code_unit \<Rightarrow> bool" where
  "is_digit c \<longleftrightarrow> 48 \<le> c \<and> c \<le> 57"

lemma digit_not_ws: "is_digit c \<Longrightarrow> \<not> is_ws c"
  by (simp add: is_digit_def is_ws_def)

definition trim_start :: "jsstr \<Rightarrow> jsstr" where
  "trim_start s = dropWhile is_ws s"

definition trim_end :: "jsstr \<Rightarrow> jsstr" where
  "trim_end s = rev (dropWhile is_ws (rev s))"

definition trim :: "jsstr \<Rightarrow> jsstr" where
  "trim s = trim_end (trim_start s)"

text \<open>A string that \<open>trim\<close> leaves alone: no white space at either end.\<close>

definition trimmed :: "jsstr \<Rightarrow> bool" where
  "trimmed s \<longleftrightarrow> s = [] \<or> (\<not> is_ws (hd s) \<and> \<not> is_ws (last s))"

lemma trim_end_Nil [simp]: "trim_end [] = []"
  by (simp add: trim_end_def)

lemma trim_Nil [simp]: "trim [] = []"
  by (simp add: trim_def trim_start_def)

lemma trim_end_hd:
  assumes "s \<noteq> []" and "\<not> is_ws (hd s)"
  shows "trim_end s \<noteq> [] \<and> hd (trim_end s) = hd s"
proof -
  obtain x xs where s: "s = x # xs" using assms(1) by (cases s) auto
  have "dropWhile is_ws (rev xs @ [x]) = dropWhile is_ws (rev xs) @ [x]"
    using assms(2) s by (simp add: dropWhile_append3)
  then show ?thesis by (simp add: trim_end_def s)
qed

lemma trim_end_last: "trim_end s \<noteq> [] \<Longrightarrow> \<not> is_ws (last (trim_end s))"
  by (metis hd_dropWhile last_rev trim_end_def rev_is_Nil_conv)

lemma trimmed_trim [simp]: "trimmed (trim s)"
proof (cases "trim_start s = []")
  case True
  then show ?thesis by (simp add: trimmed_def trim_def)
next
  case False
  then have "\<not> is_ws (hd (trim_start s))"
    by (simp add: trim_start_def hd_dropWhile)
  with False show ?thesis
    using trim_end_hd [of "trim_start s"] trim_end_last [of "trim_start s"]
    by (simp add: trimmed_def trim_def)
qed

lemma trim_trimmed: "trimmed s \<Longrightarrow> trim s = s"
proof (cases s)
  case (Cons x xs)
  moreover assume "trimmed s"
  ultimately have hd: "\<not> is_ws x" and lst: "\<not> is_ws (last s)" by (auto simp: trimmed_def)
  have "dropWhile is_ws (rev s) = rev s"
    using lst Cons by (metis dropWhile_eq_self_iff hd_rev)
  then show ?thesis using hd Cons by (simp add: trim_def trim_start_def trim_end_def)
qed simp

lemma trim_idem [js_text]: "trim (trim s) = trim s"
  by (rule trim_trimmed) simp

lemma trim_id_iff: "trim s = s \<longleftrightarrow> trimmed s"
  by (metis trim_trimmed trimmed_trim)

lemma set_trim: "set (trim s) \<subseteq> set s"
  unfolding trim_def trim_end_def trim_start_def
  by (metis (no_types, lifting) set_dropWhileD set_rev subsetI)

lemma trim_no_ws: "\<forall>c \<in> set s. \<not> is_ws c \<Longrightarrow> trim s = s"
  by (rule trim_trimmed) (auto simp: trimmed_def)

lemma trim_end_ws: "is_ws c \<Longrightarrow> trim_end (s @ [c]) = trim_end s"
  by (simp add: trim_end_def)

lemma trim_eq_Nil_iff: "trim s = [] \<longleftrightarrow> (\<forall>c \<in> set s. is_ws c)"
proof
  assume "trim s = []"
  then have "trim_start s = []"
    using trim_end_hd [of "trim_start s"] hd_dropWhile [of is_ws s]
    by (auto simp: trim_def trim_start_def)
  then show "\<forall>c \<in> set s. is_ws c" by (simp add: trim_start_def dropWhile_eq_Nil_conv)
next
  assume "\<forall>c \<in> set s. is_ws c"
  then show "trim s = []" by (simp add: trim_def trim_start_def dropWhile_eq_Nil_conv [THEN iffD2])
qed

text \<open>\<open>s.replace(/\s/g, '')\<close>.\<close>

definition remove_ws :: "jsstr \<Rightarrow> jsstr" where
  "remove_ws s = filter (\<lambda>c. \<not> is_ws c) s"

text \<open>ASCII lower-casing, the part of \<open>toLowerCase\<close> the sources compare against ASCII words.\<close>

definition lower_unit :: "code_unit \<Rightarrow> code_unit" where
  "lower_unit c = (if 65 \<le> c \<and> c \<le> 90 then c + 32 else c)"

text \<open>\<open>startsWith\<close>, \<open>endsWith\<close>, \<open>includes\<close> and \<open>indexOf\<close>; \<open>js_index\<close> is \<open>None\<close> where the
  runtime returns \<open>-1\<close>.\<close>

definition starts_with :: "jsstr \<Rightarrow> jsstr \<Rightarrow> bool" where
  "starts_with s p \<longleftrightarrow> take (length p) s = p"

definition ends_with :: "jsstr \<Rightarrow> jsstr \<Rightarrow> bool" where
  "ends_with s p \<longleftrightarrow> starts_with (rev s) (rev p)"

fun js_index :: "jsstr \<Rightarrow> jsstr \<Rightarrow> nat option" where
  "js_index [] p = (if p = [] then Some 0 else None)"
| "js_index (c # s) p =
     (if starts_with (c # s) p then Some 0 else map_option Suc (js_index s p))"

definition includes_str :: "jsstr \<Rightarrow> jsstr \<Rightarrow> bool" where
  "includes_str s p \<longleftrightarrow> js_index s p \<noteq> None"

lemma starts_with_append [simp]: "starts_with (p @ s) p"
  by (simp add: starts_with_def)

lemma starts_with_split: "starts_with s p \<Longrightarrow> s = p @ drop (length p) s"
  by (metis append_take_drop_id starts_with_def)

lemma js_index_Some:
  "js_index s p = Some i \<Longrightarrow> i + length p \<le> length s \<and> s = take i s @ p @ drop (i + length p) s"
proof (induction s arbitrary: i)
  case Nil
  then show ?case by (auto split: if_splits)
next
  case (Cons c s)
  show ?case
  proof (cases "starts_with (c # s) p")
    case True
    moreover have "c # s = p @ drop (length p) (c # s)"
      using True by (rule starts_with_split)
    moreover have "length p \<le> length (c # s)"
      by (metis calculation(2) length_append le_add1)
    ultimately show ?thesis using Cons.prems by auto
  next
    case False
    with Cons.prems obtain j where "js_index s p = Some j" and "i = Suc j" by auto
    with Cons.IH show ?thesis by auto
  qed
qed

lemma js_index_length: "js_index s p = Some i \<Longrightarrow> i + length p \<le> length s"
  using js_index_Some by blast

lemma includes_char: "includes_str s [c] \<longleftrightarrow> c \<in> set s"
  by (induction s) (auto simp: includes_str_def starts_with_def split: if_splits)

subsection \<open>Split and join\<close>

text \<open>\<open>s.split(c)\<close> for a one-unit separator.\<close>

fun split_char :: "code_unit \<Rightarrow> jsstr \<Rightarrow> jsstr list" where
  "split_char c [] = [[]]"
| "split_char c (x # xs) =
     (if x = c then [] # split_char c xs
      else (case split_char c xs of [] \<Rightarrow> [[x]] | y # ys \<Rightarrow> (x # y) # ys))"

text \<open>\<open>xs.join(sep)\<close>.\<close>

fun js_join :: "jsstr \<Rightarrow> jsstr list \<Rightarrow> jsstr" where
  "js_join sep [] = []"
| "js_join sep [x] = x"
| "js_join sep (x # y # ys) = x @ sep @ js_join sep (y # ys)"

lemma split_char_nonempty [simp]: "split_char c s \<noteq> []"
  by (induction s) (auto split: list.splits)

lemma split_char_no_sep: "p \<in> set (split_char c s) \<Longrightarrow> c \<notin> set p"
  by (induction s arbitrary: p) (fastforce split: list.splits if_splits)+

lemma split_char_units: "p \<in> set (split_char c s) \<Longrightarrow> set p \<subseteq> set s"
  by (induction s arbitrary: p) (fastforce split: list.splits if_splits)+

lemma js_join_Cons: "ys \<noteq> [] \<Longrightarrow> js_join sep (x # ys) = x @ sep @ js_join sep ys"
  by (cases ys) auto

lemma js_join_split [js_text]: "js_join [c] (split_char c s) = s"
proof (induction s)
  case Nil
  then show ?case by simp
next
  case (Cons x s)
  obtain y ys where "split_char c s = y # ys" by (meson list.exhaust split_char_nonempty)
  with Cons show ?case by (cases ys) auto
qed

lemma split_char_plain: "c \<notin> set s \<Longrightarrow> split_char c s = [s]"
  by (induction s) auto

lemma split_char_append: "c \<notin> set p \<Longrightarrow> split_char c (p @ c # s) = p # split_char c s"
  by (induction p) auto

lemma split_char_join [js_text]:
  "xs \<noteq> [] \<Longrightarrow> \<forall>x \<in> set xs. c \<notin> set x \<Longrightarrow> split_char c (js_join [c] xs) = xs"
  by (induction xs rule: induct_list012) (auto simp: split_char_plain split_char_append)

lemma set_js_join: "set (js_join sep xs) \<subseteq> \<Union> (set ` set xs) \<union> set sep"
  by (induction sep xs rule: js_join.induct) auto

lemma js_join_eq_Nil: "js_join sep xs = [] \<Longrightarrow> \<forall>x \<in> set xs. x = []"
  by (induction sep xs rule: js_join.induct) auto

text \<open>\<open>s.split(c).map((p) => p.trim()).filter(Boolean)\<close>, a list typed with separators.\<close>

definition split_trim :: "code_unit \<Rightarrow> jsstr \<Rightarrow> jsstr list" where
  "split_trim c s = filter (\<lambda>p. p \<noteq> []) (map trim (split_char c s))"

definition clean_item :: "code_unit \<Rightarrow> jsstr \<Rightarrow> bool" where
  "clean_item c p \<longleftrightarrow> p \<noteq> [] \<and> trimmed p \<and> c \<notin> set p"

lemma split_trim_clean: "p \<in> set (split_trim c s) \<Longrightarrow> clean_item c p"
  using set_trim split_char_no_sep by (fastforce simp: split_trim_def clean_item_def)

lemma split_trim_join [js_text]:
  assumes "\<forall>p \<in> set xs. clean_item c p"
  shows "split_trim c (js_join [c] xs) = xs"
proof (cases "xs = []")
  case True
  then show ?thesis by (simp add: split_trim_def)
next
  case False
  with assms have "split_char c (js_join [c] xs) = xs"
    by (intro split_char_join) (auto simp: clean_item_def)
  moreover have "map trim xs = xs"
    using assms by (intro map_idI) (auto simp: clean_item_def trim_trimmed)
  moreover have "filter (\<lambda>p. p \<noteq> []) xs = xs"
    using assms by (auto simp: filter_id_conv clean_item_def)
  ultimately show ?thesis by (simp add: split_trim_def)
qed

subsection \<open>Sets in insertion order\<close>

definition js_add :: "'a list \<Rightarrow> 'a \<Rightarrow> 'a list" where
  "js_add s x = (if x \<in> set s then s else s @ [x])"

definition js_set :: "'a list \<Rightarrow> 'a list" where
  "js_set xs = foldl js_add [] xs"

lemma foldl_js_add:
  "distinct s \<Longrightarrow> distinct (foldl js_add s xs) \<and> set (foldl js_add s xs) = set s \<union> set xs"
  by (induction xs arbitrary: s) (auto simp: js_add_def)

lemma distinct_js_set [simp, js_set_laws]: "distinct (js_set xs)"
  using foldl_js_add [of "[]" xs] by (simp add: js_set_def)

lemma set_js_set [simp, js_set_laws]: "set (js_set xs) = set xs"
  using foldl_js_add [of "[]" xs] by (simp add: js_set_def)

lemma foldl_js_add_fresh:
  "distinct (s @ xs) \<Longrightarrow> foldl js_add s xs = s @ xs"
  by (induction xs arbitrary: s) (auto simp: js_add_def)

lemma js_set_distinct [js_set_laws]: "distinct xs \<Longrightarrow> js_set xs = xs"
  using foldl_js_add_fresh [of "[]" xs] by (simp add: js_set_def)

lemma js_set_idem [js_set_laws]: "js_set (js_set xs) = js_set xs"
  by (simp add: js_set_distinct)

lemma js_set_append: "js_set (xs @ ys) = foldl js_add (js_set xs) ys"
  by (simp add: js_set_def)

lemma foldl_js_add_prefix: "prefix s (foldl js_add s xs)"
proof (induction xs arbitrary: s)
  case Nil
  then show ?case by simp
next
  case (Cons x xs)
  have "prefix s (js_add s x)" by (auto simp: js_add_def)
  then show ?case using Cons.IH [of "js_add s x"] prefix_order.trans by fastforce
qed

lemma js_set_prefix: "prefix (js_set xs) (js_set (xs @ ys))"
  by (simp add: js_set_append foldl_js_add_prefix)

subsection \<open>Sorting with a comparator\<close>

fun js_insert :: "('a \<Rightarrow> 'a \<Rightarrow> int) \<Rightarrow> 'a \<Rightarrow> 'a list \<Rightarrow> 'a list" where
  "js_insert cmp x [] = [x]"
| "js_insert cmp x (y # ys) = (if cmp x y \<le> 0 then x # y # ys else y # js_insert cmp x ys)"

definition js_sort :: "('a \<Rightarrow> 'a \<Rightarrow> int) \<Rightarrow> 'a list \<Rightarrow> 'a list" where
  "js_sort cmp xs = foldr (js_insert cmp) xs []"

lemma set_js_insert [simp]: "set (js_insert cmp x ys) = insert x (set ys)"
  by (induction ys) auto

lemma set_js_sort [simp]: "set (js_sort cmp xs) = set xs"
  by (induction xs) (auto simp: js_sort_def)

lemma length_js_insert [simp]: "length (js_insert cmp x ys) = Suc (length ys)"
  by (induction ys) auto

lemma length_js_sort [simp]: "length (js_sort cmp xs) = length xs"
  by (induction xs) (auto simp: js_sort_def)

lemma js_sort_Nil_iff [simp]: "js_sort cmp xs = [] \<longleftrightarrow> xs = []"
  by (metis length_0_conv length_js_sort)

text \<open>A comparator that orders by a key sorts by that key, stably.\<close>

lemma js_insert_key:
  assumes "\<And>x y. cmp x y \<le> 0 \<longleftrightarrow> (f x :: 'k::linorder) \<le> f y"
  shows "js_insert cmp x ys = insort_key f x ys"
  by (induction ys) (auto simp: assms)

lemma js_sort_key:
  assumes "\<And>x y. cmp x y \<le> 0 \<longleftrightarrow> (f x :: 'k::linorder) \<le> f y"
  shows "js_sort cmp xs = sort_key f xs"
  by (induction xs) (auto simp: js_sort_def js_insert_key [OF assms] sort_key_def)

text \<open>With a total and transitive comparator the result is in order, and sorting again changes
  nothing. \<open>localeCompare\<close> and the numeric comparators of the sources are such comparators.\<close>

definition total_compare :: "('a \<Rightarrow> 'a \<Rightarrow> int) \<Rightarrow> bool" where
  "total_compare cmp \<longleftrightarrow> (\<forall>x y. cmp x y \<le> 0 \<or> cmp y x \<le> 0) \<and>
     (\<forall>x y z. cmp x y \<le> 0 \<longrightarrow> cmp y z \<le> 0 \<longrightarrow> cmp x z \<le> 0)"

abbreviation in_order :: "('a \<Rightarrow> 'a \<Rightarrow> int) \<Rightarrow> 'a list \<Rightarrow> bool" where
  "in_order cmp xs \<equiv> sorted_wrt (\<lambda>x y. cmp x y \<le> 0) xs"

lemma in_order_js_insert: "total_compare cmp \<Longrightarrow> in_order cmp ys \<Longrightarrow> in_order cmp (js_insert cmp x ys)"
proof (induction ys)
  case (Cons y ys)
  have total: "cmp x y \<le> 0 \<or> cmp y x \<le> 0"
    and trans: "\<And>z. cmp x y \<le> 0 \<Longrightarrow> cmp y z \<le> 0 \<Longrightarrow> cmp x z \<le> 0"
    using Cons.prems(1) unfolding total_compare_def by blast+
  then show ?case using Cons by auto
qed simp

lemma in_order_js_sort: "total_compare cmp \<Longrightarrow> in_order cmp (js_sort cmp xs)"
  by (induction xs) (auto simp: js_sort_def in_order_js_insert)

lemma js_sort_id: "in_order cmp xs \<Longrightarrow> js_sort cmp xs = xs"
proof (induction xs)
  case (Cons x xs)
  then have "js_sort cmp (x # xs) = js_insert cmp x xs" by (simp add: js_sort_def)
  also have "\<dots> = x # xs" using Cons.prems by (cases xs) auto
  finally show ?case .
qed (simp add: js_sort_def)

lemma js_sort_idem: "total_compare cmp \<Longrightarrow> js_sort cmp (js_sort cmp xs) = js_sort cmp xs"
  by (simp add: in_order_js_sort js_sort_id)

lemma distinct_js_insert [simp]: "distinct (js_insert cmp x ys) \<longleftrightarrow> x \<notin> set ys \<and> distinct ys"
  by (induction ys) auto

lemma distinct_js_sort [simp]: "distinct (js_sort cmp xs) \<longleftrightarrow> distinct xs"
proof (induction xs)
  case (Cons x xs)
  have "set (foldr (js_insert cmp) xs []) = set xs" using set_js_sort [of cmp xs] by (simp add: js_sort_def)
  with Cons show ?case by (simp add: js_sort_def)
qed (simp add: js_sort_def)

text \<open>\<open>sort()\<close> without a comparator orders strings by their code units.\<close>

definition code_unit_compare :: "jsstr \<Rightarrow> jsstr \<Rightarrow> int" where
  "code_unit_compare a b = (if a < b then - 1 else if a = b then 0 else 1)"

lemma code_unit_compare_le [simp]: "code_unit_compare a b \<le> 0 \<longleftrightarrow> a \<le> b"
  by (auto simp: code_unit_compare_def)

lemma total_code_unit_compare: "total_compare code_unit_compare"
  by (auto simp: total_compare_def)

subsection \<open>Decimal numerals\<close>

text \<open>The digits of a natural number, as \<open>String(n)\<close> prints an integer, and their value, as
  \<open>parseInt(s, 10)\<close> reads a string of digits.\<close>

function int_digits :: "int \<Rightarrow> jsstr" where
  "int_digits n = (if n < 10 then [48 + n] else int_digits (n div 10) @ [48 + n mod 10])"
  by pat_completeness auto
termination
  by (relation "measure nat") auto

declare int_digits.simps [simp del]

definition digits_val :: "jsstr \<Rightarrow> int" where
  "digits_val s = foldl (\<lambda>acc c. 10 * acc + (c - 48)) 0 s"

definition int_str :: "int \<Rightarrow> jsstr" where
  "int_str i = (if i < 0 then 45 # int_digits (- i) else int_digits i)"

lemma int_digits_nonempty [simp]: "int_digits n \<noteq> []"
  by (subst int_digits.simps) simp

lemma int_digits_digit: "0 \<le> n \<Longrightarrow> c \<in> set (int_digits n) \<Longrightarrow> is_digit c"
proof (induction n rule: int_digits.induct)
  case (1 n)
  show ?case
  proof (cases "n < 10")
    case True
    with 1 show ?thesis by (simp add: int_digits.simps [of n] is_digit_def)
  next
    case False
    with 1 show ?thesis by (auto simp: int_digits.simps [of n] is_digit_def)
  qed
qed

lemma digits_val_snoc: "digits_val (s @ [c]) = 10 * digits_val s + (c - 48)"
  by (simp add: digits_val_def)

lemma digits_val_int_digits [simp]: "digits_val (int_digits n) = n"
proof (induction n rule: int_digits.induct)
  case (1 n)
  show ?case
  proof (cases "n < 10")
    case True
    then show ?thesis by (simp add: int_digits.simps [of n] digits_val_def)
  next
    case False
    have "digits_val (int_digits n) = 10 * (n div 10) + n mod 10"
      using False 1 by (simp add: int_digits.simps [of n] digits_val_snoc)
    then show ?thesis by simp
  qed
qed

lemma int_digits_inj: "int_digits m = int_digits n \<Longrightarrow> m = n"
  by (metis digits_val_int_digits)

end
