(* ===== verification/JsNumber.thy ===== *)
theory JsNumber
  imports Complex_Main Prelude "HOL-Library.Log_Nat"
begin

section \<open>JavaScript numbers\<close>

text \<open>
  The JavaScript \<open>Number\<close> type: IEEE-754 binary64 values. A finite value is the rational it
  denotes; \<open>fl\<close> rounds a rational to the nearest binary64 value, ties to even, with overflow to
  an infinity, and every arithmetic operation is the exact rational operation followed by \<open>fl\<close>.
  The sign of zero is not represented: no operation modelled here distinguishes \<open>-0\<close> from \<open>0\<close>
  except division by zero, which the modelled code never reaches with a negative zero.

  The lemmas give the two facts the components rest on: \<open>fl\<close> is exact on the safe integers, and
  it is monotone.
\<close>

named_theorems js_num \<open>evaluation of number operations\<close>

datatype jsnum = NaN | PInf | NInf | Fin rat

subsection \<open>Rounding to binary64\<close>

text \<open>\<open>flog2 r\<close> is the exponent of the leading bit of a positive rational.\<close>

definition flog2 :: "rat \<Rightarrow> int" where
  "flog2 r = (case quotient_of r of (a, b) \<Rightarrow>
     let e = bitlen a - bitlen b in
     if 2 powi e \<le> r then e else e - 1)"

definition round_even :: "rat \<Rightarrow> int" where
  "round_even q =
     (let f = \<lfloor>q\<rfloor>; d = q - of_int f in
      if d < 1/2 then f else if d > 1/2 then f + 1 else if even f then f else f + 1)"

text \<open>The distance between neighbouring binary64 values around \<open>r\<close>: 53 significant bits,
  at least the subnormal quantum.\<close>

definition ulp_exp :: "rat \<Rightarrow> int" where
  "ulp_exp r = max (flog2 r - 52) (- 1074)"

definition fl_pos :: "rat \<Rightarrow> rat" where
  "fl_pos r = of_int (round_even (r / 2 powi ulp_exp r)) * 2 powi ulp_exp r"

definition overflow_bound :: rat where
  "overflow_bound = 2 ^ 1024"

definition fl :: "rat \<Rightarrow> jsnum" where
  "fl r =
     (if r = 0 then Fin 0
      else let m = fl_pos \<bar>r\<bar> in
        if m \<ge> overflow_bound then (if r > 0 then PInf else NInf)
        else Fin (if r > 0 then m else - m))"


subsection \<open>Rounding is exact on its grid, and monotone\<close>

lemma powi_add2: "(2::rat) powi (a + b) = 2 powi a * 2 powi b"
  by (simp add: power_int_add)

lemma powi_mono2: "a \<le> b \<Longrightarrow> (2::rat) powi a \<le> 2 powi b"
  by (simp add: power_int_increasing)

lemma powi_pos2 [simp]: "0 < (2::rat) powi a"
  by simp

lemma powi_less_cancel2: "(2::rat) powi a < 2 powi b \<Longrightarrow> a < b"
  by (meson linorder_not_le powi_mono2)

lemma powi_le_cancel2: "(2::rat) powi a \<le> 2 powi b \<Longrightarrow> a \<le> b"
  by (metis linorder_not_le one_less_numeral_iff power_int_strict_increasing semiring_norm(76))

lemma bitlen_powi:
  assumes "0 < a"
  shows "2 powi (bitlen a - 1) \<le> (of_int a :: rat)" and "(of_int a :: rat) < 2 powi bitlen a"
proof -
  have k: "0 < bitlen a" using assms bitlen_nonneg [of a] by (simp add: less_le bitlen_eq_zero_iff)
  from bitlen_bounds [OF assms] have "2 ^ nat (bitlen a - 1) \<le> a" "a < 2 ^ nat (bitlen a)" by auto
  then have "(of_int (2 ^ nat (bitlen a - 1)) :: rat) \<le> of_int a"
    "(of_int a :: rat) < of_int (2 ^ nat (bitlen a))"
    by (simp_all only: of_int_le_iff of_int_less_iff)
  then show "2 powi (bitlen a - 1) \<le> (of_int a :: rat)" and "(of_int a :: rat) < 2 powi bitlen a"
    using k by (simp_all add: power_int_def)
qed

lemma flog2_bounds:
  assumes "0 < r"
  shows "2 powi flog2 r \<le> r" and "r < 2 powi (flog2 r + 1)"
proof -
  obtain a b where q: "quotient_of r = (a, b)" by (cases "quotient_of r")
  have b: "0 < b" using quotient_of_denom_pos [OF q] .
  have r: "r = of_int a / of_int b" using quotient_of_div [OF q] .
  have a: "0 < a" using assms b r by (simp add: zero_less_divide_iff)
  let ?e = "bitlen a - bitlen b"
  have "r < 2 powi bitlen a / of_int b"
    unfolding r using bitlen_powi(2) [OF a] b by (intro divide_strict_right_mono) auto
  also have "\<dots> \<le> 2 powi bitlen a / 2 powi (bitlen b - 1)"
    using bitlen_powi(1) [OF b] b by (intro divide_left_mono) auto
  also have "\<dots> = 2 powi (?e + 1)" by (simp add: algebra_simps flip: power_int_diff)
  finally have up: "r < 2 powi (?e + 1)" .
  have "(2::rat) powi (?e - 1) = 2 powi (bitlen a - 1) / 2 powi bitlen b"
    by (simp add: algebra_simps flip: power_int_diff)
  also have "\<dots> \<le> of_int a / 2 powi bitlen b"
    using bitlen_powi(1) [OF a] by (intro divide_right_mono) auto
  also have "\<dots> \<le> r"
    unfolding r using bitlen_powi(2) [OF b] a b by (intro divide_left_mono) auto
  finally have lo: "2 powi (?e - 1) \<le> r" .
  have "flog2 r = (if 2 powi ?e \<le> r then ?e else ?e - 1)" by (simp add: flog2_def q)
  then show "2 powi flog2 r \<le> r" and "r < 2 powi (flog2 r + 1)"
    using up lo by (auto split: if_splits)
qed

lemma flog2_mono: "0 < r \<Longrightarrow> r \<le> s \<Longrightarrow> flog2 r \<le> flog2 s"
  using flog2_bounds [of r] flog2_bounds [of s] powi_less_cancel2 [of "flog2 r" "flog2 s + 1"] by simp

lemma round_even_int [simp]: "round_even (of_int i) = i"
  by (simp add: round_even_def)

lemma round_even_bounds: "\<lfloor>q\<rfloor> \<le> round_even q" "round_even q \<le> \<lfloor>q\<rfloor> + 1"
  by (auto simp: round_even_def Let_def)

lemma round_even_mono: "p \<le> q \<Longrightarrow> round_even p \<le> round_even q"
proof (cases "\<lfloor>p\<rfloor> = \<lfloor>q\<rfloor>")
  case True
  assume "p \<le> q"
  with True show ?thesis by (auto simp: round_even_def Let_def)
next
  case False
  assume "p \<le> q"
  with False have "\<lfloor>p\<rfloor> + 1 \<le> \<lfloor>q\<rfloor>" using floor_mono [of p q] by linarith
  then show ?thesis using round_even_bounds [of p] round_even_bounds [of q] by linarith
qed

lemma round_even_ge: "of_int i \<le> q \<Longrightarrow> i \<le> round_even q"
  using round_even_mono [of "of_int i" q] by simp

lemma round_even_le: "q \<le> of_int i \<Longrightarrow> round_even q \<le> i"
  using round_even_mono [of q "of_int i"] by simp

lemma fl_pos_grid: "r = of_int k * 2 powi ulp_exp r \<Longrightarrow> fl_pos r = r"
  unfolding fl_pos_def by (metis nonzero_mult_div_cancel_right powi_pos2 round_even_int less_irrefl)

lemma fl_pos_upper:
  assumes "0 < r"
  shows "fl_pos r \<le> 2 powi (ulp_exp r + 53)"
proof -
  have "r / 2 powi ulp_exp r \<le> 2 powi (flog2 r + 1 - ulp_exp r)"
    using flog2_bounds(2) [OF assms] by (simp add: power_int_diff divide_right_mono)
  also have "\<dots> \<le> 2 powi 53" by (rule powi_mono2) (simp add: ulp_exp_def)
  finally have "round_even (r / 2 powi ulp_exp r) \<le> 2 ^ 53" by (intro round_even_le) simp
  then have "(of_int (round_even (r / 2 powi ulp_exp r)) :: rat) \<le> 2 powi 53"
    by (metis of_int_le_iff of_int_numeral of_int_power power_int_numeral)
  then show ?thesis by (simp add: fl_pos_def powi_add2 mult.commute mult_right_mono)
qed

lemma fl_pos_lower:
  assumes "0 < r" and "ulp_exp r = flog2 r - 52"
  shows "2 powi (ulp_exp r + 52) \<le> fl_pos r"
proof -
  have "(2::rat) powi 52 = 2 powi flog2 r / 2 powi ulp_exp r"
    unfolding assms(2) by (subst power_int_diff [symmetric]) auto
  also have "\<dots> \<le> r / 2 powi ulp_exp r"
    using flog2_bounds(1) [OF assms(1)] by (intro divide_right_mono) auto
  finally have "2 ^ 52 \<le> round_even (r / 2 powi ulp_exp r)" by (intro round_even_ge) simp
  then have "(2 powi 52 :: rat) \<le> of_int (round_even (r / 2 powi ulp_exp r))"
    by (metis of_int_le_iff of_int_numeral of_int_power power_int_numeral)
  then show ?thesis by (simp add: fl_pos_def powi_add2 mult.commute mult_right_mono)
qed

lemma fl_pos_mono:
  assumes "0 < r" and "r \<le> s"
  shows "fl_pos r \<le> fl_pos s"
proof (cases "ulp_exp r = ulp_exp s")
  case True
  have "round_even (r / 2 powi ulp_exp s) \<le> round_even (s / 2 powi ulp_exp s)"
    using assms(2) by (intro round_even_mono divide_right_mono) auto
  then show ?thesis by (simp add: fl_pos_def True mult_right_mono)
next
  case False
  have m: "flog2 r \<le> flog2 s" using flog2_mono [OF assms] .
  with False have lt: "ulp_exp r < ulp_exp s" and es: "ulp_exp s = flog2 s - 52"
    by (auto simp: ulp_exp_def max_def split: if_splits)
  have "fl_pos r \<le> 2 powi (ulp_exp r + 53)" using fl_pos_upper [OF assms(1)] .
  also have "\<dots> \<le> 2 powi (ulp_exp s + 52)" using lt by (intro powi_mono2) simp
  also have "\<dots> \<le> fl_pos s" using assms es by (intro fl_pos_lower) auto
  finally show ?thesis .
qed

lemma fl_pos_nonneg: "0 < r \<Longrightarrow> 0 \<le> fl_pos r"
proof -
  assume "0 < r"
  then have "0 \<le> round_even (r / 2 powi ulp_exp r)" by (intro round_even_ge) simp
  then show ?thesis by (simp add: fl_pos_def)
qed

text \<open>Safe integers, the integers below $2^{53}$ in absolute value, are represented exactly.\<close>

lemma fl_pos_int:
  assumes "0 < i" and "i \<le> 2 ^ 53"
  shows "fl_pos (of_int i) = of_int i"
proof -
  have pos: "(0::rat) < of_int i" using assms by simp
  have "(of_int i :: rat) \<le> of_int (2 ^ 53)" using assms(2) by (simp only: of_int_le_iff)
  then have le: "(of_int i :: rat) \<le> 2 powi 53" by simp
  then have l53: "flog2 (of_int i) \<le> 53"
    using flog2_bounds(1) [OF pos] by (intro powi_le_cancel2) (rule order_trans)
  have l0: "0 \<le> flog2 (of_int i)"
  proof -
    have "(2::rat) powi 0 \<le> of_int i" using assms(1) by simp
    then show ?thesis using flog2_bounds(2) [OF pos] powi_less_cancel2 [of 0 "flog2 (of_int i) + 1"] by simp
  qed
  show ?thesis
  proof (cases "flog2 (of_int i) = 53")
    case True
    then have "(of_int i :: rat) = 2 powi 53" using flog2_bounds(1) [OF pos] le by simp
    moreover have "ulp_exp (of_int i) = 1" using True by (simp add: ulp_exp_def)
    ultimately show ?thesis by (intro fl_pos_grid [where k = "2 ^ 52"]) simp
  next
    case False
    then have u: "ulp_exp (of_int i) \<le> 0" using l53 l0 by (simp add: ulp_exp_def)
    let ?n = "nat (- ulp_exp (of_int i))"
    have "of_int i = of_int (i * 2 ^ ?n) * (2::rat) powi ulp_exp (of_int i)"
      using u by (cases "ulp_exp (of_int i) = 0") (simp_all add: power_int_def power_one_over)
    then show ?thesis by (rule fl_pos_grid)
  qed
qed

lemma fl_int:
  assumes "\<bar>i\<bar> \<le> 2 ^ 53"
  shows "fl (of_int i) = Fin (of_int i)"
proof (cases "i = 0")
  case True
  then show ?thesis by (simp add: fl_def)
next
  case False
  have "fl_pos \<bar>of_int i\<bar> = (of_int \<bar>i\<bar> :: rat)"
    using fl_pos_int [of "\<bar>i\<bar>"] assms False by simp
  moreover have "(of_int \<bar>i\<bar> :: rat) < overflow_bound"
  proof -
    have "\<bar>i\<bar> < 2 ^ 1024" using assms by (rule le_less_trans) simp
    then have "(of_int \<bar>i\<bar> :: rat) < of_int (2 ^ 1024)" by (simp only: of_int_less_iff)
    then show ?thesis by (simp add: overflow_bound_def)
  qed
  ultimately show ?thesis using False by (simp add: fl_def Let_def not_le)
qed

subsection \<open>The order and arithmetic of numbers\<close>

text \<open>\<open><\<close> and \<open><=\<close> are false when an operand is \<open>NaN\<close>; \<open>===\<close> is false on \<open>NaN\<close> too.\<close>

fun num_lt :: "jsnum \<Rightarrow> jsnum \<Rightarrow> bool" where
  "num_lt NaN _ = False"
| "num_lt _ NaN = False"
| "num_lt NInf y = (y \<noteq> NInf)"
| "num_lt PInf _ = False"
| "num_lt (Fin _) NInf = False"
| "num_lt (Fin _) PInf = True"
| "num_lt (Fin x) (Fin y) = (x < y)"

definition num_eq :: "jsnum \<Rightarrow> jsnum \<Rightarrow> bool" where
  "num_eq x y \<longleftrightarrow> x = y \<and> x \<noteq> NaN"

definition num_le :: "jsnum \<Rightarrow> jsnum \<Rightarrow> bool" where
  "num_le x y \<longleftrightarrow> num_lt x y \<or> num_eq x y"

fun num_add :: "jsnum \<Rightarrow> jsnum \<Rightarrow> jsnum" where
  "num_add (Fin x) (Fin y) = fl (x + y)"
| "num_add NaN _ = NaN"
| "num_add _ NaN = NaN"
| "num_add PInf NInf = NaN"
| "num_add NInf PInf = NaN"
| "num_add PInf _ = PInf"
| "num_add NInf _ = NInf"
| "num_add _ PInf = PInf"
| "num_add _ NInf = NInf"

fun num_neg :: "jsnum \<Rightarrow> jsnum" where
  "num_neg NaN = NaN"
| "num_neg PInf = NInf"
| "num_neg NInf = PInf"
| "num_neg (Fin x) = Fin (- x)"

definition num_sub :: "jsnum \<Rightarrow> jsnum \<Rightarrow> jsnum" where
  "num_sub x y = num_add x (num_neg y)"

definition inf_of_sign :: "bool \<Rightarrow> jsnum" where
  "inf_of_sign pos = (if pos then PInf else NInf)"

fun num_mul :: "jsnum \<Rightarrow> jsnum \<Rightarrow> jsnum" where
  "num_mul (Fin x) (Fin y) = fl (x * y)"
| "num_mul NaN _ = NaN"
| "num_mul _ NaN = NaN"
| "num_mul (Fin x) y = (if x = 0 then NaN else inf_of_sign ((0 < x) = (y = PInf)))"
| "num_mul x (Fin y) = (if y = 0 then NaN else inf_of_sign ((0 < y) = (x = PInf)))"
| "num_mul x y = inf_of_sign (x = y)"

fun num_div :: "jsnum \<Rightarrow> jsnum \<Rightarrow> jsnum" where
  "num_div (Fin x) (Fin y) =
     (if y = 0 then (if x = 0 then NaN else inf_of_sign (0 < x)) else fl (x / y))"
| "num_div NaN _ = NaN"
| "num_div _ NaN = NaN"
| "num_div (Fin x) _ = Fin 0"
| "num_div x (Fin y) = inf_of_sign ((0 \<le> y) = (x = PInf))"
| "num_div _ _ = NaN"

fun math_floor :: "jsnum \<Rightarrow> jsnum" where
  "math_floor (Fin x) = Fin (of_int \<lfloor>x\<rfloor>)"
| "math_floor x = x"

definition math_max :: "jsnum \<Rightarrow> jsnum \<Rightarrow> jsnum" where
  "math_max x y = (if x = NaN \<or> y = NaN then NaN else if num_lt x y then y else x)"

definition math_min :: "jsnum \<Rightarrow> jsnum \<Rightarrow> jsnum" where
  "math_min x y = (if x = NaN \<or> y = NaN then NaN else if num_lt y x then y else x)"

definition num_int :: "int \<Rightarrow> jsnum" where
  "num_int i = Fin (of_int i)"

fun is_finite :: "jsnum \<Rightarrow> bool" where
  "is_finite (Fin _) = True"
| "is_finite _ = False"

fun is_integer :: "jsnum \<Rightarrow> bool" where
  "is_integer (Fin x) = (x = of_int \<lfloor>x\<rfloor>)"
| "is_integer _ = False"

fun is_safe_integer :: "jsnum \<Rightarrow> bool" where
  "is_safe_integer (Fin x) = (x = of_int \<lfloor>x\<rfloor> \<and> \<bar>\<lfloor>x\<rfloor>\<bar> < 2 ^ 53)"
| "is_safe_integer _ = False"

text \<open>\<open>Boolean(x)\<close> of a number.\<close>

definition num_truthy :: "jsnum \<Rightarrow> bool" where
  "num_truthy x \<longleftrightarrow> x \<noteq> NaN \<and> x \<noteq> Fin 0"

lemma safe_integer_obtain:
  assumes "is_safe_integer x"
  obtains i where "x = num_int i" and "\<bar>i\<bar> < 2 ^ 53"
  using assms by (cases x) (auto simp: num_int_def)

lemma is_safe_integer_num_int [simp]: "is_safe_integer (num_int i) \<longleftrightarrow> \<bar>i\<bar> < 2 ^ 53"
  by (simp add: num_int_def)

lemma num_int_eq [simp]: "num_int i = num_int j \<longleftrightarrow> i = j"
  by (simp add: num_int_def)

lemma num_lt_int [simp]: "num_lt (num_int i) (num_int j) \<longleftrightarrow> i < j"
  by (simp add: num_int_def)

lemma num_eq_int [simp]: "num_eq (num_int i) (num_int j) \<longleftrightarrow> i = j"
  by (simp add: num_eq_def num_int_def)

lemma num_le_int [simp]: "num_le (num_int i) (num_int j) \<longleftrightarrow> i \<le> j"
  by (auto simp: num_le_def)

lemma num_add_int: "\<bar>i + j\<bar> \<le> 2 ^ 53 \<Longrightarrow> num_add (num_int i) (num_int j) = num_int (i + j)"
  using fl_int [of "i + j"] by (simp add: num_int_def)

lemma num_sub_int: "\<bar>i - j\<bar> \<le> 2 ^ 53 \<Longrightarrow> num_sub (num_int i) (num_int j) = num_int (i - j)"
  using fl_int [of "i - j"] by (simp add: num_int_def num_sub_def)

lemma num_mul_int: "\<bar>i * j\<bar> \<le> 2 ^ 53 \<Longrightarrow> num_mul (num_int i) (num_int j) = num_int (i * j)"
  using fl_int [of "i * j"] by (simp add: num_int_def)

lemma math_max_int [simp]: "math_max (num_int i) (num_int j) = num_int (max i j)"
  by (auto simp: math_max_def num_int_def)

lemma math_min_int [simp]: "math_min (num_int i) (num_int j) = num_int (min i j)"
  by (auto simp: math_min_def num_int_def)

text \<open>Rounding keeps the order of the exact results.\<close>

lemma fl_nonneg: "0 \<le> r \<Longrightarrow> fl r = PInf \<or> (\<exists>q \<ge> 0. fl r = Fin q)"
  using fl_pos_nonneg [of r] by (auto simp: fl_def Let_def)

lemma fl_mono_nonneg:
  assumes "0 \<le> r" and "r \<le> s"
  shows "num_le (fl r) (fl s)"
proof (cases "r = 0")
  case True
  have "fl s = PInf \<or> (\<exists>q \<ge> 0. fl s = Fin q)" using assms by (intro fl_nonneg) simp
  moreover have "fl r = Fin 0" using True by (simp add: fl_def)
  ultimately show ?thesis by (auto simp: num_le_def num_eq_def)
next
  case False
  with assms have "0 < r" "0 < s" by auto
  with fl_pos_mono [OF _ assms(2)] show ?thesis
    by (auto simp: fl_def Let_def num_le_def num_eq_def)
qed

subsection \<open>Printing and reading numbers\<close>

text \<open>
  \<open>String(x)\<close> prints the shortest decimal that rounds back to \<open>x\<close>. With \<open>10^(n-1) \<le> x < 10^n\<close>
  the search runs over the number \<open>k\<close> of digits; a safe integer is printed by its own digits, which
  is what the search finds, since integers below $2^{53}$ are at least one apart. Finite values
  are at least $2^{-1074}$, so 330 decimal shifts bring any of them above 1, and 17 digits
  identify any of them.
\<close>

fun shifts_to_one :: "nat \<Rightarrow> rat \<Rightarrow> nat" where
  "shifts_to_one 0 x = 0"
| "shifts_to_one (Suc fuel) x = (if x \<ge> 1 then 0 else Suc (shifts_to_one fuel (10 * x)))"

definition dec_exp :: "rat \<Rightarrow> int" where
  "dec_exp x =
     (if x \<ge> 1 then int (length (int_digits \<lfloor>x\<rfloor>))
      else 1 - int (shifts_to_one 330 x))"

definition digit_candidates :: "rat \<Rightarrow> int \<Rightarrow> nat \<Rightarrow> int list" where
  "digit_candidates x n k =
     (let q = x / 10 powi (n - int k); f = \<lfloor>q\<rfloor> in
      if q - of_int f < 1/2 \<or> (q - of_int f = 1/2 \<and> even f) then [f, f + 1] else [f + 1, f])"

fun shortest_digits :: "nat \<Rightarrow> rat \<Rightarrow> int \<Rightarrow> nat \<Rightarrow> (int \<times> int) option" where
  "shortest_digits 0 x n k = None"
| "shortest_digits (Suc fuel) x n k =
     (case find (\<lambda>s. fl (of_int s * 10 powi (n - int k)) = Fin x) (digit_candidates x n k) of
        Some s \<Rightarrow> Some (if s = 10 ^ k then (1, n + 1) else (s, n))
      | None \<Rightarrow> shortest_digits fuel x n (Suc k))"

definition layout_digits :: "jsstr \<Rightarrow> int \<Rightarrow> jsstr" where
  "layout_digits ds n =
     (let k = int (length ds) in
      if k \<le> n \<and> n \<le> 21 then ds @ replicate (nat (n - k)) 48
      else if 0 < n \<and> n \<le> 21 then take (nat n) ds @ [46] @ drop (nat n) ds
      else if - 6 < n \<and> n \<le> 0 then [48, 46] @ replicate (nat (- n)) 48 @ ds
      else take 1 ds @ (if k = 1 then [] else [46] @ drop 1 ds) @ [101, if n - 1 < 0 then 45 else 43]
        @ int_digits \<bar>n - 1\<bar>)"

definition pos_to_str :: "rat \<Rightarrow> jsstr" where
  "pos_to_str x =
     (if x = of_int \<lfloor>x\<rfloor> \<and> \<lfloor>x\<rfloor> < 2 ^ 53 then int_digits \<lfloor>x\<rfloor>
      else case shortest_digits 800 x (dec_exp x) 1 of
        Some (s, n) \<Rightarrow> layout_digits (int_digits s) n
      | None \<Rightarrow> [])"

fun num_to_str :: "jsnum \<Rightarrow> jsstr" where
  "num_to_str NaN = js ''NaN''"
| "num_to_str PInf = js ''Infinity''"
| "num_to_str NInf = js ''-Infinity''"
| "num_to_str (Fin x) = (if x < 0 then 45 # pos_to_str (- x) else pos_to_str x)"

lemma num_to_str_int:
  assumes "\<bar>i\<bar> < 2 ^ 53"
  shows "num_to_str (num_int i) = int_str i"
proof (cases "i < 0")
  case True
  have "num_to_str (num_int i) = 45 # pos_to_str (of_int (- i))"
    using True by (simp add: num_int_def)
  also have "pos_to_str (of_int (- i)) = int_digits (- i)"
    using True assms by (simp add: pos_to_str_def)
  finally show ?thesis using True by (simp add: int_str_def)
next
  case False
  have "num_to_str (num_int i) = pos_to_str (of_int i)"
    using False by (simp add: num_int_def)
  also have "\<dots> = int_digits i" using False assms by (simp add: pos_to_str_def)
  finally show ?thesis using False by (simp add: int_str_def)
qed

text \<open>The decimal literals of \<open>Number(s)\<close>: digits, an optional fraction, an optional exponent.
  \<open>take_digits\<close> splits off the leading digits.\<close>

definition take_digits :: "jsstr \<Rightarrow> jsstr \<times> jsstr" where
  "take_digits s = (takeWhile is_digit s, dropWhile is_digit s)"

text \<open>The optional exponent at the end of a literal; \<open>None\<close> when the rest is something else.\<close>

definition read_exponent :: "jsstr \<Rightarrow> int option" where
  "read_exponent s =
     (case s of [] \<Rightarrow> Some 0
      | c # r \<Rightarrow>
        if c = 101 \<or> c = 69 then
          (case r of [] \<Rightarrow> None
           | d # r' \<Rightarrow>
             let ds = (if d = 43 \<or> d = 45 then r' else r) in
             if ds \<noteq> [] \<and> list_all is_digit ds
             then Some (if d = 45 then - digits_val ds else digits_val ds) else None)
        else None)"

definition read_unsigned :: "jsstr \<Rightarrow> rat option" where
  "read_unsigned s =
     (case take_digits s of (ip, r) \<Rightarrow>
       let (fp, r', dot) = (case r of [] \<Rightarrow> ([], r, False)
          | c # q \<Rightarrow> if c = 46 then (fst (take_digits q), snd (take_digits q), True) else ([], r, False))
       in if ip = [] \<and> fp = [] then None
          else map_option (\<lambda>e. of_int (digits_val (ip @ fp)) * 10 powi (e - int (length fp)))
             (read_exponent r'))"

definition hex_val :: "code_unit \<Rightarrow> int option" where
  "hex_val c =
     (if 48 \<le> c \<and> c \<le> 57 then Some (c - 48)
      else if 97 \<le> c \<and> c \<le> 102 then Some (c - 87)
      else if 65 \<le> c \<and> c \<le> 70 then Some (c - 55) else None)"

definition radix_val :: "int \<Rightarrow> jsstr \<Rightarrow> int option" where
  "radix_val b s =
     (if s = [] then None
      else foldl (\<lambda>acc c. case acc of None \<Rightarrow> None | Some a \<Rightarrow>
          (case hex_val c of Some d \<Rightarrow> if d < b then Some (b * a + d) else None | None \<Rightarrow> None))
        (Some 0) s)"

definition read_radix :: "jsstr \<Rightarrow> int option" where
  "read_radix s =
     (if starts_with s (js ''0x'') \<or> starts_with s (js ''0X'') then radix_val 16 (drop 2 s)
      else if starts_with s (js ''0o'') \<or> starts_with s (js ''0O'') then radix_val 8 (drop 2 s)
      else if starts_with s (js ''0b'') \<or> starts_with s (js ''0B'') then radix_val 2 (drop 2 s)
      else None)"

definition str_to_num :: "jsstr \<Rightarrow> jsnum" where
  "str_to_num str =
     (let s = trim str in
      if s = [] then Fin 0
      else case read_radix s of Some i \<Rightarrow> fl (of_int i)
      | None \<Rightarrow>
        let neg = (hd s = 45); u = (if hd s = 43 \<or> hd s = 45 then tl s else s) in
        if u = js ''Infinity'' then (if neg then NInf else PInf)
        else case read_unsigned u of None \<Rightarrow> NaN
          | Some r \<Rightarrow> if neg then num_neg (fl r) else fl r)"

lemma digits_take: "list_all is_digit s \<Longrightarrow> take_digits s = (s, [])"
  by (auto simp: take_digits_def list_all_iff)

lemma read_unsigned_digits:
  "s \<noteq> [] \<Longrightarrow> list_all is_digit s \<Longrightarrow> read_unsigned s = Some (of_int (digits_val s))"
  by (simp add: read_unsigned_def digits_take read_exponent_def)

lemma digits_not_radix:
  assumes "list_all is_digit s"
  shows "read_radix s = None"
proof -
  have "\<not> starts_with s [48, c]" if "\<not> is_digit c" for c
  proof
    assume "starts_with s [48, c]"
    then have "s = 48 # c # drop (Suc (Suc 0)) s" using starts_with_split [of s "[48, c]"] by simp
    then have "c \<in> set s" by (metis list.set_intros(1) list.set_intros(2))
    with that assms show False by (auto simp: list_all_iff)
  qed
  then show ?thesis by (simp add: read_radix_def js_lit is_digit_def)
qed

text \<open>Reading the digits of a safe integer gives the integer.\<close>

lemma str_to_num_int_digits:
  assumes "0 \<le> n" and "n < 2 ^ 53"
  shows "str_to_num (int_digits n) = num_int n"
proof -
  let ?s = "int_digits n"
  have dig: "list_all is_digit ?s" using assms(1) by (auto simp: list_all_iff int_digits_digit)
  then have tr: "trim ?s = ?s"
    using digit_not_ws by (intro trim_no_ws) (auto simp: list_all_iff)
  have hd: "is_digit (hd ?s)" using dig by (simp add: list_all_iff)
  then have sgn: "hd ?s \<noteq> 45" "hd ?s \<noteq> 43" by (auto simp: is_digit_def)
  have "?s \<noteq> js ''Infinity''" using hd by (auto simp: js_lit is_digit_def)
  moreover have "fl (of_int n) = Fin (of_int n)" using assms by (intro fl_int) simp
  ultimately show ?thesis
    using sgn dig by (simp add: str_to_num_def tr digits_not_radix read_unsigned_digits num_int_def)
qed

end
