(* ===== verification/JsValue.thy ===== *)
theory JsValue
  imports JsNumber
begin

section \<open>JavaScript values and JSON\<close>

text \<open>
  Values of type \<open>unknown\<close> in the sources, and the \<open>JSON\<close> object of the runtime. An object is
  the association list of its own properties in creation order; \<open>obj_entries\<close> lists them in the
  order \<open>Object.entries\<close> does (array-index keys first, ascending, then the others in creation
  order). \<open>json_parse\<close> is the JSON grammar of ECMAScript, with \<open>None\<close> for the \<open>SyntaxError\<close> the
  runtime throws; \<open>json_stringify\<close> prints without indentation.

  The main lemma, \<open>json_roundtrip\<close>, is that parsing what was printed gives the value back.
\<close>

datatype jsval =
    JUndef
  | JNull
  | JBool bool
  | JNum jsnum
  | JStr jsstr
  | JArr "jsval list"
  | JObj "(jsstr \<times> jsval) list"

subsection \<open>Reading values\<close>

fun truthy :: "jsval \<Rightarrow> bool" where
  "truthy JUndef = False"
| "truthy JNull = False"
| "truthy (JBool b) = b"
| "truthy (JNum x) = num_truthy x"
| "truthy (JStr s) = (s \<noteq> [])"
| "truthy (JArr _) = True"
| "truthy (JObj _) = True"

fun is_nullish :: "jsval \<Rightarrow> bool" where
  "is_nullish JUndef = True"
| "is_nullish JNull = True"
| "is_nullish _ = False"

text \<open>\<open>typeof v === 'object' && !Array.isArray(v) && v !== null\<close>.\<close>

fun is_plain_object :: "jsval \<Rightarrow> bool" where
  "is_plain_object (JObj _) = True"
| "is_plain_object _ = False"

text \<open>\<open>===\<close>; objects are compared by identity, and the operands compared in the sources never share
  one.\<close>

fun strict_eq :: "jsval \<Rightarrow> jsval \<Rightarrow> bool" where
  "strict_eq (JNum x) (JNum y) = num_eq x y"
| "strict_eq (JStr x) (JStr y) = (x = y)"
| "strict_eq (JBool x) (JBool y) = (x = y)"
| "strict_eq JNull JNull = True"
| "strict_eq JUndef JUndef = True"
| "strict_eq _ _ = False"

text \<open>Property read; a missing property, and any property of a value without own string-keyed
  properties, is \<open>undefined\<close>. \<open>obj_get\<close> is applied to non-null values only.\<close>

fun obj_get :: "jsval \<Rightarrow> jsstr \<Rightarrow> jsval" where
  "obj_get (JObj ps) k = (case map_of ps k of Some v \<Rightarrow> v | None \<Rightarrow> JUndef)"
| "obj_get _ k = JUndef"

text \<open>\<open>v?.k\<close>.\<close>

definition opt_get :: "jsval \<Rightarrow> string \<Rightarrow> jsval" where
  "opt_get v k = (if is_nullish v then JUndef else obj_get v (js k))"

definition obj_put :: "(jsstr \<times> jsval) list \<Rightarrow> jsstr \<times> jsval \<Rightarrow> (jsstr \<times> jsval) list" where
  "obj_put ps kv =
     (if fst kv \<in> fst ` set ps then map (\<lambda>p. if fst p = fst kv then kv else p) ps else ps @ [kv])"

text \<open>Array-index keys: canonical numerals below $2^{32} - 1$.\<close>

definition is_index_key :: "jsstr \<Rightarrow> bool" where
  "is_index_key k \<longleftrightarrow> k \<noteq> [] \<and> list_all is_digit k \<and> (k = [48] \<or> hd k \<noteq> 48) \<and>
     digits_val k < 2 ^ 32 - 1"

definition obj_entries :: "(jsstr \<times> jsval) list \<Rightarrow> (jsstr \<times> jsval) list" where
  "obj_entries ps =
     sort_key (\<lambda>p. digits_val (fst p)) (filter (\<lambda>p. is_index_key (fst p)) ps) @
     filter (\<lambda>p. \<not> is_index_key (fst p)) ps"

lemma set_obj_entries [simp]: "set (obj_entries ps) = set ps"
  by (auto simp: obj_entries_def)

text \<open>\<open>String(v)\<close>; an array joins its elements with commas, \<open>null\<close> and \<open>undefined\<close> elements
  printing as nothing.\<close>

fun to_str :: "jsval \<Rightarrow> jsstr" where
  "to_str JUndef = js ''undefined''"
| "to_str JNull = js ''null''"
| "to_str (JBool b) = (if b then js ''true'' else js ''false'')"
| "to_str (JNum x) = num_to_str x"
| "to_str (JStr s) = s"
| "to_str (JArr vs) = js_join [44] (map (\<lambda>v. if is_nullish v then [] else to_str v) vs)"
| "to_str (JObj _) = js ''[object Object]''"

text \<open>\<open>Number(v)\<close>.\<close>

fun to_num :: "jsval \<Rightarrow> jsnum" where
  "to_num JUndef = NaN"
| "to_num JNull = Fin 0"
| "to_num (JBool b) = (if b then Fin 1 else Fin 0)"
| "to_num (JNum x) = x"
| "to_num (JStr s) = str_to_num s"
| "to_num (JArr vs) = str_to_num (to_str (JArr vs))"
| "to_num (JObj _) = NaN"

lemma map_of_obj_put [simp]: "map_of (obj_put ps (k, v)) k' = (if k' = k then Some v else map_of ps k')"
proof (cases "k \<in> fst ` set ps")
  case True
  have "map_of (map (\<lambda>p. if fst p = k then (k, v) else p) ps) k' =
      (if k' = k \<and> k \<in> fst ` set ps then Some v else map_of ps k')"
    by (induction ps) force+
  with True show ?thesis by (simp add: obj_put_def)
next
  case False
  then have "map_of ps k = None" by (simp add: map_of_eq_None_iff)
  with False show ?thesis by (auto simp: obj_put_def map_add_def split: option.splits)
qed

subsection \<open>JSON text: strings\<close>

definition hex_digit :: "int \<Rightarrow> code_unit" where
  "hex_digit d = (if d < 10 then 48 + d else 87 + d)"

definition hex4 :: "code_unit \<Rightarrow> jsstr" where
  "hex4 c = [hex_digit (c div 4096 mod 16), hex_digit (c div 256 mod 16),
             hex_digit (c div 16 mod 16), hex_digit (c mod 16)]"

definition read_hex4 :: "code_unit \<Rightarrow> code_unit \<Rightarrow> code_unit \<Rightarrow> code_unit \<Rightarrow> code_unit option" where
  "read_hex4 a b c d =
     (case (hex_val a, hex_val b, hex_val c, hex_val d) of
        (Some w, Some x, Some y, Some z) \<Rightarrow> Some (4096 * w + 256 * x + 16 * y + z)
      | _ \<Rightarrow> None)"

definition is_high_surrogate :: "code_unit \<Rightarrow> bool" where
  "is_high_surrogate c \<longleftrightarrow> 55296 \<le> c \<and> c \<le> 56319"

definition is_low_surrogate :: "code_unit \<Rightarrow> bool" where
  "is_low_surrogate c \<longleftrightarrow> 56320 \<le> c \<and> c \<le> 57343"

definition unicode_escape :: "code_unit \<Rightarrow> jsstr" where
  "unicode_escape c = [92, 117] @ hex4 c"

definition quote_unit :: "code_unit \<Rightarrow> jsstr" where
  "quote_unit c =
     (if c = 8 then [92, 98] else if c = 9 then [92, 116] else if c = 10 then [92, 110]
      else if c = 12 then [92, 102] else if c = 13 then [92, 114]
      else if c = 34 then [92, 34] else if c = 92 then [92, 92]
      else if c < 32 \<or> is_high_surrogate c \<or> is_low_surrogate c then unicode_escape c else [c])"

text \<open>A surrogate pair is copied, a lone surrogate is escaped.\<close>

fun quote_units :: "jsstr \<Rightarrow> jsstr" where
  "quote_units [] = []"
| "quote_units [c] = quote_unit c"
| "quote_units (c # d # s) =
     (if is_high_surrogate c \<and> is_low_surrogate d then c # d # quote_units s
      else quote_unit c @ quote_units (d # s))"

definition json_quote :: "jsstr \<Rightarrow> jsstr" where
  "json_quote s = [34] @ quote_units s @ [34]"

definition unescape :: "code_unit \<Rightarrow> code_unit option" where
  "unescape c =
     (if c = 34 \<or> c = 92 \<or> c = 47 then Some c else if c = 98 then Some 8
      else if c = 102 then Some 12 else if c = 110 then Some 10
      else if c = 114 then Some 13 else if c = 116 then Some 9 else None)"

text \<open>The rest of a string literal after its opening quote: the string and what follows.\<close>

fun read_string :: "jsstr \<Rightarrow> (jsstr \<times> jsstr) option" where
  "read_string [] = None"
| "read_string (c # s) =
     (if c = 34 then Some ([], s)
      else if c = 92 then
        (case s of [] \<Rightarrow> None
         | d # s' \<Rightarrow>
           if d = 117 then
             (case s' of w # x # y # z # r \<Rightarrow>
                (case read_hex4 w x y z of None \<Rightarrow> None
                 | Some v \<Rightarrow> map_option (\<lambda>(t, q). (v # t, q)) (read_string r))
              | _ \<Rightarrow> None)
           else (case unescape d of None \<Rightarrow> None
                 | Some v \<Rightarrow> map_option (\<lambda>(t, q). (v # t, q)) (read_string s')))
      else if c < 32 then None
      else map_option (\<lambda>(t, q). (c # t, q)) (read_string s))"

lemma read_string_length: "read_string s = Some (t, r) \<Longrightarrow> length r < length s"
proof (induction s arbitrary: t r rule: read_string.induct)
  case (2 c s)
  then show ?case by (fastforce split: if_splits list.splits option.splits)
qed simp

definition wf_units :: "jsstr \<Rightarrow> bool" where
  "wf_units s \<longleftrightarrow> list_all (\<lambda>c. 0 \<le> c \<and> c < 65536) s"

lemma wf_units_simps [simp]:
  "wf_units []" "wf_units (c # s) \<longleftrightarrow> 0 \<le> c \<and> c < 65536 \<and> wf_units s"
  "wf_units (s @ t) \<longleftrightarrow> wf_units s \<and> wf_units t"
  by (auto simp: wf_units_def)

lemma of_char_bounds: "0 \<le> (of_char c :: int)" "(of_char c :: int) < 256"
proof -
  have "(of_char c :: int) = int (of_char c)" by (simp add: of_nat_of_char)
  then show "0 \<le> (of_char c :: int)" "(of_char c :: int) < 256"
    using nat_of_char_less_256 [of c] by simp_all
qed

lemma wf_units_js [simp]: "wf_units (js s)"
  using of_char_bounds by (induction s) (auto simp: js_lit intro: less_trans [of _ 256])

lemma js_inject: "js s = js t \<longleftrightarrow> s = t"
  unfolding js_def by (rule inj_map_eq_map) (auto simp: inj_def)

lemma index_key_lit: "\<not> is_digit (of_char c) \<Longrightarrow> \<not> is_index_key (js (c # s))"
  by (simp add: is_index_key_def js_lit)

lemma hex_val_digit: "0 \<le> d \<Longrightarrow> d < 16 \<Longrightarrow> hex_val (hex_digit d) = Some d"
  by (auto simp: hex_val_def hex_digit_def)

lemma read_hex4_digits:
  assumes "0 \<le> w" "w < 16" "0 \<le> x" "x < 16" "0 \<le> y" "y < 16" "0 \<le> z" "z < 16"
  shows "read_hex4 (hex_digit w) (hex_digit x) (hex_digit y) (hex_digit z) =
     Some (4096 * w + 256 * x + 16 * y + z)"
  using assms by (simp add: read_hex4_def hex_val_digit)

lemma hex4_value:
  assumes "0 \<le> c" and "c < (65536 :: int)"
  shows "4096 * (c div 4096 mod 16) + 256 * (c div 256 mod 16) + 16 * (c div 16 mod 16) + c mod 16 = c"
proof -
  have "c mod 256 = 16 * (c div 16 mod 16) + c mod 16" using zmod_zmult2_eq [of 16 c 16] by simp
  moreover have "c mod 4096 = 256 * (c div 256 mod 16) + c mod 256"
    using zmod_zmult2_eq [of 16 c 256] by simp
  moreover have "c mod 65536 = 4096 * (c div 4096 mod 16) + c mod 4096"
    using zmod_zmult2_eq [of 16 c 4096] by simp
  moreover have "c mod 65536 = c" using assms by simp
  ultimately show ?thesis by linarith
qed

lemma read_hex4_hex4:
  assumes "0 \<le> c" and "c < 65536"
  shows "read_hex4 (hex_digit (c div 4096 mod 16)) (hex_digit (c div 256 mod 16))
    (hex_digit (c div 16 mod 16)) (hex_digit (c mod 16)) = Some c"
proof -
  have "read_hex4 (hex_digit (c div 4096 mod 16)) (hex_digit (c div 256 mod 16))
    (hex_digit (c div 16 mod 16)) (hex_digit (c mod 16)) =
    Some (4096 * (c div 4096 mod 16) + 256 * (c div 256 mod 16) + 16 * (c div 16 mod 16) + c mod 16)"
    by (rule read_hex4_digits) auto
  then show ?thesis by (simp only: hex4_value [OF assms])
qed

lemma read_string_escape:
  "0 \<le> c \<Longrightarrow> c < 65536 \<Longrightarrow>
   read_string (unicode_escape c @ s) = map_option (\<lambda>(t, q). (c # t, q)) (read_string s)"
  using read_hex4_hex4 [of c] by (simp add: unicode_escape_def hex4_def)

lemma read_string_quote_unit:
  assumes "0 \<le> c" and "c < 65536"
  shows "read_string (quote_unit c @ s) = map_option (\<lambda>(t, q). (c # t, q)) (read_string s)"
  using assms read_string_escape [OF assms, of s]
  by (auto simp: quote_unit_def unescape_def)

lemma read_string_plain:
  "c \<noteq> 34 \<Longrightarrow> c \<noteq> 92 \<Longrightarrow> 32 \<le> c \<Longrightarrow>
   read_string (c # s) = map_option (\<lambda>(t, q). (c # t, q)) (read_string s)"
  by simp

lemma read_string_quote:
  "wf_units s \<Longrightarrow> read_string (quote_units s @ 34 # r) = Some (s, r)"
proof (induction s rule: quote_units.induct)
  case (3 c d s)
  show ?case
  proof (cases "is_high_surrogate c \<and> is_low_surrogate d")
    case True
    then have "read_string (quote_units s @ 34 # r) = Some (s, r)" using 3 by simp
    with True show ?thesis
      by (simp add: is_high_surrogate_def is_low_surrogate_def read_string_plain del: read_string.simps)
  next
    case False
    then have "read_string (quote_units (d # s) @ 34 # r) = Some (d # s, r)" using 3 by simp
    with False 3(3) show ?thesis
      by (auto simp: read_string_quote_unit simp del: read_string.simps)
  qed
qed (simp_all add: read_string_quote_unit)

subsection \<open>JSON text: values\<close>

fun skip_json_ws :: "jsstr \<Rightarrow> jsstr" where
  "skip_json_ws [] = []"
| "skip_json_ws (c # s) = (if c = 9 \<or> c = 10 \<or> c = 13 \<or> c = 32 then skip_json_ws s else c # s)"

lemma length_skip_json_ws: "length (skip_json_ws s) \<le> length s"
  by (induction s) auto

lemma skip_json_ws_Cons: "skip_json_ws s = c # r \<Longrightarrow> length r < length s"
  using length_skip_json_ws [of s] by simp

text \<open>A number token: minus sign, integer part without leading zeros, fraction, exponent. The
  token is read by \<open>str_to_num\<close>.\<close>

definition span_int :: "jsstr \<Rightarrow> (jsstr \<times> jsstr) option" where
  "span_int s =
     (case take_digits s of (ds, r) \<Rightarrow>
        if ds = [] then None
        else if hd ds = 48 then Some ([48], drop 1 s) else Some (ds, r))"

definition span_frac :: "jsstr \<Rightarrow> (jsstr \<times> jsstr) option" where
  "span_frac s =
     (case s of [] \<Rightarrow> Some ([], [])
      | c # r \<Rightarrow> if c = 46 then
          (case take_digits r of (ds, q) \<Rightarrow> if ds = [] then None else Some (c # ds, q))
        else Some ([], s))"

definition span_exp :: "jsstr \<Rightarrow> (jsstr \<times> jsstr) option" where
  "span_exp s =
     (case s of [] \<Rightarrow> Some ([], [])
      | c # r \<Rightarrow> if c = 101 \<or> c = 69 then
          (let sg = (case r of [] \<Rightarrow> [] | d # _ \<Rightarrow> if d = 43 \<or> d = 45 then [d] else []) in
           case take_digits (drop (length sg) r) of (ds, q) \<Rightarrow>
             if ds = [] then None else Some (c # sg @ ds, q))
        else Some ([], s))"

definition span_number :: "jsstr \<Rightarrow> (jsstr \<times> jsstr) option" where
  "span_number s =
     (let sg = (case s of [] \<Rightarrow> [] | d # _ \<Rightarrow> if d = 45 then [d] else []) in
      case span_int (drop (length sg) s) of None \<Rightarrow> None
      | Some (ip, r) \<Rightarrow> (case span_frac r of None \<Rightarrow> None
      | Some (fp, r') \<Rightarrow> (case span_exp r' of None \<Rightarrow> None
      | Some (ep, r'') \<Rightarrow> Some (sg @ ip @ fp @ ep, r''))))"

definition read_word :: "jsstr \<Rightarrow> jsval \<Rightarrow> jsstr \<Rightarrow> (jsval \<times> jsstr) option" where
  "read_word w v s = (if starts_with s w then Some (v, drop (length w) s) else None)"

definition read_scalar :: "jsstr \<Rightarrow> (jsval \<times> jsstr) option" where
  "read_scalar s =
     (if hd s = 116 then read_word (js ''true'') (JBool True) s
      else if hd s = 102 then read_word (js ''false'') (JBool False) s
      else if hd s = 110 then read_word (js ''null'') JNull s
      else case span_number s of None \<Rightarrow> None | Some (t, r) \<Rightarrow> Some (JNum (str_to_num t), r))"

text \<open>The recursive descent. A sub-parser always consumes input; the length tests make that
  visible to the termination proof and never fail (\<open>json_value_length\<close>).\<close>

function (sequential) json_value :: "jsstr \<Rightarrow> (jsval \<times> jsstr) option"
  and json_elems :: "jsstr \<Rightarrow> (jsval list \<times> jsstr) option"
  and json_members :: "jsstr \<Rightarrow> ((jsstr \<times> jsval) list \<times> jsstr) option" where
  "json_value s =
     (case skip_json_ws s of [] \<Rightarrow> None
      | c # r \<Rightarrow>
        if c = 123 then
          (case skip_json_ws r of [] \<Rightarrow> None
           | d # q \<Rightarrow> if d = 125 then Some (JObj [], q)
               else map_option (\<lambda>(ps, t). (JObj (foldl obj_put [] ps), t)) (json_members r))
        else if c = 91 then
          (case skip_json_ws r of [] \<Rightarrow> None
           | d # q \<Rightarrow> if d = 93 then Some (JArr [], q)
               else map_option (\<lambda>(vs, t). (JArr vs, t)) (json_elems r))
        else if c = 34 then map_option (\<lambda>(t, q). (JStr t, q)) (read_string r)
        else read_scalar (c # r))"
| "json_elems s =
     (case json_value s of None \<Rightarrow> None
      | Some (v, r) \<Rightarrow>
        if length s \<le> length r then None
        else (case skip_json_ws r of [] \<Rightarrow> None
          | c # q \<Rightarrow> if c = 44 then map_option (\<lambda>(vs, t). (v # vs, t)) (json_elems q)
              else if c = 93 then Some ([v], q) else None))"
| "json_members s =
     (case skip_json_ws s of [] \<Rightarrow> None
      | c # r \<Rightarrow>
        if c \<noteq> 34 then None
        else (case read_string r of None \<Rightarrow> None
          | Some (k, r1) \<Rightarrow>
            (case skip_json_ws r1 of [] \<Rightarrow> None
             | d # r2 \<Rightarrow>
               if d \<noteq> 58 \<or> length s \<le> length r2 then None
               else (case json_value r2 of None \<Rightarrow> None
                 | Some (v, r3) \<Rightarrow>
                   if length s \<le> length r3 then None
                   else (case skip_json_ws r3 of [] \<Rightarrow> None
                     | e # r4 \<Rightarrow>
                       if e = 44 then map_option (\<lambda>(ps, t). ((k, v) # ps, t)) (json_members r4)
                       else if e = 125 then Some ([(k, v)], r4) else None)))))"
  by pat_completeness auto
termination
  by (relation "measures [\<lambda>x. case x of Inl s \<Rightarrow> length s | Inr (Inl s) \<Rightarrow> length s | Inr (Inr s) \<Rightarrow> length s,
      \<lambda>x. case x of Inl _ \<Rightarrow> 0 | _ \<Rightarrow> 1]")
    (auto dest!: skip_json_ws_Cons)

definition json_parse :: "jsstr \<Rightarrow> jsval option" where
  "json_parse s =
     (case json_value s of None \<Rightarrow> None
      | Some (v, r) \<Rightarrow> if skip_json_ws r = [] then Some v else None)"

text \<open>Printing. \<open>undefined\<close> is dropped from objects and printed as \<open>null\<close> in arrays; a number
  that is not finite prints as \<open>null\<close>.\<close>

lemma size_obj_entries:
  assumes "(k, v) \<in> set (obj_entries ps)"
  shows "size v < Suc (size_list (\<lambda>x. Suc (size (snd x))) ps)"
proof -
  from assms have "(k, v) \<in> set ps" by simp
  then have "Suc (size v) \<le> size_list (\<lambda>x. Suc (size (snd x))) ps"
    by (rule size_list_estimation') simp
  then show ?thesis by simp
qed

function json_print :: "jsval \<Rightarrow> jsstr" where
  "json_print JUndef = js ''null''"
| "json_print JNull = js ''null''"
| "json_print (JBool b) = (if b then js ''true'' else js ''false'')"
| "json_print (JNum x) = (if is_finite x then num_to_str x else js ''null'')"
| "json_print (JStr s) = json_quote s"
| "json_print (JArr vs) = [91] @ js_join [44] (map json_print vs) @ [93]"
| "json_print (JObj ps) =
     [123] @ js_join [44] (map (\<lambda>(k, v). json_quote k @ [58] @ json_print v)
        (filter (\<lambda>(k, v). v \<noteq> JUndef) (obj_entries ps))) @ [125]"
  by pat_completeness auto
termination
proof (relation "measure size", goal_cases)
  case 1
  show ?case by simp
next
  case (2 vs v)
  then show ?case by (simp add: less_Suc_eq_le size_list_estimation')
next
  case (3 ps x k v)
  then have "(k, v) \<in> set (obj_entries ps)" by auto
  from size_obj_entries [OF this] show ?case by (simp add: size_prod_simp)
qed

text \<open>\<open>JSON.stringify(v)\<close> is \<open>undefined\<close> on \<open>undefined\<close>.\<close>

definition json_stringify :: "jsval \<Rightarrow> jsstr option" where
  "json_stringify v = (if v = JUndef then None else Some (json_print v))"

subsection \<open>Round trip\<close>

text \<open>A number whose printed form is one number token that reads back as the number; safe integers
  are (\<open>safe_num_token\<close>), and so is any number the printing search finds digits for.\<close>

definition num_token :: "jsnum \<Rightarrow> bool" where
  "num_token x \<longleftrightarrow> is_finite x \<and> span_number (num_to_str x) = Some (num_to_str x, []) \<and>
     str_to_num (num_to_str x) = x"

text \<open>The values the round trip holds for: no \<open>undefined\<close>, numbers that read back, strings of 16-bit
  units, objects with distinct keys that are no array indices.\<close>

fun plain :: "jsval \<Rightarrow> bool" where
  "plain JUndef = False"
| "plain JNull = True"
| "plain (JBool b) = True"
| "plain (JNum x) = num_token x"
| "plain (JStr s) = wf_units s"
| "plain (JArr vs) = list_all plain vs"
| "plain (JObj ps) = (distinct (map fst ps) \<and>
     list_all (\<lambda>p. wf_units (fst p) \<and> \<not> is_index_key (fst p) \<and> plain (snd p)) ps)"

text \<open>What may follow a value inside an array or an object, a line break included.\<close>

definition closes :: "jsstr \<Rightarrow> bool" where
  "closes r \<longleftrightarrow> r = [] \<or> hd r = 44 \<or> hd r = 93 \<or> hd r = 125 \<or> hd r = 10"

lemma closes_simps [simp]:
  "closes []" "closes (44 # r)" "closes (93 # r)" "closes (125 # r)" "closes (10 # r)"
  by (auto simp: closes_def)

lemma take_digits_append:
  "list_all is_digit ds \<Longrightarrow> r = [] \<or> \<not> is_digit (hd r) \<Longrightarrow> take_digits (ds @ r) = (ds, r)"
  by (cases r) (auto simp: take_digits_def list_all_iff takeWhile_append2 dropWhile_append2)

lemma hd_int_digits: "0 \<le> n \<Longrightarrow> hd (int_digits n) = 48 \<Longrightarrow> n = 0"
proof (induction n rule: int_digits.induct)
  case (1 n)
  show ?case
  proof (cases "n < 10")
    case True
    with 1 show ?thesis by (simp add: int_digits.simps [of n])
  next
    case False
    with 1 have "n div 10 = 0" by (simp add: int_digits.simps [of n])
    with False show ?thesis by simp
  qed
qed

lemma span_number_closes:
  "closes r \<Longrightarrow> span_frac r = Some ([], r) \<and> span_exp r = Some ([], r)"
  by (cases r) (auto simp: closes_def span_frac_def span_exp_def)

lemma span_int_digits:
  assumes "0 \<le> n" and "closes r"
  shows "span_int (int_digits n @ r) = Some (int_digits n, r)"
proof -
  have dig: "list_all is_digit (int_digits n)" using assms(1) by (auto simp: list_all_iff int_digits_digit)
  have td: "take_digits (int_digits n @ r) = (int_digits n, r)"
    using dig assms(2) by (intro take_digits_append) (auto simp: closes_def is_digit_def)
  show ?thesis
  proof (cases "hd (int_digits n) = 48")
    case True
    then have "n = 0" using assms(1) hd_int_digits by blast
    then have "int_digits n = [48]" by (simp add: int_digits.simps)
    then show ?thesis using td by (simp add: span_int_def)
  next
    case False
    then show ?thesis using td by (simp add: span_int_def)
  qed
qed

lemma span_number_int:
  assumes "closes r"
  shows "span_number (int_str i @ r) = Some (int_str i, r)"
proof (cases "i < 0")
  case True
  then show ?thesis
    using span_int_digits [of "- i" r] span_number_closes assms
    by (simp add: int_str_def span_number_def)
next
  case False
  obtain c cs where ds: "int_digits i = c # cs" by (meson int_digits_nonempty neq_Nil_conv)
  have "is_digit c" using int_digits_digit [of i c] False ds by simp
  then have "c \<noteq> 45" by (auto simp: is_digit_def)
  then show ?thesis
    using span_int_digits [of i r] span_number_closes assms False ds
    by (simp add: int_str_def span_number_def)
qed

lemma str_to_num_int_str:
  assumes "\<bar>i\<bar> < 2 ^ 53"
  shows "str_to_num (int_str i) = num_int i"
proof (cases "i < 0")
  case False
  then show ?thesis using str_to_num_int_digits [of i] assms by (simp add: int_str_def)
next
  case True
  let ?ds = "int_digits (- i)"
  have dig: "list_all is_digit ?ds" using True int_digits_digit [of "- i"] by (auto simp: list_all_iff)
  have "trim (45 # ?ds) = 45 # ?ds"
    using dig digit_not_ws by (intro trim_no_ws) (auto simp: list_all_iff is_ws_def)
  moreover have "read_radix (45 # ?ds) = None"
    by (simp add: read_radix_def starts_with_def js_lit)
  moreover have "hd ?ds \<noteq> hd (js ''Infinity'')"
    using dig by (cases ?ds) (auto simp: js_lit is_digit_def)
  then have "?ds \<noteq> js ''Infinity''" by metis
  moreover have "fl (of_int (- i)) = Fin (of_int (- i))" using assms True by (intro fl_int) simp
  ultimately show ?thesis
    using True dig by (simp add: str_to_num_def int_str_def read_unsigned_digits num_int_def)
qed

lemma int_str_first: "\<exists>c cs. int_str i = c # cs \<and> (c = 45 \<or> is_digit c)"
proof (cases "i < 0")
  case False
  obtain c cs where "int_digits i = c # cs" by (meson int_digits_nonempty neq_Nil_conv)
  then show ?thesis using int_digits_digit [of i c] False by (simp add: int_str_def)
qed (simp add: int_str_def)

lemma safe_num_token [simp]:
  assumes "is_safe_integer x"
  shows "num_token x"
proof -
  obtain i where x: "x = num_int i" and i: "\<bar>i\<bar> < 2 ^ 53" using safe_integer_obtain [OF assms] by auto
  have "num_to_str (num_int i) = int_str i" by (rule num_to_str_int [OF i])
  then show ?thesis using span_number_int [of "[]" i] str_to_num_int_str [OF i]
    by (simp add: num_token_def x) (simp add: num_int_def)
qed

text \<open>A number token is read the same whatever closes it.\<close>

lemma digits_closes:
  assumes "closes r"
  shows "takeWhile is_digit (s @ r) = takeWhile is_digit s" "dropWhile is_digit (s @ r) = dropWhile is_digit s @ r"
proof -
  have "takeWhile is_digit r = [] \<and> dropWhile is_digit r = r"
    using assms by (cases r) (auto simp: closes_def is_digit_def)
  then show "takeWhile is_digit (s @ r) = takeWhile is_digit s" "dropWhile is_digit (s @ r) = dropWhile is_digit s @ r"
    by (induction s) simp_all
qed

lemma span_closes:
  assumes "closes r"
  shows "span_int s = Some (a, q) \<Longrightarrow> span_int (s @ r) = Some (a, q @ r)"
    and "span_frac s = Some (a, q) \<Longrightarrow> span_frac (s @ r) = Some (a, q @ r)"
    and "span_exp s = Some (a, q) \<Longrightarrow> span_exp (s @ r) = Some (a, q @ r)"
proof -
  note digits = digits_closes [OF assms] take_digits_def
  show "span_int s = Some (a, q) \<Longrightarrow> span_int (s @ r) = Some (a, q @ r)"
    by (cases s) (auto simp: span_int_def digits split: if_splits)
  show "span_frac s = Some (a, q) \<Longrightarrow> span_frac (s @ r) = Some (a, q @ r)"
    using span_number_closes [OF assms] by (cases s) (auto simp: span_frac_def digits split: if_splits)
  show "span_exp s = Some (a, q) \<Longrightarrow> span_exp (s @ r) = Some (a, q @ r)"
  proof (cases s)
    case (Cons c t)
    assume "span_exp s = Some (a, q)"
    then show ?thesis using Cons
      by (cases t) (auto simp: span_exp_def Let_def digits split: if_splits)
  qed (use span_number_closes [OF assms] in \<open>simp add: span_exp_def\<close>)
qed

lemma span_number_append:
  assumes "closes r" and "span_number s = Some (a, q)"
  shows "span_number (s @ r) = Some (a, q @ r)"
proof -
  define sg :: jsstr where "sg = (case s of [] \<Rightarrow> [] | d # _ \<Rightarrow> if d = 45 then [d] else [])"
  obtain ip q1 fp q2 ep where spans: "span_int (drop (length sg) s) = Some (ip, q1)" "span_frac q1 = Some (fp, q2)"
      "span_exp q2 = Some (ep, q)" "a = sg @ ip @ fp @ ep"
    using assms(2) unfolding span_number_def sg_def [symmetric] Let_def by (auto split: option.splits)
  then have "s \<noteq> []" by (auto simp: sg_def span_int_def take_digits_def)
  then have "(case s @ r of [] \<Rightarrow> [] | d # _ \<Rightarrow> if d = 45 then [d] else []) = sg"
      "drop (length sg) (s @ r) = drop (length sg) s @ r"
    by (auto simp: sg_def split: list.splits)
  then show ?thesis
    using spans span_closes [OF assms(1)] unfolding span_number_def by (simp add: Let_def)
qed

lemma number_first:
  assumes "span_number s = Some (a, q)"
  shows "\<exists>c cs. s = c # cs \<and> (c = 45 \<or> is_digit c)"
  using assms by (cases s) (auto simp: span_number_def span_int_def take_digits_def split: option.splits if_splits)

lemma read_number:
  assumes "closes r" and "num_token x"
  shows "json_value (num_to_str x @ r) = Some (JNum x, r)"
proof -
  have tok: "span_number (num_to_str x) = Some (num_to_str x, [])" and x: "str_to_num (num_to_str x) = x"
    using assms(2) by (simp_all add: num_token_def)
  obtain c cs where i: "num_to_str x = c # cs" and c: "c = 45 \<or> is_digit c"
    using number_first [OF tok] by blast
  have "skip_json_ws (num_to_str x @ r) = num_to_str x @ r" using i c by (auto simp: is_digit_def)
  moreover have "read_scalar (num_to_str x @ r) = Some (JNum x, r)"
    using span_number_append [OF assms(1) tok] x i c by (auto simp: read_scalar_def is_digit_def)
  ultimately show ?thesis using i c by (auto simp: is_digit_def)
qed

text \<open>The first code unit of a printed value never closes an array or is white space.\<close>

lemma json_print_first:
  "plain v \<Longrightarrow> \<exists>c cs. json_print v = c # cs \<and> skip_json_ws (c # cs) = c # cs \<and> c \<noteq> 93 \<and> c \<noteq> 125"
proof (cases v)
  case (JNum x)
  moreover assume "plain v"
  ultimately have "span_number (num_to_str x) = Some (num_to_str x, [])" "is_finite x"
    by (simp_all add: num_token_def)
  moreover obtain c cs where "num_to_str x = c # cs" "c = 45 \<or> is_digit c"
    using number_first [OF calculation(1)] by blast
  ultimately show ?thesis using JNum by (intro exI [of _ c] exI [of _ cs]) (auto simp: is_digit_def)
qed (auto simp: js_lit json_quote_def)

lemma obj_put_fresh:
  "distinct (map fst (qs @ ps)) \<Longrightarrow> foldl obj_put qs ps = qs @ ps"
proof (induction ps arbitrary: qs)
  case (Cons p ps)
  have "fst p \<notin> fst ` set qs" using Cons.prems by auto
  then have "obj_put qs p = qs @ [p]" by (simp add: obj_put_def)
  then show ?case using Cons.IH [of "qs @ [p]"] Cons.prems by simp
qed simp

lemma json_elems_print:
  assumes "vs \<noteq> []" and "\<forall>v \<in> set vs. plain v"
    and "\<And>v r. v \<in> set vs \<Longrightarrow> closes r \<Longrightarrow> json_value (json_print v @ r) = Some (v, r)"
  shows "json_elems (js_join [44] (map json_print vs) @ 93 # r) = Some (vs, r)"
  using assms
proof (induction vs rule: induct_list012)
  case (2 v)
  then have "json_value (json_print v @ 93 # r) = Some (v, 93 # r)" by simp
  moreover have "json_print v \<noteq> []" using json_print_first [of v] 2 by auto
  ultimately show ?case by (subst json_elems.simps) simp
next
  case (3 v w vs)
  let ?rest = "js_join [44] (map json_print (w # vs)) @ 93 # r"
  have "json_elems ?rest = Some (w # vs, r)" using 3 by auto
  moreover have "json_value (json_print v @ 44 # ?rest) = Some (v, 44 # ?rest)" using 3 by simp
  moreover have "json_print v \<noteq> []" using json_print_first [of v] 3 by auto
  ultimately show ?case
    by (subst json_elems.simps) (simp del: json_elems.simps)
qed simp

definition member_text :: "jsstr \<times> jsval \<Rightarrow> jsstr" where
  "member_text p = json_quote (fst p) @ [58] @ json_print (snd p)"

lemma json_members_print:
  assumes "ps \<noteq> []" and "\<forall>p \<in> set ps. wf_units (fst p)"
    and "\<And>p r. p \<in> set ps \<Longrightarrow> closes r \<Longrightarrow> json_value (json_print (snd p) @ r) = Some (snd p, r)"
  shows "json_members (js_join [44] (map member_text ps) @ 125 # r) = Some (ps, r)"
  using assms
proof (induction ps rule: induct_list012)
  case (2 p)
  then have "json_value (json_print (snd p) @ 125 # r) = Some (snd p, 125 # r)" by simp
  moreover have "read_string (quote_units (fst p) @ 34 # t) = Some (fst p, t)" for t
    using 2 by (intro read_string_quote) simp
  ultimately show ?case
    by (subst json_members.simps) (simp add: member_text_def json_quote_def)
next
  case (3 p q ps)
  let ?rest = "js_join [44] (map member_text (q # ps)) @ 125 # r"
  have "json_members ?rest = Some (q # ps, r)" using 3 by auto
  moreover have "json_value (json_print (snd p) @ 44 # ?rest) = Some (snd p, 44 # ?rest)" using 3 by simp
  moreover have "read_string (quote_units (fst p) @ 34 # t) = Some (fst p, t)" for t
    using 3 by (intro read_string_quote) simp
  ultimately show ?case
    by (subst json_members.simps) (simp add: member_text_def json_quote_def del: json_members.simps)
qed simp

lemma obj_entries_no_index:
  "\<forall>p \<in> set ps. \<not> is_index_key (fst p) \<Longrightarrow> obj_entries ps = ps"
  by (simp add: obj_entries_def filter_id_conv filter_empty_conv [THEN iffD2])

lemma json_print_obj:
  assumes "plain (JObj ps)"
  shows "json_print (JObj ps) = 123 # js_join [44] (map member_text ps) @ [125]"
proof -
  have "obj_entries ps = ps" using assms by (intro obj_entries_no_index) (auto simp: list_all_iff)
  moreover have "filter (\<lambda>(k, v). v \<noteq> JUndef) ps = ps"
    using assms by (auto simp: list_all_iff filter_id_conv)
  moreover have "(\<lambda>(k, v). json_quote k @ [58] @ json_print v) = member_text"
    by (auto simp: member_text_def)
  ultimately show ?thesis by simp
qed

lemma skip_first:
  "skip_json_ws (c # cs) = c # cs \<Longrightarrow> skip_json_ws (c # cs @ r) = c # cs @ r"
  by (auto split: if_splits dest: arg_cong [where f = length] skip_json_ws_Cons)

lemma json_value_print:
  "plain v \<Longrightarrow> closes r \<Longrightarrow> json_value (json_print v @ r) = Some (v, r)"
proof (induction v arbitrary: r)
  case (JNum x)
  then show ?case using read_number [of r x] by (simp add: num_token_def del: json_value.simps)
next
  case (JStr s)
  then show ?case by (simp add: json_quote_def read_string_quote)
next
  case (JArr vs)
  show ?case
  proof (cases "vs = []")
    case False
    let ?body = "js_join [44] (map json_print vs) @ 93 # r"
    have el: "json_elems ?body = Some (vs, r)"
      using JArr False by (intro json_elems_print) (auto simp: list_all_iff)
    obtain v ws where vs: "vs = v # ws" using False by (cases vs) auto
    with JArr.prems have "plain v" by simp
    then obtain c cs where c: "json_print v = c # cs" "skip_json_ws (c # cs) = c # cs" "c \<noteq> 93"
      using json_print_first by blast
    obtain t where t: "?body = c # cs @ t"
      using vs c(1) by (cases ws) auto
    have "skip_json_ws ?body = c # cs @ t" using skip_first [OF c(2)] t by simp
    with c(3) el show ?thesis by (simp del: json_elems.simps)
  qed simp
next
  case (JObj ps)
  show ?case
  proof (cases "ps = []")
    case True
    then show ?thesis by (simp add: obj_entries_def)
  next
    case False
    let ?body = "js_join [44] (map member_text ps) @ 125 # r"
    have "json_members ?body = Some (ps, r)"
      using JObj False
      by (intro json_members_print) (auto simp: list_all_iff snds.simps prod_set_defs)
    moreover have "foldl obj_put [] ps = ps" using JObj.prems obj_put_fresh [of "[]" ps] by simp
    moreover obtain t where "?body = 34 # t"
      using False by (cases ps rule: list.exhaust; cases "tl ps") (auto simp: member_text_def json_quote_def)
    ultimately show ?thesis
      by (simp add: json_print_obj [OF JObj.prems(1)] del: json_members.simps json_print.simps)
  qed
qed (auto simp: js_lit read_scalar_def read_word_def starts_with_def)

theorem json_roundtrip: "plain v \<Longrightarrow> json_parse (json_print v) = Some v"
  using json_value_print [of v "[]"] by (simp add: json_parse_def del: json_value.simps)

end
