(* ===== verification/StatusRules.thy ===== *)
theory StatusRules
  imports JsValue
begin

section \<open>HTTP status code rules\<close>

text \<open>
  Models \<^verbatim>\<open>web/default/src/lib/http-status-code-rules.ts\<close>: a rule text such as
  \<open>401,500-599\<close> is cut at commas, each token parsed into a range of codes, the ranges sorted
  and merged, and the canonical text printed back. Codes are integers: \<open>parseInt\<close> of a digit
  string is exact up to $2^{53}$ and beyond it stays outside 100..599, where every code is
  rejected.

  The lemmas show that merging keeps exactly the codes, that its result is the canonical form
  (increasing, separated by a gap) of the set of codes, and that the printed text parses back.
\<close>

subsection \<open>The model\<close>

record status_code_range =
  range_start :: int
  range_end :: int

record parsed_rules =
  rules_ok :: bool
  rules_ranges :: "status_code_range list"
  rules_tokens :: "jsstr list"
  rules_normalized :: jsstr
  rules_invalid :: "jsstr list"

abbreviation comma :: code_unit where "comma \<equiv> 44"
abbreviation hyphen :: code_unit where "hyphen \<equiv> 45"

definition fullwidth_comma :: code_unit where
  "fullwidth_comma = 65292"

definition is_number :: "jsstr \<Rightarrow> bool" where
  "is_number s \<longleftrightarrow> s \<noteq> [] \<and> list_all is_digit s"

definition is_valid_code :: "int \<Rightarrow> bool" where
  "is_valid_code code \<longleftrightarrow> 100 \<le> code \<and> code \<le> 599"

definition parse_token :: "jsstr \<Rightarrow> status_code_range option" where
  "parse_token token =
     (let cleaned = remove_ws (trim token) in
      if cleaned = [] then None
      else if includes_str cleaned [hyphen] then
        (case split_char hyphen cleaned of
           a # b # _ \<Rightarrow>
             if \<not> is_number a \<or> \<not> is_number b then None
             else let s = digits_val a; e = digits_val b in
               if \<not> is_valid_code s \<or> \<not> is_valid_code e \<or> s > e then None
               else Some \<lparr>range_start = s, range_end = e\<rparr>
         | _ \<Rightarrow> None)
      else if \<not> is_number cleaned then None
      else let code = digits_val cleaned in
        if \<not> is_valid_code code then None
        else Some \<lparr>range_start = code, range_end = code\<rparr>)"

definition compare_ranges :: "status_code_range \<Rightarrow> status_code_range \<Rightarrow> int" where
  "compare_ranges a b =
     (if range_start a \<noteq> range_start b then range_start a - range_start b
      else range_end a - range_end b)"

text \<open>One step of the \<open>reduce\<close>: push a copy, or extend the last range in place.\<close>

definition merge_step :: "status_code_range list \<Rightarrow> status_code_range \<Rightarrow> status_code_range list" where
  "merge_step merged current =
     (if merged = [] then [current]
      else let l = last merged in
        if range_start current > range_end l + 1 then merged @ [current]
        else butlast merged @ [l\<lparr>range_end := max (range_end l) (range_end current)\<rparr>])"

definition merge_ranges :: "status_code_range list \<Rightarrow> status_code_range list" where
  "merge_ranges ranges =
     (if ranges = [] then [] else foldl merge_step [] (js_sort compare_ranges ranges))"

definition range_token :: "status_code_range \<Rightarrow> jsstr" where
  "range_token r =
     (if range_start r = range_end r then int_str (range_start r)
      else int_str (range_start r) @ [hyphen] @ int_str (range_end r))"

text \<open>\<open>(input ?? '').toString().trim()\<close>.\<close>

definition raw_text :: "jsval \<Rightarrow> jsstr" where
  "raw_text input = trim (if is_nullish input then [] else to_str input)"

definition parse_http_status_code_rules :: "jsval \<Rightarrow> parsed_rules" where
  "parse_http_status_code_rules input =
     (let raw = raw_text input in
      if raw = [] then
        \<lparr>rules_ok = True, rules_ranges = [], rules_tokens = [], rules_normalized = [],
         rules_invalid = []\<rparr>
      else
        let sanitized = map (\<lambda>c. if c = fullwidth_comma then comma else c) raw;
            segments = split_trim comma sanitized;
            ranges = map the (filter (\<lambda>r. r \<noteq> None) (map parse_token segments));
            invalid = filter (\<lambda>s. parse_token s = None) segments
        in if invalid \<noteq> [] then
             \<lparr>rules_ok = False, rules_ranges = [], rules_tokens = [], rules_normalized = raw,
              rules_invalid = invalid\<rparr>
           else
             let merged = merge_ranges ranges; tokens = map range_token merged in
             \<lparr>rules_ok = True, rules_ranges = merged, rules_tokens = tokens,
              rules_normalized = js_join [comma] tokens, rules_invalid = []\<rparr>)"

subsection \<open>The codes a list of ranges stands for\<close>

definition range_codes :: "status_code_range \<Rightarrow> int set" where
  "range_codes r = {range_start r .. range_end r}"

definition codes :: "status_code_range list \<Rightarrow> int set" where
  "codes rs = \<Union> (range_codes ` set rs)"

definition proper :: "status_code_range \<Rightarrow> bool" where
  "proper r \<longleftrightarrow> is_valid_code (range_start r) \<and> is_valid_code (range_end r) \<and>
     range_start r \<le> range_end r"

text \<open>Canonical: every range proper, and a gap of at least one code between neighbours.\<close>

definition apart :: "status_code_range \<Rightarrow> status_code_range \<Rightarrow> bool" where
  "apart a b \<longleftrightarrow> range_end a + 1 < range_start b"

definition canonical :: "status_code_range list \<Rightarrow> bool" where
  "canonical rs \<longleftrightarrow> list_all proper rs \<and> sorted_wrt apart rs"

lemma codes_simps [simp]:
  "codes [] = {}" "codes (r # rs) = range_codes r \<union> codes rs"
  "codes (rs @ qs) = codes rs \<union> codes qs"
  by (auto simp: codes_def)

lemma compare_ranges_key:
  "compare_ranges a b \<le> 0 \<longleftrightarrow>
     (range_start a, range_end a) \<le> (range_start b, range_end b)"
  by (auto simp: compare_ranges_def less_eq_prod_def)

lemma js_sort_ranges_sorted: "sorted_wrt (\<lambda>a b. range_start a \<le> range_start b) (js_sort compare_ranges rs)"
proof -
  let ?k = "\<lambda>r. (range_start r, range_end r)"
  have "js_sort compare_ranges rs = sort_key ?k rs"
    by (rule js_sort_key) (rule compare_ranges_key)
  moreover have "sorted (map ?k (sort_key ?k rs))" by simp
  ultimately show ?thesis
    by (auto simp: sorted_map less_eq_prod_def elim!: sorted_wrt_mono_rel [rotated])
qed

text \<open>The loop invariant: the result so far is canonical, and every range still to come starts
  at or after the start of its last range.\<close>

lemma merge_step_canonical:
  assumes "canonical m" and "proper c" and "m \<noteq> [] \<Longrightarrow> range_start (last m) \<le> range_start c"
  shows "canonical (merge_step m c) \<and> codes (merge_step m c) = codes m \<union> range_codes c \<and>
     merge_step m c \<noteq> [] \<and> range_start (last (merge_step m c)) \<le> range_start c"
proof (cases m rule: rev_cases)
  case Nil
  with assms show ?thesis by (simp add: merge_step_def canonical_def)
next
  case (snoc ms l)
  have l: "proper l" "range_start l \<le> range_start c" and ms: "list_all proper ms"
    "sorted_wrt apart ms" "\<forall>a \<in> set ms. apart a l"
    using assms snoc by (auto simp: canonical_def sorted_wrt_append)
  show ?thesis
  proof (cases "range_start c > range_end l + 1")
    case True
    moreover have "\<forall>a \<in> set ms. apart a c"
      using ms(3) l(2) by (auto simp: apart_def)
    ultimately show ?thesis
      using snoc l ms assms(2)
      by (auto simp: merge_step_def canonical_def sorted_wrt_append apart_def)
  next
    case False
    define l' where "l' = l\<lparr>range_end := max (range_end l) (range_end c)\<rparr>"
    have step: "merge_step m c = ms @ [l']"
      using False snoc by (simp add: merge_step_def l'_def)
    have st: "range_start l' \<le> range_start c" using l(2) by (simp add: l'_def)
    have "proper l'" using l assms(2) by (auto simp: l'_def proper_def is_valid_code_def max_def)
    moreover have "range_codes l' = range_codes l \<union> range_codes c"
      using False l(2) assms(2) by (auto simp: l'_def range_codes_def proper_def)
    moreover have "\<forall>a \<in> set ms. apart a l'" using ms(3) by (auto simp: apart_def l'_def)
    ultimately show ?thesis
      using snoc ms st unfolding step by (auto simp: canonical_def sorted_wrt_append)
  qed
qed

lemma foldl_merge_step:
  assumes "canonical m" and "list_all proper cs"
    and "sorted_wrt (\<lambda>a b. range_start a \<le> range_start b) cs"
    and "m \<noteq> [] \<Longrightarrow> \<forall>c \<in> set cs. range_start (last m) \<le> range_start c"
  shows "canonical (foldl merge_step m cs) \<and> codes (foldl merge_step m cs) = codes m \<union> codes cs"
  using assms
proof (induction cs arbitrary: m)
  case Nil
  then show ?case by simp
next
  case (Cons c cs)
  have step: "canonical (merge_step m c)" "codes (merge_step m c) = codes m \<union> range_codes c"
    "range_start (last (merge_step m c)) \<le> range_start c"
    using merge_step_canonical [of m c] Cons.prems by auto
  have "\<forall>d \<in> set cs. range_start (last (merge_step m c)) \<le> range_start d"
    using step(3) Cons.prems(3) by auto
  then show ?case
    using Cons.IH [of "merge_step m c"] Cons.prems step by auto
qed

lemma merge_ranges_correct:
  assumes "list_all proper rs"
  shows "canonical (merge_ranges rs) \<and> codes (merge_ranges rs) = codes rs"
proof (cases "rs = []")
  case True
  then show ?thesis by (simp add: merge_ranges_def canonical_def)
next
  case False
  have "list_all proper (js_sort compare_ranges rs)" using assms by (simp add: list_all_iff)
  then have "canonical (foldl merge_step [] (js_sort compare_ranges rs)) \<and>
    codes (foldl merge_step [] (js_sort compare_ranges rs)) = codes (js_sort compare_ranges rs)"
    using foldl_merge_step [of "[]" "js_sort compare_ranges rs"] js_sort_ranges_sorted
    by (simp add: canonical_def)
  moreover have "codes (js_sort compare_ranges rs) = codes rs" by (simp add: codes_def)
  ultimately show ?thesis using False by (simp add: merge_ranges_def)
qed

subsection \<open>A canonical list is determined by its codes\<close>

lemma canonical_Cons:
  "canonical (r # rs) \<longleftrightarrow> proper r \<and> canonical rs \<and> (\<forall>q \<in> set rs. apart r q)"
  by (auto simp: canonical_def)

lemma canonical_first_start:
  "canonical (r # rs) \<Longrightarrow> x \<in> codes (r # rs) \<Longrightarrow> range_start r \<le> x"
  by (fastforce simp: canonical_Cons codes_def range_codes_def apart_def proper_def)

lemma canonical_gap:
  "canonical (r # rs) \<Longrightarrow> range_end r + 1 \<notin> codes (r # rs)"
  by (fastforce simp: canonical_Cons codes_def range_codes_def apart_def)

lemma canonical_first_end:
  assumes "canonical (r # rs)" and "canonical (q # qs)" and "range_start r = range_start q"
    and "codes (r # rs) = codes (q # qs)"
  shows "range_end r \<le> range_end q"
proof (rule ccontr)
  assume "\<not> range_end r \<le> range_end q"
  then have "range_end q + 1 \<in> codes (r # rs)"
    using assms(2,3) by (auto simp: codes_def range_codes_def canonical_Cons proper_def)
  with assms(4) canonical_gap [OF assms(2)] show False by simp
qed

lemma canonical_unique:
  "canonical rs \<Longrightarrow> canonical qs \<Longrightarrow> codes rs = codes qs \<Longrightarrow> rs = qs"
proof (induction rs arbitrary: qs)
  case Nil
  then show ?case by (cases qs) (auto simp: canonical_Cons proper_def range_codes_def)
next
  case (Cons r rs)
  have start: "range_start r \<in> codes (r # rs)"
    using Cons.prems(1) by (auto simp: canonical_Cons proper_def range_codes_def)
  then obtain q qs' where qs: "qs = q # qs'" using Cons.prems(3) by (cases qs) auto
  have "range_start q \<in> codes qs"
    using Cons.prems(2) qs by (auto simp: canonical_Cons proper_def range_codes_def)
  then have eqs: "range_start r = range_start q"
    using canonical_first_start [of r rs "range_start q"] canonical_first_start [of q qs' "range_start r"]
      Cons.prems start qs by fastforce
  moreover have "range_end r = range_end q"
    using canonical_first_end [of r rs q qs'] canonical_first_end [of q qs' r rs] Cons.prems qs eqs
    by fastforce
  ultimately have "r = q" by (cases r, cases q) simp
  moreover have "codes ps = codes (r # ps) - range_codes r" if "canonical (r # ps)" for ps
    using that by (fastforce simp: canonical_Cons codes_def range_codes_def apart_def)
  then have "codes rs = codes qs'"
    using Cons.prems qs \<open>r = q\<close> by (metis)
  then have "rs = qs'" using Cons.IH [of qs'] Cons.prems qs by (auto simp: canonical_Cons)
  ultimately show ?case using qs by simp
qed

subsection \<open>Tokens\<close>

lemma int_str_digits: "0 \<le> i \<Longrightarrow> is_number (int_str i) \<and> digits_val (int_str i) = i"
  by (auto simp: int_str_def is_number_def list_all_iff int_digits_digit)

lemma number_units: "is_number s \<Longrightarrow> c \<in> set s \<Longrightarrow> is_digit c"
  by (auto simp: is_number_def list_all_iff)

lemma remove_ws_number: "\<forall>c \<in> set s. \<not> is_ws c \<Longrightarrow> remove_ws (trim s) = s"
  by (simp add: trim_no_ws remove_ws_def filter_id_conv)

lemma is_digit_hyphen: "\<not> is_digit hyphen" "\<not> is_ws hyphen" "\<not> is_digit comma"
  by (auto simp: is_digit_def is_ws_def)

lemma parse_token_range_token:
  assumes "proper r"
  shows "parse_token (range_token r) = Some r"
proof -
  define s where "s = int_str (range_start r)"
  define e where "e = int_str (range_end r)"
  have num: "is_number s" "digits_val s = range_start r" "is_number e" "digits_val e = range_end r"
    using assms by (auto simp: s_def e_def proper_def is_valid_code_def int_str_digits)
  have dig: "\<And>c. c \<in> set s \<union> set e \<Longrightarrow> is_digit c" using num number_units by blast
  then have hy: "hyphen \<notin> set s" "hyphen \<notin> set e" using is_digit_hyphen by blast+
  show ?thesis
  proof (cases "range_start r = range_end r")
    case True
    have tok: "range_token r = s" using True by (simp add: range_token_def s_def)
    have "remove_ws (trim s) = s" using dig digit_not_ws by (intro remove_ws_number) blast
    moreover have "s \<noteq> []" using num by (simp add: is_number_def)
    ultimately show ?thesis
      using True num hy assms unfolding tok
      by (simp add: parse_token_def includes_char Let_def proper_def)
  next
    case False
    have tok: "range_token r = s @ [hyphen] @ e"
      using False by (simp add: range_token_def s_def e_def)
    have "remove_ws (trim (s @ [hyphen] @ e)) = s @ [hyphen] @ e"
      using dig digit_not_ws is_digit_hyphen by (intro remove_ws_number) auto
    moreover have "split_char hyphen (s @ [hyphen] @ e) = [s, e]"
      using hy by (simp add: split_char_append split_char_plain)
    ultimately show ?thesis
      using num assms unfolding tok
      by (simp add: parse_token_def includes_char Let_def proper_def)
  qed
qed

lemma parse_token_proper: "parse_token t = Some r \<Longrightarrow> proper r"
  by (auto simp: parse_token_def Let_def proper_def split: if_splits list.splits)

lemma range_token_units:
  assumes "proper r" and "c \<in> set (range_token r)"
  shows "is_digit c \<or> c = hyphen"
proof -
  have "is_number (int_str (range_start r))" "is_number (int_str (range_end r))"
    using assms(1) int_str_digits by (auto simp: proper_def is_valid_code_def)
  then show ?thesis
    using assms(2) number_units by (auto simp: range_token_def split: if_splits)
qed

lemma range_token_clean: 
  assumes "proper r"
  shows "clean_item comma (range_token r)"
proof -
  have units: "\<And>c. c \<in> set (range_token r) \<Longrightarrow> \<not> is_ws c \<and> c \<noteq> comma"
    using range_token_units [OF assms] digit_not_ws is_digit_hyphen by fastforce
  moreover have "range_token r \<noteq> []"
    using int_str_digits [of "range_start r"] assms
    by (auto simp: range_token_def is_number_def proper_def is_valid_code_def)
  ultimately show ?thesis by (auto simp: clean_item_def trimmed_def)
qed

lemma range_token_no_fullwidth: "proper r \<Longrightarrow> fullwidth_comma \<notin> set (range_token r)"
  using range_token_units [of r fullwidth_comma] by (auto simp: fullwidth_comma_def is_digit_def)

subsection \<open>The parser\<close>

definition sanitize :: "jsstr \<Rightarrow> jsstr" where
  "sanitize raw = map (\<lambda>c. if c = fullwidth_comma then comma else c) raw"

abbreviation segments :: "jsval \<Rightarrow> jsstr list" where
  "segments input \<equiv> split_trim comma (sanitize (raw_text input))"

lemma sanitize_Nil [simp]: "sanitize [] = []"
  by (simp add: sanitize_def)

lemma split_trim_Nil [simp]: "split_trim c [] = []"
  by (simp add: split_trim_def)

lemma parse_rules_ok:
  assumes "\<forall>t \<in> set (segments input). parse_token t \<noteq> None"
  shows "parse_http_status_code_rules input =
     (let merged = merge_ranges (map (\<lambda>t. the (parse_token t)) (segments input)) in
      \<lparr>rules_ok = True, rules_ranges = merged, rules_tokens = map range_token merged,
       rules_normalized = js_join [comma] (map range_token merged), rules_invalid = []\<rparr>)"
proof -
  have "filter (\<lambda>t. parse_token t = None) (segments input) = []"
    using assms by (simp add: filter_empty_conv)
  moreover have "map the (filter (\<lambda>r. r \<noteq> None) (map parse_token (segments input))) =
    map (\<lambda>t. the (parse_token t)) (segments input)"
    using assms by (simp add: filter_map o_def filter_id_conv [THEN iffD2])
  ultimately show ?thesis
    by (simp add: parse_http_status_code_rules_def Let_def sanitize_def merge_ranges_def)
qed

lemma parse_rules_invalid:
  assumes "t \<in> set (segments input)" and "parse_token t = None"
  shows "\<not> rules_ok (parse_http_status_code_rules input) \<and>
     rules_ranges (parse_http_status_code_rules input) = [] \<and>
     rules_normalized (parse_http_status_code_rules input) = raw_text input \<and>
     rules_invalid (parse_http_status_code_rules input) =
       filter (\<lambda>t. parse_token t = None) (segments input)"
proof -
  have "raw_text input \<noteq> []" using assms(1) by (auto simp: split_trim_def sanitize_def)
  moreover have "filter (\<lambda>t. parse_token t = None) (segments input) \<noteq> []"
    using assms by (auto simp: filter_empty_conv)
  ultimately show ?thesis
    by (simp add: parse_http_status_code_rules_def Let_def sanitize_def)
qed

lemma parse_rules_ok_iff:
  "rules_ok (parse_http_status_code_rules input) \<longleftrightarrow>
     (\<forall>t \<in> set (segments input). parse_token t \<noteq> None)"
  using parse_rules_invalid [of _ input] parse_rules_ok [of input] by (fastforce simp: Let_def)

definition denoted_codes :: "jsval \<Rightarrow> int set" where
  "denoted_codes input = codes (map (\<lambda>t. the (parse_token t)) (segments input))"

lemma parse_rules_ranges:
  assumes "rules_ok (parse_http_status_code_rules input)"
  shows "canonical (rules_ranges (parse_http_status_code_rules input)) \<and>
     codes (rules_ranges (parse_http_status_code_rules input)) = denoted_codes input"
proof -
  have tok: "\<forall>t \<in> set (segments input). parse_token t \<noteq> None"
    using assms by (simp add: parse_rules_ok_iff)
  then have "list_all proper (map (\<lambda>t. the (parse_token t)) (segments input))"
    using parse_token_proper by (fastforce simp: list_all_iff)
  from merge_ranges_correct [OF this] show ?thesis
    by (simp add: parse_rules_ok [OF tok] Let_def denoted_codes_def)
qed

text \<open>The text of a canonical list parses back to the list.\<close>

lemma canonical_text_segments:
  assumes "canonical rs"
  shows "segments (JStr (js_join [comma] (map range_token rs))) = map range_token rs"
proof -
  let ?t = "js_join [comma] (map range_token rs)"
  have pr: "\<And>r. r \<in> set rs \<Longrightarrow> proper r" using assms by (auto simp: canonical_def list_all_iff)
  have units: "is_digit c \<or> c = hyphen \<or> c = comma" if "c \<in> set ?t" for c
    using that set_js_join [of "[comma]" "map range_token rs"] range_token_units pr by fastforce
  have "\<not> is_ws c \<and> c \<noteq> fullwidth_comma" if "c \<in> set ?t" for c
    using units [OF that] by (auto simp: is_ws_def is_digit_def fullwidth_comma_def)
  then have "trim ?t = ?t" and "sanitize ?t = ?t"
    by (auto simp: trim_no_ws sanitize_def intro!: map_idI)
  moreover have "split_trim comma ?t = map range_token rs"
    using range_token_clean pr by (intro split_trim_join) auto
  ultimately show ?thesis by (simp add: raw_text_def)
qed

lemma parse_canonical_text:
  assumes "canonical rs"
  shows "parse_http_status_code_rules (JStr (js_join [comma] (map range_token rs))) =
     \<lparr>rules_ok = True, rules_ranges = rs, rules_tokens = map range_token rs,
      rules_normalized = js_join [comma] (map range_token rs), rules_invalid = []\<rparr>"
proof -
  let ?t = "js_join [comma] (map range_token rs)"
  have pr: "\<And>r. r \<in> set rs \<Longrightarrow> proper r" using assms by (auto simp: canonical_def list_all_iff)
  have seg: "segments (JStr ?t) = map range_token rs" by (rule canonical_text_segments [OF assms])
  have ok: "\<forall>t \<in> set (segments (JStr ?t)). parse_token t \<noteq> None"
    using pr parse_token_range_token unfolding seg by auto
  have inv: "map (\<lambda>t. the (parse_token t)) (segments (JStr ?t)) = rs"
    using pr parse_token_range_token unfolding seg by (auto intro!: map_idI)
  have "list_all proper rs" using assms by (simp add: canonical_def)
  then have "merge_ranges rs = rs"
    using merge_ranges_correct [of rs] assms canonical_unique by blast
  then show ?thesis by (simp add: parse_rules_ok [OF ok] inv Let_def)
qed

subsection \<open>Properties\<close>

text \<open>
  C40. For every accepted rule text the resulting ranges cover exactly the codes its tokens denote,
  each range lies in 100..599, and the ranges are increasing with a gap between neighbours, so no
  two of them overlap or touch.
\<close>

theorem status_rules_sound:
  assumes "rules_ok (parse_http_status_code_rules input)"
  shows "codes (rules_ranges (parse_http_status_code_rules input)) = denoted_codes input \<and>
     canonical (rules_ranges (parse_http_status_code_rules input))"
  using parse_rules_ranges [OF assms] by auto

theorem status_rules_sound_witness:
  "codes [\<lparr>range_start = 500, range_end = 503\<rparr>] = denoted_codes (JStr (js ''503, 500-501,502''))"
proof -
  let ?r = "parse_http_status_code_rules (JStr (js ''503, 500-501,502''))"
  have "rules_ok ?r" and "rules_ranges ?r = [\<lparr>range_start = 500, range_end = 503\<rparr>]"
    by code_simp+
  with status_rules_sound [of "JStr (js ''503, 500-501,502'')"] show ?thesis by simp
qed

text \<open>
  The normal form is stable and loses nothing: parsing the normalized text of an accepted
  rule again is accepted and yields the same ranges, the same tokens and the same text.
\<close>

theorem status_rules_roundtrip:
  assumes "rules_ok (parse_http_status_code_rules input)"
  shows "parse_http_status_code_rules (JStr (rules_normalized (parse_http_status_code_rules input))) =
     parse_http_status_code_rules input"
proof -
  have tok: "\<forall>t \<in> set (segments input). parse_token t \<noteq> None"
    using assms by (simp add: parse_rules_ok_iff)
  have "canonical (rules_ranges (parse_http_status_code_rules input))"
    using parse_rules_ranges [OF assms] by simp
  from parse_canonical_text [OF this] show ?thesis
    by (simp add: parse_rules_ok [OF tok] Let_def)
qed

theorem status_rules_roundtrip_witness:
  "parse_http_status_code_rules (JStr (rules_normalized (parse_http_status_code_rules (JStr (js ''429 , 500-502,501-599''))))) =
     parse_http_status_code_rules (JStr (js ''429 , 500-502,501-599''))"
  by (rule status_rules_roundtrip) code_simp

text \<open>
  The normal form is canonical: two accepted rule texts that denote the same set of codes,
  however they are written, get the same normalized text.
\<close>

theorem status_rules_canonical:
  assumes "rules_ok (parse_http_status_code_rules a)" and "rules_ok (parse_http_status_code_rules b)"
    and "denoted_codes a = denoted_codes b"
  shows "rules_normalized (parse_http_status_code_rules a) =
     rules_normalized (parse_http_status_code_rules b)"
proof -
  have "rules_ranges (parse_http_status_code_rules a) = rules_ranges (parse_http_status_code_rules b)"
    using parse_rules_ranges [OF assms(1)] parse_rules_ranges [OF assms(2)] assms(3)
    by (intro canonical_unique) auto
  moreover have "rules_normalized (parse_http_status_code_rules i) =
      js_join [comma] (map range_token (rules_ranges (parse_http_status_code_rules i)))"
    if "rules_ok (parse_http_status_code_rules i)" for i
    using that parse_rules_ok [of i] by (simp add: parse_rules_ok_iff Let_def)
  ultimately show ?thesis using assms by simp
qed

theorem status_rules_canonical_witness:
  "rules_normalized (parse_http_status_code_rules (JStr (js ''500-502,503''))) =
     rules_normalized (parse_http_status_code_rules (JStr (js ''503,500,501-502'')))"
proof (rule status_rules_canonical)
  show "rules_ok (parse_http_status_code_rules (JStr (js ''500-502,503'')))"
    and "rules_ok (parse_http_status_code_rules (JStr (js ''503,500,501-502'')))"
    by code_simp+
  have a: "map (\<lambda>t. the (parse_token t)) (segments (JStr (js ''500-502,503''))) =
      [\<lparr>range_start = 500, range_end = 502\<rparr>, \<lparr>range_start = 503, range_end = 503\<rparr>]"
    and b: "map (\<lambda>t. the (parse_token t)) (segments (JStr (js ''503,500,501-502''))) =
      [\<lparr>range_start = 503, range_end = 503\<rparr>, \<lparr>range_start = 500, range_end = 500\<rparr>,
       \<lparr>range_start = 501, range_end = 502\<rparr>]"
    by code_simp+
  show "denoted_codes (JStr (js ''500-502,503'')) = denoted_codes (JStr (js ''503,500,501-502''))"
    unfolding denoted_codes_def a b by (auto simp: range_codes_def)
qed

text \<open>
  A rule text with a token that is not a code or an increasing range of codes in 100..599 is
  rejected as a whole: no range is returned, the text is kept as typed, and the invalid tokens are
  listed in order.
\<close>

theorem status_rules_reject:
  assumes "t \<in> set (segments input)" and "parse_token t = None"
  shows "\<not> rules_ok (parse_http_status_code_rules input) \<and>
     rules_ranges (parse_http_status_code_rules input) = [] \<and>
     rules_normalized (parse_http_status_code_rules input) = raw_text input \<and>
     rules_invalid (parse_http_status_code_rules input) =
       filter (\<lambda>t. parse_token t = None) (segments input)"
  by (rule parse_rules_invalid [OF assms])

theorem status_rules_reject_witness:
  "\<not> rules_ok (parse_http_status_code_rules (JStr (js ''500,9x,99''))) \<and>
     rules_invalid (parse_http_status_code_rules (JStr (js ''500,9x,99''))) = [js ''9x'', js ''99'']"
proof -
  have "js ''9x'' \<in> set (segments (JStr (js ''500,9x,99'')))" and "parse_token (js ''9x'') = None"
    and "filter (\<lambda>t. parse_token t = None) (segments (JStr (js ''500,9x,99''))) = [js ''9x'', js ''99'']"
    by code_simp+
  with status_rules_reject [of "js ''9x''" "JStr (js ''500,9x,99'')"] show ?thesis by simp
qed

end
