(* ===== verification/WebStorage.thy ===== *)
theory WebStorage
  imports Prelude
begin

section \<open>Browser storage\<close>

text \<open>
  The interface of \<open>sessionStorage\<close> and \<open>localStorage\<close> that wallet transfers and the playground use,
  as a locale with the laws its users rely on, and the browser's storage as an instance.
\<close>

text \<open>The three methods of \<open>Storage\<close> the code uses. \<open>None\<close> is a thrown exception (storage
  disabled, quota exceeded).\<close>

record 'st transfer_storage =
  get_item :: "'st \<Rightarrow> jsstr \<Rightarrow> jsstr option option"
  set_item :: "'st \<Rightarrow> jsstr \<Rightarrow> jsstr \<Rightarrow> 'st option"
  remove_item :: "'st \<Rightarrow> jsstr \<Rightarrow> 'st option"

text \<open>What the Web Storage standard promises of a call that returns.\<close>

locale web_storage =
  fixes api :: "'st transfer_storage"
  assumes get_set: "set_item api st k v = Some st' \<Longrightarrow> get_item api st' k = Some (Some v)"
    and get_set_other: "set_item api st k v = Some st' \<Longrightarrow> k' \<noteq> k \<Longrightarrow> get_item api st' k' = get_item api st k'"
    and get_remove: "remove_item api st k = Some st' \<Longrightarrow> get_item api st' k = Some None"
    and get_remove_other:
      "remove_item api st k = Some st' \<Longrightarrow> k' \<noteq> k \<Longrightarrow> get_item api st' k' = get_item api st k'"

text \<open>The storage as the browser has it: a map with a bound on the units a value may take.\<close>

definition session_storage :: "nat \<Rightarrow> (jsstr \<rightharpoonup> jsstr) transfer_storage" where
  "session_storage quota =
     \<lparr>get_item = (\<lambda>m k. Some (m k)),
      set_item = (\<lambda>m k v. if length k + length v \<le> quota then Some (m(k \<mapsto> v)) else None),
      remove_item = (\<lambda>m k. Some (m(k := None)))\<rparr>"

interpretation session: web_storage "session_storage quota"
  by unfold_locales (auto simp: session_storage_def split: if_splits)

end
