(* ===== verification/WalletTransfer.thy ===== *)
theory WalletTransfer
  imports JsValue WebStorage
begin

section \<open>Wallet transfer intents\<close>

text \<open>
  Models \<^verbatim>\<open>web/default/src/features/wallet/wallet-transfer-intent.ts\<close>: sending a wallet transfer
  so that a lost response never loses or repeats the payment. The intent (with its request id) is
  written to session storage before the request leaves, a pending intent is always resubmitted
  under its own id, and only a completed receipt that matches it in every field releases it.

  An intent is the JavaScript object the code passes around, since a restored intent is whatever
  \<open>JSON.parse\<close> returned after the checks. The storage is a parameter (\<open>TransferStorage\<close> in the
  code), as are the HTTP calls: \<open>http_outcome\<close> is what the awaited call gave. While a call is
  awaited other code may change the storage; \<open>meanwhile\<close> is that change.
\<close>

subsection \<open>The model\<close>

record wallet_transfer_recipient =
  external_id :: jsstr
  display_name_masked :: jsstr

record wallet_transfer_intent =
  requestId :: jsstr
  recipient :: wallet_transfer_recipient
  amountQuota :: jsnum
  feeQuota :: jsnum
  quotaPerUSD :: jsnum

definition recipient_val :: "wallet_transfer_recipient \<Rightarrow> jsval" where
  "recipient_val r = JObj [(js ''external_id'', JStr (external_id r)),
     (js ''display_name_masked'', JStr (display_name_masked r))]"

definition intent_val :: "wallet_transfer_intent \<Rightarrow> jsval" where
  "intent_val i = JObj [(js ''requestId'', JStr (requestId i)),
     (js ''recipient'', recipient_val (recipient i)), (js ''amountQuota'', JNum (amountQuota i)),
     (js ''feeQuota'', JNum (feeQuota i)), (js ''quotaPerUSD'', JNum (quotaPerUSD i))]"

datatype transfer_error = StorageThrows | JsonSyntaxError | InvalidPending

datatype transfer_result =
    Completed (receipt: jsval) (storage_error: bool)
  | Rejected (message: jsval) (result_intent: jsval)
  | Processing (result_intent: jsval)
  | Unknown (result_intent: jsval) (failure: "(jsval \<times> jsval) option")

record transfer_request =
  recipient_external_id :: jsval
  amount_quota :: jsval
  payment_password :: jsstr
  request_id :: jsval

text \<open>An awaited call resolves with a body, or rejects with an axios error (with or without a
  response: status and body) or with any other error.\<close>

datatype http_outcome =
    HttpOk jsval
  | HttpAxiosError "(jsnum \<times> jsval) option"
  | HttpOtherError

text \<open>Helpers of the language: \<open>'k' in v\<close>, the number of a value known to be one.\<close>

fun has_prop :: "jsval \<Rightarrow> string \<Rightarrow> bool" where
  "has_prop (JObj ps) k = (js k \<in> fst ` set ps)"
| "has_prop _ _ = False"

fun num_of :: "jsval \<Rightarrow> jsnum" where
  "num_of (JNum x) = x"
| "num_of _ = NaN"

fun is_string :: "jsval \<Rightarrow> bool" where
  "is_string (JStr _) = True"
| "is_string _ = False"

definition safe_integer_val :: "jsval \<Rightarrow> bool" where
  "safe_integer_val v \<longleftrightarrow> (case v of JNum x \<Rightarrow> is_safe_integer x | _ \<Rightarrow> False)"

definition finite_val :: "jsval \<Rightarrow> bool" where
  "finite_val v \<longleftrightarrow> (case v of JNum x \<Rightarrow> is_finite x | _ \<Rightarrow> False)"

definition storage_key :: "int \<Rightarrow> jsstr" where
  "storage_key userId = js ''wallet-transfer-pending:'' @ int_str userId"

definition valid_pending :: "jsval \<Rightarrow> bool" where
  "valid_pending intent \<longleftrightarrow>
     truthy intent \<and>
     is_string (obj_get intent (js ''requestId'')) \<and>
     truthy (obj_get intent (js ''requestId'')) \<and>
     is_string (opt_get (obj_get intent (js ''recipient'')) ''external_id'') \<and>
     is_string (opt_get (obj_get intent (js ''recipient'')) ''display_name_masked'') \<and>
     safe_integer_val (obj_get intent (js ''amountQuota'')) \<and>
     \<not> num_le (num_of (obj_get intent (js ''amountQuota''))) (Fin 0) \<and>
     safe_integer_val (obj_get intent (js ''feeQuota'')) \<and>
     \<not> num_lt (num_of (obj_get intent (js ''feeQuota''))) (Fin 0) \<and>
     finite_val (obj_get intent (js ''quotaPerUSD'')) \<and>
     \<not> num_le (num_of (obj_get intent (js ''quotaPerUSD''))) (Fin 0)"

definition restore_wallet_transfer_intent ::
  "'st transfer_storage \<Rightarrow> int \<Rightarrow> 'st \<Rightarrow> transfer_error + jsval option" where
  "restore_wallet_transfer_intent api userId st =
     (case get_item api st (storage_key userId) of None \<Rightarrow> Inl StorageThrows
      | Some saved \<Rightarrow>
        (case saved of None \<Rightarrow> Inr None
         | Some text \<Rightarrow>
           if text = [] then Inr None
           else case json_parse text of None \<Rightarrow> Inl JsonSyntaxError
             | Some intent \<Rightarrow> if valid_pending intent then Inr (Some intent) else Inl InvalidPending))"

text \<open>Removes the stored intent if it is the one given; throws what the storage or the checks throw.\<close>

definition clear_wallet_transfer_intent ::
  "'st transfer_storage \<Rightarrow> int \<Rightarrow> jsval \<Rightarrow> 'st \<Rightarrow> transfer_error + 'st" where
  "clear_wallet_transfer_intent api userId intent st =
     (case restore_wallet_transfer_intent api userId st of Inl e \<Rightarrow> Inl e
      | Inr stored \<Rightarrow>
        if (case stored of None \<Rightarrow> False
            | Some s \<Rightarrow> strict_eq (obj_get s (js ''requestId'')) (obj_get intent (js ''requestId'')))
        then (case remove_item api st (storage_key userId) of None \<Rightarrow> Inl StorageThrows | Some st' \<Rightarrow> Inr st')
        else Inr st)"

definition receipt_matches :: "jsval \<Rightarrow> jsval \<Rightarrow> bool" where
  "receipt_matches intent rcpt \<longleftrightarrow>
     strict_eq (opt_get rcpt ''request_id'') (obj_get intent (js ''requestId'')) \<and>
     has_prop rcpt ''direction'' \<and>
     strict_eq (obj_get rcpt (js ''direction'')) (JStr (js ''outgoing'')) \<and>
     strict_eq (obj_get rcpt (js ''status'')) (JStr (js ''completed'')) \<and>
     strict_eq (obj_get rcpt (js ''amount_quota'')) (obj_get intent (js ''amountQuota'')) \<and>
     strict_eq (obj_get rcpt (js ''fee_quota'')) (obj_get intent (js ''feeQuota'')) \<and>
     is_safe_integer (num_add (num_of (obj_get intent (js ''amountQuota'')))
        (num_of (obj_get intent (js ''feeQuota'')))) \<and>
     strict_eq (obj_get rcpt (js ''total_debit_quota''))
        (JNum (num_add (num_of (obj_get intent (js ''amountQuota''))) (num_of (obj_get intent (js ''feeQuota''))))) \<and>
     strict_eq (obj_get rcpt (js ''counterparty_external_id''))
        (opt_get (obj_get intent (js ''recipient'')) ''external_id'') \<and>
     safe_integer_val (obj_get rcpt (js ''balance_after'')) \<and>
     \<not> num_lt (num_of (obj_get rcpt (js ''balance_after''))) (Fin 0)"

fun is_object :: "jsval \<Rightarrow> bool" where
  "is_object (JObj _) = True"
| "is_object (JArr _) = True"
| "is_object JNull = True"
| "is_object _ = False"

definition resolve_wallet_transfer_response ::
  "'st transfer_storage \<Rightarrow> int \<Rightarrow> jsval \<Rightarrow> jsval \<Rightarrow> bool \<Rightarrow> 'st \<Rightarrow> 'st \<times> transfer_result" where
  "resolve_wallet_transfer_response api userId intent response aborted st =
     (if aborted \<or> \<not> truthy response \<or> \<not> is_object response then (st, Unknown intent None)
      else let rcpt = obj_get response (js ''data'');
               success = obj_get response (js ''success'') in
        if strict_eq success (JBool True) \<and> receipt_matches intent rcpt then
          (case clear_wallet_transfer_intent api userId intent st of
             Inl _ \<Rightarrow> (st, Completed rcpt True)
           | Inr st' \<Rightarrow> (st', Completed rcpt False))
        else if strict_eq success (JBool True) \<and>
            strict_eq (obj_get response (js ''code'')) (JStr (js ''TRANSFER_PROCESSING'')) \<and>
            strict_eq (opt_get rcpt ''request_id'') (obj_get intent (js ''requestId'')) \<and>
            strict_eq (obj_get rcpt (js ''status'')) (JStr (js ''processing''))
        then (st, Processing intent)
        else if strict_eq success (JBool False) then
          (st, Rejected (if truthy (obj_get response (js ''message'')) then obj_get response (js ''message'')
                         else JStr []) intent)
        else (st, Unknown intent None))"

text \<open>The failure bodies whose message is shown: status, code, \<open>success === false\<close> and a text.\<close>

definition known_submit_failure :: "jsnum \<Rightarrow> jsval \<Rightarrow> bool" where
  "known_submit_failure status fail \<longleftrightarrow>
     ((num_eq status (Fin 503) \<and> strict_eq (opt_get fail ''code'') (JStr (js ''TRANSFER_UNCONFIRMED''))) \<or>
      (num_eq status (Fin 429) \<and>
        (strict_eq (opt_get fail ''code'') (JStr (js ''PAYMENT_PASSWORD_LOCKED'')) \<or>
         strict_eq (opt_get fail ''code'') (JStr (js ''TRANSFER_BUSY''))))) \<and>
     strict_eq (opt_get fail ''success'') (JBool False) \<and> is_string (opt_get fail ''message'')"

record 'st submit_trace =
  sent :: "(transfer_request \<times> 'st) list"
  final_store :: 'st
  outcome :: "transfer_error + transfer_result"

text \<open>\<open>sent\<close> records each request with the storage at the moment it left.\<close>

definition submit_wallet_transfer_intent ::
  "'st transfer_storage \<Rightarrow> int \<Rightarrow> jsval \<Rightarrow> jsstr \<Rightarrow> (transfer_request \<Rightarrow> http_outcome) \<Rightarrow>
     ('st \<Rightarrow> 'st) \<Rightarrow> bool \<Rightarrow> 'st \<Rightarrow> 'st submit_trace" where
  "submit_wallet_transfer_intent api userId draft password post meanwhile aborted st =
     (case restore_wallet_transfer_intent api userId st of
        Inl e \<Rightarrow> \<lparr>sent = [], final_store = st, outcome = Inl e\<rparr>
      | Inr pending \<Rightarrow>
        let intent = (case pending of Some p \<Rightarrow> p | None \<Rightarrow> draft) in
        (case set_item api st (storage_key userId) (json_print intent) of
           None \<Rightarrow> \<lparr>sent = [], final_store = st, outcome = Inl StorageThrows\<rparr>
         | Some st1 \<Rightarrow>
           let req = \<lparr>recipient_external_id = opt_get (obj_get intent (js ''recipient'')) ''external_id'',
                 amount_quota = obj_get intent (js ''amountQuota''), payment_password = password,
                 request_id = obj_get intent (js ''requestId'')\<rparr>;
               st2 = meanwhile st1
           in (case post req of
                 HttpOk response \<Rightarrow>
                   (case resolve_wallet_transfer_response api userId intent response aborted st2 of
                      (st3, r) \<Rightarrow> \<lparr>sent = [(req, st1)], final_store = st3, outcome = Inr r\<rparr>)
               | HttpAxiosError (Some (status, fail)) \<Rightarrow>
                   \<lparr>sent = [(req, st1)], final_store = st2,
                    outcome = Inr (Unknown intent
                      (if known_submit_failure status fail
                       then Some (opt_get fail ''code'', opt_get fail ''message'') else None))\<rparr>
               | _ \<Rightarrow> \<lparr>sent = [(req, st1)], final_store = st2, outcome = Inr (Unknown intent None)\<rparr>)))"

definition read_wallet_transfer_intent ::
  "'st transfer_storage \<Rightarrow> int \<Rightarrow> jsval \<Rightarrow> http_outcome \<Rightarrow> bool \<Rightarrow> 'st \<Rightarrow> 'st \<times> transfer_result" where
  "read_wallet_transfer_intent api userId intent got aborted st =
     (case got of
        HttpOk response \<Rightarrow>
          if is_nullish response then (st, Unknown intent None)
          else if strict_eq (obj_get response (js ''success'')) (JBool False) \<and>
            \<not> ((strict_eq (obj_get response (js ''code'')) (JStr (js ''TRANSFER_REJECTED'')) \<or>
                 strict_eq (obj_get response (js ''code'')) (JStr (js ''PAYMENT_PASSWORD_LOCKED''))) \<and>
                strict_eq (opt_get (obj_get response (js ''data'')) ''request_id'')
                  (obj_get intent (js ''requestId'')) \<and>
                strict_eq (obj_get (obj_get response (js ''data'')) (js ''status'')) (JStr (js ''rejected'')))
          then (st, Unknown intent None)
          else resolve_wallet_transfer_response api userId intent response aborted st
      | HttpAxiosError (Some (status, fail)) \<Rightarrow>
          (st, Unknown intent
             (if num_eq status (Fin 503) \<and> strict_eq (opt_get fail ''success'') (JBool False) \<and>
                 strict_eq (opt_get fail ''code'') (JStr (js ''TRANSFER_UNCONFIRMED'')) \<and>
                 is_string (opt_get fail ''message'')
              then Some (opt_get fail ''code'', opt_get fail ''message'') else None))
      | _ \<Rightarrow> (st, Unknown intent None))"

text \<open>
  One round of the polling loop, as the environment plays it: the clock and the abort flag at the
  loop test, the clock when the time-out is computed, the answer to a request with that time-out,
  the storage change meanwhile, the abort flag after the answer, and the clock after the callback.
\<close>

record 'st poll_round =
  test_aborted :: bool
  test_now :: int
  request_now :: int
  got :: "int \<Rightarrow> http_outcome"
  changed :: "'st \<Rightarrow> 'st"
  after_aborted :: bool
  after_now :: int

fun final_status :: "transfer_result \<Rightarrow> bool" where
  "final_status (Completed _ _) = True"
| "final_status (Rejected _ _) = True"
| "final_status _ = False"

definition poll_timeout :: "int \<Rightarrow> int \<Rightarrow> int" where
  "poll_timeout deadline now = max 1 (min 10000 (deadline - now))"

text \<open>The results handed to \<open>onResult\<close>, the storage at the end, and whether the loop returned
  (\<open>False\<close>: it still runs when the given rounds are over).\<close>

fun poll_loop ::
  "'st transfer_storage \<Rightarrow> int \<Rightarrow> jsval \<Rightarrow> int \<Rightarrow> 'st poll_round list \<Rightarrow> 'st \<Rightarrow>
     transfer_result list \<times> 'st \<times> bool" where
  "poll_loop api userId intent deadline [] st = ([], st, False)"
| "poll_loop api userId intent deadline (r # rs) st =
     (if test_aborted r \<or> deadline \<le> test_now r then ([], st, True)
      else case read_wallet_transfer_intent api userId intent 
           (got r (poll_timeout deadline (request_now r))) (after_aborted r) (changed r st) of
        (st', res) \<Rightarrow>
          if after_aborted r then ([], st', True)
          else if final_status res then ([res], st', True)
          else if deadline - after_now r \<le> 0 then ([res], st', True)
          else (case poll_loop api userId intent deadline rs st' of (xs, st'', fin) \<Rightarrow> (res # xs, st'', fin)))"

definition poll_wallet_transfer_intent ::
  "'st transfer_storage \<Rightarrow> int \<Rightarrow> jsval \<Rightarrow> int \<Rightarrow> 'st poll_round list \<Rightarrow> 'st \<Rightarrow>
     transfer_result list \<times> 'st \<times> bool" where
  "poll_wallet_transfer_intent api userId intent started rounds st =
     poll_loop api userId intent (started + 180000) rounds st"

subsection \<open>Restoring, persisting, clearing\<close>

lemma restore_Some:
  assumes "restore_wallet_transfer_intent api userId st = Inr (Some p)"
  shows "valid_pending p" and "\<exists>t. get_item api st (storage_key userId) = Some (Some t) \<and> json_parse t = Some p"
  using assms by (auto simp: restore_wallet_transfer_intent_def split: option.splits if_splits)

lemma submit_cases:
  obtains (fails) e where
    "submit_wallet_transfer_intent api userId draft password post meanwhile aborted st =
       \<lparr>sent = [], final_store = st, outcome = Inl e\<rparr>"
  | (sends) pending intent st1 req st3 r where
    "restore_wallet_transfer_intent api userId st = Inr pending"
    "intent = (case pending of Some p \<Rightarrow> p | None \<Rightarrow> draft)"
    "set_item api st (storage_key userId) (json_print intent) = Some st1"
    "req = \<lparr>recipient_external_id = opt_get (obj_get intent (js ''recipient'')) ''external_id'',
        amount_quota = obj_get intent (js ''amountQuota''), payment_password = password,
        request_id = obj_get intent (js ''requestId'')\<rparr>"
    "submit_wallet_transfer_intent api userId draft password post meanwhile aborted st =
       \<lparr>sent = [(req, st1)], final_store = st3, outcome = Inr r\<rparr>"
    "(\<exists>response. (st3, r) = resolve_wallet_transfer_response api userId intent response aborted (meanwhile st1)) \<or>
     (st3 = meanwhile st1 \<and> (\<exists>f. r = Unknown intent f))"
proof (cases "restore_wallet_transfer_intent api userId st")
  case (Inl e)
  then show ?thesis by (intro fails) (simp add: submit_wallet_transfer_intent_def)
next
  case (Inr pending)
  define intent where "intent = (case pending of Some p \<Rightarrow> p | None \<Rightarrow> draft)"
  show ?thesis
  proof (cases "set_item api st (storage_key userId) (json_print intent)")
    case None
    with Inr show ?thesis
      by (intro fails) (simp add: submit_wallet_transfer_intent_def intent_def [symmetric] Let_def)
  next
    case (Some st1)
    define req where "req = \<lparr>recipient_external_id = opt_get (obj_get intent (js ''recipient'')) ''external_id'',
        amount_quota = obj_get intent (js ''amountQuota''), payment_password = password,
        request_id = obj_get intent (js ''requestId'')\<rparr>"
    show ?thesis
    proof (cases "post req")
      case (HttpOk response)
      obtain st3 r where res:
        "resolve_wallet_transfer_response api userId intent response aborted (meanwhile st1) = (st3, r)"
        by (cases "resolve_wallet_transfer_response api userId intent response aborted (meanwhile st1)")
      show ?thesis
        by (rule sends [OF Inr intent_def Some req_def, of st3 r])
          (use Inr Some HttpOk res in \<open>auto simp: submit_wallet_transfer_intent_def Let_def
             intent_def [symmetric] req_def [symmetric] intro: exI [of _ response]\<close>)
    next
      case (HttpAxiosError x)
      then show ?thesis
        by (cases x) (rule sends [OF Inr intent_def Some req_def],
          use Inr Some in \<open>auto simp: submit_wallet_transfer_intent_def Let_def
             intent_def [symmetric] req_def [symmetric]\<close>)+
    next
      case HttpOtherError
      show ?thesis
        by (rule sends [OF Inr intent_def Some req_def, of "meanwhile st1" "Unknown intent None"])
          (use Inr Some HttpOtherError in \<open>auto simp: submit_wallet_transfer_intent_def Let_def
             intent_def [symmetric] req_def [symmetric]\<close>)
    qed
  qed
qed

lemma resolve_cases:
  assumes "resolve_wallet_transfer_response api userId intent response aborted st = (st', r)"
  shows "(\<exists>rcpt e. r = Completed rcpt e \<and> receipt_matches intent rcpt \<and> \<not> aborted \<and>
       (e \<longleftrightarrow> (\<exists>x. clear_wallet_transfer_intent api userId intent st = Inl x)) \<and>
       (if e then st' = st else clear_wallet_transfer_intent api userId intent st = Inr st')) \<or>
     (st' = st \<and> (\<forall>rcpt e. r \<noteq> Completed rcpt e))"
  using assms
  by (auto simp: resolve_wallet_transfer_response_def Let_def split: if_splits sum.splits)

lemma resolve_intent:
  "resolve_wallet_transfer_response api userId intent response aborted st = (st', r) \<Longrightarrow>
   (case r of Completed _ _ \<Rightarrow> True | _ \<Rightarrow> result_intent r = intent)"
  by (auto simp: resolve_wallet_transfer_response_def Let_def split: if_splits sum.splits)

lemma clear_store:
  assumes "clear_wallet_transfer_intent api userId intent st = Inr st'"
  shows "st' = st \<or> remove_item api st (storage_key userId) = Some st'"
  using assms by (auto simp: clear_wallet_transfer_intent_def split: sum.splits option.splits if_splits)

context web_storage
begin

lemma restore_set:
  assumes "set_item api st (storage_key userId) t = Some st'" and "t \<noteq> []"
    and "json_parse t = Some p" and "valid_pending p"
  shows "restore_wallet_transfer_intent api userId st' = Inr (Some p)"
  using get_set [OF assms(1)] assms(2-) by (simp add: restore_wallet_transfer_intent_def)

lemma other_user_untouched:
  assumes "resolve_wallet_transfer_response api userId intent response aborted st = (st', r)"
    and "k \<noteq> storage_key userId"
  shows "get_item api st' k = get_item api st k"
  using resolve_cases [OF assms(1)] clear_store [of api userId intent st st'] get_remove_other assms(2)
  by (auto split: if_splits)

lemma cleared_only_when_completed:
  assumes "resolve_wallet_transfer_response api userId intent response aborted st = (st', r)"
    and "get_item api st' k \<noteq> get_item api st k"
  shows "k = storage_key userId \<and> get_item api st' k = Some None \<and>
     (\<exists>rcpt. r = Completed rcpt False \<and> receipt_matches intent rcpt)"
proof -
  have k: "k = storage_key userId" using other_user_untouched [OF assms(1)] assms(2) by blast
  have ne: "st' \<noteq> st" using assms(2) by auto
  with resolve_cases [OF assms(1)] obtain rcpt where
    r: "r = Completed rcpt False" "receipt_matches intent rcpt"
      "clear_wallet_transfer_intent api userId intent st = Inr st'"
    by (auto split: if_splits)
  from clear_store [OF r(3)] ne have "remove_item api st (storage_key userId) = Some st'" by simp
  then show ?thesis using get_remove k r by auto
qed

end

subsection \<open>Intents as the form builds them\<close>

definition wf_intent :: "wallet_transfer_intent \<Rightarrow> bool" where
  "wf_intent i \<longleftrightarrow> requestId i \<noteq> [] \<and> wf_units (requestId i) \<and>
     wf_units (external_id (recipient i)) \<and> wf_units (display_name_masked (recipient i)) \<and>
     is_safe_integer (amountQuota i) \<and> num_lt (Fin 0) (amountQuota i) \<and>
     is_safe_integer (feeQuota i) \<and> num_le (Fin 0) (feeQuota i) \<and>
     is_safe_integer (quotaPerUSD i) \<and> num_lt (Fin 0) (quotaPerUSD i)"

lemma num_lt_antisym: "num_lt x y \<Longrightarrow> \<not> num_le y x"
  by (cases x; cases y) (auto simp: num_le_def num_eq_def)

lemma num_le_antisym: "num_le x y \<Longrightarrow> \<not> num_lt y x"
  by (cases x; cases y) (auto simp: num_le_def num_eq_def)

lemma plain_intent_val: "wf_intent i \<Longrightarrow> plain (intent_val i)"
  by (auto simp: wf_intent_def intent_val_def recipient_val_def index_key_lit is_digit_def)
    (simp_all add: js_lit)

lemma intent_val_get [simp]:
  "obj_get (intent_val i) (js ''requestId'') = JStr (requestId i)"
  "obj_get (intent_val i) (js ''recipient'') = recipient_val (recipient i)"
  "obj_get (intent_val i) (js ''amountQuota'') = JNum (amountQuota i)"
  "obj_get (intent_val i) (js ''feeQuota'') = JNum (feeQuota i)"
  "obj_get (intent_val i) (js ''quotaPerUSD'') = JNum (quotaPerUSD i)"
  by (simp_all add: intent_val_def js_inject)

lemma recipient_val_get [simp]:
  "opt_get (recipient_val r) ''external_id'' = JStr (external_id r)"
  "opt_get (recipient_val r) ''display_name_masked'' = JStr (display_name_masked r)"
  by (simp_all add: recipient_val_def opt_get_def js_inject)

lemma valid_pending_intent_val:
  assumes "wf_intent i"
  shows "valid_pending (intent_val i)"
proof -
  have "truthy (intent_val i)" by (simp add: intent_val_def)
  moreover have "is_finite (quotaPerUSD i)" using assms by (cases "quotaPerUSD i") (auto simp: wf_intent_def)
  ultimately show ?thesis
    using assms num_lt_antisym [of "Fin 0"] num_le_antisym [of "Fin 0" "feeQuota i"]
    by (simp add: valid_pending_def wf_intent_def safe_integer_val_def finite_val_def)
qed

lemma json_print_nonempty: "plain v \<Longrightarrow> json_print v \<noteq> []"
  using json_print_first by fastforce

lemma intent_persisted:
  assumes "web_storage api" and "wf_intent i"
    and "set_item api st (storage_key userId) (json_print (intent_val i)) = Some st'"
  shows "restore_wallet_transfer_intent api userId st' = Inr (Some (intent_val i))"
  using web_storage.restore_set [OF assms(1) assms(3)] plain_intent_val [OF assms(2)]
    json_print_nonempty json_roundtrip valid_pending_intent_val [OF assms(2)] by blast

subsection \<open>Exact amounts\<close>

lemma strict_eq_num: "strict_eq v (JNum x) \<longleftrightarrow> (\<exists>y. v = JNum y \<and> num_eq y x)"
  by (cases v) auto

lemma safe_val_obtain:
  assumes "safe_integer_val v"
  obtains i where "v = JNum (num_int i)" and "\<bar>i\<bar> < 2 ^ 53"
  using assms by (cases v) (auto simp: safe_integer_val_def elim!: safe_integer_obtain)

lemma num_lt_zero_int: "num_lt (num_int i) (Fin 0) \<longleftrightarrow> i < 0" "num_le (num_int i) (Fin 0) \<longleftrightarrow> i \<le> 0"
  using num_lt_int [of i 0] num_le_int [of i 0] by (simp_all add: num_int_def)

lemma receipt_exact:
  assumes "valid_pending intent" and "receipt_matches intent rcpt"
  obtains a f b where "0 < a" "0 \<le> f" "0 \<le> b" "a + f < 2 ^ 53"
    "obj_get intent (js ''amountQuota'') = JNum (num_int a)"
    "obj_get intent (js ''feeQuota'') = JNum (num_int f)"
    "obj_get rcpt (js ''amount_quota'') = JNum (num_int a)"
    "obj_get rcpt (js ''fee_quota'') = JNum (num_int f)"
    "obj_get rcpt (js ''total_debit_quota'') = JNum (num_int (a + f))"
    "obj_get rcpt (js ''balance_after'') = JNum (num_int b)"
proof -
  obtain a where a: "obj_get intent (js ''amountQuota'') = JNum (num_int a)" "\<bar>a\<bar> < 2 ^ 53"
    using assms(1) safe_val_obtain by (auto simp: valid_pending_def)
  obtain f where f: "obj_get intent (js ''feeQuota'') = JNum (num_int f)" "\<bar>f\<bar> < 2 ^ 53"
    using assms(1) safe_val_obtain by (auto simp: valid_pending_def)
  obtain b where b: "obj_get rcpt (js ''balance_after'') = JNum (num_int b)"
    using assms(2) safe_val_obtain by (auto simp: receipt_matches_def)
  have pos: "0 < a" "0 \<le> f" "0 \<le> b"
    using assms a f b by (auto simp: valid_pending_def receipt_matches_def num_lt_zero_int)
  have safe: "is_safe_integer (num_add (num_int a) (num_int f))"
    using assms(2) a f by (simp add: receipt_matches_def)
  have lt: "a + f < 2 ^ 53"
  proof (rule ccontr)
    assume "\<not> a + f < 2 ^ 53"
    then have "(2::rat) ^ 53 \<le> of_int (a + f)"
      by (metis linorder_not_less of_int_le_iff of_int_numeral of_int_power)
    then have "num_le (fl (2 ^ 53)) (fl (of_int (a + f)))" by (intro fl_mono_nonneg) auto
    moreover have "fl (2 ^ 53) = num_int (2 ^ 53)" using fl_int [of "2 ^ 53"] by (simp add: num_int_def)
    moreover obtain j where "fl (of_int (a + f)) = num_int j" "\<bar>j\<bar> < 2 ^ 53"
      using safe safe_integer_obtain [of "fl (of_int (a + f))"] by (auto simp: num_int_def)
    ultimately show False by simp
  qed
  have "num_add (num_int a) (num_int f) = num_int (a + f)" using lt pos by (intro num_add_int) simp
  then show thesis
    using that [of a f b] assms(2) a f b pos lt
    by (auto simp: receipt_matches_def strict_eq_num num_eq_def)
qed

subsection \<open>The polling loop\<close>

text \<open>What the clock and the timer promise: time does not run backwards within a round, and a
  round that does not end the loop is followed by a sleep of \<open>min 2000 remaining\<close> milliseconds,
  which only an abort cuts short.\<close>

fun paced :: "int \<Rightarrow> 'st poll_round list \<Rightarrow> bool" where
  "paced deadline [] = True"
| "paced deadline [r] = (test_now r \<le> after_now r)"
| "paced deadline (r # r' # rs) =
     (test_now r \<le> after_now r \<and>
      (test_aborted r' \<or> after_now r + min 2000 (deadline - after_now r) \<le> test_now r') \<and>
      paced deadline (r' # rs))"

definition rounds_left :: "int \<Rightarrow> int \<Rightarrow> nat" where
  "rounds_left deadline now = nat ((deadline - now + 1999) div 2000)"

lemma rounds_left_step:
  assumes "now < deadline" and "now \<le> later" and "later < deadline"
    and "later + min 2000 (deadline - later) \<le> now'"
  shows "Suc (rounds_left deadline now') \<le> rounds_left deadline now"
  using assms by (auto simp: rounds_left_def min_def split: if_splits)

lemma rounds_left_pos: "now < deadline \<Longrightarrow> 1 \<le> rounds_left deadline now"
  by (simp add: rounds_left_def)

lemma poll_loop_bound:
  assumes "paced deadline rs" and "poll_loop api userId intent deadline rs st = (xs, st', fin)"
    and "rs \<noteq> []"
  shows "length xs \<le> rounds_left deadline (test_now (hd rs)) \<and>
     (rounds_left deadline (test_now (hd rs)) < length rs \<longrightarrow> fin)"
  using assms
proof (induction rs arbitrary: st xs st' fin)
  case (Cons r rs)
  let ?R = "rounds_left deadline (test_now r)"
  obtain st1 res where rd: "read_wallet_transfer_intent api userId intent
      (got r (poll_timeout deadline (request_now r))) (after_aborted r) (changed r st) = (st1, res)"
    by fastforce
  obtain ys st2 fin2 where rec: "poll_loop api userId intent deadline rs st1 = (ys, st2, fin2)"
    by (cases "poll_loop api userId intent deadline rs st1")
  show ?case
  proof (cases "test_aborted r \<or> deadline \<le> test_now r \<or> after_aborted r \<or> final_status res \<or>
      deadline - after_now r \<le> 0")
    case True
    then have "fin \<and> (xs = [] \<or> (length xs = 1 \<and> test_now r < deadline))"
      using Cons.prems(2) rd by (auto split: if_splits prod.splits)
    then show ?thesis using rounds_left_pos [of "test_now r" deadline] by auto
  next
    case False
    then have step: "xs = res # ys" "fin = fin2"
      using Cons.prems(2) rd rec by auto
    have pos: "1 \<le> ?R" using False by (intro rounds_left_pos) simp
    show ?thesis
    proof (cases rs)
      case Nil
      then show ?thesis using step rec pos by auto
    next
      case (Cons r' rs')
      have pr: "paced deadline rs" "test_now r \<le> after_now r"
        "test_aborted r' \<or> after_now r + min 2000 (deadline - after_now r) \<le> test_now r'"
        using Cons.prems(1) Cons by auto
      show ?thesis
      proof (cases "test_aborted r'")
        case True
        then have "ys = [] \<and> fin2" using rec Cons by auto
        then show ?thesis using step pos by simp
      next
        case nab: False
        then have "Suc (rounds_left deadline (test_now r')) \<le> ?R"
          using pr False by (intro rounds_left_step [of _ _ "after_now r"]) auto
        then show ?thesis
          using Cons.IH [OF pr(1) rec] Cons step by auto
      qed
    qed
  qed
qed simp

lemma poll_loop_final_last:
  "poll_loop api userId intent deadline rs st = (xs, st', fin) \<Longrightarrow>
   i < length xs \<Longrightarrow> final_status (xs ! i) \<Longrightarrow> Suc i = length xs \<and> fin"
proof (induction rs arbitrary: st xs st' fin i)
  case (Cons r rs)
  obtain st1 res where rd: "read_wallet_transfer_intent api userId intent
      (got r (poll_timeout deadline (request_now r))) (after_aborted r) (changed r st) = (st1, res)"
    by fastforce
  obtain ys st2 fin2 where rec: "poll_loop api userId intent deadline rs st1 = (ys, st2, fin2)"
    by (cases "poll_loop api userId intent deadline rs st1")
  show ?case
    using Cons.prems rd rec Cons.IH [OF rec, of "i - 1"]
    by (cases i) (auto split: if_splits prod.splits)
qed simp

subsection \<open>Properties\<close>

definition demo_intent :: wallet_transfer_intent where
  "demo_intent = \<lparr>requestId = js ''r-1'',
     recipient = \<lparr>external_id = js ''u9'', display_name_masked = js ''b**''\<rparr>,
     amountQuota = Fin 500, feeQuota = Fin 5, quotaPerUSD = Fin 500000\<rparr>"

definition demo_receipt :: jsval where
  "demo_receipt = JObj [(js ''request_id'', JStr (js ''r-1'')), (js ''direction'', JStr (js ''outgoing'')),
     (js ''status'', JStr (js ''completed'')), (js ''amount_quota'', JNum (Fin 500)),
     (js ''fee_quota'', JNum (Fin 5)), (js ''total_debit_quota'', JNum (Fin 505)),
     (js ''counterparty_external_id'', JStr (js ''u9'')), (js ''balance_after'', JNum (Fin 0))]"

lemma demo_wf: "wf_intent demo_intent"
  by (simp add: wf_intent_def demo_intent_def num_le_def)

lemma demo_sum: "fl 505 = Fin 505"
  using fl_int [of 505] by simp

lemma demo_matches: "receipt_matches (intent_val demo_intent) demo_receipt"
  unfolding receipt_matches_def intent_val_get recipient_val_get
  by (simp add: demo_receipt_def demo_intent_def js_inject opt_get_def safe_integer_val_def
      num_eq_def demo_sum)

lemma demo_restore:
  "restore_wallet_transfer_intent (session_storage q) 7 [storage_key 7 \<mapsto> json_print (intent_val demo_intent)] =
     Inr (Some (intent_val demo_intent))"
  using demo_wf by (simp add: restore_wallet_transfer_intent_def session_storage_def json_print_nonempty
        json_roundtrip plain_intent_val valid_pending_intent_val)

lemma demo_size: "length (storage_key 7) + length (json_print (intent_val demo_intent)) \<le> 1000"
proof -
  have "length (json_print (intent_val demo_intent)) \<le> 200" by code_simp
  moreover have "length (storage_key 7) \<le> 40" by code_simp
  ultimately show ?thesis by simp
qed

abbreviation demo_store :: "(jsstr \<rightharpoonup> jsstr) transfer_storage" where
  "demo_store \<equiv> session_storage 1000"

text \<open>
  C4. A transfer request never leaves before its intent is in session storage: at the moment of the
  request the user's storage slot holds the JSON text of the very intent the request was built from,
  which is the restored pending intent, or the draft when nothing was pending.
\<close>

theorem transfer_persisted_before_send:
  assumes "web_storage api"
    and "(req, st1) \<in> set (sent (submit_wallet_transfer_intent api userId draft pw post meanwhile aborted st))"
  shows "\<exists>intent. get_item api st1 (storage_key userId) = Some (Some (json_print intent)) \<and>
     request_id req = obj_get intent (js ''requestId'') \<and>
     amount_quota req = obj_get intent (js ''amountQuota'') \<and>
     recipient_external_id req = opt_get (obj_get intent (js ''recipient'')) ''external_id'' \<and>
     (restore_wallet_transfer_intent api userId st = Inr (Some intent) \<or>
      restore_wallet_transfer_intent api userId st = Inr None \<and> intent = draft)"
proof (cases api userId draft pw post meanwhile aborted st rule: submit_cases)
  case (fails e)
  with assms(2) show ?thesis by simp
next
  case (sends pending intent st1' req' st3 r)
  with assms(2) have eq: "req = req'" "st1 = st1'" by auto
  have "get_item api st1 (storage_key userId) = Some (Some (json_print intent))"
    using web_storage.get_set [OF assms(1) sends(3)] eq by simp
  then show ?thesis
    using sends eq by (intro exI [of _ intent]) (auto split: option.splits)
qed

theorem transfer_persisted_before_send_witness:
  "\<exists>intent req st1.
     sent (submit_wallet_transfer_intent demo_store 7 (intent_val demo_intent) (js ''pw'')
       (\<lambda>_. HttpOtherError) id False Map.empty) = [(req, st1)] \<and>
     get_item demo_store st1 (storage_key 7) = Some (Some (json_print intent)) \<and>
     request_id req = obj_get intent (js ''requestId'')"
proof -
  let ?t = "submit_wallet_transfer_intent demo_store 7 (intent_val demo_intent) (js ''pw'')
       (\<lambda>_. HttpOtherError) id False Map.empty"
  from demo_size obtain req st1 where one: "sent ?t = [(req, st1)]"
    by (simp add: submit_wallet_transfer_intent_def restore_wallet_transfer_intent_def
        session_storage_def Let_def)
  have "web_storage demo_store" by unfold_locales
  from transfer_persisted_before_send [OF this, of req st1 7 "intent_val demo_intent" "js ''pw''"
      "\<lambda>_. HttpOtherError" id False Map.empty] one
  show ?thesis by auto
qed

text \<open>
  C8. A pending intent is resubmitted as it is: whatever the form now holds, the outcome, the request
  and the storage are those of submitting the pending intent, so a retry never pays under a new
  request id.
\<close>

theorem transfer_retry_keeps_id:
  assumes "restore_wallet_transfer_intent api userId st = Inr (Some p)"
  shows "submit_wallet_transfer_intent api userId draft pw post meanwhile aborted st =
       submit_wallet_transfer_intent api userId p pw post meanwhile aborted st \<and>
     (\<forall>(req, st1) \<in> set (sent (submit_wallet_transfer_intent api userId draft pw post meanwhile aborted st)).
        request_id req = obj_get p (js ''requestId''))"
  using assms by (auto simp: submit_wallet_transfer_intent_def Let_def
      split: option.splits http_outcome.splits prod.splits)

theorem transfer_retry_keeps_id_witness:
  "let st = [storage_key 7 \<mapsto> json_print (intent_val demo_intent)] in
   submit_wallet_transfer_intent demo_store 7 JNull (js ''pw'') (\<lambda>_. HttpOtherError) id False st =
   submit_wallet_transfer_intent demo_store 7 (intent_val demo_intent) (js ''pw'') (\<lambda>_. HttpOtherError) id False st"
proof -
  let ?st = "[storage_key 7 \<mapsto> json_print (intent_val demo_intent)] :: jsstr \<rightharpoonup> jsstr"
  from transfer_retry_keeps_id [OF demo_restore [of 1000]] show ?thesis by (simp add: Let_def)
qed

text \<open>
  C12. Nothing but a matching completed receipt releases a pending intent: if handling a response
  changes any storage slot, it is the user's own slot, the slot is emptied, and the result is a
  completed transfer whose receipt matches the intent.
\<close>

theorem transfer_release_only_on_receipt:
  assumes "web_storage api"
    and "resolve_wallet_transfer_response api userId intent response aborted st = (st', r)"
    and "get_item api st' k \<noteq> get_item api st k"
  shows "k = storage_key userId \<and> get_item api st' k = Some None \<and>
     (\<exists>rcpt. r = Completed rcpt False \<and> receipt_matches intent rcpt)"
  by (rule web_storage.cleared_only_when_completed [OF assms])

theorem transfer_release_only_on_receipt_witness:
  "receipt_matches (intent_val demo_intent) demo_receipt"
proof -
  let ?st = "[storage_key 7 \<mapsto> json_print (intent_val demo_intent)] :: jsstr \<rightharpoonup> jsstr"
  let ?resp = "JObj [(js ''success'', JBool True), (js ''data'', demo_receipt)]"
  have "resolve_wallet_transfer_response demo_store 7 (intent_val demo_intent) ?resp False ?st =
      (?st(storage_key 7 := None), Completed demo_receipt False)"
    using demo_matches demo_restore [of 1000]
    by (simp add: resolve_wallet_transfer_response_def js_inject clear_wallet_transfer_intent_def
        session_storage_def)
  moreover have "web_storage demo_store" by unfold_locales
  moreover have "get_item demo_store (?st(storage_key 7 := None)) (storage_key 7) \<noteq>
      get_item demo_store ?st (storage_key 7)"
    by (simp add: session_storage_def)
  ultimately show ?thesis
    using transfer_release_only_on_receipt
      [of demo_store 7 "intent_val demo_intent" ?resp False ?st _ _ "storage_key 7"] by blast
qed

text \<open>
  C14. A completed transfer is exact: for a valid intent the accepted receipt repeats its amount and
  fee, the debit is their sum as integers (no rounding), and the balance left is not negative.
\<close>

theorem transfer_completed_exact:
  assumes "resolve_wallet_transfer_response api userId intent response aborted st = (st', Completed rcpt e)"
    and "valid_pending intent"
  shows "\<exists>a f b. 0 < a \<and> 0 \<le> f \<and> 0 \<le> b \<and> a + f < 2 ^ 53 \<and>
     obj_get intent (js ''amountQuota'') = JNum (num_int a) \<and>
     obj_get intent (js ''feeQuota'') = JNum (num_int f) \<and>
     obj_get rcpt (js ''amount_quota'') = JNum (num_int a) \<and>
     obj_get rcpt (js ''fee_quota'') = JNum (num_int f) \<and>
     obj_get rcpt (js ''total_debit_quota'') = JNum (num_int (a + f)) \<and>
     obj_get rcpt (js ''balance_after'') = JNum (num_int b)"
proof -
  have "receipt_matches intent rcpt" using resolve_cases [OF assms(1)] by auto
  from receipt_exact [OF assms(2) this] show ?thesis by metis
qed

theorem transfer_completed_exact_witness:
  "\<exists>a f. obj_get demo_receipt (js ''total_debit_quota'') = JNum (num_int (a + f)) \<and> 0 < a \<and> a + f < 2 ^ 53"
proof -
  let ?resp = "JObj [(js ''success'', JBool True), (js ''data'', demo_receipt)]"
  from demo_matches have r: "resolve_wallet_transfer_response demo_store 7 (intent_val demo_intent) ?resp False Map.empty =
      (Map.empty, Completed demo_receipt False)"
    by (simp add: resolve_wallet_transfer_response_def js_inject clear_wallet_transfer_intent_def
        restore_wallet_transfer_intent_def session_storage_def)
  have v: "valid_pending (intent_val demo_intent)"
    by (rule valid_pending_intent_val [OF demo_wf])
  from transfer_completed_exact [OF r v] obtain a f where
    "obj_get demo_receipt (js ''total_debit_quota'') = JNum (num_int (a + f))" "0 < a" "a + f < 2 ^ 53"
    by (elim exE conjE) (rule that)
  then show ?thesis by (intro exI conjI)
qed

text \<open>
  An unresolved transfer stays recoverable: when nothing was pending and the submission of a
  well-formed draft ends in anything but a completed transfer, the next restore returns exactly that
  draft (through \<open>JSON.stringify\<close> and \<open>JSON.parse\<close>), so the same request id is retried.
\<close>

theorem transfer_unresolved_recoverable:
  assumes "web_storage api" and "wf_intent i"
    and "restore_wallet_transfer_intent api userId st = Inr None"
    and "outcome (submit_wallet_transfer_intent api userId (intent_val i) pw post id aborted st) = Inr r"
    and "\<forall>rcpt e. r \<noteq> Completed rcpt e"
  shows "restore_wallet_transfer_intent api userId
      (final_store (submit_wallet_transfer_intent api userId (intent_val i) pw post id aborted st)) =
     Inr (Some (intent_val i))"
proof (cases api userId "intent_val i" pw post "id :: 'a \<Rightarrow> 'a" aborted st rule: submit_cases)
  case (fails e)
  with assms(4) show ?thesis by simp
next
  case (sends pending intent st1 req st3 r')
  have int: "intent = intent_val i" and r: "r' = r" using sends assms(3,4) by auto
  have "st3 = st1" using sends(6) assms(5) r resolve_cases [of api userId intent _ aborted st1 st3 r'] by force
  then show ?thesis using intent_persisted [OF assms(1,2)] sends int by simp
qed

theorem transfer_unresolved_recoverable_witness:
  "restore_wallet_transfer_intent demo_store 7
      (final_store (submit_wallet_transfer_intent demo_store 7 (intent_val demo_intent) (js ''pw'')
         (\<lambda>_. HttpOtherError) id False Map.empty)) = Inr (Some (intent_val demo_intent))"
proof (rule transfer_unresolved_recoverable)
  show "web_storage demo_store" by unfold_locales
  show "wf_intent demo_intent" by (rule demo_wf)
  show "restore_wallet_transfer_intent demo_store 7 Map.empty = Inr None"
    by (simp add: restore_wallet_transfer_intent_def session_storage_def)
  from demo_size show "outcome (submit_wallet_transfer_intent demo_store 7 (intent_val demo_intent) (js ''pw'')
         (\<lambda>_. HttpOtherError) id False Map.empty) = Inr (Unknown (intent_val demo_intent) None)"
    by (simp add: submit_wallet_transfer_intent_def restore_wallet_transfer_intent_def
        session_storage_def Let_def)
qed simp

text \<open>
  C18. Polling ends: with a timer that does not fire early, at most 90 results are reported, the loop
  has returned once 91 rounds were possible, and a completed or rejected result is the last one.
\<close>

theorem transfer_poll_terminates:
  assumes "paced (started + 180000) rounds" and "rounds \<noteq> []" and "started \<le> test_now (hd rounds)"
    and "poll_wallet_transfer_intent api userId intent started rounds st = (xs, st', fin)"
  shows "length xs \<le> 90 \<and> (90 < length rounds \<longrightarrow> fin) \<and>
     (\<forall>i < length xs. final_status (xs ! i) \<longrightarrow> Suc i = length xs)"
proof -
  have p: "poll_loop api userId intent (started + 180000) rounds st = (xs, st', fin)"
    using assms(4) by (simp add: poll_wallet_transfer_intent_def)
  have "rounds_left (started + 180000) (test_now (hd rounds)) \<le> 90"
    using assms(3) by (simp add: rounds_left_def)
  moreover note poll_loop_bound [OF assms(1) p assms(2)]
  ultimately show ?thesis using poll_loop_final_last [OF p] by fastforce
qed

theorem transfer_poll_terminates_witness:
  "let rounds = [\<lparr>test_aborted = False, test_now = 0, request_now = 0, got = (\<lambda>_. HttpOtherError),
        changed = id, after_aborted = False, after_now = 179000\<rparr>,
      \<lparr>test_aborted = False, test_now = 180000, request_now = 180000, got = (\<lambda>_. HttpOtherError),
        changed = id, after_aborted = False, after_now = 180000\<rparr>] in
   length (fst (poll_wallet_transfer_intent demo_store 7 (intent_val demo_intent) 0 rounds Map.empty)) \<le> 90"
proof -
  let ?rounds = "[\<lparr>test_aborted = False, test_now = 0, request_now = 0, got = (\<lambda>_. HttpOtherError),
        changed = id, after_aborted = False, after_now = 179000\<rparr>,
      \<lparr>test_aborted = False, test_now = 180000, request_now = 180000, got = (\<lambda>_. HttpOtherError),
        changed = id, after_aborted = False, after_now = 180000\<rparr>] :: (jsstr \<rightharpoonup> jsstr) poll_round list"
  have "paced (0 + 180000) ?rounds" by simp
  moreover obtain xs st' fin where
    "poll_wallet_transfer_intent demo_store 7 (intent_val demo_intent) 0 ?rounds Map.empty = (xs, st', fin)"
    by (cases "poll_wallet_transfer_intent demo_store 7 (intent_val demo_intent) 0 ?rounds Map.empty")
  ultimately show ?thesis
    using transfer_poll_terminates [of 0 ?rounds demo_store 7 "intent_val demo_intent" Map.empty] by simp
qed

end
