(* ===== verification/BlindBox.thy ===== *)
theory BlindBox
  imports JsValue
begin

section \<open>Blind boxes: stock and payments\<close>

text \<open>
  \<open>features/wallet/components/balance-blind-box-state.ts\<close> and \<open>balance-blind-box-actions.ts\<close> (buying boxes from the balance,
  opening and giving away boxes of the stock) and \<open>use-blind-box-payment.ts\<close> (paying for boxes with an
  external payment). Server answers are arguments. Texts of notices are left out, except the
  messages kept in the payment's state, which come from the translation function \<open>tr\<close>.
\<close>

subsection \<open>Boxes of the stock\<close>

record box_overview =
  bo_enabled :: bool
  bo_remaining :: jsnum
  bo_inventory :: jsnum
  bo_balance :: jsnum
  bo_price :: jsnum

datatype action_mode = ModePurchase | ModeOpen | ModeGift

record box_local =
  bl_mode :: action_mode
  bl_purchaseCount :: jsnum
  bl_actionCount :: jsnum
  bl_busy :: bool
  bl_recipientId :: jsstr
  bl_recipient :: "jsstr option"
  bl_confirmGift :: bool

definition useBalanceBoxLocalState :: box_local where
  "useBalanceBoxLocalState = \<lparr>bl_mode = ModePurchase, bl_purchaseCount = num_int 1, bl_actionCount = num_int 1, bl_busy = False,
     bl_recipientId = [], bl_recipient = None, bl_confirmGift = False\<rparr>"

definition or_one :: "jsnum option \<Rightarrow> jsnum" where
  "or_one x = (case x of Some y \<Rightarrow> if num_truthy y then y else num_int 1 | None \<Rightarrow> num_int 1)"

definition canPurchaseBalanceBoxes :: "box_overview option \<Rightarrow> jsnum \<Rightarrow> bool \<Rightarrow> bool \<Rightarrow> bool" where
  "canPurchaseBalanceBoxes balance count loading busy =
     (case balance of
        None \<Rightarrow> False
      | Some b \<Rightarrow> bo_enabled b \<and> \<not> loading \<and> \<not> busy \<and> num_le count (bo_remaining b) \<and>
          num_le (num_mul (bo_price b) count) (bo_balance b))"

definition canUseBalanceBoxInventory :: "box_overview option \<Rightarrow> jsnum \<Rightarrow> bool \<Rightarrow> bool \<Rightarrow> bool" where
  "canUseBalanceBoxInventory balance count loading busy =
     (case balance of
        None \<Rightarrow> False
      | Some b \<Rightarrow> bo_enabled b \<and> \<not> loading \<and> \<not> busy \<and> num_le count (bo_inventory b))"

record box_derived =
  bd_purchaseMax :: jsnum
  bd_inventoryMax :: jsnum
  bd_purchaseCount :: jsnum
  bd_actionCount :: jsnum
  bd_canPurchase :: bool
  bd_canUse :: bool

definition clamp_count :: "jsnum \<Rightarrow> jsnum \<Rightarrow> jsnum" where
  "clamp_count hi count = math_min (math_max (num_int 1) count) hi"

definition deriveBalanceBoxState :: "box_overview option \<Rightarrow> jsnum \<Rightarrow> jsnum \<Rightarrow> bool \<Rightarrow> bool \<Rightarrow> box_derived" where
  "deriveBalanceBoxState balance purchaseCount actionCount loading busy =
     (let purchaseMax = math_max (num_int 1) (or_one (map_option bo_remaining balance));
          inventoryMax = math_max (num_int 1) (math_min (num_int 100) (or_one (map_option bo_inventory balance)));
          safePurchase = clamp_count purchaseMax purchaseCount;
          safeAction = clamp_count inventoryMax actionCount
      in \<lparr>bd_purchaseMax = purchaseMax, bd_inventoryMax = inventoryMax, bd_purchaseCount = safePurchase, bd_actionCount = safeAction,
          bd_canPurchase = canPurchaseBalanceBoxes balance safePurchase loading busy,
          bd_canUse = canUseBalanceBoxInventory balance safeAction loading busy\<rparr>)"

text \<open>Requests to the server; the new state while one is under way.\<close>

datatype box_request = ReqPurchase jsnum | ReqOpen jsnum | ReqGift jsstr jsnum | ReqLookup jsstr

record box_panel =
  bp_balance :: "box_overview option"
  bp_loading :: bool
  bp_cashPaying :: bool

definition panel_state :: "box_panel \<Rightarrow> box_local \<Rightarrow> box_derived" where
  "panel_state p l = deriveBalanceBoxState (bp_balance p) (bl_purchaseCount l) (bl_actionCount l) (bp_loading p) (bl_busy l \<or> bp_cashPaying p)"

definition onPurchase :: "box_panel \<Rightarrow> box_local \<Rightarrow> box_local \<times> box_request option" where
  "onPurchase p l =
     (let l' = l\<lparr>bl_mode := ModePurchase\<rparr>
      in if \<not> bd_canPurchase (panel_state p l) then (l', None)
         else (l'\<lparr>bl_busy := True\<rparr>, Some (ReqPurchase (bd_purchaseCount (panel_state p l)))))"

definition onOpen :: "box_panel \<Rightarrow> box_local \<Rightarrow> box_local \<times> box_request option" where
  "onOpen p l =
     (if \<not> bd_canUse (panel_state p l) then (l, None)
      else (l\<lparr>bl_busy := True\<rparr>, Some (ReqOpen (bd_actionCount (panel_state p l)))))"

definition onOpenCount :: "jsnum \<Rightarrow> box_panel \<Rightarrow> box_local \<Rightarrow> box_local \<times> box_request option" where
  "onOpenCount count p l =
     (let safeCount = clamp_count (bd_inventoryMax (panel_state p l)) count; l' = l\<lparr>bl_mode := ModeOpen\<rparr>
      in if \<not> bd_canUse (panel_state p l) then (l', None) else (l'\<lparr>bl_busy := True\<rparr>, Some (ReqOpen safeCount)))"

definition onGift :: "box_panel \<Rightarrow> box_local \<Rightarrow> box_local \<times> box_request option" where
  "onGift p l =
     (case bl_recipient l of
        None \<Rightarrow> (l, None)
      | Some r \<Rightarrow> if \<not> bd_canUse (panel_state p l) then (l, None)
          else (l\<lparr>bl_busy := True\<rparr>, Some (ReqGift r (bd_actionCount (panel_state p l)))))"

definition public_id :: "jsstr \<Rightarrow> bool" where
  "public_id s \<longleftrightarrow> length s = 6 \<and> list_all (\<lambda>c. 65 \<le> c \<and> c \<le> 90 \<or> is_digit c) s"

definition onLookup :: "(jsstr \<Rightarrow> jsstr) \<Rightarrow> box_local \<Rightarrow> box_local \<times> box_request option" where
  "onLookup upper l =
     (let externalId = upper (trim (bl_recipientId l)); l' = l\<lparr>bl_recipient := None\<rparr>
      in if public_id externalId then (l'\<lparr>bl_busy := True\<rparr>, Some (ReqLookup externalId)) else (l', None))"

definition onRecipientIdChange :: "jsstr \<Rightarrow> box_local \<Rightarrow> box_local" where
  "onRecipientIdChange v l = l\<lparr>bl_recipientId := v, bl_recipient := None\<rparr>"

text \<open>The end of a request, successful or not.\<close>

definition finish_lookup :: "jsstr option \<Rightarrow> box_local \<Rightarrow> box_local" where
  "finish_lookup found l =
     (case found of Some r \<Rightarrow> l\<lparr>bl_recipient := Some r, bl_recipientId := r, bl_busy := False\<rparr> | None \<Rightarrow> l\<lparr>bl_busy := False\<rparr>)"

definition finish_gift :: "bool \<Rightarrow> box_local \<Rightarrow> box_local" where
  "finish_gift ok l =
     (let l' = (if ok then l\<lparr>bl_recipient := None, bl_recipientId := []\<rparr> else l)
      in l'\<lparr>bl_busy := False, bl_confirmGift := False\<rparr>)"

definition finish_other :: "box_local \<Rightarrow> box_local" where
  "finish_other l = l\<lparr>bl_busy := False\<rparr>"

subsection \<open>Requests stay within the stock\<close>

lemma num_le_trans: "num_le a b \<Longrightarrow> num_le b c \<Longrightarrow> num_le a c"
  by (cases a; cases b; cases c) (auto simp: num_le_def num_eq_def)

lemma num_le_Fin: "num_le (Fin x) y \<longleftrightarrow> y = PInf \<or> (\<exists>z. y = Fin z \<and> x \<le> z)"
  by (cases y) (auto simp: num_le_def num_eq_def)

lemma min_le: "a \<noteq> NaN \<Longrightarrow> b \<noteq> NaN \<Longrightarrow> num_le (math_min a b) a \<and> num_le (math_min a b) b"
  by (cases a; cases b) (auto simp: math_min_def num_le_def num_eq_def)

lemma le_max: "a \<noteq> NaN \<Longrightarrow> b \<noteq> NaN \<Longrightarrow> num_le a (math_max a b) \<and> num_le b (math_max a b)"
  by (cases a; cases b) (auto simp: math_max_def num_le_def num_eq_def)

lemma le_min: "num_le c a \<Longrightarrow> num_le c b \<Longrightarrow> num_le c (math_min a b)"
  by (cases a; cases b; cases c) (auto simp: math_min_def num_le_def num_eq_def)

lemma le_not_nan: "num_le a b \<Longrightarrow> a \<noteq> NaN \<and> b \<noteq> NaN"
  by (cases a; cases b) (auto simp: num_le_def num_eq_def)

lemma clamp_bounds:
  assumes "clamp_count hi count \<noteq> NaN" and "num_le (num_int 1) hi"
  shows "num_le (num_int 1) (clamp_count hi count)" and "num_le (clamp_count hi count) hi"
proof -
  have "count \<noteq> NaN" "hi \<noteq> NaN" using assms(1) by (auto simp: clamp_count_def math_min_def math_max_def)
  then show "num_le (num_int 1) (clamp_count hi count)" "num_le (clamp_count hi count) hi"
    using le_max [of "num_int 1" count] min_le [of "math_max (num_int 1) count" hi] le_min [OF _ assms(2)]
      le_not_nan [of "num_int 1" "math_max (num_int 1) count"]
    by (auto simp: clamp_count_def num_int_def)
qed

lemma max_one: "x \<noteq> NaN \<Longrightarrow> num_le (num_int 1) (math_max (num_int 1) x)"
  using le_max [of "num_int 1" x] by (simp add: num_int_def)

definition within_stock :: "box_overview \<Rightarrow> jsnum \<Rightarrow> bool" where
  "within_stock b n \<longleftrightarrow> num_le (num_int 1) n \<and> num_le n (bo_inventory b) \<and> num_le n (num_int 100)"

lemma derived_purchase:
  assumes "bd_canPurchase (panel_state p l)"
  shows "\<exists>b. bp_balance p = Some b \<and> num_le (num_int 1) (bd_purchaseCount (panel_state p l)) \<and>
    num_le (bd_purchaseCount (panel_state p l)) (bo_remaining b) \<and>
    num_le (num_mul (bo_price b) (bd_purchaseCount (panel_state p l))) (bo_balance b) \<and> \<not> bl_busy l"
proof -
  obtain b where b: "bp_balance p = Some b" "num_le (bd_purchaseCount (panel_state p l)) (bo_remaining b)"
      "num_le (num_mul (bo_price b) (bd_purchaseCount (panel_state p l))) (bo_balance b)" "\<not> bl_busy l"
    using assms by (auto simp: panel_state_def deriveBalanceBoxState_def canPurchaseBalanceBoxes_def Let_def split: option.splits)
  let ?hi = "math_max (num_int 1) (or_one (Some (bo_remaining b)))"
  have c: "bd_purchaseCount (panel_state p l) = clamp_count ?hi (bl_purchaseCount l)"
    by (simp add: panel_state_def deriveBalanceBoxState_def Let_def b(1))
  have "or_one (Some (bo_remaining b)) \<noteq> NaN" using le_not_nan [OF b(2)] by (auto simp: or_one_def num_int_def)
  then have "num_le (num_int 1) ?hi" by (rule max_one)
  moreover have "clamp_count ?hi (bl_purchaseCount l) \<noteq> NaN" using le_not_nan [OF b(2)] c by simp
  ultimately have "num_le (num_int 1) (bd_purchaseCount (panel_state p l))" unfolding c by (rule clamp_bounds(1) [rotated])
  then show ?thesis using b by blast
qed

lemma derived_use:
  assumes "bd_canUse (panel_state p l)"
  obtains b where "bp_balance p = Some b" "within_stock b (bd_actionCount (panel_state p l))" "\<not> bl_busy l"
    "num_le (num_int 1) (bd_inventoryMax (panel_state p l))" "num_le (bd_inventoryMax (panel_state p l)) (bo_inventory b)"
    "num_le (bd_inventoryMax (panel_state p l)) (num_int 100)"
proof -
  obtain b where b: "bp_balance p = Some b" "num_le (bd_actionCount (panel_state p l)) (bo_inventory b)" "\<not> bl_busy l"
    using assms by (auto simp: panel_state_def deriveBalanceBoxState_def canUseBalanceBoxInventory_def Let_def split: option.splits)
  let ?in = "or_one (Some (bo_inventory b))"
  let ?hi = "math_max (num_int 1) (math_min (num_int 100) ?in)"
  have c: "bd_actionCount (panel_state p l) = clamp_count ?hi (bl_actionCount l)" "bd_inventoryMax (panel_state p l) = ?hi"
    by (simp_all add: panel_state_def deriveBalanceBoxState_def Let_def b(1))
  have nn: "?in \<noteq> NaN" using le_not_nan [OF b(2)] by (auto simp: or_one_def num_int_def)
  then have one: "num_le (num_int 1) ?hi" by (intro max_one) (auto simp: math_min_def num_int_def)
  have cl: "num_le (num_int 1) (clamp_count ?hi (bl_actionCount l))" "num_le (clamp_count ?hi (bl_actionCount l)) ?hi"
    using clamp_bounds [OF _ one] le_not_nan [OF b(2)] c by auto
  have "num_le (num_int 1) (bo_inventory b)" using num_le_trans [OF cl(1)] b(2) c by simp
  then have inv: "?in = bo_inventory b" by (cases "bo_inventory b") (auto simp: or_one_def num_int_def num_le_def num_eq_def num_truthy_def)
  have "num_le (num_int 1) (math_min (num_int 100) ?in)"
    using le_min [of "num_int 1" "num_int 100" ?in] \<open>num_le (num_int 1) (bo_inventory b)\<close> inv by (simp add: num_int_def num_le_Fin)
  then have "?hi = math_min (num_int 100) ?in"
    by (cases "math_min (num_int 100) ?in") (auto simp: math_max_def num_le_def num_eq_def num_int_def)
  then have "num_le ?hi (bo_inventory b)" "num_le ?hi (num_int 100)"
    using min_le [of "num_int 100" ?in] nn inv by (auto simp: num_int_def)
  then show thesis
    using that [OF b(1)] b(3) one cl num_le_trans [OF cl(2)] unfolding c within_stock_def by blast
qed

text \<open>Every request about blind boxes stays within what the account has: a purchase is for at least one box, at most
  the remaining limit and at most what the balance pays for; opening and giving away is for at least one, at most
  a hundred and at most the boxes in stock, also when a count is given directly; and a request starts
  only when no other one is under way, and marks the panel busy.\<close>

theorem box_requests_within_limits:
  assumes "(l', Some r) \<in> {onPurchase p l, onOpen p l, onOpenCount count p l, onGift p l}" and "count \<noteq> NaN"
  shows "\<exists>b. bp_balance p = Some b \<and> \<not> bl_busy l \<and> bl_busy l' \<and>
    (case r of
       ReqPurchase n \<Rightarrow> num_le (num_int 1) n \<and> num_le n (bo_remaining b) \<and> num_le (num_mul (bo_price b) n) (bo_balance b)
     | ReqOpen n \<Rightarrow> within_stock b n
     | ReqGift _ n \<Rightarrow> within_stock b n
     | ReqLookup _ \<Rightarrow> False)"
proof -
  consider "onPurchase p l = (l', Some r)" | "onOpen p l = (l', Some r)" | "onOpenCount count p l = (l', Some r)" | "onGift p l = (l', Some r)"
    using assms(1) by auto
  then show ?thesis
  proof cases
    case 1
    then show ?thesis using derived_purchase [of p l] by (auto simp: onPurchase_def Let_def split: if_splits)
  next
    case 2
    then have "bd_canUse (panel_state p l)" by (auto simp: onOpen_def split: if_splits)
    then show ?thesis using 2 by (elim derived_use) (auto simp: onOpen_def split: if_splits)
  next
    case 3
    then have can: "bd_canUse (panel_state p l)" by (auto simp: onOpenCount_def Let_def split: if_splits)
    then obtain b where b: "bp_balance p = Some b" "\<not> bl_busy l" "num_le (num_int 1) (bd_inventoryMax (panel_state p l))"
        "num_le (bd_inventoryMax (panel_state p l)) (bo_inventory b)" "num_le (bd_inventoryMax (panel_state p l)) (num_int 100)"
      by (elim derived_use)
    have "clamp_count (bd_inventoryMax (panel_state p l)) count \<noteq> NaN"
      using assms(2) le_not_nan [OF b(4)] by (auto simp: clamp_count_def math_min_def math_max_def num_int_def)
    note cl = clamp_bounds [OF this b(3)]
    have "within_stock b (clamp_count (bd_inventoryMax (panel_state p l)) count)"
      unfolding within_stock_def using cl(1) num_le_trans [OF cl(2) b(4)] num_le_trans [OF cl(2) b(5)] by blast
    then show ?thesis using 3 b(1,2) can by (auto simp: onOpenCount_def Let_def)
  next
    case 4
    then have "bd_canUse (panel_state p l)" by (auto simp: onGift_def split: if_splits option.splits)
    then show ?thesis using 4 by (elim derived_use) (auto simp: onGift_def split: if_splits option.splits)
  qed
qed

theorem box_requests_within_limits_witness:
  "\<exists>l' n. onOpenCount (num_int 50) \<lparr>bp_balance = Some \<lparr>bo_enabled = True, bo_remaining = num_int 3, bo_inventory = num_int 7,
      bo_balance = num_int 10, bo_price = num_int 2\<rparr>, bp_loading = False, bp_cashPaying = False\<rparr> useBalanceBoxLocalState = (l', Some (ReqOpen n)) \<and>
    num_le n (num_int 7)"
proof -
  let ?b = "\<lparr>bo_enabled = True, bo_remaining = num_int 3, bo_inventory = num_int 7, bo_balance = num_int 10, bo_price = num_int 2\<rparr>"
  let ?p = "\<lparr>bp_balance = Some ?b, bp_loading = False, bp_cashPaying = False\<rparr>"
  have "bd_canUse (panel_state ?p useBalanceBoxLocalState)"
    by (simp add: panel_state_def deriveBalanceBoxState_def canUseBalanceBoxInventory_def useBalanceBoxLocalState_def clamp_count_def or_one_def
        num_truthy_def num_int_def num_le_def Let_def math_max_def math_min_def)
  then obtain l' n where "onOpenCount (num_int 50) ?p useBalanceBoxLocalState = (l', Some (ReqOpen n))" by (simp add: onOpenCount_def Let_def)
  moreover from this have "\<exists>b. bp_balance ?p = Some b \<and> within_stock b n"
    using box_requests_within_limits [of l' "ReqOpen n" ?p useBalanceBoxLocalState "num_int 50"] by (fastforce simp: num_int_def)
  ultimately show ?thesis by (auto simp: within_stock_def)
qed

end
