(* ===== verification/JsObject.thy ===== *)
theory JsObject
  imports JsValue
begin

section \<open>Objects with known properties\<close>

text \<open>
  Reading properties at a type, and objects that are built by assigning properties one after the
  other; used by the components that keep JSON texts. The last part lists the entries of an arbitrary value.
\<close>

definition props_of :: "jsval \<Rightarrow> (jsstr \<times> jsval) list" where
  "props_of v = (case v of JObj ps \<Rightarrow> ps | _ \<Rightarrow> [])"

definition arr_of :: "jsval \<Rightarrow> jsval list" where
  "arr_of v = (case v of JArr vs \<Rightarrow> vs | _ \<Rightarrow> [])"

definition str_prop :: "jsval \<Rightarrow> string \<Rightarrow> jsstr" where
  "str_prop v k = (case obj_get v (js k) of JStr s \<Rightarrow> s | _ \<Rightarrow> [])"

definition true_prop :: "jsval \<Rightarrow> string \<Rightarrow> bool" where
  "true_prop v k \<longleftrightarrow> obj_get v (js k) = JBool True"

text \<open>Assignments to the properties of a fresh object.\<close>

definition put_if :: "bool \<Rightarrow> string \<Rightarrow> jsval \<Rightarrow> (jsstr \<times> jsval) list \<Rightarrow> (jsstr \<times> jsval) list" where
  "put_if b k v ps = (if b then obj_put ps (js k, v) else ps)"

lemma map_of_put_if [simp]:
  "map_of (put_if b k v ps) (js k') = (if b \<and> k' = k then Some v else map_of ps (js k'))"
  by (simp add: put_if_def js_inject)

lemma keys_put: "fst ` set (obj_put ps kv) = insert (fst kv) (fst ` set ps)"
  by (auto simp: obj_put_def image_iff split: if_splits)

lemma plain_obj_put:
  assumes "plain (JObj ps)" and "wf_units k" and "\<not> is_index_key k" and "plain v"
  shows "plain (JObj (obj_put ps (k, v)))"
proof (cases "k \<in> fst ` set ps")
  case True
  have "map fst (map (\<lambda>p. if fst p = k then (k, v) else p) ps) = map fst ps" by simp
  then have "distinct (map fst (obj_put ps (k, v)))" using assms(1) True by (simp add: obj_put_def del: map_map)
  moreover have "list_all (\<lambda>p. wf_units (fst p) \<and> \<not> is_index_key (fst p) \<and> plain (snd p)) (obj_put ps (k, v))"
    using assms True by (auto simp: obj_put_def list_all_iff)
  ultimately show ?thesis by simp
qed (use assms in \<open>auto simp: obj_put_def list_all_iff\<close>)

lemma plain_put_if:
  assumes "plain (JObj ps)" and "\<not> is_index_key (js k)" and "b \<Longrightarrow> plain v"
  shows "plain (JObj (put_if b k v ps))"
  using assms plain_obj_put [OF assms(1)] by (simp add: put_if_def)

text \<open>Writing a property again keeps its place.\<close>

lemma obj_put_in: "k \<in> fst ` set ps \<Longrightarrow> obj_put ps (k, w) = map (\<lambda>p. if fst p = k then (k, w) else p) ps"
  by (simp add: obj_put_def)

lemma obj_put_out: "k \<notin> fst ` set ps \<Longrightarrow> obj_put ps (k, w) = ps @ [(k, w)]"
  by (simp add: obj_put_def)

lemma replace_absent: "k \<notin> fst ` set ps \<Longrightarrow> map (\<lambda>p. if fst p = k then (k, w) else p) ps = ps"
  by (rule map_idI) auto

lemma obj_put_again: "obj_put (obj_put ps (k, v)) (k, w) = obj_put ps (k, w)"
proof -
  have "obj_put (obj_put ps (k, v)) (k, w) = map (\<lambda>p. if fst p = k then (k, w) else p) (obj_put ps (k, v))"
    by (rule obj_put_in) (simp add: keys_put)
  then show ?thesis
    by (cases "k \<in> fst ` set ps") (simp_all add: obj_put_in obj_put_out replace_absent)
qed

lemma obj_put_behind:
  assumes "k \<noteq> l"
  shows "obj_put (obj_put (obj_put ps (k, v)) (l, x)) (k, w) = obj_put (obj_put ps (k, w)) (l, x)"
proof -
  have "obj_put (obj_put (obj_put ps (k, v)) (l, x)) (k, w) =
      map (\<lambda>p. if fst p = k then (k, w) else p) (obj_put (obj_put ps (k, v)) (l, x))"
    by (rule obj_put_in) (simp add: keys_put)
  also have "\<dots> = obj_put (map (\<lambda>p. if fst p = k then (k, w) else p) (obj_put ps (k, v))) (l, x)"
  proof (cases "l \<in> fst ` set (obj_put ps (k, v))")
    case True
    then have "l \<in> fst ` set (map (\<lambda>p. if fst p = k then (k, w) else p) (obj_put ps (k, v)))"
      using assms by (auto simp: image_iff)
    then show ?thesis using True assms by (simp add: obj_put_in)
  next
    case False
    then have "l \<notin> fst ` set (map (\<lambda>p. if fst p = k then (k, w) else p) (obj_put ps (k, v)))"
      using assms by auto
    then show ?thesis using False assms by (simp add: obj_put_out)
  qed
  also have "map (\<lambda>p. if fst p = k then (k, w) else p) (obj_put ps (k, v)) = obj_put ps (k, w)"
    using obj_put_again [of ps k v w] by (subst obj_put_in [symmetric]) (simp_all add: keys_put)
  finally show ?thesis .
qed

lemma put_if_again:
  "put_if True k w (put_if True k v ps) = put_if True k w ps"
  by (simp add: put_if_def obj_put_again)

lemma put_if_behind:
  "k \<noteq> l \<Longrightarrow> put_if True k w (put_if True l x (put_if True k v ps)) = put_if True l x (put_if True k w ps)"
  by (simp add: put_if_def js_inject obj_put_behind)

lemma put_if_False [simp]: "put_if False k v ps = ps"
  by (simp add: put_if_def)

lemma js_nonempty: "js (c # s) \<noteq> []"
  by (simp add: js_lit)

lemma map_of_puts:
  "distinct (map fst es) \<Longrightarrow>
   map_of (foldl obj_put ps es) k = (case map_of es k of None \<Rightarrow> map_of ps k | w \<Rightarrow> w)"
proof (induction es arbitrary: ps)
  case (Cons e es)
  then have "map_of es (fst e) = None" by (auto simp: map_of_eq_None_iff)
  with Cons show ?case by (cases e) (auto split: option.split)
qed simp

subsection \<open>Entries of arbitrary values\<close>

text \<open>\<open>v && typeof v === 'object'\<close>.\<close>

definition is_object_value :: "jsval \<Rightarrow> bool" where
  "is_object_value v \<longleftrightarrow> (case v of JObj _ \<Rightarrow> True | JArr _ \<Rightarrow> True | _ \<Rightarrow> False)"

text \<open>\<open>Object.entries(v)\<close>, which are also the properties copied by \<open>{...v}\<close>.\<close>

definition indexed :: "jsval list \<Rightarrow> (jsstr \<times> jsval) list" where
  "indexed vs = map (\<lambda>i. (int_str (int i), vs ! i)) [0..<length vs]"

definition value_entries :: "jsval \<Rightarrow> (jsstr \<times> jsval) list" where
  "value_entries v =
     (case v of JObj ps \<Rightarrow> obj_entries ps | JArr vs \<Rightarrow> indexed vs
      | JStr s \<Rightarrow> indexed (map (\<lambda>c. JStr [c]) s) | _ \<Rightarrow> [])"

end
