(* ===== verification/BlindBoxPayment.thy ===== *)
theory BlindBoxPayment
  imports BlindBox JsObject
begin

section \<open>Paying for blind boxes\<close>

text \<open>
  \<open>features/wallet/components/use-blind-box-payment.ts\<close> as a machine: the events are the clicks of the user, the
  answers of the server and the ticks of the polling timer, in any order. A poll keeps the payment it
  was started for; \<open>pp_version\<close> counts the payment objects, so that a poll is active exactly while its
  version is the current one (the effect's cleanup runs when the object changes). Scheduled retries keep the
  \<open>handlePay\<close> of the render in which they were scheduled.
\<close>

subsection \<open>State\<close>

datatype payment_stage = StageIdle | StagePending | StageFailed

record pay_method =
  pay_type :: jsstr
  pay_name :: jsstr

record payment_state =
  pm_open :: bool
  pm_stage :: payment_stage
  pm_orderId :: jsstr
  pm_amountDue :: jsnum
  pm_methodLabel :: jsstr
  pm_payUrl :: jsstr
  pm_qrCodeUrl :: jsstr
  pm_formUrl :: jsstr
  pm_formFields :: "(jsstr \<times> jsval) list option"
  pm_quantity :: jsnum
  pm_message :: jsstr
  pm_pollingStartTime :: "jsnum option"
  pm_retry :: "(jsnum \<times> jsstr) option"

definition EMPTY_PAYMENT_STATE :: payment_state where
  "EMPTY_PAYMENT_STATE = \<lparr>pm_open = False, pm_stage = StageIdle, pm_orderId = [], pm_amountDue = num_int 0, pm_methodLabel = [],
     pm_payUrl = [], pm_qrCodeUrl = [], pm_formUrl = [], pm_formFields = None, pm_quantity = num_int 0, pm_message = [],
     pm_pollingStartTime = None, pm_retry = None\<rparr>"

datatype payment_text = TextUnselected | TextWeChat | TextOnline | TextStartFailed | TextNoPage | TextOpened | TextExpired |
  TextPollTimeout | TextInsufficient | TextNetTimeout | TextLimit

definition getBlindBoxMethodLabel :: "(payment_text \<Rightarrow> jsstr) \<Rightarrow> pay_method option \<Rightarrow> jsstr" where
  "getBlindBoxMethodLabel tr m =
     (case m of
        None \<Rightarrow> tr TextUnselected
      | Some m \<Rightarrow>
          if pay_type m = js ''xunhu'' then tr TextWeChat
          else if pay_name m \<noteq> [] then pay_name m else if pay_type m \<noteq> [] then pay_type m else tr TextOnline)"

definition friendlyPaymentError :: "(payment_text \<Rightarrow> jsstr) \<Rightarrow> jsstr \<Rightarrow> jsstr" where
  "friendlyPaymentError tr m =
     (if includes_str m [20313, 39069, 19981, 36275] \<or> includes_str m (js ''insufficient'') then tr TextInsufficient
      else if includes_str m [36229, 26102] \<or> includes_str m (js ''timeout'') then tr TextNetTimeout
      else if includes_str m [38480, 39069] \<or> includes_str m (js ''limit'') then tr TextLimit
      else m)"

definition isApiSuccess :: "jsval \<Rightarrow> bool" where
  "isApiSuccess response \<longleftrightarrow> obj_get response (js ''success'') = JBool True \<or> obj_get response (js ''message'') = JStr (js ''success'')"

text \<open>What \<open>handlePay\<close> closes over.\<close>

record pay_choice =
  pc_quantity :: jsnum
  pc_method :: "pay_method option"
  pc_amount :: "jsnum option"

definition or_text :: "jsval \<Rightarrow> jsstr" where
  "or_text v = (if truthy v then to_str v else [])"

definition as_record :: "jsval \<Rightarrow> (jsstr \<times> jsval) list option" where
  "as_record v = (case v of JObj ps \<Rightarrow> Some ps | _ \<Rightarrow> None)"

text \<open>The payment after an answer: \<open>Inl\<close> is the message of the thrown error.\<close>

definition pay_answer :: "(payment_text \<Rightarrow> jsstr) \<Rightarrow> jsnum \<Rightarrow> jsnum \<Rightarrow> pay_method \<Rightarrow> jsnum \<Rightarrow> jsval \<Rightarrow> jsstr + payment_state" where
  "pay_answer tr now quantity m amountDue response =
     (if \<not> isApiSuccess response
      then Inl (friendlyPaymentError tr (let t = or_text (obj_get response (js ''message'')) in if t \<noteq> [] then t else tr TextStartFailed))
      else
        let payload = JObj (case as_record (obj_get response (js ''data'')) of Some ps \<Rightarrow> ps | None \<Rightarrow> []);
            formFields = as_record (obj_get payload (js ''form''));
            payUrl = or_text (obj_get payload (js ''pay_url''));
            formUrl = (if formFields \<noteq> None then or_text (obj_get response (js ''url'')) else []);
            due = obj_get payload (js ''amount_due'');
            qty = obj_get payload (js ''quantity'')
        in if \<not> (formUrl \<noteq> [] \<and> formFields \<noteq> None) \<and> payUrl = [] then Inl (tr TextNoPage)
           else Inr \<lparr>pm_open = False, pm_stage = StagePending, pm_orderId = or_text (obj_get payload (js ''order_id'')),
             pm_amountDue = (if truthy due then to_num due else amountDue), pm_methodLabel = getBlindBoxMethodLabel tr (Some m),
             pm_payUrl = payUrl, pm_qrCodeUrl = or_text (obj_get payload (js ''qrcode_url'')), pm_formUrl = formUrl,
             pm_formFields = formFields, pm_quantity = (if truthy qty then to_num qty else quantity),
             pm_message = tr TextOpened, pm_pollingStartTime = Some now, pm_retry = Some (quantity, pay_type m)\<rparr>)"

definition pay_failed :: "(payment_text \<Rightarrow> jsstr) \<Rightarrow> jsnum \<Rightarrow> pay_method \<Rightarrow> jsnum \<Rightarrow> jsstr \<Rightarrow> payment_state" where
  "pay_failed tr quantity m amountDue msg =
     EMPTY_PAYMENT_STATE\<lparr>pm_open := True, pm_stage := StageFailed, pm_amountDue := amountDue,
       pm_methodLabel := getBlindBoxMethodLabel tr (Some m), pm_quantity := quantity, pm_message := msg,
       pm_retry := Some (quantity, pay_type m)\<rparr>"

subsection \<open>The machine\<close>

datatype poll_phase = PollAsked | PollConfirmed

record order_poll =
  op_version :: nat
  op_order :: jsstr
  op_dialog :: bool
  op_phase :: poll_phase

record pay_request =
  pr_quantity :: jsnum
  pr_method :: pay_method
  pr_amount :: jsnum

record pay_page =
  pp_payment :: payment_state
  pp_version :: nat
  pp_paying :: bool
  pp_choice :: pay_choice
  pp_methods :: "pay_method list"
  pp_requests :: "pay_request list"
  pp_polls :: "order_poll list"
  pp_retries :: "pay_choice list"
  pp_asked :: "(jsnum \<times> jsstr) list"

definition initial_page :: "pay_choice \<Rightarrow> pay_method list \<Rightarrow> pay_page" where
  "initial_page choice methods = \<lparr>pp_payment = EMPTY_PAYMENT_STATE, pp_version = 0, pp_paying = False, pp_choice = choice,
     pp_methods = methods, pp_requests = [], pp_polls = [], pp_retries = [], pp_asked = []\<rparr>"

definition setPaymentState :: "payment_state \<Rightarrow> pay_page \<Rightarrow> pay_page" where
  "setPaymentState s st =
     (if s = EMPTY_PAYMENT_STATE \<and> pp_payment st = EMPTY_PAYMENT_STATE then st
      else st\<lparr>pp_payment := s, pp_version := Suc (pp_version st)\<rparr>)"

text \<open>The beginning of \<open>handlePay\<close> with the values it closes over.\<close>

definition handlePay :: "pay_choice \<Rightarrow> pay_page \<Rightarrow> pay_page" where
  "handlePay choice st =
     (case (pc_amount choice, pc_method choice) of
        (Some amountDue, Some m) \<Rightarrow>
          st\<lparr>pp_paying := True,
            pp_requests := pp_requests st @ [\<lparr>pr_quantity = pc_quantity choice, pr_method = m, pr_amount = amountDue\<rparr>],
            pp_asked := pp_asked st @ [(pc_quantity choice, pay_type m)]\<rparr>
      | _ \<Rightarrow> st)"

definition drop_nth :: "nat \<Rightarrow> 'a list \<Rightarrow> 'a list" where
  "drop_nth i xs = take i xs @ drop (Suc i) xs"

definition finish_pay :: "(payment_text \<Rightarrow> jsstr) \<Rightarrow> jsnum \<Rightarrow> nat \<Rightarrow> jsstr + jsval \<Rightarrow> pay_page \<Rightarrow> pay_page" where
  "finish_pay tr now i answer st =
     (if i < length (pp_requests st)
      then
        let r = pp_requests st ! i;
            outcome = (case answer of
              Inl msg \<Rightarrow> Inl msg
            | Inr response \<Rightarrow> pay_answer tr now (pr_quantity r) (pr_method r) (pr_amount r) response);
            s = (case outcome of Inr s \<Rightarrow> s | Inl msg \<Rightarrow> pay_failed tr (pr_quantity r) (pr_method r) (pr_amount r) msg)
        in (setPaymentState s st)\<lparr>pp_requests := drop_nth i (pp_requests st), pp_paying := False\<rparr>
      else st)"

text \<open>The effect and its timer ask for the order of the current payment.\<close>

definition start_poll :: "pay_page \<Rightarrow> pay_page" where
  "start_poll st =
     (if pm_stage (pp_payment st) \<noteq> StagePending \<or> pm_orderId (pp_payment st) = [] then st
      else st\<lparr>pp_polls := pp_polls st @ [\<lparr>op_version = pp_version st, op_order = pm_orderId (pp_payment st),
        op_dialog = pm_open (pp_payment st), op_phase = PollAsked\<rparr>]\<rparr>)"

datatype order_answer = OrderUnknown | OrderPending | OrderSuccess | OrderExpired

definition failed_with :: "jsstr \<Rightarrow> pay_page \<Rightarrow> pay_page" where
  "failed_with msg st = setPaymentState ((pp_payment st)\<lparr>pm_stage := StageFailed, pm_message := msg\<rparr>) st"

definition poll_answer :: "(payment_text \<Rightarrow> jsstr) \<Rightarrow> nat \<Rightarrow> order_answer \<Rightarrow> pay_page \<Rightarrow> pay_page" where
  "poll_answer tr i answer st =
     (if i < length (pp_polls st) \<and> op_phase (pp_polls st ! i) = PollAsked
      then
        let p = pp_polls st ! i; gone = st\<lparr>pp_polls := drop_nth i (pp_polls st)\<rparr>
        in if op_version p \<noteq> pp_version st then gone
           else case answer of
                  OrderSuccess \<Rightarrow> st\<lparr>pp_polls := (pp_polls st)[i := p\<lparr>op_phase := PollConfirmed\<rparr>]\<rparr>
                | OrderExpired \<Rightarrow>
                    if op_dialog p then failed_with (tr TextExpired) gone else setPaymentState EMPTY_PAYMENT_STATE gone
                | _ \<Rightarrow> gone
      else st)"

text \<open>The refreshes after a paid order are done.\<close>

definition poll_refreshed :: "nat \<Rightarrow> pay_page \<Rightarrow> pay_page" where
  "poll_refreshed i st =
     (if i < length (pp_polls st) \<and> op_phase (pp_polls st ! i) = PollConfirmed
      then setPaymentState EMPTY_PAYMENT_STATE (st\<lparr>pp_polls := drop_nth i (pp_polls st)\<rparr>)
      else st)"

definition is_timeout :: "jsstr \<Rightarrow> bool" where
  "is_timeout msg \<longleftrightarrow> includes_str msg (js ''timeout'') \<or> includes_str msg [36229, 26102]"

definition poll_error :: "(payment_text \<Rightarrow> jsstr) \<Rightarrow> nat \<Rightarrow> jsstr \<Rightarrow> pay_page \<Rightarrow> pay_page" where
  "poll_error tr i msg st =
     (if i < length (pp_polls st)
      then
        let gone = st\<lparr>pp_polls := drop_nth i (pp_polls st)\<rparr>
        in if is_timeout msg then failed_with (tr TextPollTimeout) gone else gone
      else st)"

text \<open>Cancelling: without a pending order at once, otherwise with the server's answer.\<close>

definition handleCancelPayment :: "bool \<Rightarrow> pay_page \<Rightarrow> pay_page \<times> bool" where
  "handleCancelPayment ok st =
     (if pm_orderId (pp_payment st) = [] \<or> pm_stage (pp_payment st) \<noteq> StagePending then (setPaymentState EMPTY_PAYMENT_STATE st, True)
      else if ok then (setPaymentState EMPTY_PAYMENT_STATE st, True) else (st, False))"

definition handleContinuePaymentInBackground :: "pay_page \<Rightarrow> pay_page" where
  "handleContinuePaymentInBackground st = setPaymentState ((pp_payment st)\<lparr>pm_open := False\<rparr>) st"

definition handleRetryPayment :: "pay_page \<Rightarrow> pay_page" where
  "handleRetryPayment st =
     (case pm_retry (pp_payment st) of
        None \<Rightarrow> st
      | Some (quantity, mtype) \<Rightarrow>
          (case find (\<lambda>m. pay_type m = mtype) (pp_methods st) of
             None \<Rightarrow> setPaymentState EMPTY_PAYMENT_STATE st
           | Some m \<Rightarrow>
               (setPaymentState EMPTY_PAYMENT_STATE st)\<lparr>pp_choice := (pp_choice st)\<lparr>pc_quantity := quantity, pc_method := Some m\<rparr>,
                 pp_retries := pp_retries st @ [pp_choice st]\<rparr>))"

definition fire_retry :: "nat \<Rightarrow> pay_page \<Rightarrow> pay_page" where
  "fire_retry i st =
     (if i < length (pp_retries st)
      then handlePay (pp_retries st ! i) (st\<lparr>pp_retries := drop_nth i (pp_retries st)\<rparr>) else st)"

datatype pay_event =
    EvChoose pay_choice
  | EvPay
  | EvPayAnswer nat jsnum "jsstr + jsval"
  | EvPoll
  | EvPollAnswer nat order_answer
  | EvPollRefreshed nat
  | EvPollError nat jsstr
  | EvCancel bool
  | EvBackground
  | EvRetry
  | EvRetryFires nat

fun pay_step :: "(payment_text \<Rightarrow> jsstr) \<Rightarrow> pay_event \<Rightarrow> pay_page \<Rightarrow> pay_page" where
  "pay_step tr (EvChoose choice) st = st\<lparr>pp_choice := choice\<rparr>"
| "pay_step tr EvPay st = handlePay (pp_choice st) st"
| "pay_step tr (EvPayAnswer i now a) st = finish_pay tr now i a st"
| "pay_step tr EvPoll st = start_poll st"
| "pay_step tr (EvPollAnswer i a) st = poll_answer tr i a st"
| "pay_step tr (EvPollRefreshed i) st = poll_refreshed i st"
| "pay_step tr (EvPollError i msg) st = poll_error tr i msg st"
| "pay_step tr (EvCancel ok) st = fst (handleCancelPayment ok st)"
| "pay_step tr EvBackground st = handleContinuePaymentInBackground st"
| "pay_step tr EvRetry st = handleRetryPayment st"
| "pay_step tr (EvRetryFires i) st = fire_retry i st"

definition pay_run :: "(payment_text \<Rightarrow> jsstr) \<Rightarrow> pay_event list \<Rightarrow> pay_page \<Rightarrow> pay_page" where
  "pay_run tr evs st = fold (pay_step tr) evs st"

subsection \<open>A pending payment\<close>

definition payable :: "payment_state \<Rightarrow> bool" where
  "payable s \<longleftrightarrow> pm_payUrl s \<noteq> [] \<or> pm_formUrl s \<noteq> [] \<and> pm_formFields s \<noteq> None"

definition page_ok :: "pay_page \<Rightarrow> bool" where
  "page_ok st \<longleftrightarrow>
     (pm_stage (pp_payment st) = StagePending \<longrightarrow> payable (pp_payment st) \<and> pm_retry (pp_payment st) \<noteq> None) \<and>
     (\<forall>r. pm_retry (pp_payment st) = Some r \<longrightarrow> r \<in> set (pp_asked st)) \<and>
     (\<forall>r \<in> set (pp_requests st). (pr_quantity r, pay_type (pr_method r)) \<in> set (pp_asked st)) \<and>
     (\<forall>p \<in> set (pp_polls st). op_order p \<noteq> [])"

lemma empty_fields [simp]:
  "pm_stage EMPTY_PAYMENT_STATE = StageIdle" "pm_retry EMPTY_PAYMENT_STATE = None"
  by (simp_all add: EMPTY_PAYMENT_STATE_def)

lemma set_payment_fields [simp]:
  "pp_payment (setPaymentState s st) = s" "pp_requests (setPaymentState s st) = pp_requests st" "pp_polls (setPaymentState s st) = pp_polls st"
  "pp_asked (setPaymentState s st) = pp_asked st" "pp_retries (setPaymentState s st) = pp_retries st" "pp_choice (setPaymentState s st) = pp_choice st"
  "pp_methods (setPaymentState s st) = pp_methods st"
  by (auto simp: setPaymentState_def)

lemma drop_nth_subset: "x \<in> set (drop_nth i xs) \<Longrightarrow> x \<in> set xs"
  by (auto simp: drop_nth_def dest: in_set_takeD in_set_dropD)

lemma pay_answer_ok:
  "pay_answer tr now q m d r = Inr s \<Longrightarrow> pm_stage s = StagePending \<and> payable s \<and> pm_retry s = Some (q, pay_type m)"
  by (auto simp: pay_answer_def payable_def Let_def split: if_splits)

lemma ok_set_payment:
  assumes "page_ok st" and "pm_stage s = StagePending \<Longrightarrow> payable s \<and> pm_retry s \<noteq> None"
    and "\<And>r. pm_retry s = Some r \<Longrightarrow> r \<in> set (pp_asked st)"
  shows "page_ok (setPaymentState s st)"
  using assms by (simp add: page_ok_def)

lemma ok_empty: "page_ok st \<Longrightarrow> page_ok (setPaymentState EMPTY_PAYMENT_STATE st)"
  by (rule ok_set_payment) simp_all

lemma ok_gone: "page_ok st \<Longrightarrow> page_ok (st\<lparr>pp_polls := drop_nth i (pp_polls st)\<rparr>)"
  by (auto simp: page_ok_def dest: drop_nth_subset)

lemma ok_failed: "page_ok st \<Longrightarrow> page_ok (failed_with msg st)"
  unfolding failed_with_def by (rule ok_set_payment) (auto simp: page_ok_def)

lemma ok_handlePay: "page_ok st \<Longrightarrow> page_ok (handlePay c st)"
  by (auto simp: handlePay_def page_ok_def split: option.splits)

lemma ok_finish:
  assumes "page_ok st"
  shows "page_ok (finish_pay tr now i a st)"
proof (cases "i < length (pp_requests st)")
  case True
  let ?r = "pp_requests st ! i"
  let ?s = "case (case a of Inl msg \<Rightarrow> Inl msg | Inr response \<Rightarrow> pay_answer tr now (pr_quantity ?r) (pr_method ?r) (pr_amount ?r) response) of
      Inr s \<Rightarrow> s | Inl msg \<Rightarrow> pay_failed tr (pr_quantity ?r) (pr_method ?r) (pr_amount ?r) msg"
  have mem: "(pr_quantity ?r, pay_type (pr_method ?r)) \<in> set (pp_asked st)" using assms True by (simp add: page_ok_def)
  have "pm_retry ?s = Some (pr_quantity ?r, pay_type (pr_method ?r)) \<and> (pm_stage ?s = StagePending \<longrightarrow> payable ?s)"
    using pay_answer_ok by (auto simp: pay_failed_def split: sum.splits)
  then have "page_ok (setPaymentState ?s st)" using assms mem by (intro ok_set_payment) auto
  then show ?thesis using True by (auto simp: finish_pay_def page_ok_def Let_def dest: drop_nth_subset)
qed (use assms in \<open>simp add: finish_pay_def\<close>)

lemma ok_poll_answer:
  assumes ok: "page_ok st"
  shows "page_ok (poll_answer tr i a st)"
proof (cases "i < length (pp_polls st) \<and> op_phase (pp_polls st ! i) = PollAsked")
  case True
  let ?p = "pp_polls st ! i"
  have "op_order ?p \<noteq> []" using ok True by (simp add: page_ok_def)
  then have "\<forall>q \<in> set ((pp_polls st)[i := ?p\<lparr>op_phase := PollConfirmed\<rparr>]). op_order q \<noteq> []"
    using ok by (auto simp: page_ok_def dest!: subsetD [OF set_update_subset_insert])
  then have "page_ok (st\<lparr>pp_polls := (pp_polls st)[i := ?p\<lparr>op_phase := PollConfirmed\<rparr>]\<rparr>)" using ok by (simp add: page_ok_def)
  then show ?thesis
    using True ok ok_gone [OF ok] ok_failed [OF ok_gone [OF ok]] ok_empty [OF ok_gone [OF ok]]
    by (simp add: poll_answer_def Let_def split: order_answer.splits)
next
  case False
  then show ?thesis using ok by (auto simp: poll_answer_def)
qed

lemma ok_step:
  assumes "page_ok st"
  shows "page_ok (pay_step tr ev st)"
proof (cases ev)
  case (EvPollRefreshed i)
  then show ?thesis using ok_empty [OF ok_gone [OF assms]] assms by (simp add: poll_refreshed_def)
next
  case (EvPollError i msg)
  then show ?thesis using ok_failed [OF ok_gone [OF assms]] ok_gone [OF assms] assms by (simp add: poll_error_def Let_def)
next
  case EvBackground
  have "page_ok (setPaymentState ((pp_payment st)\<lparr>pm_open := False\<rparr>) st)"
    using assms by (intro ok_set_payment) (auto simp: page_ok_def payable_def)
  then show ?thesis using EvBackground by (simp add: handleContinuePaymentInBackground_def)
next
  case EvRetry
  have "page_ok (x\<lparr>pp_choice := c, pp_retries := r\<rparr>) = page_ok x" for x c r by (simp add: page_ok_def)
  then show ?thesis using EvRetry ok_empty [OF assms] assms by (auto simp: handleRetryPayment_def split: option.splits)
next
  case (EvRetryFires i)
  have "page_ok (st\<lparr>pp_retries := r\<rparr>)" for r using assms by (simp add: page_ok_def)
  then show ?thesis using EvRetryFires assms ok_handlePay by (simp add: fire_retry_def)
next
  case (EvChoose c)
  then show ?thesis using assms by (simp add: page_ok_def)
next
  case EvPoll
  then show ?thesis using assms by (auto simp: start_poll_def page_ok_def)
qed (use assms in \<open>simp_all add: ok_handlePay ok_finish ok_poll_answer ok_empty handleCancelPayment_def\<close>)

lemma ok_run: "page_ok st \<Longrightarrow> page_ok (pay_run tr evs st)"
  unfolding pay_run_def by (induction evs arbitrary: st) (simp_all add: ok_step)

text \<open>Whatever the user does and whatever the server answers, in any order: while a payment is pending the page has something to
  open for it (a payment address, or a form with its address), and the retry it offers repeats a request that was
  really sent.\<close>

theorem payment_pending_payable:
  assumes "st = pay_run tr evs (initial_page choice methods)" and "pm_stage (pp_payment st) = StagePending"
  shows "payable (pp_payment st) \<and> (\<exists>quantity mtype. pm_retry (pp_payment st) = Some (quantity, mtype) \<and> (quantity, mtype) \<in> set (pp_asked st))"
proof -
  have "page_ok (initial_page choice methods)" by (simp add: page_ok_def initial_page_def)
  from ok_run [OF this] have "page_ok st" using assms(1) by simp
  then show ?thesis using assms(2) by (auto simp: page_ok_def)
qed

definition sample_choice :: pay_choice where
  "sample_choice = \<lparr>pc_quantity = num_int 2, pc_method = Some \<lparr>pay_type = js ''alipay'', pay_name = []\<rparr>, pc_amount = Some (num_int 9)\<rparr>"

definition sample_answer :: "string \<Rightarrow> jsval" where
  "sample_answer i = JObj [(js ''success'', JBool True),
     (js ''data'', JObj [(js ''pay_url'', JStr (js ''https://pay'')), (js ''order_id'', JStr (js i))])]"

lemma sample_answered:
  "pay_answer tr now q m d (sample_answer i) = Inr \<lparr>pm_open = False, pm_stage = StagePending, pm_orderId = js i, pm_amountDue = d,
     pm_methodLabel = getBlindBoxMethodLabel tr (Some m), pm_payUrl = js ''https://pay'', pm_qrCodeUrl = [], pm_formUrl = [],
     pm_formFields = None, pm_quantity = q, pm_message = tr TextOpened, pm_pollingStartTime = Some now, pm_retry = Some (q, pay_type m)\<rparr>"
proof -
  have "isApiSuccess (sample_answer i)" by (simp add: isApiSuccess_def sample_answer_def)
  then show ?thesis
    unfolding pay_answer_def
    by (simp add: sample_answer_def as_record_def or_text_def js_inject Let_def) (simp add: js_lit)
qed

theorem payment_pending_payable_witness:
  "pm_retry (pp_payment (pay_run (\<lambda>_. []) [EvPay, EvPayAnswer 0 (num_int 1) (Inr (sample_answer ''o1''))] (initial_page sample_choice []))) =
     Some (num_int 2, js ''alipay'')"
proof -
  let ?st = "pay_run (\<lambda>_. []) [EvPay, EvPayAnswer 0 (num_int 1) (Inr (sample_answer ''o1''))] (initial_page sample_choice [])"
  have facts: "pm_stage (pp_payment ?st) = StagePending" "set (pp_asked ?st) = {(num_int 2, js ''alipay'')}"
    by (simp_all add: pay_run_def handlePay_def finish_pay_def initial_page_def sample_choice_def sample_answered Let_def)
  from payment_pending_payable [OF refl facts(1)] show ?thesis unfolding facts(2) by auto
qed

subsection \<open>Late answers and retries\<close>

text \<open>The confirmation of an order ends whatever payment is shown when it arrives. After an order was paid, and while
  the page refreshes, the user starts a second payment; when the refresh is done the second payment, which is still
  open, is dropped from the page and its order is not asked for again.\<close>

theorem late_confirmation_drops_payment:
  assumes "pc_method choice = Some m" and "pc_amount choice = Some d"
    and "pay_answer tr now (pc_quantity choice) m d first = Inr a" and "pm_orderId a \<noteq> []"
    and "pay_answer tr now (pc_quantity choice) m d second = Inr b"
  shows "let st = pay_run tr [EvPay, EvPayAnswer 0 now (Inr first), EvPoll, EvPollAnswer 0 OrderSuccess, EvPay, EvPayAnswer 0 now (Inr second)]
        (initial_page choice methods);
      st' = pay_step tr (EvPollRefreshed 0) st
    in pp_payment st = b \<and> pm_stage b = StagePending \<and> pp_payment st' = EMPTY_PAYMENT_STATE \<and> pay_step tr EvPoll st' = st'"
proof -
  have ne: "a \<noteq> EMPTY_PAYMENT_STATE" "b \<noteq> EMPTY_PAYMENT_STATE" 
    using pay_answer_ok [OF assms(3)] pay_answer_ok [OF assms(5)] by (metis empty_fields(1) payment_stage.distinct(1))+
  have stage: "pm_stage a = StagePending" "pm_stage b = StagePending" using pay_answer_ok [OF assms(3)] pay_answer_ok [OF assms(5)] by simp_all
  let ?r = "\<lparr>pr_quantity = pc_quantity choice, pr_method = m, pr_amount = d\<rparr>" and ?k = "(pc_quantity choice, pay_type m)"
  let ?p = "\<lambda>phase. \<lparr>op_version = 1, op_order = pm_orderId a, op_dialog = pm_open a, op_phase = phase\<rparr>"
  let ?pg = "\<lambda>s v busy reqs polls asked. \<lparr>pp_payment = s, pp_version = v, pp_paying = busy, pp_choice = choice, pp_methods = methods,
    pp_requests = reqs, pp_polls = polls, pp_retries = [], pp_asked = asked\<rparr>"
  have pay: "pay_step tr EvPay (?pg s v w [] ps ks) = ?pg s v True [?r] ps (ks @ [?k])" for s v w ps ks
    using assms(1,2) by (simp add: handlePay_def)
  have fin: "pay_step tr (EvPayAnswer 0 now (Inr first)) (?pg s v w [?r] ps ks) = ?pg a (Suc v) False [] ps ks"
    "pay_step tr (EvPayAnswer 0 now (Inr second)) (?pg s v w [?r] ps ks) = ?pg b (Suc v) False [] ps ks" for s v w ps ks
    using assms(3,5) ne by (simp_all add: finish_pay_def setPaymentState_def drop_nth_def Let_def)
  have poll: "pay_step tr EvPoll (?pg a 1 w [] [] ks) = ?pg a 1 w [] [?p PollAsked] ks" for w ks
    using assms(4) stage by (simp add: start_poll_def)
  have answer: "pay_step tr (EvPollAnswer 0 OrderSuccess) (?pg a 1 w [] [?p PollAsked] ks) = ?pg a 1 w [] [?p PollConfirmed] ks" for w ks
    by (simp add: poll_answer_def Let_def)
  have finish: "pay_step tr (EvPollRefreshed 0) (?pg b v w [] [?p PollConfirmed] ks) = ?pg EMPTY_PAYMENT_STATE (Suc v) w [] [] ks" for v w ks
    using ne by (simp add: poll_refreshed_def setPaymentState_def drop_nth_def)
  have idle: "pay_step tr EvPoll (?pg EMPTY_PAYMENT_STATE v w [] [] ks) = ?pg EMPTY_PAYMENT_STATE v w [] [] ks" for v w ks
    by (simp add: start_poll_def)
  have "pay_run tr [EvPay, EvPayAnswer 0 now (Inr first), EvPoll, EvPollAnswer 0 OrderSuccess, EvPay, EvPayAnswer 0 now (Inr second)]
      (initial_page choice methods) = ?pg b 2 False [] [?p PollConfirmed] [?k, ?k]"
    unfolding pay_run_def initial_page_def
    by (simp add: pay fin poll [unfolded One_nat_def] answer [unfolded One_nat_def] numeral_2_eq_2 del: pay_step.simps)
  then show ?thesis using stage finish idle by (simp del: pay_step.simps)
qed

theorem late_confirmation_drops_payment_witness:
  "pp_payment (pay_run (\<lambda>_. []) [EvPay, EvPayAnswer 0 (num_int 1) (Inr (sample_answer ''o1'')), EvPoll, EvPollAnswer 0 OrderSuccess, EvPay,
     EvPayAnswer 0 (num_int 1) (Inr (sample_answer ''o2'')), EvPollRefreshed 0] (initial_page sample_choice [])) = EMPTY_PAYMENT_STATE"
  using late_confirmation_drops_payment [of sample_choice "\<lparr>pay_type = js ''alipay'', pay_name = []\<rparr>" "num_int 9" "\<lambda>_. []" "num_int 1"
      "sample_answer ''o1''" _ "sample_answer ''o2''" _ "[]", OF _ _ sample_answered _ sample_answered]
  by (simp add: sample_choice_def pay_run_def Let_def js_lit)

text \<open>Retrying a failed payment does not repeat it: the request that is sent has the quantity and the method that were
  selected when the retry was clicked, while the page goes back to the quantity and the method of the failed payment and
  shows those.\<close>

theorem retry_pays_current_selection:
  assumes "pm_retry (pp_payment st) = Some (quantity, mtype)" and "find (\<lambda>m. pay_type m = mtype) (pp_methods st) = Some m"
    and "pc_method (pp_choice st) = Some m'" and "pc_amount (pp_choice st) = Some d"
  shows "let st' = fire_retry (length (pp_retries st)) (handleRetryPayment st)
    in pc_quantity (pp_choice st') = quantity \<and> pc_method (pp_choice st') = Some m \<and>
       pp_asked st' = pp_asked st @ [(pc_quantity (pp_choice st), pay_type m')]"
  using assms by (simp add: handleRetryPayment_def fire_retry_def handlePay_def drop_nth_def Let_def)

theorem retry_pays_current_selection_witness:
  "pp_asked (pay_run (\<lambda>_. []) [EvPay, EvChoose (sample_choice\<lparr>pc_quantity := num_int 5\<rparr>), EvPayAnswer 0 (num_int 1) (Inl (js ''busy'')), EvRetry,
     EvRetryFires 0] (initial_page sample_choice [\<lparr>pay_type = js ''alipay'', pay_name = []\<rparr>])) =
   [(num_int 2, js ''alipay''), (num_int 5, js ''alipay'')]"
proof -
  let ?m = "\<lparr>pay_type = js ''alipay'', pay_name = []\<rparr>"
  let ?st = "pay_run (\<lambda>_. []) [EvPay, EvChoose (sample_choice\<lparr>pc_quantity := num_int 5\<rparr>), EvPayAnswer 0 (num_int 1) (Inl (js ''busy''))]
    (initial_page sample_choice [?m])"
  have "pm_retry (pp_payment ?st) = Some (num_int 2, js ''alipay'')" "pp_methods ?st = [?m]" "pp_retries ?st = []"
      "pp_choice ?st = sample_choice\<lparr>pc_quantity := num_int 5\<rparr>" "pp_asked ?st = [(num_int 2, js ''alipay'')]"
    by (simp_all add: pay_run_def handlePay_def finish_pay_def initial_page_def sample_choice_def pay_failed_def setPaymentState_def
        EMPTY_PAYMENT_STATE_def Let_def)
  then have "pp_asked (fire_retry 0 (handleRetryPayment ?st)) = [(num_int 2, js ''alipay''), (num_int 5, js ''alipay'')]"
    using retry_pays_current_selection [of ?st "num_int 2" "js ''alipay''" ?m ?m "num_int 9"] by (simp add: sample_choice_def Let_def)
  then show ?thesis by (simp add: pay_run_def)
qed

end
