(* ===== verification/JsRegex.thy ===== *)
theory JsRegex
  imports Prelude
begin

section \<open>JavaScript regular expressions\<close>

text \<open>
  The part of ECMAScript regular expressions the sources use, with the backtracking semantics of
  the standard: \<open>rx_run r st\<close> lists every way \<open>r\<close> can match from \<open>st\<close>, in the order the runtime
  tries them, so its head is the match the runtime returns. An iteration of a star that consumes
  nothing fails, as the standard requires. A state is the code unit before the position, the rest
  of the input and the captured groups (newest first).
\<close>

datatype regex =
    REps
  | RSat "code_unit \<Rightarrow> bool"
  | RLit jsstr
  | RSeq regex regex
  | RAlt regex regex
  | RStar regex
  | RGroup nat regex
  | RBack nat
  | REnd
  | RWordB

record rx_state =
  rx_prev :: "code_unit option"
  rx_rest :: jsstr
  rx_caps :: "(nat \<times> jsstr) list"

definition is_word :: "code_unit \<Rightarrow> bool" where
  "is_word c \<longleftrightarrow> is_digit c \<or> (65 \<le> c \<and> c \<le> 90) \<or> (97 \<le> c \<and> c \<le> 122) \<or> c = 95"

text \<open>\<open>advance n st\<close> moves the position by \<open>n\<close> units.\<close>

definition advance :: "nat \<Rightarrow> rx_state \<Rightarrow> rx_state" where
  "advance n st =
     (if n = 0 then st
      else st\<lparr>rx_prev := Some (last (take n (rx_rest st))), rx_rest := drop n (rx_rest st)\<rparr>)"

definition at_boundary :: "rx_state \<Rightarrow> bool" where
  "at_boundary st \<longleftrightarrow>
     (case rx_prev st of None \<Rightarrow> False | Some c \<Rightarrow> is_word c) \<noteq>
     (case rx_rest st of [] \<Rightarrow> False | c # _ \<Rightarrow> is_word c)"

definition run_lit :: "jsstr \<Rightarrow> rx_state \<Rightarrow> rx_state list" where
  "run_lit w st = (if starts_with (rx_rest st) w then [advance (length w) st] else [])"

function rx_run :: "regex \<Rightarrow> rx_state \<Rightarrow> rx_state list" where
  "rx_run REps st = [st]"
| "rx_run (RSat p) st =
     (case rx_rest st of [] \<Rightarrow> [] | c # _ \<Rightarrow> if p c then [advance 1 st] else [])"
| "rx_run (RLit w) st = run_lit w st"
| "rx_run (RSeq a b) st = concat (map (rx_run b) (rx_run a st))"
| "rx_run (RAlt a b) st = rx_run a st @ rx_run b st"
| "rx_run (RStar a) st =
     concat (map (\<lambda>st'. if length (rx_rest st') < length (rx_rest st) then rx_run (RStar a) st' else [])
       (rx_run a st)) @ [st]"
| "rx_run (RGroup n a) st =
     map (\<lambda>st'. st'\<lparr>rx_caps :=
            (n, take (length (rx_rest st) - length (rx_rest st')) (rx_rest st)) # rx_caps st'\<rparr>)
       (rx_run a st)"
| "rx_run (RBack n) st =
     (case map_of (rx_caps st) n of None \<Rightarrow> [st] | Some w \<Rightarrow> run_lit w st)"
| "rx_run REnd st = (if rx_rest st = [] then [st] else [])"
| "rx_run RWordB st = (if at_boundary st then [st] else [])"
  by pat_completeness auto
termination
  by (relation "measures [\<lambda>(r, st). size r, \<lambda>(r, st). length (rx_rest st)]") auto

declare rx_run.simps(6) [simp del]

definition rx_opt :: "regex \<Rightarrow> regex" where
  "rx_opt r = RAlt r REps"

definition rx_plus :: "regex \<Rightarrow> regex" where
  "rx_plus r = RSeq r (RStar r)"

fun rx_seqs :: "regex list \<Rightarrow> regex" where
  "rx_seqs [] = REps"
| "rx_seqs [r] = r"
| "rx_seqs (r # q # rs) = RSeq r (rx_seqs (q # rs))"

fun rx_alts :: "regex list \<Rightarrow> regex" where
  "rx_alts [] = REps"
| "rx_alts [r] = r"
| "rx_alts (r # q # rs) = RAlt r (rx_alts (q # rs))"

definition rx_words :: "string list \<Rightarrow> regex" where
  "rx_words ws = rx_alts (map (\<lambda>w. RLit (js w)) ws)"

definition rx_s :: regex where
  "rx_s = RStar (RSat is_ws)"

definition rx_start :: "jsstr \<Rightarrow> rx_state" where
  "rx_start s = \<lparr>rx_prev = None, rx_rest = s, rx_caps = []\<rparr>"

text \<open>\<open>s.match(/^r/)\<close>: the groups captured at the start of the string, \<open>None\<close> for no match.\<close>

definition rx_match :: "regex \<Rightarrow> jsstr \<Rightarrow> (nat \<rightharpoonup> jsstr) option" where
  "rx_match r s = (case rx_run r (rx_start s) of [] \<Rightarrow> None | st # _ \<Rightarrow> Some (map_of (rx_caps st)))"

definition rx_test :: "regex \<Rightarrow> jsstr \<Rightarrow> bool" where
  "rx_test r s \<longleftrightarrow> rx_match r s \<noteq> None"

text \<open>The captured group, \<open>''\<close> where the code applies \<open>|| ''\<close> or the group always takes part.\<close>

definition cap :: "(nat \<rightharpoonup> jsstr) \<Rightarrow> nat \<Rightarrow> jsstr" where
  "cap m n = (case m n of None \<Rightarrow> [] | Some s \<Rightarrow> s)"

text \<open>A search from the left: the units skipped, and the state after the match.\<close>

fun rx_search :: "regex \<Rightarrow> code_unit option \<Rightarrow> jsstr \<Rightarrow> (nat \<times> rx_state) option" where
  "rx_search r prv [] =
     (case rx_run r \<lparr>rx_prev = prv, rx_rest = [], rx_caps = []\<rparr> of [] \<Rightarrow> None | st # _ \<Rightarrow> Some (0, st))"
| "rx_search r prv (c # s) =
     (case rx_run r \<lparr>rx_prev = prv, rx_rest = c # s, rx_caps = []\<rparr> of
        st # _ \<Rightarrow> Some (0, st)
      | [] \<Rightarrow> map_option (\<lambda>(n, st). (Suc n, st)) (rx_search r (Some c) s))"

text \<open>\<open>while ((m = re.exec(s)) !== null)\<close> with a global expression that never matches the empty
  string: the groups of every match, from left to right.\<close>

function rx_exec_all :: "regex \<Rightarrow> code_unit option \<Rightarrow> jsstr \<Rightarrow> (nat \<rightharpoonup> jsstr) list" where
  "rx_exec_all r prv s =
     (case rx_search r prv s of None \<Rightarrow> []
      | Some (n, st) \<Rightarrow>
        map_of (rx_caps st) #
          (if length (rx_rest st) < length s then rx_exec_all r (rx_prev st) (rx_rest st) else []))"
  by pat_completeness auto
termination
  by (relation "measure (\<lambda>(r, prv, s). length s)") auto

text \<open>\<open>s.split(r)\<close> for an expression without groups that never matches the empty string.\<close>

function rx_split :: "regex \<Rightarrow> jsstr \<Rightarrow> jsstr list" where
  "rx_split r s =
     (case rx_search r None s of None \<Rightarrow> [s]
      | Some (n, st) \<Rightarrow>
        if length (rx_rest st) < length s then take n s # rx_split r (rx_rest st) else [s])"
  by pat_completeness auto
termination
  by (relation "measure (\<lambda>(r, s). length s)") auto

text \<open>\<open>s.replace(r, w)\<close> with a global expression that never matches the empty string and a
  replacement text without \<open>$\<close>.\<close>

function rx_replace_from :: "regex \<Rightarrow> jsstr \<Rightarrow> code_unit option \<Rightarrow> jsstr \<Rightarrow> jsstr" where
  "rx_replace_from r w prv s =
     (case rx_search r prv s of None \<Rightarrow> s
      | Some (n, st) \<Rightarrow>
        if length (rx_rest st) < length s
        then take n s @ w @ rx_replace_from r w (rx_prev st) (rx_rest st) else s)"
  by pat_completeness auto
termination
  by (relation "measure (\<lambda>(r, w, prv, s). length s)") auto

definition rx_replace :: "regex \<Rightarrow> jsstr \<Rightarrow> jsstr \<Rightarrow> jsstr" where
  "rx_replace r w s = rx_replace_from r w None s"

declare rx_replace_from.simps [simp del]
declare rx_exec_all.simps [simp del] rx_split.simps [simp del]

subsection \<open>Symbolic evaluation\<close>

text \<open>
  The collection \<open>rx_eval\<close> runs a sequence of literals, classes and groups on a text of which only
  some stretches are concrete: a greedy class followed by a literal (or the end) that cannot start
  inside the class takes the whole stretch, whatever follows, since no shorter match lets the
  literal through.
\<close>

named_theorems rx_eval \<open>symbolic evaluation of regular expressions\<close>

abbreviation rx_at :: "code_unit option \<Rightarrow> jsstr \<Rightarrow> (nat \<times> jsstr) list \<Rightarrow> rx_state" where
  "rx_at p s k \<equiv> \<lparr>rx_prev = p, rx_rest = s, rx_caps = k\<rparr>"

lemma starts_with_simps [simp]:
  "starts_with s []"
  "\<not> starts_with [] (d # w)"
  "starts_with (c # s) (d # w) \<longleftrightarrow> c = d \<and> starts_with s w"
  by (auto simp: starts_with_def)

lemma advance_at:
  "advance (length w) (rx_at p (w @ t) k) = rx_at (if w = [] then p else Some (last w)) t k"
  by (simp add: advance_def)

lemma run_lit_at [rx_eval]:
  "run_lit w (rx_at p (w @ t) k) = [rx_at (if w = [] then p else Some (last w)) t k]"
  by (simp add: run_lit_def advance_at)

lemma seq_eps [rx_eval]: "rx_run (RSeq REps b) st = rx_run b st"
  by simp

lemma seq_lit [rx_eval]:
  "rx_run (RSeq (RLit []) b) st = rx_run b st"
  "rx_run (RSeq (RLit (d # w)) b) (rx_at p [] k) = []"
  "rx_run (RSeq (RLit (d # w)) b) (rx_at p (c # s) k) =
     (if c = d then rx_run (RSeq (RLit w) b) (rx_at (Some c) s k) else [])"
  by (cases w) (auto simp: run_lit_def advance_def starts_with_def)

lemma seq_lit_text [rx_eval]:
  "rx_run (RSeq (RLit w) b) (rx_at p (w @ t) k) =
     rx_run b (rx_at (if w = [] then p else Some (last w)) t k)"
  by (simp add: run_lit_at)

lemma seq_back [rx_eval]:
  "map_of k n = Some w \<Longrightarrow>
     rx_run (RSeq (RBack n) b) (rx_at p s k) = rx_run (RSeq (RLit w) b) (rx_at p s k)"
  by simp

lemma seq_end [rx_eval]: "rx_run REnd (rx_at p s k) = (if s = [] then [rx_at p s k] else [])"
  by simp

lemma seq_group_alt [rx_eval]:
  "rx_run (RSeq (RGroup n (RAlt a a')) b) st =
     rx_run (RSeq (RGroup n a) b) st @ rx_run (RSeq (RGroup n a') b) st"
  by simp

lemma seq_group_lit [rx_eval]:
  "rx_run (RSeq (RGroup n (RLit w)) b) (rx_at p s k) =
     (if starts_with s w
      then rx_run b (rx_at (if w = [] then p else Some (last w)) (drop (length w) s) ((n, w) # k))
      else [])"
proof (cases "starts_with s w")
  case True
  then obtain t where "s = w @ t" using starts_with_split by blast
  then show ?thesis by (simp add: run_lit_at)
qed (simp add: run_lit_def)

lemma star_sat:
  "list_all q w \<Longrightarrow> t = [] \<or> \<not> q (hd t) \<Longrightarrow>
     rx_run (RStar (RSat q)) (rx_at p (w @ t) k) =
       map (\<lambda>i. rx_at (if i = 0 then p else Some (w ! (i - 1))) (drop i w @ t) k) (rev [0 ..< Suc (length w)])"
proof (induction w arbitrary: p)
  case Nil
  then show ?case by (cases t) (auto simp: advance_def rx_run.simps(6))
next
  case (Cons c w)
  have "rx_run (RStar (RSat q)) (rx_at (Some c) (w @ t) k) =
      map (\<lambda>i. rx_at (if i = 0 then Some c else Some (w ! (i - 1))) (drop i w @ t) k) (rev [0 ..< Suc (length w)])"
    using Cons by simp
  also have "\<dots> = map (\<lambda>i. rx_at (if i = 0 then p else Some ((c # w) ! (i - 1))) (drop i (c # w) @ t) k)
      (map Suc (rev [0 ..< Suc (length w)]))"
    by (auto simp: nth_Cons split: nat.split)
  also have "map Suc (rev [0 ..< Suc (length w)]) = rev [1 ..< Suc (Suc (length w))]"
    by (simp add: rev_map [symmetric] map_Suc_upt del: upt_Suc)
  finally have "rx_run (RStar (RSat q)) (rx_at (Some c) (w @ t) k) =
      map (\<lambda>i. rx_at (if i = 0 then p else Some ((c # w) ! (i - 1))) (drop i (c # w) @ t) k)
        (rev [1 ..< Suc (Suc (length w))])" .
  moreover have "rev [0 ..< Suc (Suc (length w))] = rev [1 ..< Suc (Suc (length w))] @ [0]"
    by (simp add: upt_conv_Cons del: upt_Suc)
  ultimately show ?case using Cons.prems
    by (simp add: advance_def rx_run.simps(6) [of _ "rx_at p _ _"] del: upt_Suc)
qed

text \<open>A continuation that needs its first unit outside the class.\<close>

definition stops_class :: "(code_unit \<Rightarrow> bool) \<Rightarrow> regex \<Rightarrow> bool" where
  "stops_class q b \<longleftrightarrow> (\<forall>p c s k. q c \<longrightarrow> rx_run b (rx_at p (c # s) k) = [])"

lemma stops_class_lit [rx_eval]: "\<not> q d \<Longrightarrow> stops_class q (RSeq (RLit (d # w)) b)"
  by (auto simp: stops_class_def run_lit_def)

lemma stops_class_lit_last [rx_eval]: "\<not> q d \<Longrightarrow> stops_class q (RLit (d # w))"
  by (auto simp: stops_class_def run_lit_def)

lemma stops_class_end [rx_eval]: "stops_class q REnd"
  by (simp add: stops_class_def)

lemma seq_star:
  assumes "list_all q w" and "t = [] \<or> \<not> q (hd t)" and "stops_class q b"
  shows "rx_run (RSeq (RStar (RSat q)) b) (rx_at p (w @ t) k) =
     rx_run b (rx_at (if w = [] then p else Some (last w)) t k)"
proof -
  have "rx_run b (rx_at p' (drop i w @ t) k) = []" if "i < length w" for i p'
    using assms(1,3) that by (auto simp: stops_class_def list_all_length Cons_nth_drop_Suc [symmetric])
  then show ?thesis
    by (simp add: star_sat [OF assms(1,2)] comp_def last_conv_nth)
qed

lemma seq_group_class [rx_eval]:
  assumes "list_all q w" and "w \<noteq> []" and "t = [] \<or> \<not> q (hd t)" and "stops_class q b"
  shows "rx_run (RSeq (RGroup n (rx_plus (RSat q))) b) (rx_at p (w @ t) k) =
     rx_run b (rx_at (Some (last w)) t ((n, w) # k))"
proof -
  obtain c v where w: "w = c # v" using assms(2) by (cases w) auto
  let ?g = "\<lambda>st'. st'\<lparr>rx_caps := (n, take (length (w @ t) - length (rx_rest st')) (w @ t)) # rx_caps st'\<rparr>"
  have run: "rx_run (RGroup n (rx_plus (RSat q))) (rx_at p (w @ t) k) =
      map ?g (rx_run (RStar (RSat q)) (rx_at (Some c) (v @ t) k))"
    using assms(1) w by (simp add: rx_plus_def advance_def)
  have star: "rx_run (RStar (RSat q)) (rx_at (Some c) (v @ t) k) =
      map (\<lambda>i. rx_at (if i = 0 then Some c else Some (v ! (i - 1))) (drop i v @ t) k) (rev [0 ..< Suc (length v)])"
    by (rule star_sat) (use assms w in auto)
  have nil: "rx_run b (?g (rx_at p' (drop i v @ t) k)) = []" if "i < length v" for i p'
    using assms(1,4) that w
    by (auto simp: stops_class_def list_all_length Cons_nth_drop_Suc [symmetric] nth_Cons')
  show ?thesis
    unfolding rx_run.simps(4) run star
    using nil w by (simp add: comp_def last_conv_nth)
qed

lemma seq_group_class_end [rx_eval]:
  assumes "list_all q w" and "w \<noteq> []" and "stops_class q b"
  shows "rx_run (RSeq (RGroup n (rx_plus (RSat q))) b) (rx_at p w k) =
     rx_run b (rx_at (Some (last w)) [] ((n, w) # k))"
  using seq_group_class [OF assms(1,2) _ assms(3), of "[]"] by simp

text \<open>A greedy class that would swallow the rest of the text as well: it gives back units until the
  continuation matches, so the longest prefix with a matching rest decides.\<close>

lemma group_plus_all:
  assumes "list_all q w"
  shows "rx_run (RGroup n (rx_plus (RSat q))) (rx_at p w k) =
     map (\<lambda>i. rx_at (Some (w ! (i - 1))) (drop i w) ((n, take i w) # k)) (rev [1 ..< Suc (length w)])"
proof (cases w)
  case (Cons c v)
  have idx: "rev [1 ..< Suc (length w)] = map Suc (rev [0 ..< Suc (length v)])"
    by (simp add: Cons rev_map [symmetric] map_Suc_upt del: upt_Suc)
  have "rx_run (RStar (RSat q)) (rx_at (Some c) v k) =
      map (\<lambda>i. rx_at (if i = 0 then Some c else Some (v ! (i - 1))) (drop i v) k) (rev [0 ..< Suc (length v)])"
    using star_sat [of q v "[]" "Some c" k] assms Cons by simp
  then show ?thesis
    using assms unfolding idx
    by (auto simp: Cons rx_plus_def advance_def nth_Cons' simp del: upt_Suc)
qed (simp add: rx_plus_def)

lemma seq_greedy:
  assumes "list_all q (w @ u)" and "w \<noteq> []"
    and later: "\<And>i p k. 0 < i \<Longrightarrow> i \<le> length u \<Longrightarrow> rx_run b (rx_at p (drop i u) k) = []"
    and here: "rx_run b (rx_at (Some (last w)) u ((n, w) # k)) = st # sts"
  shows "\<exists>ys. rx_run (RSeq (RGroup n (rx_plus (RSat q))) b) (rx_at p (w @ u) k) = st # ys"
proof -
  let ?f = "\<lambda>i. rx_run b (rx_at (Some ((w @ u) ! (i - 1))) (drop i (w @ u)) ((n, take i (w @ u)) # k))"
  have "[1 ..< Suc (length (w @ u))] =
      [1 ..< length w] @ length w # [Suc (length w) ..< Suc (length (w @ u))]"
  proof -
    have "[1 ..< Suc (length (w @ u))] = [1 ..< length w] @ [length w ..< Suc (length (w @ u))]"
      using upt_add_eq_append [of 1 "length w" "Suc (length u)"] assms(2)
      by (simp add: Suc_le_eq del: upt_Suc)
    then show ?thesis by (simp add: upt_conv_Cons del: upt_Suc)
  qed
  moreover have "?f i = []" if "i \<in> set [Suc (length w) ..< Suc (length (w @ u))]" for i
    using that later [of "i - length w"] by (auto simp del: upt_Suc)
  then have "concat (map ?f (rev [Suc (length w) ..< Suc (length (w @ u))])) = []"
    by (auto simp del: upt_Suc)
  moreover have "?f (length w) = st # sts"
    using here assms(2) by (simp add: last_conv_nth nth_append)
  ultimately have "concat (map ?f (rev [1 ..< Suc (length (w @ u))])) =
      st # sts @ concat (map ?f (rev [1 ..< length w]))"
    by (simp only: rev_append rev.simps map_append concat_append list.map concat.simps append_Nil
        append_Cons append_assoc append_Nil2)
  moreover have "rx_run (RSeq (RGroup n (rx_plus (RSat q))) b) (rx_at p (w @ u) k) =
      concat (map ?f (rev [1 ..< Suc (length (w @ u))]))"
    unfolding rx_run.simps(4) group_plus_all [OF assms(1)] by (simp only: map_map comp_def)
  ultimately show ?thesis by (intro exI) (simp only:)
qed

lemma rx_match_run: "rx_match r s = (case rx_run r (rx_at None s []) of [] \<Rightarrow> None | st # _ \<Rightarrow> Some (map_of (rx_caps st)))"
  by (simp add: rx_match_def rx_start_def)

subsection \<open>What a match consumes\<close>

fun units_in :: "(code_unit \<Rightarrow> bool) \<Rightarrow> regex \<Rightarrow> bool" where
  "units_in P (RSat q) = (\<forall>c. q c \<longrightarrow> P c)"
| "units_in P (RLit w) = list_all P w"
| "units_in P (RSeq a b) = (units_in P a \<and> units_in P b)"
| "units_in P (RAlt a b) = (units_in P a \<and> units_in P b)"
| "units_in P (RStar a) = units_in P a"
| "units_in P (RGroup n a) = units_in P a"
| "units_in P (RBack n) = False"
| "units_in P _ = True"

definition consumes :: "(code_unit \<Rightarrow> bool) \<Rightarrow> rx_state \<Rightarrow> rx_state \<Rightarrow> bool" where
  "consumes P st st' \<longleftrightarrow> (\<exists>w. rx_rest st = w @ rx_rest st' \<and> list_all P w)"

lemma consumes_refl [simp]: "consumes P st st"
  by (simp add: consumes_def)

lemma consumes_trans: "consumes P a b \<Longrightarrow> consumes P b c \<Longrightarrow> consumes P a c"
  unfolding consumes_def by (metis append_assoc list_all_append)

lemma rx_run_consumes: "units_in P r \<Longrightarrow> st' \<in> set (rx_run r st) \<Longrightarrow> consumes P st st'"
proof (induction r st arbitrary: st' rule: rx_run.induct)
  case (2 p st)
  then obtain c s where "rx_rest st = c # s" "p c" "rx_rest st' = s"
    by (cases "rx_rest st") (auto simp: advance_def split: if_splits)
  with 2 show ?case unfolding consumes_def by (intro exI [of _ "[c]"]) simp
next
  case (3 w st)
  then show ?case
    by (auto simp: run_lit_def consumes_def advance_def split: if_splits dest!: starts_with_split)
next
  case (4 a b st)
  then show ?case by (auto intro: consumes_trans)
next
  case (6 a st)
  consider "st' = st"
    | st1 where "st1 \<in> set (rx_run a st)" "length (rx_rest st1) < length (rx_rest st)"
        "st' \<in> set (rx_run (RStar a) st1)"
    using 6(4) by (auto simp: rx_run.simps(6) [of a st] split: if_splits)
  then show ?case
  proof cases
    case 2
    then have "consumes P st st1" and "consumes P st1 st'" using 6 by simp_all
    then show ?thesis by (rule consumes_trans)
  qed simp
next
  case (7 n a st)
  then show ?case by (auto simp: consumes_def)
qed (auto split: if_splits)

lemma concat_map_concat: "concat (map f (concat (map g xs))) = concat (map (\<lambda>x. concat (map f (g x))) xs)"
  by (induction xs) auto

lemma seq_assoc: "rx_run (RSeq a (RSeq b c)) st = rx_run (RSeq (RSeq a b) c) st"
  by (simp add: concat_map_concat fun_eq_iff cong: map_cong)

lemma rx_test_units:
  assumes "units_in P (RSeq r REnd)" and "rx_test (RSeq r REnd) s"
  shows "list_all P s"
proof -
  obtain st where st: "st \<in> set (rx_run (RSeq r REnd) (rx_start s))"
    using assms(2) unfolding rx_test_def rx_match_def
    by (cases "rx_run (RSeq r REnd) (rx_start s)") (auto simp del: rx_run.simps)
  then have "rx_rest st = []" by (auto split: if_splits)
  with rx_run_consumes [OF assms(1) st] show ?thesis by (simp add: consumes_def rx_start_def)
qed

end
