(* ===== verification/BillingExpr.thy ===== *)
theory BillingExpr
  imports JsValue JsRegex
begin

section \<open>Billing expressions: variables, tiers and top-level splitting\<close>

text \<open>
  The first half of \<open>features/pricing/lib/billing-expr.ts\<close>: the variable registry, the parser of
  tiered prices and the two scanners that cut an expression at the \<open> * \<close> and \<open> && \<close> that stand
  outside every parenthesis. The scanners share one loop, \<open>split_top\<close>, whose contract (join after
  split, split after join) is proved once in the locale \<open>top_level\<close> and interpreted for both
  separators.
\<close>

subsection \<open>Variable registry\<close>

datatype var_side = SideInput | SideOutput | SideCondition

record billing_var =
  var_key :: jsstr
  var_field :: "jsstr option"
  var_tierField :: "jsstr option"
  var_label :: jsstr
  var_shortLabel :: jsstr
  var_side :: var_side
  var_isBase :: bool
  var_isConditionOnly :: bool
  var_group :: "jsstr option"

definition price_var ::
  "string \<Rightarrow> string \<Rightarrow> string \<Rightarrow> string \<Rightarrow> string \<Rightarrow> var_side \<Rightarrow> string \<Rightarrow> billing_var" where
  "price_var k f t l s side g =
     \<lparr>var_key = js k, var_field = Some (js f), var_tierField = Some (js t), var_label = js l,
      var_shortLabel = js s, var_side = side, var_isBase = False, var_isConditionOnly = False,
      var_group = Some (js g)\<rparr>"

definition BILLING_VARS :: "billing_var list" where
  "BILLING_VARS =
    [\<lparr>var_key = js ''p'', var_field = Some (js ''inputPrice''),
       var_tierField = Some (js ''input_unit_cost''), var_label = js ''Input price'',
       var_shortLabel = js ''Input'', var_side = SideInput, var_isBase = True,
       var_isConditionOnly = False, var_group = None\<rparr>,
     \<lparr>var_key = js ''c'', var_field = Some (js ''outputPrice''),
       var_tierField = Some (js ''output_unit_cost''), var_label = js ''Completion price'',
       var_shortLabel = js ''Output'', var_side = SideOutput, var_isBase = True,
       var_isConditionOnly = False, var_group = None\<rparr>,
     \<lparr>var_key = js ''len'', var_field = None, var_tierField = None, var_label = js ''Input length'',
       var_shortLabel = js ''Length'', var_side = SideCondition, var_isBase = False,
       var_isConditionOnly = True, var_group = None\<rparr>,
     price_var ''cr'' ''cacheReadPrice'' ''cache_read_unit_cost'' ''Cache read price''
       ''Cache Read'' SideInput ''cache'',
     price_var ''cc'' ''cacheCreatePrice'' ''cache_create_unit_cost'' ''Cache create price''
       ''Cache Write'' SideInput ''cache'',
     price_var ''cc1h'' ''cacheCreate1hPrice'' ''cache_create_1h_unit_cost''
       ''Cache create (1h) price'' ''Cache Write (1h)'' SideInput ''cache'',
     price_var ''img'' ''imagePrice'' ''image_unit_cost'' ''Image input price''
       ''Image In'' SideInput ''media'',
     price_var ''img_o'' ''imageOutputPrice'' ''image_output_unit_cost'' ''Image output price''
       ''Image Out'' SideOutput ''media'',
     price_var ''ai'' ''audioInputPrice'' ''audio_input_unit_cost'' ''Audio input price''
       ''Audio In'' SideInput ''media'',
     price_var ''ao'' ''audioOutputPrice'' ''audio_output_unit_cost'' ''Audio output price''
       ''Audio Out'' SideOutput ''media'']"

definition BILLING_PRICING_VARS :: "billing_var list" where
  "BILLING_PRICING_VARS = filter (\<lambda>v. \<not> var_isConditionOnly v) BILLING_VARS"

definition BILLING_CONDITION_VARS :: "jsstr list" where
  "BILLING_CONDITION_VARS =
     map var_key (filter (\<lambda>v. var_isBase v \<or> var_isConditionOnly v) BILLING_VARS)"

definition or_empty :: "jsstr option \<Rightarrow> jsstr" where
  "or_empty x = (case x of None \<Rightarrow> [] | Some s \<Rightarrow> s)"

definition BILLING_VAR_KEY_TO_FIELD :: "(jsstr \<times> jsstr) list" where
  "BILLING_VAR_KEY_TO_FIELD = map (\<lambda>v. (var_key v, or_empty (var_field v))) BILLING_PRICING_VARS"

definition BILLING_EXTRA_VARS :: "billing_var list" where
  "BILLING_EXTRA_VARS = filter (\<lambda>v. \<not> var_isBase v \<and> \<not> var_isConditionOnly v) BILLING_VARS"

text \<open>Pairs of tier field and expression variable.\<close>

definition BILLING_CACHE_VAR_MAP :: "(jsstr \<times> jsstr) list" where
  "BILLING_CACHE_VAR_MAP = map (\<lambda>v. (or_empty (var_tierField v), var_key v)) BILLING_EXTRA_VARS"

text \<open>The character classes \<open>[\d.eE+-]\<close> and \<open>[\d.eE+]\<close>.\<close>

definition num_unit :: "code_unit \<Rightarrow> bool" where
  "num_unit c \<longleftrightarrow> is_digit c \<or> c = 46 \<or> c = 101 \<or> c = 69 \<or> c = 43 \<or> c = 45"

definition unsigned_num_unit :: "code_unit \<Rightarrow> bool" where
  "unsigned_num_unit c \<longleftrightarrow> is_digit c \<or> c = 46 \<or> c = 101 \<or> c = 69 \<or> c = 43"

definition BILLING_VAR_REGEX :: regex where
  "BILLING_VAR_REGEX =
     rx_seqs [RWordB, RGroup 1 (rx_alts (map (\<lambda>v. RLit (var_key v)) BILLING_PRICING_VARS)), rx_s,
       RLit (js ''*''), rx_s, RGroup 2 (rx_plus (RSat num_unit))]"

subsection \<open>Tier parser\<close>

record tier_condition =
  cond_var :: jsstr
  cond_op :: jsstr
  cond_value :: jsnum

record parsed_tier =
  tier_label :: jsstr
  tier_conditions :: "tier_condition list"
  tier_prices :: "(jsstr \<times> jsnum) list"

definition any_unit :: "code_unit \<Rightarrow> bool" where
  "any_unit c = True"

definition not_unit :: "code_unit \<Rightarrow> code_unit \<Rightarrow> bool" where
  "not_unit d c \<longleftrightarrow> c \<noteq> d"

definition stripExprVersion :: "jsstr \<Rightarrow> jsnum \<times> jsstr" where
  "stripExprVersion exprStr =
     (if exprStr = [] then (num_int 1, [])
      else case rx_match (rx_seqs [RLit (js ''v''), RGroup 1 (rx_plus (RSat is_digit)),
             RLit (js '':''), RGroup 2 (RStar (RSat any_unit)), REnd]) exprStr of
        Some m \<Rightarrow> (str_to_num (cap m 1), cap m 2)
      | None \<Rightarrow> (num_int 1, exprStr))"

fun tier_coeffs :: "(jsstr \<times> jsnum) list \<Rightarrow> (nat \<rightharpoonup> jsstr) list \<Rightarrow> (jsstr \<times> jsnum) list" where
  "tier_coeffs coeffs [] = coeffs"
| "tier_coeffs coeffs (m # ms) =
     tier_coeffs (if map_of coeffs (cap m 1) = None
       then coeffs @ [(cap m 1, str_to_num (cap m 2))] else coeffs) ms"

definition parseTierBody :: "jsstr \<Rightarrow> (jsstr \<times> jsnum) list" where
  "parseTierBody bodyStr =
     (let coeffs = tier_coeffs [] (rx_exec_all BILLING_VAR_REGEX None bodyStr)
      in map (\<lambda>(varName, field).
           (field, case map_of coeffs varName of
                     Some x \<Rightarrow> if num_truthy x then x else num_int 0
                   | None \<Rightarrow> num_int 0)) BILLING_VAR_KEY_TO_FIELD)"

definition rx_cond_var :: regex where
  "rx_cond_var = rx_words [''p'', ''c'', ''len'']"

definition rx_cond_op :: regex where
  "rx_cond_op = rx_words [''<'', ''<='', ''>'', ''>='']"

definition rx_one_cond :: regex where
  "rx_one_cond = rx_seqs [rx_cond_var, rx_s, rx_cond_op, rx_s, rx_plus (RSat unsigned_num_unit)]"

definition condGroup :: regex where
  "condGroup = RGroup 1 (RSeq rx_one_cond
     (RStar (rx_seqs [rx_s, RLit (js ''&&''), rx_s, rx_one_cond])))"

definition tierRe :: regex where
  "tierRe = rx_seqs [rx_opt (rx_seqs [condGroup, rx_s, RLit (js ''?''), rx_s]),
     RLit (js ''tier('' @ [34]), RGroup 2 (RStar (RSat (not_unit 34))), RLit ([34] @ js '',''), rx_s,
     RGroup 3 (rx_plus (RSat (not_unit 41))), RLit (js '')'')]"

definition parse_tier_cond :: "jsstr \<Rightarrow> tier_condition option" where
  "parse_tier_cond cp =
     (case rx_match (rx_seqs [RGroup 1 rx_cond_var, rx_s, RGroup 2 rx_cond_op, rx_s,
             RGroup 3 (rx_plus (RSat unsigned_num_unit)), REnd]) (trim cp) of
        Some m \<Rightarrow> Some \<lparr>cond_var = cap m 1, cond_op = cap m 2, cond_value = str_to_num (cap m 3)\<rparr>
      | None \<Rightarrow> None)"

definition parse_tier_match :: "(nat \<rightharpoonup> jsstr) \<Rightarrow> parsed_tier" where
  "parse_tier_match m =
     \<lparr>tier_label = cap m 2,
      tier_conditions =
        (if cap m 1 = [] then []
         else List.map_filter parse_tier_cond
           (rx_split (rx_seqs [rx_s, RLit (js ''&&''), rx_s]) (cap m 1))),
      tier_prices = parseTierBody (cap m 3)\<rparr>"

definition parseTiersFromExpr :: "jsstr \<Rightarrow> parsed_tier list" where
  "parseTiersFromExpr exprStr =
     (if exprStr = [] then []
      else map parse_tier_match (rx_exec_all tierRe None (snd (stripExprVersion exprStr))))"

text \<open>\<open>toLowerCase\<close> of the runtime is the argument \<open>lower\<close>: the Unicode case tables are not part of
  the sources.\<close>

definition rx_cmp_signs :: "code_unit \<Rightarrow> code_unit \<Rightarrow> code_unit \<Rightarrow> regex" where
  "rx_cmp_signs ascii eq_sign wide =
     rx_alts [RSeq (RLit [ascii]) (rx_opt (RSat (\<lambda>c. c = 61 \<or> c = 65309))),
       RLit [eq_sign], RSeq (RLit [wide]) (rx_opt (RSat (\<lambda>c. c = 61 \<or> c = 65309)))]"

definition normalizeTierLabel :: "(jsstr \<Rightarrow> jsstr) \<Rightarrow> jsstr option \<Rightarrow> jsstr" where
  "normalizeTierLabel lower label =
     (case label of None \<Rightarrow> []
      | Some l \<Rightarrow>
        if l = [] then []
        else lower (remove_ws (rx_replace (rx_cmp_signs 62 8805 65310) [62]
               (rx_replace (rx_cmp_signs 60 8804 65308) [60] l))))"

subsection \<open>Top-level splitting\<close>

text \<open>
  One pass of the scanning loop with separator \<open>sep\<close>: \<open>depth\<close> is the parenthesis count, \<open>acc\<close> the
  units since \<open>start\<close>, newest first, \<open>skip\<close> the number of units the index jumps over after a
  separator was found. A separator is recognised after the count was updated with the unit at
  the index, as in the code.
\<close>

definition next_depth :: "code_unit \<Rightarrow> int \<Rightarrow> int" where
  "next_depth c depth = (if c = 40 then depth + 1 else if c = 41 then depth - 1 else depth)"

fun split_top :: "jsstr \<Rightarrow> int \<Rightarrow> jsstr \<Rightarrow> jsstr \<Rightarrow> jsstr list" where
  "split_top sep depth acc [] = [trim (rev acc)]"
| "split_top sep depth acc (c # s) =
     (if next_depth c depth = 0 \<and> starts_with (c # s) sep \<and> sep \<noteq> []
      then trim (rev acc) # split_top sep 0 [] (drop (length sep - 1) s)
      else split_top sep (next_depth c depth) (c # acc) s)"

definition splitTopLevelMultiply :: "jsstr \<Rightarrow> jsstr list" where
  "splitTopLevelMultiply expr = filter (\<lambda>p. p \<noteq> []) (split_top (js '' * '') 0 [] expr)"

definition splitTopLevelAnd :: "jsstr \<Rightarrow> jsstr list" where
  "splitTopLevelAnd expr = filter (\<lambda>p. p \<noteq> []) (split_top (js '' && '') 0 [] expr)"

subsection \<open>The contract of the splitters\<close>

text \<open>\<open>top_free sep d s\<close>: read from depth \<open>d\<close>, \<open>s\<close> ends at depth 0 and holds no separator at depth
  0, nor a beginning of one that a separator after \<open>s\<close> would complete.\<close>

fun top_free :: "jsstr \<Rightarrow> int \<Rightarrow> jsstr \<Rightarrow> bool" where
  "top_free sep d [] = (d = 0)"
| "top_free sep d (c # s) =
     (\<not> (next_depth c d = 0 \<and> starts_with (c # s @ sep) sep) \<and> top_free sep (next_depth c d) s)"

definition atomic_part :: "jsstr \<Rightarrow> jsstr \<Rightarrow> bool" where
  "atomic_part sep p \<longleftrightarrow> p \<noteq> [] \<and> trimmed p \<and> top_free sep 0 p"

text \<open>\<open>balanced d s\<close>: the parentheses of \<open>s\<close> close what is open, and never more.\<close>

fun balanced :: "int \<Rightarrow> jsstr \<Rightarrow> bool" where
  "balanced d [] = (d = 0)"
| "balanced d (c # s) = (0 \<le> next_depth c d \<and> balanced (next_depth c d) s)"

definition no_paren :: "jsstr \<Rightarrow> bool" where
  "no_paren s \<longleftrightarrow> 40 \<notin> set s \<and> 41 \<notin> set s"

lemma no_paren_append [simp]: "no_paren (s @ t) \<longleftrightarrow> no_paren s \<and> no_paren t"
  by (auto simp: no_paren_def)

lemma no_paren_Nil [simp]: "no_paren []"
  by (simp add: no_paren_def)

lemma no_paren_Cons [simp]: "no_paren (c # s) \<longleftrightarrow> c \<noteq> 40 \<and> c \<noteq> 41 \<and> no_paren s"
  by (auto simp: no_paren_def)

lemma balanced_plain: "no_paren s \<Longrightarrow> 0 \<le> d \<Longrightarrow> balanced d (s @ t) = balanced d t"
  by (induction s) (auto simp: next_depth_def)

lemma balanced_open: "0 \<le> d \<Longrightarrow> balanced d (40 # s) = balanced (d + 1) s"
  by (simp add: next_depth_def)

lemma balanced_close: "1 \<le> d \<Longrightarrow> balanced d (41 # s) = balanced (d - 1) s"
  by (simp add: next_depth_def)

lemma balanced_append: "balanced d s \<Longrightarrow> balanced e t \<Longrightarrow> 0 \<le> e \<Longrightarrow> balanced (d + e) (s @ t)"
proof (induction s arbitrary: d)
  case (Cons c s)
  have "next_depth c (d + e) = next_depth c d + e" by (simp add: next_depth_def)
  with Cons show ?case by simp
qed simp

lemma balanced_no_paren: "no_paren s \<Longrightarrow> balanced 0 s"
  using balanced_plain [of s 0 "[]"] by simp

locale top_level =
  fixes sep :: jsstr and mid :: jsstr and split :: "jsstr \<Rightarrow> jsstr list"
  assumes sep_shape: "sep = 32 # mid @ [32]"
    and mid_first: "mid \<noteq> []" "hd mid \<noteq> 32"
    and split_eq: "split s = filter (\<lambda>p. p \<noteq> []) (split_top sep 0 [] s)"
begin

lemma starts_with_longer:
  "length sep \<le> length u \<Longrightarrow> starts_with (u @ t) sep = starts_with u sep"
  by (simp add: starts_with_def)

lemma split_top_part:
  "top_free sep d s \<Longrightarrow>
     split_top sep d acc (s @ sep @ t) = trim (rev acc @ s) # split_top sep 0 [] t"
proof (induction s arbitrary: d acc)
  case Nil
  then show ?case by (simp add: sep_shape next_depth_def starts_with_def)
next
  case (Cons c s)
  have "starts_with (c # s @ sep @ t) sep = starts_with (c # s @ sep) sep"
    using starts_with_longer [of "c # s @ sep" t] by simp
  with Cons show ?case by (auto simp: Cons.IH [of _ "c # acc"])
qed

lemma split_top_last: "top_free sep d s \<Longrightarrow> split_top sep d acc s = [trim (rev acc @ s)]"
proof (induction s arbitrary: d acc)
  case Nil
  then show ?case by simp
next
  case (Cons c s)
  have "starts_with (c # s) sep \<Longrightarrow> starts_with (c # s @ sep) sep"
    by (metis append_Cons append_assoc starts_with_append starts_with_split)
  with Cons show ?case by (auto simp: Cons.IH [of _ "c # acc"])
qed

lemma split_top_join:
  "ps \<noteq> [] \<Longrightarrow> \<forall>p \<in> set ps. atomic_part sep p \<Longrightarrow> split_top sep 0 [] (js_join sep ps) = ps"
  by (induction ps rule: induct_list012)
     (auto simp: split_top_last split_top_part atomic_part_def trim_trimmed)

lemma split_join:
  assumes "\<forall>p \<in> set ps. atomic_part sep p"
  shows "split (js_join sep ps) = ps"
proof (cases "ps = []")
  case True
  then show ?thesis by (simp add: split_eq)
next
  case False
  with assms show ?thesis
    by (simp add: split_eq split_top_join) (auto simp: filter_id_conv atomic_part_def)
qed

lemma top_free_inside:
  "balanced d s \<Longrightarrow> 0 \<le> d \<Longrightarrow> top_free sep (d + 1) (s @ [41])"
proof (induction s arbitrary: d)
  case Nil
  then show ?case by (simp add: next_depth_def starts_with_def sep_shape)
next
  case (Cons c s)
  have "next_depth c (d + 1) = next_depth c d + 1" by (simp add: next_depth_def)
  with Cons show ?case by simp
qed

lemma top_free_wrapped: "balanced 0 s \<Longrightarrow> top_free sep 0 (40 # s @ [41])"
  using top_free_inside [of 0 s] by (simp add: next_depth_def starts_with_def sep_shape)

lemma atomic_wrapped: "balanced 0 s \<Longrightarrow> atomic_part sep (40 # s @ [41])"
  using top_free_wrapped [of s] by (simp add: atomic_part_def trimmed_def is_ws_def del: top_free.simps)

lemma top_free_plain:
  "balanced d s \<Longrightarrow> hd mid \<notin> set s \<Longrightarrow> top_free sep d s"
proof (induction s arbitrary: d)
  case (Cons c s)
  have "\<not> starts_with (c # s @ sep) sep"
    using Cons.prems(2) mid_first by (cases s; cases mid) (auto simp: starts_with_def sep_shape)
  with Cons show ?case by simp
qed simp

end

interpretation multiply: top_level "js '' * ''" "js ''*''" splitTopLevelMultiply
  by unfold_locales (simp_all add: splitTopLevelMultiply_def js_lit)

interpretation conjunction: top_level "js '' && ''" "js ''&&''" splitTopLevelAnd
  by unfold_locales (simp_all add: splitTopLevelAnd_def js_lit)

end
