(* ===== verification/BillingRules.thy ===== *)
theory BillingRules
  imports BillingExpr
begin

section \<open>Billing expressions: request rules\<close>

text \<open>
  The second half of \<open>features/pricing/lib/billing-expr.ts\<close>: the conditions an editor attaches to a
  price multiplier, their printer (\<open>buildRequestRuleExpr\<close>), their parser
  (\<open>tryParseRequestRuleExpr\<close>) and the pair that joins the base expression with the rules and takes
  them apart again (\<open>combineBillingExpr\<close>, \<open>splitBillingExprAndRequestRules\<close>).

  \<open>JSON.parse\<close> may throw inside the parser of a condition, and nothing catches it there, so the
  parsers return \<open>Inl SyntaxError\<close> for a throw, \<open>Inr None\<close> for \<open>null\<close>.
\<close>

subsection \<open>Constants and data\<close>

definition SOURCE_PARAM :: jsstr where "SOURCE_PARAM = js ''param''"
definition SOURCE_HEADER :: jsstr where "SOURCE_HEADER = js ''header''"
definition SOURCE_TIME :: jsstr where "SOURCE_TIME = js ''time''"
definition MATCH_EQ :: jsstr where "MATCH_EQ = js ''eq''"
definition MATCH_CONTAINS :: jsstr where "MATCH_CONTAINS = js ''contains''"
definition MATCH_GT :: jsstr where "MATCH_GT = js ''gt''"
definition MATCH_GTE :: jsstr where "MATCH_GTE = js ''gte''"
definition MATCH_LT :: jsstr where "MATCH_LT = js ''lt''"
definition MATCH_LTE :: jsstr where "MATCH_LTE = js ''lte''"
definition MATCH_EXISTS :: jsstr where "MATCH_EXISTS = js ''exists''"
definition MATCH_RANGE :: jsstr where "MATCH_RANGE = js ''range''"

lemmas match_defs = MATCH_EQ_def MATCH_CONTAINS_def MATCH_GT_def MATCH_GTE_def MATCH_LT_def
  MATCH_LTE_def MATCH_EXISTS_def MATCH_RANGE_def

lemmas source_defs = SOURCE_PARAM_def SOURCE_HEADER_def SOURCE_TIME_def

definition TIME_FUNCS :: "jsstr list" where
  "TIME_FUNCS = [js ''hour'', js ''minute'', js ''weekday'', js ''month'', js ''day'']"

text \<open>Values and labels.\<close>

definition COMMON_TIMEZONES :: "(jsstr \<times> jsstr) list" where
  "COMMON_TIMEZONES =
     [(js ''Asia/Shanghai'', js ''UTC+8 Shanghai (Asia/Shanghai)''),
      (js ''UTC'', js ''UTC''),
      (js ''America/New_York'', js ''UTC-5 New York (America/New_York)''),
      (js ''America/Los_Angeles'', js ''UTC-8 Los Angeles (America/Los_Angeles)''),
      (js ''America/Chicago'', js ''UTC-6 Chicago (America/Chicago)''),
      (js ''Europe/London'', js ''UTC+0 London (Europe/London)''),
      (js ''Europe/Berlin'', js ''UTC+1 Berlin (Europe/Berlin)''),
      (js ''Asia/Tokyo'', js ''UTC+9 Tokyo (Asia/Tokyo)''),
      (js ''Asia/Singapore'', js ''UTC+8 Singapore (Asia/Singapore)''),
      (js ''Asia/Seoul'', js ''UTC+9 Seoul (Asia/Seoul)''),
      (js ''Australia/Sydney'', js ''UTC+10 Sydney (Australia/Sydney)'')]"

definition dec_digits :: regex where
  "dec_digits = rx_plus (RSat is_digit)"

definition NUMERIC_LITERAL_REGEX :: regex where
  "NUMERIC_LITERAL_REGEX =
     rx_seqs [rx_opt (RLit [45]),
       RAlt (rx_seqs [dec_digits, rx_opt (RLit [46]), RStar (RSat is_digit)])
            (RSeq (RLit [46]) dec_digits),
       rx_opt (rx_seqs [RSat (\<lambda>c. c = 101 \<or> c = 69), rx_opt (RSat (\<lambda>c. c = 43 \<or> c = 45)), dec_digits]),
       REnd]"

abbreviation is_numeric_literal :: "jsstr \<Rightarrow> bool" where
  "is_numeric_literal s \<equiv> rx_test NUMERIC_LITERAL_REGEX s"

record ph_condition =
  ph_source :: jsstr
  ph_path :: jsstr
  ph_mode :: jsstr
  ph_value :: jsstr

record time_condition =
  tm_func :: jsstr
  tm_timezone :: jsstr
  tm_mode :: jsstr
  tm_value :: jsstr
  tm_rangeStart :: jsstr
  tm_rangeEnd :: jsstr

datatype request_condition = TimeCondition time_condition | ParamHeaderCondition ph_condition

record rule_group =
  group_conditions :: "request_condition list"
  group_multiplier :: jsstr

datatype parse_error = SyntaxError

type_synonym 'a parsed = "parse_error + 'a option"

subsection \<open>Parsing conditions\<close>

definition parseExprLiteral :: "jsstr \<Rightarrow> jsval" where
  "parseExprLiteral raw =
     (let text = trim raw
      in if text = js ''true'' \<or> text = js ''false'' then JStr text
         else if is_numeric_literal text then JStr text
         else case json_parse text of Some v \<Rightarrow> v | None \<Rightarrow> JNull)"

definition rx_time_func :: regex where
  "rx_time_func = rx_words [''hour'', ''minute'', ''weekday'', ''month'', ''day'']"

definition rx_number :: regex where
  "rx_number = rx_plus (RSat num_unit)"

definition rx_name :: regex where
  "rx_name = rx_plus (RSat (not_unit 34))"

text \<open>\<open>F("TZ") >= A || F("TZ") < B\<close>, with the repeated call matched by back references.\<close>

definition rx_time_range :: "regex list" where
  "rx_time_range =
     [RGroup 1 rx_time_func, RLit (js ''('' @ [34]), RGroup 2 rx_name, RLit ([34] @ js '') >= ''),
      RGroup 3 rx_number, RLit (js '' || ''), RBack 1, RLit (js ''('' @ [34]), RBack 2,
      RLit ([34] @ js '') < ''), RGroup 4 rx_number]"

definition range_condition :: "(nat \<rightharpoonup> jsstr) \<Rightarrow> request_condition" where
  "range_condition m =
     TimeCondition \<lparr>tm_func = cap m 1, tm_timezone = cap m 2, tm_mode = MATCH_RANGE, tm_value = [],
       tm_rangeStart = cap m 3, tm_rangeEnd = cap m 4\<rparr>"

definition time_op_mode :: "jsstr \<Rightarrow> jsstr" where
  "time_op_mode rel =
     (if rel = js ''=='' then MATCH_EQ else if rel = js ''>='' then MATCH_GTE
      else if rel = js ''<'' then MATCH_LT else MATCH_EQ)"

definition tryParseTimeCondition :: "jsstr \<Rightarrow> request_condition option" where
  "tryParseTimeCondition expr =
     (case rx_match (rx_seqs (rx_time_range @ [REnd])) expr of
        Some m \<Rightarrow> Some (range_condition m)
      | None \<Rightarrow>
     (case rx_match (rx_seqs (RLit (js ''('') # rx_time_range @ [RLit (js '')''), REnd])) expr of
        Some m \<Rightarrow> Some (range_condition m)
      | None \<Rightarrow>
     (case rx_match (rx_seqs [RGroup 1 rx_time_func, RLit (js ''('' @ [34]), RGroup 2 rx_name,
             RLit ([34] @ js '') ''), RGroup 3 (rx_words [''=='', ''>='', ''<'']), RLit (js '' ''),
             RGroup 4 rx_number, REnd]) expr of
        Some m \<Rightarrow> Some (TimeCondition \<lparr>tm_func = cap m 1, tm_timezone = cap m 2,
          tm_mode = time_op_mode (cap m 3), tm_value = cap m 4, tm_rangeStart = [], tm_rangeEnd = []\<rparr>)
      | None \<Rightarrow> None)))"

text \<open>\<open>.\<close> without the \<open>s\<close> flag stops at line terminators.\<close>

definition dot_unit :: "code_unit \<Rightarrow> bool" where
  "dot_unit c \<longleftrightarrow> c \<noteq> 10 \<and> c \<noteq> 13 \<and> c \<noteq> 8232 \<and> c \<noteq> 8233"

definition rx_string_literal :: regex where
  "rx_string_literal =
     rx_seqs [RLit [34], RStar (RAlt (RSat (\<lambda>c. c \<noteq> 34 \<and> c \<noteq> 92)) (RSeq (RLit [92]) (RSat dot_unit))),
       RLit [34]]"

definition ph_cond :: "jsstr \<Rightarrow> jsstr \<Rightarrow> jsstr \<Rightarrow> jsstr \<Rightarrow> request_condition" where
  "ph_cond source path mode value =
     ParamHeaderCondition \<lparr>ph_source = source, ph_path = path, ph_mode = mode, ph_value = value\<rparr>"

definition contains_condition :: "jsstr \<Rightarrow> jsstr \<Rightarrow> jsstr \<Rightarrow> request_condition parsed" where
  "contains_condition source path lit =
     (case json_parse lit of
        Some v \<Rightarrow> Inr (Some (ph_cond source path MATCH_CONTAINS (to_str v)))
      | None \<Rightarrow> Inl SyntaxError)"

definition order_mode :: "jsstr \<Rightarrow> jsstr" where
  "order_mode rel =
     (if rel = js ''>'' then MATCH_GT else if rel = js ''>='' then MATCH_GTE
      else if rel = js ''<'' then MATCH_LT else MATCH_LTE)"

definition rx_header_exists :: regex where
  "rx_header_exists =
     rx_seqs [RLit (js ''header('' @ [34]), RGroup 1 rx_name, RLit ([34] @ js '') != '' @ [34, 34]), REnd]"

definition rx_param_exists :: regex where
  "rx_param_exists =
     rx_seqs [RLit (js ''param('' @ [34]), RGroup 1 rx_name, RLit ([34] @ js '') != nil''), REnd]"

definition rx_header_has :: regex where
  "rx_header_has =
     rx_seqs [RLit (js ''has(header('' @ [34]), RGroup 1 rx_name, RLit ([34] @ js ''), ''),
       RGroup 2 rx_string_literal, RLit (js '')''), REnd]"

definition rx_param_has :: regex where
  "rx_param_has =
     rx_seqs [RLit (js ''param('' @ [34]), RGroup 1 rx_name,
       RLit ([34] @ js '') != nil && has(param('' @ [34]), RGroup 2 rx_name, RLit ([34] @ js ''), ''),
       RGroup 3 rx_string_literal, RLit (js '')''), REnd]"

definition rx_param_order :: regex where
  "rx_param_order =
     rx_seqs [RLit (js ''param('' @ [34]), RGroup 1 rx_name,
       RLit ([34] @ js '') != nil && param('' @ [34]), RGroup 2 rx_name, RLit ([34] @ js '') ''),
       RGroup 3 (rx_words [''>'', ''>='', ''<'', ''<='']), RLit (js '' ''), RGroup 4 rx_number, REnd]"

definition rx_equals :: regex where
  "rx_equals =
     rx_seqs [RGroup 1 (rx_words [''param'', ''header'']), RLit (js ''('' @ [34]), RGroup 2 rx_name,
       RLit ([34] @ js '') == ''), RGroup 3 (rx_plus (RSat dot_unit)), REnd]"

definition parse_equals :: "jsstr \<Rightarrow> request_condition option" where
  "parse_equals expr =
     (case rx_match rx_equals expr of
        None \<Rightarrow> None
      | Some m \<Rightarrow>
        (case parseExprLiteral (cap m 3) of
           JNull \<Rightarrow> None
         | v \<Rightarrow> Some (ph_cond (cap m 1) (cap m 2) MATCH_EQ (to_str v))))"

text \<open>The tests of the function, in its order: the first that applies decides.\<close>

definition tryParseRequestCondition :: "jsstr \<Rightarrow> request_condition parsed" where
  "tryParseRequestCondition expr =
     (case tryParseTimeCondition expr of Some tc \<Rightarrow> Inr (Some tc) | None \<Rightarrow>
     (case rx_match rx_header_exists expr of
        Some m \<Rightarrow> Inr (Some (ph_cond SOURCE_HEADER (cap m 1) MATCH_EXISTS []))
      | None \<Rightarrow>
     (case rx_match rx_param_exists expr of
        Some m \<Rightarrow> Inr (Some (ph_cond SOURCE_PARAM (cap m 1) MATCH_EXISTS []))
      | None \<Rightarrow>
     (case rx_match rx_header_has expr of
        Some m \<Rightarrow> contains_condition SOURCE_HEADER (cap m 1) (cap m 2)
      | None \<Rightarrow>
     (let m = rx_match rx_param_has expr
      in if m \<noteq> None \<and> cap (the m) 1 = cap (the m) 2
         then contains_condition SOURCE_PARAM (cap (the m) 1) (cap (the m) 3)
         else
     (let m = rx_match rx_param_order expr
      in if m \<noteq> None \<and> cap (the m) 1 = cap (the m) 2
         then Inr (Some (ph_cond SOURCE_PARAM (cap (the m) 1) (order_mode (cap (the m) 3)) (cap (the m) 4)))
         else Inr (parse_equals expr)))))))"

subsection \<open>Parsing rules\<close>

fun parse_all :: "(jsstr \<Rightarrow> 'a parsed) \<Rightarrow> jsstr list \<Rightarrow> 'a list parsed" where
  "parse_all f [] = Inr (Some [])"
| "parse_all f (p # ps) =
     (case f p of
        Inl e \<Rightarrow> Inl e
      | Inr None \<Rightarrow> Inr None
      | Inr (Some x) \<Rightarrow>
        (case parse_all f ps of
           Inl e \<Rightarrow> Inl e
         | Inr None \<Rightarrow> Inr None
         | Inr (Some xs) \<Rightarrow> Inr (Some (x # xs))))"

definition rx_factor :: regex where
  "rx_factor =
     rx_seqs [RLit (js ''(''), RGroup 1 (rx_plus (RSat any_unit)), RLit (js '' ? ''),
       RGroup 2 rx_number, RLit (js '' : 1)''), REnd]"

definition tryParseRuleGroupFactor :: "jsstr \<Rightarrow> rule_group parsed" where
  "tryParseRuleGroupFactor part =
     (case rx_match rx_factor part of
        None \<Rightarrow> Inr None
      | Some m \<Rightarrow>
        (case parse_all (\<lambda>ap. tryParseRequestCondition (trim ap)) (splitTopLevelAnd (cap m 1)) of
           Inl e \<Rightarrow> Inl e
         | Inr None \<Rightarrow> Inr None
         | Inr (Some conditions) \<Rightarrow>
           if conditions = [] then Inr None
           else Inr (Some \<lparr>group_conditions = conditions, group_multiplier = cap m 2\<rparr>)))"

definition tryParseRequestRuleExpr :: "jsstr \<Rightarrow> rule_group list parsed" where
  "tryParseRequestRuleExpr expr =
     (let trimmed = trim expr
      in if trimmed = [] then Inr (Some [])
         else parse_all tryParseRuleGroupFactor (splitTopLevelMultiply trimmed))"

subsection \<open>Joining and separating base expression and rules\<close>

text \<open>The loop of \<open>hasFullOuterParens\<close>: the count must stay away from zero before the last unit.\<close>

fun outer_scan :: "int \<Rightarrow> jsstr \<Rightarrow> bool" where
  "outer_scan depth [] = (depth = 0)"
| "outer_scan depth (c # s) =
     (if next_depth c depth = 0 \<and> s \<noteq> [] then False else outer_scan (next_depth c depth) s)"

definition hasFullOuterParens :: "jsstr \<Rightarrow> bool" where
  "hasFullOuterParens expr \<longleftrightarrow>
     starts_with expr (js ''('') \<and> ends_with expr (js '')'') \<and> outer_scan 0 expr"

definition slice_inner :: "jsstr \<Rightarrow> jsstr" where
  "slice_inner s = butlast (drop 1 s)"

lemma length_trim_le: "length (trim s) \<le> length s"
  by (simp add: trim_def trim_end_def trim_start_def)
     (metis (no_types, lifting) le_trans length_dropWhile_le length_rev)

lemma unwrap_shrinks: "hasFullOuterParens s \<Longrightarrow> length (trim (slice_inner s)) < length s"
  using length_trim_le [of "slice_inner s"]
  by (cases s) (auto simp: hasFullOuterParens_def slice_inner_def starts_with_def js_lit)

function unwrap_loop :: "jsstr \<Rightarrow> jsstr" where
  "unwrap_loop current =
     (if hasFullOuterParens current then unwrap_loop (trim (slice_inner current)) else current)"
  by pat_completeness auto
termination
  by (relation "measure length") (auto simp: unwrap_shrinks)

declare unwrap_loop.simps [simp del]

definition unwrapOuterParens :: "jsstr \<Rightarrow> jsstr" where
  "unwrapOuterParens expr = unwrap_loop (trim expr)"

record split_result =
  billingExpr :: jsstr
  requestRuleExpr :: jsstr

text \<open>The classification of the parts by \<open>forEach\<close>: rule parts first, then base parts; a throw of
  the parser ends the function.\<close>

fun classify_parts :: "jsstr list \<Rightarrow> parse_error + (jsstr list \<times> jsstr list)" where
  "classify_parts [] = Inr ([], [])"
| "classify_parts (p # ps) =
     (case tryParseRequestRuleExpr p of
        Inl e \<Rightarrow> Inl e
      | Inr r \<Rightarrow>
        (case classify_parts ps of
           Inl e \<Rightarrow> Inl e
         | Inr (rules, bases) \<Rightarrow>
           Inr (if r \<noteq> None \<and> the r \<noteq> [] then (p # rules, bases) else (rules, p # bases))))"

definition splitBillingExprAndRequestRules :: "jsstr \<Rightarrow> parse_error + split_result" where
  "splitBillingExprAndRequestRules expr =
     (let trimmed = trim expr
      in if trimmed = [] then Inr \<lparr>billingExpr = [], requestRuleExpr = []\<rparr>
         else let parts = splitTopLevelMultiply trimmed
         in if length parts \<le> 1 then Inr \<lparr>billingExpr = trimmed, requestRuleExpr = []\<rparr>
         else (case classify_parts parts of
            Inl e \<Rightarrow> Inl e
          | Inr (ruleParts, baseParts) \<Rightarrow>
            if ruleParts = [] \<or> length baseParts \<noteq> 1
            then Inr \<lparr>billingExpr = trimmed, requestRuleExpr = []\<rparr>
            else Inr \<lparr>billingExpr = unwrapOuterParens (hd baseParts),
                      requestRuleExpr = js_join (js '' * '') ruleParts\<rparr>))"

definition combineBillingExpr :: "jsstr \<Rightarrow> jsstr \<Rightarrow> jsstr" where
  "combineBillingExpr baseExpr ruleExpr =
     (let base = trim baseExpr; rules = trim ruleExpr
      in if base = [] then []
         else if rules = [] then base
         else js ''('' @ base @ js '') * '' @ rules)"

subsection \<open>Editor constructors\<close>

definition createEmptyCondition :: ph_condition where
  "createEmptyCondition = \<lparr>ph_source = SOURCE_PARAM, ph_path = [], ph_mode = MATCH_EQ, ph_value = []\<rparr>"

definition createEmptyTimeCondition :: time_condition where
  "createEmptyTimeCondition =
     \<lparr>tm_func = js ''hour'', tm_timezone = js ''Asia/Shanghai'', tm_mode = MATCH_GTE, tm_value = [],
      tm_rangeStart = [], tm_rangeEnd = []\<rparr>"

definition createEmptyRuleGroup :: rule_group where
  "createEmptyRuleGroup =
     \<lparr>group_conditions = [ParamHeaderCondition createEmptyCondition], group_multiplier = []\<rparr>"

definition createEmptyTimeRuleGroup :: rule_group where
  "createEmptyTimeRuleGroup =
     \<lparr>group_conditions = [TimeCondition createEmptyTimeCondition], group_multiplier = []\<rparr>"

record match_option =
  opt_value :: jsstr
  opt_labelKey :: jsstr

definition mk_option :: "jsstr \<Rightarrow> string \<Rightarrow> match_option" where
  "mk_option v l = \<lparr>opt_value = v, opt_labelKey = js l\<rparr>"

definition getRequestRuleMatchOptions :: "jsstr \<Rightarrow> match_option list" where
  "getRequestRuleMatchOptions source =
     (if source = SOURCE_TIME
      then [mk_option MATCH_EQ ''Equals'', mk_option MATCH_GTE ''Greater than or equal'',
            mk_option MATCH_LT ''Less than'', mk_option MATCH_RANGE ''Overnight range'']
      else let base = [mk_option MATCH_EQ ''Equals'', mk_option MATCH_CONTAINS ''Contains'',
                       mk_option MATCH_EXISTS ''Exists'']
      in if source = SOURCE_HEADER then base
         else base @ [mk_option MATCH_GT ''Greater than'', mk_option MATCH_GTE ''Greater than or equal'',
                      mk_option MATCH_LT ''Less than'', mk_option MATCH_LTE ''Less than or equal''])"

subsection \<open>Normalization\<close>

text \<open>\<open>Partial<RequestCondition>\<close>: every field may be missing. The fields the code passes through
  \<open>String\<close> are values of any type.\<close>

record partial_condition =
  pc_source :: "jsstr option"
  pc_path :: "jsstr option"
  pc_mode :: "jsstr option"
  pc_timeFunc :: "jsstr option"
  pc_timezone :: "jsstr option"
  pc_value :: jsval
  pc_rangeStart :: jsval
  pc_rangeEnd :: jsval

definition no_condition :: partial_condition where
  "no_condition = \<lparr>pc_source = None, pc_path = None, pc_mode = None, pc_timeFunc = None,
     pc_timezone = None, pc_value = JUndef, pc_rangeStart = JUndef, pc_rangeEnd = JUndef\<rparr>"

definition isTimeFunc :: "jsstr option \<Rightarrow> bool" where
  "isTimeFunc v \<longleftrightarrow> (case v of Some s \<Rightarrow> s \<in> set TIME_FUNCS | None \<Rightarrow> False)"

definition text_or_empty :: "jsval \<Rightarrow> jsstr" where
  "text_or_empty v = (if is_nullish v then [] else to_str v)"

definition pick_mode :: "jsstr \<Rightarrow> jsstr option \<Rightarrow> jsstr \<Rightarrow> jsstr" where
  "pick_mode source mode dflt =
     (if \<exists>item \<in> set (getRequestRuleMatchOptions source). Some (opt_value item) = mode
      then or_empty mode else dflt)"

text \<open>The argument may be \<open>null\<close> or \<open>undefined\<close>; every read is then \<open>undefined\<close>.\<close>

definition normalizeCondition :: "partial_condition option \<Rightarrow> request_condition" where
  "normalizeCondition arg =
     (let cond = (case arg of None \<Rightarrow> no_condition | Some c \<Rightarrow> c);
          source = (if pc_source cond = Some SOURCE_TIME then SOURCE_TIME
                    else if pc_source cond = Some SOURCE_HEADER then SOURCE_HEADER
                    else SOURCE_PARAM)
      in if source = SOURCE_TIME
         then TimeCondition
           \<lparr>tm_func = (if isTimeFunc (pc_timeFunc cond) then or_empty (pc_timeFunc cond) else js ''hour''),
            tm_timezone = (if or_empty (pc_timezone cond) \<noteq> [] then or_empty (pc_timezone cond)
                           else js ''Asia/Shanghai''),
            tm_mode = pick_mode SOURCE_TIME (pc_mode cond) MATCH_GTE,
            tm_value = text_or_empty (pc_value cond),
            tm_rangeStart = text_or_empty (pc_rangeStart cond),
            tm_rangeEnd = text_or_empty (pc_rangeEnd cond)\<rparr>
         else ParamHeaderCondition
           \<lparr>ph_source = source, ph_path = or_empty (pc_path cond),
            ph_mode = pick_mode source (pc_mode cond) MATCH_EQ,
            ph_value = text_or_empty (pc_value cond)\<rparr>)"

text \<open>A condition read back as the partial object it is.\<close>

fun as_partial :: "request_condition \<Rightarrow> partial_condition" where
  "as_partial (TimeCondition t) =
     \<lparr>pc_source = Some SOURCE_TIME, pc_path = None, pc_mode = Some (tm_mode t),
      pc_timeFunc = Some (tm_func t), pc_timezone = Some (tm_timezone t), pc_value = JStr (tm_value t),
      pc_rangeStart = JStr (tm_rangeStart t), pc_rangeEnd = JStr (tm_rangeEnd t)\<rparr>"
| "as_partial (ParamHeaderCondition p) =
     \<lparr>pc_source = Some (ph_source p), pc_path = Some (ph_path p), pc_mode = Some (ph_mode p),
      pc_timeFunc = None, pc_timezone = None, pc_value = JStr (ph_value p),
      pc_rangeStart = JUndef, pc_rangeEnd = JUndef\<rparr>"

subsection \<open>Printing\<close>

definition buildExprLiteral :: "jsstr \<Rightarrow> jsstr \<Rightarrow> jsstr" where
  "buildExprLiteral mode value =
     (let text = trim value
      in if mode = MATCH_CONTAINS then json_quote text
         else if text = js ''true'' \<or> text = js ''false'' then text
         else if is_numeric_literal text then text
         else json_quote text)"

definition build_time_expr :: "time_condition \<Rightarrow> jsstr" where
  "build_time_expr t =
     (let fn = tm_func t @ js ''('' @ json_quote (tm_timezone t) @ js '')''
      in if tm_mode t = MATCH_RANGE
         then let s = trim (tm_rangeStart t); e = trim (tm_rangeEnd t)
              in if \<not> is_numeric_literal s \<or> \<not> is_numeric_literal e then []
                 else fn @ js '' >= '' @ s @ js '' || '' @ fn @ js '' < '' @ e
         else let v = trim (tm_value t)
              in if \<not> is_numeric_literal v then []
                 else fn @ js '' '' @
                   (if tm_mode t = MATCH_EQ then js ''=='' else if tm_mode t = MATCH_GTE then js ''>=''
                    else if tm_mode t = MATCH_LT then js ''<'' else js ''=='') @ js '' '' @ v)"

definition build_ph_expr :: "ph_condition \<Rightarrow> jsstr" where
  "build_ph_expr c =
     (let path = trim (ph_path c);
          sourceExpr = (if ph_source c = SOURCE_HEADER then js ''header('' @ json_quote path @ js '')''
                        else js ''param('' @ json_quote path @ js '')'');
          lit = buildExprLiteral (ph_mode c) (ph_value c);
          order = (\<lambda>rel. let numText = trim (ph_value c)
             in if \<not> is_numeric_literal numText then []
                else sourceExpr @ js '' != nil && '' @ sourceExpr @ js '' '' @ js rel @ js '' '' @ numText)
      in if path = [] then []
         else if ph_mode c = MATCH_EXISTS
              then (if ph_source c = SOURCE_HEADER then sourceExpr @ js '' != '' @ [34, 34]
                    else sourceExpr @ js '' != nil'')
         else if ph_mode c = MATCH_CONTAINS
              then (if ph_source c = SOURCE_HEADER
                    then js ''has('' @ sourceExpr @ js '', '' @ lit @ js '')''
                    else sourceExpr @ js '' != nil && has('' @ sourceExpr @ js '', '' @ lit @ js '')'')
         else if ph_mode c = MATCH_GT then order ''>''
         else if ph_mode c = MATCH_GTE then order ''>=''
         else if ph_mode c = MATCH_LT then order ''<''
         else if ph_mode c = MATCH_LTE then order ''<=''
         else sourceExpr @ js '' == '' @ lit)"

text \<open>Both printers normalize their argument first; the kind of the condition does not change.\<close>

definition buildRequestConditionExpr :: "request_condition \<Rightarrow> jsstr" where
  "buildRequestConditionExpr cond =
     (case normalizeCondition (Some (as_partial cond)) of
        TimeCondition t \<Rightarrow> build_time_expr t
      | ParamHeaderCondition c \<Rightarrow> build_ph_expr c)"

definition buildRuleGroupFactor :: "rule_group \<Rightarrow> jsstr" where
  "buildRuleGroupFactor grp =
     (let multiplier = trim (group_multiplier grp);
          condExprs = filter (\<lambda>e. e \<noteq> []) (map buildRequestConditionExpr (group_conditions grp));
          combined = (case condExprs of
             [e] \<Rightarrow> e
           | _ \<Rightarrow> js_join (js '' && '')
               (map (\<lambda>e. if includes_str e (js '' || '') then js ''('' @ e @ js '')'' else e) condExprs))
      in if \<not> is_numeric_literal multiplier then []
         else if condExprs = [] then []
         else js ''('' @ combined @ js '' ? '' @ multiplier @ js '' : 1)'')"

definition buildRequestRuleExpr :: "rule_group list \<Rightarrow> jsstr" where
  "buildRequestRuleExpr groups =
     js_join (js '' * '') (filter (\<lambda>e. e \<noteq> []) (map buildRuleGroupFactor groups))"

end
