(* ===== verification/BillingRoundTrip.thy ===== *)
theory BillingRoundTrip
  imports BillingRules
begin

section \<open>Billing expressions: printed rules are read back\<close>

text \<open>
  The printer and the parser of request rules against each other, for names and values made of \<open>clean_unit\<close>s (no
  quote, backslash, parenthesis, \<open>&\<close>, \<open>|\<close>, control character or surrogate). Groups come back exactly as they were
  printed, unless a condition is one the printer writes with an inner \<open> && \<close>: the splitter cuts it in two, and the
  parser rejects the whole text. The main theorem says which of the two happens for every list of groups.
\<close>

subsection \<open>Clean text\<close>

definition clean_unit :: "code_unit \<Rightarrow> bool" where
  "clean_unit c \<longleftrightarrow> 32 \<le> c \<and> (c < 55296 \<or> 57343 < c) \<and> c < 65536 \<and>
     c \<notin> {34, 38, 40, 41, 92, 124, 8232, 8233}"

definition clean :: "jsstr \<Rightarrow> bool" where
  "clean s \<longleftrightarrow> list_all clean_unit s"

lemma clean_simps [simp]: "clean []" "clean (c # s) \<longleftrightarrow> clean_unit c \<and> clean s"
  "clean (s @ t) \<longleftrightarrow> clean s \<and> clean t"
  by (auto simp: clean_def)

lemma clean_not_surrogate: "clean_unit c \<Longrightarrow> \<not> is_high_surrogate c \<and> \<not> is_low_surrogate c"
  unfolding clean_unit_def is_high_surrogate_def is_low_surrogate_def by linarith

lemma clean_unit_quote: "clean_unit c \<Longrightarrow> quote_unit c = [c]"
  using clean_not_surrogate [of c] by (simp add: quote_unit_def clean_unit_def)

lemma quote_units_clean: "clean s \<Longrightarrow> quote_units s = s"
  by (induction s rule: quote_units.induct) (simp_all add: clean_unit_quote clean_not_surrogate)

lemma json_quote_clean: "clean s \<Longrightarrow> json_quote s = 34 # s @ [34]"
  by (simp add: json_quote_def quote_units_clean)

lemma clean_mono: "clean s \<Longrightarrow> (\<And>c. clean_unit c \<Longrightarrow> q c) \<Longrightarrow> list_all q s"
  by (auto simp: clean_def list_all_iff)

lemma json_parse_quote:
  assumes "clean s"
  shows "json_parse (34 # s @ [34]) = Some (JStr s)"
proof -
  have "wf_units s" unfolding wf_units_def by (rule clean_mono [OF assms]) (auto simp: clean_unit_def)
  then have "plain (JStr s)" by simp
  moreover have "json_print (JStr s) = 34 # s @ [34]"
    unfolding json_print.simps by (rule json_quote_clean [OF assms])
  ultimately show ?thesis using json_roundtrip [of "JStr s"] by simp
qed

lemma clean_name: "clean s \<Longrightarrow> list_all (not_unit 34) s"
  by (rule clean_mono) (auto simp: clean_unit_def not_unit_def)

lemma clean_no_paren: "clean s \<Longrightarrow> no_paren s"
  by (induction s) (auto simp: clean_unit_def)

lemma clean_no_amp: "clean s \<Longrightarrow> 38 \<notin> set s"
  by (induction s) (auto simp: clean_unit_def)

subsection \<open>Numeric literals\<close>

lemma numeric_units: "is_numeric_literal s \<Longrightarrow> list_all num_unit s"
proof -
  let ?sign = "rx_opt (RLit [45])"
  let ?body = "RAlt (rx_seqs [dec_digits, rx_opt (RLit [46]), RStar (RSat is_digit)])
      (RSeq (RLit [46]) dec_digits)"
  let ?expo = "rx_opt (rx_seqs [RSat (\<lambda>c. c = 101 \<or> c = 69),
      rx_opt (RSat (\<lambda>c. c = 43 \<or> c = 45)), dec_digits])"
  have "rx_run NUMERIC_LITERAL_REGEX st = rx_run (RSeq (RSeq (RSeq ?sign ?body) ?expo) REnd) st" for st
    unfolding NUMERIC_LITERAL_REGEX_def rx_seqs.simps by (simp only: seq_assoc)
  moreover assume "is_numeric_literal s"
  ultimately have "rx_test (RSeq (RSeq (RSeq ?sign ?body) ?expo) REnd) s"
    unfolding rx_test_def rx_match_def by simp
  then show ?thesis
    by (rule rx_test_units [rotated]) (auto simp: rx_opt_def dec_digits_def rx_plus_def num_unit_def)
qed

lemma numeric_nonempty: "is_numeric_literal s \<Longrightarrow> s \<noteq> []"
proof
  assume "is_numeric_literal s" and "s = []"
  moreover have "\<not> is_numeric_literal []" by code_simp
  ultimately show False by simp
qed

lemma num_unit_clean: "num_unit c \<Longrightarrow> clean_unit c \<and> \<not> is_ws c"
  by (auto simp: num_unit_def is_digit_def clean_unit_def is_ws_def)

lemma numeric_clean: "is_numeric_literal s \<Longrightarrow> clean s"
  using numeric_units [of s] num_unit_clean by (auto simp: clean_def list_all_iff)

lemma numeric_trim: "is_numeric_literal s \<Longrightarrow> trim s = s"
  using numeric_units [of s] num_unit_clean by (intro trim_no_ws) (auto simp: list_all_iff)

lemmas numeric_facts = numeric_units numeric_nonempty numeric_clean numeric_trim

subsection \<open>Conditions read back\<close>

lemmas rx_defs = rx_time_range_def rx_number_def rx_name_def rx_words_def
  rx_header_exists_def rx_param_exists_def rx_header_has_def rx_param_has_def rx_param_order_def
  rx_equals_def

lemma time_func_group [rx_eval]:
  assumes "fn \<in> set TIME_FUNCS"
  shows "rx_run (RSeq (RGroup n rx_time_func) b) (rx_at p (fn @ 40 # t) k) =
     rx_run b (rx_at (Some (last fn)) (40 # t) ((n, fn) # k))"
  using assms
  by (auto simp: TIME_FUNCS_def rx_time_func_def rx_words_def seq_group_alt seq_group_lit js_lit
      simp del: rx_run.simps)

text \<open>Texts that do not start with the name of a time function.\<close>

lemma time_func_other [rx_eval]:
  "c \<notin> {104, 109, 119, 100} \<Longrightarrow> rx_run (RSeq (RGroup n rx_time_func) b) (rx_at p (c # t) k) = []"
  by (simp add: rx_time_func_def rx_words_def seq_group_alt seq_group_lit js_lit del: rx_run.simps)

lemma time_func_header [rx_eval]:
  "c \<noteq> 111 \<Longrightarrow> rx_run (RSeq (RGroup n rx_time_func) b) (rx_at p (104 # c # t) k) = []"
  by (simp add: rx_time_func_def rx_words_def seq_group_alt seq_group_lit js_lit del: rx_run.simps)

lemma time_func_paren [rx_eval]:
  "fn \<in> set TIME_FUNCS \<Longrightarrow> rx_run (RSeq (RLit (40 # w)) b) (rx_at p (fn @ t) k) = []"
  by (auto simp: TIME_FUNCS_def js_lit seq_lit simp del: rx_run.simps)

lemma string_literal_star:
  assumes "list_all (\<lambda>c. c \<noteq> 34 \<and> c \<noteq> 92) v"
  shows "rx_run (RStar (RAlt (RSat (\<lambda>c. c \<noteq> 34 \<and> c \<noteq> 92)) (RSeq (RLit [92]) (RSat dot_unit))))
       (rx_at p (v @ 34 # t) k) =
     rx_run (RStar (RSat (\<lambda>c. c \<noteq> 34 \<and> c \<noteq> 92))) (rx_at p (v @ 34 # t) k)"
  using assms
  by (induction v arbitrary: p)
     (simp_all add: rx_run.simps(6) [of _ "rx_at _ _ _"] run_lit_def advance_def)

lemma string_literal_run:
  assumes "clean v"
  shows "rx_run rx_string_literal (rx_at p (34 # v @ 34 # t) k) = [rx_at (Some 34) t k]"
proof -
  let ?q = "\<lambda>c::code_unit. c \<noteq> 34 \<and> c \<noteq> 92"
  have v: "list_all ?q v" by (rule clean_mono [OF assms]) (simp add: clean_unit_def)
  have "rx_run (RSeq (RStar (RSat ?q)) (RLit [34])) (rx_at (Some 34) (v @ 34 # t) k) =
      [rx_at (Some 34) t k]"
    using seq_star [OF v, of "34 # t" "RLit [34]"] by (simp add: stops_class_lit_last run_lit_def advance_def)
  then show ?thesis
    by (simp add: rx_string_literal_def run_lit_def advance_def string_literal_star [OF v])
qed

lemma string_literal_group [rx_eval]:
  assumes "clean v"
  shows "rx_run (RSeq (RGroup n rx_string_literal) b) (rx_at p (34 # v @ 34 # t) k) =
     rx_run b (rx_at (Some 34) t ((n, 34 # v @ [34]) # k))"
  by (simp add: string_literal_run [OF assms])

text \<open>The simpset that runs the parsers on printed text.\<close>

lemmas rx_run_text = rx_eval rx_match_run rx_defs js_lit cap_def clean_name numeric_units
  numeric_nonempty not_unit_def num_unit_def is_digit_def

lemma parse_header_exists:
  assumes "clean path" "path \<noteq> []"
  shows "tryParseRequestCondition (js ''header('' @ 34 # path @ 34 # js '') != '' @ [34, 34]) =
    Inr (Some (ph_cond SOURCE_HEADER path MATCH_EXISTS []))"
  using assms
  by (simp add: tryParseRequestCondition_def tryParseTimeCondition_def rx_run_text del: rx_run.simps)

lemma parse_param_exists:
  assumes "clean path" "path \<noteq> []"
  shows "tryParseRequestCondition (js ''param('' @ 34 # path @ 34 # js '') != nil'') =
    Inr (Some (ph_cond SOURCE_PARAM path MATCH_EXISTS []))"
  using assms
  by (simp add: tryParseRequestCondition_def tryParseTimeCondition_def rx_run_text del: rx_run.simps)

definition time_cond :: "jsstr \<Rightarrow> jsstr \<Rightarrow> jsstr \<Rightarrow> jsstr \<Rightarrow> jsstr \<Rightarrow> jsstr \<Rightarrow> request_condition" where
  "time_cond fn tz mode v s e =
     TimeCondition \<lparr>tm_func = fn, tm_timezone = tz, tm_mode = mode, tm_value = v,
       tm_rangeStart = s, tm_rangeEnd = e\<rparr>"

lemmas time_parse_text = tryParseTimeCondition_def rx_run_text time_cond_def range_condition_def
  time_op_mode_def match_defs

lemma parse_time_op:
  assumes "fn \<in> set TIME_FUNCS" "clean tz" "tz \<noteq> []" "is_numeric_literal v"
  shows "tryParseTimeCondition (fn @ 40 # 34 # tz @ 34 # js '') == '' @ v) = Some (time_cond fn tz MATCH_EQ v [] [])"
    and "tryParseTimeCondition (fn @ 40 # 34 # tz @ 34 # js '') >= '' @ v) = Some (time_cond fn tz MATCH_GTE v [] [])"
    and "tryParseTimeCondition (fn @ 40 # 34 # tz @ 34 # js '') < '' @ v) = Some (time_cond fn tz MATCH_LT v [] [])"
  using assms by (simp_all add: time_parse_text del: rx_run.simps)

lemma parse_time_range:
  assumes "fn \<in> set TIME_FUNCS" "clean tz" "tz \<noteq> []" "is_numeric_literal s" "is_numeric_literal e"
  defines "text \<equiv> fn @ 40 # 34 # tz @ 34 # js '') >= '' @ s @ js '' || '' @
     fn @ 40 # 34 # tz @ 34 # js '') < '' @ e"
  shows "tryParseTimeCondition text = Some (time_cond fn tz MATCH_RANGE [] s e)"
    and "tryParseTimeCondition (40 # text @ [41]) = Some (time_cond fn tz MATCH_RANGE [] s e)"
  using assms(1-5) unfolding text_def by (simp_all add: time_parse_text del: rx_run.simps)

lemma parse_header_contains:
  assumes "clean path" "path \<noteq> []" "clean v"
  shows "tryParseRequestCondition
      (js ''has(header('' @ 34 # path @ 34 # js ''), '' @ 34 # v @ 34 # js '')'') =
    Inr (Some (ph_cond SOURCE_HEADER path MATCH_CONTAINS v))"
  using assms
  by (simp add: tryParseRequestCondition_def tryParseTimeCondition_def contains_condition_def
      json_parse_quote rx_run_text del: rx_run.simps)

subsection \<open>Equality\<close>

lemma parse_literal:
  assumes "clean v" "trimmed v"
  shows "parseExprLiteral (buildExprLiteral MATCH_EQ v) = JStr v"
proof (cases "v = js ''true'' \<or> v = js ''false'' \<or> is_numeric_literal v")
  case True
  then show ?thesis using assms
    by (auto simp: buildExprLiteral_def parseExprLiteral_def trim_trimmed match_defs js_lit)
next
  case False
  have "trimmed (34 # v @ [34])" by (simp add: trimmed_def is_ws_def)
  moreover have "\<not> is_numeric_literal (34 # v @ [34])"
    using numeric_units [of "34 # v @ [34]"] by (auto simp: num_unit_def is_digit_def)
  ultimately show ?thesis using False assms
    by (simp add: buildExprLiteral_def parseExprLiteral_def trim_trimmed json_quote_clean
        json_parse_quote match_defs js_lit)
qed

lemma clean_no_bar: "clean v \<Longrightarrow> 124 \<notin> set v"
  by (induction v) (auto simp: clean_unit_def)

lemma literal_cases:
  assumes "clean v" "trimmed v"
  shows "buildExprLiteral mode v = 34 # v @ [34] \<or> buildExprLiteral mode v = v \<and> v \<noteq> []"
  using assms numeric_nonempty [of v]
  by (auto simp: buildExprLiteral_def Let_def trim_trimmed json_quote_clean js_lit)

lemma literal_units:
  assumes "clean v" "trimmed v"
  shows "no_paren (buildExprLiteral mode v) \<and> 38 \<notin> set (buildExprLiteral mode v) \<and>
     124 \<notin> set (buildExprLiteral mode v) \<and> buildExprLiteral mode v \<noteq> [] \<and>
     \<not> is_ws (last (buildExprLiteral mode v)) \<and> list_all dot_unit (buildExprLiteral mode v)"
proof -
  note v = clean_no_paren [OF assms(1)] clean_no_amp [OF assms(1)] clean_no_bar [OF assms(1)]
  have dots: "list_all dot_unit v" by (rule clean_mono [OF assms(1)]) (simp add: clean_unit_def dot_unit_def)
  have quote: "\<not> is_ws 34" by (simp add: is_ws_def)
  show ?thesis using literal_cases [OF assms, of mode] v dots quote assms(2)
    by (auto simp: trimmed_def dot_unit_def)
qed

lemma parse_equals:
  assumes "clean path" "path \<noteq> []" "clean v" "trimmed v"
  shows "tryParseRequestCondition (js ''header('' @ 34 # path @ 34 # js '') == '' @ buildExprLiteral MATCH_EQ v) =
      Inr (Some (ph_cond SOURCE_HEADER path MATCH_EQ v))"
    and "tryParseRequestCondition (js ''param('' @ 34 # path @ 34 # js '') == '' @ buildExprLiteral MATCH_EQ v) =
      Inr (Some (ph_cond SOURCE_PARAM path MATCH_EQ v))"
  using assms literal_units [OF assms(3,4), of MATCH_EQ]
  by (simp_all add: tryParseRequestCondition_def tryParseTimeCondition_def parse_equals_def
      parse_literal source_defs rx_run_text del: rx_run.simps)

subsection \<open>Conditions the editor can write and read\<close>

fun editable :: "request_condition \<Rightarrow> bool" where
  "editable (TimeCondition t) \<longleftrightarrow>
     tm_func t \<in> set TIME_FUNCS \<and> clean (tm_timezone t) \<and> tm_timezone t \<noteq> [] \<and>
     (if tm_mode t = MATCH_RANGE
      then tm_value t = [] \<and> is_numeric_literal (tm_rangeStart t) \<and> is_numeric_literal (tm_rangeEnd t)
      else tm_mode t \<in> {MATCH_EQ, MATCH_GTE, MATCH_LT} \<and> is_numeric_literal (tm_value t) \<and>
        tm_rangeStart t = [] \<and> tm_rangeEnd t = [])"
| "editable (ParamHeaderCondition c) \<longleftrightarrow>
     clean (ph_path c) \<and> trimmed (ph_path c) \<and> ph_path c \<noteq> [] \<and>
     clean (ph_value c) \<and> trimmed (ph_value c) \<and>
     (if ph_source c = SOURCE_HEADER then ph_mode c \<in> {MATCH_EQ, MATCH_CONTAINS, MATCH_EXISTS}
      else ph_source c = SOURCE_PARAM \<and> ph_mode c \<in> {MATCH_EQ, MATCH_EXISTS}) \<and>
     (ph_mode c = MATCH_EXISTS \<longrightarrow> ph_value c = [])"

text \<open>The shapes of printed conditions.\<close>

inductive printed :: "request_condition \<Rightarrow> jsstr \<Rightarrow> bool" where
  printed_op: "\<lbrakk>fn \<in> set TIME_FUNCS; clean tz; tz \<noteq> []; is_numeric_literal v;
      (mode, rel) \<in> {(MATCH_EQ, ''==''), (MATCH_GTE, ''>=''), (MATCH_LT, ''<'')}\<rbrakk>
    \<Longrightarrow> printed (time_cond fn tz mode v [] []) (fn @ 40 # 34 # tz @ 34 # 41 # 32 # js rel @ 32 # v)"
| printed_range: "\<lbrakk>fn \<in> set TIME_FUNCS; clean tz; tz \<noteq> []; is_numeric_literal s; is_numeric_literal e\<rbrakk>
    \<Longrightarrow> printed (time_cond fn tz MATCH_RANGE [] s e)
          (fn @ 40 # 34 # tz @ 34 # js '') >= '' @ s @ js '' || '' @
           fn @ 40 # 34 # tz @ 34 # js '') < '' @ e)"
| printed_header_exists: "\<lbrakk>clean path; path \<noteq> []\<rbrakk>
    \<Longrightarrow> printed (ph_cond SOURCE_HEADER path MATCH_EXISTS [])
          (js ''header('' @ 34 # path @ 34 # js '') != '' @ [34, 34])"
| printed_param_exists: "\<lbrakk>clean path; path \<noteq> []\<rbrakk>
    \<Longrightarrow> printed (ph_cond SOURCE_PARAM path MATCH_EXISTS []) (js ''param('' @ 34 # path @ 34 # js '') != nil'')"
| printed_contains: "\<lbrakk>clean path; path \<noteq> []; clean v\<rbrakk>
    \<Longrightarrow> printed (ph_cond SOURCE_HEADER path MATCH_CONTAINS v)
          (js ''has(header('' @ 34 # path @ 34 # js ''), '' @ 34 # v @ 34 # js '')'')"
| printed_header_eq: "\<lbrakk>clean path; path \<noteq> []; clean v; trimmed v\<rbrakk>
    \<Longrightarrow> printed (ph_cond SOURCE_HEADER path MATCH_EQ v)
          (js ''header('' @ 34 # path @ 34 # js '') == '' @ buildExprLiteral MATCH_EQ v)"
| printed_param_eq: "\<lbrakk>clean path; path \<noteq> []; clean v; trimmed v\<rbrakk>
    \<Longrightarrow> printed (ph_cond SOURCE_PARAM path MATCH_EQ v)
          (js ''param('' @ 34 # path @ 34 # js '') == '' @ buildExprLiteral MATCH_EQ v)"

lemma printed_parse: "printed c e \<Longrightarrow> tryParseRequestCondition e = Inr (Some c)"
proof (induction rule: printed.induct)
  case (printed_op fn tz v mode rel)
  then show ?case
    using parse_time_op [of fn tz v] by (auto simp: tryParseRequestCondition_def js_lit)
next
  case (printed_range fn tz s e)
  then show ?case using parse_time_range(1) [of fn tz s e] by (simp add: tryParseRequestCondition_def)
qed (simp_all add: parse_header_exists parse_param_exists parse_header_contains parse_equals)

text \<open>What the splitters and the factor parser need of a printed condition.\<close>

lemma time_func_units:
  "fn \<in> set TIME_FUNCS \<Longrightarrow> no_paren fn \<and> 38 \<notin> set fn \<and> fn \<noteq> [] \<and> 124 \<notin> set fn \<and> \<not> is_ws (hd fn)"
  by (auto simp: TIME_FUNCS_def js_lit is_ws_def)

lemma numeric_last: "is_numeric_literal v \<Longrightarrow> \<not> is_ws (last v)"
  using numeric_units [of v] numeric_nonempty [of v] num_unit_clean
  by (auto simp: list_all_iff)

text \<open>The parentheses of a printed condition: at most one level.\<close>

lemma balanced_walk:
  "no_paren s \<Longrightarrow> balanced 0 (s @ t) = balanced 0 t"
  "no_paren s \<Longrightarrow> balanced 1 (s @ t) = balanced 1 t"
  "no_paren s \<Longrightarrow> balanced 2 (s @ t) = balanced 2 t"
  "balanced 0 (40 # t) = balanced 1 t"
  "balanced 1 (41 # t) = balanced 0 t"
  "balanced 1 (40 # t) = balanced 2 t"
  "balanced 2 (41 # t) = balanced 1 t"
  "c \<noteq> 40 \<Longrightarrow> c \<noteq> 41 \<Longrightarrow> 0 \<le> d \<Longrightarrow> balanced d (c # t) = balanced d t"
  by (simp_all add: balanced_plain next_depth_def)

lemmas printed_units = time_func_units clean_no_paren clean_no_amp clean_no_bar numeric_clean
  literal_units balanced_no_paren

lemma printed_balanced: "printed c e \<Longrightarrow> balanced 0 e"
  by (induction rule: printed.induct)
     (auto simp: printed_units balanced_walk js_lit simp del: balanced.simps(2))

lemma printed_no_amp: "printed c e \<Longrightarrow> 38 \<notin> set e"
  by (induction rule: printed.induct) (auto simp: printed_units js_lit)

lemma printed_trimmed: "printed c e \<Longrightarrow> trimmed e \<and> e \<noteq> []"
proof (induction rule: printed.induct)
  case (printed_op fn tz v mode rel)
  then show ?case using time_func_units [of fn]
    by (auto simp: trimmed_def numeric_last numeric_nonempty js_lit)
next
  case (printed_range fn tz s e)
  then show ?case using time_func_units [of fn]
    by (auto simp: trimmed_def numeric_last numeric_nonempty js_lit)
qed (auto simp: trimmed_def js_lit is_ws_def literal_units [unfolded is_ws_def])

lemma printed_atomic: "printed c e \<Longrightarrow> atomic_part (js '' && '') e"
  using conjunction.top_free_plain [OF printed_balanced, of c e] printed_no_amp [of c e]
    printed_trimmed [of c e] by (simp add: atomic_part_def js_Cons)

lemma includes_units: "includes_str s p \<Longrightarrow> set p \<subseteq> set s"
proof -
  assume "includes_str s p"
  then obtain i where "js_index s p = Some i" by (auto simp: includes_str_def)
  then have "s = take i s @ p @ drop (i + length p) s" using js_index_Some by blast
  then show ?thesis by (metis Un_iff set_append subsetI)
qed

lemma printed_wrapped_parse:
  "printed c e \<Longrightarrow> includes_str e (js '' || '') \<Longrightarrow> tryParseRequestCondition (40 # e @ [41]) = Inr (Some c)"
proof (induction rule: printed.induct)
  case (printed_range fn tz s e)
  then show ?case using parse_time_range(2) [of fn tz s e] by (simp add: tryParseRequestCondition_def)
qed (auto dest!: includes_units simp: printed_units js_lit)

lemma pick_mode_option:
  "m \<in> {MATCH_EQ, MATCH_GTE, MATCH_LT, MATCH_RANGE} \<Longrightarrow> pick_mode SOURCE_TIME (Some m) d = m"
  "m \<in> {MATCH_EQ, MATCH_CONTAINS, MATCH_EXISTS} \<Longrightarrow> pick_mode SOURCE_HEADER (Some m) d = m"
  "m \<in> {MATCH_EQ, MATCH_CONTAINS, MATCH_EXISTS, MATCH_GT, MATCH_GTE, MATCH_LT, MATCH_LTE} \<Longrightarrow>
     pick_mode SOURCE_PARAM (Some m) d = m"
  by (auto simp: pick_mode_def getRequestRuleMatchOptions_def mk_option_def or_empty_def source_defs
      js_lit)

lemma normalize_time:
  assumes "tm_func t \<in> set TIME_FUNCS" "tm_timezone t \<noteq> []"
    and "tm_mode t \<in> {MATCH_EQ, MATCH_GTE, MATCH_LT, MATCH_RANGE}"
  shows "normalizeCondition (Some (as_partial (TimeCondition t))) = TimeCondition t"
  using assms by (simp add: normalizeCondition_def isTimeFunc_def or_empty_def pick_mode_option
      text_or_empty_def)

lemma normalize_ph:
  assumes "ph_source c = SOURCE_HEADER \<and> ph_mode c \<in> {MATCH_EQ, MATCH_CONTAINS, MATCH_EXISTS} \<or>
     ph_source c = SOURCE_PARAM \<and>
     ph_mode c \<in> {MATCH_EQ, MATCH_CONTAINS, MATCH_EXISTS, MATCH_GT, MATCH_GTE, MATCH_LT, MATCH_LTE}"
  shows "normalizeCondition (Some (as_partial (ParamHeaderCondition c))) = ParamHeaderCondition c"
proof -
  have "SOURCE_HEADER \<noteq> SOURCE_TIME" "SOURCE_PARAM \<noteq> SOURCE_TIME" "SOURCE_PARAM \<noteq> SOURCE_HEADER"
    by (simp_all add: source_defs js_lit)
  with assms show ?thesis
    by (auto simp: normalizeCondition_def or_empty_def pick_mode_option text_or_empty_def)
qed

lemma match_distinct:
  "distinct [MATCH_EQ, MATCH_CONTAINS, MATCH_GT, MATCH_GTE, MATCH_LT, MATCH_LTE, MATCH_EXISTS, MATCH_RANGE]"
  by (simp add: match_defs js_lit)

lemma editable_time_printed:
  assumes "editable (TimeCondition t)"
  shows "printed (TimeCondition t) (buildRequestConditionExpr (TimeCondition t))"
proof -
  have build: "buildRequestConditionExpr (TimeCondition t) = build_time_expr t"
    using assms unfolding buildRequestConditionExpr_def
    by (subst normalize_time) (auto split: if_splits)
  obtain fn tz mode v s e where t: "t = \<lparr>tm_func = fn, tm_timezone = tz, tm_mode = mode,
      tm_value = v, tm_rangeStart = s, tm_rangeEnd = e\<rparr>" by (cases t) auto
  show ?thesis unfolding build
  proof (cases "mode = MATCH_RANGE")
    case True
    with assms t show "printed (TimeCondition t) (build_time_expr t)"
      using printed_range [of fn tz s e]
      by (simp add: build_time_expr_def json_quote_clean numeric_trim time_cond_def js_lit)
  next
    case False
    with assms t have *: "fn \<in> set TIME_FUNCS" "clean tz" "tz \<noteq> []" "is_numeric_literal v" "s = []" "e = []"
      and mode: "mode = MATCH_EQ \<or> mode = MATCH_GTE \<or> mode = MATCH_LT" by auto
    have "printed (time_cond fn tz MATCH_EQ v [] []) (fn @ 40 # 34 # tz @ 34 # 41 # 32 # js ''=='' @ 32 # v)"
      and "printed (time_cond fn tz MATCH_GTE v [] []) (fn @ 40 # 34 # tz @ 34 # 41 # 32 # js ''>='' @ 32 # v)"
      and "printed (time_cond fn tz MATCH_LT v [] []) (fn @ 40 # 34 # tz @ 34 # 41 # 32 # js ''<'' @ 32 # v)"
      by (intro printed_op * ; simp)+
    with mode * match_distinct show "printed (TimeCondition t) (build_time_expr t)"
      by (elim disjE) (simp_all add: t build_time_expr_def json_quote_clean numeric_trim time_cond_def js_lit)
  qed
qed

lemma editable_ph_printed:
  assumes "editable (ParamHeaderCondition c)"
  shows "printed (ParamHeaderCondition c) (buildRequestConditionExpr (ParamHeaderCondition c))"
proof -
  have build: "buildRequestConditionExpr (ParamHeaderCondition c) = build_ph_expr c"
    using assms unfolding buildRequestConditionExpr_def
    by (subst normalize_ph) (auto split: if_splits)
  obtain src path mode v where c: "c = \<lparr>ph_source = src, ph_path = path, ph_mode = mode, ph_value = v\<rparr>"
    by (cases c) auto
  have src: "SOURCE_PARAM \<noteq> SOURCE_HEADER" by (simp add: source_defs js_lit)
  have ok: "clean path" "trimmed path" "path \<noteq> []" "clean v" "trimmed v"
    and kind: "src = SOURCE_HEADER \<and> mode = MATCH_EQ \<or> src = SOURCE_HEADER \<and> mode = MATCH_CONTAINS \<or>
      src = SOURCE_HEADER \<and> mode = MATCH_EXISTS \<and> v = [] \<or>
      src = SOURCE_PARAM \<and> mode = MATCH_EQ \<or> src = SOURCE_PARAM \<and> mode = MATCH_EXISTS \<and> v = []"
    using assms c by (auto split: if_splits)
  have lit: "buildExprLiteral MATCH_CONTAINS v = 34 # v @ [34]"
    using ok by (simp add: buildExprLiteral_def trim_trimmed json_quote_clean)
  note simps = c build_ph_expr_def trim_trimmed json_quote_clean ph_cond_def lit
  from kind show ?thesis unfolding build
    using ok match_distinct src printed_header_eq [of path v] printed_contains [of path v]
      printed_header_exists [of path] printed_param_eq [of path v] printed_param_exists [of path]
    by (elim disjE conjE) (simp_all add: simps js_lit)
qed

lemma editable_printed: "editable c \<Longrightarrow> printed c (buildRequestConditionExpr c)"
  by (cases c) (simp_all only: editable_time_printed editable_ph_printed)

subsection \<open>Factors and rules\<close>

lemma factor_later:
  assumes "is_numeric_literal m" and "0 < i"
  shows "rx_run (RSeq (RLit [32, 63, 32]) b) (rx_at p (drop i (32 # 63 # 32 # m @ [32, 58, 32, 49, 41])) k) = []"
proof -
  have "63 \<notin> set m" using numeric_units [OF assms(1)] by (auto simp: list_all_iff num_unit_def is_digit_def)
  then have no: "63 \<notin> set (drop j (32 # m @ [32, 58, 32, 49, 41]))" for j
    using set_drop_subset [of j "32 # m @ [32, 58, 32, 49, 41]"] by auto
  have "\<not> starts_with (drop i (32 # 63 # 32 # m @ [32, 58, 32, 49, 41])) [32, 63, 32]"
  proof (cases "i = 1")
    case False
    then obtain j where i: "i = Suc (Suc j)" using assms(2) by (metis One_nat_def Suc_pred neq0_conv)
    show ?thesis
    proof
      assume "starts_with (drop i (32 # 63 # 32 # m @ [32, 58, 32, 49, 41])) [32, 63, 32]"
      from starts_with_split [OF this] no [of j] show False
        by (metis UnI1 drop_Suc_Cons i list.set_intros set_append)
    qed
  qed simp
  then show ?thesis by (simp add: run_lit_def)
qed

lemma factor_match:
  assumes "body \<noteq> []" and "is_numeric_literal m"
  shows "\<exists>f. rx_match rx_factor (40 # body @ 32 # 63 # 32 # m @ [32, 58, 32, 49, 41]) = Some f \<and>
     cap f 1 = body \<and> cap f 2 = m"
proof -
  let ?u = "32 # 63 # 32 # m @ [32, 58, 32, 49, 41]"
  let ?b = "RSeq (RLit [32, 63, 32]) (RSeq (RGroup 2 rx_number) (RSeq (RLit [32, 58, 32, 49, 41]) REnd))"
  have here: "rx_run ?b (rx_at (Some (last body)) ?u [(1, body)]) = [rx_at (Some 41) [] [(2, m), (1, body)]]"
    using assms by (simp add: rx_run_text del: rx_run.simps)
  obtain ys where "rx_run (RSeq (RGroup 1 (rx_plus (RSat any_unit))) ?b) (rx_at (Some 40) (body @ ?u) []) =
      rx_at (Some 41) [] [(2, m), (1, body)] # ys"
    using seq_greedy [of any_unit body ?u ?b 1 "[]", OF _ assms(1) factor_later [OF assms(2)] here]
    by (auto simp: any_unit_def list_all_iff simp del: rx_run.simps)
  then have "rx_run rx_factor (rx_at None (40 # body @ ?u) []) = rx_at (Some 41) [] [(2, m), (1, body)] # ys"
    by (simp add: rx_factor_def js_lit seq_lit del: rx_run.simps)
  then show ?thesis by (simp add: rx_match_run cap_def)
qed

lemma balanced_join:
  "no_paren sep \<Longrightarrow> \<forall>p \<in> set ps. balanced 0 p \<Longrightarrow> balanced 0 (js_join sep ps)"
proof (induction sep ps rule: js_join.induct)
  case (3 sep x y ys)
  then show ?case
    using balanced_append [of 0 x 0 "sep @ js_join sep (y # ys)"] balanced_plain [of sep 0] by simp
qed simp_all

subsection \<open>Normalization of conditions\<close>

definition offered :: "request_condition \<Rightarrow> bool" where
  "offered c \<longleftrightarrow> (case c of
     TimeCondition t \<Rightarrow> tm_func t \<in> set TIME_FUNCS \<and> tm_timezone t \<noteq> [] \<and>
       tm_mode t \<in> opt_value ` set (getRequestRuleMatchOptions SOURCE_TIME)
   | ParamHeaderCondition p \<Rightarrow> ph_source p \<in> {SOURCE_PARAM, SOURCE_HEADER} \<and>
       ph_mode p \<in> opt_value ` set (getRequestRuleMatchOptions (ph_source p)))"

lemma pick_mode_offered:
  "d \<in> opt_value ` set (getRequestRuleMatchOptions s) \<Longrightarrow>
     pick_mode s m d \<in> opt_value ` set (getRequestRuleMatchOptions s)"
  by (auto simp: pick_mode_def or_empty_def split: option.splits)

lemma pick_mode_keeps:
  "m \<in> opt_value ` set (getRequestRuleMatchOptions s) \<Longrightarrow> pick_mode s (Some m) d = m"
  by (auto simp: pick_mode_def or_empty_def)

lemma default_modes:
  "MATCH_GTE \<in> opt_value ` set (getRequestRuleMatchOptions SOURCE_TIME)"
  "MATCH_EQ \<in> opt_value ` set (getRequestRuleMatchOptions SOURCE_HEADER)"
  "MATCH_EQ \<in> opt_value ` set (getRequestRuleMatchOptions SOURCE_PARAM)"
  by (simp_all add: getRequestRuleMatchOptions_def mk_option_def source_defs js_lit)

lemma source_distinct: "distinct [SOURCE_PARAM, SOURCE_HEADER, SOURCE_TIME]"
  by (simp add: source_defs js_lit)

lemma normalize_offered: "offered (normalizeCondition arg)"
proof -
  have "js ''hour'' \<in> set TIME_FUNCS" by (simp add: TIME_FUNCS_def)
  then show ?thesis
    using source_distinct
    by (simp add: offered_def normalizeCondition_def Let_def isTimeFunc_def or_empty_def
        pick_mode_offered default_modes split: option.splits)
qed

lemma offered_fixpoint: "offered c \<Longrightarrow> normalizeCondition (Some (as_partial c)) = c"
  using source_distinct
  by (cases c) (auto simp: offered_def normalizeCondition_def Let_def isTimeFunc_def or_empty_def
      pick_mode_keeps text_or_empty_def)

text \<open>
  Whatever partial condition it is given (missing fields, unknown modes, no object at all),
  \<open>normalizeCondition\<close> returns one the editor offers (a known source, time function and a mode of
  the source's option list), and normalizing the result again changes nothing.
\<close>

theorem normalize_condition_canonical:
  "offered (normalizeCondition arg) \<and>
   normalizeCondition (Some (as_partial (normalizeCondition arg))) = normalizeCondition arg"
  using offered_fixpoint [OF normalize_offered] normalize_offered by simp

subsection \<open>Guarded conditions\<close>

text \<open>The conditions on a request parameter that the printer writes as two terms, \<open>param(p) != nil\<close> and the test
  itself, joined by \<open> && \<close>.\<close>

definition guarded :: "request_condition \<Rightarrow> bool" where
  "guarded c \<longleftrightarrow> (case c of TimeCondition t \<Rightarrow> False
     | ParamHeaderCondition p \<Rightarrow> ph_source p = SOURCE_PARAM \<and>
         ph_mode p \<in> {MATCH_CONTAINS, MATCH_GT, MATCH_GTE, MATCH_LT, MATCH_LTE})"

definition order_sign :: "jsstr \<Rightarrow> string" where
  "order_sign mode = (if mode = MATCH_GT then ''>'' else if mode = MATCH_GTE then ''>=''
     else if mode = MATCH_LT then ''<'' else ''<='')"

lemma order_text:
  assumes "clean path" "trimmed path" "path \<noteq> []" "is_numeric_literal v"
    and "mode \<in> {MATCH_GT, MATCH_GTE, MATCH_LT, MATCH_LTE}"
  shows "buildRequestConditionExpr (ph_cond SOURCE_PARAM path mode v) =
     js_join (js '' && '') [js ''param('' @ 34 # path @ 34 # js '') != nil'',
       js ''param('' @ 34 # path @ 34 # js '') '' @ js (order_sign mode) @ 32 # v]"
proof -
  have "normalizeCondition (Some (as_partial (ph_cond SOURCE_PARAM path mode v))) = ph_cond SOURCE_PARAM path mode v"
    unfolding ph_cond_def by (rule normalize_ph) (use assms(5) in auto)
  then show ?thesis
    using assms match_distinct source_distinct
    by (auto simp: buildRequestConditionExpr_def ph_cond_def build_ph_expr_def Let_def order_sign_def
        trim_trimmed json_quote_clean numeric_trim js_Cons js_Nil)
qed

lemma order_part_rejected:
  assumes "clean path" "path \<noteq> []" "is_numeric_literal v"
  shows "tryParseRequestCondition (js ''param('' @ 34 # path @ 34 # js '') '' @ js (order_sign mode) @ 32 # v) = Inr None"
  using assms
  by (simp add: order_sign_def tryParseRequestCondition_def tryParseTimeCondition_def parse_equals_def
      rx_run_text del: rx_run.simps)

definition guard_part :: "jsstr \<Rightarrow> jsstr" where
  "guard_part path = js ''param('' @ 34 # path @ 34 # js '') != nil''"

definition tested_part :: "jsstr \<Rightarrow> jsstr \<Rightarrow> jsstr \<Rightarrow> jsstr" where
  "tested_part path mode v =
     (if mode = MATCH_CONTAINS then js ''has(param('' @ 34 # path @ 34 # js ''), '' @ 34 # v @ 34 # js '')''
      else js ''param('' @ 34 # path @ 34 # js '') '' @ js (order_sign mode) @ 32 # v)"

definition guarded_text :: "jsstr \<Rightarrow> jsstr \<Rightarrow> jsstr \<Rightarrow> bool" where
  "guarded_text path mode v \<longleftrightarrow> clean path \<and> trimmed path \<and> path \<noteq> [] \<and> clean v \<and> trimmed v \<and>
     (mode = MATCH_CONTAINS \<or> mode \<in> {MATCH_GT, MATCH_GTE, MATCH_LT, MATCH_LTE} \<and> is_numeric_literal v)"

lemma contains_text:
  assumes "guarded_text path MATCH_CONTAINS v"
  shows "buildRequestConditionExpr (ph_cond SOURCE_PARAM path MATCH_CONTAINS v) =
     js_join (js '' && '') [guard_part path, tested_part path MATCH_CONTAINS v]"
proof -
  have "normalizeCondition (Some (as_partial (ph_cond SOURCE_PARAM path MATCH_CONTAINS v))) = ph_cond SOURCE_PARAM path MATCH_CONTAINS v"
    unfolding ph_cond_def by (rule normalize_ph) auto
  then show ?thesis
    using assms match_distinct source_distinct
    by (auto simp: buildRequestConditionExpr_def ph_cond_def build_ph_expr_def Let_def guard_part_def tested_part_def guarded_text_def
        buildExprLiteral_def trim_trimmed json_quote_clean js_Cons js_Nil)
qed

lemma guarded_printed:
  assumes "guarded_text path mode v"
  shows "buildRequestConditionExpr (ph_cond SOURCE_PARAM path mode v) =
     js_join (js '' && '') [guard_part path, tested_part path mode v]"
proof (cases "mode = MATCH_CONTAINS")
  case True
  then show ?thesis using contains_text assms by simp
next
  case False
  then show ?thesis using assms order_text [of path v mode] by (auto simp: guarded_text_def guard_part_def tested_part_def)
qed

lemma tested_part_rejected:
  assumes "guarded_text path mode v"
  shows "tryParseRequestCondition (tested_part path mode v) = Inr None"
proof (cases "mode = MATCH_CONTAINS")
  case True
  then show ?thesis using assms
    by (simp add: guarded_text_def tested_part_def tryParseRequestCondition_def tryParseTimeCondition_def parse_equals_def
        rx_run_text del: rx_run.simps)
next
  case False
  then show ?thesis using assms order_part_rejected by (auto simp: guarded_text_def tested_part_def)
qed

lemma tested_part_facts:
  assumes "guarded_text path mode v"
  shows "balanced 0 (tested_part path mode v) \<and> atomic_part (js '' && '') (tested_part path mode v) \<and>
    124 \<notin> set (tested_part path mode v)"
proof -
  let ?b = "tested_part path mode v"
  have c: "clean path" "clean v" "mode = MATCH_CONTAINS \<or> is_numeric_literal v" using assms by (auto simp: guarded_text_def)
  have "balanced 0 ?b \<and> 38 \<notin> set ?b \<and> trimmed ?b \<and> ?b \<noteq> [] \<and> 124 \<notin> set ?b"
  proof (cases "mode = MATCH_CONTAINS")
    case True
    then show ?thesis using c(1,2)
      by (simp add: tested_part_def printed_units balanced_walk js_lit trimmed_def is_ws_def del: balanced.simps(2))
  next
    case False
    then have "is_numeric_literal v" using c(3) by simp
    then show ?thesis using False c(1,2) numeric_last [of v] numeric_nonempty [of v]
      by (auto simp: tested_part_def order_sign_def printed_units balanced_walk js_lit trimmed_def is_ws_def
          simp del: balanced.simps(2))
  qed
  then show ?thesis using conjunction.top_free_plain [of 0 ?b] by (simp add: atomic_part_def js_Cons)
qed

lemma guard_part_facts:
  assumes "guarded_text path mode v"
  shows "printed (ph_cond SOURCE_PARAM path MATCH_EXISTS []) (guard_part path) \<and> 124 \<notin> set (guard_part path)"
proof -
  have p: "clean path" "path \<noteq> []" using assms by (auto simp: guarded_text_def)
  show ?thesis using printed_param_exists [OF p] clean_no_bar [OF p(1)] by (simp add: guard_part_def) (simp add: js_lit)
qed

subsection \<open>Groups as they are printed\<close>

definition printable :: "request_condition \<Rightarrow> bool" where
  "printable c \<longleftrightarrow> editable c \<or> (\<exists>path mode v. c = ph_cond SOURCE_PARAM path mode v \<and> guarded_text path mode v)"

definition printable_group :: "rule_group \<Rightarrow> bool" where
  "printable_group g \<longleftrightarrow> is_numeric_literal (group_multiplier g) \<and> group_conditions g \<noteq> [] \<and>
     list_all printable (group_conditions g)"

definition guarded_group :: "rule_group \<Rightarrow> bool" where
  "guarded_group g \<longleftrightarrow> list_ex guarded (group_conditions g)"

lemma editable_not_guarded: "editable c \<Longrightarrow> \<not> guarded c"
  using match_distinct source_distinct by (cases c) (auto simp: guarded_def split: if_splits)

lemma guarded_text_guarded: "guarded_text path mode v \<Longrightarrow> guarded (ph_cond SOURCE_PARAM path mode v)"
  by (auto simp: guarded_def guarded_text_def ph_cond_def)

definition joined_part :: "request_condition list \<Rightarrow> request_condition \<Rightarrow> jsstr" where
  "joined_part cs c =
     (let e = buildRequestConditionExpr c
      in if length cs \<noteq> 1 \<and> includes_str e (js '' || '') then 40 # e @ [41] else e)"

lemma joined_part_facts:
  assumes "editable c"
  shows "atomic_part (js '' && '') (joined_part cs c)" and "balanced 0 (joined_part cs c)"
    and "tryParseRequestCondition (joined_part cs c) = Inr (Some c)"
proof -
  note p = editable_printed [OF assms]
  show "atomic_part (js '' && '') (joined_part cs c)"
    using printed_atomic [OF p] conjunction.atomic_wrapped [OF printed_balanced [OF p]]
    by (simp add: joined_part_def Let_def)
  show "balanced 0 (joined_part cs c)"
    using printed_balanced [OF p] balanced_append [of 0 "buildRequestConditionExpr c" 1 "[41]"]
    by (simp add: joined_part_def Let_def next_depth_def)
  show "tryParseRequestCondition (joined_part cs c) = Inr (Some c)"
    using printed_parse [OF p] printed_wrapped_parse [OF p] by (simp add: joined_part_def Let_def)
qed

text \<open>The parts a printed condition is cut into.\<close>

definition condition_parts :: "request_condition list \<Rightarrow> request_condition \<Rightarrow> jsstr list" where
  "condition_parts cs c =
     (case c of
        ParamHeaderCondition p \<Rightarrow>
          if guarded c then [guard_part (ph_path p), tested_part (ph_path p) (ph_mode p) (ph_value p)] else [joined_part cs c]
      | _ \<Rightarrow> [joined_part cs c])"

lemma guarded_joined:
  assumes "guarded_text path mode v"
  shows "joined_part cs (ph_cond SOURCE_PARAM path mode v) = js_join (js '' && '') [guard_part path, tested_part path mode v]"
proof -
  have "124 \<notin> set (js_join (js '' && '') [guard_part path, tested_part path mode v])"
    using tested_part_facts [OF assms] guard_part_facts [OF assms] by (simp add: js_lit)
  then have "\<not> includes_str (js_join (js '' && '') [guard_part path, tested_part path mode v]) (js '' || '')"
    by (auto dest!: includes_units simp: js_lit)
  then show ?thesis unfolding joined_part_def guarded_printed [OF assms] by (simp add: Let_def)
qed

lemma condition_parts_facts:
  assumes "printable c"
  shows "joined_part cs c = js_join (js '' && '') (condition_parts cs c)" and "condition_parts cs c \<noteq> []"
    and "\<forall>p \<in> set (condition_parts cs c). atomic_part (js '' && '') p \<and> balanced 0 p"
    and "buildRequestConditionExpr c \<noteq> []"
    and "parse_all (\<lambda>ap. tryParseRequestCondition (trim ap)) (condition_parts cs c @ ps) =
      (if guarded c then Inr None
       else case parse_all (\<lambda>ap. tryParseRequestCondition (trim ap)) ps of
         Inl e \<Rightarrow> Inl e | Inr None \<Rightarrow> Inr None | Inr (Some xs) \<Rightarrow> Inr (Some (c # xs)))"
proof -
  consider (plain) "editable c" | (two) path mode v where "c = ph_cond SOURCE_PARAM path mode v" "guarded_text path mode v"
    using assms by (auto simp: printable_def)
  then have "joined_part cs c = js_join (js '' && '') (condition_parts cs c) \<and> condition_parts cs c \<noteq> [] \<and>
    (\<forall>p \<in> set (condition_parts cs c). atomic_part (js '' && '') p \<and> balanced 0 p) \<and> buildRequestConditionExpr c \<noteq> [] \<and>
    parse_all (\<lambda>ap. tryParseRequestCondition (trim ap)) (condition_parts cs c @ ps) =
      (if guarded c then Inr None
       else case parse_all (\<lambda>ap. tryParseRequestCondition (trim ap)) ps of
         Inl e \<Rightarrow> Inl e | Inr None \<Rightarrow> Inr None | Inr (Some xs) \<Rightarrow> Inr (Some (c # xs)))"
  proof cases
    case plain
    then have p: "condition_parts cs c = [joined_part cs c]"
      using editable_not_guarded [OF plain] by (cases c) (simp_all add: condition_parts_def)
    have "trim (joined_part cs c) = joined_part cs c"
      using joined_part_facts(1) [OF plain, of cs] by (simp add: atomic_part_def trim_trimmed)
    then show ?thesis using joined_part_facts [OF plain] editable_not_guarded [OF plain] printed_trimmed [OF editable_printed [OF plain]]
      by (simp add: p del: balanced.simps)
  next
    case two
    then have g: "guarded (ph_cond SOURCE_PARAM path mode v)" using guarded_text_guarded by blast
    then have p: "condition_parts cs (ph_cond SOURCE_PARAM path mode v) = [guard_part path, tested_part path mode v]"
      by (simp add: condition_parts_def ph_cond_def)
    note a = guard_part_facts [OF two(2), THEN conjunct1] and b = tested_part_facts [OF two(2)]
    have "trim (guard_part path) = guard_part path" "trim (tested_part path mode v) = tested_part path mode v"
      using printed_trimmed [OF a] b by (simp_all add: atomic_part_def trim_trimmed)
    then show ?thesis
      using g a b guarded_joined [OF two(2)] guarded_printed [OF two(2)] printed_atomic [OF a] printed_balanced [OF a]
        printed_parse [OF a] printed_trimmed [OF a] tested_part_rejected [OF two(2)] unfolding two(1)
      by (simp add: p del: balanced.simps)
  qed
  then show "joined_part cs c = js_join (js '' && '') (condition_parts cs c)" "condition_parts cs c \<noteq> []"
    "\<forall>p \<in> set (condition_parts cs c). atomic_part (js '' && '') p \<and> balanced 0 p" "buildRequestConditionExpr c \<noteq> []"
    "parse_all (\<lambda>ap. tryParseRequestCondition (trim ap)) (condition_parts cs c @ ps) =
      (if guarded c then Inr None
       else case parse_all (\<lambda>ap. tryParseRequestCondition (trim ap)) ps of
         Inl e \<Rightarrow> Inl e | Inr None \<Rightarrow> Inr None | Inr (Some xs) \<Rightarrow> Inr (Some (c # xs)))" by blast+
qed

lemma join_concat: "\<forall>ps \<in> set pss. ps \<noteq> [] \<Longrightarrow> js_join sep (map (js_join sep) pss) = js_join sep (concat pss)"
proof (induction pss)
  case (Cons ps pss)
  have split: "js_join sep (xs @ ys) = js_join sep xs @ sep @ js_join sep ys" if "xs \<noteq> []" "ys \<noteq> []" for xs ys
    using that by (induction sep xs rule: js_join.induct) (auto simp: js_join_Cons)
  show ?case
  proof (cases pss)
    case (Cons q qs)
    then have "concat pss \<noteq> []" using Cons.prems by simp
    then show ?thesis using Cons Cons.IH Cons.prems split [of ps "concat pss"] by (simp add: js_join_Cons)
  qed simp
qed simp

lemma case_single: "length xs \<noteq> 1 \<Longrightarrow> (case xs of [e] \<Rightarrow> f e | _ \<Rightarrow> r) = r"
  by (auto split: list.splits)

text \<open>The text between the parentheses, cut at its top level, and its conditions.\<close>

definition group_parts :: "rule_group \<Rightarrow> jsstr list" where
  "group_parts g = concat (map (condition_parts (group_conditions g)) (group_conditions g))"

lemma factor_text:
  assumes "printable_group g"
  shows "buildRuleGroupFactor g =
     40 # js_join (js '' && '') (group_parts g) @ 32 # 63 # 32 # group_multiplier g @ [32, 58, 32, 49, 41]"
proof -
  let ?cs = "group_conditions g"
  have pr: "\<forall>c \<in> set ?cs. printable c" using assms by (simp add: printable_group_def list_all_iff)
  have ne: "filter (\<lambda>e. e \<noteq> []) (map buildRequestConditionExpr ?cs) = map buildRequestConditionExpr ?cs"
    using pr condition_parts_facts(4) by (auto simp: filter_id_conv)
  have "(case map buildRequestConditionExpr ?cs of [e] \<Rightarrow> e
         | _ \<Rightarrow> js_join (js '' && '') (map (\<lambda>e. if includes_str e (js '' || '') then js ''('' @ e @ js '')'' else e)
             (map buildRequestConditionExpr ?cs))) = js_join (js '' && '') (map (joined_part ?cs) ?cs)"
  proof (cases "length ?cs = 1")
    case True
    then obtain c where "?cs = [c]" by (auto simp: length_Suc_conv)
    then show ?thesis by (simp add: joined_part_def)
  next
    case False
    then have "map (\<lambda>e. if includes_str e (js '' || '') then js ''('' @ e @ js '')'' else e)
        (map buildRequestConditionExpr ?cs) = map (joined_part ?cs) ?cs"
      by (simp add: joined_part_def Let_def js_Cons js_Nil)
    with False show ?thesis by (simp add: case_single del: map_map map_eq_conv)
  qed
  also have "map (joined_part ?cs) ?cs = map (js_join (js '' && '')) (map (condition_parts ?cs) ?cs)"
    using pr condition_parts_facts(1) by simp
  also have "js_join (js '' && '') \<dots> = js_join (js '' && '') (group_parts g)"
    unfolding group_parts_def using pr condition_parts_facts(2) by (intro join_concat) auto
  finally show ?thesis using assms ne
    by (simp add: buildRuleGroupFactor_def Let_def printable_group_def numeric_trim js_Cons js_Nil)
qed

lemma group_parts_facts:
  assumes "printable_group g"
  shows "\<forall>p \<in> set (group_parts g). atomic_part (js '' && '') p \<and> balanced 0 p" and "group_parts g \<noteq> []"
proof -
  have pr: "\<forall>c \<in> set (group_conditions g). printable c" "group_conditions g \<noteq> []"
    using assms by (simp_all add: printable_group_def list_all_iff)
  show "\<forall>p \<in> set (group_parts g). atomic_part (js '' && '') p \<and> balanced 0 p"
    using pr(1) condition_parts_facts(3) unfolding group_parts_def by (auto simp del: balanced.simps)
  show "group_parts g \<noteq> []" using pr condition_parts_facts(2) by (cases "group_conditions g") (auto simp: group_parts_def)
qed

lemma parse_conditions:
  "\<forall>c \<in> set cs. printable c \<Longrightarrow>
   parse_all (\<lambda>ap. tryParseRequestCondition (trim ap)) (concat (map (condition_parts ds) cs)) =
     Inr (if list_ex guarded cs then None else Some cs)"
  by (induction cs) (auto simp: condition_parts_facts(5))

lemma factor_shape_atomic:
  assumes "balanced 0 body" and "is_numeric_literal m"
  shows "atomic_part (js '' * '') (40 # body @ 32 # 63 # 32 # m @ [32, 58, 32, 49, 41])"
proof -
  have "balanced 0 (32 # 63 # 32 # m @ [32, 58, 32, 49])"
    using clean_no_paren [OF numeric_clean [OF assms(2)]] by (intro balanced_no_paren) auto
  then have "balanced 0 (body @ 32 # 63 # 32 # m @ [32, 58, 32, 49])"
    using balanced_append [OF assms(1), of 0] by simp
  from multiply.atomic_wrapped [OF this] show ?thesis by simp
qed

lemma factor_atomic:
  assumes "printable_group g"
  shows "atomic_part (js '' * '') (buildRuleGroupFactor g)"
proof -
  have "balanced 0 (js_join (js '' && '') (group_parts g))"
    using group_parts_facts(1) [OF assms] by (intro balanced_join) (auto simp: js_lit)
  then show ?thesis using factor_shape_atomic assms by (simp add: factor_text printable_group_def)
qed

text \<open>A printed group is read back exactly, or not at all if one of its conditions is guarded.\<close>

lemma factor_parse:
  assumes "printable_group g"
  shows "tryParseRuleGroupFactor (buildRuleGroupFactor g) = Inr (if guarded_group g then None else Some g)"
proof -
  let ?body = "js_join (js '' && '') (group_parts g)"
  have num: "is_numeric_literal (group_multiplier g)" and cs: "group_conditions g \<noteq> []"
    and pr: "\<forall>c \<in> set (group_conditions g). printable c"
    using assms by (auto simp: printable_group_def list_all_iff)
  have parts: "splitTopLevelAnd ?body = group_parts g"
    using group_parts_facts(1) [OF assms] by (intro conjunction.split_join) auto
  then have "?body \<noteq> []" using group_parts_facts(2) [OF assms] by (auto simp: splitTopLevelAnd_def)
  then obtain f where f: "rx_match rx_factor (buildRuleGroupFactor g) = Some f" "cap f 1 = ?body"
      "cap f 2 = group_multiplier g"
    using factor_match [OF _ num] factor_text [OF assms] by metis
  then show ?thesis
    using parts cs parse_conditions [OF pr, of "group_conditions g"]
    by (simp add: tryParseRuleGroupFactor_def guarded_group_def group_parts_def)
qed

lemma trimmed_join:
  "\<forall>p \<in> set ps. p \<noteq> [] \<and> trimmed p \<Longrightarrow> trimmed (js_join sep ps) \<and> (ps \<noteq> [] \<longrightarrow> js_join sep ps \<noteq> [])"
proof (induction sep ps rule: js_join.induct)
  case (3 sep x y ys)
  then have "trimmed (js_join sep (y # ys))" "js_join sep (y # ys) \<noteq> []" "x \<noteq> []" "trimmed x" by auto
  then show ?case by (simp add: trimmed_def last_append)
qed (auto simp: trimmed_def)

lemma rules_text:
  assumes "\<forall>g \<in> set gs. printable_group g"
  shows "buildRequestRuleExpr gs = js_join (js '' * '') (map buildRuleGroupFactor gs)"
    and "trim (buildRequestRuleExpr gs) = buildRequestRuleExpr gs"
    and "splitTopLevelMultiply (buildRequestRuleExpr gs) = map buildRuleGroupFactor gs"
    and "buildRequestRuleExpr gs = [] \<longleftrightarrow> gs = []"
proof -
  have atomic: "\<forall>p \<in> set (map buildRuleGroupFactor gs). atomic_part (js '' * '') p"
    using assms factor_atomic by auto
  then show joined: "buildRequestRuleExpr gs = js_join (js '' * '') (map buildRuleGroupFactor gs)"
    by (simp add: buildRequestRuleExpr_def atomic_part_def filter_id_conv [THEN iffD2])
  from atomic have "\<forall>p \<in> set (map buildRuleGroupFactor gs). p \<noteq> [] \<and> trimmed p"
    by (simp add: atomic_part_def)
  from trimmed_join [OF this, of "js '' * ''"]
  show "trim (buildRequestRuleExpr gs) = buildRequestRuleExpr gs" and "buildRequestRuleExpr gs = [] \<longleftrightarrow> gs = []"
    unfolding joined by (auto simp: trim_trimmed)
  show "splitTopLevelMultiply (buildRequestRuleExpr gs) = map buildRuleGroupFactor gs"
    unfolding joined by (rule multiply.split_join [OF atomic])
qed

lemma groups_parsed:
  "\<forall>g \<in> set gs. printable_group g \<Longrightarrow>
   parse_all tryParseRuleGroupFactor (map buildRuleGroupFactor gs) = Inr (if list_ex guarded_group gs then None else Some gs)"
  by (induction gs) (auto simp: factor_parse)

lemma rules_parse:
  assumes "\<forall>g \<in> set gs. printable_group g"
  shows "tryParseRequestRuleExpr (buildRequestRuleExpr gs) = Inr (if list_ex guarded_group gs then None else Some gs)"
  using rules_text [OF assms] groups_parsed [OF assms] by (auto simp: tryParseRequestRuleExpr_def)

subsection \<open>What the printer keeps\<close>

text \<open>The printer normalizes and trims a condition, and leaves out one without a path or without a number where
  one is needed; it leaves out a group without a number or without conditions.\<close>

definition kept_time :: "time_condition \<Rightarrow> time_condition option" where
  "kept_time t =
     (if tm_mode t = MATCH_RANGE
      then if is_numeric_literal (trim (tm_rangeStart t)) \<and> is_numeric_literal (trim (tm_rangeEnd t))
           then Some (t\<lparr>tm_value := [], tm_rangeStart := trim (tm_rangeStart t), tm_rangeEnd := trim (tm_rangeEnd t)\<rparr>) else None
      else if is_numeric_literal (trim (tm_value t))
      then Some (t\<lparr>tm_value := trim (tm_value t), tm_rangeStart := [], tm_rangeEnd := []\<rparr>) else None)"

definition kept_ph :: "ph_condition \<Rightarrow> ph_condition option" where
  "kept_ph p =
     (if trim (ph_path p) = [] then None
      else if ph_mode p = MATCH_EXISTS then Some (p\<lparr>ph_path := trim (ph_path p), ph_value := []\<rparr>)
      else if ph_mode p \<in> {MATCH_EQ, MATCH_CONTAINS} \<or> is_numeric_literal (trim (ph_value p))
      then Some (p\<lparr>ph_path := trim (ph_path p), ph_value := trim (ph_value p)\<rparr>) else None)"

definition kept_condition :: "request_condition \<Rightarrow> request_condition option" where
  "kept_condition c =
     (case normalizeCondition (Some (as_partial c)) of
        TimeCondition t \<Rightarrow> map_option TimeCondition (kept_time t)
      | ParamHeaderCondition p \<Rightarrow> map_option ParamHeaderCondition (kept_ph p))"

definition kept_group :: "rule_group \<Rightarrow> rule_group option" where
  "kept_group g =
     (let cs = List.map_filter kept_condition (group_conditions g) in
      if is_numeric_literal (trim (group_multiplier g)) \<and> cs \<noteq> []
      then Some \<lparr>group_conditions = cs, group_multiplier = trim (group_multiplier g)\<rparr> else None)"

definition kept_groups :: "rule_group list \<Rightarrow> rule_group list" where
  "kept_groups gs = List.map_filter kept_group gs"

text \<open>Names, values and time zones without quotes, backslashes, parentheses, \<open>&\<close>, \<open>|\<close>, control characters and
  surrogates.\<close>

fun clean_condition :: "request_condition \<Rightarrow> bool" where
  "clean_condition (TimeCondition t) = clean (tm_timezone t)"
| "clean_condition (ParamHeaderCondition p) = (ph_source p \<noteq> SOURCE_TIME \<and> clean (ph_path p) \<and> clean (ph_value p))"

definition clean_group :: "rule_group \<Rightarrow> bool" where
  "clean_group g \<longleftrightarrow> list_all clean_condition (group_conditions g)"

lemma clean_trim: "clean s \<Longrightarrow> clean (trim s) \<and> trimmed (trim s)"
  using set_trim [of s] trimmed_trim [of s] by (auto simp: clean_def list_all_iff)

lemma kept_time_printed:
  "build_time_expr t = (case kept_time t of None \<Rightarrow> [] | Some t' \<Rightarrow> build_time_expr t')"
  using numeric_trim by (auto simp: kept_time_def build_time_expr_def Let_def)

lemma kept_ph_printed:
  assumes "ph_mode p \<in> {MATCH_EQ, MATCH_CONTAINS, MATCH_EXISTS, MATCH_GT, MATCH_GTE, MATCH_LT, MATCH_LTE}"
  shows "build_ph_expr p = (case kept_ph p of None \<Rightarrow> [] | Some p' \<Rightarrow> build_ph_expr p')"
  using assms match_distinct
  by (auto simp: kept_ph_def build_ph_expr_def buildExprLiteral_def Let_def trim_idem)

lemma offered_modes:
  "offered (ParamHeaderCondition p) \<Longrightarrow>
     ph_source p \<in> {SOURCE_PARAM, SOURCE_HEADER} \<and>
     ph_mode p \<in> {MATCH_EQ, MATCH_CONTAINS, MATCH_EXISTS, MATCH_GT, MATCH_GTE, MATCH_LT, MATCH_LTE} \<and>
     (ph_source p = SOURCE_HEADER \<longrightarrow> ph_mode p \<in> {MATCH_EQ, MATCH_CONTAINS, MATCH_EXISTS})"
  "offered (TimeCondition t) \<Longrightarrow> tm_func t \<in> set TIME_FUNCS \<and> tm_timezone t \<noteq> [] \<and>
     tm_mode t \<in> {MATCH_EQ, MATCH_GTE, MATCH_LT, MATCH_RANGE}"
  using source_distinct
  by (auto simp: offered_def getRequestRuleMatchOptions_def mk_option_def)

lemma kept_offered:
  "offered (TimeCondition t) \<Longrightarrow> kept_time t = Some t' \<Longrightarrow> offered (TimeCondition t')"
  "offered (ParamHeaderCondition p) \<Longrightarrow> kept_ph p = Some p' \<Longrightarrow> offered (ParamHeaderCondition p')"
  by (auto simp: offered_def kept_time_def kept_ph_def split: if_splits)

lemma build_offered:
  "offered c \<Longrightarrow> buildRequestConditionExpr c = (case c of TimeCondition t \<Rightarrow> build_time_expr t | ParamHeaderCondition p \<Rightarrow> build_ph_expr p)"
  by (simp add: buildRequestConditionExpr_def offered_fixpoint)

lemma kept_condition_printed:
  "buildRequestConditionExpr c = (case kept_condition c of None \<Rightarrow> [] | Some c' \<Rightarrow> buildRequestConditionExpr c')"
proof (cases "normalizeCondition (Some (as_partial c))")
  case (TimeCondition t)
  then have o: "offered (TimeCondition t)" using normalize_offered by metis
  show ?thesis using kept_time_printed [of t] kept_offered(1) [OF o] build_offered
    by (auto simp: kept_condition_def TimeCondition buildRequestConditionExpr_def [of c] split: option.split)
next
  case (ParamHeaderCondition p)
  then have o: "offered (ParamHeaderCondition p)" using normalize_offered by metis
  show ?thesis using kept_ph_printed [of p] offered_modes(1) [OF o] kept_offered(2) [OF o] build_offered
    by (auto simp: kept_condition_def ParamHeaderCondition buildRequestConditionExpr_def [of c] split: option.split)
qed

lemma clean_normalized:
  assumes "clean_condition c"
  shows "clean_condition (normalizeCondition (Some (as_partial c)))"
proof -
  have "clean (js ''Asia/Shanghai'')" by code_simp
  then show ?thesis using assms source_distinct
    by (cases c) (auto simp: normalizeCondition_def Let_def or_empty_def text_or_empty_def)
qed

lemma kept_condition_printable:
  assumes "clean_condition c" and "kept_condition c = Some c'"
  shows "printable c'"
proof (cases "normalizeCondition (Some (as_partial c))")
  case (TimeCondition t)
  then have o: "offered (TimeCondition t)" "clean (tm_timezone t)"
    using normalize_offered clean_normalized [OF assms(1)] by (metis, simp)
  obtain t' where t': "kept_time t = Some t'" "c' = TimeCondition t'" using assms(2) TimeCondition by (auto simp: kept_condition_def)
  then have "editable c'" using o(2) offered_modes(2) [OF o(1)] match_distinct by (auto simp: kept_time_def split: if_splits)
  then show ?thesis by (simp add: printable_def)
next
  case (ParamHeaderCondition p)
  then have o: "offered (ParamHeaderCondition p)" "clean (ph_path p)" "clean (ph_value p)"
    using normalize_offered clean_normalized [OF assms(1)] by (metis, simp_all)
  obtain p' where p': "kept_ph p = Some p'" "c' = ParamHeaderCondition p'"
    using assms(2) ParamHeaderCondition by (auto simp: kept_condition_def)
  note texts = clean_trim [OF o(2)] clean_trim [OF o(3)]
  show ?thesis
  proof (cases "guarded c'")
    case False
    have "ph_source p' = ph_source p" "ph_mode p' = ph_mode p" "ph_path p' = trim (ph_path p)" "ph_path p' \<noteq> []"
      "clean (ph_value p') \<and> trimmed (ph_value p')" "ph_mode p' = MATCH_EXISTS \<Longrightarrow> ph_value p' = []"
      using p'(1) texts by (auto simp: kept_ph_def trimmed_def split: if_splits)
    moreover have "ph_source p = SOURCE_HEADER \<and> ph_mode p \<in> {MATCH_EQ, MATCH_CONTAINS, MATCH_EXISTS} \<or>
        ph_source p = SOURCE_PARAM \<and> ph_mode p \<in> {MATCH_EQ, MATCH_EXISTS}"
      using False offered_modes(1) [OF o(1)] calculation(1,2) p'(2) unfolding guarded_def by auto
    ultimately have "editable c'" using p'(2) texts(1) source_distinct by auto
    then show ?thesis by (simp add: printable_def)
  next
    case True
    then have "guarded_text (trim (ph_path p)) (ph_mode p) (trim (ph_value p)) \<and>
        p' = p\<lparr>ph_path := trim (ph_path p), ph_value := trim (ph_value p)\<rparr>"
      using p' texts match_distinct unfolding guarded_text_def kept_ph_def guarded_def by (auto split: if_splits)
    then have "guarded_text (ph_path p') (ph_mode p') (ph_value p')" by auto
    moreover have "c' = ph_cond SOURCE_PARAM (ph_path p') (ph_mode p') (ph_value p')"
      using True p' by (simp add: guarded_def ph_cond_def)
    ultimately show ?thesis unfolding printable_def by blast
  qed
qed

lemma map_filter_kept:
  assumes "\<And>x. f x = (case k x of None \<Rightarrow> [] | Some y \<Rightarrow> f y)" and "\<And>x y. x \<in> set xs \<Longrightarrow> k x = Some y \<Longrightarrow> f y \<noteq> []"
  shows "filter (\<lambda>e. e \<noteq> []) (map f xs) = map f (List.map_filter k xs)"
  using assms(2)
proof (induction xs)
  case (Cons x xs)
  have ih: "filter (\<lambda>e. e \<noteq> []) (map f xs) = map f (List.map_filter k xs)"
    by (rule Cons.IH) (use Cons.prems in auto)
  show ?case
  proof (cases "k x")
    case None
    then have "f x = []" using assms(1) [of x] by simp
    with None ih show ?thesis by (simp add: map_filter_simps)
  next
    case (Some y)
    then have "f x = f y" using assms(1) [of x] by simp
    moreover have "f y \<noteq> []" by (rule Cons.prems [OF _ Some]) simp
    ultimately show ?thesis using Some ih by (simp add: map_filter_simps)
  qed
qed (simp add: map_filter_simps)

lemma in_map_filter: "y \<in> set (List.map_filter k xs) \<longleftrightarrow> (\<exists>x \<in> set xs. k x = Some y)"
  by (induction xs) (auto simp: map_filter_simps split: option.splits)

lemma conditions_kept:
  assumes "clean_group g"
  shows "\<forall>c \<in> set (List.map_filter kept_condition (group_conditions g)). printable c"
    and "filter (\<lambda>e. e \<noteq> []) (map buildRequestConditionExpr (group_conditions g)) =
      map buildRequestConditionExpr (List.map_filter kept_condition (group_conditions g))"
proof -
  have p: "printable c'" if "c \<in> set (group_conditions g)" "kept_condition c = Some c'" for c c'
    using kept_condition_printable [OF _ that(2)] assms that(1) by (simp add: clean_group_def list_all_iff)
  then show "\<forall>c \<in> set (List.map_filter kept_condition (group_conditions g)). printable c" by (auto simp: in_map_filter)
  show "filter (\<lambda>e. e \<noteq> []) (map buildRequestConditionExpr (group_conditions g)) =
      map buildRequestConditionExpr (List.map_filter kept_condition (group_conditions g))"
    using p condition_parts_facts(4) by (intro map_filter_kept kept_condition_printed) blast
qed

text \<open>A printed group as a function of its printed conditions and its multiplier.\<close>

definition factor_of :: "jsstr list \<Rightarrow> jsstr \<Rightarrow> jsstr" where
  "factor_of es m =
     (if \<not> is_numeric_literal m \<or> es = [] then []
      else js ''('' @ (case es of [e] \<Rightarrow> e
        | _ \<Rightarrow> js_join (js '' && '') (map (\<lambda>e. if includes_str e (js '' || '') then js ''('' @ e @ js '')'' else e) es)) @
        js '' ? '' @ m @ js '' : 1)'')"

lemma factor_of_group:
  "buildRuleGroupFactor g =
     factor_of (filter (\<lambda>e. e \<noteq> []) (map buildRequestConditionExpr (group_conditions g))) (trim (group_multiplier g))"
  by (simp add: buildRuleGroupFactor_def factor_of_def Let_def)

lemma kept_group_printed:
  assumes "clean_group g"
  shows "buildRuleGroupFactor g = (case kept_group g of None \<Rightarrow> [] | Some g' \<Rightarrow> buildRuleGroupFactor g')"
    and "kept_group g = Some g' \<Longrightarrow> printable_group g'"
proof -
  let ?cs = "List.map_filter kept_condition (group_conditions g)"
  have "filter (\<lambda>e. e \<noteq> []) (map buildRequestConditionExpr ?cs) = map buildRequestConditionExpr ?cs"
    using conditions_kept(1) [OF assms] condition_parts_facts(4) by (auto simp: filter_id_conv)
  then show "buildRuleGroupFactor g = (case kept_group g of None \<Rightarrow> [] | Some g' \<Rightarrow> buildRuleGroupFactor g')"
    unfolding factor_of_group conditions_kept(2) [OF assms] kept_group_def Let_def
    by (simp add: trim_idem) (auto simp: factor_of_def)
  show "kept_group g = Some g' \<Longrightarrow> printable_group g'"
    using conditions_kept(1) [OF assms] by (auto simp: kept_group_def Let_def printable_group_def list_all_iff split: if_splits)
qed

lemma kept_groups_printed:
  assumes "\<forall>g \<in> set gs. clean_group g"
  shows "buildRequestRuleExpr gs = buildRequestRuleExpr (kept_groups gs)" and "\<forall>g \<in> set (kept_groups gs). printable_group g"
proof -
  have k: "printable_group g'" if "g \<in> set gs" "kept_group g = Some g'" for g g'
    using kept_group_printed(2) [of g g'] assms that by simp
  show p: "\<forall>g \<in> set (kept_groups gs). printable_group g"
    using k unfolding kept_groups_def by (auto simp: in_map_filter)
  have "filter (\<lambda>e. e \<noteq> []) (map buildRuleGroupFactor gs) = map buildRuleGroupFactor (kept_groups gs)"
    using assms
  proof (induction gs)
    case (Cons g gs)
    have "kept_group g = Some g' \<Longrightarrow> buildRuleGroupFactor g' \<noteq> []" for g'
      using kept_group_printed(2) [of g g'] factor_atomic [of g'] Cons.prems by (simp add: atomic_part_def)
    then show ?case using Cons kept_group_printed(1) [of g] by (simp add: kept_groups_def map_filter_simps split: option.split)
  qed (simp add: kept_groups_def map_filter_simps)
  moreover have "filter (\<lambda>e. e \<noteq> []) (map buildRuleGroupFactor (kept_groups gs)) = map buildRuleGroupFactor (kept_groups gs)"
    using p factor_atomic by (auto simp: filter_id_conv atomic_part_def)
  ultimately show "buildRequestRuleExpr gs = buildRequestRuleExpr (kept_groups gs)" by (simp add: buildRequestRuleExpr_def)
qed

text \<open>
  C5. Which rules are read back. For every list of rule groups the editor can hold, with any source, function, mode,
  number or none, whose names, values and time zones contain no quote, backslash, parenthesis, ampersand, bar, control
  character or surrogate: if a condition that is printed tests whether a request parameter contains a text or is greater or
  less than a number, the printed text is refused as a whole; otherwise parsing it returns exactly the groups that were printed,
  normalized and trimmed, in order. Nothing is thrown in either case.
\<close>

theorem rule_expr_roundtrip:
  assumes "\<forall>g \<in> set gs. clean_group g"
  shows "tryParseRequestRuleExpr (buildRequestRuleExpr gs) =
    Inr (if \<exists>g \<in> set (kept_groups gs). guarded_group g then None else Some (kept_groups gs))"
  using rules_parse [OF kept_groups_printed(2) [OF assms]] by (simp add: kept_groups_printed(1) [OF assms] list_ex_iff)

definition demo_group :: rule_group where
  "demo_group =
     \<lparr>group_conditions =
        [time_cond (js ''hour'') (js ''Asia/Shanghai'') MATCH_RANGE [] (js ''22'') (js ''6''),
         ph_cond SOURCE_HEADER (js ''x-beta'') MATCH_CONTAINS (js ''fast mode''),
         ph_cond SOURCE_PARAM (js ''stream'') MATCH_EQ (js ''true'')],
      group_multiplier = js ''1.5''\<rparr>"

definition guarded_demo :: rule_group where
  "guarded_demo =
     \<lparr>group_conditions = [ph_cond SOURCE_PARAM (js ''max_tokens'') MATCH_GT (js ''4096'')], group_multiplier = js ''2''\<rparr>"

lemma demo_facts:
  "clean_group demo_group" "kept_group demo_group = Some demo_group" "\<not> guarded_group demo_group"
  "clean_group guarded_demo" "kept_group guarded_demo = Some guarded_demo" "guarded_group guarded_demo"
  by code_simp+

theorem rule_expr_roundtrip_witness:
  "tryParseRequestRuleExpr (buildRequestRuleExpr [demo_group, demo_group]) = Inr (Some [demo_group, demo_group]) \<and>
   tryParseRequestRuleExpr (buildRequestRuleExpr [demo_group, guarded_demo]) = Inr None"
  using rule_expr_roundtrip [of "[demo_group, demo_group]"] rule_expr_roundtrip [of "[demo_group, guarded_demo]"] demo_facts
  by (simp add: kept_groups_def map_filter_simps)

subsection \<open>Base expression and rules\<close>

lemma single_factor_parse:
  assumes "printable_group g"
  shows "tryParseRequestRuleExpr (buildRuleGroupFactor g) = Inr (if guarded_group g then None else Some [g])"
proof -
  have "buildRequestRuleExpr [g] = buildRuleGroupFactor g" using rules_text(1) [of "[g]"] assms by simp
  with rules_parse [of "[g]"] assms show ?thesis by simp
qed

lemma classify_rules:
  assumes "\<forall>g \<in> set gs. printable_group g"
  shows "classify_parts (map buildRuleGroupFactor gs) =
    Inr (map buildRuleGroupFactor (filter (\<lambda>g. \<not> guarded_group g) gs), map buildRuleGroupFactor (filter guarded_group gs))"
  using assms by (induction gs) (simp_all add: single_factor_parse)

lemma outer_scan_inside:
  "balanced d s \<Longrightarrow> 0 \<le> d \<Longrightarrow> outer_scan (d + 1) (s @ [41])"
proof (induction s arbitrary: d)
  case (Cons c s)
  have "next_depth c (d + 1) = next_depth c d + 1" by (simp add: next_depth_def)
  with Cons show ?case by simp
qed (simp add: next_depth_def)

lemma unwrap_wrapped:
  assumes "balanced 0 base" "trimmed base" "\<not> hasFullOuterParens base"
  shows "unwrapOuterParens (40 # base @ [41]) = base"
proof -
  have "outer_scan 1 (base @ [41])" using outer_scan_inside [OF assms(1)] by simp
  then have "hasFullOuterParens (40 # base @ [41])"
    by (simp add: hasFullOuterParens_def ends_with_def next_depth_def js_lit)
  moreover have "slice_inner (40 # base @ [41]) = base" by (simp add: slice_inner_def)
  moreover have "trim (40 # base @ [41]) = 40 # base @ [41]"
    by (rule trim_trimmed) (simp add: trimmed_def is_ws_def)
  ultimately show ?thesis
    using assms by (simp add: unwrapOuterParens_def unwrap_loop.simps [of "40 # base @ [41]"]
        unwrap_loop.simps [of base] trim_trimmed)
qed

text \<open>A base expression that the separation cannot mistake for a rule.\<close>

definition plain_base :: "jsstr \<Rightarrow> bool" where
  "plain_base base \<longleftrightarrow> base \<noteq> [] \<and> trimmed base \<and> balanced 0 base \<and> \<not> hasFullOuterParens base \<and>
     rx_match rx_factor (40 # base @ [41]) = None"

lemma base_not_rule:
  assumes "plain_base base"
  shows "tryParseRequestRuleExpr (40 # base @ [41]) = Inr None"
proof -
  have "trim (40 # base @ [41]) = 40 # base @ [41]"
    by (rule trim_trimmed) (simp add: trimmed_def is_ws_def)
  moreover have "splitTopLevelMultiply (40 # base @ [41]) = [40 # base @ [41]]"
    using multiply.split_join [of "[40 # base @ [41]]"] multiply.atomic_wrapped assms
    by (simp add: plain_base_def)
  ultimately show ?thesis
    using assms by (simp add: tryParseRequestRuleExpr_def tryParseRuleGroupFactor_def plain_base_def)
qed

text \<open>
  C9. Joining a base expression with request rules, and taking it apart. For every base that is trimmed, balanced, not
  wholly wrapped in parentheses and, in parentheses, not written like a rule, and every list of groups with texts as before of
  which at least one is printed: if no printed group has a condition that tests whether a parameter contains a text or is
  greater or less than a number, taking the joined expression apart returns the base and the printed rules; otherwise it is not
  taken apart, and the whole expression is returned as the base, with no rules.
\<close>

theorem combine_split_roundtrip:
  assumes "plain_base base" and "\<forall>g \<in> set gs. clean_group g" and "kept_groups gs \<noteq> []"
  shows "let rules = buildRequestRuleExpr gs; whole = combineBillingExpr base rules in
    splitBillingExprAndRequestRules whole =
      Inr (if \<exists>g \<in> set (kept_groups gs). guarded_group g then \<lparr>billingExpr = whole, requestRuleExpr = []\<rparr>
           else \<lparr>billingExpr = base, requestRuleExpr = rules\<rparr>)"
proof -
  let ?gs = "kept_groups gs"
  note pr = kept_groups_printed [OF assms(2)]
  note rules = rules_text [OF pr(2)]
  let ?parts = "(40 # base @ [41]) # map buildRuleGroupFactor ?gs"
  have joined: "combineBillingExpr base (buildRequestRuleExpr gs) = js_join (js '' * '') ?parts"
    using assms(1,3) rules
    by (simp add: pr(1) combineBillingExpr_def plain_base_def trim_trimmed js_join_Cons js_Cons js_Nil)
  have atomic: "\<forall>p \<in> set ?parts. atomic_part (js '' * '') p"
    using assms(1) pr(2) multiply.atomic_wrapped factor_atomic by (auto simp: plain_base_def)
  then have t: "trimmed (js_join (js '' * '') ?parts) \<and> js_join (js '' * '') ?parts \<noteq> []"
    using trimmed_join [of ?parts "js '' * ''"] by (simp add: atomic_part_def)
  have c: "classify_parts ?parts = Inr (map buildRuleGroupFactor (filter (\<lambda>g. \<not> guarded_group g) ?gs),
      (40 # base @ [41]) # map buildRuleGroupFactor (filter guarded_group ?gs))"
    using base_not_rule [OF assms(1)] classify_rules [OF pr(2)] by simp
  have u: "unwrapOuterParens (40 # base @ [41]) = base"
    using assms(1) by (intro unwrap_wrapped) (auto simp: plain_base_def)
  have len: "\<not> length ?parts \<le> 1" using assms(3) by (cases ?gs) auto
  show ?thesis
  proof (cases "\<exists>g \<in> set ?gs. guarded_group g")
    case True
    then have "filter guarded_group ?gs \<noteq> []" by (auto simp: filter_empty_conv)
    then have "length ((40 # base @ [41]) # map buildRuleGroupFactor (filter guarded_group ?gs)) \<noteq> 1" by simp
    then show ?thesis
      unfolding splitBillingExprAndRequestRules_def joined Let_def
      using multiply.split_join [OF atomic] t c len True by (simp add: trim_trimmed)
  next
    case False
    then have f: "filter guarded_group ?gs = []" "filter (\<lambda>g. \<not> guarded_group g) ?gs = ?gs"
      by (auto simp: filter_empty_conv filter_id_conv)
    then show ?thesis
      unfolding splitBillingExprAndRequestRules_def joined Let_def
      using multiply.split_join [OF atomic] t c u len False rules(1) assms(3) by (simp add: trim_trimmed pr(1))
  qed
qed

theorem combine_split_roundtrip_witness:
  "splitBillingExprAndRequestRules (combineBillingExpr (js ''p * 3 + c * 15'') (buildRequestRuleExpr [demo_group])) =
     Inr \<lparr>billingExpr = js ''p * 3 + c * 15'', requestRuleExpr = buildRequestRuleExpr [demo_group]\<rparr>"
proof -
  have "plain_base (js ''p * 3 + c * 15'')" by code_simp
  from combine_split_roundtrip [OF this, of "[demo_group]"] demo_facts show ?thesis
    by (simp add: Let_def kept_groups_def map_filter_simps)
qed

end
