(* ===== verification/ChannelForm.thy ===== *)
theory ChannelForm
  imports JsObject
begin

section \<open>The channel form\<close>

text \<open>
  \<open>features/channels/lib/channel-form.ts\<close>: how a channel of the API becomes the values of the edit
  form, and how the values of the form become the payloads of the create and update requests.

  A channel and a payload are JSON objects (\<open>jsval\<close>, the property list of a payload in the order the
  code writes it). The form is a record with the fields of \<open>ChannelFormValues\<close>; its fields hold
  \<open>jsval\<close>s, because the optional ones may be \<open>undefined\<close> and because the values the code reads out
  of stored JSON text have no checked type; \<open>channelFormSchema\<close> says which values the form accepts.
  The fields stored in the \<open>setting\<close> text and those stored in the \<open>settings\<close> text are records of their
  own, which the form extends.

  The only errors are the \<open>TypeError\<close>s the code does not catch.
\<close>

datatype form_error = TypeError

text \<open>\<open>a || b\<close>, \<open>a ?? b\<close> and \<open>a === true\<close>.\<close>

definition js_or :: "jsval \<Rightarrow> jsval \<Rightarrow> jsval" where
  "js_or a b = (if truthy a then a else b)"

definition js_coalesce :: "jsval \<Rightarrow> jsval \<Rightarrow> jsval" where
  "js_coalesce a b = (if is_nullish a then b else a)"

definition is_true :: "jsval \<Rightarrow> bool" where
  "is_true v \<longleftrightarrow> strict_eq v (JBool True)"

definition jstr :: "string \<Rightarrow> jsval" where
  "jstr s = JStr (js s)"

text \<open>\<open>delete o.k\<close>.\<close>

definition obj_delete :: "string \<Rightarrow> (jsstr \<times> jsval) list \<Rightarrow> (jsstr \<times> jsval) list" where
  "obj_delete k ps = filter (\<lambda>p. fst p \<noteq> js k) ps"

subsection \<open>Form values\<close>

text \<open>The options stored in the \<open>setting\<close> text.\<close>

record extra_settings =
  f_force_format :: jsval
  f_thinking_to_content :: jsval
  f_proxy :: jsval
  f_pass_through_body_enabled :: jsval
  f_system_prompt :: jsval
  f_system_prompt_override :: jsval

text \<open>The options stored in the \<open>settings\<close> text.\<close>

record type_settings = extra_settings +
  f_is_enterprise_account :: jsval
  f_vertex_key_type :: jsval
  f_aws_key_type :: jsval
  f_azure_responses_version :: jsval
  f_allow_service_tier :: jsval
  f_disable_store :: jsval
  f_allow_safety_identifier :: jsval
  f_allow_include_obfuscation :: jsval
  f_allow_inference_geo :: jsval
  f_allow_speed :: jsval
  f_claude_beta_query :: jsval
  f_upstream_check_enabled :: jsval
  f_upstream_auto_sync_enabled :: jsval
  f_upstream_ignored_models :: jsval

record channel_form = type_settings +
  f_name :: jsval
  f_type :: jsval
  f_base_url :: jsval
  f_key :: jsstr
  f_openai_organization :: jsval
  f_models :: jsval
  f_group :: "jsstr list"
  f_model_mapping :: jsval
  f_priority :: jsval
  f_weight :: jsval
  f_test_model :: jsval
  f_auto_ban :: jsval
  f_status :: jsval
  f_status_code_mapping :: jsval
  f_tag :: jsval
  f_remark :: jsval
  f_setting :: jsval
  f_param_override :: jsval
  f_header_override :: jsval
  f_settings :: jsval
  f_sensitive_word_interception_enabled :: jsval
  f_multiplier_card_user_enabled :: jsval
  f_other :: jsval
  f_multi_key_mode :: jsval
  f_multi_key_type :: jsval
  f_batch_add_set_key_prefix_2_name :: jsval
  f_key_mode :: jsval

subsection \<open>The values the form accepts\<close>

text \<open>The static type of an object with optional properties, as \<open>channelFormSchema\<close> checks it before a
  form is submitted: an optional property may be \<open>undefined\<close> but not \<open>null\<close>.\<close>

definition is_form_string :: "jsval \<Rightarrow> bool" where
  "is_form_string v \<longleftrightarrow> (case v of JStr _ \<Rightarrow> True | _ \<Rightarrow> False)"

definition is_boolean :: "jsval \<Rightarrow> bool" where
  "is_boolean v \<longleftrightarrow> (case v of JBool _ \<Rightarrow> True | _ \<Rightarrow> False)"

definition is_form_number :: "jsval \<Rightarrow> bool" where
  "is_form_number v \<longleftrightarrow> (case v of JNum x \<Rightarrow> x \<noteq> NaN | _ \<Rightarrow> False)"

definition one_of :: "string list \<Rightarrow> jsval \<Rightarrow> bool" where
  "one_of ss v \<longleftrightarrow> v \<in> set (map jstr ss)"

definition optional :: "(jsval \<Rightarrow> bool) \<Rightarrow> jsval \<Rightarrow> bool" where
  "optional P v \<longleftrightarrow> v = JUndef \<or> P v"

definition extra_schema :: "'a extra_settings_scheme \<Rightarrow> bool" where
  "extra_schema f \<longleftrightarrow>
     optional is_boolean (f_force_format f) \<and> optional is_boolean (f_thinking_to_content f) \<and>
     optional is_form_string (f_proxy f) \<and> optional is_boolean (f_pass_through_body_enabled f) \<and>
     optional is_form_string (f_system_prompt f) \<and> optional is_boolean (f_system_prompt_override f)"

definition type_schema :: "'a type_settings_scheme \<Rightarrow> bool" where
  "type_schema f \<longleftrightarrow>
     optional is_boolean (f_is_enterprise_account f) \<and>
     optional (one_of [''json'', ''api_key'']) (f_vertex_key_type f) \<and>
     optional (one_of [''ak_sk'', ''api_key'']) (f_aws_key_type f) \<and>
     optional is_form_string (f_azure_responses_version f) \<and>
     optional is_boolean (f_allow_service_tier f) \<and> optional is_boolean (f_disable_store f) \<and>
     optional is_boolean (f_allow_safety_identifier f) \<and>
     optional is_boolean (f_allow_include_obfuscation f) \<and>
     optional is_boolean (f_allow_inference_geo f) \<and> optional is_boolean (f_allow_speed f) \<and>
     optional is_boolean (f_claude_beta_query f) \<and>
     optional is_boolean (f_upstream_check_enabled f) \<and>
     optional is_boolean (f_upstream_auto_sync_enabled f) \<and>
     optional is_form_string (f_upstream_ignored_models f)"

definition channelFormSchema :: "channel_form \<Rightarrow> bool" where
  "channelFormSchema f \<longleftrightarrow>
     (case f_name f of JStr s \<Rightarrow> s \<noteq> [] | _ \<Rightarrow> False) \<and>
     (case f_type f of JNum x \<Rightarrow> num_le (Fin 0) x | _ \<Rightarrow> False) \<and>
     optional is_form_string (f_base_url f) \<and> optional is_form_string (f_openai_organization f) \<and>
     (case f_models f of JStr s \<Rightarrow> s \<noteq> [] | _ \<Rightarrow> False) \<and> f_group f \<noteq> [] \<and>
     optional is_form_string (f_model_mapping f) \<and> optional is_form_number (f_priority f) \<and>
     optional is_form_number (f_weight f) \<and> optional is_form_string (f_test_model f) \<and>
     optional is_form_number (f_auto_ban f) \<and> is_form_number (f_status f) \<and>
     optional is_form_string (f_status_code_mapping f) \<and> optional is_form_string (f_tag f) \<and>
     (case f_remark f of JStr s \<Rightarrow> length s \<le> 255 | JUndef \<Rightarrow> True | _ \<Rightarrow> False) \<and>
     optional is_form_string (f_setting f) \<and> optional is_form_string (f_param_override f) \<and>
     optional is_form_string (f_header_override f) \<and> optional is_form_string (f_settings f) \<and>
     is_boolean (f_sensitive_word_interception_enabled f) \<and>
     is_boolean (f_multiplier_card_user_enabled f) \<and> optional is_form_string (f_other f) \<and>
     optional (one_of [''single'', ''batch'', ''multi_to_single'']) (f_multi_key_mode f) \<and>
     optional (one_of [''random'', ''polling'']) (f_multi_key_type f) \<and>
     optional is_boolean (f_batch_add_set_key_prefix_2_name f) \<and>
     optional (one_of [''append'', ''replace'']) (f_key_mode f) \<and>
     extra_schema f \<and> type_schema f"

definition DEFAULT_EXTRA :: extra_settings where
  "DEFAULT_EXTRA =
     \<lparr>f_force_format = JBool False, f_thinking_to_content = JBool False, f_proxy = jstr '''',
      f_pass_through_body_enabled = JBool False, f_system_prompt = jstr '''',
      f_system_prompt_override = JBool False\<rparr>"

text \<open>The default options are those of a new channel, and of a stored text that cannot be read.\<close>

definition DEFAULT_TYPE_SETTINGS :: "extra_settings \<Rightarrow> type_settings" where
  "DEFAULT_TYPE_SETTINGS x =
     \<lparr>f_force_format = f_force_format x, f_thinking_to_content = f_thinking_to_content x,
      f_proxy = f_proxy x, f_pass_through_body_enabled = f_pass_through_body_enabled x,
      f_system_prompt = f_system_prompt x, f_system_prompt_override = f_system_prompt_override x,
      f_is_enterprise_account = JBool False, f_vertex_key_type = jstr ''json'',
      f_aws_key_type = jstr ''ak_sk'', f_azure_responses_version = jstr '''',
      f_allow_service_tier = JBool False, f_disable_store = JBool False,
      f_allow_safety_identifier = JBool False, f_allow_include_obfuscation = JBool False,
      f_allow_inference_geo = JBool False, f_allow_speed = JBool False,
      f_claude_beta_query = JBool False, f_upstream_check_enabled = JBool False,
      f_upstream_auto_sync_enabled = JBool False, f_upstream_ignored_models = jstr ''''\<rparr>"

definition CHANNEL_FORM_DEFAULT_VALUES :: channel_form where
  "CHANNEL_FORM_DEFAULT_VALUES =
     \<lparr>f_force_format = JBool False, f_thinking_to_content = JBool False, f_proxy = jstr '''',
      f_pass_through_body_enabled = JBool False, f_system_prompt = jstr '''',
      f_system_prompt_override = JBool False, f_is_enterprise_account = JBool False,
      f_vertex_key_type = jstr ''json'', f_aws_key_type = jstr ''ak_sk'',
      f_azure_responses_version = jstr '''', f_allow_service_tier = JBool False,
      f_disable_store = JBool False, f_allow_safety_identifier = JBool False,
      f_allow_include_obfuscation = JBool False, f_allow_inference_geo = JBool False,
      f_allow_speed = JBool False, f_claude_beta_query = JBool False,
      f_upstream_check_enabled = JBool False, f_upstream_auto_sync_enabled = JBool False,
      f_upstream_ignored_models = jstr '''', f_name = jstr '''', f_type = JNum (Fin 1),
      f_base_url = jstr '''', f_key = [], f_openai_organization = jstr '''', f_models = jstr '''',
      f_group = [js ''default''], f_model_mapping = jstr '''', f_priority = JNum (Fin 0),
      f_weight = JNum (Fin 0), f_test_model = jstr '''', f_auto_ban = JNum (Fin 1),
      f_status = JNum (Fin 1), f_status_code_mapping = jstr '''', f_tag = jstr '''',
      f_remark = jstr '''', f_setting = jstr '''', f_param_override = jstr '''',
      f_header_override = jstr '''', f_settings = jstr ''{}'',
      f_sensitive_word_interception_enabled = JBool True,
      f_multiplier_card_user_enabled = JBool False, f_other = jstr '''',
      f_multi_key_mode = jstr ''single'', f_multi_key_type = jstr ''random'',
      f_batch_add_set_key_prefix_2_name = JBool False, f_key_mode = jstr ''append''\<rparr>"

subsection \<open>Model and group lists\<close>

definition parseModels :: "jsstr \<Rightarrow> jsstr list" where
  "parseModels models = (if models = [] then [] else split_trim 44 models)"

definition parseGroups :: "jsstr \<Rightarrow> jsstr list" where
  "parseGroups groups = (if groups = [] then [] else split_trim 44 groups)"

definition formatModels :: "jsstr list \<Rightarrow> jsstr" where
  "formatModels models = js_join [44] models"

definition formatGroups :: "jsstr list \<Rightarrow> jsstr" where
  "formatGroups groups = js_join [44] groups"

definition validateJSON :: "jsstr \<Rightarrow> bool" where
  "validateJSON str = (if str = [] \<or> trim str = [] then True else json_parse str \<noteq> None)"

definition validateModelMapping :: "jsstr \<Rightarrow> bool" where
  "validateModelMapping str = (if str = [] \<or> trim str = [] then True else validateJSON str)"

subsection \<open>From the channel to the form\<close>

definition fld :: "jsval \<Rightarrow> string \<Rightarrow> jsval" where
  "fld v k = obj_get v (js k)"

text \<open>\<open>JSON.parse\<close> of a stored text; \<open>None\<close> for the \<open>SyntaxError\<close>, and for the \<open>TypeError\<close> of reading a
  property of \<open>null\<close>: the code catches both.\<close>

definition parse_stored :: "jsval \<Rightarrow> jsval option" where
  "parse_stored v =
     (case json_parse (to_str v) of Some p \<Rightarrow> if p = JNull then None else Some p | None \<Rightarrow> None)"

definition read_extra :: "jsval \<Rightarrow> extra_settings" where
  "read_extra parsed =
     \<lparr>f_force_format = js_or (fld parsed ''force_format'') (JBool False),
      f_thinking_to_content = js_or (fld parsed ''thinking_to_content'') (JBool False),
      f_proxy = js_or (fld parsed ''proxy'') (jstr ''''),
      f_pass_through_body_enabled = js_or (fld parsed ''pass_through_body_enabled'') (JBool False),
      f_system_prompt = js_or (fld parsed ''system_prompt'') (jstr ''''),
      f_system_prompt_override = js_or (fld parsed ''system_prompt_override'') (JBool False)\<rparr>"

definition extraSettings :: "jsval \<Rightarrow> extra_settings" where
  "extraSettings stored =
     (if truthy stored
      then (case parse_stored stored of Some p \<Rightarrow> read_extra p | None \<Rightarrow> DEFAULT_EXTRA)
      else DEFAULT_EXTRA)"

definition joined :: "jsval \<Rightarrow> jsval" where
  "joined v = (case v of JArr vs \<Rightarrow> JStr (to_str (JArr vs)) | _ \<Rightarrow> jstr '''')"

definition is_true_prop :: "jsval \<Rightarrow> string \<Rightarrow> jsval" where
  "is_true_prop v k = JBool (is_true (fld v k))"

definition read_type_settings :: "extra_settings \<Rightarrow> jsval \<Rightarrow> type_settings" where
  "read_type_settings x parsed =
     \<lparr>f_force_format = f_force_format x, f_thinking_to_content = f_thinking_to_content x,
      f_proxy = f_proxy x, f_pass_through_body_enabled = f_pass_through_body_enabled x,
      f_system_prompt = f_system_prompt x, f_system_prompt_override = f_system_prompt_override x,
      f_is_enterprise_account = is_true_prop parsed ''openrouter_enterprise'',
      f_vertex_key_type = js_or (fld parsed ''vertex_key_type'') (jstr ''json''),
      f_aws_key_type = js_or (fld parsed ''aws_key_type'') (jstr ''ak_sk''),
      f_azure_responses_version = js_or (fld parsed ''azure_responses_version'') (jstr ''''),
      f_allow_service_tier = is_true_prop parsed ''allow_service_tier'',
      f_disable_store = is_true_prop parsed ''disable_store'',
      f_allow_safety_identifier = is_true_prop parsed ''allow_safety_identifier'',
      f_allow_include_obfuscation = is_true_prop parsed ''allow_include_obfuscation'',
      f_allow_inference_geo = is_true_prop parsed ''allow_inference_geo'',
      f_allow_speed = is_true_prop parsed ''allow_speed'',
      f_claude_beta_query = is_true_prop parsed ''claude_beta_query'',
      f_upstream_check_enabled = is_true_prop parsed ''upstream_model_update_check_enabled'',
      f_upstream_auto_sync_enabled = is_true_prop parsed ''upstream_model_update_auto_sync_enabled'',
      f_upstream_ignored_models = joined (fld parsed ''upstream_model_update_ignored_models'')\<rparr>"

definition typeSettings :: "extra_settings \<Rightarrow> jsval \<Rightarrow> type_settings" where
  "typeSettings x stored =
     (if truthy stored
      then (case parse_stored stored of Some p \<Rightarrow> read_type_settings x p
            | None \<Rightarrow> DEFAULT_TYPE_SETTINGS x)
      else DEFAULT_TYPE_SETTINGS x)"

definition opened_form :: "jsval \<Rightarrow> jsstr \<Rightarrow> channel_form" where
  "opened_form channel groups =
     (let x = extraSettings (fld channel ''setting''); t = typeSettings x (fld channel ''settings'') in
       \<lparr>f_force_format = f_force_format x, f_thinking_to_content = f_thinking_to_content x,
        f_proxy = f_proxy x, f_pass_through_body_enabled = f_pass_through_body_enabled x,
        f_system_prompt = f_system_prompt x,
        f_system_prompt_override = f_system_prompt_override x,
        f_is_enterprise_account = f_is_enterprise_account t,
        f_vertex_key_type = f_vertex_key_type t, f_aws_key_type = f_aws_key_type t,
        f_azure_responses_version = f_azure_responses_version t,
        f_allow_service_tier = f_allow_service_tier t, f_disable_store = f_disable_store t,
        f_allow_safety_identifier = f_allow_safety_identifier t,
        f_allow_include_obfuscation = f_allow_include_obfuscation t,
        f_allow_inference_geo = f_allow_inference_geo t, f_allow_speed = f_allow_speed t,
        f_claude_beta_query = f_claude_beta_query t,
        f_upstream_check_enabled = f_upstream_check_enabled t,
        f_upstream_auto_sync_enabled = f_upstream_auto_sync_enabled t,
        f_upstream_ignored_models = f_upstream_ignored_models t,
        f_name = js_or (fld channel ''name'') (jstr ''''), f_type = fld channel ''type'',
        f_base_url = js_or (fld channel ''base_url'') (jstr ''''), f_key = [],
        f_openai_organization = js_or (fld channel ''openai_organization'') (jstr ''''),
        f_models = js_or (fld channel ''models'') (jstr ''''), f_group = parseGroups groups,
        f_model_mapping = js_or (fld channel ''model_mapping'') (jstr ''''),
        f_priority = js_or (fld channel ''priority'') (JNum (Fin 0)),
        f_weight = js_or (fld channel ''weight'') (JNum (Fin 0)),
        f_test_model = js_or (fld channel ''test_model'') (jstr ''''),
        f_auto_ban = js_coalesce (fld channel ''auto_ban'') (JNum (Fin 1)),
        f_status = fld channel ''status'',
        f_status_code_mapping = js_or (fld channel ''status_code_mapping'') (jstr ''''),
        f_tag = js_or (fld channel ''tag'') (jstr ''''),
        f_remark = js_or (fld channel ''remark'') (jstr ''''),
        f_setting = js_or (fld channel ''setting'') (jstr ''''),
        f_param_override = js_or (fld channel ''param_override'') (jstr ''''),
        f_header_override = js_or (fld channel ''header_override'') (jstr ''''),
        f_settings = js_or (fld channel ''settings'') (jstr ''{}''),
        f_sensitive_word_interception_enabled = js_coalesce (fld channel ''sensitive_word_interception_enabled'') (JBool True),
        f_multiplier_card_user_enabled = js_coalesce (fld channel ''multiplier_card_user_enabled'') (JBool False),
        f_other = js_or (fld channel ''other'') (jstr ''''),
        f_multi_key_mode = jstr ''single'',
        f_multi_key_type = js_or (fld (fld channel ''channel_info'') ''multi_key_mode'') (jstr ''random''),
        f_batch_add_set_key_prefix_2_name = JBool False, f_key_mode = jstr ''append''\<rparr>)"

definition transformChannelToFormDefaults :: "jsval \<Rightarrow> form_error + channel_form" where
  "transformChannelToFormDefaults channel =
     (case js_or (fld channel ''group'') (jstr ''default'') of
        JStr groups \<Rightarrow>
          if is_nullish (fld channel ''channel_info'') then Inl TypeError
          else Inr (opened_form channel groups)
      | _ \<Rightarrow> Inl TypeError)"

subsection \<open>From the form to the stored texts\<close>

definition setting_object :: "'a extra_settings_scheme \<Rightarrow> (jsstr \<times> jsval) list" where
  "setting_object f =
     [(js ''force_format'', js_or (f_force_format f) (JBool False)),
      (js ''thinking_to_content'', js_or (f_thinking_to_content f) (JBool False)),
      (js ''proxy'', js_or (f_proxy f) (jstr '''')),
      (js ''pass_through_body_enabled'', js_or (f_pass_through_body_enabled f) (JBool False)),
      (js ''system_prompt'', js_or (f_system_prompt f) (jstr '''')),
      (js ''system_prompt_override'', js_or (f_system_prompt_override f) (JBool False))]"

definition buildSettingJSON :: "'a extra_settings_scheme \<Rightarrow> jsstr" where
  "buildSettingJSON f = json_print (JObj (setting_object f))"

definition MODEL_FETCHABLE_TYPES :: "jsval list" where
  "MODEL_FETCHABLE_TYPES = map (\<lambda>n. JNum (num_int n))
     [1, 4, 14, 17, 20, 23, 24, 25, 26, 27, 31, 34, 35, 40, 42, 43, 47, 48]"

definition type_is :: "int \<Rightarrow> channel_form \<Rightarrow> bool" where
  "type_is n f \<longleftrightarrow> strict_eq (f_type f) (JNum (num_int n))"

definition obj_set :: "string \<Rightarrow> jsval \<Rightarrow> (jsstr \<times> jsval) list \<Rightarrow> (jsstr \<times> jsval) list" where
  "obj_set k v ps = obj_put ps (js k, v)"

text \<open>\<open>if (b) o.k = v else if ('k' in o) delete o.k\<close>.\<close>

definition set_or_delete ::
  "bool \<Rightarrow> string \<Rightarrow> jsval \<Rightarrow> (jsstr \<times> jsval) list \<Rightarrow> (jsstr \<times> jsval) list" where
  "set_or_delete b k v ps = (if b then obj_set k v ps else obj_delete k ps)"

definition provider_options :: "channel_form \<Rightarrow> (jsstr \<times> jsval) list \<Rightarrow> (jsstr \<times> jsval) list" where
  "provider_options f ps =
     (let ps = set_or_delete (type_is 41 f) ''vertex_key_type''
            (js_or (f_vertex_key_type f) (jstr ''json'')) ps;
          ps = set_or_delete (type_is 3 f \<and> truthy (f_azure_responses_version f))
            ''azure_responses_version'' (f_azure_responses_version f) ps;
          ps = set_or_delete (type_is 20 f) ''openrouter_enterprise''
            (JBool (is_true (f_is_enterprise_account f))) ps
      in set_or_delete (type_is 33 f) ''aws_key_type'' (js_or (f_aws_key_type f) (jstr ''ak_sk'')) ps)"

definition openai_options :: "channel_form \<Rightarrow> (jsstr \<times> jsval) list \<Rightarrow> (jsstr \<times> jsval) list" where
  "openai_options f ps =
     (if type_is 1 f then
        (let ps = obj_set ''disable_store'' (JBool (is_true (f_disable_store f))) ps;
             ps = obj_set ''allow_safety_identifier'' (JBool (is_true (f_allow_safety_identifier f))) ps;
             ps = obj_set ''allow_include_obfuscation'' (JBool (is_true (f_allow_include_obfuscation f))) ps
         in obj_set ''allow_inference_geo'' (JBool (is_true (f_allow_inference_geo f))) ps)
      else
        (let ps = obj_delete ''disable_store'' ps;
             ps = obj_delete ''allow_safety_identifier'' ps;
             ps = obj_delete ''allow_include_obfuscation'' ps
         in if \<not> type_is 14 f then obj_delete ''allow_inference_geo'' ps else ps))"

definition anthropic_options :: "channel_form \<Rightarrow> (jsstr \<times> jsval) list \<Rightarrow> (jsstr \<times> jsval) list" where
  "anthropic_options f ps =
     (if type_is 14 f then
        (let ps = obj_set ''allow_inference_geo'' (JBool (is_true (f_allow_inference_geo f))) ps;
             ps = obj_set ''allow_speed'' (JBool (is_true (f_allow_speed f))) ps
         in obj_set ''claude_beta_query'' (JBool (is_true (f_claude_beta_query f))) ps)
      else obj_delete ''claude_beta_query'' (obj_delete ''allow_speed'' ps))"

definition passthrough_options :: "channel_form \<Rightarrow> (jsstr \<times> jsval) list \<Rightarrow> (jsstr \<times> jsval) list" where
  "passthrough_options f ps =
     anthropic_options f (openai_options f
       (set_or_delete (type_is 1 f \<or> type_is 14 f) ''allow_service_tier''
          (JBool (is_true (f_allow_service_tier f))) ps))"

definition ignored_models :: "channel_form \<Rightarrow> jsstr list" where
  "ignored_models f =
     js_set (split_trim 44 (to_str (js_or (f_upstream_ignored_models f) (jstr ''''))))"

definition is_array :: "jsval \<Rightarrow> bool" where
  "is_array v \<longleftrightarrow> (case v of JArr _ \<Rightarrow> True | _ \<Rightarrow> False)"

definition is_num :: "jsval \<Rightarrow> bool" where
  "is_num v \<longleftrightarrow> (case v of JNum _ \<Rightarrow> True | _ \<Rightarrow> False)"

definition reset_detected :: "(jsstr \<times> jsval) list \<Rightarrow> (jsstr \<times> jsval) list" where
  "reset_detected ps =
     (if \<not> is_array (fld (JObj ps) ''upstream_model_update_last_detected_models'') \<or>
         \<not> is_true (fld (JObj ps) ''upstream_model_update_check_enabled'')
      then obj_set ''upstream_model_update_last_detected_models'' (JArr []) ps else ps)"

definition reset_check_time :: "(jsstr \<times> jsval) list \<Rightarrow> (jsstr \<times> jsval) list" where
  "reset_check_time ps =
     (if \<not> is_num (fld (JObj ps) ''upstream_model_update_last_check_time'')
      then obj_set ''upstream_model_update_last_check_time'' (JNum (Fin 0)) ps else ps)"

definition upstream_options :: "channel_form \<Rightarrow> (jsstr \<times> jsval) list \<Rightarrow> (jsstr \<times> jsval) list" where
  "upstream_options f ps =
     (if f_type f \<in> set MODEL_FETCHABLE_TYPES then
        (let ps = obj_set ''upstream_model_update_check_enabled''
               (JBool (is_true (f_upstream_check_enabled f))) ps;
             ps = obj_set ''upstream_model_update_auto_sync_enabled''
               (JBool (is_true (fld (JObj ps) ''upstream_model_update_check_enabled'') \<and>
                       is_true (f_upstream_auto_sync_enabled f))) ps;
             ps = obj_set ''upstream_model_update_ignored_models''
               (JArr (map JStr (ignored_models f))) ps
         in reset_check_time (reset_detected ps))
      else ps)"

definition settings_props :: "channel_form \<Rightarrow> (jsstr \<times> jsval) list \<Rightarrow> (jsstr \<times> jsval) list" where
  "settings_props f ps = upstream_options f (passthrough_options f (provider_options f ps))"

definition stored_settings :: "channel_form \<Rightarrow> jsval" where
  "stored_settings f =
     (if truthy (f_settings f) \<and> \<not> strict_eq (f_settings f) (jstr ''{}'')
      then (case json_parse (to_str (f_settings f)) of Some v \<Rightarrow> v | None \<Rightarrow> JObj [])
      else JObj [])"

text \<open>Every path assigns, tests with \<open>in\<close> or deletes a property first, which throws for \<open>null\<close> and for
  primitive values. The named properties of an array are not printed, and its elements are not
  touched.\<close>

definition buildSettingsJSON :: "channel_form \<Rightarrow> form_error + jsstr" where
  "buildSettingsJSON f =
     (case stored_settings f of
        JObj ps \<Rightarrow> Inr (json_print (JObj (settings_props f ps)))
      | JArr vs \<Rightarrow> Inr (json_print (JArr vs))
      | _ \<Rightarrow> Inl TypeError)"

subsection \<open>From the form to the payloads\<close>

text \<open>The loop over \<open>Object.keys\<close> that replaces empty strings by \<open>null\<close>.\<close>

definition blank_to_null :: "(jsstr \<times> jsval) list \<Rightarrow> (jsstr \<times> jsval) list" where
  "blank_to_null ps = map (\<lambda>(k, v). (k, if v = JStr [] then JNull else v)) ps"

definition create_channel :: "channel_form \<Rightarrow> jsstr \<Rightarrow> (jsstr \<times> jsval) list" where
  "create_channel f settings =
     [(js ''name'', f_name f), (js ''type'', f_type f),
      (js ''base_url'', js_or (f_base_url f) JNull), (js ''key'', JStr (f_key f)),
      (js ''openai_organization'', js_or (f_openai_organization f) JNull),
      (js ''models'', f_models f), (js ''group'', JStr (formatGroups (f_group f))),
      (js ''model_mapping'', js_or (f_model_mapping f) JNull),
      (js ''priority'', js_or (f_priority f) JNull), (js ''weight'', js_or (f_weight f) JNull),
      (js ''test_model'', js_or (f_test_model f) JNull),
      (js ''auto_ban'', js_coalesce (f_auto_ban f) (JNum (Fin 1))), (js ''status'', f_status f),
      (js ''status_code_mapping'', js_or (f_status_code_mapping f) JNull),
      (js ''tag'', js_or (f_tag f) JNull), (js ''remark'', js_or (f_remark f) (jstr '''')),
      (js ''setting'', JStr (buildSettingJSON f)),
      (js ''param_override'', js_or (f_param_override f) JNull),
      (js ''header_override'', js_or (f_header_override f) JNull),
      (js ''settings'', JStr settings),
      (js ''sensitive_word_interception_enabled'', f_sensitive_word_interception_enabled f),
      (js ''multiplier_card_supported'', f_multiplier_card_user_enabled f),
      (js ''multiplier_card_user_enabled'', f_multiplier_card_user_enabled f),
      (js ''other'', js_or (f_other f) (jstr ''''))]"

record create_payload =
  p_mode :: jsval
  p_multi_key_mode :: jsval
  p_batch_add_set_key_prefix_2_name :: jsval
  p_channel :: "(jsstr \<times> jsval) list"

definition transformFormDataToCreatePayload :: "channel_form \<Rightarrow> form_error + create_payload" where
  "transformFormDataToCreatePayload f =
     (case buildSettingsJSON f of
        Inl e \<Rightarrow> Inl e
      | Inr settings \<Rightarrow>
        (let mode = js_or (f_multi_key_mode f) (jstr ''single'')
         in Inr \<lparr>p_mode = mode,
              p_multi_key_mode = (if mode = jstr ''multi_to_single'' then f_multi_key_type f else JUndef),
              p_batch_add_set_key_prefix_2_name =
                (if mode = jstr ''batch'' then f_batch_add_set_key_prefix_2_name f else JUndef),
              p_channel = blank_to_null (create_channel f settings)\<rparr>))"

definition update_channel_props :: "channel_form \<Rightarrow> jsval \<Rightarrow> jsstr \<Rightarrow> (jsstr \<times> jsval) list" where
  "update_channel_props f channelId settings =
     [(js ''id'', channelId), (js ''name'', f_name f), (js ''type'', f_type f),
      (js ''base_url'', js_or (f_base_url f) JNull),
      (js ''openai_organization'', js_or (f_openai_organization f) JNull),
      (js ''models'', f_models f), (js ''group'', JStr (formatGroups (f_group f))),
      (js ''model_mapping'', js_or (f_model_mapping f) JNull),
      (js ''priority'', js_coalesce (f_priority f) (JNum (Fin 0))),
      (js ''weight'', js_coalesce (f_weight f) (JNum (Fin 0))),
      (js ''test_model'', js_or (f_test_model f) JNull),
      (js ''auto_ban'', js_coalesce (f_auto_ban f) (JNum (Fin 1))), (js ''status'', f_status f),
      (js ''status_code_mapping'', js_or (f_status_code_mapping f) JNull),
      (js ''tag'', js_or (f_tag f) JNull), (js ''remark'', js_or (f_remark f) (jstr '''')),
      (js ''setting'', JStr (buildSettingJSON f)),
      (js ''param_override'', js_or (f_param_override f) JNull),
      (js ''header_override'', js_or (f_header_override f) JNull),
      (js ''settings'', JStr settings),
      (js ''sensitive_word_interception_enabled'', f_sensitive_word_interception_enabled f),
      (js ''multiplier_card_supported'', f_multiplier_card_user_enabled f),
      (js ''multiplier_card_user_enabled'', f_multiplier_card_user_enabled f),
      (js ''other'', js_or (f_other f) (jstr ''''))]"

definition clearable_fields :: "channel_form \<Rightarrow> (string \<times> jsval) list" where
  "clearable_fields f =
     [(''base_url'', f_base_url f), (''openai_organization'', f_openai_organization f),
      (''test_model'', f_test_model f), (''tag'', f_tag f), (''remark'', f_remark f),
      (''model_mapping'', f_model_mapping f), (''status_code_mapping'', f_status_code_mapping f),
      (''param_override'', f_param_override f), (''header_override'', f_header_override f)]"

definition transformFormDataToUpdatePayload ::
  "channel_form \<Rightarrow> jsval \<Rightarrow> form_error + (jsstr \<times> jsval) list" where
  "transformFormDataToUpdatePayload f channelId =
     (case buildSettingsJSON f of
        Inl e \<Rightarrow> Inl e
      | Inr settings \<Rightarrow>
        (let payload = update_channel_props f channelId settings;
             payload = put_if (f_key f \<noteq> [] \<and> trim (f_key f) \<noteq> []) ''key'' (JStr (f_key f)) payload;
             payload = blank_to_null payload
         in Inr (foldl (\<lambda>ps (k, v). obj_set k (js_or v (jstr '''')) ps) payload (clearable_fields f))))"

section \<open>Properties of the stored texts\<close>

subsection \<open>Reading the properties the code writes\<close>

lemma map_of_obj_set [simp]: "map_of (obj_set k v ps) q = (if q = js k then Some v else map_of ps q)"
  by (simp add: obj_set_def)

lemma map_of_obj_delete [simp]: "map_of (obj_delete k ps) q = (if q = js k then None else map_of ps q)"
proof -
  have "map_of (filter (\<lambda>p. fst p \<noteq> js k) ps) q = (if q = js k then None else map_of ps q)"
    by (induction ps) auto
  then show ?thesis by (simp add: obj_delete_def)
qed

lemma map_of_set_or_delete [simp]:
  "map_of (set_or_delete b k v ps) q = (if q = js k then (if b then Some v else None) else map_of ps q)"
  by (simp add: set_or_delete_def)

lemma keys_obj_delete: "set (map fst (obj_delete k ps)) \<subseteq> set (map fst ps)"
  by (auto simp: obj_delete_def)

lemma plain_obj_set:
  "plain (JObj ps) \<Longrightarrow> \<not> is_index_key (js k) \<Longrightarrow> plain v \<Longrightarrow> plain (JObj (obj_set k v ps))"
  unfolding obj_set_def by (rule plain_obj_put) simp_all

lemma plain_obj_delete: "plain (JObj ps) \<Longrightarrow> plain (JObj (obj_delete k ps))"
  by (auto simp: obj_delete_def list_all_iff distinct_map_filter)

lemma plain_set_or_delete:
  "plain (JObj ps) \<Longrightarrow> \<not> is_index_key (js k) \<Longrightarrow> (b \<Longrightarrow> plain v) \<Longrightarrow> plain (JObj (set_or_delete b k v ps))"
  by (simp only: set_or_delete_def split: if_split) (blast intro: plain_obj_set plain_obj_delete)

lemma obj_set_same: "distinct (map fst ps) \<Longrightarrow> map_of ps (js k) = Some v \<Longrightarrow> obj_set k v ps = ps"
proof -
  assume d: "distinct (map fst ps)" and m: "map_of ps (js k) = Some v"
  have "js k \<in> fst ` set ps" using m by (force dest: map_of_SomeD)
  moreover have "map (\<lambda>p. if fst p = js k then (js k, v) else p) ps = ps"
    using d m by (intro map_idI) (auto simp: map_of_eq_Some_iff dest: eq_key_imp_eq_value)
  ultimately show ?thesis by (simp add: obj_set_def obj_put_in)
qed

lemma obj_delete_same: "map_of ps (js k) = None \<Longrightarrow> obj_delete k ps = ps"
  by (force simp: obj_delete_def map_of_eq_None_iff filter_id_conv)

lemma fld_obj: "fld (JObj ps) k = (case map_of ps (js k) of Some v \<Rightarrow> v | None \<Rightarrow> JUndef)"
  by (simp add: fld_def)

lemma type_is_iff: "type_is n f \<longleftrightarrow> f_type f = JNum (num_int n)"
  by (cases "f_type f") (auto simp: type_is_def num_eq_def num_int_def)

lemma is_true_iff [simp]: "is_true v \<longleftrightarrow> v = JBool True"
  by (cases v) (auto simp: is_true_def)

text \<open>The properties of the \<open>settings\<close> object the form writes.\<close>

definition OWNED_SETTINGS :: "string list" where
  "OWNED_SETTINGS =
     [''vertex_key_type'', ''azure_responses_version'', ''openrouter_enterprise'', ''aws_key_type'',
      ''allow_service_tier'', ''disable_store'', ''allow_safety_identifier'',
      ''allow_include_obfuscation'', ''allow_inference_geo'', ''allow_speed'', ''claude_beta_query'',
      ''upstream_model_update_check_enabled'', ''upstream_model_update_auto_sync_enabled'',
      ''upstream_model_update_ignored_models'', ''upstream_model_update_last_detected_models'',
      ''upstream_model_update_last_check_time'']"

lemma reset_detected_lookup:
  "map_of (reset_detected ps) q =
     (if q = js ''upstream_model_update_last_detected_models'' \<and>
         (\<not> is_array (fld (JObj ps) ''upstream_model_update_last_detected_models'') \<or>
          \<not> is_true (fld (JObj ps) ''upstream_model_update_check_enabled''))
      then Some (JArr []) else map_of ps q)"
  by (auto simp: reset_detected_def)

lemma reset_check_time_lookup:
  "map_of (reset_check_time ps) q =
     (if q = js ''upstream_model_update_last_check_time'' \<and>
         \<not> is_num (fld (JObj ps) ''upstream_model_update_last_check_time'')
      then Some (JNum (Fin 0)) else map_of ps q)"
  by (simp add: reset_check_time_def)

lemmas option_lookups = provider_options_def openai_options_def anthropic_options_def
  passthrough_options_def upstream_options_def reset_detected_lookup reset_check_time_lookup Let_def

lemma unowned_kept:
  assumes "q \<notin> js ` set OWNED_SETTINGS"
  shows "map_of (settings_props f ps) q = map_of ps q"
proof -
  have "map_of (provider_options f ps) q = map_of ps q" for ps
    using assms by (simp add: OWNED_SETTINGS_def option_lookups)
  moreover have "map_of (passthrough_options f ps) q = map_of ps q" for ps
    using assms
    by (simp add: OWNED_SETTINGS_def option_lookups)
  moreover have "map_of (upstream_options f ps) q = map_of ps q" for ps
    using assms by (simp add: OWNED_SETTINGS_def option_lookups)
  ultimately show ?thesis by (simp add: settings_props_def)
qed

text \<open>What the object the form writes holds under each of its own properties.\<close>

definition flag_for :: "bool \<Rightarrow> jsval \<Rightarrow> jsval option" where
  "flag_for b v = (if b then Some (JBool (is_true v)) else None)"

lemma upstream_other:
  "q \<notin> js ` {''upstream_model_update_check_enabled'', ''upstream_model_update_auto_sync_enabled'',
     ''upstream_model_update_ignored_models'', ''upstream_model_update_last_detected_models'',
     ''upstream_model_update_last_check_time''} \<Longrightarrow> map_of (upstream_options f ps) q = map_of ps q"
  by (simp add: option_lookups)

lemma openai_lookup:
  "map_of (openai_options f ps) q =
     (if q = js ''disable_store'' then flag_for (type_is 1 f) (f_disable_store f)
      else if q = js ''allow_safety_identifier'' then flag_for (type_is 1 f) (f_allow_safety_identifier f)
      else if q = js ''allow_include_obfuscation'' then flag_for (type_is 1 f) (f_allow_include_obfuscation f)
      else if q = js ''allow_inference_geo''
        then (if type_is 14 f \<and> \<not> type_is 1 f then map_of ps q
              else flag_for (type_is 1 f) (f_allow_inference_geo f))
      else map_of ps q)"
  by (cases "type_is 1 f"; cases "type_is 14 f")
    (simp_all add: openai_options_def flag_for_def js_inject Let_def)

lemma anthropic_lookup:
  "map_of (anthropic_options f ps) q =
     (if q = js ''allow_speed'' then flag_for (type_is 14 f) (f_allow_speed f)
      else if q = js ''claude_beta_query'' then flag_for (type_is 14 f) (f_claude_beta_query f)
      else if q = js ''allow_inference_geo'' \<and> type_is 14 f
        then flag_for True (f_allow_inference_geo f)
      else map_of ps q)"
  by (cases "type_is 14 f") (simp_all add: anthropic_options_def flag_for_def js_inject Let_def)

lemma provider_lookup:
  "map_of (settings_props f ps) (js ''vertex_key_type'') =
     (if type_is 41 f then Some (js_or (f_vertex_key_type f) (jstr ''json'')) else None)"
  "map_of (settings_props f ps) (js ''azure_responses_version'') =
     (if type_is 3 f \<and> truthy (f_azure_responses_version f) then Some (f_azure_responses_version f) else None)"
  "map_of (settings_props f ps) (js ''openrouter_enterprise'') = flag_for (type_is 20 f) (f_is_enterprise_account f)"
  "map_of (settings_props f ps) (js ''aws_key_type'') =
     (if type_is 33 f then Some (js_or (f_aws_key_type f) (jstr ''ak_sk'')) else None)"
  by (simp_all add: settings_props_def upstream_other passthrough_options_def anthropic_lookup openai_lookup
      provider_options_def Let_def js_inject flag_for_def)

lemma passthrough_lookup:
  "map_of (settings_props f ps) (js ''allow_service_tier'') =
     flag_for (type_is 1 f \<or> type_is 14 f) (f_allow_service_tier f)"
  "map_of (settings_props f ps) (js ''disable_store'') = flag_for (type_is 1 f) (f_disable_store f)"
  "map_of (settings_props f ps) (js ''allow_safety_identifier'') =
     flag_for (type_is 1 f) (f_allow_safety_identifier f)"
  "map_of (settings_props f ps) (js ''allow_include_obfuscation'') =
     flag_for (type_is 1 f) (f_allow_include_obfuscation f)"
  "map_of (settings_props f ps) (js ''allow_inference_geo'') =
     flag_for (type_is 1 f \<or> type_is 14 f) (f_allow_inference_geo f)"
  "map_of (settings_props f ps) (js ''allow_speed'') = flag_for (type_is 14 f) (f_allow_speed f)"
  "map_of (settings_props f ps) (js ''claude_beta_query'') = flag_for (type_is 14 f) (f_claude_beta_query f)"
  by (simp_all add: settings_props_def upstream_other passthrough_options_def anthropic_lookup openai_lookup
      js_inject flag_for_def)

lemma untouched_lookup:
  "k \<in> {''upstream_model_update_check_enabled'', ''upstream_model_update_auto_sync_enabled'',
     ''upstream_model_update_ignored_models'', ''upstream_model_update_last_detected_models'',
     ''upstream_model_update_last_check_time''} \<Longrightarrow>
   map_of (passthrough_options f (provider_options f ps)) (js k) = map_of ps (js k)"
  by (elim insertE emptyE)
    (simp_all add: passthrough_options_def anthropic_lookup openai_lookup provider_options_def Let_def js_inject)

lemma upstream_lookup:
  "map_of (settings_props f ps) (js ''upstream_model_update_check_enabled'') =
     (if f_type f \<in> set MODEL_FETCHABLE_TYPES then Some (JBool (is_true (f_upstream_check_enabled f)))
      else map_of ps (js ''upstream_model_update_check_enabled''))"
  "map_of (settings_props f ps) (js ''upstream_model_update_auto_sync_enabled'') =
     (if f_type f \<in> set MODEL_FETCHABLE_TYPES
      then Some (JBool (is_true (f_upstream_check_enabled f) \<and> is_true (f_upstream_auto_sync_enabled f)))
      else map_of ps (js ''upstream_model_update_auto_sync_enabled''))"
  "map_of (settings_props f ps) (js ''upstream_model_update_ignored_models'') =
     (if f_type f \<in> set MODEL_FETCHABLE_TYPES then Some (JArr (map JStr (ignored_models f)))
      else map_of ps (js ''upstream_model_update_ignored_models''))"
  by (simp_all add: settings_props_def upstream_options_def Let_def reset_detected_lookup
      reset_check_time_lookup js_inject untouched_lookup fld_obj)

lemma upstream_state_lookup:
  "map_of (settings_props f ps) (js ''upstream_model_update_last_detected_models'') =
     (if f_type f \<in> set MODEL_FETCHABLE_TYPES \<and>
         (\<not> is_array (fld (JObj ps) ''upstream_model_update_last_detected_models'') \<or>
          \<not> is_true (f_upstream_check_enabled f)) then Some (JArr [])
      else map_of ps (js ''upstream_model_update_last_detected_models''))"
  "map_of (settings_props f ps) (js ''upstream_model_update_last_check_time'') =
     (if f_type f \<in> set MODEL_FETCHABLE_TYPES \<and>
         \<not> is_num (fld (JObj ps) ''upstream_model_update_last_check_time'') then Some (JNum (Fin 0))
      else map_of ps (js ''upstream_model_update_last_check_time''))"
  by (simp_all add: settings_props_def upstream_options_def Let_def reset_detected_lookup
      reset_check_time_lookup js_inject untouched_lookup fld_obj)

lemmas settings_lookup = provider_lookup passthrough_lookup upstream_lookup

subsection \<open>Saving and reopening the \<open>settings\<close> text\<close>

text \<open>The strings of a form are sequences of 16-bit units.\<close>

definition wf_options :: "channel_form \<Rightarrow> bool" where
  "wf_options f \<longleftrightarrow> list_all (optional plain)
     [f_proxy f, f_system_prompt f, f_azure_responses_version f, f_upstream_ignored_models f]"

lemma wf_split_trim:
  assumes "wf_units s" and "p \<in> set (split_trim c s)"
  shows "wf_units p"
proof -
  obtain q where q: "q \<in> set (split_char c s)" "p = trim q"
    using assms(2) by (auto simp: split_trim_def)
  then have "set p \<subseteq> set s" using set_trim [of q] split_char_units [of q c s] by blast
  with assms(1) show ?thesis by (auto simp: wf_units_def list_all_iff)
qed

lemma plain_ignored:
  assumes "optional is_form_string (f_upstream_ignored_models f)" "optional plain (f_upstream_ignored_models f)"
  shows "plain (JArr (map JStr (ignored_models f)))"
proof -
  have "wf_units (to_str (js_or (f_upstream_ignored_models f) (jstr '''')))"
    using assms by (cases "f_upstream_ignored_models f")
      (auto simp: optional_def is_form_string_def js_or_def jstr_def js_lit)
  then show ?thesis by (auto simp: ignored_models_def list_all_iff dest: wf_split_trim)
qed

lemma plain_jstr [simp]: "plain (jstr s)"
  by (simp add: jstr_def)

lemma plain_js_or: "optional plain a \<Longrightarrow> plain b \<Longrightarrow> plain (js_or a b)"
  by (auto simp: js_or_def optional_def)

lemma one_of_plain: "optional (one_of ss) v \<Longrightarrow> optional plain v"
  by (auto simp: optional_def one_of_def)

lemma truthy_plain: "optional plain v \<Longrightarrow> truthy v \<Longrightarrow> plain v"
  by (auto simp: optional_def)

lemma num_token_0: "num_token (Fin 0)"
  by code_simp

lemma owned_keys: "\<not> is_index_key (js ''vertex_key_type'')" "\<not> is_index_key (js ''azure_responses_version'')"
  "\<not> is_index_key (js ''openrouter_enterprise'')" "\<not> is_index_key (js ''aws_key_type'')"
  "\<not> is_index_key (js ''allow_service_tier'')" "\<not> is_index_key (js ''disable_store'')"
  "\<not> is_index_key (js ''allow_safety_identifier'')" "\<not> is_index_key (js ''allow_include_obfuscation'')"
  "\<not> is_index_key (js ''allow_inference_geo'')" "\<not> is_index_key (js ''allow_speed'')"
  "\<not> is_index_key (js ''claude_beta_query'')"
  "\<not> is_index_key (js ''upstream_model_update_check_enabled'')"
  "\<not> is_index_key (js ''upstream_model_update_auto_sync_enabled'')"
  "\<not> is_index_key (js ''upstream_model_update_ignored_models'')"
  "\<not> is_index_key (js ''upstream_model_update_last_detected_models'')"
  "\<not> is_index_key (js ''upstream_model_update_last_check_time'')"
  by (simp_all add: index_key_lit is_digit_def)

lemma plain_provider:
  assumes "plain (JObj ps)" "type_schema f" "wf_options f"
  shows "plain (JObj (provider_options f ps))"
proof -
  have "optional plain (f_vertex_key_type f)" "optional plain (f_aws_key_type f)"
    using assms(2) by (auto simp: type_schema_def intro: one_of_plain)
  moreover have "optional plain (f_azure_responses_version f)" using assms(3) by (simp add: wf_options_def)
  ultimately show ?thesis using assms(1) unfolding provider_options_def Let_def
    by (intro plain_set_or_delete owned_keys plain_js_or plain_jstr) (auto intro: truthy_plain)
qed

lemma plain_passthrough:
  assumes "plain (JObj ps)"
  shows "plain (JObj (passthrough_options f ps))"
proof -
  let ?qs = "set_or_delete (type_is 1 f \<or> type_is 14 f) ''allow_service_tier''
    (JBool (is_true (f_allow_service_tier f))) ps"
  have "plain (JObj ?qs)" by (intro plain_set_or_delete owned_keys assms) simp
  then have "plain (JObj (openai_options f ?qs))" unfolding openai_options_def Let_def
    by (auto simp del: plain.simps(7) intro!: plain_obj_set plain_obj_delete owned_keys)
  then show ?thesis unfolding passthrough_options_def anthropic_options_def Let_def
    by (auto simp del: plain.simps(7) intro!: plain_obj_set plain_obj_delete owned_keys)
qed

lemma plain_upstream:
  assumes "plain (JObj ps)" "type_schema f" "wf_options f"
  shows "plain (JObj (upstream_options f ps))"
proof -
  have "plain (JArr (map JStr (ignored_models f)))"
    using assms by (intro plain_ignored) (simp_all add: type_schema_def wf_options_def)
  then show ?thesis using assms(1) num_token_0
    unfolding upstream_options_def reset_check_time_def reset_detected_def Let_def
    by (auto simp del: plain.simps(6,7) intro!: plain_obj_set owned_keys simp: plain.simps(6) [of "[]"])
qed

lemma plain_settings_props:
  "plain (JObj ps) \<Longrightarrow> type_schema f \<Longrightarrow> wf_options f \<Longrightarrow> plain (JObj (settings_props f ps))"
  unfolding settings_props_def by (intro plain_upstream plain_passthrough plain_provider)

lemma printed_object: "plain (JObj ps) \<Longrightarrow> truthy (JStr (json_print (JObj ps)))"
  using json_print_first [of "JObj ps"] by auto

lemma parse_printed:
  "plain (JObj ps) \<Longrightarrow> parse_stored (JStr (json_print (JObj ps))) = Some (JObj ps)"
  by (simp add: parse_stored_def json_roundtrip del: plain.simps json_print.simps)

text \<open>The options a channel of the form's type can hold: what reopening shows.\<close>

definition saved_options :: "extra_settings \<Rightarrow> channel_form \<Rightarrow> jsval \<Rightarrow> type_settings" where
  "saved_options x f stored =
     (let fetchable = f_type f \<in> set MODEL_FETCHABLE_TYPES; flag = (\<lambda>b v. JBool (b \<and> is_true v)) in
      \<lparr>f_force_format = f_force_format x, f_thinking_to_content = f_thinking_to_content x,
       f_proxy = f_proxy x, f_pass_through_body_enabled = f_pass_through_body_enabled x,
       f_system_prompt = f_system_prompt x, f_system_prompt_override = f_system_prompt_override x,
       f_is_enterprise_account = flag (type_is 20 f) (f_is_enterprise_account f),
       f_vertex_key_type = (if type_is 41 f then js_or (f_vertex_key_type f) (jstr ''json'') else jstr ''json''),
       f_aws_key_type = (if type_is 33 f then js_or (f_aws_key_type f) (jstr ''ak_sk'') else jstr ''ak_sk''),
       f_azure_responses_version =
         (if type_is 3 f then js_or (f_azure_responses_version f) (jstr '''') else jstr ''''),
       f_allow_service_tier = flag (type_is 1 f \<or> type_is 14 f) (f_allow_service_tier f),
       f_disable_store = flag (type_is 1 f) (f_disable_store f),
       f_allow_safety_identifier = flag (type_is 1 f) (f_allow_safety_identifier f),
       f_allow_include_obfuscation = flag (type_is 1 f) (f_allow_include_obfuscation f),
       f_allow_inference_geo = flag (type_is 1 f \<or> type_is 14 f) (f_allow_inference_geo f),
       f_allow_speed = flag (type_is 14 f) (f_allow_speed f),
       f_claude_beta_query = flag (type_is 14 f) (f_claude_beta_query f),
       f_upstream_check_enabled =
         (if fetchable then JBool (is_true (f_upstream_check_enabled f))
          else is_true_prop stored ''upstream_model_update_check_enabled''),
       f_upstream_auto_sync_enabled =
         (if fetchable then flag (is_true (f_upstream_check_enabled f)) (f_upstream_auto_sync_enabled f)
          else is_true_prop stored ''upstream_model_update_auto_sync_enabled''),
       f_upstream_ignored_models =
         (if fetchable then JStr (js_join [44] (ignored_models f))
          else joined (fld stored ''upstream_model_update_ignored_models''))\<rparr>)"

lemma js_or_again: "js_or (js_or a b) b = js_or a b"
  by (simp add: js_or_def)

lemma joined_strings: "joined (JArr (map JStr xs)) = JStr (js_join [44] xs)"
  by (simp add: joined_def comp_def)

lemma fld_flag: "map_of ps (js k) = flag_for b v \<Longrightarrow> is_true_prop (JObj ps) k = JBool (b \<and> is_true v)"
  by (simp add: is_true_prop_def fld_obj flag_for_def)

lemma read_saved: "read_type_settings x (JObj (settings_props f ps)) = saved_options x f (JObj ps)"
proof -
  let ?v = "JObj (settings_props f ps)"
  note flags = passthrough_lookup [THEN fld_flag, of f ps] provider_lookup(3) [THEN fld_flag, of f ps]
  have "js_or (fld ?v ''vertex_key_type'') (jstr ''json'') =
      (if type_is 41 f then js_or (f_vertex_key_type f) (jstr ''json'') else jstr ''json'')"
    "js_or (fld ?v ''aws_key_type'') (jstr ''ak_sk'') =
      (if type_is 33 f then js_or (f_aws_key_type f) (jstr ''ak_sk'') else jstr ''ak_sk'')"
    "js_or (fld ?v ''azure_responses_version'') (jstr '''') =
      (if type_is 3 f then js_or (f_azure_responses_version f) (jstr '''') else jstr '''')"
    by (simp_all add: fld_obj provider_lookup js_or_again) (simp_all add: js_or_def)
  moreover have "is_true_prop ?v ''upstream_model_update_check_enabled'' =
      (if f_type f \<in> set MODEL_FETCHABLE_TYPES then JBool (is_true (f_upstream_check_enabled f))
       else is_true_prop (JObj ps) ''upstream_model_update_check_enabled'')"
    "is_true_prop ?v ''upstream_model_update_auto_sync_enabled'' =
      (if f_type f \<in> set MODEL_FETCHABLE_TYPES
       then JBool (is_true (f_upstream_check_enabled f) \<and> is_true (f_upstream_auto_sync_enabled f))
       else is_true_prop (JObj ps) ''upstream_model_update_auto_sync_enabled'')"
    "joined (fld ?v ''upstream_model_update_ignored_models'') =
      (if f_type f \<in> set MODEL_FETCHABLE_TYPES then JStr (js_join [44] (ignored_models f))
       else joined (fld (JObj ps) ''upstream_model_update_ignored_models''))"
    by (simp_all add: is_true_prop_def fld_obj upstream_lookup joined_strings)
  ultimately show ?thesis unfolding read_type_settings_def saved_options_def Let_def flags by simp
qed

lemma built_settings:
  assumes "type_schema f" "wf_options f" "stored_settings f = JObj ps" "plain (JObj ps)"
  shows "buildSettingsJSON f = Inr (json_print (JObj (settings_props f ps)))"
    and "parse_stored (JStr (json_print (JObj (settings_props f ps)))) = Some (JObj (settings_props f ps))"
    and "typeSettings x (JStr (json_print (JObj (settings_props f ps)))) = saved_options x f (JObj ps)"
proof -
  have p: "plain (JObj (settings_props f ps))" by (rule plain_settings_props) (rule assms)+
  show "buildSettingsJSON f = Inr (json_print (JObj (settings_props f ps)))"
    by (simp only: buildSettingsJSON_def assms(3) jsval.case)
  show st: "parse_stored (JStr (json_print (JObj (settings_props f ps)))) = Some (JObj (settings_props f ps))"
    by (rule parse_printed [OF p])
  show "typeSettings x (JStr (json_print (JObj (settings_props f ps)))) = saved_options x f (JObj ps)"
    unfolding typeSettings_def st using printed_object [OF p] by (simp only: if_True option.case read_saved)
qed

text \<open>The type specific options survive saving and reopening a channel: the \<open>settings\<close> text that
  \<open>buildSettingsJSON\<close> writes for an accepted form always exists, and reading it back gives exactly the
  options a channel of the form's type can have (options of other types are reset to their defaults,
  automatic model synchronisation is on only together with the check, the ignored models are trimmed
  and without duplicates), while every stored property the form does not know is kept.\<close>

theorem settings_reload:
  assumes "channelFormSchema f" and "wf_options f" and "stored_settings f = JObj ps" and "plain (JObj ps)"
  shows "\<exists>s qs. buildSettingsJSON f = Inr s \<and> typeSettings x (JStr s) = saved_options x f (JObj ps) \<and>
    json_parse s = Some (JObj qs) \<and> (\<forall>q. q \<notin> js ` set OWNED_SETTINGS \<longrightarrow> map_of qs q = map_of ps q)"
proof (intro exI conjI allI impI)
  have t: "type_schema f" using assms(1) by (simp add: channelFormSchema_def)
  let ?qs = "settings_props f ps"
  show "buildSettingsJSON f = Inr (json_print (JObj ?qs))"
    "typeSettings x (JStr (json_print (JObj ?qs))) = saved_options x f (JObj ps)"
    by (rule built_settings [OF t assms(2-4)])+
  show "json_parse (json_print (JObj ?qs)) = Some (JObj ?qs)"
    by (rule json_roundtrip) (rule plain_settings_props [OF assms(4) t assms(2)])
  show "map_of ?qs q = map_of ps q" if "q \<notin> js ` set OWNED_SETTINGS" for q
    by (rule unowned_kept [OF that])
qed

definition sample_form :: channel_form where
  "sample_form = CHANNEL_FORM_DEFAULT_VALUES
     \<lparr>f_name := jstr ''main'', f_models := jstr ''gpt-4'', f_proxy := jstr ''socks5://p'',
      f_settings := jstr ''{\"note\":true,\"vertex_key_type\":\"json\"}'',
      f_upstream_check_enabled := JBool True, f_upstream_ignored_models := jstr '' a,b,a''\<rparr>"

lemma sample_schema: "channelFormSchema sample_form"
  by code_simp

lemma sample_wf: "wf_options sample_form"
  by code_simp

lemma sample_stored:
  "stored_settings sample_form = JObj [(js ''note'', JBool True), (js ''vertex_key_type'', jstr ''json'')]"
  "plain (JObj [(js ''note'', JBool True), (js ''vertex_key_type'', jstr ''json'')])"
  by code_simp+

theorem settings_reload_witness:
  "\<exists>s qs. buildSettingsJSON sample_form = Inr s \<and>
    typeSettings DEFAULT_EXTRA (JStr s) = saved_options DEFAULT_EXTRA sample_form
      (JObj [(js ''note'', JBool True), (js ''vertex_key_type'', jstr ''json'')]) \<and>
    json_parse s = Some (JObj qs) \<and> map_of qs (js ''note'') = Some (JBool True)"
proof -
  have "js ''note'' \<notin> js ` set OWNED_SETTINGS" by (auto simp: OWNED_SETTINGS_def js_inject)
  then show ?thesis
    using settings_reload [OF sample_schema sample_wf sample_stored, of DEFAULT_EXTRA] by fastforce
qed

subsection \<open>Saving again\<close>

text \<open>The form shows the options \<open>t\<close>.\<close>

definition shows_options :: "channel_form \<Rightarrow> type_settings \<Rightarrow> bool" where
  "shows_options f t \<longleftrightarrow>
     f_is_enterprise_account f = f_is_enterprise_account t \<and> f_vertex_key_type f = f_vertex_key_type t \<and>
     f_aws_key_type f = f_aws_key_type t \<and> f_azure_responses_version f = f_azure_responses_version t \<and>
     f_allow_service_tier f = f_allow_service_tier t \<and> f_disable_store f = f_disable_store t \<and>
     f_allow_safety_identifier f = f_allow_safety_identifier t \<and>
     f_allow_include_obfuscation f = f_allow_include_obfuscation t \<and>
     f_allow_inference_geo f = f_allow_inference_geo t \<and> f_allow_speed f = f_allow_speed t \<and>
     f_claude_beta_query f = f_claude_beta_query t \<and>
     f_upstream_check_enabled f = f_upstream_check_enabled t \<and>
     f_upstream_auto_sync_enabled f = f_upstream_auto_sync_enabled t \<and>
     f_upstream_ignored_models f = f_upstream_ignored_models t"

lemma set_or_delete_same:
  "distinct (map fst ps) \<Longrightarrow> map_of ps (js k) = (if b then Some v else None) \<Longrightarrow> set_or_delete b k v ps = ps"
  by (simp add: set_or_delete_def obj_set_same obj_delete_same split: if_splits)

lemma obj_flag_same:
  "distinct (map fst ps) \<Longrightarrow> map_of ps (js k) = flag_for True v \<Longrightarrow> obj_set k (JBool (is_true v)) ps = ps"
  by (simp add: flag_for_def obj_set_same)

lemma obj_unflag_same: "map_of ps (js k) = flag_for False v \<Longrightarrow> obj_delete k ps = ps"
  by (simp add: flag_for_def obj_delete_same)

lemma provider_same:
  assumes "distinct (map fst ps)"
    and "map_of ps (js ''vertex_key_type'') =
      (if type_is 41 f then Some (js_or (f_vertex_key_type f) (jstr ''json'')) else None)"
    and "map_of ps (js ''azure_responses_version'') =
      (if type_is 3 f \<and> truthy (f_azure_responses_version f) then Some (f_azure_responses_version f) else None)"
    and "map_of ps (js ''openrouter_enterprise'') = flag_for (type_is 20 f) (f_is_enterprise_account f)"
    and "map_of ps (js ''aws_key_type'') =
      (if type_is 33 f then Some (js_or (f_aws_key_type f) (jstr ''ak_sk'')) else None)"
  shows "provider_options f ps = ps"
  unfolding provider_options_def Let_def
  by (simp only: set_or_delete_same [OF assms(1)] assms flag_for_def)

lemma passthrough_same:
  assumes "distinct (map fst ps)"
    and "map_of ps (js ''allow_service_tier'') = flag_for (type_is 1 f \<or> type_is 14 f) (f_allow_service_tier f)"
    and "map_of ps (js ''disable_store'') = flag_for (type_is 1 f) (f_disable_store f)"
    and "map_of ps (js ''allow_safety_identifier'') = flag_for (type_is 1 f) (f_allow_safety_identifier f)"
    and "map_of ps (js ''allow_include_obfuscation'') = flag_for (type_is 1 f) (f_allow_include_obfuscation f)"
    and "map_of ps (js ''allow_inference_geo'') = flag_for (type_is 1 f \<or> type_is 14 f) (f_allow_inference_geo f)"
    and "map_of ps (js ''allow_speed'') = flag_for (type_is 14 f) (f_allow_speed f)"
    and "map_of ps (js ''claude_beta_query'') = flag_for (type_is 14 f) (f_claude_beta_query f)"
  shows "passthrough_options f ps = ps"
proof -
  have "set_or_delete (type_is 1 f \<or> type_is 14 f) ''allow_service_tier''
      (JBool (is_true (f_allow_service_tier f))) ps = ps"
    by (rule set_or_delete_same [OF assms(1)]) (simp only: assms(2) flag_for_def)
  moreover have "openai_options f ps = ps" using assms
    by (cases "type_is 1 f"; cases "type_is 14 f")
      (simp_all only: openai_options_def Let_def if_True if_False simp_thms obj_flag_same obj_unflag_same)
  moreover have "anthropic_options f ps = ps" using assms
    by (cases "type_is 14 f")
      (simp_all only: anthropic_options_def Let_def if_True if_False simp_thms obj_flag_same obj_unflag_same)
  ultimately show ?thesis by (simp only: passthrough_options_def)
qed

lemma upstream_same:
  assumes "distinct (map fst ps)" and "f_type f \<in> set MODEL_FETCHABLE_TYPES"
    and "map_of ps (js ''upstream_model_update_check_enabled'') = Some (JBool (is_true (f_upstream_check_enabled f)))"
    and "map_of ps (js ''upstream_model_update_auto_sync_enabled'') =
      Some (JBool (is_true (f_upstream_check_enabled f) \<and> is_true (f_upstream_auto_sync_enabled f)))"
    and "map_of ps (js ''upstream_model_update_ignored_models'') = Some (JArr (map JStr (ignored_models f)))"
    and "map_of ps (js ''upstream_model_update_last_detected_models'') = Some (JArr vs)"
    and "\<not> is_true (f_upstream_check_enabled f) \<Longrightarrow> vs = []"
    and "map_of ps (js ''upstream_model_update_last_check_time'') = Some (JNum n)"
  shows "upstream_options f ps = ps"
proof -
  have f: "fld (JObj ps) ''upstream_model_update_check_enabled'' = JBool (is_true (f_upstream_check_enabled f))"
    by (simp add: fld_obj assms)
  have "reset_detected ps = ps"
  proof (cases "is_true (f_upstream_check_enabled f)")
    case True
    then show ?thesis by (simp add: reset_detected_def fld_obj is_array_def assms)
  next
    case False
    then have "map_of ps (js ''upstream_model_update_last_detected_models'') = Some (JArr [])" using assms(6,7) by simp
    from obj_set_same [OF assms(1) this] show ?thesis by (simp add: reset_detected_def)
  qed
  moreover have "reset_check_time ps = ps" by (simp add: reset_check_time_def fld_obj is_num_def assms)
  moreover have "is_true (fld (JObj ps) ''upstream_model_update_check_enabled'') = is_true (f_upstream_check_enabled f)"
    by (simp add: f)
  ultimately show ?thesis
    by (simp only: upstream_options_def Let_def assms(2) if_True obj_set_same [OF assms(1) assms(3)]
        obj_set_same [OF assms(1) assms(4)] obj_set_same [OF assms(1) assms(5)])
qed

lemma flag_again:
  "flag_for b (JBool (b \<and> is_true v)) = flag_for b v"
  by (simp add: flag_for_def)

lemma split_ignored: "js_set (split_trim 44 (js_join [44] (ignored_models f))) = ignored_models f"
proof -
  have "\<forall>p \<in> set (ignored_models f). clean_item 44 p"
    by (auto simp: ignored_models_def dest: split_trim_clean)
  then show ?thesis by (simp add: split_trim_join js_set_distinct ignored_models_def)
qed

lemma ignored_again:
  assumes "f_upstream_ignored_models g = JStr (js_join [44] (ignored_models f))"
  shows "ignored_models g = ignored_models f"
proof -
  have "to_str (js_or (f_upstream_ignored_models g) (jstr '''')) = js_join [44] (ignored_models f)"
    by (simp add: assms js_or_def jstr_def)
  then show ?thesis by (simp only: ignored_models_def [of g] split_ignored)
qed

lemma upstream_again:
  assumes g: "f_type g = f_type f" "shows_options g (saved_options x f (JObj ps))"
    and d: "distinct (map fst (settings_props f ps))"
  shows "upstream_options g (settings_props f ps) = settings_props f ps"
proof (cases "f_type f \<in> set MODEL_FETCHABLE_TYPES")
  case True
  have c: "is_true (f_upstream_check_enabled g) = is_true (f_upstream_check_enabled f)"
    "is_true (f_upstream_check_enabled g) \<and> is_true (f_upstream_auto_sync_enabled g) \<longleftrightarrow>
      is_true (f_upstream_check_enabled f) \<and> is_true (f_upstream_auto_sync_enabled f)"
    using True g(2) by (auto simp: shows_options_def saved_options_def Let_def)
  have "ignored_models g = ignored_models f"
    using True g(2) by (intro ignored_again) (simp add: shows_options_def saved_options_def Let_def)
  note ups = upstream_lookup [of f ps, unfolded if_P [OF True], folded this c]
  obtain vs where v: "map_of (settings_props f ps) (js ''upstream_model_update_last_detected_models'') = Some (JArr vs)"
      "\<not> is_true (f_upstream_check_enabled g) \<Longrightarrow> vs = []"
    using True unfolding c(1)
    by (cases "fld (JObj ps) ''upstream_model_update_last_detected_models''"; cases "is_true (f_upstream_check_enabled f)")
      (auto simp: upstream_state_lookup is_array_def fld_obj split: option.splits)
  obtain n where n: "map_of (settings_props f ps) (js ''upstream_model_update_last_check_time'') = Some (JNum n)"
    using True by (cases "fld (JObj ps) ''upstream_model_update_last_check_time''")
      (auto simp: upstream_state_lookup is_num_def fld_obj split: option.splits)
  show ?thesis using True g(1) by (intro upstream_same [OF d _ ups v n]) simp_all
qed (simp add: upstream_options_def g(1))

lemma settings_again:
  assumes g: "f_type g = f_type f" "shows_options g (saved_options x f (JObj ps))"
    and d: "distinct (map fst (settings_props f ps))"
  shows "settings_props g (settings_props f ps) = settings_props f ps"
proof -
  have ty: "type_is n g = type_is n f" for n by (simp add: type_is_iff g(1))
  note o = g(2) [unfolded shows_options_def saved_options_def Let_def, simplified]
  have "provider_options g (settings_props f ps) = settings_props f ps"
    by (rule provider_same [OF d])
      (use o in \<open>simp_all add: provider_lookup ty flag_for_def js_or_def jstr_def\<close>)
  moreover have "passthrough_options g (settings_props f ps) = settings_props f ps"
    by (rule passthrough_same [OF d]) (use o in \<open>simp_all add: passthrough_lookup ty flag_for_def\<close>)
  ultimately show ?thesis
    by (simp only: settings_props_def [of g] upstream_again [OF g d])
qed

end
