(* ===== verification/ChannelMapping.thy ===== *)
theory ChannelMapping
  imports JsValue
begin

section \<open>Channel mappings: model redirects, status code redirects, upstream updates\<close>

text \<open>
  \<open>features/channels/lib/model-mapping-validation.ts\<close>, \<open>status-code-risk-guard.ts\<close> and
  \<open>upstream-update-utils.ts\<close>: what the channel editor reads out of the JSON texts an administrator
  types. Texts that do not parse as a JSON object count as no mapping.

  A \<open>Set\<close> of the code is the list of its members in insertion order.
\<close>

subsection \<open>JSON objects typed as text\<close>

text \<open>\<open>JSON.parse\<close> guarded by \<open>!parsed || typeof parsed !== 'object' || Array.isArray(parsed)\<close> and
  \<open>catch\<close>: the entries of the object in the order of \<open>Object.entries\<close>, \<open>None\<close> otherwise.\<close>

definition parse_object :: "jsstr \<Rightarrow> (jsstr \<times> jsval) list option" where
  "parse_object s = (case json_parse s of Some (JObj ps) \<Rightarrow> Some (obj_entries ps) | _ \<Rightarrow> None)"

definition entries_of :: "jsstr \<Rightarrow> (jsstr \<times> jsval) list" where
  "entries_of s = (case parse_object s of Some ps \<Rightarrow> ps | None \<Rightarrow> [])"

subsection \<open>Model lists\<close>

definition parseModelsString :: "jsstr \<Rightarrow> jsstr list" where
  "parseModelsString modelsStr = (if modelsStr = [] then [] else split_trim 44 modelsStr)"

definition formatModelsArray :: "jsstr list \<Rightarrow> jsstr" where
  "formatModelsArray models = js_join [44] (js_set models)"

definition normalizeModelName :: "jsval \<Rightarrow> jsstr" where
  "normalizeModelName model = (case model of JStr s \<Rightarrow> trim s | _ \<Rightarrow> [])"

definition extractMappingSourceModels :: "jsval \<Rightarrow> jsstr list" where
  "extractMappingSourceModels modelMapping =
     (case modelMapping of
        JStr s \<Rightarrow>
          if trim s = [] then []
          else js_set (filter (\<lambda>k. k \<noteq> []) (map (\<lambda>e. trim (fst e)) (entries_of (trim s))))
      | _ \<Rightarrow> [])"

definition trimmed_value :: "jsval \<Rightarrow> jsstr option" where
  "trimmed_value v = (case v of JStr s \<Rightarrow> if trim s = [] then None else Some (trim s) | _ \<Rightarrow> None)"

definition extractRedirectModels :: "jsval \<Rightarrow> jsstr list" where
  "extractRedirectModels modelMapping =
     (case modelMapping of
        JStr s \<Rightarrow>
          if trim s = [] then []
          else js_set (List.map_filter (\<lambda>e. trimmed_value (snd e)) (entries_of (trim s)))
      | _ \<Rightarrow> [])"

text \<open>The loop over the indices of two lists of the same length.\<close>

fun some_differs :: "jsstr list \<Rightarrow> jsstr list \<Rightarrow> bool" where
  "some_differs (x # xs) (y # ys) = (if x \<noteq> y then True else some_differs xs ys)"
| "some_differs _ _ = False"

definition hasModelConfigChanged :: "jsstr list \<Rightarrow> jsstr \<Rightarrow> jsstr list \<Rightarrow> jsstr \<Rightarrow> bool" where
  "hasModelConfigChanged currentModels currentModelMapping initialModels initialModelMapping =
     (if initialModels = [] \<and> initialModelMapping = [] then True
      else if length currentModels \<noteq> length initialModels then True
      else if some_differs currentModels initialModels then True
      else trim currentModelMapping \<noteq> trim initialModelMapping)"

definition findMissingModelsInMapping :: "jsstr \<Rightarrow> jsstr list \<Rightarrow> jsstr list" where
  "findMissingModelsInMapping modelMapping currentModels =
     (if modelMapping = [] \<or> trim modelMapping = [] then []
      else case parse_object modelMapping of
        None \<Rightarrow> []
      | Some entries \<Rightarrow>
        (let modelSet = js_set (map (\<lambda>m. normalizeModelName (JStr m)) currentModels)
         in js_set (filter (\<lambda>key. key \<noteq> [] \<and> key \<notin> set modelSet)
              (map (\<lambda>e. normalizeModelName (JStr (fst e))) entries))))"

definition validateModelMappingJson :: "jsstr \<Rightarrow> bool \<times> jsstr option" where
  "validateModelMappingJson modelMapping =
     (if modelMapping = [] \<or> trim modelMapping = [] then (True, None)
      else case json_parse modelMapping of
        None \<Rightarrow> (False, Some (js ''Model mapping must be valid JSON format''))
      | Some parsed \<Rightarrow>
        if \<not> is_plain_object parsed
        then (False, Some (js ''Model mapping must be a valid JSON object'')) else (True, None))"

definition findExposedTargetModels :: "jsval \<Rightarrow> jsstr list \<Rightarrow> jsstr list" where
  "findExposedTargetModels modelMapping currentModels =
     (let redirectModels = extractRedirectModels modelMapping
      in if redirectModels = [] then []
         else let modelSet = js_set (map (\<lambda>m. normalizeModelName (JStr m)) currentModels)
         in filter (\<lambda>model. normalizeModelName (JStr model) \<in> set modelSet) redirectModels)"

record model_categories =
  normalizedCurrentModels :: "jsstr list"
  normalizedRedirectModels :: "jsstr list"
  classificationSet :: "jsstr list"
  redirectOnlySet :: "jsstr list"

definition categorizeModelsWithRedirect :: "jsstr list \<Rightarrow> jsstr list \<Rightarrow> model_categories" where
  "categorizeModelsWithRedirect currentModels redirectModels =
     (let current = js_set (filter (\<lambda>m. m \<noteq> []) (map (\<lambda>m. normalizeModelName (JStr m)) currentModels));
          redirect = js_set (filter (\<lambda>m. m \<noteq> []) (map (\<lambda>m. normalizeModelName (JStr m)) redirectModels))
      in \<lparr>normalizedCurrentModels = current, normalizedRedirectModels = redirect,
          classificationSet = js_set (current @ redirect),
          redirectOnlySet = js_set (filter (\<lambda>m. m \<notin> set current) redirect)\<rparr>)"

subsection \<open>Status code redirects\<close>

definition NON_REDIRECTABLE_STATUS_CODES :: "int list" where
  "NON_REDIRECTABLE_STATUS_CODES = [504, 524]"

text \<open>\<open>/^[1-5]\d{2}$/\<close>.\<close>

definition is_status_text :: "jsstr \<Rightarrow> bool" where
  "is_status_text s \<longleftrightarrow> length s = 3 \<and> 49 \<le> s ! 0 \<and> s ! 0 \<le> 53 \<and> is_digit (s ! 1) \<and> is_digit (s ! 2)"

definition parseStatusCodeKey :: "jsstr \<Rightarrow> int option" where
  "parseStatusCodeKey rawKey =
     (let normalized = trim rawKey
      in if \<not> is_status_text normalized then None else Some (digits_val normalized))"

definition parseStatusCodeMappingTarget :: "jsval \<Rightarrow> int option" where
  "parseStatusCodeMappingTarget rawValue =
     (case rawValue of
        JNum (Fin r) \<Rightarrow>
          if is_integer (Fin r) then (if 100 \<le> \<lfloor>r\<rfloor> \<and> \<lfloor>r\<rfloor> \<le> 599 then Some \<lfloor>r\<rfloor> else None) else None
      | JStr s \<Rightarrow>
          (let normalized = trim s
           in if \<not> is_status_text normalized then None
              else if 100 \<le> digits_val normalized \<and> digits_val normalized \<le> 599
              then Some (digits_val normalized) else None)
      | _ \<Rightarrow> None)"

text \<open>The text argument may be missing (\<open>?.\<close>).\<close>

definition mapping_entries :: "jsstr option \<Rightarrow> (jsstr \<times> jsval) list" where
  "mapping_entries str =
     (case str of None \<Rightarrow> [] | Some s \<Rightarrow> if trim s = [] then [] else entries_of s)"

definition collectInvalidStatusCodeEntries :: "jsstr option \<Rightarrow> jsstr list" where
  "collectInvalidStatusCodeEntries str =
     List.map_filter (\<lambda>(rawKey, rawValue).
        if parseStatusCodeKey rawKey = None \<or> parseStatusCodeMappingTarget rawValue = None
        then Some (rawKey @ [32, 8594, 32] @ to_str rawValue) else None) (mapping_entries str)"

definition risky_mapping :: "jsstr \<times> jsval \<Rightarrow> jsstr option" where
  "risky_mapping e =
     (case (parseStatusCodeKey (fst e), parseStatusCodeMappingTarget (snd e)) of
        (Some fromCode, Some toCode) \<Rightarrow>
          if fromCode \<notin> set NON_REDIRECTABLE_STATUS_CODES then None
          else if fromCode = toCode then None
          else Some (int_str fromCode @ js '' -> '' @ int_str toCode)
      | _ \<Rightarrow> None)"

definition collectDisallowedStatusCodeRedirects :: "jsstr option \<Rightarrow> jsstr list" where
  "collectDisallowedStatusCodeRedirects str =
     js_sort code_unit_compare (js_set (List.map_filter risky_mapping (mapping_entries str)))"

definition collectNewDisallowedStatusCodeRedirects :: "jsstr option \<Rightarrow> jsstr option \<Rightarrow> jsstr list" where
  "collectNewDisallowedStatusCodeRedirects originalStr currentStr =
     (let currentRisky = collectDisallowedStatusCodeRedirects currentStr
      in if currentRisky = [] then []
         else let originalRiskySet = js_set (collectDisallowedStatusCodeRedirects originalStr)
         in filter (\<lambda>mapping. mapping \<notin> set originalRiskySet) currentRisky)"

subsection \<open>Upstream model updates\<close>

text \<open>\<open>normalizeModelList\<close> is applied to \<open>x || []\<close>; a truthy value that is not an array has no
  \<open>map\<close> and the call throws, which is \<open>None\<close> here.\<close>

definition normalizeModelList :: "jsval list \<Rightarrow> jsstr list" where
  "normalizeModelList models =
     js_set (filter (\<lambda>m. m \<noteq> []) (map (\<lambda>model. trim (if truthy model then to_str model else [])) models))"

definition model_list_field :: "jsval \<Rightarrow> jsstr list option" where
  "model_list_field v =
     (if truthy v then (case v of JArr vs \<Rightarrow> Some (normalizeModelList vs) | _ \<Rightarrow> None)
      else Some (normalizeModelList []))"

record upstream_meta =
  meta_enabled :: bool
  pendingAddModels :: "jsstr list"
  pendingRemoveModels :: "jsstr list"

definition settings_object :: "jsval \<Rightarrow> jsval" where
  "settings_object settings =
     (case settings of
        JObj _ \<Rightarrow> settings
      | JStr s \<Rightarrow> (case json_parse s of Some v \<Rightarrow> v | None \<Rightarrow> JNull)
      | _ \<Rightarrow> JNull)"

definition parseUpstreamUpdateMeta :: "jsval \<Rightarrow> upstream_meta option" where
  "parseUpstreamUpdateMeta settings =
     (let parsed = settings_object settings;
          none = Some \<lparr>meta_enabled = False, pendingAddModels = [], pendingRemoveModels = []\<rparr>;
          some = (case (model_list_field (obj_get parsed (js ''upstream_model_update_last_detected_models'')),
                        model_list_field (obj_get parsed (js ''upstream_model_update_last_removed_models''))) of
             (Some add, Some rem) \<Rightarrow>
               Some \<lparr>meta_enabled = (obj_get parsed (js ''upstream_model_update_check_enabled'') = JBool True),
                     pendingAddModels = add, pendingRemoveModels = rem\<rparr>
           | _ \<Rightarrow> None)
      in case parsed of JObj _ \<Rightarrow> some | JArr _ \<Rightarrow> some | _ \<Rightarrow> none)"

subsection \<open>Comma-separated lists\<close>

text \<open>
  The contract of a pair of functions that store a list of names in one comma-separated text:
  reading gives clean names, and writing clean names and reading them back gives their normal form
  \<open>norm\<close>, which keeps the members.
\<close>

locale comma_codec =
  fixes parse :: "jsstr \<Rightarrow> jsstr list" and format :: "jsstr list \<Rightarrow> jsstr"
    and norm :: "jsstr list \<Rightarrow> jsstr list"
  assumes parse_clean: "x \<in> set (parse s) \<Longrightarrow> clean_item 44 x"
    and parse_format: "\<forall>x \<in> set xs. clean_item 44 x \<Longrightarrow> parse (format xs) = norm xs"
    and norm_idem: "norm (norm xs) = norm xs"
    and set_norm: "set (norm xs) = set xs"
begin

lemma save_keeps_members: "set (parse (format (parse s))) = set (parse s)"
  using parse_clean by (simp add: parse_format set_norm)

lemma save_is_stable: "parse (format (parse (format (parse s)))) = parse (format (parse s))"
proof -
  have "\<forall>x \<in> set (parse s). clean_item 44 x" using parse_clean by blast
  then show ?thesis by (simp add: parse_format norm_idem set_norm)
qed

end

lemma parse_models_clean: "x \<in> set (parseModelsString s) \<Longrightarrow> clean_item 44 x"
  by (auto simp: parseModelsString_def split_trim_clean split: if_splits)

lemma join_clean_nonempty:
  "xs \<noteq> [] \<Longrightarrow> \<forall>x \<in> set xs. clean_item c x \<Longrightarrow> js_join sep xs \<noteq> []"
  using js_join_eq_Nil [of sep xs] by (cases xs) (auto simp: clean_item_def)

lemma parse_format_models:
  "\<forall>x \<in> set xs. clean_item 44 x \<Longrightarrow> parseModelsString (formatModelsArray xs) = js_set xs"
  using join_clean_nonempty [of "js_set xs" 44 "[44]"]
  by (cases "js_set xs = []") (simp_all add: parseModelsString_def formatModelsArray_def split_trim_join)

interpretation models_text: comma_codec parseModelsString formatModelsArray js_set
  by unfold_locales (auto simp: parse_models_clean parse_format_models js_set_idem)

text \<open>
  Saving a model list does not lose or invent a model: reading the saved text of the models
  read from any text gives the same set of models, each once, and saving again changes nothing.
\<close>

theorem model_list_save_stable:
  "set (parseModelsString (formatModelsArray (parseModelsString s))) = set (parseModelsString s) \<and>
   distinct (parseModelsString (formatModelsArray (parseModelsString s))) \<and>
   parseModelsString (formatModelsArray (parseModelsString (formatModelsArray (parseModelsString s)))) =
     parseModelsString (formatModelsArray (parseModelsString s))"
  using models_text.save_keeps_members [of s] models_text.save_is_stable [of s]
    parse_models_clean by (simp add: parse_format_models)

subsection \<open>Model mapping checks\<close>

lemma normalize_trim [simp]: "normalizeModelName (JStr s) = trim s"
  by (simp add: normalizeModelName_def)

lemma missing_members:
  "m \<in> set (findMissingModelsInMapping mapping models) \<longleftrightarrow>
     trim mapping \<noteq> [] \<and> m \<noteq> [] \<and> m \<in> (\<lambda>e. trim (fst e)) ` set (entries_of mapping) \<and> m \<notin> trim ` set models"
  by (auto simp: findMissingModelsInMapping_def entries_of_def Let_def split: option.splits)

lemma missing_distinct: "distinct (findMissingModelsInMapping mapping models)"
  by (auto simp: findMissingModelsInMapping_def Let_def split: option.splits)

lemma missing_trim: "m \<in> set (findMissingModelsInMapping mapping models) \<Longrightarrow> trim m = m"
  by (auto simp: missing_members trim_idem)

text \<open>
  The missing-model check reports exactly the source names of the mapping that are not served:
  a name is reported if and only if it is a non-blank key of the mapping, trimmed, and no model of
  the list trims to it; each once. Adding the reported names to the list leaves nothing missing.
\<close>

theorem missing_models_exact:
  "(\<forall>m. m \<in> set (findMissingModelsInMapping mapping models) \<longleftrightarrow>
      trim mapping \<noteq> [] \<and> m \<noteq> [] \<and> m \<in> (\<lambda>e. trim (fst e)) ` set (entries_of mapping) \<and>
      m \<notin> trim ` set models) \<and>
   distinct (findMissingModelsInMapping mapping models) \<and>
   findMissingModelsInMapping mapping (models @ findMissingModelsInMapping mapping models) = []"
proof -
  have "m \<notin> set (findMissingModelsInMapping mapping (models @ findMissingModelsInMapping mapping models))" for m
  proof
    assume m: "m \<in> set (findMissingModelsInMapping mapping (models @ findMissingModelsInMapping mapping models))"
    then have "m \<in> set (findMissingModelsInMapping mapping models)"
      unfolding missing_members [of _ _ models] using missing_members [of m] by auto
    then have "m \<in> trim ` set (models @ findMissingModelsInMapping mapping models)"
      using missing_trim [of m] by force
    with m show False using missing_members [of m] by blast
  qed
  then have "set (findMissingModelsInMapping mapping (models @ findMissingModelsInMapping mapping models)) = {}"
    by (metis all_not_in_conv)
  then show ?thesis using missing_members [of _ mapping models] missing_distinct by simp
qed

lemma exposed_members:
  "m \<in> set (findExposedTargetModels mapping models) \<longleftrightarrow>
     m \<in> set (extractRedirectModels mapping) \<and> trim m \<in> trim ` set models"
  by (auto simp: findExposedTargetModels_def Let_def)

lemma redirect_trim: "m \<in> set (extractRedirectModels mapping) \<Longrightarrow> trim m = m"
  by (auto simp: extractRedirectModels_def List.map_filter_def trimmed_value_def trim_idem
      split: jsval.splits if_splits)

text \<open>
  Removing the exposed target models from the list hides them: the check reports exactly the
  redirect targets that are also served, and on the list without the models that trim to one of
  them it reports nothing.
\<close>

theorem exposed_models_removable:
  "(\<forall>m. m \<in> set (findExposedTargetModels mapping models) \<longleftrightarrow>
      m \<in> set (extractRedirectModels mapping) \<and> trim m \<in> trim ` set models) \<and>
   findExposedTargetModels mapping
     (filter (\<lambda>m. trim m \<notin> set (findExposedTargetModels mapping models)) models) = []"
proof -
  have "m \<notin> set (findExposedTargetModels mapping
     (filter (\<lambda>m. trim m \<notin> set (findExposedTargetModels mapping models)) models))" for m
  proof
    assume *: "m \<in> set (findExposedTargetModels mapping
     (filter (\<lambda>m. trim m \<notin> set (findExposedTargetModels mapping models)) models))"
    then obtain x where x: "x \<in> set models" "trim x = trim m"
        "trim x \<notin> set (findExposedTargetModels mapping models)" and red: "m \<in> set (extractRedirectModels mapping)"
      unfolding exposed_members [of m] by auto
    then show False using redirect_trim [OF red] exposed_members [of m mapping models] by force
  qed
  then have "set (findExposedTargetModels mapping
     (filter (\<lambda>m. trim m \<notin> set (findExposedTargetModels mapping models)) models)) = {}"
    by (metis all_not_in_conv)
  then show ?thesis using exposed_members [of _ mapping models] by simp
qed

lemma some_differs_iff: "length xs = length ys \<Longrightarrow> some_differs xs ys \<longleftrightarrow> xs \<noteq> ys"
  by (induction xs ys rule: list_induct2) auto

text \<open>
  The change test is exact: it answers no if and only if the channel existed (it had models or
  a mapping), the model list is the same list and the mapping texts agree up to outer white space.
\<close>

theorem model_config_change_exact:
  "(\<not> hasModelConfigChanged models mapping models0 mapping0) \<longleftrightarrow>
     \<not> (models0 = [] \<and> mapping0 = []) \<and> models = models0 \<and> trim mapping = trim mapping0"
  using some_differs_iff [of models models0] by (auto simp: hasModelConfigChanged_def)

lemma categories_sets:
  "set (normalizedCurrentModels (categorizeModelsWithRedirect cs rs)) = trim ` set cs - {[]}"
  "set (normalizedRedirectModels (categorizeModelsWithRedirect cs rs)) = trim ` set rs - {[]}"
  "set (classificationSet (categorizeModelsWithRedirect cs rs)) = (trim ` set cs \<union> trim ` set rs) - {[]}"
  "set (redirectOnlySet (categorizeModelsWithRedirect cs rs)) = trim ` set rs - trim ` set cs - {[]}"
  by (auto simp: categorizeModelsWithRedirect_def Let_def)

text \<open>
  The classification is a partition: every classified model is either a current model or a
  redirect-only model and never both, no blank name is classified, and none of the sets lists
  a model twice.
\<close>

theorem model_categories_partition:
  "set (classificationSet (categorizeModelsWithRedirect cs rs)) =
     set (normalizedCurrentModels (categorizeModelsWithRedirect cs rs)) \<union>
     set (redirectOnlySet (categorizeModelsWithRedirect cs rs)) \<and>
   set (normalizedCurrentModels (categorizeModelsWithRedirect cs rs)) \<inter>
     set (redirectOnlySet (categorizeModelsWithRedirect cs rs)) = {} \<and>
   [] \<notin> set (classificationSet (categorizeModelsWithRedirect cs rs)) \<and>
   distinct (classificationSet (categorizeModelsWithRedirect cs rs)) \<and>
   distinct (redirectOnlySet (categorizeModelsWithRedirect cs rs))"
proof -
  have "distinct (classificationSet (categorizeModelsWithRedirect cs rs))"
    and "distinct (redirectOnlySet (categorizeModelsWithRedirect cs rs))"
    by (simp_all add: categorizeModelsWithRedirect_def Let_def)
  then show ?thesis by (auto simp: categories_sets)
qed

subsection \<open>Status code redirects\<close>

lemma status_text_range: "is_status_text s \<Longrightarrow> 100 \<le> digits_val s \<and> digits_val s \<le> 599"
proof -
  assume s: "is_status_text s"
  then obtain a b c where "s = [a, b, c]"
    by (auto simp: is_status_text_def numeral_3_eq_3 length_Suc_conv)
  with s show ?thesis by (auto simp: is_status_text_def digits_val_def is_digit_def)
qed

lemma status_code_range:
  "parseStatusCodeKey k = Some f \<Longrightarrow> 100 \<le> f \<and> f \<le> 599"
  "parseStatusCodeMappingTarget v = Some t \<Longrightarrow> 100 \<le> t \<and> t \<le> 599"
  by (auto simp: parseStatusCodeKey_def parseStatusCodeMappingTarget_def Let_def dest: status_text_range
      split: if_splits jsval.splits jsnum.splits)

lemma disallowed_members:
  "r \<in> set (collectDisallowedStatusCodeRedirects str) \<longleftrightarrow>
     (\<exists>e \<in> set (mapping_entries str). risky_mapping e = Some r)"
  by (auto simp: collectDisallowedStatusCodeRedirects_def List.map_filter_def image_iff) (metis option.sel)+

lemma disallowed_sorted:
  "sorted (collectDisallowedStatusCodeRedirects str) \<and> distinct (collectDisallowedStatusCodeRedirects str)"
  using in_order_js_sort [OF total_code_unit_compare]
  by (simp add: collectDisallowedStatusCodeRedirects_def)

lemma risky_mapping_iff:
  "risky_mapping (k, v) = Some r \<longleftrightarrow>
     (\<exists>f t. parseStatusCodeKey k = Some f \<and> parseStatusCodeMappingTarget v = Some t \<and>
        f \<in> {504, 524} \<and> f \<noteq> t \<and> r = int_str f @ js '' -> '' @ int_str t)"
  by (auto simp: risky_mapping_def NON_REDIRECTABLE_STATUS_CODES_def split: option.splits)

text \<open>
  The guard on status code redirects reports exactly the entries that rewrite a timeout code
  (504 or 524) to a different valid code, in ascending order and without repetition; an edit is
  charged only with the redirects the text before it did not have.
\<close>

theorem risky_redirects_exact:
  "(\<forall>r. r \<in> set (collectDisallowedStatusCodeRedirects str) \<longleftrightarrow>
      (\<exists>(k, v) \<in> set (mapping_entries str). \<exists>f t. parseStatusCodeKey k = Some f \<and>
         parseStatusCodeMappingTarget v = Some t \<and> f \<in> {504, 524} \<and> f \<noteq> t \<and>
         r = int_str f @ js '' -> '' @ int_str t)) \<and>
   sorted (collectDisallowedStatusCodeRedirects str) \<and>
   distinct (collectDisallowedStatusCodeRedirects str) \<and>
   set (collectNewDisallowedStatusCodeRedirects old str) =
     set (collectDisallowedStatusCodeRedirects str) - set (collectDisallowedStatusCodeRedirects old)"
proof -
  have "r \<in> set (collectDisallowedStatusCodeRedirects str) \<longleftrightarrow>
      (\<exists>(k, v) \<in> set (mapping_entries str). \<exists>f t. parseStatusCodeKey k = Some f \<and>
         parseStatusCodeMappingTarget v = Some t \<and> f \<in> {504, 524} \<and> f \<noteq> t \<and>
         r = int_str f @ js '' -> '' @ int_str t)" for r
    unfolding disallowed_members by (rule bex_cong) (auto simp: risky_mapping_iff)
  moreover have "set (collectNewDisallowedStatusCodeRedirects old str) =
      set (collectDisallowedStatusCodeRedirects str) - set (collectDisallowedStatusCodeRedirects old)"
    by (auto simp: collectNewDisallowedStatusCodeRedirects_def Let_def)
  ultimately show ?thesis using disallowed_sorted by blast
qed

end
