(* ===== verification/ChannelFormReload.thy ===== *)
theory ChannelFormReload
  imports ChannelForm ChannelMapping
begin

section \<open>The channel form: payloads and reopened channels\<close>

text \<open>
  What the update payload of a form holds, what a form shows of a channel, and how the two meet: a
  channel that carries a saved payload opens as a form that saves the same payload again.
\<close>

subsection \<open>What a payload holds\<close>

definition blank :: "jsval \<Rightarrow> jsval" where
  "blank v = (if v = JStr [] then JNull else v)"

lemma map_of_blank_to_null [simp]: "map_of (blank_to_null ps) k = map_option blank (map_of ps k)"
  by (simp add: blank_to_null_def blank_def [symmetric] map_of_map)

definition update_payload :: "channel_form \<Rightarrow> jsval \<Rightarrow> jsstr \<Rightarrow> (jsstr \<times> jsval) list" where
  "update_payload f channelId settings =
     foldl (\<lambda>ps (k, v). obj_set k (js_or v (jstr '''')) ps)
       (blank_to_null (put_if (f_key f \<noteq> [] \<and> trim (f_key f) \<noteq> []) ''key'' (JStr (f_key f))
         (update_channel_props f channelId settings)))
       (clearable_fields f)"

lemma update_payload_sent:
  "transformFormDataToUpdatePayload f channelId = map_sum id (update_payload f channelId) (buildSettingsJSON f)"
  by (simp add: transformFormDataToUpdatePayload_def update_payload_def Let_def split: sum.split)

lemma assigned_lookup:
  "distinct (map fst kvs) \<Longrightarrow>
   map_of (foldl (\<lambda>ps (k, v). obj_set k (h v) ps) ps kvs) q =
     (case map_of (map (\<lambda>(k, v). (js k, h v)) kvs) q of None \<Rightarrow> map_of ps q | w \<Rightarrow> w)"
proof (induction kvs arbitrary: ps)
  case (Cons kv kvs)
  have "map_of (map (\<lambda>(k, v). (js k, h v)) kvs) (js (fst kv)) = None"
    using Cons.prems by (auto simp: map_of_eq_None_iff js_inject image_iff split: prod.splits)
  with Cons show ?case by (cases kv) (auto split: option.split)
qed simp

lemma clearable_lookup:
  "map_of (foldl (\<lambda>ps (k, v). obj_set k (js_or v (jstr '''')) ps) ps (clearable_fields f)) q =
     (case map_of (map (\<lambda>(k, v). (js k, js_or v (jstr ''''))) (clearable_fields f)) q of
        None \<Rightarrow> map_of ps q | w \<Rightarrow> w)"
  by (rule assigned_lookup) (simp add: clearable_fields_def)

lemma update_lookup_texts:
  "map_of (update_payload f i s) (js ''base_url'') = Some (js_or (f_base_url f) (jstr ''''))"
  "map_of (update_payload f i s) (js ''openai_organization'') = Some (js_or (f_openai_organization f) (jstr ''''))"
  "map_of (update_payload f i s) (js ''test_model'') = Some (js_or (f_test_model f) (jstr ''''))"
  "map_of (update_payload f i s) (js ''tag'') = Some (js_or (f_tag f) (jstr ''''))"
  "map_of (update_payload f i s) (js ''remark'') = Some (js_or (f_remark f) (jstr ''''))"
  "map_of (update_payload f i s) (js ''model_mapping'') = Some (js_or (f_model_mapping f) (jstr ''''))"
  "map_of (update_payload f i s) (js ''status_code_mapping'') = Some (js_or (f_status_code_mapping f) (jstr ''''))"
  "map_of (update_payload f i s) (js ''param_override'') = Some (js_or (f_param_override f) (jstr ''''))"
  "map_of (update_payload f i s) (js ''header_override'') = Some (js_or (f_header_override f) (jstr ''''))"
  by (simp_all add: update_payload_def clearable_lookup clearable_fields_def js_inject)

lemma update_lookup_fields:
  "map_of (update_payload f i s) (js ''name'') = Some (blank (f_name f))"
  "map_of (update_payload f i s) (js ''type'') = Some (blank (f_type f))"
  "map_of (update_payload f i s) (js ''models'') = Some (blank (f_models f))"
  "map_of (update_payload f i s) (js ''group'') = Some (blank (JStr (formatGroups (f_group f))))"
  "map_of (update_payload f i s) (js ''priority'') = Some (blank (js_coalesce (f_priority f) (JNum (Fin 0))))"
  "map_of (update_payload f i s) (js ''weight'') = Some (blank (js_coalesce (f_weight f) (JNum (Fin 0))))"
  "map_of (update_payload f i s) (js ''auto_ban'') = Some (blank (js_coalesce (f_auto_ban f) (JNum (Fin 1))))"
  "map_of (update_payload f i s) (js ''status'') = Some (blank (f_status f))"
  "map_of (update_payload f i s) (js ''setting'') = Some (blank (JStr (buildSettingJSON f)))"
  "map_of (update_payload f i s) (js ''settings'') = Some (blank (JStr s))"
  "map_of (update_payload f i s) (js ''sensitive_word_interception_enabled'') =
     Some (blank (f_sensitive_word_interception_enabled f))"
  "map_of (update_payload f i s) (js ''multiplier_card_user_enabled'') =
     Some (blank (f_multiplier_card_user_enabled f))"
  "map_of (update_payload f i s) (js ''other'') = Some (blank (js_or (f_other f) (jstr '''')))"
  by (simp_all add: update_payload_def clearable_lookup clearable_fields_def js_inject update_channel_props_def)

lemma update_lookup_key:
  "map_of (update_payload f i s) (js ''key'') = (if trim (f_key f) = [] then None else Some (JStr (f_key f)))"
  by (auto simp: update_payload_def clearable_lookup clearable_fields_def js_inject update_channel_props_def blank_def)

subsection \<open>What an opened channel shows\<close>

lemma opened:
  assumes "transformChannelToFormDefaults c = Inr g"
  obtains groups where "js_or (fld c ''group'') (jstr ''default'') = JStr groups" "g = opened_form c groups"
  using assms by (auto simp: transformChannelToFormDefaults_def split: jsval.splits if_splits)

lemma js_or_text: "s \<noteq> [] \<Longrightarrow> js_or (JStr s) v = JStr s"
  by (simp add: js_or_def)

lemma opened_texts:
  assumes "transformChannelToFormDefaults c = Inr g"
  shows "f_name g = js_or (fld c ''name'') (jstr '''')" "f_type g = fld c ''type''"
    "f_base_url g = js_or (fld c ''base_url'') (jstr '''')" "f_key g = []"
    "f_openai_organization g = js_or (fld c ''openai_organization'') (jstr '''')"
    "f_models g = js_or (fld c ''models'') (jstr '''')"
    "f_model_mapping g = js_or (fld c ''model_mapping'') (jstr '''')"
    "f_test_model g = js_or (fld c ''test_model'') (jstr '''')"
    "f_status_code_mapping g = js_or (fld c ''status_code_mapping'') (jstr '''')"
    "f_tag g = js_or (fld c ''tag'') (jstr '''')" "f_remark g = js_or (fld c ''remark'') (jstr '''')"
    "f_param_override g = js_or (fld c ''param_override'') (jstr '''')"
    "f_header_override g = js_or (fld c ''header_override'') (jstr '''')"
    "f_other g = js_or (fld c ''other'') (jstr '''')"
    "f_settings g = js_or (fld c ''settings'') (jstr ''{}'')"
  by (rule opened [OF assms], simp add: opened_form_def Let_def)+

lemma opened_values:
  assumes "transformChannelToFormDefaults c = Inr g"
  shows "f_priority g = js_or (fld c ''priority'') (JNum (Fin 0))"
    "f_weight g = js_or (fld c ''weight'') (JNum (Fin 0))"
    "f_auto_ban g = js_coalesce (fld c ''auto_ban'') (JNum (Fin 1))" "f_status g = fld c ''status''"
    "f_sensitive_word_interception_enabled g =
       js_coalesce (fld c ''sensitive_word_interception_enabled'') (JBool True)"
    "f_multiplier_card_user_enabled g = js_coalesce (fld c ''multiplier_card_user_enabled'') (JBool False)"
  by (rule opened [OF assms], simp add: opened_form_def Let_def)+

lemma opened_groups:
  assumes "transformChannelToFormDefaults c = Inr g" and "fld c ''group'' = JStr s" and "s \<noteq> []"
  shows "f_group g = parseGroups s"
  by (rule opened [OF assms(1)]) (use assms(2,3) in \<open>simp add: opened_form_def Let_def js_or_text\<close>)

lemma opened_options:
  assumes "transformChannelToFormDefaults c = Inr g"
  shows "shows_options g (typeSettings (extraSettings (fld c ''setting'')) (fld c ''settings''))"
  unfolding shows_options_def by (rule opened [OF assms]) (simp add: opened_form_def Let_def)

lemma opened_extra:
  assumes "transformChannelToFormDefaults c = Inr g"
  shows "f_force_format g = f_force_format (extraSettings (fld c ''setting''))"
    "f_thinking_to_content g = f_thinking_to_content (extraSettings (fld c ''setting''))"
    "f_proxy g = f_proxy (extraSettings (fld c ''setting''))"
    "f_pass_through_body_enabled g = f_pass_through_body_enabled (extraSettings (fld c ''setting''))"
    "f_system_prompt g = f_system_prompt (extraSettings (fld c ''setting''))"
    "f_system_prompt_override g = f_system_prompt_override (extraSettings (fld c ''setting''))"
  by (rule opened [OF assms], simp add: opened_form_def Let_def)+

lemma opens:
  assumes "fld c ''group'' = JStr s" and "s \<noteq> []" and "\<not> is_nullish (fld c ''channel_info'')"
  shows "\<exists>g. transformChannelToFormDefaults c = Inr g"
  using assms by (simp add: transformChannelToFormDefaults_def js_or_text)

subsection \<open>The \<open>setting\<close> text\<close>

lemma setting_plain:
  assumes "extra_schema f" and "wf_options f"
  shows "plain (JObj (setting_object f))"
proof -
  have bools: "plain (js_or v (JBool False))" if "optional is_boolean v" for v
    using that by (cases v) (auto simp: optional_def is_boolean_def js_or_def)
  have "plain (js_or (f_proxy f) (jstr ''''))" "plain (js_or (f_system_prompt f) (jstr ''''))"
    using assms(2) by (auto simp: wf_options_def intro!: plain_js_or)
  then show ?thesis using assms(1) bools
    by (simp add: setting_object_def extra_schema_def js_inject index_key_lit is_digit_def)
qed

lemma setting_text:
  assumes "extra_schema f" and "wf_options f"
  shows "parse_stored (JStr (buildSettingJSON f)) = Some (JObj (setting_object f))"
    and "buildSettingJSON f \<noteq> []"
  using parse_printed [OF setting_plain [OF assms]] printed_object [OF setting_plain [OF assms]]
  by (simp_all add: buildSettingJSON_def del: json_print.simps)

lemma setting_reload:
  assumes "extra_schema f" and "wf_options f"
  shows "setting_object (extraSettings (JStr (buildSettingJSON f))) = setting_object f"
proof -
  have "extraSettings (JStr (buildSettingJSON f)) = read_extra (JObj (setting_object f))"
    using setting_text [OF assms] by (simp add: extraSettings_def)
  then show ?thesis
    by (simp add: setting_object_def read_extra_def fld_obj js_inject js_or_again)
qed

subsection \<open>A saved channel opens as the form that saved it\<close>

text \<open>The channel holds every property of the payload.\<close>

definition carries :: "jsval \<Rightarrow> (jsstr \<times> jsval) list \<Rightarrow> bool" where
  "carries c p \<longleftrightarrow> list_all (\<lambda>(k, v). obj_get c k = v) p"

lemma carries_fld: "carries c p \<Longrightarrow> map_of p (js k) = Some v \<Longrightarrow> fld c k = v"
  by (auto simp: carries_def fld_def list_all_iff dest: map_of_SomeD)

lemma text_again:
  assumes "optional is_form_string v"
  shows "js_or (js_or v (jstr '''')) w = js_or v w"
  using assms by (cases v) (auto simp: optional_def is_form_string_def js_or_def jstr_def)

lemma number_again:
  assumes "optional is_form_number v"
  shows "js_coalesce (js_or (blank (js_coalesce v (JNum (Fin 0)))) (JNum (Fin 0))) (JNum (Fin 0)) =
    js_coalesce v (JNum (Fin 0))"
  using assms
  by (cases v) (auto simp: optional_def is_form_number_def js_or_def js_coalesce_def blank_def num_truthy_def)

lemma ban_again:
  assumes "optional is_form_number v"
  shows "js_coalesce (js_coalesce (blank (js_coalesce v (JNum (Fin 1)))) (JNum (Fin 1))) (JNum (Fin 1)) =
    js_coalesce v (JNum (Fin 1))"
  using assms by (cases v) (auto simp: optional_def is_form_number_def js_coalesce_def blank_def)

lemma required_again:
  "(case v of JStr s \<Rightarrow> s \<noteq> [] | _ \<Rightarrow> False) \<Longrightarrow> js_or (blank v) w = v"
  "is_boolean v \<Longrightarrow> js_coalesce (blank v) w = v"
  "is_form_number v \<Longrightarrow> blank v = v"
  "(case v of JNum x \<Rightarrow> num_le (Fin 0) x | _ \<Rightarrow> False) \<Longrightarrow> blank v = v"
  by (cases v; auto simp: js_or_def js_coalesce_def blank_def is_boolean_def is_form_number_def)+

lemma other_again:
  assumes "optional is_form_string v"
  shows "js_or (blank (js_or v (jstr ''''))) (jstr '''') = js_or v (jstr '''')"
  using assms by (cases v) (auto simp: optional_def is_form_string_def js_or_def jstr_def blank_def js_lit)

text \<open>The groups and the models of the form are lists written with commas.\<close>

lemma parse_form_lists:
  "x \<in> set (parseGroups s) \<Longrightarrow> clean_item 44 x" "x \<in> set (parseModels s) \<Longrightarrow> clean_item 44 x"
  by (auto simp: parseGroups_def parseModels_def split_trim_clean split: if_splits)

lemma parse_format_lists:
  assumes "\<forall>x \<in> set xs. clean_item 44 x"
  shows "parseGroups (formatGroups xs) = xs" "parseModels (formatModels xs) = xs"
  using assms join_clean_nonempty [of xs 44 "[44]"]
  by (cases "xs = []"; simp add: parseGroups_def formatGroups_def parseModels_def formatModels_def split_trim_join)+

interpretation form_groups: comma_codec parseGroups formatGroups "\<lambda>xs. xs"
  by unfold_locales (auto simp: parse_form_lists parse_format_lists)

interpretation form_models: comma_codec parseModels formatModels "\<lambda>xs. xs"
  by unfold_locales (auto simp: parse_form_lists parse_format_lists)

lemma groups_again:
  assumes "list_all (clean_item 44) gs" and "gs \<noteq> []"
  shows "formatGroups gs \<noteq> []" and "parseGroups (formatGroups gs) = gs"
  using assms form_groups.parse_format [of gs] join_clean_nonempty [of gs 44 "[44]"]
  by (simp_all add: formatGroups_def list_all_iff)

lemma reopened_settings:
  assumes t: "type_schema f" "wf_options f" "stored_settings f = JObj ps" "plain (JObj ps)"
    and s: "s = json_print (JObj (settings_props f ps))"
    and g: "f_type g = f_type f" "f_settings g = JStr s" "shows_options g (typeSettings x (JStr s))"
  shows "buildSettingsJSON g = Inr s"
proof -
  let ?qs = "settings_props f ps"
  have p: "plain (JObj ?qs)" by (rule plain_settings_props [OF t(4,1,2)])
  have parsed: "json_parse s = Some (JObj ?qs)" unfolding s by (rule json_roundtrip [OF p])
  have "stored_settings g = JObj ?qs"
  proof (cases "s = js ''{}''")
    case True
    have "json_parse (js ''{}'') = Some (JObj [])" by code_simp
    with parsed True have "?qs = []" by simp
    with True show ?thesis by (simp add: stored_settings_def g(2) jstr_def)
  next
    case False
    then show ?thesis using printed_object [OF p] parsed
      by (simp add: stored_settings_def g(2) jstr_def s del: json_print.simps)
  qed
  moreover have "settings_props g ?qs = ?qs"
  proof (rule settings_again [OF g(1)])
    show "shows_options g (saved_options x f (JObj ps))"
      using g(3) unfolding s built_settings(3) [OF t] .
    show "distinct (map fst ?qs)" using p by simp
  qed
  ultimately show ?thesis by (simp only: buildSettingsJSON_def jsval.case s)
qed

text \<open>The key has no part in the rest of the payload.\<close>

lemma settings_without_key: "buildSettingsJSON (f\<lparr>f_key := k\<rparr>) = buildSettingsJSON f"
proof -
  have t: "type_is n (f\<lparr>f_key := k\<rparr>) = type_is n f" for n by (simp add: type_is_def)
  have "provider_options (f\<lparr>f_key := k\<rparr>) ps = provider_options f ps" for ps
    by (simp add: provider_options_def t)
  moreover have "passthrough_options (f\<lparr>f_key := k\<rparr>) ps = passthrough_options f ps" for ps
    by (simp add: passthrough_options_def openai_options_def anthropic_options_def t)
  moreover have "upstream_options (f\<lparr>f_key := k\<rparr>) ps = upstream_options f ps" for ps
    by (simp add: upstream_options_def ignored_models_def)
  ultimately have "settings_props (f\<lparr>f_key := k\<rparr>) ps = settings_props f ps" for ps
    by (simp add: settings_props_def)
  moreover have "stored_settings (f\<lparr>f_key := k\<rparr>) = stored_settings f" by (simp add: stored_settings_def)
  ultimately show ?thesis by (simp only: buildSettingsJSON_def)
qed

lemma payload_cong:
  assumes "f_key g = []"
    and props: "update_channel_props g i s = update_channel_props f i s"
    and texts: "map (\<lambda>(k, v). (k, js_or v (jstr ''''))) (clearable_fields g) =
      map (\<lambda>(k, v). (k, js_or v (jstr ''''))) (clearable_fields f)"
  shows "update_payload g i s = update_payload (f\<lparr>f_key := []\<rparr>) i s"
proof -
  have fold: "foldl (\<lambda>ps (k, v). obj_set k (js_or v (jstr '''')) ps) ps kvs =
      foldl (\<lambda>ps (k, v). obj_set k v ps) ps (map (\<lambda>(k, v). (k, js_or v (jstr ''''))) kvs)" for ps kvs
    by (induction kvs arbitrary: ps) (auto split: prod.splits)
  have "update_channel_props (f\<lparr>f_key := []\<rparr>) i s = update_channel_props f i s"
    by (simp add: update_channel_props_def buildSettingJSON_def setting_object_def del: json_print.simps)
  moreover have "clearable_fields (f\<lparr>f_key := []\<rparr>) = clearable_fields f" by (simp add: clearable_fields_def)
  ultimately show ?thesis by (simp add: update_payload_def assms(1) fold texts props)
qed

text \<open>A payload without its key.\<close>

definition without_key :: "(jsstr \<times> jsval) list \<Rightarrow> (jsstr \<times> jsval) list" where
  "without_key ps = filter (\<lambda>kv. fst kv \<noteq> js ''key'') ps"

lemma without_key_set: "k \<noteq> ''key'' \<Longrightarrow> without_key (obj_set k v ps) = obj_set k v (without_key ps)"
proof -
  assume "k \<noteq> ''key''"
  then have "js k \<noteq> js ''key''" by (simp add: js_inject)
  then have "filter (\<lambda>kv. fst kv \<noteq> js ''key'') (map (\<lambda>p. if fst p = js k then (js k, v) else p) ps) =
      map (\<lambda>p. if fst p = js k then (js k, v) else p) (filter (\<lambda>kv. fst kv \<noteq> js ''key'') ps)"
    by (induction ps) auto
  with \<open>js k \<noteq> js ''key''\<close> show ?thesis by (auto simp: without_key_def obj_set_def obj_put_def)
qed

lemma without_key_fold:
  "''key'' \<notin> fst ` set kvs \<Longrightarrow> without_key (foldl (\<lambda>ps (k, v). obj_set k (h v) ps) ps kvs) =
     foldl (\<lambda>ps (k, v). obj_set k (h v) ps) (without_key ps) kvs"
  by (induction kvs arbitrary: ps) (auto simp: without_key_set split: prod.splits)

lemma without_key_blank: "without_key (blank_to_null ps) = blank_to_null (without_key ps)"
  by (induction ps) (auto simp: without_key_def blank_to_null_def)

lemma without_key_put:
  assumes "js ''key'' \<notin> fst ` set ps"
  shows "without_key (put_if b ''key'' v ps) = ps"
proof -
  have "filter (\<lambda>kv. fst kv \<noteq> js ''key'') ps = ps" using assms by (force simp: filter_id_conv)
  then show ?thesis using assms by (simp add: without_key_def put_if_def obj_put_def)
qed

lemma payload_without_key: "update_payload (f\<lparr>f_key := []\<rparr>) i s = without_key (update_payload f i s)"
proof -
  have k: "''key'' \<notin> fst ` set (clearable_fields f)" by (simp add: clearable_fields_def)
  have "js ''key'' \<notin> fst ` set (update_channel_props f i s)"
    by (simp add: update_channel_props_def js_inject del: json_print.simps)
  then have p: "without_key (put_if b ''key'' v (update_channel_props f i s)) = update_channel_props f i s" for b v
    by (rule without_key_put)
  have "update_channel_props (f\<lparr>f_key := []\<rparr>) i s = update_channel_props f i s"
    by (simp add: update_channel_props_def buildSettingJSON_def setting_object_def del: json_print.simps)
  moreover have "clearable_fields (f\<lparr>f_key := []\<rparr>) = clearable_fields f" by (simp add: clearable_fields_def)
  ultimately show ?thesis
    by (simp add: update_payload_def without_key_fold [OF k] without_key_blank p put_if_def [of False])
qed

text \<open>C7. Saving a channel again sends the same. Let a form be accepted by the schema, with texts without lone
  surrogates, a stored \<open>settings\<close> text that reads as an object whose values print and read back, and group names that are
  not empty, trimmed and without commas; and let a channel with a \<open>channel_info\<close> carry the payload of its update. Then the
  channel opens, with an empty key, as a form whose update payload is the first payload without its key: a key that was typed is
  not sent again, and every other property is the same, no text field lost or turned from empty to missing.\<close>

theorem update_reload:
  assumes "channelFormSchema f" and "wf_options f" and "stored_settings f = JObj ps" and "plain (JObj ps)"
    and "list_all (clean_item 44) (f_group f)"
    and "transformFormDataToUpdatePayload f i = Inr p" and "carries c p"
    and "\<not> is_nullish (fld c ''channel_info'')"
  shows "\<exists>g. transformChannelToFormDefaults c = Inr g \<and> f_key g = [] \<and>
    transformFormDataToUpdatePayload g i = Inr (filter (\<lambda>kv. fst kv \<noteq> js ''key'') p)"
proof -
  let ?s = "json_print (JObj (settings_props f ps))"
  note sch = assms(1) [unfolded channelFormSchema_def]
  have ts: "type_schema f" "extra_schema f" using sch by simp_all
  note built = built_settings [OF ts(1) assms(2-4)]
  have p: "p = update_payload f i ?s" using assms(6) built(1) by (simp add: update_payload_sent)
  note fields = update_lookup_fields [of f i ?s, folded p, THEN carries_fld [OF assms(7)]]
  note texts = update_lookup_texts [of f i ?s, folded p, THEN carries_fld [OF assms(7)]]
  have ne: "?s \<noteq> []" "buildSettingJSON f \<noteq> []"
    using printed_object [OF plain_settings_props [OF assms(4) ts(1) assms(2)]]
      setting_text(2) [OF ts(2) assms(2)] by (simp_all del: json_print.simps)
  have gs: "fld c ''group'' = JStr (formatGroups (f_group f))" "formatGroups (f_group f) \<noteq> []"
    using fields(4) groups_again [OF assms(5)] sch by (simp_all add: blank_def)
  obtain g where g: "transformChannelToFormDefaults c = Inr g" using opens [OF gs assms(8)] by blast
  have st: "fld c ''setting'' = JStr (buildSettingJSON f)" "fld c ''settings'' = JStr ?s"
    using fields(9,10) ne by (simp_all add: blank_def del: json_print.simps)
  have ty: "f_type g = f_type f" "f_settings g = JStr ?s"
    using opened_texts(2,15) [OF g] fields(2) st(2) ne(1) sch
    by (simp_all add: required_again js_or_text del: json_print.simps)
  have built_g: "buildSettingsJSON g = Inr ?s"
    using opened_options [OF g] unfolding st
    by (rule reopened_settings [OF ts(1) assms(2-4) refl ty])
  have "setting_object g = setting_object (extraSettings (JStr (buildSettingJSON f)))"
    using opened_extra [OF g] unfolding st by (simp add: setting_object_def)
  also have "\<dots> = setting_object f" by (rule setting_reload [OF ts(2) assms(2)])
  finally have "buildSettingJSON g = buildSettingJSON f" by (simp only: buildSettingJSON_def)
  moreover have "f_group g = f_group f"
    using opened_groups [OF g gs] groups_again [OF assms(5)] sch by simp
  ultimately have "update_channel_props g i ?s = update_channel_props f i ?s"
    using sch unfolding update_channel_props_def
    by (simp only: opened_texts [OF g] opened_values [OF g] fields texts text_again number_again ban_again
        required_again other_again js_or_again simp_thms)
  moreover have "map (\<lambda>(k, v). (k, js_or v (jstr ''''))) (clearable_fields g) =
      map (\<lambda>(k, v). (k, js_or v (jstr ''''))) (clearable_fields f)"
    by (simp only: clearable_fields_def list.map prod.case opened_texts [OF g] texts js_or_again)
  ultimately have "update_payload g i ?s = update_payload (f\<lparr>f_key := []\<rparr>) i ?s"
    by (intro payload_cong opened_texts(4) [OF g])
  then have "transformFormDataToUpdatePayload g i = Inr (filter (\<lambda>kv. fst kv \<noteq> js ''key'') p)"
    by (simp only: update_payload_sent built_g map_sum.simps payload_without_key without_key_def p)
  then show ?thesis using g opened_texts(4) [OF g] by blast
qed

lemma sample_groups: "list_all (clean_item 44) (f_group sample_form)"
  by code_simp

definition sample_payload :: "(jsstr \<times> jsval) list" where
  "sample_payload = update_payload sample_form (JNum (Fin 7))
     (json_print (JObj (settings_props sample_form
       [(js ''note'', JBool True), (js ''vertex_key_type'', jstr ''json'')])))"

lemma sample_sent: "transformFormDataToUpdatePayload sample_form (JNum (Fin 7)) = Inr sample_payload"
  using built_settings(1) [OF _ sample_wf sample_stored] sample_schema
  by (simp add: update_payload_sent sample_payload_def channelFormSchema_def del: json_print.simps)

definition sample_channel :: jsval where
  "sample_channel = JObj (sample_payload @ [(js ''channel_info'', JObj [])])"

lemma sample_carries: "carries sample_channel sample_payload"
  by code_simp

lemma sample_info: "\<not> is_nullish (fld sample_channel ''channel_info'')"
  by code_simp

theorem update_reload_witness:
  "\<exists>g. transformChannelToFormDefaults sample_channel = Inr g \<and> f_key g = [] \<and>
    transformFormDataToUpdatePayload g (JNum (Fin 7)) = Inr (filter (\<lambda>kv. fst kv \<noteq> js ''key'') sample_payload)"
  by (rule update_reload [OF sample_schema sample_wf sample_stored sample_groups sample_sent sample_carries sample_info])

subsection \<open>What saving loses, keeps and refuses\<close>

text \<open>Saving a channel erases every property of its \<open>setting\<close> text the form does not know: whatever
  the text was, the update payload of an accepted form holds an object with the six properties of the
  form only. The server stores two more there, \<open>claude_wallet_enabled\<close> and \<open>file_input_mode\<close>.\<close>

theorem saving_erases_other_settings:
  assumes "channelFormSchema f" and "wf_options f"
    and "transformFormDataToUpdatePayload f i = Inr p"
    and "q \<notin> set [''force_format'', ''thinking_to_content'', ''proxy'', ''pass_through_body_enabled'',
      ''system_prompt'', ''system_prompt_override'']"
  shows "\<exists>t v. map_of p (js ''setting'') = Some (JStr t) \<and> json_parse t = Some v \<and> fld v q = JUndef"
proof -
  have x: "extra_schema f" using assms(1) by (simp add: channelFormSchema_def)
  obtain s where "p = update_payload f i s"
    using assms(3) by (cases "buildSettingsJSON f") (auto simp: update_payload_sent)
  then have "map_of p (js ''setting'') = Some (JStr (buildSettingJSON f))"
    using update_lookup_fields(9) [of f i s] setting_text(2) [OF x assms(2)] by (simp add: blank_def)
  moreover have "json_parse (buildSettingJSON f) = Some (JObj (setting_object f))"
    unfolding buildSettingJSON_def by (rule json_roundtrip [OF setting_plain [OF x assms(2)]])
  moreover have "fld (JObj (setting_object f)) q = JUndef"
    using assms(4) by (simp add: fld_obj setting_object_def js_inject)
  ultimately show ?thesis by blast
qed

theorem saving_erases_other_settings_witness:
  "\<exists>t v. map_of sample_payload (js ''setting'') = Some (JStr t) \<and> json_parse t = Some v \<and>
    fld v ''file_input_mode'' = JUndef"
  by (rule saving_erases_other_settings [OF sample_schema sample_wf sample_sent]) simp

text \<open>The properties about upstream models are written for the types that can fetch models only: for any
  other type the stored values stay, although the form hides them.\<close>

lemma upstream_flags_stay:
  assumes "f_type f \<notin> set MODEL_FETCHABLE_TYPES"
  shows "map_of (settings_props f ps) (js ''upstream_model_update_check_enabled'') =
      map_of ps (js ''upstream_model_update_check_enabled'')"
    and "map_of (settings_props f ps) (js ''upstream_model_update_auto_sync_enabled'') =
      map_of ps (js ''upstream_model_update_auto_sync_enabled'')"
  using assms by (simp_all add: upstream_lookup)

text \<open>A form can be turned into a payload exactly when its stored \<open>settings\<close> text reads as an object
  or an array, or does not read as JSON at all: both transformations throw for a text such as \<open>null\<close> or
  a number, and never otherwise.\<close>

theorem payload_exists_iff:
  "((\<exists>p. transformFormDataToUpdatePayload f i = Inr p) \<longleftrightarrow> is_plain_object (stored_settings f) \<or> is_array (stored_settings f)) \<and>
   ((\<exists>p. transformFormDataToCreatePayload f = Inr p) \<longleftrightarrow> is_plain_object (stored_settings f) \<or> is_array (stored_settings f))"
proof -
  have "(\<exists>s. buildSettingsJSON f = Inr s) \<longleftrightarrow> is_plain_object (stored_settings f) \<or> is_array (stored_settings f)"
    by (cases "stored_settings f") (simp_all add: buildSettingsJSON_def is_array_def)
  then show ?thesis
    by (cases "buildSettingsJSON f") (simp_all add: update_payload_sent transformFormDataToCreatePayload_def Let_def)
qed

end
