(* ===== verification/ChannelDrawer.thy ===== *)
theory ChannelDrawer
  imports ChannelFormReload ChannelMapping
begin

section \<open>The channel editor drawer\<close>

text \<open>
  The state and the handlers of \<open>features/channels/components/drawers/channel-mutate-drawer.tsx\<close>: how a
  channel is loaded into the form, the checks and the two confirmation dialogs between pressing the
  submit button and sending the request, and what happens when the server answers.

  \<open>onSubmit\<close> is an asynchronous function that stops at two promises, whose resolve functions are kept
  in refs. The model keeps, in place of each resolve function, the submission that waits for it; a
  submission is the data and the variables the closure captured. A later submission overwrites the ref,
  so that the earlier one never continues. The detail query of the drawer is the map \<open>d_cache\<close> from
  channel identifiers to the last detail received: opening a channel shows the cached detail at once,
  and no handler removes an entry (\<open>handleSuccess\<close> invalidates the lists only).

  The rendering of the form is not modelled; \<open>form.handleSubmit\<close> calls \<open>onSubmit\<close> only with values the
  schema accepts, and the submit button is disabled while a request runs.
\<close>

subsection \<open>Reading optional values\<close>

definition field_text :: "jsval \<Rightarrow> jsstr" where
  "field_text v = (case v of JStr s \<Rightarrow> s | _ \<Rightarrow> [])"

definition opt_field :: "jsval \<Rightarrow> jsstr option" where
  "opt_field v = (case v of JStr s \<Rightarrow> Some s | _ \<Rightarrow> None)"

datatype submit_thrown = ThrownError jsstr | ThrownValue jsval

definition isRecord :: "jsval \<Rightarrow> bool" where
  "isRecord v \<longleftrightarrow> (case v of JObj _ \<Rightarrow> True | JArr _ \<Rightarrow> True | _ \<Rightarrow> False)"

definition error_response_message :: "jsval \<Rightarrow> jsstr option" where
  "error_response_message err =
     (if isRecord (fld err ''response'') \<and> isRecord (fld (fld err ''response'') ''data'')
      then opt_field (fld (fld (fld err ''response'') ''data'') ''message'') else None)"

definition getErrorMessage :: "submit_thrown \<Rightarrow> jsstr option" where
  "getErrorMessage err =
     (case err of
        ThrownError message \<Rightarrow> Some message
      | ThrownValue v \<Rightarrow>
        if \<not> isRecord v then None
        else (case error_response_message v of Some m \<Rightarrow> Some m | None \<Rightarrow> opt_field (fld v ''message'')))"

definition hasAdvancedSettingsValues :: "channel_form \<Rightarrow> bool" where
  "hasAdvancedSettingsValues f \<longleftrightarrow>
     trim (field_text (f_model_mapping f)) \<noteq> [] \<or> trim (field_text (f_param_override f)) \<noteq> [] \<or>
     trim (field_text (f_header_override f)) \<noteq> [] \<or> trim (field_text (f_status_code_mapping f)) \<noteq> [] \<or>
     trim (field_text (f_tag f)) \<noteq> [] \<or> trim (field_text (f_remark f)) \<noteq> [] \<or>
     truthy (f_priority f) \<or> truthy (f_weight f) \<or>
     trim (field_text (f_proxy f)) \<noteq> [] \<or> trim (field_text (f_system_prompt f)) \<noteq> [] \<or>
     truthy (f_force_format f) \<or> truthy (f_thinking_to_content f) \<or>
     truthy (f_pass_through_body_enabled f) \<or> truthy (f_system_prompt_override f) \<or>
     truthy (f_claude_beta_query f) \<or> truthy (f_upstream_check_enabled f) \<or>
     truthy (f_upstream_auto_sync_enabled f) \<or> trim (field_text (f_upstream_ignored_models f)) \<noteq> []"

definition parseSettingsRecord :: "jsval \<Rightarrow> (jsstr \<times> jsval) list" where
  "parseSettingsRecord settings =
     (if trim (field_text settings) = [] then []
      else (case json_parse (field_text settings) of Some (JObj ps) \<Rightarrow> ps | _ \<Rightarrow> []))"

subsection \<open>State\<close>

record submission =
  sub_row :: "jsval option"
  sub_multi_key :: bool
  sub_data :: channel_form

datatype request =
    UpdateRequest jsval "(jsstr \<times> jsval) list"
  | CreateRequest create_payload

datatype toast =
    InvalidEntries "jsstr list"
  | InvalidMapping jsstr
  | ChannelUpdated
  | ChannelCreated
  | SubmitFailed "jsstr option"
  | SubmitThrew form_error

datatype missing_action = CancelMissing | SubmitMissing | AddMissing

record drawer =
  d_row :: "jsval option"
  d_open :: bool
  d_cache :: "(jsval \<times> jsval) list"
  d_form :: channel_form
  d_initial_models :: "jsstr list"
  d_initial_model_mapping :: jsstr
  d_initial_status_code_mapping :: jsstr
  d_advanced_open :: bool
  d_advanced_preference :: bool
  d_risk_open :: bool
  d_risk_items :: "jsstr list"
  d_risk_resolve :: "submission option"
  d_missing_open :: bool
  d_missing_list :: "jsstr list"
  d_missing_resolve :: "submission option"
  d_submitting :: bool
  d_key_error :: bool
  d_sent :: "(submission \<times> request) list"
  d_inflight :: "submission list"
  d_toasts :: "toast list"
  d_crashed :: bool

definition initial_drawer :: drawer where
  "initial_drawer =
     \<lparr>d_row = None, d_open = False, d_cache = [], d_form = CHANNEL_FORM_DEFAULT_VALUES,
      d_initial_models = [], d_initial_model_mapping = [], d_initial_status_code_mapping = [],
      d_advanced_open = False, d_advanced_preference = False, d_risk_open = False, d_risk_items = [],
      d_risk_resolve = None, d_missing_open = False, d_missing_list = [], d_missing_resolve = None,
      d_submitting = False, d_key_error = False, d_sent = [], d_inflight = [], d_toasts = [], d_crashed = False\<rparr>"

definition isEditing :: "drawer \<Rightarrow> bool" where
  "isEditing s \<longleftrightarrow> d_row s \<noteq> None"

definition channelData :: "drawer \<Rightarrow> jsval option" where
  "channelData s = (case d_row s of None \<Rightarrow> None | Some i \<Rightarrow> map_of (d_cache s) i)"

definition multi_key_channel :: "drawer \<Rightarrow> bool" where
  "multi_key_channel s \<longleftrightarrow>
     (case channelData s of None \<Rightarrow> False
      | Some c \<Rightarrow> is_true (opt_get (opt_get c ''channel_info'') ''is_multi_key''))"

definition add_toast :: "toast \<Rightarrow> drawer \<Rightarrow> drawer" where
  "add_toast t s = s\<lparr>d_toasts := d_toasts s @ [t]\<rparr>"

subsection \<open>Loading a channel\<close>

text \<open>The effect that fills the form; an exception in an effect takes the drawer down.\<close>

definition load_effect :: "drawer \<Rightarrow> drawer" where
  "load_effect s =
     (case d_row s of
        Some i \<Rightarrow>
          (case channelData s of
             None \<Rightarrow> s
           | Some c \<Rightarrow>
             (case transformChannelToFormDefaults c of
                Inl _ \<Rightarrow> s\<lparr>d_crashed := True\<rparr>
              | Inr defaults \<Rightarrow>
                s\<lparr>d_form := defaults,
                  d_advanced_open := d_advanced_preference s \<or> hasAdvancedSettingsValues defaults,
                  d_initial_models := parseModelsString (field_text (fld c ''models'')),
                  d_initial_model_mapping := field_text (fld c ''model_mapping''),
                  d_initial_status_code_mapping := field_text (fld c ''status_code_mapping'')\<rparr>))
      | None \<Rightarrow>
          s\<lparr>d_form := CHANNEL_FORM_DEFAULT_VALUES, d_advanced_open := False, d_initial_models := [],
            d_initial_model_mapping := [], d_initial_status_code_mapping := []\<rparr>)"

text \<open>The effect runs after a render in which one of its dependencies changed.\<close>

definition render :: "drawer \<Rightarrow> drawer \<Rightarrow> drawer" where
  "render old new =
     (if isEditing old = isEditing new \<and> channelData old = channelData new then new else load_effect new)"

definition open_update :: "jsval \<Rightarrow> drawer \<Rightarrow> drawer" where
  "open_update i s = render s (s\<lparr>d_open := True, d_row := Some i\<rparr>)"

definition open_create :: "drawer \<Rightarrow> drawer" where
  "open_create s = render s (s\<lparr>d_open := True, d_row := None\<rparr>)"

text \<open>The detail query answers with a channel.\<close>

definition detail_loaded :: "jsval \<Rightarrow> jsval \<Rightarrow> drawer \<Rightarrow> drawer" where
  "detail_loaded i c s = render s (s\<lparr>d_cache := (i, c) # filter (\<lambda>e. fst e \<noteq> i) (d_cache s)\<rparr>)"

text \<open>\<open>onOpenChange(false)\<close> of the parent closes the drawer and drops the row.\<close>

definition parent_close :: "drawer \<Rightarrow> drawer" where
  "parent_close s = render s (s\<lparr>d_open := False, d_row := None\<rparr>)"

text \<open>\<open>handleOpenChange(false)\<close>: the user closes the drawer. The form is reset in the handler, before
  the render that follows it.\<close>

definition handleOpenChange :: "drawer \<Rightarrow> drawer" where
  "handleOpenChange s =
     render s (s\<lparr>d_open := False, d_row := None, d_form := CHANNEL_FORM_DEFAULT_VALUES,
       d_advanced_open := False\<rparr>)"

definition handleAdvancedSettingsOpenChange :: "bool \<Rightarrow> drawer \<Rightarrow> drawer" where
  "handleAdvancedSettingsOpenChange nextOpen s =
     s\<lparr>d_advanced_open := nextOpen, d_advanced_preference := nextOpen\<rparr>"

definition handleSuccess :: "drawer \<Rightarrow> drawer" where
  "handleSuccess s = parent_close s"

subsection \<open>Submitting\<close>

text \<open>The last part of \<open>onSubmit\<close>: building the payload and sending it. A \<open>TypeError\<close> of the
  transformation is caught; the message shown is the runtime's. \<open>d_sent\<close> is the log of the requests,
  \<open>d_inflight\<close> the submissions whose request has no answer yet.\<close>

definition with_key_mode :: "submission \<Rightarrow> (jsstr \<times> jsval) list \<Rightarrow> (jsstr \<times> jsval) list" where
  "with_key_mode sub payload =
     (if sub_multi_key sub \<and> truthy (f_key_mode (sub_data sub))
      then obj_set ''key_mode'' (f_key_mode (sub_data sub)) payload else payload)"

definition build_request :: "submission \<Rightarrow> form_error + request" where
  "build_request sub =
     (case sub_row sub of
        Some i \<Rightarrow>
          (case transformFormDataToUpdatePayload (sub_data sub) i of
             Inl e \<Rightarrow> Inl e
           | Inr payload \<Rightarrow> Inr (UpdateRequest i (with_key_mode sub payload)))
      | None \<Rightarrow>
          (case transformFormDataToCreatePayload (sub_data sub) of
             Inl e \<Rightarrow> Inl e
           | Inr payload \<Rightarrow> Inr (CreateRequest payload)))"

definition send_submission :: "submission \<Rightarrow> drawer \<Rightarrow> drawer" where
  "send_submission sub s =
     (case build_request sub of
        Inl e \<Rightarrow> add_toast (SubmitThrew e) (s\<lparr>d_submitting := False\<rparr>)
      | Inr req \<Rightarrow> s\<lparr>d_submitting := True, d_sent := d_sent s @ [(sub, req)], d_inflight := d_inflight s @ [sub]\<rparr>)"

definition has_model_mapping :: "channel_form \<Rightarrow> bool" where
  "has_model_mapping f \<longleftrightarrow> trim (field_text (f_model_mapping f)) \<noteq> []"

definition normalized_models :: "channel_form \<Rightarrow> jsstr list" where
  "normalized_models f = parseModelsString (field_text (f_models f))"

definition missing_models :: "channel_form \<Rightarrow> jsstr list" where
  "missing_models f = findMissingModelsInMapping (field_text (f_model_mapping f)) (normalized_models f)"

text \<open>From the model mapping check to the question about missing models.\<close>

definition check_models :: "submission \<Rightarrow> drawer \<Rightarrow> drawer" where
  "check_models sub s =
     (let f = sub_data sub; mapping = field_text (f_model_mapping f) in
      if has_model_mapping f \<and> \<not> fst (validateModelMappingJson mapping)
      then add_toast (InvalidMapping (case snd (validateModelMappingJson mapping) of Some e \<Rightarrow> e
             | None \<Rightarrow> js ''Invalid model mapping'')) s
      else if has_model_mapping f \<and> missing_models f \<noteq> [] \<and>
         hasModelConfigChanged (normalized_models f) mapping (d_initial_models s) (d_initial_model_mapping s)
      then s\<lparr>d_missing_list := missing_models f, d_missing_open := True, d_missing_resolve := Some sub\<rparr>
      else send_submission sub s)"

definition risky_redirects :: "channel_form \<Rightarrow> drawer \<Rightarrow> jsstr list" where
  "risky_redirects f s =
     collectNewDisallowedStatusCodeRedirects (Some (d_initial_status_code_mapping s))
       (opt_field (f_status_code_mapping f))"

definition onSubmit :: "submission \<Rightarrow> drawer \<Rightarrow> drawer" where
  "onSubmit sub s =
     (let f = sub_data sub in
      if sub_row sub = None \<and> trim (f_key f) = [] then s\<lparr>d_key_error := True\<rparr>
      else if trim (field_text (f_status_code_mapping f)) \<noteq> [] then
        (let invalidEntries = collectInvalidStatusCodeEntries (opt_field (f_status_code_mapping f)) in
         if invalidEntries \<noteq> [] then add_toast (InvalidEntries invalidEntries) s
         else if risky_redirects f s \<noteq> []
         then s\<lparr>d_risk_resolve := Some sub, d_risk_items := risky_redirects f s, d_risk_open := True\<rparr>
         else check_models sub s)
      else check_models sub s)"

definition press_submit :: "drawer \<Rightarrow> drawer" where
  "press_submit s =
     (if \<not> d_open s \<or> d_submitting s \<or> \<not> channelFormSchema (d_form s) then s
      else onSubmit \<lparr>sub_row = d_row s, sub_multi_key = multi_key_channel s, sub_data = d_form s\<rparr>
        (s\<lparr>d_key_error := False\<rparr>))"

definition handleStatusCodeRiskAction :: "bool \<Rightarrow> drawer \<Rightarrow> drawer" where
  "handleStatusCodeRiskAction confirmed s =
     (let s' = s\<lparr>d_risk_open := False, d_risk_items := [], d_risk_resolve := None\<rparr> in
      case d_risk_resolve s of
        None \<Rightarrow> s'
      | Some sub \<Rightarrow> if confirmed then check_models sub s' else s')"

definition add_missing :: "submission \<Rightarrow> submission" where
  "add_missing sub =
     (let f = sub_data sub in
      sub\<lparr>sub_data := f\<lparr>f_models :=
        JStr (formatModelsArray (js_set (normalized_models f @ missing_models f)))\<rparr>\<rparr>)"

definition handleMissingModelsAction :: "missing_action \<Rightarrow> drawer \<Rightarrow> drawer" where
  "handleMissingModelsAction action s =
     (let s' = s\<lparr>d_missing_open := False, d_missing_resolve := None\<rparr> in
      case d_missing_resolve s of
        None \<Rightarrow> s'
      | Some sub \<Rightarrow>
        (case action of
           CancelMissing \<Rightarrow> s'
         | SubmitMissing \<Rightarrow> send_submission sub s'
         | AddMissing \<Rightarrow>
             (let sub' = add_missing sub
              in send_submission sub' (s'\<lparr>d_form := (d_form s')\<lparr>f_models := f_models (sub_data sub')\<rparr>\<rparr>))))"

datatype response = Responded bool | Failed submit_thrown

definition handle_response :: "submission \<Rightarrow> response \<Rightarrow> drawer \<Rightarrow> drawer" where
  "handle_response sub r s =
     (let s' = (case r of
           Responded ok \<Rightarrow>
             if ok then handleSuccess (add_toast (if sub_row sub \<noteq> None then ChannelUpdated else ChannelCreated) s)
             else s
         | Failed err \<Rightarrow>
             add_toast (SubmitFailed (if getErrorMessage err = Some [] then None else getErrorMessage err)) s)
      in s'\<lparr>d_submitting := False, d_inflight := remove1 sub (d_inflight s')\<rparr>)"

subsection \<open>Runs\<close>

text \<open>Everything that can happen to the drawer; an edit replaces the values of the form.\<close>

datatype drawer_event =
    OpenUpdate jsval
  | OpenCreate
  | DetailLoaded jsval jsval
  | CloseDrawer
  | ToggleAdvanced bool
  | EditForm channel_form
  | PressSubmit
  | AnswerRisk bool
  | AnswerMissing missing_action
  | Answered submission response

fun dispatch :: "drawer_event \<Rightarrow> drawer \<Rightarrow> drawer" where
  "dispatch (OpenUpdate i) s = open_update i s"
| "dispatch OpenCreate s = open_create s"
| "dispatch (DetailLoaded i c) s = detail_loaded i c s"
| "dispatch CloseDrawer s = handleOpenChange s"
| "dispatch (ToggleAdvanced b) s = handleAdvancedSettingsOpenChange b s"
| "dispatch (EditForm f) s = s\<lparr>d_form := f\<rparr>"
| "dispatch PressSubmit s = press_submit s"
| "dispatch (AnswerRisk b) s = handleStatusCodeRiskAction b s"
| "dispatch (AnswerMissing a) s = handleMissingModelsAction a s"
| "dispatch (Answered sub r) s = (if sub \<in> set (d_inflight s) then handle_response sub r s else s)"

definition run :: "drawer_event list \<Rightarrow> drawer" where
  "run es = foldl (\<lambda>s e. dispatch e s) initial_drawer es"

lemma run_simps [simp]: "run [] = initial_drawer" "run (es @ [e]) = dispatch e (run es)"
  by (simp_all add: run_def)

section \<open>Nothing is sent without its checks\<close>

text \<open>The parts of the state the checks depend on, and that opening, closing and editing keep.\<close>

definition same_checks :: "drawer \<Rightarrow> drawer \<Rightarrow> bool" where
  "same_checks s t \<longleftrightarrow> d_sent t = d_sent s \<and> d_risk_resolve t = d_risk_resolve s \<and>
     d_risk_items t = d_risk_items s \<and> d_missing_resolve t = d_missing_resolve s"

lemma same_checks_load: "same_checks s (load_effect s)"
  by (simp add: same_checks_def load_effect_def split: option.splits sum.splits)

lemma same_checks_trans: "same_checks s t \<Longrightarrow> same_checks t u \<Longrightarrow> same_checks s u"
  by (simp add: same_checks_def)

lemma same_checks_render: "same_checks s t \<Longrightarrow> same_checks s (render o' t)"
  using same_checks_load [of t] by (auto simp: render_def intro: same_checks_trans)

lemma same_checks_views:
  "same_checks s (open_update i s)" "same_checks s (open_create s)" "same_checks s (detail_loaded i c s)"
  "same_checks s (handleOpenChange s)" "same_checks s (handleAdvancedSettingsOpenChange b s)"
  "same_checks s (s\<lparr>d_form := f\<rparr>)" "same_checks s (parent_close s)"
  by (auto simp: open_update_def open_create_def detail_loaded_def handleOpenChange_def parent_close_def
      handleAdvancedSettingsOpenChange_def same_checks_def intro!: same_checks_render [unfolded same_checks_def])

lemma same_checks_toast: "same_checks s (add_toast t s)"
  by (simp add: add_toast_def same_checks_def)

lemma same_checks_response: "same_checks s (handle_response sub r s)"
proof -
  have "same_checks s (handleSuccess (add_toast t s))" for t
    unfolding handleSuccess_def by (rule same_checks_trans [OF same_checks_toast same_checks_views(7)])
  moreover have "same_checks s t \<Longrightarrow> same_checks s (t\<lparr>d_submitting := b, d_inflight := xs\<rparr>)" for t b xs
    by (simp add: same_checks_def)
  moreover have "same_checks s s" by (simp add: same_checks_def)
  ultimately show ?thesis unfolding handle_response_def Let_def
    by (cases r) (simp_all add: same_checks_toast)
qed

text \<open>The events of a run up to and including a press of the submit button, with the state before it.\<close>

definition pressed :: "drawer_event list \<Rightarrow> drawer \<Rightarrow> bool" where
  "pressed es s \<longleftrightarrow> (\<exists>es1. prefix (es1 @ [PressSubmit]) es \<and> s = run es1)"

text \<open>The user confirmed the dialog that lists these items.\<close>

definition confirmed :: "drawer_event list \<Rightarrow> jsstr list \<Rightarrow> bool" where
  "confirmed es items \<longleftrightarrow> (\<exists>es1. prefix (es1 @ [AnswerRisk True]) es \<and> d_risk_items (run es1) = items)"

lemma pressed_mono: "pressed es s \<Longrightarrow> pressed (es @ [e]) s"
  by (auto simp: pressed_def)

lemma confirmed_mono: "confirmed es xs \<Longrightarrow> confirmed (es @ [e]) xs"
  by (auto simp: confirmed_def)

definition status_mapping :: "submission \<Rightarrow> jsval" where
  "status_mapping sub = f_status_code_mapping (sub_data sub)"

definition valid_statuses :: "submission \<Rightarrow> bool" where
  "valid_statuses sub \<longleftrightarrow> (sub_row sub \<noteq> None \<or> trim (f_key (sub_data sub)) \<noteq> []) \<and>
     (trim (field_text (status_mapping sub)) \<noteq> [] \<longrightarrow>
      collectInvalidStatusCodeEntries (opt_field (status_mapping sub)) = [])"

definition risk_cleared :: "drawer_event list \<Rightarrow> submission \<Rightarrow> bool" where
  "risk_cleared es sub \<longleftrightarrow> valid_statuses sub \<and>
     (\<exists>s. pressed es s \<and> (trim (field_text (status_mapping sub)) = [] \<or> risky_redirects (sub_data sub) s = [] \<or>
        confirmed es (risky_redirects (sub_data sub) s)))"

definition mapping_valid :: "submission \<Rightarrow> bool" where
  "mapping_valid sub \<longleftrightarrow> fst (validateModelMappingJson (field_text (f_model_mapping (sub_data sub))))"

definition checked :: "drawer_event list \<Rightarrow> submission \<Rightarrow> bool" where
  "checked es sub \<longleftrightarrow> risk_cleared es sub \<and> mapping_valid sub"

definition asked :: "drawer_event list \<Rightarrow> drawer \<Rightarrow> submission \<Rightarrow> bool" where
  "asked es t sub \<longleftrightarrow> valid_statuses sub \<and> (\<exists>s. pressed es s \<and> d_risk_items t = risky_redirects (sub_data sub) s)"

definition drawer_inv :: "drawer_event list \<Rightarrow> drawer \<Rightarrow> bool" where
  "drawer_inv es s \<longleftrightarrow>
     (\<forall>(sub, req) \<in> set (d_sent s). checked es sub \<and> build_request sub = Inr req) \<and>
     (\<forall>sub. d_missing_resolve s = Some sub \<longrightarrow> checked es sub) \<and>
     (\<forall>sub. d_risk_resolve s = Some sub \<longrightarrow> asked es s sub)"

lemma checks_mono:
  "risk_cleared es sub \<Longrightarrow> risk_cleared (es @ [e]) sub"
  "checked es sub \<Longrightarrow> checked (es @ [e]) sub" "asked es s sub \<Longrightarrow> asked (es @ [e]) s sub"
  by (auto simp: risk_cleared_def checked_def asked_def intro: pressed_mono confirmed_mono)

lemma inv_mono: "drawer_inv es s \<Longrightarrow> drawer_inv (es @ [e]) s"
  by (fastforce simp: drawer_inv_def intro: checks_mono)

lemma inv_same: "drawer_inv es s \<Longrightarrow> same_checks s t \<Longrightarrow> drawer_inv es t"
  by (simp add: drawer_inv_def same_checks_def asked_def)

lemma inv_send_submission:
  assumes "drawer_inv es s" and "checked es sub"
  shows "drawer_inv es (send_submission sub s)"
  using assms by (cases "build_request sub")
    (auto simp: send_submission_def drawer_inv_def add_toast_def asked_def)

lemma blank_mapping_valid: "\<not> has_model_mapping f \<Longrightarrow> fst (validateModelMappingJson (field_text (f_model_mapping f)))"
  by (simp add: has_model_mapping_def validateModelMappingJson_def)

lemma inv_check_models:
  assumes "drawer_inv es s" and "risk_cleared es sub"
  shows "drawer_inv es (check_models sub s)"
proof -
  let ?v = "mapping_valid sub"
  have ok: "checked es sub" if "\<not> (has_model_mapping (sub_data sub) \<and> \<not> ?v)"
    using that assms(2) blank_mapping_valid [of "sub_data sub"] by (auto simp: checked_def mapping_valid_def)
  have "drawer_inv es (s\<lparr>d_missing_list := xs, d_missing_open := True, d_missing_resolve := Some sub\<rparr>)"
    if "checked es sub" for xs
    using assms(1) that by (simp add: drawer_inv_def asked_def)
  then show ?thesis
    using ok inv_send_submission [OF assms(1)] inv_same [OF assms(1) same_checks_toast]
    by (simp add: check_models_def Let_def mapping_valid_def)
qed

lemma inv_press:
  assumes "drawer_inv es (run es)"
  shows "drawer_inv (es @ [PressSubmit]) (press_submit (run es))"
proof -
  let ?s = "run es" and ?es = "es @ [PressSubmit]"
  let ?t = "?s\<lparr>d_key_error := False\<rparr>"
  let ?sub = "\<lparr>sub_row = d_row ?s, sub_multi_key = multi_key_channel ?s, sub_data = d_form ?s\<rparr>"
  have t: "drawer_inv ?es ?t" "drawer_inv ?es (?t\<lparr>d_key_error := True\<rparr>)"
    by (rule inv_same [OF inv_mono [OF assms]]; simp add: same_checks_def)+
  have p: "pressed ?es ?s" by (auto simp: pressed_def)
  have r: "risky_redirects f ?t = risky_redirects f ?s" for f by (simp add: risky_redirects_def)
  have "drawer_inv ?es (onSubmit ?sub ?t)"
  proof (cases "valid_statuses ?sub")
    case False
    then show ?thesis using t inv_same [OF t(1) same_checks_toast]
      by (auto simp: onSubmit_def Let_def valid_statuses_def status_mapping_def)
  next
    case True
    have wait: "drawer_inv ?es (?t\<lparr>d_risk_resolve := Some ?sub, d_risk_items := risky_redirects (d_form ?s) ?t,
        d_risk_open := True\<rparr>)"
      using t(1) True p r by (auto simp: drawer_inv_def asked_def)
    have go: "drawer_inv ?es (check_models ?sub ?t)"
      if "trim (field_text (f_status_code_mapping (d_form ?s))) = [] \<or> risky_redirects (d_form ?s) ?t = []"
      using that True p r by (intro inv_check_models t(1)) (auto simp: risk_cleared_def status_mapping_def)
    show ?thesis using True wait go
      by (auto simp: onSubmit_def Let_def valid_statuses_def status_mapping_def)
  qed
  then show ?thesis using inv_mono [OF assms] by (simp add: press_submit_def)
qed

lemma inv_risk:
  assumes "drawer_inv es (run es)"
  shows "drawer_inv (es @ [AnswerRisk b]) (handleStatusCodeRiskAction b (run es))"
proof -
  let ?s = "run es" and ?es = "es @ [AnswerRisk b]"
  let ?t = "?s\<lparr>d_risk_open := False, d_risk_items := [], d_risk_resolve := None\<rparr>"
  have t: "drawer_inv ?es ?t" using inv_mono [OF assms] by (auto simp: drawer_inv_def)
  have "risk_cleared ?es sub" if resolved: "d_risk_resolve ?s = Some sub" and yes: "b" for sub
  proof -
    obtain s where s: "valid_statuses sub" "pressed es s" "d_risk_items ?s = risky_redirects (sub_data sub) s"
      using assms resolved unfolding drawer_inv_def asked_def by blast
    have "confirmed ?es (risky_redirects (sub_data sub) s)"
      using yes s(3) by (auto simp: confirmed_def intro!: exI [of _ es])
    with s pressed_mono [of es s] show ?thesis by (auto simp: risk_cleared_def)
  qed
  then show ?thesis using t
    by (auto simp: handleStatusCodeRiskAction_def Let_def split: option.split intro: inv_check_models)
qed

lemma checked_add_missing: "checked es (add_missing sub) \<longleftrightarrow> checked es sub"
  by (simp add: checked_def add_missing_def Let_def risk_cleared_def mapping_valid_def valid_statuses_def
      status_mapping_def risky_redirects_def)

lemma inv_missing:
  assumes "drawer_inv es s"
  shows "drawer_inv es (handleMissingModelsAction a s)"
proof -
  let ?t = "s\<lparr>d_missing_open := False, d_missing_resolve := None\<rparr>"
  have t: "drawer_inv es ?t" using assms by (auto simp: drawer_inv_def asked_def)
  moreover have "drawer_inv es (?t\<lparr>d_form := f\<rparr>)" for f
    using t by (rule inv_same) (simp add: same_checks_def)
  moreover have "checked es sub" if "d_missing_resolve s = Some sub" for sub
    using assms that by (simp add: drawer_inv_def)
  ultimately show ?thesis unfolding handleMissingModelsAction_def Let_def
    by (auto split: option.split missing_action.split intro!: inv_send_submission simp: checked_add_missing)
qed

lemma drawer_inv_run: "drawer_inv es (run es)"
proof (induction es rule: rev_induct)
  case Nil
  show ?case by (simp add: drawer_inv_def initial_drawer_def)
next
  case (snoc e es)
  have mono: "same_checks (run es) t \<Longrightarrow> drawer_inv (es @ [e]) t" for t
    using inv_same [OF inv_mono [OF snoc]] .
  show ?case
  proof (cases e)
    case PressSubmit
    then show ?thesis using inv_press [OF snoc] by simp
  next
    case (AnswerRisk b)
    then show ?thesis using inv_risk [OF snoc] by simp
  next
    case (AnswerMissing a)
    then show ?thesis using inv_missing [OF inv_mono [OF snoc]] by simp
  next
    case (Answered sub r)
    then show ?thesis using mono same_checks_response inv_mono [OF snoc] by simp
  qed (use mono same_checks_views in simp_all)
qed

text \<open>C6. No channel is sent to the server without its checks: in every run of the drawer, whatever is
  edited, reopened, resubmitted or answered in between, each request that was sent is the request of a
  submission whose model mapping is a JSON object, whose status code mapping has only valid entries and
  whose key is not blank when a channel is created; and its status code mapping introduced no risky
  redirect over the mapping loaded when the button was pressed, unless the user confirmed the dialog
  that listed exactly these redirects.\<close>

theorem confirmed_before_sent:
  assumes "(sub, req) \<in> set (d_sent (run es))"
  shows "build_request sub = Inr req \<and> mapping_valid sub \<and> valid_statuses sub \<and>
    (\<exists>s. pressed es s \<and> (trim (field_text (status_mapping sub)) = [] \<or> risky_redirects (sub_data sub) s = [] \<or>
       confirmed es (risky_redirects (sub_data sub) s)))"
  using drawer_inv_run [of es] assms by (auto simp: drawer_inv_def checked_def risk_cleared_def)

definition sample_submit :: channel_form where
  "sample_submit = CHANNEL_FORM_DEFAULT_VALUES
     \<lparr>f_name := jstr ''main'', f_models := jstr ''gpt-4'', f_key := js ''sk-1'',
      f_status_code_mapping := jstr ''{\"504\":\"200\"}''\<rparr>"

definition sample_run :: "drawer_event list" where
  "sample_run = [OpenCreate, EditForm sample_submit, PressSubmit, AnswerRisk True]"

lemma sample_run_sent: "d_sent (run sample_run) \<noteq> []"
  by code_simp

theorem confirmed_before_sent_witness:
  "\<exists>sub req. (sub, req) \<in> set (d_sent (run sample_run)) \<and> build_request sub = Inr req \<and>
    mapping_valid sub \<and> valid_statuses sub"
proof -
  obtain sub req where "(sub, req) \<in> set (d_sent (run sample_run))"
    using sample_run_sent by (cases "d_sent (run sample_run)") auto
  with confirmed_before_sent [OF this] show ?thesis by blast
qed

section \<open>What the drawer shows after a save\<close>

lemma response_success:
  "d_row (handle_response sub (Responded True) s) = None"
  "d_cache (handle_response sub (Responded True) s) = d_cache s"
  by (simp_all add: handle_response_def handleSuccess_def parent_close_def render_def add_toast_def
      load_effect_def Let_def split: option.split sum.split)

lemma open_update_cached:
  assumes "d_row s = None" and "map_of (d_cache s) i = Some c" and "transformChannelToFormDefaults c = Inr g"
  shows "d_form (open_update i s) = g" and "d_row (open_update i s) = Some i"
  using assms
  by (simp_all add: open_update_def render_def isEditing_def load_effect_def channelData_def)

text \<open>C30. A saved channel reopens with the values it had before the save: the drawer keeps the detail it
  loaded, and a successful update does not remove it, so that opening the channel again fills the form
  from the old detail, whatever the request contained; submitting that form sends the old values back.\<close>

theorem reopen_shows_old_values:
  assumes "sub \<in> set (d_inflight s)" and "sub_row sub = Some i"
    and "map_of (d_cache s) i = Some c" and "transformChannelToFormDefaults c = Inr g"
  shows "d_form (dispatch (OpenUpdate i) (dispatch (Answered sub (Responded True)) s)) = g \<and>
    d_row (dispatch (OpenUpdate i) (dispatch (Answered sub (Responded True)) s)) = Some i"
  using open_update_cached [of "handle_response sub (Responded True) s" i c g] assms
  by (simp add: response_success)

definition old_channel :: jsval where
  "old_channel = JObj
     [(js ''id'', JNum (Fin 7)), (js ''name'', jstr ''old''), (js ''type'', JNum (Fin 2)),
      (js ''models'', jstr ''gpt-4''), (js ''group'', jstr ''default''), (js ''status'', JNum (Fin 1)),
      (js ''channel_info'', JObj [])]"

definition renamed_form :: channel_form where
  "renamed_form = (opened_form old_channel (js ''default''))\<lparr>f_name := jstr ''new''\<rparr>"

definition rename_run :: "drawer_event list" where
  "rename_run = [OpenUpdate (JNum (Fin 7)), DetailLoaded (JNum (Fin 7)) old_channel, EditForm renamed_form, PressSubmit]"

definition rename_submission :: submission where
  "rename_submission = \<lparr>sub_row = Some (JNum (Fin 7)), sub_multi_key = False, sub_data = renamed_form\<rparr>"

lemma rename_facts:
  "d_inflight (run rename_run) = [rename_submission]"
  "map_of (d_cache (run rename_run)) (JNum (Fin 7)) = Some old_channel"
  "transformChannelToFormDefaults old_channel = Inr (opened_form old_channel (js ''default''))"
  "f_name (opened_form old_channel (js ''default'')) = jstr ''old''"
  by code_simp+

theorem reopen_shows_old_values_witness:
  "rename_submission \<in> set (d_inflight (run rename_run)) \<and> f_name (sub_data rename_submission) = jstr ''new'' \<and>
   f_name (d_form (dispatch (OpenUpdate (JNum (Fin 7)))
     (dispatch (Answered rename_submission (Responded True)) (run rename_run)))) = jstr ''old''"
proof -
  have sub: "rename_submission \<in> set (d_inflight (run rename_run))" "sub_row rename_submission = Some (JNum (Fin 7))"
    by (simp_all add: rename_facts(1)) (simp add: rename_submission_def)
  have "f_name (sub_data rename_submission) = jstr ''new''"
    by (simp add: rename_submission_def renamed_form_def)
  with sub reopen_shows_old_values [OF sub rename_facts(2,3)] rename_facts(4) show ?thesis by simp
qed

text \<open>A successful creation leaves the form filled, its key included, for the next channel; closing the
  drawer by hand empties it.\<close>

lemma created_form_stays:
  assumes "d_row s = None" and "sub_row sub = None"
  shows "d_form (open_create (handle_response sub (Responded True) s)) = d_form s"
    and "d_form (open_create (handleOpenChange s)) = CHANNEL_FORM_DEFAULT_VALUES"
  using assms
  by (simp_all add: open_create_def handle_response_def handleSuccess_def parent_close_def handleOpenChange_def
      render_def isEditing_def channelData_def add_toast_def Let_def)

text \<open>An answer that arrives late closes the drawer of another channel and drops what was typed there.\<close>

lemma late_success_closes:
  assumes "d_row s = Some j"
  shows "d_open (handle_response sub (Responded True) s) = False"
    and "d_form (handle_response sub (Responded True) s) = CHANNEL_FORM_DEFAULT_VALUES"
  using assms
  by (simp_all add: handle_response_def handleSuccess_def parent_close_def render_def isEditing_def
      add_toast_def load_effect_def Let_def)

subsection \<open>Adding the missing models\<close>

lemma missing_item: "m \<in> set (missing_models f) \<Longrightarrow> m \<noteq> [] \<and> trimmed m"
  by (auto simp: missing_models_def findMissingModelsInMapping_def normalizeModelName_def Let_def
      split: if_splits option.splits)

lemma normalized_clean: "m \<in> set (normalized_models f) \<Longrightarrow> clean_item 44 m"
  unfolding normalized_models_def by (rule models_text.parse_clean)

definition mapping_sources :: "jsval \<Rightarrow> jsstr list" where
  "mapping_sources mapping =
     (if trim (field_text mapping) = [] then []
      else (case parse_object (field_text mapping) of None \<Rightarrow> [] | Some es \<Rightarrow> map (\<lambda>e. trim (fst e)) es))"

lemma missing_exact:
  "missing_models f =
     js_set (filter (\<lambda>k. k \<noteq> [] \<and> k \<notin> set (normalized_models f)) (mapping_sources (f_model_mapping f)))"
proof -
  have "set (js_set (map (\<lambda>m. normalizeModelName (JStr m)) (normalized_models f))) = set (normalized_models f)"
    using normalized_clean by (force simp: normalizeModelName_def clean_item_def trim_trimmed)
  then show ?thesis
    by (simp add: missing_models_def findMissingModelsInMapping_def mapping_sources_def normalizeModelName_def
        js_set_def split: option.split)
qed

lemma missing_none:
  assumes "set (normalized_models f) \<union> set (missing_models f) \<subseteq> set (normalized_models g)"
    and "f_model_mapping g = f_model_mapping f"
  shows "missing_models g = []"
proof -
  have "set (missing_models g) = {}" using assms(1) by (auto simp: missing_exact assms(2))
  then show ?thesis by simp
qed

text \<open>Choosing \<open>Add and submit\<close> settles the question it answers: when no name of the mapping
  contains the comma that separates models, the models of the submission that is sent afterwards are the
  old ones followed by the missing ones, without duplicates, and the mapping has no missing model any more.\<close>

theorem add_missing_settles:
  assumes "\<forall>m \<in> set (missing_models (sub_data sub)). 44 \<notin> set m"
  shows "normalized_models (sub_data (add_missing sub)) =
      js_set (normalized_models (sub_data sub) @ missing_models (sub_data sub)) \<and>
    missing_models (sub_data (add_missing sub)) = []"
proof -
  let ?f = "sub_data sub" and ?g = "sub_data (add_missing sub)"
  have "\<forall>m \<in> set (js_set (normalized_models ?f @ missing_models ?f)). clean_item 44 m"
    using assms normalized_clean [of _ ?f] missing_item [of _ ?f] by (auto simp: clean_item_def)
  then have n: "normalized_models ?g = js_set (normalized_models ?f @ missing_models ?f)"
    by (simp add: add_missing_def Let_def normalized_models_def [of "_ \<lparr>f_models := _\<rparr>"] field_text_def parse_format_models js_set_idem)
  then have "missing_models ?g = []"
    by (intro missing_none [of ?f]) (auto simp: add_missing_def Let_def)
  with n show ?thesis by blast
qed

definition redirect_submission :: submission where
  "redirect_submission = \<lparr>sub_row = None, sub_multi_key = False,
     sub_data = CHANNEL_FORM_DEFAULT_VALUES
       \<lparr>f_models := jstr ''gpt-4'', f_model_mapping := jstr ''{\"a\":\"b\"}''\<rparr>\<rparr>"

lemma redirect_missing: "missing_models (sub_data redirect_submission) = [js ''a'']"
  by code_simp

theorem add_missing_settles_witness:
  "missing_models (sub_data redirect_submission) = [js ''a''] \<and>
   missing_models (sub_data (add_missing redirect_submission)) = []"
proof -
  have "\<forall>m \<in> set (missing_models (sub_data redirect_submission)). 44 \<notin> set m"
    by (simp add: redirect_missing js_lit)
  from add_missing_settles [OF this] redirect_missing show ?thesis by blast
qed

end
