(* ===== verification/Currency.thy ===== *)
theory Currency
  imports JsValue
begin

section \<open>Currency display\<close>

text \<open>
  \<open>lib/currency.ts\<close> with the currency part of \<open>stores/system-config-store.ts\<close>: amounts are kept in
  USD (or raw quota units) and shown in the display unit an administrator configured.
  \<open>Intl.NumberFormat\<close>, which formats for the reader's locale, is the argument \<open>intl\<close>: it receives
  the currency code (\<open>None\<close> for plain numbers), the maximal number of fraction digits and the
  number. \<open>Number.prototype.toFixed\<close> is modelled exactly.
\<close>

type_synonym number_format = "jsstr option \<Rightarrow> nat \<Rightarrow> jsnum \<Rightarrow> jsstr"

subsection \<open>Configuration\<close>

datatype display_type = DisplayUSD | DisplayCNY | DisplayTOKENS | DisplayCUSTOM

record currency_config =
  displayInCurrency :: bool
  quotaDisplayType :: display_type
  quotaPerUnit :: jsnum
  usdExchangeRate :: jsnum
  customCurrencySymbol :: jsstr
  customCurrencyExchangeRate :: jsnum

definition DEFAULT_CURRENCY_CONFIG :: currency_config where
  "DEFAULT_CURRENCY_CONFIG =
     \<lparr>displayInCurrency = True, quotaDisplayType = DisplayUSD, quotaPerUnit = num_int 500000,
      usdExchangeRate = num_int 1, customCurrencySymbol = [164],
      customCurrencyExchangeRate = num_int 1\<rparr>"

definition DISPLAY_TYPE_VALUES :: "(jsstr \<times> display_type) list" where
  "DISPLAY_TYPE_VALUES = [(js ''USD'', DisplayUSD), (js ''CNY'', DisplayCNY),
     (js ''TOKENS'', DisplayTOKENS), (js ''CUSTOM'', DisplayCUSTOM)]"

definition isCurrencyDisplayType :: "jsval \<Rightarrow> bool" where
  "isCurrencyDisplayType v \<longleftrightarrow> (case v of JStr s \<Rightarrow> map_of DISPLAY_TYPE_VALUES s \<noteq> None | _ \<Rightarrow> False)"

definition parseCurrencyDisplayType :: "jsval \<Rightarrow> display_type \<Rightarrow> display_type" where
  "parseCurrencyDisplayType v fallback =
     (case v of JStr s \<Rightarrow> (case map_of DISPLAY_TYPE_VALUES s of Some t \<Rightarrow> t | None \<Rightarrow> fallback)
      | _ \<Rightarrow> fallback)"

definition positive_or :: "jsnum \<Rightarrow> jsnum \<Rightarrow> jsnum" where
  "positive_or x dflt = (if num_truthy x \<and> num_lt (num_int 0) x then x else dflt)"

text \<open>The store may hold no currency configuration.\<close>

definition getConfig :: "currency_config option \<Rightarrow> currency_config" where
  "getConfig stored =
     (let currency = (case stored of Some c \<Rightarrow> c | None \<Rightarrow> DEFAULT_CURRENCY_CONFIG)
      in currency\<lparr>
           quotaPerUnit := positive_or (quotaPerUnit currency) (quotaPerUnit DEFAULT_CURRENCY_CONFIG),
           usdExchangeRate := positive_or (usdExchangeRate currency) (usdExchangeRate DEFAULT_CURRENCY_CONFIG),
           customCurrencyExchangeRate :=
             positive_or (customCurrencyExchangeRate currency) (customCurrencyExchangeRate DEFAULT_CURRENCY_CONFIG),
           customCurrencySymbol :=
             (if trim (customCurrencySymbol currency) \<noteq> [] then trim (customCurrencySymbol currency)
              else customCurrencySymbol DEFAULT_CURRENCY_CONFIG)\<rparr>)"

datatype display_meta =
    MetaCurrency (meta_symbol: jsstr) (meta_code: jsstr) (meta_rate: jsnum)
  | MetaCustom (meta_symbol: jsstr) (meta_rate: jsnum)
  | MetaTokens jsnum

definition usd_meta :: display_meta where
  "usd_meta = MetaCurrency (js ''credits '') (js ''USD'') (num_int 1)"

definition getDisplayMeta :: "currency_config \<Rightarrow> display_meta" where
  "getDisplayMeta config =
     (case quotaDisplayType config of
        DisplayCNY \<Rightarrow> MetaCurrency [165] (js ''CNY'') (usdExchangeRate config)
      | DisplayCUSTOM \<Rightarrow> MetaCustom (customCurrencySymbol config) (customCurrencyExchangeRate config)
      | DisplayTOKENS \<Rightarrow> MetaTokens (quotaPerUnit config)
      | DisplayUSD \<Rightarrow> usd_meta)"

definition is_tokens :: "display_meta \<Rightarrow> bool" where
  "is_tokens m \<longleftrightarrow> (case m of MetaTokens _ \<Rightarrow> True | _ \<Rightarrow> False)"

definition getBillingDisplayMeta :: "currency_config \<Rightarrow> display_meta" where
  "getBillingDisplayMeta config =
     (let meta = getDisplayMeta config in if is_tokens meta then usd_meta else meta)"

record format_options =
  digitsLarge :: nat
  digitsSmall :: nat
  abbreviate :: bool
  minimumNonZero :: jsnum

record partial_options =
  po_digitsLarge :: "nat option"
  po_digitsSmall :: "nat option"
  po_abbreviate :: "bool option"
  po_minimumNonZero :: "jsnum option"

definition DEFAULT_FORMAT_OPTIONS :: format_options where
  "DEFAULT_FORMAT_OPTIONS =
     \<lparr>digitsLarge = 2, digitsSmall = 4, abbreviate = True, minimumNonZero = num_int 0\<rparr>"

definition or_default :: "'a option \<Rightarrow> 'a \<Rightarrow> 'a" where
  "or_default x d = (case x of Some v \<Rightarrow> v | None \<Rightarrow> d)"

definition mergeOptions :: "partial_options option \<Rightarrow> format_options" where
  "mergeOptions options =
     (case options of
        None \<Rightarrow> DEFAULT_FORMAT_OPTIONS
      | Some p \<Rightarrow>
        \<lparr>digitsLarge = or_default (po_digitsLarge p) (digitsLarge DEFAULT_FORMAT_OPTIONS),
         digitsSmall = or_default (po_digitsSmall p) (digitsSmall DEFAULT_FORMAT_OPTIONS),
         abbreviate = or_default (po_abbreviate p) (abbreviate DEFAULT_FORMAT_OPTIONS),
         minimumNonZero = or_default (po_minimumNonZero p) (minimumNonZero DEFAULT_FORMAT_OPTIONS)\<rparr>)"

subsection \<open>Numbers as text\<close>

text \<open>\<open>x.toFixed(d)\<close>: the integer nearest to \<open>x * 10 ^ d\<close>, the larger one for a tie, laid out with
  \<open>d\<close> fraction digits; from \<open>1e21\<close> on the shortest decimal.\<close>

definition pad_zeros :: "nat \<Rightarrow> jsstr \<Rightarrow> jsstr" where
  "pad_zeros n s = replicate (n - length s) 48 @ s"

definition fixed_layout :: "nat \<Rightarrow> int \<Rightarrow> jsstr" where
  "fixed_layout d n =
     (if d = 0 then int_digits n
      else let m = pad_zeros (Suc d) (int_digits n)
      in take (length m - d) m @ 46 # drop (length m - d) m)"

definition round_half_up :: "rat \<Rightarrow> int" where
  "round_half_up r = \<lfloor>r + 1 / 2\<rfloor>"

fun to_fixed :: "jsnum \<Rightarrow> nat \<Rightarrow> jsstr" where
  "to_fixed (Fin r) d =
     (if 10 ^ 21 \<le> \<bar>r\<bar> then num_to_str (Fin r)
      else (if r < 0 then [45] else []) @ fixed_layout d (round_half_up (\<bar>r\<bar> * 10 ^ d)))"
| "to_fixed x d = num_to_str x"

text \<open>\<open>/(\.[0-9]*?)0+$/\<close> matches at the first point that digits and at least one zero follow to the
  end, and takes all the zeros.\<close>

definition strip_zeros :: "jsstr \<Rightarrow> jsstr" where
  "strip_zeros s = rev (dropWhile (\<lambda>c. c = 48) (rev s))"

fun drop_point_zeros :: "jsstr \<Rightarrow> jsstr" where
  "drop_point_zeros [] = []"
| "drop_point_zeros (c # s) =
     (if c = 46 \<and> s \<noteq> [] \<and> list_all is_digit s \<and> last s = 48 then c # strip_zeros s
      else c # drop_point_zeros s)"

definition drop_last_point :: "jsstr \<Rightarrow> jsstr" where
  "drop_last_point s = (if s \<noteq> [] \<and> last s = 46 then butlast s else s)"

definition removeTrailingZeros :: "jsstr \<Rightarrow> jsstr" where
  "removeTrailingZeros str =
     (if 46 \<notin> set str then str else drop_last_point (drop_point_zeros str))"

fun num_abs :: "jsnum \<Rightarrow> jsnum" where
  "num_abs (Fin r) = Fin \<bar>r\<bar>"
| "num_abs NInf = PInf"
| "num_abs x = x"

definition formatNumberWithSuffix :: "jsnum \<Rightarrow> nat \<Rightarrow> nat \<Rightarrow> bool \<Rightarrow> jsstr" where
  "formatNumberWithSuffix x large small abbrev =
     (if abbrev \<and> num_le (num_int 1000) (num_abs x)
      then removeTrailingZeros (to_fixed (num_div x (num_int 1000)) 1) @ js ''k''
      else removeTrailingZeros (to_fixed x (if num_le (num_int 1) (num_abs x) then large else small)))"

definition minimum_threshold :: "nat \<Rightarrow> jsnum \<Rightarrow> jsnum" where
  "minimum_threshold digits minimum =
     (if num_lt (num_int 0) minimum then minimum else fl (1 / 10 ^ digits))"

definition adjustForMinimum :: "jsnum \<Rightarrow> nat \<Rightarrow> jsnum \<Rightarrow> jsnum" where
  "adjustForMinimum x digits minimum =
     (if num_eq x (num_int 0) then x
      else let threshold = minimum_threshold digits minimum
      in if num_lt (num_int 0) (num_abs x) \<and> num_lt (num_abs x) threshold
         then (if num_lt (num_int 0) x then threshold else num_neg threshold)
         else x)"

definition formatCurrencyValue :: "number_format \<Rightarrow> jsnum \<Rightarrow> format_options \<Rightarrow> display_meta \<Rightarrow> jsstr" where
  "formatCurrencyValue intl x opts meta =
     (let digits = (if num_le (num_int 1) (num_abs x) then digitsLarge opts else digitsSmall opts);
          adjusted = adjustForMinimum x digits (minimumNonZero opts)
      in case meta of
        MetaTokens _ \<Rightarrow> formatNumberWithSuffix x (digitsLarge opts) (digitsSmall opts) (abbreviate opts)
      | MetaCurrency _ code _ \<Rightarrow>
          if code = js ''USD'' then intl None digits adjusted @ js '' credits''
          else intl (Some code) digits adjusted
      | MetaCustom symbol _ \<Rightarrow> symbol @ intl None digits adjusted)"

subsection \<open>Formatting functions\<close>

text \<open>An amount is \<open>None\<close> where the code is given \<open>null\<close> or \<open>undefined\<close>.\<close>

definition getCurrencyDisplay :: "currency_config option \<Rightarrow> currency_config \<times> display_meta" where
  "getCurrencyDisplay stored = (let config = getConfig stored in (config, getDisplayMeta config))"

definition shown :: "jsnum option \<Rightarrow> (jsnum \<Rightarrow> jsstr) \<Rightarrow> jsstr" where
  "shown amount f = (case amount of None \<Rightarrow> js ''-'' | Some x \<Rightarrow> if x = NaN then js ''-'' else f x)"

definition formatCurrencyFromUSD ::
  "number_format \<Rightarrow> currency_config option \<Rightarrow> jsnum option \<Rightarrow> partial_options option \<Rightarrow> jsstr" where
  "formatCurrencyFromUSD intl stored amountUSD options =
     shown amountUSD (\<lambda>x.
       let (config, meta) = getCurrencyDisplay stored; merged = mergeOptions options
       in if is_tokens meta
          then formatNumberWithSuffix (num_mul x (quotaPerUnit config)) 0 (digitsSmall merged) (abbreviate merged)
          else formatCurrencyValue intl (num_mul x (meta_rate meta)) merged meta)"

definition formatBillingCurrencyFromUSD ::
  "number_format \<Rightarrow> currency_config option \<Rightarrow> jsnum option \<Rightarrow> partial_options option \<Rightarrow> jsstr" where
  "formatBillingCurrencyFromUSD intl stored amountUSD options =
     shown amountUSD (\<lambda>x.
       let meta = getBillingDisplayMeta (fst (getCurrencyDisplay stored)); merged = mergeOptions options
       in formatCurrencyValue intl (if is_tokens meta then x else num_mul x (meta_rate meta)) merged meta)"

definition formatQuotaWithCurrency ::
  "number_format \<Rightarrow> currency_config option \<Rightarrow> jsnum option \<Rightarrow> partial_options option \<Rightarrow> jsstr" where
  "formatQuotaWithCurrency intl stored quota options =
     shown quota (\<lambda>q. formatCurrencyFromUSD intl stored
       (Some (num_div q (quotaPerUnit (fst (getCurrencyDisplay stored))))) options)"

definition formatLocalCurrencyAmount ::
  "number_format \<Rightarrow> currency_config option \<Rightarrow> jsnum option \<Rightarrow> partial_options option \<Rightarrow> jsstr" where
  "formatLocalCurrencyAmount intl stored amount options =
     shown amount (\<lambda>x.
       formatCurrencyValue intl x (mergeOptions options)
         (getBillingDisplayMeta (fst (getCurrencyDisplay stored))))"

definition getCurrencyLabel :: "currency_config option \<Rightarrow> jsstr" where
  "getCurrencyLabel stored =
     (let (config, meta) = getCurrencyDisplay stored
      in if is_tokens meta then js ''Tokens''
         else case quotaDisplayType config of
           DisplayCNY \<Rightarrow> js ''CNY''
         | DisplayCUSTOM \<Rightarrow> (case meta of MetaCustom s _ \<Rightarrow> s | _ \<Rightarrow> js ''Custom'')
         | _ \<Rightarrow> js ''credits'')"

definition isCurrencyDisplayEnabled :: "currency_config option \<Rightarrow> bool" where
  "isCurrencyDisplayEnabled stored \<longleftrightarrow> \<not> is_tokens (snd (getCurrencyDisplay stored))"

subsection \<open>Configuration and display unit\<close>

lemma positive_or_positive: "num_lt (num_int 0) d \<Longrightarrow> num_lt (num_int 0) (positive_or x d)"
  by (simp add: positive_or_def)

text \<open>
  Whatever the store holds, the configuration used for display has positive rates and a symbol
  that is not blank, so no amount is divided by zero or shown without a unit.
\<close>

theorem currency_config_usable:
  "num_lt (num_int 0) (quotaPerUnit (getConfig stored)) \<and>
   num_lt (num_int 0) (usdExchangeRate (getConfig stored)) \<and>
   num_lt (num_int 0) (customCurrencyExchangeRate (getConfig stored)) \<and>
   trim (customCurrencySymbol (getConfig stored)) \<noteq> []"
proof -
  have "trim [164] = [164]" by (rule trim_trimmed) (simp add: trimmed_def is_ws_def)
  then have "trim (customCurrencySymbol (getConfig stored)) \<noteq> []"
    by (simp add: getConfig_def Let_def DEFAULT_CURRENCY_CONFIG_def trim_idem)
  then show ?thesis
    by (simp add: getConfig_def Let_def DEFAULT_CURRENCY_CONFIG_def positive_or_positive)
qed

lemma billing_meta_not_tokens: "\<not> is_tokens (getBillingDisplayMeta config)"
  by (simp add: getBillingDisplayMeta_def Let_def is_tokens_def usd_meta_def)

text \<open>
  Prices and payments are never shown in tokens: the display unit of the billing formatters is a
  currency for every configuration, and a configuration that shows quotas as tokens prints every
  billing amount exactly as the USD configuration does.
\<close>

theorem billing_never_in_tokens:
  "\<not> is_tokens (getBillingDisplayMeta config) \<and>
   formatBillingCurrencyFromUSD intl (Some (config\<lparr>quotaDisplayType := DisplayTOKENS\<rparr>)) amount options =
     formatBillingCurrencyFromUSD intl (Some (config\<lparr>quotaDisplayType := DisplayUSD\<rparr>)) amount options \<and>
   formatLocalCurrencyAmount intl (Some (config\<lparr>quotaDisplayType := DisplayTOKENS\<rparr>)) amount options =
     formatLocalCurrencyAmount intl (Some (config\<lparr>quotaDisplayType := DisplayUSD\<rparr>)) amount options"
proof -
  have "getBillingDisplayMeta (getConfig (Some (config\<lparr>quotaDisplayType := DisplayTOKENS\<rparr>))) =
      getBillingDisplayMeta (getConfig (Some (config\<lparr>quotaDisplayType := DisplayUSD\<rparr>)))"
    by (simp add: getBillingDisplayMeta_def getDisplayMeta_def getConfig_def Let_def is_tokens_def usd_meta_def)
  then show ?thesis
    using billing_meta_not_tokens
    by (simp add: formatBillingCurrencyFromUSD_def formatLocalCurrencyAmount_def getCurrencyDisplay_def Let_def)
qed

subsection \<open>Small amounts\<close>

text \<open>
  A positive amount is not rounded away: what is handed to the number formatter is at least the
  smallest amount the chosen number of digits can show (or the configured minimum), amounts already
  that large are left alone, zero stays zero, and a negative amount is treated as its mirror image.
\<close>

theorem small_amount_stays_visible:
  assumes "0 < r"
  shows "\<not> num_lt (adjustForMinimum (Fin r) digits minimum) (minimum_threshold digits minimum) \<and>
     adjustForMinimum (Fin (- r)) digits minimum = num_neg (adjustForMinimum (Fin r) digits minimum) \<and>
     (\<not> num_lt (Fin r) (minimum_threshold digits minimum) \<longrightarrow> adjustForMinimum (Fin r) digits minimum = Fin r) \<and>
     adjustForMinimum (Fin 0) digits minimum = Fin 0"
proof -
  have irrefl: "\<not> num_lt x x" for x by (cases x) auto
  have pos: "num_lt (num_int 0) (Fin r)" "\<not> num_lt (num_int 0) (Fin (- r))"
    "\<not> num_eq (Fin r) (num_int 0)" "\<not> num_eq (Fin (- r)) (num_int 0)" "num_eq (Fin 0) (num_int 0)"
    using assms(1) by (auto simp: num_int_def num_eq_def)
  show ?thesis
    using pos irrefl assms(1)
    by (simp add: adjustForMinimum_def Let_def)
qed

theorem small_amount_stays_visible_witness:
  "\<not> num_lt (adjustForMinimum (Fin (1 / 1000000)) 4 (num_int 1)) (num_int 1)"
  using small_amount_stays_visible [of "1 / 1000000" 4 "num_int 1"]
  by (simp add: minimum_threshold_def)

subsection \<open>Fixed-point text\<close>

text \<open>The number a decimal text denotes.\<close>

definition dec_value :: "jsstr \<Rightarrow> rat" where
  "dec_value s =
     (let a = takeWhile (\<lambda>c. c \<noteq> 46) s; b = drop 1 (dropWhile (\<lambda>c. c \<noteq> 46) s)
      in of_int (digits_val (a @ b)) / 10 ^ length b)"

lemma dec_value_point: "46 \<notin> set a \<Longrightarrow> dec_value (a @ 46 # b) = of_int (digits_val (a @ b)) / 10 ^ length b"
proof -
  assume "46 \<notin> set a"
  then have "takeWhile (\<lambda>c. c \<noteq> 46) (a @ 46 # b) = a" "dropWhile (\<lambda>c. c \<noteq> 46) (a @ 46 # b) = 46 # b"
    by (induction a) auto
  then show ?thesis by (simp add: dec_value_def)
qed

lemma dec_value_plain: "46 \<notin> set a \<Longrightarrow> dec_value a = of_int (digits_val a)"
proof -
  assume "46 \<notin> set a"
  then have "takeWhile (\<lambda>c. c \<noteq> 46) a = a" "dropWhile (\<lambda>c. c \<noteq> 46) a = []"
    by (induction a) auto
  then show ?thesis unfolding dec_value_def Let_def by (simp only: drop_Nil append_Nil2 list.size) simp
qed

lemma digits_val_zeros: "digits_val (s @ replicate k 48) = digits_val s * 10 ^ k"
  by (induction k) (simp_all add: digits_val_snoc replicate_append_same [symmetric] flip: append_assoc)

lemma digits_val_pad: "digits_val (pad_zeros n s) = digits_val s"
proof -
  have "foldl (\<lambda>acc c. 10 * acc + (c - 48)) 0 (replicate k 48) = (0::int)" for k
    by (induction k) auto
  then show ?thesis by (simp add: pad_zeros_def digits_val_def)
qed

lemma strip_zeros_split: "\<exists>k. s = strip_zeros s @ replicate k 48"
proof -
  let ?z = "takeWhile (\<lambda>c. c = 48) (rev s)"
  have a: "s = strip_zeros s @ rev ?z"
    unfolding strip_zeros_def by (simp only: rev_append [symmetric] takeWhile_dropWhile_id rev_rev_ident)
  have "?z = replicate (length ?z) 48"
    by (rule replicate_length_same [symmetric]) (auto dest: set_takeWhileD)
  then have b: "rev ?z = replicate (length ?z) 48"
    by (rule ssubst [of ?z _ "\<lambda>w. rev w = replicate (length ?z) 48"]) simp
  show ?thesis using a unfolding b by (rule exI)
qed

lemma strip_zeros_last: "strip_zeros s \<noteq> [] \<Longrightarrow> last (strip_zeros s) \<noteq> 48"
  using hd_dropWhile [of "\<lambda>c. c = 48" "rev s"] by (simp add: strip_zeros_def last_rev)

lemma drop_point_zeros_digits: "list_all is_digit b \<Longrightarrow> drop_point_zeros b = b"
  by (induction b) (auto simp: is_digit_def)

lemma drop_point_zeros_point:
  assumes "list_all is_digit a" "list_all is_digit b"
  shows "drop_point_zeros (a @ 46 # b) = a @ 46 # strip_zeros b"
  using assms(1)
proof (induction a)
  case Nil
  show ?case
  proof (cases "b \<noteq> [] \<and> last b = 48")
    case False
    then have "strip_zeros b = b" by (cases b rule: rev_cases) (auto simp: strip_zeros_def)
    with False assms(2) show ?thesis by (simp add: drop_point_zeros_digits)
  qed (use assms(2) in simp)
qed (auto simp: is_digit_def)

lemma digits_no_point: "list_all is_digit a \<Longrightarrow> 46 \<notin> set a"
  by (auto simp: list_all_iff is_digit_def)

lemma trailing_zeros_value:
  assumes a: "list_all is_digit a" "a \<noteq> []" and b: "list_all is_digit b"
  shows "dec_value (removeTrailingZeros (a @ 46 # b)) = of_int (digits_val (a @ b)) / 10 ^ length b \<and>
     (46 \<in> set (removeTrailingZeros (a @ 46 # b)) \<longrightarrow> last (removeTrailingZeros (a @ 46 # b)) \<notin> {46, 48})"
proof -
  obtain k where k: "b = strip_zeros b @ replicate k 48" using strip_zeros_split by blast
  have digs: "list_all is_digit (strip_zeros b)" using b k by (metis list_all_append)
  have val: "of_int (digits_val (a @ strip_zeros b)) / 10 ^ length (strip_zeros b) =
      (of_int (digits_val (a @ b)) / 10 ^ length b :: rat)"
  proof -
    have "digits_val (a @ b) = digits_val (a @ strip_zeros b) * 10 ^ k"
      using k digits_val_zeros [of "a @ strip_zeros b" k] by simp
    moreover have "length b = length (strip_zeros b) + k" using k by (metis length_append length_replicate)
    ultimately show ?thesis by (simp add: power_add)
  qed
  show ?thesis
  proof (cases "strip_zeros b = []")
    case True
    then have "removeTrailingZeros (a @ 46 # b) = a"
      by (simp add: removeTrailingZeros_def drop_point_zeros_point [OF a(1) b] drop_last_point_def)
    then show ?thesis
      using val True digits_no_point [OF a(1)] by (simp add: dec_value_plain)
  next
    case False
    have "is_digit (last (strip_zeros b))" using digs False by (simp add: list_all_iff)
    then have "last (strip_zeros b) \<noteq> 46" by (auto simp: is_digit_def)
    then have "removeTrailingZeros (a @ 46 # b) = a @ 46 # strip_zeros b"
      using False by (simp add: removeTrailingZeros_def drop_point_zeros_point [OF a(1) b] drop_last_point_def)
    then show ?thesis
      using val False digits_no_point [OF a(1)] strip_zeros_last [OF False] \<open>last (strip_zeros b) \<noteq> 46\<close>
      by (simp add: dec_value_point)
  qed
qed

lemma fixed_layout_split:
  assumes "0 \<le> n" "d \<noteq> 0"
  shows "\<exists>a b. fixed_layout d n = a @ 46 # b \<and> list_all is_digit a \<and> list_all is_digit b \<and> a \<noteq> [] \<and>
     length b = d \<and> digits_val (a @ b) = n"
proof -
  let ?m = "pad_zeros (Suc d) (int_digits n)"
  have "list_all is_digit ?m"
    using int_digits_digit [OF assms(1)] by (auto simp: pad_zeros_def list_all_iff is_digit_def)
  moreover have "d < length ?m" by (auto simp: pad_zeros_def)
  moreover have "digits_val ?m = n" by (simp add: digits_val_pad)
  ultimately show ?thesis
    using assms(2)
    by (intro exI [of _ "take (length ?m - d) ?m"] exI [of _ "drop (length ?m - d) ?m"])
       (auto simp: fixed_layout_def Let_def list_all_iff dest: in_set_takeD in_set_dropD)
qed

text \<open>
  The plain formatter is exact: for a non-negative amount below \<open>1e21\<close>, the text printed with \<open>d\<close>
  digits denotes the amount rounded half up to \<open>d\<close> digits, and a text with a decimal point
  ends neither in a zero nor in the point.
\<close>

theorem fixed_text_exact:
  assumes "0 \<le> r" "r < 10 ^ 21"
  shows "dec_value (removeTrailingZeros (to_fixed (Fin r) d)) = of_int (round_half_up (r * 10 ^ d)) / 10 ^ d \<and>
     (46 \<in> set (removeTrailingZeros (to_fixed (Fin r) d)) \<longrightarrow>
        last (removeTrailingZeros (to_fixed (Fin r) d)) \<notin> {46, 48})"
proof -
  let ?n = "round_half_up (r * 10 ^ d)"
  have n: "0 \<le> ?n" using assms(1) by (simp add: round_half_up_def)
  have t: "to_fixed (Fin r) d = fixed_layout d ?n" using assms by simp
  show ?thesis
  proof (cases "d = 0")
    case True
    have "46 \<notin> set (int_digits ?n)" using int_digits_digit [OF n, of 46] by (auto simp: is_digit_def)
    then show ?thesis unfolding t using True by (simp add: fixed_layout_def removeTrailingZeros_def dec_value_plain)
  next
    case False
    then show ?thesis unfolding t using fixed_layout_split [OF n False] trailing_zeros_value by metis
  qed
qed

theorem fixed_text_exact_witness:
  "dec_value (removeTrailingZeros (to_fixed (Fin (5 / 4)) 1)) = 13 / 10"
proof -
  have "round_half_up (5 / 4 * 10 ^ 1) = 13" by (simp add: round_half_up_def)
  with fixed_text_exact [of "5 / 4" 1] show ?thesis by simp
qed

end
