(* ===== verification/ChannelUtils.thy ===== *)
theory ChannelUtils
  imports Currency ChannelMapping
begin

section \<open>Channels: tables, keys, lists, attention and tag aggregation\<close>

text \<open>
  \<open>features/channels/lib/channel-utils.ts\<close> and \<open>multi-key-utils.ts\<close> with the tables of
  \<open>features/channels/constants.ts\<close> they read. \<open>localeCompare\<close> is the argument \<open>lc\<close>. The formatters of
  points in time call the date library and are not modelled.

  The tag aggregation keeps its rows in a \<open>Map\<close> and in the result array at the same time; both hold
  the same objects, so one association list in insertion order models them.
\<close>

subsection \<open>Tables\<close>

definition CHANNEL_TYPES :: "(int \<times> jsstr) list" where
  "CHANNEL_TYPES =
     [(0, js ''Unknown''), (1, js ''OpenAI''), (3, js ''Azure''), (4, js ''Ollama''), (6, js ''OpenAIMax''),
      (7, js ''OhMyGPT''), (8, js ''Custom''), (9, js ''AILS''), (10, js ''AI Proxy''), (11, js ''PaLM''),
      (12, js ''API2GPT''), (13, js ''AIGC2D''), (14, js ''Anthropic''), (15, js ''Baidu''),
      (16, js ''Zhipu''), (17, js ''Ali''), (18, js ''Xunfei''), (19, js ''360''), (20, js ''OpenRouter''),
      (21, js ''AI Proxy Library''), (22, js ''FastGPT''), (23, js ''Tencent''), (24, js ''Gemini''),
      (25, js ''Moonshot''), (26, js ''Zhipu V4''), (27, js ''Perplexity''), (31, js ''LingYiWanWu''),
      (33, js ''AWS''), (34, js ''Cohere''), (35, js ''MiniMax''), (36, js ''SunoAPI''), (37, js ''Dify''),
      (38, js ''Jina''), (39, js ''Cloudflare''), (40, js ''SiliconFlow''), (41, js ''Vertex AI''),
      (42, js ''Mistral''), (43, js ''DeepSeek''), (44, js ''MokaAI''), (45, js ''VolcEngine''),
      (46, js ''Baidu V2''), (47, js ''Xinference''), (48, js ''xAI''), (49, js ''Coze''), (50, js ''Kling''),
      (51, js ''Jimeng''), (52, js ''Vidu''), (53, js ''Submodel''), (54, js ''DoubaoVideo''),
      (56, js ''Replicate''), (57, js ''Codex'')]"

definition CHANNEL_TYPE_DISPLAY_ORDER :: "int list" where
  "CHANNEL_TYPE_DISPLAY_ORDER =
     [1, 14, 33, 24, 43, 3, 41, 48, 42, 34, 20, 4, 40, 27, 25, 17, 26, 15, 46, 23,
      18, 45, 31, 35, 49, 19, 47, 37, 38, 39, 11, 8, 57, 22, 21, 44, 36, 50, 51, 52,
      53, 54, 56]"

text \<open>The two loops: the display order first, then the other types in the order of their keys.\<close>

definition CHANNEL_TYPE_OPTIONS :: "(int \<times> jsstr) list" where
  "CHANNEL_TYPE_OPTIONS =
     (let ordered = List.map_filter (\<lambda>id. case map_of CHANNEL_TYPES id of
              Some label \<Rightarrow> (if label \<noteq> [] then Some (id, label) else None) | None \<Rightarrow> None)
            CHANNEL_TYPE_DISPLAY_ORDER;
          seen = map fst ordered
      in ordered @ filter (\<lambda>(id, label). id \<noteq> 0 \<and> id \<notin> set seen) CHANNEL_TYPES)"

definition getChannelTypeLabel :: "int \<Rightarrow> jsstr" where
  "getChannelTypeLabel t =
     (case map_of CHANNEL_TYPES t of Some l \<Rightarrow> if l \<noteq> [] then l else js ''Unknown'' | None \<Rightarrow> js ''Unknown'')"

definition TYPE_TO_ICON :: "(int \<times> jsstr) list" where
  "TYPE_TO_ICON =
     [(1, js ''OpenAI''), (6, js ''OpenAI''), (7, js ''OpenAI''), (8, js ''OpenAI''), (3, js ''Azure''),
      (14, js ''Claude''), (24, js ''Gemini''), (11, js ''Google''), (41, js ''Gemini''), (33, js ''Aws''),
      (39, js ''Cloudflare''), (15, js ''Baidu''), (46, js ''Baidu''), (16, js ''Zhipu''), (26, js ''Zhipu''),
      (17, js ''Qwen''), (18, js ''Spark''), (23, js ''Hunyuan''), (19, js ''Ai360''), (25, js ''Moonshot''),
      (31, js ''Yi''), (35, js ''Minimax''), (45, js ''Volcengine''), (4, js ''Ollama''),
      (27, js ''Perplexity''), (34, js ''Cohere''), (42, js ''Mistral''), (43, js ''DeepSeek''),
      (48, js ''XAI''), (49, js ''Coze''), (40, js ''SiliconCloud''), (44, js ''OpenAI''),
      (20, js ''OpenRouter''), (50, js ''Kling''), (51, js ''Jimeng''), (52, js ''Vidu''), (36, js ''Suno''),
      (54, js ''Doubao''), (56, js ''Replicate''), (37, js ''Dify''), (38, js ''Jina''), (22, js ''FastGPT''),
      (47, js ''Xinference''), (53, js ''OpenAI''), (10, js ''OpenAI''), (21, js ''OpenAI''),
      (12, js ''OpenAI''), (13, js ''OpenAI''), (9, js ''OpenAI'')]"

definition getChannelTypeIcon :: "int \<Rightarrow> jsstr" where
  "getChannelTypeIcon t = (case map_of TYPE_TO_ICON t of Some i \<Rightarrow> i | None \<Rightarrow> js ''OpenAI'')"

record badge =
  badge_variant :: jsstr
  badge_label :: jsstr
  badge_showDot :: bool

definition mk_badge :: "string \<Rightarrow> string \<Rightarrow> badge" where
  "mk_badge v l = \<lparr>badge_variant = js v, badge_label = js l, badge_showDot = True\<rparr>"

definition CHANNEL_STATUS_CONFIG :: "(int \<times> badge) list" where
  "CHANNEL_STATUS_CONFIG =
     [(0, mk_badge ''neutral'' ''Unknown''), (1, mk_badge ''success'' ''Enabled''),
      (2, mk_badge ''neutral'' ''Disabled''), (3, mk_badge ''danger'' ''Auto Disabled'')]"

text \<open>Variant and label.\<close>

definition MULTI_KEY_STATUS_CONFIG :: "(int \<times> (jsstr \<times> jsstr)) list" where
  "MULTI_KEY_STATUS_CONFIG =
     [(1, (js ''success'', js ''Enabled'')), (2, (js ''neutral'', js ''Manual Disabled'')),
      (3, (js ''danger'', js ''Auto Disabled''))]"

definition getChannelStatusBadge :: "int \<Rightarrow> badge" where
  "getChannelStatusBadge status =
     (case map_of CHANNEL_STATUS_CONFIG status of
        Some b \<Rightarrow> b | None \<Rightarrow> the (map_of CHANNEL_STATUS_CONFIG 0))"

definition getMultiKeyStatusBadge :: "int \<Rightarrow> jsstr \<times> jsstr" where
  "getMultiKeyStatusBadge status =
     (case map_of MULTI_KEY_STATUS_CONFIG status of
        Some b \<Rightarrow> b | None \<Rightarrow> the (map_of MULTI_KEY_STATUS_CONFIG 1))"

definition getMultiKeyStatusConfig :: "int \<Rightarrow> jsstr \<times> jsstr" where
  "getMultiKeyStatusConfig status =
     (case map_of MULTI_KEY_STATUS_CONFIG status of
        Some b \<Rightarrow> b | None \<Rightarrow> (js ''neutral'', js ''Unknown''))"

datatype multi_key_action = KeyEnable | KeyDisable | KeyDelete | EnableAll | DisableAll | DeleteDisabled

fun confirm_message :: "multi_key_action \<Rightarrow> jsstr" where
  "confirm_message KeyDelete = js ''Are you sure you want to delete this key? This action cannot be undone.''"
| "confirm_message KeyEnable = js ''Enable this key?''"
| "confirm_message KeyDisable = js ''Disable this key?''"
| "confirm_message EnableAll = js ''Are you sure you want to enable all keys?''"
| "confirm_message DisableAll = js ''Are you sure you want to disable all enabled keys?''"
| "confirm_message DeleteDisabled =
     js ''Are you sure you want to delete all auto-disabled keys? This action cannot be undone.''"

definition getMultiKeyConfirmMessage :: "multi_key_action option \<Rightarrow> jsstr" where
  "getMultiKeyConfirmMessage action = (case action of None \<Rightarrow> [] | Some a \<Rightarrow> confirm_message a)"

definition isDestructiveAction :: "multi_key_action option \<Rightarrow> bool" where
  "isDestructiveAction action \<longleftrightarrow>
     (case action of None \<Rightarrow> False | Some a \<Rightarrow> a = KeyDelete \<or> a = DeleteDisabled \<or> a = DisableAll)"

subsection \<open>Channels\<close>

record channel_info =
  is_multi_key :: bool
  multi_key_size :: jsnum
  multi_key_status_list :: "(jsstr \<times> jsnum) list option"

text \<open>The fields of a channel; \<open>ch_priority\<close> and \<open>ch_weight\<close> may be \<open>null\<close> or \<open>undefined\<close>, and
  \<open>ch_others\<close> holds the fields no function below reads or writes.\<close>

record channel =
  ch_id :: int
  ch_type :: int
  ch_key :: jsstr
  ch_status :: int
  ch_name :: jsstr
  ch_weight :: jsval
  ch_created_time :: jsnum
  ch_test_time :: jsnum
  ch_response_time :: jsnum
  ch_balance :: jsnum
  ch_balance_updated_time :: jsnum
  ch_models :: jsstr
  ch_group :: jsstr
  ch_used_quota :: jsnum
  ch_priority :: jsval
  ch_tag :: "jsstr option"
  ch_info :: "channel_info option"
  ch_others :: "(jsstr \<times> jsval) list"

definition isChannelEnabled :: "channel \<Rightarrow> bool" where
  "isChannelEnabled c \<longleftrightarrow> ch_status c = 1"

definition isMultiKeyChannel :: "channel \<Rightarrow> bool" where
  "isMultiKeyChannel c \<longleftrightarrow> (case ch_info c of Some i \<Rightarrow> is_multi_key i | None \<Rightarrow> False)"

subsection \<open>Keys\<close>

text \<open>\<open>s.slice(-n)\<close> for a positive \<open>n\<close>.\<close>

definition slice_last :: "nat \<Rightarrow> jsstr \<Rightarrow> jsstr" where
  "slice_last n s = drop (length s - n) s"

definition key_lines :: "jsstr \<Rightarrow> jsstr list" where
  "key_lines key = filter (\<lambda>k. trim k \<noteq> []) (split_char 10 key)"

definition formatChannelKey :: "jsstr \<Rightarrow> bool \<Rightarrow> jsstr" where
  "formatChannelKey key isMultiKey =
     (if key = [] then []
      else if isMultiKey then int_str (int (length (key_lines key))) @ js '' keys''
      else if length key \<le> 16 then take 4 key @ js ''...'' @ slice_last 4 key
      else take 8 key @ js ''...'' @ slice_last 8 key)"

definition formatKeyPreview :: "jsstr \<Rightarrow> nat \<Rightarrow> jsstr" where
  "formatKeyPreview key maxLength =
     (if key = [] then [] else if length key \<le> maxLength then key else take maxLength key @ js ''...'')"

definition countKeys :: "jsstr \<Rightarrow> nat" where
  "countKeys key = (if key = [] then 0 else length (key_lines key))"

record dedup_result =
  deduplicatedText :: jsstr
  beforeCount :: nat
  afterCount :: nat
  removedCount :: int

text \<open>The set of seen keys and the list of kept keys hold the same keys.\<close>

fun dedup_lines :: "jsstr list \<Rightarrow> jsstr list \<Rightarrow> jsstr list" where
  "dedup_lines kept [] = kept"
| "dedup_lines kept (line # rest) =
     (let trimmedLine = trim line
      in if trimmedLine \<noteq> [] \<and> trimmedLine \<notin> set kept then dedup_lines (kept @ [trimmedLine]) rest
         else dedup_lines kept rest)"

definition deduplicateKeys :: "jsstr \<Rightarrow> dedup_result" where
  "deduplicateKeys keysText =
     (if keysText = [] \<or> trim keysText = []
      then \<lparr>deduplicatedText = [], beforeCount = 0, afterCount = 0, removedCount = 0\<rparr>
      else let keyLines = split_char 10 keysText; deduplicatedKeys = dedup_lines [] keyLines
      in \<lparr>deduplicatedText = js_join [10] deduplicatedKeys, beforeCount = length keyLines,
          afterCount = length deduplicatedKeys,
          removedCount = int (length keyLines) - int (length deduplicatedKeys)\<rparr>)"

definition TYPE_TO_KEY_PROMPT :: "(int \<times> jsstr) list" where
  "TYPE_TO_KEY_PROMPT =
     [(15, js ''Format: APIKey|SecretKey''), (18, js ''Format: APPID|APISecret|APIKey''),
      (22, js ''Format: APIKey-AppId, e.g., fastgpt-0sp2gtvfdgyi4k30jwlgwf1i-64f335d84283f05518e9e041''),
      (23, js ''Format: AppId|SecretId|SecretKey''), (33, js ''Format: Ak|Sk|Region''),
      (50, js ''Format: AccessKey|SecretKey (or just ApiKey if upstream is New API)''),
      (51, js ''Format: Access Key ID|Secret Access Key''),
      (57, js ''Paste Codex OAuth JSON credential (access_token / refresh_token / account_id)'')]"

definition getKeyPromptForType :: "int \<Rightarrow> jsstr" where
  "getKeyPromptForType t =
     (case map_of TYPE_TO_KEY_PROMPT t of Some p \<Rightarrow> p | None \<Rightarrow> js ''Enter API key for this channel'')"

subsection \<open>Lists and settings\<close>

definition parseModelsList :: "jsstr \<Rightarrow> jsstr list" where
  "parseModelsList models = (if models = [] then [] else split_trim 44 models)"

definition compare_groups :: "(jsstr \<Rightarrow> jsstr \<Rightarrow> int) \<Rightarrow> jsstr \<Rightarrow> jsstr \<Rightarrow> int" where
  "compare_groups lc a b =
     (if a = js ''default'' then - 1 else if b = js ''default'' then 1 else lc a b)"

definition parseGroupsList :: "(jsstr \<Rightarrow> jsstr \<Rightarrow> int) \<Rightarrow> jsstr \<Rightarrow> jsstr list" where
  "parseGroupsList lc groups =
     (if groups = [] then [] else js_sort (compare_groups lc) (split_trim 44 groups))"

definition formatModelsString :: "jsstr list \<Rightarrow> jsstr" where
  "formatModelsString models = js_join [44] models"

definition formatGroupsString :: "jsstr list \<Rightarrow> jsstr" where
  "formatGroupsString groups = js_join [44] groups"

definition parseChannelSettings :: "jsstr option \<Rightarrow> jsval" where
  "parseChannelSettings str =
     (case str of None \<Rightarrow> JObj []
      | Some s \<Rightarrow> if s = [] then JObj [] else (case json_parse s of Some v \<Rightarrow> v | None \<Rightarrow> JObj []))"

definition parseChannelOtherSettings :: "jsstr option \<Rightarrow> jsval" where
  "parseChannelOtherSettings str =
     (case str of None \<Rightarrow> JObj []
      | Some s \<Rightarrow> if s = [] \<or> s = js ''{}'' then JObj []
          else (case json_parse s of Some v \<Rightarrow> v | None \<Rightarrow> JObj []))"

definition validateChannelSettings :: "jsstr \<Rightarrow> bool" where
  "validateChannelSettings settings \<longleftrightarrow> settings = [] \<or> trim settings = [] \<or> json_parse settings \<noteq> None"

definition validateChannelName :: "jsstr \<Rightarrow> bool" where
  "validateChannelName name \<longleftrightarrow> 0 < length (trim name)"

definition validateApiKey :: "jsstr \<Rightarrow> bool" where
  "validateApiKey key \<longleftrightarrow> 0 < length (trim key)"

definition validateModels :: "jsstr \<Rightarrow> bool" where
  "validateModels models \<longleftrightarrow> 0 < length (parseModelsList models)"

definition validateGroups :: "(jsstr \<Rightarrow> jsstr \<Rightarrow> int) \<Rightarrow> jsstr \<Rightarrow> bool" where
  "validateGroups lc groups \<longleftrightarrow> 0 < length (parseGroupsList lc groups)"

subsection \<open>Balance, response time, priority\<close>

definition formatBalance :: "number_format \<Rightarrow> currency_config option \<Rightarrow> jsnum option \<Rightarrow> jsstr" where
  "formatBalance intl stored balance =
     (case balance of None \<Rightarrow> js ''-''
      | Some b \<Rightarrow> if b = NaN then js ''-''
          else formatCurrencyFromUSD intl stored (Some b)
            (Some \<lparr>po_digitsLarge = Some 2, po_digitsSmall = Some 4, po_abbreviate = Some False,
                   po_minimumNonZero = None\<rparr>))"

definition formatQuota :: "number_format \<Rightarrow> currency_config option \<Rightarrow> jsnum \<Rightarrow> jsstr" where
  "formatQuota intl stored quota =
     formatQuotaWithCurrency intl stored (Some quota)
       (Some \<lparr>po_digitsLarge = Some 2, po_digitsSmall = Some 4, po_abbreviate = Some True,
              po_minimumNonZero = None\<rparr>)"

definition getBalanceVariant :: "jsnum \<Rightarrow> jsstr" where
  "getBalanceVariant balance =
     (if num_eq balance (num_int 0) then js ''neutral''
      else if num_lt balance (num_int 1) then js ''danger''
      else if num_lt balance (num_int 10) then js ''warning''
      else js ''success'')"

text \<open>\<open>t\<close> is the optional translation function, given the key and the value it interpolates.\<close>

definition formatResponseTime :: "jsnum \<Rightarrow> (jsstr \<Rightarrow> jsval \<Rightarrow> jsstr) option \<Rightarrow> jsstr" where
  "formatResponseTime timeMs t =
     (if num_eq timeMs (num_int 0)
      then (case t of Some f \<Rightarrow> f (js ''Not tested'') JUndef | None \<Rightarrow> js ''Not tested'')
      else if num_lt timeMs (num_int 1000)
      then (case t of Some f \<Rightarrow> f (js ''{{value}}ms'') (JNum timeMs) | None \<Rightarrow> num_to_str timeMs @ js ''ms'')
      else let s = to_fixed (num_div timeMs (num_int 1000)) 2
      in case t of Some f \<Rightarrow> f (js ''{{value}}s'') (JStr s) | None \<Rightarrow> s @ js ''s'')"

text \<open>Variant and label; the last two thresholds give the same rating.\<close>

definition getResponseTimeConfig :: "jsnum \<Rightarrow> jsstr \<times> jsstr" where
  "getResponseTimeConfig timeMs =
     (if num_eq timeMs (num_int 0) then (js ''neutral'', js ''Not tested'')
      else if num_le timeMs (num_int 500) then (js ''success'', js ''Excellent'')
      else if num_le timeMs (num_int 1000) then (js ''info'', js ''Good'')
      else if num_le timeMs (num_int 2000) then (js ''warning'', js ''Fair'')
      else if num_le timeMs (num_int 5000) then (js ''danger'', js ''Poor'')
      else (js ''danger'', js ''Poor''))"

definition getPriorityDisplay :: "jsval \<Rightarrow> jsstr" where
  "getPriorityDisplay priority = (if is_nullish priority then js ''0'' else to_str priority)"

definition getWeightDisplay :: "jsval \<Rightarrow> jsstr" where
  "getWeightDisplay weight = (if is_nullish weight then js ''0'' else to_str weight)"

subsection \<open>Attention\<close>

definition all_keys_disabled :: "channel \<Rightarrow> bool" where
  "all_keys_disabled c \<longleftrightarrow>
     (case ch_info c of
        None \<Rightarrow> False
      | Some i \<Rightarrow> is_multi_key i \<and>
          (case multi_key_status_list i of
             None \<Rightarrow> False
           | Some l \<Rightarrow> num_le (multi_key_size i) (num_int (int (length l)))))"

definition channelNeedsAttention :: "channel \<Rightarrow> bool" where
  "channelNeedsAttention c =
     (if ch_status c = 3 then True
      else if num_lt (num_int 0) (ch_balance c) \<and> num_lt (ch_balance c) (num_int 1) then True
      else if all_keys_disabled c then True
      else False)"

definition getAttentionReason :: "channel \<Rightarrow> jsstr option" where
  "getAttentionReason c =
     (if ch_status c = 3 then Some (js ''Auto-disabled'')
      else if num_lt (num_int 0) (ch_balance c) \<and> num_lt (ch_balance c) (num_int 1)
      then Some (js ''Low balance'')
      else if all_keys_disabled c then Some (js ''All keys disabled'')
      else None)"

subsection \<open>Tag aggregation\<close>

text \<open>A tag row spreads its first channel; its id is the tag itself and its status may be
  \<open>undefined\<close>, so both stand beside the channel fields.\<close>

record tag_row =
  row_id :: jsstr
  row_status :: "int option"
  row_channel :: channel
  row_children :: "channel list"

definition tag_of :: "channel \<Rightarrow> jsstr" where
  "tag_of c = (case ch_tag c of Some t \<Rightarrow> t | None \<Rightarrow> [])"

definition new_tag_row :: "jsstr \<Rightarrow> channel \<Rightarrow> tag_row" where
  "new_tag_row tag c =
     \<lparr>row_id = tag, row_status = None,
      row_channel = c\<lparr>ch_key := tag, ch_tag := Some tag, ch_name := tag, ch_type := 0,
        ch_group := [], ch_used_quota := num_int 0, ch_response_time := num_int 0,
        ch_priority := JNum (num_int (- 1)), ch_weight := JNum (num_int (- 1)), ch_balance := num_int 0,
        ch_test_time := num_int 0, ch_created_time := num_int 0, ch_balance_updated_time := num_int 0,
        ch_models := []\<rparr>,
      row_children = []\<rparr>"

definition merge_uniform :: "jsval \<Rightarrow> jsval \<Rightarrow> jsval" where
  "merge_uniform old new =
     (if strict_eq old (JNum (num_int (- 1))) then new
      else if \<not> strict_eq old new then JNull else old)"

definition merge_groups :: "jsstr \<Rightarrow> jsstr \<Rightarrow> jsstr" where
  "merge_groups old new =
     (if old = [] then new
      else let existingGroups = js_set (filter (\<lambda>g. g \<noteq> []) (split_char 44 old));
               newGroups = filter (\<lambda>g. g \<noteq> []) (split_char 44 new)
      in foldl (\<lambda>acc g. if g \<notin> set existingGroups then acc @ 44 # g else acc) old newGroups)"

definition add_to_row :: "tag_row \<Rightarrow> channel \<Rightarrow> tag_row" where
  "add_to_row row c =
     (let children = row_children row @ [c]; childCount = num_int (int (length children));
          base = row_channel row
      in row\<lparr>row_children := children,
             row_channel := base\<lparr>
               ch_used_quota := num_add (ch_used_quota base) (ch_used_quota c),
               ch_response_time :=
                 num_div (num_add (num_mul (ch_response_time base) (num_sub childCount (num_int 1)))
                   (ch_response_time c)) childCount,
               ch_priority := merge_uniform (ch_priority base) (ch_priority c),
               ch_weight := merge_uniform (ch_weight base) (ch_weight c),
               ch_group := merge_groups (ch_group base) (ch_group c)\<rparr>,
             row_status := (if ch_status c = 1 then Some 1
                            else if row_status row = None then Some (ch_status c) else row_status row)\<rparr>)"

definition aggregate_step :: "(jsstr \<times> tag_row) list \<Rightarrow> channel \<Rightarrow> (jsstr \<times> tag_row) list" where
  "aggregate_step rows c =
     (let tag = tag_of c;
          rows' = (if map_of rows tag = None then rows @ [(tag, new_tag_row tag c)] else rows)
      in map (\<lambda>(t, row). if t = tag then (t, add_to_row row c) else (t, row)) rows')"

definition aggregateChannelsByTag :: "channel list \<Rightarrow> tag_row list" where
  "aggregateChannelsByTag channels = map snd (foldl aggregate_step [] channels)"

subsection \<open>Option list\<close>

lemma channel_type_options_complete:
  "distinct (map fst CHANNEL_TYPE_OPTIONS) \<and>
   set CHANNEL_TYPE_OPTIONS = {(t, l) \<in> set CHANNEL_TYPES. t \<noteq> 0}"
proof -
  have "distinct (map fst CHANNEL_TYPE_OPTIONS)" by code_simp
  moreover have "set CHANNEL_TYPE_OPTIONS = set (filter (\<lambda>(t, l). t \<noteq> 0) CHANNEL_TYPES)" by code_simp
  ultimately show ?thesis by auto
qed

text \<open>
  The type selector offers every channel type exactly once: its options are the types of the
  table except the placeholder 0, with their labels, and each option's label is the one shown for
  a channel of that type.
\<close>

theorem channel_type_selector:
  "distinct (map fst CHANNEL_TYPE_OPTIONS) \<and>
   set CHANNEL_TYPE_OPTIONS = {(t, l) \<in> set CHANNEL_TYPES. t \<noteq> 0} \<and>
   (\<forall>t l. (t, l) \<in> set CHANNEL_TYPE_OPTIONS \<longrightarrow> getChannelTypeLabel t = l)"
proof -
  have "list_all (\<lambda>(t, l). getChannelTypeLabel t = l) CHANNEL_TYPE_OPTIONS" by code_simp
  then show ?thesis using channel_type_options_complete by (fastforce simp: list_all_iff)
qed

theorem channel_type_selector_witness:
  "getChannelTypeLabel 14 = js ''Anthropic''"
proof -
  have "(14, js ''Anthropic'') \<in> set CHANNEL_TYPE_OPTIONS" by code_simp
  with channel_type_selector show ?thesis by blast
qed

subsection \<open>Keys\<close>

lemma dedup_lines_set:
  "dedup_lines kept ls = foldl js_add kept (filter (\<lambda>k. k \<noteq> []) (map trim ls))"
  by (induction kept ls rule: dedup_lines.induct) (auto simp: Let_def js_add_def)

lemma dedup_keys:
  "dedup_lines [] ls = js_set (filter (\<lambda>k. k \<noteq> []) (map trim ls))"
  by (simp add: dedup_lines_set js_set_def)

lemma dedup_blank: "trim s = [] \<Longrightarrow> filter (\<lambda>k. k \<noteq> []) (map trim (split_char 10 s)) = []"
proof -
  assume "trim s = []"
  then have ws: "\<forall>c \<in> set s. is_ws c" by (simp add: trim_eq_Nil_iff)
  have "trim k = []" if "k \<in> set (split_char 10 s)" for k
    using split_char_units [OF that] ws by (auto simp: trim_eq_Nil_iff)
  then show ?thesis by (simp add: filter_empty_conv)
qed

lemma deduplicate_text:
  "deduplicatedText (deduplicateKeys s) = js_join [10] (js_set (split_trim 10 s))"
  "int (afterCount (deduplicateKeys s)) = int (length (js_set (split_trim 10 s)))"
  using dedup_blank [of s]
  by (auto simp: deduplicateKeys_def Let_def dedup_keys split_trim_def js_set_def)

lemma dedup_clean: "x \<in> set (js_set (split_trim 10 s)) \<Longrightarrow> clean_item 10 x"
  by (simp add: split_trim_clean)

lemma key_lines_join:
  "\<forall>x \<in> set xs. clean_item 10 x \<Longrightarrow> xs \<noteq> [] \<Longrightarrow> key_lines (js_join [10] xs) = xs"
  by (auto simp: key_lines_def split_char_join clean_item_def trim_trimmed filter_id_conv)

text \<open>
  Deduplicating pasted keys keeps every key and keeps it once: the lines of the result are the
  distinct non-blank lines of the text, trimmed, in the order of their first occurrence; the
  reported count is their number, the count of removed lines is the difference, and a second pass
  changes nothing.
\<close>

theorem deduplicate_keys_exact:
  "deduplicatedText (deduplicateKeys s) = js_join [10] (js_set (split_trim 10 s)) \<and>
   countKeys (deduplicatedText (deduplicateKeys s)) = afterCount (deduplicateKeys s) \<and>
   removedCount (deduplicateKeys s) =
     int (beforeCount (deduplicateKeys s)) - int (afterCount (deduplicateKeys s)) \<and>
   deduplicatedText (deduplicateKeys (deduplicatedText (deduplicateKeys s))) =
     deduplicatedText (deduplicateKeys s)"
proof -
  let ?ks = "js_set (split_trim 10 s)"
  have clean: "\<forall>x \<in> set ?ks. clean_item 10 x" using dedup_clean by blast
  have "countKeys (js_join [10] ?ks) = length ?ks"
    using key_lines_join [OF clean] join_clean_nonempty [OF _ clean, of "[10]"]
    by (cases "?ks = []") (simp_all add: countKeys_def)
  moreover have "js_set (split_trim 10 (js_join [10] ?ks)) = ?ks"
    using split_trim_join [OF clean] by (simp add: js_set_idem)
  moreover have "removedCount (deduplicateKeys s) =
      int (beforeCount (deduplicateKeys s)) - int (afterCount (deduplicateKeys s))"
    by (simp add: deduplicateKeys_def Let_def)
  ultimately show ?thesis using deduplicate_text [of s] by (simp add: deduplicate_text(1))
qed

text \<open>
  How much of a key the masked form shows: of a key longer than 16 units the first and last
  eight, of a shorter one the first and last four, with everything between hidden, so a key of
  more than eight units is never shown in full; a key of at most eight units is shown entirely
  (its first and last four units cover it).
\<close>

theorem masked_key_discloses:
  assumes "key \<noteq> []"
  shows "formatChannelKey key False =
       take (if length key \<le> 16 then 4 else 8) key @ js ''...'' @
         slice_last (if length key \<le> 16 then 4 else 8) key \<and>
     (length key \<le> 8 \<longrightarrow> take 4 key @ drop (4 - (length key - 4)) (slice_last 4 key) = key) \<and>
     (8 < length key \<longrightarrow>
        length (take (if length key \<le> 16 then 4 else 8) key) +
        length (slice_last (if length key \<le> 16 then 4 else 8) key) < length key)"
proof -
  have "take 4 key @ drop (4 - (length key - 4)) (slice_last 4 key) = key" if "length key \<le> 8"
  proof -
    have "drop (4 - (length key - 4)) (slice_last 4 key) = drop 4 key"
      using that by (simp add: slice_last_def)
    then show ?thesis by simp
  qed
  with assms show ?thesis by (auto simp: formatChannelKey_def slice_last_def)
qed

theorem masked_key_discloses_witness:
  "formatChannelKey (js ''sk-12345'') False = js ''sk-1'' @ js ''...'' @ js ''2345''"
proof -
  have "js ''sk-12345'' \<noteq> []" by simp
  from masked_key_discloses [OF this] show ?thesis by (simp add: slice_last_def js_lit)
qed

subsection \<open>Group lists\<close>

lemma parse_models_list_clean: "x \<in> set (parseModelsList s) \<Longrightarrow> clean_item 44 x"
  by (auto simp: parseModelsList_def split_trim_clean split: if_splits)

lemma parse_format_models_list:
  "\<forall>x \<in> set xs. clean_item 44 x \<Longrightarrow> parseModelsList (formatModelsString xs) = xs"
  using join_clean_nonempty [of xs 44 "[44]"]
  by (cases "xs = []") (simp_all add: parseModelsList_def formatModelsString_def split_trim_join)

interpretation models_list: comma_codec parseModelsList formatModelsString "\<lambda>xs. xs"
  by unfold_locales (auto simp: parse_models_list_clean parse_format_models_list)

lemma total_compare_groups:
  assumes "total_compare lc"
  shows "total_compare (compare_groups lc)"
proof -
  have "lc x y \<le> 0 \<or> lc y x \<le> 0" and "lc x y \<le> 0 \<Longrightarrow> lc y z \<le> 0 \<Longrightarrow> lc x z \<le> 0" for x y z
    using assms unfolding total_compare_def by blast+
  then show ?thesis by (auto simp: total_compare_def compare_groups_def)
qed

lemma groups_sorted:
  assumes "total_compare lc"
  shows "in_order (compare_groups lc) (parseGroupsList lc s)"
  using in_order_js_sort [OF total_compare_groups [OF assms]] by (simp add: parseGroupsList_def)

text \<open>
  A group list reads with \<open>default\<close> first whenever it occurs, the rest in locale order, and saving
  and reading it again gives the same list, provided the locale comparison is a total preorder.
\<close>

theorem group_list_order:
  assumes "total_compare lc"
  shows "in_order (compare_groups lc) (parseGroupsList lc s) \<and>
     (js ''default'' \<in> set (parseGroupsList lc s) \<longrightarrow> hd (parseGroupsList lc s) = js ''default'') \<and>
     parseGroupsList lc (formatGroupsString (parseGroupsList lc s)) = parseGroupsList lc s \<and>
     parseModelsList (formatModelsString (parseModelsList s)) = parseModelsList s"
proof -
  let ?gs = "parseGroupsList lc s"
  note sorted = groups_sorted [OF assms, of s]
  have clean: "\<forall>x \<in> set ?gs. clean_item 44 x"
    by (auto simp: parseGroupsList_def split_trim_clean split: if_splits)
  have hd: "hd ?gs = js ''default''" if "js ''default'' \<in> set ?gs"
  proof (cases ?gs)
    case (Cons g gs)
    then show ?thesis using that sorted by (auto simp: compare_groups_def split: if_splits)
  qed (use that in simp)
  have "parseGroupsList lc (formatGroupsString ?gs) = ?gs"
  proof (cases "?gs = []")
    case False
    then have "js_join [44] ?gs \<noteq> []" using clean by (rule join_clean_nonempty)
    then have "parseGroupsList lc (js_join [44] ?gs) = js_sort (compare_groups lc) ?gs"
      using split_trim_join [OF clean] by (simp add: parseGroupsList_def [of lc "js_join _ _"])
    then show ?thesis using js_sort_id [OF sorted] by (simp add: formatGroupsString_def)
  qed (simp add: formatGroupsString_def parseGroupsList_def [of lc "[]"])
  moreover have "parseModelsList (formatModelsString (parseModelsList s)) = parseModelsList s"
    using models_list.parse_format [of "parseModelsList s"] models_list.parse_clean by blast
  ultimately show ?thesis using sorted hd by blast
qed

theorem group_list_order_witness:
  "hd (parseGroupsList code_unit_compare (js ''vip, default ,beta'')) = js ''default''"
proof -
  have "js ''default'' \<in> set (parseGroupsList code_unit_compare (js ''vip, default ,beta''))" by code_simp
  with group_list_order [OF total_code_unit_compare, of "js ''vip, default ,beta''"] show ?thesis by blast
qed

subsection \<open>Attention\<close>

text \<open>
  The attention flag and the attention reason agree: a channel is flagged exactly when a reason is
  given, and the reason is the first that applies of automatic disabling, a balance strictly
  between 0 and 1, and a multi-key channel with at least as many disabled keys as keys.
\<close>

theorem attention_has_reason:
  "(channelNeedsAttention c \<longleftrightarrow> getAttentionReason c \<noteq> None) \<and>
   (channelNeedsAttention c \<longleftrightarrow> ch_status c = 3 \<or> all_keys_disabled c \<or>
      num_lt (num_int 0) (ch_balance c) \<and> num_lt (ch_balance c) (num_int 1))"
  by (simp add: channelNeedsAttention_def getAttentionReason_def)

subsection \<open>Tag aggregation refines grouping\<close>

text \<open>The specification: one row per tag, in the order the tags first occur, built from the channels
  with that tag in their order.\<close>

definition channels_of :: "channel list \<Rightarrow> jsstr \<Rightarrow> channel list" where
  "channels_of cs t = filter (\<lambda>c. tag_of c = t) cs"

definition row_for :: "channel list \<Rightarrow> jsstr \<Rightarrow> tag_row" where
  "row_for cs t = foldl add_to_row (new_tag_row t (hd (channels_of cs t))) (channels_of cs t)"

lemma channels_of_snoc: "channels_of (cs @ [c]) t = channels_of cs t @ (if tag_of c = t then [c] else [])"
  by (simp add: channels_of_def)

lemma channels_of_empty: "channels_of cs t = [] \<longleftrightarrow> t \<notin> tag_of ` set cs"
  by (auto simp: channels_of_def filter_empty_conv)

lemma row_for_other: "tag_of c \<noteq> t \<Longrightarrow> row_for (cs @ [c]) t = row_for cs t"
  by (simp add: row_for_def channels_of_snoc)

lemma row_for_same:
  "t \<in> tag_of ` set cs \<Longrightarrow> tag_of c = t \<Longrightarrow> row_for (cs @ [c]) t = add_to_row (row_for cs t) c"
  using channels_of_empty [of cs t] by (simp add: row_for_def channels_of_snoc)

lemma row_for_new:
  "t \<notin> tag_of ` set cs \<Longrightarrow> tag_of c = t \<Longrightarrow> row_for (cs @ [c]) t = add_to_row (new_tag_row t c) c"
  using channels_of_empty [of cs t] by (simp add: row_for_def channels_of_snoc)

lemma aggregate_rows:
  "foldl aggregate_step [] cs = map (\<lambda>t. (t, row_for cs t)) (js_set (map tag_of cs))"
proof (induction cs rule: rev_induct)
  case (snoc c cs)
  let ?ts = "js_set (map tag_of cs)"
  have lookup: "map_of (map (\<lambda>t. (t, row_for cs t)) ?ts) (tag_of c) = None \<longleftrightarrow> tag_of c \<notin> tag_of ` set cs"
    by (simp add: map_of_map_restrict restrict_map_def image_image)
  have ts: "js_set (map tag_of (cs @ [c])) = js_add ?ts (tag_of c)" by (simp add: js_set_append)
  show ?case
  proof (cases "tag_of c \<in> tag_of ` set cs")
    case True
    then have "aggregate_step (map (\<lambda>t. (t, row_for cs t)) ?ts) c =
        map (\<lambda>t. (t, row_for (cs @ [c]) t)) ?ts"
      using lookup row_for_same [of _ cs c] row_for_other [of c _ cs]
      by (auto simp: aggregate_step_def Let_def)
    with True snoc ts show ?thesis by (simp add: js_add_def)
  next
    case False
    have "t \<noteq> tag_of c \<and> row_for (cs @ [c]) t = row_for cs t" if "t \<in> set ?ts" for t
      using that False by (metis list.set_map row_for_other set_js_set)
    then have "map (\<lambda>(t, row). if t = tag_of c then (t, add_to_row row c) else (t, row))
        (map (\<lambda>t. (t, row_for cs t)) ?ts) = map (\<lambda>t. (t, row_for (cs @ [c]) t)) ?ts"
      by simp
    with False have "aggregate_step (map (\<lambda>t. (t, row_for cs t)) ?ts) c =
        map (\<lambda>t. (t, row_for (cs @ [c]) t)) (?ts @ [tag_of c])"
      using lookup row_for_new [of "tag_of c" cs c]
      by (simp add: aggregate_step_def Let_def del: map_map)
    with False snoc ts show ?thesis by (simp add: js_add_def)
  qed
qed (simp add: js_set_def)

lemma aggregate_map: "aggregateChannelsByTag cs = map (row_for cs) (js_set (map tag_of cs))"
  by (simp add: aggregateChannelsByTag_def aggregate_rows)

lemma add_rows_children: "row_children (foldl add_to_row r cs) = row_children r @ cs"
  by (induction cs arbitrary: r) (auto simp: add_to_row_def Let_def)

lemma add_rows_id: "row_id (foldl add_to_row r cs) = row_id r"
  by (induction cs arbitrary: r) (auto simp: add_to_row_def Let_def)

lemma add_rows_status:
  "row_status (foldl add_to_row r cs) =
     (if \<exists>c \<in> set cs. ch_status c = 1 then Some 1
      else if row_status r = None \<and> cs \<noteq> [] then Some (ch_status (hd cs)) else row_status r)"
  by (induction cs arbitrary: r) (auto simp: add_to_row_def Let_def)

lemma row_for_children: "row_children (row_for cs t) = channels_of cs t"
  by (simp add: row_for_def add_rows_children new_tag_row_def)

text \<open>
  Tag mode is a grouping: the rows are the tags in the order they first occur (channels without a
  tag under the empty tag), each row lists exactly the channels with its tag, in order, and its
  other fields are the fold of the row update over those channels, so no channel is lost,
  repeated or counted under another tag.
\<close>

theorem tag_rows_refine_grouping:
  "aggregateChannelsByTag cs = map (row_for cs) (js_set (map tag_of cs)) \<and>
   map row_id (aggregateChannelsByTag cs) = js_set (map tag_of cs) \<and>
   map row_children (aggregateChannelsByTag cs) = map (channels_of cs) (js_set (map tag_of cs))"
  by (simp add: aggregate_map row_for_def add_rows_children add_rows_id new_tag_row_def comp_def)

text \<open>
  A tag row is enabled exactly when one of its channels is enabled, and otherwise it has the status
  of its first channel; it never stays without a status.
\<close>

theorem tag_row_status:
  assumes "row \<in> set (aggregateChannelsByTag cs)"
  shows "row_status row = Some (if \<exists>c \<in> set (row_children row). isChannelEnabled c then 1
     else ch_status (hd (row_children row))) \<and> row_children row \<noteq> []"
proof -
  obtain t where t: "t \<in> tag_of ` set cs" "row = row_for cs t" using assms by (auto simp: aggregate_map)
  then have "channels_of cs t \<noteq> []" by (simp add: channels_of_empty)
  with t show ?thesis
    by (simp add: row_for_def add_rows_children add_rows_status new_tag_row_def isChannelEnabled_def)
qed

definition demo_channel :: "int \<Rightarrow> string \<Rightarrow> int \<Rightarrow> channel" where
  "demo_channel i tag st =
     \<lparr>ch_id = i, ch_type = 1, ch_key = js ''k'', ch_status = st, ch_name = js ''n'', ch_weight = JNull,
      ch_created_time = num_int 0, ch_test_time = num_int 0, ch_response_time = num_int 0,
      ch_balance = num_int 0, ch_balance_updated_time = num_int 0, ch_models = [], ch_group = [],
      ch_used_quota = num_int 7, ch_priority = JNull, ch_tag = Some (js tag), ch_info = None, ch_others = []\<rparr>"

theorem tag_row_status_witness:
  "row_status (hd (aggregateChannelsByTag [demo_channel 1 ''a'' 2, demo_channel 2 ''b'' 3, demo_channel 3 ''a'' 1])) = Some 1"
proof -
  let ?cs = "[demo_channel 1 ''a'' 2, demo_channel 2 ''b'' 3, demo_channel 3 ''a'' 1]"
  have rows: "aggregateChannelsByTag ?cs = [row_for ?cs (js ''a''), row_for ?cs (js ''b'')]"
    by (simp add: aggregate_map js_set_def js_add_def tag_of_def demo_channel_def js_lit)
  have children: "row_children (row_for ?cs (js ''a'')) = [demo_channel 1 ''a'' 2, demo_channel 3 ''a'' 1]"
    unfolding row_for_children by (simp add: channels_of_def tag_of_def demo_channel_def js_lit)
  show ?thesis
    using tag_row_status [of "row_for ?cs (js ''a'')" ?cs] rows children
    by (simp add: isChannelEnabled_def) (simp add: demo_channel_def)
qed

subsection \<open>Uniform priorities\<close>

lemma add_rows_priority:
  "ch_priority (row_channel (foldl add_to_row r cs)) =
     foldl merge_uniform (ch_priority (row_channel r)) (map ch_priority cs)"
  by (induction cs arbitrary: r) (auto simp: add_to_row_def Let_def)

lemma merge_null: "foldl merge_uniform JNull (map (\<lambda>i. JNum (num_int i)) is) = JNull"
  by (induction "is") (auto simp: merge_uniform_def)

lemma merge_number:
  "i \<noteq> - 1 \<Longrightarrow> foldl merge_uniform (JNum (num_int i)) (map (\<lambda>i. JNum (num_int i)) is) =
     (if \<forall>j \<in> set is. j = i then JNum (num_int i) else JNull)"
  by (induction "is") (auto simp: merge_uniform_def merge_null)

text \<open>
  A tag row shows the priority its channels share and \<open>null\<close> when they differ, as long as no
  channel has priority -1, the value the code uses for a row that has seen no channel yet.
\<close>

theorem tag_row_priority:
  assumes "row \<in> set (aggregateChannelsByTag cs)"
    and "map ch_priority (row_children row) = map (\<lambda>i. JNum (num_int i)) (p # ps)"
    and "p \<noteq> - 1"
  shows "ch_priority (row_channel row) = (if \<forall>q \<in> set ps. q = p then JNum (num_int p) else JNull)"
proof -
  obtain t where t: "row = row_for cs t" using assms(1) by (auto simp: aggregate_map)
  then have "ch_priority (row_channel row) =
      foldl merge_uniform (JNum (num_int (- 1))) (map ch_priority (row_children row))"
    by (simp add: row_for_def add_rows_priority add_rows_children new_tag_row_def)
  then show ?thesis using assms(2,3) by (simp add: merge_uniform_def merge_number)
qed

text \<open>With -1 among the priorities the rule fails: a row of priorities -1 and 5 shows 5.\<close>

lemma tag_row_priority_sentinel:
  "foldl merge_uniform (JNum (num_int (- 1))) [JNum (num_int (- 1)), JNum (num_int 5)] = JNum (num_int 5)"
  by (simp add: merge_uniform_def)

theorem tag_row_priority_witness:
  "ch_priority (row_channel (row_for [(demo_channel 1 ''a'' 2)\<lparr>ch_priority := JNum (num_int 5)\<rparr>,
      (demo_channel 2 ''a'' 2)\<lparr>ch_priority := JNum (num_int 6)\<rparr>] (js ''a''))) = JNull"
proof -
  let ?cs = "[(demo_channel 1 ''a'' 2)\<lparr>ch_priority := JNum (num_int 5)\<rparr>,
      (demo_channel 2 ''a'' 2)\<lparr>ch_priority := JNum (num_int 6)\<rparr>]"
  have "row_for ?cs (js ''a'') \<in> set (aggregateChannelsByTag ?cs)"
    by (simp add: aggregate_map js_set_def js_add_def tag_of_def demo_channel_def)
  moreover have "map ch_priority (row_children (row_for ?cs (js ''a''))) = map (\<lambda>i. JNum (num_int i)) [5, 6]"
    unfolding row_for_children by (simp add: channels_of_def tag_of_def demo_channel_def)
  ultimately show ?thesis using tag_row_priority [of "row_for ?cs (js ''a'')" ?cs 5 "[6]"] by simp
qed

end
