(* ===== verification/ChannelDrawerModels.thy ===== *)
theory ChannelDrawerModels
  imports ChannelDrawer ChannelUtils
begin

section \<open>The channel editor drawer: models, mapping and keys\<close>

text \<open>
  The handlers of the drawer that edit the list of models and the keys, the warnings it derives from the
  model mapping while the user types, and the summary of the upstream model check. The drawer computes
  its warnings by itself and asks its questions on submit with the functions of
  \<open>model-mapping-validation.ts\<close>; \<open>guardrail_agrees\<close> relates the two.
\<close>

subsection \<open>Models\<close>

definition currentModelsArray :: "drawer \<Rightarrow> jsstr list" where
  "currentModelsArray s = parseModelsString (field_text (f_models (d_form s)))"

definition set_models :: "jsstr \<Rightarrow> drawer \<Rightarrow> drawer" where
  "set_models m s = s\<lparr>d_form := (d_form s)\<lparr>f_models := JStr m\<rparr>\<rparr>"

definition updateModels :: "jsstr list \<Rightarrow> bool \<Rightarrow> drawer \<Rightarrow> drawer \<times> nat" where
  "updateModels newModels merge s =
     (let finalModels = (if merge then formatModelsArray (currentModelsArray s @ newModels)
        else formatModelsArray newModels)
      in (set_models finalModels s, length newModels))"

text \<open>The text of the input for custom models is the first component.\<close>

definition handleAddCustomModels :: "jsstr \<Rightarrow> drawer \<Rightarrow> jsstr \<times> drawer" where
  "handleAddCustomModels customModel s =
     (if trim customModel = [] then (customModel, s)
      else ([], fst (updateModels (parseModelsString customModel) True s)))"

definition basicModels :: "jsstr list \<Rightarrow> drawer \<Rightarrow> jsstr list" where
  "basicModels allModelsList s =
     (if allModelsList = [] then []
      else if type_is 1 (d_form s)
      then filter (\<lambda>m. starts_with m (js ''gpt-'') \<or> starts_with m (js ''text-'')) allModelsList
      else allModelsList)"

definition handleFillRelatedModels :: "jsstr list \<Rightarrow> drawer \<Rightarrow> drawer" where
  "handleFillRelatedModels allModelsList s =
     (if basicModels allModelsList s = [] then s
      else fst (updateModels (basicModels allModelsList s) False s))"

definition handleFillAllModels :: "jsstr list \<Rightarrow> drawer \<Rightarrow> drawer" where
  "handleFillAllModels allModelsList s =
     (if allModelsList = [] then s else fst (updateModels allModelsList False s))"

definition handleClearModels :: "drawer \<Rightarrow> drawer" where
  "handleClearModels s = set_models [] s"

definition handleModelsChange :: "jsstr list \<Rightarrow> drawer \<Rightarrow> drawer" where
  "handleModelsChange selected s = set_models (js_join [44] selected) s"

text \<open>Whether the dialog that fetches models opens, or which message is shown instead.\<close>

datatype fetch_outcome = FetchDialog | TypeNotFetchable | KeyRequired

definition handleFetchModels :: "drawer \<Rightarrow> fetch_outcome" where
  "handleFetchModels s =
     (if f_type (d_form s) \<notin> set MODEL_FETCHABLE_TYPES then TypeNotFetchable
      else if \<not> isEditing s \<and> trim (f_key (d_form s)) = [] then KeyRequired else FetchDialog)"

subsection \<open>Keys and defaults\<close>

definition handleDeduplicateKeys :: "drawer \<Rightarrow> drawer" where
  "handleDeduplicateKeys s =
     (let currentKey = f_key (d_form s) in
      if currentKey = [] \<or> trim currentKey = [] then s
      else let result = deduplicateKeys currentKey in
        if removedCount result = 0 then s
        else s\<lparr>d_form := (d_form s)\<lparr>f_key := deduplicatedText result\<rparr>\<rparr>)"

text \<open>The effect that fills in defaults when the type of a new channel changes.\<close>

definition type_defaults_effect :: "drawer \<Rightarrow> drawer" where
  "type_defaults_effect s =
     (if isEditing s then s
      else let f = d_form s;
             f = (if type_is 45 f \<and> \<not> truthy (f_base_url f)
                  then f\<lparr>f_base_url := jstr ''https://ark.cn-beijing.volces.com''\<rparr> else f);
             f = (if type_is 18 f \<and> \<not> truthy (f_other f) then f\<lparr>f_other := jstr ''v2.1''\<rparr> else f)
      in s\<lparr>d_form := f\<rparr>)"

subsection \<open>Warnings about the model mapping\<close>

record guardrail =
  invalidJson :: bool
  guard_entries :: "(jsstr \<times> jsstr) list"
  missingSourceModels :: "jsstr list"
  exposedTargetModels :: "jsstr list"

definition createEmptyModelMappingGuardrail :: guardrail where
  "createEmptyModelMappingGuardrail =
     \<lparr>invalidJson = False, guard_entries = [], missingSourceModels = [], exposedTargetModels = []\<rparr>"

definition guard_entry :: "jsstr \<times> jsval \<Rightarrow> (jsstr \<times> jsstr) option" where
  "guard_entry e =
     (let source = trim (fst e); target = trim (to_str (js_coalesce (snd e) (jstr '''')))
      in if source = [] \<or> target = [] then None else Some (source, target))"

definition modelMappingGuardrail :: "jsval \<Rightarrow> jsstr list \<Rightarrow> guardrail" where
  "modelMappingGuardrail mapping models =
     (if trim (field_text mapping) = [] then createEmptyModelMappingGuardrail
      else (case json_parse (field_text mapping) of
        Some (JObj ps) \<Rightarrow>
          (let entries = List.map_filter guard_entry (obj_entries ps) in
           \<lparr>invalidJson = False, guard_entries = entries,
            missingSourceModels = js_set (map fst (filter (\<lambda>e. fst e \<noteq> [] \<and> fst e \<notin> set models) entries)),
            exposedTargetModels = js_set (map snd (filter (\<lambda>e. snd e \<noteq> [] \<and> snd e \<in> set models) entries))\<rparr>)
      | _ \<Rightarrow> createEmptyModelMappingGuardrail\<lparr>invalidJson := True\<rparr>))"

definition mappingPreviewPairs :: "guardrail \<Rightarrow> (jsstr \<times> jsstr) list" where
  "mappingPreviewPairs g =
     (if length (guard_entries g) > 0 then take 3 (guard_entries g)
      else [(js ''client-model'', js ''upstream-model'')])"

definition remainingMappingCount :: "guardrail \<Rightarrow> nat" where
  "remainingMappingCount g = (if length (guard_entries g) > 3 then length (guard_entries g) - 3 else 0)"

subsection \<open>The last upstream check\<close>

record upstream_summary =
  lastCheckTime :: jsval
  detectedModels :: "jsstr list"

definition upstreamUpdateMeta :: "drawer \<Rightarrow> upstream_summary" where
  "upstreamUpdateMeta s =
     (let settings = parseSettingsRecord (f_settings (d_form s));
          detected = (case fld (JObj settings) ''upstream_model_update_last_detected_models'' of
             JArr vs \<Rightarrow> filter (\<lambda>m. m \<noteq> []) (map (\<lambda>v. trim (to_str (js_or v (jstr '''')))) vs)
           | _ \<Rightarrow> [])
      in \<lparr>lastCheckTime = fld (JObj settings) ''upstream_model_update_last_check_time'',
          detectedModels = js_set detected\<rparr>)"

definition upstreamDetectedModelsPreview :: "drawer \<Rightarrow> jsstr list" where
  "upstreamDetectedModelsPreview s = take 8 (detectedModels (upstreamUpdateMeta s))"

definition upstreamDetectedModelsOmittedCount :: "drawer \<Rightarrow> nat" where
  "upstreamDetectedModelsOmittedCount s =
     length (detectedModels (upstreamUpdateMeta s)) - length (upstreamDetectedModelsPreview s)"

section \<open>Properties\<close>

lemma js_set_filter: "js_set (filter P xs) = filter P (js_set xs)"
proof (induction xs rule: rev_induct)
  case (snoc x xs)
  have "js_set (ys @ [y]) = js_add (js_set ys) y" for ys :: "'a list" and y by (simp add: js_set_def)
  with snoc show ?case by (auto simp: js_add_def)
qed (simp add: js_set_def)

text \<open>A mapping every entry of which names a model and a target.\<close>

definition full_mapping :: "jsval \<Rightarrow> bool" where
  "full_mapping mapping \<longleftrightarrow>
     (case json_parse (field_text mapping) of
        Some (JObj ps) \<Rightarrow> list_all (\<lambda>(k, v). trim k \<noteq> [] \<and> trim (field_text v) \<noteq> []) ps
      | _ \<Rightarrow> False)"

lemma guard_entries_full:
  assumes "list_all (\<lambda>(k, v). trim k \<noteq> [] \<and> trim (field_text v) \<noteq> []) es"
  shows "List.map_filter guard_entry es = map (\<lambda>(k, v). (trim k, trim (field_text v))) es"
    and "List.map_filter (\<lambda>e. trimmed_value (snd e)) es = map (\<lambda>(k, v). trim (field_text v)) es"
proof -
  have "guard_entry (k, v) = Some (trim k, trim (field_text v)) \<and> trimmed_value v = Some (trim (field_text v))"
    if "trim k \<noteq> []" "trim (field_text v) \<noteq> []" for k v
    using that by (cases v) (simp_all add: guard_entry_def trimmed_value_def field_text_def js_coalesce_def)
  with assms show "List.map_filter guard_entry es = map (\<lambda>(k, v). (trim k, trim (field_text v))) es"
    "List.map_filter (\<lambda>e. trimmed_value (snd e)) es = map (\<lambda>(k, v). trim (field_text v)) es"
    by (induction es) (auto simp: List.map_filter_def)
qed

text \<open>The warnings of the drawer and the questions of the submission agree: for a mapping every entry
  of which names a model and a target, the missing models the drawer warns of are those the submission asks
  about, and the exposed targets are those of \<open>findExposedTargetModels\<close>, in the same order.\<close>

theorem guardrail_agrees:
  assumes "full_mapping (f_model_mapping f)" and "trimmed (field_text (f_model_mapping f))"
  shows "missingSourceModels (modelMappingGuardrail (f_model_mapping f) (normalized_models f)) = missing_models f \<and>
    exposedTargetModels (modelMappingGuardrail (f_model_mapping f) (normalized_models f)) =
      findExposedTargetModels (f_model_mapping f) (normalized_models f)"
proof -
  let ?m = "f_model_mapping f" and ?ms = "normalized_models f"
  obtain ps where ps: "json_parse (field_text ?m) = Some (JObj ps)"
      and full: "list_all (\<lambda>(k, v). trim k \<noteq> [] \<and> trim (field_text v) \<noteq> []) (obj_entries ps)"
    using assms(1) by (auto simp: full_mapping_def list_all_iff split: option.splits jsval.splits)
  have ne: "field_text ?m \<noteq> []" using ps by (auto simp: json_parse_def)
  then obtain t where m: "?m = JStr t" by (cases ?m) (auto simp: field_text_def)
  then have t: "field_text ?m = t" "trim t = t" "t \<noteq> []"
    using trim_trimmed [OF assms(2)] ne by (simp_all add: field_text_def)
  have pt: "json_parse t = Some (JObj ps)" using ps t(1) by simp
  then have po: "parse_object t = Some (obj_entries ps)" by (simp add: parse_object_def)
  note guard = guard_entries_full [OF full]
  have trims: "set (js_set (map (\<lambda>m. normalizeModelName (JStr m)) ?ms)) = set ?ms"
    using normalized_clean by (force simp: normalizeModelName_def clean_item_def trim_trimmed)
  have "missingSourceModels (modelMappingGuardrail ?m ?ms) = missing_models f"
    by (simp add: modelMappingGuardrail_def t pt guard missing_exact mapping_sources_def po Let_def
        filter_map comp_def case_prod_unfold)
  moreover have "extractRedirectModels ?m = js_set (map (\<lambda>(k, v). trim (field_text v)) (obj_entries ps))"
    using t po by (simp add: extractRedirectModels_def m entries_of_def guard)
  then have "findExposedTargetModels ?m ?ms =
      filter (\<lambda>x. normalizeModelName (JStr x) \<in> set ?ms) (js_set (map (\<lambda>(k, v). trim (field_text v)) (obj_entries ps)))"
    using trims by (auto simp: findExposedTargetModels_def normalizeModelName_def Let_def)
  moreover have "exposedTargetModels (modelMappingGuardrail ?m ?ms) =
      js_set (filter (\<lambda>x. normalizeModelName (JStr x) \<in> set ?ms) (map (\<lambda>(k, v). trim (field_text v)) (obj_entries ps)))"
    using full
    by (auto simp: modelMappingGuardrail_def t pt guard Let_def filter_map comp_def case_prod_unfold
        normalizeModelName_def trim_idem list_all_iff intro!: arg_cong [where f = js_set] filter_cong
        arg_cong [where f = "map (\<lambda>p. trim (field_text (snd p)))"])
  ultimately show ?thesis by (simp add: js_set_filter)
qed

definition mapped_form :: channel_form where
  "mapped_form = CHANNEL_FORM_DEFAULT_VALUES
     \<lparr>f_models := jstr ''gpt-4,b'', f_model_mapping := jstr ''{\"a\":\"b\",\"gpt-4\":\"c\"}''\<rparr>"

lemma mapped_facts:
  "full_mapping (f_model_mapping mapped_form)" "trimmed (field_text (f_model_mapping mapped_form))"
  "missing_models mapped_form = [js ''a'']"
  "findExposedTargetModels (f_model_mapping mapped_form) (normalized_models mapped_form) = [js ''b'']"
  by code_simp+

theorem guardrail_agrees_witness:
  "missingSourceModels (modelMappingGuardrail (f_model_mapping mapped_form) (normalized_models mapped_form)) = [js ''a''] \<and>
   exposedTargetModels (modelMappingGuardrail (f_model_mapping mapped_form) (normalized_models mapped_form)) = [js ''b'']"
  using guardrail_agrees [OF mapped_facts(1,2)] unfolding mapped_facts(3,4) .

text \<open>With a blank target the two differ: the drawer shows no warning, and the submission asks.\<close>

definition blank_target_form :: channel_form where
  "blank_target_form = CHANNEL_FORM_DEFAULT_VALUES
     \<lparr>f_models := jstr ''gpt-4'', f_model_mapping := jstr ''{\"a\":\"\"}''\<rparr>"

lemma blank_target_not_warned:
  "missingSourceModels (modelMappingGuardrail (f_model_mapping blank_target_form)
     (normalized_models blank_target_form)) = []"
  "missing_models blank_target_form = [js ''a'']"
  by code_simp+

text \<open>Editing the models keeps the text a list of distinct clean names: what the drawer lists afterwards is
  what the handler was given, after the models already there when it adds.\<close>

lemma updateModels_exact:
  assumes "\<forall>m \<in> set newModels. clean_item 44 m"
  shows "currentModelsArray (fst (updateModels newModels merge s)) =
    js_set ((if merge then currentModelsArray s else []) @ newModels)"
proof -
  have old: "\<forall>m \<in> set (currentModelsArray s). clean_item 44 m"
    unfolding currentModelsArray_def by (blast dest: models_text.parse_clean)
  have written: "currentModelsArray (set_models m s) = parseModelsString m" for m
    by (simp add: currentModelsArray_def set_models_def field_text_def)
  show ?thesis using old assms by (auto simp: updateModels_def written Let_def intro!: parse_format_models)
qed

lemma add_custom_exact:
  assumes "trim customModel \<noteq> []"
  shows "currentModelsArray (snd (handleAddCustomModels customModel s)) =
    js_set (currentModelsArray s @ parseModelsString customModel)"
  using assms updateModels_exact [of "parseModelsString customModel" True s] models_text.parse_clean
  by (simp add: handleAddCustomModels_def)

end
