(* ===== verification/Playground.thy ===== *)
theory Playground
  imports JsValue
begin

section \<open>Playground: messages, reasoning tags, streaming and the request payload\<close>

text \<open>
  \<open>features/playground/lib/message-utils.ts\<close> and \<open>payload-builder.ts\<close>. A message is a record; the
  fields no function reads or writes (sources, model, usage, tool calls, earlier attempts) are kept
  in \<open>msg_others\<close>. Identifiers come from \<open>nanoid()\<close> and are arguments here. \<open>undefined\<close> fields are
  \<open>None\<close>.
\<close>

subsection \<open>Data\<close>

datatype message_role = RoleUser | RoleAssistant | RoleSystem

datatype message_status = StLoading | StStreaming | StComplete | StError | StCancelled

record message_version =
  version_id :: jsstr
  version_content :: jsstr

record reasoning =
  reasoning_content :: jsstr
  reasoning_duration :: jsnum

record message =
  msg_key :: jsstr
  msg_from :: message_role
  msg_versions :: "message_version list"
  msg_reasoning :: "reasoning option"
  msg_isReasoningStreaming :: "bool option"
  msg_isReasoningComplete :: "bool option"
  msg_isContentComplete :: "bool option"
  msg_status :: "message_status option"
  msg_errorCode :: "jsstr option"
  msg_errorMessage :: "jsstr option"
  msg_others :: "(jsstr \<times> jsval) list"

datatype content_part = TextPart jsstr | ImagePart jsstr

datatype message_content = PlainText jsstr | Parts "content_part list"

record api_message =
  api_role :: message_role
  api_content :: message_content

subsection \<open>Messages\<close>

definition createMessageVersion :: "jsstr \<Rightarrow> jsstr \<Rightarrow> message_version" where
  "createMessageVersion nid content = \<lparr>version_id = nid, version_content = content\<rparr>"

definition getCurrentVersion :: "message \<Rightarrow> message_version" where
  "getCurrentVersion m =
     (case msg_versions m of v # _ \<Rightarrow> v | [] \<Rightarrow> \<lparr>version_id = js ''default'', version_content = []\<rparr>)"

definition updateCurrentVersionContent :: "message \<Rightarrow> jsstr \<Rightarrow> message" where
  "updateCurrentVersionContent m content =
     m\<lparr>msg_versions := [(getCurrentVersion m)\<lparr>version_content := content\<rparr>]\<rparr>"

definition createUserMessage :: "jsstr \<Rightarrow> jsstr \<Rightarrow> jsstr \<Rightarrow> message" where
  "createUserMessage key nid content =
     \<lparr>msg_key = key, msg_from = RoleUser, msg_versions = [createMessageVersion nid content],
      msg_reasoning = None, msg_isReasoningStreaming = None, msg_isReasoningComplete = None,
      msg_isContentComplete = None, msg_status = None, msg_errorCode = None, msg_errorMessage = None,
      msg_others = []\<rparr>"

definition createLoadingAssistantMessage :: "jsstr \<Rightarrow> jsstr \<Rightarrow> message" where
  "createLoadingAssistantMessage key nid =
     \<lparr>msg_key = key, msg_from = RoleAssistant, msg_versions = [createMessageVersion nid []],
      msg_reasoning = None, msg_isReasoningStreaming = Some False, msg_isReasoningComplete = Some False,
      msg_isContentComplete = Some False, msg_status = Some StLoading, msg_errorCode = None,
      msg_errorMessage = None, msg_others = []\<rparr>"

definition buildMessageContent :: "jsstr \<Rightarrow> jsstr list \<Rightarrow> message_content" where
  "buildMessageContent txt imageUrls =
     (let validImages = filter (\<lambda>url. trim url \<noteq> []) imageUrls
      in if validImages = [] then PlainText txt
         else Parts (TextPart txt # map (\<lambda>url. ImagePart (trim url)) validImages))"

fun find_text :: "content_part list \<Rightarrow> jsstr" where
  "find_text [] = []"
| "find_text (TextPart t # ps) = t"
| "find_text (ImagePart _ # ps) = find_text ps"

definition getTextContent :: "message_content \<Rightarrow> jsstr" where
  "getTextContent content = (case content of PlainText s \<Rightarrow> s | Parts ps \<Rightarrow> find_text ps)"

definition formatMessageForAPI :: "message \<Rightarrow> api_message" where
  "formatMessageForAPI m =
     \<lparr>api_role = msg_from m, api_content = PlainText (version_content (getCurrentVersion m))\<rparr>"

definition isValidMessage :: "message \<Rightarrow> bool" where
  "isValidMessage m =
     (if msg_versions m = [] then False
      else if msg_from m = RoleAssistant \<and> msg_status m = Some StError then False
      else if msg_from m = RoleAssistant \<and> trim (version_content (hd (msg_versions m))) = [] then False
      else True)"

subsection \<open>Reasoning tags\<close>

definition open_tag :: jsstr where
  "open_tag = js ''<think>''"

definition close_tag :: jsstr where
  "close_tag = js ''</think>''"

text \<open>The scanning loop on the rest of the content: the visible parts, the reasoning parts and whether
  the last tag is open. Each round moves past a complete pair of tags.\<close>

function think_scan :: "jsstr \<Rightarrow> jsstr list \<times> jsstr list \<times> bool" where
  "think_scan rest =
     (case js_index rest open_tag of
        None \<Rightarrow> (if rest \<noteq> [] then [rest] else [], [], False)
      | Some openPos \<Rightarrow>
        (let before = (if 0 < openPos then [take openPos rest] else []);
             inner = drop (openPos + 7) rest
         in case js_index inner close_tag of
              None \<Rightarrow> (before, [inner], True)
            | Some closePos \<Rightarrow>
              (let (visible, reasons, unclosed) = think_scan (drop (closePos + 8) inner)
               in (before @ visible, take closePos inner # reasons, unclosed))))"
  by pat_completeness auto
termination
proof (relation "measure length")
  fix rest :: jsstr and openPos closePos :: nat and before :: "jsstr list" and inner :: jsstr
  assume "js_index rest open_tag = Some openPos" and "inner = drop (openPos + 7) rest"
  then show "(drop (closePos + 8) inner, rest) \<in> measure length"
    using js_index_length [of rest open_tag openPos] by (simp add: open_tag_def)
qed simp

declare think_scan.simps [simp del]

record think_parts =
  visibleContent :: jsstr
  think_reasoning :: jsstr
  hasUnclosedTag :: bool

definition parseThinkTags :: "jsstr \<Rightarrow> think_parts" where
  "parseThinkTags content =
     (if \<not> includes_str content open_tag
      then \<lparr>visibleContent = content, think_reasoning = [], hasUnclosedTag = False\<rparr>
      else let (visibleParts, reasoningParts, hasUnclosed) = think_scan content
      in \<lparr>visibleContent = trim (concat visibleParts),
          think_reasoning = trim (js_join [10, 10] reasoningParts), hasUnclosedTag = hasUnclosed\<rparr>)"

subsection \<open>Updates of the last message\<close>

definition updateLastAssistantMessage :: "message list \<Rightarrow> (message \<Rightarrow> message) \<Rightarrow> message list" where
  "updateLastAssistantMessage messages updater =
     (if messages = [] then messages
      else if msg_from (last messages) \<noteq> RoleAssistant then messages
      else butlast messages @ [updater (last messages)])"

text \<open>\<open>errorCode || null\<close>: \<open>null\<close> and a missing code are \<open>None\<close>.\<close>

definition updateAssistantMessageWithError :: "message list \<Rightarrow> jsstr \<Rightarrow> jsstr option \<Rightarrow> message list" where
  "updateAssistantMessageWithError messages errorMessage errorCode =
     updateLastAssistantMessage messages (\<lambda>m.
       m\<lparr>msg_errorMessage := Some errorMessage, msg_status := Some StError,
         msg_isReasoningStreaming := Some False,
         msg_errorCode := (case errorCode of Some c \<Rightarrow> if c = [] then None else Some c | None \<Rightarrow> None)\<rparr>)"

definition processStreamingContent :: "message \<Rightarrow> jsstr option \<Rightarrow> message" where
  "processStreamingContent m chunk =
     (let content = version_content (getCurrentVersion m);
          fullContent = (case chunk of Some c \<Rightarrow> if c \<noteq> [] then content @ c else content | None \<Rightarrow> content);
          parsed = parseThinkTags fullContent
      in (updateCurrentVersionContent m fullContent)\<lparr>
           msg_reasoning :=
             (if think_reasoning parsed \<noteq> []
              then Some \<lparr>reasoning_content = think_reasoning parsed, reasoning_duration = num_int 0\<rparr>
              else msg_reasoning m),
           msg_isReasoningStreaming := Some (hasUnclosedTag parsed)\<rparr>)"

definition first_nonempty :: "jsstr list \<Rightarrow> jsstr" where
  "first_nonempty ss = (case filter (\<lambda>s. s \<noteq> []) ss of s # _ \<Rightarrow> s | [] \<Rightarrow> [])"

definition opt_text :: "jsstr option \<Rightarrow> jsstr" where
  "opt_text x = (case x of Some s \<Rightarrow> s | None \<Rightarrow> [])"

definition finalizeMessage :: "message \<Rightarrow> jsstr option \<Rightarrow> message" where
  "finalizeMessage m apiReasoningContent =
     (let parsed = parseThinkTags (version_content (getCurrentVersion m));
          finalReasoning = first_nonempty [opt_text apiReasoningContent,
            opt_text (map_option reasoning_content (msg_reasoning m)), think_reasoning parsed];
          duration = (case msg_reasoning m of
             Some r \<Rightarrow> if num_truthy (reasoning_duration r) then reasoning_duration r else num_int 0
           | None \<Rightarrow> num_int 0)
      in (updateCurrentVersionContent m (visibleContent parsed))\<lparr>
           msg_reasoning := (if finalReasoning \<noteq> []
             then Some \<lparr>reasoning_content = finalReasoning, reasoning_duration = duration\<rparr> else None),
           msg_isReasoningStreaming := Some False\<rparr>)"

subsection \<open>Loading from storage\<close>

definition is_stuck :: "message \<Rightarrow> bool" where
  "is_stuck m \<longleftrightarrow> msg_from m = RoleAssistant \<and>
     (msg_status m = Some StLoading \<or> msg_status m = Some StStreaming)"

text \<open>The loop from the end: the index of the last stuck message.\<close>

fun last_stuck :: "message list \<Rightarrow> nat \<Rightarrow> nat option" where
  "last_stuck messages 0 = None"
| "last_stuck messages (Suc i) = (if is_stuck (messages ! i) then Some i else last_stuck messages i)"

definition interrupted_text :: jsstr where
  "interrupted_text = js ''Request error occurred: Generation was interrupted''"

definition sanitize_message :: "message \<Rightarrow> message" where
  "sanitize_message m =
     (let finalized = finalizeMessage m None;
          hasContent = (case msg_versions finalized of v # _ \<Rightarrow> trim (version_content v) \<noteq> [] | [] \<Rightarrow> False);
          hasReasoning = (case msg_reasoning finalized of
             Some r \<Rightarrow> trim (reasoning_content r) \<noteq> [] | None \<Rightarrow> False)
      in if hasContent \<or> hasReasoning
         then finalized\<lparr>msg_status := Some StCancelled, msg_isReasoningStreaming := Some False\<rparr>
         else (updateCurrentVersionContent finalized interrupted_text)\<lparr>
                msg_status := Some StError, msg_isReasoningStreaming := Some False\<rparr>)"

definition sanitizeMessagesOnLoad :: "message list \<Rightarrow> message list" where
  "sanitizeMessagesOnLoad messages =
     (case last_stuck messages (length messages) of
        None \<Rightarrow> messages
      | Some i \<Rightarrow> messages[i := sanitize_message (messages ! i)])"

subsection \<open>The request payload\<close>

text \<open>The configuration values a parameter key reads: \<open>JUndef\<close> or \<open>JNull\<close> where there is none.\<close>

record playground_config =
  cfg_model :: jsstr
  cfg_group :: jsstr
  cfg_stream :: bool
  cfg_systemPrompt :: "jsstr option"
  cfg_params :: "jsstr \<Rightarrow> jsval"

record chat_request =
  req_model :: jsstr
  req_group :: jsstr
  req_messages :: "api_message list"
  req_stream :: bool
  req_includeUsage :: bool
  req_params :: "(jsstr \<times> jsval) list"

definition parameterKeys :: "jsstr list" where
  "parameterKeys = [js ''temperature'', js ''top_p'', js ''max_tokens'', js ''frequency_penalty'',
     js ''presence_penalty'', js ''seed'']"

definition buildChatCompletionPayload ::
  "message list \<Rightarrow> playground_config \<Rightarrow> (jsstr \<Rightarrow> bool) \<Rightarrow> chat_request" where
  "buildChatCompletionPayload messages config parameterEnabled =
     (let processed = map formatMessageForAPI (filter isValidMessage messages);
          system = opt_text (cfg_systemPrompt config);
          all = (if trim system \<noteq> [] then \<lparr>api_role = RoleSystem, api_content = PlainText system\<rparr> # processed
                 else processed)
      in \<lparr>req_model = cfg_model config, req_group = cfg_group config, req_messages = all,
          req_stream = cfg_stream config, req_includeUsage = cfg_stream config,
          req_params = map (\<lambda>key. (key, cfg_params config key))
            (filter (\<lambda>key. parameterEnabled key \<and> \<not> is_nullish (cfg_params config key)) parameterKeys)\<rparr>)"

subsection \<open>Reasoning tags, specified by the text they mark up\<close>

text \<open>Visible stretches and the reasoning that follows each, then a tail.\<close>

fun render_think :: "(jsstr \<times> jsstr) list \<Rightarrow> jsstr \<Rightarrow> jsstr" where
  "render_think [] tail = tail"
| "render_think ((v, r) # ps) tail = v @ open_tag @ r @ close_tag @ render_think ps tail"

definition plain_segments :: "(jsstr \<times> jsstr) list \<Rightarrow> bool" where
  "plain_segments ps \<longleftrightarrow>
     list_all (\<lambda>(v, r). \<not> includes_str v open_tag \<and> \<not> includes_str r close_tag) ps"

lemma first_index:
  assumes "tag = c # w" and "c \<notin> set w" and "\<not> includes_str v tag"
  shows "js_index (v @ tag @ rest) tag = Some (length v)"
  using assms(3)
proof (induction v)
  case Nil
  show ?case using assms(1) by (simp add: starts_with_def)
next
  case (Cons x v)
  have no: "\<not> starts_with (x # v) tag" and IH: "js_index (v @ tag @ rest) tag = Some (length v)"
    using Cons by (auto simp: includes_str_def split: if_splits)
  have "\<not> starts_with (x # v @ tag @ rest) tag"
  proof
    assume s: "starts_with (x # v @ tag @ rest) tag"
    show False
    proof (cases "length tag \<le> length (x # v)")
      case True
      then have "take (length tag) (x # v @ tag @ rest) = take (length tag) (x # v)"
        by (metis append_Cons append_take_drop_id drop_eq_Nil le_refl length_append take_all_iff take_append diff_is_0_eq' take0 append_Nil2)
      with s no show False by (simp add: starts_with_def)
    next
      case False
      then have "tag ! length (x # v) = (x # v @ tag @ rest) ! length (x # v)"
        using s unfolding starts_with_def by (metis append_Cons not_le nth_take)
      also have "\<dots> = c" using assms(1) nth_append_length [of "x # v" c "w @ rest"] by simp
      finally have "w ! length v = c" using assms(1) by simp
      moreover have "length v < length w" using False assms(1) by simp
      ultimately show False using assms(2) nth_mem by blast
    qed
  qed
  with IH show ?case by simp
qed

lemma first_open: "\<not> includes_str v open_tag \<Longrightarrow> js_index (v @ open_tag @ rest) open_tag = Some (length v)"
  by (rule first_index [of _ 60 "js ''think>''"]) (simp_all add: open_tag_def js_lit)

lemma first_close: "\<not> includes_str r close_tag \<Longrightarrow> js_index (r @ close_tag @ rest) close_tag = Some (length r)"
  by (rule first_index [of _ 60 "js ''/think>''"]) (simp_all add: close_tag_def js_lit)

lemma index_first: "js_index s t = Some i \<Longrightarrow> t \<noteq> [] \<Longrightarrow> \<not> includes_str (take i s) t"
proof (induction s arbitrary: i)
  case Nil
  then show ?case by (simp add: includes_str_def)
next
  case (Cons c s)
  show ?case
  proof (cases "starts_with (c # s) t")
    case True
    with Cons.prems show ?thesis by (simp add: includes_str_def)
  next
    case False
    then obtain j where j: "js_index s t = Some j" "i = Suc j" using Cons.prems by auto
    have "\<not> starts_with (c # take j s) t"
    proof
      assume "starts_with (c # take j s) t"
      then obtain r where "c # take j s = t @ r" using starts_with_split by blast
      then have "c # s = t @ r @ drop j s" by (metis append.assoc append_Cons append_take_drop_id)
      with False starts_with_append [of t "r @ drop j s"] show False by simp
    qed
    moreover have "\<not> includes_str (take j s) t" using Cons.IH [OF j(1) Cons.prems(2)] .
    ultimately show ?thesis by (simp add: includes_str_def j(2))
  qed
qed

lemma index_split:
  assumes "js_index s t = Some i" and "t \<noteq> []"
  shows "s = take i s @ t @ drop (i + length t) s \<and> \<not> includes_str (take i s) t"
  using js_index_Some [OF assms(1)] index_first [OF assms] by blast

lemma tag_lengths: "length open_tag = 7" "length close_tag = 8"
  by (simp_all add: open_tag_def close_tag_def)

lemma tags_nonempty: "open_tag \<noteq> []" "close_tag \<noteq> []"
  by (simp_all add: open_tag_def close_tag_def)

lemma think_scan_pair:
  assumes "\<not> includes_str v open_tag" "\<not> includes_str r close_tag"
  shows "think_scan (v @ open_tag @ r @ close_tag @ rest) =
     ((if v \<noteq> [] then [v] else []) @ fst (think_scan rest), r # fst (snd (think_scan rest)), snd (snd (think_scan rest)))"
proof -
  have "drop (length v + 7) (v @ open_tag @ r @ close_tag @ rest) = r @ close_tag @ rest"
    using tag_lengths by simp
  moreover have "drop (length r + 8) (r @ close_tag @ rest) = rest" using tag_lengths by simp
  ultimately show ?thesis
    using first_open [OF assms(1)] first_close [OF assms(2)]
    by (subst think_scan.simps) (simp add: Let_def split_beta)
qed

lemma think_scan_tail: "\<not> includes_str tail open_tag \<Longrightarrow>
    think_scan tail = (if tail \<noteq> [] then [tail] else [], [], False)"
  by (subst think_scan.simps) (simp add: includes_str_def)

lemma think_scan_open:
  assumes "\<not> includes_str v open_tag" "\<not> includes_str r close_tag"
  shows "think_scan (v @ open_tag @ r) = (if v \<noteq> [] then [v] else [], [r], True)"
  using first_open [OF assms(1), of r] assms(2) tag_lengths
  by (subst think_scan.simps) (simp add: includes_str_def Let_def)

lemma think_scan_render:
  "plain_segments ps \<Longrightarrow>
     concat (fst (think_scan (render_think ps tail))) = concat (map fst ps) @ concat (fst (think_scan tail)) \<and>
     fst (snd (think_scan (render_think ps tail))) = map snd ps @ fst (snd (think_scan tail)) \<and>
     snd (snd (think_scan (render_think ps tail))) = snd (snd (think_scan tail))"
  by (induction ps) (auto simp: plain_segments_def think_scan_pair)

lemma includes_middle: "includes_str (a @ tag @ b) tag"
proof -
  have "js_index (a @ tag @ b) tag \<noteq> None"
  proof (induction a)
    case Nil
    show ?case using starts_with_append [of tag b] by (cases "tag @ b") auto
  qed auto
  then show ?thesis by (simp add: includes_str_def)
qed

lemma render_has_tag: "ps \<noteq> [] \<Longrightarrow> includes_str (render_think ps tail) open_tag"
  by (cases ps) (auto simp: includes_middle)

text \<open>Every content is such a text, with or without an open tag at the end.\<close>

lemma content_segments:
  "\<exists>ps tail r. plain_segments ps \<and> \<not> includes_str tail open_tag \<and> \<not> includes_str r close_tag \<and>
     (content = render_think ps tail \<or> content = render_think ps (tail @ open_tag @ r))"
proof (induction content rule: think_scan.induct)
  case (1 rest)
  show ?case
  proof (cases "js_index rest open_tag")
    case None
    moreover have "plain_segments []" "\<not> includes_str [] close_tag" by code_simp+
    moreover have "rest = render_think [] rest" by simp
    ultimately show ?thesis unfolding includes_str_def by blast
  next
    case (Some openPos)
    define v where "v = take openPos rest"
    define inner where "inner = drop (openPos + 7) rest"
    have rest: "rest = v @ open_tag @ inner" and v: "\<not> includes_str v open_tag"
      using index_split [OF Some tags_nonempty(1)] unfolding v_def inner_def tag_lengths by blast+
    show ?thesis
    proof (cases "js_index inner close_tag")
      case None
      then have "plain_segments []" "\<not> includes_str inner close_tag" "rest = render_think [] (v @ open_tag @ inner)"
        using rest by (simp_all add: plain_segments_def includes_str_def)
      with v show ?thesis by blast
    next
      case (Some closePos)
      define r where "r = take closePos inner"
      define rest' where "rest' = drop (closePos + 8) inner"
      have inner: "inner = r @ close_tag @ rest'" and r: "\<not> includes_str r close_tag"
        using index_split [OF Some tags_nonempty(2)] unfolding r_def rest'_def tag_lengths by blast+
      obtain ps tail r' where ps: "plain_segments ps" "\<not> includes_str tail open_tag" "\<not> includes_str r' close_tag"
        "rest' = render_think ps tail \<or> rest' = render_think ps (tail @ open_tag @ r')"
        using 1 [OF \<open>js_index rest open_tag = Some openPos\<close> refl inner_def Some] unfolding rest'_def by blast
      have "plain_segments ((v, r) # ps)" using ps(1) v r by (simp add: plain_segments_def)
      moreover have "rest = render_think ((v, r) # ps) tail \<or> rest = render_think ((v, r) # ps) (tail @ open_tag @ r')"
        using ps(4) rest inner by auto
      ultimately show ?thesis using ps(2,3) by blast
    qed
  qed
qed

text \<open>
  C23. Splitting a reply into answer and reasoning is exact. Every content is a text made of visible stretches, each
  followed by a tagged stretch of reasoning, and a visible tail, or such a text that opens one more tag
  after the tail and does not close it. Without any tag the content is visible as it is. With
  tags the visible content is the stretches and the tail without the tags, and the reasoning the tagged
  stretches separated by blank lines, both trimmed; after a tag that is not closed, also as the first and only
  tag, what follows is reasoning and reported as open.
\<close>

theorem think_tags_exact:
  assumes "plain_segments ps" and "\<not> includes_str tail open_tag" and "\<not> includes_str r close_tag"
  shows "parseThinkTags (render_think ps tail) =
       (if ps = [] then \<lparr>visibleContent = tail, think_reasoning = [], hasUnclosedTag = False\<rparr>
        else \<lparr>visibleContent = trim (concat (map fst ps) @ tail),
          think_reasoning = trim (js_join [10, 10] (map snd ps)), hasUnclosedTag = False\<rparr>) \<and>
     parseThinkTags (render_think ps (tail @ open_tag @ r)) =
       \<lparr>visibleContent = trim (concat (map fst ps) @ tail),
        think_reasoning = trim (js_join [10, 10] (map snd ps @ [r])), hasUnclosedTag = True\<rparr> \<and>
     (\<exists>ps tail r. plain_segments ps \<and> \<not> includes_str tail open_tag \<and> \<not> includes_str r close_tag \<and>
        (content = render_think ps tail \<or> content = render_think ps (tail @ open_tag @ r)))"
proof (intro conjI)
  show "parseThinkTags (render_think ps tail) =
       (if ps = [] then \<lparr>visibleContent = tail, think_reasoning = [], hasUnclosedTag = False\<rparr>
        else \<lparr>visibleContent = trim (concat (map fst ps) @ tail),
          think_reasoning = trim (js_join [10, 10] (map snd ps)), hasUnclosedTag = False\<rparr>)"
    using think_scan_render [OF assms(1), of tail] think_scan_tail [OF assms(2)] render_has_tag [of ps tail] assms(2)
    by (cases "tail = []") (auto simp: parseThinkTags_def split_beta)
  have "includes_str (render_think ps (tail @ open_tag @ r)) open_tag"
    using render_has_tag [of ps] includes_middle [of tail open_tag r] by (cases "ps = []") auto
  then show "parseThinkTags (render_think ps (tail @ open_tag @ r)) =
       \<lparr>visibleContent = trim (concat (map fst ps) @ tail),
        think_reasoning = trim (js_join [10, 10] (map snd ps @ [r])), hasUnclosedTag = True\<rparr>"
    using think_scan_render [OF assms(1), of "tail @ open_tag @ r"] think_scan_open [OF assms(2,3)]
    by (cases "tail = []") (simp_all add: parseThinkTags_def split_beta)
qed (rule content_segments)

theorem think_tags_exact_witness:
  "parseThinkTags (js ''Hi <think>why</think>there'') =
     \<lparr>visibleContent = js ''Hi there'', think_reasoning = js ''why'', hasUnclosedTag = False\<rparr> \<and>
   parseThinkTags (open_tag @ js ''why'') = \<lparr>visibleContent = [], think_reasoning = js ''why'', hasUnclosedTag = True\<rparr>"
proof -
  have "plain_segments [(js ''Hi '', js ''why'')]" "plain_segments []" by code_simp+
  moreover have "\<not> includes_str (js ''there'') open_tag" "\<not> includes_str [] close_tag" "\<not> includes_str [] open_tag"
    "\<not> includes_str (js ''why'') close_tag" by code_simp+
  moreover have "render_think [(js ''Hi '', js ''why'')] (js ''there'') = js ''Hi <think>why</think>there''"
    by code_simp
  moreover have "trim (concat (map fst [(js ''Hi '', js ''why'')]) @ js ''there'') = js ''Hi there''"
    "trim (js_join [10, 10] (map snd [(js ''Hi '', js ''why'')])) = js ''why''"
    "trim (js_join [10, 10] (map snd [] @ [js ''why''])) = js ''why''" by code_simp+
  ultimately show ?thesis
    using think_tags_exact [of "[(js ''Hi '', js ''why'')]" "js ''there''" "[]"] think_tags_exact [of "[]" "[]" "js ''why''"]
    by simp
qed

subsection \<open>Streaming\<close>

abbreviation content_of :: "message \<Rightarrow> jsstr" where
  "content_of m \<equiv> version_content (getCurrentVersion m)"

lemma content_update [simp]: "content_of (updateCurrentVersionContent m s) = s"
  by (simp add: updateCurrentVersionContent_def getCurrentVersion_def)

lemma content_stream:
  "content_of (processStreamingContent m chunk) = content_of m @ opt_text chunk"
  "msg_isReasoningStreaming (processStreamingContent m chunk) =
     Some (hasUnclosedTag (parseThinkTags (content_of m @ opt_text chunk)))"
  by (auto simp: processStreamingContent_def Let_def opt_text_def getCurrentVersion_def
      updateCurrentVersionContent_def split: option.splits)

lemma stream_content:
  "content_of (foldl processStreamingContent m chunks) = content_of m @ concat (map opt_text chunks)"
  by (induction chunks arbitrary: m) (auto simp: content_stream)

text \<open>A stretch of reasoning in the whole text replaces what the message had; without one the message keeps the
  reasoning of an earlier chunk.\<close>

lemma stream_reasoning:
  "msg_reasoning (processStreamingContent m chunk) =
     (let t = think_reasoning (parseThinkTags (content_of m @ opt_text chunk)) in
      if t \<noteq> [] then Some \<lparr>reasoning_content = t, reasoning_duration = num_int 0\<rparr> else msg_reasoning m)"
  by (auto simp: processStreamingContent_def Let_def opt_text_def getCurrentVersion_def
      updateCurrentVersionContent_def split: option.splits)

text \<open>
  C26. Streaming loses nothing: after any sequence of chunks (missing and empty ones included) the
  message holds the concatenation of everything received, the reasoning indicator is on exactly
  when that text ends inside an open tag, and finalizing shows the visible part of the whole text,
  as if it had arrived at once. If the whole text has reasoning, the message has exactly that reasoning, before and
  after finalizing (unless the server sent one of its own). Nothing is claimed of the reasoning when the whole text has
  none; there chunks can leave some behind (\<open>stale_reasoning_stays\<close>).
\<close>

theorem streaming_refines_whole:
  assumes "chunks \<noteq> []"
  shows "let whole = version_content (getCurrentVersion m) @ concat (map opt_text chunks);
             streamed = foldl processStreamingContent m chunks; final = finalizeMessage streamed api;
             t = think_reasoning (parseThinkTags whole)
     in version_content (getCurrentVersion streamed) = whole \<and>
     msg_isReasoningStreaming streamed = Some (hasUnclosedTag (parseThinkTags whole)) \<and>
     version_content (getCurrentVersion final) = visibleContent (parseThinkTags whole) \<and>
     msg_isReasoningStreaming final = Some False \<and>
     (t \<noteq> [] \<longrightarrow> map_option reasoning_content (msg_reasoning streamed) = Some t \<and>
        map_option reasoning_content (msg_reasoning final) = Some (first_nonempty [opt_text api, t]))"
proof -
  obtain cs c where chunks: "chunks = cs @ [c]" using assms by (cases chunks rule: rev_cases) auto
  define whole where "whole = content_of m @ concat (map opt_text chunks)"
  define st where "st = foldl processStreamingContent m chunks"
  have content: "content_of st = whole" by (simp add: st_def whole_def stream_content)
  have open': "msg_isReasoningStreaming st = Some (hasUnclosedTag (parseThinkTags whole))"
    by (simp add: st_def whole_def chunks content_stream stream_content)
  have reasoning: "think_reasoning (parseThinkTags whole) \<noteq> [] \<Longrightarrow>
      msg_reasoning st = Some \<lparr>reasoning_content = think_reasoning (parseThinkTags whole), reasoning_duration = num_int 0\<rparr>"
    by (simp add: st_def whole_def chunks stream_reasoning stream_content Let_def)
  have final: "content_of (finalizeMessage st api) = visibleContent (parseThinkTags whole)"
    "msg_isReasoningStreaming (finalizeMessage st api) = Some False"
    using content by (simp_all add: finalizeMessage_def Let_def getCurrentVersion_def updateCurrentVersionContent_def)
  have "map_option reasoning_content (msg_reasoning (finalizeMessage st api)) =
      Some (first_nonempty [opt_text api, think_reasoning (parseThinkTags whole)])"
    if "think_reasoning (parseThinkTags whole) \<noteq> []"
    using reasoning [OF that] that content
    by (simp add: finalizeMessage_def Let_def first_nonempty_def opt_text_def getCurrentVersion_def split: option.splits)
  then show ?thesis unfolding Let_def whole_def [symmetric] st_def [symmetric]
    using content open' final reasoning by simp
qed

theorem streaming_refines_whole_witness:
  "version_content (getCurrentVersion (foldl processStreamingContent
     (createLoadingAssistantMessage (js ''k'') (js ''v'')) [Some (js ''Hel''), None, Some (js ''lo'')])) = js ''Hello''"
  using streaming_refines_whole [of "[Some (js ''Hel''), None, Some (js ''lo'')]"
      "createLoadingAssistantMessage (js ''k'') (js ''v'')" None]
  by (simp add: createLoadingAssistantMessage_def createMessageVersion_def getCurrentVersion_def
      opt_text_def js_append [symmetric] Let_def)

text \<open>A closing tag that arrives in two chunks leaves its first part behind as reasoning, although the whole text has none.\<close>

lemma stale_reasoning_stays:
  "let chunks = [Some (js ''<think>''), Some (js ''</thi''), Some (js ''nk>hello'')];
       final = finalizeMessage (foldl processStreamingContent (createLoadingAssistantMessage (js ''k'') (js ''v'')) chunks) None
   in think_reasoning (parseThinkTags (concat (map opt_text chunks))) = [] \<and>
      map_option reasoning_content (msg_reasoning final) = Some (js ''</thi'')"
  by code_simp

subsection \<open>Messages loaded from storage\<close>

lemma last_stuck_Some:
  "last_stuck ms n = Some i \<Longrightarrow> i < n \<and> is_stuck (ms ! i) \<and> (\<forall>j. i < j \<and> j < n \<longrightarrow> \<not> is_stuck (ms ! j))"
  by (induction n) (auto simp: less_Suc_eq split: if_splits)

lemma last_stuck_None: "last_stuck ms n = None \<longleftrightarrow> (\<forall>j < n. \<not> is_stuck (ms ! j))"
  by (induction n) (auto simp: less_Suc_eq)

lemma sanitize_not_stuck: "\<not> is_stuck (sanitize_message m)"
  by (simp add: sanitize_message_def is_stuck_def Let_def)

text \<open>
  Restoring a session repairs the last interrupted reply and nothing else: the list keeps its
  length and every other message, the last message left in a loading or streaming state becomes
  a cancelled or failed one, and if there was at most one such message, none is left.
\<close>

theorem sanitize_repairs_last:
  assumes "i < length ms" and "is_stuck (ms ! i)" and "\<forall>j. i < j \<and> j < length ms \<longrightarrow> \<not> is_stuck (ms ! j)"
  shows "sanitizeMessagesOnLoad ms = ms[i := sanitize_message (ms ! i)] \<and>
     \<not> is_stuck (sanitizeMessagesOnLoad ms ! i) \<and>
     length (filter is_stuck (sanitizeMessagesOnLoad ms)) = length (filter is_stuck ms) - 1"
proof -
  have "last_stuck ms (length ms) = Some i"
  proof (cases "last_stuck ms (length ms)")
    case None
    with assms show ?thesis by (simp add: last_stuck_None)
  next
    case (Some k)
    with last_stuck_Some [OF Some] assms show ?thesis by (metis linorder_neqE_nat)
  qed
  then have r: "sanitizeMessagesOnLoad ms = ms[i := sanitize_message (ms ! i)]"
    by (simp add: sanitizeMessagesOnLoad_def)
  have ms: "ms = take i ms @ ms ! i # drop (Suc i) ms" using assms(1) by (simp add: id_take_nth_drop)
  have "length (filter is_stuck ms) = length (filter is_stuck (take i ms)) + 1 + length (filter is_stuck (drop (Suc i) ms))"
    using arg_cong [OF ms, of "\<lambda>xs. length (filter is_stuck xs)"] assms(2) by simp
  moreover have "length (filter is_stuck (ms[i := sanitize_message (ms ! i)])) =
      length (filter is_stuck (take i ms)) + length (filter is_stuck (drop (Suc i) ms))"
    using assms(1) sanitize_not_stuck by (simp add: upd_conv_take_nth_drop)
  ultimately show ?thesis using r assms(1) sanitize_not_stuck by simp
qed

text \<open>Two interrupted replies: the earlier one keeps its loading state.\<close>

lemma sanitize_leaves_earlier:
  "is_stuck (sanitizeMessagesOnLoad
     [createLoadingAssistantMessage k v, createLoadingAssistantMessage k' v'] ! 0)"
  by (simp add: sanitizeMessagesOnLoad_def is_stuck_def createLoadingAssistantMessage_def)

theorem sanitize_repairs_last_witness:
  "length (filter is_stuck (sanitizeMessagesOnLoad
     [createUserMessage (js ''a'') (js ''b'') (js ''hi''), createLoadingAssistantMessage (js ''k'') (js ''v'')])) = 0"
proof -
  let ?ms = "[createUserMessage (js ''a'') (js ''b'') (js ''hi''), createLoadingAssistantMessage (js ''k'') (js ''v'')]"
  have "is_stuck (?ms ! 1)" "\<not> is_stuck (?ms ! 0)"
    by (simp_all add: is_stuck_def createLoadingAssistantMessage_def createUserMessage_def)
  moreover have "\<forall>j. 1 < j \<and> j < length ?ms \<longrightarrow> \<not> is_stuck (?ms ! j)" by auto
  ultimately show ?thesis using sanitize_repairs_last [of 1 ?ms] by (simp add: sanitize_not_stuck)
qed

subsection \<open>What is sent\<close>

text \<open>
  The request carries the conversation and only what may be sent: the messages are the valid ones
  in order, after the system prompt if it is not blank; no failed or empty reply of the
  assistant is among them; and the parameters are exactly the enabled ones that have a value.
\<close>

theorem payload_exact:
  "req_messages (buildChatCompletionPayload ms config en) =
     (if trim (opt_text (cfg_systemPrompt config)) \<noteq> []
      then [\<lparr>api_role = RoleSystem, api_content = PlainText (opt_text (cfg_systemPrompt config))\<rparr>] else []) @
     map formatMessageForAPI (filter isValidMessage ms) \<and>
   filter isValidMessage ms =
     filter (\<lambda>m. msg_versions m \<noteq> [] \<and> \<not> (msg_from m = RoleAssistant \<and>
       (msg_status m = Some StError \<or> trim (version_content (getCurrentVersion m)) = []))) ms \<and>
   (\<forall>k v. (k, v) \<in> set (req_params (buildChatCompletionPayload ms config en)) \<longleftrightarrow>
      k \<in> set parameterKeys \<and> en k \<and> v = cfg_params config k \<and> \<not> is_nullish v) \<and>
   req_includeUsage (buildChatCompletionPayload ms config en) = req_stream (buildChatCompletionPayload ms config en)"
proof -
  have "isValidMessage m \<longleftrightarrow> msg_versions m \<noteq> [] \<and> \<not> (msg_from m = RoleAssistant \<and>
       (msg_status m = Some StError \<or> trim (version_content (getCurrentVersion m)) = []))" for m
    by (cases "msg_versions m") (auto simp: isValidMessage_def getCurrentVersion_def)
  then have "filter isValidMessage ms =
     filter (\<lambda>m. msg_versions m \<noteq> [] \<and> \<not> (msg_from m = RoleAssistant \<and>
       (msg_status m = Some StError \<or> trim (version_content (getCurrentVersion m)) = []))) ms"
    by (intro filter_cong) auto
  then show ?thesis by (auto simp: buildChatCompletionPayload_def Let_def)
qed

end
