(* ===== verification/PlaygroundStream.thy ===== *)
theory PlaygroundStream
  imports Playground
begin

section \<open>Playground: the event stream of a reply\<close>

text \<open>
  \<open>sendStreamRequest\<close> of \<open>features/playground/hooks/use-stream-request.ts\<close>: the answer of \<open>fetch\<close>, the
  framing of the event stream, the interpretation of the events and the callbacks. What the network
  delivers (the answer, the decoded text of every read, a failure) and whether the request is aborted
  when the code resumes from an \<open>await\<close> are inputs; the output is the sequence of callbacks.
\<close>

subsection \<open>Callbacks and errors\<close>

definition API_REQUEST_ERROR :: jsstr where
  "API_REQUEST_ERROR = js ''Request error occurred''"

definition NETWORK_ERROR :: jsstr where
  "NETWORK_ERROR = js ''Network connection failed or server not responding''"

definition CONNECTION_CLOSED :: jsstr where
  "CONNECTION_CLOSED = js ''Connection closed''"

definition INTERRUPTED :: jsstr where
  "INTERRUPTED = js ''Generation was interrupted''"

text \<open>What is thrown: an \<open>Error\<close> with a message of the code, an error of the runtime (whose message is
  the runtime's), or a value that is no \<open>Error\<close>.\<close>

datatype thrown = ErrorText jsstr | SyntaxErr | TypeErr | NoError

datatype stream_call =
    CallReasoning jsval
  | CallContent jsval
  | CallMetadata "(jsstr \<times> jsval) list"
  | CallAuthReset
  | CallComplete
  | CallError thrown jsval

fun is_final :: "stream_call \<Rightarrow> bool" where
  "is_final CallComplete = True"
| "is_final (CallError _ _) = True"
| "is_final _ = False"

definition catch_error :: "bool \<Rightarrow> thrown \<Rightarrow> stream_call list" where
  "catch_error aborted e =
     (if aborted then [] else [CallError (case e of NoError \<Rightarrow> ErrorText NETWORK_ERROR | _ \<Rightarrow> e) JUndef])"

subsection \<open>Framing\<close>

text \<open>\<open>/\r?\n/\<close> at the start of a text: the rest behind the match.\<close>

fun match_newline :: "jsstr \<Rightarrow> jsstr option" where
  "match_newline (c # s) =
     (if c = 10 then Some s
      else if c = 13 then (case s of d # r \<Rightarrow> if d = 10 then Some r else None | [] \<Rightarrow> None)
      else None)"
| "match_newline [] = None"

text \<open>\<open>/\r?\n\r?\n/\<close> at the start of a text.\<close>

definition match_boundary :: "jsstr \<Rightarrow> jsstr option" where
  "match_boundary s = (case match_newline s of Some r \<Rightarrow> match_newline r | None \<Rightarrow> None)"

text \<open>\<open>buffer.match\<close>: the text before the first boundary and the text behind it.\<close>

fun split_event :: "jsstr \<Rightarrow> (jsstr \<times> jsstr) option" where
  "split_event [] = None"
| "split_event (c # s) =
     (case match_boundary (c # s) of
        Some r \<Rightarrow> Some ([], r)
      | None \<Rightarrow> map_option (\<lambda>(e, r). (c # e, r)) (split_event s))"

text \<open>\<open>event.split(/\r?\n/)\<close>.\<close>

lemma match_newline_shorter: "match_newline s = Some r \<Longrightarrow> length r < length s"
  by (cases s) (auto split: if_splits list.splits)

function split_lines :: "jsstr \<Rightarrow> jsstr list" where
  "split_lines s =
     (case match_newline s of
        Some r \<Rightarrow> [] # split_lines r
      | None \<Rightarrow> (case s of
          [] \<Rightarrow> [[]]
        | c # t \<Rightarrow> (case split_lines t of l # ls \<Rightarrow> (c # l) # ls | [] \<Rightarrow> [[c]])))"
  by pat_completeness auto
termination
  by (relation "measure length") (auto dest: match_newline_shorter)

declare split_lines.simps [simp del]

definition event_data :: "jsstr \<Rightarrow> jsstr" where
  "event_data event =
     js_join [10] (map (\<lambda>line. trim_start (drop 5 line))
       (filter (\<lambda>line. starts_with line (js ''data:'')) (split_lines event)))"

subsection \<open>One event\<close>

record stream_flags =
  finished :: bool
  terminalChunk :: bool

definition done_mark :: jsstr where
  "done_mark = js ''[DONE]''"

text \<open>\<open>choices?.some((choice) => choice.finish_reason)\<close>: reading a property of \<open>null\<close> throws, and so does
  a \<open>choices\<close> that is no array.\<close>

fun any_finish :: "jsval list \<Rightarrow> thrown + bool" where
  "any_finish [] = Inr False"
| "any_finish (c # cs) =
     (if is_nullish c then Inl TypeErr
      else if truthy (obj_get c (js ''finish_reason'')) then Inr True else any_finish cs)"

definition choices_finish :: "jsval \<Rightarrow> thrown + bool" where
  "choices_finish v =
     (if is_nullish v then Inr False else case v of JArr cs \<Rightarrow> any_finish cs | _ \<Rightarrow> Inl TypeErr)"

definition first_choice :: "jsval \<Rightarrow> jsval" where
  "first_choice v = (case v of JArr (c # _) \<Rightarrow> c | JObj _ \<Rightarrow> obj_get v (js ''0'') | _ \<Rightarrow> JUndef)"

definition chunk_metadata :: "jsval \<Rightarrow> (jsstr \<times> jsval) list" where
  "chunk_metadata chunk =
     (let field = (\<lambda>name target. let v = obj_get chunk (js name) in if truthy v then [(js target, v)] else [])
      in field ''id'' ''requestId'' @ field ''model'' ''model'' @ field ''usage'' ''usage'')"

definition delta_calls :: "jsval \<Rightarrow> stream_call list" where
  "delta_calls delta =
     (let reasoning = opt_get delta ''reasoning_content''; content = opt_get delta ''content'';
          tools = opt_get delta ''tool_calls''
      in (if truthy reasoning then [CallReasoning reasoning] else []) @
         (if truthy content then [CallContent content] else []) @
         (if truthy tools then [CallMetadata [(js ''toolCalls'', tools)]] else []))"

definition process_chunk :: "jsval \<Rightarrow> stream_flags \<Rightarrow> stream_call list \<times> (thrown + stream_flags)" where
  "process_chunk chunk flags =
     (if is_nullish chunk then ([], Inl TypeErr)
      else let err = obj_get chunk (js ''error'') in
        if truthy err
        then ([], Inl (ErrorText (let m = obj_get err (js ''message'') in
               if truthy m then to_str m else API_REQUEST_ERROR)))
        else let meta = chunk_metadata chunk;
                 metaCalls = (if meta \<noteq> [] then [CallMetadata meta] else []);
                 usage = obj_get chunk (js ''usage'');
                 choices = obj_get chunk (js ''choices'')
          in (case (if truthy usage then Inr True else choices_finish choices) of
                Inl e \<Rightarrow> (metaCalls, Inl e)
              | Inr terminal \<Rightarrow>
                  (metaCalls @ delta_calls (opt_get (first_choice choices) ''delta''),
                   Inr (if terminal then flags\<lparr>terminalChunk := True\<rparr> else flags))))"

definition process_event :: "jsstr \<Rightarrow> stream_flags \<Rightarrow> stream_call list \<times> (thrown + stream_flags)" where
  "process_event event flags =
     (let data = event_data event
      in if data = [] then ([], Inr flags)
         else if data = done_mark then ([], Inr (flags\<lparr>finished := True\<rparr>))
         else case json_parse data of
           None \<Rightarrow> ([], Inl SyntaxErr)
         | Some chunk \<Rightarrow> process_chunk chunk flags)"

subsection \<open>The read loop\<close>

lemma split_event_shorter: "split_event s = Some (e, r) \<Longrightarrow> length r < length s"
proof (induction s arbitrary: e)
  case (Cons c s)
  show ?case
  proof (cases "match_boundary (c # s)")
    case None
    with Cons show ?thesis by fastforce
  next
    case (Some q)
    then obtain p where "match_newline (c # s) = Some p" "match_newline p = Some q"
      by (auto simp: match_boundary_def split: option.splits)
    then have "length p < length (c # s)" "length q < length p" by (blast intro: match_newline_shorter)+
    with Some Cons.prems show ?thesis by auto
  qed
qed simp

text \<open>The inner loop: every complete event of the buffer, then the rest that stays in it.\<close>

function drain :: "jsstr \<Rightarrow> stream_flags \<Rightarrow> stream_call list \<times> (thrown + jsstr \<times> stream_flags)" where
  "drain buffer flags =
     (case split_event buffer of
        None \<Rightarrow> ([], Inr (buffer, flags))
      | Some (event, rest) \<Rightarrow>
        (case process_event event flags of
           (calls, Inl e) \<Rightarrow> (calls, Inl e)
         | (calls, Inr flags') \<Rightarrow> (case drain rest flags' of (later, res) \<Rightarrow> (calls @ later, res))))"
  by pat_completeness auto
termination
  by (relation "measure (\<lambda>(b, _). length b)") (auto dest: split_event_shorter)

declare drain.simps [simp del]

text \<open>A read: its decoded text and whether the stream is done, or a failure; and whether the request
  is aborted by then.\<close>

record stream_read =
  rd_result :: "thrown + jsstr \<times> bool"
  rd_aborted :: bool

text \<open>How the loop ends; \<open>LoopWaiting\<close>: the reads given so far do not end it.\<close>

datatype loop_end = LoopWaiting | LoopAborted | LoopThrown thrown bool | LoopDone

definition finish_read :: "jsstr \<Rightarrow> stream_flags \<Rightarrow> stream_call list \<times> loop_end" where
  "finish_read buffer flags =
     (case (if trim buffer \<noteq> [] then process_event buffer flags else ([], Inr flags)) of
        (calls, Inl e) \<Rightarrow> (calls, LoopThrown e False)
      | (calls, Inr flags') \<Rightarrow>
          (calls, if \<not> finished flags' \<and> \<not> terminalChunk flags' then LoopThrown (ErrorText INTERRUPTED) False
                  else LoopDone))"

fun read_loop :: "stream_read list \<Rightarrow> jsstr \<Rightarrow> stream_flags \<Rightarrow> stream_call list \<times> loop_end" where
  "read_loop [] buffer flags = ([], if finished flags then LoopDone else LoopWaiting)"
| "read_loop (r # rs) buffer flags =
     (if finished flags then ([], LoopDone)
      else case rd_result r of
        Inl e \<Rightarrow> ([], LoopThrown e (rd_aborted r))
      | Inr (txt, is_done) \<Rightarrow>
        if rd_aborted r then ([], LoopAborted)
        else (case drain (buffer @ txt) flags of
          (calls, Inl e) \<Rightarrow> (calls, LoopThrown e False)
        | (calls, Inr (buffer', flags')) \<Rightarrow>
          (case (if is_done then finish_read buffer' flags' else read_loop rs buffer' flags') of
             (later, res) \<Rightarrow> (calls @ later, res))))"

subsection \<open>The request\<close>

record http_reply =
  reply_ok :: bool
  reply_status :: int
  reply_text :: "thrown + jsstr"
  reply_requestId :: "jsstr option"
  reply_hasBody :: bool

text \<open>Everything one request meets; \<open>fetch_aborted\<close> is the abort flag when the answer (or its text) is
  there, \<open>end_aborted\<close> after the reader was cancelled.\<close>

record stream_env =
  fetch_result :: "thrown + http_reply"
  fetch_aborted :: bool
  reads :: "stream_read list"
  cancel_throws :: "thrown option"
  end_aborted :: bool

definition error_reply :: "int \<Rightarrow> jsstr \<Rightarrow> stream_call" where
  "error_reply status body =
     (let fallback = js ''HTTP '' @ int_str status;
          plain_text = (if body \<noteq> [] then body else fallback)
      in case json_parse body of
           None \<Rightarrow> CallError (ErrorText plain_text) JUndef
         | Some data \<Rightarrow>
           if is_nullish data then CallError (ErrorText plain_text) JUndef
           else let err = obj_get data (js ''error'');
                    inner = opt_get err ''message''; outer = obj_get data (js ''message'')
             in CallError (ErrorText (if truthy inner then to_str inner
                  else if truthy outer then to_str outer else fallback)) (opt_get err ''code''))"

definition no_flags :: stream_flags where
  "no_flags = \<lparr>finished = False, terminalChunk = False\<rparr>"

text \<open>The callbacks of a request and whether it has returned.\<close>

definition send_stream_request :: "bool \<Rightarrow> stream_env \<Rightarrow> stream_call list \<times> bool" where
  "send_stream_request hasKey env =
     (case fetch_result env of
        Inl e \<Rightarrow> (catch_error (fetch_aborted env) e, True)
      | Inr reply \<Rightarrow>
        if \<not> reply_ok reply then
          (let reset = (if reply_status reply = 401 \<and> \<not> hasKey then [CallAuthReset] else [])
           in case reply_text reply of
                Inl e \<Rightarrow> (reset @ catch_error (fetch_aborted env) e, True)
              | Inr body \<Rightarrow>
                  (reset @ (if fetch_aborted env then [] else [error_reply (reply_status reply) body]), True))
        else
          (let meta = (case reply_requestId reply of
                 Some r \<Rightarrow> if r \<noteq> [] then [CallMetadata [(js ''requestId'', JStr r)]] else [] | None \<Rightarrow> [])
           in if \<not> reply_hasBody reply
              then (meta @ catch_error (fetch_aborted env) (ErrorText CONNECTION_CLOSED), True)
              else case read_loop (reads env) [] no_flags of (calls, res) \<Rightarrow>
                (case res of
                   LoopWaiting \<Rightarrow> (meta @ calls, False)
                 | LoopAborted \<Rightarrow> (meta @ calls, True)
                 | LoopThrown e aborted \<Rightarrow> (meta @ calls @ catch_error aborted e, True)
                 | LoopDone \<Rightarrow>
                   (case cancel_throws env of
                      Some e \<Rightarrow> (meta @ calls @ catch_error (end_aborted env) e, True)
                    | None \<Rightarrow> (meta @ calls @ (if end_aborted env then [] else [CallComplete]), True)))))"

subsection \<open>Framing does not depend on the reads\<close>

lemma match_newline_append: "match_newline s = Some r \<Longrightarrow> match_newline (s @ t) = Some (r @ t)"
  by (cases s) (auto split: if_splits list.splits)

lemma match_boundary_append: "match_boundary s = Some r \<Longrightarrow> match_boundary (s @ t) = Some (r @ t)"
  by (cases "match_newline s") (simp_all add: match_boundary_def match_newline_append)

text \<open>A boundary that needs text behind \<open>s\<close> starts in a text that is nearly over.\<close>

lemma boundary_needs_more:
  assumes "match_boundary s = None" and "match_boundary (s @ t) \<noteq> None" and "s = c # u"
  shows "split_event u = None"
proof (cases u)
  case (Cons d v)
  show ?thesis
  proof (cases v)
    case Nil
    with assms Cons show ?thesis
      by (auto simp: match_boundary_def split: if_splits option.splits list.splits)
  next
    case (Cons e w)
    with assms \<open>u = d # v\<close> show ?thesis
      by (cases w) (auto simp: match_boundary_def split: if_splits option.splits list.splits)
  qed
qed simp

lemma split_event_append: "split_event s = Some (e, r) \<Longrightarrow> split_event (s @ t) = Some (e, r @ t)"
proof (induction s arbitrary: e)
  case (Cons c s)
  show ?case
  proof (cases "match_boundary (c # s)")
    case None
    then obtain e' where e': "split_event s = Some (e', r)" "e = c # e'" using Cons.prems by auto
    then have "match_boundary ((c # s) @ t) = None" using boundary_needs_more [OF None _ refl] by fastforce
    then show ?thesis using Cons.IH e' by simp
  next
    case (Some q)
    with Cons.prems match_boundary_append [OF Some, of t] show ?thesis by simp
  qed
qed simp

text \<open>All complete events of a text and the rest behind them.\<close>

function frames :: "jsstr \<Rightarrow> jsstr list \<times> jsstr" where
  "frames s =
     (case split_event s of
        None \<Rightarrow> ([], s)
      | Some (e, r) \<Rightarrow> (case frames r of (es, q) \<Rightarrow> (e # es, q)))"
  by pat_completeness auto
termination
  by (relation "measure length") (auto dest: split_event_shorter)

declare frames.simps [simp del]

lemma frames_append:
  "frames s = (es, r) \<Longrightarrow> frames (r @ t) = (es', r') \<Longrightarrow> frames (s @ t) = (es @ es', r')"
proof (induction s arbitrary: es rule: frames.induct)
  case (1 s)
  show ?case
  proof (cases "split_event s")
    case None
    with "1.prems" show ?thesis by (simp add: frames.simps [of s])
  next
    case (Some p)
    then obtain e q where q: "split_event s = Some (e, q)" by (cases p) auto
    with "1.prems"(1) obtain es1 where es1: "frames q = (es1, r)" "es = e # es1"
      by (auto simp: frames.simps [of s] split: prod.splits)
    from "1.IH" [OF q refl es1(1) "1.prems"(2)] have "frames (q @ t) = (es1 @ es', r')" .
    then show ?thesis by (simp add: frames.simps [of "s @ t"] split_event_append [OF q] es1(2))
  qed
qed

text \<open>The events in sequence, until one throws.\<close>

fun process_all :: "jsstr list \<Rightarrow> stream_flags \<Rightarrow> stream_call list \<times> (thrown + stream_flags)" where
  "process_all [] flags = ([], Inr flags)"
| "process_all (e # es) flags =
     (case process_event e flags of
        (calls, Inl err) \<Rightarrow> (calls, Inl err)
      | (calls, Inr flags') \<Rightarrow> (case process_all es flags' of (later, res) \<Rightarrow> (calls @ later, res)))"

lemma process_all_append:
  "process_all (es @ fs) flags =
     (case process_all es flags of
        (calls, Inl err) \<Rightarrow> (calls, Inl err)
      | (calls, Inr flags') \<Rightarrow> (case process_all fs flags' of (later, res) \<Rightarrow> (calls @ later, res)))"
  by (induction es arbitrary: flags) (auto split: prod.splits sum.splits)

lemma drain_frames:
  "drain s flags =
     (case process_all (fst (frames s)) flags of
        (calls, Inl err) \<Rightarrow> (calls, Inl err)
      | (calls, Inr flags') \<Rightarrow> (calls, Inr (snd (frames s), flags')))"
proof (induction s flags rule: drain.induct)
  case (1 s flags)
  show ?case
  proof (cases "split_event s")
    case None
    then show ?thesis by (simp add: drain.simps [of s] frames.simps [of s])
  next
    case (Some p)
    then obtain e q where q: "split_event s = Some (e, q)" by (cases p) auto
    obtain calls res where pe: "process_event e flags = (calls, res)" by fastforce
    show ?thesis
    proof (cases res)
      case (Inl err)
      then show ?thesis using q pe
        by (simp add: drain.simps [of s] frames.simps [of s] split: prod.splits)
    next
      case (Inr flags')
      from "1.IH" [OF q refl pe [symmetric] Inr] show ?thesis using q pe Inr
        by (simp add: drain.simps [of s] frames.simps [of s] split: prod.splits sum.splits)
    qed
  qed
qed

text \<open>Behind \<open>[DONE]\<close> come only blank lines and comments.\<close>

fun quiet_after_done :: "jsstr list \<Rightarrow> jsstr \<Rightarrow> bool" where
  "quiet_after_done [] rest = True"
| "quiet_after_done (e # es) rest =
     (if event_data e = done_mark then list_all (\<lambda>x. event_data x = []) (es @ [rest])
      else quiet_after_done es rest)"

lemma quiet_split:
  "quiet_after_done (es @ fs) rest \<Longrightarrow>
     if \<exists>e \<in> set es. event_data e = done_mark then list_all (\<lambda>x. event_data x = []) (fs @ [rest])
     else quiet_after_done fs rest"
  by (induction es) (auto split: if_splits)

lemma process_chunk_finished: "process_chunk chunk flags = (calls, Inr flags') \<Longrightarrow> finished flags' = finished flags"
  by (auto simp: process_chunk_def Let_def split: if_splits sum.splits)

lemma process_event_finished:
  "process_event e flags = (calls, Inr flags') \<Longrightarrow> finished flags' \<longleftrightarrow> finished flags \<or> event_data e = done_mark"
  by (auto simp: process_event_def Let_def done_mark_def js_lit dest: process_chunk_finished split: if_splits option.splits)

lemma process_all_finished:
  "process_all es flags = (calls, Inr flags') \<Longrightarrow>
   finished flags' \<longleftrightarrow> finished flags \<or> (\<exists>e \<in> set es. event_data e = done_mark)"
  by (induction es arbitrary: flags calls)
     (auto dest!: process_event_finished split: prod.splits sum.splits)

lemma process_all_quiet: "list_all (\<lambda>x. event_data x = []) es \<Longrightarrow> process_all es flags = ([], Inr flags)"
  by (induction es) (auto simp: process_event_def)

text \<open>The stream read at once.\<close>

definition whole_stream :: "jsstr \<Rightarrow> stream_flags \<Rightarrow> stream_call list \<times> loop_end" where
  "whole_stream txt flags =
     (case process_all (fst (frames txt)) flags of
        (calls, Inl e) \<Rightarrow> (calls, LoopThrown e False)
      | (calls, Inr flags') \<Rightarrow>
          (case finish_read (snd (frames txt)) flags' of (later, res) \<Rightarrow> (calls @ later, res)))"

definition text_reads :: "jsstr list \<Rightarrow> jsstr \<Rightarrow> stream_read list" where
  "text_reads txts final =
     map (\<lambda>t. \<lparr>rd_result = Inr (t, False), rd_aborted = False\<rparr>) txts @
     [\<lparr>rd_result = Inr (final, True), rd_aborted = False\<rparr>]"

lemma read_loop_whole:
  assumes "\<not> finished flags"
    and "quiet_after_done (fst (frames (buffer @ concat txts @ final))) (snd (frames (buffer @ concat txts @ final)))"
  shows "read_loop (text_reads txts final) buffer flags = whole_stream (buffer @ concat txts @ final) flags"
  using assms
proof (induction txts arbitrary: buffer flags)
  case Nil
  then show ?case
    by (auto simp: text_reads_def whole_stream_def drain_frames split: prod.splits sum.splits)
next
  case (Cons t txts)
  obtain es1 b1 where f1: "frames (buffer @ t) = (es1, b1)" by fastforce
  obtain es2 rest where f2: "frames (b1 @ concat txts @ final) = (es2, rest)" by fastforce
  from frames_append [OF f1 f2]
  have whole: "frames (buffer @ t @ concat txts @ final) = (es1 @ es2, rest)" by simp
  then have quiet: "quiet_after_done (es1 @ es2) rest" using Cons.prems(2) by simp
  have reads: "text_reads (t # txts) final = \<lparr>rd_result = Inr (t, False), rd_aborted = False\<rparr> # text_reads txts final"
    by (simp add: text_reads_def)
  obtain calls res where pa: "process_all es1 flags = (calls, res)" by fastforce
  show ?case
  proof (cases res)
    case (Inl e)
    then show ?thesis using Cons.prems(1) pa f1
      by (simp add: reads whole_stream_def whole drain_frames process_all_append)
  next
    case (Inr flags')
    note fin = process_all_finished [OF pa [unfolded Inr]]
    show ?thesis
    proof (cases "finished flags'")
      case True
      then have "list_all (\<lambda>x. event_data x = []) (es2 @ [rest])"
        using quiet_split [OF quiet] fin Cons.prems(1) by auto
      then have "process_all es2 flags' = ([], Inr flags')" "finish_read rest flags' = ([], LoopDone)"
        using True by (simp_all add: process_all_quiet finish_read_def process_event_def)
      moreover have "read_loop (text_reads txts final) b1 flags' = ([], LoopDone)"
        using True by (cases "text_reads txts final") auto
      ultimately show ?thesis using Cons.prems(1) pa f1 Inr
        by (simp add: reads whole_stream_def whole drain_frames process_all_append)
    next
      case False
      then have "quiet_after_done es2 rest"
        using quiet_split [OF quiet] fin by (auto split: if_splits)
      then have "read_loop (text_reads txts final) b1 flags' = whole_stream (b1 @ concat txts @ final) flags'"
        using False f2 by (intro Cons.IH) simp_all
      then show ?thesis using Cons.prems(1) pa f1 f2 Inr
        by (auto simp: reads whole_stream_def whole drain_frames process_all_append split: prod.splits sum.splits)
    qed
  qed
qed

text \<open>
  C19. How the network cuts the event stream into reads does not matter: for every division of a text
  into reads the callbacks and the way the loop ends are those of reading the text at once, also
  when an event or a line break is cut in two; provided nothing but blank lines and comments
  follows \<open>[DONE]\<close>.
\<close>

theorem stream_chunking_irrelevant:
  assumes "quiet_after_done (fst (frames (concat txts @ final))) (snd (frames (concat txts @ final)))"
  shows "read_loop (text_reads txts final) [] no_flags = read_loop (text_reads [] (concat txts @ final)) [] no_flags"
proof -
  have "read_loop (text_reads txts final) [] no_flags = whole_stream (concat txts @ final) no_flags"
    using read_loop_whole [of no_flags "[]" txts final] assms by (simp add: no_flags_def)
  moreover have "read_loop (text_reads [] (concat txts @ final)) [] no_flags = whole_stream (concat txts @ final) no_flags"
    using read_loop_whole [of no_flags "[]" "[]" "concat txts @ final"] assms by (simp add: no_flags_def)
  ultimately show ?thesis by simp
qed

definition demo_content :: jsstr where
  "demo_content = js ''data: {\"choices\":[{\"delta\":{\"content\":\"hi\"}}]}'' @ [13, 10, 13, 10]"

definition demo_done :: jsstr where
  "demo_done = js ''data: [DONE]'' @ [10, 10]"

theorem stream_chunking_irrelevant_witness:
  "read_loop (text_reads [take 20 demo_content, drop 20 demo_content] demo_done) [] no_flags =
   ([CallContent (JStr (js ''hi''))], LoopDone)"
proof -
  let ?txts = "[take 20 demo_content, drop 20 demo_content]"
  have "quiet_after_done (fst (frames (concat ?txts @ demo_done))) (snd (frames (concat ?txts @ demo_done)))"
    by code_simp
  from stream_chunking_irrelevant [OF this]
  have "read_loop (text_reads ?txts demo_done) [] no_flags =
      read_loop (text_reads [] (concat ?txts @ demo_done)) [] no_flags" .
  also have "\<dots> = ([CallContent (JStr (js ''hi''))], LoopDone)" by code_simp
  finally show ?thesis .
qed

text \<open>Without the condition the reads do matter: content behind \<open>[DONE]\<close> is shown when it arrives in the
  same read and dropped when it arrives in the next.\<close>

lemma content_behind_done:
  "read_loop (text_reads [] (demo_done @ demo_content)) [] no_flags = ([CallContent (JStr (js ''hi''))], LoopDone)"
  "read_loop (text_reads [demo_done] demo_content) [] no_flags = ([], LoopDone)"
  by code_simp+

subsection \<open>Outcome of a request\<close>

abbreviation no_final :: "stream_call list \<Rightarrow> bool" where
  "no_final calls \<equiv> list_all (\<lambda>c. \<not> is_final c) calls"

lemma process_event_no_final: "no_final (fst (process_event e flags))"
  by (auto simp: process_event_def process_chunk_def delta_calls_def Let_def split: option.splits sum.splits)

lemma process_all_no_final: "no_final (fst (process_all es flags))"
proof (induction es arbitrary: flags)
  case (Cons e es)
  then show ?case using process_event_no_final [of e flags]
    by (auto split: prod.splits sum.splits) (metis Cons fst_conv)
qed simp

lemma drain_no_final: "no_final (fst (drain s flags))"
  using process_all_no_final [of "fst (frames s)" flags] by (auto simp: drain_frames split: prod.splits sum.splits)

lemma finish_read_no_final: "no_final (fst (finish_read s flags))"
  using process_event_no_final [of s flags] by (auto simp: finish_read_def split: prod.splits sum.splits if_splits)

lemma finish_read_ends: "snd (finish_read s flags) \<noteq> LoopWaiting" "snd (finish_read s flags) \<noteq> LoopAborted"
    "snd (finish_read s flags) \<noteq> LoopThrown e True"
  by (auto simp: finish_read_def split: prod.splits sum.splits if_splits)

lemma read_loop_no_final: "no_final (fst (read_loop rs buffer flags))"
proof (induction rs buffer flags rule: read_loop.induct)
  case (2 r rs buffer flags)
  show ?case
  proof (cases "finished flags \<or> rd_aborted r \<or> (\<exists>e. rd_result r = Inl e)")
    case False
    then obtain tx d where r: "rd_result r = Inr (tx, d)" by (cases "rd_result r") auto
    obtain calls res where dr: "drain (buffer @ tx) flags = (calls, res)" by fastforce
    then have "no_final calls" using drain_no_final [of "buffer @ tx" flags] by simp
    with False r dr 2 finish_read_no_final show ?thesis
      by (auto split: sum.splits prod.splits) (metis fst_conv)+
  qed (auto split: sum.splits prod.splits)
qed simp

text \<open>A read that ends the loop: the stream is done, or reading fails.\<close>

definition ends_stream :: "stream_read \<Rightarrow> bool" where
  "ends_stream r \<longleftrightarrow> (case rd_result r of Inl _ \<Rightarrow> True | Inr (_, d) \<Rightarrow> d)"

lemma read_loop_ends: "r \<in> set rs \<Longrightarrow> ends_stream r \<Longrightarrow> snd (read_loop rs buffer flags) \<noteq> LoopWaiting"
proof (induction rs buffer flags rule: read_loop.induct)
  case (2 q rs buffer flags)
  show ?case
  proof (cases "finished flags \<or> rd_aborted q \<or> (\<exists>e. rd_result q = Inl e)")
    case False
    then obtain tx d where q: "rd_result q = Inr (tx, d)" by (cases "rd_result q") auto
    obtain calls res where dr: "drain (buffer @ tx) flags = (calls, res)" by fastforce
    have "d \<or> r \<in> set rs" using "2.prems" q by (auto simp: ends_stream_def)
    then show ?thesis using False q dr "2.IH" [OF _ q refl _ dr [symmetric]] "2.prems"(2)
        finish_read_ends(1)
      by (cases d) (auto split: sum.splits prod.splits dest: arg_cong [where f = snd])
  qed (auto split: sum.splits prod.splits)
qed simp

text \<open>No abort is seen at any point of the request; and: every abort flag is set.\<close>

definition never_aborted :: "stream_env \<Rightarrow> bool" where
  "never_aborted env \<longleftrightarrow>
     \<not> fetch_aborted env \<and> list_all (\<lambda>r. \<not> rd_aborted r) (reads env) \<and> \<not> end_aborted env"

definition aborted_before :: "stream_env \<Rightarrow> bool" where
  "aborted_before env \<longleftrightarrow> fetch_aborted env \<and> list_all rd_aborted (reads env) \<and> end_aborted env"

lemma read_loop_unaborted:
  "list_all (\<lambda>r. \<not> rd_aborted r) rs \<Longrightarrow> read_loop rs buffer flags = (calls, res) \<Longrightarrow>
   res \<noteq> LoopAborted \<and> (\<forall>e. res \<noteq> LoopThrown e True)"
proof (induction rs buffer flags arbitrary: calls res rule: read_loop.induct)
  case (2 q rs buffer flags)
  show ?case
  proof (cases "finished flags \<or> (\<exists>e. rd_result q = Inl e)")
    case False
    then obtain tx d where q: "rd_result q = Inr (tx, d)" by (cases "rd_result q") auto
    obtain cs r where dr: "drain (buffer @ tx) flags = (cs, r)" by fastforce
    show ?thesis
    proof (cases r)
      case (Inr p)
      obtain later e where rest:
        "(if d then finish_read (fst p) (snd p) else read_loop rs (fst p) (snd p)) = (later, e)" by fastforce
      then have "res = e" using 2 False q dr Inr by (auto split: prod.splits if_splits)
      moreover have "e \<noteq> LoopAborted \<and> (\<forall>x. e \<noteq> LoopThrown x True)"
        using rest "2.IH" [OF _ q refl _ dr [symmetric] Inr, of "fst p" "snd p" later e] "2.prems"(1) False
          finish_read_ends(2,3) [of "fst p" "snd p"]
        by (cases d) auto
      ultimately show ?thesis by simp
    qed (use 2 False q dr in auto)
  qed (use 2 in \<open>auto split: sum.splits prod.splits if_splits\<close>)
qed (auto split: if_splits)

text \<open>
  Every request reports its outcome exactly once: a request whose stream ends (or whose reads
  fail) returns, and unless it was aborted its last callback, and no earlier one, is completion or
  an error; an aborted request reports neither and delivers no text.
\<close>

theorem stream_reports_once:
  assumes "send_stream_request hasKey env = (calls, returned)"
  shows "((\<exists>r \<in> set (reads env). ends_stream r) \<longrightarrow> returned) \<and>
     (returned \<and> never_aborted env \<longrightarrow> calls \<noteq> [] \<and> is_final (last calls)) \<and>
     no_final (butlast calls) \<and> (\<not> returned \<longrightarrow> no_final calls) \<and>
     (aborted_before env \<and> cancel_throws env = None \<and> reads env \<noteq> [] \<longrightarrow>
        list_all (\<lambda>c. c = CallAuthReset \<or> (\<exists>m. c = CallMetadata m)) calls)"
proof -
  obtain lcalls res where rl: "read_loop (reads env) [] no_flags = (lcalls, res)" by fastforce
  have nf: "no_final lcalls" using read_loop_no_final [of "reads env" "[]" no_flags] rl by simp
  have waits: "res \<noteq> LoopWaiting" if "r \<in> set (reads env)" "ends_stream r" for r
    using read_loop_ends [OF that, of "[]" no_flags] rl by simp
  have free: "never_aborted env \<Longrightarrow> res \<noteq> LoopAborted \<and> (\<forall>e. res \<noteq> LoopThrown e True)"
    using read_loop_unaborted [OF _ rl] by (simp add: never_aborted_def)
  have cut: "lcalls = [] \<and> (res = LoopAborted \<or> (\<exists>e. res = LoopThrown e True))"
    if "aborted_before env" "reads env \<noteq> []"
    using that rl by (cases "reads env") (auto simp: aborted_before_def no_flags_def split: sum.splits prod.splits)
  have bl: "no_final xs \<Longrightarrow> no_final (butlast xs)" for xs by (auto simp: list_all_iff dest: in_set_butlastD)
  note env_defs = catch_error_def never_aborted_def aborted_before_def butlast_append bl
  show ?thesis
  proof (cases "fetch_result env")
    case (Inl e)
    then show ?thesis using assms by (auto simp: send_stream_request_def env_defs)
  next
    case (Inr reply)
    consider "\<not> reply_ok reply" | "reply_ok reply" "\<not> reply_hasBody reply" | "reply_ok reply" "reply_hasBody reply"
      by blast
    then show ?thesis
    proof cases
      case 1
      then show ?thesis using assms Inr
        by (cases "reply_text reply")
           (auto simp: send_stream_request_def env_defs error_reply_def Let_def split: if_splits option.splits)
    next
      case 2
      then show ?thesis using assms Inr
        by (auto simp: send_stream_request_def env_defs Let_def split: if_splits option.splits)
    next
      case 3
      define meta where "meta = (case reply_requestId reply of
          Some r \<Rightarrow> if r \<noteq> [] then [CallMetadata [(js ''requestId'', JStr r)]] else [] | None \<Rightarrow> [])"
      have meta: "no_final meta" "list_all (\<lambda>c. c = CallAuthReset \<or> (\<exists>m. c = CallMetadata m)) meta"
        by (auto simp: meta_def split: option.splits)
      let ?fin = "case res of LoopThrown e aborted \<Rightarrow> catch_error aborted e
        | LoopDone \<Rightarrow> (case cancel_throws env of Some e \<Rightarrow> catch_error (end_aborted env) e
            | None \<Rightarrow> if end_aborted env then [] else [CallComplete]) | _ \<Rightarrow> []"
      have "calls = meta @ lcalls @ ?fin" "returned = (res \<noteq> LoopWaiting)"
        using assms Inr 3 rl
        by (auto simp: send_stream_request_def meta_def [symmetric] split: loop_end.splits option.splits)
      then show ?thesis using nf waits free cut meta
        by (cases res; cases "cancel_throws env") (auto simp: env_defs split: if_splits)
    qed
  qed
qed

definition demo_env :: stream_env where
  "demo_env =
     \<lparr>fetch_result = Inr \<lparr>reply_ok = True, reply_status = 200, reply_text = Inr [], reply_requestId = None,
        reply_hasBody = True\<rparr>,
      fetch_aborted = False, reads = text_reads [demo_content] demo_done, cancel_throws = None,
      end_aborted = False\<rparr>"

theorem stream_reports_once_witness:
  "snd (send_stream_request True demo_env) \<and> is_final (last (fst (send_stream_request True demo_env)))"
proof -
  obtain calls returned where run: "send_stream_request True demo_env = (calls, returned)" by fastforce
  have "\<exists>r \<in> set (reads demo_env). ends_stream r" "never_aborted demo_env"
    by (auto simp: demo_env_def text_reads_def ends_stream_def never_aborted_def)
  with stream_reports_once [OF run] run show ?thesis by auto
qed

end
