(* ===== verification/PlaygroundChat.thy ===== *)
theory PlaygroundChat
  imports PlaygroundStream JsObject
begin

section \<open>Playground: one reply at a time\<close>

text \<open>
  \<open>features/playground/hooks/use-chat-handler.ts\<close>: what the callbacks of a request do to the messages,
  the reply of a request without streaming, the merging of tool calls, and the bookkeeping
  (\<open>busyRef\<close>, \<open>requestGeneration\<close>, the two abort controllers) that keeps requests apart when they are
  started, stopped and finished in any order. Translation of messages (\<open>t\<close>) is an argument; the
  counters and notices of \<open>workshop-feedback.ts\<close> are not modelled.
\<close>

subsection \<open>Tool calls\<close>

text \<open>\<open>xs[i]\<close> of an array, \<open>undefined\<close> beyond its end; \<open>xs[i] = v\<close> extends the array with holes.\<close>

definition arr_at :: "jsval list \<Rightarrow> nat \<Rightarrow> jsval" where
  "arr_at vs i = (if i < length vs then vs ! i else JUndef)"

definition arr_put :: "jsval list \<Rightarrow> nat \<Rightarrow> jsval \<Rightarrow> jsval list" where
  "arr_put vs i v =
     (if i < length vs then vs[i := v] else vs @ replicate (i - length vs) JUndef @ [v])"

definition tool_index :: "jsval \<Rightarrow> nat" where
  "tool_index update = (case obj_get update (js ''index'') of JNum (Fin r) \<Rightarrow> nat \<lfloor>r\<rfloor> | _ \<Rightarrow> 0)"

definition call_text :: "string \<Rightarrow> jsval \<Rightarrow> jsval" where
  "call_text field call = opt_get (opt_get call ''function'') field"

definition arguments_of :: "jsval \<Rightarrow> jsstr" where
  "arguments_of call = (let a = call_text ''arguments'' call in if truthy a then to_str a else [])"

definition copy_call :: "jsval \<Rightarrow> jsval" where
  "copy_call call =
     (if call = JUndef then JUndef
      else JObj (obj_put (props_of call) (js ''function'', JObj (props_of (obj_get call (js ''function''))))))"

definition merge_call :: "jsval list \<Rightarrow> jsval \<Rightarrow> jsval list" where
  "merge_call calls update =
     (let index = tool_index update;
          current = (if truthy (arr_at calls index) then arr_at calls index else JObj []);
          name = (let n = call_text ''name'' update in if truthy n then n else call_text ''name'' current)
      in arr_put calls index (JObj (obj_put (foldl obj_put (props_of current) (props_of update))
           (js ''function'', JObj [(js ''name'', name),
              (js ''arguments'', JStr (arguments_of current @ arguments_of update))]))))"

definition mergeToolCalls :: "jsval list \<Rightarrow> jsval list \<Rightarrow> jsval list" where
  "mergeToolCalls previous updates = foldl merge_call (map copy_call previous) updates"

subsection \<open>Callbacks\<close>

definition as_array :: "jsval \<Rightarrow> jsval list" where
  "as_array v = (case v of JArr vs \<Rightarrow> vs | _ \<Rightarrow> [])"

definition updateMetadata :: "(jsstr \<times> jsval) list \<Rightarrow> message \<Rightarrow> message" where
  "updateMetadata metadata m =
     (let others = foldl obj_put (msg_others m) metadata; tools = obj_get (JObj metadata) (js ''toolCalls'')
      in m\<lparr>msg_others := (if truthy tools
            then obj_put others (js ''toolCalls'',
              JArr (mergeToolCalls (as_array (obj_get (JObj (msg_others m)) (js ''toolCalls''))) (as_array tools)))
            else others)\<rparr>)"

definition on_reasoning :: "jsstr \<Rightarrow> message \<Rightarrow> message" where
  "on_reasoning chunk m =
     m\<lparr>msg_reasoning := Some \<lparr>reasoning_content =
          (case msg_reasoning m of Some r \<Rightarrow> reasoning_content r | None \<Rightarrow> []) @ chunk,
          reasoning_duration = num_int 0\<rparr>,
       msg_isReasoningStreaming := Some True, msg_status := Some StStreaming\<rparr>"

definition on_content :: "jsstr \<Rightarrow> message \<Rightarrow> message" where
  "on_content chunk m = (processStreamingContent m (Some chunk))\<lparr>msg_status := Some StStreaming\<rparr>"

definition on_complete :: "message \<Rightarrow> message" where
  "on_complete m = (finalizeMessage m None)\<lparr>msg_status := Some StComplete\<rparr>"

text \<open>An error code that is no string is kept as its text.\<close>

definition code_text :: "jsval \<Rightarrow> jsstr option" where
  "code_text v = (if is_nullish v then None else Some (to_str v))"

fun apply_call :: "(thrown \<Rightarrow> jsstr) \<Rightarrow> message list \<Rightarrow> stream_call \<Rightarrow> message list" where
  "apply_call t ms (CallReasoning v) = updateLastAssistantMessage ms (on_reasoning (to_str v))"
| "apply_call t ms (CallContent v) = updateLastAssistantMessage ms (on_content (to_str v))"
| "apply_call t ms (CallMetadata metadata) = updateLastAssistantMessage ms (updateMetadata metadata)"
| "apply_call t ms CallAuthReset = ms"
| "apply_call t ms CallComplete = updateLastAssistantMessage ms on_complete"
| "apply_call t ms (CallError e code) = updateAssistantMessageWithError ms (t e) (code_text code)"

text \<open>The branch without streaming: the answer is stored as one version of the message. A choice that
  is missing throws before anything is stored (\<open>PARSE_ERROR\<close>).\<close>

definition PARSE_ERROR :: jsstr where
  "PARSE_ERROR = js ''Error parsing response data''"

definition or_text :: "jsval \<Rightarrow> jsstr" where
  "or_text v = (if truthy v then to_str v else [])"

definition store_response :: "jsval \<Rightarrow> jsval \<Rightarrow> message \<Rightarrow> message" where
  "store_response response choice m =
     (let reply = opt_get choice ''message'';
          v0 = (case msg_versions m of v # _ \<Rightarrow> v | [] \<Rightarrow> \<lparr>version_id = [], version_content = []\<rparr>);
          filled = m\<lparr>msg_versions := [v0\<lparr>version_content := or_text (opt_get reply ''content'')\<rparr>]\<rparr>;
          final = finalizeMessage filled (code_text (opt_get reply ''reasoning_content''));
          model = obj_get response (js ''model'')
      in final\<lparr>msg_status := Some StComplete,
           msg_others := foldl obj_put (msg_others final)
             [(js ''requestId'', obj_get response (js ''id'')),
              (js ''model'', if truthy model then model else obj_get (JObj (msg_others m)) (js ''model'')),
              (js ''usage'', obj_get response (js ''usage'')),
              (js ''toolCalls'', opt_get reply ''tool_calls'')]\<rparr>)"

definition on_response :: "(thrown \<Rightarrow> jsstr) \<Rightarrow> message list \<Rightarrow> jsval \<Rightarrow> message list" where
  "on_response t ms response =
     (if is_nullish response then updateAssistantMessageWithError ms (t TypeErr) None
      else let choice = first_choice (obj_get response (js ''choices'')) in
        if \<not> truthy choice then updateAssistantMessageWithError ms (t (ErrorText PARSE_ERROR)) None
        else updateLastAssistantMessage ms (store_response response choice))"

text \<open>What was thrown by the call without streaming, seen as an object: its message and the answer of
  the server in it. The result is the session reset and the messages.\<close>

definition first_truthy :: "jsval list \<Rightarrow> jsval \<Rightarrow> jsval" where
  "first_truthy vs d = (case filter truthy vs of v # _ \<Rightarrow> v | [] \<Rightarrow> d)"

definition on_failure :: "(thrown \<Rightarrow> jsstr) \<Rightarrow> bool \<Rightarrow> message list \<Rightarrow> jsval \<Rightarrow> bool \<times> message list" where
  "on_failure t hasKey ms failure =
     (let response = opt_get failure ''response''; data = opt_get response ''data''; err = opt_get data ''error''
      in (strict_eq (opt_get response ''status'') (JNum (num_int 401)) \<and> \<not> hasKey,
          updateAssistantMessageWithError ms
            (t (ErrorText (to_str (first_truthy [opt_get err ''message'', opt_get data ''message'',
               opt_get failure ''message''] (JStr API_REQUEST_ERROR)))))
            (code_text (opt_get err ''code''))))"

subsection \<open>Tool calls arrive in pieces\<close>

lemma arr_at_put [simp]: "arr_at (arr_put vs i v) j = (if j = i then v else arr_at vs j)"
  by (auto simp: arr_at_def arr_put_def nth_append nth_Cons' nth_list_update)

lemma arguments_undef [simp]: "arguments_of JUndef = []"
  by (simp add: arguments_of_def call_text_def opt_get_def)

lemma obj_get_props [simp]: "obj_get (JObj (props_of v)) k = obj_get v k"
  by (cases v) (simp_all add: props_of_def)

lemma arguments_copy [simp]: "arguments_of (copy_call v) = arguments_of v"
  by (cases "obj_get v (js ''function'')"; cases v)
     (simp_all add: arguments_of_def call_text_def copy_call_def opt_get_def props_of_def)

lemma arguments_merge:
  "arguments_of (arr_at (merge_call calls u) i) =
     arguments_of (arr_at calls i) @ (if tool_index u = i then arguments_of u else [])"
proof (cases "tool_index u = i")
  case True
  have "arguments_of v = []" if "\<not> truthy v" for v
    using that by (cases v) (simp_all add: arguments_of_def call_text_def opt_get_def)
  then show ?thesis using True
    by (simp add: merge_call_def Let_def) (auto simp: arguments_of_def call_text_def opt_get_def js_lit Let_def)
qed (simp add: merge_call_def Let_def)

lemma arguments_fold:
  "arguments_of (arr_at (foldl merge_call calls us) i) =
     arguments_of (arr_at calls i) @ concat (map arguments_of (filter (\<lambda>u. tool_index u = i) us))"
  by (induction us arbitrary: calls) (simp_all add: arguments_merge)

lemma arguments_copies: "arguments_of (arr_at (map copy_call calls) i) = arguments_of (arr_at calls i)"
  by (simp add: arr_at_def)

text \<open>
  Streamed tool calls lose nothing: however the pieces of several calls are interleaved and
  grouped into deltas, the argument text of every call is the concatenation of its own pieces in
  the order in which they arrived.
\<close>

theorem tool_call_arguments_complete:
  "arguments_of (arr_at (foldl mergeToolCalls previous deltas) i) =
     arguments_of (arr_at previous i) @
     concat (map arguments_of (filter (\<lambda>u. tool_index u = i) (concat deltas)))"
  by (induction deltas arbitrary: previous)
     (simp_all add: mergeToolCalls_def arguments_fold arguments_copies)

subsection \<open>From the event stream to the message\<close>

text \<open>Content deltas as the completions interface sends them: one event with one choice each, and
  \<open>[DONE]\<close> at the end.\<close>

definition delta_chunk :: "jsstr \<Rightarrow> jsval" where
  "delta_chunk d =
     JObj [(js ''choices'', JArr [JObj [(js ''delta'', JObj [(js ''content'', JStr d)])]])]"

definition sse_event :: "jsstr \<Rightarrow> jsstr" where
  "sse_event body = js ''data: '' @ body"

definition sse_text :: "jsstr list \<Rightarrow> jsstr" where
  "sse_text ds =
     concat (map (\<lambda>e. e @ [10, 10]) (map (\<lambda>d. sse_event (json_print (delta_chunk d))) ds @ [sse_event done_mark]))"

definition one_line :: "jsstr \<Rightarrow> bool" where
  "one_line s \<longleftrightarrow> 10 \<notin> set s \<and> 13 \<notin> set s"

lemma one_line_append [simp]: "one_line (s @ t) \<longleftrightarrow> one_line s \<and> one_line t"
  by (auto simp: one_line_def)

lemma hex_digit_line: "hex_digit (x mod 16) \<noteq> 10" "hex_digit (x mod 16) \<noteq> 13"
  using pos_mod_sign [of 16 x] by (auto simp: hex_digit_def)

lemma one_line_unit: "one_line (quote_unit c)"
  by (simp add: one_line_def quote_unit_def unicode_escape_def hex4_def hex_digit_line [symmetric])

lemma one_line_quote: "one_line (quote_units s)"
  using one_line_unit
  by (induction s rule: quote_units.induct)
     (auto simp: one_line_def is_high_surrogate_def is_low_surrogate_def)

lemma no_newline: "one_line (c # s) \<Longrightarrow> match_newline (c # t) = None"
  by (auto simp: one_line_def)

lemma split_event_line:
  "one_line e \<Longrightarrow> split_event (e @ 10 # 10 # r) = Some (e, r)"
proof (induction e)
  case (Cons c e)
  have "match_boundary ((c # e) @ 10 # 10 # r) = None"
    using no_newline [OF Cons.prems] by (simp add: match_boundary_def)
  with Cons show ?case by (simp add: one_line_def)
qed (simp add: match_boundary_def)

lemma split_lines_line: "one_line e \<Longrightarrow> split_lines e = [e]"
proof (induction e)
  case (Cons c e)
  have "match_newline (c # e) = None" by (rule no_newline [OF Cons.prems])
  moreover have "split_lines e = [e]" using Cons by (simp add: one_line_def)
  ultimately show ?case by (subst split_lines.simps) simp
qed (subst split_lines.simps, simp)

lemma frames_lines:
  "list_all one_line es \<Longrightarrow> frames (concat (map (\<lambda>e. e @ [10, 10]) es)) = (es, [])"
  by (induction es) (simp_all add: frames.simps [of "[]"] frames.simps [of "_ @ _"] split_event_line)

lemma event_data_line:
  "one_line (c # s) \<Longrightarrow> \<not> is_ws c \<Longrightarrow> event_data (sse_event (c # s)) = c # s"
proof -
  assume line: "one_line (c # s)" and ws: "\<not> is_ws c"
  have "one_line (js ''data: '')" by (simp add: one_line_def js_lit)
  with line have "split_lines (sse_event (c # s)) = [sse_event (c # s)]"
    unfolding sse_event_def by (intro split_lines_line) simp
  moreover have "is_ws 32" by (simp add: is_ws_def)
  ultimately show ?thesis
    using ws by (simp add: event_data_def sse_event_def js_lit trim_start_def starts_with_def)
qed

lemma delta_print:
  "json_print (delta_chunk d) =
     js ''{\"choices\":[{\"delta\":{\"content\":'' @ json_quote d @ js ''}}]}''"
  by (simp add: delta_chunk_def obj_entries_def is_index_key_def json_quote_def quote_unit_def
      js_lit is_digit_def is_high_surrogate_def is_low_surrogate_def)

lemma delta_event:
  assumes "wf_units d"
  shows "one_line (sse_event (json_print (delta_chunk d))) \<and>
     process_event (sse_event (json_print (delta_chunk d))) flags =
       (if d = [] then [] else [CallContent (JStr d)], Inr flags)"
proof -
  have "plain (delta_chunk d)"
    using assms by (simp add: delta_chunk_def is_index_key_def js_lit is_digit_def wf_units_js [unfolded js_lit])
  then have parse: "json_parse (json_print (delta_chunk d)) = Some (delta_chunk d)" by (rule json_roundtrip)
  have line: "one_line (json_print (delta_chunk d))"
    using one_line_quote [of d] by (simp add: delta_print json_quote_def one_line_def js_lit)
  obtain s where first: "json_print (delta_chunk d) = 123 # s" by (simp add: delta_print js_lit)
  have data: "event_data (sse_event (json_print (delta_chunk d))) = json_print (delta_chunk d)"
    using line unfolding first by (rule event_data_line) (simp add: is_ws_def)
  have "process_chunk (delta_chunk d) flags = (if d = [] then [] else [CallContent (JStr d)], Inr flags)"
    by (simp add: process_chunk_def delta_chunk_def chunk_metadata_def choices_finish_def first_choice_def
        delta_calls_def opt_get_def Let_def js_lit)
  moreover have "json_print (delta_chunk d) \<noteq> done_mark" by (simp add: first done_mark_def js_lit)
  moreover have "json_print (delta_chunk d) \<noteq> []" by (simp add: first)
  ultimately have "process_event (sse_event (json_print (delta_chunk d))) flags =
      (if d = [] then [] else [CallContent (JStr d)], Inr flags)"
    by (simp add: process_event_def data parse)
  moreover have "one_line (sse_event (json_print (delta_chunk d)))"
    using line by (simp add: sse_event_def one_line_def js_lit)
  ultimately show ?thesis by blast
qed

definition content_calls :: "jsstr list \<Rightarrow> stream_call list" where
  "content_calls ds = concat (map (\<lambda>d. if d = [] then [] else [CallContent (JStr d)]) ds)"

lemma process_deltas:
  "\<forall>d \<in> set ds. wf_units d \<Longrightarrow>
   process_all (map (\<lambda>d. sse_event (json_print (delta_chunk d))) ds) flags = (content_calls ds, Inr flags)"
  by (induction ds) (simp_all add: content_calls_def delta_event)

lemma done_event: "process_event (sse_event done_mark) flags = ([], Inr (flags\<lparr>finished := True\<rparr>))"
  and done_line: "one_line (sse_event done_mark)"
proof -
  have "event_data (sse_event done_mark) = done_mark"
    unfolding done_mark_def js_lit by (rule event_data_line) (simp_all add: one_line_def is_ws_def)
  then show "process_event (sse_event done_mark) flags = ([], Inr (flags\<lparr>finished := True\<rparr>))"
    by (simp add: process_event_def done_mark_def js_lit)
  show "one_line (sse_event done_mark)" by (simp add: sse_event_def done_mark_def one_line_def js_lit)
qed

lemma frames_sse:
  assumes "\<forall>d \<in> set ds. wf_units d"
  shows "frames (sse_text ds) =
     (map (\<lambda>d. sse_event (json_print (delta_chunk d))) ds @ [sse_event done_mark], [])"
  unfolding sse_text_def by (rule frames_lines) (use assms delta_event done_line in \<open>auto simp: list_all_iff\<close>)

lemma delta_data:
  assumes "wf_units d"
  shows "event_data (sse_event (json_print (delta_chunk d))) \<noteq> done_mark"
proof
  assume "event_data (sse_event (json_print (delta_chunk d))) = done_mark"
  then have "finished (projr (snd (process_event (sse_event (json_print (delta_chunk d))) no_flags)))"
    by (simp add: process_event_def done_mark_def js_lit)
  with delta_event [OF assms, of no_flags] show False by (simp add: no_flags_def)
qed

lemma quiet_sse:
  assumes "\<forall>d \<in> set ds. wf_units d"
  shows "quiet_after_done (fst (frames (sse_text ds))) (snd (frames (sse_text ds)))"
proof -
  have "event_data [] = []"
    by (simp add: event_data_def split_lines_line one_line_def starts_with_def js_lit)
  then have "quiet_after_done (map (\<lambda>d. sse_event (json_print (delta_chunk d))) ds @ [sse_event done_mark]) []"
    using assms delta_data by (induction ds) auto
  then show ?thesis by (simp add: frames_sse [OF assms])
qed

lemma on_content_facts [simp]:
  "msg_from (on_content d m) = msg_from m" "content_of (on_content d m) = content_of m @ d"
proof -
  show "msg_from (on_content d m) = msg_from m"
    by (simp add: on_content_def processStreamingContent_def updateCurrentVersionContent_def Let_def)
  show "content_of (on_content d m) = content_of m @ d"
    using content_stream(1) [of m "Some d"] by (simp add: on_content_def opt_text_def getCurrentVersion_def)
qed

lemma update_last [simp]:
  "msg_from m = RoleAssistant \<Longrightarrow> updateLastAssistantMessage (ms @ [m]) f = ms @ [f m]"
  by (simp add: updateLastAssistantMessage_def)

lemma apply_content:
  "msg_from m = RoleAssistant \<Longrightarrow>
   \<exists>m'. foldl (apply_call t) (ms @ [m]) (content_calls ds) = ms @ [m'] \<and> msg_from m' = RoleAssistant \<and>
     content_of m' = content_of m @ concat ds"
proof (induction ds arbitrary: m)
  case (Cons d ds)
  show ?case
    using Cons.IH [of m] Cons.IH [of "on_content d m"] Cons.prems
    by (cases "d = []") (simp_all add: content_calls_def)
qed (simp add: content_calls_def)

lemma complete_facts: "content_of (on_complete m) = visibleContent (parseThinkTags (content_of m))"
  by (simp add: on_complete_def finalizeMessage_def updateCurrentVersionContent_def getCurrentVersion_def Let_def)

text \<open>
  A streamed reply is shown completely: whatever pieces the network delivers, when the server
  streams content deltas and ends with \<open>[DONE]\<close>, the reply ends up complete, and its text is the
  visible part (without reasoning tags) of the concatenation of all deltas.
\<close>

theorem streamed_reply_shown:
  assumes "\<forall>d \<in> set ds. wf_units d" and "concat txts @ final = sse_text ds"
    and "fetch_result env = Inr reply" and "reply_ok reply" and "reply_hasBody reply"
    and "reply_requestId reply = None" and "reads env = text_reads txts final"
    and "cancel_throws env = None" and "never_aborted env"
    and "msg_from m = RoleAssistant" and "content_of m = []"
  shows "\<exists>m'. foldl (apply_call t) (ms @ [m]) (fst (send_stream_request hasKey env)) = ms @ [m'] \<and>
     msg_status m' = Some StComplete \<and>
     version_content (getCurrentVersion m') = visibleContent (parseThinkTags (concat ds))"
proof -
  have "read_loop (text_reads txts final) [] no_flags = whole_stream (sse_text ds) no_flags"
    using read_loop_whole [of no_flags "[]" txts final] quiet_sse [OF assms(1)] assms(2)
    by (simp add: no_flags_def)
  also have "\<dots> = (content_calls ds, LoopDone)"
    by (simp add: whole_stream_def frames_sse [OF assms(1)] process_all_append process_deltas [OF assms(1)]
        done_event finish_read_def)
  finally have "fst (send_stream_request hasKey env) = content_calls ds @ [CallComplete]"
    using assms by (simp add: send_stream_request_def never_aborted_def)
  moreover obtain m' where "foldl (apply_call t) (ms @ [m]) (content_calls ds) = ms @ [m']"
      "msg_from m' = RoleAssistant" "content_of m' = concat ds"
    using apply_content [OF assms(10), of t ms ds] assms(11) by auto
  moreover have "msg_status (on_complete m') = Some StComplete" by (simp add: on_complete_def)
  ultimately show ?thesis using complete_facts [of m'] by auto
qed

theorem streamed_reply_shown_witness:
  "\<exists>m'. foldl (apply_call (\<lambda>_. [])) ([] @ [createLoadingAssistantMessage [49] [50]])
       (fst (send_stream_request True (demo_env\<lparr>reads := text_reads [] (sse_text [js ''a'', js ''b''])\<rparr>))) = [] @ [m'] \<and>
     msg_status m' = Some StComplete \<and>
     version_content (getCurrentVersion m') = visibleContent (parseThinkTags (js ''ab''))"
proof -
  have "concat [js ''a'', js ''b''] = js ''ab''" by (simp add: js_lit)
  with streamed_reply_shown [where ds = "[js ''a'', js ''b'']" and txts = "[]" and final = "sse_text [js ''a'', js ''b'']"
      and env = "demo_env\<lparr>reads := text_reads [] (sse_text [js ''a'', js ''b''])\<rparr>" and t = "\<lambda>_. []" and ms = "[]"
      and m = "createLoadingAssistantMessage [49] [50]" and hasKey = True]
  show ?thesis
    by (simp add: demo_env_def text_reads_def never_aborted_def createLoadingAssistantMessage_def
        getCurrentVersion_def createMessageVersion_def)
qed

end
