(* ===== verification/ChatMachine.thy ===== *)
theory ChatMachine
  imports PlaygroundChat
begin

section \<open>Playground: requests started, stopped and finished in any order\<close>

text \<open>
  The references and flags of \<open>useChatHandler\<close> and \<open>useStreamRequest\<close> as a state machine. A request
  is a process with an abort controller (numbered) and the generation it was started in; the user
  starts and stops, the page goes away, and the requests deliver callbacks and finish, interleaved
  arbitrarily at the points where the code waits. What a request may still do once it is aborted is
  what the code checks: after every wait it looks at the abort flag before it calls back.
\<close>

record chat_run =
  run_controller :: nat
  run_generation :: nat
  run_stream :: bool

record chat_state =
  busyRef :: bool
  requestGeneration :: nat
  controllerRef :: "nat option"
  requestRef :: "nat option"
  isStreaming :: bool
  isRequesting :: bool
  abortedControllers :: "nat set"
  nextController :: nat
  running :: "chat_run list"
  chat_messages :: "message list"

subsection \<open>The handlers\<close>

definition abort_ref :: "nat option \<Rightarrow> chat_state \<Rightarrow> chat_state" where
  "abort_ref ref st = st\<lparr>abortedControllers := abortedControllers st \<union> set_option ref\<rparr>"

text \<open>\<open>sendStreamRequest\<close> up to its first wait.\<close>

definition start_stream :: "chat_state \<Rightarrow> chat_state" where
  "start_stream st =
     (let st = abort_ref (controllerRef st) st; c = nextController st
      in st\<lparr>nextController := Suc c, controllerRef := Some c, isStreaming := True,
           running := running st @ [\<lparr>run_controller = c, run_generation = requestGeneration st, run_stream = True\<rparr>]\<rparr>)"

text \<open>The branch without streaming up to its first wait.\<close>

definition start_request :: "chat_state \<Rightarrow> chat_state" where
  "start_request st =
     (let c = nextController st
      in st\<lparr>nextController := Suc c, requestRef := Some c, isRequesting := True,
           running := running st @ [\<lparr>run_controller = c, run_generation = requestGeneration st, run_stream = False\<rparr>]\<rparr>)"

text \<open>\<open>sendChat\<close> up to its first wait; \<open>notice_ok\<close>: \<open>maybeShowNightWorkshopToast\<close>, called between
  setting the flag and the \<open>try\<close> block, has not thrown.\<close>

definition send_chat :: "bool \<Rightarrow> bool \<Rightarrow> chat_state \<Rightarrow> chat_state" where
  "send_chat notice_ok stream st =
     (if busyRef st then st
      else let st = st\<lparr>busyRef := True, requestGeneration := Suc (requestGeneration st)\<rparr>
        in if \<not> notice_ok then st else if stream then start_stream st else start_request st)"

text \<open>Callbacks of a request on the messages.\<close>

definition deliver :: "(message list \<Rightarrow> message list) \<Rightarrow> chat_state \<Rightarrow> chat_state" where
  "deliver update st = st\<lparr>chat_messages := update (chat_messages st)\<rparr>"

text \<open>The end of a request: its last callback unless it is aborted, then the two \<open>finally\<close> blocks.\<close>

definition finish_chat :: "chat_run \<Rightarrow> (message list \<Rightarrow> message list) \<Rightarrow> chat_state \<Rightarrow> chat_state" where
  "finish_chat r update st =
     (let c = run_controller r;
          st = (if c \<in> abortedControllers st then st else deliver update st);
          st = (if run_stream r
                then (if controllerRef st = Some c then st\<lparr>controllerRef := None, isStreaming := False\<rparr> else st)
                else (if requestRef st = Some c then st\<lparr>requestRef := None, isRequesting := False\<rparr> else st));
          st = (if run_generation r = requestGeneration st then st\<lparr>busyRef := False\<rparr> else st)
      in st\<lparr>running := remove1 r (running st)\<rparr>)"

definition stopStream :: "chat_state \<Rightarrow> chat_state" where
  "stopStream st = (abort_ref (controllerRef st) st)\<lparr>controllerRef := None, isStreaming := False\<rparr>"

definition cancel_message :: "message \<Rightarrow> message" where
  "cancel_message m =
     (if msg_status m = Some StLoading \<or> msg_status m = Some StStreaming
      then (finalizeMessage m None)\<lparr>msg_status := Some StCancelled\<rparr> else m)"

definition stopGeneration :: "chat_state \<Rightarrow> chat_state" where
  "stopGeneration st =
     (let st = stopStream (st\<lparr>requestGeneration := Suc (requestGeneration st)\<rparr>);
          st = (abort_ref (requestRef st) st)\<lparr>requestRef := None, busyRef := False, isRequesting := False\<rparr>
      in deliver (\<lambda>ms. updateLastAssistantMessage ms cancel_message) st)"

text \<open>The two effect cleanups when the page goes away.\<close>

definition unmount :: "chat_state \<Rightarrow> chat_state" where
  "unmount st = abort_ref (requestRef st) (abort_ref (controllerRef st) st)"

subsection \<open>Steps\<close>

text \<open>The counters of \<open>workshop-feedback.ts\<close> write to the browser's storage and throw when it refuses: whether
  \<open>recordWorkshopCallSuccess\<close> returns, whether \<open>recordWorkshopCallFailure\<close> does, the first and the second time it is called,
  and what is thrown otherwise. \<open>onComplete\<close> and \<open>onError\<close> call them before they update the messages, and what they throw inside
  a \<open>try\<close> block is reported by a further \<open>onError\<close>. (An \<open>onError\<close> of a \<open>catch\<close> block is not repeated: \<open>ws_again = False\<close>.)\<close>

record workshop =
  ws_success :: bool
  ws_failure :: bool
  ws_again :: bool
  ws_error :: thrown

definition report :: "(thrown \<Rightarrow> jsstr) \<Rightarrow> bool \<Rightarrow> thrown \<Rightarrow> message list \<Rightarrow> message list" where
  "report t ok e ms = (if ok then apply_call t ms (CallError e JUndef) else ms)"

definition end_stream :: "(thrown \<Rightarrow> jsstr) \<Rightarrow> workshop \<Rightarrow> stream_call \<Rightarrow> message list \<Rightarrow> message list" where
  "end_stream t w c ms =
     (case c of
        CallComplete \<Rightarrow> if ws_success w then apply_call t ms c else report t (ws_failure w) (ws_error w) ms
      | CallError e code \<Rightarrow> if ws_failure w then apply_call t ms c else report t (ws_again w) (ws_error w) ms
      | _ \<Rightarrow> ms)"

text \<open>Without streaming the success is recorded after the answer is stored; a missing choice is an error.\<close>

definition has_choice :: "jsval \<Rightarrow> bool" where
  "has_choice response \<longleftrightarrow> \<not> is_nullish response \<and> truthy (first_choice (obj_get response (js ''choices'')))"

definition end_response :: "(thrown \<Rightarrow> jsstr) \<Rightarrow> workshop \<Rightarrow> jsval \<Rightarrow> message list \<Rightarrow> message list" where
  "end_response t w response ms =
     (if has_choice response
      then (let ms' = on_response t ms response in if ws_success w then ms' else report t (ws_failure w) (ws_error w) ms')
      else if ws_failure w then on_response t ms response else ms)"

definition end_failure :: "(thrown \<Rightarrow> jsstr) \<Rightarrow> bool \<Rightarrow> workshop \<Rightarrow> jsval \<Rightarrow> message list \<Rightarrow> message list" where
  "end_failure t hasKey w failure ms = (if ws_failure w then snd (on_failure t hasKey ms failure) else ms)"

text \<open>What requests do on their own. The final update of a stream is one of its last callbacks, that
  of a plain request what its answer or failure does.\<close>

inductive final_update :: "(thrown \<Rightarrow> jsstr) \<Rightarrow> (message list \<Rightarrow> message list) \<Rightarrow> bool" for t where
  stream_end: "is_final c \<Longrightarrow> final_update t (end_stream t w c)"
| response: "final_update t (end_response t w v)"
| failure: "final_update t (end_failure t hasKey w v)"

inductive request_step :: "(thrown \<Rightarrow> jsstr) \<Rightarrow> chat_state \<Rightarrow> chat_state \<Rightarrow> bool" for t where
  deliver: "r \<in> set (running st) \<Longrightarrow> run_controller r \<notin> abortedControllers st \<Longrightarrow> no_final calls \<Longrightarrow>
     request_step t st (deliver (\<lambda>ms. foldl (apply_call t) ms calls) st)"
| finish: "r \<in> set (running st) \<Longrightarrow> final_update t update \<Longrightarrow>
     request_step t st (finish_chat r update st)"

text \<open>Everything that can happen; \<open>edit\<close>: the page changes the messages (a new question, a deletion).\<close>

inductive chat_step :: "(thrown \<Rightarrow> jsstr) \<Rightarrow> chat_state \<Rightarrow> chat_state \<Rightarrow> bool" for t where
  request: "request_step t st st' \<Longrightarrow> chat_step t st st'"
| send: "chat_step t st (send_chat notice_ok stream st)"
| stop: "chat_step t st (stopGeneration st)"
| leave: "chat_step t st (unmount st)"
| edit: "chat_step t st (st\<lparr>chat_messages := ms\<rparr>)"

definition chat_start :: "message list \<Rightarrow> chat_state" where
  "chat_start ms =
     \<lparr>busyRef = False, requestGeneration = 0, controllerRef = None, requestRef = None, isStreaming = False,
      isRequesting = False, abortedControllers = {}, nextController = 0, running = [], chat_messages = ms\<rparr>"

inductive chat_reachable :: "(thrown \<Rightarrow> jsstr) \<Rightarrow> chat_state \<Rightarrow> bool" for t where
  init: "chat_reachable t (chat_start ms)"
| step: "chat_reachable t st \<Longrightarrow> chat_step t st st' \<Longrightarrow> chat_reachable t st'"

inductive request_steps :: "(thrown \<Rightarrow> jsstr) \<Rightarrow> chat_state \<Rightarrow> chat_state \<Rightarrow> bool" for t where
  none: "request_steps t st st"
| one: "request_step t st st' \<Longrightarrow> request_steps t st' st'' \<Longrightarrow> request_steps t st st''"

inductive_cases request_stepE: "request_step t st st'"
inductive_cases chat_stepE: "chat_step t st st'"

subsection \<open>The invariant\<close>

definition live :: "chat_state \<Rightarrow> chat_run \<Rightarrow> bool" where
  "live st r \<longleftrightarrow> r \<in> set (running st) \<and> run_controller r \<notin> abortedControllers st"

text \<open>A reference points to a running request of its kind, and its flag says whether it is set.\<close>

definition refs_ok :: "chat_state \<Rightarrow> bool" where
  "refs_ok st \<longleftrightarrow>
     isStreaming st = (controllerRef st \<noteq> None) \<and> isRequesting st = (requestRef st \<noteq> None) \<and>
     (\<forall>c. controllerRef st = Some c \<longrightarrow> (\<exists>r \<in> set (running st). run_controller r = c \<and> run_stream r)) \<and>
     (\<forall>c. requestRef st = Some c \<longrightarrow> (\<exists>r \<in> set (running st). run_controller r = c \<and> \<not> run_stream r))"

text \<open>Numbers are used once.\<close>

definition numbers_ok :: "chat_state \<Rightarrow> bool" where
  "numbers_ok st \<longleftrightarrow>
     distinct (map run_controller (running st)) \<and> distinct (map run_generation (running st)) \<and>
     (\<forall>r \<in> set (running st). run_controller r < nextController st \<and> run_generation r \<le> requestGeneration st) \<and>
     (\<forall>c \<in> abortedControllers st. c < nextController st)"

text \<open>A request that is not aborted is the current one, and the flag is up while the current
  generation runs.\<close>

definition busy_ok :: "chat_state \<Rightarrow> bool" where
  "busy_ok st \<longleftrightarrow>
     ((\<exists>r \<in> set (running st). run_generation r = requestGeneration st) \<longrightarrow> busyRef st) \<and>
     (\<forall>r. live st r \<longrightarrow> run_generation r = requestGeneration st \<and>
        (if run_stream r then controllerRef st = Some (run_controller r)
         else requestRef st = Some (run_controller r)))"

definition chat_inv :: "chat_state \<Rightarrow> bool" where
  "chat_inv st \<longleftrightarrow> refs_ok st \<and> numbers_ok st \<and> busy_ok st"

lemmas chat_inv_defs = chat_inv_def refs_ok_def numbers_ok_def busy_ok_def live_def

lemma inv_start: "chat_inv (chat_start ms)"
  by (simp add: chat_inv_defs chat_start_def)

lemma inv_messages [simp]: "chat_inv (st\<lparr>chat_messages := ms\<rparr>) = chat_inv st"
  by (simp add: chat_inv_defs)

lemma inv_deliver [simp]: "chat_inv (deliver update st) = chat_inv st"
  by (simp add: deliver_def)

lemma refs_used:
  assumes "refs_ok st" and "numbers_ok st" and "controllerRef st = Some c \<or> requestRef st = Some c"
  shows "c < nextController st"
  using assms by (fastforce simp: refs_ok_def numbers_ok_def)

lemma refs_abort [simp]: "refs_ok (abort_ref ref st) = refs_ok st"
  by (simp add: refs_ok_def abort_ref_def)

lemma numbers_abort:
  "numbers_ok st \<Longrightarrow> (\<And>c. ref = Some c \<Longrightarrow> c < nextController st) \<Longrightarrow> numbers_ok (abort_ref ref st)"
  by (cases ref) (simp_all add: numbers_ok_def abort_ref_def)

lemma busy_abort: "busy_ok st \<Longrightarrow> busy_ok (abort_ref ref st)"
  by (simp add: busy_ok_def live_def abort_ref_def)

lemma abort_fields [simp]:
  "controllerRef (abort_ref ref st) = controllerRef st" "requestRef (abort_ref ref st) = requestRef st"
  "nextController (abort_ref ref st) = nextController st" "running (abort_ref ref st) = running st"
  "requestGeneration (abort_ref ref st) = requestGeneration st" "busyRef (abort_ref ref st) = busyRef st"
  "isStreaming (abort_ref ref st) = isStreaming st" "isRequesting (abort_ref ref st) = isRequesting st"
  "abortedControllers (abort_ref ref st) = abortedControllers st \<union> set_option ref"
  "chat_messages (abort_ref ref st) = chat_messages st"
  by (simp_all add: abort_ref_def)

lemma inv_leave: "chat_inv st \<Longrightarrow> chat_inv (unmount st)"
  unfolding chat_inv_def unmount_def
  by (auto intro!: numbers_abort busy_abort dest: refs_used)

lemma inv_stop:
  assumes "chat_inv st"
  shows "chat_inv (stopGeneration st)"
proof -
  define st1 where "st1 = abort_ref (requestRef st) (abort_ref (controllerRef st) st)"
  define st2 where "st2 = st1\<lparr>requestGeneration := Suc (requestGeneration st), controllerRef := None,
      isStreaming := False, requestRef := None, busyRef := False, isRequesting := False\<rparr>"
  have inv1: "refs_ok st1" "numbers_ok st1" "busy_ok st1"
    using inv_leave [OF assms] by (simp_all add: chat_inv_def st1_def unmount_def)
  have "refs_ok st2" by (simp add: st2_def refs_ok_def)
  moreover have "numbers_ok st2" using inv1(2) by (auto simp: st2_def st1_def numbers_ok_def)
  moreover have "run_generation r \<noteq> Suc (requestGeneration st)" if "r \<in> set (running st)" for r
    using assms that by (fastforce simp: chat_inv_def numbers_ok_def)
  moreover have "\<not> live st2 r" for r
    using assms by (auto simp: chat_inv_def busy_ok_def live_def st2_def st1_def split: if_splits)
  ultimately have "chat_inv st2" by (simp add: chat_inv_def busy_ok_def) (simp add: st2_def st1_def)
  moreover have "stopGeneration st = deliver (\<lambda>ms. updateLastAssistantMessage ms cancel_message) st2"
    by (cases st) (simp add: stopGeneration_def stopStream_def Let_def st2_def st1_def abort_ref_def)
  ultimately show ?thesis by simp
qed

text \<open>With no request alive, a new one makes the invariant hold for the next generation.\<close>

lemma idle_not_live: "busy_ok st \<Longrightarrow> \<not> busyRef st \<Longrightarrow> \<not> live st r"
  by (auto simp: busy_ok_def live_def)

lemma inv_send_ok:
  assumes "chat_inv st"
  shows "chat_inv (send_chat True stream st)"
proof (cases "busyRef st")
  case False
  let ?c = "nextController st" and ?g = "Suc (requestGeneration st)"
  let ?r = "\<lparr>run_controller = ?c, run_generation = ?g, run_stream = stream\<rparr>"
  let ?st = "send_chat True stream st"
  have ok: "refs_ok st" "numbers_ok st" "busy_ok st" using assms by (simp_all add: chat_inv_def)
  have fields: "running ?st = running st @ [?r]" "nextController ?st = Suc ?c" "requestGeneration ?st = ?g"
      "busyRef ?st" "controllerRef ?st = (if stream then Some ?c else controllerRef st)"
      "requestRef ?st = (if stream then requestRef st else Some ?c)"
      "isStreaming ?st = (stream \<or> isStreaming st)" "isRequesting ?st = (\<not> stream \<or> isRequesting st)"
      "abortedControllers ?st = abortedControllers st \<union> (if stream then set_option (controllerRef st) else {})"
    using False by (auto simp: send_chat_def start_stream_def start_request_def Let_def)
  have "refs_ok ?st" using ok(1) unfolding refs_ok_def fields by (cases stream) auto
  moreover have "numbers_ok ?st"
  proof -
    have "run_controller r \<noteq> ?c" "run_generation r \<noteq> ?g" if "r \<in> set (running st)" for r
      using ok(2) that by (fastforce simp: numbers_ok_def)+
    moreover have "c < Suc ?c" if "c \<in> abortedControllers ?st" for c
      using ok(2) that refs_used [OF ok(1,2)] unfolding fields
      by (auto simp: numbers_ok_def less_Suc_eq split: if_splits)
    ultimately show ?thesis using ok(2) unfolding numbers_ok_def fields
      by (auto simp: less_Suc_eq le_Suc_eq)
  qed
  moreover have "busy_ok ?st"
  proof -
    have only: "r = ?r" if "live ?st r" for r
      using that idle_not_live [OF ok(3) False, of r] unfolding live_def fields by auto
    have "run_generation r = requestGeneration ?st \<and>
        (if run_stream r then controllerRef ?st = Some (run_controller r)
         else requestRef ?st = Some (run_controller r))" if "live ?st r" for r
      unfolding only [OF that] using fields by (cases stream) simp_all
    moreover have "busyRef ?st \<and> (\<exists>r \<in> set (running ?st). run_generation r = requestGeneration ?st)"
      by (simp add: fields)
    ultimately show ?thesis unfolding busy_ok_def by blast
  qed
  ultimately show ?thesis by (simp add: chat_inv_def)
qed (use assms in \<open>simp add: send_chat_def\<close>)

lemma inv_send_failed:
  assumes "chat_inv st"
  shows "chat_inv (send_chat False stream st)"
proof (cases "busyRef st")
  case False
  have ok: "refs_ok st" "numbers_ok st" "busy_ok st" using assms by (simp_all add: chat_inv_def)
  let ?st = "st\<lparr>busyRef := True, requestGeneration := Suc (requestGeneration st)\<rparr>"
  have "\<not> live ?st r" for r using idle_not_live [OF ok(3) False, of r] by (simp add: live_def)
  then have "busy_ok ?st" by (simp add: busy_ok_def)
  moreover have "refs_ok ?st" using ok(1) by (simp add: refs_ok_def)
  moreover have "numbers_ok ?st" using ok(2) by (auto simp: numbers_ok_def)
  ultimately show ?thesis using False by (simp add: chat_inv_def send_chat_def)
qed (use assms in \<open>simp add: send_chat_def\<close>)

lemma inv_send: "chat_inv st \<Longrightarrow> chat_inv (send_chat notice_ok stream st)"
  using inv_send_ok inv_send_failed by (cases notice_ok) auto

lemma distinct_runs:
  assumes "numbers_ok st" and "r \<in> set (running st)" and "r' \<in> set (running st)"
  shows "run_controller r = run_controller r' \<Longrightarrow> r = r'" "run_generation r = run_generation r' \<Longrightarrow> r = r'"
  using assms by (auto simp: numbers_ok_def distinct_map dest: inj_onD)

lemma finish_fields:
  "running (finish_chat r update st) = remove1 r (running st)"
  "nextController (finish_chat r update st) = nextController st"
  "requestGeneration (finish_chat r update st) = requestGeneration st"
  "abortedControllers (finish_chat r update st) = abortedControllers st"
  "busyRef (finish_chat r update st) = (busyRef st \<and> run_generation r \<noteq> requestGeneration st)"
  "controllerRef (finish_chat r update st) =
     (if run_stream r \<and> controllerRef st = Some (run_controller r) then None else controllerRef st)"
  "requestRef (finish_chat r update st) =
     (if \<not> run_stream r \<and> requestRef st = Some (run_controller r) then None else requestRef st)"
  "isStreaming (finish_chat r update st) =
     (isStreaming st \<and> \<not> (run_stream r \<and> controllerRef st = Some (run_controller r)))"
  "isRequesting (finish_chat r update st) =
     (isRequesting st \<and> \<not> (\<not> run_stream r \<and> requestRef st = Some (run_controller r)))"
  "chat_messages (finish_chat r update st) =
     (if run_controller r \<in> abortedControllers st then chat_messages st else update (chat_messages st))"
  by (auto simp: finish_chat_def deliver_def Let_def)

lemma inv_finish:
  assumes "chat_inv st" and "r \<in> set (running st)"
  shows "chat_inv (finish_chat r update st)"
proof -
  let ?st = "finish_chat r update st"
  have ok: "refs_ok st" "numbers_ok st" "busy_ok st" using assms by (simp_all add: chat_inv_def)
  have dist: "distinct (running st)" using ok(2) by (auto simp: numbers_ok_def distinct_map)
  then have run: "set (running ?st) = set (running st) - {r}" by (simp add: finish_fields)
  note same = distinct_runs [OF ok(2) _ assms(2)]
  have "refs_ok ?st"
  proof -
    have "\<exists>q \<in> set (running ?st). run_controller q = c \<and> run_stream q" if "controllerRef ?st = Some c" for c
      using that ok(1) assms(2) same(1) unfolding run
      by (auto simp: refs_ok_def finish_fields split: if_splits)
    moreover have "\<exists>q \<in> set (running ?st). run_controller q = c \<and> \<not> run_stream q" if "requestRef ?st = Some c" for c
      using that ok(1) assms(2) same(1) unfolding run
      by (auto simp: refs_ok_def finish_fields split: if_splits)
    ultimately show ?thesis using ok(1) by (auto simp: refs_ok_def finish_fields)
  qed
  moreover have "numbers_ok ?st"
    using ok(2) dist by (auto simp: numbers_ok_def finish_fields distinct_map intro: inj_on_diff)
  moreover have "busy_ok ?st"
  proof -
    have "run_generation q = requestGeneration ?st \<and>
        (if run_stream q then controllerRef ?st = Some (run_controller q)
         else requestRef ?st = Some (run_controller q))" if q: "live ?st q" for q
    proof -
      have "q \<in> set (running st)" "q \<noteq> r" using q run by (simp_all add: live_def)
      then have other: "run_controller r \<noteq> run_controller q" using same(1) [of q] by auto
      have "live st q" using q \<open>q \<in> set (running st)\<close> by (simp add: live_def finish_fields)
      then have "run_generation q = requestGeneration st" "if run_stream q then controllerRef st = Some (run_controller q)
         else requestRef st = Some (run_controller q)"
        using ok(3) by (simp_all add: busy_ok_def)
      with other show ?thesis by (cases "run_stream q") (simp_all add: finish_fields)
    qed
    moreover have "(\<exists>q \<in> set (running ?st). run_generation q = requestGeneration ?st) \<longrightarrow> busyRef ?st"
    proof -
      have "(\<exists>q \<in> set (running st). run_generation q = requestGeneration st) \<longrightarrow> busyRef st"
        using ok(3) by (simp add: busy_ok_def)
      moreover have "q = r" if "q \<in> set (running st)" "run_generation q = requestGeneration st"
          "run_generation r = requestGeneration st" for q
        using that same(2) by simp
      ultimately show ?thesis unfolding run finish_fields(3,5) using assms(2) by blast
    qed
    ultimately show ?thesis unfolding busy_ok_def by blast
  qed
  ultimately show ?thesis by (simp add: chat_inv_def)
qed

lemma inv_request_step: "request_step t st st' \<Longrightarrow> chat_inv st \<Longrightarrow> chat_inv st'"
  by (auto elim!: request_stepE intro: inv_finish)

lemma inv_request_steps: "request_steps t st st' \<Longrightarrow> chat_inv st \<Longrightarrow> chat_inv st'"
  by (induction rule: request_steps.induct) (auto dest: inv_request_step)

lemma inv_reachable: "chat_reachable t st \<Longrightarrow> chat_inv st"
proof (induction rule: chat_reachable.induct)
  case (step st st')
  from step(2,3) show ?case
    by (cases rule: chat_step.cases) (auto intro: inv_request_step inv_send inv_stop inv_leave)
qed (rule inv_start)

subsection \<open>Properties\<close>

text \<open>
  C20. One reply at a time: in every state that any interleaving of sending, stopping, leaving and
  requests running and finishing can reach, at most one request can still write to the messages;
  while there is one, new questions are refused and the page shows that it is generating.
\<close>

theorem chat_single_writer:
  assumes "chat_reachable t st" and "live st r" and "live st r'"
  shows "r = r' \<and> send_chat True stream st = st \<and> (isStreaming st \<or> isRequesting st)"
proof -
  have inv: "refs_ok st" "numbers_ok st" "busy_ok st" using inv_reachable [OF assms(1)] by (simp_all add: chat_inv_def)
  have "r = r'"
    using inv(3) assms(2,3) distinct_runs(2) [OF inv(2), of r r'] by (auto simp: busy_ok_def live_def)
  moreover have "busyRef st" using inv(3) assms(2) by (auto simp: busy_ok_def live_def)
  moreover have "isStreaming st \<or> isRequesting st"
    using inv(1,3) assms(2) by (auto simp: busy_ok_def refs_ok_def split: if_splits)
  ultimately show ?thesis by (simp add: send_chat_def)
qed

lemma silent_steps:
  "request_steps t st st' \<Longrightarrow> (\<And>r. \<not> live st r) \<Longrightarrow> \<not> busyRef st \<Longrightarrow>
   chat_messages st' = chat_messages st \<and> \<not> busyRef st'"
proof (induction rule: request_steps.induct)
  case (one st st1 st2)
  from one.hyps(1) one.prems
  have "chat_messages st1 = chat_messages st \<and> \<not> busyRef st1 \<and> (\<forall>r. \<not> live st1 r)"
    by (cases rule: request_step.cases)
       (auto simp: live_def finish_fields dest: notin_set_remove1)
  with one.IH show ?case by simp
qed simp

lemma cancel_not_stuck: "\<not> is_stuck (cancel_message m)"
  by (auto simp: cancel_message_def is_stuck_def)

lemma update_not_stuck:
  assumes "ms \<noteq> []" and "\<And>m. \<not> is_stuck (f m)"
  shows "\<not> is_stuck (last (updateLastAssistantMessage ms f))"
  using assms by (auto simp: updateLastAssistantMessage_def is_stuck_def)

text \<open>
  C21. Stopping is final: after the user stops, whatever the requests under way still do, in whatever
  order they end, the messages stay as they were when stopped, the reply is no longer shown as
  loading or streaming, and the page accepts a new question.
\<close>

theorem stopped_reply_stays:
  assumes "chat_reachable t st" and "request_steps t (stopGeneration st) st'" and "chat_messages st \<noteq> []"
  shows "chat_messages st' = chat_messages (stopGeneration st) \<and>
     \<not> is_stuck (last (chat_messages st')) \<and> \<not> busyRef st'"
proof -
  let ?st = "stopGeneration st"
  have stop: "\<not> busyRef ?st" "chat_messages ?st = updateLastAssistantMessage (chat_messages st) cancel_message"
    by (simp_all add: stopGeneration_def stopStream_def deliver_def Let_def)
  have "busy_ok ?st" using inv_stop [OF inv_reachable [OF assms(1)]] by (simp add: chat_inv_def)
  then have "\<not> live ?st r" for r using stop(1) by (rule idle_not_live)
  from silent_steps [OF assms(2) this stop(1)] stop(2) show ?thesis
    using update_not_stuck [OF assms(3) cancel_not_stuck] by simp
qed

lemma status_updated:
  assumes "ms \<noteq> []" and "msg_from (last ms) = RoleAssistant"
  shows "updateLastAssistantMessage ms f \<noteq> []" and "last (updateLastAssistantMessage ms f) = f (last ms)"
  using assms by (simp_all add: updateLastAssistantMessage_def)

lemma status_error:
  assumes "ms \<noteq> []" and "msg_from (last ms) = RoleAssistant"
  shows "msg_status (last (updateAssistantMessageWithError ms e c)) = Some StError"
  by (simp add: updateAssistantMessageWithError_def status_updated [OF assms])

lemma finalize_from [simp]: "msg_from (finalizeMessage m r) = msg_from m"
  by (simp add: finalizeMessage_def updateCurrentVersionContent_def Let_def split: list.splits)

lemma store_facts:
  "msg_status (store_response v c m) = Some StComplete" "msg_from (store_response v c m) = msg_from m"
  by (simp_all add: store_response_def Let_def)

text \<open>How a reply ends, with the counters working or not.\<close>

lemma end_stream_status:
  assumes "ms \<noteq> []" and "msg_from (last ms) = RoleAssistant"
  shows "msg_status (last (end_stream t w CallComplete ms)) =
      (if ws_success w then Some StComplete else if ws_failure w then Some StError else msg_status (last ms))"
    and "msg_status (last (end_stream t w (CallError e code) ms)) =
      (if ws_failure w \<or> ws_again w then Some StError else msg_status (last ms))"
  by (simp_all add: end_stream_def report_def status_error [OF assms] status_updated [OF assms] on_complete_def)

lemma end_response_status:
  assumes "ms \<noteq> []" and "msg_from (last ms) = RoleAssistant"
  shows "msg_status (last (end_response t w v ms)) =
      (if has_choice v then (if ws_success w \<or> \<not> ws_failure w then Some StComplete else Some StError)
       else if ws_failure w then Some StError else msg_status (last ms))"
proof (cases "has_choice v")
  case True
  then obtain c where c: "on_response t ms v = updateLastAssistantMessage ms (store_response v c)"
    by (auto simp: has_choice_def on_response_def Let_def)
  note stored = status_updated [OF assms, of "store_response v c"]
  have "msg_status (last (updateAssistantMessageWithError (on_response t ms v) e k)) = Some StError" for e k
    unfolding c by (rule status_error) (simp_all add: stored store_facts assms(2))
  then show ?thesis using True by (simp add: end_response_def report_def Let_def c stored store_facts)
next
  case False
  then show ?thesis
    by (auto simp: end_response_def has_choice_def on_response_def Let_def status_error [OF assms])
qed

lemma end_failure_status:
  assumes "ms \<noteq> []" and "msg_from (last ms) = RoleAssistant"
  shows "msg_status (last (end_failure t hasKey w v ms)) = (if ws_failure w then Some StError else msg_status (last ms))"
  by (simp add: end_failure_def on_failure_def Let_def status_error [OF assms])

lemma drain_requests: "\<exists>st'. request_steps t st st' \<and> running st' = []"
proof (induction "length (running st)" arbitrary: st)
  case 0
  then show ?case using request_steps.none by force
next
  case (Suc n)
  then obtain r where r: "r \<in> set (running st)" by (cases "running st") auto
  let ?w = "\<lparr>ws_success = True, ws_failure = True, ws_again = True, ws_error = NoError\<rparr>"
  let ?st = "finish_chat r (end_stream t ?w CallComplete) st"
  have "request_step t st ?st" using r by (intro request_step.finish final_update.stream_end) simp_all
  moreover have "n = length (running ?st)" using Suc.hyps(2) r by (simp add: finish_fields length_remove1)
  then obtain st' where "request_steps t ?st st'" "running st' = []" using Suc.hyps(1) by blast
  ultimately show ?case by (blast intro: request_steps.one)
qed

text \<open>Histories that remember whether the notice threw for the last question that was accepted and not stopped since.\<close>

inductive chat_history :: "(thrown \<Rightarrow> jsstr) \<Rightarrow> bool \<Rightarrow> chat_state \<Rightarrow> bool" for t where
  init: "chat_history t False (chat_start ms)"
| request: "chat_history t b st \<Longrightarrow> request_step t st st' \<Longrightarrow> chat_history t b st'"
| send: "chat_history t b st \<Longrightarrow> chat_history t (if busyRef st then b else \<not> notice_ok) (send_chat notice_ok stream st)"
| stop: "chat_history t b st \<Longrightarrow> chat_history t False (stopGeneration st)"
| leave: "chat_history t b st \<Longrightarrow> chat_history t b (unmount st)"
| edit: "chat_history t b st \<Longrightarrow> chat_history t b (st\<lparr>chat_messages := ms\<rparr>)"

lemma history_reachable: "chat_history t b st \<Longrightarrow> chat_reachable t st"
  by (induction rule: chat_history.induct) (auto intro: chat_reachable.intros chat_step.intros)

lemma reachable_history: "chat_reachable t st \<Longrightarrow> \<exists>b. chat_history t b st"
proof (induction rule: chat_reachable.induct)
  case (step st st')
  from step(2,3) show ?case by (cases rule: chat_step.cases) (blast intro: chat_history.intros)+
qed (blast intro: chat_history.init)

text \<open>The flag is up without a request of the current generation exactly after a notice that threw.\<close>

definition blocked_ok :: "bool \<Rightarrow> chat_state \<Rightarrow> bool" where
  "blocked_ok b st \<longleftrightarrow>
     (if b then busyRef st \<and> (\<forall>r \<in> set (running st). run_generation r \<noteq> requestGeneration st)
      else busyRef st \<longrightarrow> (\<exists>r \<in> set (running st). run_generation r = requestGeneration st))"

lemma blocked_deliver [simp]: "blocked_ok b (deliver update st) = blocked_ok b st"
  by (simp add: blocked_ok_def deliver_def)

lemma blocked_finish:
  assumes "blocked_ok b st" and "chat_inv st" and "r \<in> set (running st)"
  shows "blocked_ok b (finish_chat r update st)"
proof -
  have "distinct (running st)" using assms(2) by (auto simp: chat_inv_def numbers_ok_def distinct_map)
  then show ?thesis using assms by (auto simp: blocked_ok_def finish_fields split: if_splits)
qed

lemma blocked_request: "request_step t st st' \<Longrightarrow> chat_inv st \<Longrightarrow> blocked_ok b st \<Longrightarrow> blocked_ok b st'"
  by (auto elim!: request_stepE intro: blocked_finish)

lemma blocked_requests: "request_steps t st st' \<Longrightarrow> chat_inv st \<Longrightarrow> blocked_ok b st \<Longrightarrow> blocked_ok b st'"
  by (induction rule: request_steps.induct) (auto dest: inv_request_step blocked_request)

lemma blocked_send:
  assumes "blocked_ok b st" and "chat_inv st"
  shows "blocked_ok (if busyRef st then b else \<not> notice_ok) (send_chat notice_ok stream st)"
proof -
  have "run_generation r \<noteq> Suc (requestGeneration st)" if "r \<in> set (running st)" for r
    using assms(2) that by (fastforce simp: chat_inv_def numbers_ok_def)
  then show ?thesis
    using assms(1) by (auto simp: blocked_ok_def send_chat_def start_stream_def start_request_def Let_def)
qed

lemma blocked_history: "chat_history t b st \<Longrightarrow> blocked_ok b st"
proof (induction rule: chat_history.induct)
  case (request b st st')
  then show ?case using blocked_request inv_reachable history_reachable by blast
next
  case (send b st notice_ok stream)
  then show ?case using blocked_send inv_reachable history_reachable by blast
qed (auto simp: blocked_ok_def chat_start_def stopGeneration_def stopStream_def unmount_def deliver_def Let_def)

text \<open>
  C22. The page comes to rest: in every history of sending (with a notice that may throw), stopping, leaving and requests
  running and ending, the requests under way can all end on their own. However they do, once they have, no
  generation is shown, and the next question is refused exactly if the notice threw for the last accepted
  question and the user has not stopped since. A request that ends without having been aborted leaves the reply complete when
  its answer is, and failed otherwise; only when the workshop counters throw as well is nothing reported, and the reply stays as it
  was.
\<close>

theorem chat_becomes_idle:
  assumes "chat_history t blocked st"
  shows "(\<exists>st'. request_steps t st st' \<and> running st' = []) \<and>
     (\<forall>st'. request_steps t st st' \<and> running st' = [] \<longrightarrow>
        \<not> isStreaming st' \<and> \<not> isRequesting st' \<and> (busyRef st' \<longleftrightarrow> blocked)) \<and>
     (\<forall>r w e code v hasKey. live st r \<and> chat_messages st \<noteq> [] \<and> msg_from (last (chat_messages st)) = RoleAssistant \<longrightarrow>
        (let before = msg_status (last (chat_messages st));
             status = (\<lambda>update. msg_status (last (chat_messages (finish_chat r update st))))
         in status (end_stream t w CallComplete) =
              (if ws_success w then Some StComplete else if ws_failure w then Some StError else before) \<and>
            status (end_stream t w (CallError e code)) = (if ws_failure w \<or> ws_again w then Some StError else before) \<and>
            status (end_response t w v) =
              (if has_choice v then (if ws_success w \<or> \<not> ws_failure w then Some StComplete else Some StError)
               else if ws_failure w then Some StError else before) \<and>
            status (end_failure t hasKey w v) = (if ws_failure w then Some StError else before)))"
proof -
  have inv: "chat_inv st" using assms history_reachable inv_reachable by blast
  have "\<not> isStreaming st' \<and> \<not> isRequesting st' \<and> (busyRef st' \<longleftrightarrow> blocked)"
    if "request_steps t st st'" "running st' = []" for st'
    using inv_request_steps [OF that(1) inv] blocked_requests [OF that(1) inv blocked_history [OF assms]] that(2)
    by (auto simp: chat_inv_def refs_ok_def blocked_ok_def split: if_splits)
  moreover have "chat_messages (finish_chat r update st) = update (chat_messages st)" if "live st r" for r update
    using that by (simp add: finish_fields live_def)
  ultimately show ?thesis
    using drain_requests end_stream_status end_response_status end_failure_status by (auto simp: Let_def)
qed

text \<open>When the browser's storage refuses the counters, the reply of a stream that completed is left streaming on an
  idle page.\<close>

lemma counter_failure_leaves_reply:
  "end_stream t \<lparr>ws_success = False, ws_failure = False, ws_again = False, ws_error = e\<rparr> CallComplete ms = ms"
  by (simp add: end_stream_def report_def)

text \<open>When the notice between raising the flag and the \<open>try\<close> block throws, the flag stays up with no
  request under way, and every later question is ignored until the user stops.\<close>

lemma notice_failure_blocks:
  "let st = send_chat False stream (chat_start ms) in
   busyRef st \<and> running st = [] \<and> send_chat True stream' st = st"
  by (simp add: send_chat_def chat_start_def)

subsection \<open>A run\<close>

abbreviation demo_reply :: message where
  "demo_reply \<equiv> createLoadingAssistantMessage (js ''k'') (js ''v'')"

definition demo_started :: chat_state where
  "demo_started = send_chat True True (chat_start [demo_reply])"

definition demo_run :: chat_run where
  "demo_run = \<lparr>run_controller = 0, run_generation = 1, run_stream = True\<rparr>"

definition demo_workshop :: workshop where
  "demo_workshop = \<lparr>ws_success = True, ws_failure = True, ws_again = True, ws_error = NoError\<rparr>"

lemma demo_reachable: "chat_reachable t demo_started"
  unfolding demo_started_def by (rule chat_reachable.step [OF chat_reachable.init chat_step.send])

lemma demo_live: "live demo_started demo_run"
  by (simp add: live_def demo_started_def demo_run_def send_chat_def start_stream_def chat_start_def abort_ref_def)

theorem chat_single_writer_witness: "send_chat True False demo_started = demo_started"
  using chat_single_writer [OF demo_reachable demo_live demo_live] by blast

theorem stopped_reply_stays_witness:
  "\<not> is_stuck (last (chat_messages
     (finish_chat demo_run (end_stream (\<lambda>_. []) demo_workshop CallComplete) (stopGeneration demo_started))))"
proof -
  let ?st = "stopGeneration demo_started" and ?update = "end_stream (\<lambda>_. []) demo_workshop CallComplete"
  have "demo_run \<in> set (running ?st)"
    using demo_live by (simp add: live_def stopGeneration_def stopStream_def deliver_def Let_def)
  then have "request_step (\<lambda>_. []) ?st (finish_chat demo_run ?update ?st)"
    by (intro request_step.finish final_update.stream_end) simp_all
  then have "request_steps (\<lambda>_. []) ?st (finish_chat demo_run ?update ?st)"
    by (blast intro: request_steps.intros)
  moreover have "chat_messages demo_started \<noteq> []"
    by (simp add: demo_started_def send_chat_def start_stream_def chat_start_def abort_ref_def)
  ultimately show ?thesis using stopped_reply_stays [OF demo_reachable] by blast
qed

theorem chat_becomes_idle_witness:
  "(\<exists>st'. request_steps (\<lambda>_. []) demo_started st' \<and> running st' = [] \<and> \<not> busyRef st') \<and>
   msg_status (last (chat_messages (finish_chat demo_run (end_stream (\<lambda>_. []) demo_workshop CallComplete) demo_started))) = Some StComplete"
proof -
  have "chat_history (\<lambda>_. []) False demo_started"
    using chat_history.send [OF chat_history.init [of _ "[demo_reply]"], where notice_ok = True and stream = True] by (simp add: demo_started_def chat_start_def)
  note idle = chat_becomes_idle [OF this]
  have "chat_messages demo_started = [demo_reply]"
    by (simp add: demo_started_def send_chat_def start_stream_def chat_start_def abort_ref_def)
  moreover have "msg_from demo_reply = RoleAssistant" by (simp add: createLoadingAssistantMessage_def)
  ultimately show ?thesis using idle demo_live by (auto simp: Let_def demo_workshop_def)
qed

end
