(* ===== verification/PlaygroundSessions.thy ===== *)
theory PlaygroundSessions
  imports Playground JsObject WebStorage
begin

section \<open>Playground: conversations and their storage\<close>

text \<open>
  \<open>features/playground/lib/storage.ts\<close> and the state of \<open>features/playground/hooks/use-playground-state.ts\<close>:
  the list of conversations of an account, the active one, and their text in the browser's storage.
  Random identifiers and the clock are arguments. The optional fields of a stored message are read
  at their declared types; a configuration is the list of its properties.
\<close>

subsection \<open>Data\<close>

record play_session =
  ps_id :: jsstr
  ps_title :: jsstr
  ps_updatedAt :: jsnum
  ps_messages :: "message list"
  ps_draft :: jsstr
  ps_config :: "(jsstr \<times> jsval) list"
  ps_enabled :: "(jsstr \<times> jsval) list"
  ps_others :: "(jsstr \<times> jsval) list"

definition DEFAULT_CONFIG :: "(jsstr \<times> jsval) list" where
  "DEFAULT_CONFIG =
    [(js ''model'', JStr (js ''gpt-4o'')), (js ''group'', JStr (js ''auto'')),
     (js ''temperature'', JNum (fl (7 / 10))), (js ''top_p'', JNum (num_int 1)),
     (js ''max_tokens'', JNum (num_int 4096)), (js ''frequency_penalty'', JNum (num_int 0)),
     (js ''presence_penalty'', JNum (num_int 0)), (js ''seed'', JNull), (js ''stream'', JBool True)]"

definition DEFAULT_PARAMETER_ENABLED :: "(jsstr \<times> jsval) list" where
  "DEFAULT_PARAMETER_ENABLED =
    [(js ''temperature'', JBool True), (js ''top_p'', JBool True), (js ''max_tokens'', JBool False),
     (js ''frequency_penalty'', JBool True), (js ''presence_penalty'', JBool True), (js ''seed'', JBool False)]"

definition createSession :: "jsstr \<Rightarrow> jsnum \<Rightarrow> play_session" where
  "createSession uuid now = \<lparr>ps_id = uuid, ps_title = [], ps_updatedAt = now, ps_messages = [], ps_draft = [],
     ps_config = DEFAULT_CONFIG, ps_enabled = DEFAULT_PARAMETER_ENABLED, ps_others = []\<rparr>"

definition sessionKey :: "int \<Rightarrow> jsstr" where
  "sessionKey accountId = js ''codego:playground:v2:'' @ int_str accountId @ js '':sessions''"

definition legacy_key :: jsstr where
  "legacy_key = js ''playground_messages''"

subsection \<open>Messages as objects\<close>

fun role_text :: "message_role \<Rightarrow> jsstr" where
  "role_text RoleUser = js ''user''"
| "role_text RoleAssistant = js ''assistant''"
| "role_text RoleSystem = js ''system''"

fun status_text :: "message_status \<Rightarrow> jsstr" where
  "status_text StLoading = js ''loading''"
| "status_text StStreaming = js ''streaming''"
| "status_text StComplete = js ''complete''"
| "status_text StError = js ''error''"
| "status_text StCancelled = js ''cancelled''"

definition role_of :: "jsval \<Rightarrow> message_role option" where
  "role_of v = find (\<lambda>r. v = JStr (role_text r)) [RoleUser, RoleAssistant, RoleSystem]"

definition status_of :: "jsval \<Rightarrow> message_status option" where
  "status_of v = find (\<lambda>s. v = JStr (status_text s)) [StLoading, StStreaming, StComplete, StError, StCancelled]"

definition bool_of :: "jsval \<Rightarrow> bool option" where
  "bool_of v = (case v of JBool b \<Rightarrow> Some b | _ \<Rightarrow> None)"

definition text_of :: "jsval \<Rightarrow> jsstr option" where
  "text_of v = (case v of JStr s \<Rightarrow> Some s | _ \<Rightarrow> None)"

definition version_val :: "message_version \<Rightarrow> jsval" where
  "version_val v = JObj [(js ''id'', JStr (version_id v)), (js ''content'', JStr (version_content v))]"

definition version_of :: "jsval \<Rightarrow> message_version" where
  "version_of v = \<lparr>version_id = str_prop v ''id'', version_content = str_prop v ''content''\<rparr>"

definition reasoning_val :: "reasoning \<Rightarrow> jsval" where
  "reasoning_val r =
     JObj [(js ''content'', JStr (reasoning_content r)), (js ''duration'', JNum (reasoning_duration r))]"

definition reasoning_of :: "jsval \<Rightarrow> reasoning option" where
  "reasoning_of v =
     (case v of
        JObj ps \<Rightarrow> Some \<lparr>reasoning_content = str_prop v ''content'', reasoning_duration = to_num (obj_get v (js ''duration''))\<rparr>
      | _ \<Rightarrow> None)"

definition message_keys :: "string list" where
  "message_keys = [''key'', ''from'', ''versions'', ''reasoning'', ''isReasoningStreaming'', ''isReasoningComplete'',
     ''isContentComplete'', ''status'', ''errorCode'', ''errorMessage'']"

text \<open>An optional property is there when it has a value.\<close>

definition put_opt :: "string \<Rightarrow> ('a \<Rightarrow> jsval) \<Rightarrow> 'a option \<Rightarrow> (jsstr \<times> jsval) list \<Rightarrow> (jsstr \<times> jsval) list" where
  "put_opt k f x ps = (case x of Some y \<Rightarrow> put_if True k (f y) ps | None \<Rightarrow> ps)"

definition message_val :: "message \<Rightarrow> jsval" where
  "message_val m = JObj
     (put_opt ''errorMessage'' JStr (msg_errorMessage m) (put_opt ''errorCode'' JStr (msg_errorCode m)
     (put_opt ''status'' (\<lambda>s. JStr (status_text s)) (msg_status m)
     (put_opt ''isContentComplete'' JBool (msg_isContentComplete m)
     (put_opt ''isReasoningComplete'' JBool (msg_isReasoningComplete m)
     (put_opt ''isReasoningStreaming'' JBool (msg_isReasoningStreaming m)
     (put_opt ''reasoning'' reasoning_val (msg_reasoning m)
     (put_if True ''versions'' (JArr (map version_val (msg_versions m)))
     (put_if True ''from'' (JStr (role_text (msg_from m)))
     (put_if True ''key'' (JStr (msg_key m)) (msg_others m)))))))))))"

definition message_of :: "jsval \<Rightarrow> message" where
  "message_of v = \<lparr>msg_key = str_prop v ''key'',
     msg_from = (case role_of (obj_get v (js ''from'')) of Some r \<Rightarrow> r | None \<Rightarrow> RoleUser),
     msg_versions = map version_of (arr_of (obj_get v (js ''versions''))),
     msg_reasoning = reasoning_of (obj_get v (js ''reasoning'')),
     msg_isReasoningStreaming = bool_of (obj_get v (js ''isReasoningStreaming'')),
     msg_isReasoningComplete = bool_of (obj_get v (js ''isReasoningComplete'')),
     msg_isContentComplete = bool_of (obj_get v (js ''isContentComplete'')),
     msg_status = status_of (obj_get v (js ''status'')),
     msg_errorCode = text_of (obj_get v (js ''errorCode'')),
     msg_errorMessage = text_of (obj_get v (js ''errorMessage'')),
     msg_others = filter (\<lambda>p. fst p \<notin> set (map js message_keys)) (props_of v)\<rparr>"

definition is_object :: "jsval \<Rightarrow> bool" where
  "is_object v \<longleftrightarrow> (case v of JArr _ \<Rightarrow> True | JObj _ \<Rightarrow> True | _ \<Rightarrow> False)"

definition is_string :: "jsval \<Rightarrow> bool" where
  "is_string v \<longleftrightarrow> (case v of JStr _ \<Rightarrow> True | _ \<Rightarrow> False)"

definition isMessage :: "jsval \<Rightarrow> bool" where
  "isMessage v \<longleftrightarrow> is_object v \<and> is_string (obj_get v (js ''key'')) \<and> role_of (obj_get v (js ''from'')) \<noteq> None \<and>
     (case obj_get v (js ''versions'') of
        JArr vs \<Rightarrow> list_all (\<lambda>ver. truthy ver \<and> is_string (obj_get ver (js ''id'')) \<and> is_string (obj_get ver (js ''content''))) vs
      | _ \<Rightarrow> False)"

subsection \<open>Loading and saving\<close>

definition session_keys :: "string list" where
  "session_keys = [''id'', ''title'', ''updatedAt'', ''messages'', ''draft'', ''config'', ''parameterEnabled'']"

definition session_val :: "play_session \<Rightarrow> jsval" where
  "session_val s = JObj
     (put_if True ''parameterEnabled'' (JObj (ps_enabled s)) (put_if True ''config'' (JObj (ps_config s))
     (put_if True ''draft'' (JStr (ps_draft s)) (put_if True ''messages'' (JArr (map message_val (ps_messages s)))
     (put_if True ''updatedAt'' (JNum (ps_updatedAt s)) (put_if True ''title'' (JStr (ps_title s))
     (put_if True ''id'' (JStr (ps_id s)) (ps_others s))))))))"

text \<open>\<open>None\<close>: the session is not valid, which throws.\<close>

definition load_session :: "jsval \<Rightarrow> play_session option" where
  "load_session v =
     (case (obj_get v (js ''id''), obj_get v (js ''title''), obj_get v (js ''messages''), obj_get v (js ''updatedAt'')) of
        (JStr sid, JStr title, JArr ms, JNum updated) \<Rightarrow>
          if is_object v \<and> list_all isMessage ms
          then Some \<lparr>ps_id = sid, ps_title = title, ps_updatedAt = updated,
              ps_messages = sanitizeMessagesOnLoad (map message_of ms), ps_draft = str_prop v ''draft'',
              ps_config = foldl obj_put DEFAULT_CONFIG (props_of (obj_get v (js ''config''))),
              ps_enabled = foldl obj_put DEFAULT_PARAMETER_ENABLED (props_of (obj_get v (js ''parameterEnabled''))),
              ps_others = filter (\<lambda>p. fst p \<notin> set (map js session_keys)) (props_of v)\<rparr>
          else None
      | _ \<Rightarrow> None)"

fun load_all :: "jsval list \<Rightarrow> play_session list option" where
  "load_all [] = Some []"
| "load_all (v # vs) =
     (case load_session v of
        None \<Rightarrow> None
      | Some s \<Rightarrow> (case load_all vs of None \<Rightarrow> None | Some ss \<Rightarrow> Some (s # ss)))"

text \<open>The sessions and whether the failure notice is shown; \<open>fresh\<close> is the session created when
  there is nothing to load.\<close>

definition loadSessions :: "'st transfer_storage \<Rightarrow> 'st \<Rightarrow> int \<Rightarrow> play_session \<Rightarrow> play_session list \<times> bool" where
  "loadSessions api st accountId fresh =
     (case get_item api st (sessionKey accountId) of
        None \<Rightarrow> ([fresh], True)
      | Some None \<Rightarrow> ([fresh], False)
      | Some (Some saved) \<Rightarrow>
        if saved = [] then ([fresh], False)
        else case json_parse saved of
          Some (JArr vs) \<Rightarrow>
            (case load_all vs of None \<Rightarrow> ([fresh], True) | Some ss \<Rightarrow> (if ss \<noteq> [] then ss else [fresh], False))
        | _ \<Rightarrow> ([fresh], True))"

text \<open>The storage after saving, and whether it succeeded.\<close>

definition saveSessions :: "'st transfer_storage \<Rightarrow> 'st \<Rightarrow> int \<Rightarrow> play_session list \<Rightarrow> 'st \<times> bool" where
  "saveSessions api st accountId sessions =
     (case set_item api st (sessionKey accountId) (json_print (JArr (map session_val sessions))) of
        Some st' \<Rightarrow> (st', True) | None \<Rightarrow> (st, False))"

definition hasLegacyMessages :: "'st transfer_storage \<Rightarrow> 'st \<Rightarrow> bool" where
  "hasLegacyMessages api st =
     (case get_item api st legacy_key of Some (Some s) \<Rightarrow> s \<noteq> [] | _ \<Rightarrow> False)"

text \<open>\<open>None\<close>: it throws.\<close>

definition readLegacyMessages :: "'st transfer_storage \<Rightarrow> 'st \<Rightarrow> message list option" where
  "readLegacyMessages api st =
     (case get_item api st legacy_key of
        None \<Rightarrow> None
      | Some stored \<Rightarrow>
        (case json_parse (case stored of Some s \<Rightarrow> if s \<noteq> [] then s else js ''[]'' | None \<Rightarrow> js ''[]'') of
           Some (JArr vs) \<Rightarrow>
             if list_all isMessage vs then Some (sanitizeMessagesOnLoad (map message_of vs)) else None
         | _ \<Rightarrow> None))"

definition removeLegacyMessages :: "'st transfer_storage \<Rightarrow> 'st \<Rightarrow> 'st option" where
  "removeLegacyMessages api st = remove_item api st legacy_key"

subsection \<open>Stored messages read back\<close>

lemma map_of_put_opt [simp]:
  "map_of (put_opt k f x ps) (js k') = (if k' = k \<and> x \<noteq> None then Some (f (the x)) else map_of ps (js k'))"
  by (auto simp: put_opt_def split: option.splits)

lemma filter_put:
  assumes "\<not> P (js k, v)" and "\<And>w. P (js k, w) = P (js k, v)"
  shows "filter P (put_if b k v ps) = filter P ps"
proof -
  have "filter P (map (\<lambda>p. if fst p = js k then (js k, v) else p) ps) = filter P ps"
  proof (induction ps)
    case (Cons p ps)
    then show ?case using assms by (cases p) auto
  qed simp
  then show ?thesis using assms(1) by (simp add: put_if_def obj_put_def)
qed

lemma filter_known:
  "k \<in> set ks \<Longrightarrow> filter (\<lambda>p. fst p \<notin> set (map js ks)) (put_if b k v ps) = filter (\<lambda>p. fst p \<notin> set (map js ks)) ps"
  by (rule filter_put) auto

lemma filter_known_opt:
  "k \<in> set ks \<Longrightarrow> filter (\<lambda>p. fst p \<notin> set (map js ks)) (put_opt k f x ps) = filter (\<lambda>p. fst p \<notin> set (map js ks)) ps"
  by (cases x) (simp_all add: put_opt_def filter_known del: set_map)

definition free_of :: "string list \<Rightarrow> (jsstr \<times> jsval) list \<Rightarrow> bool" where
  "free_of ks ps \<longleftrightarrow> plain (JObj ps) \<and> list_all (\<lambda>p. fst p \<notin> set (map js ks)) ps"

lemma map_of_free: "free_of ks ps \<Longrightarrow> k \<in> set ks \<Longrightarrow> map_of ps (js k) = None"
  by (force simp: free_of_def list_all_iff map_of_eq_None_iff)

lemma filter_free: "free_of ks ps \<Longrightarrow> filter (\<lambda>p. fst p \<notin> set (map js ks)) ps = ps"
  by (simp add: free_of_def list_all_iff filter_id_conv)

lemma role_of_text [simp]: "role_of (JStr (role_text r)) = Some r"
  by (cases r) (simp_all add: role_of_def js_inject)

lemma status_of_text [simp]: "status_of (JStr (status_text s)) = Some s"
  by (cases s) (simp_all add: status_of_def js_inject)

lemma absent_fields [simp]:
  "role_of JUndef = None" "status_of JUndef = None" "bool_of JUndef = None" "text_of JUndef = None" "reasoning_of JUndef = None"
  "bool_of (JBool b) = Some b" "text_of (JStr t) = Some t"
  by (simp_all add: role_of_def status_of_def bool_of_def text_of_def reasoning_of_def)

lemma version_of_val [simp]: "version_of (version_val v) = v"
  by (cases v) (simp add: version_of_def version_val_def str_prop_def js_inject)

lemma reasoning_of_val [simp]: "reasoning_of (reasoning_val r) = Some r"
  by (cases r) (simp add: reasoning_of_def reasoning_val_def str_prop_def js_inject)

definition wf_message :: "message \<Rightarrow> bool" where
  "wf_message m \<longleftrightarrow> wf_units (msg_key m) \<and>
     list_all (\<lambda>v. wf_units (version_id v) \<and> wf_units (version_content v)) (msg_versions m) \<and>
     (case msg_reasoning m of Some r \<Rightarrow> wf_units (reasoning_content r) \<and> num_token (reasoning_duration r) | None \<Rightarrow> True) \<and>
     (case msg_errorCode m of Some c \<Rightarrow> wf_units c | None \<Rightarrow> True) \<and>
     (case msg_errorMessage m of Some c \<Rightarrow> wf_units c | None \<Rightarrow> True) \<and> free_of message_keys (msg_others m)"

lemma known_keys [simp]:
  "''key'' \<in> set message_keys" "''from'' \<in> set message_keys" "''versions'' \<in> set message_keys"
  "''reasoning'' \<in> set message_keys" "''isReasoningStreaming'' \<in> set message_keys"
  "''isReasoningComplete'' \<in> set message_keys" "''isContentComplete'' \<in> set message_keys"
  "''status'' \<in> set message_keys" "''errorCode'' \<in> set message_keys" "''errorMessage'' \<in> set message_keys"
  by (simp_all add: message_keys_def)

definition opt_val :: "('a \<Rightarrow> jsval) \<Rightarrow> 'a option \<Rightarrow> jsval" where
  "opt_val f x = (case x of Some y \<Rightarrow> f y | None \<Rightarrow> JUndef)"

lemma read_opt [simp]:
  "bool_of (opt_val JBool x) = x" "text_of (opt_val JStr t) = t" "reasoning_of (opt_val reasoning_val r) = r"
  "status_of (opt_val (\<lambda>s. JStr (status_text s)) st) = st"
  by (auto simp: opt_val_def split: option.splits)

lemma message_fields:
  assumes "free_of message_keys (msg_others m)"
  shows "obj_get (message_val m) (js ''key'') = JStr (msg_key m)"
    and "obj_get (message_val m) (js ''from'') = JStr (role_text (msg_from m))"
    and "obj_get (message_val m) (js ''versions'') = JArr (map version_val (msg_versions m))"
    and "obj_get (message_val m) (js ''reasoning'') = opt_val reasoning_val (msg_reasoning m)"
    and "obj_get (message_val m) (js ''isReasoningStreaming'') = opt_val JBool (msg_isReasoningStreaming m)"
    and "obj_get (message_val m) (js ''isReasoningComplete'') = opt_val JBool (msg_isReasoningComplete m)"
    and "obj_get (message_val m) (js ''isContentComplete'') = opt_val JBool (msg_isContentComplete m)"
    and "obj_get (message_val m) (js ''status'') = opt_val (\<lambda>s. JStr (status_text s)) (msg_status m)"
    and "obj_get (message_val m) (js ''errorCode'') = opt_val JStr (msg_errorCode m)"
    and "obj_get (message_val m) (js ''errorMessage'') = opt_val JStr (msg_errorMessage m)"
  by (simp_all add: message_val_def opt_val_def map_of_free [OF assms] split: option.splits)

lemma message_of_val:
  assumes "free_of message_keys (msg_others m)"
  shows "message_of (message_val m) = m"
proof -
  have "filter (\<lambda>p. fst p \<notin> set (map js message_keys)) (props_of (message_val m)) = msg_others m"
    unfolding message_val_def props_of_def jsval.case
    by (simp add: filter_known filter_known_opt filter_free [OF assms] del: set_map)
  then show ?thesis
    by (simp add: message_of_def message_fields [OF assms] str_prop_def arr_of_def o_def del: set_map)
qed

lemma isMessage_val:
  assumes "free_of message_keys (msg_others m)"
  shows "isMessage (message_val m)"
proof -
  have "truthy (version_val v) \<and> is_string (obj_get (version_val v) (js ''id'')) \<and> is_string (obj_get (version_val v) (js ''content''))" for v
    by (simp add: version_val_def is_string_def js_inject)
  moreover have "is_object (message_val m)" by (simp add: message_val_def is_object_def)
  ultimately show ?thesis by (simp add: isMessage_def message_fields [OF assms] is_string_def list_all_iff)
qed

text \<open>Objects that print and read back.\<close>

lemma plain_put_opt:
  assumes "plain (JObj ps)" and "\<not> is_index_key (js k)" and "\<And>y. x = Some y \<Longrightarrow> plain (f y)"
  shows "plain (JObj (put_opt k f x ps))"
  using assms plain_put_if by (auto simp: put_opt_def split: option.splits)

lemma plain_texts [simp]: "wf_units (role_text r)" "wf_units (status_text s)"
  by (cases r; simp) (cases s; simp)

lemma plain_message:
  assumes "wf_message m"
  shows "plain (message_val m)"
proof -
  have ver: "plain (JArr (map version_val (msg_versions m)))"
    using assms by (simp add: wf_message_def version_val_def list_all_iff index_key_lit is_digit_def js_inject)
  have rea: "plain (reasoning_val r)" if "msg_reasoning m = Some r" for r
    using assms that by (simp add: wf_message_def reasoning_val_def index_key_lit is_digit_def js_inject)
  have oth: "plain (JObj (msg_others m))" using assms by (simp add: wf_message_def free_of_def del: plain.simps)
  show ?thesis
    unfolding message_val_def
    by (intro plain_put_opt plain_put_if oth ver rea)
      (use assms in \<open>auto simp: wf_message_def index_key_lit is_digit_def\<close>)
qed

subsection \<open>Stored conversations read back\<close>

text \<open>A configuration that has the default keys, in their order, before its other ones, as every
  configuration made from the defaults by assignments has.\<close>

definition extends_keys :: "(jsstr \<times> jsval) list \<Rightarrow> (jsstr \<times> jsval) list \<Rightarrow> bool" where
  "extends_keys d c \<longleftrightarrow> plain (JObj c) \<and> take (length d) (map fst c) = map fst d"

lemma foldl_put_over:
  assumes "distinct (map fst (pre @ c))" and "map fst c = map fst d"
  shows "foldl obj_put (pre @ d) c = pre @ c"
  using assms
proof (induction c arbitrary: pre d)
  case (Cons p c)
  then obtain q d' where d: "d = q # d'" "fst q = fst p" "map fst c = map fst d'" by (cases d) auto
  have "fst p \<notin> set (map fst pre)" "fst p \<notin> set (map fst d')"
    using Cons.prems(1) unfolding d(3) [symmetric] by auto
  then have "obj_put (pre @ q # d') p = (pre @ [p]) @ d'"
    using d(2) replace_absent [of "fst p" pre "snd p", unfolded prod.collapse]
      replace_absent [of "fst p" d' "snd p", unfolded prod.collapse]
    by (simp add: obj_put_in [of "fst p" _ "snd p", unfolded prod.collapse])
  then show ?case using Cons.IH [of "pre @ [p]" d'] Cons.prems d by simp
qed simp

lemma foldl_put_extends:
  assumes "extends_keys d c"
  shows "foldl obj_put d c = c"
proof -
  let ?n = "length d"
  have "distinct (map fst c)" using assms by (simp add: extends_keys_def)
  then have dist: "distinct (map fst (take ?n c @ drop ?n c))" by simp
  then have "distinct (map fst (take ?n c))" by (simp only: map_append distinct_append)
  then have "foldl obj_put d (take ?n c) = take ?n c"
    using foldl_put_over [of "[]" "take ?n c" d] assms by (simp add: extends_keys_def take_map)
  moreover have "foldl obj_put (take ?n c) (drop ?n c) = take ?n c @ drop ?n c" using dist by (rule obj_put_fresh)
  ultimately show ?thesis using foldl_append [of obj_put d "take ?n c" "drop ?n c"] by simp
qed

definition wf_session :: "play_session \<Rightarrow> bool" where
  "wf_session s \<longleftrightarrow> wf_units (ps_id s) \<and> wf_units (ps_title s) \<and> wf_units (ps_draft s) \<and> num_token (ps_updatedAt s) \<and>
     list_all wf_message (ps_messages s) \<and> extends_keys DEFAULT_CONFIG (ps_config s) \<and>
     extends_keys DEFAULT_PARAMETER_ENABLED (ps_enabled s) \<and> free_of session_keys (ps_others s)"

text \<open>A conversation after closing and opening the page: an interrupted reply is repaired.\<close>

definition reloaded :: "play_session \<Rightarrow> play_session" where
  "reloaded s = s\<lparr>ps_messages := sanitizeMessagesOnLoad (ps_messages s)\<rparr>"

lemma known_session_keys [simp]:
  "''id'' \<in> set session_keys" "''title'' \<in> set session_keys" "''updatedAt'' \<in> set session_keys"
  "''messages'' \<in> set session_keys" "''draft'' \<in> set session_keys" "''config'' \<in> set session_keys"
  "''parameterEnabled'' \<in> set session_keys"
  by (simp_all add: session_keys_def)

lemma session_fields:
  assumes "free_of session_keys (ps_others s)"
  shows "obj_get (session_val s) (js ''id'') = JStr (ps_id s)"
    and "obj_get (session_val s) (js ''title'') = JStr (ps_title s)"
    and "obj_get (session_val s) (js ''updatedAt'') = JNum (ps_updatedAt s)"
    and "obj_get (session_val s) (js ''messages'') = JArr (map message_val (ps_messages s))"
    and "obj_get (session_val s) (js ''draft'') = JStr (ps_draft s)"
    and "obj_get (session_val s) (js ''config'') = JObj (ps_config s)"
    and "obj_get (session_val s) (js ''parameterEnabled'') = JObj (ps_enabled s)"
    and "filter (\<lambda>p. fst p \<notin> set (map js session_keys)) (props_of (session_val s)) = ps_others s"
    and "is_object (session_val s)"
  by (simp_all add: session_val_def props_of_def is_object_def filter_known filter_free [OF assms] del: set_map)

lemma load_session_val:
  assumes "wf_session s"
  shows "load_session (session_val s) = Some (reloaded s)"
proof -
  have free: "free_of session_keys (ps_others s)" using assms by (simp add: wf_session_def)
  have msgs: "\<forall>m \<in> set (ps_messages s). free_of message_keys (msg_others m)"
    using assms by (auto simp: wf_session_def wf_message_def list_all_iff)
  then have "list_all isMessage (map message_val (ps_messages s))" by (simp add: list_all_iff isMessage_val)
  moreover have "map message_of (map message_val (ps_messages s)) = ps_messages s"
    using msgs by (simp add: message_of_val map_idI)
  moreover have "foldl obj_put DEFAULT_CONFIG (ps_config s) = ps_config s"
      "foldl obj_put DEFAULT_PARAMETER_ENABLED (ps_enabled s) = ps_enabled s"
    using assms by (simp_all add: wf_session_def foldl_put_extends)
  ultimately show ?thesis
    unfolding load_session_def session_fields [OF free]
    by (simp add: session_fields [OF free] str_prop_def props_of_def reloaded_def del: set_map map_map)
qed

lemma load_all_val: "list_all wf_session ss \<Longrightarrow> load_all (map session_val ss) = Some (map reloaded ss)"
  by (induction ss) (simp_all add: load_session_val)

lemma plain_session:
  assumes "wf_session s"
  shows "plain (session_val s)"
proof -
  have "plain (JObj (ps_others s))" "plain (JObj (ps_config s))" "plain (JObj (ps_enabled s))"
      "plain (JArr (map message_val (ps_messages s)))"
    using assms by (simp_all add: wf_session_def free_of_def extends_keys_def list_all_iff plain_message)
  then show ?thesis
    unfolding session_val_def
    by (intro plain_put_if) (use assms in \<open>simp_all add: wf_session_def index_key_lit is_digit_def\<close>)
qed

lemma int_str_inj: "int_str a = int_str b \<Longrightarrow> a = b"
proof -
  have "int_digits n \<noteq> 45 # t" if "0 \<le> n" for n t
    using int_digits_digit [OF that, of 45] by (auto simp: is_digit_def)
  from this [of a] this [of b] show "int_str a = int_str b \<Longrightarrow> a = b"
    using int_digits_inj [of "- a" "- b"] int_digits_inj [of a b]
    by (cases "a < 0"; cases "b < 0") (auto simp: int_str_def dest: sym)
qed

lemma sessionKey_inject [simp]: "sessionKey a = sessionKey b \<longleftrightarrow> a = b"
  using int_str_inj [of a b] by (auto simp: sessionKey_def)

text \<open>What the laws of the storage give: reading after writing, and other accounts untouched.\<close>

context web_storage
begin

lemma reload_law:
  assumes "list_all wf_session ss" and "ss \<noteq> []" and "saveSessions api st acc ss = (st', True)"
  shows "loadSessions api st' acc fresh = (map reloaded ss, False)"
proof -
  have set: "set_item api st (sessionKey acc) (json_print (JArr (map session_val ss))) = Some st'"
    using assms(3) by (auto simp: saveSessions_def split: option.splits)
  have pl: "plain (JArr (map session_val ss))" using assms(1) plain_session by (auto simp: list_all_iff)
  have "json_print (JArr (map session_val ss)) \<noteq> []" using json_print_first [OF pl] by auto
  then show ?thesis
    using get_set [OF set] json_roundtrip [OF pl] load_all_val [OF assms(1)] assms(2)
    by (simp add: loadSessions_def del: json_print.simps)
qed

lemma other_account_law:
  assumes "saveSessions api st acc ss = (st', ok)" and "acc' \<noteq> acc"
  shows "loadSessions api st' acc' fresh = loadSessions api st acc' fresh"
  using assms get_set_other [of st "sessionKey acc" _ st' "sessionKey acc'"]
  by (auto simp: saveSessions_def loadSessions_def split: option.splits)

end

subsection \<open>The state of the page\<close>

record 'st play_state =
  pst_sessions :: "play_session list"
  pst_active :: jsstr
  pst_store :: 'st

definition set_group :: "jsstr \<Rightarrow> play_session list \<Rightarrow> play_session list" where
  "set_group grp sessions =
     (case sessions of
        s # rest \<Rightarrow> if grp = [] then sessions
          else s\<lparr>ps_config := obj_put (ps_config s) (js ''group'', JStr grp)\<rparr> # rest
      | [] \<Rightarrow> [])"

definition usePlaygroundState :: "'st transfer_storage \<Rightarrow> 'st \<Rightarrow> int \<Rightarrow> jsstr \<Rightarrow> play_session \<Rightarrow> 'st play_state" where
  "usePlaygroundState api store accountId initialGroup fresh =
     (let sessions = set_group initialGroup (fst (loadSessions api store accountId fresh))
      in \<lparr>pst_sessions = sessions, pst_active = ps_id (hd sessions), pst_store = store\<rparr>)"

text \<open>The effect that saves the conversations after a change.\<close>

definition save_effect :: "'st transfer_storage \<Rightarrow> int \<Rightarrow> 'st play_state \<Rightarrow> 'st play_state" where
  "save_effect api accountId st = st\<lparr>pst_store := fst (saveSessions api (pst_store st) accountId (pst_sessions st))\<rparr>"

definition activeSession :: "'st play_state \<Rightarrow> play_session" where
  "activeSession st =
     (case find (\<lambda>s. ps_id s = pst_active st) (pst_sessions st) of Some s \<Rightarrow> s | None \<Rightarrow> hd (pst_sessions st))"

text \<open>The updaters are bound to the conversation that was active when they were made (\<open>a\<close>).\<close>

definition updateActive :: "jsstr \<Rightarrow> (play_session \<Rightarrow> play_session) \<Rightarrow> 'st play_state \<Rightarrow> 'st play_state" where
  "updateActive a f st = st\<lparr>pst_sessions := map (\<lambda>s. if ps_id s = a then f s else s) (pst_sessions st)\<rparr>"

definition updateConfig :: "jsstr \<Rightarrow> jsstr \<Rightarrow> jsval \<Rightarrow> 'st play_state \<Rightarrow> 'st play_state" where
  "updateConfig a key v st = updateActive a (\<lambda>s. s\<lparr>ps_config := obj_put (ps_config s) (key, v)\<rparr>) st"

definition updateParameterEnabled :: "jsstr \<Rightarrow> jsstr \<Rightarrow> bool \<Rightarrow> 'st play_state \<Rightarrow> 'st play_state" where
  "updateParameterEnabled a key v st = updateActive a (\<lambda>s. s\<lparr>ps_enabled := obj_put (ps_enabled s) (key, JBool v)\<rparr>) st"

definition first_question :: "message list \<Rightarrow> jsstr" where
  "first_question messages =
     (case find (\<lambda>m. msg_from m = RoleUser) messages of
        Some m \<Rightarrow> (case msg_versions m of v # _ \<Rightarrow> take 60 (version_content v) | [] \<Rightarrow> [])
      | None \<Rightarrow> [])"

definition updateMessages :: "jsstr \<Rightarrow> jsnum \<Rightarrow> (message list \<Rightarrow> message list) \<Rightarrow> 'st play_state \<Rightarrow> 'st play_state" where
  "updateMessages a now updater st =
     updateActive a (\<lambda>s.
       let messages = updater (ps_messages s)
       in s\<lparr>ps_messages := messages, ps_updatedAt := now,
           ps_title := (if ps_title s \<noteq> [] then ps_title s else first_question messages)\<rparr>) st"

definition updateDraft :: "jsstr \<Rightarrow> jsstr \<Rightarrow> 'st play_state \<Rightarrow> 'st play_state" where
  "updateDraft a draft st = updateActive a (\<lambda>s. s\<lparr>ps_draft := draft\<rparr>) st"

definition newSession :: "play_session \<Rightarrow> 'st play_state \<Rightarrow> 'st play_state" where
  "newSession created st = st\<lparr>pst_sessions := created # pst_sessions st, pst_active := ps_id created\<rparr>"

definition renameSession :: "jsstr \<Rightarrow> jsstr \<Rightarrow> 'st play_state \<Rightarrow> 'st play_state" where
  "renameSession i title st =
     st\<lparr>pst_sessions := map (\<lambda>s. if ps_id s = i then s\<lparr>ps_title := title\<rparr> else s) (pst_sessions st)\<rparr>"

definition deleteSession :: "jsstr \<Rightarrow> play_session \<Rightarrow> 'st play_state \<Rightarrow> 'st play_state" where
  "deleteSession i created st =
     (let remaining = filter (\<lambda>s. ps_id s \<noteq> i) (pst_sessions st);
          nextSessions = (if remaining \<noteq> [] then remaining else [created])
      in st\<lparr>pst_sessions := nextSessions,
           pst_active := (if pst_active st = i then ps_id (hd nextSessions) else pst_active st)\<rparr>)"

definition clearSessions :: "play_session \<Rightarrow> 'st play_state \<Rightarrow> 'st play_state" where
  "clearSessions created st = st\<lparr>pst_sessions := [created], pst_active := ps_id created\<rparr>"

definition importMessages ::
  "'st transfer_storage \<Rightarrow> int \<Rightarrow> play_session \<Rightarrow> message list \<Rightarrow> 'st play_state \<Rightarrow> 'st play_state \<times> bool" where
  "importMessages api accountId created messages st =
     (let session = created\<lparr>ps_messages := messages, ps_title := first_question messages\<rparr>;
          nextSessions = session # pst_sessions st
      in case saveSessions api (pst_store st) accountId nextSessions of
           (store, True) \<Rightarrow> (st\<lparr>pst_sessions := nextSessions, pst_active := ps_id session, pst_store := store\<rparr>, True)
         | (store, False) \<Rightarrow> (st\<lparr>pst_store := store\<rparr>, False))"

definition resetConfig :: "jsstr \<Rightarrow> 'st play_state \<Rightarrow> 'st play_state" where
  "resetConfig a st = updateActive a (\<lambda>s. s\<lparr>ps_config := DEFAULT_CONFIG, ps_enabled := DEFAULT_PARAMETER_ENABLED\<rparr>) st"

inductive page_action :: "'st transfer_storage \<Rightarrow> int \<Rightarrow> 'st play_state \<Rightarrow> 'st play_state \<Rightarrow> bool" for api acc where
  config: "page_action api acc st (updateConfig a key v st)"
| enabled: "page_action api acc st (updateParameterEnabled a key b st)"
| messages: "page_action api acc st (updateMessages a now f st)"
| draft: "page_action api acc st (updateDraft a d st)"
| create: "page_action api acc st (newSession (createSession uuid now) st)"
| rename: "page_action api acc st (renameSession i title st)"
| delete: "page_action api acc st (deleteSession i (createSession uuid now) st)"
| clear: "page_action api acc st (clearSessions (createSession uuid now) st)"
| import_all: "page_action api acc st (fst (importMessages api acc (createSession uuid now) ms st))"
| reset: "page_action api acc st (resetConfig a st)"
| select: "i \<in> ps_id ` set (pst_sessions st) \<Longrightarrow> page_action api acc st (st\<lparr>pst_active := i\<rparr>)"

text \<open>Every action is followed by the effect that saves.\<close>

inductive page_reachable :: "'st transfer_storage \<Rightarrow> int \<Rightarrow> 'st play_state \<Rightarrow> bool" for api acc where
  start: "page_reachable api acc (save_effect api acc (usePlaygroundState api store acc grp (createSession uuid now)))"
| step: "page_reachable api acc st \<Longrightarrow> page_action api acc st st' \<Longrightarrow> page_reachable api acc (save_effect api acc st')"

definition active_ok :: "'st play_state \<Rightarrow> bool" where
  "active_ok st \<longleftrightarrow> pst_sessions st \<noteq> [] \<and> pst_active st \<in> ps_id ` set (pst_sessions st)"

lemma save_effect_fields [simp]:
  "pst_sessions (save_effect api acc st) = pst_sessions st" "pst_active (save_effect api acc st) = pst_active st"
  by (simp_all add: save_effect_def)

lemma load_nonempty: "fst (loadSessions api st acc fresh) \<noteq> []"
  by (auto simp: loadSessions_def split: option.splits jsval.splits)

lemma set_group_fields [simp]: "set_group g ss = [] \<longleftrightarrow> ss = []" "ps_id (hd (set_group g ss)) = ps_id (hd ss)"
  by (cases ss; simp add: set_group_def)+

lemma ok_start: "active_ok (usePlaygroundState api store acc grp fresh)"
proof -
  let ?ss = "set_group grp (fst (loadSessions api store acc fresh))"
  have "?ss \<noteq> []" by (simp add: load_nonempty)
  then have "ps_id (hd ?ss) \<in> ps_id ` set ?ss" by (rule imageI [OF hd_in_set])
  with \<open>?ss \<noteq> []\<close> show ?thesis by (simp add: active_ok_def usePlaygroundState_def Let_def)
qed

lemma ok_update_active:
  assumes "active_ok st" and "\<And>s. ps_id (f s) = ps_id s"
  shows "active_ok (updateActive a f st)"
proof -
  have "map ps_id (map (\<lambda>s. if ps_id s = a then f s else s) ss) = map ps_id ss" for ss
    using assms(2) by simp
  then have "ps_id ` set (map (\<lambda>s. if ps_id s = a then f s else s) ss) = ps_id ` set ss" for ss
    by (metis image_set)
  then show ?thesis using assms(1) by (simp add: active_ok_def updateActive_def del: set_map)
qed

lemma ok_action: "page_action api acc st st' \<Longrightarrow> active_ok st \<Longrightarrow> active_ok st'"
proof (induction rule: page_action.induct)
  case (rename st i title)
  then show ?case using ok_update_active [of st "\<lambda>s. s\<lparr>ps_title := title\<rparr>" i] by (simp add: renameSession_def updateActive_def)
next
  case (delete st i uuid now)
  then show ?case by (auto simp: active_ok_def deleteSession_def Let_def filter_empty_conv)
next
  case (import_all st uuid now ms)
  then show ?case by (auto simp: active_ok_def importMessages_def Let_def split: prod.splits bool.splits)
qed (auto simp: updateConfig_def updateParameterEnabled_def updateMessages_def updateDraft_def resetConfig_def Let_def
      newSession_def clearSessions_def intro!: ok_update_active, auto simp: active_ok_def)

lemma ok_save_effect [simp]: "active_ok (save_effect api acc st) \<longleftrightarrow> active_ok st"
  by (simp add: active_ok_def)

lemma page_active_ok: "page_reachable api acc st \<Longrightarrow> active_ok st"
  by (induction rule: page_reachable.induct) (simp_all add: ok_start ok_action)

lemma activeSession_found:
  assumes "active_ok st"
  shows "activeSession st \<in> set (pst_sessions st)" "ps_id (activeSession st) = pst_active st"
proof -
  obtain s where "s \<in> set (pst_sessions st)" "ps_id s = pst_active st" using assms by (auto simp: active_ok_def)
  then obtain t where "find (\<lambda>s. ps_id s = pst_active st) (pst_sessions st) = Some t"
    by (cases "find (\<lambda>s. ps_id s = pst_active st) (pst_sessions st)") (auto simp: find_None_iff)
  moreover from this have "t \<in> set (pst_sessions st)" "ps_id t = pst_active st" by (auto simp: find_Some_iff)
  ultimately show "activeSession st \<in> set (pst_sessions st)" "ps_id (activeSession st) = pst_active st"
    by (simp_all add: activeSession_def)
qed

text \<open>Whatever the user does on the playground's page, starting from any stored text: there is
  always at least one conversation and the selected identifier is that of a conversation of the list,
  so that the page shows the conversation the user selected and never falls back to another one.\<close>

theorem sessions_active_valid:
  assumes "page_reachable api acc st"
  shows "activeSession st \<in> set (pst_sessions st) \<and> ps_id (activeSession st) = pst_active st"
  using activeSession_found [OF page_active_ok [OF assms]] by simp

theorem sessions_active_valid_witness:
  "pst_active (deleteSession (js ''b'') (createSession (js ''c'') (num_int 3)) (newSession (createSession (js ''b'') (num_int 2))
     (usePlaygroundState (session_storage 0) Map.empty 7 [] (createSession (js ''a'') (num_int 1))))) = js ''a'' \<and>
   ps_id (activeSession (save_effect (session_storage 0) 7 (newSession (createSession (js ''b'') (num_int 2))
     (save_effect (session_storage 0) 7 (usePlaygroundState (session_storage 0) Map.empty 7 [] (createSession (js ''a'') (num_int 1))))))) = js ''b''"
proof -
  let ?o = "usePlaygroundState (session_storage 0) Map.empty 7 [] (createSession (js ''a'') (num_int 1))"
  have "page_reachable (session_storage 0) 7 (save_effect (session_storage 0) 7
      (newSession (createSession (js ''b'') (num_int 2)) (save_effect (session_storage 0) 7 ?o)))"
    by (rule page_reachable.step [OF page_reachable.start page_action.create])
  from sessions_active_valid [OF this]
  show ?thesis
    by (simp add: deleteSession_def newSession_def usePlaygroundState_def set_group_def loadSessions_def session_storage_def
        createSession_def js_inject)
qed

subsection \<open>Saved conversations\<close>

text \<open>Conversations that were saved come back when the page is opened again: for every list of
  conversations of the shape the page builds, reading what was written gives the same conversations in the
  same order, with the same settings and drafts, except that a reply that was still being received
  is marked as interrupted; no failure is shown; and saving the conversations of one
  account changes nothing for any other account.\<close>

theorem sessions_reload:
  assumes "list_all wf_session ss" and "ss \<noteq> []" and "saveSessions (session_storage quota) st acc ss = (st', True)"
  shows "loadSessions (session_storage quota) st' acc fresh = (map reloaded ss, False) \<and>
    (\<forall>other. other \<noteq> acc \<longrightarrow>
      loadSessions (session_storage quota) st' other fresh = loadSessions (session_storage quota) st other fresh)"
  using session.reload_law [OF assms] session.other_account_law [OF assms(3)] by blast

text \<open>A conversation whose settings are whole numbers, for the examples.\<close>

definition sample_session :: "jsstr \<Rightarrow> message list \<Rightarrow> play_session" where
  "sample_session sid ms = (createSession sid (num_int 5))\<lparr>ps_messages := ms,
     ps_config := obj_put DEFAULT_CONFIG (js ''temperature'', JNum (num_int 1))\<rparr>"

lemma wf_sample:
  assumes "wf_units sid" and "list_all wf_message ms"
  shows "wf_session (sample_session sid ms)"
proof -
  have num: "num_token (num_int 0)" "num_token (num_int 1)" "num_token (num_int 5)" "num_token (num_int 4096)"
    by (rule safe_num_token, simp)+
  show ?thesis
    using assms num
    by (simp add: wf_session_def sample_session_def createSession_def extends_keys_def free_of_def DEFAULT_CONFIG_def
        DEFAULT_PARAMETER_ENABLED_def obj_put_def js_inject index_key_lit is_digit_def)
qed

lemma wf_loading: "wf_units k \<Longrightarrow> wf_units v \<Longrightarrow> wf_message (createLoadingAssistantMessage k v)"
  by (simp add: wf_message_def createLoadingAssistantMessage_def createMessageVersion_def free_of_def)

theorem sessions_reload_witness:
  "\<exists>quota st'. saveSessions (session_storage quota) Map.empty 7 [sample_session (js ''s'') [createLoadingAssistantMessage (js ''k'') (js ''v'')]] = (st', True) \<and>
     loadSessions (session_storage quota) st' 7 (createSession (js ''n'') (num_int 1)) =
       ([(sample_session (js ''s'') [])\<lparr>ps_messages := [sanitize_message (createLoadingAssistantMessage (js ''k'') (js ''v''))]\<rparr>], False)"
proof -
  let ?s = "sample_session (js ''s'') [createLoadingAssistantMessage (js ''k'') (js ''v'')]"
  have wf: "list_all wf_session [?s]" by (simp add: wf_sample wf_loading)
  let ?q = "length (sessionKey 7) + length (json_print (JArr (map session_val [?s])))"
  obtain st' where sv: "saveSessions (session_storage ?q) Map.empty 7 [?s] = (st', True)"
    by (simp add: saveSessions_def session_storage_def)
  have "reloaded ?s = (sample_session (js ''s'') [])\<lparr>ps_messages := [sanitize_message (createLoadingAssistantMessage (js ''k'') (js ''v''))]\<rparr>"
    by (simp add: reloaded_def sample_session_def createSession_def sanitizeMessagesOnLoad_def is_stuck_def createLoadingAssistantMessage_def)
  then show ?thesis using sessions_reload [OF wf _ sv] sv by auto
qed

subsection \<open>A conversation that cannot be read\<close>

lemma load_all_None: "v \<in> set vs \<Longrightarrow> load_session v = None \<Longrightarrow> load_all vs = None"
  by (induction vs) (auto split: option.splits)

text \<open>One stored conversation that is not valid (a message of an unknown kind is enough) makes the
  page forget all of them: it starts with a single empty conversation, and the effect that saves runs right
  away and replaces the stored text, so that the valid conversations are gone from the storage as
  well, although the user has done nothing.\<close>

theorem invalid_session_erases_all:
  assumes "st (sessionKey acc) = Some saved" and "saved \<noteq> []" and "json_parse saved = Some (JArr vs)"
    and "v \<in> set vs" and "load_session v = None"
    and "length (sessionKey acc) + length (json_print (JArr [session_val (createSession uuid now)])) \<le> quota"
  shows "let page = save_effect (session_storage quota) acc
           (usePlaygroundState (session_storage quota) st acc [] (createSession uuid now))
    in pst_sessions page = [createSession uuid now] \<and>
       pst_store page (sessionKey acc) = Some (json_print (JArr [session_val (createSession uuid now)]))"
  using assms load_all_None [OF assms(4,5)]
  by (simp add: save_effect_def usePlaygroundState_def set_group_def loadSessions_def saveSessions_def session_storage_def Let_def
      del: json_print.simps)

text \<open>In the example the storage holds a conversation with all its messages and one with an unknown role.\<close>

definition odd_session :: jsval where
  "odd_session = JObj [(js ''id'', JStr (js ''o'')), (js ''title'', JStr []), (js ''updatedAt'', JNum (num_int 5)),
     (js ''messages'', JArr [JObj [(js ''key'', JStr (js ''m'')), (js ''from'', JStr (js ''tool'')), (js ''versions'', JArr [])]])]"

theorem invalid_session_erases_all_witness:
  "\<exists>st quota. st (sessionKey 7) = Some (json_print (JArr [session_val (sample_session (js ''s'') [createLoadingAssistantMessage (js ''k'') (js ''v'')]), odd_session])) \<and>
     pst_sessions (save_effect (session_storage quota) 7
       (usePlaygroundState (session_storage quota) st 7 [] (createSession (js ''n'') (num_int 1)))) = [createSession (js ''n'') (num_int 1)]"
proof -
  let ?vs = "[session_val (sample_session (js ''s'') [createLoadingAssistantMessage (js ''k'') (js ''v'')]), odd_session]"
  let ?q = "length (sessionKey 7) + length (json_print (JArr [session_val (createSession (js ''n'') (num_int 1))]))"
  let ?st = "[sessionKey 7 \<mapsto> json_print (JArr ?vs)]"
  have "plain odd_session"
    using safe_num_token [of "num_int 5"]
    by (simp add: odd_session_def js_inject index_key_lit is_digit_def)
  moreover have "plain (hd ?vs)" by (simp add: plain_session wf_sample wf_loading)
  ultimately have pl: "plain (JArr ?vs)" by simp
  have "json_print (JArr ?vs) \<noteq> []" using json_print_first [OF pl] by auto
  moreover have "load_session odd_session = None"
    by (simp add: odd_session_def load_session_def isMessage_def role_of_def js_inject)
  ultimately have "pst_sessions (save_effect (session_storage ?q) 7
       (usePlaygroundState (session_storage ?q) ?st 7 [] (createSession (js ''n'') (num_int 1)))) = [createSession (js ''n'') (num_int 1)]"
    using invalid_session_erases_all [of ?st 7 "json_print (JArr ?vs)" ?vs odd_session "js ''n''" "num_int 1" ?q] json_roundtrip [OF pl]
    by (simp add: Let_def del: json_print.simps)
  moreover have "?st (sessionKey 7) = Some (json_print (JArr ?vs))" by (simp del: json_print.simps)
  ultimately show ?thesis by blast
qed

subsection \<open>Replies to a conversation in the background\<close>

text \<open>What the user may do while a reply to conversation \<open>a\<close> arrives: everything but deleting it,
  clearing the list, or changing its messages.\<close>

inductive away_action :: "'st transfer_storage \<Rightarrow> int \<Rightarrow> jsstr \<Rightarrow> 'st play_state \<Rightarrow> 'st play_state \<Rightarrow> bool" for api acc a where
  config: "away_action api acc a st (updateConfig b key v st)"
| enabled: "away_action api acc a st (updateParameterEnabled b key e st)"
| messages: "b \<noteq> a \<Longrightarrow> away_action api acc a st (updateMessages b now f st)"
| draft: "away_action api acc a st (updateDraft b d st)"
| create: "away_action api acc a st (newSession (createSession uuid now) st)"
| rename: "away_action api acc a st (renameSession i title st)"
| delete: "i \<noteq> a \<Longrightarrow> away_action api acc a st (deleteSession i (createSession uuid now) st)"
| import_all: "away_action api acc a st (fst (importMessages api acc (createSession uuid now) ms st))"
| reset: "away_action api acc a st (resetConfig b st)"
| select: "away_action api acc a st (st\<lparr>pst_active := i\<rparr>)"
| save: "away_action api acc a st (save_effect api acc st)"

definition holds :: "jsstr \<Rightarrow> message list \<Rightarrow> 'st play_state \<Rightarrow> bool" where
  "holds a ms st \<longleftrightarrow> (\<exists>s \<in> set (pst_sessions st). ps_id s = a \<and> ps_messages s = ms)"

lemma holds_update:
  assumes "holds a ms st" and "\<And>s. ps_id (f s) = ps_id s" and "b = a \<Longrightarrow> \<forall>s. ps_messages (f s) = ps_messages s"
  shows "holds a ms (updateActive b f st)"
proof -
  obtain s where s: "s \<in> set (pst_sessions st)" "ps_id s = a" "ps_messages s = ms" using assms(1) by (auto simp: holds_def)
  let ?s = "if ps_id s = b then f s else s"
  have "?s \<in> set (pst_sessions (updateActive b f st))" using s(1) by (simp add: updateActive_def)
  moreover have "ps_id ?s = a" "ps_messages ?s = ms" using s assms(2,3) by simp_all
  ultimately show ?thesis unfolding holds_def by blast
qed

lemma filter_update:
  assumes "\<And>s. ps_id (g s) = ps_id s"
  shows "filter (\<lambda>s. ps_id s \<noteq> a) (pst_sessions (updateActive a g st)) = filter (\<lambda>s. ps_id s \<noteq> a) (pst_sessions st)"
proof -
  have "filter (\<lambda>s. ps_id s \<noteq> a) (map (\<lambda>s. if ps_id s = a then g s else s) ss) = filter (\<lambda>s. ps_id s \<noteq> a) ss" for ss
    using assms by (induction ss) auto
  then show ?thesis by (simp add: updateActive_def)
qed

lemma holds_away: "away_action api acc a st st' \<Longrightarrow> holds a ms st \<Longrightarrow> holds a ms st'"
proof (induction rule: away_action.induct)
  case (rename st i title)
  then show ?case
    using holds_update [of a ms st "\<lambda>s. s\<lparr>ps_title := title\<rparr>" i] by (simp add: renameSession_def updateActive_def)
next
  case (import_all st uuid now ms')
  then show ?case by (auto simp: holds_def importMessages_def Let_def split: prod.splits bool.splits)
next
  case (delete i st uuid now)
  then show ?case by (auto simp: holds_def deleteSession_def Let_def filter_empty_conv)
qed (auto simp: updateConfig_def updateParameterEnabled_def updateMessages_def updateDraft_def resetConfig_def Let_def
      intro!: holds_update, auto simp: holds_def newSession_def)

text \<open>A reply ends up in the conversation it was asked in. The handlers of a request keep the updater
  of the conversation that was active when it was sent; whatever the user does in the meantime
  (other conversations, new ones, renaming, deleting others, importing, changing settings),
  applying an update then changes the messages that conversation had, and no other conversation,
  and does not take the user away from the one selected.\<close>

theorem reply_stays_home:
  assumes "(away_action api acc a)\<^sup>*\<^sup>* st st'" and "s \<in> set (pst_sessions st)" and "ps_id s = a"
  shows "(\<exists>s' \<in> set (pst_sessions (updateMessages a now f st')). ps_id s' = a \<and> ps_messages s' = f (ps_messages s)) \<and>
    filter (\<lambda>s. ps_id s \<noteq> a) (pst_sessions (updateMessages a now f st')) = filter (\<lambda>s. ps_id s \<noteq> a) (pst_sessions st') \<and>
    pst_active (updateMessages a now f st') = pst_active st'"
proof -
  have "holds a (ps_messages s) st" using assms(2,3) by (auto simp: holds_def)
  with assms(1) have "holds a (ps_messages s) st'" by (induction rule: rtranclp_induct) (auto intro: holds_away)
  then obtain t where t: "t \<in> set (pst_sessions st')" "ps_id t = a" "ps_messages t = ps_messages s" by (auto simp: holds_def)
  let ?g = "\<lambda>s. let messages = f (ps_messages s) in s\<lparr>ps_messages := messages, ps_updatedAt := now,
      ps_title := (if ps_title s \<noteq> [] then ps_title s else first_question messages)\<rparr>"
  have "?g t \<in> set (pst_sessions (updateMessages a now f st'))"
    unfolding updateMessages_def updateActive_def using t(1,2) by (auto simp: image_iff)
  moreover have "ps_id (?g t) = a" "ps_messages (?g t) = f (ps_messages s)" using t(2,3) by (simp_all add: Let_def)
  ultimately have "\<exists>s' \<in> set (pst_sessions (updateMessages a now f st')). ps_id s' = a \<and> ps_messages s' = f (ps_messages s)" by blast
  moreover have "filter (\<lambda>s. ps_id s \<noteq> a) (pst_sessions (updateMessages a now f st')) = filter (\<lambda>s. ps_id s \<noteq> a) (pst_sessions st')"
    unfolding updateMessages_def by (rule filter_update) (simp add: Let_def)
  moreover have "pst_active (updateMessages a now f st') = pst_active st'" by (simp add: updateMessages_def updateActive_def)
  ultimately show ?thesis by blast
qed

theorem reply_stays_home_witness:
  "map ps_messages (pst_sessions (updateMessages (js ''a'') (num_int 3) (\<lambda>ms. createUserMessage (js ''k'') (js ''v'') (js ''hi'') # ms)
     (newSession (createSession (js ''b'') (num_int 2))
       \<lparr>pst_sessions = [createSession (js ''a'') (num_int 1)], pst_active = js ''a'', pst_store = ()\<rparr>))) =
   [[], [createUserMessage (js ''k'') (js ''v'') (js ''hi'')]]"
proof -
  let ?st = "\<lparr>pst_sessions = [createSession (js ''a'') (num_int 1)], pst_active = js ''a'', pst_store = ()\<rparr>"
  let ?st' = "newSession (createSession (js ''b'') (num_int 2)) ?st"
  have "(away_action api acc (js ''a''))\<^sup>*\<^sup>* ?st ?st'" for api acc by (intro r_into_rtranclp away_action.create)
  from reply_stays_home [OF this, of "createSession (js ''a'') (num_int 1)" "num_int 3"
      "\<lambda>ms. createUserMessage (js ''k'') (js ''v'') (js ''hi'') # ms"]
  show ?thesis by (simp add: newSession_def updateMessages_def updateActive_def createSession_def js_inject Let_def)
qed

end
