(* ===== verification/PlaygroundPage.thy ===== *)
theory PlaygroundPage
  imports PlaygroundSessions
begin

section \<open>Playground: the page\<close>

text \<open>
  The handlers and effects of \<open>features/playground/index.tsx\<close>: choosing the model and the group
  when their lists arrive, sending, regenerating and editing messages, and importing the messages of the
  former storage format. The lists of models and groups are the lists of their values; random identifiers
  are arguments. An editing step on a message without versions gives it one with an empty
  identifier where the code leaves it undefined.
\<close>

subsection \<open>Available models and groups\<close>

definition config_get :: "'st play_state \<Rightarrow> string \<Rightarrow> jsval" where
  "config_get st key = obj_get (JObj (ps_config (activeSession st))) (js key)"

text \<open>\<open>applied\<close> is the reference that remembers which initial model was applied; the list is
  \<open>None\<close> until the query has answered.\<close>

definition model_effect ::
  "jsstr list option \<Rightarrow> jsstr \<Rightarrow> jsstr option \<times> 'st play_state \<Rightarrow> jsstr option \<times> 'st play_state" where
  "model_effect modelsData initialModel = (\<lambda>(applied, st).
     case modelsData of
       None \<Rightarrow> (applied, st)
     | Some models \<Rightarrow>
         if initialModel \<noteq> [] \<and> applied \<noteq> Some initialModel \<and> initialModel \<in> set models
         then (Some initialModel, updateConfig (pst_active st) (js ''model'') (JStr initialModel) st)
         else if models \<noteq> [] \<and> config_get st ''model'' \<notin> JStr ` set models
         then (applied, updateConfig (pst_active st) (js ''model'') (JStr (hd models)) st)
         else (applied, st))"

definition fallback_group :: "jsstr list \<Rightarrow> jsstr" where
  "fallback_group groups =
     (if js ''auto'' \<in> set groups then js ''auto''
      else if js ''default'' \<in> set groups then js ''default'' else hd groups)"

definition group_effect ::
  "jsstr list option \<Rightarrow> jsstr \<Rightarrow> jsstr option \<times> 'st play_state \<Rightarrow> jsstr option \<times> 'st play_state" where
  "group_effect groupsData initialGroup = (\<lambda>(applied, st).
     case groupsData of
       None \<Rightarrow> (applied, st)
     | Some groups \<Rightarrow>
         if initialGroup \<noteq> [] \<and> applied \<noteq> Some initialGroup \<and> initialGroup \<in> set groups
         then (Some initialGroup, updateConfig (pst_active st) (js ''group'') (JStr initialGroup) st)
         else if config_get st ''group'' \<notin> JStr ` set groups \<and> groups \<noteq> []
         then (applied, updateConfig (pst_active st) (js ''group'') (JStr (fallback_group groups)) st)
         else (applied, st))"

subsection \<open>Requests\<close>

record request_env =
  re_isGenerating :: bool
  re_modelsPending :: bool
  re_models :: "jsstr list"

text \<open>The property of a message that holds the earlier attempts, and a message without it.\<close>

definition attempts_of :: "message \<Rightarrow> jsval list" where
  "attempts_of m = arr_of (obj_get (JObj (msg_others m)) (js ''attempts''))"

definition without_attempts :: "message \<Rightarrow> message" where
  "without_attempts m = m\<lparr>msg_others := filter (\<lambda>p. fst p \<noteq> js ''attempts'') (msg_others m)\<rparr>"

definition response_message :: "'st play_state \<Rightarrow> jsstr \<Rightarrow> jsstr \<Rightarrow> jsval list option \<Rightarrow> message" where
  "response_message st key nid attempts =
     (createLoadingAssistantMessage key nid)\<lparr>msg_others :=
        put_opt ''attempts'' JArr attempts
          (put_if True ''group'' (config_get st ''group'') (put_if True ''model'' (config_get st ''model'') []))\<rparr>"

text \<open>\<open>None\<close>: the request is refused and nothing happens; otherwise the messages that are stored
  and sent.\<close>

definition startRequest ::
  "request_env \<Rightarrow> 'st play_state \<Rightarrow> jsstr \<Rightarrow> jsstr \<Rightarrow> message list \<Rightarrow> jsval list option \<Rightarrow> message list option" where
  "startRequest env st key nid nextMessages attempts =
     (if re_isGenerating env \<or> re_modelsPending env \<or> config_get st ''model'' \<notin> JStr ` set (re_models env) then None
      else Some (nextMessages @ [response_message st key nid attempts]))"

definition request_update :: "jsnum \<Rightarrow> 'st play_state \<Rightarrow> message list option \<Rightarrow> 'st play_state" where
  "request_update now st sent =
     (case sent of None \<Rightarrow> st | Some next \<Rightarrow> updateMessages (pst_active st) now (\<lambda>_. next) st)"

definition sendMessage ::
  "request_env \<Rightarrow> 'st play_state \<Rightarrow> jsstr \<Rightarrow> jsstr \<Rightarrow> jsstr \<Rightarrow> jsstr \<Rightarrow> jsstr \<Rightarrow> message list option" where
  "sendMessage env st key nid ukey unid content =
     startRequest env st key nid (ps_messages (activeSession st) @ [createUserMessage ukey unid content]) None"

fun findIndex :: "('a \<Rightarrow> bool) \<Rightarrow> 'a list \<Rightarrow> nat option" where
  "findIndex P [] = None"
| "findIndex P (x # xs) = (if P x then Some 0 else map_option Suc (findIndex P xs))"

definition regenerate :: "request_env \<Rightarrow> 'st play_state \<Rightarrow> jsstr \<Rightarrow> jsstr \<Rightarrow> message \<Rightarrow> message list option" where
  "regenerate env st key nid m =
     (let messages = ps_messages (activeSession st)
      in case findIndex (\<lambda>item. msg_key item = msg_key m) messages of
           Some index \<Rightarrow> startRequest env st key nid (take index messages)
             (Some (attempts_of m @ [message_val (without_attempts m)]))
         | None \<Rightarrow> None)"

definition edit_version :: "jsstr \<Rightarrow> message \<Rightarrow> message" where
  "edit_version content m =
     m\<lparr>msg_versions := [case msg_versions m of v # _ \<Rightarrow> v\<lparr>version_content := content\<rparr>
        | [] \<Rightarrow> \<lparr>version_id = [], version_content = content\<rparr>]\<rparr>"

text \<open>The key of the edited message after the step, the conversations, and the messages sent.\<close>

definition applyEdit ::
  "request_env \<Rightarrow> 'st play_state \<Rightarrow> jsstr \<Rightarrow> jsstr \<Rightarrow> jsnum \<Rightarrow> jsstr option \<Rightarrow> jsstr \<Rightarrow> bool
   \<Rightarrow> jsstr option \<times> 'st play_state \<times> message list option" where
  "applyEdit env st key nid now editingKey content submit =
     (let messages = ps_messages (activeSession st)
      in case findIndex (\<lambda>m. Some (msg_key m) = editingKey) messages of
           None \<Rightarrow> (editingKey, st, None)
         | Some index \<Rightarrow>
             if re_isGenerating env then (editingKey, st, None)
             else
               let edited = map (\<lambda>m. if Some (msg_key m) = editingKey then edit_version content m else m) messages
               in if submit \<and> msg_from (edited ! index) = RoleUser
                  then let sent = startRequest env st key nid (take (index + 1) edited) None
                       in (None, request_update now st sent, sent)
                  else (None, updateMessages (pst_active st) now (\<lambda>_. edited) st, None))"

subsection \<open>Messages of the former storage format\<close>

text \<open>The import branch of the confirmation: the state and whether the dialog closes.\<close>

definition confirm_import :: "'st transfer_storage \<Rightarrow> int \<Rightarrow> play_session \<Rightarrow> 'st play_state \<Rightarrow> 'st play_state \<times> bool" where
  "confirm_import api accountId created st =
     (case readLegacyMessages api (pst_store st) of
        None \<Rightarrow> (st, False)
      | Some messages \<Rightarrow>
          (case importMessages api accountId created messages st of
             (st', False) \<Rightarrow> (st', False)
           | (st', True) \<Rightarrow>
               (case removeLegacyMessages api (pst_store st') of
                  None \<Rightarrow> (st', False)
                | Some store \<Rightarrow> (st'\<lparr>pst_store := store\<rparr>, True))))"

text \<open>The confirmation of a dialog: the state and whether the dialog closes.\<close>

datatype session_dialog = DlgRename jsstr | DlgDelete jsstr | DlgClear | DlgImport

definition confirmDialog ::
  "'st transfer_storage \<Rightarrow> int \<Rightarrow> play_session \<Rightarrow> jsstr \<Rightarrow> session_dialog option \<Rightarrow> 'st play_state \<Rightarrow> 'st play_state \<times> bool" where
  "confirmDialog api accountId created sessionName dialog st =
     (case dialog of
        None \<Rightarrow> (st, False)
      | Some (DlgRename i) \<Rightarrow> (renameSession i (trim sessionName) st, True)
      | Some (DlgDelete i) \<Rightarrow> (deleteSession i created st, True)
      | Some DlgClear \<Rightarrow> (clearSessions created st, True)
      | Some DlgImport \<Rightarrow> confirm_import api accountId created st)"

subsection \<open>The effects settle\<close>

lemma find_map_update:
  assumes "\<And>s. ps_id (f s) = ps_id s"
  shows "find (\<lambda>s. ps_id s = a) (map (\<lambda>s. if ps_id s = a then f s else s) ss) = map_option f (find (\<lambda>s. ps_id s = a) ss)"
  by (induction ss) (auto simp: assms)

lemma active_updateActive:
  assumes "active_ok st" and "\<And>s. ps_id (f s) = ps_id s"
  shows "activeSession (updateActive (pst_active st) f st) = f (activeSession st)"
proof -
  obtain t where "find (\<lambda>s. ps_id s = pst_active st) (pst_sessions st) = Some t"
    using assms(1) by (cases "find (\<lambda>s. ps_id s = pst_active st) (pst_sessions st)") (auto simp: find_None_iff active_ok_def)
  then show ?thesis by (simp add: activeSession_def updateActive_def find_map_update assms(2))
qed

lemma config_get_update [simp]:
  "active_ok st \<Longrightarrow> config_get (updateConfig (pst_active st) (js k) v st) k' = (if k' = k then v else config_get st k')"
  by (simp add: config_get_def updateConfig_def active_updateActive js_inject)

lemma updateConfig_active [simp]: "pst_active (updateConfig a k v st) = pst_active st"
  by (simp add: updateConfig_def updateActive_def)

lemma fallback_in: "groups \<noteq> [] \<Longrightarrow> fallback_group groups \<in> set groups"
  by (simp add: fallback_group_def)

text \<open>When the lists of models and groups arrive, one run of the two effects puts the active
  conversation on a model and a group of the lists, and running them again changes nothing: the effects do not
  trigger each other or themselves for ever.\<close>

theorem selection_settles:
  assumes "active_ok st" and "models \<noteq> []" and "groups \<noteq> []"
    and "model_effect (Some models) initialModel (am, st) = (am', st1)"
    and "group_effect (Some groups) initialGroup (ag, st1) = (ag', st2)"
  shows "config_get st2 ''model'' \<in> JStr ` set models \<and> config_get st2 ''group'' \<in> JStr ` set groups \<and>
    model_effect (Some models) initialModel (am', st2) = (am', st2) \<and>
    group_effect (Some groups) initialGroup (ag', st2) = (ag', st2)"
proof -
  have st1: "active_ok st1" "config_get st1 ''model'' \<in> JStr ` set models"
      "\<not> (initialModel \<noteq> [] \<and> am' \<noteq> Some initialModel \<and> initialModel \<in> set models)"
    using assms(1,2,4)
    by (auto simp: model_effect_def updateConfig_def ok_update_active config_get_update [unfolded updateConfig_def] split: if_splits)
  have st2: "config_get st2 ''model'' = config_get st1 ''model''" "config_get st2 ''group'' \<in> JStr ` set groups"
      "\<not> (initialGroup \<noteq> [] \<and> ag' \<noteq> Some initialGroup \<and> initialGroup \<in> set groups)"
    using assms(3,5) st1(1) fallback_in [OF assms(3)] by (auto simp: group_effect_def split: if_splits)
  show ?thesis using st1 st2 by (auto simp: model_effect_def group_effect_def)
qed

theorem selection_settles_witness:
  "config_get (snd (group_effect (Some [js ''vip'', js ''default'']) [] (Some [], snd (model_effect (Some [js ''m1'', js ''m2'']) (js ''m2'') (None,
     \<lparr>pst_sessions = [createSession (js ''a'') (num_int 1)], pst_active = js ''a'', pst_store = ()\<rparr>))))) ''group'' = JStr (js ''default'')"
proof -
  let ?st = "\<lparr>pst_sessions = [createSession (js ''a'') (num_int 1)], pst_active = js ''a'', pst_store = ()\<rparr>"
  let ?m = "model_effect (Some [js ''m1'', js ''m2'']) (js ''m2'') (None, ?st)"
  let ?g = "group_effect (Some [js ''vip'', js ''default'']) [] (Some [], snd ?m)"
  have ok: "active_ok ?st" by (simp add: active_ok_def createSession_def)
  have "config_get (snd ?g) ''group'' \<in> JStr ` set [js ''vip'', js ''default'']"
    using selection_settles [OF ok, of "[js ''m1'', js ''m2'']" "[js ''vip'', js ''default'']" "js ''m2''" None
        "fst ?m" "snd ?m" "[]" "Some []" "fst ?g" "snd ?g"] by simp
  moreover have "config_get (snd ?g) ''group'' \<noteq> JStr (js ''vip'')"
    by (simp add: group_effect_def model_effect_def config_get_def activeSession_def updateConfig_def updateActive_def
        createSession_def DEFAULT_CONFIG_def obj_put_def js_inject fallback_group_def)
  ultimately show ?thesis by auto
qed

subsection \<open>Sending, regenerating and editing\<close>

lemma findIndex_Some:
  "findIndex P xs = Some i \<Longrightarrow> i < length xs \<and> P (xs ! i) \<and> (\<forall>j < i. \<not> P (xs ! j))"
proof (induction xs arbitrary: i)
  case (Cons x xs)
  then show ?case by (cases i) (auto split: if_splits simp: less_Suc_eq_0_disj)
qed simp

lemma map_before_first:
  assumes "findIndex P xs = Some i"
  shows "take i (map (\<lambda>x. if P x then f x else x) xs) = take i xs"
  using findIndex_Some [OF assms] by (intro nth_equalityI) auto

lemma edit_keeps [simp]: "msg_key (edit_version c m) = msg_key m" "msg_from (edit_version c m) = msg_from m"
  by (simp_all add: edit_version_def)

lemma active_updateMessages:
  assumes "active_ok st"
  shows "ps_messages (activeSession (updateMessages (pst_active st) now f st)) = f (ps_messages (activeSession st))"
  using assms by (simp add: updateMessages_def active_updateActive Let_def)

text \<open>Submitting an edited question asks again from that point: what is sent, and what the conversation holds
  afterwards, is the untouched beginning of the conversation, the question with its new text and a
  reply that is being loaded; everything after the question is dropped and the editor is closed.\<close>

theorem edit_resends_prefix:
  assumes "active_ok st" and "\<not> re_isGenerating env" and "\<not> re_modelsPending env"
    and "config_get st ''model'' \<in> JStr ` set (re_models env)"
    and "findIndex (\<lambda>m. msg_key m = k) (ps_messages (activeSession st)) = Some i"
    and "msg_from (ps_messages (activeSession st) ! i) = RoleUser"
  shows "\<exists>st'. applyEdit env st key nid now (Some k) content True =
      (None, st', Some (take i (ps_messages (activeSession st)) @
        [edit_version content (ps_messages (activeSession st) ! i), response_message st key nid None])) \<and>
    ps_messages (activeSession st') = take i (ps_messages (activeSession st)) @
        [edit_version content (ps_messages (activeSession st) ! i), response_message st key nid None]"
proof -
  let ?ms = "ps_messages (activeSession st)"
  let ?ed = "map (\<lambda>m. if msg_key m = k then edit_version content m else m) ?ms"
  have i: "i < length ?ms" "msg_key (?ms ! i) = k" using findIndex_Some [OF assms(5)] by auto
  then have "take (Suc i) ?ed = take i ?ms @ [edit_version content (?ms ! i)]"
    by (simp add: take_Suc_conv_app_nth map_before_first [OF assms(5)] del: take_map)
  then show ?thesis
    using assms i by (simp add: applyEdit_def startRequest_def request_update_def active_updateMessages Let_def del: take_map)
qed

theorem edit_resends_prefix_witness:
  "snd (snd (applyEdit \<lparr>re_isGenerating = False, re_modelsPending = False, re_models = [js ''gpt-4o'']\<rparr>
     \<lparr>pst_sessions = [(createSession (js ''a'') (num_int 1))\<lparr>ps_messages := [createUserMessage (js ''u'') (js ''v'') (js ''hi''),
        createLoadingAssistantMessage (js ''k'') (js ''w'')]\<rparr>], pst_active = js ''a'', pst_store = ()\<rparr>
     (js ''k2'') (js ''w2'') (num_int 2) (Some (js ''u'')) (js ''hello'') True)) \<noteq> None"
proof -
  let ?env = "\<lparr>re_isGenerating = False, re_modelsPending = False, re_models = [js ''gpt-4o'']\<rparr>"
  let ?st = "\<lparr>pst_sessions = [(createSession (js ''a'') (num_int 1))\<lparr>ps_messages := [createUserMessage (js ''u'') (js ''v'') (js ''hi''),
        createLoadingAssistantMessage (js ''k'') (js ''w'')]\<rparr>], pst_active = js ''a'', pst_store = ()\<rparr>"
  have act: "activeSession ?st = (createSession (js ''a'') (num_int 1))\<lparr>ps_messages := [createUserMessage (js ''u'') (js ''v'') (js ''hi''),
        createLoadingAssistantMessage (js ''k'') (js ''w'')]\<rparr>"
    by (simp add: activeSession_def createSession_def)
  have "active_ok ?st" by (simp add: active_ok_def createSession_def)
  moreover have "config_get ?st ''model'' \<in> JStr ` set (re_models ?env)"
    unfolding config_get_def act by (simp add: createSession_def DEFAULT_CONFIG_def js_inject)
  moreover have "findIndex (\<lambda>m. msg_key m = js ''u'') (ps_messages (activeSession ?st)) = Some 0"
      "msg_from (ps_messages (activeSession ?st) ! 0) = RoleUser"
    unfolding act by (simp_all add: createUserMessage_def)
  ultimately obtain st' sent where "applyEdit ?env ?st (js ''k2'') (js ''w2'') (num_int 2) (Some (js ''u'')) (js ''hello'') True =
      (None, st', Some sent)"
    using edit_resends_prefix [of ?st ?env "js ''u''" 0] by fastforce
  then show ?thesis by simp
qed

text \<open>An edited question that is submitted while the models are still being loaded, or when the
  chosen model is not available, is lost: the editor closes, nothing is sent and the conversation
  keeps the old text.\<close>

lemma submitted_edit_lost:
  assumes "findIndex (\<lambda>m. msg_key m = k) (ps_messages (activeSession st)) = Some i"
    and "msg_from (ps_messages (activeSession st) ! i) = RoleUser" and "re_modelsPending env"
  shows "applyEdit env st key nid now (Some k) content True =
    (if re_isGenerating env then Some k else None, st, None)"
  using assms findIndex_Some [OF assms(1)] by (simp add: applyEdit_def startRequest_def request_update_def Let_def)

text \<open>Regenerating keeps every earlier attempt and adds the replaced reply as the last one.\<close>

lemma regenerate_keeps_attempts:
  assumes "regenerate env st key nid m = Some sent"
  shows "attempts_of (last sent) = attempts_of m @ [message_val (without_attempts m)] \<and>
    (\<exists>i. findIndex (\<lambda>item. msg_key item = msg_key m) (ps_messages (activeSession st)) = Some i \<and>
      butlast sent = take i (ps_messages (activeSession st)))"
  using assms
  by (auto simp: regenerate_def startRequest_def response_message_def attempts_of_def arr_of_def Let_def
      split: option.splits if_splits)

subsection \<open>Importing\<close>

lemma legacy_key_other: "legacy_key \<noteq> sessionKey acc"
  by (simp add: legacy_key_def sessionKey_def js_lit)

context web_storage
begin

lemma import_law:
  assumes "confirm_import api acc created st = (st', ok)"
    and "list_all wf_session (pst_sessions st)" and "wf_session created"
    and "\<And>ms. readLegacyMessages api (pst_store st) = Some ms \<Longrightarrow> list_all wf_message ms"
    and "wf_units (first_question (case readLegacyMessages api (pst_store st) of Some ms \<Rightarrow> ms | None \<Rightarrow> []))"
  shows "get_item api (pst_store st') legacy_key = get_item api (pst_store st) legacy_key \<or>
    (\<exists>ms. readLegacyMessages api (pst_store st) = Some ms \<and>
       loadSessions api (pst_store st') acc fresh =
         (map reloaded (created\<lparr>ps_messages := ms, ps_title := first_question ms\<rparr> # pst_sessions st), False))"
proof (cases "readLegacyMessages api (pst_store st)")
  case None
  then show ?thesis using assms(1) by (simp add: confirm_import_def)
next
  case (Some ms)
  let ?ss = "created\<lparr>ps_messages := ms, ps_title := first_question ms\<rparr> # pst_sessions st"
  have wf: "list_all wf_session ?ss" using assms(2-5) Some by (auto simp: wf_session_def)
  obtain sto b where sv: "saveSessions api (pst_store st) acc ?ss = (sto, b)" by fastforce
  show ?thesis
  proof (cases "b = True")
    case False
    then have "sto = pst_store st" using sv by (auto simp: saveSessions_def split: option.splits)
    then show ?thesis using assms(1) Some sv False by (simp add: confirm_import_def importMessages_def Let_def)
  next
    case True
    have key: "get_item api sto legacy_key = get_item api (pst_store st) legacy_key"
      using sv get_set_other [of "pst_store st" "sessionKey acc" _ sto legacy_key] legacy_key_other [of acc]
      by (auto simp: saveSessions_def split: option.splits)
    have load: "loadSessions api sto acc fresh = (map reloaded ?ss, False)"
      using reload_law [OF wf] sv True by simp
    show ?thesis
    proof (cases "remove_item api sto legacy_key")
      case None
      then show ?thesis
        using assms(1) Some sv True key by (auto simp: confirm_import_def importMessages_def removeLegacyMessages_def Let_def)
    next
      case (Some sto')
      have "get_item api sto' (sessionKey acc) = get_item api sto (sessionKey acc)"
        using get_remove_other [OF Some] legacy_key_other [of acc] by simp
      then have "loadSessions api sto' acc fresh = loadSessions api sto acc fresh" by (simp add: loadSessions_def)
      moreover have "pst_store st' = sto'"
        using assms(1) \<open>readLegacyMessages api (pst_store st) = Some ms\<close> sv True Some
        by (auto simp: confirm_import_def importMessages_def removeLegacyMessages_def Let_def)
      ultimately show ?thesis using load \<open>readLegacyMessages api (pst_store st) = Some ms\<close> by auto
    qed
  qed
qed

end

text \<open>Importing the messages of the former format loses nothing, whatever fails: after the
  confirmation the old text is still in the storage, or the messages are stored as a new
  conversation, in front of the conversations the account had, and opening the page shows it.\<close>

theorem legacy_import_safe:
  assumes "confirm_import (session_storage quota) acc created st = (st', ok)"
    and "list_all wf_session (pst_sessions st)" and "wf_session created"
    and "\<And>ms. readLegacyMessages (session_storage quota) (pst_store st) = Some ms \<Longrightarrow> list_all wf_message ms \<and> wf_units (first_question ms)"
  shows "pst_store st' legacy_key = pst_store st legacy_key \<or>
    (\<exists>ms. readLegacyMessages (session_storage quota) (pst_store st) = Some ms \<and>
       loadSessions (session_storage quota) (pst_store st') acc fresh =
         (map reloaded (created\<lparr>ps_messages := ms, ps_title := first_question ms\<rparr> # pst_sessions st), False))"
proof -
  have "wf_units (first_question (case readLegacyMessages (session_storage quota) (pst_store st) of Some ms \<Rightarrow> ms | None \<Rightarrow> []))"
    using assms(4) by (auto simp: first_question_def split: option.splits)
  from session.import_law [OF assms(1-3) _ this] show ?thesis using assms(4) by (simp add: session_storage_def)
qed

text \<open>In the example the old text is removed, so the conversation is there.\<close>

lemma read_stored_messages:
  assumes "list_all wf_message ms" and "st legacy_key = Some (json_print (JArr (map message_val ms)))"
  shows "readLegacyMessages (session_storage quota) st = Some (sanitizeMessagesOnLoad ms)"
proof -
  have pl: "plain (JArr (map message_val ms))" using assms(1) by (simp add: list_all_iff plain_message)
  have free: "\<forall>m \<in> set ms. free_of message_keys (msg_others m)" using assms(1) by (simp add: list_all_iff wf_message_def)
  then have "map message_of (map message_val ms) = ms" by (simp add: message_of_val map_idI)
  moreover have "json_print (JArr (map message_val ms)) \<noteq> []" using json_print_first [OF pl] by auto
  moreover have "list_all isMessage (map message_val ms)" using free by (simp add: list_all_iff isMessage_val)
  ultimately show ?thesis
    using assms(2) json_roundtrip [OF pl]
    by (simp add: readLegacyMessages_def session_storage_def del: json_print.simps map_map list.map_comp)
qed

theorem legacy_import_safe_witness:
  "\<exists>quota st. st legacy_key \<noteq> None \<and>
     (let st' = fst (confirm_import (session_storage quota) 7 (sample_session (js ''n'') [])
        \<lparr>pst_sessions = [sample_session (js ''s'') []], pst_active = js ''s'', pst_store = st\<rparr>)
      in pst_store st' legacy_key = None \<and>
        map ps_messages (fst (loadSessions (session_storage quota) (pst_store st') 7 (sample_session (js ''f'') []))) =
          [[createUserMessage (js ''u'') (js ''v'') (js ''hi'')], []])"
proof -
  let ?m = "createUserMessage (js ''u'') (js ''v'') (js ''hi'')"
  let ?st = "[legacy_key \<mapsto> json_print (JArr (map message_val [?m]))]"
  let ?new = "(sample_session (js ''n'') [])\<lparr>ps_messages := [?m], ps_title := js ''hi''\<rparr>"
  let ?q = "length (sessionKey 7) + length (json_print (JArr (map session_val [?new, sample_session (js ''s'') []])))"
  let ?p = "\<lparr>pst_sessions = [sample_session (js ''s'') []], pst_active = js ''s'', pst_store = ?st\<rparr>"
  have wf: "list_all wf_message [?m]"
    by (simp add: wf_message_def createUserMessage_def createMessageVersion_def free_of_def)
  have san: "sanitizeMessagesOnLoad [?m] = [?m]" by (simp add: sanitizeMessagesOnLoad_def is_stuck_def createUserMessage_def)
  have fq: "first_question [?m] = js ''hi''" by (simp add: first_question_def createUserMessage_def createMessageVersion_def js_lit)
  have rd: "readLegacyMessages (session_storage ?q) ?st = Some [?m]" using read_stored_messages [OF wf] san by simp
  obtain st' where ci: "confirm_import (session_storage ?q) 7 (sample_session (js ''n'') []) ?p = (st', True)"
      "pst_store st' legacy_key = None"
    using rd fq
    by (simp add: confirm_import_def importMessages_def saveSessions_def removeLegacyMessages_def session_storage_def Let_def
        del: json_print.simps)
  have "?st legacy_key \<noteq> None" by simp
  moreover have "loadSessions (session_storage ?q) (pst_store st') 7 (sample_session (js ''f'') []) =
      (map reloaded [?new, sample_session (js ''s'') []], False)"
    using legacy_import_safe [OF ci(1), of "sample_session (js ''f'') []"] rd ci(2) wf fq by (simp add: wf_sample)
  moreover have "map ps_messages (map reloaded [?new, sample_session (js ''s'') []]) = [[?m], []]"
    using san by (simp add: reloaded_def sample_session_def createSession_def sanitizeMessagesOnLoad_def)
  ultimately show ?thesis using ci by (intro exI [of _ ?q] exI [of _ ?st]) (simp add: Let_def)
qed

end
