(* ===== verification/TierExpr.thy ===== *)
theory TierExpr
  imports BillingRules
begin

section \<open>The visual form of a tiered price\<close>

text \<open>
  \<open>features/pricing/lib/tier-expr.ts\<close>: the tiers of the visual editor, the expression they stand
  for and the parser that recognises such expressions. A partial tier has an option for every
  property that may be missing; the values of a condition are JavaScript values; the
  seven extra costs are kept under their property names. The evaluation of an arbitrary expression by
  the JavaScript engine (\<open>evalExprLocally\<close>) is not modelled.
\<close>

subsection \<open>Data\<close>

datatype cache_mode = CACHE_MODE_TIMED | CACHE_MODE_GENERIC

record tier_condition_input =
  tci_var :: jsstr
  tci_op :: jsstr
  tci_value :: jsval

record visual_tier =
  vt_label :: jsstr
  vt_conditions :: "tier_condition_input list"
  vt_input :: jsnum
  vt_output :: jsnum
  vt_cache_mode :: cache_mode
  vt_costs :: "(jsstr \<times> jsnum) list"

record partial_tier =
  pt_label :: "jsstr option"
  pt_conditions :: "tier_condition_input list option"
  pt_input :: "jsnum option"
  pt_output :: "jsnum option"
  pt_cache_mode :: "cache_mode option"
  pt_costs :: "(jsstr \<times> jsnum) list"

text \<open>\<open>Number(x) || 0\<close> of a property that may be missing.\<close>

definition num_or0 :: "jsnum option \<Rightarrow> jsnum" where
  "num_or0 x = (case x of Some y \<Rightarrow> if num_truthy y then y else num_int 0 | None \<Rightarrow> num_int 0)"

definition as_partial :: "visual_tier \<Rightarrow> partial_tier" where
  "as_partial t = \<lparr>pt_label = Some (vt_label t), pt_conditions = Some (vt_conditions t), pt_input = Some (vt_input t),
     pt_output = Some (vt_output t), pt_cache_mode = Some (vt_cache_mode t), pt_costs = vt_costs t\<rparr>"

definition getTierCacheMode :: "partial_tier \<Rightarrow> cache_mode" where
  "getTierCacheMode tier =
     (case pt_cache_mode tier of
        Some m \<Rightarrow> m
      | None \<Rightarrow>
          (case map_of (pt_costs tier) (js ''cache_create_1h_unit_cost'') of
             Some x \<Rightarrow> if num_lt (num_int 0) x then CACHE_MODE_TIMED else CACHE_MODE_GENERIC
           | None \<Rightarrow> CACHE_MODE_GENERIC))"

definition cost_fields :: "jsstr list" where
  "cost_fields = map fst BILLING_CACHE_VAR_MAP"

text \<open>The properties of the argument are spread over the defaults for the label, the two base costs, the mode and
  the conditions, and under the seven extra costs.\<close>

definition normalizeVisualTier :: "partial_tier \<Rightarrow> visual_tier" where
  "normalizeVisualTier tier =
     \<lparr>vt_label = (case pt_label tier of Some l \<Rightarrow> l | None \<Rightarrow> []),
      vt_conditions = (case pt_conditions tier of Some cs \<Rightarrow> cs | None \<Rightarrow> []),
      vt_input = (case pt_input tier of Some x \<Rightarrow> x | None \<Rightarrow> num_int 0),
      vt_output = (case pt_output tier of Some x \<Rightarrow> x | None \<Rightarrow> num_int 0),
      vt_cache_mode = (case pt_cache_mode tier of Some m \<Rightarrow> m | None \<Rightarrow> getTierCacheMode tier),
      vt_costs = map (\<lambda>f. (f, num_or0 (map_of (pt_costs tier) f))) cost_fields\<rparr>"

definition createDefaultVisualConfig :: "visual_tier list" where
  "createDefaultVisualConfig =
     [normalizeVisualTier \<lparr>pt_label = Some (js ''base''), pt_conditions = Some [], pt_input = Some (num_int 0),
        pt_output = Some (num_int 0), pt_cache_mode = Some CACHE_MODE_GENERIC, pt_costs = []\<rparr>]"

definition normalizeVisualConfig :: "visual_tier list option \<Rightarrow> visual_tier list" where
  "normalizeVisualConfig config =
     (case config of
        None \<Rightarrow> createDefaultVisualConfig
      | Some tiers \<Rightarrow> if tiers = [] then createDefaultVisualConfig
          else map (\<lambda>t. normalizeVisualTier (as_partial t)) tiers)"

subsection \<open>From tiers to an expression\<close>

definition cond_filled :: "tier_condition_input \<Rightarrow> bool" where
  "cond_filled c \<longleftrightarrow> tci_var c \<noteq> [] \<and> tci_op c \<noteq> [] \<and> \<not> is_nullish (tci_value c) \<and> tci_value c \<noteq> JStr []"

definition cond_text :: "tier_condition_input \<Rightarrow> jsstr" where
  "cond_text c = tci_var c @ js '' '' @ tci_op c @ js '' '' @ to_str (tci_value c)"

definition buildConditionStr :: "tier_condition_input list \<Rightarrow> jsstr" where
  "buildConditionStr conditions = js_join (js '' && '') (map cond_text (filter cond_filled conditions))"

definition cost_text :: "jsstr \<Rightarrow> jsnum \<Rightarrow> jsstr" where
  "cost_text v x = v @ js '' * '' @ num_to_str x"

definition buildTierBodyExpr :: "visual_tier \<Rightarrow> jsstr" where
  "buildTierBodyExpr tier =
     js_join (js '' + '')
       ([cost_text (js ''p'') (num_or0 (Some (vt_input tier))), cost_text (js ''c'') (num_or0 (Some (vt_output tier)))] @
        map (\<lambda>(f, v). cost_text v (num_or0 (map_of (vt_costs tier) f)))
          (filter (\<lambda>(f, v). num_truthy (num_or0 (map_of (vt_costs tier) f))) BILLING_CACHE_VAR_MAP))"

definition zero_expr :: jsstr where
  "zero_expr = js ''p * 0 + c * 0''"

definition tier_call :: "jsstr \<Rightarrow> visual_tier \<Rightarrow> jsstr" where
  "tier_call label tier =
     js ''tier('' @ [34] @ label @ [34] @ js '', '' @ buildTierBodyExpr tier @ js '')''"

text \<open>One part of the chain; \<open>i\<close> is the index of the tier and \<open>final\<close> whether it is the last.\<close>

definition tier_part :: "nat \<Rightarrow> bool \<Rightarrow> visual_tier \<Rightarrow> jsstr" where
  "tier_part i final tier =
     (let label = (if vt_label tier \<noteq> [] then vt_label tier else js ''tier_'' @ int_str (int i + 1));
          body = tier_call label tier;
          cond = buildConditionStr (vt_conditions tier)
      in if \<not> final \<and> cond \<noteq> [] then cond @ js '' ? '' @ body else body)"

fun tier_parts :: "nat \<Rightarrow> visual_tier list \<Rightarrow> jsstr list" where
  "tier_parts i [] = []"
| "tier_parts i (t # ts) = tier_part i (ts = []) t # tier_parts (Suc i) ts"

definition generateExprFromVisualConfig :: "visual_tier list option \<Rightarrow> jsstr" where
  "generateExprFromVisualConfig config =
     (case config of
        None \<Rightarrow> zero_expr
      | Some [] \<Rightarrow> zero_expr
      | Some [tier] \<Rightarrow>
          (let label = (if vt_label tier \<noteq> [] then vt_label tier else js ''default'');
               body = tier_call label tier;
               cond = buildConditionStr (vt_conditions tier)
           in if cond \<noteq> [] then cond @ js '' ? '' @ body @ js '' : p * 0 + c * 0'' else body)
      | Some tiers \<Rightarrow> js_join (js '' : '') (tier_parts 0 tiers))"

subsection \<open>From an expression to tiers\<close>

definition rx_cost :: "jsstr \<Rightarrow> nat \<Rightarrow> regex" where
  "rx_cost v n = rx_seqs [rx_s, RLit (js ''+''), rx_s, RLit v, rx_s, RLit (js ''*''), rx_s,
     RGroup n (rx_plus (RSat num_unit))]"

fun optCacheStr :: "nat \<Rightarrow> jsstr list \<Rightarrow> regex list" where
  "optCacheStr n [] = []"
| "optCacheStr n (v # vs) = rx_opt (rx_cost v n) # optCacheStr (Suc n) vs"

definition bodyPat :: "nat \<Rightarrow> regex list" where
  "bodyPat n = [RLit (js ''p''), rx_s, RLit (js ''*''), rx_s, RGroup n (rx_plus (RSat num_unit)), rx_s,
     RLit (js ''+''), rx_s, RLit (js ''c''), rx_s, RLit (js ''*''), rx_s, RGroup (Suc n) (rx_plus (RSat num_unit))] @
     optCacheStr (Suc (Suc n)) (map snd BILLING_CACHE_VAR_MAP)"

definition labelPat :: "nat \<Rightarrow> regex list" where
  "labelPat n = [RLit (js ''tier('' @ [34]), RGroup n (RStar (RSat (not_unit 34))), RLit ([34] @ js '',''), rx_s]"

definition singleRe :: regex where
  "singleRe = rx_seqs (labelPat 1 @ bodyPat 2 @ [RLit (js '')''), REnd])"

definition visualTierRe :: regex where
  "visualTierRe = rx_seqs ([rx_opt (rx_seqs [condGroup, rx_s, RLit (js ''?''), rx_s])] @
     labelPat 2 @ bodyPat 3 @ [RLit (js '')'')])"

text \<open>The tier of a match: the costs are in the groups from \<open>n\<close> on.\<close>

fun match_costs :: "(nat \<rightharpoonup> jsstr) \<Rightarrow> nat \<Rightarrow> jsstr list \<Rightarrow> (jsstr \<times> jsnum) list" where
  "match_costs m n [] = []"
| "match_costs m n (f # fs) =
     (case m n of None \<Rightarrow> match_costs m (Suc n) fs
      | Some s \<Rightarrow> (f, str_to_num s) # match_costs m (Suc n) fs)"

definition match_tier :: "(nat \<rightharpoonup> jsstr) \<Rightarrow> nat \<Rightarrow> tier_condition_input list \<Rightarrow> partial_tier" where
  "match_tier m n conditions =
     \<lparr>pt_label = Some (cap m n), pt_conditions = Some conditions, pt_input = Some (str_to_num (cap m (Suc n))),
      pt_output = Some (str_to_num (cap m (n + 2))), pt_cache_mode = None,
      pt_costs = match_costs m (n + 3) cost_fields\<rparr>"

definition cond_input :: "tier_condition \<Rightarrow> tier_condition_input" where
  "cond_input c = \<lparr>tci_var = cond_var c, tci_op = cond_op c, tci_value = JNum (cond_value c)\<rparr>"

definition match_conditions :: "jsstr \<Rightarrow> tier_condition_input list" where
  "match_conditions condStr =
     (if condStr = [] then []
      else map cond_input (List.map_filter parse_tier_cond (rx_split (rx_seqs [rx_s, RLit (js ''&&''), rx_s]) condStr)))"

definition visual_match :: "(nat \<rightharpoonup> jsstr) \<Rightarrow> visual_tier" where
  "visual_match m = normalizeVisualTier (match_tier m 2 (match_conditions (cap m 1)))"

definition tryParseVisualConfig :: "jsstr \<Rightarrow> visual_tier list option" where
  "tryParseVisualConfig exprStr =
     (if exprStr = [] then None
      else
        let body = snd (stripExprVersion exprStr)
        in case rx_match singleRe body of
             Some simple \<Rightarrow> Some (normalizeVisualConfig (Some [normalizeVisualTier (match_tier simple 1 [])]))
           | None \<Rightarrow>
               let tiers = map visual_match (rx_exec_all visualTierRe None body)
               in if tiers = [] then None
                  else
                    let cfg = normalizeVisualConfig (Some tiers);
                        regenerated = generateExprFromVisualConfig (Some cfg)
                    in if remove_ws regenerated \<noteq> remove_ws body then None else Some cfg)"

definition ESTIMATOR_VARS :: "(jsstr \<times> jsstr) list" where
  "ESTIMATOR_VARS =
    [(js ''cr'', js ''cacheReadTokens''), (js ''cc'', js ''cacheCreateTokens''), (js ''cc1h'', js ''cacheCreate1hTokens''),
     (js ''img'', js ''imageTokens''), (js ''img_o'', js ''imageOutputTokens''), (js ''ai'', js ''audioInputTokens''),
     (js ''ao'', js ''audioOutputTokens'')]"

definition exprUsesExtraVars :: "jsstr \<Rightarrow> bool" where
  "exprUsesExtraVars exprStr \<longleftrightarrow> exprStr \<noteq> [] \<and>
     rx_search (rx_seqs [RWordB, RGroup 1 (rx_alts (map (\<lambda>p. RLit (fst p)) ESTIMATOR_VARS)), RWordB]) None exprStr \<noteq> None"

end
