(* ===== verification/RegexFirst.thy ===== *)
theory RegexFirst
  imports JsRegex
begin

section \<open>The match a regular expression finds first\<close>

text \<open>
  \<open>rx_first r st st'\<close>: the first way \<open>r\<close> matches from \<open>st\<close> ends in \<open>st'\<close>. The rules follow the structure of the
  expression for texts on which the greedy choices succeed, which is the case for
  the texts the program prints; alternatives that do not apply are shown to fail.
\<close>

definition rx_first :: "regex \<Rightarrow> rx_state \<Rightarrow> rx_state \<Rightarrow> bool" where
  "rx_first r st st' \<longleftrightarrow> (\<exists>others. rx_run r st = st' # others)"

lemma first_eps: "rx_first REps st st"
  by (simp add: rx_first_def)

lemma first_seq: "rx_first a st st1 \<Longrightarrow> rx_first b st1 st2 \<Longrightarrow> rx_first (RSeq a b) st st2"
  by (auto simp: rx_first_def)

lemma first_alt1: "rx_first a st st' \<Longrightarrow> rx_first (RAlt a b) st st'"
  by (auto simp: rx_first_def)

lemma first_alt2: "rx_run a st = [] \<Longrightarrow> rx_first b st st' \<Longrightarrow> rx_first (RAlt a b) st st'"
  by (auto simp: rx_first_def)

lemma first_opt: "rx_first r st st' \<Longrightarrow> rx_first (rx_opt r) st st'"
  by (simp add: rx_opt_def first_alt1)

lemma first_opt_none: "rx_run r st = [] \<Longrightarrow> rx_first (rx_opt r) st st"
  by (simp add: rx_opt_def first_alt2 first_eps)

lemma first_lit: "w \<noteq> [] \<Longrightarrow> rx_first (RLit w) (rx_at p (w @ t) k) (rx_at (Some (last w)) t k)"
  by (simp add: rx_first_def run_lit_at)

lemma first_star:
  assumes "list_all q w" and "t = [] \<or> \<not> q (hd t)"
  shows "rx_first (RStar (RSat q)) (rx_at p (w @ t) k) (rx_at (if w = [] then p else Some (last w)) t k)"
  unfolding rx_first_def star_sat [OF assms] by (simp add: last_conv_nth)

lemma first_plus:
  assumes "list_all q w" and "w \<noteq> []" and "t = [] \<or> \<not> q (hd t)"
  shows "rx_first (rx_plus (RSat q)) (rx_at p (w @ t) k) (rx_at (Some (last w)) t k)"
proof -
  obtain c v where w: "w = c # v" using assms(2) by (cases w) auto
  have "rx_first (RSat q) (rx_at p (w @ t) k) (rx_at (Some c) (v @ t) k)"
    using assms(1) by (simp add: w rx_first_def advance_def)
  moreover have "rx_first (RStar (RSat q)) (rx_at (Some c) (v @ t) k) (rx_at (Some (last w)) t k)"
    using first_star [of q v t "Some c" k] assms w by (cases "v = []") simp_all
  ultimately show ?thesis unfolding rx_plus_def by (rule first_seq)
qed

lemma first_group:
  assumes "rx_first a (rx_at p (w @ t) k) (rx_at p' t k')"
  shows "rx_first (RGroup n a) (rx_at p (w @ t) k) (rx_at p' t ((n, w) # k'))"
  using assms by (auto simp: rx_first_def)

lemma first_again:
  assumes "rx_first a st st1" and "length (rx_rest st1) < length (rx_rest st)" and "rx_first (RStar a) st1 st2"
  shows "rx_first (RStar a) st st2"
  using assms by (auto simp: rx_first_def rx_run.simps(6) [of a st])

lemma first_stop: "rx_run a st = [] \<Longrightarrow> rx_first (RStar a) st st"
  by (simp add: rx_first_def rx_run.simps(6) [of a st])

lemma first_Cons: "rx_first r st st1 \<Longrightarrow> rx_first (rx_seqs rs) st1 st2 \<Longrightarrow> rx_first (rx_seqs (r # rs)) st st2"
  by (cases rs) (auto simp: rx_first_def)

lemma run_seqs_Cons: "rx_run (rx_seqs (r # rs)) st = concat (map (rx_run (rx_seqs rs)) (rx_run r st))"
proof (cases rs)
  case Nil
  have "rx_run REps = (\<lambda>x. [x])" by (simp add: fun_eq_iff)
  then show ?thesis by (simp add: Nil del: rx_run.simps(1))
qed simp

lemma run_seqs_append:
  "rx_run (rx_seqs (xs @ ys)) st = concat (map (rx_run (rx_seqs ys)) (rx_run (rx_seqs xs) st))"
proof (induction xs arbitrary: st)
  case (Cons x xs)
  then have "rx_run (rx_seqs (xs @ ys)) = (\<lambda>st. concat (map (rx_run (rx_seqs ys)) (rx_run (rx_seqs xs) st)))" by (simp add: fun_eq_iff)
  then show ?case by (simp only: append_Cons run_seqs_Cons concat_map_concat)
qed simp

lemma first_append:
  "rx_first (rx_seqs xs) st st1 \<Longrightarrow> rx_first (rx_seqs ys) st1 st2 \<Longrightarrow> rx_first (rx_seqs (xs @ ys)) st st2"
  by (auto simp: rx_first_def run_seqs_append)

lemma run_opt_seqs: "rx_run (rx_seqs (rx_opt r # rs)) st = rx_run (rx_seqs (r # rs)) st @ rx_run (rx_seqs rs) st"
  by (simp only: run_seqs_Cons) (simp add: rx_opt_def)

text \<open>What the uses of a match need.\<close>

lemma first_match: "rx_first r (rx_at None s []) (rx_at p t k) \<Longrightarrow> rx_match r s = Some (map_of k)"
  by (auto simp: rx_first_def rx_match_run)

lemma first_search: "rx_first r (rx_at prv s []) st \<Longrightarrow> rx_search r prv s = Some (0, st)"
  by (cases s) (auto simp: rx_first_def)

lemma search_skip:
  "rx_run r (rx_at prv (c # s) []) = [] \<Longrightarrow> rx_search r prv (c # s) = map_option (\<lambda>(n, st). (Suc n, st)) (rx_search r (Some c) s)"
  by simp

lemma exec_none: "rx_search r prv s = None \<Longrightarrow> rx_exec_all r prv s = []"
  by (subst rx_exec_all.simps) simp

lemma exec_some:
  "rx_search r prv s = Some (n, rx_at p t k) \<Longrightarrow> length t < length s \<Longrightarrow>
     rx_exec_all r prv s = map_of k # rx_exec_all r p t"
  by (subst rx_exec_all.simps) simp

lemma exec_first:
  "rx_first r (rx_at prv s []) (rx_at p t k) \<Longrightarrow> length t < length s \<Longrightarrow>
     rx_exec_all r prv s = map_of k # rx_exec_all r p t"
  using first_search exec_some by blast

text \<open>A stretch at none of whose positions the expression matches.\<close>

definition rx_barren :: "regex \<Rightarrow> jsstr \<Rightarrow> jsstr \<Rightarrow> bool" where
  "rx_barren r s u \<longleftrightarrow> (\<forall>i < length s. \<forall>p. rx_run r (rx_at p (drop i s @ u) []) = [])"

lemma barren_Cons: "rx_barren r (c # s) u \<longleftrightarrow> (\<forall>p. rx_run r (rx_at p (c # s @ u) []) = []) \<and> rx_barren r s u"
  by (auto simp: rx_barren_def less_Suc_eq_0_disj)

lemma barren_Nil [simp]: "rx_barren r [] u"
  by (simp add: rx_barren_def)

lemma search_barren:
  "rx_barren r s u \<Longrightarrow> rx_search r p (s @ u) =
     map_option (\<lambda>(n, st). (length s + n, st)) (rx_search r (if s = [] then p else Some (last s)) u)"
proof (induction s arbitrary: p)
  case Nil
  then show ?case by (cases "rx_search r p u") auto
next
  case (Cons c s)
  then have "rx_search r p (c # s @ u) = map_option (\<lambda>(n, st). (Suc n, st)) (rx_search r (Some c) (s @ u))"
    by (simp add: barren_Cons)
  also have "\<dots> = map_option (\<lambda>(n, st). (Suc n, st))
      (map_option (\<lambda>(n, st). (length s + n, st)) (rx_search r (if s = [] then Some c else Some (last s)) u))"
    using Cons by (simp add: barren_Cons)
  finally show ?case by (simp add: option.map_comp comp_def split_beta)
qed

lemma exec_barren:
  assumes "rx_barren r s u" and "\<And>p. rx_first r (rx_at p u []) (rx_at q t k)" and "length t < length u"
  shows "rx_exec_all r p (s @ u) = map_of k # rx_exec_all r q t"
proof -
  have "rx_search r p' u = Some (0, rx_at q t k)" for p' using first_search [OF assms(2)] .
  then have "rx_search r p (s @ u) = Some (length s, rx_at q t k)" using search_barren [OF assms(1), of p] by simp
  then show ?thesis using assms(3) by (intro exec_some) auto
qed

subsection \<open>Stepping through a sequence\<close>

text \<open>The collection \<open>rx_step\<close> runs literals and the white space before them, unit by unit, on a sequence
  that is kept folded.\<close>

named_theorems rx_step \<open>steps of a sequence of expressions\<close>

lemma run_lit_nil [rx_step]: "rx_run (rx_seqs (RLit (d # w) # rs)) (rx_at p [] k) = []"
  by (simp only: run_seqs_Cons) (simp add: run_lit_def)

lemma run_lit_done [rx_step]: "rx_run (rx_seqs (RLit [] # rs)) st = rx_run (rx_seqs rs) st"
  by (simp only: run_seqs_Cons) (simp add: run_lit_def advance_def)

lemma run_lit_step [rx_step]:
  "rx_run (rx_seqs (RLit (d # w) # rs)) (rx_at p (c # s) k) =
     (if c = d then rx_run (rx_seqs (RLit w # rs)) (rx_at (Some c) s k) else [])"
  by (simp only: run_seqs_Cons) (cases w; auto simp: run_lit_def advance_def starts_with_def)

lemma run_s_nil [rx_step]: "rx_run (rx_seqs (rx_s # rs)) (rx_at p [] k) = rx_run (rx_seqs rs) (rx_at p [] k)"
  by (simp only: run_seqs_Cons) (simp add: rx_s_def rx_run.simps(6) [of _ "rx_at p [] k"])

lemma run_s_lit [rx_step]:
  assumes "\<not> is_ws d"
  shows "rx_run (rx_seqs (rx_s # RLit (d # w) # rs)) (rx_at p (c # s) k) =
    (if is_ws c then rx_run (rx_seqs (rx_s # RLit (d # w) # rs)) (rx_at (Some c) s k)
     else rx_run (rx_seqs (RLit (d # w) # rs)) (rx_at p (c # s) k))"
proof -
  have lit: "rx_run (rx_seqs (RLit (d # w) # rs)) (rx_at p (c # s) k) = []" if "is_ws c"
    using that assms by (auto simp: run_seqs_Cons run_lit_def)
  show ?thesis
    by (simp add: run_seqs_Cons [of rx_s] rx_s_def rx_run.simps(6) [of _ "rx_at p (c # s) k"] advance_def lit)
qed

lemma run_lit_text [rx_step]:
  "rx_run (rx_seqs (RLit w # rs)) (rx_at p (w @ t) k) = rx_run (rx_seqs rs) (rx_at (if w = [] then p else Some (last w)) t k)"
  by (simp only: run_seqs_Cons) (simp add: run_lit_at)

lemma run_s_word [rx_step]:
  assumes "w \<noteq> []" and "\<not> is_ws (hd w)" and "is_ws c"
  shows "rx_run (rx_seqs (rx_s # RLit w # rs)) (rx_at p (c # s) k) = rx_run (rx_seqs (rx_s # RLit w # rs)) (rx_at (Some c) s k)"
  using assms by (cases w) (simp_all add: run_s_lit del: rx_seqs.simps)

lemma run_s_text [rx_step]:
  assumes "w \<noteq> []" and "\<not> is_ws (hd w)"
  shows "rx_run (rx_seqs (rx_s # RLit w # rs)) (rx_at p (w @ t) k) = rx_run (rx_seqs rs) (rx_at (Some (last w)) t k)"
proof -
  obtain d v where w: "w = d # v" using assms(1) by (cases w) auto
  have "rx_run (rx_seqs (rx_s # RLit w # rs)) (rx_at p (w @ t) k) = rx_run (rx_seqs (RLit w # rs)) (rx_at p (w @ t) k)"
    using assms(2) by (simp add: w run_s_lit del: rx_seqs.simps)
  then show ?thesis using assms(1) by (simp add: run_lit_text del: rx_seqs.simps)
qed

lemma run_alt_step [rx_step]:
  "rx_run (rx_seqs (RAlt a b # rs)) st = rx_run (rx_seqs (a # rs)) st @ rx_run (rx_seqs (b # rs)) st"
  by (simp only: run_seqs_Cons) simp

lemma run_group_alt_step [rx_step]:
  "rx_run (rx_seqs (RGroup n (RAlt a b) # rs)) st = rx_run (rx_seqs (RGroup n a # rs)) st @ rx_run (rx_seqs (RGroup n b # rs)) st"
  by (simp only: run_seqs_Cons) simp

lemma run_group_lit_step [rx_step]:
  "rx_run (rx_seqs (RGroup n (RLit w) # rs)) (rx_at p s k) =
     (if starts_with s w
      then rx_run (rx_seqs rs) (rx_at (if w = [] then p else Some (last w)) (drop (length w) s) ((n, w) # k)) else [])"
proof (cases "starts_with s w")
  case True
  then obtain t where "s = w @ t" using starts_with_split by blast
  then show ?thesis by (simp only: run_seqs_Cons) (simp add: run_lit_at)
next
  case False
  then show ?thesis by (simp only: run_seqs_Cons) (simp add: run_lit_def)
qed

lemma run_s_stop [rx_step]:
  "\<not> is_ws c \<Longrightarrow> rx_run (rx_seqs (rx_s # rs)) (rx_at p (c # s) k) = rx_run (rx_seqs rs) (rx_at p (c # s) k)"
  by (simp add: run_seqs_Cons rx_s_def rx_run.simps(6) [of _ "rx_at p (c # s) k"] del: rx_seqs.simps)

lemma run_s_skip [rx_step]:
  "is_ws c \<Longrightarrow> rx_run (rx_seqs rs) (rx_at p (c # s) k) = [] \<Longrightarrow>
     rx_run (rx_seqs (rx_s # rs)) (rx_at p (c # s) k) = rx_run (rx_seqs (rx_s # rs)) (rx_at (Some c) s k)"
  by (simp add: run_seqs_Cons rx_s_def rx_run.simps(6) [of _ "rx_at p (c # s) k"] advance_def del: rx_seqs.simps)

lemma run_class_fail [rx_step]:
  assumes "\<not> q c"
  shows "rx_run (rx_seqs (rx_plus (RSat q) # rs)) (rx_at p (c # s) k) = []"
    and "rx_run (rx_seqs (RGroup n (rx_plus (RSat q)) # rs)) (rx_at p (c # s) k) = []"
  using assms by (simp_all only: run_seqs_Cons) (simp_all add: rx_plus_def)

text \<open>White space and a greedy class that takes the whole stretch.\<close>

lemma first_s_class:
  assumes "list_all q w" and "w \<noteq> []" and "t = [] \<or> \<not> q (hd t)" and "\<And>c. q c \<Longrightarrow> \<not> is_ws c"
    and "rx_first (rx_seqs rs) (rx_at (Some (last w)) t ((n, w) # k)) st"
  shows "rx_first (rx_seqs (rx_s # RGroup n (rx_plus (RSat q)) # rs)) (rx_at p (32 # w @ t) k) st"
proof -
  have "\<not> is_ws (hd (w @ t))" using assms(1,2,4) by (cases w) auto
  then have "rx_first rx_s (rx_at p ([32] @ (w @ t)) k) (rx_at (Some 32) (w @ t) k)"
    unfolding rx_s_def using first_star [of is_ws "[32]" "w @ t" p k] by (simp add: is_ws_def)
  moreover have "rx_first (RGroup n (rx_plus (RSat q))) (rx_at (Some 32) (w @ t) k) (rx_at (Some (last w)) t ((n, w) # k))"
    by (intro first_group first_plus assms(1-3))
  ultimately show ?thesis using assms(5) by (auto intro!: first_Cons simp del: rx_seqs.simps)
qed

end
