(* ===== verification/TierRoundTrip.thy ===== *)
theory TierRoundTrip
  imports TierExpr RegexFirst
begin

section \<open>Tiered prices: the visual form and the expression\<close>

text \<open>
  What the generated expression reads back as: for the tiers the visual editor builds, parsing the
  generated expression gives the same tiers, in their normal form.
\<close>

subsection \<open>Costs\<close>

lemma take_digits_units: "take_digits s = (ds, r) \<Longrightarrow> list_all num_unit ds"
  by (auto simp: take_digits_def num_unit_def list_all_iff dest: set_takeWhileD)

lemma span_int_units: "span_int s = Some (ip, r) \<Longrightarrow> list_all num_unit ip \<and> ip \<noteq> []"
  using take_digits_units [of s] by (auto simp: span_int_def num_unit_def is_digit_def split: prod.splits if_splits)

lemma span_frac_units: "span_frac s = Some (fp, r) \<Longrightarrow> list_all num_unit fp"
  using take_digits_units [of "tl s"] by (auto simp: span_frac_def num_unit_def split: list.splits prod.splits if_splits)

lemma span_exp_units: "span_exp s = Some (ep, r) \<Longrightarrow> list_all num_unit ep"
  using take_digits_units by (fastforce simp: span_exp_def num_unit_def Let_def split: list.splits prod.splits if_splits)

lemma span_number_units: "span_number s = Some (w, r) \<Longrightarrow> list_all num_unit w \<and> w \<noteq> []"
  by (auto simp: span_number_def Let_def num_unit_def split: option.splits list.splits if_splits
      dest!: span_int_units span_frac_units span_exp_units)

lemma token_text:
  assumes "num_token x"
  shows "list_all num_unit (num_to_str x)" and "num_to_str x \<noteq> []" and "str_to_num (num_to_str x) = x"
  using assms span_number_units by (auto simp: num_token_def)

definition apart :: "jsstr \<Rightarrow> jsstr \<Rightarrow> bool" where
  "apart v v' \<longleftrightarrow> (\<forall>n p t k. rx_run (rx_cost v n) (rx_at p (js '' + '' @ v' @ js '' * '' @ t) k) = [])"

lemma vars_list: "map snd BILLING_CACHE_VAR_MAP = map js [''cr'', ''cc'', ''cc1h'', ''img'', ''img_o'', ''ai'', ''ao'']"
  by (simp add: BILLING_CACHE_VAR_MAP_def BILLING_EXTRA_VARS_def BILLING_VARS_def price_var_def)

lemma vars_apart: "sorted_wrt apart (map snd BILLING_CACHE_VAR_MAP)"
  unfolding vars_list
  by (simp add: apart_def rx_cost_def js_lit rx_step is_ws_def del: rx_seqs.simps rx_run.simps)

definition plain_var :: "jsstr \<Rightarrow> bool" where
  "plain_var v \<longleftrightarrow> v \<noteq> [] \<and> \<not> is_ws (hd v)"

lemma num_unit_no_ws: "num_unit c \<Longrightarrow> \<not> is_ws c"
  by (auto simp: num_unit_def is_digit_def is_ws_def)

lemma first_cost:
  assumes "plain_var v" and "num_token x" and "t = [] \<or> \<not> num_unit (hd t)"
  shows "rx_first (rx_cost v n) (rx_at p (js '' + '' @ cost_text v x @ t) k) (rx_at (Some (last (num_to_str x))) t ((n, num_to_str x) # k))"
proof -
  have "rx_run (rx_cost v n) (rx_at p (js '' + '' @ cost_text v x @ t) k) =
      rx_run (rx_seqs [rx_s, RGroup n (rx_plus (RSat num_unit))]) (rx_at (Some 42) (32 # num_to_str x @ t) k)"
    using assms(1)
    by (simp add: rx_cost_def cost_text_def plain_var_def js_lit rx_step is_ws_def del: rx_seqs.simps rx_run.simps)
  moreover have "rx_first (rx_seqs [rx_s, RGroup n (rx_plus (RSat num_unit))]) (rx_at (Some 42) (32 # num_to_str x @ t) k)
      (rx_at (Some (last (num_to_str x))) t ((n, num_to_str x) # k))"
    by (rule first_s_class) (use assms token_text num_unit_no_ws in \<open>auto intro: first_eps\<close>)
  ultimately show ?thesis by (simp add: rx_first_def)
qed

text \<open>The printed costs and the groups they are captured in.\<close>

fun cost_caps :: "nat \<Rightarrow> jsnum list \<Rightarrow> (nat \<times> jsstr) list" where
  "cost_caps n [] = []"
| "cost_caps n (x # xs) = cost_caps (Suc n) xs @ (if num_truthy x then [(n, num_to_str x)] else [])"

fun cost_tail :: "jsstr list \<Rightarrow> jsnum list \<Rightarrow> jsstr" where
  "cost_tail (v # vs) (x # xs) = (if num_truthy x then js '' + '' @ cost_text v x else []) @ cost_tail vs xs"
| "cost_tail _ _ = []"

lemma cost_tail_first:
  "cost_tail vs xs = [] \<or> (\<exists>v s. v \<in> set vs \<and> cost_tail vs xs = js '' + '' @ v @ js '' * '' @ s)"
  by (induction vs xs rule: cost_tail.induct) (auto simp: cost_text_def)

lemma cost_fails:
  assumes "\<forall>v' \<in> set vs. apart v v'"
  shows "rx_run (rx_cost v n) (rx_at p (cost_tail vs xs @ js '')'' @ r) k) = []"
proof (cases "cost_tail vs xs = []")
  case True
  have "rx_run (rx_cost v n) (rx_at p (js '')'' @ r) k) = []"
    by (simp add: rx_cost_def js_lit rx_step is_ws_def del: rx_seqs.simps rx_run.simps)
  then show ?thesis by (simp add: True)
next
  case False
  then obtain v' s where "v' \<in> set vs" "cost_tail vs xs = js '' + '' @ v' @ js '' * '' @ s" using cost_tail_first by blast
  then show ?thesis using assms by (simp add: apart_def)
qed

lemma first_costs:
  assumes "length vs = length xs" and "sorted_wrt apart vs" and "list_all plain_var vs" and "list_all num_token xs"
  shows "\<exists>p'. rx_first (rx_seqs (optCacheStr n vs)) (rx_at p (cost_tail vs xs @ js '')'' @ r) k)
    (rx_at p' (js '')'' @ r) (cost_caps n xs @ k))"
  using assms
proof (induction vs xs arbitrary: n p k rule: list_induct2)
  case Nil
  then show ?case by (auto intro: first_eps)
next
  case (Cons v vs x xs)
  let ?t = "cost_tail vs xs @ js '')'' @ r"
  have t: "?t = [] \<or> \<not> num_unit (hd ?t)"
    using cost_tail_first [of vs xs] by (auto simp: js_lit num_unit_def is_digit_def)
  show ?case
  proof (cases "num_truthy x")
    case True
    have "rx_first (rx_opt (rx_cost v n)) (rx_at p (js '' + '' @ cost_text v x @ ?t) k)
        (rx_at (Some (last (num_to_str x))) ?t ((n, num_to_str x) # k))"
      using Cons.prems t by (intro first_opt first_cost) auto
    moreover obtain p' where "rx_first (rx_seqs (optCacheStr (Suc n) vs)) (rx_at (Some (last (num_to_str x))) ?t ((n, num_to_str x) # k))
        (rx_at p' (js '')'' @ r) (cost_caps (Suc n) xs @ (n, num_to_str x) # k))"
      using Cons.IH Cons.prems by fastforce
    ultimately show ?thesis using True by (auto intro!: exI [of _ p'] first_Cons simp del: rx_seqs.simps)
  next
    case False
    have "rx_first (rx_opt (rx_cost v n)) (rx_at p ?t k) (rx_at p ?t k)"
      using Cons.prems by (intro first_opt_none cost_fails) simp
    moreover obtain p' where "rx_first (rx_seqs (optCacheStr (Suc n) vs)) (rx_at p ?t k)
        (rx_at p' (js '')'' @ r) (cost_caps (Suc n) xs @ k))"
      using Cons.IH Cons.prems by fastforce
    ultimately show ?thesis using False by (auto intro!: exI [of _ p'] first_Cons simp del: rx_seqs.simps)
  qed
qed

subsection \<open>One tier\<close>

definition extra_costs :: "visual_tier \<Rightarrow> jsnum list" where
  "extra_costs t = map (\<lambda>f. num_or0 (map_of (vt_costs t) f)) cost_fields"

definition base_costs :: "visual_tier \<Rightarrow> jsnum \<times> jsnum" where
  "base_costs t = (num_or0 (Some (vt_input t)), num_or0 (Some (vt_output t)))"

lemma js_join_from: "js_join sep (x # ys) = x @ concat (map (\<lambda>y. sep @ y) ys)"
  by (induction ys arbitrary: x) auto

lemma tail_costs:
  "concat (map (\<lambda>y. js '' + '' @ y) (map (\<lambda>(f, v). cost_text v (g f)) (filter (\<lambda>(f, v). num_truthy (g f)) m))) =
     cost_tail (map snd m) (map g (map fst m))"
  by (induction m) auto

lemma body_text:
  "buildTierBodyExpr t = cost_text (js ''p'') (fst (base_costs t)) @ js '' + '' @ cost_text (js ''c'') (snd (base_costs t)) @
     cost_tail (map snd BILLING_CACHE_VAR_MAP) (extra_costs t)"
  using tail_costs [of "\<lambda>f. num_or0 (map_of (vt_costs t) f)" BILLING_CACHE_VAR_MAP]
  by (simp add: buildTierBodyExpr_def js_join_from base_costs_def extra_costs_def cost_fields_def comp_def del: map_map)

lemma first_eq: "rx_run r st = rx_run r' st' \<Longrightarrow> rx_first r' st' st2 \<Longrightarrow> rx_first r st st2"
  by (simp add: rx_first_def)

definition priced :: "visual_tier \<Rightarrow> bool" where
  "priced t \<longleftrightarrow> num_token (fst (base_costs t)) \<and> num_token (snd (base_costs t)) \<and> list_all num_token (extra_costs t)"

definition tier_caps :: "nat \<Rightarrow> jsstr \<Rightarrow> visual_tier \<Rightarrow> (nat \<times> jsstr) list" where
  "tier_caps n l t = cost_caps (n + 3) (extra_costs t) @
     [(n + 2, num_to_str (snd (base_costs t))), (n + 1, num_to_str (fst (base_costs t))), (n, l)]"

lemma first_body:
  assumes "priced t"
  shows "\<exists>p'. rx_first (rx_seqs (bodyPat n)) (rx_at p (buildTierBodyExpr t @ js '')'' @ r) k)
    (rx_at p' (js '')'' @ r) (cost_caps (Suc (Suc n)) (extra_costs t) @
      (Suc n, num_to_str (snd (base_costs t))) # (n, num_to_str (fst (base_costs t))) # k))"
proof -
  let ?a = "num_to_str (fst (base_costs t))" and ?b = "num_to_str (snd (base_costs t))"
  let ?vs = "map snd BILLING_CACHE_VAR_MAP"
  let ?t = "cost_tail ?vs (extra_costs t) @ js '')'' @ r"
  let ?num = "rx_plus (RSat num_unit)"
  let ?second = "[rx_s, RLit (js ''+''), rx_s, RLit (js ''c''), rx_s, RLit (js ''*''), rx_s, RGroup (Suc n) ?num]"
  let ?first = "[RLit (js ''p''), rx_s, RLit (js ''*''), rx_s, RGroup n ?num] @ ?second"
  have ta: "list_all num_unit ?a" "?a \<noteq> []" and tb: "list_all num_unit ?b" "?b \<noteq> []"
    using assms token_text by (auto simp: priced_def)
  have t: "?t = [] \<or> \<not> num_unit (hd ?t)"
    using cost_tail_first [of ?vs "extra_costs t"] by (auto simp: js_lit num_unit_def is_digit_def)
  have two: "rx_first (rx_seqs ?second) (rx_at (Some (last ?a)) (js '' + c * '' @ ?b @ ?t) ((n, ?a) # k))
      (rx_at (Some (last ?b)) ?t ((Suc n, ?b) # (n, ?a) # k))"
  proof (rule first_eq)
    show "rx_run (rx_seqs ?second) (rx_at (Some (last ?a)) (js '' + c * '' @ ?b @ ?t) ((n, ?a) # k)) =
        rx_run (rx_seqs [rx_s, RGroup (Suc n) ?num]) (rx_at (Some 42) (32 # ?b @ ?t) ((n, ?a) # k))"
      by (simp add: js_lit rx_step is_ws_def del: rx_seqs.simps rx_run.simps)
  qed (rule first_s_class, use tb t num_unit_no_ws in \<open>auto intro: first_eps\<close>)
  have one: "rx_first (rx_seqs ?first) (rx_at p (js ''p * '' @ ?a @ js '' + c * '' @ ?b @ ?t) k)
      (rx_at (Some (last ?b)) ?t ((Suc n, ?b) # (n, ?a) # k))"
  proof (rule first_eq)
    show "rx_run (rx_seqs ?first) (rx_at p (js ''p * '' @ ?a @ js '' + c * '' @ ?b @ ?t) k) =
        rx_run (rx_seqs (rx_s # RGroup n ?num # ?second)) (rx_at (Some 42) (32 # ?a @ js '' + c * '' @ ?b @ ?t) k)"
      by (simp add: js_lit rx_step is_ws_def del: rx_seqs.simps rx_run.simps)
  qed (rule first_s_class [OF ta _ _ two], use num_unit_no_ws in \<open>auto simp: js_lit num_unit_def is_digit_def\<close>)
  have "length ?vs = length (extra_costs t)" by (simp add: extra_costs_def cost_fields_def)
  moreover have "list_all plain_var ?vs" unfolding vars_list by (simp add: plain_var_def js_lit is_ws_def)
  ultimately obtain p' where "rx_first (rx_seqs (optCacheStr (Suc (Suc n)) ?vs)) (rx_at (Some (last ?b)) ?t ((Suc n, ?b) # (n, ?a) # k))
      (rx_at p' (js '')'' @ r) (cost_caps (Suc (Suc n)) (extra_costs t) @ (Suc n, ?b) # (n, ?a) # k))"
    using first_costs [OF _ vars_apart] assms by (metis priced_def)
  from first_append [OF one this] have "rx_first (rx_seqs (bodyPat n)) (rx_at p (js ''p * '' @ ?a @ js '' + c * '' @ ?b @ ?t) k)
      (rx_at p' (js '')'' @ r) (cost_caps (Suc (Suc n)) (extra_costs t) @ (Suc n, ?b) # (n, ?a) # k))"
    by (simp add: bodyPat_def del: rx_seqs.simps)
  moreover have "buildTierBodyExpr t @ js '')'' @ r = js ''p * '' @ ?a @ js '' + c * '' @ ?b @ ?t"
    by (simp add: body_text cost_text_def js_lit)
  ultimately show ?thesis by auto
qed

lemma first_label:
  assumes "34 \<notin> set l" and "t = [] \<or> \<not> is_ws (hd t)"
  shows "rx_first (rx_seqs (labelPat n)) (rx_at p (js ''tier('' @ [34] @ l @ [34] @ js '', '' @ t) k) (rx_at (Some 32) t ((n, l) # k))"
proof -
  have "rx_first (RLit (js ''tier('' @ [34])) (rx_at p ((js ''tier('' @ [34]) @ l @ ([34] @ js '','') @ [32] @ t) k)
      (rx_at (Some 34) (l @ ([34] @ js '','') @ [32] @ t) k)"
    using first_lit [of "js ''tier('' @ [34]"] by simp
  moreover have "rx_first (RGroup n (RStar (RSat (not_unit 34)))) (rx_at (Some 34) (l @ ([34] @ js '','') @ [32] @ t) k)
      (rx_at (if l = [] then Some 34 else Some (last l)) (([34] @ js '','') @ [32] @ t) ((n, l) # k))"
    by (intro first_group first_star) (use assms(1) in \<open>auto simp: not_unit_def list_all_iff\<close>)
  moreover have "rx_first (RLit ([34] @ js '','')) (rx_at p' (([34] @ js '','') @ [32] @ t) k') (rx_at (Some 44) ([32] @ t) k')" for p' k'
    using first_lit [of "[34] @ js '',''"] by (simp add: js_lit)
  moreover have "rx_first rx_s (rx_at (Some 44) ([32] @ t) k') (rx_at (Some 32) t k')" for k'
    unfolding rx_s_def using first_star [of is_ws "[32]" t "Some 44" k'] assms(2) by (simp add: is_ws_def)
  ultimately have "rx_first (rx_seqs (labelPat n)) (rx_at p ((js ''tier('' @ [34]) @ l @ ([34] @ js '','') @ [32] @ t) k)
      (rx_at (Some 32) t ((n, l) # k))"
    unfolding labelPat_def by (blast intro: first_Cons first_eps [folded rx_seqs.simps(1)])
  then show ?thesis by (simp add: js_lit)
qed

lemma first_tier:
  assumes "34 \<notin> set l" and "priced t"
  shows "rx_first (rx_seqs (labelPat n @ bodyPat (Suc n) @ [RLit (js '')'')])) (rx_at p (tier_call l t @ r) k)
    (rx_at (Some 41) r (tier_caps n l t @ k))"
proof -
  let ?b = "buildTierBodyExpr t @ js '')'' @ r"
  obtain p' where b: "rx_first (rx_seqs (bodyPat (Suc n))) (rx_at (Some 32) ?b ((n, l) # k)) (rx_at p' (js '')'' @ r) (tier_caps n l t @ k))"
    using first_body [OF assms(2), of "Suc n" "Some 32" r "(n, l) # k"] by (auto simp: tier_caps_def numeral_3_eq_3)
  have "rx_first (rx_seqs (labelPat n)) (rx_at p (tier_call l t @ r) k) (rx_at (Some 32) ?b ((n, l) # k))"
    using first_label [OF assms(1), of ?b n p k] by (simp add: tier_call_def body_text cost_text_def js_lit is_ws_def)
  moreover have "rx_first (rx_seqs [RLit (js '')'')]) (rx_at p' (js '')'' @ r) (tier_caps n l t @ k)) (rx_at (Some 41) r (tier_caps n l t @ k))"
    using first_lit [of "js '')''"] by (simp add: js_lit)
  ultimately show ?thesis using b by (blast intro: first_append)
qed

text \<open>Reading the groups of a match gives the tier back.\<close>

lemma caps_lookup:
  "map_of (cost_caps m xs @ k) i =
     (if m \<le> i \<and> i < m + length xs \<and> num_truthy (xs ! (i - m)) then Some (num_to_str (xs ! (i - m))) else map_of k i)"
proof (induction m xs arbitrary: k rule: cost_caps.induct)
  case (2 n x xs)
  have "map_of (cost_caps n (x # xs) @ k) i = map_of (cost_caps (Suc n) xs @ (if num_truthy x then [(n, num_to_str x)] else []) @ k) i"
    by (simp del: map_of_append)
  also have "\<dots> = (if Suc n \<le> i \<and> i < Suc n + length xs \<and> num_truthy (xs ! (i - Suc n)) then Some (num_to_str (xs ! (i - Suc n)))
      else map_of ((if num_truthy x then [(n, num_to_str x)] else []) @ k) i)"
    by (rule 2)
  finally show ?case by (cases "i = n") (auto simp: nth_Cons' simp del: map_of_append)
qed auto

lemma match_costs_read:
  assumes "length fs = length xs" and "list_all num_token xs" and "\<And>i. m \<le> i \<Longrightarrow> map_of k i = None"
  shows "match_costs (map_of (cost_caps m xs @ k)) m fs = filter (\<lambda>(f, x). num_truthy x) (zip fs xs)"
proof -
  have "match_costs (map_of (cost_caps m xs @ k)) (m + j) (drop j fs) = filter (\<lambda>(f, x). num_truthy x) (zip (drop j fs) (drop j xs))"
    if "j \<le> length fs" for j
    using that
  proof (induction "length fs - j" arbitrary: j)
    case (Suc d)
    then have j: "j < length fs" by simp
    then have drops: "drop j fs = fs ! j # drop (Suc j) fs" "drop j xs = xs ! j # drop (Suc j) xs"
      using assms(1) by (simp_all add: Cons_nth_drop_Suc)
    have "num_token (xs ! j)" using assms(1,2) j by (simp add: list_all_length)
    moreover have "match_costs (map_of (cost_caps m xs @ k)) (m + Suc j) (drop (Suc j) fs) =
        filter (\<lambda>(f, x). num_truthy x) (zip (drop (Suc j) fs) (drop (Suc j) xs))"
      by (rule Suc.hyps(1)) (use Suc.hyps(2) j in auto)
    moreover have "map_of (cost_caps m xs @ k) (m + j) = (if num_truthy (xs ! j) then Some (num_to_str (xs ! j)) else None)"
      using caps_lookup [of m xs k "m + j"] assms(1,3) j by simp
    ultimately show ?case by (simp add: drops token_text(3))
  qed simp
  from this [of 0] show ?thesis by simp
qed

lemma zero_falsy [simp]: "\<not> num_truthy (num_int 0)"
  by (simp add: num_truthy_def num_int_def)

lemma num_or0_cases: "num_truthy (num_or0 x) \<or> num_or0 x = num_int 0"
  by (auto simp: num_or0_def split: option.splits)

lemma num_or0_again [simp]: "num_or0 (Some (num_or0 x)) = num_or0 x"
  using num_or0_cases [of x] by (auto simp: num_or0_def [of "Some (num_or0 x)"])

lemma read_filtered:
  assumes "distinct fs" and "length fs = length xs" and "\<forall>x \<in> set xs. num_truthy x \<or> x = num_int 0"
  shows "map (\<lambda>f. (f, num_or0 (map_of (filter (\<lambda>(f, x). num_truthy x) (zip fs xs)) f))) fs = zip fs xs"
  using assms(2,1,3)
proof (induction fs xs rule: list_induct2)
  case (Cons f fs x xs)
  let ?F = "filter (\<lambda>(f, x). num_truthy x) (zip fs xs)" and ?G = "filter (\<lambda>(f, x). num_truthy x) (zip (f # fs) (x # xs))"
  have "map_of ?F f = None" using Cons.prems(1) by (auto simp: map_of_eq_None_iff dest: set_zip_leftD)
  then have "num_or0 (map_of ?G f) = x" using Cons.prems(2) by (auto simp: num_or0_def)
  moreover have "map (\<lambda>g. (g, num_or0 (map_of ?G g))) fs = map (\<lambda>g. (g, num_or0 (map_of ?F g))) fs" using Cons.prems(1) by auto
  moreover have "map (\<lambda>g. (g, num_or0 (map_of ?F g))) fs = zip fs xs" using Cons.IH Cons.prems by simp
  ultimately show ?case by (simp only: list.map zip_Cons_Cons)
qed simp

lemma mode_or0:
  "(case m of Some x \<Rightarrow> if num_lt (num_int 0) x then T else G | None \<Rightarrow> G) = (if num_lt (num_int 0) (num_or0 m) then T else G)"
proof (cases m)
  case (Some x)
  have "num_lt (num_int 0) x \<Longrightarrow> num_truthy x" by (cases x) (auto simp: num_truthy_def num_int_def)
  then show ?thesis using Some by (auto simp: num_or0_def num_int_def)
qed (simp add: num_or0_def num_int_def)

lemma fields_list:
  "cost_fields = map js [''cache_read_unit_cost'', ''cache_create_unit_cost'', ''cache_create_1h_unit_cost'',
     ''image_unit_cost'', ''image_output_unit_cost'', ''audio_input_unit_cost'', ''audio_output_unit_cost'']"
  by (simp add: cost_fields_def BILLING_CACHE_VAR_MAP_def BILLING_EXTRA_VARS_def BILLING_VARS_def price_var_def or_empty_def)

lemma fields_distinct: "distinct cost_fields"
  by (simp add: fields_list js_inject)

text \<open>A tier as it is read back: costs that are not numbers are zero, and the mode of the cache costs is
  the one the one-hour cost stands for.\<close>

definition canonical_tier :: "jsstr \<Rightarrow> tier_condition_input list \<Rightarrow> visual_tier \<Rightarrow> visual_tier" where
  "canonical_tier l cs t = \<lparr>vt_label = l, vt_conditions = cs, vt_input = fst (base_costs t), vt_output = snd (base_costs t),
     vt_cache_mode = (if num_lt (num_int 0) (num_or0 (map_of (vt_costs t) (js ''cache_create_1h_unit_cost'')))
       then CACHE_MODE_TIMED else CACHE_MODE_GENERIC),
     vt_costs = zip cost_fields (extra_costs t)\<rparr>"

lemma match_tier_read:
  assumes "priced t" and "\<And>i. n < i \<Longrightarrow> map_of k i = None"
  shows "normalizeVisualTier (match_tier (map_of (tier_caps n l t @ k)) n cs) = canonical_tier l cs t"
proof -
  let ?k = "[(n + 2, num_to_str (snd (base_costs t))), (n + 1, num_to_str (fst (base_costs t))), (n, l)] @ k"
  let ?m = "map_of (tier_caps n l t @ k)"
  have m: "?m = map_of (cost_caps (n + 3) (extra_costs t) @ ?k)" by (simp add: tier_caps_def)
  have len: "length cost_fields = length (extra_costs t)" by (simp add: extra_costs_def)
  have costs: "match_costs ?m (n + 3) cost_fields = filter (\<lambda>(f, x). num_truthy x) (zip cost_fields (extra_costs t))"
    unfolding m by (rule match_costs_read [OF len]) (use assms in \<open>auto simp: priced_def\<close>)
  have low: "?m i = map_of ?k i" if "i < n + 3" for i unfolding m using that by (subst caps_lookup) simp
  have "str_to_num (cap ?m (Suc n)) = fst (base_costs t)" "str_to_num (cap ?m (n + 2)) = snd (base_costs t)" "cap ?m n = l"
    using assms(1) low [of n] low [of "Suc n"] low [of "n + 2"] by (simp_all add: cap_def priced_def token_text(3) del: map_of_append)
  moreover have norm: "map (\<lambda>f. (f, num_or0 (map_of (filter (\<lambda>(f, x). num_truthy x) (zip cost_fields (extra_costs t))) f))) cost_fields =
      zip cost_fields (extra_costs t)"
    by (rule read_filtered [OF fields_distinct len]) (use num_or0_cases in \<open>auto simp: extra_costs_def\<close>)
  moreover have "getTierCacheMode (match_tier ?m n cs) =
      (if num_lt (num_int 0) (num_or0 (map_of (vt_costs t) (js ''cache_create_1h_unit_cost''))) then CACHE_MODE_TIMED else CACHE_MODE_GENERIC)"
  proof -
    have "js ''cache_create_1h_unit_cost'' \<in> set cost_fields" by (simp add: fields_list)
    moreover have "zip cost_fields (extra_costs t) = map (\<lambda>f. (f, num_or0 (map_of (vt_costs t) f))) cost_fields"
      by (simp add: extra_costs_def zip_map2 zip_same_conv_map)
    ultimately have "num_or0 (map_of (filter (\<lambda>(f, x). num_truthy x) (zip cost_fields (extra_costs t))) (js ''cache_create_1h_unit_cost'')) =
        num_or0 (map_of (vt_costs t) (js ''cache_create_1h_unit_cost''))"
      using norm by simp
    then show ?thesis by (simp add: getTierCacheMode_def match_tier_def costs mode_or0 del: map_of_append)
  qed
  ultimately show ?thesis
    unfolding normalizeVisualTier_def canonical_tier_def by (simp add: match_tier_def costs del: map_of_append)
qed

subsection \<open>Conditions\<close>

definition wf_cond :: "tier_condition_input \<Rightarrow> bool" where
  "wf_cond c \<longleftrightarrow> tci_var c \<in> {js ''p'', js ''c'', js ''len''} \<and> tci_op c \<in> {js ''<'', js ''<='', js ''>'', js ''>=''} \<and>
     (case tci_value c of JNum x \<Rightarrow> num_token x \<and> list_all unsigned_num_unit (num_to_str x) | _ \<Rightarrow> False)"

lemma wf_condE:
  assumes "wf_cond c"
  obtains v q x where "c = \<lparr>tci_var = v, tci_op = q, tci_value = JNum x\<rparr>" "v \<in> {js ''p'', js ''c'', js ''len''}"
    "q \<in> {js ''<'', js ''<='', js ''>'', js ''>=''}" "num_token x" "list_all unsigned_num_unit (num_to_str x)"
  using assms by (cases c) (auto simp: wf_cond_def split: jsval.splits)

lemma unsigned_no_ws: "unsigned_num_unit c \<Longrightarrow> \<not> is_ws c"
  by (auto simp: unsigned_num_unit_def is_digit_def is_ws_def)

lemma cond_text_rec: "cond_text \<lparr>tci_var = v, tci_op = q, tci_value = JNum x\<rparr> = v @ js '' '' @ q @ js '' '' @ num_to_str x"
  by (simp add: cond_text_def)

text \<open>The comparison is tried as \<open><\<close> before \<open><=\<close>; the shorter one fails at the equals sign.\<close>

lemma run_cond:
  assumes "v \<in> {js ''p'', js ''c'', js ''len''}" and "q \<in> {js ''<'', js ''<='', js ''>'', js ''>=''}"
  shows "rx_run rx_one_cond (rx_at p (v @ js '' '' @ q @ js '' '' @ t) k) =
      rx_run (rx_seqs [rx_s, rx_plus (RSat unsigned_num_unit)]) (rx_at (Some (last q)) (32 # t) k)"
    and "rx_run (rx_seqs [RGroup 1 rx_cond_var, rx_s, RGroup 2 rx_cond_op, rx_s, RGroup 3 (rx_plus (RSat unsigned_num_unit)), REnd])
        (rx_at p (v @ js '' '' @ q @ js '' '' @ t) k) =
      rx_run (rx_seqs [rx_s, RGroup 3 (rx_plus (RSat unsigned_num_unit)), REnd]) (rx_at (Some (last q)) (32 # t) ((2, q) # (1, v) # k))"
  using assms
  by (auto simp: rx_one_cond_def rx_cond_var_def rx_cond_op_def rx_words_def js_lit rx_step is_ws_def unsigned_num_unit_def is_digit_def
      simp del: rx_seqs.simps rx_run.simps)

lemma first_cond:
  assumes "wf_cond c" and "t = [] \<or> \<not> unsigned_num_unit (hd t)"
  shows "\<exists>p'. rx_first rx_one_cond (rx_at p (cond_text c @ t) k) (rx_at p' t k)"
proof -
  obtain v q x where c: "c = \<lparr>tci_var = v, tci_op = q, tci_value = JNum x\<rparr>" "v \<in> {js ''p'', js ''c'', js ''len''}"
    "q \<in> {js ''<'', js ''<='', js ''>'', js ''>=''}" and x: "num_token x" "list_all unsigned_num_unit (num_to_str x)"
    using assms(1) by (rule wf_condE)
  let ?w = "num_to_str x" and ?num = "rx_plus (RSat unsigned_num_unit)"
  have nw: "?w \<noteq> []" "\<not> is_ws (hd (?w @ t))"
    using token_text(2) [OF x(1)] x(2) unsigned_no_ws by (cases ?w; auto)+
  have "rx_first rx_s (rx_at (Some (last q)) ([32] @ (?w @ t)) k) (rx_at (Some 32) (?w @ t) k)"
    unfolding rx_s_def using first_star [of is_ws "[32]" "?w @ t" "Some (last q)" k] nw by (simp add: is_ws_def)
  moreover have "rx_first (rx_seqs [?num]) (rx_at (Some 32) (?w @ t) k) (rx_at (Some (last ?w)) t k)"
    using first_plus [OF x(2) nw(1) assms(2)] by simp
  ultimately have "rx_first (rx_seqs [rx_s, ?num]) (rx_at (Some (last q)) (32 # ?w @ t) k) (rx_at (Some (last ?w)) t k)"
    using first_Cons by fastforce
  then have "rx_first rx_one_cond (rx_at p (v @ js '' '' @ q @ js '' '' @ ?w @ t) k) (rx_at (Some (last ?w)) t k)"
    by (rule first_eq [OF run_cond(1) [OF c(2,3)]])
  then show ?thesis by (auto simp: c(1) cond_text_rec)
qed

lemma cond_text_ends:
  assumes "wf_cond c"
  shows "cond_text c \<noteq> []" and "\<not> is_ws (hd (cond_text c))" and "\<not> is_ws (last (cond_text c))"
    and "38 \<notin> set (cond_text c)"
proof -
  obtain v q x where c: "c = \<lparr>tci_var = v, tci_op = q, tci_value = JNum x\<rparr>" "v \<in> {js ''p'', js ''c'', js ''len''}"
    "q \<in> {js ''<'', js ''<='', js ''>'', js ''>=''}" and x: "num_token x" "list_all unsigned_num_unit (num_to_str x)"
    using assms by (rule wf_condE)
  have v: "v \<noteq> []" "\<not> is_ws (hd v)" "38 \<notin> set v" using c(2) by (auto simp: js_lit is_ws_def)
  have q: "38 \<notin> set q" using c(3) by (auto simp: js_lit)
  have w: "num_to_str x \<noteq> []" using token_text(2) [OF x(1)] .
  then have "\<not> is_ws (last (num_to_str x))" using x(2) unsigned_no_ws by (auto simp: list_all_iff)
  moreover have "38 \<notin> set (num_to_str x)" using x(2) by (auto simp: list_all_iff unsigned_num_unit_def is_digit_def)
  ultimately show "cond_text c \<noteq> []" "\<not> is_ws (hd (cond_text c))" "\<not> is_ws (last (cond_text c))" "38 \<notin> set (cond_text c)"
    using v q w by (simp_all add: c(1) cond_text_rec js_lit)
qed

lemma cond_filled_wf: "wf_cond c \<Longrightarrow> cond_filled c"
  by (auto simp: wf_cond_def cond_filled_def js_lit split: jsval.splits)

lemma build_wf: "list_all wf_cond cs \<Longrightarrow> buildConditionStr cs = js_join (js '' && '') (map cond_text cs)"
  by (simp add: buildConditionStr_def list_all_iff cond_filled_wf filter_id_conv)

lemma parse_cond_text:
  assumes "wf_cond c"
  shows "map_option cond_input (parse_tier_cond (cond_text c)) = Some c"
proof -
  obtain v q x where c: "c = \<lparr>tci_var = v, tci_op = q, tci_value = JNum x\<rparr>" "v \<in> {js ''p'', js ''c'', js ''len''}"
    "q \<in> {js ''<'', js ''<='', js ''>'', js ''>=''}" and x: "num_token x" "list_all unsigned_num_unit (num_to_str x)"
    using assms by (rule wf_condE)
  let ?w = "num_to_str x" and ?num = "RGroup 3 (rx_plus (RSat unsigned_num_unit))"
  have tr: "trim (cond_text c) = cond_text c"
    using cond_text_ends [OF assms] by (intro trim_trimmed) (simp add: trimmed_def)
  have "rx_first (rx_seqs [REnd]) (rx_at (Some (last ?w)) [] k) (rx_at (Some (last ?w)) [] k)" for k
    by (simp add: rx_first_def)
  then have "rx_first (rx_seqs [rx_s, ?num, REnd]) (rx_at (Some (last q)) (32 # ?w @ []) [(2, q), (1, v)])
      (rx_at (Some (last ?w)) [] [(3, ?w), (2, q), (1, v)])"
    by (intro first_s_class) (use x token_text(2) unsigned_no_ws in auto)
  then have "rx_match (rx_seqs [RGroup 1 rx_cond_var, rx_s, RGroup 2 rx_cond_op, rx_s, ?num, REnd]) (cond_text c) =
      Some (map_of [(3, ?w), (2, q), (1, v)])"
    unfolding c(1) cond_text_rec using first_match [OF first_eq [OF run_cond(2) [OF c(2,3)]]] by simp
  then show ?thesis
    unfolding parse_tier_cond_def tr by (simp add: cond_input_def cap_def token_text(3) [OF x(1)] c(1))
qed

text \<open>The conditions of a tier, captured as one group.\<close>

definition more_conds :: regex where
  "more_conds = rx_seqs [rx_s, RLit (js ''&&''), rx_s, rx_one_cond]"

lemma first_more:
  assumes "list_all wf_cond cs"
  shows "\<exists>p'. rx_first (RStar more_conds) (rx_at p (concat (map (\<lambda>c. js '' && '' @ cond_text c) cs) @ js '' ? '' @ r) k)
    (rx_at p' (js '' ? '' @ r) k)"
  using assms
proof (induction cs arbitrary: p)
  case Nil
  have "rx_run more_conds (rx_at p (js '' ? '' @ r) k) = []"
    by (simp add: more_conds_def js_lit rx_step is_ws_def del: rx_seqs.simps rx_run.simps)
  then show ?case using first_stop by auto
next
  case (Cons c cs)
  let ?t = "concat (map (\<lambda>c. js '' && '' @ cond_text c) cs) @ js '' ? '' @ r"
  have c: "wf_cond c" using Cons.prems by simp
  have "?t = [] \<or> \<not> unsigned_num_unit (hd ?t)"
    by (cases cs) (auto simp: js_lit unsigned_num_unit_def is_digit_def)
  then obtain p1 where "rx_first rx_one_cond (rx_at (Some 32) (cond_text c @ ?t) k) (rx_at p1 ?t k)"
    using first_cond [OF c] by blast
  then have "rx_first (rx_seqs [rx_one_cond]) (rx_at (Some 32) (cond_text c @ ?t) k) (rx_at p1 ?t k)" by simp
  moreover have "rx_first rx_s (rx_at (Some 38) ([32] @ cond_text c @ ?t) k) (rx_at (Some 32) (cond_text c @ ?t) k)"
    unfolding rx_s_def using first_star [of is_ws "[32]" "cond_text c @ ?t" "Some 38" k] cond_text_ends [OF c]
    by (simp add: is_ws_def)
  ultimately have "rx_first (rx_seqs [rx_s, rx_one_cond]) (rx_at (Some 38) ([32] @ cond_text c @ ?t) k) (rx_at p1 ?t k)"
    by (rule first_Cons [rotated])
  moreover have "rx_run more_conds (rx_at p (js '' && '' @ cond_text c @ ?t) k) =
      rx_run (rx_seqs [rx_s, rx_one_cond]) (rx_at (Some 38) ([32] @ cond_text c @ ?t) k)"
    by (simp add: more_conds_def js_lit rx_step is_ws_def del: rx_seqs.simps rx_run.simps)
  ultimately have step: "rx_first more_conds (rx_at p (js '' && '' @ cond_text c @ ?t) k) (rx_at p1 ?t k)" by (simp add: rx_first_def)
  obtain p2 where "rx_first (RStar more_conds) (rx_at p1 ?t k) (rx_at p2 (js '' ? '' @ r) k)"
    using Cons.IH [of p1] Cons.prems by auto
  then have "rx_first (RStar more_conds) (rx_at p (js '' && '' @ cond_text c @ ?t) k) (rx_at p2 (js '' ? '' @ r) k)"
    by (rule first_again [OF step, rotated]) simp
  then show ?case by auto
qed

definition and_sep :: regex where
  "and_sep = rx_seqs [rx_s, RLit (js ''&&''), rx_s]"

lemma sep_fails:
  "s \<noteq> [] \<Longrightarrow> \<not> is_ws (last s) \<Longrightarrow> 38 \<notin> set s \<Longrightarrow> rx_run and_sep (rx_at p (s @ t) []) = []"
proof (induction s arbitrary: p)
  case (Cons c s)
  then show ?case
    by (cases "is_ws c") (auto simp: and_sep_def js_lit rx_step simp del: rx_seqs.simps rx_run.simps split: if_splits)
qed simp

lemma sep_barren:
  assumes "s \<noteq> []" and "\<not> is_ws (last s)" and "38 \<notin> set s"
  shows "rx_barren and_sep s t"
  unfolding rx_barren_def
proof (intro allI impI)
  fix i p assume "i < length s"
  then show "rx_run and_sep (rx_at p (drop i s @ t) []) = []"
    using assms by (intro sep_fails) (auto dest: in_set_dropD)
qed

lemma split_conds:
  assumes "list_all wf_cond (c # cs)"
  shows "rx_split and_sep (js_join (js '' && '') (map cond_text (c # cs))) = map cond_text (c # cs)"
  using assms
proof (induction cs arbitrary: c)
  case Nil
  have "rx_search and_sep None (cond_text c @ []) = None"
    using cond_text_ends [of c] Nil
    by (subst search_barren [OF sep_barren]) (simp_all add: and_sep_def js_lit rx_step is_ws_def del: rx_seqs.simps rx_run.simps)
  then show ?case by (subst rx_split.simps) simp
next
  case (Cons d ds)
  let ?t = "js_join (js '' && '') (map cond_text (d # ds))"
  have d: "?t \<noteq> []" "\<not> is_ws (hd ?t)" using cond_text_ends [of d] Cons.prems by (simp_all add: js_join_from)
  have "rx_first rx_s (rx_at (Some 38) ([32] @ ?t) []) (rx_at (Some 32) ?t [])"
    unfolding rx_s_def using first_star [of is_ws "[32]" ?t "Some 38" "[]"] d by (simp add: is_ws_def)
  then have "rx_first (rx_seqs [rx_s]) (rx_at (Some 38) ([32] @ ?t) []) (rx_at (Some 32) ?t [])" by simp
  moreover have "rx_run and_sep (rx_at p (js '' && '' @ ?t) []) = rx_run (rx_seqs [rx_s]) (rx_at (Some 38) ([32] @ ?t) [])" for p
    by (simp add: and_sep_def js_lit rx_step is_ws_def del: rx_seqs.simps rx_run.simps js_join.simps list.map)
  ultimately have "rx_first and_sep (rx_at p (js '' && '' @ ?t) []) (rx_at (Some 32) ?t [])" for p by (simp add: rx_first_def)
  then have "rx_search and_sep p (js '' && '' @ ?t) = Some (0, rx_at (Some 32) ?t [])" for p by (rule first_search)
  then have "rx_search and_sep None (cond_text c @ js '' && '' @ ?t) = Some (length (cond_text c), rx_at (Some 32) ?t [])"
    using cond_text_ends [of c] Cons.prems by (subst search_barren [OF sep_barren]) simp_all
  then have "rx_split and_sep (cond_text c @ js '' && '' @ ?t) = cond_text c # rx_split and_sep ?t"
    by (subst rx_split.simps) simp
  then show ?case using Cons by simp
qed

lemma conditions_read:
  assumes "list_all wf_cond cs"
  shows "match_conditions (buildConditionStr cs) = cs"
proof (cases cs)
  case Nil
  then show ?thesis by (simp add: match_conditions_def buildConditionStr_def)
next
  case (Cons c ds)
  have "map_option cond_input (parse_tier_cond (cond_text d)) = Some d" if "d \<in> set cs" for d
    using assms that parse_cond_text by (simp add: list_all_iff)
  then have "map cond_input (List.map_filter parse_tier_cond (map cond_text cs)) = cs"
  proof (induction cs)
    case (Cons a cs)
    obtain z where "parse_tier_cond (cond_text a) = Some z" "cond_input z = a" using Cons.prems [of a] by auto
    then show ?case using Cons by (simp add: List.map_filter_simps)
  qed (simp add: List.map_filter_simps)
  moreover have "buildConditionStr cs \<noteq> []"
    using cond_text_ends(1) [of c] assms by (simp add: build_wf Cons js_join_from)
  moreover have "rx_split and_sep (buildConditionStr cs) = map cond_text cs"
    using split_conds assms Cons by (simp add: build_wf)
  ultimately show ?thesis unfolding match_conditions_def and_sep_def [symmetric] by simp
qed

subsection \<open>The chain of tiers\<close>

abbreviation tier_rest :: "regex list" where
  "tier_rest \<equiv> labelPat 2 @ bodyPat 3 @ [RLit (js '')'')]"

lemma visual_parts: "visualTierRe = rx_seqs (rx_opt (rx_seqs [condGroup, rx_s, RLit (js ''?''), rx_s]) # tier_rest)"
  by (simp add: visualTierRe_def del: rx_seqs.simps)

lemma cond_group_fails:
  "rx_run rx_one_cond st = [] \<Longrightarrow> rx_run (rx_seqs [condGroup, rx_s, RLit (js ''?''), rx_s]) st = []"
  by (simp only: run_seqs_Cons) (simp add: condGroup_def)

lemma one_cond_fails: "c \<notin> {112, 99, 108} \<Longrightarrow> rx_run rx_one_cond (rx_at p (c # s) k) = []"
  by (simp add: rx_one_cond_def rx_cond_var_def rx_words_def js_lit rx_step del: rx_seqs.simps rx_run.simps)

lemma label_fails: "c \<noteq> 116 \<Longrightarrow> rx_run (rx_seqs (labelPat n @ rs)) (rx_at p (c # s) k) = []"
  by (simp add: labelPat_def js_lit rx_step del: rx_seqs.simps rx_run.simps)

lemma visual_fails: "c \<notin> {112, 99, 108, 116} \<Longrightarrow> rx_run visualTierRe (rx_at p (c # s) k) = []"
  unfolding visual_parts run_opt_seqs
  by (simp add: run_seqs_Cons [of "rx_seqs [condGroup, rx_s, RLit (js ''?''), rx_s]"] cond_group_fails one_cond_fails label_fails
      del: rx_seqs.simps rx_run.simps)

lemma first_cond_group:
  assumes "list_all wf_cond (c # cs)"
  shows "\<exists>p'. rx_first condGroup (rx_at p (buildConditionStr (c # cs) @ js '' ? '' @ r) k)
    (rx_at p' (js '' ? '' @ r) ((1, buildConditionStr (c # cs)) # k))"
proof -
  let ?more = "concat (map (\<lambda>c. js '' && '' @ cond_text c) cs)"
  have str: "buildConditionStr (c # cs) = cond_text c @ ?more"
    using assms by (simp only: build_wf list.map js_join_from) (simp add: comp_def)
  have "?more @ js '' ? '' @ r = [] \<or> \<not> unsigned_num_unit (hd (?more @ js '' ? '' @ r))"
    by (cases cs) (auto simp: js_lit unsigned_num_unit_def is_digit_def)
  then obtain p1 where one: "rx_first rx_one_cond (rx_at p (cond_text c @ ?more @ js '' ? '' @ r) k) (rx_at p1 (?more @ js '' ? '' @ r) k)"
    using first_cond assms by fastforce
  obtain p2 where "rx_first (RStar more_conds) (rx_at p1 (?more @ js '' ? '' @ r) k) (rx_at p2 (js '' ? '' @ r) k)"
    using first_more assms by fastforce
  from first_seq [OF one this]
  have "rx_first (RSeq rx_one_cond (RStar more_conds)) (rx_at p (buildConditionStr (c # cs) @ js '' ? '' @ r) k)
      (rx_at p2 (js '' ? '' @ r) k)" by (simp add: str)
  then show ?thesis unfolding condGroup_def more_conds_def by (blast intro: first_group)
qed

lemma call_starts: "tier_call l t @ r = js ''tier('' @ [34] @ l @ [34] @ js '', '' @ buildTierBodyExpr t @ js '')'' @ r"
  by (simp add: tier_call_def)

lemma first_with_cond:
  assumes "list_all wf_cond (c # cs)" and "34 \<notin> set l" and "priced t"
  shows "rx_first visualTierRe (rx_at p (buildConditionStr (c # cs) @ js '' ? '' @ tier_call l t @ r) [])
    (rx_at (Some 41) r (tier_caps 2 l t @ [(1, buildConditionStr (c # cs))]))"
proof -
  let ?k = "[(1, buildConditionStr (c # cs))]" and ?call = "tier_call l t @ r"
  obtain p1 where g: "rx_first condGroup (rx_at p (buildConditionStr (c # cs) @ js '' ? '' @ ?call) []) (rx_at p1 (js '' ? '' @ ?call) ?k)"
    using first_cond_group [OF assms(1)] by blast
  have "\<not> is_ws (hd ?call)" "?call \<noteq> []" by (simp_all add: tier_call_def js_lit is_ws_def)
  then have "rx_first (rx_seqs [rx_s]) (rx_at (Some 63) ([32] @ ?call) ?k) (rx_at (Some 32) ?call ?k)"
    using first_star [of is_ws "[32]" ?call "Some 63" ?k] by (simp add: rx_s_def is_ws_def)
  moreover have "rx_run (rx_seqs [rx_s, RLit (js ''?''), rx_s]) (rx_at p1 (js '' ? '' @ ?call) ?k) =
      rx_run (rx_seqs [rx_s]) (rx_at (Some 63) ([32] @ ?call) ?k)"
    by (simp add: js_lit rx_step is_ws_def del: rx_seqs.simps rx_run.simps)
  ultimately have "rx_first (rx_seqs [rx_s, RLit (js ''?''), rx_s]) (rx_at p1 (js '' ? '' @ ?call) ?k) (rx_at (Some 32) ?call ?k)"
    by (simp add: rx_first_def)
  from first_opt [OF first_Cons [OF g this]] first_tier [OF assms(2,3), of 2 "Some 32" r ?k]
  show ?thesis unfolding visual_parts by (simp add: first_Cons del: rx_seqs.simps)
qed

lemma first_without_cond:
  assumes "34 \<notin> set l" and "priced t"
  shows "rx_first visualTierRe (rx_at p (tier_call l t @ r) []) (rx_at (Some 41) r (tier_caps 2 l t))"
proof -
  have "rx_run (rx_seqs [condGroup, rx_s, RLit (js ''?''), rx_s]) (rx_at p (tier_call l t @ r) []) = []"
    by (rule cond_group_fails) (simp add: tier_call_def js_lit one_cond_fails)
  from first_opt_none [OF this] first_tier [OF assms, of 2 p r "[]"]
  show ?thesis unfolding visual_parts by (simp add: first_Cons del: rx_seqs.simps)
qed

text \<open>Tiers as the editor keeps them: a name, costs that print, and conditions on every tier but the last.\<close>

definition wf_tier :: "visual_tier \<Rightarrow> bool" where
  "wf_tier t \<longleftrightarrow> vt_label t \<noteq> [] \<and> 34 \<notin> set (vt_label t) \<and> priced t \<and> list_all wf_cond (vt_conditions t)"

fun wf_chain :: "visual_tier list \<Rightarrow> bool" where
  "wf_chain [] = False"
| "wf_chain [t] = wf_tier t"
| "wf_chain (t # u # ts) = (wf_tier t \<and> vt_conditions t \<noteq> [] \<and> wf_chain (u # ts))"

fun canonical_chain :: "visual_tier list \<Rightarrow> visual_tier list" where
  "canonical_chain [] = []"
| "canonical_chain [t] = [canonical_tier (vt_label t) [] t]"
| "canonical_chain (t # u # ts) = canonical_tier (vt_label t) (vt_conditions t) t # canonical_chain (u # ts)"

lemma visual_match_caps:
  assumes "wf_tier t"
  shows "visual_match (map_of (tier_caps 2 (vt_label t) t @ [(1, buildConditionStr (vt_conditions t))])) =
      canonical_tier (vt_label t) (vt_conditions t) t"
    and "visual_match (map_of (tier_caps 2 (vt_label t) t)) = canonical_tier (vt_label t) [] t"
proof -
  let ?c = "buildConditionStr (vt_conditions t)"
  have pr: "priced t" and cs: "match_conditions ?c = vt_conditions t" using assms conditions_read by (auto simp: wf_tier_def)
  have one: "map_of (tier_caps 2 (vt_label t) t @ k) 1 = map_of k 1" for k
    using caps_lookup [of 5 "extra_costs t" _ 1] by (simp add: tier_caps_def del: map_of_append)
  have "cap (map_of (tier_caps 2 (vt_label t) t @ [(1, ?c)])) 1 = ?c" "cap (map_of (tier_caps 2 (vt_label t) t @ [])) 1 = []"
    by (simp_all only: cap_def one) simp_all
  then show "visual_match (map_of (tier_caps 2 (vt_label t) t @ [(1, ?c)])) = canonical_tier (vt_label t) (vt_conditions t) t"
      "visual_match (map_of (tier_caps 2 (vt_label t) t)) = canonical_tier (vt_label t) [] t"
    using match_tier_read [OF pr, of 2 "[(1, ?c)]"] match_tier_read [OF pr, of 2 "[]"] cs
    by (simp_all add: visual_match_def match_conditions_def [of "[]"] del: map_of_append)
qed

lemma tier_part_wf:
  assumes "wf_tier t"
  shows "tier_part i True t = tier_call (vt_label t) t"
    and "vt_conditions t \<noteq> [] \<Longrightarrow>
      tier_part i False t = buildConditionStr (vt_conditions t) @ js '' ? '' @ tier_call (vt_label t) t"
proof -
  have "buildConditionStr (vt_conditions t) \<noteq> []" if "vt_conditions t \<noteq> []"
    using that assms cond_text_ends(1) by (cases "vt_conditions t") (auto simp: wf_tier_def build_wf js_join_from)
  then show "tier_part i True t = tier_call (vt_label t) t"
      "vt_conditions t \<noteq> [] \<Longrightarrow> tier_part i False t = buildConditionStr (vt_conditions t) @ js '' ? '' @ tier_call (vt_label t) t"
    using assms by (simp_all add: tier_part_def wf_tier_def Let_def)
qed

lemma colon_barren: "rx_barren visualTierRe (js '' : '') u"
  by (simp add: js_lit barren_Cons visual_fails)

lemma exec_nothing: "rx_exec_all visualTierRe p [] = []"
proof -
  have "rx_run rx_one_cond (rx_at p [] []) = []"
    by (simp add: rx_one_cond_def rx_cond_var_def rx_words_def js_lit rx_step del: rx_seqs.simps rx_run.simps)
  then have "rx_run (rx_seqs (rx_seqs [condGroup, rx_s, RLit (js ''?''), rx_s] # tier_rest)) (rx_at p [] []) = []"
    by (simp only: run_seqs_Cons [of "rx_seqs [condGroup, rx_s, RLit (js ''?''), rx_s]"] cond_group_fails) simp
  moreover have "rx_run (rx_seqs tier_rest) (rx_at p [] []) = []"
    by (simp add: labelPat_def js_lit rx_step del: rx_seqs.simps rx_run.simps)
  ultimately have "rx_run visualTierRe (rx_at p [] []) = []" unfolding visual_parts run_opt_seqs by simp
  then show ?thesis by (intro exec_none) simp
qed

lemma exec_chain:
  assumes "wf_chain ts" and "s = [] \<or> s = js '' : ''"
  shows "map visual_match (rx_exec_all visualTierRe p (s @ js_join (js '' : '') (tier_parts i ts))) = canonical_chain ts"
  using assms
proof (induction ts arbitrary: s p i rule: wf_chain.induct)
  case (2 t)
  then have wf: "34 \<notin> set (vt_label t)" "priced t" by (simp_all add: wf_tier_def)
  have bar: "rx_barren visualTierRe s (tier_call (vt_label t) t)" using 2 colon_barren by auto
  have "rx_exec_all visualTierRe p (s @ tier_call (vt_label t) t) =
      map_of (tier_caps 2 (vt_label t) t) # rx_exec_all visualTierRe (Some 41) []"
    by (rule exec_barren [OF bar]) (use first_without_cond [OF wf, of _ "[]"] in \<open>auto simp: tier_call_def js_lit\<close>)
  then show ?case using 2 by (simp add: exec_nothing visual_match_caps tier_part_wf)
next
  case (3 t u ts)
  let ?c = "buildConditionStr (vt_conditions t)" and ?rest = "js '' : '' @ js_join (js '' : '') (tier_parts (Suc i) (u # ts))"
  have wf: "34 \<notin> set (vt_label t)" "priced t" "list_all wf_cond (vt_conditions t)" "vt_conditions t \<noteq> []" "wf_tier t"
    using 3 by (simp_all add: wf_tier_def)
  let ?part = "?c @ js '' ? '' @ tier_call (vt_label t) t"
  have bar: "rx_barren visualTierRe s (?part @ ?rest)" using 3 colon_barren by auto
  have "rx_first visualTierRe (rx_at q (?part @ ?rest) []) (rx_at (Some 41) ?rest (tier_caps 2 (vt_label t) t @ [(1, ?c)]))" for q
    using first_with_cond [of "hd (vt_conditions t)" "tl (vt_conditions t)", OF _ wf(1,2)] wf(3,4) by simp
  then have "rx_exec_all visualTierRe p (s @ ?part @ ?rest) =
      map_of (tier_caps 2 (vt_label t) t @ [(1, ?c)]) # rx_exec_all visualTierRe (Some 41) ?rest"
    by (rule exec_barren [OF bar]) simp
  moreover have "js_join (js '' : '') (tier_parts i (t # u # ts)) = ?part @ ?rest" using wf by (simp add: tier_part_wf)
  moreover have "map visual_match (rx_exec_all visualTierRe (Some 41) ?rest) = canonical_chain (u # ts)" using 3 by simp
  ultimately show ?case using visual_match_caps(1) [OF wf(5)] by (simp del: map_of_append tier_parts.simps)
qed simp

text \<open>What is read back is in normal form and stands for the same expression.\<close>

lemma zip_costs: "zip cost_fields (extra_costs t) = map (\<lambda>f. (f, num_or0 (map_of (vt_costs t) f))) cost_fields"
  by (simp add: extra_costs_def zip_map2 zip_same_conv_map)

lemma canonical_costs:
  "base_costs (canonical_tier l cs t) = base_costs t" "extra_costs (canonical_tier l cs t) = extra_costs t"
proof -
  show "base_costs (canonical_tier l cs t) = base_costs t" by (simp add: base_costs_def canonical_tier_def)
  have "num_or0 (map_of (zip cost_fields (extra_costs t)) f) = num_or0 (map_of (vt_costs t) f)" if "f \<in> set cost_fields" for f
    using that zip_costs [of t] map_of_map_restrict [of "\<lambda>f. num_or0 (map_of (vt_costs t) f)" cost_fields] by simp
  then show "extra_costs (canonical_tier l cs t) = extra_costs t"
    by (simp add: extra_costs_def [of "canonical_tier l cs t"] canonical_tier_def) (simp add: extra_costs_def)
qed

lemma canonical_normal: "normalizeVisualTier (as_partial (canonical_tier l cs t)) = canonical_tier l cs t"
proof -
  have "map (\<lambda>f. (f, num_or0 (map_of (vt_costs (canonical_tier l cs t)) f))) cost_fields = zip cost_fields (extra_costs t)"
    using zip_costs [of "canonical_tier l cs t"] canonical_costs(2) [of l cs t] by simp
  then show ?thesis by (simp add: normalizeVisualTier_def as_partial_def canonical_tier_def)
qed

lemma call_canonical: "tier_call l (canonical_tier l' cs t) = tier_call l t"
  by (simp add: tier_call_def body_text canonical_costs)

lemma parts_canonical: "wf_chain ts \<Longrightarrow> tier_parts i (canonical_chain ts) = tier_parts i ts"
proof (induction ts arbitrary: i rule: wf_chain.induct)
  case (3 t u ts)
  have "canonical_chain (u # ts) \<noteq> []" by (cases ts) simp_all
  then show ?case
    using 3 by (simp add: tier_part_def call_canonical) (simp add: canonical_tier_def)
qed (simp_all add: tier_part_def call_canonical, simp add: canonical_tier_def Let_def)

subsection \<open>Round trip\<close>

definition canonical_config :: "visual_tier list \<Rightarrow> visual_tier list" where
  "canonical_config ts = (case ts of [t] \<Rightarrow> [canonical_tier (vt_label t) (vt_conditions t) t] | _ \<Rightarrow> canonical_chain ts)"

lemma strip_plain: "c \<noteq> 118 \<Longrightarrow> snd (stripExprVersion (c # s)) = c # s"
  by (simp add: stripExprVersion_def rx_match_run js_lit run_lit_def)

lemma single_fails: "c \<noteq> 116 \<Longrightarrow> rx_match singleRe (c # s) = None"
  unfolding singleRe_def rx_match_run by (simp add: label_fails del: rx_seqs.simps)

lemma cond_str_hd:
  assumes "list_all wf_cond cs" and "cs \<noteq> []"
  obtains c s where "buildConditionStr cs = c # s" "c \<in> {112, 99, 108}"
proof -
  obtain d ds where cs: "cs = d # ds" using assms(2) by (cases cs) auto
  then have "wf_cond d" using assms(1) by simp
  then obtain v q x where d: "d = \<lparr>tci_var = v, tci_op = q, tci_value = JNum x\<rparr>" "v \<in> {js ''p'', js ''c'', js ''len''}"
    by (rule wf_condE)
  have "v \<noteq> []" "hd v \<in> {112, 99, 108}" using d(2) by (auto simp: js_lit)
  then obtain c s where "buildConditionStr cs = c # s" "c = hd v"
    using assms(1) by (cases v) (simp_all add: build_wf cs js_join_from d(1) cond_text_rec)
  then show thesis using that \<open>hd v \<in> {112, 99, 108}\<close> by blast
qed

lemma single_read:
  assumes "wf_tier t"
  shows "rx_match singleRe (tier_call (vt_label t) t) = Some (map_of (tier_caps 1 (vt_label t) t))"
proof -
  have "rx_first (rx_seqs (labelPat 1 @ bodyPat 2 @ [RLit (js '')'')])) (rx_at None (tier_call (vt_label t) t @ []) [])
      (rx_at (Some 41) [] (tier_caps 1 (vt_label t) t @ []))"
    using first_tier [of "vt_label t" t 1 None "[]" "[]"] assms by (simp add: wf_tier_def numeral_2_eq_2)
  from first_append [OF this, of "[REnd]"]
  have "rx_first singleRe (rx_at None (tier_call (vt_label t) t) []) (rx_at (Some 41) [] (tier_caps 1 (vt_label t) t))"
    by (simp add: singleRe_def rx_first_def del: rx_seqs.simps) simp
  then show ?thesis by (rule first_match)
qed

lemma normal_config: "ts \<noteq> [] \<Longrightarrow> (\<And>t. t \<in> set ts \<Longrightarrow> normalizeVisualTier (as_partial t) = t) \<Longrightarrow> normalizeVisualConfig (Some ts) = ts"
  by (simp add: normalizeVisualConfig_def map_idI)

lemma chain_normal: "t \<in> set (canonical_chain ts) \<Longrightarrow> normalizeVisualTier (as_partial t) = t"
  by (induction ts rule: canonical_chain.induct) (auto simp: canonical_normal)

lemma generate_canonical: "wf_chain ts \<Longrightarrow> generateExprFromVisualConfig (Some (canonical_config ts)) = generateExprFromVisualConfig (Some ts)"
proof (induction ts rule: wf_chain.induct)
  case (2 t)
  then show ?case
    by (simp add: canonical_config_def generateExprFromVisualConfig_def call_canonical) (simp add: canonical_tier_def)
next
  case (3 t u ts)
  obtain a b cs where ch: "canonical_chain (t # u # ts) = a # b # cs" by (cases ts) simp_all
  then show ?case
    using parts_canonical [OF 3(2), of 0] by (simp add: canonical_config_def generateExprFromVisualConfig_def del: tier_parts.simps canonical_chain.simps)
qed simp

text \<open>A text that is not a single tier, and whose tiers are found, is accepted when they regenerate it.\<close>

lemma parse_found:
  assumes "expr = c # s" and "c \<noteq> 118" and "c \<noteq> 116"
    and "map visual_match (rx_exec_all visualTierRe None expr) = ts" and "ts \<noteq> []" and "normalizeVisualConfig (Some ts) = ts"
    and "generateExprFromVisualConfig (Some ts) = expr"
  shows "tryParseVisualConfig expr = Some ts"
  using assms by (simp add: tryParseVisualConfig_def strip_plain single_fails)

lemma tail_barren: "rx_exec_all visualTierRe (Some 41) (js '' : p * 0 + c * 0'') = []"
  by (rule exec_none) code_simp

lemma visual_roundtrip:
  assumes "wf_chain ts"
  shows "tryParseVisualConfig (generateExprFromVisualConfig (Some ts)) = Some (canonical_config ts) \<and>
    generateExprFromVisualConfig (Some (canonical_config ts)) = generateExprFromVisualConfig (Some ts)"
proof -
  let ?e = "generateExprFromVisualConfig (Some ts)"
  have "tryParseVisualConfig ?e = Some (canonical_config ts)"
    using assms
  proof (cases ts rule: wf_chain.cases)
    case (2 t)
    then have wf: "wf_tier t" using assms by simp
    show ?thesis
    proof (cases "vt_conditions t = []")
      case True
      have e: "?e = tier_call (vt_label t) t" using wf by (simp add: 2 True generateExprFromVisualConfig_def buildConditionStr_def wf_tier_def)
      obtain s where s: "tier_call (vt_label t) t = 116 # s" by (simp add: tier_call_def js_lit)
      have "normalizeVisualTier (match_tier (map_of (tier_caps 1 (vt_label t) t)) 1 []) = canonical_tier (vt_label t) [] t"
        using match_tier_read [of t 1 "[]"] wf by (simp add: wf_tier_def)
      moreover have "normalizeVisualConfig (Some [canonical_tier (vt_label t) [] t]) = [canonical_tier (vt_label t) [] t]"
        by (simp add: normalizeVisualConfig_def canonical_normal)
      ultimately show ?thesis
        unfolding e tryParseVisualConfig_def
        using single_read [OF wf] by (simp add: s strip_plain canonical_config_def 2 True)
    next
      case False
      let ?cs = "vt_conditions t"
      obtain c s where c: "buildConditionStr ?cs = c # s" "c \<in> {112, 99, 108}"
        using cond_str_hd [OF _ False] wf by (auto simp: wf_tier_def)
      have e: "?e = buildConditionStr ?cs @ js '' ? '' @ tier_call (vt_label t) t @ js '' : p * 0 + c * 0''"
        using wf c by (simp add: 2 generateExprFromVisualConfig_def wf_tier_def)
      have "rx_first visualTierRe (rx_at None ?e []) (rx_at (Some 41) (js '' : p * 0 + c * 0'') (tier_caps 2 (vt_label t) t @ [(1, buildConditionStr ?cs)]))"
        using first_with_cond [of "hd ?cs" "tl ?cs"] wf False unfolding e by (simp add: wf_tier_def)
      moreover have "length (js '' : p * 0 + c * 0'') < length ?e" unfolding e by (simp add: tier_call_def js_lit)
      ultimately have "rx_exec_all visualTierRe None ?e = map_of (tier_caps 2 (vt_label t) t @ [(1, buildConditionStr ?cs)]) #
          rx_exec_all visualTierRe (Some 41) (js '' : p * 0 + c * 0'')"
        by (rule exec_first)
      then have "map visual_match (rx_exec_all visualTierRe None ?e) = canonical_config ts"
        using visual_match_caps(1) [OF wf] by (simp add: tail_barren canonical_config_def 2 del: map_of_append)
      then show ?thesis
        by (rule parse_found [rotated 3]) (use c e generate_canonical [OF assms] 2 in
          \<open>auto simp: canonical_config_def normalizeVisualConfig_def canonical_normal\<close>)
    qed
  next
    case (3 t u us)
    have can: "canonical_config ts = canonical_chain ts" by (simp add: canonical_config_def 3)
    have e: "?e = js_join (js '' : '') (tier_parts 0 ts)" by (simp add: generateExprFromVisualConfig_def 3)
    have wf: "wf_tier t" "vt_conditions t \<noteq> []" using assms 3 by simp_all
    obtain c s where c: "buildConditionStr (vt_conditions t) = c # s" "c \<in> {112, 99, 108}"
      using cond_str_hd [OF _ wf(2)] wf(1) by (auto simp: wf_tier_def)
    have start: "\<exists>s'. ?e = c # s'" unfolding e using c wf by (simp add: 3 tier_part_wf)
    have "map visual_match (rx_exec_all visualTierRe None ?e) = canonical_chain ts"
      using exec_chain [OF assms, of "[]" None 0] e by simp
    moreover have "canonical_chain ts \<noteq> []" by (simp add: 3)
    moreover have "normalizeVisualConfig (Some (canonical_chain ts)) = canonical_chain ts"
      by (rule normal_config) (use chain_normal \<open>canonical_chain ts \<noteq> []\<close> in auto)
    moreover have "generateExprFromVisualConfig (Some (canonical_chain ts)) = ?e" using generate_canonical [OF assms] can by simp
    ultimately show ?thesis using parse_found [of ?e c] start c(2) can by auto
  qed simp
  then show ?thesis using generate_canonical [OF assms] by blast
qed

text \<open>What is written of the tier at a position: its name or the default, and its filled conditions, except those of the
  last of several tiers.\<close>

definition written_label :: "nat \<Rightarrow> nat \<Rightarrow> visual_tier \<Rightarrow> jsstr" where
  "written_label n i t =
     (if vt_label t \<noteq> [] then vt_label t else if n = 1 then js ''default'' else js ''tier_'' @ int_str (int i + 1))"

definition written_conditions :: "nat \<Rightarrow> nat \<Rightarrow> visual_tier \<Rightarrow> tier_condition_input list" where
  "written_conditions n i t = (if n \<noteq> 1 \<and> Suc i = n then [] else filter cond_filled (vt_conditions t))"

definition written_tier :: "nat \<Rightarrow> nat \<Rightarrow> visual_tier \<Rightarrow> visual_tier" where
  "written_tier n i t = t\<lparr>vt_label := written_label n i t, vt_conditions := written_conditions n i t\<rparr>"

definition written_tiers :: "nat \<Rightarrow> nat \<Rightarrow> visual_tier list \<Rightarrow> visual_tier list" where
  "written_tiers n i ts = map (\<lambda>(i, t). written_tier n i t) (enumerate i ts)"

text \<open>The tiers that are read: names and conditions as written, costs as numbers, the cache mode from the costs.\<close>

definition read_tiers :: "visual_tier list \<Rightarrow> visual_tier list" where
  "read_tiers ts = map (\<lambda>(i, t). canonical_tier (written_label (length ts) i t) (written_conditions (length ts) i t) t) (enumerate 0 ts)"

definition readable_tier :: "nat \<Rightarrow> nat \<Rightarrow> visual_tier \<Rightarrow> bool" where
  "readable_tier n i t \<longleftrightarrow> 34 \<notin> set (vt_label t) \<and> priced t \<and> list_all wf_cond (written_conditions n i t) \<and>
     (Suc i < n \<longrightarrow> written_conditions n i t \<noteq> [])"

definition readable_tiers :: "visual_tier list \<Rightarrow> bool" where
  "readable_tiers ts \<longleftrightarrow> ts \<noteq> [] \<and> list_all (\<lambda>(i, t). readable_tier (length ts) i t) (enumerate 0 ts)"

lemma int_str_units: "list_all (\<lambda>c. c = 45 \<or> is_digit c) (int_str i)"
proof -
  have "list_all is_digit (int_digits n)" if "0 \<le> n" for n using int_digits_digit [OF that] by (auto simp: list_all_iff)
  from this [of i] this [of "- i"] show ?thesis by (auto simp: int_str_def list_all_iff)
qed

lemma written_label_ok: "34 \<notin> set (vt_label t) \<Longrightarrow> written_label n i t \<noteq> [] \<and> 34 \<notin> set (written_label n i t)"
  using int_str_units [of "int i + 1"] by (auto simp: written_label_def js_lit list_all_iff is_digit_def)

lemma written_wf: "readable_tier n i t \<Longrightarrow> wf_tier (written_tier n i t)"
  using written_label_ok [of t n i]
  by (simp add: readable_tier_def wf_tier_def written_tier_def priced_def base_costs_def extra_costs_def)

lemma written_chain:
  "ts \<noteq> [] \<Longrightarrow> n = i + length ts \<Longrightarrow> list_all (\<lambda>(i, t). readable_tier n i t) (enumerate i ts) \<Longrightarrow> wf_chain (written_tiers n i ts)"
proof (induction ts arbitrary: i rule: wf_chain.induct)
  case (3 t u ts)
  then have "wf_chain (written_tiers n (Suc i) (u # ts))" by (intro 3(1)) auto
  moreover have "readable_tier n i t" "Suc i < n" using 3 by simp_all
  ultimately show ?case using written_wf [of n i t]
    by (simp add: written_tiers_def) (simp add: readable_tier_def written_tier_def)
qed (simp_all add: written_tiers_def written_wf)

lemma written_costs: "tier_call l (written_tier n i t) = tier_call l t"
  by (simp add: tier_call_def written_tier_def body_text base_costs_def extra_costs_def)

lemma written_condition_str: "buildConditionStr (filter cond_filled cs) = buildConditionStr cs"
  by (simp add: buildConditionStr_def)

lemma written_part:
  assumes "n \<noteq> 1" and "34 \<notin> set (vt_label t)"
  shows "tier_part i (Suc i = n) (written_tier n i t) = tier_part i (Suc i = n) t"
proof -
  have "vt_label (written_tier n i t) \<noteq> []" using written_label_ok [OF assms(2)] by (simp add: written_tier_def)
  moreover have "vt_label (written_tier n i t) = (if vt_label t \<noteq> [] then vt_label t else js ''tier_'' @ int_str (int i + 1))"
    using assms(1) by (simp add: written_tier_def written_label_def)
  ultimately show ?thesis
    by (simp add: tier_part_def Let_def written_costs)
      (simp add: written_tier_def written_conditions_def written_condition_str)
qed

lemma written_parts:
  "n \<noteq> 1 \<Longrightarrow> n = i + length ts \<Longrightarrow> list_all (\<lambda>t. 34 \<notin> set (vt_label t)) ts \<Longrightarrow>
   tier_parts i (written_tiers n i ts) = tier_parts i ts"
proof (induction ts arbitrary: i)
  case (Cons t ts)
  have "written_tiers n (Suc i) ts = [] \<longleftrightarrow> ts = []" by (cases ts) (simp_all add: written_tiers_def)
  moreover have "(ts = []) = (Suc i = n)" using Cons.prems(2) by auto
  moreover have "tier_parts (Suc i) (written_tiers n (Suc i) ts) = tier_parts (Suc i) ts" using Cons.IH [of "Suc i"] Cons.prems by simp
  moreover have "written_tiers n i (t # ts) = written_tier n i t # written_tiers n (Suc i) ts" by (simp add: written_tiers_def)
  ultimately show ?case using written_part [of n t i] Cons.prems(1,3) by simp
qed (simp add: written_tiers_def)

lemma written_generates:
  assumes "list_all (\<lambda>t. 34 \<notin> set (vt_label t)) ts"
  shows "generateExprFromVisualConfig (Some (written_tiers (length ts) 0 ts)) = generateExprFromVisualConfig (Some ts)"
proof (cases ts rule: wf_chain.cases)
  case (2 t)
  then have "written_tier 1 0 t = t\<lparr>vt_label := (if vt_label t \<noteq> [] then vt_label t else js ''default''),
      vt_conditions := filter cond_filled (vt_conditions t)\<rparr>" "js ''default'' \<noteq> []"
    by (simp_all add: written_tier_def written_label_def written_conditions_def js_lit)
  then show ?thesis using written_costs [of _ 1 0 t]
    by (simp add: 2 written_tiers_def generateExprFromVisualConfig_def Let_def written_condition_str)
next
  case (3 t u us)
  then have "written_tiers (length ts) 0 ts = written_tier (length ts) 0 t # written_tier (length ts) 1 u # written_tiers (length ts) 2 us"
    by (simp add: written_tiers_def numeral_2_eq_2)
  then show ?thesis using written_parts [of "length ts" 0 ts] assms 3 by (simp add: generateExprFromVisualConfig_def del: tier_parts.simps)
qed (simp add: written_tiers_def)

lemma canonical_written: "canonical_tier l cs (written_tier n i t) = canonical_tier l cs t"
  by (simp add: canonical_tier_def written_tier_def base_costs_def extra_costs_def)

lemma canonical_written_tiers:
  "n \<noteq> 1 \<Longrightarrow> n = i + length ts \<Longrightarrow> canonical_chain (written_tiers n i ts) =
    map (\<lambda>(i, t). canonical_tier (written_label n i t) (written_conditions n i t) t) (enumerate i ts)"
proof (induction ts arbitrary: i rule: canonical_chain.induct)
  case (2 t)
  then show ?case by (simp add: written_tiers_def canonical_written) (simp add: written_tier_def written_conditions_def)
next
  case (3 t u ts)
  then have "canonical_chain (written_tiers n (Suc i) (u # ts)) =
    map (\<lambda>(i, t). canonical_tier (written_label n i t) (written_conditions n i t) t) (enumerate (Suc i) (u # ts))"
    by (intro 3(1)) auto
  then show ?case by (simp add: written_tiers_def canonical_written) (simp add: written_tier_def)
qed (simp add: written_tiers_def)

lemma canonical_read: "ts \<noteq> [] \<Longrightarrow> canonical_config (written_tiers (length ts) 0 ts) = read_tiers ts"
proof (cases ts rule: wf_chain.cases)
  case (2 t)
  then show ?thesis
    by (simp add: canonical_config_def written_tiers_def read_tiers_def canonical_written) (simp add: written_tier_def)
next
  case (3 t u us)
  then have "canonical_config (written_tiers (length ts) 0 ts) = canonical_chain (written_tiers (length ts) 0 ts)"
    by (simp add: canonical_config_def written_tiers_def)
  then show ?thesis using canonical_written_tiers [of "length ts" 0 ts] 3 by (simp add: read_tiers_def)
qed simp

lemma read_tiers_roundtrip:
  assumes "readable_tiers ts"
  shows "tryParseVisualConfig (generateExprFromVisualConfig (Some ts)) = Some (read_tiers ts) \<and>
    generateExprFromVisualConfig (Some (read_tiers ts)) = generateExprFromVisualConfig (Some ts)"
proof -
  have ne: "ts \<noteq> []" and ok: "list_all (\<lambda>(i, t). readable_tier (length ts) i t) (enumerate 0 ts)"
    using assms by (simp_all add: readable_tiers_def)
  have "t \<in> set ts \<Longrightarrow> \<exists>i. (i, t) \<in> set (enumerate 0 ts)" for t
    by (auto simp: in_set_conv_nth [of t] in_set_enumerate_eq)
  then have "list_all (\<lambda>t. 34 \<notin> set (vt_label t)) ts" using ok by (fastforce simp: list_all_iff readable_tier_def)
  note same = written_generates [OF this]
  have "wf_chain (written_tiers (length ts) 0 ts)" using written_chain [OF ne _ ok] by simp
  from visual_roundtrip [OF this] show ?thesis using same canonical_read [OF ne] by simp
qed

text \<open>A name with a quotation mark, which the editor accepts, makes an expression it cannot read.\<close>

definition quoted_tier :: visual_tier where
  "quoted_tier = \<lparr>vt_label = [97, 34, 98], vt_conditions = [], vt_input = num_int 3, vt_output = num_int 15,
     vt_cache_mode = CACHE_MODE_GENERIC, vt_costs = []\<rparr>"

text \<open>C13. What the visual editor of tiered prices reads back. For every list of tiers with names without
  quotation marks, costs whose texts read back as the same numbers, written conditions that compare \<open>p\<close>, \<open>c\<close> or \<open>len\<close> with
  a number of an unsigned text, and at least one filled condition on every tier but the last: parsing the generated expression
  succeeds and returns a tier for each tier, with its name (or the default one), its costs (one that is missing or no number as
  zero) and its filled conditions; but of several tiers the last one comes back without conditions, since they are not
  written. Generating again gives the same expression.\<close>

theorem visual_config_roundtrip:
  assumes "readable_tiers ts"
  shows "\<exists>us. tryParseVisualConfig (generateExprFromVisualConfig (Some ts)) = Some us \<and>
    generateExprFromVisualConfig (Some us) = generateExprFromVisualConfig (Some ts) \<and> length us = length ts \<and>
    (\<forall>i < length ts.
       vt_label (us ! i) = (if vt_label (ts ! i) \<noteq> [] then vt_label (ts ! i) else if length ts = 1 then js ''default''
         else js ''tier_'' @ int_str (int i + 1)) \<and>
       base_costs (us ! i) = base_costs (ts ! i) \<and> extra_costs (us ! i) = extra_costs (ts ! i) \<and>
       vt_conditions (us ! i) =
         (if length ts \<noteq> 1 \<and> Suc i = length ts then [] else filter cond_filled (vt_conditions (ts ! i))))"
proof (intro exI conjI allI impI)
  show "tryParseVisualConfig (generateExprFromVisualConfig (Some ts)) = Some (read_tiers ts)"
    "generateExprFromVisualConfig (Some (read_tiers ts)) = generateExprFromVisualConfig (Some ts)"
    using read_tiers_roundtrip [OF assms] by blast+
  show "length (read_tiers ts) = length ts" by (simp add: read_tiers_def)
  fix i
  assume "i < length ts"
  then have r: "read_tiers ts ! i =
      canonical_tier (written_label (length ts) i (ts ! i)) (written_conditions (length ts) i (ts ! i)) (ts ! i)"
    by (simp add: read_tiers_def nth_enumerate_eq)
  show "vt_label (read_tiers ts ! i) = (if vt_label (ts ! i) \<noteq> [] then vt_label (ts ! i)
      else if length ts = 1 then js ''default'' else js ''tier_'' @ int_str (int i + 1))"
    by (simp add: r canonical_tier_def written_label_def)
  show "base_costs (read_tiers ts ! i) = base_costs (ts ! i)" "extra_costs (read_tiers ts ! i) = extra_costs (ts ! i)"
    by (simp_all add: r canonical_costs)
  show "vt_conditions (read_tiers ts ! i) =
      (if length ts \<noteq> 1 \<and> Suc i = length ts then [] else filter cond_filled (vt_conditions (ts ! i)))"
    by (simp add: r canonical_tier_def written_conditions_def)
qed

definition sample_tier :: "jsstr \<Rightarrow> int \<Rightarrow> tier_condition_input list \<Rightarrow> visual_tier" where
  "sample_tier l i cs = \<lparr>vt_label = l, vt_conditions = cs, vt_input = num_int i, vt_output = num_int (5 * i),
     vt_cache_mode = CACHE_MODE_GENERIC, vt_costs = []\<rparr>"

definition sample_tiers :: "visual_tier list" where
  "sample_tiers = [sample_tier (js ''short'') 3 [\<lparr>tci_var = js ''len'', tci_op = js ''<'', tci_value = JNum (num_int 200000)\<rparr>],
     sample_tier (js ''long'') 6 []]"

lemma digits_unsigned: "0 \<le> i \<Longrightarrow> i < 2 ^ 53 \<Longrightarrow> list_all unsigned_num_unit (num_to_str (num_int i))"
  by (auto simp: num_to_str_int int_str_def list_all_iff unsigned_num_unit_def dest: int_digits_digit)

lemma priced_sample: "\<bar>i\<bar> < 1000 \<Longrightarrow> priced (sample_tier l i cs)"
proof -
  assume "\<bar>i\<bar> < 1000"
  then have "num_token (num_int i)" "num_token (num_int (5 * i))" "num_token (num_int 0)"
    by (intro safe_num_token, simp add: num_int_def floor_of_int [of "5 * i", simplified])+
  then show ?thesis by (auto simp: priced_def base_costs_def extra_costs_def sample_tier_def num_or0_def list_all_iff)
qed

lemma wf_sample_tiers: "wf_chain sample_tiers"
  by (simp add: sample_tiers_def wf_tier_def priced_sample) (simp add: sample_tier_def wf_cond_def js_lit digits_unsigned)

lemma readable_sample: "readable_tiers sample_tiers"
proof -
  have "wf_tier (sample_tiers ! 0)" "wf_tier (sample_tiers ! 1)" "vt_conditions (sample_tiers ! 0) \<noteq> []"
    using wf_sample_tiers by (simp_all add: sample_tiers_def)
  moreover have "filter cond_filled (vt_conditions (sample_tiers ! 0)) = vt_conditions (sample_tiers ! 0)" by code_simp
  ultimately show ?thesis
    by (simp add: readable_tiers_def readable_tier_def wf_tier_def written_conditions_def sample_tiers_def)
qed

theorem visual_config_roundtrip_witness:
  "\<exists>us. tryParseVisualConfig (generateExprFromVisualConfig (Some sample_tiers)) = Some us \<and> length us = 2 \<and>
     vt_label (us ! 0) = js ''short'' \<and> base_costs (us ! 1) = base_costs (sample_tier (js ''long'') 6 [])"
proof -
  have "length sample_tiers = 2" "vt_label (sample_tiers ! 0) = js ''short''" "sample_tiers ! 1 = sample_tier (js ''long'') 6 []"
    "js ''short'' \<noteq> []"
    by (simp_all add: sample_tiers_def sample_tier_def js_lit)
  with visual_config_roundtrip [OF readable_sample] show ?thesis by fastforce
qed

lemma quoted_label_unread: "tryParseVisualConfig (generateExprFromVisualConfig (Some [quoted_tier])) = None"
  by code_simp

subsection \<open>Expressions that change\<close>

text \<open>A single tier is accepted without regenerating it: a cost that is no number, as in \<open>p * 1-2\<close>, is
  read and becomes zero.\<close>

definition odd_single :: jsstr where
  "odd_single = js ''tier('' @ [34] @ js ''a'' @ [34] @ js '', p * 1-2 + c * 3)''"

lemma odd_single_match:
  "map_option (\<lambda>m. map m [1, 2, 3, 4, 5, 6, 7, 8, 9, 10]) (rx_match singleRe odd_single) =
     Some ([Some (js ''a''), Some (js ''1-2''), Some (js ''3'')] @ replicate 7 None)"
  by code_simp

lemma single_tier_wrong_cost:
  "map_option (\<lambda>ts. generateExprFromVisualConfig (Some ts)) (tryParseVisualConfig odd_single) =
     Some (js ''tier('' @ [34] @ js ''a'' @ [34] @ js '', p * 0 + c * 3)'')"
proof -
  obtain m where m: "rx_match singleRe odd_single = Some m" "m 1 = Some (js ''a'')" "m 2 = Some (js ''1-2'')" "m 3 = Some (js ''3'')"
      "m 4 = None" "m 5 = None" "m 6 = None" "m 7 = None" "m 8 = None" "m 9 = None" "m 10 = None"
    using odd_single_match by (auto simp: numeral_eq_Suc)
  let ?t = "normalizeVisualTier (match_tier m 1 [])"
  let ?u = "normalizeVisualTier (as_partial ?t)"
  have str: "js ''3'' = int_str 3" "js ''0'' = int_str 0" "str_to_num (js ''1-2'') = NaN" by code_simp+
  then have num: "str_to_num (js ''3'') = num_int 3" "num_to_str (num_int 3) = js ''3''" "num_to_str (num_int 0) = js ''0''"
    using str_to_num_int_str [of 3] num_to_str_int [of 3] num_to_str_int [of 0] by simp_all
  have "match_costs m 4 cost_fields = []" unfolding fields_list using m by (simp add: numeral_eq_Suc)
  then have t: "?t = \<lparr>vt_label = js ''a'', vt_conditions = [], vt_input = NaN, vt_output = num_int 3,
      vt_cache_mode = CACHE_MODE_GENERIC, vt_costs = map (\<lambda>f. (f, num_int 0)) cost_fields\<rparr>"
    using m str num by (simp add: normalizeVisualTier_def match_tier_def cap_def getTierCacheMode_def num_or0_def numeral_eq_Suc)
  have "extra_costs ?u = map (\<lambda>f. num_int 0) cost_fields" "base_costs ?u = (num_int 0, num_int 3)"
    unfolding t by (auto simp: extra_costs_def base_costs_def normalizeVisualTier_def as_partial_def num_or0_def num_truthy_def num_int_def
        map_of_map_restrict split: option.splits)
  then have "buildTierBodyExpr ?u = js ''p * 0 + c * 3''"
    unfolding body_text vars_list by (simp add: fields_list cost_text_def num js_lit)
  moreover have "vt_label ?u = js ''a''" "vt_conditions ?u = []" unfolding t by (simp_all add: normalizeVisualTier_def as_partial_def)
  moreover have "odd_single = 116 # tl odd_single" "odd_single \<noteq> []" by (simp_all add: odd_single_def js_lit)
  then have "tryParseVisualConfig odd_single = Some [?u]"
    using m(1) strip_plain [of 116 "tl odd_single"] by (simp add: tryParseVisualConfig_def normalizeVisualConfig_def)
  ultimately show ?thesis by (simp add: generateExprFromVisualConfig_def buildConditionStr_def tier_call_def js_lit)
qed

text \<open>A tier without conditions that is not the last one gives a text that is no expression: two calls with a
  colon and no question mark.\<close>

lemma unconditional_middle:
  assumes "wf_tier t" and "wf_tier u" and "vt_conditions t = []"
  shows "generateExprFromVisualConfig (Some [t, u]) = tier_call (vt_label t) t @ js '' : '' @ tier_call (vt_label u) u"
  using assms by (simp add: generateExprFromVisualConfig_def tier_part_def buildConditionStr_def wf_tier_def)

end
