(* ===== verification/TierEditor.thy ===== *)
theory TierEditor
  imports TierRoundTrip "HOL-Library.AList"
begin

section \<open>The editor of tiered prices\<close>

text \<open>
  \<open>features/system-settings/models/tiered-pricing-editor.tsx\<close>: the operations on the tiers and the
  component that keeps the tiers, the raw text and the request rules in step with the expression its
  parent stores. A render is followed by its effects in the order of the source; the state they set
  and the values they hand to the parent (which keeps them with \<open>useState\<close> and passes them back, as
  \<open>model-pricing-sheet.tsx\<close> does) are applied together before the next render. An effect whose
  dependencies did not change does not run. \<open>Inl\<close> is an exception of the rule parser, which
  unmounts the component.
\<close>

subsection \<open>Tiers and conditions\<close>

definition handleConditionChange :: "nat \<Rightarrow> tier_condition_input \<Rightarrow> visual_tier \<Rightarrow> visual_tier" where
  "handleConditionChange i c tier = tier\<lparr>vt_conditions := (vt_conditions tier)[i := c]\<rparr>"

definition remove_at :: "nat \<Rightarrow> 'a list \<Rightarrow> 'a list" where
  "remove_at i xs = take i xs @ drop (Suc i) xs"

definition handleConditionRemove :: "nat \<Rightarrow> visual_tier \<Rightarrow> visual_tier" where
  "handleConditionRemove i tier = tier\<lparr>vt_conditions := remove_at i (vt_conditions tier)\<rparr>"

text \<open>A price field: the input, the output or one of the extra costs.\<close>

definition put_cost :: "jsstr \<Rightarrow> jsnum \<Rightarrow> (jsstr \<times> jsnum) list \<Rightarrow> (jsstr \<times> jsnum) list" where
  "put_cost f x costs = AList.update f x costs"

definition handlePriceChange :: "jsstr \<Rightarrow> jsnum \<Rightarrow> visual_tier \<Rightarrow> visual_tier" where
  "handlePriceChange f x tier =
     (if f = js ''input_unit_cost'' then tier\<lparr>vt_input := x\<rparr>
      else if f = js ''output_unit_cost'' then tier\<lparr>vt_output := x\<rparr>
      else tier\<lparr>vt_costs := put_cost f x (vt_costs tier)\<rparr>)"

definition handleCacheModeChange :: "cache_mode \<Rightarrow> visual_tier \<Rightarrow> visual_tier" where
  "handleCacheModeChange mode tier =
     tier\<lparr>vt_cache_mode := mode,
       vt_costs := put_cost (js ''cache_create_1h_unit_cost'')
         (if mode = CACHE_MODE_TIMED
          then (case map_of (vt_costs tier) (js ''cache_create_1h_unit_cost'') of Some x \<Rightarrow> x | None \<Rightarrow> num_int 0)
          else num_int 0) (vt_costs tier)\<rparr>"

text \<open>The operations of \<open>VisualEditor\<close>, on the normalized tiers.\<close>

definition handleTierChange :: "nat \<Rightarrow> visual_tier \<Rightarrow> visual_tier list \<Rightarrow> visual_tier list" where
  "handleTierChange index next tiers = tiers[index := normalizeVisualTier (as_partial next)]"

definition default_condition :: "jsstr \<Rightarrow> tier_condition_input" where
  "default_condition v = \<lparr>tci_var = v, tci_op = js ''<'', tci_value = JNum (num_int 200000)\<rparr>"

definition bound_last :: "visual_tier list \<Rightarrow> visual_tier list" where
  "bound_last tiers =
     (if tiers \<noteq> [] \<and> vt_conditions (last tiers) = []
      then butlast tiers @ [normalizeVisualTier (as_partial ((last tiers)\<lparr>vt_conditions := [default_condition (js ''len'')]\<rparr>))]
      else tiers)"

definition handleAddTier :: "visual_tier list \<Rightarrow> visual_tier list" where
  "handleAddTier tiers =
     bound_last tiers @
     [normalizeVisualTier \<lparr>pt_label = Some (js ''tier_'' @ int_str (int (length tiers) + 1)), pt_conditions = Some [],
        pt_input = Some (num_int 0), pt_output = Some (num_int 0), pt_cache_mode = None, pt_costs = []\<rparr>]"

definition handleRemoveTier :: "nat \<Rightarrow> visual_tier list \<Rightarrow> visual_tier list" where
  "handleRemoveTier index tiers =
     (let remaining = remove_at index tiers in if remaining \<noteq> [] then remaining else tiers)"

definition handleAddCondition :: "nat \<Rightarrow> visual_tier list \<Rightarrow> visual_tier list" where
  "handleAddCondition index tiers =
     (let tier = tiers ! index
      in if 2 \<le> length (vt_conditions tier) then tiers
         else
           let nextVar = (if js ''len'' \<in> tci_var ` set (vt_conditions tier) then js ''c'' else js ''len'')
           in tiers[index := tier\<lparr>vt_conditions := vt_conditions tier @ [default_condition nextVar]\<rparr>])"

subsection \<open>The component\<close>

datatype editor_mode = ModeVisual | ModeRaw

record tier_editor =
  te_mode :: editor_mode
  te_config :: "visual_tier list option"
  te_raw :: jsstr
  te_groups :: "rule_group list"
  te_init :: bool
  te_seen :: "(jsstr \<times> jsstr \<times> jsstr) option"
  te_name :: jsstr
  te_expr :: jsstr
  te_rules :: jsstr

text \<open>\<open>tryParseRequestRuleExpr(x) || []\<close>.\<close>

definition parse_groups :: "jsstr \<Rightarrow> parse_error + rule_group list" where
  "parse_groups rules =
     (case tryParseRequestRuleExpr rules of
        Inl e \<Rightarrow> Inl e | Inr (Some gs) \<Rightarrow> Inr gs | Inr None \<Rightarrow> Inr [])"

definition mount_editor :: "jsstr \<Rightarrow> jsstr \<Rightarrow> jsstr \<Rightarrow> parse_error + tier_editor" where
  "mount_editor name expr rules =
     (case parse_groups rules of
        Inl e \<Rightarrow> Inl e
      | Inr gs \<Rightarrow> Inr \<lparr>te_mode = ModeVisual, te_config = tryParseVisualConfig expr, te_raw = combineBillingExpr expr rules,
          te_groups = gs, te_init = False, te_seen = None, te_name = name, te_expr = expr, te_rules = rules\<rparr>)"

definition effectiveExpr :: "tier_editor \<Rightarrow> parse_error + jsstr" where
  "effectiveExpr st =
     (case te_mode st of
        ModeVisual \<Rightarrow> Inr (generateExprFromVisualConfig (te_config st))
      | ModeRaw \<Rightarrow> (case splitBillingExprAndRequestRules (te_raw st) of
          Inl e \<Rightarrow> Inl e | Inr r \<Rightarrow> Inr (billingExpr r)))"

text \<open>The first effect, when it runs.\<close>

definition init_effect :: "tier_editor \<Rightarrow> parse_error + tier_editor" where
  "init_effect st =
     (case parse_groups (te_rules st) of
        Inl e \<Rightarrow> Inl e
      | Inr gs \<Rightarrow>
          Inr (case tryParseVisualConfig (te_expr st) of
            Some parsedConfig \<Rightarrow> st\<lparr>te_config := Some parsedConfig, te_mode := ModeVisual,
              te_raw := combineBillingExpr (te_expr st) (te_rules st), te_groups := gs\<rparr>
          | None \<Rightarrow>
              if te_expr st \<noteq> []
              then st\<lparr>te_config := None, te_mode := ModeRaw,
                te_raw := combineBillingExpr (te_expr st) (te_rules st), te_groups := gs\<rparr>
              else st\<lparr>te_config := Some createDefaultVisualConfig,
                te_raw := combineBillingExpr (te_expr st) (te_rules st), te_groups := gs\<rparr>))"

text \<open>What was rendered last: the first effect depends on the expression and the rules, the second on the name.\<close>

definition props_changed :: "tier_editor \<Rightarrow> bool" where
  "props_changed st =
     (case te_seen st of None \<Rightarrow> True | Some (expr, rules, name) \<Rightarrow> (expr, rules) \<noteq> (te_expr st, te_rules st))"

definition name_changed :: "tier_editor \<Rightarrow> bool" where
  "name_changed st = (case te_seen st of None \<Rightarrow> True | Some (expr, rules, name) \<Rightarrow> name \<noteq> te_name st)"

text \<open>The effects of a render. The third and fourth are run in any case: when their dependencies did not change, the values
  they compare are equal already.\<close>

definition commit :: "tier_editor \<Rightarrow> parse_error + tier_editor" where
  "commit st =
     (let runs = props_changed st \<and> \<not> te_init st
      in case (if runs then init_effect st else Inr st) of
           Inl e \<Rightarrow> Inl e
         | Inr st1 \<Rightarrow>
             (case effectiveExpr st of
                Inl e \<Rightarrow> Inl e
              | Inr eff \<Rightarrow>
                  Inr (st1\<lparr>te_init := (if name_changed st then False else runs \<or> te_init st),
                    te_seen := Some (te_expr st, te_rules st, te_name st),
                    te_expr := eff,
                    te_rules := (if te_mode st = ModeVisual then buildRequestRuleExpr (te_groups st) else te_rules st)\<rparr>)))"

fun commits :: "nat \<Rightarrow> tier_editor \<Rightarrow> parse_error + tier_editor" where
  "commits 0 st = Inr st"
| "commits (Suc n) st = (case commit st of Inl e \<Rightarrow> Inl e | Inr st' \<Rightarrow> commits n st')"

text \<open>The parent shows another model.\<close>

definition select_model :: "jsstr \<Rightarrow> jsstr \<Rightarrow> jsstr \<Rightarrow> tier_editor \<Rightarrow> tier_editor" where
  "select_model name expr rules st = st\<lparr>te_name := name, te_expr := expr, te_rules := rules\<rparr>"

definition handleVisualChange :: "visual_tier list \<Rightarrow> tier_editor \<Rightarrow> tier_editor" where
  "handleVisualChange next st = st\<lparr>te_config := Some next\<rparr>"

definition handleRuleGroupsChange :: "rule_group list \<Rightarrow> tier_editor \<Rightarrow> tier_editor" where
  "handleRuleGroupsChange next st = st\<lparr>te_groups := next\<rparr>"

definition handleRawChange :: "jsstr \<Rightarrow> tier_editor \<Rightarrow> parse_error + tier_editor" where
  "handleRawChange raw st =
     (case splitBillingExprAndRequestRules raw of
        Inl e \<Rightarrow> Inl e | Inr r \<Rightarrow> Inr (st\<lparr>te_raw := raw, te_rules := requestRuleExpr r\<rparr>))"

definition handleModeChange :: "editor_mode \<Rightarrow> tier_editor \<Rightarrow> parse_error + tier_editor" where
  "handleModeChange next st =
     (case next of
        ModeVisual \<Rightarrow>
          (case splitBillingExprAndRequestRules (te_raw st) of
             Inl e \<Rightarrow> Inl e
           | Inr r \<Rightarrow>
               (case parse_groups (requestRuleExpr r) of
                  Inl e \<Rightarrow> Inl e
                | Inr gs \<Rightarrow>
                    Inr (st\<lparr>te_config := Some (case tryParseVisualConfig (billingExpr r) of
                          Some parsed \<Rightarrow> parsed | None \<Rightarrow> createDefaultVisualConfig),
                      te_groups := gs, te_rules := requestRuleExpr r, te_mode := ModeVisual\<rparr>)))
      | ModeRaw \<Rightarrow>
          (let expr = generateExprFromVisualConfig (te_config st);
               ruleExpr = buildRequestRuleExpr (te_groups st);
               combined = combineBillingExpr expr ruleExpr
           in Inr (st\<lparr>te_raw := (if combined \<noteq> [] then combined else expr), te_mode := ModeRaw\<rparr>)))"

definition applyPreset :: "jsstr \<Rightarrow> rule_group list \<Rightarrow> tier_editor \<Rightarrow> tier_editor" where
  "applyPreset expr presetGroups st =
     (let ruleExpr = buildRequestRuleExpr presetGroups;
          combined = combineBillingExpr expr ruleExpr;
          st' = st\<lparr>te_raw := (if combined \<noteq> [] then combined else expr), te_groups := presetGroups, te_rules := ruleExpr\<rparr>
      in case tryParseVisualConfig expr of
           Some parsed \<Rightarrow> st'\<lparr>te_config := Some parsed, te_mode := ModeVisual\<rparr>
         | None \<Rightarrow> st'\<lparr>te_mode := ModeRaw, te_config := None\<rparr>)"

subsection \<open>Edits that stay readable\<close>

text \<open>Tiers the editor can work on: names without quotation marks, costs whose texts read back, complete conditions, and a
  condition on every tier but the last.\<close>

definition ok_tier :: "visual_tier \<Rightarrow> bool" where
  "ok_tier t \<longleftrightarrow> 34 \<notin> set (vt_label t) \<and> priced t \<and> list_all wf_cond (vt_conditions t)"

definition ok_tiers :: "visual_tier list \<Rightarrow> bool" where
  "ok_tiers ts \<longleftrightarrow> ts \<noteq> [] \<and> list_all ok_tier ts \<and> list_all (\<lambda>t. vt_conditions t \<noteq> []) (butlast ts)"

lemma ok_readable:
  assumes "ok_tiers ts"
  shows "readable_tiers ts"
proof -
  have "readable_tier (length ts) i (ts ! i)" if i: "i < length ts" for i
  proof -
    have ok: "ok_tier (ts ! i)" using assms i by (simp add: ok_tiers_def list_all_length)
    then have "filter cond_filled (vt_conditions (ts ! i)) = vt_conditions (ts ! i)"
      by (auto simp: ok_tier_def list_all_iff cond_filled_wf)
    moreover have "vt_conditions (ts ! i) \<noteq> []" if "Suc i < length ts"
    proof -
      have "vt_conditions (butlast ts ! i) \<noteq> []" using assms that by (simp add: ok_tiers_def list_all_length)
      then show ?thesis using that by (simp add: nth_butlast)
    qed
    ultimately show ?thesis using ok by (simp add: readable_tier_def written_conditions_def ok_tier_def)
  qed
  then show ?thesis using assms by (auto simp: readable_tiers_def list_all_iff in_set_enumerate_eq ok_tiers_def)
qed

lemma normalize_costs:
  "base_costs (normalizeVisualTier (as_partial t)) = base_costs t" "extra_costs (normalizeVisualTier (as_partial t)) = extra_costs t"
proof -
  show "base_costs (normalizeVisualTier (as_partial t)) = base_costs t"
    by (simp add: base_costs_def normalizeVisualTier_def as_partial_def)
  have "num_or0 (map_of (map (\<lambda>f. (f, num_or0 (map_of (vt_costs t) f))) cost_fields) f) = num_or0 (map_of (vt_costs t) f)"
    if "f \<in> set cost_fields" for f
    using that map_of_map_restrict [of "\<lambda>f. num_or0 (map_of (vt_costs t) f)" cost_fields] by simp
  then show "extra_costs (normalizeVisualTier (as_partial t)) = extra_costs t"
    by (simp add: extra_costs_def normalizeVisualTier_def as_partial_def)
qed

lemma normalize_keeps:
  "vt_label (normalizeVisualTier (as_partial t)) = vt_label t" "vt_conditions (normalizeVisualTier (as_partial t)) = vt_conditions t"
  by (simp_all add: normalizeVisualTier_def as_partial_def)

lemma wf_normalize [simp]: "ok_tier (normalizeVisualTier (as_partial t)) \<longleftrightarrow> ok_tier t"
  by (simp add: ok_tier_def priced_def normalize_costs normalize_keeps)

lemma list_all_update: "list_all P xs \<Longrightarrow> P x \<Longrightarrow> list_all P (xs[i := x])"
  by (cases "i < length xs") (auto simp: list_all_length nth_list_update)

lemma chain_update:
  assumes "ok_tiers ts" and "ok_tier t" and "Suc i < length ts \<Longrightarrow> vt_conditions t \<noteq> []"
  shows "ok_tiers (ts[i := t])"
proof (cases "Suc i < length ts")
  case True
  then have "i \<noteq> length ts - 1" by linarith
  then have "butlast (ts[i := t]) = (butlast ts)[i := t]" by (simp add: butlast_list_update)
  then show ?thesis using assms True by (simp add: ok_tiers_def list_all_update)
next
  case False
  then consider "length ts \<le> i" | "i = length ts - 1" by linarith
  then show ?thesis
  proof cases
    case 1
    then show ?thesis using assms(1) by (simp add: list_update_beyond)
  next
    case 2
    then show ?thesis using assms by (simp add: ok_tiers_def butlast_list_update list_all_update)
  qed
qed

lemma chain_at:
  assumes "ok_tiers ts" and "i < length ts"
  shows "ok_tier (ts ! i)" and "Suc i < length ts \<Longrightarrow> vt_conditions (ts ! i) \<noteq> []"
proof -
  show "ok_tier (ts ! i)" using assms by (simp add: ok_tiers_def list_all_length)
  assume i: "Suc i < length ts"
  then have "vt_conditions (butlast ts ! i) \<noteq> []" using assms by (simp add: ok_tiers_def list_all_length)
  then show "vt_conditions (ts ! i) \<noteq> []" using i by (simp add: nth_butlast)
qed

lemma wf_default: "v = js ''len'' \<or> v = js ''c'' \<Longrightarrow> wf_cond (default_condition v)"
  by (auto simp: wf_cond_def default_condition_def digits_unsigned)

lemma priced_others [simp]: "priced (t\<lparr>vt_conditions := cs\<rparr>) = priced t" "priced (t\<lparr>vt_label := l\<rparr>) = priced t"
  by (simp_all add: priced_def base_costs_def extra_costs_def)

lemma wf_added:
  "ok_tier (normalizeVisualTier \<lparr>pt_label = Some (js ''tier_'' @ int_str i), pt_conditions = Some [],
     pt_input = Some (num_int 0), pt_output = Some (num_int 0), pt_cache_mode = None, pt_costs = []\<rparr>)"
proof -
  let ?t = "normalizeVisualTier \<lparr>pt_label = Some (js ''tier_'' @ int_str i), pt_conditions = Some [],
     pt_input = Some (num_int 0), pt_output = Some (num_int 0), pt_cache_mode = None, pt_costs = []\<rparr>"
  have "num_token (num_int 0)" by simp
  moreover have "extra_costs ?t = map (\<lambda>f. num_int 0) cost_fields" "base_costs ?t = (num_int 0, num_int 0)"
    by (auto simp: extra_costs_def base_costs_def normalizeVisualTier_def num_or0_def map_of_map_restrict split: option.splits)
  ultimately have "priced ?t" by (simp add: priced_def list_all_iff)
  moreover have "34 \<notin> set (int_str i)" using int_str_units [of i] by (auto simp: list_all_iff is_digit_def)
  ultimately show ?thesis by (simp add: ok_tier_def normalizeVisualTier_def js_lit)
qed

lemma bound_last_wf:
  assumes "ok_tiers ts"
  shows "list_all ok_tier (bound_last ts)" and "list_all (\<lambda>t. vt_conditions t \<noteq> []) (bound_last ts)"
proof -
  obtain us t where ts: "ts = us @ [t]" using assms by (cases ts rule: rev_cases) (auto simp: ok_tiers_def)
  have wf: "list_all ok_tier us" "ok_tier t" "list_all (\<lambda>t. vt_conditions t \<noteq> []) us" using assms by (simp_all add: ok_tiers_def ts)
  have "ok_tier (t\<lparr>vt_conditions := [default_condition (js ''len'')]\<rparr>)" using wf(2) wf_default by (simp add: ok_tier_def)
  then show "list_all ok_tier (bound_last ts)" "list_all (\<lambda>t. vt_conditions t \<noteq> []) (bound_last ts)"
    using wf by (simp_all add: bound_last_def ts normalize_keeps)
qed

lemma add_tier_wf: "ok_tiers ts \<Longrightarrow> ok_tiers (handleAddTier ts)"
  using bound_last_wf wf_added by (simp add: ok_tiers_def handleAddTier_def)

lemma butlast_remove: "set (butlast (remove_at i xs)) \<subseteq> set (butlast xs)"
proof (induction xs arbitrary: i)
  case (Cons x xs)
  show ?case
  proof (cases i)
    case 0
    then show ?thesis by (auto simp: remove_at_def)
  next
    case (Suc j)
    then have "remove_at i (x # xs) = x # remove_at j xs" by (simp add: remove_at_def)
    moreover have "remove_at j xs \<noteq> [] \<Longrightarrow> xs \<noteq> []" by (auto simp: remove_at_def)
    ultimately show ?thesis using Cons [of j] by auto
  qed
qed (simp add: remove_at_def)

lemma remove_tier_wf:
  assumes "ok_tiers ts"
  shows "ok_tiers (handleRemoveTier i ts)"
proof -
  have "set (remove_at i ts) \<subseteq> set ts" by (auto simp: remove_at_def dest: in_set_takeD in_set_dropD)
  then show ?thesis
    using assms butlast_remove [of i ts] by (auto simp: handleRemoveTier_def ok_tiers_def list_all_iff Let_def)
qed

lemma add_condition_wf:
  assumes "ok_tiers ts" and "i < length ts"
  shows "ok_tiers (handleAddCondition i ts)"
proof -
  have "ok_tier (ts ! i)" using assms by (simp add: ok_tiers_def list_all_length)
  then have "ok_tier ((ts ! i)\<lparr>vt_conditions := vt_conditions (ts ! i) @ [default_condition v]\<rparr>)" if "v = js ''len'' \<or> v = js ''c''" for v
    using that wf_default by (simp add: ok_tier_def)
  then show ?thesis using assms by (simp add: handleAddCondition_def Let_def chain_update)
qed

text \<open>The changes a user makes with the fields and buttons of the tiers that are shown.\<close>

datatype tier_edit =
    AddTier
  | RemoveTier nat
  | AddCondition nat
  | Rename nat jsstr
  | ChangeCondition nat nat tier_condition_input
  | RemoveCondition nat nat
  | SetPrice nat jsstr jsnum
  | SetCacheMode nat cache_mode

fun apply_edit :: "tier_edit \<Rightarrow> visual_tier list \<Rightarrow> visual_tier list" where
  "apply_edit AddTier ts = handleAddTier ts"
| "apply_edit (RemoveTier i) ts = (if i < length ts then handleRemoveTier i ts else ts)"
| "apply_edit (AddCondition i) ts = (if i < length ts then handleAddCondition i ts else ts)"
| "apply_edit (Rename i l) ts = (if i < length ts then handleTierChange i ((ts ! i)\<lparr>vt_label := l\<rparr>) ts else ts)"
| "apply_edit (ChangeCondition i j c) ts =
     (if i < length ts \<and> j < length (vt_conditions (ts ! i)) then handleTierChange i (handleConditionChange j c (ts ! i)) ts else ts)"
| "apply_edit (RemoveCondition i j) ts =
     (if i < length ts \<and> j < length (vt_conditions (ts ! i)) then handleTierChange i (handleConditionRemove j (ts ! i)) ts else ts)"
| "apply_edit (SetPrice i f x) ts = (if i < length ts then handleTierChange i (handlePriceChange f x (ts ! i)) ts else ts)"
| "apply_edit (SetCacheMode i m) ts = (if i < length ts then handleTierChange i (handleCacheModeChange m (ts ! i)) ts else ts)"

fun apply_edits :: "tier_edit list \<Rightarrow> visual_tier list \<Rightarrow> visual_tier list" where
  "apply_edits [] ts = ts"
| "apply_edits (e # es) ts = apply_edits es (apply_edit e ts)"

text \<open>What the editor does not check and the expression needs: no quotation mark in a name, a complete condition on a number
  of an unsigned text, a cost whose text reads back, and a condition left on a tier that is not the last one.\<close>

fun careful :: "tier_edit \<Rightarrow> visual_tier list \<Rightarrow> bool" where
  "careful (Rename i l) ts \<longleftrightarrow> 34 \<notin> set l"
| "careful (ChangeCondition i j c) ts \<longleftrightarrow> wf_cond c"
| "careful (RemoveCondition i j) ts \<longleftrightarrow> (Suc i < length ts \<longrightarrow> 2 \<le> length (vt_conditions (ts ! i)))"
| "careful (SetPrice i f x) ts \<longleftrightarrow> num_token (num_or0 (Some x))"
| "careful _ ts \<longleftrightarrow> True"

fun all_careful :: "tier_edit list \<Rightarrow> visual_tier list \<Rightarrow> bool" where
  "all_careful [] ts \<longleftrightarrow> True"
| "all_careful (e # es) ts \<longleftrightarrow> careful e ts \<and> all_careful es (apply_edit e ts)"

lemma priced_price:
  assumes "priced t" and "num_token (num_or0 (Some x))"
  shows "priced (handlePriceChange f x t)"
  using assms
  by (auto simp: priced_def base_costs_def extra_costs_def handlePriceChange_def put_cost_def list_all_iff update_conv')

lemma priced_mode:
  assumes "priced t"
  shows "priced (handleCacheModeChange m t)"
proof -
  have "num_token (num_or0 (map_of (vt_costs t) f))" if "f \<in> set cost_fields" for f
    using assms that by (simp add: priced_def extra_costs_def list_all_iff)
  moreover have "num_or0 (Some (case y of Some x \<Rightarrow> x | None \<Rightarrow> num_int 0)) = num_or0 y" for y
    by (cases y) (auto simp: num_or0_def)
  moreover have "num_token (num_or0 (Some (num_int 0)))" by (simp add: num_or0_def)
  ultimately show ?thesis
    using assms by (auto simp: priced_def base_costs_def extra_costs_def handleCacheModeChange_def put_cost_def list_all_iff update_conv')
qed

lemma edit_keeps_others [simp]:
  "vt_conditions (handlePriceChange f x t) = vt_conditions t" "vt_conditions (handleCacheModeChange m t) = vt_conditions t"
  "vt_label (handlePriceChange f x t) = vt_label t" "vt_label (handleCacheModeChange m t) = vt_label t"
  by (simp_all add: handlePriceChange_def handleCacheModeChange_def)

lemma wf_tier_edits:
  assumes "ok_tier t"
  shows "list_all wf_cond cs \<Longrightarrow> ok_tier (t\<lparr>vt_conditions := cs\<rparr>)"
    and "34 \<notin> set l \<Longrightarrow> ok_tier (t\<lparr>vt_label := l\<rparr>)"
    and "num_token (num_or0 (Some x)) \<Longrightarrow> ok_tier (handlePriceChange f x t)" and "ok_tier (handleCacheModeChange m t)"
    and "list_all wf_cond (vt_conditions t)"
  using assms priced_price priced_mode by (auto simp: ok_tier_def)

lemma change_tier_wf:
  assumes "ok_tiers ts" and "i < length ts" and "ok_tier t" and "Suc i < length ts \<Longrightarrow> vt_conditions t \<noteq> []"
  shows "ok_tiers (handleTierChange i t ts)"
  using assms by (simp add: handleTierChange_def chain_update normalize_keeps)

lemma remove_at_left: "2 \<le> length cs \<Longrightarrow> remove_at j cs \<noteq> []"
  by (cases cs; cases "tl cs"; cases j) (auto simp: remove_at_def)

lemma edit_ok:
  assumes "ok_tiers ts" and "careful e ts"
  shows "ok_tiers (apply_edit e ts)"
proof (cases e)
  case (ChangeCondition i j c)
  then show ?thesis
    using assms chain_at [OF assms(1), of i]
    by (auto simp: handleConditionChange_def intro!: change_tier_wf wf_tier_edits(1) list_all_update wf_tier_edits(5))
next
  case (RemoveCondition i j)
  have "list_all wf_cond (remove_at j cs)" if "list_all wf_cond cs" for cs
    using that by (auto simp: list_all_iff remove_at_def dest: in_set_takeD in_set_dropD)
  then show ?thesis
    using RemoveCondition assms chain_at [OF assms(1), of i]
    by (auto simp: remove_at_left handleConditionRemove_def intro!: change_tier_wf wf_tier_edits(1) dest: wf_tier_edits(5))
qed (use assms in \<open>auto simp: add_tier_wf remove_tier_wf add_condition_wf intro!: change_tier_wf wf_tier_edits dest: chain_at\<close>)

lemma edits_ok: "ok_tiers ts \<Longrightarrow> all_careful es ts \<Longrightarrow> ok_tiers (apply_edits es ts)"
  by (induction es arbitrary: ts) (auto simp: edit_ok)

text \<open>C27. Editing tiers in the visual editor, starting from tiers whose names have no quotation mark, whose costs read back,
  whose conditions are complete and of which every one but the last has a condition: after any sequence of edits (adding and
  removing tiers, adding, changing and removing conditions, renaming, setting prices and the mode of the cache costs) in which
  the user types no quotation mark into a name, sets conditions on a number of an unsigned text and costs whose texts read
  back, and does not remove the only condition of a tier that is not the last, the generated expression parses again, to the
  edited tiers with the default name for an empty one and without the conditions of the last of several tiers, and these
  generate the same expression. The editor itself refuses none of the other edits.\<close>

theorem tier_edits_readable:
  assumes "ok_tiers ts" and "all_careful es ts"
  shows "tryParseVisualConfig (generateExprFromVisualConfig (Some (apply_edits es ts))) = Some (read_tiers (apply_edits es ts)) \<and>
    generateExprFromVisualConfig (Some (read_tiers (apply_edits es ts))) = generateExprFromVisualConfig (Some (apply_edits es ts))"
  by (rule read_tiers_roundtrip [OF ok_readable [OF edits_ok [OF assms]]])

theorem tier_edits_readable_witness:
  "tryParseVisualConfig (generateExprFromVisualConfig (Some (apply_edits [AddTier, AddCondition 1, Rename 0 (js ''small'')] sample_tiers))) =
     Some (read_tiers (apply_edits [AddTier, AddCondition 1, Rename 0 (js ''small'')] sample_tiers))"
proof -
  have "ok_tiers sample_tiers" using wf_sample_tiers by (simp add: sample_tiers_def ok_tiers_def ok_tier_def wf_tier_def)
  moreover have "all_careful [AddTier, AddCondition 1, Rename 0 (js ''small'')] sample_tiers" by (simp add: js_lit)
  ultimately show ?thesis using tier_edits_readable by blast
qed

text \<open>An edit the editor accepts that is not careful: a quotation mark typed into a name. The expression cannot be read.\<close>

lemma uncareful_edit_unread:
  "tryParseVisualConfig (generateExprFromVisualConfig (Some (apply_edit (Rename 0 [97, 34, 98]) [sample_tier (js ''a'') 3 []]))) = None"
  by code_simp

subsection \<open>Opening a price\<close>

text \<open>A state in which the expression, the rules and what was rendered agree is not changed by its effects.\<close>

lemma commit_settled:
  assumes "te_seen st = Some (te_expr st, te_rules st, te_name st)" and "effectiveExpr st = Inr (te_expr st)"
    and "te_mode st = ModeVisual \<Longrightarrow> buildRequestRuleExpr (te_groups st) = te_rules st"
  shows "commit st = Inr st"
  using assms by (simp add: commit_def props_changed_def name_changed_def Let_def)

lemma commits_settled: "commit st = Inr st \<Longrightarrow> commits n st = Inr st"
  by (induction n) simp_all

lemma commits_add: "commits m st = Inr st' \<Longrightarrow> commits (m + n) st = commits n st'"
proof (induction m arbitrary: st)
  case (Suc m)
  then show ?case by (cases "commit st") simp_all
qed simp

lemma mount_visual:
  assumes "wf_chain ts" and "parse_groups rules = Inr gs" and "buildRequestRuleExpr gs = rules"
    and "mount_editor name (generateExprFromVisualConfig (Some ts)) rules = Inr st"
  shows "commit st = Inr (st\<lparr>te_seen := Some (generateExprFromVisualConfig (Some ts), rules, name)\<rparr>)"
    and "te_config st = Some (canonical_config ts)" and "te_expr st = generateExprFromVisualConfig (Some ts)"
    and "te_mode st = ModeVisual" and "te_groups st = gs" and "te_rules st = rules" and "\<not> te_init st" and "te_name st = name"
  using assms visual_roundtrip [OF assms(1)]
  by (auto simp: mount_editor_def commit_def props_changed_def name_changed_def init_effect_def effectiveExpr_def Let_def)

lemma opened_visual:
  assumes "wf_chain ts" and "parse_groups rules = Inr gs" and "buildRequestRuleExpr gs = rules"
    and "mount_editor name (generateExprFromVisualConfig (Some ts)) rules = Inr st"
  shows "commits (Suc n) st = Inr (st\<lparr>te_seen := Some (generateExprFromVisualConfig (Some ts), rules, name)\<rparr>)"
proof -
  note m = mount_visual [OF assms]
  let ?st = "st\<lparr>te_seen := Some (generateExprFromVisualConfig (Some ts), rules, name)\<rparr>"
  have "commit ?st = Inr ?st"
    by (rule commit_settled) (use m assms(3) visual_roundtrip [OF assms(1)] in \<open>simp_all add: effectiveExpr_def\<close>)
  then show ?thesis using m(1) commits_settled by simp
qed

text \<open>Opening a model whose price was made with the visual editor changes nothing, however often the component
  renders: the stored expression and the stored rules stay as they are and the tiers are shown.\<close>

theorem opening_keeps_visual_price:
  assumes "wf_chain ts" and "parse_groups rules = Inr gs" and "buildRequestRuleExpr gs = rules"
    and "mount_editor name (generateExprFromVisualConfig (Some ts)) rules = Inr st"
  shows "\<exists>st'. commits n st = Inr st' \<and> te_expr st' = generateExprFromVisualConfig (Some ts) \<and> te_rules st' = rules \<and>
    te_mode st' = ModeVisual \<and> te_config st' = Some (canonical_config ts)"
  using mount_visual [OF assms] opened_visual [OF assms] by (cases n) auto

lemma no_rules: "parse_groups [] = Inr []" "buildRequestRuleExpr [] = []"
  by (simp_all add: parse_groups_def tryParseRequestRuleExpr_def buildRequestRuleExpr_def)

theorem opening_keeps_visual_price_witness:
  "\<exists>st st'. mount_editor (js ''m'') (generateExprFromVisualConfig (Some sample_tiers)) [] = Inr st \<and>
     commits 7 st = Inr st' \<and> te_expr st' = generateExprFromVisualConfig (Some sample_tiers)"
proof -
  obtain st where st: "mount_editor (js ''m'') (generateExprFromVisualConfig (Some sample_tiers)) [] = Inr st"
    by (simp add: mount_editor_def no_rules)
  show ?thesis using opening_keeps_visual_price [OF wf_sample_tiers no_rules st, of 7] st by blast
qed

text \<open>The expression that stands for no price, and what the editor makes of it.\<close>

lemma zero_parts:
  "tryParseVisualConfig zero_expr = None" "splitBillingExprAndRequestRules zero_expr = Inr \<lparr>billingExpr = zero_expr, requestRuleExpr = []\<rparr>"
  "combineBillingExpr zero_expr [] = zero_expr"
  by code_simp+

text \<open>C17. Opening a model whose price is an expression the visual editor cannot represent sets the price to zero. The
  first render is in visual mode with no tiers, so its effects hand the expression for no price to the parent
  before the mode changes; the reference that should make the initialisation run once is reset by the next
  effect, so it runs again on that expression; after three renders the stored expression and the text shown are
  \<open>p * 0 + c * 0\<close>, and they stay so.\<close>

theorem opening_zeroes_custom_price:
  assumes "expr \<noteq> []" and "tryParseVisualConfig expr = None"
    and "splitBillingExprAndRequestRules expr = Inr \<lparr>billingExpr = expr, requestRuleExpr = []\<rparr>" and "trim expr = expr"
    and "mount_editor name expr [] = Inr st"
  shows "\<exists>st'. commits (n + 3) st = Inr st' \<and> te_expr st' = zero_expr \<and> te_raw st' = zero_expr \<and> te_mode st' = ModeRaw"
proof -
  let ?st = "\<lambda>mode raw i seen e. \<lparr>te_mode = mode, te_config = None, te_raw = raw, te_groups = [], te_init = i, te_seen = seen,
    te_name = name, te_expr = e, te_rules = []\<rparr>"
  have comb: "combineBillingExpr expr [] = expr" using assms(1,4) by (simp add: combineBillingExpr_def)
  have st: "st = ?st ModeVisual expr False None expr" using assms(2,5) comb by (simp add: mount_editor_def no_rules)
  have gen: "generateExprFromVisualConfig None = zero_expr" by (simp add: generateExprFromVisualConfig_def)
  have one: "commit st = Inr (?st ModeRaw expr False (Some (expr, [], name)) zero_expr)"
    using assms(1,2) comb gen unfolding st
    by (simp add: commit_def props_changed_def name_changed_def init_effect_def effectiveExpr_def no_rules Let_def)
  have nz: "zero_expr \<noteq> []" by (simp add: zero_expr_def js_lit)
  show ?thesis
  proof (cases "expr = zero_expr")
    case True
    have "commit (?st ModeRaw expr False (Some (expr, [], name)) zero_expr) = Inr (?st ModeRaw expr False (Some (expr, [], name)) zero_expr)"
      using True zero_parts by (intro commit_settled) (simp_all add: effectiveExpr_def)
    from commits_settled [OF this, of "n + 2"] show ?thesis using one True by (simp add: numeral_3_eq_3)
  next
    case False
    have two: "commit (?st ModeRaw expr False (Some (expr, [], name)) zero_expr) = Inr (?st ModeRaw zero_expr True (Some (zero_expr, [], name)) expr)"
      using assms(3) False zero_parts nz
      by (simp add: commit_def props_changed_def name_changed_def init_effect_def effectiveExpr_def no_rules Let_def)
    have three: "commit (?st ModeRaw zero_expr True (Some (zero_expr, [], name)) expr) = Inr (?st ModeRaw zero_expr True (Some (expr, [], name)) zero_expr)"
      using zero_parts by (simp add: commit_def props_changed_def name_changed_def effectiveExpr_def Let_def)
    have four: "commit (?st ModeRaw zero_expr True (Some (expr, [], name)) zero_expr) = Inr (?st ModeRaw zero_expr True (Some (zero_expr, [], name)) zero_expr)"
      using zero_parts by (simp add: commit_def props_changed_def name_changed_def effectiveExpr_def Let_def)
    have "commit (?st ModeRaw zero_expr True (Some (zero_expr, [], name)) zero_expr) = Inr (?st ModeRaw zero_expr True (Some (zero_expr, [], name)) zero_expr)"
      using zero_parts by (intro commit_settled) (simp_all add: effectiveExpr_def)
    from commits_settled [OF this] have "commits k (?st ModeRaw zero_expr True (Some (expr, [], name)) zero_expr) =
        Inr (if k = 0 then ?st ModeRaw zero_expr True (Some (expr, [], name)) zero_expr
          else ?st ModeRaw zero_expr True (Some (zero_expr, [], name)) zero_expr)" for k
      using four by (cases k) simp_all
    from this [of n] show ?thesis using one two three by (simp add: numeral_3_eq_3)
  qed
qed

text \<open>In the example the price is a plain expression without tiers.\<close>

theorem opening_zeroes_custom_price_witness:
  "\<exists>st st'. mount_editor (js ''m'') (js ''max(p, c)'') [] = Inr st \<and> commits 3 st = Inr st' \<and> te_expr st' = zero_expr"
proof -
  let ?e = "js ''max(p, c)''"
  have facts: "tryParseVisualConfig ?e = None" "splitBillingExprAndRequestRules ?e = Inr \<lparr>billingExpr = ?e, requestRuleExpr = []\<rparr>" "trim ?e = ?e"
    by code_simp+
  obtain st where st: "mount_editor (js ''m'') ?e [] = Inr st" by (simp add: mount_editor_def no_rules)
  have "?e \<noteq> []" by (simp add: js_lit)
  from opening_zeroes_custom_price [OF this facts st, of 0] st show ?thesis by auto
qed

subsection \<open>Showing another model\<close>

text \<open>Choosing another model while the editor is open copies the price of the first model to it. The effects of the
  first render for the second model still hand over the expression of the first one, and the initialisation
  runs once more on that expression: after three renders the parent holds the expression of the first model
  under the name of the second, and it stays so.\<close>

theorem switching_copies_price:
  assumes "wf_chain ts" and "wf_chain us" and "name \<noteq> name'"
    and "generateExprFromVisualConfig (Some ts) \<noteq> generateExprFromVisualConfig (Some us)"
    and "mount_editor name (generateExprFromVisualConfig (Some ts)) [] = Inr st" and "commits (Suc m) st = Inr opened"
  shows "\<exists>st'. commits (n + 3) (select_model name' (generateExprFromVisualConfig (Some us)) [] opened) = Inr st' \<and>
    te_name st' = name' \<and> te_expr st' = generateExprFromVisualConfig (Some ts)"
proof -
  let ?a = "generateExprFromVisualConfig (Some ts)" and ?b = "generateExprFromVisualConfig (Some us)"
  let ?ca = "Some (canonical_config ts)" and ?cb = "Some (canonical_config us)"
  let ?st = "\<lambda>cfg raw i seen n e. \<lparr>te_mode = ModeVisual, te_config = cfg, te_raw = raw, te_groups = [], te_init = i,
    te_seen = Some seen, te_name = n, te_expr = e, te_rules = []\<rparr>"
  let ?ra = "combineBillingExpr ?a []" and ?rb = "combineBillingExpr ?b []"
  have ga: "tryParseVisualConfig ?a = ?ca" "generateExprFromVisualConfig ?ca = ?a" using visual_roundtrip [OF assms(1)] by simp_all
  have gb: "tryParseVisualConfig ?b = ?cb" "generateExprFromVisualConfig ?cb = ?b" using visual_roundtrip [OF assms(2)] by simp_all
  have "opened = ?st ?ca ?ra False (?a, [], name) name ?a"
    using opened_visual [OF assms(1) no_rules assms(5)] assms(5,6) ga(1) by (auto simp: mount_editor_def no_rules)
  then have sel: "select_model name' ?b [] opened = ?st ?ca ?ra False (?a, [], name) name' ?b" by (simp add: select_model_def)
  note steps = commit_def props_changed_def name_changed_def init_effect_def effectiveExpr_def no_rules Let_def
  have one: "commit (?st ?ca ?ra False (?a, [], name) name' ?b) = Inr (?st ?cb ?rb False (?b, [], name') name' ?a)"
    using assms(3,4) ga gb by (simp add: steps)
  have two: "commit (?st ?cb ?rb False (?b, [], name') name' ?a) = Inr (?st ?ca ?ra True (?a, [], name') name' ?b)"
    using assms(4) ga gb by (simp add: steps)
  have three: "commit (?st ?ca ?ra True (?a, [], name') name' ?b) = Inr (?st ?ca ?ra True (?b, [], name') name' ?a)"
    using ga by (simp add: steps)
  have four: "commit (?st ?ca ?ra True (?b, [], name') name' ?a) = Inr (?st ?ca ?ra True (?a, [], name') name' ?a)"
    using ga by (simp add: steps)
  have "commit (?st ?ca ?ra True (?a, [], name') name' ?a) = Inr (?st ?ca ?ra True (?a, [], name') name' ?a)"
    using ga no_rules by (intro commit_settled) (simp_all add: effectiveExpr_def)
  from commits_settled [OF this] have "\<exists>st'. commits k (?st ?ca ?ra True (?b, [], name') name' ?a) = Inr st' \<and> te_name st' = name' \<and> te_expr st' = ?a" for k
    using four by (cases k) simp_all
  from this [of n] show ?thesis unfolding sel using one two three by (simp add: numeral_3_eq_3)
qed

theorem switching_copies_price_witness:
  "\<exists>st opened st'. mount_editor (js ''m1'') (generateExprFromVisualConfig (Some sample_tiers)) [] = Inr st \<and> commits 1 st = Inr opened \<and>
     commits 3 (select_model (js ''m2'') (generateExprFromVisualConfig (Some [sample_tier (js ''x'') 2 []])) [] opened) = Inr st' \<and>
     te_name st' = js ''m2'' \<and> te_expr st' = generateExprFromVisualConfig (Some sample_tiers)"
proof -
  let ?us = "[sample_tier (js ''x'') 2 []]"
  have us: "wf_chain ?us" by (simp add: wf_tier_def priced_sample) (simp add: sample_tier_def js_lit)
  have "hd (generateExprFromVisualConfig (Some ?us)) = 116"
    by (simp add: generateExprFromVisualConfig_def sample_tier_def buildConditionStr_def tier_call_def js_lit)
  moreover have "hd (generateExprFromVisualConfig (Some sample_tiers)) = 108"
    by (simp add: generateExprFromVisualConfig_def sample_tiers_def sample_tier_def tier_part_def buildConditionStr_def cond_filled_def cond_text_def js_lit)
  ultimately have ne: "generateExprFromVisualConfig (Some sample_tiers) \<noteq> generateExprFromVisualConfig (Some ?us)" by auto
  obtain st where st: "mount_editor (js ''m1'') (generateExprFromVisualConfig (Some sample_tiers)) [] = Inr st"
    by (simp add: mount_editor_def no_rules)
  obtain opened where op: "commits (Suc 0) st = Inr opened" using opened_visual [OF wf_sample_tiers no_rules st] by blast
  show ?thesis
    using switching_copies_price [OF wf_sample_tiers us _ ne st op, of "js ''m2''" 0] st op by (auto simp: js_inject simp del: commits.simps)
qed

subsection \<open>Switching between the two forms\<close>

text \<open>Going from the tiers to the text and back keeps the price: for tiers without request rules whose expression has no
  rule at its top level, the tiers after both switches are the same in normal form and stand for the
  same expression.\<close>

theorem mode_switch_keeps_tiers:
  assumes "wf_chain ts" and "te_config st = Some ts" and "te_groups st = []"
    and "splitBillingExprAndRequestRules (generateExprFromVisualConfig (Some ts)) =
      Inr \<lparr>billingExpr = generateExprFromVisualConfig (Some ts), requestRuleExpr = []\<rparr>"
    and "trim (generateExprFromVisualConfig (Some ts)) = generateExprFromVisualConfig (Some ts)"
    and "handleModeChange ModeRaw st = Inr tx"
  shows "\<exists>st'. handleModeChange ModeVisual tx = Inr st' \<and> te_config st' = Some (canonical_config ts) \<and> te_groups st' = [] \<and>
    effectiveExpr st' = Inr (generateExprFromVisualConfig (Some ts))"
proof -
  let ?e = "generateExprFromVisualConfig (Some ts)"
  have "combineBillingExpr ?e [] = ?e" using assms(5) by (simp add: combineBillingExpr_def Let_def)
  then have "te_raw tx = ?e" using assms(2,3,6) by (auto simp: handleModeChange_def no_rules Let_def)
  then show ?thesis
    using assms(4) visual_roundtrip [OF assms(1)] by (simp add: handleModeChange_def effectiveExpr_def no_rules)
qed

theorem mode_switch_keeps_tiers_witness:
  "\<exists>st tx st'. te_config st = Some [sample_tier (js ''x'') 2 []] \<and> handleModeChange ModeRaw st = Inr tx \<and>
     handleModeChange ModeVisual tx = Inr st' \<and> te_config st' = Some (canonical_config [sample_tier (js ''x'') 2 []])"
proof -
  let ?ts = "[sample_tier (js ''x'') 2 []]"
  let ?st = "\<lparr>te_mode = ModeVisual, te_config = Some ?ts, te_raw = [], te_groups = [], te_init = False, te_seen = None,
    te_name = [], te_expr = [], te_rules = []\<rparr>"
  have "num_to_str (num_int 2) = int_str 2" "num_to_str (num_int 10) = int_str 10" by (simp_all add: num_to_str_int)
  moreover have "int_str 2 = js ''2''" "int_str 10 = js ''10''" by code_simp+
  ultimately have e: "generateExprFromVisualConfig (Some ?ts) = js ''tier('' @ [34] @ js ''x'' @ [34] @ js '', p * 2 + c * 10)''"
    unfolding generateExprFromVisualConfig_def
    by (simp add: sample_tier_def buildConditionStr_def tier_call_def body_text base_costs_def extra_costs_def vars_list fields_list
        num_or0_def num_truthy_def num_int_def cost_text_def js_lit)
  have "splitBillingExprAndRequestRules (generateExprFromVisualConfig (Some ?ts)) =
      Inr \<lparr>billingExpr = generateExprFromVisualConfig (Some ?ts), requestRuleExpr = []\<rparr>"
      "trim (generateExprFromVisualConfig (Some ?ts)) = generateExprFromVisualConfig (Some ?ts)"
    unfolding e by code_simp+
  moreover have "wf_chain ?ts" by (simp add: wf_tier_def priced_sample) (simp add: sample_tier_def js_lit)
  moreover obtain tx where "handleModeChange ModeRaw ?st = Inr tx" by (simp add: handleModeChange_def Let_def)
  ultimately obtain st' where "handleModeChange ModeVisual tx = Inr st'" "te_config st' = Some (canonical_config ?ts)"
    using mode_switch_keeps_tiers [of ?ts ?st tx] by auto
  moreover have "te_config ?st = Some ?ts" by simp
  ultimately show ?thesis using \<open>handleModeChange ModeRaw ?st = Inr tx\<close> by blast
qed

end
