(* ===== verification/Pricing.thy ===== *)
theory Pricing
  imports BillingRules Currency "HOL-Library.Multiset"
begin

section \<open>Model pricing: prices shown, filters, catalogue and availability\<close>

text \<open>
  \<open>features/pricing/lib/dynamic-price.ts\<close>, \<open>price.ts\<close>, \<open>filters.ts\<close>, \<open>free-models.ts\<close>,
  \<open>merge-pricing-models.ts\<close> and \<open>model-helpers.ts\<close>. \<open>toLowerCase\<close> and \<open>localeCompare\<close> of the runtime
  are the arguments \<open>lower\<close> and \<open>lc\<close>; amounts are printed by the functions of theory Currency.
  A \<open>Record<string, number>\<close> is an association list; a ratio that may be \<open>null\<close> or missing is a value.
\<close>

subsection \<open>Data\<close>

record pricing_model =
  pm_id :: int
  model_name :: jsstr
  pm_description :: "jsstr option"
  vendor_name :: "jsstr option"
  quota_type :: int
  model_ratio :: jsnum
  completion_ratio :: jsnum
  model_price :: "jsnum option"
  cache_ratio :: jsval
  create_cache_ratio :: jsval
  image_ratio :: jsval
  audio_ratio :: jsval
  audio_completion_ratio :: jsval
  enable_groups :: "jsstr list"
  pm_tags :: "jsstr option"
  supported_endpoint_types :: "jsstr list option"
  group_ratio :: "(jsstr \<times> jsnum) list option"
  billing_mode :: "jsstr option"
  billing_expr :: "jsstr option"
  pricing_available :: "bool option"

datatype token_unit = UnitM | UnitK

definition TOKEN_UNIT_DIVISORS :: "token_unit \<Rightarrow> jsnum" where
  "TOKEN_UNIT_DIVISORS u = (case u of UnitM \<Rightarrow> num_int 1 | UnitK \<Rightarrow> num_int 1000)"

datatype price_type = PInput | POutput | PCache | PCreateCache | PImage | PAudioInput | PAudioOutput

definition ratio_map :: "pricing_model \<Rightarrow> (jsstr \<times> jsnum) list" where
  "ratio_map model = (case group_ratio model of Some r \<Rightarrow> r | None \<Rightarrow> [])"

subsection \<open>Group ratios\<close>

text \<open>The loop that keeps the smallest ratio; a missing ratio is skipped.\<close>

fun min_ratio :: "(jsstr \<times> jsnum) list \<Rightarrow> jsnum \<Rightarrow> jsstr list \<Rightarrow> jsnum" where
  "min_ratio ratios best [] = best"
| "min_ratio ratios best (grp # groups) =
     (case map_of ratios grp of
        Some ratio \<Rightarrow> min_ratio ratios (if num_lt ratio best then ratio else best) groups
      | None \<Rightarrow> min_ratio ratios best groups)"

definition getDynamicDisplayGroupRatio :: "pricing_model \<Rightarrow> jsnum" where
  "getDynamicDisplayGroupRatio model =
     (let groups = enable_groups model; ratios = ratio_map model
      in if groups = [] then num_int 1
         else let m = min_ratio ratios PInf groups in if m = PInf then num_int 1 else m)"

definition getMinGroupRatio :: "jsstr list \<Rightarrow> (jsstr \<times> jsnum) list \<Rightarrow> jsnum" where
  "getMinGroupRatio enableGroups groupRatio =
     (if enableGroups = [] then num_int 1
      else let m = min_ratio groupRatio PInf enableGroups in if m = PInf then num_int 1 else m)"

definition getEnabledGroupRatios :: "pricing_model \<Rightarrow> (jsstr \<times> jsnum) list option \<Rightarrow> jsnum list" where
  "getEnabledGroupRatios model groupRatios =
     (let sourceRatios = (case groupRatios of Some r \<Rightarrow> r | None \<Rightarrow> ratio_map model)
      in List.map_filter (\<lambda>g. case map_of sourceRatios g of
           Some r \<Rightarrow> (if is_finite r then Some r else None) | None \<Rightarrow> None) (enable_groups model))"

definition isFreeModel :: "pricing_model \<Rightarrow> (jsstr \<times> jsnum) list option \<Rightarrow> bool" where
  "isFreeModel model groupRatios \<longleftrightarrow>
     (\<exists>r \<in> set (getEnabledGroupRatios model groupRatios). num_eq r (num_int 0))"

definition getFreeEligibleGroups :: "pricing_model \<Rightarrow> (jsstr \<times> jsnum) list option \<Rightarrow> jsstr list" where
  "getFreeEligibleGroups model groupRatios =
     (let sourceRatios = (case groupRatios of Some r \<Rightarrow> r | None \<Rightarrow> ratio_map model)
      in filter (\<lambda>g. case map_of sourceRatios g of Some r \<Rightarrow> num_eq r (num_int 0) | None \<Rightarrow> False)
           (enable_groups model))"

definition countFreeModels :: "pricing_model list \<Rightarrow> (jsstr \<times> jsnum) list option \<Rightarrow> nat" where
  "countFreeModels models groupRatios = foldl (\<lambda>n m. n + (if isFreeModel m groupRatios then 1 else 0)) 0 models"

subsection \<open>Dynamic prices\<close>

definition isDynamicPricingModel :: "pricing_model \<Rightarrow> bool" where
  "isDynamicPricingModel model \<longleftrightarrow>
     billing_mode model = Some (js ''tiered_expr'') \<and> or_empty (billing_expr model) \<noteq> []"

definition applyRechargeRate :: "jsnum \<Rightarrow> bool \<Rightarrow> jsnum \<Rightarrow> jsnum \<Rightarrow> jsnum" where
  "applyRechargeRate price showWithRecharge priceRate usdRate =
     (if \<not> showWithRecharge then price else num_div (num_mul price priceRate) usdRate)"

record dynamic_options =
  do_tokenUnit :: token_unit
  do_showRechargePrice :: "bool option"
  do_priceRate :: "jsnum option"
  do_usdExchangeRate :: "jsnum option"
  do_groupRatioMultiplier :: "jsnum option"

definition price_format :: "nat \<Rightarrow> partial_options option" where
  "price_format small = Some \<lparr>po_digitsLarge = Some 4, po_digitsSmall = Some small,
     po_abbreviate = Some False, po_minimumNonZero = None\<rparr>"

definition formatDynamicUnitPrice ::
  "number_format \<Rightarrow> currency_config option \<Rightarrow> jsnum \<Rightarrow> dynamic_options \<Rightarrow> jsstr" where
  "formatDynamicUnitPrice intl stored valuePerMillion options =
     (let groupRatio = or_default (do_groupRatioMultiplier options) (num_int 1);
          priceRate = or_default (do_priceRate options) (num_int 1);
          usdRate = or_default (do_usdExchangeRate options) (num_int 1);
          priceUSD = num_div (num_mul valuePerMillion groupRatio) (TOKEN_UNIT_DIVISORS (do_tokenUnit options));
          displayPrice = applyRechargeRate priceUSD (or_default (do_showRechargePrice options) False)
            priceRate usdRate
      in formatBillingCurrencyFromUSD intl stored (Some displayPrice) (price_format 6))"

definition getDynamicPricingTiers :: "pricing_model \<Rightarrow> parse_error + parsed_tier list" where
  "getDynamicPricingTiers model =
     (if \<not> isDynamicPricingModel model then Inr []
      else case splitBillingExprAndRequestRules (or_empty (billing_expr model)) of
        Inl e \<Rightarrow> Inl e
      | Inr r \<Rightarrow> Inr (parseTiersFromExpr (billingExpr r)))"

definition hasDynamicRequestRules :: "pricing_model \<Rightarrow> parse_error + bool" where
  "hasDynamicRequestRules model =
     (if \<not> isDynamicPricingModel model then Inr False
      else case splitBillingExprAndRequestRules (or_empty (billing_expr model)) of
        Inl e \<Rightarrow> Inl e
      | Inr r \<Rightarrow>
        (case tryParseRequestRuleExpr (requestRuleExpr r) of
           Inl e \<Rightarrow> Inl e
         | Inr g \<Rightarrow> Inr (g \<noteq> None \<and> the g \<noteq> [])))"

record price_entry =
  entry_key :: jsstr
  entry_field :: jsstr
  entry_label :: jsstr
  entry_shortLabel :: jsstr
  entry_value :: jsnum
  entry_formatted :: jsstr
  entry_variable :: billing_var

definition PRIMARY_DYNAMIC_FIELDS :: "jsstr list" where
  "PRIMARY_DYNAMIC_FIELDS = [js ''inputPrice'', js ''outputPrice'']"

definition is_primary :: "price_entry \<Rightarrow> bool" where
  "is_primary e \<longleftrightarrow> entry_field e \<in> set PRIMARY_DYNAMIC_FIELDS"

definition compare_entries :: "price_entry \<Rightarrow> price_entry \<Rightarrow> int" where
  "compare_entries a b =
     (if is_primary a \<noteq> is_primary b then (if is_primary a then - 1 else 1) else 0)"

text \<open>A tier has the field of every pricing variable; a missing one reads as \<open>NaN\<close>.\<close>

definition entry_for ::
  "number_format \<Rightarrow> currency_config option \<Rightarrow> parsed_tier \<Rightarrow> dynamic_options \<Rightarrow> billing_var \<Rightarrow> price_entry list" where
  "entry_for intl stored tier options variable =
     (case var_field variable of
        None \<Rightarrow> []
      | Some field \<Rightarrow>
        (let x = (case map_of (tier_prices tier) field of Some n \<Rightarrow> n | None \<Rightarrow> NaN)
         in if \<not> is_finite x \<or> num_le x (num_int 0) then []
            else [\<lparr>entry_key = var_key variable, entry_field = field, entry_label = var_label variable,
                   entry_shortLabel = var_shortLabel variable, entry_value = x,
                   entry_formatted = formatDynamicUnitPrice intl stored x options,
                   entry_variable = variable\<rparr>]))"

definition getDynamicPriceEntries ::
  "number_format \<Rightarrow> currency_config option \<Rightarrow> parsed_tier option \<Rightarrow> dynamic_options \<Rightarrow> price_entry list" where
  "getDynamicPriceEntries intl stored tier options =
     (case tier of
        None \<Rightarrow> []
      | Some t \<Rightarrow> js_sort compare_entries
          (concat (map (entry_for intl stored t options) BILLING_PRICING_VARS)))"

record pricing_summary =
  sum_tiers :: "parsed_tier list"
  sum_tier :: "parsed_tier option"
  sum_tierCount :: nat
  sum_hasRequestRules :: bool
  sum_isSpecialExpression :: bool
  sum_rawExpression :: jsstr
  sum_entries :: "price_entry list"
  sum_primaryEntries :: "price_entry list"
  sum_secondaryEntries :: "price_entry list"

definition getDynamicPricingSummary ::
  "number_format \<Rightarrow> currency_config option \<Rightarrow> pricing_model \<Rightarrow> dynamic_options \<Rightarrow>
     parse_error + pricing_summary option" where
  "getDynamicPricingSummary intl stored model options =
     (if \<not> isDynamicPricingModel model then Inr None
      else case (getDynamicPricingTiers model, hasDynamicRequestRules model) of
        (Inr tiers, Inr rules) \<Rightarrow>
          (let tier = (case tiers of t # _ \<Rightarrow> Some t | [] \<Rightarrow> None);
               entries = getDynamicPriceEntries intl stored tier options;
               raw = or_empty (billing_expr model)
           in Inr (Some \<lparr>sum_tiers = tiers, sum_tier = tier, sum_tierCount = length tiers,
                sum_hasRequestRules = rules,
                sum_isSpecialExpression = (0 < length (trim raw) \<and> tiers = []),
                sum_rawExpression = raw, sum_entries = entries,
                sum_primaryEntries = filter is_primary entries,
                sum_secondaryEntries = filter (\<lambda>e. \<not> is_primary e) entries\<rparr>))
      | _ \<Rightarrow> Inl SyntaxError)"

subsection \<open>Prices of a model\<close>

definition hasRatio :: "jsval \<Rightarrow> bool" where
  "hasRatio v \<longleftrightarrow> v \<noteq> JUndef \<and> v \<noteq> JNull \<and> is_finite (to_num v)"

definition price_field :: "price_type \<Rightarrow> jsstr" where
  "price_field t = (case t of
     PInput \<Rightarrow> js ''inputPrice'' | POutput \<Rightarrow> js ''outputPrice'' | PCache \<Rightarrow> js ''cacheReadPrice''
   | PCreateCache \<Rightarrow> js ''cacheCreatePrice'' | PImage \<Rightarrow> js ''imagePrice''
   | PAudioInput \<Rightarrow> js ''audioInputPrice'' | PAudioOutput \<Rightarrow> js ''audioOutputPrice'')"

definition times_ratio :: "jsnum \<Rightarrow> jsval \<Rightarrow> jsnum" where
  "times_ratio base v = (if hasRatio v then num_mul base (to_num v) else NaN)"

definition calculateTokenPrice :: "pricing_model \<Rightarrow> price_type \<Rightarrow> jsnum \<Rightarrow> parse_error + jsnum" where
  "calculateTokenPrice model t ratio =
     (if isDynamicPricingModel model
      then (case getDynamicPricingTiers model of
              Inl e \<Rightarrow> Inl e
            | Inr [] \<Rightarrow> Inr NaN
            | Inr (tier # _) \<Rightarrow>
              (case map_of (tier_prices tier) (price_field t) of
                 Some x \<Rightarrow> Inr (if is_finite x then num_mul x ratio else NaN)
               | None \<Rightarrow> Inr NaN))
      else let base = num_mul (num_mul (model_ratio model) (num_int 2)) ratio
      in Inr (case t of
           PInput \<Rightarrow> base
         | POutput \<Rightarrow> num_mul base (completion_ratio model)
         | PCache \<Rightarrow> times_ratio base (cache_ratio model)
         | PCreateCache \<Rightarrow> times_ratio base (create_cache_ratio model)
         | PImage \<Rightarrow> times_ratio base (image_ratio model)
         | PAudioInput \<Rightarrow> times_ratio base (audio_ratio model)
         | PAudioOutput \<Rightarrow>
             if hasRatio (audio_ratio model) \<and> hasRatio (audio_completion_ratio model)
             then times_ratio (times_ratio base (audio_ratio model)) (audio_completion_ratio model) else NaN))"

definition QUOTA_REQUEST :: int where
  "QUOTA_REQUEST = 1"

definition token_price_text ::
  "number_format \<Rightarrow> currency_config option \<Rightarrow> pricing_model \<Rightarrow> price_type \<Rightarrow> token_unit \<Rightarrow> bool \<Rightarrow>
     jsnum \<Rightarrow> jsnum \<Rightarrow> jsnum \<Rightarrow> parse_error + jsstr" where
  "token_price_text intl stored model t unit showWithRecharge priceRate usdRate ratio =
     (case calculateTokenPrice model t ratio of
        Inl e \<Rightarrow> Inl e
      | Inr priceInUSD \<Rightarrow>
        Inr (formatCurrencyFromUSD intl stored
          (Some (num_div (applyRechargeRate priceInUSD showWithRecharge priceRate usdRate)
             (TOKEN_UNIT_DIVISORS unit))) (price_format 6)))"

definition formatPrice ::
  "number_format \<Rightarrow> currency_config option \<Rightarrow> pricing_model \<Rightarrow> price_type \<Rightarrow> token_unit \<Rightarrow> bool \<Rightarrow>
     jsnum \<Rightarrow> jsnum \<Rightarrow> parse_error + jsstr" where
  "formatPrice intl stored model t unit showWithRecharge priceRate usdRate =
     (if quota_type model = QUOTA_REQUEST then Inr (js ''-'')
      else token_price_text intl stored model t unit showWithRecharge priceRate usdRate
        (getMinGroupRatio (enable_groups model) (ratio_map model)))"

definition formatGroupPrice ::
  "number_format \<Rightarrow> currency_config option \<Rightarrow> pricing_model \<Rightarrow> jsstr \<Rightarrow> price_type \<Rightarrow> token_unit \<Rightarrow> bool \<Rightarrow>
     jsnum \<Rightarrow> jsnum \<Rightarrow> (jsstr \<times> jsnum) list \<Rightarrow> parse_error + jsstr" where
  "formatGroupPrice intl stored model grp t unit showWithRecharge priceRate usdRate groupRatio =
     (if quota_type model = QUOTA_REQUEST then Inr (js ''-'')
      else token_price_text intl stored model t unit showWithRecharge priceRate usdRate
        (or_default (map_of groupRatio grp) (num_int 1)))"

definition or_zero :: "jsnum option \<Rightarrow> jsnum" where
  "or_zero x = (case x of Some n \<Rightarrow> (if num_truthy n then n else num_int 0) | None \<Rightarrow> num_int 0)"

definition fixed_ratio :: "(jsstr \<times> jsnum) list \<Rightarrow> jsstr \<Rightarrow> jsnum" where
  "fixed_ratio groupRatio grp =
     (case map_of groupRatio grp of Some r \<Rightarrow> (if num_truthy r then r else num_int 1) | None \<Rightarrow> num_int 1)"

definition fixed_price_text ::
  "number_format \<Rightarrow> currency_config option \<Rightarrow> pricing_model \<Rightarrow> bool \<Rightarrow> jsnum \<Rightarrow> jsnum \<Rightarrow> jsnum \<Rightarrow> jsstr" where
  "fixed_price_text intl stored model showWithRecharge priceRate usdRate ratio =
     formatCurrencyFromUSD intl stored
       (Some (applyRechargeRate (num_mul (or_zero (model_price model)) ratio) showWithRecharge
          priceRate usdRate)) (price_format 4)"

definition formatFixedPrice ::
  "number_format \<Rightarrow> currency_config option \<Rightarrow> pricing_model \<Rightarrow> jsstr \<Rightarrow> bool \<Rightarrow> jsnum \<Rightarrow> jsnum \<Rightarrow>
     (jsstr \<times> jsnum) list \<Rightarrow> jsstr" where
  "formatFixedPrice intl stored model grp showWithRecharge priceRate usdRate groupRatio =
     (if quota_type model \<noteq> QUOTA_REQUEST then js ''-''
      else fixed_price_text intl stored model showWithRecharge priceRate usdRate
        (fixed_ratio groupRatio grp))"

definition formatRequestPrice ::
  "number_format \<Rightarrow> currency_config option \<Rightarrow> pricing_model \<Rightarrow> bool \<Rightarrow> jsnum \<Rightarrow> jsnum \<Rightarrow> jsstr" where
  "formatRequestPrice intl stored model showWithRecharge priceRate usdRate =
     (if quota_type model \<noteq> QUOTA_REQUEST then js ''-''
      else fixed_price_text intl stored model showWithRecharge priceRate usdRate
        (getMinGroupRatio (enable_groups model) (ratio_map model)))"

subsection \<open>Filters and sorting\<close>

definition FILTER_ALL :: jsstr where
  "FILTER_ALL = js ''all''"

definition filterBySearch :: "(jsstr \<Rightarrow> jsstr) \<Rightarrow> pricing_model list \<Rightarrow> jsstr \<Rightarrow> pricing_model list" where
  "filterBySearch lower models query =
     (if query = [] then models
      else let q = lower query; has = (\<lambda>x. case x of Some s \<Rightarrow> includes_str (lower s) q | None \<Rightarrow> False)
      in filter (\<lambda>m. has (Some (model_name m)) \<or> has (pm_description m) \<or> has (pm_tags m) \<or> has (vendor_name m)) models)"

definition filterByVendor :: "pricing_model list \<Rightarrow> jsstr \<Rightarrow> pricing_model list" where
  "filterByVendor models vendor =
     (if vendor = FILTER_ALL then models else filter (\<lambda>m. vendor_name m = Some vendor) models)"

definition filterByGroup :: "pricing_model list \<Rightarrow> jsstr \<Rightarrow> pricing_model list" where
  "filterByGroup models grp =
     (if grp = FILTER_ALL then models else filter (\<lambda>m. grp \<in> set (enable_groups m)) models)"

definition filterByQuotaType :: "pricing_model list \<Rightarrow> jsstr \<Rightarrow> pricing_model list" where
  "filterByQuotaType models quotaType =
     (if quotaType = js ''all'' then models
      else let targetType = (if quotaType = js ''token'' then 0 else QUOTA_REQUEST)
      in filter (\<lambda>m. quota_type m = targetType) models)"

definition filterByEndpointType :: "pricing_model list \<Rightarrow> jsstr \<Rightarrow> pricing_model list" where
  "filterByEndpointType models endpointType =
     (if endpointType = js ''all'' then models
      else filter (\<lambda>m. case supported_endpoint_types m of Some ts \<Rightarrow> endpointType \<in> set ts | None \<Rightarrow> False) models)"

definition tag_separator :: "code_unit \<Rightarrow> bool" where
  "tag_separator c \<longleftrightarrow> c = 44 \<or> c = 59 \<or> c = 124 \<or> is_ws c"

definition parseTags :: "jsstr option \<Rightarrow> jsstr list" where
  "parseTags tagsString =
     (case tagsString of None \<Rightarrow> []
      | Some s \<Rightarrow> if s = [] then []
          else filter (\<lambda>t. t \<noteq> []) (map trim (rx_split (rx_plus (RSat tag_separator)) s)))"

definition filterByTag :: "(jsstr \<Rightarrow> jsstr) \<Rightarrow> pricing_model list \<Rightarrow> jsstr \<Rightarrow> pricing_model list" where
  "filterByTag lower models tag =
     (if tag = FILTER_ALL then models
      else filter (\<lambda>m. or_empty (pm_tags m) \<noteq> [] \<and> lower tag \<in> set (map lower (parseTags (pm_tags m)))) models)"

definition extractAllTags ::
  "(jsstr \<Rightarrow> jsstr) \<Rightarrow> (jsstr \<Rightarrow> jsstr \<Rightarrow> int) \<Rightarrow> pricing_model list \<Rightarrow> jsstr list" where
  "extractAllTags lower lc models =
     js_sort lc (js_set (concat (map (\<lambda>m. if or_empty (pm_tags m) \<noteq> [] then map lower (parseTags (pm_tags m)) else []) models)))"

definition is_available :: "pricing_model \<Rightarrow> bool" where
  "is_available m \<longleftrightarrow> pricing_available m \<noteq> Some False"

definition getModelPrice :: "pricing_model \<Rightarrow> jsnum" where
  "getModelPrice m =
     (if pricing_available m = Some False then PInf
      else if quota_type m = 0 then model_ratio m else or_zero (model_price m))"

text \<open>\<open>sort\<close> reads the sign of the comparator's number, \<open>NaN\<close> counting as zero.\<close>

definition num_sign :: "jsnum \<Rightarrow> int" where
  "num_sign x = (if num_lt (num_int 0) x then 1 else if num_lt x (num_int 0) then - 1 else 0)"

definition compareModelPrice :: "bool \<Rightarrow> pricing_model \<Rightarrow> pricing_model \<Rightarrow> int" where
  "compareModelPrice ascending left right =
     (if is_available left \<noteq> is_available right then (if is_available left then - 1 else 1)
      else let difference = num_sub (getModelPrice left) (getModelPrice right)
      in num_sign (if ascending then difference else num_neg difference))"

definition sortModels ::
  "(jsstr \<Rightarrow> jsstr \<Rightarrow> int) \<Rightarrow> pricing_model list \<Rightarrow> jsstr \<Rightarrow> pricing_model list" where
  "sortModels lc models sortBy =
     (if sortBy = js ''name'' then js_sort (\<lambda>a b. lc (model_name a) (model_name b)) models
      else if sortBy = js ''price-low'' then js_sort (compareModelPrice True) models
      else if sortBy = js ''price-high'' then js_sort (compareModelPrice False) models
      else models)"

record model_filters =
  flt_search :: jsstr
  flt_vendor :: jsstr
  flt_group :: jsstr
  flt_quotaType :: jsstr
  flt_endpointType :: jsstr
  flt_tag :: jsstr
  flt_sortBy :: jsstr

definition filterAndSortModels ::
  "(jsstr \<Rightarrow> jsstr) \<Rightarrow> (jsstr \<Rightarrow> jsstr \<Rightarrow> int) \<Rightarrow> pricing_model list \<Rightarrow> model_filters \<Rightarrow> pricing_model list" where
  "filterAndSortModels lower lc models filters =
     (let r = filterBySearch lower models (flt_search filters);
          r = filterByVendor r (flt_vendor filters);
          r = filterByGroup r (flt_group filters);
          r = filterByQuotaType r (flt_quotaType filters);
          r = filterByEndpointType r (flt_endpointType filters);
          r = filterByTag lower r (flt_tag filters)
      in sortModels lc r (flt_sortBy filters))"

subsection \<open>Catalogue and availability\<close>

definition modelKey :: "(jsstr \<Rightarrow> jsstr) \<Rightarrow> jsstr \<Rightarrow> jsstr" where
  "modelKey lower name = lower (trim name)"

definition map_set :: "('k \<times> 'v) list \<Rightarrow> 'k \<Rightarrow> 'v \<Rightarrow> ('k \<times> 'v) list" where
  "map_set m k v = (if map_of m k = None then m @ [(k, v)] else map (\<lambda>(k', v'). if k' = k then (k', v) else (k', v')) m)"

text \<open>\<open>{...catalogModel, ...model, enable_groups: catalogModel.enable_groups}\<close>: an optional field
  that the priced model does not have keeps the catalogue's value.\<close>

definition or_else :: "'a option \<Rightarrow> 'a option \<Rightarrow> 'a option" where
  "or_else new old = (case new of Some v \<Rightarrow> Some v | None \<Rightarrow> old)"

definition or_else_val :: "jsval \<Rightarrow> jsval \<Rightarrow> jsval" where
  "or_else_val new old = (if new = JUndef then old else new)"

definition merge_model :: "pricing_model \<Rightarrow> pricing_model \<Rightarrow> pricing_model" where
  "merge_model catalogModel model =
     \<lparr>pm_id = pm_id model, model_name = model_name model,
      pm_description = or_else (pm_description model) (pm_description catalogModel),
      vendor_name = or_else (vendor_name model) (vendor_name catalogModel),
      quota_type = quota_type model, model_ratio = model_ratio model,
      completion_ratio = completion_ratio model,
      model_price = or_else (model_price model) (model_price catalogModel),
      cache_ratio = or_else_val (cache_ratio model) (cache_ratio catalogModel),
      create_cache_ratio = or_else_val (create_cache_ratio model) (create_cache_ratio catalogModel),
      image_ratio = or_else_val (image_ratio model) (image_ratio catalogModel),
      audio_ratio = or_else_val (audio_ratio model) (audio_ratio catalogModel),
      audio_completion_ratio = or_else_val (audio_completion_ratio model) (audio_completion_ratio catalogModel),
      enable_groups = enable_groups catalogModel,
      pm_tags = or_else (pm_tags model) (pm_tags catalogModel),
      supported_endpoint_types = or_else (supported_endpoint_types model) (supported_endpoint_types catalogModel),
      group_ratio = or_else (group_ratio model) (group_ratio catalogModel),
      billing_mode = or_else (billing_mode model) (billing_mode catalogModel),
      billing_expr = or_else (billing_expr model) (billing_expr catalogModel),
      pricing_available = or_else (pricing_available model) (pricing_available catalogModel)\<rparr>"

definition add_catalog :: "(jsstr \<Rightarrow> jsstr) \<Rightarrow> (jsstr \<times> pricing_model) list \<Rightarrow> pricing_model \<Rightarrow> (jsstr \<times> pricing_model) list" where
  "add_catalog lower merged model =
     (let key = modelKey lower (model_name model) in if key = [] then merged else map_set merged key model)"

definition add_priced :: "(jsstr \<Rightarrow> jsstr) \<Rightarrow> (jsstr \<times> pricing_model) list \<Rightarrow> pricing_model \<Rightarrow> (jsstr \<times> pricing_model) list" where
  "add_priced lower merged model =
     (let key = modelKey lower (model_name model)
      in if key = [] then merged
         else map_set merged key (case map_of merged key of Some c \<Rightarrow> merge_model c model | None \<Rightarrow> model))"

definition mergePricingModels ::
  "(jsstr \<Rightarrow> jsstr) \<Rightarrow> pricing_model list \<Rightarrow> pricing_model list \<Rightarrow> pricing_model list" where
  "mergePricingModels lower catalogModels pricedModels =
     map snd (foldl (add_priced lower) (foldl (add_catalog lower) [] catalogModels) pricedModels)"

definition availablePricingModels ::
  "(jsstr \<Rightarrow> jsstr) \<Rightarrow> pricing_model list \<Rightarrow> pricing_model list \<Rightarrow> jsstr list option \<Rightarrow> pricing_model list" where
  "availablePricingModels lower catalogModels pricedModels availableNames =
     (let names = (case availableNames of Some ns \<Rightarrow> ns
            | None \<Rightarrow> map model_name (filter (\<lambda>m. 0 < length (enable_groups m)) catalogModels));
          available = js_set (filter (\<lambda>k. k \<noteq> []) (map (modelKey lower) names))
      in filter (\<lambda>m. modelKey lower (model_name m) \<in> set available)
           (mergePricingModels lower catalogModels pricedModels))"

definition getAvailableGroups :: "pricing_model \<Rightarrow> jsstr list \<Rightarrow> jsstr list" where
  "getAvailableGroups model usableGroups =
     filter (\<lambda>g. g \<in> set (enable_groups model)) (filter (\<lambda>g. g \<notin> {[], js ''auto''}) usableGroups)"

definition isTokenBasedModel :: "pricing_model \<Rightarrow> bool" where
  "isTokenBasedModel model \<longleftrightarrow> quota_type model = 0"

subsection \<open>The smallest ratio\<close>

lemma num_lt_below:
  "\<not> num_lt x a \<Longrightarrow> \<not> num_lt a b \<Longrightarrow> is_finite x \<or> x = PInf \<Longrightarrow> is_finite a \<or> a = PInf \<Longrightarrow>
   is_finite b \<or> b = PInf \<Longrightarrow> \<not> num_lt x b"
  by (cases x; cases a; cases b) auto

text \<open>The ratios a list of groups has.\<close>

definition ratios_of :: "(jsstr \<times> jsnum) list \<Rightarrow> jsstr list \<Rightarrow> jsnum set" where
  "ratios_of ratios groups = {r. \<exists>g \<in> set groups. map_of ratios g = Some r}"

text \<open>\<open>best\<close> is the smallest of the ratios seen, \<open>Infinity\<close> before the first.\<close>

lemma min_ratio_spec:
  assumes "\<forall>(g, r) \<in> set ratios. is_finite r" and "is_finite best \<or> best = PInf"
  shows "(min_ratio ratios best groups = best \<or> min_ratio ratios best groups \<in> ratios_of ratios groups) \<and>
     \<not> num_lt best (min_ratio ratios best groups) \<and>
     (\<forall>r \<in> ratios_of ratios groups. \<not> num_lt r (min_ratio ratios best groups)) \<and>
     (is_finite (min_ratio ratios best groups) \<or> min_ratio ratios best groups = PInf)"
  using assms(2) unfolding ratios_of_def
proof (induction groups arbitrary: best)
  case Nil
  then show ?case by (cases best) auto
next
  case (Cons g gs)
  show ?case
  proof (cases "map_of ratios g")
    case None
    with Cons show ?thesis by auto
  next
    case (Some r)
    then have fin: "is_finite r" using assms(1) by (auto dest!: map_of_SomeD)
    let ?best = "if num_lt r best then r else best"
    have best: "is_finite ?best \<or> ?best = PInf" using fin Cons.prems by simp
    note IH = Cons.IH [OF best]
    have "\<not> num_lt r ?best" "\<not> num_lt best ?best"
      using fin Cons.prems by (cases r; cases best; auto)+
    moreover have "\<not> num_lt x (min_ratio ratios ?best gs)"
      if "\<not> num_lt x ?best" "is_finite x \<or> x = PInf" for x
      using num_lt_below IH that best by blast
    ultimately show ?thesis using IH Some fin Cons.prems by (auto split: if_splits)
  qed
qed

text \<open>
  The price shown for a model is the one of its cheapest enabled group: the display ratio is the
  smallest ratio of the enabled groups that have one, and 1 when none has; the two functions that
  compute it, for dynamic and for plain prices, agree on every model.
\<close>

theorem display_ratio_is_minimum:
  assumes "\<forall>(g, r) \<in> set (ratio_map model). is_finite r"
  shows "getDynamicDisplayGroupRatio model = getMinGroupRatio (enable_groups model) (ratio_map model) \<and>
     (if ratios_of (ratio_map model) (enable_groups model) = {} then getMinGroupRatio (enable_groups model) (ratio_map model) = num_int 1
      else getMinGroupRatio (enable_groups model) (ratio_map model) \<in> ratios_of (ratio_map model) (enable_groups model) \<and>
        (\<forall>r \<in> ratios_of (ratio_map model) (enable_groups model). \<not> num_lt r (getMinGroupRatio (enable_groups model) (ratio_map model))))"
proof -
  let ?seen = "ratios_of (ratio_map model) (enable_groups model)"
  let ?m = "min_ratio (ratio_map model) PInf (enable_groups model)"
  note spec = min_ratio_spec [OF assms(1), of PInf "enable_groups model", simplified]
  have fin: "is_finite r" if "r \<in> ?seen" for r
    using that assms(1) by (auto simp: ratios_of_def dest!: map_of_SomeD)
  have "?m \<noteq> PInf" if "r \<in> ?seen" for r
  proof
    assume "?m = PInf"
    moreover have "\<not> num_lt r ?m" using spec that by blast
    ultimately show False using fin [OF that] by (cases r) auto
  qed
  moreover have "?m = PInf" if "?seen = {}" using spec that by auto
  moreover have "enable_groups model \<noteq> []" if "r \<in> ?seen" for r using that by (auto simp: ratios_of_def)
  ultimately show ?thesis
    using spec by (auto simp: getDynamicDisplayGroupRatio_def getMinGroupRatio_def Let_def)
qed

definition demo_model :: pricing_model where
  "demo_model =
     \<lparr>pm_id = 1, model_name = js ''gpt'', pm_description = None, vendor_name = None, quota_type = 1,
      model_ratio = num_int 1, completion_ratio = num_int 1, model_price = Some (num_int 3),
      cache_ratio = JUndef, create_cache_ratio = JUndef, image_ratio = JUndef, audio_ratio = JUndef,
      audio_completion_ratio = JUndef, enable_groups = [js ''a'', js ''b''], pm_tags = None,
      supported_endpoint_types = None,
      group_ratio = Some [(js ''a'', num_int 2), (js ''b'', num_int 0)], billing_mode = None,
      billing_expr = None, pricing_available = None\<rparr>"

theorem display_ratio_is_minimum_witness:
  "\<not> num_lt (num_int 2) (getMinGroupRatio (enable_groups demo_model) (ratio_map demo_model))"
proof -
  have "\<forall>(g, r) \<in> set (ratio_map demo_model). is_finite r"
    by (simp add: demo_model_def ratio_map_def num_int_def)
  from display_ratio_is_minimum [OF this]
  have "\<forall>r \<in> ratios_of (ratio_map demo_model) (enable_groups demo_model).
      \<not> num_lt r (getMinGroupRatio (enable_groups demo_model) (ratio_map demo_model))"
    by (auto split: if_splits)
  moreover have "num_int 2 \<in> ratios_of (ratio_map demo_model) (enable_groups demo_model)"
    by (simp add: demo_model_def ratio_map_def ratios_of_def)
  ultimately show ?thesis by blast
qed

text \<open>A group with ratio 0: the price per request shown for the group ignores the ratio, the price
  shown for the model applies it.\<close>

lemma free_group_fixed_price:
  "fixed_ratio [(g, num_int 0)] g = num_int 1 \<and> getMinGroupRatio [g] [(g, num_int 0)] = num_int 0"
  by (simp add: fixed_ratio_def getMinGroupRatio_def num_truthy_def num_int_def)

subsection \<open>Entries of a dynamic price\<close>

lemma insert_entry:
  "list_all is_primary ps \<Longrightarrow> list_all (\<lambda>e. \<not> is_primary e) ss \<Longrightarrow>
   js_insert compare_entries e (ps @ ss) = (if is_primary e then e # ps @ ss else ps @ e # ss)"
  by (induction ps) (auto simp: compare_entries_def split: list.splits, (cases ss; auto simp: compare_entries_def)+)

lemma sort_entries: "js_sort compare_entries es = filter is_primary es @ filter (\<lambda>e. \<not> is_primary e) es"
proof (induction es)
  case (Cons e es)
  have "js_sort compare_entries (e # es) = js_insert compare_entries e (js_sort compare_entries es)"
    by (simp add: js_sort_def)
  also have "\<dots> = (if is_primary e then e # filter is_primary es @ filter (\<lambda>e. \<not> is_primary e) es
      else filter is_primary es @ e # filter (\<lambda>e. \<not> is_primary e) es)"
    unfolding Cons by (rule insert_entry) (auto simp: list_all_iff)
  finally show ?case by simp
qed (simp add: js_sort_def)

text \<open>
  The entries of a dynamic price list the input and output price first and keep the order of the
  variable table within the two groups; every entry has a finite, positive price, and no price of
  the tier that is finite and positive is left out.
\<close>

theorem dynamic_entries_exact:
  "getDynamicPriceEntries intl stored (Some tier) options =
     filter is_primary (concat (map (entry_for intl stored tier options) BILLING_PRICING_VARS)) @
     filter (\<lambda>e. \<not> is_primary e) (concat (map (entry_for intl stored tier options) BILLING_PRICING_VARS)) \<and>
   entry_field ` set (getDynamicPriceEntries intl stored (Some tier) options) =
     {f. \<exists>v x. v \<in> set BILLING_PRICING_VARS \<and> var_field v = Some f \<and> map_of (tier_prices tier) f = Some x \<and>
        is_finite x \<and> num_lt (num_int 0) x}"
proof -
  have le: "is_finite x \<Longrightarrow> num_le x (num_int 0) \<longleftrightarrow> \<not> num_lt (num_int 0) x" for x
    by (cases x) (auto simp: num_le_def num_int_def num_eq_def)
  have "entry_field ` set (entry_for intl stored tier options v) =
      {f. \<exists>x. var_field v = Some f \<and> map_of (tier_prices tier) f = Some x \<and> is_finite x \<and> num_lt (num_int 0) x}" for v
    by (cases "var_field v"; cases "map_of (tier_prices tier) (the (var_field v))")
       (auto simp: entry_for_def Let_def le)
  then have "entry_field ` set (concat (map (entry_for intl stored tier options) BILLING_PRICING_VARS)) =
      {f. \<exists>v x. v \<in> set BILLING_PRICING_VARS \<and> var_field v = Some f \<and> map_of (tier_prices tier) f = Some x \<and>
        is_finite x \<and> num_lt (num_int 0) x}"
    by (simp add: image_UN) blast
  moreover have "set (getDynamicPriceEntries intl stored (Some tier) options) =
      set (concat (map (entry_for intl stored tier options) BILLING_PRICING_VARS))"
    unfolding getDynamicPriceEntries_def option.case by (rule set_js_sort)
  moreover have "getDynamicPriceEntries intl stored (Some tier) options =
      filter is_primary (concat (map (entry_for intl stored tier options) BILLING_PRICING_VARS)) @
      filter (\<lambda>e. \<not> is_primary e) (concat (map (entry_for intl stored tier options) BILLING_PRICING_VARS))"
    unfolding getDynamicPriceEntries_def option.case by (rule sort_entries)
  ultimately show ?thesis by metis
qed

subsection \<open>Filtering and sorting\<close>

definition matches_filters :: "(jsstr \<Rightarrow> jsstr) \<Rightarrow> model_filters \<Rightarrow> pricing_model \<Rightarrow> bool" where
  "matches_filters lower f m \<longleftrightarrow>
     (flt_search f = [] \<or> (\<exists>s \<in> set (model_name m # List.map_filter (\<lambda>x. x) [pm_description m, pm_tags m, vendor_name m]).
        includes_str (lower s) (lower (flt_search f)))) \<and>
     (flt_vendor f = FILTER_ALL \<or> vendor_name m = Some (flt_vendor f)) \<and>
     (flt_group f = FILTER_ALL \<or> flt_group f \<in> set (enable_groups m)) \<and>
     (flt_quotaType f = js ''all'' \<or> quota_type m = (if flt_quotaType f = js ''token'' then 0 else 1)) \<and>
     (flt_endpointType f = js ''all'' \<or> (\<exists>ts. supported_endpoint_types m = Some ts \<and> flt_endpointType f \<in> set ts)) \<and>
     (flt_tag f = FILTER_ALL \<or> or_empty (pm_tags m) \<noteq> [] \<and> lower (flt_tag f) \<in> set (map lower (parseTags (pm_tags m))))"

lemma mset_js_insert [simp]: "mset (js_insert cmp x ys) = add_mset x (mset ys)"
  by (induction ys) auto

lemma mset_js_sort [simp]: "mset (js_sort cmp xs) = mset xs"
  by (induction xs) (auto simp: js_sort_def)

lemma mset_sortModels: "mset (sortModels lc ms s) = mset ms"
  by (simp add: sortModels_def)

definition priced_first :: "pricing_model list \<Rightarrow> bool" where
  "priced_first ms \<longleftrightarrow> (\<exists>a b. ms = a @ b \<and> list_all is_available a \<and> list_all (\<lambda>m. \<not> is_available m) b)"

lemma insert_priced_first: "priced_first ms \<Longrightarrow> priced_first (js_insert (compareModelPrice asc) m ms)"
proof -
  assume "priced_first ms"
  then obtain a b where ms: "ms = a @ b" "list_all is_available a" "list_all (\<lambda>m. \<not> is_available m) b"
    by (auto simp: priced_first_def)
  show ?thesis
  proof (cases "is_available m")
    case True
    have "\<exists>a'. js_insert (compareModelPrice asc) m (a @ b) = a' @ b \<and> list_all is_available a'"
      using ms(2,3) True
    proof (induction a)
      case Nil
      then show ?case by (cases b) (auto simp: compareModelPrice_def intro: exI [of _ "[m]"])
    next
      case (Cons x a)
      then obtain a' where "js_insert (compareModelPrice asc) m (a @ b) = a' @ b" "list_all is_available a'" by auto
      with Cons.prems show ?case
        by (cases "compareModelPrice asc m x \<le> 0")
           (auto intro: exI [of _ "m # x # a"] exI [of _ "x # a'"])
    qed
    with ms show ?thesis unfolding priced_first_def by blast
  next
    case False
    have "js_insert (compareModelPrice asc) m (a @ b) = a @ js_insert (compareModelPrice asc) m b"
      using ms(2) False by (induction a) (auto simp: compareModelPrice_def)
    moreover have "list_all (\<lambda>m. \<not> is_available m) (js_insert (compareModelPrice asc) m b)"
      using ms(3) False by (simp add: list_all_iff)
    ultimately show ?thesis using ms unfolding priced_first_def by blast
  qed
qed

lemma sort_priced_first: "priced_first (js_sort (compareModelPrice asc) ms)"
proof (induction ms)
  case Nil
  show ?case by (simp add: js_sort_def priced_first_def)
next
  case (Cons m ms)
  have "js_sort (compareModelPrice asc) (m # ms) = js_insert (compareModelPrice asc) m (js_sort (compareModelPrice asc) ms)"
    by (simp add: js_sort_def)
  with Cons show ?case using insert_priced_first by simp
qed

lemma filters_compose:
  "filterByTag lower (filterByEndpointType (filterByQuotaType (filterByGroup (filterByVendor
     (filterBySearch lower ms (flt_search f)) (flt_vendor f)) (flt_group f)) (flt_quotaType f))
     (flt_endpointType f)) (flt_tag f) = filter (matches_filters lower f) ms"
proof -
  have *: "(if c then xs else filter P xs) = filter (\<lambda>m. c \<or> P m) xs" for c P and xs :: "pricing_model list"
    by simp
  note each = filterByTag_def filterByEndpointType_def filterByQuotaType_def filterByGroup_def
    filterByVendor_def filterBySearch_def
  show ?thesis
    unfolding each [unfolded Let_def *] filter_filter
    by (rule filter_cong) (auto simp: matches_filters_def QUOTA_REQUEST_def List.map_filter_def split: option.splits)
qed

text \<open>
  The catalogue view shows every model that passes all six filters and no other, each as often as
  it is listed, in whatever order is chosen; and sorted by price, in either direction, the models
  without a price come after all the others.
\<close>

theorem catalogue_view_exact:
  "mset (filterAndSortModels lower lc ms f) = mset (filter (matches_filters lower f) ms) \<and>
   priced_first (filterAndSortModels lower lc ms (f\<lparr>flt_sortBy := js ''price-low''\<rparr>)) \<and>
   priced_first (filterAndSortModels lower lc ms (f\<lparr>flt_sortBy := js ''price-high''\<rparr>))"
proof -
  have view: "filterAndSortModels lower lc ms g = sortModels lc (filter (matches_filters lower g) ms) (flt_sortBy g)" for g
    using filters_compose [of lower ms g] by (simp add: filterAndSortModels_def Let_def)
  show ?thesis
    unfolding view mset_sortModels by (simp add: sortModels_def sort_priced_first js_lit)
qed

subsection \<open>Availability\<close>

lemma map_set_keys: "fst ` set (map_set m k v) = insert k (fst ` set m)"
proof (cases "map_of m k")
  case None
  then show ?thesis by (simp add: map_set_def)
next
  case (Some v')
  then have "k \<in> fst ` set m" by (metis fst_conv image_eqI map_of_SomeD)
  with Some show ?thesis by (force simp: map_set_def)
qed

lemma map_set_entry: "(k', x) \<in> set (map_set m k v) \<Longrightarrow> (k', x) \<in> set m \<or> k' = k \<and> x = v"
  by (auto simp: map_set_def split: if_splits)

text \<open>Every entry of the merged map stands under the key of its own name.\<close>

definition keyed :: "(jsstr \<Rightarrow> jsstr) \<Rightarrow> (jsstr \<times> pricing_model) list \<Rightarrow> bool" where
  "keyed lower m \<longleftrightarrow> (\<forall>(k, x) \<in> set m. k = modelKey lower (model_name x))"

lemma keyed_map_set: "keyed lower m \<Longrightarrow> modelKey lower (model_name x) = k \<Longrightarrow> keyed lower (map_set m k x)"
  unfolding keyed_def using map_set_entry by fast

lemma keyed_catalog: "keyed lower m \<Longrightarrow> keyed lower (foldl (add_catalog lower) m cs)"
  by (induction cs arbitrary: m) (auto simp: add_catalog_def Let_def keyed_map_set)

lemma merge_model_fields [simp]:
  "model_name (merge_model c m) = model_name m" "enable_groups (merge_model c m) = enable_groups c"
  by (simp_all add: merge_model_def)

lemma keyed_priced: "keyed lower m \<Longrightarrow> keyed lower (foldl (add_priced lower) m ps)"
  by (induction ps arbitrary: m) (auto simp: add_priced_def Let_def keyed_map_set split: option.splits)

text \<open>The groups of an entry under a key of the catalogue are the groups of a catalogue model.\<close>

definition groups_from :: "(jsstr \<Rightarrow> jsstr) \<Rightarrow> pricing_model list \<Rightarrow> (jsstr \<times> pricing_model) list \<Rightarrow> bool" where
  "groups_from lower cs m \<longleftrightarrow>
     (\<forall>k x. (k, x) \<in> set m \<longrightarrow> k \<in> modelKey lower ` model_name ` set cs \<longrightarrow>
        (\<exists>c \<in> set cs. modelKey lower (model_name c) = k \<and> enable_groups x = enable_groups c))"

lemma groups_from_set:
  assumes "groups_from lower cs m"
    and "k \<in> modelKey lower ` model_name ` set cs \<Longrightarrow>
       \<exists>c \<in> set cs. modelKey lower (model_name c) = k \<and> enable_groups x = enable_groups c"
  shows "groups_from lower cs (map_set m k x)"
  unfolding groups_from_def
proof clarify
  fix x' c
  assume "(modelKey lower (model_name c), x') \<in> set (map_set m k x)" and c: "c \<in> set cs"
  from map_set_entry [OF this(1)]
  show "\<exists>c' \<in> set cs. modelKey lower (model_name c') = modelKey lower (model_name c) \<and> enable_groups x' = enable_groups c'"
  proof
    assume "(modelKey lower (model_name c), x') \<in> set m"
    then show ?thesis using assms(1) c unfolding groups_from_def by fastforce
  next
    assume "modelKey lower (model_name c) = k \<and> x' = x"
    then show ?thesis using assms(2) c by blast
  qed
qed

lemma groups_from_catalog:
  "groups_from lower cs m \<Longrightarrow> set ds \<subseteq> set cs \<Longrightarrow> groups_from lower cs (foldl (add_catalog lower) m ds)"
  by (induction ds arbitrary: m) (auto simp: add_catalog_def Let_def intro!: groups_from_set)

lemma catalog_keys:
  "fst ` set (foldl (add_catalog lower) m cs) = fst ` set m \<union> (modelKey lower ` model_name ` set cs - {[]})"
  by (induction cs arbitrary: m) (auto simp: add_catalog_def Let_def map_set_keys)

lemma groups_from_priced:
  assumes "groups_from lower cs m" and "modelKey lower ` model_name ` set cs - {[]} \<subseteq> fst ` set m"
  shows "groups_from lower cs (foldl (add_priced lower) m ps)"
  using assms
proof (induction ps arbitrary: m)
  case (Cons p ps)
  let ?k = "modelKey lower (model_name p)"
  have "groups_from lower cs (add_priced lower m p)"
  proof (cases "?k = []")
    case False
    have "groups_from lower cs (map_set m ?k (case map_of m ?k of Some c \<Rightarrow> merge_model c p | None \<Rightarrow> p))"
    proof (rule groups_from_set [OF Cons.prems(1)])
      assume k: "?k \<in> modelKey lower ` model_name ` set cs"
      then have "?k \<in> fst ` set m" using False Cons.prems(2) by blast
      then obtain c where c: "map_of m ?k = Some c" by (metis domD dom_map_of_conv_image_fst)
      then have "(?k, c) \<in> set m" by (rule map_of_SomeD)
      then have "\<exists>c' \<in> set cs. modelKey lower (model_name c') = ?k \<and> enable_groups c = enable_groups c'"
        using Cons.prems(1) k unfolding groups_from_def by fast
      then show "\<exists>c' \<in> set cs. modelKey lower (model_name c') = ?k \<and>
          enable_groups (case map_of m ?k of Some c \<Rightarrow> merge_model c p | None \<Rightarrow> p) = enable_groups c'"
        using c by (simp add: merge_model_def)
    qed
    with False show ?thesis by (simp add: add_priced_def Let_def)
  qed (use Cons.prems in \<open>simp add: add_priced_def\<close>)
  moreover have "modelKey lower ` model_name ` set cs - {[]} \<subseteq> fst ` set (add_priced lower m p)"
    using Cons.prems(2) by (auto simp: add_priced_def Let_def map_set_keys)
  ultimately show ?case using Cons.IH by simp
qed simp

lemma priced_keys:
  "fst ` set (foldl (add_priced lower) m ps) = fst ` set m \<union> (modelKey lower ` model_name ` set ps - {[]})"
  by (induction ps arbitrary: m) (auto simp: add_priced_def Let_def map_set_keys)

text \<open>The keys of the merged models: every name of the two lists that has one.\<close>

lemma merged_keys:
  "modelKey lower ` model_name ` set (mergePricingModels lower cs ps) =
     modelKey lower ` model_name ` (set cs \<union> set ps) - {[]}"
proof -
  let ?all = "foldl (add_priced lower) (foldl (add_catalog lower) [] cs) ps"
  have "keyed lower ?all" by (intro keyed_priced keyed_catalog) (simp add: keyed_def)
  then have "modelKey lower ` model_name ` snd ` set ?all = fst ` set ?all"
    unfolding image_image by (intro image_cong) (auto simp: keyed_def)
  then show ?thesis by (simp add: mergePricingModels_def priced_keys catalog_keys image_Un Un_Diff)
qed

lemma merged_groups:
  assumes "m \<in> set (mergePricingModels lower cs ps)"
    and "modelKey lower (model_name m) \<in> modelKey lower ` model_name ` set cs"
  shows "\<exists>c \<in> set cs. modelKey lower (model_name c) = modelKey lower (model_name m) \<and>
     enable_groups m = enable_groups c"
proof -
  let ?cat = "foldl (add_catalog lower) [] cs"
  let ?all = "foldl (add_priced lower) ?cat ps"
  obtain k where k: "(k, m) \<in> set ?all" using assms(1) by (auto simp: mergePricingModels_def)
  have "keyed lower ?all" by (intro keyed_priced keyed_catalog) (simp add: keyed_def)
  then have "k = modelKey lower (model_name m)" using k by (auto simp: keyed_def)
  moreover have "groups_from lower cs ?all"
  proof (rule groups_from_priced)
    show "groups_from lower cs ?cat" by (rule groups_from_catalog) (simp_all add: groups_from_def)
    show "modelKey lower ` model_name ` set cs - {[]} \<subseteq> fst ` set ?cat" by (auto simp: catalog_keys)
  qed
  ultimately show ?thesis using k assms(2) unfolding groups_from_def by (blast dest: bspec)
qed

text \<open>
  Billing data alone never makes a model available. Without an explicit list, the names shown
  (up to case and outer white space) are exactly the names of the catalogue models enabled for some
  group, and the groups of a shown model are those of a catalogue model of that name, whatever the
  billing data says; with an explicit list, the names shown are exactly the names on the list that
  the catalogue or the billing data knows.
\<close>

theorem availability_from_catalogue:
  "modelKey lower ` model_name ` set (availablePricingModels lower cs ps None) =
     modelKey lower ` model_name ` {c \<in> set cs. enable_groups c \<noteq> []} - {[]} \<and>
   (\<forall>m \<in> set (availablePricingModels lower cs ps None).
      \<exists>c \<in> set cs. modelKey lower (model_name c) = modelKey lower (model_name m) \<and>
        enable_groups m = enable_groups c) \<and>
   modelKey lower ` model_name ` set (availablePricingModels lower cs ps (Some names)) =
     modelKey lower ` set names \<inter> (modelKey lower ` model_name ` (set cs \<union> set ps) - {[]})"
proof -
  define view where "view ns = filter (\<lambda>m. modelKey lower (model_name m) \<in> modelKey lower ` set ns - {[]})
      (mergePricingModels lower cs ps)" for ns
  let ?enabled = "map model_name (filter (\<lambda>m. enable_groups m \<noteq> []) cs)"
  have set_ns: "set (js_set (filter (\<lambda>k. k \<noteq> []) (map (modelKey lower) ns))) = modelKey lower ` set ns - {[]}" for ns
    by auto
  have eq: "availablePricingModels lower cs ps None = view ?enabled"
      "availablePricingModels lower cs ps (Some names) = view names"
    unfolding availablePricingModels_def Let_def view_def set_ns by simp_all
  have keys: "modelKey lower ` model_name ` set (view ns) =
      modelKey lower ` set ns \<inter> (modelKey lower ` model_name ` (set cs \<union> set ps) - {[]})" for ns
  proof -
    have "f ` {x \<in> A. f x \<in> B - C} = B \<inter> (f ` A - C)" for f :: "pricing_model \<Rightarrow> jsstr" and A B C by auto
    from this [of "\<lambda>m. modelKey lower (model_name m)" "set (mergePricingModels lower cs ps)"
        "modelKey lower ` set ns" "{[]}"]
    show ?thesis using merged_keys [of lower cs ps] by (simp add: view_def image_image)
  qed
  have "\<exists>c \<in> set cs. modelKey lower (model_name c) = modelKey lower (model_name m) \<and>
      enable_groups m = enable_groups c" if "m \<in> set (view ?enabled)" for m
    using that by (intro merged_groups) (auto simp: view_def)
  then show ?thesis unfolding eq keys by auto
qed

theorem availability_from_catalogue_witness:
  "\<exists>c \<in> set [demo_model]. modelKey (\<lambda>s. s) (model_name c) = js ''gpt'' \<and>
     enable_groups demo_model = enable_groups c"
proof -
  have key: "modelKey (\<lambda>s. s) (js ''gpt'') = js ''gpt''"
    by (simp add: modelKey_def trim_no_ws js_lit is_ws_def)
  have "demo_model \<in> set (availablePricingModels (\<lambda>s. s) [demo_model] [] None)"
    using key by (simp add: availablePricingModels_def mergePricingModels_def add_catalog_def map_set_def
        Let_def demo_model_def js_set_def js_add_def)
  with availability_from_catalogue [of "\<lambda>s. s" "[demo_model]" "[]"] show ?thesis
    using key by (metis (no_types, lifting) demo_model_def pricing_model.select_convs(2))
qed

end
