(* ===== verification/JsJson.thy ===== *)
theory JsJson
  imports JsValue
begin

section \<open>Indented JSON text\<close>

text \<open>
  \<open>JSON.stringify(v, null, 2)\<close>: every element and member on a line of its own, indented by two spaces
  per level, and a space behind the colon. Parsing the text gives the value back, as for the text
  without indentation.
\<close>

definition new_line :: "nat \<Rightarrow> jsstr" where
  "new_line n = 10 # replicate (2 * n) 32"

function json_pretty :: "nat \<Rightarrow> jsval \<Rightarrow> jsstr" where
  "json_pretty n JUndef = json_print JUndef"
| "json_pretty n JNull = json_print JNull"
| "json_pretty n (JBool b) = json_print (JBool b)"
| "json_pretty n (JNum x) = json_print (JNum x)"
| "json_pretty n (JStr s) = json_print (JStr s)"
| "json_pretty n (JArr vs) =
     (if vs = [] then [91, 93]
      else [91] @ new_line (Suc n) @ js_join (44 # new_line (Suc n)) (map (json_pretty (Suc n)) vs) @
        new_line n @ [93])"
| "json_pretty n (JObj ps) =
     (let es = filter (\<lambda>(k, v). v \<noteq> JUndef) (obj_entries ps)
      in if es = [] then [123, 125]
         else [123] @ new_line (Suc n) @
           js_join (44 # new_line (Suc n)) (map (\<lambda>(k, v). json_quote k @ [58, 32] @ json_pretty (Suc n) v) es) @
           new_line n @ [125])"
  by pat_completeness auto
termination
proof (relation "measure (\<lambda>(n, v). size v)", goal_cases)
  case (2 n vs v)
  then show ?case by (simp add: less_Suc_eq_le size_list_estimation')
next
  case (3 n ps es x k v)
  then have "(k, v) \<in> set (obj_entries ps)" by auto
  from size_obj_entries [OF this] show ?case by (simp add: size_prod_simp)
qed simp

subsection \<open>White space\<close>

abbreviation json_space :: "jsstr \<Rightarrow> bool" where
  "json_space ws \<equiv> list_all (\<lambda>c. c = 9 \<or> c = 10 \<or> c = 13 \<or> c = 32) ws"

lemma skip_space: "json_space ws \<Longrightarrow> skip_json_ws (ws @ s) = skip_json_ws s"
  by (induction ws) auto

lemma space_new_line [simp]: "json_space (new_line n)"
  by (simp add: new_line_def list_all_iff)

lemma closes_new_line [simp]: "closes (new_line n @ r)"
  by (simp add: new_line_def)

lemmas parser_defs = json_value.simps json_elems.simps json_members.simps

lemma value_space: "json_space ws \<Longrightarrow> json_value (ws @ s) = json_value s"
  by (subst (1 2) json_value.simps) (simp add: skip_space del: parser_defs)

lemma elems_space: "json_space ws \<Longrightarrow> json_elems s = Some x \<Longrightarrow> json_elems (ws @ s) = Some x"
  by (subst json_elems.simps, subst (asm) json_elems.simps)
     (auto simp: value_space split: option.splits if_splits simp del: parser_defs)

lemma members_space: "json_space ws \<Longrightarrow> json_members s = Some x \<Longrightarrow> json_members (ws @ s) = Some x"
  by (subst json_members.simps, subst (asm) json_members.simps)
     (auto simp: skip_space split: option.splits if_splits list.splits simp del: parser_defs)

text \<open>The members of an array or object, separated by commas and white space.\<close>

lemma elems_layout:
  assumes "vs \<noteq> []" and "json_space ws" and "json_space final"
    and "\<And>v r. v \<in> set vs \<Longrightarrow> closes r \<Longrightarrow> json_value (pr v @ r) = Some (v, r)"
    and "\<And>v. v \<in> set vs \<Longrightarrow> pr v \<noteq> []" and "final = [] \<or> hd final = 10"
  shows "json_elems (js_join (44 # ws) (map pr vs) @ final @ 93 # r) = Some (vs, r)"
  using assms
proof (induction vs rule: induct_list012)
  case (2 v)
  have "closes (final @ 93 # r)" using 2(6) by (cases final) (auto simp: closes_def)
  then have "json_value (pr v @ final @ 93 # r) = Some (v, final @ 93 # r)" using 2(4) by simp
  then show ?case using 2(3,5) by (subst json_elems.simps) (simp add: skip_space del: parser_defs)
next
  case (3 v w vs)
  let ?rest = "js_join (44 # ws) (map pr (w # vs)) @ final @ 93 # r"
  have "json_elems ?rest = Some (w # vs, r)" by (rule 3(2)) (use 3(3-) in auto)
  then have "json_elems (ws @ ?rest) = Some (w # vs, r)" by (rule elems_space [OF 3(4)])
  moreover have "json_value (pr v @ 44 # ws @ ?rest) = Some (v, 44 # ws @ ?rest)" using 3(6) by simp
  ultimately show ?case using 3(7) by (subst json_elems.simps) (simp del: parser_defs)
qed simp

lemma members_layout:
  assumes "ps \<noteq> []" and "json_space ws" and "json_space final"
    and "\<And>p. p \<in> set ps \<Longrightarrow> wf_units (fst p)"
    and "\<And>p r. p \<in> set ps \<Longrightarrow> closes r \<Longrightarrow> json_value (pr (snd p) @ r) = Some (snd p, r)"
    and "final = [] \<or> hd final = 10" and "json_space colon"
  shows "json_members (js_join (44 # ws) (map (\<lambda>p. json_quote (fst p) @ 58 # colon @ pr (snd p)) ps) @ final @ 125 # r) =
     Some (ps, r)"
  using assms
proof (induction ps rule: induct_list012)
  case (2 p)
  have "closes (final @ 125 # r)" using 2(6) by (cases final) (auto simp: closes_def)
  then have "json_value (pr (snd p) @ final @ 125 # r) = Some (snd p, final @ 125 # r)" using 2(5) by simp
  moreover have "read_string (quote_units (fst p) @ 34 # t) = Some (fst p, t)" for t
    using 2(4) by (intro read_string_quote) simp
  ultimately show ?case using 2(3,7)
    by (subst json_members.simps) (simp add: json_quote_def skip_space value_space del: parser_defs)
next
  case (3 p q ps)
  let ?rest = "js_join (44 # ws) (map (\<lambda>p. json_quote (fst p) @ 58 # colon @ pr (snd p)) (q # ps)) @ final @ 125 # r"
  have "json_members ?rest = Some (q # ps, r)" by (rule 3(2)) (use 3(3-) in auto)
  then have "json_members (ws @ ?rest) = Some (q # ps, r)" by (rule members_space [OF 3(4)])
  moreover have "json_value (pr (snd p) @ 44 # ws @ ?rest) = Some (snd p, 44 # ws @ ?rest)" using 3(7) by simp
  moreover have "read_string (quote_units (fst p) @ 34 # t) = Some (fst p, t)" for t
    using 3(6) by (intro read_string_quote) simp
  ultimately show ?case using 3(9)
    by (subst json_members.simps) (simp add: json_quote_def value_space del: parser_defs)
qed simp

subsection \<open>Round trip\<close>

lemma pretty_first:
  assumes "plain v"
  shows "\<exists>c cs. json_pretty n v = c # cs \<and> skip_json_ws (c # cs) = c # cs \<and> c \<noteq> 93 \<and> c \<noteq> 125"
  using assms json_print_first [of v] by (cases v) (auto simp: Let_def simp del: json_print.simps)

lemma plain_entries:
  assumes "plain (JObj ps)"
  shows "filter (\<lambda>(k, v). v \<noteq> JUndef) (obj_entries ps) = ps"
proof -
  have "obj_entries ps = ps" using assms by (intro obj_entries_no_index) (auto simp: list_all_iff)
  moreover have "filter (\<lambda>(k, v). v \<noteq> JUndef) ps = ps"
    using assms by (auto simp: list_all_iff filter_id_conv)
  ultimately show ?thesis by simp
qed

lemma value_first:
  assumes "skip_json_ws (c # cs) = c # cs"
  shows "skip_json_ws (new_line n @ c # cs @ r) = c # cs @ r"
  using skip_first [OF assms, of r] by (simp add: skip_space)

lemma json_value_pretty: "plain v \<Longrightarrow> closes r \<Longrightarrow> json_value (json_pretty n v @ r) = Some (v, r)"
proof (induction v arbitrary: n r)
  case (JArr vs)
  show ?case
  proof (cases "vs = []")
    case True
    then show ?thesis by (subst json_value.simps) simp
  next
    case False
    let ?pr = "json_pretty (Suc n)"
    let ?body = "js_join (44 # new_line (Suc n)) (map ?pr vs) @ new_line n @ 93 # r"
    have "json_elems ?body = Some (vs, r)"
    proof (rule elems_layout)
      show "json_value (?pr v @ q) = Some (v, q)" if "v \<in> set vs" "closes q" for v q
        using JArr that by (auto simp: list_all_iff)
      show "?pr v \<noteq> []" if "v \<in> set vs" for v
        using pretty_first [of v "Suc n"] JArr.prems that by (auto simp: list_all_iff)
    qed (use False in \<open>simp_all add: new_line_def list_all_iff\<close>)
    then have el: "json_elems (new_line (Suc n) @ ?body) = Some (vs, r)" by (rule elems_space [OF space_new_line])
    obtain v ws where vs: "vs = v # ws" using False by (cases vs) auto
    then obtain c cs where c: "?pr v = c # cs" "skip_json_ws (c # cs) = c # cs" "c \<noteq> 93"
      using pretty_first [of v "Suc n"] JArr.prems by auto
    obtain t where t: "?body = c # cs @ t" using vs c(1) by (cases ws) auto
    then have "skip_json_ws (new_line (Suc n) @ ?body) = c # cs @ t" using value_first [OF c(2)] by simp
    moreover have "json_pretty n (JArr vs) @ r = 91 # new_line (Suc n) @ ?body" using False by simp
    ultimately show ?thesis using c(3) el by (subst json_value.simps) (simp del: parser_defs json_pretty.simps)
  qed
next
  case (JObj ps)
  show ?case
  proof (cases "ps = []")
    case True
    then show ?thesis by (subst json_value.simps) (simp add: obj_entries_def Let_def)
  next
    case False
    let ?pr = "json_pretty (Suc n)"
    let ?member = "\<lambda>p. json_quote (fst p) @ 58 # [32] @ ?pr (snd p)"
    let ?body = "js_join (44 # new_line (Suc n)) (map ?member ps) @ new_line n @ 125 # r"
    have "json_members ?body = Some (ps, r)"
    proof (rule members_layout)
      show "json_value (?pr (snd p) @ q) = Some (snd p, q)" if "p \<in> set ps" "closes q" for p q
        using JObj that by (auto simp: list_all_iff snds.simps prod_set_defs)
      show "wf_units (fst p)" if "p \<in> set ps" for p using JObj.prems that by (auto simp: list_all_iff)
    qed (use False in \<open>simp_all add: new_line_def list_all_iff\<close>)
    then have mem: "json_members (new_line (Suc n) @ ?body) = Some (ps, r)" by (rule members_space [OF space_new_line])
    obtain t where "?body = 34 # t"
      using False by (cases ps rule: list.exhaust; cases "tl ps") (auto simp: json_quote_def)
    then have "skip_json_ws (new_line (Suc n) @ ?body) = 34 # t" by (simp add: skip_space)
    moreover have "foldl obj_put [] ps = ps" using JObj.prems obj_put_fresh [of "[]" ps] by simp
    moreover have "json_pretty n (JObj ps) @ r = 123 # new_line (Suc n) @ ?body"
      using False plain_entries [OF JObj.prems(1)] by (simp add: Let_def case_prod_beta')
    ultimately show ?thesis using mem by (subst json_value.simps) (simp del: parser_defs json_pretty.simps)
  qed
qed (auto intro: json_value_print simp del: parser_defs json_print.simps)

theorem json_pretty_roundtrip: "plain v \<Longrightarrow> json_parse (json_pretty n v) = Some v"
  using json_value_pretty [of v "[]" n] by (simp add: json_parse_def del: parser_defs)

end
