(* ===== verification/ParamOverride.thy ===== *)
theory ParamOverride
  imports JsJson JsObject
begin

section \<open>Parameter overrides of a channel: the rules and their text\<close>

text \<open>
  The first half of \<open>features/channels/components/dialogs/param-override-editor-dialog.tsx\<close>: the
  tables of modes, the reading of the saved JSON text into the operations the editor shows, their
  validation, and the text that is saved. Identifiers come from the module's counter (\<open>localIdSeed\<close>),
  which is threaded through; \<open>clock n\<close> is the time at the \<open>n\<close>-th identifier. A property read on \<open>null\<close>,
  which throws, is \<open>None\<close>.
\<close>

subsection \<open>Data\<close>

record override_condition =
  c_id :: jsstr
  c_path :: jsstr
  c_mode :: jsstr
  c_value_text :: jsstr
  c_invert :: bool
  c_pass_missing_key :: bool

record override_operation =
  op_id :: jsstr
  op_description :: jsstr
  op_path :: jsstr
  op_mode :: jsstr
  op_from :: jsstr
  op_to :: jsstr
  op_value_text :: jsstr
  op_keep_origin :: bool
  op_logic :: jsstr
  op_conditions :: "override_condition list"

record mode_meta =
  m_path :: bool
  m_pathOptional :: bool
  m_value :: bool
  m_from :: bool
  m_to :: bool
  m_keepOrigin :: bool
  m_pathAlias :: bool

definition meta :: "string list \<Rightarrow> mode_meta" where
  "meta fs = \<lparr>m_path = (''path'' \<in> set fs), m_pathOptional = (''pathOptional'' \<in> set fs),
     m_value = (''value'' \<in> set fs), m_from = (''from'' \<in> set fs), m_to = (''to'' \<in> set fs),
     m_keepOrigin = (''keepOrigin'' \<in> set fs), m_pathAlias = (''pathAlias'' \<in> set fs)\<rparr>"

subsection \<open>Tables\<close>

definition OPERATION_MODE_OPTIONS :: "(jsstr \<times> jsstr) list" where
  "OPERATION_MODE_OPTIONS =
    [(js ''Set Field'', js ''set''),
     (js ''Delete Field'', js ''delete''),
     (js ''Append to End'', js ''append''),
     (js ''Prepend to Start'', js ''prepend''),
     (js ''Copy Field'', js ''copy''),
     (js ''Move Field'', js ''move''),
     (js ''String Replace'', js ''replace''),
     (js ''Regex Replace'', js ''regex_replace''),
     (js ''Trim Prefix'', js ''trim_prefix''),
     (js ''Trim Suffix'', js ''trim_suffix''),
     (js ''Ensure Prefix'', js ''ensure_prefix''),
     (js ''Ensure Suffix'', js ''ensure_suffix''),
     (js ''Trim Space'', js ''trim_space''),
     (js ''To Lowercase'', js ''to_lower''),
     (js ''To Uppercase'', js ''to_upper''),
     (js ''Return Custom Error'', js ''return_error''),
     (js ''Prune Object Items'', js ''prune_objects''),
     (js ''Pass Through Headers'', js ''pass_headers''),
     (js ''Sync Fields'', js ''sync_fields''),
     (js ''Set Request Header'', js ''set_header''),
     (js ''Delete Request Header'', js ''delete_header''),
     (js ''Copy Request Header'', js ''copy_header''),
     (js ''Move Request Header'', js ''move_header'')]"

definition CONDITION_MODE_OPTIONS :: "(jsstr \<times> jsstr) list" where
  "CONDITION_MODE_OPTIONS =
    [(js ''Exact Match'', js ''full''),
     (js ''Prefix'', js ''prefix''),
     (js ''Suffix'', js ''suffix''),
     (js ''Contains'', js ''contains''),
     (js ''Greater Than'', js ''gt''),
     (js ''Greater Than or Equal'', js ''gte''),
     (js ''Less Than'', js ''lt''),
     (js ''Less Than or Equal'', js ''lte'')]"

definition SYNC_TARGET_TYPE_OPTIONS :: "(jsstr \<times> jsstr) list" where
  "SYNC_TARGET_TYPE_OPTIONS =
    [(js ''Request Body Field'', js ''json''),
     (js ''Request Header Field'', js ''header'')]"

definition MODE_META :: "(jsstr \<times> mode_meta) list" where
  "MODE_META =
    [(js ''delete'', meta [''path'']),
     (js ''set'', meta [''path'', ''value'', ''keepOrigin'']),
     (js ''append'', meta [''path'', ''value'', ''keepOrigin'']),
     (js ''prepend'', meta [''path'', ''value'', ''keepOrigin'']),
     (js ''copy'', meta [''from'', ''to'']),
     (js ''move'', meta [''from'', ''to'']),
     (js ''replace'', meta [''path'', ''from'']),
     (js ''regex_replace'', meta [''path'', ''from'']),
     (js ''trim_prefix'', meta [''path'', ''value'']),
     (js ''trim_suffix'', meta [''path'', ''value'']),
     (js ''ensure_prefix'', meta [''path'', ''value'']),
     (js ''ensure_suffix'', meta [''path'', ''value'']),
     (js ''trim_space'', meta [''path'']),
     (js ''to_lower'', meta [''path'']),
     (js ''to_upper'', meta [''path'']),
     (js ''return_error'', meta [''value'']),
     (js ''prune_objects'', meta [''pathOptional'', ''value'']),
     (js ''pass_headers'', meta [''value'', ''keepOrigin'']),
     (js ''sync_fields'', meta [''from'', ''to'']),
     (js ''set_header'', meta [''path'', ''value'', ''keepOrigin'']),
     (js ''delete_header'', meta [''path'']),
     (js ''copy_header'', meta [''from'', ''to'', ''keepOrigin'', ''pathAlias'']),
     (js ''move_header'', meta [''from'', ''to'', ''keepOrigin'', ''pathAlias''])]"

definition VALUE_REQUIRED_MODES :: "jsstr list" where
  "VALUE_REQUIRED_MODES = map js
    [''trim_prefix'', ''trim_suffix'', ''ensure_prefix'', ''ensure_suffix'', ''set_header'', ''return_error'', ''prune_objects'', ''pass_headers'']"

definition FROM_REQUIRED_MODES :: "jsstr list" where
  "FROM_REQUIRED_MODES = map js
    [''copy'', ''move'', ''replace'', ''regex_replace'', ''copy_header'', ''move_header'', ''sync_fields'']"

definition TO_REQUIRED_MODES :: "jsstr list" where
  "TO_REQUIRED_MODES = map js
    [''copy'', ''move'', ''copy_header'', ''move_header'', ''sync_fields'']"

definition MODE_DESCRIPTIONS :: "(jsstr \<times> jsstr) list" where
  "MODE_DESCRIPTIONS =
    [(js ''set'', js ''Write value to the target field''),
     (js ''delete'', js ''Remove the target field''),
     (js ''append'', js ''Append value to array / string / object end''),
     (js ''prepend'', js ''Prepend value to array / string / object start''),
     (js ''copy'', js ''Copy source field to target field''),
     (js ''move'', js ''Move source field to target field''),
     (js ''replace'', js ''Do string replacement in the target field''),
     (js ''regex_replace'', js ''Do regex replacement in the target field''),
     (js ''trim_prefix'', js ''Remove string prefix''),
     (js ''trim_suffix'', js ''Remove string suffix''),
     (js ''ensure_prefix'', js ''Ensure the string has a specified prefix''),
     (js ''ensure_suffix'', js ''Ensure the string has a specified suffix''),
     (js ''trim_space'', js ''Trim leading/trailing whitespace''),
     (js ''to_lower'', js ''Convert string to lowercase''),
     (js ''to_upper'', js ''Convert string to uppercase''),
     (js ''return_error'', js ''Return a custom error immediately''),
     (js ''prune_objects'', js ''Prune object items by conditions''),
     (js ''pass_headers'', js ''Pass specified request headers to upstream''),
     (js ''sync_fields'', js ''Auto-fill when one field exists and another is missing''),
     (js ''set_header'', js ''Set runtime request header: override entire value, or manipulate comma-separated tokens''),
     (js ''delete_header'', js ''Delete a runtime request header''),
     (js ''copy_header'', js ''Copy a request header''),
     (js ''move_header'', js ''Move a request header'')]"

definition CODEX_CLI_HEADER_PASSTHROUGH_HEADERS :: "jsstr list" where
  "CODEX_CLI_HEADER_PASSTHROUGH_HEADERS = map js
    [''Originator'', ''Session_id'', ''User-Agent'', ''X-Codex-Beta-Features'', ''X-Codex-Turn-Metadata'']"

definition CLAUDE_CLI_HEADER_PASSTHROUGH_HEADERS :: "jsstr list" where
  "CLAUDE_CLI_HEADER_PASSTHROUGH_HEADERS = map js
    [''X-Stainless-Arch'', ''X-Stainless-Lang'', ''X-Stainless-Os'', ''X-Stainless-Package-Version'', ''X-Stainless-Retry-Count'', ''X-Stainless-Runtime'', ''X-Stainless-Runtime-Version'', ''X-Stainless-Timeout'', ''User-Agent'', ''X-App'', ''Anthropic-Beta'', ''Anthropic-Dangerous-Direct-Browser-Access'', ''Anthropic-Version'']"

definition BEDROCK_BETA_TOKENS :: "(jsstr \<times> jsval) list" where
  "BEDROCK_BETA_TOKENS =
    [(js ''advanced-tool-use-2025-11-20'', JStr (js ''tool-search-tool-2025-10-19'')),
     (js ''bash_20241022'', JNull),
     (js ''bash_20250124'', JNull),
     (js ''code-execution-2025-08-25'', JNull),
     (js ''compact-2026-01-12'', JStr (js ''compact-2026-01-12'')),
     (js ''computer-use-2025-01-24'', JStr (js ''computer-use-2025-01-24'')),
     (js ''computer-use-2025-11-24'', JStr (js ''computer-use-2025-11-24'')),
     (js ''context-1m-2025-08-07'', JStr (js ''context-1m-2025-08-07'')),
     (js ''context-management-2025-06-27'', JStr (js ''context-management-2025-06-27'')),
     (js ''effort-2025-11-24'', JNull),
     (js ''fast-mode-2026-02-01'', JNull),
     (js ''files-api-2025-04-14'', JNull),
     (js ''fine-grained-tool-streaming-2025-05-14'', JNull),
     (js ''interleaved-thinking-2025-05-14'', JStr (js ''interleaved-thinking-2025-05-14'')),
     (js ''mcp-client-2025-11-20'', JNull),
     (js ''mcp-client-2025-04-04'', JNull),
     (js ''mcp-servers-2025-12-04'', JNull),
     (js ''output-128k-2025-02-19'', JNull),
     (js ''structured-output-2024-03-01'', JNull),
     (js ''prompt-caching-scope-2026-01-05'', JNull),
     (js ''skills-2025-10-02'', JNull),
     (js ''structured-outputs-2025-11-13'', JNull),
     (js ''text_editor_20241022'', JNull),
     (js ''text_editor_20250124'', JNull),
     (js ''token-efficient-tools-2025-02-19'', JNull),
     (js ''tool-search-tool-2025-10-19'', JStr (js ''tool-search-tool-2025-10-19'')),
     (js ''web-fetch-2025-09-10'', JNull),
     (js ''web-search-2025-03-05'', JNull),
     (js ''oauth-2025-04-20'', JNull)]"

definition OPERATION_MODE_VALUES :: "jsstr list" where
  "OPERATION_MODE_VALUES = map snd OPERATION_MODE_OPTIONS"

definition CONDITION_MODE_VALUES :: "jsstr list" where
  "CONDITION_MODE_VALUES = map snd CONDITION_MODE_OPTIONS"

definition OPERATION_MODE_LABEL_MAP :: "jsstr \<Rightarrow> jsstr option" where
  "OPERATION_MODE_LABEL_MAP mode = map_of (map prod.swap OPERATION_MODE_OPTIONS) mode"

definition meta_of :: "jsstr \<Rightarrow> mode_meta" where
  "meta_of mode =
     (case map_of MODE_META mode of Some m \<Rightarrow> m | None \<Rightarrow> the (map_of MODE_META (js ''set'')))"

subsection \<open>Templates\<close>

definition operations_object :: "jsval list \<Rightarrow> jsval" where
  "operations_object ops = JObj [(js ''operations'', JArr ops)]"

definition condition_object :: "string \<Rightarrow> string \<Rightarrow> string \<Rightarrow> jsval" where
  "condition_object path mode v =
     JObj [(js ''path'', JStr (js path)), (js ''mode'', JStr (js mode)), (js ''value'', JStr (js v))]"

definition LEGACY_TEMPLATE :: jsval where
  "LEGACY_TEMPLATE = JObj [(js ''temperature'', JNum (num_int 0)), (js ''max_tokens'', JNum (num_int 1000))]"

definition OPERATION_TEMPLATE :: jsval where
  "OPERATION_TEMPLATE = operations_object
     [JObj [(js ''description'', JStr (js ''Set default temperature for openai/* models.'')),
        (js ''path'', JStr (js ''temperature'')), (js ''mode'', JStr (js ''set'')),
        (js ''value'', JNum (fl (7 / 10))),
        (js ''conditions'', JArr [condition_object ''model'' ''prefix'' ''openai/'']),
        (js ''logic'', JStr (js ''AND''))]]"

definition HEADER_PASSTHROUGH_TEMPLATE :: jsval where
  "HEADER_PASSTHROUGH_TEMPLATE = operations_object
     [JObj [(js ''description'', JStr (js ''Pass through X-Request-Id header to upstream.'')),
        (js ''mode'', JStr (js ''pass_headers'')), (js ''value'', JArr [JStr (js ''X-Request-Id'')]),
        (js ''keep_origin'', JBool True)]]"

definition GEMINI_IMAGE_4K_TEMPLATE :: jsval where
  "GEMINI_IMAGE_4K_TEMPLATE = operations_object
     [JObj [(js ''description'',
           JStr (js ''Set imageSize to 4K when model contains gemini/image and ends with 4k.'')),
        (js ''mode'', JStr (js ''set'')), (js ''path'', JStr (js ''generationConfig.imageConfig.imageSize'')),
        (js ''value'', JStr (js ''4K'')),
        (js ''conditions'', JArr [condition_object ''original_model'' ''contains'' ''gemini'',
           condition_object ''original_model'' ''contains'' ''image'',
           condition_object ''original_model'' ''suffix'' ''4k'']),
        (js ''logic'', JStr (js ''AND''))]]"

definition buildPassHeadersTemplate :: "jsstr list \<Rightarrow> jsval" where
  "buildPassHeadersTemplate headers = operations_object
     [JObj [(js ''mode'', JStr (js ''pass_headers'')), (js ''value'', JArr (map JStr headers)),
        (js ''keep_origin'', JBool True)]]"

definition AWS_BEDROCK_ANTHROPIC_COMPAT_TEMPLATE :: jsval where
  "AWS_BEDROCK_ANTHROPIC_COMPAT_TEMPLATE = operations_object
     [JObj [(js ''description'', JStr (js ''Normalize anthropic-beta header tokens for Bedrock compatibility.'')),
        (js ''mode'', JStr (js ''set_header'')), (js ''path'', JStr (js ''anthropic-beta'')),
        (js ''value'', JObj BEDROCK_BETA_TOKENS)],
      JObj [(js ''description'', JStr (js ''Remove all tools[*].custom.input_examples before upstream relay.'')),
        (js ''mode'', JStr (js ''delete'')), (js ''path'', JStr (js ''tools.*.custom.input_examples''))]]"

record template_preset =
  preset_label :: jsstr
  preset_legacy :: bool
  preset_payload :: jsval

definition TEMPLATE_PRESET_CONFIG :: "(jsstr \<times> template_preset) list" where
  "TEMPLATE_PRESET_CONFIG =
    [(js ''operations_default'', \<lparr>preset_label = js ''New Format Template'', preset_legacy = False,
        preset_payload = OPERATION_TEMPLATE\<rparr>),
     (js ''legacy_default'', \<lparr>preset_label = js ''Legacy Format Template'', preset_legacy = True,
        preset_payload = LEGACY_TEMPLATE\<rparr>),
     (js ''pass_headers_auth'', \<lparr>preset_label = js ''Header Passthrough (X-Request-Id)'', preset_legacy = False,
        preset_payload = HEADER_PASSTHROUGH_TEMPLATE\<rparr>),
     (js ''gemini_image_4k'', \<lparr>preset_label = js ''Gemini Image 4K'', preset_legacy = False,
        preset_payload = GEMINI_IMAGE_4K_TEMPLATE\<rparr>),
     (js ''claude_cli_headers_passthrough'', \<lparr>preset_label = js ''Claude CLI Header Passthrough'',
        preset_legacy = False, preset_payload = buildPassHeadersTemplate CLAUDE_CLI_HEADER_PASSTHROUGH_HEADERS\<rparr>),
     (js ''codex_cli_headers_passthrough'', \<lparr>preset_label = js ''Codex CLI Header Passthrough'',
        preset_legacy = False, preset_payload = buildPassHeadersTemplate CODEX_CLI_HEADER_PASSTHROUGH_HEADERS\<rparr>),
     (js ''aws_bedrock_anthropic_beta_override'', \<lparr>preset_label = js ''AWS Bedrock Claude Compat'',
        preset_legacy = False, preset_payload = AWS_BEDROCK_ANTHROPIC_COMPAT_TEMPLATE\<rparr>)]"

subsection \<open>Values as text\<close>

definition nextLocalId :: "(nat \<Rightarrow> int) \<Rightarrow> nat \<Rightarrow> jsstr" where
  "nextLocalId clock n = js ''po_'' @ int_str (clock n) @ js ''_'' @ int_str (int n)"

definition toValueText :: "jsval \<Rightarrow> jsstr" where
  "toValueText v = (case v of JUndef \<Rightarrow> [] | JStr s \<Rightarrow> s | _ \<Rightarrow> json_print v)"

definition parseLooseValue :: "jsstr \<Rightarrow> jsval" where
  "parseLooseValue valueText =
     (let raw = trim valueText
      in if raw = [] then JStr [] else case json_parse raw of Some v \<Rightarrow> v | None \<Rightarrow> JStr raw)"

definition verifyJSON :: "jsstr \<Rightarrow> bool" where
  "verifyJSON s \<longleftrightarrow> json_parse s \<noteq> None"

text \<open>\<open>String(v || d).toUpperCase() === w\<close> for an ASCII word: only ASCII letters have the upper case
  letters of the words compared here.\<close>

definition upper_unit :: "code_unit \<Rightarrow> code_unit" where
  "upper_unit c = (if 97 \<le> c \<and> c \<le> 122 then c - 32 else c)"

definition word_is :: "jsval \<Rightarrow> string \<Rightarrow> string \<Rightarrow> bool" where
  "word_is v d w \<longleftrightarrow> map upper_unit (if truthy v then to_str v else js d) = js w"

definition condition_mode :: "jsval \<Rightarrow> jsstr" where
  "condition_mode v =
     (case v of JStr s \<Rightarrow> if s \<in> set CONDITION_MODE_VALUES then s else js ''full'' | _ \<Rightarrow> js ''full'')"

definition operation_mode :: "jsval \<Rightarrow> jsstr" where
  "operation_mode v =
     (case v of JStr s \<Rightarrow> if s \<in> set OPERATION_MODE_VALUES then s else js ''set'' | _ \<Rightarrow> js ''set'')"

subsection \<open>From JSON to rules\<close>

definition normalizeOverrideCondition ::
  "(nat \<Rightarrow> int) \<Rightarrow> nat \<Rightarrow> jsval \<Rightarrow> (override_condition \<times> nat) option" where
  "normalizeOverrideCondition clock n v =
     (if is_nullish v then None
      else Some (\<lparr>c_id = nextLocalId clock n, c_path = str_prop v ''path'',
          c_mode = condition_mode (obj_get v (js ''mode'')), c_value_text = toValueText (obj_get v (js ''value'')),
          c_invert = true_prop v ''invert'', c_pass_missing_key = true_prop v ''pass_missing_key''\<rparr>, Suc n))"

text \<open>\<open>Array.map\<close> with the counter.\<close>

fun normalize_list :: "(nat \<Rightarrow> jsval \<Rightarrow> ('a \<times> nat) option) \<Rightarrow> nat \<Rightarrow> jsval list \<Rightarrow> ('a list \<times> nat) option" where
  "normalize_list f n [] = Some ([], n)"
| "normalize_list f n (v # vs) =
     (case f n v of
        None \<Rightarrow> None
      | Some (x, n') \<Rightarrow>
        (case normalize_list f n' vs of None \<Rightarrow> None | Some (xs, n'') \<Rightarrow> Some (x # xs, n'')))"

definition normalizeOperation ::
  "(nat \<Rightarrow> int) \<Rightarrow> nat \<Rightarrow> jsval \<Rightarrow> (override_operation \<times> nat) option" where
  "normalizeOperation clock n v =
     (if is_nullish v then None
      else case normalize_list (normalizeOverrideCondition clock) (Suc n) (arr_of (obj_get v (js ''conditions''))) of
        None \<Rightarrow> None
      | Some (conds, n') \<Rightarrow>
        Some (\<lparr>op_id = nextLocalId clock n, op_description = str_prop v ''description'',
            op_path = str_prop v ''path'', op_mode = operation_mode (obj_get v (js ''mode'')),
            op_from = str_prop v ''from'', op_to = str_prop v ''to'',
            op_value_text = toValueText (obj_get v (js ''value'')),
            op_keep_origin = true_prop v ''keep_origin'',
            op_logic = (if word_is (obj_get v (js ''logic'')) ''OR'' ''AND'' then js ''AND'' else js ''OR''),
            op_conditions = conds\<rparr>, n'))"

definition createDefaultOperation :: "(nat \<Rightarrow> int) \<Rightarrow> nat \<Rightarrow> override_operation \<times> nat" where
  "createDefaultOperation clock n = the (normalizeOperation clock n (JObj [(js ''mode'', JStr (js ''set''))]))"

definition createDefaultCondition :: "(nat \<Rightarrow> int) \<Rightarrow> nat \<Rightarrow> override_condition \<times> nat" where
  "createDefaultCondition clock n = the (normalizeOverrideCondition clock n (JObj []))"

subsection \<open>Lists of rules\<close>

fun find_op :: "override_operation list \<Rightarrow> jsstr \<Rightarrow> nat option" where
  "find_op [] i = None"
| "find_op (x # xs) i = (if op_id x = i then Some 0 else map_option Suc (find_op xs i))"

definition reorderOperations ::
  "override_operation list \<Rightarrow> jsstr \<Rightarrow> jsstr \<Rightarrow> bool \<Rightarrow> override_operation list" where
  "reorderOperations ops sourceId targetId after =
     (if sourceId = [] \<or> targetId = [] \<or> sourceId = targetId then ops
      else case find_op ops sourceId of
        None \<Rightarrow> ops
      | Some src \<Rightarrow>
        (let rest = take src ops @ drop (Suc src) ops
         in case find_op rest targetId of
              None \<Rightarrow> ops
            | Some i \<Rightarrow> (let j = (if after then Suc i else i) in take j rest @ ops ! src # drop j rest)))"

definition condition_used :: "override_condition \<Rightarrow> bool" where
  "condition_used c \<longleftrightarrow> trim (c_path c) \<noteq> [] \<or> trim (c_value_text c) \<noteq> [] \<or> c_mode c \<noteq> js ''full'' \<or>
     c_invert c \<or> c_pass_missing_key c"

definition isOperationBlank :: "override_operation \<Rightarrow> bool" where
  "isOperationBlank op \<longleftrightarrow>
     op_mode op = js ''set'' \<and> trim (op_path op) = [] \<and> trim (op_from op) = [] \<and> trim (op_to op) = [] \<and>
     trim (op_value_text op) = [] \<and> \<not> op_keep_origin op \<and> \<not> list_ex condition_used (op_conditions op)"

definition or_else_text :: "jsstr list \<Rightarrow> jsstr" where
  "or_else_text ss = (case filter (\<lambda>s. s \<noteq> []) ss of s # _ \<Rightarrow> s | [] \<Rightarrow> js ''-'')"

definition getOperationSummary :: "override_operation \<Rightarrow> nat \<Rightarrow> jsstr" where
  "getOperationSummary op index =
     (let mode = (if op_mode op = [] then js ''set'' else op_mode op);
          modeLabel = (case OPERATION_MODE_LABEL_MAP mode of Some l \<Rightarrow> if l = [] then mode else l | None \<Rightarrow> mode);
          path = trim (op_path op); from = trim (op_from op); to = trim (op_to op)
      in int_str (int index + 1) @ js ''. '' @ modeLabel @ [32, 183, 32] @
         or_else_text (if mode = js ''sync_fields'' then [from, to] else [path, from, to]))"

subsection \<open>Labels\<close>

definition getModeTagTailwind :: "jsstr \<Rightarrow> jsstr" where
  "getModeTagTailwind mode =
     (let has = (\<lambda>w. js_index mode (js w) \<noteq> None)
      in if has ''header'' then js ''bg-cyan-500/15 text-cyan-700 dark:text-cyan-300 border-cyan-500/20''
         else if has ''replace'' \<or> has ''trim''
           then js ''bg-violet-500/15 text-violet-700 dark:text-violet-300 border-violet-500/20''
         else if has ''copy'' \<or> has ''move'' then js ''bg-blue-500/15 text-blue-700 dark:text-blue-300 border-blue-500/20''
         else if has ''error'' \<or> has ''prune'' then js ''bg-red-500/15 text-red-700 dark:text-red-300 border-red-500/20''
         else if has ''sync'' then js ''bg-green-500/15 text-green-700 dark:text-green-300 border-green-500/20''
         else js ''bg-muted text-muted-foreground'')"

definition getModePathLabel :: "jsstr \<Rightarrow> jsstr" where
  "getModePathLabel mode =
     (if mode = js ''set_header'' \<or> mode = js ''delete_header'' then js ''Header Name''
      else if mode = js ''prune_objects'' then js ''Target Path (optional)'' else js ''Target Field Path'')"

definition getModePathPlaceholder :: "jsstr \<Rightarrow> jsstr" where
  "getModePathPlaceholder mode =
     (if mode = js ''set_header'' then js ''Authorization''
      else if mode = js ''delete_header'' then js ''X-Debug-Mode''
      else if mode = js ''prune_objects'' then js ''messages'' else js ''temperature'')"

definition getModeFromLabel :: "jsstr \<Rightarrow> jsstr" where
  "getModeFromLabel mode =
     (if mode = js ''replace'' then js ''Match Text''
      else if mode = js ''regex_replace'' then js ''Regex Pattern''
      else if mode = js ''copy_header'' \<or> mode = js ''move_header'' then js ''Source Header'' else js ''Source Field'')"

definition getModeFromPlaceholder :: "jsstr \<Rightarrow> jsstr" where
  "getModeFromPlaceholder mode =
     (if mode = js ''replace'' then js ''openai/''
      else if mode = js ''regex_replace'' then js ''^gpt-''
      else if mode = js ''copy_header'' \<or> mode = js ''move_header'' then js ''Authorization'' else js ''model'')"

definition getModeToLabel :: "jsstr \<Rightarrow> jsstr" where
  "getModeToLabel mode =
     (if mode = js ''replace'' \<or> mode = js ''regex_replace'' then js ''Replace With''
      else if mode = js ''copy_header'' \<or> mode = js ''move_header'' then js ''Target Header'' else js ''Target Field'')"

definition getModeToPlaceholder :: "jsstr \<Rightarrow> jsstr" where
  "getModeToPlaceholder mode =
     (if mode = js ''replace'' then js ''(leave empty to delete)''
      else if mode = js ''regex_replace'' then js ''openai/gpt-''
      else if mode = js ''copy_header'' \<or> mode = js ''move_header'' then js ''X-Upstream-Auth''
      else js ''original_model'')"

definition affix_modes :: "jsstr list" where
  "affix_modes = map js [''trim_prefix'', ''trim_suffix'', ''ensure_prefix'', ''ensure_suffix'']"

definition getModeValueLabel :: "jsstr \<Rightarrow> jsstr" where
  "getModeValueLabel mode =
     (if mode = js ''set_header'' then js ''Header Value (supports string or JSON mapping)''
      else if mode = js ''pass_headers'' then js ''Pass-through Headers (comma-separated or JSON array)''
      else if mode \<in> set affix_modes then js ''Prefix/Suffix Text''
      else if mode = js ''prune_objects'' then js ''Prune Rule (string or JSON object)''
      else js ''Value (supports JSON or plain text)'')"

definition getModeValuePlaceholder :: "jsstr \<Rightarrow> jsstr" where
  "getModeValuePlaceholder mode =
     (if mode = js ''set_header'' then js ''Bearer sk-xxx''
      else if mode = js ''pass_headers'' then js ''Authorization, X-Request-Id''
      else if mode \<in> set affix_modes then js ''openai/''
      else if mode = js ''prune_objects'' then js ''{\"type\":\"redacted_thinking\"}''
      else js ''0.7'')"

subsection \<open>Targets of \<open>sync_fields\<close>\<close>

definition parseSyncTargetSpec :: "jsstr \<Rightarrow> bool \<times> jsstr" where
  "parseSyncTargetSpec spec =
     (let raw = trim spec
      in if raw = [] then (False, [])
         else case js_index raw [58] of
           None \<Rightarrow> (False, raw)
         | Some i \<Rightarrow>
           (let pre = map lower_unit (trim (take i raw)); key = trim (drop (Suc i) raw)
            in (pre = js ''header'', key)))"

definition buildSyncTargetSpec :: "bool \<Rightarrow> jsstr \<Rightarrow> jsstr" where
  "buildSyncTargetSpec header key =
     (let k = trim key in if k = [] then [] else (if header then js ''header'' else js ''json'') @ [58] @ k)"

subsection \<open>Values of \<open>return_error\<close>\<close>

record return_error_draft =
  re_message :: jsstr
  re_statusCode :: jsnum
  re_code :: jsstr
  re_type :: jsstr
  re_skipRetry :: bool
  re_simpleMode :: bool

definition return_error_default :: return_error_draft where
  "return_error_default = \<lparr>re_message = [], re_statusCode = num_int 400, re_code = [], re_type = [],
     re_skipRetry = True, re_simpleMode = True\<rparr>"

definition text_or_empty :: "jsval \<Rightarrow> jsstr" where
  "text_or_empty v = trim (if truthy v then to_str v else [])"

definition http_status :: "jsnum \<Rightarrow> jsnum" where
  "http_status x = (if is_integer x \<and> num_le (num_int 100) x \<and> num_le x (num_int 599) then x else num_int 400)"

definition parseReturnErrorDraft :: "jsstr \<Rightarrow> return_error_draft" where
  "parseReturnErrorDraft valueText =
     (let raw = trim valueText
      in if raw = [] then return_error_default
         else case json_parse raw of
           Some (JObj ps) \<Rightarrow>
             (let parsed = JObj ps; status = obj_get parsed (js ''status_code'');
                  statusRaw = (if status \<noteq> JUndef then status else obj_get parsed (js ''status''));
                  message = obj_get parsed (js ''message'')
              in \<lparr>re_message = text_or_empty (if truthy message then message else obj_get parsed (js ''msg'')),
                  re_statusCode = http_status (to_num statusRaw),
                  re_code = text_or_empty (obj_get parsed (js ''code'')),
                  re_type = text_or_empty (obj_get parsed (js ''type'')),
                  re_skipRetry = (obj_get parsed (js ''skip_retry'') \<noteq> JBool False), re_simpleMode = False\<rparr>)
         | _ \<Rightarrow> return_error_default\<lparr>re_message := raw\<rparr>)"

definition buildReturnErrorValueText :: "return_error_draft \<Rightarrow> jsstr" where
  "buildReturnErrorValueText draft =
     (let message = trim (re_message draft); code = trim (re_code draft); type = trim (re_type draft)
      in if re_simpleMode draft then message
         else json_print (JObj (put_if (\<not> re_skipRetry draft) ''skip_retry'' (JBool False)
           (put_if (type \<noteq> []) ''type'' (JStr type)
           (put_if (code \<noteq> []) ''code'' (JStr code)
             [(js ''message'', JStr message), (js ''status_code'', JNum (http_status (re_statusCode draft)))])))))"

subsection \<open>Values of \<open>prune_objects\<close>\<close>

text \<open>\<open>PruneRule\<close> has the fields of a condition, and \<open>normalizePruneRule\<close> the body of
  \<open>normalizeCondition\<close>.\<close>

record prune_draft =
  pd_simpleMode :: bool
  pd_typeText :: jsstr
  pd_logic :: jsstr
  pd_recursive :: bool
  pd_rules :: "override_condition list"

definition normalizePruneRule ::
  "(nat \<Rightarrow> int) \<Rightarrow> nat \<Rightarrow> jsval \<Rightarrow> (override_condition \<times> nat) option" where
  "normalizePruneRule clock n v = normalizeOverrideCondition clock n v"

definition where_rule :: "jsstr \<times> jsval \<Rightarrow> jsval" where
  "where_rule p = JObj [(js ''path'', JStr (fst p)), (js ''mode'', JStr (js ''full'')), (js ''value'', snd p)]"

text \<open>The objects the rules are made of: the members of \<open>where\<close>, then the elements (those that are
  objects) or the members of \<open>conditions\<close>.\<close>

definition is_object_val :: "jsval \<Rightarrow> bool" where
  "is_object_val v \<longleftrightarrow> (case v of JArr _ \<Rightarrow> True | JObj _ \<Rightarrow> True | _ \<Rightarrow> False)"

definition member_rules :: "jsval \<Rightarrow> jsval list" where
  "member_rules v = (case v of JObj ps \<Rightarrow> map where_rule (obj_entries ps) | _ \<Rightarrow> [])"

definition rule_objects :: "jsval \<Rightarrow> jsval list" where
  "rule_objects parsed =
     member_rules (obj_get parsed (js ''where'')) @
     (case obj_get parsed (js ''conditions'') of
        JArr vs \<Rightarrow> filter is_object_val vs | c \<Rightarrow> member_rules c)"

definition prune_default :: prune_draft where
  "prune_default = \<lparr>pd_simpleMode = True, pd_typeText = [], pd_logic = js ''AND'', pd_recursive = True,
     pd_rules = []\<rparr>"

definition parsePruneObjectsDraft :: "(nat \<Rightarrow> int) \<Rightarrow> nat \<Rightarrow> jsstr \<Rightarrow> prune_draft \<times> nat" where
  "parsePruneObjectsDraft clock n valueText =
     (let raw = trim valueText
      in if raw = [] then (prune_default, n)
         else case json_parse raw of
           None \<Rightarrow> (prune_default\<lparr>pd_typeText := raw\<rparr>, n)
         | Some (JStr s) \<Rightarrow> (prune_default\<lparr>pd_typeText := trim s\<rparr>, n)
         | Some (JObj ps) \<Rightarrow>
             (let parsed = JObj ps; type = obj_get parsed (js ''type'');
                  (rules, n') = the (normalize_list (normalizePruneRule clock) n (rule_objects parsed));
                  advanced = list_ex (\<lambda>k. obj_get parsed (js k) \<noteq> JUndef) [''logic'', ''recursive'', ''where'', ''conditions'']
              in (\<lparr>pd_simpleMode = (\<not> advanced),
                   pd_typeText = (if type = JUndef then [] else trim (to_str type)),
                   pd_logic = (if word_is (obj_get parsed (js ''logic'')) ''AND'' ''OR'' then js ''OR'' else js ''AND''),
                   pd_recursive = (obj_get parsed (js ''recursive'') \<noteq> JBool False), pd_rules = rules\<rparr>, n'))
         | Some v \<Rightarrow> (prune_default\<lparr>pd_typeText := trim (if is_nullish v then [] else to_str v)\<rparr>, n))"

definition prune_condition :: "override_condition \<Rightarrow> jsval" where
  "prune_condition rule =
     (let valueRaw = trim (c_value_text rule)
      in JObj (put_if (c_pass_missing_key rule) ''pass_missing_key'' (JBool True)
           (put_if (c_invert rule) ''invert'' (JBool True)
           (put_if (valueRaw \<noteq> []) ''value'' (parseLooseValue valueRaw)
             [(js ''path'', JStr (trim (c_path rule))), (js ''mode'', JStr (condition_mode (JStr (c_mode rule))))]))))"

definition buildPruneObjectsValueText :: "prune_draft \<Rightarrow> jsstr" where
  "buildPruneObjectsValueText draft =
     (let typeText = trim (pd_typeText draft);
          conditions = map prune_condition (filter (\<lambda>r. trim (c_path r) \<noteq> []) (pd_rules draft));
          payload = put_if (conditions \<noteq> []) ''conditions'' (JArr conditions)
            (put_if (\<not> pd_recursive draft) ''recursive'' (JBool False)
            (put_if (word_is (JStr (pd_logic draft)) ''AND'' ''OR'') ''logic'' (JStr (js ''OR''))
            (put_if (typeText \<noteq> []) ''type'' (JStr typeText) [])))
      in if pd_simpleMode draft then typeText
         else if typeText = [] \<and> conditions = [] then json_print (JObj [(js ''logic'', JStr (js ''AND''))])
         else json_print (JObj payload))"

subsection \<open>Header names\<close>

definition header_names :: "jsval list \<Rightarrow> jsstr list" where
  "header_names vs = filter (\<lambda>s. s \<noteq> []) (map (\<lambda>v. trim (if is_nullish v then [] else to_str v)) vs)"

definition parsePassHeaderNames :: "jsval \<Rightarrow> jsstr list" where
  "parsePassHeaderNames v =
     (case v of
        JArr vs \<Rightarrow> header_names vs
      | JObj ps \<Rightarrow>
          (case obj_get v (js ''headers'') of
             JArr vs \<Rightarrow> header_names vs
           | _ \<Rightarrow> if obj_get v (js ''header'') = JUndef then [] else header_names [obj_get v (js ''header'')])
      | JStr s \<Rightarrow> split_trim 44 s
      | _ \<Rightarrow> [])"

subsection \<open>Validation\<close>

datatype override_error =
    MissingPath | MissingFrom | MissingTo | MissingValue | MissingMessage | MissingPrune | MissingHeaders
  | InvalidHeaders

text \<open>The checks of one rule in the order of the code; \<open>None\<close>: the rule is complete.\<close>

definition return_error_complete :: "jsstr \<Rightarrow> bool" where
  "return_error_complete raw \<longleftrightarrow>
     (case json_parse raw of
        Some (JObj ps) \<Rightarrow> text_or_empty (obj_get (JObj ps) (js ''message'')) \<noteq> []
      | _ \<Rightarrow> True)"

definition validate_operation :: "override_operation \<Rightarrow> override_error option" where
  "validate_operation op =
     (let mode = (if op_mode op = [] then js ''set'' else op_mode op); meta = meta_of mode;
          pathValue = trim (op_path op); fromValue = trim (op_from op); toValue = trim (op_to op);
          raw = trim (op_value_text op); alias = (m_pathAlias meta \<and> pathValue \<noteq> [])
      in if m_path meta \<and> pathValue = [] then Some MissingPath
         else if mode \<in> set FROM_REQUIRED_MODES \<and> fromValue = [] \<and> \<not> alias then Some MissingFrom
         else if mode \<in> set TO_REQUIRED_MODES \<and> toValue = [] \<and> \<not> alias then Some MissingTo
         else if mode \<in> set VALUE_REQUIRED_MODES \<and> raw = [] then Some MissingValue
         else if mode = js ''return_error'' \<and> raw = [] then Some MissingValue
         else if mode = js ''return_error'' \<and> \<not> return_error_complete raw then Some MissingMessage
         else if mode = js ''prune_objects'' \<and> raw = [] then Some MissingPrune
         else if mode = js ''pass_headers'' \<and> raw = [] then Some MissingHeaders
         else if mode = js ''pass_headers'' \<and> parsePassHeaderNames (parseLooseValue raw) = [] then Some InvalidHeaders
         else None)"

text \<open>The first rule that is not complete, with its line number.\<close>

fun validate_from :: "nat \<Rightarrow> override_operation list \<Rightarrow> (override_error \<times> nat) option" where
  "validate_from line [] = None"
| "validate_from line (op # ops) =
     (case validate_operation op of Some e \<Rightarrow> Some (e, line) | None \<Rightarrow> validate_from (Suc line) ops)"

definition validateOperations :: "override_operation list \<Rightarrow> (override_error \<times> nat) option" where
  "validateOperations ops = validate_from 1 ops"

subsection \<open>From rules to JSON\<close>

definition buildConditionPayload :: "override_condition \<Rightarrow> jsval option" where
  "buildConditionPayload c =
     (let path = trim (c_path c)
      in if path = [] then None
         else Some (JObj (put_if (c_pass_missing_key c) ''pass_missing_key'' (JBool True)
           (put_if (c_invert c) ''invert'' (JBool True)
             [(js ''path'', JStr path), (js ''mode'', JStr (if c_mode c = [] then js ''full'' else c_mode c)),
              (js ''value'', parseLooseValue (c_value_text c))]))))"

text \<open>The assignments of one operation, the last one outermost: the fields of its mode, the alias of a
  header rule, the conditions.\<close>

definition payload_fields :: "mode_meta \<Rightarrow> jsstr \<Rightarrow> override_operation \<Rightarrow> (jsstr \<times> jsval) list" where
  "payload_fields mt mode op =
     put_if (m_to mt) ''to'' (JStr (trim (op_to op)))
     (put_if (\<not> m_to mt \<and> trim (op_to op) \<noteq> []) ''to'' (JStr (trim (op_to op)))
     (put_if (m_from mt) ''from'' (JStr (trim (op_from op)))
     (put_if (m_keepOrigin mt \<and> op_keep_origin op) ''keep_origin'' (JBool True)
     (put_if (m_value mt) ''value'' (parseLooseValue (op_value_text op))
     (put_if (m_pathOptional mt \<and> trim (op_path op) \<noteq> []) ''path'' (JStr (trim (op_path op)))
     (put_if (m_path mt) ''path'' (JStr (trim (op_path op)))
     (put_if (trim (op_description op) \<noteq> []) ''description'' (JStr (trim (op_description op)))
        [(js ''mode'', JStr mode)])))))))"

definition put_alias :: "string \<Rightarrow> jsstr \<Rightarrow> (jsstr \<times> jsval) list \<Rightarrow> (jsstr \<times> jsval) list" where
  "put_alias k pathValue ps = put_if (\<not> truthy (obj_get (JObj ps) (js k)) \<and> pathValue \<noteq> []) k (JStr pathValue) ps"

definition payload_conditions :: "override_operation \<Rightarrow> (jsstr \<times> jsval) list \<Rightarrow> (jsstr \<times> jsval) list" where
  "payload_conditions op ps =
     (let conditions = List.map_filter buildConditionPayload (op_conditions op)
      in put_if (conditions \<noteq> []) ''logic'' (JStr (if op_logic op = js ''AND'' then js ''AND'' else js ''OR''))
           (put_if (conditions \<noteq> []) ''conditions'' (JArr conditions) ps))"

definition operation_payload :: "override_operation \<Rightarrow> jsval" where
  "operation_payload op =
     (let mode = (if op_mode op = [] then js ''set'' else op_mode op); meta = meta_of mode;
          pathValue = trim (op_path op); fields = payload_fields meta mode op
      in JObj (payload_conditions op
           (if m_pathAlias meta then put_alias ''to'' pathValue (put_alias ''from'' pathValue fields) else fields)))"

definition buildOperationsJson ::
  "bool \<Rightarrow> override_operation list \<Rightarrow> (override_error \<times> nat) + jsstr" where
  "buildOperationsJson validate ops =
     (let filteredOps = filter (\<lambda>op. \<not> isOperationBlank op) ops
      in if filteredOps = [] then Inr []
         else case (if validate then validateOperations filteredOps else None) of
           Some e \<Rightarrow> Inl e
         | None \<Rightarrow> Inr (json_pretty 0 (operations_object (map operation_payload filteredOps))))"

subsection \<open>Opening the editor\<close>

record editor_view =
  ev_json :: bool
  ev_legacy :: bool
  ev_legacyValue :: jsstr
  ev_operations :: "override_operation list"
  ev_jsonText :: jsstr
  ev_invalid :: bool

definition parseInitialState :: "(nat \<Rightarrow> int) \<Rightarrow> nat \<Rightarrow> jsstr \<Rightarrow> (editor_view \<times> nat) option" where
  "parseInitialState clock n rawValue =
     (let trimmed = trim rawValue; fallback = createDefaultOperation clock n;
          view = (\<lambda>json legacy legacyValue jsonText invalid.
            Some (\<lparr>ev_json = json, ev_legacy = legacy, ev_legacyValue = legacyValue,
              ev_operations = [fst fallback], ev_jsonText = jsonText, ev_invalid = invalid\<rparr>, snd fallback))
      in if trimmed = [] then view False False [] [] False
         else case json_parse trimmed of
           None \<Rightarrow> view True False [] rawValue True
         | Some parsed \<Rightarrow>
           (let pretty = json_pretty 0 parsed
            in case parsed of
                 JObj ps \<Rightarrow>
                   (case obj_get parsed (js ''operations'') of
                      JArr ops \<Rightarrow>
                        (if ops = [] then view False False [] pretty False
                         else case normalize_list (normalizeOperation clock) n ops of
                           None \<Rightarrow> None
                         | Some (operations, n') \<Rightarrow>
                             Some (\<lparr>ev_json = False, ev_legacy = False, ev_legacyValue = [],
                               ev_operations = operations, ev_jsonText = pretty, ev_invalid = False\<rparr>, n'))
                    | _ \<Rightarrow> view False True pretty pretty False)
               | _ \<Rightarrow> view True False [] pretty False))"

end
