(* ===== verification/ParamRoundTrip.thy ===== *)
theory ParamRoundTrip
  imports ParamOverride
begin

section \<open>Parameter overrides: saving and opening again\<close>

text \<open>
  What the editor saves is read back as the same rules: the text of a validated list of rules, opened
  again, shows the rules that were saved, and saving them again gives the same text. The rules of a
  value text (\<open>toValueText\<close>, \<open>parseLooseValue\<close>) and of the payload of one operation come first.
\<close>

subsection \<open>Printed values have no white space around them\<close>

lemma take_digits_ws:
  assumes "take_digits s = (ds, r)" and "c \<in> set ds"
  shows "\<not> is_ws c"
  using assms set_takeWhileD [of c is_digit s] digit_not_ws by (auto simp: take_digits_def)

lemma span_no_ws:
  "span_int s = Some (a, q) \<Longrightarrow> c \<in> set a \<Longrightarrow> \<not> is_ws c"
  "span_frac s = Some (a, q) \<Longrightarrow> c \<in> set a \<Longrightarrow> \<not> is_ws c"
  "span_exp s = Some (a, q) \<Longrightarrow> c \<in> set a \<Longrightarrow> \<not> is_ws c"
  by (auto simp: span_int_def span_frac_def span_exp_def is_ws_def Let_def dest: take_digits_ws
      split: prod.splits if_splits list.splits)

lemma span_number_no_ws:
  assumes "span_number s = Some (a, q)" and "c \<in> set a"
  shows "\<not> is_ws c"
proof -
  obtain sg s1 q1 q2 ip fp ep where "span_int s1 = Some (ip, q1)" "span_frac q1 = Some (fp, q2)"
      "span_exp q2 = Some (ep, q)" "a = sg @ ip @ fp @ ep" "set sg \<subseteq> {45}"
    using assms(1) unfolding span_number_def Let_def by (fastforce split: option.splits list.splits if_splits)
  moreover have "\<not> is_ws 45" by (simp add: is_ws_def)
  ultimately show ?thesis using assms(2) span_no_ws by fastforce
qed

lemma trimmed_print: "plain v \<Longrightarrow> trim (json_print v) = json_print v"
proof (cases v)
  case (JNum x)
  moreover assume "plain v"
  ultimately have "span_number (num_to_str x) = Some (num_to_str x, [])" "is_finite x"
    by (simp_all add: num_token_def)
  then show ?thesis using JNum span_number_no_ws by (intro trim_no_ws) auto
qed (auto simp: trim_id_iff trimmed_def json_quote_def is_ws_def js_lit Let_def)

lemma trimmed_pretty: "trim (json_pretty n (JObj ps)) = json_pretty n (JObj ps)"
  by (simp add: trim_id_iff trimmed_def is_ws_def Let_def)

subsection \<open>Value texts\<close>

text \<open>A value text that means the same once it has been saved and shown again: it is not a JSON
  string literal (which is shown without its quotes), and its value prints and reads back.\<close>

definition resavable :: "jsstr \<Rightarrow> bool" where
  "resavable s \<longleftrightarrow> plain (parseLooseValue s) \<and>
     (case json_parse (trim s) of Some (JStr _) \<Rightarrow> False | _ \<Rightarrow> True)"

lemma parseLooseValue_trim [simp]: "parseLooseValue (trim s) = parseLooseValue s"
  by (simp add: parseLooseValue_def trim_idem)

lemma shown_value:
  assumes "resavable s"
  shows "parseLooseValue (toValueText (parseLooseValue s)) = parseLooseValue s"
    and "trim (toValueText (parseLooseValue s)) = [] \<longleftrightarrow> trim s = []"
proof -
  let ?v = "parseLooseValue s"
  have pl: "plain ?v" using assms by (simp add: resavable_def)
  consider (words) "?v = JStr (trim s)" "trim s = [] \<or> json_parse (trim s) = None"
    | (json) "toValueText ?v = json_print ?v" "trim s \<noteq> []"
    using assms pl by (cases "trim s = []")
      (auto simp: resavable_def parseLooseValue_def toValueText_def Let_def split: option.splits jsval.splits)
  note cs = this
  have print: "json_parse (json_print ?v) = Some ?v" using pl by (rule json_roundtrip)
  have ne: "json_print ?v \<noteq> []" using json_print_first [OF pl] by auto
  show "parseLooseValue (toValueText ?v) = ?v"
    by (cases rule: cs) (use print ne trimmed_print [OF pl] in \<open>auto simp: parseLooseValue_def toValueText_def trim_idem\<close>)
  show "trim (toValueText ?v) = [] \<longleftrightarrow> trim s = []"
    by (cases rule: cs) (use ne trimmed_print [OF pl] in \<open>auto simp: toValueText_def trim_idem\<close>)
qed

subsection \<open>Modes\<close>

definition mode_ok :: "jsstr \<Rightarrow> mode_meta \<Rightarrow> bool" where
  "mode_ok m mt \<longleftrightarrow> m \<noteq> [] \<and>
     (m_pathAlias mt \<longrightarrow> m_from mt \<and> m_to mt \<and> \<not> m_path mt \<and> \<not> m_pathOptional mt) \<and>
     (m \<in> set FROM_REQUIRED_MODES \<longrightarrow> m_from mt) \<and>
     (m \<in> set VALUE_REQUIRED_MODES \<or> m = js ''return_error'' \<or> m = js ''prune_objects'' \<or> m = js ''pass_headers'' \<longrightarrow>
        m_value mt) \<and> (m = js ''set'' \<longrightarrow> m_path mt)"

lemma table_ok: "list_all (\<lambda>(m, mt). mode_ok m mt) MODE_META"
  by (simp add: MODE_META_def meta_def FROM_REQUIRED_MODES_def VALUE_REQUIRED_MODES_def js_inject js_nonempty mode_ok_def)

lemma modes_in_table: "set OPERATION_MODE_VALUES \<subseteq> fst ` set MODE_META"
  unfolding OPERATION_MODE_VALUES_def OPERATION_MODE_OPTIONS_def MODE_META_def list.map list.set snd_conv image_insert image_empty fst_conv
  by blast

lemma all_modes: "m \<in> set OPERATION_MODE_VALUES \<Longrightarrow> mode_ok m (meta_of m)"
proof -
  assume "m \<in> set OPERATION_MODE_VALUES"
  then have "map_of MODE_META m \<noteq> None" using modes_in_table by (auto simp: map_of_eq_None_iff)
  then obtain mt where "map_of MODE_META m = Some mt" by blast
  moreover from this have "(m, mt) \<in> set MODE_META" by (rule map_of_SomeD)
  then have "mode_ok m mt" using table_ok by (auto simp: list_all_iff)
  ultimately show "mode_ok m (meta_of m)" by (simp add: meta_of_def)
qed

lemma mode_facts:
  assumes "m \<in> set OPERATION_MODE_VALUES"
  shows "m \<noteq> []"
    and "m_pathAlias (meta_of m) \<Longrightarrow> m_from (meta_of m) \<and> m_to (meta_of m) \<and> \<not> m_path (meta_of m) \<and> \<not> m_pathOptional (meta_of m)"
    and "m \<in> set FROM_REQUIRED_MODES \<Longrightarrow> m_from (meta_of m)"
    and "m \<in> set VALUE_REQUIRED_MODES \<or> m = js ''return_error'' \<or> m = js ''prune_objects'' \<or> m = js ''pass_headers'' \<Longrightarrow>
      m_value (meta_of m)"
    and "m = js ''set'' \<Longrightarrow> m_path (meta_of m)"
  using all_modes [OF assms] unfolding mode_ok_def by blast+

lemma condition_modes: "m \<in> set CONDITION_MODE_VALUES \<Longrightarrow> m \<noteq> []"
proof -
  have "list_all (\<lambda>m. m \<noteq> []) CONDITION_MODE_VALUES" by code_simp
  then show "m \<in> set CONDITION_MODE_VALUES \<Longrightarrow> m \<noteq> []" by (auto simp: list_all_iff)
qed

subsection \<open>What is saved of a rule\<close>

text \<open>The rule as it is shown after it was saved, with the identifiers left out: texts are trimmed,
  the fields a mode does not have are gone, the alias of a header rule is spelled out, and conditions
  without a path are dropped.\<close>

definition saved_condition :: "override_condition \<Rightarrow> override_condition" where
  "saved_condition c = \<lparr>c_id = [], c_path = trim (c_path c), c_mode = c_mode c,
     c_value_text = toValueText (parseLooseValue (c_value_text c)), c_invert = c_invert c,
     c_pass_missing_key = c_pass_missing_key c\<rparr>"

definition kept_conditions :: "override_operation \<Rightarrow> override_condition list" where
  "kept_conditions op = filter (\<lambda>c. trim (c_path c) \<noteq> []) (op_conditions op)"

definition or_alias :: "override_operation \<Rightarrow> jsstr \<Rightarrow> jsstr" where
  "or_alias op s = (if m_pathAlias (meta_of (op_mode op)) \<and> trim s = [] then trim (op_path op) else trim s)"

definition saved_operation :: "override_operation \<Rightarrow> override_operation" where
  "saved_operation op =
     (let meta = meta_of (op_mode op)
      in \<lparr>op_id = [], op_description = trim (op_description op),
          op_path = (if m_path meta \<or> m_pathOptional meta then trim (op_path op) else []), op_mode = op_mode op,
          op_from = (if m_from meta then or_alias op (op_from op) else []), op_to = or_alias op (op_to op),
          op_value_text = (if m_value meta then toValueText (parseLooseValue (op_value_text op)) else []),
          op_keep_origin = (m_keepOrigin meta \<and> op_keep_origin op),
          op_logic = (if kept_conditions op \<noteq> [] \<and> op_logic op = js ''AND'' then js ''AND'' else js ''OR''),
          op_conditions = map saved_condition (kept_conditions op)\<rparr>)"

definition erase_condition :: "override_condition \<Rightarrow> override_condition" where
  "erase_condition c = c\<lparr>c_id := []\<rparr>"

definition erase_ids :: "override_operation \<Rightarrow> override_operation" where
  "erase_ids op = op\<lparr>op_id := [], op_conditions := map erase_condition (op_conditions op)\<rparr>"

text \<open>The rules the editor's fields can hold, with values that survive.\<close>

definition editable_condition :: "override_condition \<Rightarrow> bool" where
  "editable_condition c \<longleftrightarrow> c_mode c \<in> set CONDITION_MODE_VALUES \<and> wf_units (c_path c) \<and> resavable (c_value_text c)"

definition editable :: "override_operation \<Rightarrow> bool" where
  "editable op \<longleftrightarrow> op_mode op \<in> set OPERATION_MODE_VALUES \<and> wf_units (op_description op) \<and> wf_units (op_path op) \<and>
     wf_units (op_from op) \<and> wf_units (op_to op) \<and> resavable (op_value_text op) \<and>
     list_all editable_condition (op_conditions op)"

subsubsection \<open>Identifiers do not matter\<close>

lemma erase_condition_fields [simp]:
  "c_path (erase_condition c) = c_path c" "c_mode (erase_condition c) = c_mode c"
  "c_value_text (erase_condition c) = c_value_text c" "c_invert (erase_condition c) = c_invert c"
  "c_pass_missing_key (erase_condition c) = c_pass_missing_key c"
  by (simp_all add: erase_condition_def)

lemma erase_ids_fields [simp]:
  "op_description (erase_ids op) = op_description op" "op_path (erase_ids op) = op_path op"
  "op_mode (erase_ids op) = op_mode op" "op_from (erase_ids op) = op_from op" "op_to (erase_ids op) = op_to op"
  "op_value_text (erase_ids op) = op_value_text op" "op_keep_origin (erase_ids op) = op_keep_origin op"
  "op_logic (erase_ids op) = op_logic op" "op_conditions (erase_ids op) = map erase_condition (op_conditions op)"
  by (simp_all add: erase_ids_def)

lemma erased_condition_payload [simp]: "buildConditionPayload (erase_condition c) = buildConditionPayload c"
  by (simp add: buildConditionPayload_def Let_def)

lemma erased_fields [simp]: "payload_fields mt mode (erase_ids op) = payload_fields mt mode op"
  unfolding payload_fields_def erase_ids_fields by (rule refl)

lemma erased_conditions [simp]: "payload_conditions (erase_ids op) = payload_conditions op"
proof -
  have "List.map_filter buildConditionPayload (map erase_condition cs) = List.map_filter buildConditionPayload cs" for cs
    by (simp add: List.map_filter_def filter_map o_def)
  then show ?thesis unfolding payload_conditions_def erase_ids_fields by simp
qed

lemma erased_payload [simp]: "operation_payload (erase_ids op) = operation_payload op"
  unfolding operation_payload_def erased_fields erased_conditions erase_ids_fields by (rule refl)

lemma erased_blank [simp]: "isOperationBlank (erase_ids op) = isOperationBlank op"
  by (simp add: isOperationBlank_def condition_used_def list_ex_iff)

lemma erased_valid [simp]: "validate_operation (erase_ids op) = validate_operation op"
  unfolding validate_operation_def erase_ids_fields by (rule refl)

subsection \<open>Opening a saved rule\<close>

lemma condition_payload:
  assumes "editable_condition c"
  shows "buildConditionPayload c =
    (if trim (c_path c) = [] then None
     else Some (JObj (put_if (c_pass_missing_key c) ''pass_missing_key'' (JBool True)
       (put_if (c_invert c) ''invert'' (JBool True)
         [(js ''path'', JStr (trim (c_path c))), (js ''mode'', JStr (c_mode c)),
          (js ''value'', parseLooseValue (c_value_text c))]))))"
  using assms condition_modes by (auto simp: editable_condition_def buildConditionPayload_def Let_def)

lemma open_condition:
  assumes "editable_condition c" and "buildConditionPayload c = Some v"
  shows "\<exists>c'. normalizeOverrideCondition clock n v = Some (c', Suc n) \<and> erase_condition c' = saved_condition c"
  using assms unfolding condition_payload [OF assms(1)]
  by (auto simp: normalizeOverrideCondition_def str_prop_def true_prop_def condition_mode_def js_inject
      editable_condition_def erase_condition_def saved_condition_def split: if_splits)

lemma saved_condition_payload:
  assumes "editable_condition c"
  shows "buildConditionPayload (saved_condition c) = buildConditionPayload c"
  using assms condition_modes shown_value(1)
  by (auto simp: editable_condition_def saved_condition_def buildConditionPayload_def trim_idem Let_def)

lemma wf_trim [simp]: "wf_units s \<Longrightarrow> wf_units (trim s)"
  using set_trim [of s] by (auto simp: wf_units_def list_all_iff)

lemma plain_condition:
  assumes "editable_condition c" and "buildConditionPayload c = Some v"
  shows "plain v"
proof -
  have "plain (JObj [(js ''path'', JStr (trim (c_path c))), (js ''mode'', JStr (c_mode c)),
      (js ''value'', parseLooseValue (c_value_text c))])"
    using assms(1) by (auto simp: editable_condition_def resavable_def CONDITION_MODE_VALUES_def
        CONDITION_MODE_OPTIONS_def js_inject index_key_lit is_digit_def)
  then show ?thesis
    using assms(2) unfolding condition_payload [OF assms(1)]
    by (auto split: if_splits intro!: plain_put_if simp: index_key_lit is_digit_def)
qed

lemma payload_shape:
  assumes "op_mode op \<in> set OPERATION_MODE_VALUES"
  shows "operation_payload op = JObj (payload_conditions op
    (if m_pathAlias (meta_of (op_mode op))
     then put_alias ''to'' (trim (op_path op)) (put_alias ''from'' (trim (op_path op))
       (payload_fields (meta_of (op_mode op)) (op_mode op) op))
     else payload_fields (meta_of (op_mode op)) (op_mode op) op))"
  using mode_facts(1) [OF assms] by (simp add: operation_payload_def Let_def)

lemma map_of_conditions [simp]:
  "map_of (payload_conditions op ps) (js k) =
     (let cs = List.map_filter buildConditionPayload (op_conditions op)
      in if cs \<noteq> [] \<and> k = ''logic'' then Some (JStr (if op_logic op = js ''AND'' then js ''AND'' else js ''OR''))
         else if cs \<noteq> [] \<and> k = ''conditions'' then Some (JArr cs) else map_of ps (js k))"
  by (simp add: payload_conditions_def Let_def)

lemma map_of_alias [simp]:
  "map_of (put_alias k s ps) (js k') =
     (if k' = k \<and> s \<noteq> [] \<and> \<not> truthy (obj_get (JObj ps) (js k)) then Some (JStr s) else map_of ps (js k'))"
  by (auto simp: put_alias_def)

lemma payload_plain_fields:
  assumes "op_mode op \<in> set OPERATION_MODE_VALUES"
  shows "obj_get (operation_payload op) (js ''mode'') = JStr (op_mode op)"
    and "obj_get (operation_payload op) (js ''description'') =
      (if trim (op_description op) = [] then JUndef else JStr (trim (op_description op)))"
    and "obj_get (operation_payload op) (js ''path'') =
      (let mt = meta_of (op_mode op) in
       if m_path mt \<or> m_pathOptional mt \<and> trim (op_path op) \<noteq> [] then JStr (trim (op_path op)) else JUndef)"
    and "obj_get (operation_payload op) (js ''value'') =
      (if m_value (meta_of (op_mode op)) then parseLooseValue (op_value_text op) else JUndef)"
    and "obj_get (operation_payload op) (js ''keep_origin'') =
      (if m_keepOrigin (meta_of (op_mode op)) \<and> op_keep_origin op then JBool True else JUndef)"
  by (simp_all add: payload_shape [OF assms] payload_fields_def Let_def js_inject)

lemma payload_targets:
  assumes "op_mode op \<in> set OPERATION_MODE_VALUES"
  shows "obj_get (operation_payload op) (js ''from'') =
      (if m_from (meta_of (op_mode op)) then JStr (or_alias op (op_from op)) else JUndef)"
    and "obj_get (operation_payload op) (js ''to'') =
      (if m_to (meta_of (op_mode op)) \<or> trim (op_to op) \<noteq> [] then JStr (or_alias op (op_to op)) else JUndef)"
  using mode_facts(2) [OF assms]
  by (simp_all add: payload_shape [OF assms] payload_fields_def Let_def js_inject or_alias_def)

lemma payload_condition_list:
  assumes "op_mode op \<in> set OPERATION_MODE_VALUES"
  shows "arr_of (obj_get (operation_payload op) (js ''conditions'')) = List.map_filter buildConditionPayload (op_conditions op)"
    and "obj_get (operation_payload op) (js ''logic'') =
      (if List.map_filter buildConditionPayload (op_conditions op) = [] then JUndef
       else JStr (if op_logic op = js ''AND'' then js ''AND'' else js ''OR''))"
  by (simp_all add: payload_shape [OF assms] payload_fields_def Let_def js_inject arr_of_def)


lemma kept_payloads:
  assumes "list_all editable_condition cs"
  shows "List.map_filter buildConditionPayload cs =
    map (\<lambda>c. the (buildConditionPayload c)) (filter (\<lambda>c. trim (c_path c) \<noteq> []) cs)"
  using assms
  by (induction cs) (auto simp: condition_payload List.map_filter_simps)

lemma open_conditions:
  assumes "list_all editable_condition cs"
  shows "\<exists>cs' n'. normalize_list (normalizeOverrideCondition clock) n (List.map_filter buildConditionPayload cs) = Some (cs', n') \<and>
    map erase_condition cs' = map saved_condition (filter (\<lambda>c. trim (c_path c) \<noteq> []) cs)"
  using assms
proof (induction cs arbitrary: n)
  case (Cons c cs)
  show ?case
  proof (cases "trim (c_path c) = []")
    case True
    then show ?thesis using Cons condition_payload [of c] by (simp add: List.map_filter_simps)
  next
    case False
    then obtain v where v: "buildConditionPayload c = Some v" using Cons.prems condition_payload [of c] by simp
    obtain c' where c': "normalizeOverrideCondition clock n v = Some (c', Suc n)" "erase_condition c' = saved_condition c"
      using open_condition [OF _ v] Cons.prems by auto
    obtain cs' n' where "normalize_list (normalizeOverrideCondition clock) (Suc n) (List.map_filter buildConditionPayload cs) = Some (cs', n')"
        "map erase_condition cs' = map saved_condition (filter (\<lambda>c. trim (c_path c) \<noteq> []) cs)"
      using Cons.IH [of "Suc n"] Cons.prems by auto
    then show ?thesis using False v c' by (simp add: List.map_filter_simps)
  qed
qed (simp add: List.map_filter_simps)

lemma toValueText_undef [simp]: "toValueText JUndef = []"
  by (simp add: toValueText_def)

lemma logic_word:
  "word_is (JStr (js ''AND'')) ''OR'' ''AND''" "\<not> word_is (JStr (js ''OR'')) ''OR'' ''AND''" "\<not> word_is JUndef ''OR'' ''AND''"
  by code_simp+

lemma open_operation:
  assumes "editable op"
  shows "\<exists>op' n'. normalizeOperation clock n (operation_payload op) = Some (op', n') \<and> erase_ids op' = saved_operation op"
proof -
  have ed: "op_mode op \<in> set OPERATION_MODE_VALUES" "list_all editable_condition (op_conditions op)"
    using assms by (simp_all add: editable_def)
  note get = payload_plain_fields [OF ed(1)] payload_targets [OF ed(1)] payload_condition_list [OF ed(1)]
  obtain cs n' where cs: "normalize_list (normalizeOverrideCondition clock) (Suc n)
        (List.map_filter buildConditionPayload (op_conditions op)) = Some (cs, n')"
      "map erase_condition cs = map saved_condition (kept_conditions op)"
    using open_conditions [OF ed(2)] unfolding kept_conditions_def by blast
  have none: "List.map_filter buildConditionPayload (op_conditions op) = [] \<longleftrightarrow> kept_conditions op = []"
    by (simp add: kept_payloads [OF ed(2)] kept_conditions_def)
  have obj: "\<not> is_nullish (operation_payload op)" by (simp add: payload_shape [OF ed(1)])
  have al: "m_pathAlias (meta_of (op_mode op)) \<Longrightarrow> m_to (meta_of (op_mode op))" using mode_facts(2) [OF ed(1)] by blast
  have texts: "str_prop (operation_payload op) ''description'' = op_description (saved_operation op)"
      "str_prop (operation_payload op) ''path'' = op_path (saved_operation op)"
      "str_prop (operation_payload op) ''from'' = op_from (saved_operation op)"
      "str_prop (operation_payload op) ''to'' = op_to (saved_operation op)"
    using al by (simp_all add: str_prop_def get saved_operation_def or_alias_def Let_def)
  have rest: "toValueText (obj_get (operation_payload op) (js ''value'')) = op_value_text (saved_operation op)"
      "true_prop (operation_payload op) ''keep_origin'' = op_keep_origin (saved_operation op)"
      "operation_mode (obj_get (operation_payload op) (js ''mode'')) = op_mode (saved_operation op)"
      "(if word_is (obj_get (operation_payload op) (js ''logic'')) ''OR'' ''AND'' then js ''AND'' else js ''OR'') =
        op_logic (saved_operation op)"
    using none by (simp_all add: true_prop_def get saved_operation_def operation_mode_def ed(1) logic_word Let_def)
  have "map erase_condition cs = op_conditions (saved_operation op)" "op_id (saved_operation op) = []"
    by (simp_all add: cs(2) saved_operation_def Let_def)
  then show ?thesis
    using obj cs(1) by (simp add: normalizeOperation_def payload_condition_list(1) [OF ed(1)] texts rest erase_ids_def)
qed

subsection \<open>Saving an opened rule\<close>

lemma saved_fields [simp]:
  "op_mode (saved_operation op) = op_mode op" "op_description (saved_operation op) = trim (op_description op)"
  "op_path (saved_operation op) = (if m_path (meta_of (op_mode op)) \<or> m_pathOptional (meta_of (op_mode op)) then trim (op_path op) else [])"
  "op_from (saved_operation op) = (if m_from (meta_of (op_mode op)) then or_alias op (op_from op) else [])"
  "op_to (saved_operation op) = or_alias op (op_to op)"
  "op_keep_origin (saved_operation op) \<longleftrightarrow> m_keepOrigin (meta_of (op_mode op)) \<and> op_keep_origin op"
  "op_value_text (saved_operation op) = (if m_value (meta_of (op_mode op)) then toValueText (parseLooseValue (op_value_text op)) else [])"
  "op_conditions (saved_operation op) = map saved_condition (kept_conditions op)"
  "op_logic (saved_operation op) = (if kept_conditions op \<noteq> [] \<and> op_logic op = js ''AND'' then js ''AND'' else js ''OR'')"
  by (simp_all add: saved_operation_def Let_def)

lemma saved_conditions_payload:
  assumes "editable op"
  shows "payload_conditions (saved_operation op) = payload_conditions op"
proof -
  have ed: "list_all editable_condition (op_conditions op)" using assms by (simp add: editable_def)
  have "List.map_filter buildConditionPayload (map saved_condition (filter (\<lambda>c. trim (c_path c) \<noteq> []) cs)) =
      List.map_filter buildConditionPayload cs" if "list_all editable_condition cs" for cs
    using that by (induction cs) (auto simp: List.map_filter_simps saved_condition_payload condition_payload)
  from this [OF ed] have eq: "List.map_filter buildConditionPayload (map saved_condition (kept_conditions op)) =
      List.map_filter buildConditionPayload (op_conditions op)" by (simp add: kept_conditions_def)
  have "kept_conditions op = [] \<longleftrightarrow> List.map_filter buildConditionPayload (op_conditions op) = []"
    by (simp add: kept_payloads [OF ed] kept_conditions_def)
  then show ?thesis unfolding payload_conditions_def saved_fields eq by (intro ext) (auto simp: Let_def)
qed

lemma saved_payload:
  assumes "editable op"
  shows "operation_payload (saved_operation op) = operation_payload op"
proof -
  let ?mt = "meta_of (op_mode op)" and ?path = "trim (op_path op)"
  have ed: "op_mode op \<in> set OPERATION_MODE_VALUES" "resavable (op_value_text op)" using assms by (simp_all add: editable_def)
  have shape: "payload_fields ?mt (op_mode op) (saved_operation op) = payload_fields ?mt (op_mode op) op"
    if "\<not> m_pathAlias ?mt"
    using that shown_value(1) [OF ed(2)]
    by (simp add: payload_fields_def or_alias_def trim_idem)
  have "put_alias ''to'' ?path (put_alias ''from'' ?path (payload_fields ?mt (op_mode op) op)) =
      payload_fields ?mt (op_mode op) (saved_operation op)"
    if "m_pathAlias ?mt"
    using mode_facts(2) [OF ed(1) that] that shown_value(1) [OF ed(2)]
    by (cases "?path = []")
      (simp_all add: payload_fields_def or_alias_def trim_idem put_alias_def js_inject put_if_again put_if_behind)
  moreover have "put_alias ''to'' [] ps = ps" "put_alias ''from'' [] ps = ps" for ps by (simp_all add: put_alias_def)
  ultimately show ?thesis
    using mode_facts(2) [OF ed(1)] shape
    by (cases "m_pathAlias ?mt") (simp_all add: payload_shape ed(1) saved_conditions_payload [OF assms])
qed

subsection \<open>A saved rule passes validation\<close>

definition complete :: "override_operation \<Rightarrow> bool" where
  "complete op \<longleftrightarrow>
     (let mt = meta_of (op_mode op); aliased = (m_pathAlias mt \<and> trim (op_path op) \<noteq> []);
          raw = trim (op_value_text op)
      in (m_path mt \<longrightarrow> trim (op_path op) \<noteq> []) \<and>
         (op_mode op \<in> set FROM_REQUIRED_MODES \<longrightarrow> trim (op_from op) \<noteq> [] \<or> aliased) \<and>
         (op_mode op \<in> set TO_REQUIRED_MODES \<longrightarrow> trim (op_to op) \<noteq> [] \<or> aliased) \<and>
         (op_mode op \<in> set VALUE_REQUIRED_MODES \<longrightarrow> raw \<noteq> []) \<and>
         (op_mode op = js ''return_error'' \<longrightarrow> return_error_complete raw) \<and>
         (op_mode op = js ''pass_headers'' \<longrightarrow> parsePassHeaderNames (parseLooseValue raw) \<noteq> []))"

lemma value_modes: "js ''return_error'' \<in> set VALUE_REQUIRED_MODES" "js ''prune_objects'' \<in> set VALUE_REQUIRED_MODES"
  "js ''pass_headers'' \<in> set VALUE_REQUIRED_MODES"
  by (simp_all add: VALUE_REQUIRED_MODES_def js_inject)

lemma valid_iff:
  assumes "op_mode op \<noteq> []"
  shows "validate_operation op = None \<longleftrightarrow> complete op"
  using value_modes assms unfolding validate_operation_def complete_def Let_def by auto

text \<open>The check of a \<open>return_error\<close> value depends on the value only.\<close>

lemma return_error_value:
  assumes "s \<noteq> []" and "trim s = s"
  shows "return_error_complete s \<longleftrightarrow>
    (case parseLooseValue s of JObj ps \<Rightarrow> text_or_empty (obj_get (JObj ps) (js ''message'')) \<noteq> [] | _ \<Rightarrow> True)"
  using assms by (simp add: return_error_complete_def parseLooseValue_def split: option.splits)

lemma saved_complete:
  assumes "editable op" and "complete op"
  shows "complete (saved_operation op)"
proof -
  let ?mt = "meta_of (op_mode op)"
  have ed: "op_mode op \<in> set OPERATION_MODE_VALUES" "resavable (op_value_text op)" using assms(1) by (simp_all add: editable_def)
  note sv = shown_value [OF ed(2)] and mf = mode_facts(2-4) [OF ed(1)] and all = assms(2) [unfolded complete_def Let_def]
  have need: "trim (op_value_text (saved_operation op)) \<noteq> []" if "op_mode op \<in> set VALUE_REQUIRED_MODES"
    using that all mf(3) sv(2) by auto
  have "op_mode op \<in> set FROM_REQUIRED_MODES \<Longrightarrow> trim (op_from (saved_operation op)) \<noteq> []"
    using all mf(2) by (auto simp: or_alias_def trim_idem)
  moreover have "op_mode op \<in> set TO_REQUIRED_MODES \<Longrightarrow> trim (op_to (saved_operation op)) \<noteq> []"
    using all by (auto simp: or_alias_def trim_idem)
  moreover have "return_error_complete (trim (op_value_text (saved_operation op)))" if "op_mode op = js ''return_error''"
    using that all mf(3) value_modes(1) need sv return_error_value [of "trim (op_value_text op)"]
    by (simp add: return_error_value trim_idem)
  moreover have "parsePassHeaderNames (parseLooseValue (trim (op_value_text (saved_operation op)))) \<noteq> []"
    if "op_mode op = js ''pass_headers''"
    using that all mf(3) sv by simp
  ultimately show ?thesis using need all unfolding complete_def Let_def by (simp add: trim_idem)
qed

lemma complete_not_blank:
  assumes "op_mode op \<in> set OPERATION_MODE_VALUES" and "complete op"
  shows "\<not> isOperationBlank op"
  using assms mode_facts(5) [OF assms(1)] by (auto simp: isOperationBlank_def complete_def Let_def)

lemma validate_all: "validate_from n ops = None \<longleftrightarrow> list_all (\<lambda>op. validate_operation op = None) ops"
  by (induction ops arbitrary: n) (auto split: option.splits)

subsection \<open>Saving, opening, saving\<close>

lemma plain_operation:
  assumes "editable op"
  shows "plain (operation_payload op)"
proof -
  have ed: "op_mode op \<in> set OPERATION_MODE_VALUES" "list_all editable_condition (op_conditions op)"
      "plain (parseLooseValue (op_value_text op))"
    using assms by (simp_all add: editable_def resavable_def)
  have mode: "wf_units (op_mode op)" using ed(1) by (auto simp: OPERATION_MODE_VALUES_def OPERATION_MODE_OPTIONS_def)
  have fields: "plain (JObj (payload_fields (meta_of (op_mode op)) (op_mode op) op))"
    unfolding payload_fields_def
    by (intro plain_put_if) (use assms mode ed in \<open>simp_all add: editable_def index_key_lit is_digit_def\<close>)
  have al: "plain (JObj (put_alias k (trim (op_path op)) ps))"
    if "plain (JObj ps)" "k = ''to'' \<or> k = ''from''" for k ps
    unfolding put_alias_def using that assms by (intro plain_put_if) (auto simp: editable_def index_key_lit is_digit_def)
  have conds: "list_all plain (List.map_filter buildConditionPayload cs)" if "list_all editable_condition cs" for cs
    using that plain_condition by (induction cs) (auto simp: List.map_filter_simps split: option.splits)
  have "plain (JObj (payload_conditions op ps))" if "plain (JObj ps)" for ps
    unfolding payload_conditions_def Let_def
    by (intro plain_put_if) (use that conds [OF ed(2)] in \<open>simp_all add: index_key_lit is_digit_def\<close>)
  then show ?thesis using fields al by (simp add: payload_shape [OF ed(1)] del: plain.simps)
qed

lemma open_operations:
  assumes "list_all editable ops"
  shows "\<exists>ops' n'. normalize_list (normalizeOperation clock) n (map operation_payload ops) = Some (ops', n') \<and>
    map erase_ids ops' = map saved_operation ops"
  using assms
proof (induction ops arbitrary: n)
  case (Cons op ops)
  obtain op' n1 where "normalizeOperation clock n (operation_payload op) = Some (op', n1)" "erase_ids op' = saved_operation op"
    using open_operation [of op clock n] Cons.prems by auto
  moreover obtain ops' n' where "normalize_list (normalizeOperation clock) n1 (map operation_payload ops) = Some (ops', n')"
      "map erase_ids ops' = map saved_operation ops"
    using Cons.IH [of n1] Cons.prems by auto
  ultimately show ?case by simp
qed simp

lemma open_text:
  assumes "ps \<noteq> []" and "list_all plain ps"
    and "normalize_list (normalizeOperation clock) n ps = Some (ops, n')"
  shows "parseInitialState clock n (json_pretty 0 (operations_object ps)) =
    Some (\<lparr>ev_json = False, ev_legacy = False, ev_legacyValue = [], ev_operations = ops,
       ev_jsonText = json_pretty 0 (operations_object ps), ev_invalid = False\<rparr>, n')"
proof -
  let ?t = "json_pretty 0 (operations_object ps)"
  have pl: "plain (operations_object ps)"
    using assms(2) by (simp add: operations_object_def index_key_lit is_digit_def)
  have "trim ?t = ?t" unfolding operations_object_def by (rule trimmed_pretty)
  moreover have "json_parse ?t = Some (operations_object ps)" using pl by (rule json_pretty_roundtrip)
  moreover have "?t \<noteq> []" by (simp add: operations_object_def Let_def)
  moreover have "obj_get (operations_object ps) (js ''operations'') = JArr ps" by (simp add: operations_object_def)
  ultimately show ?thesis
    using assms(1,3) by (simp add: parseInitialState_def Let_def operations_object_def del: json_pretty.simps)
qed

lemma editable_mode: "editable op \<Longrightarrow> op_mode op \<in> set OPERATION_MODE_VALUES"
  by (simp add: editable_def)

lemma complete_iff: "op_mode op \<in> set OPERATION_MODE_VALUES \<Longrightarrow> complete op \<longleftrightarrow> validate_operation op = None"
  by (rule valid_iff [OF mode_facts(1), symmetric])

lemma opened_complete:
  assumes "editable op" and "complete op" and "erase_ids op' = saved_operation op"
  shows "op_mode op' \<in> set OPERATION_MODE_VALUES" and "complete op'"
proof -
  have "op_mode op' = op_mode op" using arg_cong [OF assms(3), of op_mode] by simp
  then show mode: "op_mode op' \<in> set OPERATION_MODE_VALUES" using editable_mode [OF assms(1)] by simp
  have "validate_operation (saved_operation op) = None"
    using saved_complete [OF assms(1,2)] editable_mode [OF assms(1)] by (simp add: complete_iff)
  then show "complete op'" using erased_valid [of op'] mode by (simp add: complete_iff assms(3))
qed

lemma save_again:
  assumes "list_all (\<lambda>op. editable op \<and> complete op) ops" and "ops \<noteq> []"
    and "map erase_ids ops' = map saved_operation ops"
  shows "buildOperationsJson True ops' = Inr (json_pretty 0 (operations_object (map operation_payload ops)))"
proof -
  have "\<exists>op \<in> set ops. erase_ids op' = saved_operation op" if "op' \<in> set ops'" for op'
    using that assms(3) by (metis (no_types, lifting) in_set_conv_nth length_map nth_map)
  then have fine: "op_mode op' \<in> set OPERATION_MODE_VALUES \<and> complete op'" if "op' \<in> set ops'" for op'
    using that assms(1) opened_complete unfolding list_all_iff by metis
  have "filter (\<lambda>op. \<not> isOperationBlank op) ops' = ops'" using fine complete_not_blank by (simp add: filter_id_conv)
  moreover have "validate_from 1 ops' = None" using fine complete_iff by (auto simp: validate_all list_all_iff)
  moreover have "map operation_payload (map erase_ids ops') = map operation_payload ops"
    unfolding assms(3) using assms(1) saved_payload by (simp add: list_all_iff)
  then have "map operation_payload ops' = map operation_payload ops" by (simp add: o_def)
  moreover have "ops' \<noteq> []" using assms(2,3) by auto
  ultimately show ?thesis by (simp add: buildOperationsJson_def validateOperations_def del: json_pretty.simps)
qed

text \<open>The text of validated rules, read back and saved again.\<close>

lemma save_open_save:
  assumes "list_all editable ops" and "buildOperationsJson True ops = Inr saved" and "saved \<noteq> []"
  obtains vs ops' n' where "saved = json_pretty 0 (operations_object vs)" "vs \<noteq> []" "list_all plain vs"
    "normalize_list (normalizeOperation clock) n vs = Some (ops', n')"
    "map erase_ids ops' = map saved_operation (filter (\<lambda>op. \<not> isOperationBlank op) ops)"
    "buildOperationsJson True ops' = Inr saved"
proof -
  define kept where "kept = filter (\<lambda>op. \<not> isOperationBlank op) ops"
  have ne: "kept \<noteq> []" using assms(2,3) by (auto simp: buildOperationsJson_def kept_def)
  have ed: "list_all editable kept" using assms(1) by (auto simp: kept_def list_all_iff)
  have "validate_from 1 kept = None" and saved: "saved = json_pretty 0 (operations_object (map operation_payload kept))"
    using assms(2) ne by (auto simp: buildOperationsJson_def kept_def [symmetric] validateOperations_def Let_def
        split: option.splits simp del: json_pretty.simps)
  then have comp: "list_all (\<lambda>op. editable op \<and> complete op) kept"
    using ed editable_mode complete_iff by (auto simp: validate_all list_all_iff)
  obtain ops' n' where ops': "normalize_list (normalizeOperation clock) n (map operation_payload kept) = Some (ops', n')"
      "map erase_ids ops' = map saved_operation kept"
    using open_operations [OF ed] by blast
  show thesis
  proof (rule that [OF saved _ _ ops'(1)])
    show "list_all plain (map operation_payload kept)" using ed plain_operation by (simp add: list_all_iff)
    show "buildOperationsJson True ops' = Inr saved" using save_again [OF comp ne ops'(2)] saved by simp
  qed (use ne ops'(2) in \<open>simp_all add: kept_def\<close>)
qed

subsection \<open>Properties\<close>

text \<open>
  C24. What the rule editor saves is what it shows when it is opened again: the text of validated
  rules opens in the visual editor with the rules that are not blank, in order, each as it was
  saved, and saving these gives the same text, character by character. Value texts that are JSON
  string literals are excepted, because they are shown without their quotes.
\<close>

theorem override_resave_stable:
  assumes "list_all editable ops" and "buildOperationsJson True ops = Inr saved" and "saved \<noteq> []"
  shows "\<exists>view n'. parseInitialState clock n saved = Some (view, n') \<and> \<not> ev_json view \<and> \<not> ev_legacy view \<and>
     map erase_ids (ev_operations view) = map saved_operation (filter (\<lambda>op. \<not> isOperationBlank op) ops) \<and>
     buildOperationsJson True (ev_operations view) = Inr saved"
proof -
  obtain vs ops' n' where saved: "saved = json_pretty 0 (operations_object vs)" "vs \<noteq> []" "list_all plain vs"
      and ops': "normalize_list (normalizeOperation clock) n vs = Some (ops', n')"
      "map erase_ids ops' = map saved_operation (filter (\<lambda>op. \<not> isOperationBlank op) ops)"
      "buildOperationsJson True ops' = Inr saved"
    using save_open_save [OF assms] by blast
  show ?thesis
    using open_text [OF saved(2,3) ops'(1)] ops'(2,3) unfolding saved(1) [symmetric] by simp
qed

abbreviation blank_rule :: override_operation where
  "blank_rule \<equiv> \<lparr>op_id = [], op_description = [], op_path = [], op_mode = js ''set'', op_from = [], op_to = [],
     op_value_text = [], op_keep_origin = False, op_logic = js ''OR'', op_conditions = []\<rparr>"

definition demo_rules :: "override_operation list" where
  "demo_rules =
    [blank_rule\<lparr>op_path := js '' temperature '', op_value_text := js ''[true, \"a\"]'',
       op_conditions := [\<lparr>c_id = [], c_path = js ''model'', c_mode = js ''prefix'', c_value_text = js ''gpt'',
         c_invert = True, c_pass_missing_key = False\<rparr>]\<rparr>,
     blank_rule,
     blank_rule\<lparr>op_mode := js ''copy_header'', op_path := js ''X-Id''\<rparr>]"

lemma demo_rules_editable: "list_all editable demo_rules"
  by code_simp

lemma demo_rules_saved: obtains saved where "buildOperationsJson True demo_rules = Inr saved" "saved \<noteq> []"
proof -
  have "case buildOperationsJson True demo_rules of Inr s \<Rightarrow> s \<noteq> [] | Inl _ \<Rightarrow> False" by code_simp
  then show thesis using that by (auto split: sum.splits)
qed

theorem override_resave_stable_witness:
  "\<exists>view n' saved. buildOperationsJson True demo_rules = Inr saved \<and>
     parseInitialState (\<lambda>_. 0) 0 saved = Some (view, n') \<and> length (ev_operations view) = 2 \<and>
     buildOperationsJson True (ev_operations view) = Inr saved"
proof -
  obtain saved where saved: "buildOperationsJson True demo_rules = Inr saved" "saved \<noteq> []" by (rule demo_rules_saved)
  have "length (filter (\<lambda>op. \<not> isOperationBlank op) demo_rules) = 2" by code_simp
  then show ?thesis
    using override_resave_stable [OF demo_rules_editable saved, of "\<lambda>_. 0" 0] saved(1) by (metis length_map)
qed

text \<open>The exception is real: the value \<open>"true"\<close> is saved as a string, shown as \<open>true\<close>, and saved again
  as a boolean.\<close>

lemma quoted_value_changes:
  "case buildOperationsJson True [blank_rule\<lparr>op_path := js ''store'', op_value_text := js ''\"true\"''\<rparr>] of
     Inl _ \<Rightarrow> False
   | Inr saved \<Rightarrow> (case parseInitialState (\<lambda>_. 0) 0 saved of
       None \<Rightarrow> False
     | Some (view, _) \<Rightarrow> map op_value_text (ev_operations view) = [js ''true''] \<and>
         buildOperationsJson True (ev_operations view) \<noteq> Inr saved)"
  by code_simp

end
