(* ===== verification/ParamEditor.thy ===== *)
theory ParamEditor
  imports ParamRoundTrip "HOL-Library.Multiset"
begin

section \<open>Parameter overrides: the editor\<close>

text \<open>
  The state and the handlers of \<open>ParamOverrideEditorDialog\<close> in
  \<open>features/channels/components/dialogs/param-override-editor-dialog.tsx\<close>. A handler is a function on the
  state; the module's identifier counter is part of it. State updaters run once, in the order in
  which they are queued; an exception inside a handler is \<open>None\<close>. The texts of notices are values of
  \<open>editor_error\<close>.
\<close>

subsection \<open>State\<close>

datatype editor_error =
    InvalidJson | LegacyNotObject | RuleError override_error nat | JsonFormat | InitialInvalid

record editor_state =
  es_json :: bool
  es_legacy :: bool
  es_legacyValue :: jsstr
  es_operations :: "override_operation list"
  es_jsonText :: jsstr
  es_jsonError :: "editor_error option"
  es_search :: jsstr
  es_selected :: jsstr
  es_expanded :: "jsstr \<rightharpoonup> bool"
  es_dragged :: jsstr
  es_dragOver :: jsstr
  es_dragAfter :: bool
  es_preset :: jsstr
  es_ids :: nat

text \<open>\<open>operations[0]?.id || ''\<close>\<close>

definition first_id :: "override_operation list \<Rightarrow> jsstr" where
  "first_id ops = (case ops of op # _ \<Rightarrow> op_id op | [] \<Rightarrow> [])"

text \<open>The effect that runs when the dialog opens, on the state left by the previous opening.\<close>

definition open_editor :: "(nat \<Rightarrow> int) \<Rightarrow> jsstr \<Rightarrow> editor_state \<Rightarrow> editor_state option" where
  "open_editor clock rawValue st =
     (case parseInitialState clock (es_ids st) rawValue of
        None \<Rightarrow> None
      | Some (view, n) \<Rightarrow> Some
         \<lparr>es_json = ev_json view, es_legacy = ev_legacy view, es_legacyValue = ev_legacyValue view,
          es_operations = ev_operations view, es_jsonText = ev_jsonText view,
          es_jsonError = (if ev_invalid view then Some InitialInvalid else None), es_search = [],
          es_selected = first_id (ev_operations view), es_expanded = Map.empty, es_dragged = [],
          es_dragOver = [], es_dragAfter = False,
          es_preset = (if ev_legacy view then js ''legacy_default'' else js ''operations_default''),
          es_ids = n\<rparr>)"

text \<open>The effect that keeps the selection valid.\<close>

definition keep_selected :: "editor_state \<Rightarrow> editor_state" where
  "keep_selected st =
     (if es_operations st = [] then st\<lparr>es_selected := []\<rparr>
      else if es_selected st \<notin> set (map op_id (es_operations st))
      then st\<lparr>es_selected := op_id (hd (es_operations st))\<rparr> else st)"

subsection \<open>Derived values\<close>

definition operationCount :: "editor_state \<Rightarrow> nat" where
  "operationCount st = length (filter (\<lambda>op. \<not> isOperationBlank op) (es_operations st))"

definition searchable_text :: "(jsstr \<Rightarrow> jsstr) \<Rightarrow> override_operation \<Rightarrow> jsstr" where
  "searchable_text lower op = lower (js_join [32] (filter (\<lambda>s. s \<noteq> [])
     [op_description op, op_mode op, op_path op, op_from op, op_to op, op_value_text op]))"

definition filteredOperations :: "(jsstr \<Rightarrow> jsstr) \<Rightarrow> editor_state \<Rightarrow> override_operation list" where
  "filteredOperations lower st =
     (let keyword = lower (trim (es_search st))
      in if keyword = [] then es_operations st
         else filter (\<lambda>op. js_index (searchable_text lower op) keyword \<noteq> None) (es_operations st))"

definition selectedOperation :: "editor_state \<Rightarrow> override_operation option" where
  "selectedOperation st = find (\<lambda>op. op_id op = es_selected st) (es_operations st)"

definition returnErrorDraft :: "editor_state \<Rightarrow> return_error_draft option" where
  "returnErrorDraft st =
     (case selectedOperation st of
        Some op \<Rightarrow> if op_mode op = js ''return_error'' then Some (parseReturnErrorDraft (op_value_text op)) else None
      | None \<Rightarrow> None)"

definition pruneObjectsDraft :: "(nat \<Rightarrow> int) \<Rightarrow> editor_state \<Rightarrow> prune_draft option \<times> editor_state" where
  "pruneObjectsDraft clock st =
     (case selectedOperation st of
        Some op \<Rightarrow>
          (if op_mode op = js ''prune_objects'' then
            (case parsePruneObjectsDraft clock (es_ids st) (op_value_text op) of
               (draft, n) \<Rightarrow> (Some draft, st\<lparr>es_ids := n\<rparr>))
           else (None, st))
      | None \<Rightarrow> (None, st))"

fun count_modes :: "override_operation list \<Rightarrow> (jsstr \<times> nat) list \<Rightarrow> (jsstr \<times> nat) list" where
  "count_modes [] counts = counts"
| "count_modes (op # ops) counts =
     (let mode = (if op_mode op = [] then js ''set'' else op_mode op)
      in count_modes ops (case map_of counts mode of
           Some k \<Rightarrow> map (\<lambda>p. if fst p = mode then (mode, Suc k) else p) counts
         | None \<Rightarrow> counts @ [(mode, 1)]))"

definition topOperationModes :: "editor_state \<Rightarrow> (jsstr \<times> nat) list" where
  "topOperationModes st = take 4 (js_sort (\<lambda>a b. int (snd b) - int (snd a)) (count_modes (es_operations st) []))"

subsection \<open>Rules\<close>

definition updateOperation ::
  "jsstr \<Rightarrow> (override_operation \<Rightarrow> override_operation) \<Rightarrow> editor_state \<Rightarrow> editor_state" where
  "updateOperation operationId patch st =
     st\<lparr>es_operations := map (\<lambda>op. if op_id op = operationId then patch op else op) (es_operations st)\<rparr>"

definition addOperation :: "(nat \<Rightarrow> int) \<Rightarrow> editor_state \<Rightarrow> editor_state" where
  "addOperation clock st =
     (case createDefaultOperation clock (es_ids st) of
        (created, n) \<Rightarrow> st\<lparr>es_operations := es_operations st @ [created], es_selected := op_id created, es_ids := n\<rparr>)"

definition clone_condition :: "override_condition \<Rightarrow> jsval" where
  "clone_condition c = JObj [(js ''path'', JStr (c_path c)), (js ''mode'', JStr (c_mode c)),
     (js ''value'', parseLooseValue (c_value_text c)), (js ''invert'', JBool (c_invert c)),
     (js ''pass_missing_key'', JBool (c_pass_missing_key c))]"

definition clone_payload :: "override_operation \<Rightarrow> jsval" where
  "clone_payload op = JObj [(js ''description'', JStr (op_description op)), (js ''path'', JStr (op_path op)),
     (js ''mode'', JStr (op_mode op)), (js ''value'', parseLooseValue (op_value_text op)),
     (js ''keep_origin'', JBool (op_keep_origin op)), (js ''from'', JStr (op_from op)), (js ''to'', JStr (op_to op)),
     (js ''logic'', JStr (op_logic op)), (js ''conditions'', JArr (map clone_condition (op_conditions op)))]"

text \<open>The new identifier is known to the handler only when React runs the updater at once (\<open>eager\<close>).\<close>

definition duplicateOperation :: "(nat \<Rightarrow> int) \<Rightarrow> bool \<Rightarrow> jsstr \<Rightarrow> editor_state \<Rightarrow> editor_state" where
  "duplicateOperation clock eager operationId st =
     (case find_op (es_operations st) operationId of
        None \<Rightarrow> st
      | Some i \<Rightarrow>
        (case normalizeOperation clock (es_ids st) (clone_payload (es_operations st ! i)) of
           None \<Rightarrow> st
         | Some (cloned, n) \<Rightarrow>
           st\<lparr>es_operations := take (Suc i) (es_operations st) @ cloned # drop (Suc i) (es_operations st),
              es_selected := (if eager then op_id cloned else es_selected st), es_ids := n\<rparr>))"

definition removeOperation :: "(nat \<Rightarrow> int) \<Rightarrow> jsstr \<Rightarrow> editor_state \<Rightarrow> editor_state" where
  "removeOperation clock operationId st =
     (if length (es_operations st) \<le> 1
      then (case createDefaultOperation clock (es_ids st) of
         (created, n) \<Rightarrow> st\<lparr>es_operations := [created], es_ids := n\<rparr>)
      else st\<lparr>es_operations := filter (\<lambda>op. op_id op \<noteq> operationId) (es_operations st)\<rparr>)"

subsection \<open>Conditions\<close>

definition addCondition :: "(nat \<Rightarrow> int) \<Rightarrow> jsstr \<Rightarrow> editor_state \<Rightarrow> editor_state" where
  "addCondition clock operationId st =
     (case createDefaultCondition clock (es_ids st) of
        (created, n) \<Rightarrow>
          (updateOperation operationId (\<lambda>op. op\<lparr>op_conditions := op_conditions op @ [created]\<rparr>) st)
            \<lparr>es_expanded := (es_expanded st)(c_id created \<mapsto> True), es_ids := n\<rparr>)"

definition updateCondition ::
  "jsstr \<Rightarrow> jsstr \<Rightarrow> (override_condition \<Rightarrow> override_condition) \<Rightarrow> editor_state \<Rightarrow> editor_state" where
  "updateCondition operationId conditionId patch st =
     updateOperation operationId (\<lambda>op. op\<lparr>op_conditions :=
       map (\<lambda>c. if c_id c = conditionId then patch c else c) (op_conditions op)\<rparr>) st"

definition removeCondition :: "jsstr \<Rightarrow> jsstr \<Rightarrow> editor_state \<Rightarrow> editor_state" where
  "removeCondition operationId conditionId st =
     updateOperation operationId (\<lambda>op. op\<lparr>op_conditions :=
       filter (\<lambda>c. c_id c \<noteq> conditionId) (op_conditions op)\<rparr>) st"

text \<open>Showing and hiding the fields of all conditions of the selected rule.\<close>

definition mark_conditions :: "bool \<Rightarrow> editor_state \<Rightarrow> editor_state" where
  "mark_conditions b st =
     (case selectedOperation st of
        None \<Rightarrow> st
      | Some op \<Rightarrow> st\<lparr>es_expanded := es_expanded st ++ map_of (map (\<lambda>c. (c_id c, b)) (op_conditions op))\<rparr>)"

definition expandAllConditions :: "editor_state \<Rightarrow> editor_state" where
  "expandAllConditions st = mark_conditions True st"

definition collapseAllConditions :: "editor_state \<Rightarrow> editor_state" where
  "collapseAllConditions st = mark_conditions False st"

subsection \<open>Drafts of values\<close>

definition updateReturnErrorDraft ::
  "jsstr \<Rightarrow> (return_error_draft \<Rightarrow> return_error_draft) \<Rightarrow> editor_state \<Rightarrow> editor_state" where
  "updateReturnErrorDraft operationId patch st =
     updateOperation operationId (\<lambda>op. op\<lparr>op_value_text :=
       buildReturnErrorValueText (patch (parseReturnErrorDraft (op_value_text op)))\<rparr>) st"

text \<open>The identifiers of the rules of a draft are drawn anew each time the text is parsed; the updater
  may draw further ones. All rules with the identifier are updated, from left to right.\<close>

fun update_drafts ::
  "(nat \<Rightarrow> int) \<Rightarrow> nat \<Rightarrow> jsstr \<Rightarrow> (nat \<Rightarrow> prune_draft \<Rightarrow> prune_draft \<times> nat) \<Rightarrow> override_operation list \<Rightarrow>
   override_operation list \<times> nat" where
  "update_drafts clock n operationId updater [] = ([], n)"
| "update_drafts clock n operationId updater (op # ops) =
     (if op_id op \<noteq> operationId then
        (case update_drafts clock n operationId updater ops of (ops', n') \<Rightarrow> (op # ops', n'))
      else
        (case parsePruneObjectsDraft clock n (op_value_text op) of (draft, n1) \<Rightarrow>
         case updater n1 draft of (nextDraft, n2) \<Rightarrow>
         case update_drafts clock n2 operationId updater ops of (ops', n') \<Rightarrow>
           (op\<lparr>op_value_text := buildPruneObjectsValueText nextDraft\<rparr> # ops', n')))"

definition updatePruneObjectsDraft ::
  "(nat \<Rightarrow> int) \<Rightarrow> jsstr \<Rightarrow> (nat \<Rightarrow> prune_draft \<Rightarrow> prune_draft \<times> nat) \<Rightarrow> editor_state \<Rightarrow> editor_state" where
  "updatePruneObjectsDraft clock operationId updater st =
     (case update_drafts clock (es_ids st) operationId updater (es_operations st) of
        (ops, n) \<Rightarrow> st\<lparr>es_operations := ops, es_ids := n\<rparr>)"

definition addPruneRule :: "(nat \<Rightarrow> int) \<Rightarrow> jsstr \<Rightarrow> editor_state \<Rightarrow> editor_state" where
  "addPruneRule clock operationId st = updatePruneObjectsDraft clock operationId
     (\<lambda>n draft. case the (normalizePruneRule clock n (JObj [])) of (rule, n') \<Rightarrow>
        (draft\<lparr>pd_simpleMode := False, pd_rules := pd_rules draft @ [rule]\<rparr>, n')) st"

definition updatePruneRule ::
  "(nat \<Rightarrow> int) \<Rightarrow> jsstr \<Rightarrow> jsstr \<Rightarrow> (override_condition \<Rightarrow> override_condition) \<Rightarrow> editor_state \<Rightarrow> editor_state" where
  "updatePruneRule clock operationId ruleId patch st = updatePruneObjectsDraft clock operationId
     (\<lambda>n draft. (draft\<lparr>pd_rules := map (\<lambda>r. if c_id r = ruleId then patch r else r) (pd_rules draft)\<rparr>, n)) st"

definition removePruneRule :: "(nat \<Rightarrow> int) \<Rightarrow> jsstr \<Rightarrow> jsstr \<Rightarrow> editor_state \<Rightarrow> editor_state" where
  "removePruneRule clock operationId ruleId st = updatePruneObjectsDraft clock operationId
     (\<lambda>n draft. (draft\<lparr>pd_rules := filter (\<lambda>r. c_id r \<noteq> ruleId) (pd_rules draft)\<rparr>, n)) st"

subsection \<open>Dragging\<close>

definition resetDragState :: "editor_state \<Rightarrow> editor_state" where
  "resetDragState st = st\<lparr>es_dragged := [], es_dragOver := [], es_dragAfter := False\<rparr>"

definition handleDragStart :: "jsstr \<Rightarrow> editor_state \<Rightarrow> editor_state" where
  "handleDragStart operationId st = st\<lparr>es_dragged := operationId, es_selected := operationId\<rparr>"

text \<open>\<open>below\<close>: the pointer is in the lower half of the row.\<close>

definition handleDragOver :: "jsstr \<Rightarrow> bool \<Rightarrow> editor_state \<Rightarrow> editor_state" where
  "handleDragOver operationId below st =
     (if es_dragged st = [] \<or> es_dragged st = operationId then st
      else st\<lparr>es_dragOver := operationId, es_dragAfter := below\<rparr>)"

definition handleDrop :: "jsstr \<Rightarrow> jsstr \<Rightarrow> editor_state \<Rightarrow> editor_state" where
  "handleDrop transferred operationId st =
     (let sourceId = (if es_dragged st \<noteq> [] then es_dragged st else transferred);
          after = (es_dragOver st = operationId \<and> es_dragAfter st)
      in resetDragState
           (if sourceId \<noteq> [] \<and> operationId \<noteq> [] \<and> sourceId \<noteq> operationId
            then st\<lparr>es_operations := reorderOperations (es_operations st) sourceId operationId after,
                    es_selected := sourceId\<rparr>
            else st))"

subsection \<open>Visual and JSON view\<close>

definition buildVisualJson :: "editor_state \<Rightarrow> editor_error + jsstr" where
  "buildVisualJson st =
     (if es_legacy st then
        (let trimmed = trim (es_legacyValue st)
         in if trimmed = [] then Inr []
            else case json_parse trimmed of
              None \<Rightarrow> Inl InvalidJson
            | Some (JObj ps) \<Rightarrow> Inr (json_pretty 0 (JObj ps))
            | Some _ \<Rightarrow> Inl LegacyNotObject)
      else case buildOperationsJson True (es_operations st) of
        Inl (e, line) \<Rightarrow> Inl (RuleError e line)
      | Inr s \<Rightarrow> Inr s)"

definition switchToJsonMode :: "editor_state \<Rightarrow> editor_state" where
  "switchToJsonMode st =
     (if es_json st then st
      else case buildVisualJson st of
        Inr s \<Rightarrow> st\<lparr>es_jsonText := s, es_jsonError := None, es_json := True\<rparr>
      | Inl e \<Rightarrow> st\<lparr>es_jsonText := (if es_legacy st then es_legacyValue st
            else case buildOperationsJson False (es_operations st) of Inr s \<Rightarrow> s | Inl _ \<Rightarrow> es_jsonText st),
          es_jsonError := Some e, es_json := True\<rparr>)"

text \<open>One fresh blank rule, selected.\<close>

definition fallback_rule :: "(nat \<Rightarrow> int) \<Rightarrow> editor_state \<Rightarrow> editor_state" where
  "fallback_rule clock st =
     (case createDefaultOperation clock (es_ids st) of
        (created, n) \<Rightarrow> st\<lparr>es_operations := [created], es_selected := op_id created, es_ids := n\<rparr>)"

text \<open>The JSON view holds an object: its rules, or the object itself in the legacy form.\<close>

definition show_object :: "(nat \<Rightarrow> int) \<Rightarrow> (jsstr \<times> jsval) list \<Rightarrow> editor_state \<Rightarrow> editor_state option" where
  "show_object clock ps st =
     (case obj_get (JObj ps) (js ''operations'') of
        JArr vs \<Rightarrow>
          (case (if vs = [] then Some ([fst (createDefaultOperation clock (es_ids st))],
                     snd (createDefaultOperation clock (es_ids st)))
                 else normalize_list (normalizeOperation clock) (es_ids st) vs) of
             None \<Rightarrow> None
           | Some (nextOps, n) \<Rightarrow> Some (st\<lparr>es_legacy := False, es_operations := nextOps,
               es_selected := first_id nextOps, es_legacyValue := [], es_jsonError := None,
               es_json := False, es_preset := js ''operations_default'', es_ids := n\<rparr>))
      | _ \<Rightarrow> Some ((fallback_rule clock st)\<lparr>es_legacy := True, es_legacyValue := json_pretty 0 (JObj ps),
          es_jsonError := None, es_json := False, es_preset := js ''legacy_default''\<rparr>))"

definition switchToVisualMode :: "(nat \<Rightarrow> int) \<Rightarrow> editor_state \<Rightarrow> editor_state option" where
  "switchToVisualMode clock st =
     (let trimmed = trim (es_jsonText st)
      in if \<not> es_json st then Some st
         else if trimmed = [] then
           Some ((fallback_rule clock st)\<lparr>es_legacy := False, es_legacyValue := [], es_jsonError := None, es_json := False\<rparr>)
         else case json_parse trimmed of Some (JObj ps) \<Rightarrow> show_object clock ps st | _ \<Rightarrow> Some st)"

definition handleJsonChange :: "jsstr \<Rightarrow> editor_state \<Rightarrow> editor_state" where
  "handleJsonChange nextValue st =
     (let trimmed = trim nextValue
      in st\<lparr>es_jsonText := nextValue,
           es_jsonError := (if trimmed = [] \<or> verifyJSON trimmed then None else Some JsonFormat)\<rparr>)"

definition formatJson :: "editor_state \<Rightarrow> editor_state" where
  "formatJson st =
     (let trimmed = trim (es_jsonText st)
      in if trimmed = [] then st
         else case json_parse trimmed of
           None \<Rightarrow> st
         | Some v \<Rightarrow> st\<lparr>es_jsonText := json_pretty 0 v, es_jsonError := None\<rparr>)"

definition visualValidationError :: "editor_state \<Rightarrow> editor_error option" where
  "visualValidationError st =
     (if es_json st then None else case buildVisualJson st of Inl e \<Rightarrow> Some e | Inr _ \<Rightarrow> None)"

text \<open>What is passed to \<open>onSave\<close>, or the notice shown instead.\<close>

definition handleSave :: "editor_state \<Rightarrow> editor_error + jsstr" where
  "handleSave st =
     (if es_json st then
        (let trimmed = trim (es_jsonText st)
         in if trimmed = [] then Inr []
            else case json_parse trimmed of None \<Rightarrow> Inl InvalidJson | Some v \<Rightarrow> Inr (json_pretty 0 v))
      else buildVisualJson st)"

subsection \<open>Templates\<close>

definition current_preset :: "editor_state \<Rightarrow> template_preset" where
  "current_preset st =
     (case map_of TEMPLATE_PRESET_CONFIG (es_preset st) of
        Some p \<Rightarrow> p | None \<Rightarrow> the (map_of TEMPLATE_PRESET_CONFIG (js ''operations_default'')))"

text \<open>\<open>{ ...a, ...b }\<close> for a value \<open>b\<close> of any kind: the members of an object, the elements of an array or
  the units of a string under their index, nothing for the rest.\<close>

definition spread_members :: "jsval \<Rightarrow> (jsstr \<times> jsval) list" where
  "spread_members v =
     (case v of
        JObj ps \<Rightarrow> obj_entries ps
      | JArr vs \<Rightarrow> map (\<lambda>i. (int_str (int i), vs ! i)) [0..<length vs]
      | JStr s \<Rightarrow> map (\<lambda>i. (int_str (int i), JStr [s ! i])) [0..<length s]
      | _ \<Rightarrow> [])"

definition show_legacy :: "(nat \<Rightarrow> int) \<Rightarrow> jsval \<Rightarrow> editor_state \<Rightarrow> editor_state" where
  "show_legacy clock v st =
     (case createDefaultOperation clock (es_ids st) of
        (created, n) \<Rightarrow> st\<lparr>es_legacy := True, es_legacyValue := json_pretty 0 v, es_operations := [created],
          es_jsonText := json_pretty 0 v, es_jsonError := None, es_json := False, es_ids := n\<rparr>)"

definition fillTemplate :: "(nat \<Rightarrow> int) \<Rightarrow> bool \<Rightarrow> editor_state \<Rightarrow> editor_state option" where
  "fillTemplate clock appending st =
     (let preset = current_preset st; payload = preset_payload preset;
          ps = (case payload of JObj qs \<Rightarrow> qs | _ \<Rightarrow> []);
          operationsPayload = arr_of (obj_get payload (js ''operations''))
      in if preset_legacy preset then
           (if appending \<and> es_legacy st then
              (let trimmed = trim (es_legacyValue st)
               in if trimmed = [] then Some (show_legacy clock payload st)
                  else case json_parse trimmed of
                    None \<Rightarrow> Some st
                  | Some v \<Rightarrow> Some (show_legacy clock (JObj (foldl obj_put ps (spread_members v))) st))
            else Some (show_legacy clock payload st))
         else case normalize_list (normalizeOperation clock) (es_ids st) operationsPayload of
           None \<Rightarrow> None
         | Some (filled, n) \<Rightarrow>
           if appending then
             (let existing = (if es_legacy st then [] else filter (\<lambda>op. \<not> isOperationBlank op) (es_operations st));
                  nextOps = existing @ filled
              in Some (st\<lparr>es_legacy := False, es_operations := nextOps, es_selected := first_id nextOps,
                   es_legacyValue := [], es_jsonError := None, es_json := False, es_jsonText := [], es_ids := n\<rparr>))
           else
             (let (finalOps, n') = (if filled \<noteq> [] then (filled, n)
                else ([fst (createDefaultOperation clock n)], snd (createDefaultOperation clock n)))
              in Some (st\<lparr>es_legacy := False, es_operations := finalOps, es_selected := first_id finalOps,
                   es_jsonText := json_pretty 0 (operations_object operationsPayload), es_jsonError := None,
                   es_json := False, es_ids := n'\<rparr>)))"

definition resetEditorState :: "(nat \<Rightarrow> int) \<Rightarrow> editor_state \<Rightarrow> editor_state" where
  "resetEditorState clock st =
     (fallback_rule clock st)\<lparr>es_legacy := False, es_legacyValue := [], es_jsonText := [], es_jsonError := None,
       es_preset := js ''operations_default'', es_json := False\<rparr>"

subsection \<open>The editor as a state machine\<close>

definition editor_start :: "(nat \<Rightarrow> int) \<Rightarrow> nat \<Rightarrow> editor_state" where
  "editor_start clock n =
     (case createDefaultOperation clock n of
        (created, n') \<Rightarrow>
          \<lparr>es_json = False, es_legacy = False, es_legacyValue = [], es_operations = [created], es_jsonText = [],
           es_jsonError = None, es_search = [], es_selected = [], es_expanded = Map.empty, es_dragged = [],
           es_dragOver = [], es_dragAfter = False, es_preset = js ''operations_default'', es_ids = n'\<rparr>)"

text \<open>The fields of the form write everything but identifiers and the list of conditions.\<close>

definition keeps_ids :: "(override_operation \<Rightarrow> override_operation) \<Rightarrow> bool" where
  "keeps_ids patch \<longleftrightarrow> (\<forall>op. op_id (patch op) = op_id op \<and> op_conditions (patch op) = op_conditions op)"

definition keeps_condition_id :: "(override_condition \<Rightarrow> override_condition) \<Rightarrow> bool" where
  "keeps_condition_id patch \<longleftrightarrow> (\<forall>c. c_id (patch c) = c_id c)"

inductive handler :: "(nat \<Rightarrow> int) \<Rightarrow> editor_state \<Rightarrow> editor_state \<Rightarrow> bool" for clock where
  opened: "open_editor clock raw st = Some st' \<Longrightarrow> handler clock st st'"
| edit: "keeps_ids patch \<Longrightarrow> handler clock st (updateOperation i patch st)"
| add: "handler clock st (addOperation clock st)"
| duplicate: "handler clock st (duplicateOperation clock eager i st)"
| remove: "handler clock st (removeOperation clock i st)"
| add_condition: "handler clock st (addCondition clock i st)"
| edit_condition: "keeps_condition_id cpatch \<Longrightarrow> handler clock st (updateCondition i k cpatch st)"
| remove_condition: "handler clock st (removeCondition i k st)"
| mark: "handler clock st (mark_conditions b st)"
| return_error: "handler clock st (updateReturnErrorDraft i rpatch st)"
| render_prune: "handler clock st (snd (pruneObjectsDraft clock st))"
| edit_prune: "handler clock st (updatePruneObjectsDraft clock i (\<lambda>n d. (dpatch d, n)) st)"
| add_prune: "handler clock st (addPruneRule clock i st)"
| edit_prune_rule: "handler clock st (updatePruneRule clock i k cpatch st)"
| remove_prune_rule: "handler clock st (removePruneRule clock i k st)"
| drag_start: "handler clock st (handleDragStart i st)"
| drag_over: "handler clock st (handleDragOver i below st)"
| drag_end: "handler clock st (resetDragState st)"
| drop: "handler clock st (handleDrop transferred i st)"
| to_json: "handler clock st (switchToJsonMode st)"
| to_visual: "switchToVisualMode clock st = Some st' \<Longrightarrow> handler clock st st'"
| type_json: "handler clock st (handleJsonChange s st)"
| reformat: "handler clock st (formatJson st)"
| type_legacy: "handler clock st (st\<lparr>es_legacyValue := s\<rparr>)"
| search: "handler clock st (st\<lparr>es_search := s\<rparr>)"
| select: "handler clock st (st\<lparr>es_selected := i\<rparr>)"
| choose: "handler clock st (st\<lparr>es_preset := k\<rparr>)"
| fill: "fillTemplate clock appending st = Some st' \<Longrightarrow> handler clock st st'"
| reset: "handler clock st (resetEditorState clock st)"

text \<open>Every handler is followed by the effect that keeps the selection valid.\<close>

inductive editor_reachable :: "(nat \<Rightarrow> int) \<Rightarrow> editor_state \<Rightarrow> bool" for clock where
  start: "editor_reachable clock (keep_selected (editor_start clock n))"
| step: "editor_reachable clock st \<Longrightarrow> handler clock st st' \<Longrightarrow> editor_reachable clock (keep_selected st')"

subsection \<open>Identifiers\<close>

lemma split_at_mark:
  assumes "a @ c # s = b @ c # t" and "c \<notin> set s" and "c \<notin> set t"
  shows "s = t"
proof -
  have "takeWhile (\<lambda>x. x \<noteq> c) (rev (a @ c # s)) = rev s" using assms(2) by (subst rev_append) (auto simp: takeWhile_tail)
  moreover have "takeWhile (\<lambda>x. x \<noteq> c) (rev (b @ c # t)) = rev t" using assms(3) by (subst rev_append) (auto simp: takeWhile_tail)
  ultimately show ?thesis using assms(1) by (metis rev_rev_ident)
qed

lemma nextLocalId_inject [simp]: "nextLocalId clock m = nextLocalId clock n \<longleftrightarrow> m = n"
proof
  assume eq: "nextLocalId clock m = nextLocalId clock n"
  have no_mark: "95 \<notin> set (int_str (int k))" for k
    using int_digits_digit [of "int k" 95] by (auto simp: int_str_def is_digit_def)
  have "int_str (int m) = int_str (int n)"
    using split_at_mark [OF _ no_mark no_mark, of "js ''po_'' @ int_str (clock m)" m "js ''po_'' @ int_str (clock n)" n] eq
    by (simp add: nextLocalId_def js_lit)
  then show "m = n" using int_digits_inj [of "int m" "int n"] by (simp add: int_str_def)
qed simp

lemma inj_nextLocalId: "inj (nextLocalId clock)"
  by (simp add: inj_def)

definition ids_between :: "(nat \<Rightarrow> int) \<Rightarrow> nat \<Rightarrow> nat \<Rightarrow> jsstr set" where
  "ids_between clock m n = nextLocalId clock ` {m..<n}"

lemma ids_between_mono: "i \<in> ids_between clock m n \<Longrightarrow> m' \<le> m \<Longrightarrow> n \<le> n' \<Longrightarrow> i \<in> ids_between clock m' n'"
  by (auto simp: ids_between_def)

lemma ids_between_disjoint: "i \<in> ids_between clock m n \<Longrightarrow> i \<in> ids_between clock n n' \<Longrightarrow> False"
  by (auto simp: ids_between_def)

lemma ids_between_Suc [simp]: "nextLocalId clock m \<in> ids_between clock m (Suc m)"
  by (simp add: ids_between_def)

lemma normalize_list_ids:
  assumes "normalize_list f n vs = Some (xs, n')"
    and "\<And>n v x n'. f n v = Some (x, n') \<Longrightarrow> n \<le> n' \<and> key x \<in> ids_between clock n n'"
  shows "n \<le> n' \<and> distinct (map key xs) \<and> key ` set xs \<subseteq> ids_between clock n n'"
  using assms(1)
proof (induction vs arbitrary: n xs)
  case (Cons v vs)
  obtain x n1 ys where x: "f n v = Some (x, n1)" and ys: "normalize_list f n1 vs = Some (ys, n')" "xs = x # ys"
    using Cons.prems by (auto split: option.splits)
  have k: "n \<le> n1" "key x \<in> ids_between clock n n1" using assms(2) [OF x] by auto
  have r: "n1 \<le> n'" "distinct (map key ys)" "key ` set ys \<subseteq> ids_between clock n1 n'" using Cons.IH [OF ys(1)] by auto
  have "key x \<notin> key ` set ys" using k(2) r(3) ids_between_disjoint by blast
  moreover have "key ` set ys \<subseteq> ids_between clock n n'" "key x \<in> ids_between clock n n'"
    using k r ids_between_mono by blast+
  ultimately show ?case using k(1) r(1,2) ys(2) by auto
qed simp

lemma normalize_list_mono:
  assumes "normalize_list f n vs = Some (xs, n')" and "\<And>n v x n'. f n v = Some (x, n') \<Longrightarrow> n \<le> n'"
  shows "n \<le> n'"
  using assms(1) by (induction vs arbitrary: n xs) (force dest: assms(2) split: option.splits)+

lemma normalize_list_all:
  assumes "normalize_list f n vs = Some (xs, n')" and "\<And>n v x n'. f n v = Some (x, n') \<Longrightarrow> n \<le> n'" and "x \<in> set xs"
  shows "\<exists>m v m'. f m v = Some (x, m') \<and> m' \<le> n'"
  using assms(1,3)
proof (induction vs arbitrary: n xs)
  case (Cons v vs)
  obtain y n1 ys where y: "f n v = Some (y, n1)" "normalize_list f n1 vs = Some (ys, n')" "xs = y # ys"
    using Cons.prems by (auto split: option.splits)
  have "n1 \<le> n'" by (rule normalize_list_mono [OF y(2)]) (rule assms(2))
  then show ?case using Cons.IH [OF y(2)] Cons.prems(2) y by auto
qed simp

subsection \<open>The invariant\<close>

definition conditions_ok :: "(nat \<Rightarrow> int) \<Rightarrow> nat \<Rightarrow> override_operation \<Rightarrow> bool" where
  "conditions_ok clock n op \<longleftrightarrow>
     distinct (map c_id (op_conditions op)) \<and> c_id ` set (op_conditions op) \<subseteq> ids_between clock 0 n"

definition ids_ok :: "(nat \<Rightarrow> int) \<Rightarrow> nat \<Rightarrow> override_operation list \<Rightarrow> bool" where
  "ids_ok clock n ops \<longleftrightarrow> distinct (map op_id ops) \<and> op_id ` set ops \<subseteq> ids_between clock 0 n \<and>
     (\<forall>op \<in> set ops. conditions_ok clock n op)"

definition rules_ok :: "(nat \<Rightarrow> int) \<Rightarrow> editor_state \<Rightarrow> bool" where
  "rules_ok clock st \<longleftrightarrow> es_operations st \<noteq> [] \<and> ids_ok clock (es_ids st) (es_operations st)"

lemma conditions_ok_mono: "conditions_ok clock m op \<Longrightarrow> m \<le> n \<Longrightarrow> conditions_ok clock n op"
  by (auto simp: conditions_ok_def intro: ids_between_mono)

lemma ids_ok_mono: "ids_ok clock m ops \<Longrightarrow> m \<le> n \<Longrightarrow> ids_ok clock n ops"
  by (auto simp: ids_ok_def intro: ids_between_mono conditions_ok_mono)

lemma condition_ids: "normalizeOverrideCondition clock n v = Some (c, n') \<Longrightarrow> n \<le> n' \<and> c_id c \<in> ids_between clock n n'"
  by (auto simp: normalizeOverrideCondition_def split: if_splits)

lemma operation_ids:
  assumes "normalizeOperation clock n v = Some (op, n')"
  shows "n \<le> n'" and "op_id op \<in> ids_between clock n n'" and "conditions_ok clock n' op"
proof -
  obtain cs where cs: "normalize_list (normalizeOverrideCondition clock) (Suc n) (arr_of (obj_get v (js ''conditions''))) = Some (cs, n')"
      "op_conditions op = cs" "op_id op = nextLocalId clock n"
    using assms by (auto simp: normalizeOperation_def split: if_splits option.splits)
  have ids: "Suc n \<le> n'" "distinct (map c_id cs)" "c_id ` set cs \<subseteq> ids_between clock (Suc n) n'"
    using normalize_list_ids [where key = c_id, OF cs(1) condition_ids] by auto
  then show "n \<le> n'" "conditions_ok clock n' op"
    using cs(2) by (auto simp: conditions_ok_def intro: ids_between_mono)
  show "op_id op \<in> ids_between clock n n'" using ids(1) by (simp add: cs(3) ids_between_mono [OF ids_between_Suc])
qed

lemma operations_ids:
  assumes "normalize_list (normalizeOperation clock) n vs = Some (ops, n')"
  shows "n \<le> n'" and "ids_ok clock n' ops" and "op_id ` set ops \<subseteq> ids_between clock n n'"
proof -
  have ids: "n \<le> n'" "distinct (map op_id ops)" "op_id ` set ops \<subseteq> ids_between clock n n'"
    using normalize_list_ids [where key = op_id and clock = clock, OF assms] operation_ids(1,2) by blast+
  moreover have "conditions_ok clock n' op" if op: "op \<in> set ops" for op
  proof -
    have "\<exists>m v m'. normalizeOperation clock m v = Some (op, m') \<and> m' \<le> n'"
      by (rule normalize_list_all [OF assms _ op]) (rule operation_ids(1))
    then show ?thesis using operation_ids(3) conditions_ok_mono by blast
  qed
  ultimately show "n \<le> n'" "ids_ok clock n' ops" "op_id ` set ops \<subseteq> ids_between clock n n'"
    by (auto simp: ids_ok_def intro: ids_between_mono)
qed

lemma default_ids:
  assumes "createDefaultOperation clock n = (op, n')"
  shows "n \<le> n'" and "op_id op \<in> ids_between clock n n'" and "conditions_ok clock n' op" and "ids_ok clock n' [op]"
proof -
  have "normalizeOperation clock n (JObj [(js ''mode'', JStr (js ''set''))]) = Some (op, n')"
    using assms by (auto simp: createDefaultOperation_def normalizeOperation_def js_inject arr_of_def)
  note ids = operation_ids [OF this]
  then show "n \<le> n'" "op_id op \<in> ids_between clock n n'" "conditions_ok clock n' op" by auto
  then show "ids_ok clock n' [op]" by (auto simp: ids_ok_def intro: ids_between_mono)
qed

subsection \<open>Lists of rules with their identifiers\<close>

lemma ids_ok_map:
  assumes "ids_ok clock n ops" and "n \<le> n'"
    and "\<And>op. op \<in> set ops \<Longrightarrow> op_id (f op) = op_id op \<and> conditions_ok clock n' (f op)"
  shows "ids_ok clock n' (map f ops)"
proof -
  have "map op_id (map f ops) = map op_id ops" using assms(3) by simp
  then have "distinct (map op_id (map f ops))" using assms(1) by (simp only: ids_ok_def)
  moreover have "op_id ` set (map f ops) \<subseteq> ids_between clock 0 n'"
    using assms by (auto simp: ids_ok_def intro: ids_between_mono)
  ultimately show ?thesis using assms(3) by (auto simp: ids_ok_def)
qed

lemma ids_ok_filter: "ids_ok clock n ops \<Longrightarrow> ids_ok clock n (filter P ops)"
  by (auto simp: ids_ok_def distinct_map_filter)

lemma ids_ok_same:
  assumes "ids_ok clock n ops" and "mset ops' = mset ops"
  shows "ids_ok clock n ops'"
proof -
  have "mset (map op_id ops') = mset (map op_id ops)" "set ops' = set ops"
    using assms(2) mset_eq_setD by (auto simp: mset_map)
  then show ?thesis using assms(1) mset_eq_imp_distinct_iff unfolding ids_ok_def by metis
qed

lemma ids_ok_append:
  assumes "ids_ok clock n ops" and "ids_ok clock n' new" and "n \<le> n'" and "op_id ` set new \<subseteq> ids_between clock n n'"
  shows "ids_ok clock n' (ops @ new)"
proof -
  have "op_id ` set ops \<subseteq> ids_between clock 0 n" using assms(1) by (simp add: ids_ok_def)
  then have "op_id ` set ops \<inter> op_id ` set new = {}" using assms(4) ids_between_disjoint by blast
  then show ?thesis using assms(2) ids_ok_mono [OF assms(1,3)] by (auto simp: ids_ok_def)
qed

lemma mset_insert_at: "mset (take k xs @ x # drop k xs) = add_mset x (mset xs)"
  using arg_cong [OF append_take_drop_id, of mset k xs] by (simp del: append_take_drop_id)

lemma ids_ok_insert:
  assumes "ids_ok clock n ops" and "ids_ok clock n' [op]" and "n \<le> n'" and "op_id op \<in> ids_between clock n n'"
  shows "ids_ok clock n' (take k ops @ op # drop k ops)"
proof (rule ids_ok_same)
  show "ids_ok clock n' (ops @ [op])" using assms by (intro ids_ok_append) auto
  show "mset (take k ops @ op # drop k ops) = mset (ops @ [op])" by (simp only: mset_insert_at) simp
qed

text \<open>Moving a rule.\<close>

lemma find_op_Some:
  assumes "find_op ops i = Some k"
  shows "k < length ops" and "op_id (ops ! k) = i"
  using assms by (induction ops arbitrary: k) (auto split: if_splits)

lemma find_op_None: "find_op ops i = None \<longleftrightarrow> i \<notin> op_id ` set ops"
  by (induction ops) auto

lemma mset_reorder: "mset (reorderOperations ops a b after) = mset ops"
proof -
  have "mset (take j (take k ops @ drop (Suc k) ops) @ ops ! k # drop j (take k ops @ drop (Suc k) ops)) = mset ops"
    if "k < length ops" for j k
    using arg_cong [OF id_take_nth_drop [OF that], of mset] by (simp only: mset_insert_at) simp
  then show ?thesis
    unfolding reorderOperations_def using find_op_Some(1) by (auto simp: Let_def split: option.splits)
qed

subsection \<open>Drafts of \<open>prune_objects\<close>\<close>

lemma prune_rules_parse:
  assumes "\<forall>v \<in> set vs. \<not> is_nullish v"
  shows "\<exists>rules n'. normalize_list (normalizePruneRule clock) n vs = Some (rules, n')"
  using assms
proof (induction vs arbitrary: n)
  case (Cons v vs)
  then obtain r where "normalizePruneRule clock n v = Some (r, Suc n)"
    by (simp add: normalizePruneRule_def normalizeOverrideCondition_def)
  moreover obtain rules n' where "normalize_list (normalizePruneRule clock) (Suc n) vs = Some (rules, n')"
    using Cons by fastforce
  ultimately show ?case by simp
qed simp

lemma rule_objects_nonnull: "v \<in> set (rule_objects parsed) \<Longrightarrow> \<not> is_nullish v"
  by (auto simp: rule_objects_def member_rules_def where_rule_def is_object_val_def split: jsval.splits)

lemma parse_draft_ids:
  assumes "parsePruneObjectsDraft clock n s = (draft, n')"
  shows "n \<le> n' \<and> c_id ` set (pd_rules draft) \<subseteq> ids_between clock n n'"
proof -
  have "n \<le> snd (the (normalize_list (normalizePruneRule clock) n (rule_objects v))) \<and>
      c_id ` set (fst (the (normalize_list (normalizePruneRule clock) n (rule_objects v)))) \<subseteq>
        ids_between clock n (snd (the (normalize_list (normalizePruneRule clock) n (rule_objects v))))" for v
  proof -
    obtain rules m where r: "normalize_list (normalizePruneRule clock) n (rule_objects v) = Some (rules, m)"
      using prune_rules_parse rule_objects_nonnull by metis
    have "n \<le> m \<and> distinct (map c_id rules) \<and> c_id ` set rules \<subseteq> ids_between clock n m"
      by (rule normalize_list_ids [OF r]) (simp add: normalizePruneRule_def condition_ids)
    then show ?thesis by (simp add: r)
  qed
  note ids = this
  consider (obj) ps where "trim s \<noteq> []" "json_parse (trim s) = Some (JObj ps)"
    | (simple) "n' = n" "pd_rules draft = []"
    using assms
    by (cases "trim s = []"; cases "json_parse (trim s)")
      (auto simp: parsePruneObjectsDraft_def prune_default_def Let_def split: jsval.splits)
  then show ?thesis
  proof cases
    case obj
    then have "n' = snd (the (normalize_list (normalizePruneRule clock) n (rule_objects (JObj ps))))"
        "pd_rules draft = fst (the (normalize_list (normalizePruneRule clock) n (rule_objects (JObj ps))))"
      using assms by (auto simp: parsePruneObjectsDraft_def Let_def case_prod_beta)
    then show ?thesis using ids [of "JObj ps"] by simp
  qed simp
qed

definition draws_on :: "(nat \<Rightarrow> prune_draft \<Rightarrow> prune_draft \<times> nat) \<Rightarrow> bool" where
  "draws_on updater \<longleftrightarrow> (\<forall>n d. n \<le> snd (updater n d))"

lemma update_drafts_ids:
  assumes "update_drafts clock n i updater ops = (ops', n')" and "draws_on updater"
  shows "n \<le> n' \<and> map op_id ops' = map op_id ops \<and> map op_conditions ops' = map op_conditions ops"
  using assms(1)
proof (induction ops arbitrary: n ops')
  case (Cons op ops)
  obtain draft n1 where d: "parsePruneObjectsDraft clock n (op_value_text op) = (draft, n1)" by fastforce
  obtain next2 n2 where u: "updater n1 draft = (next2, n2)" by fastforce
  have "n1 \<le> n2" using assms(2) u unfolding draws_on_def by (metis snd_conv)
  then show ?case using Cons d u parse_draft_ids [OF d] by (fastforce split: prod.splits if_splits)
qed simp

subsection \<open>Every handler keeps the invariant\<close>

lemma rules_okI: "ops \<noteq> [] \<Longrightarrow> ids_ok clock n ops \<Longrightarrow> es_operations st = ops \<Longrightarrow> es_ids st = n \<Longrightarrow> rules_ok clock st"
  by (simp add: rules_ok_def)

lemma rules_okD: "rules_ok clock st \<Longrightarrow> es_operations st \<noteq> []" "rules_ok clock st \<Longrightarrow> ids_ok clock (es_ids st) (es_operations st)"
  by (simp_all add: rules_ok_def)

lemma ok_cong: "rules_ok clock st \<Longrightarrow> es_operations st' = es_operations st \<Longrightarrow> es_ids st' = es_ids st \<Longrightarrow> rules_ok clock st'"
  by (simp add: rules_ok_def)

lemma ok_update:
  assumes "rules_ok clock st" and "\<And>op. op_id (f op) = op_id op"
    and "\<And>op. conditions_ok clock (es_ids st) op \<Longrightarrow> conditions_ok clock (es_ids st) (f op)"
  shows "rules_ok clock (updateOperation i f st)"
  using rules_okD [OF assms(1)] assms(2,3)
  by (intro rules_okI [OF _ ids_ok_map [of clock "es_ids st" "es_operations st" "es_ids st"
          "\<lambda>op. if op_id op = i then f op else op"]])
    (auto simp: updateOperation_def ids_ok_def)

lemma conditions_ok_same: "map c_id (op_conditions op') = map c_id (op_conditions op) \<Longrightarrow> conditions_ok clock n op \<Longrightarrow> conditions_ok clock n op'"
  unfolding conditions_ok_def by (metis list.set_map)

lemma ok_edit: "rules_ok clock st \<Longrightarrow> keeps_ids patch \<Longrightarrow> rules_ok clock (updateOperation i patch st)"
  by (rule ok_update) (auto simp: keeps_ids_def conditions_ok_def)

lemma ok_edit_condition:
  assumes "rules_ok clock st" and "keeps_condition_id patch"
  shows "rules_ok clock (updateCondition i k patch st)"
  unfolding updateCondition_def
proof (rule ok_update [OF assms(1)])
  fix op :: override_operation
  let ?op' = "op\<lparr>op_conditions := map (\<lambda>c. if c_id c = k then patch c else c) (op_conditions op)\<rparr>"
  have "map c_id (op_conditions ?op') = map c_id (op_conditions op)" using assms(2) by (simp add: keeps_condition_id_def)
  then show "conditions_ok clock (es_ids st) op \<Longrightarrow> conditions_ok clock (es_ids st) ?op'" by (rule conditions_ok_same)
qed simp

lemma ok_remove_condition: "rules_ok clock st \<Longrightarrow> rules_ok clock (removeCondition i k st)"
  unfolding removeCondition_def by (intro ok_update) (auto simp: conditions_ok_def distinct_map_filter)

lemma ok_return_error: "rules_ok clock st \<Longrightarrow> rules_ok clock (updateReturnErrorDraft i patch st)"
  unfolding updateReturnErrorDraft_def by (rule ok_update) (auto simp: conditions_ok_def)

lemma ok_add_condition:
  assumes "rules_ok clock st"
  shows "rules_ok clock (addCondition clock i st)"
proof -
  obtain c n' where c: "createDefaultCondition clock (es_ids st) = (c, n')" by fastforce
  then have ids: "es_ids st \<le> n'" "c_id c \<in> ids_between clock (es_ids st) n'"
    using condition_ids [of clock "es_ids st" "JObj []" c n']
    by (auto simp: createDefaultCondition_def normalizeOverrideCondition_def)
  have "conditions_ok clock n' (op\<lparr>op_conditions := op_conditions op @ [c]\<rparr>)" if "conditions_ok clock (es_ids st) op" for op
  proof -
    have "c_id c \<notin> ids_between clock 0 (es_ids st)" using ids(2) ids_between_disjoint by blast
    then show ?thesis using that ids by (auto simp: conditions_ok_def intro: ids_between_mono)
  qed
  then show ?thesis
    using rules_okD [OF assms] ids(1) c
    by (intro rules_okI [OF _ ids_ok_map [of clock "es_ids st" "es_operations st" n'
            "\<lambda>op. if op_id op = i then op\<lparr>op_conditions := op_conditions op @ [c]\<rparr> else op"]])
      (auto simp: addCondition_def updateOperation_def ids_ok_def intro: conditions_ok_mono)
qed

lemma ok_add:
  assumes "rules_ok clock st"
  shows "rules_ok clock (addOperation clock st)"
proof -
  obtain op n' where op: "createDefaultOperation clock (es_ids st) = (op, n')" by fastforce
  have "ids_ok clock n' (es_operations st @ [op])"
    using ids_ok_append [OF rules_okD(2) [OF assms] default_ids(4,1) [OF op]] default_ids(2) [OF op] by simp
  then show ?thesis by (simp add: addOperation_def op rules_ok_def)
qed

lemma one_with_id: "distinct (map op_id ops) \<Longrightarrow> length (filter (\<lambda>op. op_id op = i) ops) \<le> 1"
  by (induction ops) (auto simp: filter_empty_conv image_iff)

lemma ok_remove:
  assumes "rules_ok clock st"
  shows "rules_ok clock (removeOperation clock i st)"
proof (cases "length (es_operations st) \<le> 1")
  case True
  then show ?thesis using default_ids(4) [of clock "es_ids st"]
    by (cases "createDefaultOperation clock (es_ids st)") (simp add: removeOperation_def rules_ok_def)
next
  case False
  let ?left = "filter (\<lambda>op. op_id op \<noteq> i) (es_operations st)"
  have "distinct (map op_id (es_operations st))" using assms by (simp add: rules_ok_def ids_ok_def)
  then have "length (filter (\<lambda>op. op_id op = i) (es_operations st)) \<le> 1"
    by (rule one_with_id)
  moreover have "length (filter (\<lambda>op. op_id op = i) (es_operations st)) + length ?left = length (es_operations st)"
    by (rule sum_length_filter_compl)
  ultimately have "?left \<noteq> []" using False by auto
  then show ?thesis using False rules_okD(2) [OF assms] by (simp add: removeOperation_def rules_ok_def ids_ok_filter)
qed

lemma ok_duplicate:
  assumes "rules_ok clock st"
  shows "rules_ok clock (duplicateOperation clock eager i st)"
proof (cases "find_op (es_operations st) i")
  case (Some k)
  show ?thesis
  proof (cases "normalizeOperation clock (es_ids st) (clone_payload (es_operations st ! k))")
    case (Some r)
    obtain op n' where r: "r = (op, n')" by fastforce
    note ids = operation_ids [OF Some [unfolded r]]
    have "ids_ok clock n' [op]" using ids by (auto simp: ids_ok_def intro: ids_between_mono)
    then have "ids_ok clock n' (take (Suc k) (es_operations st) @ op # drop (Suc k) (es_operations st))"
      using ids_ok_insert [OF rules_okD(2) [OF assms]] ids by blast
    then show ?thesis using \<open>find_op _ _ = _\<close> Some r by (simp add: duplicateOperation_def rules_ok_def)
  qed (use assms Some in \<open>simp add: duplicateOperation_def\<close>)
qed (use assms in \<open>simp add: duplicateOperation_def\<close>)

lemma ok_prune:
  assumes "rules_ok clock st" and "draws_on updater"
  shows "rules_ok clock (updatePruneObjectsDraft clock i updater st)"
proof -
  obtain ops n where u: "update_drafts clock (es_ids st) i updater (es_operations st) = (ops, n)" by fastforce
  note ids = update_drafts_ids [OF u assms(2)]
  have "ids_ok clock n (es_operations st)" using ids_ok_mono [OF rules_okD(2) [OF assms(1)]] ids by blast
  moreover have "ids_ok clock n ops \<longleftrightarrow> ids_ok clock n (es_operations st)"
  proof -
    have "ids_ok clock n xs \<longleftrightarrow> distinct (map op_id xs) \<and> set (map op_id xs) \<subseteq> ids_between clock 0 n \<and>
        (\<forall>cs \<in> set (map op_conditions xs). distinct (map c_id cs) \<and> c_id ` set cs \<subseteq> ids_between clock 0 n)" for xs
      by (simp add: ids_ok_def conditions_ok_def)
    then show ?thesis using ids by presburger
  qed
  moreover have "ops \<noteq> []" using ids rules_okD(1) [OF assms(1)] by (metis map_is_Nil_conv)
  ultimately show ?thesis by (simp add: updatePruneObjectsDraft_def u rules_ok_def)
qed

lemma ok_prune_rules:
  assumes "rules_ok clock st"
  shows "rules_ok clock (addPruneRule clock i st)" and "rules_ok clock (updatePruneRule clock i k patch st)"
    and "rules_ok clock (removePruneRule clock i k st)"
  unfolding addPruneRule_def updatePruneRule_def removePruneRule_def using assms
  by (auto intro!: ok_prune simp: draws_on_def normalizePruneRule_def normalizeOverrideCondition_def)

lemma ok_render:
  assumes "rules_ok clock st"
  shows "rules_ok clock (snd (pruneObjectsDraft clock st))"
proof -
  have "rules_ok clock (st\<lparr>es_ids := n\<rparr>)" if "parsePruneObjectsDraft clock (es_ids st) s = (d, n)" for s d n
    using parse_draft_ids [OF that] assms ids_ok_mono by (auto simp: rules_ok_def)
  then show ?thesis using assms
    by (auto simp: pruneObjectsDraft_def split: option.splits prod.splits)
qed

lemma ok_reorder:
  assumes "rules_ok clock st"
  shows "rules_ok clock (handleDrop transferred i st)"
proof -
  have "rules_ok clock (st\<lparr>es_operations := reorderOperations (es_operations st) a b after\<rparr>)" for a b after
  proof -
    have "reorderOperations (es_operations st) a b after \<noteq> []"
      using rules_okD(1) [OF assms] mset_reorder [of "es_operations st" a b after] by auto
    then show ?thesis using ids_ok_same [OF rules_okD(2) [OF assms] mset_reorder] by (simp add: rules_ok_def)
  qed
  from this [unfolded rules_ok_def] show ?thesis using assms by (simp add: handleDrop_def resetDragState_def rules_ok_def Let_def)
qed

lemma ok_fallback: "rules_ok clock (fallback_rule clock st)"
  using default_ids(4) [of clock "es_ids st"]
  by (cases "createDefaultOperation clock (es_ids st)") (simp add: fallback_rule_def rules_ok_def)

lemma ok_show_legacy: "rules_ok clock (show_legacy clock v st)"
  using default_ids(4) [of clock "es_ids st"]
  by (cases "createDefaultOperation clock (es_ids st)") (simp add: show_legacy_def rules_ok_def)

lemma normalize_list_length: "normalize_list f n vs = Some (xs, n') \<Longrightarrow> length xs = length vs"
  by (induction vs arbitrary: n xs) (auto split: option.splits)

lemma ok_operations:
  assumes "normalize_list (normalizeOperation clock) n vs = Some (ops, n')" and "vs \<noteq> []"
  shows "ops \<noteq> []" and "ids_ok clock n' ops"
  using operations_ids(2) [OF assms(1)] normalize_list_length [OF assms(1)] assms(2) by auto

lemma default_pair:
  "ids_ok clock (snd (createDefaultOperation clock n)) [fst (createDefaultOperation clock n)]"
  "n \<le> snd (createDefaultOperation clock n)"
  using default_ids(1,4) [of clock n "fst (createDefaultOperation clock n)" "snd (createDefaultOperation clock n)"] by simp_all

lemma ok_initial:
  assumes "parseInitialState clock n s = Some (view, n')"
  shows "ev_operations view \<noteq> [] \<and> ids_ok clock n' (ev_operations view)"
proof -
  have view: "ev_operations v \<noteq> [] \<and> ids_ok clock m (ev_operations v)"
    if "Some (\<lparr>ev_json = a, ev_legacy = b, ev_legacyValue = c, ev_operations = [fst (createDefaultOperation clock n)],
      ev_jsonText = d, ev_invalid = e\<rparr>, snd (createDefaultOperation clock n)) = Some (v, m)" for a b c d e v m
    using that default_pair by auto
  show ?thesis
    using assms unfolding parseInitialState_def Let_def
    by (auto simp: default_pair ok_operations split: if_splits option.splits jsval.splits)
qed

lemma ok_open: "open_editor clock raw st = Some st' \<Longrightarrow> rules_ok clock st'"
  using ok_initial by (auto simp: open_editor_def rules_ok_def split: option.splits)

lemma ok_fields [simp]:
  "rules_ok clock (st\<lparr>es_json := a\<rparr>) = rules_ok clock st" "rules_ok clock (st\<lparr>es_legacy := b\<rparr>) = rules_ok clock st"
  "rules_ok clock (st\<lparr>es_legacyValue := c\<rparr>) = rules_ok clock st" "rules_ok clock (st\<lparr>es_jsonText := d\<rparr>) = rules_ok clock st"
  "rules_ok clock (st\<lparr>es_jsonError := e\<rparr>) = rules_ok clock st" "rules_ok clock (st\<lparr>es_search := f\<rparr>) = rules_ok clock st"
  "rules_ok clock (st\<lparr>es_selected := g\<rparr>) = rules_ok clock st" "rules_ok clock (st\<lparr>es_expanded := h\<rparr>) = rules_ok clock st"
  "rules_ok clock (st\<lparr>es_dragged := i\<rparr>) = rules_ok clock st" "rules_ok clock (st\<lparr>es_dragOver := j\<rparr>) = rules_ok clock st"
  "rules_ok clock (st\<lparr>es_dragAfter := k\<rparr>) = rules_ok clock st" "rules_ok clock (st\<lparr>es_preset := l\<rparr>) = rules_ok clock st"
  by (simp_all add: rules_ok_def)

lemma ok_new_rules: "ops \<noteq> [] \<Longrightarrow> ids_ok clock n ops \<Longrightarrow> rules_ok clock (st\<lparr>es_operations := ops, es_ids := n\<rparr>)"
  by (simp add: rules_ok_def)

lemma ok_show_object:
  assumes "show_object clock ps st = Some st'"
  shows "rules_ok clock st'"
proof (cases "\<exists>vs. obj_get (JObj ps) (js ''operations'') = JArr vs")
  case True
  then show ?thesis
    using assms by (auto simp: show_object_def rules_ok_def default_pair ok_operations split: if_splits option.splits)
next
  case False
  then have "st' = (fallback_rule clock st)\<lparr>es_legacy := True, es_legacyValue := json_pretty 0 (JObj ps),
      es_jsonError := None, es_json := False, es_preset := js ''legacy_default''\<rparr>"
    using assms by (auto simp: show_object_def split: jsval.splits)
  then show ?thesis by (simp only: ok_fields ok_fallback)
qed

lemma ok_to_visual:
  assumes "rules_ok clock st" and "switchToVisualMode clock st = Some st'"
  shows "rules_ok clock st'"
  using assms ok_show_object ok_fallback [of clock st] unfolding switchToVisualMode_def Let_def
  by (auto split: if_splits option.splits jsval.splits)

lemma presets_filled: "list_all (\<lambda>p. preset_legacy (snd p) \<or> arr_of (obj_get (preset_payload (snd p)) (js ''operations'')) \<noteq> []) TEMPLATE_PRESET_CONFIG"
  by (simp add: TEMPLATE_PRESET_CONFIG_def arr_of_def OPERATION_TEMPLATE_def HEADER_PASSTHROUGH_TEMPLATE_def
      GEMINI_IMAGE_4K_TEMPLATE_def buildPassHeadersTemplate_def AWS_BEDROCK_ANTHROPIC_COMPAT_TEMPLATE_def operations_object_def)

lemma current_preset_filled:
  "preset_legacy (current_preset st) \<or> arr_of (obj_get (preset_payload (current_preset st)) (js ''operations'')) \<noteq> []"
proof -
  have "map_of TEMPLATE_PRESET_CONFIG (js ''operations_default'') \<noteq> None" by (simp add: TEMPLATE_PRESET_CONFIG_def)
  then have "\<exists>k. (k, current_preset st) \<in> set TEMPLATE_PRESET_CONFIG"
    unfolding current_preset_def using map_of_SomeD by (fastforce split: option.splits)
  then show ?thesis using presets_filled by (fastforce simp: list_all_iff)
qed

lemma ok_fill:
  assumes "rules_ok clock st" and "fillTemplate clock appending st = Some st'"
  shows "rules_ok clock st'"
proof (cases "preset_legacy (current_preset st)")
  case True
  then show ?thesis
    using assms ok_show_legacy unfolding fillTemplate_def Let_def by (auto split: if_splits option.splits)
next
  case False
  let ?vs = "arr_of (obj_get (preset_payload (current_preset st)) (js ''operations''))"
  have vs: "?vs \<noteq> []" using False current_preset_filled [of st] by blast
  obtain filled n where f: "normalize_list (normalizeOperation clock) (es_ids st) ?vs = Some (filled, n)"
    using assms(2) False unfolding fillTemplate_def Let_def by (auto split: option.splits)
  note ids = operations_ids [OF f] and ne = ok_operations [OF f vs]
  have "ids_ok clock n (filter P (es_operations st) @ filled)" for P
    using ids_ok_append [OF ids_ok_filter [OF rules_okD(2) [OF assms(1)]] ids(2,1,3)] .
  then show ?thesis
    using assms(2) False f ne unfolding fillTemplate_def Let_def by (auto simp: rules_ok_def split: if_splits)
qed

lemma ok_handler: "handler clock st st' \<Longrightarrow> rules_ok clock st \<Longrightarrow> rules_ok clock st'"
proof (induction rule: handler.induct)
  case (opened raw st st')
  then show ?case by (intro ok_open)
next
  case (to_visual st st')
  then show ?case using ok_to_visual by blast
next
  case (fill appending st st')
  then show ?case using ok_fill by blast
next
  case (reset st)
  then show ?case using ok_fallback [of clock st] by (simp add: resetEditorState_def rules_ok_def)
next
  case (to_json st)
  then show ?case by (auto simp: switchToJsonMode_def rules_ok_def split: sum.splits)
next
  case (mark b st)
  then show ?case by (auto simp: mark_conditions_def rules_ok_def split: option.splits)
next
  case (reformat st)
  then show ?case by (auto simp: formatJson_def rules_ok_def Let_def split: option.splits)
next
  case (edit_prune i dpatch st)
  then show ?case by (intro ok_prune) (simp_all add: draws_on_def)
qed (simp_all add: ok_edit ok_add ok_duplicate ok_remove ok_add_condition ok_edit_condition ok_remove_condition
      ok_return_error ok_render ok_prune_rules ok_reorder
      handleDragStart_def handleDragOver_def resetDragState_def handleJsonChange_def Let_def)

lemma ok_keep_selected: "rules_ok clock (keep_selected st) \<longleftrightarrow> rules_ok clock st"
  by (simp add: keep_selected_def rules_ok_def)

lemma reachable_ok: "editor_reachable clock st \<Longrightarrow> rules_ok clock st"
proof (induction rule: editor_reachable.induct)
  case (start n)
  show ?case using default_ids(4) [of clock n]
    by (cases "createDefaultOperation clock n") (simp only: ok_keep_selected, simp add: editor_start_def rules_ok_def)
next
  case (step st st')
  then show ?case by (simp add: ok_keep_selected ok_handler)
qed

subsection \<open>Properties\<close>

lemma selected_kept: "es_operations st \<noteq> [] \<Longrightarrow> es_selected (keep_selected st) \<in> set (map op_id (es_operations (keep_selected st)))"
  by (cases "es_operations st") (auto simp: keep_selected_def)

lemma selected_valid:
  assumes "editor_reachable clock st"
  shows "es_selected st \<in> set (map op_id (es_operations st))"
  using assms
proof (cases rule: editor_reachable.cases)
  case (step st' st'')
  have "es_operations st'' \<noteq> []" using ok_handler reachable_ok step rules_okD(1) by blast
  then show ?thesis using step(1) selected_kept by simp
next
  case (start n)
  then show ?thesis using selected_kept [of "editor_start clock n"] by (simp add: editor_start_def split: prod.splits)
qed

text \<open>
  In every state the editor can reach, whatever is opened, typed, dragged, duplicated, filled
  from templates or switched between the views: there is a rule to edit, no two rules (and no two
  conditions of a rule) have the same identifier, and a rule of the list is selected.
\<close>

theorem editor_ids_distinct:
  assumes "editor_reachable clock st"
  shows "es_operations st \<noteq> [] \<and> distinct (map op_id (es_operations st)) \<and>
     (\<forall>op \<in> set (es_operations st). distinct (map c_id (op_conditions op))) \<and> selectedOperation st \<noteq> None"
  using reachable_ok [OF assms] selected_valid [OF assms]
  by (auto simp: rules_ok_def ids_ok_def conditions_ok_def selectedOperation_def find_None_iff)

theorem editor_ids_distinct_witness:
  "selectedOperation (keep_selected (addOperation (\<lambda>_. 7) (keep_selected (editor_start (\<lambda>_. 7) 0)))) \<noteq> None"
  using editor_ids_distinct [OF editor_reachable.step [OF editor_reachable.start handler.add]] by blast

text \<open>The rules of a list with distinct identifiers, addressed by identifier and by position.\<close>

lemma map_one:
  assumes "distinct (map op_id ops)" and "k < length ops"
  shows "map (\<lambda>op. if op_id op = op_id (ops ! k) then f op else op) ops = ops[k := f (ops ! k)]"
proof (rule nth_equalityI)
  fix j assume "j < length (map (\<lambda>op. if op_id op = op_id (ops ! k) then f op else op) ops)"
  then show "map (\<lambda>op. if op_id op = op_id (ops ! k) then f op else op) ops ! j = ops[k := f (ops ! k)] ! j"
    using assms nth_eq_iff_index_eq [OF assms(1), of j k] by (auto simp: nth_list_update)
qed simp

lemma remove_one:
  assumes "distinct (map op_id ops)" and "k < length ops"
  shows "filter (\<lambda>op. op_id op \<noteq> op_id (ops ! k)) ops = take k ops @ drop (Suc k) ops"
proof -
  have split: "ops = take k ops @ ops ! k # drop (Suc k) ops" using assms(2) by (rule id_take_nth_drop)
  have "distinct (map op_id (take k ops @ ops ! k # drop (Suc k) ops))" using assms(1) split by metis
  then have "op_id (ops ! k) \<notin> op_id ` set (take k ops) \<union> op_id ` set (drop (Suc k) ops)"
    unfolding map_append list.map distinct_append distinct.simps list.set_map list.set by blast
  then have keep: "\<forall>op \<in> set (take k ops) \<union> set (drop (Suc k) ops). op_id op \<noteq> op_id (ops ! k)"
    by (metis UnE UnI1 UnI2 imageI)
  have "filter (\<lambda>op. op_id op \<noteq> op_id (ops ! k)) ops =
      filter (\<lambda>op. op_id op \<noteq> op_id (ops ! k)) (take k ops @ ops ! k # drop (Suc k) ops)" using split by metis
  also have "\<dots> = take k ops @ drop (Suc k) ops" using keep by (simp add: filter_id_conv)
  finally show ?thesis .
qed

lemma reachable_distinct: "editor_reachable clock st \<Longrightarrow> distinct (map op_id (es_operations st))"
  using reachable_ok by (auto simp: rules_ok_def ids_ok_def)

text \<open>
  A handler changes only the rule it names: in every reachable state, editing the rule at a
  position leaves all others as they are, and removing it leaves exactly the others in their order
  (or one blank rule when it was the only one).
\<close>

theorem edits_are_local:
  assumes "editor_reachable clock st" and "k < length (es_operations st)"
  shows "es_operations (updateOperation (op_id (es_operations st ! k)) patch st) =
       (es_operations st)[k := patch (es_operations st ! k)] \<and>
     (1 < length (es_operations st) \<longrightarrow>
        es_operations (removeOperation clock (op_id (es_operations st ! k)) st) =
        take k (es_operations st) @ drop (Suc k) (es_operations st)) \<and>
     (length (es_operations st) = 1 \<longrightarrow>
        (\<exists>op. es_operations (removeOperation clock (op_id (es_operations st ! k)) st) = [op] \<and> isOperationBlank op))"
proof -
  have dist: "distinct (map op_id (es_operations st))" using assms(1) by (rule reachable_distinct)
  have "isOperationBlank (fst (createDefaultOperation clock n))" for n
    by (simp add: createDefaultOperation_def normalizeOperation_def isOperationBlank_def str_prop_def true_prop_def
        js_inject arr_of_def operation_mode_def)
  then show ?thesis using map_one [OF dist assms(2)] remove_one [OF dist assms(2)]
    by (auto simp: updateOperation_def removeOperation_def split: prod.splits) (metis fst_conv)
qed

definition demo_editor :: editor_state where
  "demo_editor = keep_selected (addOperation (\<lambda>_. 7) (keep_selected (editor_start (\<lambda>_. 7) 0)))"

lemma demo_editor_reachable: "editor_reachable (\<lambda>_. 7) demo_editor"
  unfolding demo_editor_def by (rule editor_reachable.step [OF editor_reachable.start handler.add])

lemma keep_selected_fields [simp]:
  "es_operations (keep_selected st) = es_operations st" "es_dragOver (keep_selected st) = es_dragOver st"
  "es_ids (keep_selected st) = es_ids st"
  by (simp_all add: keep_selected_def)

lemma demo_editor_drag: "es_dragOver demo_editor = []"
  by (simp add: demo_editor_def addOperation_def editor_start_def split: prod.splits)

lemma demo_editor_rules: "map op_id (es_operations demo_editor) = [js ''po_7_0'', js ''po_7_1'']"
  by (simp add: demo_editor_def addOperation_def editor_start_def createDefaultOperation_def
      normalizeOperation_def js_inject arr_of_def nextLocalId_def int_str_def int_digits.simps js_lit)

theorem edits_are_local_witness:
  "length (es_operations (removeOperation (\<lambda>_. 7) (op_id (es_operations demo_editor ! 1)) demo_editor)) = 1"
proof -
  have "length (es_operations demo_editor) = 2" using arg_cong [OF demo_editor_rules, of length] by simp
  then show ?thesis using edits_are_local [OF demo_editor_reachable, of 1 id] by simp
qed

lemma find_op_distinct:
  assumes "distinct (map op_id ops)" and "k < length ops"
  shows "find_op ops (op_id (ops ! k)) = Some k"
proof (cases "find_op ops (op_id (ops ! k))")
  case None
  then show ?thesis using assms(2) by (auto simp: find_op_None)
next
  case (Some j)
  then show ?thesis using find_op_Some [OF Some] assms nth_eq_iff_index_eq [OF assms(1), of j k] by auto
qed

lemma reorder_exact:
  assumes "distinct (map op_id ops)" and "src \<in> set ops" and "tgt \<in> set ops" and "op_id src \<noteq> op_id tgt"
    and "op_id src \<noteq> []" and "op_id tgt \<noteq> []"
  shows "filter (\<lambda>op. op_id op \<noteq> op_id src) (reorderOperations ops (op_id src) (op_id tgt) after) =
      filter (\<lambda>op. op_id op \<noteq> op_id src) ops \<and>
    (\<exists>xs ys. reorderOperations ops (op_id src) (op_id tgt) after =
       xs @ (if after then [tgt, src] else [src, tgt]) @ ys)"
proof -
  obtain k where k: "k < length ops" "ops ! k = src" using assms(2) by (metis in_set_conv_nth)
  define rest where "rest = take k ops @ drop (Suc k) ops"
  have rest: "filter (\<lambda>op. op_id op \<noteq> op_id src) ops = rest" using remove_one [OF assms(1) k(1)] k(2) by (simp add: rest_def)
  have "tgt \<in> set rest" using assms(3,4) by (simp add: rest [symmetric])
  then obtain i where i: "i < length rest" "rest ! i = tgt" by (metis in_set_conv_nth)
  have "distinct (map op_id rest)" using assms(1) by (simp add: rest [symmetric] distinct_map_filter)
  then have "find_op rest (op_id tgt) = Some i" using find_op_distinct i by metis
  moreover have "find_op ops (op_id src) = Some k" using find_op_distinct [OF assms(1) k(1)] k(2) by simp
  ultimately have r: "reorderOperations ops (op_id src) (op_id tgt) after =
      take (if after then Suc i else i) rest @ src # drop (if after then Suc i else i) rest"
    using assms(4-6) k(2) by (simp add: reorderOperations_def rest_def [symmetric] Let_def)
  have none: "filter (\<lambda>op. op_id op \<noteq> op_id src) rest = rest"
    unfolding rest [symmetric] by (simp add: filter_id_conv)
  have "filter (\<lambda>op. op_id op \<noteq> op_id src) (take j rest @ src # drop j rest) = rest" for j
    using arg_cong [OF append_take_drop_id, of "filter (\<lambda>op. op_id op \<noteq> op_id src)" j rest] none
    by (simp del: append_take_drop_id)
  then have "filter (\<lambda>op. op_id op \<noteq> op_id src) (reorderOperations ops (op_id src) (op_id tgt) after) =
      filter (\<lambda>op. op_id op \<noteq> op_id src) ops" unfolding r rest .
  moreover have "take (Suc i) rest = take i rest @ [tgt]" "drop i rest = tgt # drop (Suc i) rest"
    using i by (auto simp: take_Suc_conv_app_nth Cons_nth_drop_Suc)
  then have "reorderOperations ops (op_id src) (op_id tgt) after =
      take i rest @ (if after then [tgt, src] else [src, tgt]) @ drop (Suc i) rest"
    unfolding r by simp
  ultimately show ?thesis by blast
qed

text \<open>
  Dropping a dragged rule on another moves exactly that rule: the other rules keep their order,
  no rule is lost or doubled, and the moved rule ends up directly before the rule it was dropped on,
  or directly behind it when the pointer was over its lower half.
\<close>

theorem drop_moves_one:
  assumes "editor_reachable clock st" and "src \<in> set (es_operations st)" and "tgt \<in> set (es_operations st)" and "src \<noteq> tgt"
    and "es_dragged st = op_id src"
  shows "let st' = handleDrop transferred (op_id tgt) st;
             after = (es_dragOver st = op_id tgt \<and> es_dragAfter st)
         in mset (es_operations st') = mset (es_operations st) \<and>
            filter (\<lambda>op. op_id op \<noteq> op_id src) (es_operations st') = filter (\<lambda>op. op_id op \<noteq> op_id src) (es_operations st) \<and>
            (\<exists>xs ys. es_operations st' = xs @ (if after then [tgt, src] else [src, tgt]) @ ys) \<and>
            es_selected st' = op_id src \<and> es_dragged st' = []"
proof -
  have dist: "distinct (map op_id (es_operations st))" using assms(1) by (rule reachable_distinct)
  have "op_id op \<noteq> []" if "op \<in> set (es_operations st)" for op
    using reachable_ok [OF assms(1)] that by (auto simp: rules_ok_def ids_ok_def ids_between_def nextLocalId_def js_lit)
  then have ids: "op_id src \<noteq> []" "op_id tgt \<noteq> []" "op_id src \<noteq> op_id tgt"
    using assms(2-4) dist inj_onD by (auto simp: distinct_map dest: inj_onD)
  then show ?thesis
    using reorder_exact [OF dist assms(2,3) ids(3,1,2)] assms(5) mset_reorder
    by (simp add: handleDrop_def resetDragState_def Let_def)
qed

theorem drop_moves_one_witness:
  "\<exists>xs ys src tgt. es_operations (handleDrop [] (js ''po_7_0'') (handleDragStart (js ''po_7_1'') demo_editor)) = xs @ [src, tgt] @ ys \<and>
     op_id src = js ''po_7_1'' \<and> op_id tgt = js ''po_7_0''"
proof -
  let ?st = "keep_selected (handleDragStart (js ''po_7_1'') demo_editor)"
  have r: "editor_reachable (\<lambda>_. 7) ?st" by (rule editor_reachable.step [OF demo_editor_reachable handler.drag_start])
  have st: "?st = handleDragStart (js ''po_7_1'') demo_editor"
    using demo_editor_rules by (auto simp: keep_selected_def handleDragStart_def)
  obtain a b where ab: "es_operations ?st = [a, b]" "op_id a = js ''po_7_0''" "op_id b = js ''po_7_1''"
    using demo_editor_rules st by (auto simp: handleDragStart_def map_eq_Cons_conv)
  moreover have "es_dragged ?st = js ''po_7_1''" "es_dragOver ?st = []"
    using st demo_editor_drag by (simp_all add: handleDragStart_def)
  moreover have "a \<noteq> b" using ab by (auto simp: js_inject)
  moreover have "[] \<noteq> op_id a" using ab(2) js_nonempty by metis
  ultimately have "\<exists>xs ys. es_operations (handleDrop [] (op_id a) ?st) =
      xs @ (if es_dragOver ?st = op_id a \<and> es_dragAfter ?st then [a, b] else [b, a]) @ ys" and "es_dragOver ?st \<noteq> op_id a"
    using drop_moves_one [OF r, of b a "[]", unfolded Let_def] by auto
  then have "\<exists>xs ys. es_operations (handleDrop [] (op_id a) ?st) = xs @ [b, a] @ ys" by presburger
  then show ?thesis using ab st by metis
qed

end
