(* ===== verification/ParamViews.thy ===== *)
theory ParamViews
  imports ParamEditor
begin

section \<open>Parameter overrides: the two views and the rules of \<open>prune_objects\<close>\<close>

text \<open>
  Two properties of the handlers of theory \<open>ParamEditor\<close>: switching between the visual and the JSON
  view keeps what would be saved, and the fields of the rules of \<open>prune_objects\<close> change nothing.
\<close>

subsection \<open>Switching views\<close>

text \<open>The states for which a text is read back exactly: editable rules, or a legacy object that prints
  and reads back and has no list of rules in it.\<close>

definition savable :: "editor_state \<Rightarrow> bool" where
  "savable st \<longleftrightarrow>
     (if es_legacy st then
        (case json_parse (trim (es_legacyValue st)) of
           Some (JObj ps) \<Rightarrow> plain (JObj ps) \<and>
             (case obj_get (JObj ps) (js ''operations'') of JArr _ \<Rightarrow> False | _ \<Rightarrow> True)
         | _ \<Rightarrow> True)
      else list_all editable (es_operations st))"

text \<open>What is saved of the visual editor is empty or the text of an object.\<close>

lemma visual_save_cases:
  assumes "savable st" and "buildVisualJson st = Inr saved"
  obtains (empty) "saved = []"
    | (legacy) ps where "saved = json_pretty 0 (JObj ps)" "plain (JObj ps)" "\<And>vs. obj_get (JObj ps) (js ''operations'') \<noteq> JArr vs"
    | (rules) vs ops' n' where "saved = json_pretty 0 (operations_object vs)" "vs \<noteq> []" "list_all plain vs"
        "normalize_list (normalizeOperation clock) (es_ids st) vs = Some (ops', n')" "buildOperationsJson True ops' = Inr saved"
proof (cases "es_legacy st")
  case True
  then show thesis
    using assms empty legacy by (auto simp: savable_def buildVisualJson_def Let_def split: if_splits option.splits jsval.splits
        simp del: json_pretty.simps plain.simps obj_get.simps)
next
  case False
  then have b: "buildOperationsJson True (es_operations st) = Inr saved" "list_all editable (es_operations st)"
    using assms by (auto simp: buildVisualJson_def savable_def split: sum.splits)
  then show thesis
    using empty rules save_open_save [OF b(2,1), of clock "es_ids st"] by (cases "saved = []") metis+
qed

lemma blank_default: "isOperationBlank (fst (createDefaultOperation clock n))"
  by (simp add: createDefaultOperation_def normalizeOperation_def isOperationBlank_def str_prop_def true_prop_def
      js_inject arr_of_def operation_mode_def)

lemma save_fallback: "\<not> es_legacy st \<Longrightarrow> es_operations st = [fst (createDefaultOperation clock n)] \<Longrightarrow> buildVisualJson st = Inr []"
  by (simp add: buildVisualJson_def buildOperationsJson_def blank_default)

lemma pretty_nonempty [simp]: "json_pretty n (JObj ps) \<noteq> []"
  by (simp add: Let_def)

lemma save_json_object:
  assumes "es_json st" and "es_jsonText st = json_pretty 0 (JObj ps)" and "plain (JObj ps)"
  shows "handleSave st = Inr (json_pretty 0 (JObj ps))" and "switchToVisualMode clock st = show_object clock ps st"
  using assms json_pretty_roundtrip [OF assms(3), of 0]
  by (simp_all add: handleSave_def switchToVisualMode_def trimmed_pretty del: json_pretty.simps plain.simps)

lemma show_legacy_object:
  assumes "\<And>vs. obj_get (JObj ps) (js ''operations'') \<noteq> JArr vs"
  shows "show_object clock ps st = Some ((fallback_rule clock st)\<lparr>es_legacy := True, es_legacyValue := json_pretty 0 (JObj ps),
    es_jsonError := None, es_json := False, es_preset := js ''legacy_default''\<rparr>)"
proof (cases "obj_get (JObj ps) (js ''operations'')")
  case (JArr vs)
  then show ?thesis using assms by blast
qed (simp_all only: show_object_def jsval.case)

text \<open>
  Switching between the visual and the JSON view loses nothing: when the visual editor would save
  a text, the JSON view shows and would save the same text, and back in the visual editor the same
  text would be saved again; for rules and for the legacy form, an empty editor included.
\<close>

theorem view_switch_keeps_text:
  assumes "\<not> es_json st" and "savable st" and "handleSave st = Inr saved"
  shows "handleSave (switchToJsonMode st) = Inr saved \<and> es_jsonText (switchToJsonMode st) = saved \<and>
     (\<exists>st'. switchToVisualMode clock (switchToJsonMode st) = Some st' \<and> \<not> es_json st' \<and> handleSave st' = Inr saved)"
proof -
  have b: "buildVisualJson st = Inr saved" using assms(1,3) by (simp add: handleSave_def)
  define sj where "sj = st\<lparr>es_jsonText := saved, es_jsonError := None, es_json := True\<rparr>"
  have sj: "switchToJsonMode st = sj" using assms(1) b by (simp add: switchToJsonMode_def sj_def)
  have fields: "es_json sj" "es_jsonText sj = saved" "es_ids sj = es_ids st" by (simp_all add: sj_def)
  show ?thesis
  proof (cases rule: visual_save_cases [where clock = clock, OF assms(2) b, case_names empty legacy rules])
    case empty
    then show ?thesis
      using fields save_fallback [of _ clock "es_ids sj"]
      by (auto simp: sj handleSave_def switchToVisualMode_def fallback_rule_def split: prod.splits)
  next
    case (legacy ps)
    note js = save_json_object [OF fields(1) fields(2) [unfolded legacy(1)] legacy(2)] legacy(1)
    obtain st' where st': "show_object clock ps sj = Some st'" "\<not> es_json st'" "es_legacy st'" "es_legacyValue st' = saved"
      using show_legacy_object [OF legacy(3)] legacy(1) by simp
    have "handleSave st' = Inr saved"
      using st' legacy(1) json_pretty_roundtrip [OF legacy(2), of 0]
      by (simp add: handleSave_def buildVisualJson_def trimmed_pretty Let_def del: json_pretty.simps)
    then show ?thesis using js st' sj fields by simp
  next
    case (rules vs ops' n')
    have obj: "operations_object vs = JObj [(js ''operations'', JArr vs)]" by (simp add: operations_object_def)
    have pl: "plain (JObj [(js ''operations'', JArr vs)])" using rules(3) by (simp add: index_key_lit is_digit_def)
    note js = save_json_object [OF fields(1) fields(2) [unfolded rules(1) obj] pl] rules(1) obj
    have "\<exists>st'. show_object clock [(js ''operations'', JArr vs)] sj = Some st' \<and> \<not> es_json st' \<and> handleSave st' = Inr saved"
      using rules(2,4,5) by (simp add: show_object_def fields handleSave_def buildVisualJson_def)
    then show ?thesis using js sj fields by simp
  qed
qed

theorem view_switch_keeps_text_witness:
  "\<exists>st' saved. saved \<noteq> [] \<and> handleSave ((editor_start (\<lambda>_. 7) 0)\<lparr>es_operations := demo_rules\<rparr>) = Inr saved \<and>
     switchToVisualMode (\<lambda>_. 7) (switchToJsonMode ((editor_start (\<lambda>_. 7) 0)\<lparr>es_operations := demo_rules\<rparr>)) = Some st' \<and>
     handleSave st' = Inr saved"
proof -
  let ?st = "(editor_start (\<lambda>_. 7) 0)\<lparr>es_operations := demo_rules\<rparr>"
  have view: "\<not> es_json ?st" "\<not> es_legacy ?st" by (simp_all add: editor_start_def split: prod.splits)
  then have "savable ?st" using demo_rules_editable by (simp add: savable_def)
  moreover obtain saved where "buildOperationsJson True demo_rules = Inr saved" "saved \<noteq> []" by (rule demo_rules_saved)
  then have "handleSave ?st = Inr saved" using view by (simp add: handleSave_def buildVisualJson_def)
  ultimately show ?thesis
    using view_switch_keeps_text [OF view(1), of saved "\<lambda>_. 7"] \<open>saved \<noteq> []\<close> by blast
qed

subsection \<open>Rules of \<open>prune_objects\<close>\<close>

text \<open>An identifier handed out before a text is parsed names none of the rules of the result.\<close>

lemma old_id_fresh:
  assumes "m < n" and "parsePruneObjectsDraft clock n s = (draft, n')"
  shows "\<forall>r \<in> set (pd_rules draft). c_id r \<noteq> nextLocalId clock m"
proof -
  have "nextLocalId clock m \<notin> ids_between clock n n'" using assms(1) by (auto simp: ids_between_def)
  then show ?thesis using parse_draft_ids [OF assms(2)] by (metis image_subset_iff)
qed

lemma same_drafts:
  assumes "\<And>m s d n1. n \<le> m \<Longrightarrow> parsePruneObjectsDraft clock m s = (d, n1) \<Longrightarrow>
      buildPruneObjectsValueText (fst (u n1 d)) = buildPruneObjectsValueText (fst (u' n1 d)) \<and> snd (u n1 d) = snd (u' n1 d)"
    and "draws_on u"
  shows "update_drafts clock n i u ops = update_drafts clock n i u' ops"
  using assms(1)
proof (induction ops arbitrary: n)
  case (Cons op ops)
  obtain d n1 where d: "parsePruneObjectsDraft clock n (op_value_text op) = (d, n1)" by fastforce
  have "n1 \<le> snd (u n1 d)" using assms(2) by (simp add: draws_on_def)
  then have "n \<le> snd (u n1 d)" using parse_draft_ids [OF d] by simp
  then have "update_drafts clock (snd (u n1 d)) i u ops = update_drafts clock (snd (u n1 d)) i u' ops"
    by (intro Cons.IH Cons.prems) simp_all
  moreover have "update_drafts clock n i u ops = update_drafts clock n i u' ops" by (rule Cons.IH [OF Cons.prems])
  ultimately show ?case using Cons.prems [OF order_refl d] by (simp add: d case_prod_beta)
qed simp

lemma same_edit:
  assumes "\<And>m s d n1. es_ids st \<le> m \<Longrightarrow> parsePruneObjectsDraft clock m s = (d, n1) \<Longrightarrow>
      buildPruneObjectsValueText (fst (u n1 d)) = buildPruneObjectsValueText (fst (u' n1 d)) \<and> snd (u n1 d) = snd (u' n1 d)"
    and "draws_on u"
  shows "updatePruneObjectsDraft clock i u st = updatePruneObjectsDraft clock i u' st"
proof -
  have "update_drafts clock (es_ids st) i u (es_operations st) = update_drafts clock (es_ids st) i u' (es_operations st)"
    by (rule same_drafts) (use assms in auto)
  then show ?thesis by (simp add: updatePruneObjectsDraft_def)
qed

text \<open>
  The fields of a \<open>prune_objects\<close> rule have no effect: the rules on the page carry the identifiers
  drawn when it was rendered, but changing or removing one parses the text again under fresh
  identifiers, so no rule matches and the text is only rewritten as it was; and a rule that is added
  has no path yet and is left out of the text, as if only the simple mode had been left.
\<close>

theorem prune_rule_edits_lost:
  assumes "m < es_ids st"
  shows "updatePruneRule clock i (nextLocalId clock m) patch st = updatePruneObjectsDraft clock i (\<lambda>n d. (d, n)) st \<and>
     removePruneRule clock i (nextLocalId clock m) st = updatePruneObjectsDraft clock i (\<lambda>n d. (d, n)) st \<and>
     addPruneRule clock i st = updatePruneObjectsDraft clock i (\<lambda>n d. (d\<lparr>pd_simpleMode := False\<rparr>, Suc n)) st"
proof -
  have old: "map (\<lambda>r. if c_id r = nextLocalId clock m then patch r else r) (pd_rules d) = pd_rules d"
      "filter (\<lambda>r. c_id r \<noteq> nextLocalId clock m) (pd_rules d) = pd_rules d"
    if "es_ids st \<le> k" "parsePruneObjectsDraft clock k s = (d, n1)" for k s d n1
    using old_id_fresh [OF less_le_trans [OF assms that(1)] that(2)] by (auto intro!: map_idI simp: filter_id_conv)
  have "trim [] = []" "trim (c_path (fst (the (normalizePruneRule clock n (JObj []))))) = []"
      "snd (the (normalizePruneRule clock n (JObj []))) = Suc n" for n
    by (simp_all add: normalizePruneRule_def normalizeOverrideCondition_def str_prop_def)
  then show ?thesis
    unfolding updatePruneRule_def removePruneRule_def addPruneRule_def using old
    by (intro conjI same_edit) (simp_all add: draws_on_def case_prod_beta buildPruneObjectsValueText_def)
qed

definition demo_prune :: editor_state where
  "demo_prune = (editor_start (\<lambda>_. 7) 3)\<lparr>es_operations := [blank_rule\<lparr>op_id := js ''x'', op_mode := js ''prune_objects'',
     op_value_text := js ''{\"conditions\":[{\"path\":\"a\",\"mode\":\"full\",\"value\":\"b\"}]}''\<rparr>]\<rparr>"

theorem prune_rule_edits_lost_witness:
  "map op_value_text (es_operations (removePruneRule (\<lambda>_. 7) (js ''x'') (nextLocalId (\<lambda>_. 7) 2) demo_prune)) =
   map op_value_text (es_operations demo_prune)"
proof -
  have "2 < es_ids demo_prune" by code_simp
  moreover have "map op_value_text (es_operations (updatePruneObjectsDraft (\<lambda>_. 7) (js ''x'') (\<lambda>n d. (d, n)) demo_prune)) =
      map op_value_text (es_operations demo_prune)" by code_simp
  ultimately show ?thesis using prune_rule_edits_lost [of 2 demo_prune "\<lambda>_. 7" "js ''x''"] by simp
qed

end
