(* ===== verification/Navigation.thy ===== *)
theory Navigation
  imports JsObject
begin

section \<open>Navigation: header modules and the sidebar\<close>

text \<open>
  \<open>lib/nav-modules.ts\<close> (which pages the header offers, whether a route may be opened) and
  \<open>hooks/use-sidebar-config.ts\<close> (which entries the sidebar shows): both read JSON texts an administrator
  wrote, the sidebar also one of the user.

  \<open>toLowerCase\<close> is the parameter \<open>lower\<close>. The cached status is the text of the local storage item, \<open>None\<close>
  when there is none or reading it throws.
\<close>

subsection \<open>Header modules\<close>

text \<open>\<open>{...ps, ...v}\<close>.\<close>

definition spread :: "(jsstr \<times> jsval) list \<Rightarrow> jsval \<Rightarrow> (jsstr \<times> jsval) list" where
  "spread ps v = foldl obj_put ps (value_entries v)"

record module_access =
  access_enabled :: bool
  access_requireAuth :: bool

datatype nav_value = NavFlag bool | NavAccess module_access

type_synonym header_modules = "(jsstr \<times> nav_value) list"

definition DEFAULT_ACCESS :: module_access where
  "DEFAULT_ACCESS = \<lparr>access_enabled = True, access_requireAuth = False\<rparr>"

definition DEFAULT_HEADER_NAV_MODULES :: header_modules where
  "DEFAULT_HEADER_NAV_MODULES =
     [(js ''home'', NavFlag True), (js ''console'', NavFlag True),
      (js ''pricing'', NavAccess DEFAULT_ACCESS), (js ''rankings'', NavAccess DEFAULT_ACCESS),
      (js ''docs'', NavFlag True), (js ''about'', NavFlag True)]"

definition nav_put :: "jsstr \<Rightarrow> 'a \<Rightarrow> (jsstr \<times> 'a) list \<Rightarrow> (jsstr \<times> 'a) list" where
  "nav_put k v ms =
     (if k \<in> fst ` set ms then map (\<lambda>m. if fst m = k then (k, v) else m) ms else ms @ [(k, v)])"

definition parseHeaderNavBoolean :: "(jsstr \<Rightarrow> jsstr) \<Rightarrow> jsval \<Rightarrow> bool \<Rightarrow> bool" where
  "parseHeaderNavBoolean lower raw fallback =
     (case raw of
        JBool b \<Rightarrow> b
      | JNum x \<Rightarrow> if num_eq x (Fin 1) then True else if num_eq x (Fin 0) then False else fallback
      | JStr s \<Rightarrow>
        (let normalized = lower (trim s) in
         if normalized = js ''true'' \<or> normalized = js ''1'' then True
         else if normalized = js ''false'' \<or> normalized = js ''0'' then False else fallback)
      | _ \<Rightarrow> fallback)"

definition is_primitive :: "jsval \<Rightarrow> bool" where
  "is_primitive v \<longleftrightarrow> (case v of JBool _ \<Rightarrow> True | JNum _ \<Rightarrow> True | JStr _ \<Rightarrow> True | _ \<Rightarrow> False)"

definition parseAccess :: "(jsstr \<Rightarrow> jsstr) \<Rightarrow> jsval \<Rightarrow> module_access \<Rightarrow> module_access" where
  "parseAccess lower raw fallback =
     (if is_primitive raw
      then fallback\<lparr>access_enabled := parseHeaderNavBoolean lower raw (access_enabled fallback)\<rparr>
      else if is_object_value raw
      then \<lparr>access_enabled = parseHeaderNavBoolean lower (obj_get raw (js ''enabled'')) (access_enabled fallback),
            access_requireAuth =
              parseHeaderNavBoolean lower (obj_get raw (js ''requireAuth'')) (access_requireAuth fallback)\<rparr>
      else fallback)"

definition parseHeaderNavRecord :: "jsval \<Rightarrow> jsval" where
  "parseHeaderNavRecord raw =
     (if \<not> truthy raw \<or> trim (to_str raw) = [] then JNull
      else if is_object_value raw then raw
      else (case json_parse (to_str raw) of Some v \<Rightarrow> v | None \<Rightarrow> JNull))"

definition access_of :: "jsstr \<Rightarrow> header_modules \<Rightarrow> module_access" where
  "access_of k ms = (case map_of ms k of Some (NavAccess a) \<Rightarrow> a | _ \<Rightarrow> DEFAULT_ACCESS)"

definition nav_entry :: "(jsstr \<Rightarrow> jsstr) \<Rightarrow> header_modules \<Rightarrow> jsstr \<times> jsval \<Rightarrow> header_modules" where
  "nav_entry lower result e =
     (let key = fst e; v = snd e in
      if key = js ''pricing'' \<or> key = js ''rankings''
      then nav_put key (NavAccess (parseAccess lower v (access_of key result))) result
      else (case map_of result key of
          Some (NavFlag b) \<Rightarrow> nav_put key (NavFlag (parseHeaderNavBoolean lower v b)) result
        | _ \<Rightarrow> if is_primitive v then nav_put key (NavFlag (parseHeaderNavBoolean lower v True)) result
               else result))"

definition parseHeaderNavModules :: "(jsstr \<Rightarrow> jsstr) \<Rightarrow> jsval \<Rightarrow> header_modules" where
  "parseHeaderNavModules lower raw =
     (let parsed = parseHeaderNavRecord raw in
      if \<not> truthy parsed then DEFAULT_HEADER_NAV_MODULES
      else foldl (nav_entry lower) DEFAULT_HEADER_NAV_MODULES (value_entries parsed))"

definition parseHeaderNavModulesFromStatus :: "(jsstr \<Rightarrow> jsstr) \<Rightarrow> jsval \<Rightarrow> header_modules" where
  "parseHeaderNavModulesFromStatus lower status =
     parseHeaderNavModules lower (opt_get status ''HeaderNavModules'')"

definition getCachedStatus :: "jsstr option \<Rightarrow> jsval" where
  "getCachedStatus item =
     (case item of None \<Rightarrow> JNull
      | Some raw \<Rightarrow> if raw = [] then JNull else (case json_parse raw of Some v \<Rightarrow> v | None \<Rightarrow> JNull))"

definition getModuleAccessFromStatus :: "(jsstr \<Rightarrow> jsstr) \<Rightarrow> jsval \<Rightarrow> jsstr \<Rightarrow> module_access" where
  "getModuleAccessFromStatus lower status modul =
     access_of modul (parseHeaderNavModulesFromStatus lower status)"

definition getModuleAccess :: "(jsstr \<Rightarrow> jsstr) \<Rightarrow> jsstr option \<Rightarrow> jsstr \<Rightarrow> module_access" where
  "getModuleAccess lower item modul = getModuleAccessFromStatus lower (getCachedStatus item) modul"

text \<open>The guard of the routes. Reading a property of \<open>null\<close> throws and is caught.\<close>

definition section_allows :: "jsval \<Rightarrow> jsstr \<Rightarrow> jsstr \<Rightarrow> bool" where
  "section_allows parsed sect modul =
     (if parsed = JNull then True
      else let sectionConfig = obj_get parsed sect in
        if \<not> truthy sectionConfig then True
        else if obj_get sectionConfig (js ''enabled'') = JBool False then False
        else obj_get sectionConfig modul \<noteq> JBool False)"

definition isSidebarModuleEnabled :: "jsstr option \<Rightarrow> jsstr \<Rightarrow> jsstr \<Rightarrow> bool" where
  "isSidebarModuleEnabled item sect modul =
     (let status = getCachedStatus item in
      if \<not> truthy status then True
      else let raw = obj_get status (js ''SidebarModulesAdmin'') in
        if \<not> truthy raw \<or> trim (to_str raw) = [] then True
        else (case json_parse (to_str raw) of None \<Rightarrow> True | Some parsed \<Rightarrow> section_allows parsed sect modul))"

subsection \<open>The sidebar\<close>

definition all_on :: "string list \<Rightarrow> jsval" where
  "all_on ks = JObj (map (\<lambda>k. (js k, JBool True)) (''enabled'' # ks))"

definition DEFAULT_SIDEBAR_MODULES :: "(jsstr \<times> jsval) list" where
  "DEFAULT_SIDEBAR_MODULES =
     [(js ''chat'', all_on [''playground'', ''images'', ''chat'']),
      (js ''console'', all_on [''detail'', ''token'', ''log'', ''task'']),
      (js ''personal'', all_on [''topup'', ''invoice'', ''rewards'', ''personal'']),
      (js ''admin'', all_on [''channel'', ''models'', ''redemption'', ''user'', ''setting'',
        ''subscription'', ''blind_box''])]"

definition fill_missing :: "(jsstr \<times> jsval) list \<Rightarrow> (jsstr \<times> jsval) list \<Rightarrow> (jsstr \<times> jsval) list" where
  "fill_missing defaults ps =
     foldl (\<lambda>ps d. if obj_get (JObj ps) (fst d) = JUndef then obj_put ps d else ps) ps defaults"

definition merge_section :: "(jsstr \<times> jsval) list \<Rightarrow> jsstr \<times> jsval \<Rightarrow> (jsstr \<times> jsval) list" where
  "merge_section merged d =
     (let existing = obj_get (JObj merged) (fst d); defaults = props_of (snd d) in
      if \<not> truthy existing then obj_put merged (fst d, snd d)
      else obj_put merged (fst d, JObj (fill_missing defaults (spread defaults existing))))"

definition mergeWithDefaultSidebarModules :: "jsval \<Rightarrow> (jsstr \<times> jsval) list" where
  "mergeWithDefaultSidebarModules config =
     foldl merge_section (spread [] config) DEFAULT_SIDEBAR_MODULES"

definition URL_TO_CONFIG_MAP :: "(jsstr \<times> (jsstr \<times> jsstr)) list" where
  "URL_TO_CONFIG_MAP = map (\<lambda>(u, s, m). (js u, (js s, js m)))
     [(''/playground'', ''chat'', ''playground''), (''/images'', ''chat'', ''images''),
      (''/dashboard'', ''console'', ''detail''), (''/dashboard/overview'', ''console'', ''detail''),
      (''/dashboard/models'', ''console'', ''detail''), (''/dashboard/users'', ''console'', ''detail''),
      (''/group-status'', ''console'', ''detail''), (''/marketplace'', ''console'', ''detail''),
      (''/channel-workbench'', ''console'', ''detail''), (''/keys'', ''console'', ''token''),
      (''/usage-logs'', ''console'', ''log''), (''/usage-logs/common'', ''console'', ''log''),
      (''/usage-logs/task'', ''console'', ''task''), (''/wallet'', ''personal'', ''topup''),
      (''/packages'', ''personal'', ''topup''), (''/blind-box'', ''personal'', ''topup''),
      (''/invite-rewards'', ''personal'', ''rewards''), (''/profile'', ''personal'', ''personal''),
      (''/channels'', ''admin'', ''channel''), (''/models'', ''admin'', ''models''),
      (''/models/metadata'', ''admin'', ''models''), (''/models/deployments'', ''admin'', ''models''),
      (''/users'', ''admin'', ''user''), (''/redemption-codes'', ''admin'', ''redemption''),
      (''/subscriptions'', ''admin'', ''subscription''), (''/blind-box-admin'', ''admin'', ''blind_box''),
      (''/system-settings'', ''admin'', ''setting''), (''/system-settings/site'', ''admin'', ''setting''),
      (''/security-audit'', ''admin'', ''setting'')]"

text \<open>The texts of the two layers; \<open>None\<close> is \<open>null\<close> or \<open>undefined\<close>.\<close>

definition parseSidebarConfig :: "jsstr option \<Rightarrow> (jsstr \<times> jsval) list" where
  "parseSidebarConfig v =
     (case v of None \<Rightarrow> DEFAULT_SIDEBAR_MODULES
      | Some s \<Rightarrow> if s = [] \<or> trim s = [] then DEFAULT_SIDEBAR_MODULES
        else (case json_parse s of Some parsed \<Rightarrow> mergeWithDefaultSidebarModules parsed
              | None \<Rightarrow> DEFAULT_SIDEBAR_MODULES))"

definition parseUserSidebarConfig :: "jsstr option \<Rightarrow> jsval option" where
  "parseUserSidebarConfig v =
     (case v of None \<Rightarrow> None
      | Some s \<Rightarrow> if s = [] \<or> trim s = [] then None
        else (case json_parse s of
            Some parsed \<Rightarrow> if truthy parsed \<and> is_object_value parsed then Some parsed else None
          | None \<Rightarrow> None))"

text \<open>The two layers for one module.\<close>

definition admin_allows :: "(jsstr \<times> jsval) list \<Rightarrow> jsstr \<Rightarrow> jsstr \<Rightarrow> bool" where
  "admin_allows adminConfig sect modul =
     (let adminSection = obj_get (JObj adminConfig) sect in
      truthy adminSection \<and> truthy (obj_get adminSection (js ''enabled'')) \<and>
      obj_get adminSection modul = JBool True)"

definition user_allows :: "jsval option \<Rightarrow> jsstr \<Rightarrow> jsstr \<Rightarrow> bool" where
  "user_allows userConfig sect modul =
     (case userConfig of None \<Rightarrow> True
      | Some cfg \<Rightarrow>
        (let userSection = obj_get cfg sect in
         if \<not> truthy userSection then True
         else if obj_get userSection (js ''enabled'') = JBool False then False
         else obj_get userSection modul \<noteq> JBool False))"

definition isModuleEnabled :: "jsstr \<Rightarrow> (jsstr \<times> jsval) list \<Rightarrow> jsval option \<Rightarrow> bool" where
  "isModuleEnabled url adminConfig userConfig =
     (case map_of URL_TO_CONFIG_MAP url of None \<Rightarrow> True
      | Some (sect, modul) \<Rightarrow>
          if \<not> admin_allows adminConfig sect modul then False else user_allows userConfig sect modul)"

text \<open>Entries: the title, the address and the optional \<open>configUrls\<close>, which an entry below a collapsible one may have too.\<close>

record sub_link =
  sub_title :: jsstr
  sub_url :: jsstr
  sub_configUrls :: "jsstr list option"

datatype nav_item =
    NavChatPresets jsstr
  | NavLink jsstr jsstr "jsstr list option"
  | NavCollapsible jsstr "sub_link list"

record nav_group =
  group_id :: "jsstr option"
  group_title :: jsstr
  group_items :: "nav_item list"

fun isNavItemVisible :: "(jsstr \<times> jsval) list \<Rightarrow> jsval option \<Rightarrow> nav_item \<Rightarrow> bool" where
  "isNavItemVisible adminConfig userConfig (NavChatPresets title) =
     (if \<not> admin_allows adminConfig (js ''chat'') (js ''chat'') then False
      else user_allows userConfig (js ''chat'') (js ''chat''))"
| "isNavItemVisible adminConfig userConfig (NavLink title url configUrls) =
     (if url = [] then True
      else list_ex (\<lambda>u. isModuleEnabled u adminConfig userConfig)
        (case configUrls of None \<Rightarrow> [url] | Some us \<Rightarrow> us))"
| "isNavItemVisible adminConfig userConfig (NavCollapsible title items) =
     list_ex (\<lambda>i. isModuleEnabled (sub_url i) adminConfig userConfig) items"

fun filter_sub_items :: "(jsstr \<times> jsval) list \<Rightarrow> jsval option \<Rightarrow> nav_item \<Rightarrow> nav_item" where
  "filter_sub_items adminConfig userConfig (NavCollapsible title items) =
     NavCollapsible title (filter (\<lambda>i. isModuleEnabled (sub_url i) adminConfig userConfig) items)"
| "filter_sub_items adminConfig userConfig item = item"

definition filterNavItems :: "nav_item list \<Rightarrow> (jsstr \<times> jsval) list \<Rightarrow> jsval option \<Rightarrow> nav_item list" where
  "filterNavItems items adminConfig userConfig =
     filter (isNavItemVisible adminConfig userConfig) (map (filter_sub_items adminConfig userConfig) items)"

text \<open>\<open>sidebar_settings\<close> is the permission of the user, when it is known.\<close>

definition user_config :: "bool option \<Rightarrow> jsstr option \<Rightarrow> jsval option" where
  "user_config sidebar_settings sidebar_modules =
     (if sidebar_settings = Some False then None else parseUserSidebarConfig sidebar_modules)"

definition useSidebarConfig ::
  "jsstr option \<Rightarrow> bool option \<Rightarrow> jsstr option \<Rightarrow> nav_group list \<Rightarrow> nav_group list" where
  "useSidebarConfig adminText sidebar_settings userText navGroups =
     (let adminConfig = parseSidebarConfig adminText; userConfig = user_config sidebar_settings userText in
      filter (\<lambda>g. group_items g \<noteq> [])
        (map (\<lambda>g. g\<lparr>group_items := filterNavItems (group_items g) adminConfig userConfig\<rparr>) navGroups))"

subsection \<open>The entries of the program\<close>

text \<open>\<open>use-sidebar-data.ts\<close>: the groups the hook filters; \<open>t\<close> translates.\<close>

abbreviation plain_link :: "(jsstr \<Rightarrow> jsstr) \<Rightarrow> jsstr \<Rightarrow> string \<Rightarrow> nav_item" where
  "plain_link t title url \<equiv> NavLink (t title) (js url) None"

definition admin_tools :: "(jsstr \<Rightarrow> jsstr) \<Rightarrow> nav_item" where
  "admin_tools t = NavCollapsible (t [31649, 29702, 24037, 20855])
     [\<lparr>sub_title = t (js ''Models''), sub_url = js ''/models/metadata'', sub_configUrls = None\<rparr>,
      \<lparr>sub_title = t (js ''Users''), sub_url = js ''/users'', sub_configUrls = None\<rparr>,
      \<lparr>sub_title = t (js ''Redemption codes''), sub_url = js ''/redemption-codes'', sub_configUrls = None\<rparr>,
      \<lparr>sub_title = t (js ''Subscriptions''), sub_url = js ''/subscriptions'', sub_configUrls = None\<rparr>,
      \<lparr>sub_title = t (js ''Blind box admin''), sub_url = js ''/subscriptions#blind-box-admin'',
        sub_configUrls = Some [js ''/blind-box-admin'']\<rparr>,
      \<lparr>sub_title = t (js ''System settings''), sub_url = js ''/system-settings/site'', sub_configUrls = None\<rparr>,
      \<lparr>sub_title = t (js ''Operations''), sub_url = js ''/operations'', sub_configUrls = None\<rparr>,
      \<lparr>sub_title = t [23433, 20840, 23457, 35745], sub_url = js ''/security-audit'', sub_configUrls = None\<rparr>]"

definition buildSidebarData :: "(jsstr \<Rightarrow> jsstr) \<Rightarrow> nav_group list" where
  "buildSidebarData t =
     [\<lparr>group_id = Some (js ''use''), group_title = t (js ''Usage''), group_items =
        [plain_link t (js ''Overview'') ''/dashboard/overview'', plain_link t (js ''API keys'') ''/keys'',
         plain_link t (js ''Usage logs'') ''/usage-logs/common'',
         plain_link t [28192, 36947, 20027, 24037, 20316, 21488] ''/channel-workbench'',
         plain_link t (js ''Debug'') ''/playground'']\<rparr>,
      \<lparr>group_id = Some (js ''assets''), group_title = t (js ''Assets''), group_items =
        [plain_link t (js ''Wallet'') ''/wallet'', plain_link t (js ''Plans'') ''/packages'',
         plain_link t (js ''Blind box'') ''/blind-box'']\<rparr>,
      \<lparr>group_id = Some (js ''personal''), group_title = t (js ''Personal''), group_items =
        [plain_link t (js ''Profile'') ''/profile'', plain_link t (js ''Invites'') ''/invite-rewards'']\<rparr>,
      \<lparr>group_id = Some (js ''admin''), group_title = t (js ''Admin''), group_items =
        [plain_link t (js ''Channels'') ''/channels'', plain_link t [20998, 32452, 24066, 22330] ''/marketplace'',
         admin_tools t]\<rparr>]"

section \<open>Properties of the sidebar\<close>

subsection \<open>What the sidebar offers\<close>

text \<open>The addresses an entry leads to, each with the addresses whose modules decide about it: the \<open>configUrls\<close> of a
  link, or else its own; always its own for an entry below a collapsible one; nothing (\<open>None\<close>) for a link without
  address.\<close>

fun offers :: "nav_item \<Rightarrow> (jsstr \<times> jsstr list option) list" where
  "offers (NavLink title url configUrls) =
     [(url, if url = [] then None else Some (case configUrls of None \<Rightarrow> [url] | Some us \<Rightarrow> us))]"
| "offers (NavCollapsible title items) = map (\<lambda>i. (sub_url i, Some [sub_url i])) items"
| "offers (NavChatPresets title) = []"

definition sidebar_items :: "nav_group list \<Rightarrow> nav_item set" where
  "sidebar_items groups = (\<Union>g \<in> set groups. set (group_items g))"

definition sidebar_offers :: "nav_group list \<Rightarrow> (jsstr \<times> jsstr list option) set" where
  "sidebar_offers groups = (\<Union>item \<in> sidebar_items groups. set (offers item))"

lemma enabled_iff:
  "isModuleEnabled url a u \<longleftrightarrow>
     (case map_of URL_TO_CONFIG_MAP url of None \<Rightarrow> True | Some (s, m) \<Rightarrow> admin_allows a s m \<and> user_allows u s m)"
  by (auto simp: isModuleEnabled_def split: option.split)

lemma user_none [simp]: "user_allows None s m"
  by (simp add: user_allows_def)

lemma user_config_allows:
  "user_allows (user_config perm text) s m \<longleftrightarrow> perm = Some False \<or> user_allows (parseUserSidebarConfig text) s m"
  by (simp add: user_config_def)

lemma sidebar_items_filtered:
  "sidebar_items (useSidebarConfig adminText perm userText groups) =
     (\<Union>g \<in> set groups. set (filterNavItems (group_items g) (parseSidebarConfig adminText) (user_config perm userText)))"
proof -
  have "set (filterNavItems (group_items g) a u) \<subseteq> (\<Union>g \<in> {g \<in> set groups. filterNavItems (group_items g) a u \<noteq> []}.
      set (filterNavItems (group_items g) a u))" if "g \<in> set groups" for g a u
    using that by (cases "filterNavItems (group_items g) a u") auto
  then show ?thesis by (fastforce simp: sidebar_items_def useSidebarConfig_def Let_def)
qed

text \<open>One entry: what is left of it after filtering, shown or not.\<close>

lemma item_offers:
  "(url, ds) \<in> set (offers (filter_sub_items a u item)) \<and> isNavItemVisible a u (filter_sub_items a u item) \<longleftrightarrow>
     (url, ds) \<in> set (offers item) \<and> (case ds of None \<Rightarrow> True | Some us \<Rightarrow> \<exists>d \<in> set us. isModuleEnabled d a u)"
  by (cases item) (auto simp: list_ex_iff split: option.split)

lemma items_offer:
  "(\<exists>i \<in> set (filterNavItems items a u). (url, ds) \<in> set (offers i)) \<longleftrightarrow>
     (\<exists>i \<in> set items. (url, ds) \<in> set (offers i)) \<and>
     (case ds of None \<Rightarrow> True | Some us \<Rightarrow> \<exists>d \<in> set us. isModuleEnabled d a u)"
proof -
  have "(\<exists>i \<in> set (filterNavItems items a u). (url, ds) \<in> set (offers i)) \<longleftrightarrow>
      (\<exists>i \<in> set items. (url, ds) \<in> set (offers (filter_sub_items a u i)) \<and> isNavItemVisible a u (filter_sub_items a u i))"
    by (auto simp: filterNavItems_def)
  then show ?thesis unfolding item_offers by blast
qed

lemma sidebar_offers_filtered:
  "(url, ds) \<in> sidebar_offers (useSidebarConfig adminText perm userText groups) \<longleftrightarrow>
     (url, ds) \<in> sidebar_offers groups \<and>
     (case ds of None \<Rightarrow> True
      | Some us \<Rightarrow> \<exists>d \<in> set us. isModuleEnabled d (parseSidebarConfig adminText) (user_config perm userText))"
  using items_offer [of _ "parseSidebarConfig adminText" "user_config perm userText" url ds]
  unfolding sidebar_offers_def sidebar_items_filtered by (auto simp: sidebar_items_def)

lemma presets_filtered:
  "NavChatPresets title \<in> set (filterNavItems items a u) \<longleftrightarrow>
     NavChatPresets title \<in> set items \<and> admin_allows a (js ''chat'') (js ''chat'') \<and> user_allows u (js ''chat'') (js ''chat'')"
proof -
  have "NavChatPresets title = filter_sub_items a u i \<longleftrightarrow> i = NavChatPresets title" for i by (cases i) auto
  then have "NavChatPresets title \<in> filter_sub_items a u ` set items \<longleftrightarrow> NavChatPresets title \<in> set items"
    by (simp add: image_iff)
  then show ?thesis by (simp add: filterNavItems_def)
qed

lemma sidebar_presets:
  "NavChatPresets title \<in> sidebar_items (useSidebarConfig adminText perm userText groups) \<longleftrightarrow>
     NavChatPresets title \<in> sidebar_items groups \<and>
     admin_allows (parseSidebarConfig adminText) (js ''chat'') (js ''chat'') \<and>
     user_allows (user_config perm userText) (js ''chat'') (js ''chat'')"
  unfolding sidebar_items_filtered by (auto simp: presets_filtered sidebar_items_def)

lemma enabled_without_user: "isModuleEnabled url a u \<Longrightarrow> isModuleEnabled url a None"
  by (auto simp: enabled_iff split: option.splits)

text \<open>C38. What the sidebar offers is decided by the administrator and narrowed by the user: whatever the two
  configuration texts are, an address of the menu is offered exactly if one of the addresses that decide about it either has
  no module of its own (then no configuration can hide it) or has one that the administrator's configuration allows and the
  user's, unless the user may not configure the sidebar, does not hide; a link without address always is. The chat entry is
  decided by the chat module in the same way. Everything offered is offered without the user's configuration too.\<close>

theorem sidebar_admin_decides:
  "((url, deciders) \<in> sidebar_offers (useSidebarConfig adminText perm userText groups) \<longleftrightarrow>
      (url, deciders) \<in> sidebar_offers groups \<and>
      (case deciders of None \<Rightarrow> True
       | Some ds \<Rightarrow> \<exists>d \<in> set ds. case map_of URL_TO_CONFIG_MAP d of None \<Rightarrow> True
           | Some (s, m) \<Rightarrow> admin_allows (parseSidebarConfig adminText) s m \<and>
               (perm = Some False \<or> user_allows (parseUserSidebarConfig userText) s m))) \<and>
   (NavChatPresets title \<in> sidebar_items (useSidebarConfig adminText perm userText groups) \<longleftrightarrow>
      NavChatPresets title \<in> sidebar_items groups \<and>
      admin_allows (parseSidebarConfig adminText) (js ''chat'') (js ''chat'') \<and>
      (perm = Some False \<or> user_allows (parseUserSidebarConfig userText) (js ''chat'') (js ''chat''))) \<and>
   sidebar_offers (useSidebarConfig adminText perm userText groups) \<subseteq> sidebar_offers (useSidebarConfig adminText perm None groups)"
proof -
  have "sidebar_offers (useSidebarConfig adminText perm userText groups) \<subseteq>
      sidebar_offers (useSidebarConfig adminText perm None groups)"
    unfolding sidebar_offers_filtered subset_iff split_paired_All
    by (simp add: user_config_def parseUserSidebarConfig_def split: option.split) (blast intro: enabled_without_user)
  then show ?thesis
    unfolding sidebar_offers_filtered sidebar_presets enabled_iff user_config_allows by blast
qed

text \<open>Two entries of the program have no module: the entry of the blind box administration, whose \<open>configUrls\<close> are not looked
  at below a collapsible entry, and the operations. They are offered whatever the administrator switches off.\<close>

lemma unswitchable_entries:
  assumes "url \<in> {js ''/operations'', js ''/subscriptions#blind-box-admin''}"
  shows "(url, Some [url]) \<in> sidebar_offers (useSidebarConfig adminText perm userText (buildSidebarData t))"
proof -
  have "map_of URL_TO_CONFIG_MAP (js ''/operations'') = None" "map_of URL_TO_CONFIG_MAP (js ''/subscriptions#blind-box-admin'') = None"
    by code_simp+
  moreover have "(url, Some [url]) \<in> sidebar_offers (buildSidebarData t)"
    using assms by (auto simp: sidebar_offers_def sidebar_items_def buildSidebarData_def admin_tools_def)
  ultimately show ?thesis using assms by (auto simp: sidebar_offers_filtered enabled_iff)
qed

subsection \<open>The route guard and the sidebar\<close>

lemma spread_lookup:
  assumes "plain (JObj qs)"
  shows "map_of (spread ps (JObj qs)) k = (case map_of qs k of None \<Rightarrow> map_of ps k | w \<Rightarrow> w)"
proof -
  have "obj_entries qs = qs" using assms by (intro obj_entries_no_index) (auto simp: list_all_iff)
  then show ?thesis using assms by (simp add: spread_def value_entries_def map_of_puts)
qed

lemma fill_missing_id:
  assumes "\<forall>d \<in> set ds. obj_get (JObj ps) (fst d) \<noteq> JUndef"
  shows "fill_missing ds ps = ps"
  using assms unfolding fill_missing_def by (induction ds) auto

definition merged_section :: "jsval \<Rightarrow> jsval \<Rightarrow> jsval" where
  "merged_section existing d =
     (if \<not> truthy existing then d
      else JObj (fill_missing (props_of d) (spread (props_of d) existing)))"

lemma merge_section_lookup:
  "map_of (merge_section M d) k =
     (if k = fst d then Some (merged_section (obj_get (JObj M) k) (snd d)) else map_of M k)"
  by (cases d) (simp add: merge_section_def merged_section_def Let_def)

lemma merge_sections_lookup:
  "distinct (map fst ds) \<Longrightarrow>
   map_of (foldl merge_section M ds) k =
     (case map_of ds k of None \<Rightarrow> map_of M k | Some d \<Rightarrow> Some (merged_section (obj_get (JObj M) k) d))"
proof (induction ds arbitrary: M)
  case (Cons d ds)
  then have "map_of ds (fst d) = None" by (auto simp: map_of_eq_None_iff)
  with Cons show ?case by (cases d) (auto simp: merge_section_lookup split: option.split)
qed simp

definition flags_only :: "(jsstr \<times> jsval) list \<Rightarrow> bool" where
  "flags_only qs = list_all (\<lambda>(k, v). case v of JBool _ \<Rightarrow> True | _ \<Rightarrow> False) qs"

text \<open>A configuration whose sections hold booleans only, as the settings page writes it.\<close>

definition flag_config :: "(jsstr \<times> jsval) list \<Rightarrow> bool" where
  "flag_config ps = list_all (\<lambda>(k, v). case v of JObj qs \<Rightarrow> flags_only qs | _ \<Rightarrow> False) ps"

lemma flags_lookup: "flags_only qs \<Longrightarrow> map_of qs k = Some v \<Longrightarrow> v = JBool True \<or> v = JBool False"
  by (force simp: flags_only_def list_all_iff dest!: map_of_SomeD split: jsval.splits)

lemma merged_lookup:
  assumes "plain (JObj qs)" and "flags_only qs" and "props_of d = ds" and "flags_only ds"
  shows "obj_get (merged_section (JObj qs) d) k =
    (case map_of qs k of None \<Rightarrow> obj_get (JObj ds) k | Some v \<Rightarrow> v)"
proof -
  have look: "map_of (spread ds (JObj qs)) j = (case map_of qs j of None \<Rightarrow> map_of ds j | w \<Rightarrow> w)" for j
    by (rule spread_lookup [OF assms(1)])
  have "obj_get (JObj (spread ds (JObj qs))) (fst e) \<noteq> JUndef" if "e \<in> set ds" for e
  proof -
    have "fst e \<in> fst ` set ds" using that by (rule imageI)
    then obtain v where "map_of ds (fst e) = Some v" by (cases "map_of ds (fst e)") (auto simp: map_of_eq_None_iff)
    then show ?thesis using look [of "fst e"] flags_lookup [OF assms(2)] flags_lookup [OF assms(4)]
      by (fastforce split: option.splits)
  qed
  then have "fill_missing ds (spread ds (JObj qs)) = spread ds (JObj qs)" by (intro fill_missing_id) blast
  then show ?thesis using look [of k] assms(3) by (simp add: merged_section_def split: option.split)
qed

lemma merged_flags:
  assumes "plain (JObj qs)" and "flags_only qs" and "props_of d = ds" and "flags_only ds"
    and "map_of ds k = Some (JBool True)"
  shows "obj_get (merged_section (JObj qs) d) k = JBool True \<longleftrightarrow> obj_get (JObj qs) k \<noteq> JBool False"
    and "truthy (obj_get (merged_section (JObj qs) d) k) \<longleftrightarrow> obj_get (JObj qs) k \<noteq> JBool False"
  using merged_lookup [OF assms(1-4), of k] assms(5) flags_lookup [OF assms(2), of k]
  by (auto split: option.splits)


text \<open>Every module of the address map is one of the defaults of its section.\<close>

lemma config_map_defaults:
  "list_all (\<lambda>(u, s, m). case map_of DEFAULT_SIDEBAR_MODULES s of
       Some (JObj ds) \<Rightarrow> map_of ds m = Some (JBool True) \<and> map_of ds (js ''enabled'') = Some (JBool True) \<and> flags_only ds
     | _ \<Rightarrow> False) URL_TO_CONFIG_MAP"
  by code_simp

lemma default_section:
  assumes "map_of URL_TO_CONFIG_MAP url = Some (s, m)"
  obtains ds where "map_of DEFAULT_SIDEBAR_MODULES s = Some (JObj ds)" "map_of ds m = Some (JBool True)"
    "map_of ds (js ''enabled'') = Some (JBool True)" "flags_only ds"
proof -
  have "case map_of DEFAULT_SIDEBAR_MODULES s of
       Some (JObj ds) \<Rightarrow> map_of ds m = Some (JBool True) \<and> map_of ds (js ''enabled'') = Some (JBool True) \<and> flags_only ds
     | _ \<Rightarrow> False"
    using config_map_defaults [unfolded list_all_iff, THEN bspec, OF map_of_SomeD [OF assms]] by simp
  with that show thesis by (auto split: option.splits jsval.splits)
qed

lemma default_sections_distinct: "distinct (map fst DEFAULT_SIDEBAR_MODULES)"
  by code_simp

lemma guard_section:
  assumes u: "map_of URL_TO_CONFIG_MAP url = Some (s, m)" and p: "plain (JObj ps)" and f: "flag_config ps"
  shows "admin_allows (mergeWithDefaultSidebarModules (JObj ps)) s m \<longleftrightarrow> section_allows (JObj ps) s m"
proof -
  obtain ds where ds: "map_of DEFAULT_SIDEBAR_MODULES s = Some (JObj ds)" "map_of ds m = Some (JBool True)"
      "map_of ds (js ''enabled'') = Some (JBool True)" "flags_only ds"
    by (rule default_section [OF u])
  have "map_of (spread [] (JObj ps)) s = map_of ps s"
    by (simp add: spread_lookup [OF p] split: option.split)
  then have sect: "obj_get (JObj (mergeWithDefaultSidebarModules (JObj ps))) s =
      merged_section (obj_get (JObj ps) s) (JObj ds)"
    by (simp add: mergeWithDefaultSidebarModules_def merge_sections_lookup [OF default_sections_distinct] ds(1))
  have admin: "admin_allows (mergeWithDefaultSidebarModules (JObj ps)) s m \<longleftrightarrow>
      (let S = merged_section (obj_get (JObj ps) s) (JObj ds) in
       truthy S \<and> truthy (obj_get S (js ''enabled'')) \<and> obj_get S m = JBool True)"
    by (simp only: admin_allows_def Let_def sect)
  show ?thesis
  proof (cases "map_of ps s")
    case None
    then show ?thesis using ds(2,3) by (simp add: admin section_allows_def merged_section_def)
  next
    case (Some v)
    then obtain qs where v: "v = JObj qs" "flags_only qs" "plain (JObj qs)"
      using f p by (fastforce simp: flag_config_def list_all_iff dest: map_of_SomeD split: jsval.splits)
    have ob: "obj_get (JObj ps) s = JObj qs" using Some v(1) by simp
    have d: "props_of (JObj ds) = ds" by (simp add: props_of_def)
    have "truthy (merged_section (JObj qs) (JObj ds))" by (simp add: merged_section_def)
    then show ?thesis
      unfolding admin ob section_allows_def Let_def
      using merged_flags(1) [OF v(3,2) d ds(4,2)] merged_flags(2) [OF v(3,2) d ds(4,3)] by simp
  qed
qed

lemma default_allows:
  assumes "map_of URL_TO_CONFIG_MAP url = Some (s, m)"
  shows "admin_allows DEFAULT_SIDEBAR_MODULES s m"
  by (rule default_section [OF assms]) (simp add: admin_allows_def)

lemma blank_text_unread: "trim t = [] \<Longrightarrow> parseSidebarConfig (Some t) = DEFAULT_SIDEBAR_MODULES"
  by (simp add: parseSidebarConfig_def)

text \<open>The guard of the routes and the sidebar agree: for every address with a module, and every
  administrator's text that is no JSON or an object of sections of booleans, the route is open exactly
  when the sidebar, without a user's configuration, would show it.\<close>

theorem guard_matches_sidebar:
  assumes "map_of URL_TO_CONFIG_MAP url = Some (s, m)"
    and "obj_get (getCachedStatus item) (js ''SidebarModulesAdmin'') = JStr t"
    and "json_parse t = None \<or> (\<exists>ps. json_parse t = Some (JObj ps) \<and> plain (JObj ps) \<and> flag_config ps)"
  shows "isSidebarModuleEnabled item s m \<longleftrightarrow> isModuleEnabled url (parseSidebarConfig (Some t)) None"
proof -
  have st: "truthy (getCachedStatus item)" using assms(2) by (cases "getCachedStatus item") simp_all
  have enabled: "isModuleEnabled url a None \<longleftrightarrow> admin_allows a s m" for a by (simp add: enabled_iff assms(1))
  show ?thesis
  proof (cases "trim t = []")
    case True
    then show ?thesis using st
      by (simp add: isSidebarModuleEnabled_def assms(2) enabled blank_text_unread default_allows [OF assms(1)])
  next
    case False
    then have t: "t \<noteq> []" by auto
    show ?thesis
    proof (cases "json_parse t")
      case None
      then show ?thesis using st t False
        by (simp add: isSidebarModuleEnabled_def assms(2) enabled parseSidebarConfig_def default_allows [OF assms(1)])
    next
      case (Some v)
      with assms(3) obtain ps where ps: "v = JObj ps" "plain (JObj ps)" "flag_config ps" by auto
      show ?thesis using st t False Some ps(1) guard_section [OF assms(1) ps(2,3)]
        by (simp add: isSidebarModuleEnabled_def assms(2) enabled parseSidebarConfig_def)
    qed
  qed
qed

definition admin_text :: jsstr where
  "admin_text = js ''{\"console\":{\"enabled\":true,\"token\":false}}''"

definition nav_status_text :: jsstr where
  "nav_status_text = json_print (JObj [(js ''SidebarModulesAdmin'', JStr admin_text)])"

lemma admin_text_facts:
  "map_of URL_TO_CONFIG_MAP (js ''/keys'') = Some (js ''console'', js ''token'')"
  "obj_get (getCachedStatus (Some nav_status_text)) (js ''SidebarModulesAdmin'') = JStr admin_text"
  "json_parse admin_text =
     Some (JObj [(js ''console'', JObj [(js ''enabled'', JBool True), (js ''token'', JBool False)])])"
  "plain (JObj [(js ''console'', JObj [(js ''enabled'', JBool True), (js ''token'', JBool False)])])"
  "flag_config [(js ''console'', JObj [(js ''enabled'', JBool True), (js ''token'', JBool False)])]"
  "isModuleEnabled (js ''/keys'') (parseSidebarConfig (Some admin_text)) None = False"
  by code_simp+

theorem guard_matches_sidebar_witness:
  "isSidebarModuleEnabled (Some nav_status_text) (js ''console'') (js ''token'') = False"
  using guard_matches_sidebar [OF admin_text_facts(1,2)] admin_text_facts(3-6) by blast

text \<open>For other values the two differ: a flag written as a number hides the entry and leaves the route
  open.\<close>

lemma numeric_flag_differs:
  "isModuleEnabled (js ''/images'') (parseSidebarConfig (Some (js ''{\"chat\":{\"images\":0}}''))) None = False"
  "isSidebarModuleEnabled (Some (json_print (JObj [(js ''SidebarModulesAdmin'',
     JStr (js ''{\"chat\":{\"images\":0}}''))]))) (js ''chat'') (js ''images'') = True"
  by code_simp+

section \<open>Saved header modules\<close>

definition nav_json_value :: "nav_value \<Rightarrow> jsval" where
  "nav_json_value v =
     (case v of NavFlag b \<Rightarrow> JBool b
      | NavAccess a \<Rightarrow> JObj [(js ''enabled'', JBool (access_enabled a)), (js ''requireAuth'', JBool (access_requireAuth a))])"

definition nav_json :: "header_modules \<Rightarrow> jsval" where
  "nav_json ms = JObj (map (\<lambda>(k, v). (k, nav_json_value v)) ms)"

text \<open>Access rules belong to the two pages that have them.\<close>

definition wf_modules :: "header_modules \<Rightarrow> bool" where
  "wf_modules ms \<longleftrightarrow> distinct (map fst ms) \<and>
     list_all (\<lambda>(k, v). wf_units k \<and> \<not> is_index_key k \<and>
       ((\<exists>a. v = NavAccess a) \<longleftrightarrow> k = js ''pricing'' \<or> k = js ''rankings'')) ms"

lemma map_of_nav_put: "map_of (nav_put k v ms) k' = (if k' = k then Some v else map_of ms k')"
proof (cases "k \<in> fst ` set ms")
  case True
  have "map_of (map (\<lambda>m. if fst m = k then (k, v) else m) ms) k' =
      (if k' = k \<and> k \<in> fst ` set ms then Some v else map_of ms k')"
    by (induction ms) force+
  with True show ?thesis by (simp add: nav_put_def)
next
  case False
  then have "map_of ms k = None" by (simp add: map_of_eq_None_iff)
  with False show ?thesis by (auto simp: nav_put_def map_add_def split: option.splits)
qed

text \<open>Access rules stay where they are while the entries are read.\<close>

definition access_keys :: "header_modules \<Rightarrow> bool" where
  "access_keys ms \<longleftrightarrow> (\<forall>k a. map_of ms k = Some (NavAccess a) \<longrightarrow> k = js ''pricing'' \<or> k = js ''rankings'')"

lemma nav_entry_saved:
  assumes "access_keys M" and "(\<exists>a. v = NavAccess a) \<longleftrightarrow> k = js ''pricing'' \<or> k = js ''rankings''"
  shows "nav_entry lower M (k, nav_json_value v) = nav_put k v M"
proof (cases v)
  case (NavFlag b)
  with assms show ?thesis
    by (auto simp: nav_entry_def nav_json_value_def parseHeaderNavBoolean_def is_primitive_def Let_def
        split: option.split nav_value.split)
next
  case (NavAccess a)
  then have "parseAccess lower (nav_json_value v) f = a" for f
    by (simp add: parseAccess_def nav_json_value_def is_primitive_def is_object_value_def
        parseHeaderNavBoolean_def js_inject)
  with NavAccess assms(2) show ?thesis by (simp add: nav_entry_def)
qed

lemma access_keys_put:
  "access_keys M \<Longrightarrow> (\<exists>a. v = NavAccess a) \<longleftrightarrow> k = js ''pricing'' \<or> k = js ''rankings'' \<Longrightarrow> access_keys (nav_put k v M)"
  by (auto simp: access_keys_def map_of_nav_put split: if_splits)

lemma read_saved_entries:
  assumes "access_keys M" and "distinct (map fst ms)"
    and "list_all (\<lambda>(k, v). (\<exists>a. v = NavAccess a) \<longleftrightarrow> k = js ''pricing'' \<or> k = js ''rankings'') ms"
  shows "map_of (foldl (nav_entry lower) M (map (\<lambda>(k, v). (k, nav_json_value v)) ms)) q =
    (case map_of ms q of None \<Rightarrow> map_of M q | w \<Rightarrow> w)"
  using assms
proof (induction ms arbitrary: M)
  case (Cons kv ms)
  obtain k v where kv: "kv = (k, v)" by (cases kv)
  have k: "(\<exists>a. v = NavAccess a) \<longleftrightarrow> k = js ''pricing'' \<or> k = js ''rankings''" using Cons.prems kv by simp
  have "map_of ms k = None" using Cons.prems kv by (auto simp: map_of_eq_None_iff)
  moreover have "map_of (foldl (nav_entry lower) (nav_put k v M) (map (\<lambda>(k, v). (k, nav_json_value v)) ms)) q =
      (case map_of ms q of None \<Rightarrow> map_of (nav_put k v M) q | w \<Rightarrow> w)"
    using Cons.prems by (intro Cons.IH access_keys_put [OF _ k]) auto
  ultimately show ?case
    using kv nav_entry_saved [OF Cons.prems(1) k] by (auto simp: map_of_nav_put split: option.split)
qed simp

lemma nav_json_plain:
  assumes "wf_modules ms"
  shows "plain (nav_json ms)"
proof -
  let ?ps = "map (\<lambda>(k, v). (k, nav_json_value v)) ms"
  have pv: "plain (nav_json_value v)" for v
    by (cases v) (simp_all add: nav_json_value_def js_inject index_key_lit is_digit_def)
  have keys: "map fst ?ps = map fst ms" by (simp add: comp_def case_prod_unfold)
  have "plain (JObj ?ps)"
    using assms(1) pv unfolding wf_modules_def
    by (auto simp: keys list_all_iff simp del: map_map)
  then show ?thesis by (simp only: nav_json_def)
qed

text \<open>The header reads back what was saved: for every list of modules written as JSON, whatever its
  own modules are, each saved module reads as saved, access rules included, and each one that was not saved
  has its default.\<close>

theorem header_modules_reload:
  assumes "wf_modules ms"
  shows "map_of (parseHeaderNavModules lower (JStr (json_print (nav_json ms)))) q =
    (case map_of ms q of None \<Rightarrow> map_of DEFAULT_HEADER_NAV_MODULES q | w \<Rightarrow> w)"
proof -
  let ?ps = "map (\<lambda>(k, v). (k, nav_json_value v)) ms"
  have p: "plain (nav_json ms)" by (rule nav_json_plain [OF assms])
  then have "plain (JObj ?ps)" by (simp only: nav_json_def)
  obtain c cs where pr: "json_print (nav_json ms) = c # cs" "skip_json_ws (c # cs) = c # cs"
    using json_print_first [OF p] by blast
  have "c = 123" using pr(1) p by (simp add: nav_json_def)
  then have "trim (json_print (nav_json ms)) \<noteq> []"
    using pr(1) by (auto simp: trim_eq_Nil_iff is_ws_def)
  then have rec: "parseHeaderNavRecord (JStr (json_print (nav_json ms))) = nav_json ms"
    using pr(1) json_roundtrip [OF p] by (simp add: parseHeaderNavRecord_def is_object_value_def)
  have "obj_entries ?ps = ?ps"
    using \<open>plain (JObj ?ps)\<close> by (intro obj_entries_no_index) (auto simp: list_all_iff)
  then have "parseHeaderNavModules lower (JStr (json_print (nav_json ms))) =
      foldl (nav_entry lower) DEFAULT_HEADER_NAV_MODULES ?ps"
    by (simp add: parseHeaderNavModules_def rec) (simp add: nav_json_def value_entries_def)
  moreover have "access_keys DEFAULT_HEADER_NAV_MODULES"
    by (auto simp: access_keys_def DEFAULT_HEADER_NAV_MODULES_def split: if_splits)
  moreover have "distinct (map fst ms)"
    "list_all (\<lambda>(k, v). (\<exists>a. v = NavAccess a) \<longleftrightarrow> k = js ''pricing'' \<or> k = js ''rankings'') ms"
    using assms(1) by (auto simp: wf_modules_def list_all_iff)
  ultimately show ?thesis using read_saved_entries [of DEFAULT_HEADER_NAV_MODULES ms lower q] by simp
qed

definition demo_modules :: header_modules where
  "demo_modules = [(js ''home'', NavFlag False), (js ''blog'', NavFlag True),
     (js ''pricing'', NavAccess \<lparr>access_enabled = True, access_requireAuth = True\<rparr>)]"

lemma demo_modules_wf: "wf_modules demo_modules"
  by (simp add: wf_modules_def demo_modules_def js_inject index_key_lit is_digit_def)

theorem header_modules_reload_witness:
  "map_of (parseHeaderNavModules (\<lambda>s. s) (JStr (json_print (nav_json demo_modules)))) (js ''blog'') =
   Some (NavFlag True)"
  using header_modules_reload [OF demo_modules_wf, of "\<lambda>s. s" "js ''blog''"]
  by (simp add: demo_modules_def js_inject del: json_print.simps)

end
