(* ===== verification/NavSettings.thy ===== *)
theory NavSettings
  imports Navigation
begin

section \<open>Navigation settings\<close>

text \<open>
  \<open>features/system-settings/maintenance/config.ts\<close> and the two sections of the settings page that use it: how an
  administrator's page reads, edits and writes the texts \<open>Navigation\<close> reads for everyone else.

  The main results join the two: the page shows exactly what the sidebar and the guard allow, what is saved reads back as
  saved, and the header shows what the page saved.
\<close>

subsection \<open>Reading flags\<close>

definition toBoolean :: "(jsstr \<Rightarrow> jsstr) \<Rightarrow> jsval \<Rightarrow> bool \<Rightarrow> bool" where
  "toBoolean lower v fallback =
     (case v of
        JBool b \<Rightarrow> b
      | JNum x \<Rightarrow> num_eq x (Fin 1)
      | JStr s \<Rightarrow>
        (let normalized = lower (trim s) in
         if normalized = js ''true'' \<or> normalized = js ''1'' then True
         else if normalized = js ''false'' \<or> normalized = js ''0'' then False else fallback)
      | _ \<Rightarrow> fallback)"

definition parseAccessModule :: "(jsstr \<Rightarrow> jsstr) \<Rightarrow> jsval \<Rightarrow> module_access \<Rightarrow> module_access" where
  "parseAccessModule lower raw fallback =
     (if is_primitive raw
      then fallback\<lparr>access_enabled := toBoolean lower raw (access_enabled fallback)\<rparr>
      else if is_object_value raw
      then \<lparr>access_enabled = toBoolean lower (obj_get raw (js ''enabled'')) (access_enabled fallback),
            access_requireAuth = toBoolean lower (obj_get raw (js ''requireAuth'')) (access_requireAuth fallback)\<rparr>
      else fallback)"

subsection \<open>The header page\<close>

definition HEADER_NAV_DEFAULT :: header_modules where
  "HEADER_NAV_DEFAULT =
     [(js ''home'', NavFlag True), (js ''console'', NavFlag True),
      (js ''pricing'', NavAccess \<lparr>access_enabled = True, access_requireAuth = False\<rparr>),
      (js ''rankings'', NavAccess \<lparr>access_enabled = True, access_requireAuth = False\<rparr>),
      (js ''docs'', NavFlag True), (js ''about'', NavFlag True)]"

text \<open>\<open>Boolean(v)\<close> of an entry: an object is true, a missing entry false.\<close>

definition nav_truthy :: "nav_value option \<Rightarrow> bool" where
  "nav_truthy v = (case v of None \<Rightarrow> False | Some (NavFlag b) \<Rightarrow> b | Some (NavAccess a) \<Rightarrow> True)"

definition page_nav_entry :: "(jsstr \<Rightarrow> jsstr) \<Rightarrow> header_modules \<Rightarrow> jsstr \<times> jsval \<Rightarrow> header_modules" where
  "page_nav_entry lower result e =
     (let key = fst e; raw = snd e in
      if key = js ''pricing'' \<or> key = js ''rankings''
      then nav_put key (NavAccess (parseAccessModule lower raw (access_of key HEADER_NAV_DEFAULT))) result
      else (case raw of
          JBool b \<Rightarrow> nav_put key (NavFlag b) result
        | JStr s \<Rightarrow> nav_put key (NavFlag (toBoolean lower raw (nav_truthy (map_of HEADER_NAV_DEFAULT key)))) result
        | JNum x \<Rightarrow> nav_put key (NavFlag (toBoolean lower raw (nav_truthy (map_of HEADER_NAV_DEFAULT key)))) result
        | _ \<Rightarrow> result))"

text \<open>\<open>None\<close> is \<open>null\<close> or \<open>undefined\<close>; listing the entries of \<open>null\<close> throws, which is caught.\<close>

definition page_parseHeaderNavModules :: "(jsstr \<Rightarrow> jsstr) \<Rightarrow> jsstr option \<Rightarrow> header_modules" where
  "page_parseHeaderNavModules lower v =
     (case v of None \<Rightarrow> HEADER_NAV_DEFAULT
      | Some t \<Rightarrow> if t = [] then HEADER_NAV_DEFAULT
        else (case json_parse t of None \<Rightarrow> HEADER_NAV_DEFAULT
          | Some parsed \<Rightarrow> if parsed = JNull then HEADER_NAV_DEFAULT
            else foldl (page_nav_entry lower) HEADER_NAV_DEFAULT (value_entries parsed)))"

definition serializeHeaderNavModules :: "header_modules \<Rightarrow> jsstr" where
  "serializeHeaderNavModules config = json_print (nav_json config)"

record header_form =
  hf_home :: bool
  hf_console :: bool
  hf_pricingEnabled :: bool
  hf_pricingRequireAuth :: bool
  hf_rankingsEnabled :: bool
  hf_rankingsRequireAuth :: bool
  hf_docs :: bool
  hf_about :: bool

definition flag_or_default :: "header_modules \<Rightarrow> string \<Rightarrow> bool" where
  "flag_or_default config k =
     (case map_of config (js k) of None \<Rightarrow> nav_truthy (map_of HEADER_NAV_DEFAULT (js k)) | v \<Rightarrow> nav_truthy v)"

text \<open>An entry that is no object has no rules, so the defaults apply.\<close>

definition toFormValues :: "header_modules \<Rightarrow> header_form" where
  "toFormValues config =
     (let pricing = access_of (js ''pricing'') config; rankings = access_of (js ''rankings'') config in
      \<lparr>hf_home = flag_or_default config ''home'', hf_console = flag_or_default config ''console'',
       hf_pricingEnabled = access_enabled pricing, hf_pricingRequireAuth = access_requireAuth pricing,
       hf_rankingsEnabled = access_enabled rankings, hf_rankingsRequireAuth = access_requireAuth rankings,
       hf_docs = flag_or_default config ''docs'', hf_about = flag_or_default config ''about''\<rparr>)"

definition header_payload :: "header_modules \<Rightarrow> header_form \<Rightarrow> header_modules" where
  "header_payload config v =
     (let c = nav_put (js ''home'') (NavFlag (hf_home v)) config;
          c = nav_put (js ''console'') (NavFlag (hf_console v)) c;
          c = nav_put (js ''docs'') (NavFlag (hf_docs v)) c;
          c = nav_put (js ''about'') (NavFlag (hf_about v)) c;
          c = nav_put (js ''pricing'')
                (NavAccess \<lparr>access_enabled = hf_pricingEnabled v, access_requireAuth = hf_pricingRequireAuth v\<rparr>) c
      in nav_put (js ''rankings'')
           (NavAccess \<lparr>access_enabled = hf_rankingsEnabled v, access_requireAuth = hf_rankingsRequireAuth v\<rparr>) c)"

text \<open>The text that is sent, when it differs from the one the page was opened with.\<close>

definition header_submit :: "header_modules \<Rightarrow> jsstr \<Rightarrow> header_form \<Rightarrow> jsstr option" where
  "header_submit config initialSerialized v =
     (let serialized = serializeHeaderNavModules (header_payload config v) in
      if serialized = initialSerialized then None else Some serialized)"

subsection \<open>The sidebar page\<close>

type_synonym section_flags = "(jsstr \<times> bool) list"

type_synonym sidebar_config = "(jsstr \<times> section_flags) list"

definition all_flags :: "string list \<Rightarrow> section_flags" where
  "all_flags ks = map (\<lambda>k. (js k, True)) (''enabled'' # ks)"

definition SIDEBAR_MODULES_DEFAULT :: sidebar_config where
  "SIDEBAR_MODULES_DEFAULT =
     [(js ''chat'', all_flags [''playground'', ''images'', ''chat'']),
      (js ''console'', all_flags [''detail'', ''token'', ''log'', ''task'']),
      (js ''personal'', all_flags [''topup'', ''rewards'', ''community'', ''personal'']),
      (js ''admin'', all_flags [''channel'', ''models'', ''redemption'', ''user'', ''setting'', ''subscription'', ''blind_box''])]"

definition flag_default :: "section_flags \<Rightarrow> jsstr \<Rightarrow> bool" where
  "flag_default flags k = (case map_of flags k of None \<Rightarrow> True | Some b \<Rightarrow> b)"

definition read_module :: "(jsstr \<Rightarrow> jsstr) \<Rightarrow> section_flags \<Rightarrow> section_flags \<Rightarrow> jsstr \<times> jsval \<Rightarrow> section_flags" where
  "read_module lower defaultSection sectionConfig e =
     (if fst e = js ''enabled'' then sectionConfig
      else nav_put (fst e) (toBoolean lower (snd e) (flag_default defaultSection (fst e))) sectionConfig)"

definition read_section :: "(jsstr \<Rightarrow> jsstr) \<Rightarrow> sidebar_config \<Rightarrow> jsstr \<times> jsval \<Rightarrow> sidebar_config" where
  "read_section lower result e =
     (let raw = snd e in
      if \<not> is_object_value raw then result
      else let defaultSection = (case map_of SIDEBAR_MODULES_DEFAULT (fst e) of Some d \<Rightarrow> d | None \<Rightarrow> [(js ''enabled'', True)]);
             sectionConfig = [(js ''enabled'', toBoolean lower (obj_get raw (js ''enabled'')) (flag_default defaultSection (js ''enabled'')))]
        in nav_put (fst e) (foldl (read_module lower defaultSection) sectionConfig (value_entries raw)) result)"

definition add_missing_flags :: "section_flags \<Rightarrow> section_flags \<Rightarrow> section_flags" where
  "add_missing_flags config flags =
     foldl (\<lambda>fs d. if fst d \<in> fst ` set fs then fs else nav_put (fst d) (snd d) fs) flags config"

definition merge_default :: "sidebar_config \<Rightarrow> jsstr \<times> section_flags \<Rightarrow> sidebar_config" where
  "merge_default result d =
     (case map_of result (fst d) of
        None \<Rightarrow> nav_put (fst d) (snd d) result
      | Some flags \<Rightarrow> nav_put (fst d) (add_missing_flags (snd d) flags) result)"

definition parseSidebarModulesAdmin :: "(jsstr \<Rightarrow> jsstr) \<Rightarrow> jsstr option \<Rightarrow> sidebar_config" where
  "parseSidebarModulesAdmin lower v =
     (case v of None \<Rightarrow> SIDEBAR_MODULES_DEFAULT
      | Some t \<Rightarrow> if t = [] \<or> trim t = [] then SIDEBAR_MODULES_DEFAULT
        else (case json_parse t of None \<Rightarrow> SIDEBAR_MODULES_DEFAULT
          | Some parsed \<Rightarrow> if parsed = JNull then SIDEBAR_MODULES_DEFAULT
            else foldl merge_default (foldl (read_section lower) [] (value_entries parsed)) SIDEBAR_MODULES_DEFAULT))"

definition flags_json :: "section_flags \<Rightarrow> (jsstr \<times> jsval) list" where
  "flags_json flags = map (\<lambda>(k, b). (k, JBool b)) flags"

definition sidebar_json :: "sidebar_config \<Rightarrow> (jsstr \<times> jsval) list" where
  "sidebar_json config = map (\<lambda>(k, flags). (k, JObj (flags_json flags))) config"

definition serializeSidebarModulesAdmin :: "sidebar_config \<Rightarrow> jsstr" where
  "serializeSidebarModulesAdmin config = json_print (JObj (sidebar_json config))"

definition sidebar_submit :: "jsstr \<Rightarrow> sidebar_config \<Rightarrow> jsstr option" where
  "sidebar_submit initialSerialized v =
     (let serialized = serializeSidebarModulesAdmin v in if serialized = initialSerialized then None else Some serialized)"

text \<open>The switch of a module, and for \<open>enabled\<close> the one of its section: whether there is one, and whether it is on.\<close>

definition page_switch :: "sidebar_config \<Rightarrow> jsstr \<Rightarrow> jsstr \<Rightarrow> bool option" where
  "page_switch config sect k = Option.bind (map_of config sect) (\<lambda>flags. map_of flags k)"

text \<open>Both the switch of the section and that of the module are on.\<close>

definition shown_on :: "sidebar_config \<Rightarrow> jsstr \<Rightarrow> jsstr \<Rightarrow> bool" where
  "shown_on config sect modul =
     (case map_of config sect of None \<Rightarrow> False
      | Some flags \<Rightarrow> map_of flags (js ''enabled'') = Some True \<and> map_of flags modul = Some True)"


section \<open>Properties of the settings page\<close>

lemma nav_put_lookup [simp]: "map_of (nav_put k v ms) q = (if q = k then Some v else map_of ms q)"
  by (rule map_of_nav_put)

lemma nav_put_distinct: "distinct (map fst ms) \<Longrightarrow> distinct (map fst (nav_put k v ms))"
proof -
  assume d: "distinct (map fst ms)"
  have "map fst (map (\<lambda>m. if fst m = k then (k, v) else m) ms) = map fst ms" by simp
  with d show ?thesis by (simp add: nav_put_def del: map_map)
qed

subsection \<open>Reading a section\<close>

lemma toBoolean_flag [simp]: "toBoolean lower (JBool b) d = b" "toBoolean lower JUndef d = d"
  by (simp_all add: toBoolean_def)

lemma read_modules_lookup:
  assumes "distinct (map fst qs)" and "\<forall>e \<in> set qs. \<exists>b. snd e = JBool b"
  shows "map_of (foldl (read_module lower d) sc qs) k =
    (if k = js ''enabled'' then map_of sc k
     else case map_of qs k of None \<Rightarrow> map_of sc k | Some v \<Rightarrow> Some (v = JBool True))"
  using assms
proof (induction qs arbitrary: sc)
  case (Cons e qs)
  obtain b where b: "snd e = JBool b" using Cons.prems(2) by auto
  have "map_of qs (fst e) = None" using Cons.prems(1) by (auto simp: map_of_eq_None_iff)
  with Cons b show ?case by (cases e) (auto simp: read_module_def split: option.split)
qed simp

definition section_base :: "jsstr \<Rightarrow> section_flags" where
  "section_base k = (case map_of SIDEBAR_MODULES_DEFAULT k of Some d \<Rightarrow> d | None \<Rightarrow> [(js ''enabled'', True)])"

definition read_flags :: "(jsstr \<Rightarrow> jsstr) \<Rightarrow> jsstr \<Rightarrow> jsval \<Rightarrow> section_flags" where
  "read_flags lower k raw =
     foldl (read_module lower (section_base k))
       [(js ''enabled'', toBoolean lower (obj_get raw (js ''enabled'')) (flag_default (section_base k) (js ''enabled'')))]
       (value_entries raw)"

lemma read_section_object: "is_object_value raw \<Longrightarrow> read_section lower r (k, raw) = nav_put k (read_flags lower k raw) r"
  by (simp add: read_section_def read_flags_def section_base_def Let_def)

lemma read_sections_lookup:
  assumes "distinct (map fst ps)" and "\<forall>e \<in> set ps. is_object_value (snd e)"
  shows "map_of (foldl (read_section lower) r ps) k =
    (case map_of ps k of None \<Rightarrow> map_of r k | Some v \<Rightarrow> Some (read_flags lower k v))"
  using assms
proof (induction ps arbitrary: r)
  case (Cons e ps)
  have "map_of ps (fst e) = None" using Cons.prems(1) by (auto simp: map_of_eq_None_iff)
  with Cons show ?case by (cases e) (auto simp: read_section_object split: option.split)
qed simp

lemma add_missing_lookup:
  "map_of (add_missing_flags config flags) k = (case map_of flags k of None \<Rightarrow> map_of config k | Some b \<Rightarrow> Some b)"
proof -
  have "map_of (foldl (\<lambda>fs d. if fst d \<in> fst ` set fs then fs else nav_put (fst d) (snd d) fs) flags config) k =
      (case map_of flags k of None \<Rightarrow> map_of config k | Some b \<Rightarrow> Some b)" for flags
  proof (induction config arbitrary: flags)
    case (Cons d config)
    show ?case
    proof (cases "fst d \<in> fst ` set flags")
      case True
      then have "map_of flags (fst d) \<noteq> None" by (simp add: map_of_eq_None_iff)
      with True Cons show ?thesis by (cases d) (auto split: option.split)
    next
      case False
      then have "map_of flags (fst d) = None" by (simp add: map_of_eq_None_iff)
      with False Cons show ?thesis by (cases d) (auto split: option.split)
    qed
  qed (simp split: option.split)
  then show ?thesis by (simp add: add_missing_flags_def)
qed

lemma merge_defaults_lookup:
  assumes "distinct (map fst ds)"
  shows "map_of (foldl merge_default r ds) k =
    (case map_of ds k of None \<Rightarrow> map_of r k
     | Some d \<Rightarrow> Some (case map_of r k of None \<Rightarrow> d | Some flags \<Rightarrow> add_missing_flags d flags))"
  using assms
proof (induction ds arbitrary: r)
  case (Cons d ds)
  have "map_of ds (fst d) = None" using Cons.prems by (auto simp: map_of_eq_None_iff)
  with Cons show ?case by (cases d) (auto simp: merge_default_def split: option.split)
qed simp

lemma page_defaults:
  "list_all (\<lambda>(u, s, m). case map_of SIDEBAR_MODULES_DEFAULT s of
      Some d \<Rightarrow> map_of d m = Some True \<and> map_of d (js ''enabled'') = Some True \<and> m \<noteq> js ''enabled'' | None \<Rightarrow> False) URL_TO_CONFIG_MAP"
  "distinct (map fst SIDEBAR_MODULES_DEFAULT)"
  by code_simp+

lemma page_default:
  assumes "map_of URL_TO_CONFIG_MAP url = Some (s, m)"
  obtains d where "map_of SIDEBAR_MODULES_DEFAULT s = Some d" "map_of d m = Some True"
    "map_of d (js ''enabled'') = Some True" "m \<noteq> js ''enabled''"
  using page_defaults(1) [unfolded list_all_iff, THEN bspec, OF map_of_SomeD [OF assms]]
  by (auto split: option.splits)

lemma page_section:
  assumes u: "map_of URL_TO_CONFIG_MAP url = Some (s, m)" and p: "plain (JObj ps)" and f: "flag_config ps"
  shows "shown_on (foldl merge_default (foldl (read_section lower) [] (value_entries (JObj ps))) SIDEBAR_MODULES_DEFAULT) s m
    \<longleftrightarrow> section_allows (JObj ps) s m"
proof -
  obtain d where d: "map_of SIDEBAR_MODULES_DEFAULT s = Some d" "map_of d m = Some True"
      "map_of d (js ''enabled'') = Some True" "m \<noteq> js ''enabled''"
    by (rule page_default [OF u])
  have e: "value_entries (JObj ps) = ps" using p by (simp add: value_entries_def) (intro obj_entries_no_index, auto simp: list_all_iff)
  have obj: "\<forall>e \<in> set ps. is_object_value (snd e)"
    using f by (auto simp: flag_config_def is_object_value_def list_all_iff split: jsval.splits)
  have look: "map_of (foldl merge_default (foldl (read_section lower) [] ps) SIDEBAR_MODULES_DEFAULT) s =
      Some (case map_of ps s of None \<Rightarrow> d | Some v \<Rightarrow> add_missing_flags d (read_flags lower s v))"
    using p obj by (simp add: merge_defaults_lookup [OF page_defaults(2)] read_sections_lookup d(1) split: option.split)
  show ?thesis
  proof (cases "map_of ps s")
    case None
    then show ?thesis using d by (simp add: e shown_on_def look section_allows_def)
  next
    case (Some v)
    then obtain qs where v: "v = JObj qs" "flags_only qs" "plain (JObj qs)"
      using f p by (fastforce simp: flag_config_def list_all_iff dest: map_of_SomeD split: jsval.splits)
    have qe: "value_entries (JObj qs) = qs"
      using v(3) by (simp add: value_entries_def) (intro obj_entries_no_index, auto simp: list_all_iff)
    have qb: "\<forall>e \<in> set qs. \<exists>b. snd e = JBool b"
      using v(2) by (auto simp: flags_only_def list_all_iff split: jsval.splits)
    have en: "toBoolean lower (obj_get (JObj qs) (js ''enabled'')) True = (obj_get (JObj qs) (js ''enabled'') \<noteq> JBool False)"
      using flags_lookup [OF v(2), of "js ''enabled''"] by (cases "map_of qs (js ''enabled'')") auto
    have rd: "map_of (read_flags lower s (JObj qs)) k =
        (if k = js ''enabled'' then Some (obj_get (JObj qs) k \<noteq> JBool False)
         else case map_of qs k of None \<Rightarrow> None | Some w \<Rightarrow> Some (w = JBool True))" for k
      using v(3) en
      by (simp add: read_flags_def qe read_modules_lookup [OF _ qb] section_base_def d(1,3) flag_default_def
          del: obj_get.simps split: option.splits)
    have "obj_get (JObj ps) s = JObj qs" using Some v(1) by simp
    then show ?thesis
      using d flags_lookup [OF v(2), of m]
      by (auto simp: e shown_on_def look Some v(1) add_missing_lookup rd section_allows_def split: option.splits)
  qed
qed


subsection \<open>The page and everyone else\<close>

lemma shown_default:
  assumes "map_of URL_TO_CONFIG_MAP url = Some (s, m)"
  shows "shown_on SIDEBAR_MODULES_DEFAULT s m"
  by (rule page_default [OF assms]) (simp add: shown_on_def)

lemma page_of_text:
  assumes "map_of URL_TO_CONFIG_MAP url = Some (s, m)"
    and "json_parse t = None \<or> (\<exists>ps. json_parse t = Some (JObj ps) \<and> plain (JObj ps) \<and> flag_config ps)"
  shows "shown_on (parseSidebarModulesAdmin lower (Some t)) s m \<longleftrightarrow>
    (trim t = [] \<or> json_parse t = None \<or> (\<exists>ps. json_parse t = Some (JObj ps) \<and> section_allows (JObj ps) s m))"
  using assms(2) page_section [OF assms(1)] shown_default [OF assms(1)]
  by (auto simp: parseSidebarModulesAdmin_def)

lemma sidebar_of_text:
  assumes "map_of URL_TO_CONFIG_MAP url = Some (s, m)"
    and "json_parse t = None \<or> (\<exists>ps. json_parse t = Some (JObj ps) \<and> plain (JObj ps) \<and> flag_config ps)"
  shows "isModuleEnabled url (parseSidebarConfig (Some t)) None \<longleftrightarrow>
    (trim t = [] \<or> json_parse t = None \<or> (\<exists>ps. json_parse t = Some (JObj ps) \<and> section_allows (JObj ps) s m))"
  using assms(2) guard_section [OF assms(1)] default_allows [OF assms(1)]
  by (auto simp: parseSidebarConfig_def enabled_iff assms(1))

text \<open>The administrator's page shows what everyone gets: for every address with a module and every stored text that
  is no JSON or an object of sections of booleans, complete or not, the page shows the module switched on (its own
  switch and its section's) exactly when the sidebar offers the address.\<close>

theorem page_matches_sidebar:
  assumes "map_of URL_TO_CONFIG_MAP url = Some (s, m)"
    and "json_parse t = None \<or> (\<exists>ps. json_parse t = Some (JObj ps) \<and> plain (JObj ps) \<and> flag_config ps)"
  shows "shown_on (parseSidebarModulesAdmin lower (Some t)) s m \<longleftrightarrow>
    isModuleEnabled url (parseSidebarConfig (Some t)) None"
  by (simp only: page_of_text [OF assms] sidebar_of_text [OF assms])

theorem page_matches_sidebar_witness:
  "shown_on (parseSidebarModulesAdmin (\<lambda>s. s) (Some admin_text)) (js ''console'') (js ''token'') = False"
  using page_matches_sidebar [OF admin_text_facts(1), of admin_text "\<lambda>s. s"] admin_text_facts(3-6) by blast

text \<open>The settings the form of the page holds: every section with its own switch, names that are no array
  indices.\<close>

definition flags_ok :: "section_flags \<Rightarrow> bool" where
  "flags_ok flags \<longleftrightarrow> distinct (map fst flags) \<and> list_all (\<lambda>(k, b). wf_units k \<and> \<not> is_index_key k) flags"

definition config_ok :: "sidebar_config \<Rightarrow> bool" where
  "config_ok config \<longleftrightarrow> distinct (map fst config) \<and>
     list_all (\<lambda>(k, flags). wf_units k \<and> \<not> is_index_key k \<and> flags_ok flags) config"

lemma flags_json_plain: "flags_ok flags \<Longrightarrow> plain (JObj (flags_json flags))"
proof -
  have "map fst (flags_json flags) = map fst flags" by (simp add: flags_json_def comp_def case_prod_unfold)
  then show "flags_ok flags \<Longrightarrow> plain (JObj (flags_json flags))"
    by (auto simp: flags_ok_def flags_json_def list_all_iff simp del: map_map)
qed

lemma sidebar_json_plain:
  assumes "config_ok config"
  shows "plain (JObj (sidebar_json config))"
proof -
  have "map fst (sidebar_json config) = map fst config" by (simp add: sidebar_json_def comp_def case_prod_unfold)
  moreover have "list_all (\<lambda>p. wf_units (fst p) \<and> \<not> is_index_key (fst p) \<and> plain (snd p)) (sidebar_json config)"
    using assms flags_json_plain by (auto simp: config_ok_def sidebar_json_def list_all_iff simp del: plain.simps(7))
  ultimately show ?thesis using assms by (simp add: config_ok_def)
qed

lemma sidebar_json_flags: "flag_config (sidebar_json config)"
  by (auto simp: flag_config_def flags_only_def sidebar_json_def flags_json_def list_all_iff)

lemma map_of_flags: "map_of (flags_json flags) k = map_option JBool (map_of flags k)"
  by (induction flags) (auto simp: flags_json_def)

lemma map_of_sections: "map_of (sidebar_json config) k = map_option (\<lambda>f. JObj (flags_json f)) (map_of config k)"
  by (induction config) (auto simp: sidebar_json_def)

lemma trim_object: "plain (JObj ps) \<Longrightarrow> trim (json_print (JObj ps)) \<noteq> []"
  by (auto simp: trim_eq_Nil_iff is_ws_def)

definition section_switches :: "sidebar_config \<Rightarrow> bool" where
  "section_switches config = list_all (\<lambda>(k, flags). map_of flags (js ''enabled'') \<noteq> None) config"

lemma read_saved_flags:
  assumes "flags_ok flags" and "map_of flags (js ''enabled'') \<noteq> None"
  shows "map_of (read_flags lower s (JObj (flags_json flags))) k = map_of flags k"
proof -
  obtain b where b: "map_of flags (js ''enabled'') = Some b" using assms(2) by blast
  have fst: "map fst (flags_json flags) = map fst flags" by (simp add: flags_json_def comp_def case_prod_unfold)
  have e: "value_entries (JObj (flags_json flags)) = flags_json flags"
    using flags_json_plain [OF assms(1)] by (simp add: value_entries_def) (intro obj_entries_no_index, auto simp: list_all_iff)
  have d: "distinct (map fst (flags_json flags))" using assms(1) by (simp add: fst flags_ok_def)
  have v: "\<forall>e \<in> set (flags_json flags). \<exists>b. snd e = JBool b" by (auto simp: flags_json_def)
  show ?thesis
    by (auto simp: read_flags_def e read_modules_lookup [OF d v] map_of_flags b split: option.split)
qed

lemma saved_page_switch:
  assumes "config_ok config" and "section_switches config"
  shows "page_switch (parseSidebarModulesAdmin lower (Some (serializeSidebarModulesAdmin config))) s k =
    (case page_switch config s k of Some b \<Rightarrow> Some b | None \<Rightarrow> page_switch SIDEBAR_MODULES_DEFAULT s k)"
proof -
  let ?t = "serializeSidebarModulesAdmin config" and ?ps = "sidebar_json config"
  have p: "plain (JObj ?ps)" by (rule sidebar_json_plain [OF assms(1)])
  have t: "trim ?t \<noteq> []" "?t \<noteq> []" using trim_object [OF p] by (auto simp: serializeSidebarModulesAdmin_def)
  have r: "json_parse ?t = Some (JObj ?ps)" using json_roundtrip [OF p] by (simp add: serializeSidebarModulesAdmin_def)
  have e: "value_entries (JObj ?ps) = ?ps" using p by (simp add: value_entries_def) (intro obj_entries_no_index, auto simp: list_all_iff)
  have obj: "\<forall>e \<in> set ?ps. is_object_value (snd e)" by (auto simp: sidebar_json_def is_object_value_def)
  have flags: "map_of (read_flags lower s (JObj (flags_json flags))) k = map_of flags k" if "map_of config s = Some flags" for flags
    using that assms by (intro read_saved_flags) (auto simp: config_ok_def section_switches_def list_all_iff dest!: map_of_SomeD)
  have "map_of (parseSidebarModulesAdmin lower (Some ?t)) s =
      (case map_of SIDEBAR_MODULES_DEFAULT s of
         None \<Rightarrow> map_option (\<lambda>flags. read_flags lower s (JObj (flags_json flags))) (map_of config s)
       | Some d \<Rightarrow> Some (case map_of config s of None \<Rightarrow> d
           | Some flags \<Rightarrow> add_missing_flags d (read_flags lower s (JObj (flags_json flags)))))"
    using p obj t r e
    by (simp add: parseSidebarModulesAdmin_def merge_defaults_lookup [OF page_defaults(2)] read_sections_lookup map_of_sections
        split: option.split)
  then show ?thesis using flags by (cases "map_of config s") (auto simp: page_switch_def add_missing_lookup split: option.splits)
qed

lemma shown_on_switches: "shown_on config s m \<longleftrightarrow> page_switch config s (js ''enabled'') = Some True \<and> page_switch config s m = Some True"
  by (auto simp: shown_on_def page_switch_def split: option.split)

text \<open>C39. What the administrator saves for the sidebar is what everyone gets. For every setting of the page's
  switches (each section with its own switch, names that are no array indices): opening the page on the saved text
  shows every switch, of a section or of a module, in a section that is on or off, exactly as it was saved, and a switch that was
  not among them at its default; and for every address with a module the sidebar (without a configuration of the user) offers it,
  and the guard of the route opens it, exactly when the page then shows both the switch of the section and the one of the
  module on.\<close>

theorem saved_sidebar_shown:
  assumes "config_ok config" and "section_switches config"
    and "obj_get (getCachedStatus item) (js ''SidebarModulesAdmin'') = JStr (serializeSidebarModulesAdmin config)"
  shows "let page = parseSidebarModulesAdmin lower (Some (serializeSidebarModulesAdmin config)) in
    (\<forall>s k. page_switch page s k =
      (case page_switch config s k of Some b \<Rightarrow> Some b | None \<Rightarrow> page_switch SIDEBAR_MODULES_DEFAULT s k)) \<and>
    (\<forall>url s m. map_of URL_TO_CONFIG_MAP url = Some (s, m) \<longrightarrow>
      (isModuleEnabled url (parseSidebarConfig (Some (serializeSidebarModulesAdmin config))) None \<longleftrightarrow>
         page_switch page s (js ''enabled'') = Some True \<and> page_switch page s m = Some True) \<and>
      (isSidebarModuleEnabled item s m \<longleftrightarrow>
         page_switch page s (js ''enabled'') = Some True \<and> page_switch page s m = Some True))"
proof -
  let ?t = "serializeSidebarModulesAdmin config"
  have p: "plain (JObj (sidebar_json config))" by (rule sidebar_json_plain [OF assms(1)])
  then have "json_parse ?t = Some (JObj (sidebar_json config))"
    using json_roundtrip [OF p] by (simp add: serializeSidebarModulesAdmin_def)
  then have "json_parse ?t = None \<or> (\<exists>ps. json_parse ?t = Some (JObj ps) \<and> plain (JObj ps) \<and> flag_config ps)"
    using p sidebar_json_flags by blast
  note agree = page_matches_sidebar [OF _ this] guard_matches_sidebar [OF _ assms(3) this]
  show ?thesis
    using agree saved_page_switch [OF assms(1,2)] unfolding Let_def shown_on_switches by blast
qed

definition saved_config :: sidebar_config where
  "saved_config = [(js ''console'', [(js ''enabled'', True), (js ''token'', False), (js ''log'', True)])]"

definition saved_status :: jsstr where
  "saved_status = json_print (JObj [(js ''SidebarModulesAdmin'', JStr (serializeSidebarModulesAdmin saved_config))])"

theorem saved_sidebar_shown_witness:
  "isSidebarModuleEnabled (Some saved_status) (js ''console'') (js ''token'') = False \<and>
   isModuleEnabled (js ''/keys'') (parseSidebarConfig (Some (serializeSidebarModulesAdmin saved_config))) None = False"
proof -
  have c: "config_ok saved_config" "section_switches saved_config"
    "page_switch saved_config (js ''console'') (js ''token'') = Some False"
    by code_simp+
  have "obj_get (getCachedStatus (Some saved_status)) (js ''SidebarModulesAdmin'') =
      JStr (serializeSidebarModulesAdmin saved_config)"
    by code_simp
  from saved_sidebar_shown [OF c(1,2) this, of "\<lambda>s. s"] c(3) admin_text_facts(1) show ?thesis by (force simp: Let_def)
qed

subsection \<open>The header\<close>

lemma page_entry_saved:
  assumes "(\<exists>a. v = NavAccess a) \<longleftrightarrow> k = js ''pricing'' \<or> k = js ''rankings''"
  shows "page_nav_entry lower M (k, nav_json_value v) = nav_put k v M"
proof (cases v)
  case (NavFlag b)
  with assms show ?thesis by (simp add: page_nav_entry_def nav_json_value_def)
next
  case (NavAccess a)
  then have "parseAccessModule lower (nav_json_value v) f = a" for f
    by (simp add: parseAccessModule_def nav_json_value_def is_primitive_def is_object_value_def js_inject)
  with NavAccess assms show ?thesis by (simp add: page_nav_entry_def)
qed

lemma page_saved_entries:
  assumes "distinct (map fst ms)"
    and "list_all (\<lambda>(k, v). (\<exists>a. v = NavAccess a) \<longleftrightarrow> k = js ''pricing'' \<or> k = js ''rankings'') ms"
  shows "map_of (foldl (page_nav_entry lower) M (map (\<lambda>(k, v). (k, nav_json_value v)) ms)) q =
    (case map_of ms q of None \<Rightarrow> map_of M q | w \<Rightarrow> w)"
  using assms
proof (induction ms arbitrary: M)
  case (Cons e ms)
  obtain k v where e: "e = (k, v)" by (cases e)
  have "page_nav_entry lower M (k, nav_json_value v) = nav_put k v M"
    using Cons.prems e by (intro page_entry_saved) simp
  moreover have "map_of ms k = None" using Cons.prems e by (auto simp: map_of_eq_None_iff)
  ultimately show ?case using Cons e by (auto split: option.split)
qed simp

lemma page_reload:
  assumes "wf_modules ms"
  shows "map_of (page_parseHeaderNavModules lower (Some (serializeHeaderNavModules ms))) q =
    (case map_of ms q of None \<Rightarrow> map_of HEADER_NAV_DEFAULT q | w \<Rightarrow> w)"
proof -
  let ?ps = "map (\<lambda>(k, v). (k, nav_json_value v)) ms"
  have p: "plain (nav_json ms)" by (rule nav_json_plain [OF assms])
  then have "obj_entries ?ps = ?ps" by (intro obj_entries_no_index) (auto simp: nav_json_def list_all_iff)
  then have e: "value_entries (nav_json ms) = ?ps" by (simp add: value_entries_def nav_json_def)
  have "serializeHeaderNavModules ms \<noteq> []" by (simp add: serializeHeaderNavModules_def nav_json_def)
  moreover have "json_parse (serializeHeaderNavModules ms) = Some (nav_json ms)"
    using json_roundtrip [OF p] by (simp add: serializeHeaderNavModules_def)
  moreover have "nav_json ms \<noteq> JNull" by (simp add: nav_json_def)
  moreover have "distinct (map fst ms)"
    "list_all (\<lambda>(k, v). (\<exists>a. v = NavAccess a) \<longleftrightarrow> k = js ''pricing'' \<or> k = js ''rankings'') ms"
    using assms by (auto simp: wf_modules_def list_all_iff)
  ultimately show ?thesis
    using page_saved_entries [of ms lower HEADER_NAV_DEFAULT q] by (simp add: page_parseHeaderNavModules_def e)
qed

lemma wf_modules_put:
  assumes "wf_modules ms" and "wf_units k" and "\<not> is_index_key k"
    and "(\<exists>a. v = NavAccess a) \<longleftrightarrow> k = js ''pricing'' \<or> k = js ''rankings''"
  shows "wf_modules (nav_put k v ms)"
  using assms nav_put_distinct [of ms k v]
  by (auto simp: wf_modules_def list_all_iff nav_put_def split: if_splits)

lemma wf_payload: "wf_modules config \<Longrightarrow> wf_modules (header_payload config v)"
  unfolding header_payload_def Let_def
  by (intro wf_modules_put) (simp_all add: js_inject index_key_lit is_digit_def)

lemmas payload_lookup = header_payload_def Let_def nav_put_lookup js_inject

text \<open>What the administrator saves for the header is what visitors see. Whatever custom modules the
  configuration has, the text the page saves opens again with the values of the form, and the header and the page guards
  read from it the same switches and the same two access rules.\<close>

theorem saved_header_shown:
  assumes "wf_modules config"
  shows "toFormValues (page_parseHeaderNavModules lower (Some (serializeHeaderNavModules (header_payload config v)))) = v \<and>
    toFormValues (parseHeaderNavModules lower (JStr (serializeHeaderNavModules (header_payload config v)))) = v \<and>
    (\<forall>k b. map_of config k = Some (NavFlag b) \<and> k \<notin> js ` {''home'', ''console'', ''docs'', ''about''} \<longrightarrow>
       map_of (parseHeaderNavModules lower (JStr (serializeHeaderNavModules (header_payload config v)))) k = Some (NavFlag b))"
proof -
  have w: "wf_modules (header_payload config v)" by (rule wf_payload [OF assms])
  note page = page_reload [OF w, of lower]
  note everyone = header_modules_reload [OF w, of lower, folded serializeHeaderNavModules_def]
  have "toFormValues M = v" if "\<And>q. map_of M q = (case map_of (header_payload config v) q of None \<Rightarrow> map_of D q | x \<Rightarrow> x)" for M D
    by (simp add: toFormValues_def flag_or_default_def access_of_def that payload_lookup nav_truthy_def)
  moreover have "k \<noteq> js ''pricing''" "k \<noteq> js ''rankings''" if "map_of config k = Some (NavFlag b)" for k b
    using assms that by (auto simp: wf_modules_def list_all_iff dest!: map_of_SomeD)
  then have "map_of (header_payload config v) k = Some (NavFlag b)"
    if "map_of config k = Some (NavFlag b)" "k \<notin> js ` {''home'', ''console'', ''docs'', ''about''}" for k b
    using that by (auto simp: payload_lookup)
  ultimately show ?thesis using page everyone by simp
qed

definition sample_header :: header_form where
  "sample_header = \<lparr>hf_home = False, hf_console = True, hf_pricingEnabled = True, hf_pricingRequireAuth = True,
     hf_rankingsEnabled = False, hf_rankingsRequireAuth = False, hf_docs = True, hf_about = False\<rparr>"

theorem saved_header_shown_witness:
  "toFormValues (parseHeaderNavModules (\<lambda>s. s) (JStr (serializeHeaderNavModules (header_payload demo_modules sample_header)))) = sample_header"
  using saved_header_shown [OF demo_modules_wf] by blast

text \<open>Texts the page did not write can read differently: a module the code does not know, written as a text
  that is no flag, is off on the page and on in the header, and so is a number that is neither 0 nor 1 for a known
  one.\<close>

lemma page_and_header_differ:
  "map_of (page_parseHeaderNavModules (\<lambda>s. s) (Some (js ''{\"blog\":\"yes\"}''))) (js ''blog'') = Some (NavFlag False)"
  "map_of (parseHeaderNavModules (\<lambda>s. s) (JStr (js ''{\"blog\":\"yes\"}''))) (js ''blog'') = Some (NavFlag True)"
  by code_simp+

lemma numbers_differ:
  "toBoolean lower (JNum (Fin 2)) True = False"
  "parseHeaderNavBoolean lower (JNum (Fin 2)) True = True"
  by (simp_all add: toBoolean_def parseHeaderNavBoolean_def num_eq_def)

text \<open>The two lists of known sidebar modules are not the same.\<close>

lemma known_modules_differ:
  "(js ''invoice'', JBool True) \<in> set (props_of (the (map_of DEFAULT_SIDEBAR_MODULES (js ''personal''))))"
  "js ''invoice'' \<notin> fst ` set (the (map_of SIDEBAR_MODULES_DEFAULT (js ''personal'')))"
  "js ''community'' \<in> fst ` set (the (map_of SIDEBAR_MODULES_DEFAULT (js ''personal'')))"
  "js ''community'' \<notin> fst ` set (props_of (the (map_of DEFAULT_SIDEBAR_MODULES (js ''personal''))))"
  by code_simp+

end
