(* ===== verification/TableUrl.thy ===== *)
theory TableUrl
  imports JsObject
begin

section \<open>Table state in the URL\<close>

text \<open>
  \<open>hooks/use-table-url-state.ts\<close>: page, page size, global filter and column filters of a table, kept in the
  search parameters of the URL. The search parameters are the object the router hands out; \<open>navigate\<close> with a
  function replaces it by the function's result, and a property set to \<open>undefined\<close> reads as missing.

  The state besides the URL is the column filters, which an effect refreshes whenever the search
  parameters change, and the global filter.
\<close>

subsection \<open>Parameters\<close>

type_synonym search_params = "(jsstr \<times> jsval) list"

datatype filter_type = StringFilter | ArrayFilter

record column_cfg =
  columnId :: jsstr
  searchKey :: jsstr
  cfg_type :: "filter_type option"
  cfg_serialize :: "(jsval \<Rightarrow> jsval) option"
  cfg_deserialize :: "(jsval \<Rightarrow> jsval) option"

record table_params =
  p_pageKey :: "jsstr option"
  p_pageSizeKey :: "jsstr option"
  p_defaultPage :: "jsnum option"
  p_defaultPageSize :: "jsnum option"
  p_global_enabled :: "bool option"
  p_global_key :: "jsstr option"
  p_global_trim :: "bool option"
  p_columns :: "column_cfg list"

definition coalesce :: "'a option \<Rightarrow> 'a \<Rightarrow> 'a" where
  "coalesce v d = (case v of Some x \<Rightarrow> x | None \<Rightarrow> d)"

definition pageKey :: "table_params \<Rightarrow> jsstr" where
  "pageKey p = coalesce (p_pageKey p) (js ''page'')"

definition pageSizeKey :: "table_params \<Rightarrow> jsstr" where
  "pageSizeKey p = coalesce (p_pageSizeKey p) (js ''pageSize'')"

definition defaultPage :: "table_params \<Rightarrow> jsnum" where
  "defaultPage p = coalesce (p_defaultPage p) (num_int 1)"

definition defaultPageSize :: "table_params \<Rightarrow> jsnum" where
  "defaultPageSize p = coalesce (p_defaultPageSize p) (num_int 20)"

definition globalFilterKey :: "table_params \<Rightarrow> jsstr" where
  "globalFilterKey p = coalesce (p_global_key p) (js ''filter'')"

definition globalFilterEnabled :: "table_params \<Rightarrow> bool" where
  "globalFilterEnabled p = coalesce (p_global_enabled p) True"

definition trimGlobal :: "table_params \<Rightarrow> bool" where
  "trimGlobal p = coalesce (p_global_trim p) True"

definition serialize :: "column_cfg \<Rightarrow> jsval \<Rightarrow> jsval" where
  "serialize c v = coalesce (cfg_serialize c) (\<lambda>x. x) v"

definition deserialize :: "column_cfg \<Rightarrow> jsval \<Rightarrow> jsval" where
  "deserialize c v = coalesce (cfg_deserialize c) (\<lambda>x. x) v"

subsection \<open>Reading the URL\<close>

record column_filter =
  filter_id :: jsstr
  filter_value :: jsval

definition nullish_or :: "jsval \<Rightarrow> jsval \<Rightarrow> jsval" where
  "nullish_or v d = (if is_nullish v then d else v)"

text \<open>A value that filters: a text that is not blank, a list that is not empty.\<close>

definition filters :: "column_cfg \<Rightarrow> jsval \<Rightarrow> bool" where
  "filters c v =
     (case v of
        JStr s \<Rightarrow> cfg_type c = Some StringFilter \<and> trim s \<noteq> []
      | JArr vs \<Rightarrow> cfg_type c \<noteq> Some StringFilter \<and> vs \<noteq> []
      | _ \<Rightarrow> False)"

definition read_filter :: "search_params \<Rightarrow> column_cfg \<Rightarrow> column_filter option" where
  "read_filter search c =
     (let v = nullish_or (deserialize c (obj_get (JObj search) (searchKey c)))
        (if cfg_type c = Some StringFilter then JStr [] else JArr [])
      in if filters c v then Some \<lparr>filter_id = columnId c, filter_value = v\<rparr> else None)"

definition initialColumnFilters :: "table_params \<Rightarrow> search_params \<Rightarrow> column_filter list" where
  "initialColumnFilters p search = List.map_filter (read_filter search) (p_columns p)"

definition number_or :: "jsval \<Rightarrow> jsnum \<Rightarrow> jsnum" where
  "number_or v d = (case v of JNum x \<Rightarrow> x | _ \<Rightarrow> d)"

record pagination_state =
  pageIndex :: jsnum
  pageSize :: jsnum

definition pageNum :: "table_params \<Rightarrow> search_params \<Rightarrow> jsnum" where
  "pageNum p search = number_or (obj_get (JObj search) (pageKey p)) (defaultPage p)"

definition pagination :: "table_params \<Rightarrow> search_params \<Rightarrow> pagination_state" where
  "pagination p search =
     \<lparr>pageIndex = math_max (num_int 0) (num_sub (pageNum p search) (num_int 1)),
      pageSize = number_or (obj_get (JObj search) (pageSizeKey p)) (defaultPageSize p)\<rparr>"

definition initialGlobalFilter :: "table_params \<Rightarrow> search_params \<Rightarrow> jsstr option" where
  "initialGlobalFilter p search =
     (if \<not> globalFilterEnabled p then None
      else Some (case obj_get (JObj search) (globalFilterKey p) of JStr s \<Rightarrow> s | _ \<Rightarrow> []))"

subsection \<open>State and handlers\<close>

record table_state =
  t_search :: search_params
  t_filters :: "column_filter list"
  t_global :: "jsstr option"

definition mount_table :: "table_params \<Rightarrow> search_params \<Rightarrow> table_state" where
  "mount_table p search =
     \<lparr>t_search = search, t_filters = initialColumnFilters p search, t_global = initialGlobalFilter p search\<rparr>"

text \<open>New search parameters, from a handler or from the browser's history, and the effect that follows.\<close>

definition navigated :: "table_params \<Rightarrow> search_params \<Rightarrow> table_state \<Rightarrow> table_state" where
  "navigated p search s = s\<lparr>t_search := search, t_filters := initialColumnFilters p search\<rparr>"

definition onPaginationChange :: "table_params \<Rightarrow> pagination_state \<Rightarrow> table_state \<Rightarrow> table_state" where
  "onPaginationChange p next s =
     (let nextPage = num_add (pageIndex next) (num_int 1); nextPageSize = pageSize next;
          search = obj_put (t_search s)
            (pageKey p, if num_le nextPage (defaultPage p) then JUndef else JNum nextPage);
          search = obj_put search
            (pageSizeKey p, if num_eq nextPageSize (defaultPageSize p) then JUndef else JNum nextPageSize)
      in navigated p search s)"

definition onGlobalFilterChange :: "table_params \<Rightarrow> jsstr \<Rightarrow> table_state \<Rightarrow> table_state" where
  "onGlobalFilterChange p next s =
     (if \<not> globalFilterEnabled p then s
      else let v = (if trimGlobal p then trim next else next);
             search = obj_put (obj_put (t_search s) (pageKey p, JUndef))
               (globalFilterKey p, if v \<noteq> [] then JStr v else JUndef)
      in navigated p search (s\<lparr>t_global := Some v\<rparr>))"

definition found_value :: "column_filter list \<Rightarrow> column_cfg \<Rightarrow> jsval" where
  "found_value next c =
     (case find (\<lambda>f. filter_id f = columnId c) next of Some f \<Rightarrow> filter_value f | None \<Rightarrow> JUndef)"

definition filter_patch :: "column_filter list \<Rightarrow> column_cfg \<Rightarrow> jsstr \<times> jsval" where
  "filter_patch next c =
     (searchKey c, if filters c (found_value next c) then serialize c (found_value next c) else JUndef)"

definition onColumnFiltersChange :: "table_params \<Rightarrow> column_filter list \<Rightarrow> table_state \<Rightarrow> table_state" where
  "onColumnFiltersChange p next s =
     (let patch = foldl obj_put [] (map (filter_patch next) (p_columns p));
          search = foldl obj_put (obj_put (t_search s) (pageKey p, JUndef)) patch
      in navigated p search (s\<lparr>t_filters := next\<rparr>))"

definition ensurePageInRange :: "table_params \<Rightarrow> jsnum \<Rightarrow> bool \<Rightarrow> table_state \<Rightarrow> table_state" where
  "ensurePageInRange p pageCount resetToLast s =
     (if num_lt (num_int 0) pageCount \<and> num_lt pageCount (pageNum p (t_search s))
      then navigated p (obj_put (t_search s) (pageKey p, if resetToLast then JNum pageCount else JUndef)) s
      else s)"

section \<open>Properties\<close>

lemma obj_get_put [simp]: "obj_get (JObj (obj_put ps (k, v))) q = (if q = k then v else obj_get (JObj ps) q)"
  by simp

lemma obj_get_puts:
  "distinct (map fst es) \<Longrightarrow>
   obj_get (JObj (foldl obj_put ps es)) q = (case map_of es q of Some v \<Rightarrow> v | None \<Rightarrow> obj_get (JObj ps) q)"
  by (simp add: map_of_puts split: option.split)

text \<open>The page a user goes to is the page the table shows: with pages counted from 1, moving to any
  page and page size writes search parameters from which the same page and size are read back, in the
  range of exact integers, and the column filters are those of the other parameters, which stay.\<close>

theorem pagination_reload:
  assumes "p_defaultPage p = None \<or> p_defaultPage p = Some (num_int 1)" and "pageKey p \<noteq> pageSizeKey p"
    and "0 \<le> i" and "i < 2 ^ 53"
  shows "pagination p (t_search (onPaginationChange p \<lparr>pageIndex = num_int i, pageSize = num_int n\<rparr> s)) =
      \<lparr>pageIndex = num_int i, pageSize = num_int n\<rparr> \<and>
    (\<forall>k. k \<noteq> pageKey p \<and> k \<noteq> pageSizeKey p \<longrightarrow>
      obj_get (JObj (t_search (onPaginationChange p \<lparr>pageIndex = num_int i, pageSize = num_int n\<rparr> s))) k =
      obj_get (JObj (t_search s)) k)"
proof -
  have d: "defaultPage p = num_int 1" using assms(1) by (auto simp: defaultPage_def coalesce_def)
  have add: "num_add (num_int i) (num_int 1) = num_int (i + 1)" using assms(3,4) by (intro num_add_int) simp
  have sub: "num_sub (num_int (i + 1)) (num_int 1) = num_int i"
    using assms(3,4) num_sub_int [of "i + 1" 1] by simp
  have one: "num_sub (num_int 1) (num_int 1) = num_int 0" using num_sub_int [of 1 1] by simp
  have size: "num_eq (num_int n) x \<longleftrightarrow> x = num_int n" for x by (auto simp: num_eq_def num_int_def)
  show ?thesis
    using assms(2,3) sub one
    by (auto simp: pagination_def pageNum_def onPaginationChange_def navigated_def Let_def add d number_or_def
        size simp del: obj_get.simps)
qed

subsection \<open>Column filters\<close>

text \<open>The filters of a list that the table accepts: for each configured column, in order, the first
  filter of that column if its value filters.\<close>

definition accepted :: "table_params \<Rightarrow> column_filter list \<Rightarrow> column_filter list" where
  "accepted p next =
     map (\<lambda>c. \<lparr>filter_id = columnId c, filter_value = found_value next c\<rparr>)
       (filter (\<lambda>c. filters c (found_value next c)) (p_columns p))"

text \<open>A column whose values survive writing and reading, and that reads nothing from a missing parameter.\<close>

definition lossless :: "column_cfg \<Rightarrow> bool" where
  "lossless c \<longleftrightarrow> (\<forall>v. filters c v \<longrightarrow> deserialize c (serialize c v) = v) \<and> deserialize c JUndef = JUndef"

lemma plain_column_lossless: "cfg_serialize c = None \<Longrightarrow> cfg_deserialize c = None \<Longrightarrow> lossless c"
  by (simp add: lossless_def serialize_def deserialize_def coalesce_def)

lemma patch_lookup:
  assumes "distinct (map searchKey (p_columns p))" and "c \<in> set (p_columns p)"
  shows "map_of (map (filter_patch next) (p_columns p)) (searchKey c) = Some (snd (filter_patch next c))"
  using assms by (intro map_of_is_SomeI) (auto simp: comp_def filter_patch_def image_iff intro!: bexI [of _ c])

lemma patch_puts:
  assumes "distinct (map searchKey (p_columns p))"
  shows "foldl obj_put [] (map (filter_patch next) (p_columns p)) = map (filter_patch next) (p_columns p)"
  using assms obj_put_fresh [of "[]" "map (filter_patch next) (p_columns p)"]
  by (simp add: comp_def filter_patch_def)

lemma filters_kinds: "filters c v \<Longrightarrow> \<not> is_nullish v"
  by (cases v) (simp_all add: filters_def)

lemma empty_filters_not: "\<not> filters c (if cfg_type c = Some StringFilter then JStr [] else JArr [])"
  by (simp add: filters_def)

text \<open>The column filters a user sets are the ones the table shows after the URL was read again: exactly
  the accepted filters, in the order of the columns, whatever was set for unknown columns or with blank values;
  the page returns to the first one and every other parameter stays.\<close>

theorem column_filters_reload:
  assumes "distinct (map searchKey (p_columns p))" and "list_all lossless (p_columns p)"
    and "pageKey p \<notin> set (map searchKey (p_columns p))"
  shows "t_filters (onColumnFiltersChange p next s) = accepted p next \<and>
    pageNum p (t_search (onColumnFiltersChange p next s)) = defaultPage p \<and>
    (\<forall>k. k \<noteq> pageKey p \<and> k \<notin> set (map searchKey (p_columns p)) \<longrightarrow>
      obj_get (JObj (t_search (onColumnFiltersChange p next s))) k = obj_get (JObj (t_search s)) k)"
proof -
  let ?patch = "map (filter_patch next) (p_columns p)"
  let ?search = "foldl obj_put (obj_put (t_search s) (pageKey p, JUndef)) ?patch"
  have search: "t_search (onColumnFiltersChange p next s) = ?search"
    "t_filters (onColumnFiltersChange p next s) = initialColumnFilters p ?search"
    by (simp_all add: onColumnFiltersChange_def patch_puts [OF assms(1)] navigated_def Let_def)
  have keys: "map fst ?patch = map searchKey (p_columns p)" by (simp add: comp_def filter_patch_def)
  have get: "obj_get (JObj ?search) q =
      (case map_of ?patch q of Some v \<Rightarrow> v | None \<Rightarrow> if q = pageKey p then JUndef else obj_get (JObj (t_search s)) q)" for q
    by (simp only: obj_get_puts [of ?patch, unfolded keys, OF assms(1)] obj_get_put)
  have none: "map_of ?patch q = None" if "q \<notin> set (map searchKey (p_columns p))" for q
    using that by (auto simp: map_of_eq_None_iff filter_patch_def)
  have read: "read_filter ?search c =
      (if filters c (found_value next c)
       then Some \<lparr>filter_id = columnId c, filter_value = found_value next c\<rparr> else None)"
    if "c \<in> set (p_columns p)" for c
  proof -
    have "obj_get (JObj ?search) (searchKey c) = snd (filter_patch next c)"
      by (simp only: get patch_lookup [OF assms(1) that] option.case)
    moreover have "lossless c" using assms(2) that by (simp add: list_all_iff)
    ultimately show ?thesis
      using filters_kinds [of c "found_value next c"] empty_filters_not [of c]
      by (auto simp: read_filter_def filter_patch_def lossless_def nullish_or_def Let_def simp del: obj_get.simps)
  qed
  have "List.map_filter (read_filter ?search) cs =
      map (\<lambda>c. \<lparr>filter_id = columnId c, filter_value = found_value next c\<rparr>)
        (filter (\<lambda>c. filters c (found_value next c)) cs)" if "set cs \<subseteq> set (p_columns p)" for cs
    using that read by (induction cs) (auto simp: List.map_filter_def)
  then have "t_filters (onColumnFiltersChange p next s) = accepted p next"
    by (simp add: search initialColumnFilters_def accepted_def)
  moreover have "pageNum p ?search = defaultPage p"
    using get [of "pageKey p"] none [OF assms(3)] by (simp add: pageNum_def number_or_def del: obj_get.simps)
  ultimately show ?thesis using get none by (auto simp: search(1) simp del: obj_get.simps)
qed

subsection \<open>Page range and global filter\<close>

text \<open>Correcting the page ends at once: after one correction for a page count of at least one the page
  is within the count (for tables whose default page is 1), and correcting again changes nothing, so that the
  effect that calls it does not run on.\<close>

theorem page_correction_settles:
  assumes "defaultPage p = num_int 1" and "1 \<le> n"
  shows "(let s' = ensurePageInRange p (num_int n) resetToLast s in
    \<not> num_lt (num_int n) (pageNum p (t_search s')) \<and> ensurePageInRange p (num_int n) resetToLast s' = s')"
proof -
  let ?s = "ensurePageInRange p (num_int n) resetToLast s"
  have "\<not> num_lt (num_int n) (pageNum p (t_search ?s))"
    using assms by (simp add: ensurePageInRange_def pageNum_def navigated_def number_or_def del: obj_get.simps)
  then show ?thesis by (simp add: Let_def ensurePageInRange_def [of p "num_int n" resetToLast ?s])
qed

text \<open>The global filter is read from the URL once: going back in the history changes the parameters and the
  column filters, and the text of the global filter stays.\<close>

lemma global_filter_not_synced:
  "t_global (navigated p search s) = t_global s"
  "t_filters (navigated p search s) = initialColumnFilters p search"
  by (simp_all add: navigated_def)

text \<open>A column without a type is read as a list, although the type declares a missing type to be a text.\<close>

lemma untyped_column_ignores_text:
  assumes "cfg_type c = None" and "cfg_deserialize c = None" and "obj_get (JObj search) (searchKey c) = JStr str"
  shows "read_filter search c = None"
  using assms by (simp add: read_filter_def deserialize_def coalesce_def nullish_or_def filters_def)

definition users_table :: table_params where
  "users_table = \<lparr>p_pageKey = None, p_pageSizeKey = None, p_defaultPage = Some (num_int 1),
     p_defaultPageSize = Some (num_int 20), p_global_enabled = Some True, p_global_key = None, p_global_trim = None,
     p_columns = map (\<lambda>(k, t). \<lparr>columnId = js k, searchKey = js k, cfg_type = Some t,
        cfg_serialize = None, cfg_deserialize = None\<rparr>)
      [(''status'', ArrayFilter), (''role'', ArrayFilter), (''group'', StringFilter)]\<rparr>"

lemma users_table_facts:
  "distinct (map searchKey (p_columns users_table))" "list_all lossless (p_columns users_table)"
  "pageKey users_table \<notin> set (map searchKey (p_columns users_table))"
  "defaultPage users_table = num_int 1" "pageKey users_table \<noteq> pageSizeKey users_table"
  "p_defaultPage users_table = Some (num_int 1)"
  by (simp_all add: users_table_def js_inject pageKey_def pageSizeKey_def defaultPage_def coalesce_def
      plain_column_lossless)

theorem pagination_reload_witness:
  "pagination users_table (t_search (onPaginationChange users_table
     \<lparr>pageIndex = num_int 3, pageSize = num_int 50\<rparr> (mount_table users_table []))) =
   \<lparr>pageIndex = num_int 3, pageSize = num_int 50\<rparr>"
  using pagination_reload [OF disjI2 [OF users_table_facts(6)] users_table_facts(5), of 3 50] by simp

theorem column_filters_reload_witness:
  "t_filters (onColumnFiltersChange users_table
     [\<lparr>filter_id = js ''group'', filter_value = JStr (js ''vip'')\<rparr>] (mount_table users_table [])) =
   [\<lparr>filter_id = js ''group'', filter_value = JStr (js ''vip'')\<rparr>]"
proof -
  have "accepted users_table [\<lparr>filter_id = js ''group'', filter_value = JStr (js ''vip'')\<rparr>] =
      [\<lparr>filter_id = js ''group'', filter_value = JStr (js ''vip'')\<rparr>]"
    by code_simp
  with column_filters_reload [OF users_table_facts(1-3), of "[\<lparr>filter_id = js ''group'', filter_value = JStr (js ''vip'')\<rparr>]"]
  show ?thesis by simp
qed

theorem page_correction_settles_witness:
  "\<not> num_lt (num_int 4) (pageNum users_table (t_search (ensurePageInRange users_table (num_int 4) True
     (mount_table users_table [(js ''page'', JNum (num_int 9))]))))"
  using page_correction_settles [OF users_table_facts(4), of 4 True "mount_table users_table [(js ''page'', JNum (num_int 9))]"]
  by (simp add: Let_def)

end
