(* ===== verification/SettingsForm.thy ===== *)
theory SettingsForm
  imports JsObject
begin

section \<open>System settings forms\<close>

text \<open>
  \<open>features/system-settings/hooks/use-settings-form.ts\<close>: the settings of the server are options with dotted
  names (\<open>a.b.c\<close>), the form holds them as nested objects. The functions convert between the two, collect
  the fields a user changed and compare them with what was last saved. The form library is a parameter:
  its tree of changed fields is an argument.

  The main results are that the nested form and the flat options determine each other, and that
  submitting sends exactly the marked fields that differ from the saved ones, and none when nothing changed since
  the last save.
\<close>

subsection \<open>Nested and flat values\<close>

definition next_key :: "jsstr option \<Rightarrow> jsstr \<Rightarrow> jsstr" where
  "next_key parentKey key =
     (case parentKey of None \<Rightarrow> key | Some p \<Rightarrow> if p = [] then key else p @ [46] @ key)"

function flattenValues :: "jsval \<Rightarrow> jsstr option \<Rightarrow> (jsstr \<times> jsval) list \<Rightarrow> (jsstr \<times> jsval) list" where
  "flattenValues v parentKey result =
     (case v of
        JObj ps \<Rightarrow>
          foldl (\<lambda>r e.
            if is_plain_object (snd e) then flattenValues (snd e) (Some (next_key parentKey (fst e))) r
            else obj_put r (next_key parentKey (fst e), snd e)) result (obj_entries ps)
      | _ \<Rightarrow> (case parentKey of Some k \<Rightarrow> obj_put result (k, v) | None \<Rightarrow> result))"
  by pat_completeness auto
termination
proof (relation "measure (\<lambda>(v, _, _). size v)", goal_cases)
  case 1
  show ?case by simp
next
  case (2 v parentKey result ps r e)
  then have "(fst e, snd e) \<in> set (obj_entries ps)" by simp
  from size_obj_entries [OF this] 2 show ?case by (simp add: size_prod_simp)
qed

declare flattenValues.simps [simp del]

fun set_deep :: "(jsstr \<times> jsval) list \<Rightarrow> jsstr list \<Rightarrow> jsval \<Rightarrow> (jsstr \<times> jsval) list" where
  "set_deep target [] v = target"
| "set_deep target [segment] v = obj_put target (segment, v)"
| "set_deep target (segment # rest) v =
     obj_put target (segment, JObj (set_deep (props_of (obj_get (JObj target) segment)) rest v))"

definition setDeepValue :: "(jsstr \<times> jsval) list \<Rightarrow> jsstr \<Rightarrow> jsval \<Rightarrow> (jsstr \<times> jsval) list" where
  "setDeepValue target path v = set_deep target (split_char 46 path) v"

function expandDotPaths :: "jsval \<Rightarrow> jsval" where
  "expandDotPaths v =
     (case v of
        JObj ps \<Rightarrow>
          JObj (foldl (\<lambda>r e.
            if includes_str (fst e) [46] then setDeepValue r (fst e) (snd e)
            else if is_plain_object (snd e) then obj_put r (fst e, expandDotPaths (snd e))
            else obj_put r e) [] (obj_entries ps))
      | _ \<Rightarrow> v)"
  by pat_completeness auto
termination
proof (relation "measure size", goal_cases)
  case 1
  show ?case by simp
next
  case (2 v ps r e)
  then have "(fst e, snd e) \<in> set (obj_entries ps)" by simp
  from size_obj_entries [OF this] 2 show ?case by (simp add: size_prod_simp)
qed

declare expandDotPaths.simps [simp del]

subsection \<open>Changed fields\<close>

text \<open>Reading a property of an object or an element of a list.\<close>

definition child :: "jsval \<Rightarrow> jsstr \<Rightarrow> jsval" where
  "child v key =
     (case v of
        JObj ps \<Rightarrow> obj_get v key
      | JArr vs \<Rightarrow> if is_index_key key \<and> digits_val key < int (length vs) then vs ! nat (digits_val key) else JUndef
      | _ \<Rightarrow> JUndef)"

lemma size_indexed [termination_simp]: "(k, w) \<in> set (indexed vs) \<Longrightarrow> size w < Suc (size_list size vs)"
  by (auto simp: indexed_def less_Suc_eq_le intro: size_list_estimation' [OF nth_mem])

function collectDirtyValues ::
  "jsval \<Rightarrow> jsval \<Rightarrow> jsstr option \<Rightarrow> (jsstr \<times> jsval) list \<Rightarrow> (jsstr \<times> jsval) list" where
  "collectDirtyValues dirty vals parentKey result =
     (if dirty = JBool True then (case parentKey of Some k \<Rightarrow> obj_put result (k, vals) | None \<Rightarrow> result)
      else (case dirty of
        JObj ps \<Rightarrow>
          foldl (\<lambda>r e.
            let nextKey = next_key parentKey (fst e); source = child vals (fst e) in
            if snd e = JBool True then obj_put r (nextKey, source)
            else collectDirtyValues (snd e) source (Some nextKey) r) result (obj_entries ps)
      | JArr ds \<Rightarrow>
          foldl (\<lambda>r e.
            let nextKey = next_key parentKey (fst e); source = child vals (fst e) in
            if snd e = JBool True then obj_put r (nextKey, source)
            else collectDirtyValues (snd e) source (Some nextKey) r) result (indexed ds)
      | _ \<Rightarrow> result))"
  by pat_completeness auto
termination
proof (relation "measure (\<lambda>(d, _, _, _). size d)", goal_cases)
  case 1
  show ?case by simp
next
  case (2 dirty vals parentKey result ds r e x xa)
  then have "(fst e, snd e) \<in> set (indexed ds)" by simp
  from size_indexed [OF this] 2 show ?case by simp
next
  case (3 dirty vals parentKey result ps r e x xa)
  then have "(fst e, snd e) \<in> set (obj_entries ps)" by simp
  from size_obj_entries [OF this] 3 show ?case by (simp add: size_prod_simp)
qed

declare collectDirtyValues.simps [simp del]

text \<open>\<open>typeof\<close>.\<close>

fun type_name :: "jsval \<Rightarrow> string" where
  "type_name JUndef = ''undefined''"
| "type_name (JBool _) = ''boolean''"
| "type_name (JNum _) = ''number''"
| "type_name (JStr _) = ''string''"
| "type_name _ = ''object''"

definition is_list :: "jsval \<Rightarrow> bool" where
  "is_list v \<longleftrightarrow> (case v of JArr _ \<Rightarrow> True | _ \<Rightarrow> False)"

definition defaultCompare :: "jsval \<Rightarrow> jsval \<Rightarrow> bool" where
  "defaultCompare a b =
     (if strict_eq a b then True
      else if is_list a \<and> is_list b then json_print a = json_print b
      else if type_name a \<noteq> type_name b then False
      else if truthy a \<and> truthy b \<and> type_name a = ''object'' \<and> type_name b = ''object''
      then json_print a = json_print b
      else False)"

subsection \<open>The form\<close>

record settings_form =
  sf_values :: jsval
  sf_defaultValuesRef :: jsval
  sf_baselineRef :: "(jsstr \<times> jsval) list"
  sf_serializedRef :: jsstr
  sf_pending :: "jsval list"

definition init_form :: "jsval \<Rightarrow> settings_form" where
  "init_form defaults =
     (let expanded = (if is_nullish (expandDotPaths defaults) then JObj [] else expandDotPaths defaults);
          baseline = flattenValues expanded None []
      in \<lparr>sf_values = expanded, sf_defaultValuesRef = expanded, sf_baselineRef = baseline,
          sf_serializedRef = json_print (JObj baseline), sf_pending = []\<rparr>)"

text \<open>The effect that takes over new values of the server.\<close>

definition refresh_effect :: "jsval \<Rightarrow> bool \<Rightarrow> bool \<Rightarrow> settings_form \<Rightarrow> settings_form" where
  "refresh_effect expandedDefaults isDirty isSubmitting s =
     (if \<not> truthy expandedDefaults \<or> isDirty \<or> isSubmitting then s
      else let flattened = flattenValues expandedDefaults None []; serialized = json_print (JObj flattened) in
        if serialized = sf_serializedRef s then s
        else s\<lparr>sf_baselineRef := flattened, sf_defaultValuesRef := expandedDefaults,
               sf_serializedRef := serialized, sf_values := expandedDefaults\<rparr>)"

definition changed_entries ::
  "(jsval \<Rightarrow> jsval \<Rightarrow> bool) \<Rightarrow> jsval \<Rightarrow> jsval \<Rightarrow> settings_form \<Rightarrow> (jsstr \<times> jsval) list" where
  "changed_entries compare dirty data s =
     filter (\<lambda>(k, v). \<not> compare v (obj_get (JObj (sf_baselineRef s)) k))
       (obj_entries (collectDirtyValues dirty data None []))"

text \<open>\<open>None\<close> when there is nothing to save; the fields handed to \<open>onSubmit\<close> otherwise.\<close>

definition submitted_fields ::
  "(jsval \<Rightarrow> jsval \<Rightarrow> bool) \<Rightarrow> jsval \<Rightarrow> jsval \<Rightarrow> settings_form \<Rightarrow> (jsstr \<times> jsval) list option" where
  "submitted_fields compare dirty data s =
     (let changedEntries = changed_entries compare dirty data s in
      if changedEntries = [] then None else Some (foldl obj_put [] changedEntries))"

definition saved_form :: "jsval \<Rightarrow> settings_form \<Rightarrow> settings_form" where
  "saved_form data s =
     (let flattenedValues = flattenValues data None [] in
      s\<lparr>sf_baselineRef := flattenedValues, sf_defaultValuesRef := data,
        sf_serializedRef := json_print (JObj flattenedValues), sf_values := data\<rparr>)"

text \<open>A submission waits for \<open>onSubmit\<close>; the settings that were handed to it are pending until it returns
  or throws. In between the user can edit.\<close>

definition handleSubmit ::
  "(jsval \<Rightarrow> jsval \<Rightarrow> bool) \<Rightarrow> jsval \<Rightarrow> jsval \<Rightarrow> settings_form \<Rightarrow> settings_form" where
  "handleSubmit compare dirty data s =
     (case submitted_fields compare dirty data s of
        None \<Rightarrow> s
      | Some changedFields \<Rightarrow> s\<lparr>sf_pending := sf_pending s @ [data]\<rparr>)"

text \<open>\<open>saved\<close> is whether \<open>onSubmit\<close> returned; when it throws, nothing is recorded.\<close>

definition submit_answer :: "jsval \<Rightarrow> bool \<Rightarrow> settings_form \<Rightarrow> settings_form" where
  "submit_answer data saved s =
     (if data \<notin> set (sf_pending s) then s
      else let s' = s\<lparr>sf_pending := remove1 data (sf_pending s)\<rparr> in if saved then saved_form data s' else s')"

definition handleReset :: "settings_form \<Rightarrow> settings_form" where
  "handleReset s = s\<lparr>sf_values := sf_defaultValuesRef s\<rparr>"


text \<open>What happens to a form, in the order it happens: the server's values arrive (with the flags of the form library),
  the user edits, submits or resets, the server answers a submission.\<close>

datatype form_event =
    Refreshed jsval bool bool
  | Edited jsval
  | Submitted jsval jsval
  | Answered jsval bool
  | ResetPressed

fun form_step :: "(jsval \<Rightarrow> jsval \<Rightarrow> bool) \<Rightarrow> settings_form \<Rightarrow> form_event \<Rightarrow> settings_form" where
  "form_step compare s (Refreshed defaults isDirty isSubmitting) =
     refresh_effect (expandDotPaths defaults) isDirty isSubmitting s"
| "form_step compare s (Edited v) = s\<lparr>sf_values := v\<rparr>"
| "form_step compare s (Submitted dirty data) = handleSubmit compare dirty data s"
| "form_step compare s (Answered data saved) = submit_answer data saved s"
| "form_step compare s ResetPressed = handleReset s"

definition form_run :: "(jsval \<Rightarrow> jsval \<Rightarrow> bool) \<Rightarrow> jsval \<Rightarrow> form_event list \<Rightarrow> settings_form" where
  "form_run compare defaults es = foldl (form_step compare) (init_form defaults) es"

subsection \<open>Paths\<close>

text \<open>The reference notions: the fields of a nested value with the names that lead to them, and the
  fields a tree of marks marks.\<close>

definition under :: "jsstr \<Rightarrow> (jsstr list \<times> 'a) list \<Rightarrow> (jsstr list \<times> 'a) list" where
  "under k ls = map (\<lambda>(p, w). (k # p, w)) ls"

fun leaves :: "jsval \<Rightarrow> (jsstr list \<times> jsval) list" where
  "leaves (JObj ps) = concat (map (\<lambda>e. under (fst e) (leaves (snd e))) ps)"
| "leaves v = [([], v)]"

definition field_name :: "jsstr \<Rightarrow> bool" where
  "field_name k \<longleftrightarrow> k \<noteq> [] \<and> 46 \<notin> set k \<and> \<not> is_index_key k"

fun settings_tree :: "jsval \<Rightarrow> bool" where
  "settings_tree (JObj ps) =
     (distinct (map fst ps) \<and>
      list_all (\<lambda>e. field_name (fst e) \<and> snd e \<noteq> JObj [] \<and> settings_tree (snd e)) ps)"
| "settings_tree v = True"

abbreviation dotted :: "jsstr list \<Rightarrow> jsstr" where
  "dotted p \<equiv> js_join [46] p"

lemma dotted_snoc: "p \<noteq> [] \<Longrightarrow> dotted (p @ [k]) = dotted p @ [46] @ k"
  by (induction p rule: induct_list012) (simp_all add: js_join_Cons)

lemma dotted_nonempty: "p \<noteq> [] \<Longrightarrow> \<forall>k \<in> set p. k \<noteq> [] \<Longrightarrow> dotted p \<noteq> []"
  using js_join_eq_Nil [of "[46]" p] by (cases p) auto

definition parent :: "jsstr list \<Rightarrow> jsstr option" where
  "parent p = (if p = [] then None else Some (dotted p))"

lemma next_key_parent: "\<forall>k \<in> set p. k \<noteq> [] \<Longrightarrow> next_key (parent p) k = dotted (p @ [k])"
  using dotted_nonempty [of p] by (auto simp: next_key_def parent_def dotted_snoc)

lemma parent_snoc: "parent (p @ [k]) = Some (dotted (p @ [k]))"
  by (simp add: parent_def)

definition put_leaves :: "jsstr list \<Rightarrow> (jsstr \<times> jsval) list \<Rightarrow> (jsstr list \<times> jsval) list \<Rightarrow> (jsstr \<times> jsval) list" where
  "put_leaves pre r ls = foldl (\<lambda>r (p, w). obj_put r (dotted (pre @ p), w)) r ls"

lemma put_leaves_simps [simp]:
  "put_leaves pre r [] = r"
  "put_leaves pre r (l # ls) = put_leaves pre (obj_put r (dotted (pre @ fst l), snd l)) ls"
  by (simp_all add: put_leaves_def split_def)

lemma put_leaves_append: "put_leaves pre r (xs @ ys) = put_leaves pre (put_leaves pre r xs) ys"
  by (simp add: put_leaves_def)

lemma put_leaves_under: "put_leaves pre r (under k ls) = put_leaves (pre @ [k]) r ls"
  by (induction ls arbitrary: r) (simp_all add: under_def split_def)

lemma put_leaves_concat:
  "put_leaves pre r (concat (map f es)) = foldl (\<lambda>r e. put_leaves pre r (f e)) r es"
  by (induction es arbitrary: r) (simp_all add: put_leaves_append)

lemma entries_of_tree: "settings_tree (JObj ps) \<Longrightarrow> obj_entries ps = ps"
  by (rule obj_entries_no_index) (auto simp: list_all_iff field_name_def)

lemma flatten_leaves:
  "settings_tree v \<Longrightarrow> is_plain_object v \<Longrightarrow> \<forall>k \<in> set pre. k \<noteq> [] \<Longrightarrow>
   flattenValues v (parent pre) r = put_leaves pre r (leaves v)"
proof (induction v arbitrary: pre r rule: leaves.induct)
  case (1 ps)
  have "flattenValues (JObj ps) (parent pre) r =
      foldl (\<lambda>r e. if is_plain_object (snd e) then flattenValues (snd e) (Some (next_key (parent pre) (fst e))) r
        else obj_put r (next_key (parent pre) (fst e), snd e)) r ps"
    using 1(2) by (subst flattenValues.simps) (simp add: entries_of_tree)
  also have "\<dots> = foldl (\<lambda>r e. put_leaves pre r (under (fst e) (leaves (snd e)))) r ps"
  proof (rule foldl_cong [OF refl refl])
    fix r :: "(jsstr \<times> jsval) list" and e :: "jsstr \<times> jsval"
    assume e: "e \<in> set ps"
    with 1(2) have t: "field_name (fst e)" "settings_tree (snd e)" by (auto simp: list_all_iff)
    have ne: "\<forall>k \<in> set (pre @ [fst e]). k \<noteq> []" using 1(4) t(1) by (auto simp: field_name_def)
    show "(if is_plain_object (snd e) then flattenValues (snd e) (Some (next_key (parent pre) (fst e))) r
        else obj_put r (next_key (parent pre) (fst e), snd e)) = put_leaves pre r (under (fst e) (leaves (snd e)))"
    proof (cases "is_plain_object (snd e)")
      case True
      then show ?thesis using 1(1) [OF e t(2) True ne, of r] 1(4)
        by (simp add: next_key_parent parent_snoc put_leaves_under)
    next
      case False
      then have "leaves (snd e) = [([], snd e)]" by (cases "snd e") auto
      then show ?thesis using False 1(4) by (simp add: next_key_parent put_leaves_under)
    qed
  qed
  finally show ?case by (simp add: put_leaves_concat)
qed simp_all


lemma leaves_names:
  "settings_tree v \<Longrightarrow> (p, w) \<in> set (leaves v) \<Longrightarrow>
   \<not> is_plain_object w \<and> (is_plain_object v \<longrightarrow> p \<noteq> []) \<and> (\<forall>k \<in> set p. field_name k)"
proof (induction v arbitrary: p rule: leaves.induct)
  case (1 ps)
  then obtain e q where "e \<in> set ps" "p = fst e # q" "(q, w) \<in> set (leaves (snd e))"
    by (auto simp: under_def)
  with 1(1) [of e q] 1(2) show ?case by (auto simp: list_all_iff)
qed auto

lemma leaves_nonempty: "v \<noteq> JObj [] \<Longrightarrow> settings_tree v \<Longrightarrow> leaves v \<noteq> []"
proof (induction v rule: leaves.induct)
  case (1 ps)
  then obtain e where e: "e \<in> set ps" by (cases ps) auto
  with 1 have "leaves (snd e) \<noteq> []" by (auto simp: list_all_iff)
  with e show ?case by (auto simp: under_def)
qed auto

lemma leaves_distinct: "settings_tree v \<Longrightarrow> distinct (map fst (leaves v))"
proof (induction v rule: leaves.induct)
  case (1 ps)
  have d: "distinct (map fst (under (fst e) (leaves (snd e))))" if "e \<in> set ps" for e
    using 1(1) [OF that] 1(2) that
    by (auto simp: under_def list_all_iff distinct_map inj_on_def split_def)
  from 1(2) have "distinct (map fst ps)" by simp
  then show ?case using d
    by (induction ps) (auto simp: under_def image_iff)
qed auto

lemma dotted_inj:
  assumes "dotted p = dotted q" and "p \<noteq> []" and "q \<noteq> []"
    and "\<forall>k \<in> set p. field_name k" and "\<forall>k \<in> set q. field_name k"
  shows "p = q"
proof -
  have "split_char 46 (dotted p) = p" if "p \<noteq> []" "\<forall>k \<in> set p. field_name k" for p
    using that by (intro split_char_join) (simp_all add: field_name_def)
  then show ?thesis using assms by metis
qed

definition flat_leaves :: "jsval \<Rightarrow> (jsstr \<times> jsval) list" where
  "flat_leaves v = map (\<lambda>l. (dotted (fst l), snd l)) (leaves v)"

lemma flat_leaves_distinct:
  assumes "settings_tree v" and "is_plain_object v"
  shows "distinct (map fst (flat_leaves v))"
proof -
  have ok: "p \<noteq> [] \<and> (\<forall>k \<in> set p. field_name k)" if "p \<in> fst ` set (leaves v)" for p
    using that leaves_names [OF assms(1)] assms(2) by fastforce
  have "inj_on dotted (fst ` set (leaves v))"
    by (rule inj_onI) (use ok in \<open>auto intro: dotted_inj\<close>)
  then have "distinct (map dotted (map fst (leaves v)))"
    using leaves_distinct [OF assms(1)] by (simp only: distinct_map [of dotted] set_map)
  then show ?thesis by (simp add: flat_leaves_def comp_def)
qed

text \<open>The flat form of a nested value lists its fields.\<close>

lemma flatten_flat:
  assumes "settings_tree v" and "is_plain_object v"
  shows "flattenValues v None [] = flat_leaves v"
proof -
  have "flattenValues v None [] = foldl obj_put [] (flat_leaves v)"
    using flatten_leaves [OF assms, of "[]" "[]"]
    by (simp add: parent_def put_leaves_def flat_leaves_def foldl_map split_def)
  then show ?thesis using obj_put_fresh [of "[]" "flat_leaves v"] flat_leaves_distinct [OF assms] by simp
qed


subsection \<open>Rebuilding the nested form\<close>

definition set_leaves :: "(jsstr \<times> jsval) list \<Rightarrow> (jsstr list \<times> jsval) list \<Rightarrow> (jsstr \<times> jsval) list" where
  "set_leaves r ls = foldl (\<lambda>r l. set_deep r (fst l) (snd l)) r ls"

lemma set_leaves_simps [simp]:
  "set_leaves r [] = r"
  "set_leaves r (l # ls) = set_leaves (set_deep r (fst l) (snd l)) ls"
  by (simp_all add: set_leaves_def)

lemma set_leaves_append: "set_leaves r (xs @ ys) = set_leaves (set_leaves r xs) ys"
  by (simp add: set_leaves_def)

lemma put_last: "k \<notin> fst ` set r \<Longrightarrow> obj_put (r @ [(k, v)]) (k, w) = r @ [(k, w)]"
  by (simp add: obj_put_in replace_absent)

lemma get_last: "k \<notin> fst ` set r \<Longrightarrow> obj_get (JObj (r @ [(k, v)])) k = v"
  by (simp add: map_add_def flip: map_of_eq_None_iff)

lemma get_absent: "k \<notin> fst ` set r \<Longrightarrow> obj_get (JObj r) k = JUndef"
  by (simp flip: map_of_eq_None_iff)

lemma set_leaves_last:
  assumes "k \<notin> fst ` set r" and "\<forall>l \<in> set ls. fst l \<noteq> []"
  shows "set_leaves (r @ [(k, JObj q)]) (under k ls) = r @ [(k, JObj (set_leaves q ls))]"
  using assms(2)
proof (induction ls arbitrary: q)
  case (Cons l ls)
  then obtain x p where "fst l = x # p" by (cases "fst l") auto
  with Cons assms(1) show ?case
    by (simp add: under_def split_def get_last put_last props_of_def del: obj_get.simps)
qed (simp add: under_def)

lemma set_leaves_fresh:
  assumes k: "k \<notin> fst ` set r" and ls: "\<forall>l \<in> set ls. fst l \<noteq> []" and "ls \<noteq> []"
  shows "set_leaves r (under k ls) = r @ [(k, JObj (set_leaves [] ls))]"
proof -
  from assms(3) obtain l ms where l: "ls = l # ms" by (cases ls) auto
  with ls obtain x p where p: "fst l = x # p" by (cases "fst l") auto
  have "set_deep r (k # fst l) (snd l) = r @ [(k, JObj (set_deep [] (fst l) (snd l)))]"
    using k p by (simp add: get_absent props_of_def obj_put_out del: obj_get.simps)
  then show ?thesis using set_leaves_last [OF k, of ms] ls l by (simp add: under_def split_def)
qed

lemma set_leaves_entry:
  assumes "k \<notin> fst ` set r" and "settings_tree v" and "v \<noteq> JObj []"
    and "is_plain_object v \<Longrightarrow> JObj (set_leaves [] (leaves v)) = v"
  shows "set_leaves r (under k (leaves v)) = r @ [(k, v)]"
proof (cases "is_plain_object v")
  case True
  then have "\<forall>l \<in> set (leaves v). fst l \<noteq> []" using leaves_names [OF assms(2)] by fastforce
  then show ?thesis
    using set_leaves_fresh [OF assms(1) _ leaves_nonempty [OF assms(3,2)]] assms(4) True by simp
next
  case False
  then have "leaves v = [([], v)]" by (cases v) auto
  then show ?thesis using assms(1) by (simp add: under_def obj_put_out)
qed

lemma rebuild_leaves:
  "settings_tree v \<Longrightarrow> is_plain_object v \<Longrightarrow> JObj (set_leaves [] (leaves v)) = v"
proof (induction v rule: leaves.induct)
  case (1 ps)
  have "set_leaves r (concat (map (\<lambda>e. under (fst e) (leaves (snd e))) qs)) = r @ qs"
    if "set qs \<subseteq> set ps" and "distinct (map fst (r @ qs))" for r qs
    using that
  proof (induction qs arbitrary: r)
    case (Cons e qs)
    then have e: "e \<in> set ps" and new: "fst e \<notin> fst ` set r" by auto
    with 1(2) have t: "settings_tree (snd e)" "snd e \<noteq> JObj []" by (auto simp: list_all_iff)
    have "set_leaves r (under (fst e) (leaves (snd e))) = r @ [e]"
      using set_leaves_entry [OF new t] 1(1) [OF e t(1)] by simp
    with Cons.IH [of "r @ [e]"] Cons.prems show ?case by (simp add: set_leaves_append)
  qed simp
  from this [of ps "[]"] 1(2) show ?case by simp
qed simp_all

lemma expand_step:
  assumes "settings_tree v" and "is_plain_object v" and "l \<in> set (leaves v)"
  shows "(if includes_str (dotted (fst l)) [46] then setDeepValue r (dotted (fst l)) (snd l)
      else if is_plain_object (snd l) then obj_put r (dotted (fst l), expandDotPaths (snd l))
      else obj_put r (dotted (fst l), snd l)) = set_deep r (fst l) (snd l)"
proof -
  have l: "\<not> is_plain_object (snd l)" "fst l \<noteq> []" "\<forall>k \<in> set (fst l). field_name k"
    using leaves_names [OF assms(1), of "fst l" "snd l"] assms(2,3) by auto
  then have sp: "split_char 46 (dotted (fst l)) = fst l"
    by (intro split_char_join) (simp_all add: field_name_def)
  show ?thesis
  proof (cases "46 \<in> set (dotted (fst l))")
    case True
    then show ?thesis by (simp add: includes_char setDeepValue_def sp)
  next
    case False
    then have "fst l = [dotted (fst l)]" using sp by (simp add: split_char_plain)
    then show ?thesis using False l(1) set_deep.simps(2) by (metis includes_char)
  qed
qed

lemma dotted_no_index:
  assumes "p \<noteq> []" and "\<forall>k \<in> set p. field_name k"
  shows "\<not> is_index_key (dotted p)"
proof (cases "tl p = []")
  case True
  with assms show ?thesis by (cases p) (auto simp: field_name_def)
next
  case False
  then have "46 \<in> set (dotted p)" using assms(1) by (cases p) (simp_all add: js_join_Cons)
  moreover have "\<not> is_digit 46" by (simp add: is_digit_def)
  ultimately show ?thesis by (auto simp: is_index_key_def list_all_iff)
qed

lemma expand_flat:
  assumes "settings_tree v" and "is_plain_object v"
  shows "expandDotPaths (JObj (flat_leaves v)) = JObj (set_leaves [] (leaves v))"
proof -
  have "\<not> is_index_key (dotted (fst l))" if "l \<in> set (leaves v)" for l
    using leaves_names [OF assms(1), of "fst l" "snd l"] that assms(2) by (intro dotted_no_index) auto
  then have "obj_entries (flat_leaves v) = flat_leaves v"
    by (intro obj_entries_no_index) (auto simp: flat_leaves_def list_all_iff)
  then have "expandDotPaths (JObj (flat_leaves v)) =
      JObj (foldl (\<lambda>r l. if includes_str (dotted (fst l)) [46] then setDeepValue r (dotted (fst l)) (snd l)
        else if is_plain_object (snd l) then obj_put r (dotted (fst l), expandDotPaths (snd l))
        else obj_put r (dotted (fst l), snd l)) [] (leaves v))"
    by (subst expandDotPaths.simps) (simp add: flat_leaves_def foldl_map cong: if_cong)
  also have "\<dots> = JObj (set_leaves [] (leaves v))"
    unfolding set_leaves_def jsval.inject by (rule foldl_cong [OF refl refl expand_step [OF assms]])
  finally show ?thesis .
qed

text \<open>The nested form and the flat options determine each other. For every nested object of settings whose keys
  are non-empty, contain no dot, are no array indices and do not repeat, and which has no empty sub-object,
  flattening it to dotted options and expanding the options again gives the object back; the options have
  distinct names, and none of their values is an object.\<close>

theorem settings_roundtrip:
  assumes "settings_tree v" and "is_plain_object v"
  shows "expandDotPaths (JObj (flattenValues v None [])) = v \<and>
    distinct (map fst (flattenValues v None [])) \<and>
    (\<forall>e \<in> set (flattenValues v None []). \<not> is_plain_object (snd e))"
proof -
  have "\<not> is_plain_object (snd l)" if "l \<in> set (leaves v)" for l
    using leaves_names [OF assms(1), of "fst l" "snd l"] that by simp
  then have "\<forall>e \<in> set (flat_leaves v). \<not> is_plain_object (snd e)" by (auto simp: flat_leaves_def)
  then show ?thesis
    using flat_leaves_distinct [OF assms] expand_flat [OF assms]
    by (simp add: flatten_flat [OF assms] rebuild_leaves [OF assms])
qed

definition sample_settings :: jsval where
  "sample_settings = JObj [(js ''name'', JStr (js ''x'')),
     (js ''theme'', JObj [(js ''mode'', JBool True), (js ''tags'', JArr [JNull])]), (js ''n'', JNum (Fin 3))]"

theorem settings_roundtrip_witness:
  "expandDotPaths (JObj (flattenValues sample_settings None [])) = sample_settings \<and>
   map fst (flattenValues sample_settings None []) = map js [''name'', ''theme.mode'', ''theme.tags'', ''n'']"
proof -
  have "settings_tree sample_settings" "is_plain_object sample_settings" by code_simp+
  from settings_roundtrip [OF this]
  have "expandDotPaths (JObj (flattenValues sample_settings None [])) = sample_settings" by simp
  moreover have "map fst (flattenValues sample_settings None []) = map js [''name'', ''theme.mode'', ''theme.tags'', ''n'']"
    by code_simp
  ultimately show ?thesis by blast
qed


subsection \<open>What a submission sends\<close>

text \<open>The fields a tree of marks marks, and the value found by following names.\<close>

fun marked :: "jsval \<Rightarrow> jsstr list list" where
  "marked (JBool b) = (if b then [[]] else [])"
| "marked (JObj ps) = concat (map (\<lambda>e. map ((#) (fst e)) (marked (snd e))) (obj_entries ps))"
| "marked (JArr ds) = concat (map (\<lambda>e. map ((#) (fst e)) (marked (snd e))) (indexed ds))"
| "marked v = []"

fun value_at :: "jsval \<Rightarrow> jsstr list \<Rightarrow> jsval" where
  "value_at v [] = v"
| "value_at v (k # p) = value_at (child v k) p"

fun marks_tree :: "jsval \<Rightarrow> bool" where
  "marks_tree (JObj ps) = list_all (\<lambda>e. fst e \<noteq> [] \<and> marks_tree (snd e)) ps"
| "marks_tree (JArr ds) = list_all marks_tree ds"
| "marks_tree v = True"


definition marked_fields :: "jsval \<Rightarrow> jsval \<Rightarrow> (jsstr list \<times> jsval) list" where
  "marked_fields dirty data = map (\<lambda>p. (p, value_at data p)) (marked dirty)"

lemma marked_fields_step:
  "map (\<lambda>p. (p, value_at data p)) (concat (map (\<lambda>e. map ((#) (fst e)) (marked (snd e))) es)) =
   concat (map (\<lambda>e. under (fst e) (marked_fields (snd e) (child data (fst e)))) es)"
  by (induction es) (simp_all add: under_def marked_fields_def)

lemma collect_children:
  assumes IH: "\<And>e source pre r. e \<in> set es \<Longrightarrow> snd e \<noteq> JBool True \<Longrightarrow> \<forall>k \<in> set pre. k \<noteq> [] \<Longrightarrow>
      collectDirtyValues (snd e) source (parent pre) r = put_leaves pre r (marked_fields (snd e) source)"
    and "\<forall>e \<in> set es. fst e \<noteq> []" and "\<forall>k \<in> set pre. k \<noteq> []"
  shows "foldl (\<lambda>r e. let nextKey = next_key (parent pre) (fst e); source = child data (fst e) in
        if snd e = JBool True then obj_put r (nextKey, source)
        else collectDirtyValues (snd e) source (Some nextKey) r) r es =
    put_leaves pre r (concat (map (\<lambda>e. under (fst e) (marked_fields (snd e) (child data (fst e)))) es))"
  unfolding put_leaves_concat
proof (rule foldl_cong [OF refl refl])
  fix r :: "(jsstr \<times> jsval) list" and e
  assume e: "e \<in> set es"
  have nk: "next_key (parent pre) (fst e) = dotted (pre @ [fst e])" using assms(3) by (rule next_key_parent)
  have ne: "\<forall>k \<in> set (pre @ [fst e]). k \<noteq> []" using assms(2,3) e by auto
  show "(let nextKey = next_key (parent pre) (fst e); source = child data (fst e) in
        if snd e = JBool True then obj_put r (nextKey, source)
        else collectDirtyValues (snd e) source (Some nextKey) r) =
      put_leaves pre r (under (fst e) (marked_fields (snd e) (child data (fst e))))"
  proof (cases "snd e = JBool True")
    case True
    then show ?thesis by (simp add: nk put_leaves_under marked_fields_def)
  next
    case False
    with IH [OF e False ne] show ?thesis by (simp add: nk put_leaves_under parent_snoc)
  qed
qed

lemma indexed_names: "e \<in> set (indexed ds) \<Longrightarrow> fst e \<noteq> [] \<and> snd e \<in> set ds"
  using int_digits_nonempty by (auto simp: indexed_def int_str_def)

lemma collect_marked:
  "marks_tree dirty \<Longrightarrow> dirty \<noteq> JBool True \<Longrightarrow> \<forall>k \<in> set pre. k \<noteq> [] \<Longrightarrow>
   collectDirtyValues dirty data (parent pre) r = put_leaves pre r (marked_fields dirty data)"
proof (induction dirty arbitrary: data pre r rule: marked.induct)
  case (1 b)
  then show ?case by (subst collectDirtyValues.simps) (simp add: marked_fields_def)
next
  case (2 ps)
  have names: "\<forall>e \<in> set (obj_entries ps). fst e \<noteq> [] \<and> marks_tree (snd e)"
    using 2(2) by (auto simp: list_all_iff)
  have "collectDirtyValues (snd e) source (parent pre) r = put_leaves pre r (marked_fields (snd e) source)"
    if "e \<in> set (obj_entries ps)" "snd e \<noteq> JBool True" "\<forall>k \<in> set pre. k \<noteq> []" for e source pre r
    using 2(1) [OF that(1) _ that(2,3)] names that(1) by blast
  moreover have "\<forall>e \<in> set (obj_entries ps). fst e \<noteq> []" using names by blast
  ultimately have step: "foldl (\<lambda>r e. let nextKey = next_key (parent pre) (fst e); source = child data (fst e) in
        if snd e = JBool True then obj_put r (nextKey, source)
        else collectDirtyValues (snd e) source (Some nextKey) r) r (obj_entries ps) =
      put_leaves pre r (concat (map (\<lambda>e. under (fst e) (marked_fields (snd e) (child data (fst e)))) (obj_entries ps)))"
    by (rule collect_children [OF _ _ 2(4)])
  have "marked_fields (JObj ps) data =
      concat (map (\<lambda>e. under (fst e) (marked_fields (snd e) (child data (fst e)))) (obj_entries ps))"
    by (simp only: marked_fields_def [of "JObj ps"] marked.simps marked_fields_step)
  with step show ?case by (subst collectDirtyValues.simps) (simp only: jsval.distinct jsval.case if_False)
next
  case (3 ds)
  have names: "\<forall>e \<in> set (indexed ds). fst e \<noteq> [] \<and> marks_tree (snd e)"
    using 3(2) by (auto simp: list_all_iff dest: indexed_names)
  have "collectDirtyValues (snd e) source (parent pre) r = put_leaves pre r (marked_fields (snd e) source)"
    if "e \<in> set (indexed ds)" "snd e \<noteq> JBool True" "\<forall>k \<in> set pre. k \<noteq> []" for e source pre r
    using 3(1) [OF that(1) _ that(2,3)] names that(1) by blast
  moreover have "\<forall>e \<in> set (indexed ds). fst e \<noteq> []" using names by blast
  ultimately have step: "foldl (\<lambda>r e. let nextKey = next_key (parent pre) (fst e); source = child data (fst e) in
        if snd e = JBool True then obj_put r (nextKey, source)
        else collectDirtyValues (snd e) source (Some nextKey) r) r (indexed ds) =
      put_leaves pre r (concat (map (\<lambda>e. under (fst e) (marked_fields (snd e) (child data (fst e)))) (indexed ds)))"
    by (rule collect_children [OF _ _ 3(4)])
  have "marked_fields (JArr ds) data =
      concat (map (\<lambda>e. under (fst e) (marked_fields (snd e) (child data (fst e)))) (indexed ds))"
    by (simp only: marked_fields_def [of "JArr ds"] marked.simps marked_fields_step)
  with step show ?case by (subst collectDirtyValues.simps) (simp only: jsval.distinct jsval.case if_False)
qed (subst collectDirtyValues.simps; simp add: marked_fields_def)+


lemma child_entry: "distinct (map fst ps) \<Longrightarrow> e \<in> set ps \<Longrightarrow> child (JObj ps) (fst e) = snd e"
  by (cases e) (simp add: child_def)

lemma value_at_leaf: "settings_tree v \<Longrightarrow> (p, w) \<in> set (leaves v) \<Longrightarrow> value_at v p = w"
proof (induction v arbitrary: p rule: leaves.induct)
  case (1 ps)
  then obtain e q where e: "e \<in> set ps" "p = fst e # q" "(q, w) \<in> set (leaves (snd e))"
    by (auto simp: under_def)
  with 1(2) have "settings_tree (snd e)" "distinct (map fst ps)" by (auto simp: list_all_iff)
  with 1(1) [OF e(1), of q] e show ?case by (simp add: child_entry)
qed auto

lemma compare_same: "w \<noteq> JNum NaN \<Longrightarrow> defaultCompare w w"
  by (cases w) (auto simp: defaultCompare_def is_list_def num_eq_def)

text \<open>The marks point at fields of the data, and no such field is \<open>NaN\<close>.\<close>

definition marks_fields :: "jsval \<Rightarrow> jsval \<Rightarrow> bool" where
  "marks_fields dirty data \<longleftrightarrow> marks_tree dirty \<and> dirty \<noteq> JBool True \<and>
     (\<forall>p \<in> set (marked dirty). p \<in> fst ` set (leaves data) \<and> value_at data p \<noteq> JNum NaN)"

lemma keys_foldl_put: "fst ` set (foldl obj_put r es) = fst ` set r \<union> fst ` set es"
  by (induction es arbitrary: r) (auto simp: keys_put)

lemma collect_top:
  assumes "marks_tree dirty" and "dirty \<noteq> JBool True"
  shows "collectDirtyValues dirty data None [] =
    foldl obj_put [] (map (\<lambda>p. (dotted p, value_at data p)) (marked dirty))"
  using collect_marked [OF assms, of "[]" data "[]"]
  by (simp add: parent_def put_leaves_def marked_fields_def foldl_map)

lemma collected_fields:
  assumes "marks_tree dirty" and "dirty \<noteq> JBool True" and "e \<in> set (collectDirtyValues dirty data None [])"
  shows "\<exists>p \<in> set (marked dirty). e = (dotted p, value_at data p)"
proof -
  have "set (foldl obj_put r es) \<subseteq> set r \<union> set es" for r es
    by (induction es arbitrary: r) (fastforce simp: obj_put_def split: if_splits)+
  with assms(3) show ?thesis by (fastforce simp: collect_top [OF assms(1,2)])
qed

lemma baseline_value:
  assumes "settings_tree data" and "is_plain_object data" and "p \<in> fst ` set (leaves data)"
  shows "obj_get (JObj (flattenValues data None [])) (dotted p) = value_at data p"
proof -
  from assms(3) obtain w where w: "(p, w) \<in> set (leaves data)" by auto
  then have "(dotted p, w) \<in> set (flat_leaves data)" by (force simp: flat_leaves_def)
  with flat_leaves_distinct [OF assms(1,2)] have "map_of (flat_leaves data) (dotted p) = Some w" by simp
  with value_at_leaf [OF assms(1) w] show ?thesis by (simp add: flatten_flat [OF assms(1,2)])
qed

lemma nothing_changed:
  assumes "sf_baselineRef s = flattenValues data None []"
    and "settings_tree data" and "is_plain_object data" and "marks_fields dirty data"
  shows "submitted_fields defaultCompare dirty data s = None"
proof -
  have "defaultCompare (snd e) (obj_get (JObj (sf_baselineRef s)) (fst e))"
    if "e \<in> set (collectDirtyValues dirty data None [])" for e
    using collected_fields [OF _ _ that] assms(4) baseline_value [OF assms(2,3)] assms(1)
    by (auto simp: marks_fields_def compare_same simp del: obj_get.simps)
  then show ?thesis by (auto simp: submitted_fields_def changed_entries_def filter_empty_conv)
qed

definition form_inv :: "settings_form \<Rightarrow> bool" where
  "form_inv s \<longleftrightarrow> sf_baselineRef s = flattenValues (sf_defaultValuesRef s) None [] \<and>
     sf_serializedRef s = json_print (JObj (sf_baselineRef s))"

lemma form_step_inv: "form_inv s \<Longrightarrow> form_inv (form_step compare s e)"
  by (cases e) (simp_all add: form_inv_def refresh_effect_def handleSubmit_def submit_answer_def saved_form_def
      handleReset_def Let_def split: option.split)

lemma form_run_inv: "form_inv (form_run compare defaults es)"
proof -
  have "form_inv (foldl (form_step compare) s es)" if "form_inv s" for s
    using that by (induction es arbitrary: s) (simp_all add: form_step_inv)
  moreover have "form_inv (init_form defaults)" by (simp add: form_inv_def init_form_def Let_def)
  ultimately show ?thesis by (simp add: form_run_def)
qed


lemma marked_names:
  assumes "settings_tree data" and "is_plain_object data" and "marks_fields dirty data" and "p \<in> set (marked dirty)"
  shows "p \<noteq> [] \<and> (\<forall>k \<in> set p. field_name k)"
  using assms leaves_names [OF assms(1)] by (fastforce simp: marks_fields_def)

lemma collected_iff:
  assumes "settings_tree data" and "is_plain_object data" and m: "marks_fields dirty data" and p: "p \<in> set (marked dirty)"
  shows "(dotted p, w) \<in> set (collectDirtyValues dirty data None []) \<longleftrightarrow> w = value_at data p"
proof -
  have d: "marks_tree dirty" "dirty \<noteq> JBool True" using m by (simp_all add: marks_fields_def)
  have only: "w = value_at data p" if "(dotted p, w) \<in> set (collectDirtyValues dirty data None [])" for w
  proof -
    from collected_fields [OF d that] obtain q where q: "q \<in> set (marked dirty)" "dotted p = dotted q" "w = value_at data q"
      by auto
    have "p = q"
      using dotted_inj [OF q(2)] marked_names [OF assms(1,2) m p] marked_names [OF assms(1,2) m q(1)] by blast
    with q(3) show ?thesis by simp
  qed
  have "dotted p \<in> fst ` set (collectDirtyValues dirty data None [])"
    using p by (force simp: collect_top [OF d] keys_foldl_put)
  then obtain u where "(dotted p, u) \<in> set (collectDirtyValues dirty data None [])" by auto
  with only show ?thesis by metis
qed

lemma map_of_only:
  "(\<And>w. (k, w) \<in> set es \<longleftrightarrow> b \<and> w = v) \<Longrightarrow> map_of es k = (if b then Some v else None)"
proof (cases "map_of es k")
  case None
  assume "\<And>w. (k, w) \<in> set es \<longleftrightarrow> b \<and> w = v"
  moreover have "(k, v) \<notin> set es" using None by (force simp: map_of_eq_None_iff)
  ultimately show ?thesis using None by simp
next
  case (Some w)
  assume "\<And>w. (k, w) \<in> set es \<longleftrightarrow> b \<and> w = v"
  with map_of_SomeD [OF Some] Some show ?thesis by simp
qed

lemma map_of_puts_rev: "map_of (foldl obj_put r es) k = (map_of r ++ map_of (rev es)) k"
proof (induction es arbitrary: r)
  case (Cons e es)
  then show ?case by (cases e) (simp add: map_add_def split: option.split)
qed simp

lemma submitted_value:
  assumes "settings_tree data" and "is_plain_object data" and "marks_fields dirty data" and "p \<in> set (marked dirty)"
    and "submitted_fields compare dirty data s = Some ch"
  shows "map_of ch (dotted p) =
    (if \<not> compare (value_at data p) (obj_get (JObj (sf_baselineRef s)) (dotted p)) then Some (value_at data p) else None)"
proof -
  let ?b = "\<not> compare (value_at data p) (obj_get (JObj (sf_baselineRef s)) (dotted p))"
  have ch: "ch = foldl obj_put [] (changed_entries compare dirty data s)"
    using assms(5) by (simp add: submitted_fields_def Let_def split: if_splits)
  have "map_of (rev (changed_entries compare dirty data s)) (dotted p) = (if ?b then Some (value_at data p) else None)"
    by (rule map_of_only)
      (auto simp: changed_entries_def collected_iff [OF assms(1-4)] simp del: obj_get.simps)
  then show ?thesis by (simp only: ch map_of_puts_rev map_of.simps empty_map_add)
qed

lemma submitted_names:
  assumes "marks_tree dirty" and "dirty \<noteq> JBool True" and "submitted_fields compare dirty data s = Some ch"
  shows "fst ` set ch \<subseteq> dotted ` set (marked dirty)"
proof -
  have "ch = foldl obj_put [] (changed_entries compare dirty data s)"
    using assms(3) by (simp add: submitted_fields_def Let_def split: if_splits)
  then have "fst ` set ch \<subseteq> fst ` set (collectDirtyValues dirty data None [])"
    by (auto simp: keys_foldl_put changed_entries_def)
  then show ?thesis by (auto simp: collect_top [OF assms(1,2)] keys_foldl_put)
qed

text \<open>C35. A submission sends exactly the changes. In every state a form can reach, when the marks of
  the form library point at fields of the submitted settings: the fields handed to the server are marked ones, a marked field is
  among them exactly when its value differs from the last saved one, with that value. Once the
  server has accepted them, the form shows the submitted settings, and submitting them again, whatever fields are marked,
  sends nothing; when the server refuses, the form shows the same values and a second attempt sends the same
  fields.\<close>

theorem submission_exact:
  assumes "settings_tree data" and "is_plain_object data" and "marks_fields dirty data"
    and "submitted_fields defaultCompare dirty data (form_run defaultCompare defaults es) = Some ch"
  shows "fst ` set ch \<subseteq> dotted ` set (marked dirty) \<and>
    (\<forall>p \<in> set (marked dirty). map_of ch (dotted p) =
       (if defaultCompare (value_at data p)
            (obj_get (JObj (sf_baselineRef (form_run defaultCompare defaults es))) (dotted p))
        then None else Some (value_at data p))) \<and>
    sf_values (form_run defaultCompare defaults (es @ [Submitted dirty data, Answered data True])) = data \<and>
    (\<forall>dirty'. marks_fields dirty' data \<longrightarrow> submitted_fields defaultCompare dirty' data
       (form_run defaultCompare defaults (es @ [Submitted dirty data, Answered data True])) = None) \<and>
    sf_values (form_run defaultCompare defaults (es @ [Submitted dirty data, Answered data False])) =
      sf_values (form_run defaultCompare defaults es) \<and>
    submitted_fields defaultCompare dirty data
      (form_run defaultCompare defaults (es @ [Submitted dirty data, Answered data False])) = Some ch"
proof -
  let ?s = "form_run defaultCompare defaults es"
  let ?a = "form_run defaultCompare defaults (es @ [Submitted dirty data, Answered data True])"
    and ?r = "form_run defaultCompare defaults (es @ [Submitted dirty data, Answered data False])"
  have acc: "sf_baselineRef ?a = flattenValues data None []" "sf_values ?a = data"
    and ref: "sf_baselineRef ?r = sf_baselineRef ?s" "sf_values ?r = sf_values ?s"
    using assms(4) by (simp_all add: form_run_def handleSubmit_def submit_answer_def saved_form_def Let_def)
  have "submitted_fields defaultCompare dirty' data ?a = None" if "marks_fields dirty' data" for dirty'
    using nothing_changed [OF acc(1) assms(1,2) that] .
  moreover have "submitted_fields defaultCompare dirty data ?r = Some ch"
    using assms(4) by (simp add: submitted_fields_def changed_entries_def ref)
  moreover have "fst ` set ch \<subseteq> dotted ` set (marked dirty)"
    using submitted_names [OF _ _ assms(4)] assms(3) by (simp add: marks_fields_def)
  ultimately show ?thesis
    using submitted_value [OF assms(1-3) _ assms(4)] acc(2) ref(2) by (simp del: obj_get.simps)
qed

text \<open>Resetting goes back to what was saved. In every state a form can reach, the saved
  values are the ones a reset shows, the flat options they are compared with are the flattening of these values
  and the remembered text is the JSON text of the options; so submitting the values shown after a reset, whatever fields are
  marked, sends nothing.\<close>

theorem reset_restores_saved:
  assumes "s = form_run defaultCompare defaults (es @ [ResetPressed])"
  shows "sf_values s = sf_defaultValuesRef (form_run defaultCompare defaults es) \<and>
    sf_baselineRef s = flattenValues (sf_values s) None [] \<and>
    sf_serializedRef s = json_print (JObj (sf_baselineRef s)) \<and>
    (settings_tree (sf_values s) \<and> is_plain_object (sf_values s) \<and> marks_fields dirty (sf_values s) \<longrightarrow>
       submitted_fields defaultCompare dirty (sf_values s) s = None)"
proof -
  have s: "s = handleReset (form_run defaultCompare defaults es)" using assms by (simp add: form_run_def)
  with form_run_inv [of defaultCompare defaults es]
  have "sf_values s = sf_defaultValuesRef (form_run defaultCompare defaults es)"
    and b: "sf_baselineRef s = flattenValues (sf_values s) None []"
    and "sf_serializedRef s = json_print (JObj (sf_baselineRef s))"
    by (simp_all add: form_inv_def handleReset_def)
  with nothing_changed [OF b] show ?thesis by blast
qed


definition sample_defaults :: jsval where
  "sample_defaults = JObj [(js ''name'', JStr (js ''x'')), (js ''theme.mode'', JBool True), (js ''theme.size'', JNum (Fin 3))]"

definition sample_data :: jsval where
  "sample_data = JObj [(js ''name'', JStr (js ''x'')), (js ''theme'', JObj [(js ''mode'', JBool False), (js ''size'', JNum (Fin 3))])]"

definition sample_marks :: jsval where
  "sample_marks = JObj [(js ''name'', JBool True), (js ''theme'', JObj [(js ''mode'', JBool True)])]"

lemma sample_data_tree: "settings_tree sample_data" "is_plain_object sample_data"
  by code_simp+

lemma sample_marks_fields: "marks_fields sample_marks sample_data"
  by code_simp

lemma sample_marks_sent:
  "submitted_fields defaultCompare sample_marks sample_data (form_run defaultCompare sample_defaults []) =
   Some [(js ''theme.mode'', JBool False)]"
  by code_simp

theorem submission_exact_witness:
  "submitted_fields defaultCompare sample_marks sample_data (form_run defaultCompare sample_defaults []) =
     Some [(js ''theme.mode'', JBool False)] \<and>
   submitted_fields defaultCompare sample_marks sample_data
     (form_run defaultCompare sample_defaults ([] @ [Submitted sample_marks sample_data, Answered sample_data True])) = None"
  using submission_exact [OF sample_data_tree sample_marks_fields sample_marks_sent] sample_marks_fields sample_marks_sent by blast

theorem reset_restores_saved_witness:
  "sf_values (form_run defaultCompare sample_defaults ([Submitted sample_marks sample_data, Answered sample_data True] @ [ResetPressed])) = sample_data \<and>
   submitted_fields defaultCompare sample_marks sample_data
     (form_run defaultCompare sample_defaults ([Submitted sample_marks sample_data, Answered sample_data True] @ [ResetPressed])) = None"
proof -
  have v: "sf_values (form_run defaultCompare sample_defaults ([Submitted sample_marks sample_data, Answered sample_data True] @ [ResetPressed])) = sample_data"
    by code_simp
  from reset_restores_saved [OF refl, of sample_defaults "[Submitted sample_marks sample_data, Answered sample_data True]" sample_marks]
  show ?thesis unfolding v using sample_data_tree sample_marks_fields by blast
qed

text \<open>The remembered values never lose a user's edits: while the form is dirty or being submitted, values that
  arrive from the server change nothing, and are taken over by the next refresh after the edits are gone.\<close>

lemma refresh_waits_for_edits:
  "isDirty \<or> isSubmitting \<Longrightarrow> form_step compare s (Refreshed defaults isDirty isSubmitting) = s"
  by (auto simp: refresh_effect_def)

lemma refresh_takes_over:
  assumes "truthy (expandDotPaths defaults)"
  shows "sf_serializedRef (form_step compare s (Refreshed defaults False False)) =
    json_print (JObj (flattenValues (expandDotPaths defaults) None []))"
  using assms by (simp add: refresh_effect_def Let_def)

text \<open>What is typed while a submission waits for the server is lost when the server accepts it: the form is
  reset to the submitted settings.\<close>

lemma edit_while_saving_lost:
  assumes "submitted_fields compare dirty data (form_run compare defaults es) = Some ch"
  shows "sf_values (form_run compare defaults (es @ [Submitted dirty data, Edited v, Answered data True])) = data"
  using assms by (simp add: form_run_def handleSubmit_def submit_answer_def saved_form_def Let_def)

text \<open>An empty sub-object has no option, so it disappears on the way to the options and back.\<close>

lemma empty_object_lost:
  "expandDotPaths (JObj (flattenValues (JObj [(js ''a'', JObj []), (js ''b'', JNull)]) None [])) = JObj [(js ''b'', JNull)]"
  by code_simp

end
