(* ===== verification/Passkey.thy ===== *)
theory Passkey
  imports JsObject "HOL-Library.Word"
begin

section \<open>Passkey credentials\<close>

text \<open>
  \<open>lib/passkey.ts\<close>: the bytes of a credential (challenge, identifiers, signature) travel between the
  server and the browser as base64url text. Bytes are 8-bit words. \<open>atob\<close> and \<open>btoa\<close> are the functions of the
  web platform (the forgiving decoder and the padded encoder); the buffer class that replaces them
  where they are missing is a pair of functions of the host.

  The main results are that encoding and decoding are inverse, that the text uses the alphabet of
  base64url without padding, that decoding fails exactly on the texts no encoder produces, and that a signed
  credential arrives with its bytes.
\<close>

type_synonym byte = "8 word"

subsection \<open>Base64 of the platform\<close>

definition sextet_char :: "int \<Rightarrow> code_unit" where
  "sextet_char n =
     (if n < 26 then 65 + n else if n < 52 then 71 + n else if n < 62 then n - 4
      else if n = 62 then 43 else 47)"

definition char_sextet :: "code_unit \<Rightarrow> int option" where
  "char_sextet c =
     (if 65 \<le> c \<and> c \<le> 90 then Some (c - 65) else if 97 \<le> c \<and> c \<le> 122 then Some (c - 71)
      else if 48 \<le> c \<and> c \<le> 57 then Some (c + 4) else if c = 43 then Some 62 else if c = 47 then Some 63 else None)"

fun byte_sextets :: "int list \<Rightarrow> int list" where
  "byte_sextets (a # b # c # rest) =
     a div 4 # ((a mod 4) * 16 + b div 16) # ((b mod 16) * 4 + c div 64) # c mod 64 # byte_sextets rest"
| "byte_sextets [a, b] = [a div 4, (a mod 4) * 16 + b div 16, (b mod 16) * 4]"
| "byte_sextets [a] = [a div 4, (a mod 4) * 16]"
| "byte_sextets [] = []"

text \<open>Left-over bits, at most four, are dropped.\<close>

fun sextet_bytes :: "int list \<Rightarrow> int list" where
  "sextet_bytes (a # b # c # d # rest) =
     (a * 4 + b div 16) # ((b mod 16) * 16 + c div 4) # ((c mod 4) * 64 + d) # sextet_bytes rest"
| "sextet_bytes [a, b, c] = [a * 4 + b div 16, (b mod 16) * 16 + c div 4]"
| "sextet_bytes [a, b] = [a * 4 + b div 16]"
| "sextet_bytes _ = []"

text \<open>\<open>btoa\<close> throws when a unit is no byte.\<close>

definition btoa :: "jsstr \<Rightarrow> jsstr option" where
  "btoa s =
     (if list_all (\<lambda>c. 0 \<le> c \<and> c < 256) s
      then Some (map sextet_char (byte_sextets s) @ replicate ((3 - length s mod 3) mod 3) 61)
      else None)"

definition ascii_space :: "code_unit \<Rightarrow> bool" where
  "ascii_space c \<longleftrightarrow> c \<in> {9, 10, 12, 13, 32}"

definition strip_pad :: "jsstr \<Rightarrow> jsstr" where
  "strip_pad s =
     (if length s mod 4 \<noteq> 0 \<or> s = [] \<or> last s \<noteq> 61 then s
      else let t = butlast s in if t \<noteq> [] \<and> last t = 61 then butlast t else t)"

definition atob :: "jsstr \<Rightarrow> jsstr option" where
  "atob s =
     (let t = strip_pad (filter (\<lambda>c. \<not> ascii_space c) s) in
      if length t mod 4 = 1 \<or> \<not> list_all (\<lambda>c. char_sextet c \<noteq> None) t then None
      else Some (sextet_bytes (map (\<lambda>c. the (char_sextet c)) t)))"

subsection \<open>Base64url\<close>

text \<open>What the environment offers.\<close>

datatype b64_host = HostWeb | HostBuffer "jsstr \<Rightarrow> jsstr" "jsstr \<Rightarrow> jsstr" | HostNone

datatype passkey_error = InvalidCharacter | NotSupported jsstr | Unreadable jsstr

definition decode64 :: "b64_host \<Rightarrow> jsstr \<Rightarrow> passkey_error + jsstr" where
  "decode64 host input =
     (case host of
        HostWeb \<Rightarrow> (case atob input of Some b \<Rightarrow> Inr b | None \<Rightarrow> Inl InvalidCharacter)
      | HostBuffer dec enc \<Rightarrow> Inr (dec input)
      | HostNone \<Rightarrow> Inl (NotSupported (js ''Base64 decoding is not supported in this environment'')))"

definition encode64 :: "b64_host \<Rightarrow> jsstr \<Rightarrow> passkey_error + jsstr" where
  "encode64 host input =
     (case host of
        HostWeb \<Rightarrow> (case btoa input of Some t \<Rightarrow> Inr t | None \<Rightarrow> Inl InvalidCharacter)
      | HostBuffer dec enc \<Rightarrow> Inr (enc input)
      | HostNone \<Rightarrow> Inl (NotSupported (js ''Base64 encoding is not supported in this environment'')))"

definition replace_unit :: "code_unit \<Rightarrow> code_unit \<Rightarrow> jsstr \<Rightarrow> jsstr" where
  "replace_unit a b s = map (\<lambda>c. if c = a then b else c) s"

text \<open>A missing value and an empty text give the empty buffer; storing a unit into a byte array keeps
  its low eight bits.\<close>

definition base64UrlToArrayBuffer :: "b64_host \<Rightarrow> jsstr option \<Rightarrow> passkey_error + byte list" where
  "base64UrlToArrayBuffer host v =
     (case v of None \<Rightarrow> Inr []
      | Some s \<Rightarrow>
        if s = [] then Inr []
        else let padding = replicate ((4 - length s mod 4) mod 4) 61;
                 base64 = replace_unit 95 47 (replace_unit 45 43 (s @ padding))
        in case decode64 host base64 of Inl e \<Rightarrow> Inl e | Inr binary \<Rightarrow> Inr (map word_of_int binary))"

definition strip_equals :: "jsstr \<Rightarrow> jsstr" where
  "strip_equals s = rev (dropWhile (\<lambda>c. c = 61) (rev s))"

definition arrayBufferToBase64Url :: "b64_host \<Rightarrow> byte list option \<Rightarrow> passkey_error + jsstr" where
  "arrayBufferToBase64Url host buffer =
     (case buffer of None \<Rightarrow> Inr []
      | Some bytes \<Rightarrow>
        (case encode64 host (map uint bytes) of Inl e \<Rightarrow> Inl e
         | Inr t \<Rightarrow> Inr (strip_equals (replace_unit 47 95 (replace_unit 43 45 t)))))"

subsection \<open>Inverse functions\<close>

lemma char_of_sextet: "0 \<le> n \<Longrightarrow> n < 64 \<Longrightarrow> char_sextet (sextet_char n) = Some n"
  by (auto simp: char_sextet_def sextet_char_def)

lemma sextet_of_char: "char_sextet c = Some n \<Longrightarrow> sextet_char n = c \<and> 0 \<le> n \<and> n < 64"
  by (auto simp: char_sextet_def sextet_char_def split: if_splits)

definition is_byte :: "int \<Rightarrow> bool" where
  "is_byte a \<longleftrightarrow> 0 \<le> a \<and> a < 256"

definition is_sextet :: "int \<Rightarrow> bool" where
  "is_sextet a \<longleftrightarrow> 0 \<le> a \<and> a < 64"

lemma base_joined:
  fixes x y m :: int
  assumes "0 \<le> y" and "y < m"
  shows "(x * m + y) div m = x" and "(x * m + y) mod m = y"
  using assms by (simp_all add: div_pos_pos_trivial)

lemma byte_parts: "is_byte b \<Longrightarrow> 0 \<le> b div 16 \<and> b div 16 < 16 \<and> 0 \<le> b div 64 \<and> b div 64 < 4 \<and> 0 \<le> b div 4 \<and> b div 4 < 64"
  unfolding is_byte_def by linarith

lemma three_bytes:
  assumes "is_byte b" "is_byte c"
  shows "a div 4 * 4 + (a mod 4 * 16 + b div 16) div 16 = a"
    "(a mod 4 * 16 + b div 16) mod 16 * 16 + (b mod 16 * 4 + c div 64) div 4 = b"
    "(b mod 16 * 4 + c div 64) mod 4 * 64 + c mod 64 = c"
  using byte_parts [OF assms(1)] byte_parts [OF assms(2)] by (simp_all only: base_joined div_mult_mod_eq)

lemma last_bytes:
  assumes "is_byte b"
  shows "(a mod 4 * 16 + b div 16) mod 16 * 16 + (b mod 16 * 4) div 4 = b"
    "a div 4 * 4 + (a mod 4 * 16) div 16 = a"
  using byte_parts [OF assms] by (simp_all add: base_joined)

lemma sextet_bytes_of_bytes: "list_all is_byte s \<Longrightarrow> sextet_bytes (byte_sextets s) = s"
proof (induction s rule: byte_sextets.induct)
  case (1 a b c rest)
  then show ?case using three_bytes [of b c] by simp
next
  case (2 a b)
  then show ?case using three_bytes(1) [of b b a] last_bytes [of b a] by simp
next
  case (3 a)
  then show ?case using last_bytes(2) [of a a] by simp
qed simp

lemma sextet_parts:
  "is_byte b \<Longrightarrow> is_sextet (a mod 4 * 16 + b div 16)" "is_byte b \<Longrightarrow> is_sextet (a mod 16 * 4 + b div 64)"
  "is_byte b \<Longrightarrow> is_sextet (b div 4)" "is_sextet (a mod 64)" "is_sextet (a mod 16 * 4)" "is_sextet (a mod 4 * 16)"
proof -
  have m: "0 \<le> a mod n \<and> a mod n \<le> n - 1" if "0 < n" for n using that by simp
  show "is_byte b \<Longrightarrow> is_sextet (a mod 4 * 16 + b div 16)" "is_byte b \<Longrightarrow> is_sextet (a mod 16 * 4 + b div 64)"
    "is_byte b \<Longrightarrow> is_sextet (b div 4)" "is_sextet (a mod 64)" "is_sextet (a mod 16 * 4)" "is_sextet (a mod 4 * 16)"
    using byte_parts [of b] m [of 4] m [of 16] m [of 64] by (auto simp: is_sextet_def)
qed

lemma sextets_bounded: "list_all is_byte s \<Longrightarrow> list_all is_sextet (byte_sextets s)"
  by (induction s rule: byte_sextets.induct) (simp_all add: sextet_parts)

lemma length_byte_sextets: "length (byte_sextets s) = (4 * length s + 2) div 3"
  by (induction s rule: byte_sextets.induct) simp_all

lemma pad_length: "(length (byte_sextets s) + (3 - length s mod 3) mod 3) mod 4 = 0"
proof (induction s rule: byte_sextets.induct)
  case (1 a b c rest)
  have "length (a # b # c # rest) mod 3 = length rest mod 3" by simp
  with 1 show ?case by simp
qed simp_all

lemma pad_small: "(3 - n mod 3) mod 3 < (3::nat)"
  by simp

lemma pad_mod:
  fixes m p :: nat
  assumes "(m + p) mod 4 = 0" and "p < 3"
  shows "(4 - m mod 4) mod 4 = p" and "m mod 4 \<noteq> 1"
proof -
  define r where "r = m mod 4"
  have "(r + p) mod 4 = 0" using assms(1) by (simp add: r_def mod_add_left_eq)
  moreover have "r < 4" by (simp add: r_def)
  ultimately have "r + p = 0 \<or> r + p = 4" using assms(2) by (auto simp: mod_if split: if_splits)
  then have "(4 - r) mod 4 = p \<and> r \<noteq> 1" using assms(2) by auto
  then show "(4 - m mod 4) mod 4 = p" "m mod 4 \<noteq> 1" by (simp_all add: r_def)
qed

lemma pad_of_rest:
  fixes m :: nat
  assumes "m mod 4 \<noteq> 1"
  shows "(4 - m mod 4) mod 4 < 3" and "(m + (4 - m mod 4) mod 4) mod 4 = 0"
proof -
  define r where "r = m mod 4"
  have "r < 4" by (simp add: r_def)
  then have "r = 0 \<or> r = 2 \<or> r = 3" using assms by (auto simp: r_def)
  then have "(4 - r) mod 4 < 3 \<and> (r + (4 - r) mod 4) mod 4 = 0" by auto
  then show "(4 - m mod 4) mod 4 < 3" "(m + (4 - m mod 4) mod 4) mod 4 = 0"
    by (simp_all add: r_def mod_add_left_eq)
qed

definition url_char :: "int \<Rightarrow> code_unit" where
  "url_char n = (let c = sextet_char n in if c = 43 then 45 else if c = 47 then 95 else c)"

definition url_alphabet :: "code_unit \<Rightarrow> bool" where
  "url_alphabet c \<longleftrightarrow> 65 \<le> c \<and> c \<le> 90 \<or> 97 \<le> c \<and> c \<le> 122 \<or> 48 \<le> c \<and> c \<le> 57 \<or> c = 45 \<or> c = 95"

lemma url_char_alphabet: "is_sextet n \<Longrightarrow> url_alphabet (url_char n)"
  by (auto simp: is_sextet_def url_char_def sextet_char_def url_alphabet_def Let_def)

lemma url_char_back:
  assumes "is_sextet n"
  shows "url_char n = 45 \<Longrightarrow> sextet_char n = 43" and "url_char n = 95 \<Longrightarrow> sextet_char n = 47"
    and "url_char n \<noteq> 45 \<Longrightarrow> url_char n \<noteq> 95 \<Longrightarrow> url_char n = sextet_char n"
  using assms by (auto simp: is_sextet_def url_char_def sextet_char_def Let_def split: if_splits)

lemma sextet_char_plain: "is_sextet n \<Longrightarrow> sextet_char n \<noteq> 61 \<and> \<not> ascii_space (sextet_char n)"
  by (auto simp: is_sextet_def sextet_char_def ascii_space_def)

lemma strip_equals_append: "s = [] \<or> last s \<noteq> 61 \<Longrightarrow> strip_equals (s @ replicate p 61) = s"
proof (induction p)
  case 0
  then show ?case by (cases s rule: rev_cases) (simp_all add: strip_equals_def)
next
  case (Suc p)
  have "strip_equals (s @ replicate (Suc p) 61) = strip_equals (s @ replicate p 61)"
    unfolding strip_equals_def replicate_Suc replicate_append_same [symmetric] by simp
  with Suc show ?case by simp
qed

lemma replace_append: "replace_unit a b (s @ t) = replace_unit a b s @ replace_unit a b t"
  by (simp add: replace_unit_def)

lemma replace_pad: "a \<noteq> 61 \<Longrightarrow> replace_unit a b (replicate p 61) = replicate p 61"
  by (simp add: replace_unit_def)

lemma strip_pad_append:
  assumes "p < 3" and "(length s + p) mod 4 = 0" and "s = [] \<or> last s \<noteq> 61"
  shows "strip_pad (s @ replicate p 61) = s"
proof -
  consider "p = 0" | "p = 1" | "p = 2" using assms(1) by linarith
  then show ?thesis
  proof cases
    case 3
    then have "replicate p 61 = [61, 61 :: code_unit]" by (simp add: numeral_2_eq_2)
    with assms 3 show ?thesis by (simp add: strip_pad_def Let_def butlast_append)
  qed (use assms in \<open>auto simp: strip_pad_def Let_def butlast_append\<close>)
qed

lemma atob_sextets:
  assumes "list_all is_sextet xs" and "p < 3" and "(length xs + p) mod 4 = 0"
  shows "atob (map sextet_char xs @ replicate p 61) = Some (sextet_bytes xs)"
proof -
  have ok: "sextet_char x \<noteq> 61" "\<not> ascii_space (sextet_char x)" "char_sextet (sextet_char x) = Some x" if "x \<in> set xs" for x
    using assms(1) that by (auto simp: list_all_iff sextet_char_plain is_sextet_def intro: char_of_sextet)
  have "filter (\<lambda>c. \<not> ascii_space c) (map sextet_char xs @ replicate p 61) = map sextet_char xs @ replicate p 61"
    using ok by (auto simp: filter_id_conv ascii_space_def)
  moreover have "map sextet_char xs = [] \<or> last (map sextet_char xs) \<noteq> 61" using ok(1) by (auto simp: last_map)
  moreover have "map (\<lambda>c. the (char_sextet c)) (map sextet_char xs) = xs" using ok(3) by (simp add: map_idI)
  moreover have "length xs mod 4 \<noteq> 1" by (rule pad_mod(2) [OF assms(3,2)])
  ultimately show ?thesis using assms(2,3) ok(3)
    by (simp add: atob_def strip_pad_append list_all_iff Let_def del: map_map)
qed

lemma bytes_are_bytes: "list_all is_byte (map uint (bs :: byte list))"
  using uint_lt2p [where 'a = 8] by (auto simp: list_all_iff is_byte_def)

lemma encoded_text:
  "arrayBufferToBase64Url HostWeb (Some bs) = Inr (map url_char (byte_sextets (map uint bs)))"
proof -
  let ?xs = "byte_sextets (map uint bs)"
  have xs: "list_all is_sextet ?xs" by (rule sextets_bounded [OF bytes_are_bytes])
  have "btoa (map uint bs) = Some (map sextet_char ?xs @ replicate ((3 - length bs mod 3) mod 3) 61)"
    using bytes_are_bytes [of bs] by (simp add: btoa_def is_byte_def [abs_def])
  moreover have "replace_unit 47 95 (replace_unit 43 45 (map sextet_char ?xs)) = map url_char ?xs"
    by (simp add: replace_unit_def url_char_def Let_def)
  moreover have "url_char x \<noteq> 61" if "x \<in> set ?xs" for x
    using url_char_alphabet [of x] xs that by (auto simp: list_all_iff url_alphabet_def)
  then have "map url_char ?xs = [] \<or> last (map url_char ?xs) \<noteq> 61" by (auto simp: last_map)
  ultimately show ?thesis
    by (simp add: arrayBufferToBase64Url_def encode64_def replace_append replace_pad strip_equals_append)
qed

lemma decode_url:
  assumes "list_all is_sextet xs" and "length xs mod 4 \<noteq> 1"
  shows "base64UrlToArrayBuffer HostWeb (Some (map url_char xs)) = Inr (map word_of_int (sextet_bytes xs))"
proof (cases "xs = []")
  case False
  let ?p = "(4 - length xs mod 4) mod 4"
  have "replace_unit 95 47 (replace_unit 45 43 (map url_char xs @ replicate ?p 61)) = map sextet_char xs @ replicate ?p 61"
    using assms(1) url_char_back
    by (simp add: replace_append replace_pad) (simp add: replace_unit_def list_all_iff)
  moreover have "atob (map sextet_char xs @ replicate ?p 61) = Some (sextet_bytes xs)"
    by (rule atob_sextets [OF assms(1) pad_of_rest [OF assms(2)]])
  ultimately show ?thesis using False by (simp add: base64UrlToArrayBuffer_def decode64_def)
qed (simp add: base64UrlToArrayBuffer_def)

lemma base64url_inverse:
  "arrayBufferToBase64Url HostWeb (Some bs) = Inr t \<Longrightarrow> base64UrlToArrayBuffer HostWeb (Some t) = Inr bs"
proof -
  let ?xs = "byte_sextets (map uint bs)"
  assume "arrayBufferToBase64Url HostWeb (Some bs) = Inr t"
  then have t: "t = map url_char ?xs" by (simp add: encoded_text)
  have xs: "list_all is_sextet ?xs" by (rule sextets_bounded [OF bytes_are_bytes])
  have "length ?xs mod 4 \<noteq> 1" by (rule pad_mod(2) [OF pad_length pad_small])
  with decode_url [OF xs] show "base64UrlToArrayBuffer HostWeb (Some t) = Inr bs"
    by (simp add: t sextet_bytes_of_bytes bytes_are_bytes comp_def)
qed

text \<open>C15. Base64url text keeps the bytes: every buffer is encoded as a text of letters, digits, \<open>-\<close> and \<open>_\<close> without
  padding, four characters for three bytes and no more than needed for the rest, and decoding the text gives the buffer.\<close>

theorem base64url_roundtrip:
  "\<exists>t. arrayBufferToBase64Url HostWeb (Some bs) = Inr t \<and>
     base64UrlToArrayBuffer HostWeb (Some t) = Inr bs \<and>
     list_all url_alphabet t \<and> length t = (4 * length bs + 2) div 3"
proof -
  let ?xs = "byte_sextets (map uint bs)"
  have "list_all is_sextet ?xs" by (rule sextets_bounded [OF bytes_are_bytes])
  then have "list_all url_alphabet (map url_char ?xs)"
    using url_char_alphabet by (simp add: list_all_iff)
  then show ?thesis using base64url_inverse [OF encoded_text] by (simp add: encoded_text length_byte_sextets)
qed

text \<open>A text of base64url characters whose length leaves one character over has no bytes.\<close>

lemma one_left_over:
  assumes "s \<noteq> []" and "length s mod 4 = 1" and "list_all url_alphabet s"
  shows "base64UrlToArrayBuffer HostWeb (Some s) = Inl InvalidCharacter"
proof -
  let ?t = "replace_unit 95 47 (replace_unit 45 43 s)"
  have m: "(4 - length s mod 4) mod 4 = 3" using assms(2) by simp
  have pad: "replace_unit 95 47 (replace_unit 45 43 (s @ replicate 3 61)) = (?t @ [61]) @ [61, 61]"
    by (simp add: replace_append replace_pad numeral_3_eq_3 replace_unit_def)
  have "\<not> ascii_space c" if "c \<in> set ?t" for c
    using assms(3) that by (auto simp: replace_unit_def list_all_iff url_alphabet_def ascii_space_def split: if_splits)
  then have "filter (\<lambda>c. \<not> ascii_space c) ((?t @ [61]) @ [61, 61]) = (?t @ [61]) @ [61, 61]"
    by (subst filter_id_conv) (auto simp: ascii_space_def)
  moreover have "length ((?t @ [61]) @ [61, 61]) mod 4 = 0"
  proof -
    have "(length s + 3) mod 4 = 0" using assms(2) by (metis mod_add_left_eq numeral_One numeral_plus_numeral mod_self semiring_norm(3) add_num_simps)
    then show ?thesis by (simp add: replace_unit_def add.commute)
  qed
  ultimately have "atob ((?t @ [61]) @ [61, 61]) = None"
    by (simp add: atob_def strip_pad_def Let_def butlast_append char_sextet_def)
  then show ?thesis using assms(1) m pad by (simp add: base64UrlToArrayBuffer_def decode64_def)
qed

subsection \<open>Options and results\<close>

text \<open>The texts of the server have the declared type: a string, or missing.\<close>

definition text_arg :: "jsval \<Rightarrow> jsstr option" where
  "text_arg v = (case v of JStr s \<Rightarrow> Some s | _ \<Rightarrow> None)"

definition first_option :: "jsval \<Rightarrow> jsval" where
  "first_option payload =
     foldr (\<lambda>k rest. let v = opt_get payload k in if is_nullish v then rest else v)
       [''publicKey'', ''PublicKey'', ''response''] (opt_get payload ''Response'')"

record descriptor =
  desc_props :: "(jsstr \<times> jsval) list"
  desc_id :: "byte list"

fun read_descriptors :: "b64_host \<Rightarrow> jsval list \<Rightarrow> passkey_error + descriptor list" where
  "read_descriptors host [] = Inr []"
| "read_descriptors host (item # items) =
     (if is_nullish item then Inl (Unreadable (js ''id''))
      else case base64UrlToArrayBuffer host (text_arg (obj_get item (js ''id''))) of Inl e \<Rightarrow> Inl e
      | Inr b \<Rightarrow>
        (case read_descriptors host items of Inl e \<Rightarrow> Inl e
         | Inr ds \<Rightarrow> Inr (\<lparr>desc_props = value_entries item, desc_id = b\<rparr> # ds)))"

definition descriptors_of :: "b64_host \<Rightarrow> jsval \<Rightarrow> passkey_error + descriptor list option" where
  "descriptors_of host v =
     (case v of
        JArr items \<Rightarrow> (case read_descriptors host items of Inl e \<Rightarrow> Inl e | Inr ds \<Rightarrow> Inr (Some ds))
      | _ \<Rightarrow> Inr None)"

record request_options =
  ro_props :: "(jsstr \<times> jsval) list"
  ro_challenge :: "byte list"
  ro_allowCredentials :: "descriptor list option"

definition prepareCredentialRequestOptions :: "b64_host \<Rightarrow> jsval \<Rightarrow> passkey_error + request_options" where
  "prepareCredentialRequestOptions host payload =
     (let options = first_option payload in
      if \<not> truthy options then Inl (Unreadable (js ''Unable to parse Passkey login options from response''))
      else case base64UrlToArrayBuffer host (text_arg (obj_get options (js ''challenge''))) of Inl e \<Rightarrow> Inl e
      | Inr challenge \<Rightarrow>
        (case descriptors_of host (obj_get options (js ''allowCredentials'')) of Inl e \<Rightarrow> Inl e
         | Inr allow \<Rightarrow> Inr \<lparr>ro_props = value_entries options, ro_challenge = challenge, ro_allowCredentials = allow\<rparr>))"

record creation_options =
  co_props :: "(jsstr \<times> jsval) list"
  co_challenge :: "byte list"
  co_user :: descriptor
  co_excludeCredentials :: "descriptor list option"

text \<open>An empty list of attestation formats is deleted.\<close>

definition drop_formats :: "(jsstr \<times> jsval) list \<Rightarrow> (jsstr \<times> jsval) list" where
  "drop_formats ps =
     (if obj_get (JObj ps) (js ''attestationFormats'') = JArr []
      then filter (\<lambda>p. fst p \<noteq> js ''attestationFormats'') ps else ps)"

definition prepareCredentialCreationOptions :: "b64_host \<Rightarrow> jsval \<Rightarrow> passkey_error + creation_options" where
  "prepareCredentialCreationOptions host payload =
     (let options = first_option payload; user = obj_get options (js ''user'') in
      if \<not> truthy options then Inl (Unreadable (js ''Unable to parse Passkey registration options from response''))
      else case base64UrlToArrayBuffer host (text_arg (obj_get options (js ''challenge''))) of Inl e \<Rightarrow> Inl e
      | Inr challenge \<Rightarrow>
        (case base64UrlToArrayBuffer host (text_arg (opt_get user ''id'')) of Inl e \<Rightarrow> Inl e
         | Inr userId \<Rightarrow>
           (case descriptors_of host (obj_get options (js ''excludeCredentials'')) of Inl e \<Rightarrow> Inl e
            | Inr excluded \<Rightarrow>
                Inr \<lparr>co_props = drop_formats (value_entries options), co_challenge = challenge,
                     co_user = \<lparr>desc_props = value_entries user, desc_id = userId\<rparr>,
                     co_excludeCredentials = excluded\<rparr>)))"

text \<open>A credential of the browser. \<open>cr_extensions\<close> is what \<open>getClientExtensionResults\<close> returns, if it is
  there.\<close>

record credential =
  cr_id :: jsstr
  cr_rawId :: "byte list"
  cr_type :: jsstr
  cr_attachment :: jsval
  cr_extensions :: jsval

record assertion = credential +
  as_authenticatorData :: "byte list"
  as_clientDataJSON :: "byte list"
  as_signature :: "byte list"
  as_userHandle :: "byte list option"

record attestation = credential +
  at_attestationObject :: "byte list"
  at_clientDataJSON :: "byte list"
  at_transports :: "jsstr list option"

text \<open>The texts of several buffers, in order; the first error ends it.\<close>

fun encode_all :: "b64_host \<Rightarrow> byte list list \<Rightarrow> passkey_error + jsval list" where
  "encode_all host [] = Inr []"
| "encode_all host (b # bs) =
     (case arrayBufferToBase64Url host (Some b) of Inl e \<Rightarrow> Inl e
      | Inr t \<Rightarrow> (case encode_all host bs of Inl e \<Rightarrow> Inl e | Inr ts \<Rightarrow> Inr (JStr t # ts)))"

definition credential_json :: "'a credential_scheme \<Rightarrow> jsval \<Rightarrow> (jsstr \<times> jsval) list \<Rightarrow> jsval" where
  "credential_json c rawId response =
     JObj [(js ''id'', JStr (cr_id c)), (js ''rawId'', rawId), (js ''type'', JStr (cr_type c)),
       (js ''authenticatorAttachment'', cr_attachment c), (js ''response'', JObj response),
       (js ''clientExtensionResults'', if is_nullish (cr_extensions c) then JObj [] else cr_extensions c)]"

definition buildAssertionResult :: "b64_host \<Rightarrow> assertion option \<Rightarrow> passkey_error + jsval" where
  "buildAssertionResult host cred =
     (case cred of None \<Rightarrow> Inr JNull
      | Some c \<Rightarrow>
        (case encode_all host ([cr_rawId c, as_authenticatorData c, as_clientDataJSON c, as_signature c] @
            (case as_userHandle c of Some h \<Rightarrow> [h] | None \<Rightarrow> [])) of Inl e \<Rightarrow> Inl e
         | Inr ts \<Rightarrow> Inr (credential_json c (ts ! 0)
             [(js ''authenticatorData'', ts ! 1), (js ''clientDataJSON'', ts ! 2), (js ''signature'', ts ! 3),
              (js ''userHandle'', if as_userHandle c = None then JNull else ts ! 4)])))"

definition buildRegistrationResult :: "b64_host \<Rightarrow> attestation option \<Rightarrow> passkey_error + jsval" where
  "buildRegistrationResult host cred =
     (case cred of None \<Rightarrow> Inr JNull
      | Some c \<Rightarrow>
        (case encode_all host [cr_rawId c, at_attestationObject c, at_clientDataJSON c] of Inl e \<Rightarrow> Inl e
         | Inr ts \<Rightarrow> Inr (credential_json c (ts ! 0)
             [(js ''attestationObject'', ts ! 1), (js ''clientDataJSON'', ts ! 2),
              (js ''transports'', case at_transports c of Some xs \<Rightarrow> JArr (map JStr xs) | None \<Rightarrow> JUndef)])))"

text \<open>What the browser says about passkeys: \<open>None\<close> when the function is missing, \<open>Some None\<close> when it
  throws.\<close>

record passkey_browser =
  br_present :: bool
  br_conditional :: "bool option option"
  br_platform :: "bool option option"

definition isPasskeySupported :: "passkey_browser \<Rightarrow> bool" where
  "isPasskeySupported b =
     (if \<not> br_present b then False
      else if br_conditional b = Some (Some True) then True
      else case br_platform b of Some (Some v) \<Rightarrow> v | Some None \<Rightarrow> False | None \<Rightarrow> True)"


subsection \<open>The bytes arrive\<close>

definition carries_bytes :: "jsval \<Rightarrow> byte list \<Rightarrow> bool" where
  "carries_bytes v bs \<longleftrightarrow> (case v of JStr t \<Rightarrow> arrayBufferToBase64Url HostWeb (Some bs) = Inr t | _ \<Rightarrow> False)"

lemma carries_text: "carries_bytes v bs \<longleftrightarrow> (\<exists>t. v = JStr t \<and> arrayBufferToBase64Url HostWeb (Some bs) = Inr t)"
  by (cases v) (simp_all add: carries_bytes_def)

text \<open>The reader of a text that carries bytes gets them.\<close>

lemma carried_bytes: "carries_bytes v bs \<Longrightarrow> base64UrlToArrayBuffer HostWeb (text_arg v) = Inr bs"
  using base64url_inverse [of bs] by (auto simp: carries_text text_arg_def)

lemma encode_all_web: "encode_all HostWeb bs = Inr (map (\<lambda>b. JStr (map url_char (byte_sextets (map uint b)))) bs)"
  by (induction bs) (simp_all add: encoded_text)

lemma encoded_carries: "carries_bytes (JStr (map url_char (byte_sextets (map uint b)))) b"
  by (simp add: carries_bytes_def encoded_text)

text \<open>C37. A signed assertion arrives with its bytes: the object sent to the server holds the
  identifier of the credential, and each of its texts (raw identifier, authenticator data, client data, signature and
  the user handle, when there is one) is read back by the decoder as the bytes the browser signed.\<close>

theorem assertion_arrives:
  "\<exists>v r. buildAssertionResult HostWeb (Some c) = Inr v \<and> obj_get v (js ''id'') = JStr (cr_id c) \<and>
     obj_get v (js ''response'') = r \<and>
     base64UrlToArrayBuffer HostWeb (text_arg (obj_get v (js ''rawId''))) = Inr (cr_rawId c) \<and>
     base64UrlToArrayBuffer HostWeb (text_arg (obj_get r (js ''authenticatorData''))) = Inr (as_authenticatorData c) \<and>
     base64UrlToArrayBuffer HostWeb (text_arg (obj_get r (js ''clientDataJSON''))) = Inr (as_clientDataJSON c) \<and>
     base64UrlToArrayBuffer HostWeb (text_arg (obj_get r (js ''signature''))) = Inr (as_signature c) \<and>
     (case as_userHandle c of
        None \<Rightarrow> obj_get r (js ''userHandle'') = JNull
      | Some h \<Rightarrow> base64UrlToArrayBuffer HostWeb (text_arg (obj_get r (js ''userHandle''))) = Inr h)"
  using carried_bytes [OF encoded_carries]
  by (cases "as_userHandle c") (simp_all add: buildAssertionResult_def encode_all_web credential_json_def js_inject del: encode_all.simps)

lemma read_descriptors_carried:
  assumes "list_all2 (\<lambda>item b. \<not> is_nullish item \<and> carries_bytes (obj_get item (js ''id'')) b) items ids"
  shows "\<exists>ds. read_descriptors HostWeb items = Inr ds \<and> map desc_id ds = ids \<and> map desc_props ds = map value_entries items"
  using assms by (induction rule: list_all2_induct) (auto simp: carried_bytes)

text \<open>The server's request arrives with its bytes: wherever in the answer the options are (under
  one of four names), when its challenge and the identifiers of the allowed credentials are base64url texts of bytes, the
  options handed to the browser hold exactly these bytes, credential by credential, and the other properties as
  they were sent.\<close>

theorem request_arrives:
  assumes "first_option payload = JObj ps" and "carries_bytes (obj_get (JObj ps) (js ''challenge'')) challenge"
    and "obj_get (JObj ps) (js ''allowCredentials'') = JArr items"
    and "list_all2 (\<lambda>item b. \<not> is_nullish item \<and> carries_bytes (obj_get item (js ''id'')) b) items ids"
  shows "\<exists>ds. prepareCredentialRequestOptions HostWeb payload =
      Inr \<lparr>ro_props = obj_entries ps, ro_challenge = challenge, ro_allowCredentials = Some ds\<rparr> \<and>
    map desc_id ds = ids \<and> map desc_props ds = map value_entries items"
proof -
  obtain ds where "read_descriptors HostWeb items = Inr ds" "map desc_id ds = ids"
    "map desc_props ds = map value_entries items"
    using read_descriptors_carried [OF assms(4)] by blast
  then show ?thesis
    using carried_bytes [OF assms(2)]
    by (simp add: prepareCredentialRequestOptions_def assms(1,3) descriptors_of_def value_entries_def
        del: obj_get.simps)
qed

definition sample_request :: jsval where
  "sample_request = JObj [(js ''publicKey'', JObj [(js ''challenge'', JStr (js ''AP8Q'')),
     (js ''allowCredentials'', JArr [JObj [(js ''type'', JStr (js ''public-key'')), (js ''id'', JStr (js ''-_8''))]])])]"

lemma sample_bytes:
  "carries_bytes (JStr (js ''AP8Q'')) [0, 255, 16]" "carries_bytes (JStr (js ''-_8'')) [251, 255]"
  by code_simp+

theorem request_arrives_witness:
  "\<exists>ro ds. prepareCredentialRequestOptions HostWeb sample_request = Inr ro \<and> ro_challenge ro = [0, 255, 16] \<and>
     ro_allowCredentials ro = Some ds \<and> map desc_id ds = [[251, 255]]"
proof -
  have "\<exists>ps items. first_option sample_request = JObj ps \<and> obj_get (JObj ps) (js ''challenge'') = JStr (js ''AP8Q'') \<and>
      obj_get (JObj ps) (js ''allowCredentials'') = JArr items \<and>
      items = [JObj [(js ''type'', JStr (js ''public-key'')), (js ''id'', JStr (js ''-_8''))]]"
    by (simp add: sample_request_def first_option_def opt_get_def js_inject)
  then obtain ps items where p: "first_option sample_request = JObj ps"
      "obj_get (JObj ps) (js ''challenge'') = JStr (js ''AP8Q'')" "obj_get (JObj ps) (js ''allowCredentials'') = JArr items"
      "items = [JObj [(js ''type'', JStr (js ''public-key'')), (js ''id'', JStr (js ''-_8''))]]" by blast
  have "carries_bytes (obj_get (JObj ps) (js ''challenge'')) [0, 255, 16]" using p(2) sample_bytes by simp
  moreover have "list_all2 (\<lambda>item b. \<not> is_nullish item \<and> carries_bytes (obj_get item (js ''id'')) b) items [[251, 255]]"
    using p(4) sample_bytes by (simp add: js_inject)
  ultimately show ?thesis using request_arrives [OF p(1) _ p(3), of "[0, 255, 16]" "[[251, 255]]"] by fastforce
qed

end
