(* ===== verification/SecureVerification.thy ===== *)
theory SecureVerification
  imports Passkey
begin

section \<open>Secure verification\<close>

text \<open>
  \<open>lib/secure-verification.ts\<close>, \<open>features/auth/secure-verification\<close> (\<open>api.ts\<close>, the hook, the dialog): a protected call
  the server refuses until the user has proved presence again, by a code or a passkey, and that is then
  repeated. Calls are named by numbers; what runs between an \<open>await\<close> and its answer is a flight.
  The answers of the server, of the browser and of the protected calls are part of the events.

  The main results are that a call is repeated at most once per successful verification that was started for it, what a
  successful verification is, and that the dialog is locked only while something runs; closing the dialog does not stop
  a verification under way.
\<close>

subsection \<open>Refusals\<close>

definition isVerificationRequiredError :: "jsval \<Rightarrow> bool" where
  "isVerificationRequiredError error =
     (if \<not> is_object_value error then False
      else let response = obj_get error (js ''response'') in
        if \<not> strict_eq (opt_get response ''status'') (JNum (num_int 403)) then False
        else let code = opt_get (opt_get response ''data'') ''code'' in
          code \<in> {JStr (js ''VERIFICATION_REQUIRED''), JStr (js ''VERIFICATION_EXPIRED''), JStr (js ''VERIFICATION_INVALID'')})"

definition verification_message :: "jsval \<Rightarrow> jsval" where
  "verification_message error =
     (let message = opt_get (opt_get (obj_get error (js ''response'')) ''data'') ''message'' in
      if is_nullish message then JStr (js ''Secure verification is required'') else message)"

subsection \<open>Methods\<close>

datatype verification_method = TwoFA | PasskeyMethod

record verification_methods =
  has2FA :: bool
  hasPasskey :: bool
  passkeySupported :: bool

definition defaultMethods :: verification_methods where
  "defaultMethods = \<lparr>has2FA = False, hasPasskey = False, passkeySupported = False\<rparr>"

text \<open>The answers of the two status requests and of the browser; \<open>None\<close> when one of them throws.\<close>

definition enabled_response :: "jsval \<Rightarrow> bool" where
  "enabled_response r \<longleftrightarrow> truthy (opt_get r ''success'') \<and> truthy (opt_get (opt_get r ''data'') ''enabled'')"

definition checkVerificationMethods :: "(jsval \<times> jsval \<times> bool) option \<Rightarrow> verification_methods" where
  "checkVerificationMethods answers =
     (case answers of None \<Rightarrow> defaultMethods
      | Some (twoFAResponse, passkeyResponse, supported) \<Rightarrow>
          \<lparr>has2FA = enabled_response twoFAResponse, hasPasskey = enabled_response passkeyResponse,
           passkeySupported = supported\<rparr>)"

definition usable_passkey :: "verification_methods \<Rightarrow> bool" where
  "usable_passkey m \<longleftrightarrow> hasPasskey m \<and> passkeySupported m"

definition canUseMethod :: "verification_methods \<Rightarrow> verification_method \<Rightarrow> bool" where
  "canUseMethod m v = (case v of TwoFA \<Rightarrow> has2FA m | PasskeyMethod \<Rightarrow> usable_passkey m)"

definition recommendedMethod :: "verification_methods \<Rightarrow> verification_method option" where
  "recommendedMethod m =
     (if usable_passkey m then Some PasskeyMethod else if has2FA m then Some TwoFA else None)"

subsection \<open>Verifying\<close>

datatype verify_error = Message jsstr | Thrown jsval | DomException jsstr | PasskeyError passkey_error

text \<open>What the environment answers: \<open>Inl\<close> is a thrown error. The browser's answer depends on the options it is asked
  with, the server's on the assertion.\<close>

record verify_env =
  ve_verify :: "jsval + jsval"
  ve_credentials :: bool
  ve_host :: b64_host
  ve_begin :: "jsval + jsval"
  ve_get :: "request_options \<Rightarrow> jsstr + assertion option"
  ve_finish :: "jsval \<Rightarrow> jsval + jsval"

definition message_or :: "jsval \<Rightarrow> string \<Rightarrow> verify_error" where
  "message_or m d = Message (if truthy m then to_str m else js d)"

definition verifyTwoFA :: "jsstr option \<Rightarrow> verify_env \<Rightarrow> verify_error + unit" where
  "verifyTwoFA code env =
     (let trimmed = (case code of Some c \<Rightarrow> trim c | None \<Rightarrow> []) in
      if trimmed = [] then Inl (Message (js ''Please enter the verification code or backup code''))
      else case ve_verify env of Inl e \<Rightarrow> Inl (Thrown e)
      | Inr data \<Rightarrow>
          if \<not> truthy (opt_get data ''success'')
          then Inl (message_or (opt_get data ''message'') ''Verification failed'')
          else Inr ())"

text \<open>A response without data is read as an object of an API answer, and reading it throws.\<close>

definition api_success :: "jsval + jsval \<Rightarrow> string \<Rightarrow> verify_error + jsval" where
  "api_success r d =
     (case r of Inl e \<Rightarrow> Inl (Thrown e)
      | Inr v \<Rightarrow>
          if is_nullish v then Inl (PasskeyError (Unreadable (js ''success'')))
          else if truthy (obj_get v (js ''success'')) then Inr v
          else Inl (message_or (obj_get v (js ''message'')) d))"

definition begin_options :: "jsval \<Rightarrow> jsval" where
  "begin_options beginResponse =
     (let data = obj_get beginResponse (js ''data''); options = opt_get data ''options'' in
      if is_nullish options then data else options)"

definition passkey_steps :: "verify_env \<Rightarrow> verify_error + unit" where
  "passkey_steps env =
     (case api_success (ve_begin env) ''Failed to start verification'' of Inl e \<Rightarrow> Inl e
      | Inr beginResponse \<Rightarrow>
        (case prepareCredentialRequestOptions (ve_host env) (begin_options beginResponse) of Inl e \<Rightarrow> Inl (PasskeyError e)
         | Inr publicKey \<Rightarrow>
           (case ve_get env publicKey of Inl name \<Rightarrow> Inl (DomException name)
            | Inr None \<Rightarrow> Inl (Message (js ''Passkey verification was cancelled''))
            | Inr (Some cred) \<Rightarrow>
              (case buildAssertionResult (ve_host env) (Some cred) of Inl e \<Rightarrow> Inl (PasskeyError e)
               | Inr built \<Rightarrow>
                 if \<not> truthy built then Inl (Message (js ''Unable to build Passkey assertion''))
                 else (case api_success (ve_finish env built) ''Passkey verification failed'' of Inl e \<Rightarrow> Inl e
                   | Inr finished \<Rightarrow>
                     (case ve_verify env of Inl e \<Rightarrow> Inl (Thrown e)
                      | Inr data \<Rightarrow>
                          if \<not> truthy (opt_get data ''success'')
                          then Inl (message_or (opt_get data ''message'') ''Failed to complete verification'')
                          else Inr ()))))))"

definition verifyPasskey :: "verify_env \<Rightarrow> verify_error + unit" where
  "verifyPasskey env =
     (if \<not> ve_credentials env
      then Inl (Message (js ''Passkey verification is not supported in this environment''))
      else case passkey_steps env of
        Inl (DomException name) \<Rightarrow>
          if name = js ''NotAllowedError'' then Inl (Message (js ''Passkey verification was cancelled or timed out''))
          else if name = js ''InvalidStateError''
          then Inl (Message (js ''Passkey verification is not available in the current state''))
          else Inl (DomException name)
      | r \<Rightarrow> r)"

definition verify :: "verification_method \<Rightarrow> jsstr option \<Rightarrow> verify_env \<Rightarrow> verify_error + unit" where
  "verify m code env = (case m of TwoFA \<Rightarrow> verifyTwoFA code env | PasskeyMethod \<Rightarrow> verifyPasskey env)"

subsection \<open>The hook\<close>

type_synonym api_call = nat

record start_config =
  preferredMethod :: "verification_method option"
  config_title :: "jsstr option"
  config_description :: "jsstr option"

record verification_state =
  vs_method :: "verification_method option"
  vs_loading :: bool
  vs_code :: jsstr
  vs_title :: "jsstr option"
  vs_description :: "jsstr option"
  vs_apiCall :: "api_call option"

definition initialState :: verification_state where
  "initialState = \<lparr>vs_method = None, vs_loading = False, vs_code = [], vs_title = None, vs_description = None,
     vs_apiCall = None\<rparr>"

text \<open>Flights: the first attempt of a protected call, the request for the available methods, a verification, and the
  repeated call.\<close>

datatype flight =
    Trying api_call start_config
  | Asking api_call start_config
  | Verifying verification_method jsstr api_call
  | Calling verification_method api_call

datatype verification_effect =
    Attempted api_call
  | Reran api_call
  | Succeeded api_call jsval
  | Refused jsval
  | VerifyFailed verify_error
  | CallFailed jsval
  | Notice string

record verification_hook =
  h_methods :: verification_methods
  h_state :: verification_state
  h_open :: bool
  h_flights :: "flight list"
  h_log :: "verification_effect list"

definition init_hook :: verification_hook where
  "init_hook = \<lparr>h_methods = defaultMethods, h_state = initialState, h_open = False, h_flights = [], h_log = []\<rparr>"

definition fly :: "flight \<Rightarrow> verification_hook \<Rightarrow> verification_hook" where
  "fly f h = h\<lparr>h_flights := h_flights h @ [f]\<rparr>"

definition log_effect :: "verification_effect \<Rightarrow> verification_hook \<Rightarrow> verification_hook" where
  "log_effect e h = h\<lparr>h_log := h_log h @ [e]\<rparr>"

definition set_loading :: "bool \<Rightarrow> verification_hook \<Rightarrow> verification_hook" where
  "set_loading b h = h\<lparr>h_state := (h_state h)\<lparr>vs_loading := b\<rparr>\<rparr>"

definition reset_hook :: "verification_hook \<Rightarrow> verification_hook" where
  "reset_hook h = h\<lparr>h_state := initialState, h_open := False\<rparr>"

definition startVerification :: "api_call \<Rightarrow> start_config \<Rightarrow> verification_hook \<Rightarrow> verification_hook" where
  "startVerification c cfg h = fly (Asking c cfg) h"

definition methods_fetched ::
  "api_call \<Rightarrow> start_config \<Rightarrow> (jsval \<times> jsval \<times> bool) option \<Rightarrow> verification_hook \<Rightarrow> verification_hook" where
  "methods_fetched c cfg answers h =
     (let available = checkVerificationMethods answers; h = h\<lparr>h_methods := available\<rparr> in
      if \<not> has2FA available \<and> \<not> hasPasskey available
      then log_effect (Notice ''Please enable Two-factor Authentication or Passkey before proceeding'') h
      else h\<lparr>h_state := (h_state h)\<lparr>vs_apiCall := Some c,
               vs_method := (case preferredMethod cfg of None \<Rightarrow> recommendedMethod available | Some m \<Rightarrow> Some m),
               vs_title := config_title cfg, vs_description := config_description cfg\<rparr>, h_open := True\<rparr>)"

definition verification_failed :: "verify_error \<Rightarrow> verification_hook \<Rightarrow> verification_hook" where
  "verification_failed e h = set_loading False (log_effect (VerifyFailed e) h)"

text \<open>A blank code fails before anything is sent.\<close>

definition executeVerification ::
  "verification_method option \<Rightarrow> jsstr option \<Rightarrow> verification_hook \<Rightarrow> verification_hook" where
  "executeVerification method code h =
     (case vs_apiCall (h_state h) of None \<Rightarrow> log_effect (Notice ''Verification is not configured properly'') h
      | Some c \<Rightarrow>
        (case (case method of None \<Rightarrow> vs_method (h_state h) | Some m \<Rightarrow> Some m) of
           None \<Rightarrow> log_effect (Notice ''Select a verification method first'') h
         | Some m \<Rightarrow>
           (let actualCode = (case code of None \<Rightarrow> vs_code (h_state h) | Some s \<Rightarrow> s) in
            if m = TwoFA \<and> trim actualCode = []
            then verification_failed (Message (js ''Please enter the verification code or backup code''))
              (set_loading True h)
            else fly (Verifying m actualCode c) (set_loading True h))))"

definition verify_answered ::
  "verification_method \<Rightarrow> jsstr \<Rightarrow> api_call \<Rightarrow> verify_env \<Rightarrow> verification_hook \<Rightarrow> verification_hook" where
  "verify_answered m code c env h =
     (case verify m (Some code) env of
        Inl e \<Rightarrow> verification_failed e h
      | Inr _ \<Rightarrow> fly (Calling m c) (log_effect (Reran c) h))"

definition call_answered :: "bool \<Rightarrow> api_call \<Rightarrow> jsval + jsval \<Rightarrow> verification_hook \<Rightarrow> verification_hook" where
  "call_answered autoReset c result h =
     (case result of
        Inl e \<Rightarrow> set_loading False (log_effect (CallFailed e) h)
      | Inr v \<Rightarrow>
          (let h = log_effect (Succeeded c v) h in set_loading False (if autoReset then reset_hook h else h)))"

definition setCode :: "jsstr \<Rightarrow> verification_hook \<Rightarrow> verification_hook" where
  "setCode code h = h\<lparr>h_state := (h_state h)\<lparr>vs_code := code\<rparr>\<rparr>"

definition switchMethod :: "verification_method \<Rightarrow> verification_hook \<Rightarrow> verification_hook" where
  "switchMethod m h = h\<lparr>h_state := (h_state h)\<lparr>vs_method := Some m, vs_code := []\<rparr>\<rparr>"

definition withVerification :: "api_call \<Rightarrow> start_config \<Rightarrow> verification_hook \<Rightarrow> verification_hook" where
  "withVerification c cfg h = fly (Trying c cfg) (log_effect (Attempted c) h)"

definition first_answered :: "api_call \<Rightarrow> start_config \<Rightarrow> jsval + jsval \<Rightarrow> verification_hook \<Rightarrow> verification_hook" where
  "first_answered c cfg result h =
     (case result of
        Inr v \<Rightarrow> log_effect (Succeeded c v) h
      | Inl e \<Rightarrow>
          if isVerificationRequiredError e then startVerification c cfg (log_effect (Refused (verification_message e)) h)
          else log_effect (CallFailed e) h)"

subsection \<open>The dialog\<close>

definition availableTabs :: "verification_methods \<Rightarrow> verification_method list" where
  "availableTabs m = (if has2FA m then [TwoFA] else []) @ (if usable_passkey m then [PasskeyMethod] else [])"

definition activeMethod :: "verification_hook \<Rightarrow> verification_method option" where
  "activeMethod h =
     (case vs_method (h_state h) of Some m \<Rightarrow> Some m
      | None \<Rightarrow> (case availableTabs (h_methods h) of [] \<Rightarrow> None | m # _ \<Rightarrow> Some m))"

definition verifyDisabled :: "verification_hook \<Rightarrow> bool" where
  "verifyDisabled h \<longleftrightarrow> vs_loading (h_state h) \<or>
     activeMethod h = Some TwoFA \<and> (trim (vs_code (h_state h)) = [] \<or> length (vs_code (h_state h)) < 6)"

definition handleVerify :: "verification_hook \<Rightarrow> verification_hook" where
  "handleVerify h =
     (case activeMethod h of None \<Rightarrow> h
      | Some m \<Rightarrow> executeVerification (Some m) (if m = TwoFA then Some (vs_code (h_state h)) else None) h)"

definition press_verify :: "verification_hook \<Rightarrow> verification_hook" where
  "press_verify h =
     (if \<not> h_open h \<or> availableTabs (h_methods h) = [] \<or> verifyDisabled h then h else handleVerify h)"

definition press_cancel :: "verification_hook \<Rightarrow> verification_hook" where
  "press_cancel h = (if vs_loading (h_state h) then h else reset_hook h)"

subsection \<open>Events\<close>

datatype verification_event =
    Protected api_call start_config
  | Started api_call start_config
  | Tried api_call start_config "jsval + jsval"
  | Asked api_call start_config "(jsval \<times> jsval \<times> bool) option"
  | Fetched "(jsval \<times> jsval \<times> bool) option"
  | PressVerify
  | Verified verification_method jsstr api_call verify_env
  | Called verification_method api_call "jsval + jsval"
  | TypedCode jsstr
  | Switched verification_method
  | PressCancel
  | ClosedDialog
  | HiddenDialog

definition land :: "flight \<Rightarrow> (verification_hook \<Rightarrow> verification_hook) \<Rightarrow> verification_hook \<Rightarrow> verification_hook" where
  "land f k h = (if f \<in> set (h_flights h) then k (h\<lparr>h_flights := remove1 f (h_flights h)\<rparr>) else h)"

fun hook_step :: "bool \<Rightarrow> verification_hook \<Rightarrow> verification_event \<Rightarrow> verification_hook" where
  "hook_step autoReset h (Protected c cfg) = withVerification c cfg h"
| "hook_step autoReset h (Started c cfg) = startVerification c cfg h"
| "hook_step autoReset h (Tried c cfg result) = land (Trying c cfg) (first_answered c cfg result) h"
| "hook_step autoReset h (Asked c cfg answers) = land (Asking c cfg) (methods_fetched c cfg answers) h"
| "hook_step autoReset h (Fetched answers) = h\<lparr>h_methods := checkVerificationMethods answers\<rparr>"
| "hook_step autoReset h PressVerify = press_verify h"
| "hook_step autoReset h (Verified m code c env) = land (Verifying m code c) (verify_answered m code c env) h"
| "hook_step autoReset h (Called m c result) = land (Calling m c) (call_answered autoReset c result) h"
| "hook_step autoReset h (TypedCode code) = (if vs_loading (h_state h) then h else setCode code h)"
| "hook_step autoReset h (Switched m) = switchMethod m h"
| "hook_step autoReset h PressCancel = press_cancel h"
| "hook_step autoReset h ClosedDialog = reset_hook h"
| "hook_step autoReset h HiddenDialog = h\<lparr>h_open := False\<rparr>"

definition hook_run :: "bool \<Rightarrow> verification_event list \<Rightarrow> verification_hook" where
  "hook_run autoReset es = foldl (hook_step autoReset) init_hook es"


section \<open>Properties of secure verification\<close>

lemma hook_run_snoc: "hook_run a (es @ [e]) = hook_step a (hook_run a es) e"
  by (simp add: hook_run_def)

subsection \<open>What a successful verification is\<close>

definition server_confirmed :: "jsval + jsval \<Rightarrow> bool" where
  "server_confirmed r \<longleftrightarrow> (case r of Inr v \<Rightarrow> truthy (opt_get v ''success'') | Inl e \<Rightarrow> False)"

lemma api_success_ok: "api_success r d = Inr v \<longleftrightarrow> r = Inr v \<and> server_confirmed r"
  by (auto simp: api_success_def server_confirmed_def opt_get_def message_or_def split: sum.split)

lemma step_ok: "(case r of Inl e \<Rightarrow> Inl (g e) | Inr v \<Rightarrow> f v) = Inr () \<longleftrightarrow> (\<exists>v. r = Inr v \<and> f v = Inr ())"
  by (cases r) simp_all

lemma some_ok: "(case r of None \<Rightarrow> Inl d | Some v \<Rightarrow> f v) = Inr () \<longleftrightarrow> (\<exists>v. r = Some v \<and> f v = Inr ())"
  by (cases r) simp_all

lemma check_ok: "(if b then Inl e else r) = Inr () \<longleftrightarrow> \<not> b \<and> r = Inr ()"
  by simp

text \<open>C11. What a successful verification is. With a code: the code is not blank and the server confirmed it. With a
  passkey: the browser has credentials, the server began the ceremony, its options were readable, the
  browser signed them with a credential whose bytes could be encoded, the server accepted this very assertion and
  confirmed the verification. Every other answer, of the server or the browser, is an error.\<close>

theorem verify_exact:
  "(verify TwoFA code env = Inr () \<longleftrightarrow> (\<exists>c. code = Some c \<and> trim c \<noteq> []) \<and> server_confirmed (ve_verify env)) \<and>
   (verify PasskeyMethod code env = Inr () \<longleftrightarrow>
     ve_credentials env \<and>
     (\<exists>begun options cred built done'. ve_begin env = Inr begun \<and> server_confirmed (ve_begin env) \<and>
        prepareCredentialRequestOptions (ve_host env) (begin_options begun) = Inr options \<and>
        ve_get env options = Inr (Some cred) \<and> buildAssertionResult (ve_host env) (Some cred) = Inr built \<and>
        truthy built \<and> ve_finish env built = Inr done' \<and> server_confirmed (ve_finish env built)) \<and>
     server_confirmed (ve_verify env))"
proof
  show "verify TwoFA code env = Inr () \<longleftrightarrow> (\<exists>c. code = Some c \<and> trim c \<noteq> []) \<and> server_confirmed (ve_verify env)"
    by (auto simp: verify_def verifyTwoFA_def server_confirmed_def message_or_def Let_def split: option.split sum.split)
next
  have "verify PasskeyMethod code env = Inr () \<longleftrightarrow> ve_credentials env \<and> passkey_steps env = Inr ()"
    by (auto simp: verify_def verifyPasskey_def split: sum.split verify_error.split)
  also have "passkey_steps env = Inr () \<longleftrightarrow>
     (\<exists>begun options cred built done'. ve_begin env = Inr begun \<and> server_confirmed (ve_begin env) \<and>
        prepareCredentialRequestOptions (ve_host env) (begin_options begun) = Inr options \<and>
        ve_get env options = Inr (Some cred) \<and> buildAssertionResult (ve_host env) (Some cred) = Inr built \<and>
        truthy built \<and> ve_finish env built = Inr done' \<and> server_confirmed (ve_finish env built)) \<and>
     server_confirmed (ve_verify env)"
    unfolding passkey_steps_def step_ok some_ok check_ok api_success_ok server_confirmed_def [of "ve_verify env"]
    by (auto split: sum.splits)
  finally show "verify PasskeyMethod code env = Inr () \<longleftrightarrow>
     ve_credentials env \<and>
     (\<exists>begun options cred built done'. ve_begin env = Inr begun \<and> server_confirmed (ve_begin env) \<and>
        prepareCredentialRequestOptions (ve_host env) (begin_options begun) = Inr options \<and>
        ve_get env options = Inr (Some cred) \<and> buildAssertionResult (ve_host env) (Some cred) = Inr built \<and>
        truthy built \<and> ve_finish env built = Inr done' \<and> server_confirmed (ve_finish env built)) \<and>
     server_confirmed (ve_verify env)" by blast
qed

subsection \<open>Repeated calls\<close>

fun verified_for :: "api_call \<Rightarrow> verification_event \<Rightarrow> bool" where
  "verified_for c (Verified m code c' env) = (c' = c \<and> verify m (Some code) env = Inr ())"
| "verified_for c e = False"

fun is_reran :: "verification_effect \<Rightarrow> bool" where
  "is_reran (Reran c) = True"
| "is_reran e = False"

fun verifying :: "flight \<Rightarrow> bool" where
  "verifying (Verifying m code c) = True"
| "verifying f = False"

fun executing :: "flight \<Rightarrow> bool" where
  "executing (Verifying m code c) = True"
| "executing (Calling m c) = True"
| "executing f = False"

fun is_press :: "verification_event \<Rightarrow> bool" where
  "is_press PressVerify = True"
| "is_press e = False"

text \<open>The user's page asked for a verification of the call: directly, or by a protected call the server
  refused.\<close>

definition requested :: "api_call \<Rightarrow> verification_event list \<Rightarrow> bool" where
  "requested c es \<longleftrightarrow> (\<exists>cfg. Started c cfg \<in> set es \<or>
     Protected c cfg \<in> set es \<and> (\<exists>err. Tried c cfg (Inl err) \<in> set es \<and> isVerificationRequiredError err))"

lemma requested_mono: "requested c es \<Longrightarrow> requested c (es @ [e])"
  by (auto simp: requested_def)

fun flight_requested :: "verification_event list \<Rightarrow> flight \<Rightarrow> bool" where
  "flight_requested es (Trying c cfg) = (Protected c cfg \<in> set es)"
| "flight_requested es (Asking c cfg) = requested c es"
| "flight_requested es (Verifying m code c) = requested c es"
| "flight_requested es (Calling m c) = requested c es"

lemma flight_requested_mono: "flight_requested es f \<Longrightarrow> flight_requested (es @ [e]) f"
  by (cases f) (auto intro: requested_mono)

definition hook_inv :: "verification_event list \<Rightarrow> verification_hook \<Rightarrow> bool" where
  "hook_inv es h \<longleftrightarrow>
     (\<forall>c. count_list (h_log h) (Reran c) \<le> length (filter (verified_for c) es)) \<and>
     length (filter is_reran (h_log h)) + length (filter verifying (h_flights h)) \<le> length (filter is_press es) \<and>
     (\<forall>f \<in> set (h_flights h). flight_requested es f) \<and>
     (\<forall>c. vs_apiCall (h_state h) = Some c \<longrightarrow> requested c es) \<and>
     (\<forall>c. Reran c \<in> set (h_log h) \<longrightarrow> requested c es) \<and>
     (vs_loading (h_state h) \<longrightarrow> (\<exists>f \<in> set (h_flights h). executing f))"

lemmas hook_defs = fly_def log_effect_def set_loading_def reset_hook_def initialState_def setCode_def switchMethod_def

lemma hook_inv_weaken: "hook_inv es h \<Longrightarrow> hook_inv (es @ [e]) h"
  unfolding hook_inv_def
  by (auto intro: requested_mono flight_requested_mono le_trans)

lemma filter_remove1_le: "length (filter P (remove1 x xs)) \<le> length (filter P xs)"
  by (induction xs) auto

lemma filter_remove1: "x \<in> set xs \<Longrightarrow> P x \<Longrightarrow> Suc (length (filter P (remove1 x xs))) = length (filter P xs)"
  by (induction xs) auto

text \<open>Taking out a flight that does not execute keeps the invariant.\<close>

lemma hook_inv_remove:
  assumes "hook_inv es h" and "\<not> executing f"
  shows "hook_inv es (h\<lparr>h_flights := remove1 f (h_flights h)\<rparr>)"
proof -
  have "g \<in> set (remove1 f (h_flights h))" if "g \<in> set (h_flights h)" "executing g" for g
    using that assms(2) by (metis in_set_remove1)
  then show ?thesis
    using assms(1) filter_remove1_le [of verifying f "h_flights h"] notin_set_remove1
    unfolding hook_inv_def by (auto dest: set_remove1_subset [THEN subsetD] intro: le_trans)
qed


lemma hook_inv_log: "\<not> is_reran e \<Longrightarrow> hook_inv es h \<Longrightarrow> hook_inv es (log_effect e h)"
  by (auto simp: hook_inv_def log_effect_def count_list_append)

lemma hook_inv_fly: "flight_requested es f \<Longrightarrow> \<not> verifying f \<Longrightarrow> hook_inv es h \<Longrightarrow> hook_inv es (fly f h)"
  by (auto simp: hook_inv_def fly_def)

lemma hook_inv_loaded: "hook_inv es h \<Longrightarrow> hook_inv es (set_loading False h)"
  by (auto simp: hook_inv_def set_loading_def)

lemma hook_inv_reset: "hook_inv es h \<Longrightarrow> hook_inv es (reset_hook h)"
  by (auto simp: hook_inv_def reset_hook_def initialState_def)

lemma hook_inv_methods: "hook_inv es h \<Longrightarrow> hook_inv es (h\<lparr>h_methods := m\<rparr>)"
  by (simp add: hook_inv_def)

lemma hook_inv_request:
  "hook_inv es h \<Longrightarrow> requested c es \<Longrightarrow>
   hook_inv es (h\<lparr>h_state := (h_state h)\<lparr>vs_apiCall := Some c, vs_method := m, vs_title := t, vs_description := d\<rparr>, h_open := True\<rparr>)"
  by (simp add: hook_inv_def)

lemmas hook_inv_intros = hook_inv_log hook_inv_fly hook_inv_loaded hook_inv_reset hook_inv_methods hook_inv_request

lemma hook_inv_press:
  assumes "hook_inv es h"
  shows "hook_inv (es @ [PressVerify]) (press_verify h)"
proof -
  let ?es = "es @ [PressVerify]"
  have w: "hook_inv ?es h" using assms by (rule hook_inv_weaken)
  have launch: "hook_inv ?es (fly (Verifying m code c) (set_loading True h))" if "vs_apiCall (h_state h) = Some c" for m code c
    using assms w that by (auto simp: hook_inv_def fly_def set_loading_def)
  have fail: "hook_inv ?es (verification_failed e (set_loading True h))" for e
    using w by (auto simp: hook_inv_def verification_failed_def hook_defs count_list_append)
  show ?thesis
    using w launch fail
    by (simp add: press_verify_def handleVerify_def executeVerification_def hook_inv_log Let_def split: option.split)
qed

lemma hook_inv_verified:
  assumes "hook_inv es h" and f: "Verifying m code c \<in> set (h_flights h)"
  shows "hook_inv (es @ [Verified m code c env])
    (verify_answered m code c env (h\<lparr>h_flights := remove1 (Verifying m code c) (h_flights h)\<rparr>))"
proof -
  let ?e = "Verified m code c env" and ?r = "remove1 (Verifying m code c) (h_flights h)"
  have n: "Suc (length (filter verifying ?r)) = length (filter verifying (h_flights h))"
    using filter_remove1 [OF f, of verifying] by simp
  have w: "hook_inv (es @ [?e]) h" using assms(1) by (rule hook_inv_weaken)
  have sub: "g \<in> set (h_flights h)" if "g \<in> set ?r" for g using that set_remove1_subset by fast
  show ?thesis
  proof (cases "verify m (Some code) env")
    case (Inl e)
    then show ?thesis using w n sub
      by (auto simp: verify_answered_def verification_failed_def hook_inv_def hook_defs count_list_append)
  next
    case (Inr u)
    have "count_list (h_log h) (Reran d) \<le> length (filter (verified_for d) es)" for d
      using assms(1) by (simp add: hook_inv_def)
    moreover have "requested c (es @ [?e])" using w f by (auto simp: hook_inv_def)
    ultimately show ?thesis using w n sub Inr
      by (auto simp: verify_answered_def hook_inv_def fly_def log_effect_def count_list_append intro: le_SucI)
  qed
qed


lemma hook_inv_step:
  assumes "hook_inv es h"
  shows "hook_inv (es @ [e]) (hook_step a h e)"
proof -
  have w: "hook_inv (es @ [e]) h" using assms by (rule hook_inv_weaken)
  have rm: "hook_inv (es @ [e]) (h\<lparr>h_flights := remove1 f (h_flights h)\<rparr>)" if "\<not> executing f" for f
    using w that by (rule hook_inv_remove)
  have asked: "flight_requested (es @ [e]) f" if "f \<in> set (h_flights h)" for f
    using w that by (simp add: hook_inv_def)
  show ?thesis
  proof (cases e)
    case (Protected c cfg)
    then show ?thesis using w by (simp add: withVerification_def hook_inv_log hook_inv_fly)
  next
    case (Started c cfg)
    then have "requested c (es @ [e])" by (auto simp: requested_def)
    then show ?thesis using w Started by (simp add: startVerification_def hook_inv_fly)
  next
    case (Tried c cfg result)
    have "requested c (es @ [e])" if "Trying c cfg \<in> set (h_flights h)" "result = Inl err" "isVerificationRequiredError err" for err
      using asked [OF that(1)] that(2,3) Tried by (auto simp: requested_def)
    then show ?thesis using w rm [of "Trying c cfg"] Tried
      by (auto simp: land_def first_answered_def startVerification_def hook_inv_log hook_inv_fly split: sum.split)
  next
    case (Asked c cfg answers)
    then show ?thesis using w rm [of "Asking c cfg"] asked [of "Asking c cfg"]
        hook_inv_request [OF hook_inv_methods [OF rm [of "Asking c cfg"]]]
      by (auto simp: land_def methods_fetched_def Let_def intro!: hook_inv_log hook_inv_methods)
  next
    case (Fetched answers)
    then show ?thesis using w by (simp add: hook_inv_methods)
  next
    case PressVerify
    then show ?thesis using hook_inv_press [OF assms] by simp
  next
    case (Verified m code c env)
    then show ?thesis using w hook_inv_verified [OF assms, of m code c env] by (simp add: land_def)
  next
    case (Called m c result)
    have "hook_inv (es @ [e]) (set_loading False (h\<lparr>h_flights := remove1 (Calling m c) (h_flights h)\<rparr>))"
      using w set_remove1_subset [of "Calling m c" "h_flights h"] filter_remove1_le [of verifying "Calling m c" "h_flights h"]
      by (auto simp: hook_inv_def set_loading_def)
    then show ?thesis using w Called
      by (auto simp: land_def call_answered_def hook_inv_def hook_defs count_list_append Let_def split: sum.split)
  next
    case (TypedCode code)
    then show ?thesis using w by (simp add: hook_inv_def setCode_def)
  next
    case (Switched m)
    then show ?thesis using w by (simp add: hook_inv_def switchMethod_def)
  next
    case PressCancel
    then show ?thesis using w by (simp add: press_cancel_def hook_inv_reset)
  next
    case ClosedDialog
    then show ?thesis using w by (simp add: hook_inv_reset)
  next
    case HiddenDialog
    then show ?thesis using w by (simp add: hook_inv_def)
  qed
qed

lemma hook_run_inv: "hook_inv es (hook_run a es)"
proof (induction es rule: rev_induct)
  case Nil
  show ?case by (simp add: hook_run_def init_hook_def hook_inv_def initialState_def)
next
  case (snoc e es)
  then show ?case by (simp add: hook_run_snoc hook_inv_step)
qed

text \<open>C3. A protected call is repeated only after a verification for it. In every interleaving of calls,
  answers, clicks and closed dialogs: a call is repeated at most as often as a verification started for it succeeded,
  the repeats of all calls are at most as many as the clicks on the button, and a repeated call is one a page
  asked to verify, directly or after the server had refused it for want of a verification.\<close>

theorem rerun_only_verified:
  "count_list (h_log (hook_run a es)) (Reran c) \<le> length (filter (verified_for c) es) \<and>
   length (filter is_reran (h_log (hook_run a es))) \<le> length (filter is_press es) \<and>
   (Reran c \<in> set (h_log (hook_run a es)) \<longrightarrow> requested c es)"
  using hook_run_inv [of es a] by (auto simp: hook_inv_def)

theorem rerun_only_verified_witness:
  "\<not> (Reran 1 \<in> set (h_log (hook_run True [Protected 1 \<lparr>preferredMethod = None, config_title = None, config_description = None\<rparr>, PressVerify])))"
  using rerun_only_verified [of True "[Protected 1 \<lparr>preferredMethod = None, config_title = None, config_description = None\<rparr>, PressVerify]" 1]
  by (auto simp: requested_def)

text \<open>The dialog is locked only while something runs: in every interleaving, as long as the dialog shows that
  it is loading, a verification or a repeated call is waiting for its answer; so when all of them have been answered, its
  buttons work again.\<close>

theorem dialog_never_stuck:
  assumes "\<forall>f \<in> set (h_flights (hook_run a es)). \<not> executing f"
  shows "\<not> vs_loading (h_state (hook_run a es)) \<and>
    press_cancel (hook_run a es) = reset_hook (hook_run a es) \<and>
    (activeMethod (hook_run a es) \<noteq> Some TwoFA \<longrightarrow> \<not> verifyDisabled (hook_run a es))"
  using hook_run_inv [of es a] assms by (auto simp: hook_inv_def press_cancel_def verifyDisabled_def)


definition plain_config :: start_config where
  "plain_config = \<lparr>preferredMethod = None, config_title = None, config_description = None\<rparr>"

definition both_enabled :: "(jsval \<times> jsval \<times> bool) option" where
  "both_enabled = (let r = JObj [(js ''success'', JBool True), (js ''data'', JObj [(js ''enabled'', JBool True)])] in
     Some (r, r, False))"

definition code_ok :: verify_env where
  "code_ok = \<lparr>ve_verify = Inr (JObj [(js ''success'', JBool True)]), ve_credentials = False, ve_host = HostWeb,
     ve_begin = Inl JUndef, ve_get = (\<lambda>_. Inr None), ve_finish = (\<lambda>_. Inl JUndef)\<rparr>"

definition sample_code :: jsstr where
  "sample_code = js ''123456''"

text \<open>A verification with a code, up to the repeated call.\<close>

definition code_run :: "api_call \<Rightarrow> verification_event list" where
  "code_run c = [Started c plain_config, Asked c plain_config both_enabled, TypedCode sample_code, PressVerify]"

lemma code_run_flights: "h_flights (hook_run True (code_run 1)) = [Verifying TwoFA sample_code 1]"
  by code_simp

theorem dialog_never_stuck_witness:
  "\<not> vs_loading (h_state (hook_run True (code_run 1 @ [Verified TwoFA sample_code 1 code_ok, Called TwoFA 1 (Inr JNull)])))"
proof -
  have "h_flights (hook_run True (code_run 1 @ [Verified TwoFA sample_code 1 code_ok, Called TwoFA 1 (Inr JNull)])) = []"
    by code_simp
  with dialog_never_stuck [of True "code_run 1 @ [Verified TwoFA sample_code 1 code_ok, Called TwoFA 1 (Inr JNull)]"]
  show ?thesis by simp
qed

subsection \<open>One at a time\<close>

definition one_inv :: "verification_hook \<Rightarrow> bool" where
  "one_inv h \<longleftrightarrow> (case filter executing (h_flights h) of
     [] \<Rightarrow> True | [f] \<Rightarrow> vs_loading (h_state h) | _ \<Rightarrow> False)"

lemma one_inv_def2:
  "one_inv h \<longleftrightarrow> length (filter executing (h_flights h)) \<le> 1 \<and>
     (filter executing (h_flights h) \<noteq> [] \<longrightarrow> vs_loading (h_state h))"
  by (auto simp: one_inv_def split: list.split)

lemma remove_other: "\<not> P f \<Longrightarrow> filter P (remove1 f xs) = filter P xs"
  by (induction xs) auto

lemma remove_only: "length (filter P xs) \<le> 1 \<Longrightarrow> f \<in> set xs \<Longrightarrow> P f \<Longrightarrow> filter P (remove1 f xs) = []"
  using filter_remove1 [of f xs P] by (cases "filter P (remove1 f xs)") auto

lemma one_inv_step:
  assumes "one_inv h" and "e \<noteq> ClosedDialog"
  shows "one_inv (hook_step a h e)"
proof (cases e)
  case (Tried c cfg result)
  then show ?thesis using assms
    by (auto simp: land_def first_answered_def startVerification_def one_inv_def2 hook_defs remove_other split: sum.split)
next
  case (Asked c cfg answers)
  then show ?thesis using assms
    by (auto simp: land_def methods_fetched_def one_inv_def2 log_effect_def remove_other Let_def)
next
  case PressVerify
  have "filter executing (h_flights h) = []" if "\<not> verifyDisabled h"
    using assms(1) that by (auto simp: one_inv_def2 verifyDisabled_def)
  then show ?thesis using assms PressVerify
    by (auto simp: press_verify_def handleVerify_def executeVerification_def verification_failed_def one_inv_def2 hook_defs
        Let_def split: option.split)
next
  case (Verified m code c env)
  have "filter executing (remove1 (Verifying m code c) (h_flights h)) = []" "vs_loading (h_state h)"
    if "Verifying m code c \<in> set (h_flights h)"
  proof -
    have "filter executing (h_flights h) \<noteq> []" using that by (force simp: filter_empty_conv)
    then show "vs_loading (h_state h)" using assms(1) by (simp add: one_inv_def2)
    show "filter executing (remove1 (Verifying m code c) (h_flights h)) = []"
      using assms(1) that by (intro remove_only) (simp_all add: one_inv_def2)
  qed
  then show ?thesis using assms Verified
    by (auto simp: land_def verify_answered_def verification_failed_def one_inv_def2 hook_defs split: sum.split)
next
  case (Called m c result)
  have "filter executing (remove1 (Calling m c) (h_flights h)) = []" if "Calling m c \<in> set (h_flights h)"
    using assms(1) that by (intro remove_only) (simp_all add: one_inv_def2)
  then show ?thesis using assms Called
    by (auto simp: land_def call_answered_def one_inv_def2 hook_defs Let_def split: sum.split)
next
  case PressCancel
  then show ?thesis using assms by (auto simp: press_cancel_def one_inv_def2 hook_defs)
qed (use assms in \<open>auto simp: withVerification_def startVerification_def one_inv_def2 hook_defs\<close>)

text \<open>C34. At most one verification runs at a time on a page whose dialog is hidden rather than reset when it is
  closed: a verification or a repeated call that runs keeps the dialog locked, so that a second one is not started
  beside it.\<close>

theorem one_verification_at_a_time:
  assumes "ClosedDialog \<notin> set es"
  shows "length (filter executing (h_flights (hook_run a es))) \<le> 1 \<and>
    (filter executing (h_flights (hook_run a es)) \<noteq> [] \<longrightarrow>
      verifyDisabled (hook_run a es) \<and> press_cancel (hook_run a es) = hook_run a es)"
proof -
  have "one_inv (hook_run a es)" using assms
  proof (induction es rule: rev_induct)
    case Nil
    show ?case by (simp add: hook_run_def init_hook_def one_inv_def2)
  next
    case (snoc e es)
    then show ?case by (auto simp: hook_run_snoc intro: one_inv_step)
  qed
  then show ?thesis by (auto simp: one_inv_def2 verifyDisabled_def press_cancel_def)
qed

theorem one_verification_at_a_time_witness:
  "verifyDisabled (hook_run True (code_run 1))"
proof -
  have "ClosedDialog \<notin> set (code_run 1)" by (simp add: code_run_def)
  with one_verification_at_a_time [of "code_run 1" True] show ?thesis
    by (simp add: code_run_flights del: One_nat_def)
qed

subsection \<open>Closing the dialog\<close>

text \<open>Closing the dialog does not withdraw a verification under way: when it succeeds, the call is repeated
  all the same.\<close>

lemma closing_does_not_stop:
  assumes "Verifying m code c \<in> set (h_flights (hook_run a es))" and "verify m (Some code) env = Inr ()"
  shows "Reran c \<in> set (h_log (hook_run a (es @ [ClosedDialog, Verified m code c env])))"
  using assms by (simp add: hook_run_def land_def reset_hook_def verify_answered_def fly_def log_effect_def)

text \<open>C33. A dialog closed early takes the next one with it. On a page that resets the hook when its dialog
  is closed: when the dialog is closed during the verification of one call and opened again for another,
  the success of the first closes the dialog of the second and forgets its call, which is then not repeated.\<close>

theorem late_success_closes_other:
  assumes "Calling m c \<in> set (h_flights (hook_run True es))"
  shows "\<not> h_open (hook_run True (es @ [ClosedDialog, Started d cfg, Asked d cfg answers, Called m c (Inr v)])) \<and>
    vs_apiCall (h_state (hook_run True (es @ [ClosedDialog, Started d cfg, Asked d cfg answers, Called m c (Inr v)]))) = None"
proof -
  let ?h = "hook_run True (es @ [ClosedDialog, Started d cfg, Asked d cfg answers])"
  have "Calling m c \<in> set (h_flights ?h)"
    using assms
    by (simp add: hook_run_def land_def reset_hook_def startVerification_def methods_fetched_def fly_def log_effect_def Let_def)
  then show ?thesis
    by (simp add: hook_run_snoc [of True "es @ [ClosedDialog, Started d cfg, Asked d cfg answers]", simplified]
        land_def call_answered_def hook_defs Let_def)
qed

theorem late_success_closes_other_witness:
  "let es = code_run 1 @ [Verified TwoFA sample_code 1 code_ok];
       before = hook_run True (es @ [ClosedDialog, Started 2 plain_config, Asked 2 plain_config both_enabled]);
       after = hook_run True (es @ [ClosedDialog, Started 2 plain_config, Asked 2 plain_config both_enabled, Called TwoFA 1 (Inr JNull)])
   in h_open before \<and> vs_apiCall (h_state before) = Some 2 \<and> \<not> h_open after \<and> vs_apiCall (h_state after) = None"
proof -
  have f: "Calling TwoFA 1 \<in> set (h_flights (hook_run True (code_run 1 @ [Verified TwoFA sample_code 1 code_ok])))"
    by code_simp
  have "h_open (hook_run True ((code_run 1 @ [Verified TwoFA sample_code 1 code_ok]) @
      [ClosedDialog, Started 2 plain_config, Asked 2 plain_config both_enabled]))"
    "vs_apiCall (h_state (hook_run True ((code_run 1 @ [Verified TwoFA sample_code 1 code_ok]) @
      [ClosedDialog, Started 2 plain_config, Asked 2 plain_config both_enabled]))) = Some 2"
    by code_simp+
  with late_success_closes_other [OF f, of 2 plain_config both_enabled JNull] show ?thesis by (simp add: Let_def)
qed


text \<open>A preferred method is taken without asking whether the user has it: a user with codes only, asked with the
  passkey preferred, gets a dialog that verifies by passkey until another tab is chosen.\<close>

lemma preferred_unavailable:
  assumes "Asking c cfg \<in> set (h_flights (hook_run a es))" and "preferredMethod cfg = Some PasskeyMethod"
    and "has2FA (checkVerificationMethods answers)" and "\<not> hasPasskey (checkVerificationMethods answers)"
  shows "activeMethod (hook_run a (es @ [Asked c cfg answers])) = Some PasskeyMethod"
    and "\<not> canUseMethod (h_methods (hook_run a (es @ [Asked c cfg answers]))) PasskeyMethod"
    and "PasskeyMethod \<notin> set (availableTabs (h_methods (hook_run a (es @ [Asked c cfg answers]))))"
  using assms
  by (simp_all add: hook_run_snoc land_def methods_fetched_def activeMethod_def canUseMethod_def usable_passkey_def
      availableTabs_def Let_def)

end
