(* ===== verification/AuthRedirect.thy ===== *)
theory AuthRedirect
  imports JsObject WebStorage
begin

section \<open>Where a login leads\<close>

text \<open>
  \<open>features/auth/lib/storage.ts\<close> (the target remembered over a login at a provider, the user's identifier),
  \<open>normalizeAuthRedirect\<close> of \<open>use-auth-redirect.ts\<close> and the page a provider sends the browser back to
  (\<open>routes/oauth/$provider.tsx\<close>). The storages have the laws of \<open>web_storage\<close>; the clock, the answers of the
  server and the page's address are arguments.

  The main results: a remembered target comes back once, within ten minutes; nobody is signed in that the server did
  not name; and which targets a browser resolves to another site although they pass the check.
\<close>

subsection \<open>Targets\<close>

definition normalizeAuthRedirect :: "jsstr option \<Rightarrow> jsstr" where
  "normalizeAuthRedirect redirectTo =
     (case redirectTo of None \<Rightarrow> js ''/dashboard''
      | Some t \<Rightarrow> if t = [] \<or> \<not> starts_with t (js ''/'') \<or> starts_with t (js ''//'') then js ''/dashboard'' else t)"

text \<open>How a browser resolves an address against the page (URL standard, special schemes): tabs and line
  breaks are dropped, a backslash counts as a slash, and two slashes begin the name of a host.\<close>

definition url_units :: "jsstr \<Rightarrow> jsstr" where
  "url_units t = filter (\<lambda>c. c \<noteq> 9 \<and> c \<noteq> 10 \<and> c \<noteq> 13) t"

definition url_slash :: "code_unit \<Rightarrow> bool" where
  "url_slash c \<longleftrightarrow> c = 47 \<or> c = 92"

definition names_host :: "jsstr \<Rightarrow> bool" where
  "names_host t \<longleftrightarrow> (case url_units t of a # b # _ \<Rightarrow> url_slash a \<and> url_slash b | _ \<Rightarrow> False)"

subsection \<open>Remembered targets\<close>

definition AUTH_REDIRECT :: jsstr where
  "AUTH_REDIRECT = js ''auth_redirect''"

definition USER_ID :: jsstr where
  "USER_ID = js ''uid''"

definition redirect_text :: "jsstr \<Rightarrow> int \<Rightarrow> jsstr" where
  "redirect_text redirectTo now =
     json_print (JObj [(js ''redirectTo'', JStr redirectTo), (js ''createdAt'', JNum (num_int now))])"

text \<open>What a storage call leaves when it throws and the error is swallowed.\<close>

definition or_same :: "'st \<Rightarrow> 'st option \<Rightarrow> 'st" where
  "or_same st r = (case r of Some st' \<Rightarrow> st' | None \<Rightarrow> st)"

definition saveAuthRedirect :: "'st transfer_storage \<Rightarrow> 'st \<Rightarrow> int \<Rightarrow> jsstr option \<Rightarrow> 'st" where
  "saveAuthRedirect api st now redirectTo =
     (case redirectTo of
        Some t \<Rightarrow>
          if t = [] \<or> \<not> starts_with t (js ''/'') \<or> starts_with t (js ''//'')
          then or_same st (remove_item api st AUTH_REDIRECT)
          else or_same st (set_item api st AUTH_REDIRECT (redirect_text t now))
      | None \<Rightarrow> or_same st (remove_item api st AUTH_REDIRECT))"

definition remembered_target :: "jsval \<Rightarrow> int \<Rightarrow> jsstr option" where
  "remembered_target v now =
     (case (obj_get v (js ''redirectTo''), obj_get v (js ''createdAt'')) of
        (JStr t, JNum created) \<Rightarrow>
          if \<not> starts_with t (js ''/'') \<or> starts_with t (js ''//'') \<or>
            num_lt (num_int 600000) (num_sub (num_int now) created)
          then None else Some t
      | _ \<Rightarrow> None)"

definition consumeAuthRedirect :: "'st transfer_storage \<Rightarrow> 'st \<Rightarrow> int \<Rightarrow> 'st \<times> jsstr option" where
  "consumeAuthRedirect api st now =
     (case get_item api st AUTH_REDIRECT of None \<Rightarrow> (st, None)
      | Some raw \<Rightarrow>
        (case remove_item api st AUTH_REDIRECT of None \<Rightarrow> (st, None)
         | Some st' \<Rightarrow>
           (st', case raw of None \<Rightarrow> None
             | Some text \<Rightarrow> if text = [] then None
               else (case json_parse text of None \<Rightarrow> None
                 | Some v \<Rightarrow> if v = JNull then None else remembered_target v now))))"

definition saveUserId :: "'st transfer_storage \<Rightarrow> 'st \<Rightarrow> jsval \<Rightarrow> 'st" where
  "saveUserId api st userId = or_same st (set_item api st USER_ID (to_str userId))"

definition removeUserId :: "'st transfer_storage \<Rightarrow> 'st \<Rightarrow> 'st" where
  "removeUserId api st = or_same st (remove_item api st USER_ID)"

subsection \<open>The page after the provider\<close>

text \<open>What the page does, in order. \<open>Replaced\<close> leaves the application for an address the browser resolves.\<close>

datatype callback_effect =
    Navigated jsstr
  | Replaced jsstr
  | SetUser jsval
  | SavedUid jsstr
  | BindingResult bool
  | ClosedWindow
  | SignedInNotice
  | ErrorNotice

record callback_env =
  cb_bind :: bool
  cb_opener :: bool
  cb_code :: "jsstr option"
  cb_error :: "jsstr option"
  cb_redirect :: "jsstr option"
  cb_remembered :: "jsstr option"
  cb_response :: "jsval + jsval"
  cb_self :: "jsval + jsval"
  cb_self_again :: "jsval + jsval"
  cb_path :: jsstr
  cb_closed :: bool
  cb_accepts :: "jsval \<Rightarrow> bool"

definition param_or_empty :: "jsstr option \<Rightarrow> jsstr" where
  "param_or_empty v = (case v of Some t \<Rightarrow> t | None \<Rightarrow> [])"

text \<open>\<open>cb_path\<close> is the address of the page 100 ms after the router was asked. \<open>cb_accepts\<close> says for which users the
  store's setter succeeds; for the others the storage refuses the text and the setter throws.\<close>

definition safeNavigate :: "callback_env \<Rightarrow> jsstr \<Rightarrow> callback_effect list" where
  "safeNavigate env target =
     (let safeTarget = normalizeAuthRedirect (Some target) in
      if starts_with safeTarget (js ''/api/'') then [Replaced safeTarget]
      else Navigated safeTarget #
        (if cb_path env \<noteq> safeTarget \<and> cb_path env \<noteq> safeTarget @ js ''/'' then [Replaced safeTarget] else []))"

definition redirectAfterLogin :: "callback_env \<Rightarrow> callback_effect list" where
  "redirectAfterLogin env =
     (let t = param_or_empty (cb_redirect env); r = param_or_empty (cb_remembered env) in
      safeNavigate env (if t \<noteq> [] then t else if r \<noteq> [] then r else js ''/dashboard'')) @ [SignedInNotice]"

definition sign_in_user :: "jsval \<Rightarrow> callback_effect list" where
  "sign_in_user user =
     SetUser user #
     (let i = opt_get user ''id'' in if is_nullish i then [] else [SavedUid (to_str i)])"

text \<open>The effects of asking for the session's user, and whether there is one.\<close>

definition finalizeLogin :: "(jsval \<Rightarrow> bool) \<Rightarrow> jsval + jsval \<Rightarrow> callback_effect list \<times> bool" where
  "finalizeLogin accepts self =
     (case self of Inl e \<Rightarrow> ([], False)
      | Inr v \<Rightarrow>
          if truthy (opt_get v ''success'') \<and> truthy (opt_get v ''data'') \<and> accepts (opt_get v ''data'')
          then (sign_in_user (opt_get v ''data''), True)
          else ([], False))"

definition handleBindingFailure :: "callback_env \<Rightarrow> callback_effect list" where
  "handleBindingFailure env =
     [BindingResult False, ErrorNotice] @ (if cb_opener env then [] else safeNavigate env (js ''/profile/''))"

definition handleLoginFailure :: "callback_env \<Rightarrow> jsval + jsval \<Rightarrow> callback_effect list" where
  "handleLoginFailure env self =
     (case finalizeLogin (cb_accepts env) self of (effects, ok) \<Rightarrow>
        effects @ (if ok then redirectAfterLogin env else ErrorNotice # safeNavigate env (js ''/sign-in'')))"

text \<open>A setter that throws ends in the catch block of the page.\<close>

definition callback_failed :: "callback_env \<Rightarrow> jsval + jsval \<Rightarrow> callback_effect list" where
  "callback_failed env self = (if cb_bind env then handleBindingFailure env else handleLoginFailure env self)"

definition login_answer :: "callback_env \<Rightarrow> jsval \<Rightarrow> callback_effect list" where
  "login_answer env data =
     (let loginUser = obj_get data (js ''data'') in
      if truthy loginUser
      then (if cb_accepts env loginUser then sign_in_user loginUser @ redirectAfterLogin env
            else callback_failed env (cb_self env))
      else (case finalizeLogin (cb_accepts env) (cb_self env) of (effects, ok) \<Rightarrow>
        effects @ (if ok then redirectAfterLogin env else ErrorNotice # safeNavigate env (js ''/sign-in''))))"

definition answers_binding :: "jsval \<Rightarrow> bool" where
  "answers_binding data \<longleftrightarrow> obj_get data (js ''message'') = JStr (js ''bind'') \<or>
     opt_get (obj_get data (js ''data'')) ''action'' = JStr (js ''bind'')"

text \<open>\<open>cb_closed\<close> is whether the window is closed 200 ms after it was asked to.\<close>

definition closeBindingWindow :: "callback_env \<Rightarrow> callback_effect list" where
  "closeBindingWindow env = ClosedWindow # (if cb_closed env then [] else [Replaced (js ''/profile/'')])"

text \<open>\<open>already\<close> is the message of the server for an account that is bound already.\<close>

definition oauth_callback :: "jsstr \<Rightarrow> callback_env \<Rightarrow> callback_effect list" where
  "oauth_callback already env =
     (if param_or_empty (cb_code env) = [] \<or> param_or_empty (cb_error env) \<noteq> []
      then ErrorNotice # safeNavigate env (if cb_bind env then js ''/profile/'' else js ''/sign-in'')
      else case cb_response env of
        Inl e \<Rightarrow> callback_failed env (cb_self env)
      | Inr data \<Rightarrow>
          if truthy (opt_get data ''success'')
          then (if answers_binding data
                then BindingResult True #
                  (if cb_opener env then closeBindingWindow env else safeNavigate env (js ''/profile/''))
                else login_answer env data)
          else if cb_bind env then handleBindingFailure env
          else if opt_get data ''message'' = JStr already
          then (case finalizeLogin (cb_accepts env) (cb_self env) of (effects, ok) \<Rightarrow>
            if ok then effects @ redirectAfterLogin env else handleLoginFailure env (cb_self_again env))
          else handleLoginFailure env (cb_self env))"


section \<open>Properties of logins\<close>

subsection \<open>A target comes back once\<close>

definition safe_target :: "jsstr \<Rightarrow> bool" where
  "safe_target t \<longleftrightarrow> starts_with t (js ''/'') \<and> \<not> starts_with t (js ''//'')"

lemma safe_target_nonempty: "safe_target t \<Longrightarrow> t \<noteq> []"
  by (auto simp: safe_target_def starts_with_def js_lit)

lemma normalized_safe: "safe_target (normalizeAuthRedirect t)"
  by (auto simp: normalizeAuthRedirect_def safe_target_def starts_with_def js_lit split: option.split)

lemma normalize_safe: "safe_target t \<Longrightarrow> normalizeAuthRedirect (Some t) = t"
  using safe_target_nonempty by (auto simp: normalizeAuthRedirect_def safe_target_def)

definition clock :: "int \<Rightarrow> bool" where
  "clock n \<longleftrightarrow> 0 \<le> n \<and> n < 2 ^ 53"

lemma redirect_text_read:
  assumes "wf_units t" and "clock now"
  shows "redirect_text t now \<noteq> [] \<and>
    json_parse (redirect_text t now) = Some (JObj [(js ''redirectTo'', JStr t), (js ''createdAt'', JNum (num_int now))])"
proof -
  let ?v = "JObj [(js ''redirectTo'', JStr t), (js ''createdAt'', JNum (num_int now))]"
  have p: "plain ?v" using assms by (simp add: js_inject index_key_lit is_digit_def clock_def)
  then show ?thesis using json_roundtrip [OF p] by (simp add: redirect_text_def)
qed

lemma remembered_in_time:
  assumes "safe_target t" and "clock t0" and "clock t1"
  shows "remembered_target (JObj [(js ''redirectTo'', JStr t), (js ''createdAt'', JNum (num_int t0))]) t1 =
    (if t1 - t0 \<le> 600000 then Some t else None)"
proof -
  have "num_sub (num_int t1) (num_int t0) = num_int (t1 - t0)"
    using assms(2,3) by (intro num_sub_int) (auto simp: clock_def)
  then show ?thesis using assms(1)
    by (auto simp: remembered_target_def safe_target_def js_inject)
qed

context web_storage
begin

lemma consume_law:
  assumes "set_item api st AUTH_REDIRECT (redirect_text t t0) = Some st1" and "remove_item api st1 AUTH_REDIRECT = Some st2"
    and "safe_target t" and "wf_units t" and "clock t0" and "clock t1"
  shows "consumeAuthRedirect api st1 t1 = (st2, if t1 - t0 \<le> 600000 then Some t else None)"
  using get_set [OF assms(1)] assms(2) redirect_text_read [OF assms(4,5)] remembered_in_time [OF assms(3,5,6)]
  by (simp add: consumeAuthRedirect_def)

lemma consumed_once:
  assumes "remove_item api st AUTH_REDIRECT = Some st'"
  shows "snd (consumeAuthRedirect api st' t) = None"
  using get_remove [OF assms] by (simp add: consumeAuthRedirect_def split: option.split)

end

text \<open>A remembered target comes back once. In the browser's storage, with room for it: a target of the site that
  was saved when a login began is what the page after the login reads within ten minutes, and nothing
  after; it is read once, and a second reading finds nothing.\<close>

theorem redirect_remembered:
  assumes "safe_target t" and "wf_units t" and "clock t0" and "clock t1"
    and "length AUTH_REDIRECT + length (redirect_text t t0) \<le> quota"
  shows "let st1 = saveAuthRedirect (session_storage quota) st t0 (Some t);
             (st2, r) = consumeAuthRedirect (session_storage quota) st1 t1
    in r = (if t1 - t0 \<le> 600000 then Some t else None) \<and>
       snd (consumeAuthRedirect (session_storage quota) st2 t2) = None"
proof -
  let ?api = "session_storage quota" and ?st1 = "st(AUTH_REDIRECT \<mapsto> redirect_text t t0)"
  have s: "set_item ?api st AUTH_REDIRECT (redirect_text t t0) = Some ?st1"
    using assms(5) by (simp add: session_storage_def)
  have r: "remove_item ?api ?st1 AUTH_REDIRECT = Some (?st1(AUTH_REDIRECT := None))" by (simp add: session_storage_def)
  have "saveAuthRedirect ?api st t0 (Some t) = ?st1"
    using assms(1) safe_target_nonempty [OF assms(1)] s by (simp add: saveAuthRedirect_def safe_target_def or_same_def)
  then show ?thesis
    using session.consume_law [OF s r assms(1-4)] session.consumed_once [OF r, of t2] by (simp add: Let_def)
qed

theorem redirect_remembered_witness:
  "let st1 = saveAuthRedirect (session_storage 1000) Map.empty 5000 (Some (js ''/keys''));
       (st2, r) = consumeAuthRedirect (session_storage 1000) st1 6000
   in r = Some (js ''/keys'')"
proof -
  have f: "safe_target (js ''/keys'')" "wf_units (js ''/keys'')" "clock 5000" "clock 6000" by code_simp+
  have "length (redirect_text (js ''/keys'') 5000) = 39" by code_simp
  then have "length AUTH_REDIRECT + length (redirect_text (js ''/keys'') 5000) \<le> 1000" by (simp add: AUTH_REDIRECT_def)
  from redirect_remembered [OF f this, of Map.empty 0] show ?thesis by (auto simp: Let_def split: prod.splits)
qed

subsection \<open>Who is signed in\<close>

definition named_by :: "jsval + jsval \<Rightarrow> jsval \<Rightarrow> bool" where
  "named_by r u \<longleftrightarrow> (case r of Inl e \<Rightarrow> False
     | Inr d \<Rightarrow> truthy (opt_get d ''success'') \<and> truthy u \<and> opt_get d ''data'' = u)"

lemma navigate_quiet: "SetUser u \<notin> set (safeNavigate env t)" "SignedInNotice \<notin> set (safeNavigate env t)"
  by (simp_all add: safeNavigate_def Let_def)

lemma after_login_quiet: "SetUser u \<notin> set (redirectAfterLogin env)" "SignedInNotice \<in> set (redirectAfterLogin env)"
  by (simp_all add: redirectAfterLogin_def Let_def navigate_quiet)

lemma sign_in_sets: "SetUser u \<in> set (sign_in_user v) \<longleftrightarrow> u = v" "SignedInNotice \<notin> set (sign_in_user v)"
  by (auto simp: sign_in_user_def Let_def)

text \<open>An answer that names a user the store accepts.\<close>

definition signs_in :: "callback_env \<Rightarrow> jsval + jsval \<Rightarrow> jsval \<Rightarrow> bool" where
  "signs_in env r u \<longleftrightarrow> named_by r u \<and> cb_accepts env u"

lemma finalize_names:
  "finalizeLogin (cb_accepts env) self = (effects, ok) \<Longrightarrow>
   (SetUser u \<in> set effects \<longleftrightarrow> signs_in env self u) \<and> SignedInNotice \<notin> set effects \<and> (ok \<longleftrightarrow> (\<exists>u. signs_in env self u))"
  by (auto simp: finalizeLogin_def signs_in_def named_by_def sign_in_sets split: sum.splits if_splits)

lemma failure_names:
  "(SetUser u \<in> set (handleLoginFailure env self) \<longleftrightarrow> signs_in env self u) \<and>
   (SignedInNotice \<in> set (handleLoginFailure env self) \<longleftrightarrow> (\<exists>u. signs_in env self u))"
proof (cases "finalizeLogin (cb_accepts env) self")
  case (Pair effects ok)
  show ?thesis using finalize_names [OF Pair] finalize_names [OF Pair, of u]
    by (cases ok) (auto simp: handleLoginFailure_def Pair navigate_quiet after_login_quiet)
qed

lemma binding_quiet:
  "SetUser u \<notin> set (handleBindingFailure env)" "SignedInNotice \<notin> set (handleBindingFailure env)"
  "SetUser u \<notin> set (closeBindingWindow env)" "SignedInNotice \<notin> set (closeBindingWindow env)"
  by (simp_all add: handleBindingFailure_def closeBindingWindow_def navigate_quiet)

lemma callback_failed_names:
  "(SetUser u \<in> set (callback_failed env self) \<longleftrightarrow> \<not> cb_bind env \<and> signs_in env self u) \<and>
   (SignedInNotice \<in> set (callback_failed env self) \<longleftrightarrow> \<not> cb_bind env \<and> (\<exists>u. signs_in env self u))"
  using failure_names [of u env self] by (simp add: callback_failed_def binding_quiet)

lemma login_names:
  assumes "truthy (opt_get d ''success'')"
  shows "SetUser u \<in> set (login_answer env d) \<Longrightarrow> signs_in env (Inr d) u \<or> signs_in env (cb_self env) u"
    and "SignedInNotice \<in> set (login_answer env d) \<Longrightarrow> \<exists>u. SetUser u \<in> set (login_answer env d)"
proof -
  have o: "opt_get d ''data'' = obj_get d (js ''data'')" using assms by (cases d) (simp_all add: opt_get_def)
  obtain effects ok where f: "finalizeLogin (cb_accepts env) (cb_self env) = (effects, ok)"
    by (cases "finalizeLogin (cb_accepts env) (cb_self env)")
  show "SetUser u \<in> set (login_answer env d) \<Longrightarrow> signs_in env (Inr d) u \<or> signs_in env (cb_self env) u"
    using assms finalize_names [OF f, of u] callback_failed_names [of u env "cb_self env"]
    by (auto simp: login_answer_def f Let_def sign_in_sets after_login_quiet navigate_quiet signs_in_def named_by_def o
      split: if_splits)
  show "SignedInNotice \<in> set (login_answer env d) \<Longrightarrow> \<exists>u. SetUser u \<in> set (login_answer env d)"
    using finalize_names [OF f] callback_failed_names [of _ env "cb_self env"]
    by (auto simp: login_answer_def f Let_def sign_in_sets after_login_quiet navigate_quiet split: if_splits)
qed

text \<open>C16. Nobody is signed in that the server did not name. Whatever comes back from a provider, whatever the server
  answers and whether or not the storage accepts it: the page stores a user only if the server named that user, in a
  successful answer to the login or to the question for the session's user; the notice of a successful login is shown
  only together with such a user; an answer that reports a binding signs nobody in, in any window; and in a window that
  was opened to bind an account a user is stored only if the server answered with success and its answer was not that of
  a binding.\<close>

theorem signed_in_user_named:
  "(SetUser u \<in> set (oauth_callback already env) \<longrightarrow>
      signs_in env (cb_response env) u \<or> signs_in env (cb_self env) u \<or> signs_in env (cb_self_again env) u) \<and>
   (SignedInNotice \<in> set (oauth_callback already env) \<longrightarrow> (\<exists>u. SetUser u \<in> set (oauth_callback already env))) \<and>
   (cb_response env = Inr d \<and> truthy (opt_get d ''success'') \<and>
      (obj_get d (js ''message'') = JStr (js ''bind'') \<or> opt_get (obj_get d (js ''data'')) ''action'' = JStr (js ''bind'')) \<longrightarrow>
      SetUser u \<notin> set (oauth_callback already env)) \<and>
   (cb_bind env \<and> SetUser u \<in> set (oauth_callback already env) \<longrightarrow>
      (\<exists>d. cb_response env = Inr d \<and> truthy (opt_get d ''success'') \<and>
         obj_get d (js ''message'') \<noteq> JStr (js ''bind'') \<and> opt_get (obj_get d (js ''data'')) ''action'' \<noteq> JStr (js ''bind'')))"
proof (cases "cb_response env")
  case (Inl e)
  then show ?thesis using callback_failed_names [of u env "cb_self env"] callback_failed_names [of _ env "cb_self env"]
    by (auto simp: oauth_callback_def navigate_quiet)
next
  case (Inr d')
  obtain effects ok where f: "finalizeLogin (cb_accepts env) (cb_self env) = (effects, ok)"
    by (cases "finalizeLogin (cb_accepts env) (cb_self env)")
  have again: "(SetUser u \<in> set (handleLoginFailure env s) \<longleftrightarrow> signs_in env s u) \<and>
      (SignedInNotice \<in> set (handleLoginFailure env s) \<longleftrightarrow> (\<exists>u. signs_in env s u))" for s u
    by (rule failure_names)
  show ?thesis
  proof (cases "truthy (opt_get d' ''success'')")
    case True
    then show ?thesis using login_names [OF True]
      by (auto simp: oauth_callback_def Inr answers_binding_def navigate_quiet binding_quiet)
  next
    case False
    then show ?thesis using finalize_names [OF f] again
      by (auto simp: oauth_callback_def Inr f navigate_quiet binding_quiet after_login_quiet)
  qed
qed

definition evil_target :: jsstr where
  "evil_target = [47, 92] @ js ''evil.example''"

definition code_env :: callback_env where
  "code_env = \<lparr>cb_bind = False, cb_opener = False, cb_code = Some (js ''x''), cb_error = None,
     cb_redirect = Some evil_target, cb_remembered = None,
     cb_response = Inr (JObj [(js ''success'', JBool True), (js ''data'', JObj [(js ''id'', JNum (num_int 7))])]),
     cb_self = Inl JUndef, cb_self_again = Inl JUndef, cb_path = js ''/oauth/github'', cb_closed = False,
     cb_accepts = (\<lambda>u. True)\<rparr>"

theorem signed_in_user_named_witness:
  "signs_in code_env (cb_response code_env) (JObj [(js ''id'', JNum (num_int 7))])"
proof -
  have "SetUser (JObj [(js ''id'', JNum (num_int 7))]) \<in> set (oauth_callback [] code_env)"
    by (simp add: oauth_callback_def code_env_def login_answer_def sign_in_user_def opt_get_def param_or_empty_def answers_binding_def js_inject Let_def js_lit)
  moreover have "\<not> signs_in code_env (cb_self code_env) u" "\<not> signs_in code_env (cb_self_again code_env) u" for u
    by (simp_all add: code_env_def signs_in_def named_by_def)
  ultimately show ?thesis
    using signed_in_user_named [THEN conjunct1, of "JObj [(js ''id'', JNum (num_int 7))]" "[]" code_env] by simp
qed

subsection \<open>Targets of another site\<close>

lemma url_units_plain: "c \<notin> {9, 10, 13} \<Longrightarrow> url_units (c # s) = c # url_units s"
  by (simp add: url_units_def)

text \<open>A target under \<open>/api/\<close>, for which the whole page is left, stays on the site.\<close>

lemma api_target_stays:
  assumes "starts_with t (js ''/api/'')"
  shows "\<not> names_host t"
proof -
  obtain r where "t = js ''/api/'' @ r" using starts_with_split [OF assms] by blast
  then have "url_units t = js ''/api/'' @ url_units r" by (simp add: url_units_def js_lit)
  then show ?thesis by (simp add: names_host_def url_slash_def js_lit)
qed

text \<open>The check of the targets does not see what a browser takes for a slash.\<close>

lemma passes_and_names_host:
  assumes "url_units t = 47 # 92 # h" and "starts_with t (js ''/'')" and "\<not> starts_with t (js ''//'')"
  shows "normalizeAuthRedirect (Some t) = t \<and> names_host t"
  using assms normalize_safe [of t] by (simp add: safe_target_def names_host_def url_slash_def)

text \<open>C36. A login can be led to another site. For every host: when the address of the page after a provider carries
  the target made of a slash, a backslash and the host, and the server names a user whom the
  storage accepts, the target passes the check, and the page, once it sees that the router did not get there, replaces itself by an
  address the browser resolves to that host.\<close>

theorem redirect_leaves_site:
  assumes "cb_redirect env = Some (47 # 92 # host)" and "param_or_empty (cb_code env) \<noteq> []" and "param_or_empty (cb_error env) = []"
    and "cb_response env = Inr d" and "signs_in env (cb_response env) u"
    and "obj_get d (js ''message'') \<noteq> JStr (js ''bind'')" and "opt_get u ''action'' \<noteq> JStr (js ''bind'')"
    and "cb_path env \<noteq> 47 # 92 # host" and "cb_path env \<noteq> 47 # 92 # host @ js ''/''"
  shows "SetUser u \<in> set (oauth_callback already env) \<and> Replaced (47 # 92 # host) \<in> set (oauth_callback already env) \<and>
    names_host (47 # 92 # host)"
proof -
  have d: "truthy (opt_get d ''success'')" "truthy u" "obj_get d (js ''data'') = u" "cb_accepts env u"
    using assms(4,5) by (cases d; simp add: signs_in_def named_by_def opt_get_def)+
  have t: "\<not> starts_with (47 # 92 # host) (js ''/api/'')" "normalizeAuthRedirect (Some (47 # 92 # host)) = 47 # 92 # host"
    by (simp_all add: starts_with_def js_lit normalizeAuthRedirect_def)
  then have "Replaced (47 # 92 # host) \<in> set (redirectAfterLogin env)"
    using assms(1,8,9) by (simp add: redirectAfterLogin_def safeNavigate_def param_or_empty_def Let_def)
  moreover have "oauth_callback already env = sign_in_user u @ redirectAfterLogin env"
    using assms(2,3,6,7) d by (simp add: oauth_callback_def assms(4) login_answer_def answers_binding_def)
  moreover have "names_host (47 # 92 # host)" by (simp add: names_host_def url_units_def url_slash_def)
  ultimately show ?thesis by (simp add: sign_in_sets)
qed

theorem redirect_leaves_site_witness:
  "Replaced evil_target \<in> set (oauth_callback [] code_env) \<and> names_host evil_target"
proof -
  have "cb_redirect code_env = Some (47 # 92 # js ''evil.example'')"
    "param_or_empty (cb_code code_env) \<noteq> []" "param_or_empty (cb_error code_env) = []"
    "cb_response code_env = Inr (JObj [(js ''success'', JBool True), (js ''data'', JObj [(js ''id'', JNum (num_int 7))])])"
    "signs_in code_env (cb_response code_env) (JObj [(js ''id'', JNum (num_int 7))])"
    "obj_get (JObj [(js ''success'', JBool True), (js ''data'', JObj [(js ''id'', JNum (num_int 7))])]) (js ''message'') \<noteq> JStr (js ''bind'')"
    "opt_get (JObj [(js ''id'', JNum (num_int 7))]) ''action'' \<noteq> JStr (js ''bind'')"
    "cb_path code_env \<noteq> 47 # 92 # js ''evil.example''" "cb_path code_env \<noteq> 47 # 92 # js ''evil.example'' @ js ''/''"
    by (simp_all add: code_env_def evil_target_def param_or_empty_def signs_in_def named_by_def opt_get_def js_inject js_lit)
  from redirect_leaves_site [OF this] show ?thesis by (simp add: evil_target_def)
qed

end
