(* ===== verification/AuthSession.thy ===== *)
theory AuthSession
  imports AuthRedirect
begin

section \<open>The session of a page\<close>

text \<open>
  Who is signed in, as the whole page sees it: the store (\<open>stores/auth-store.ts\<close>), the question for the session's user
  and its cancellation (\<open>getSelf\<close>, \<open>cancelSelfRequests\<close> of \<open>lib/api.ts\<close>), the login (\<open>use-auth-redirect.ts\<close>), the
  guards of the routes, the wallet's refresh, the login with a second factor and the sign-out, as one machine of events.
  A question is in flight between the event that asks it and the event that answers it; everything a handler
  does between two awaits is one step.

  \<open>ss_session\<close> and \<open>sr_account\<close> belong to the environment: the account of the browser's cookie, and of the cookie a
  question was sent with. No operation reads them.

  The main results: the store shows only accounts the session has had, and only its present one unless one of the
  named races came between; an answer from before a login or a sign-out signs nobody in; and two races the code
  does not close.
\<close>

subsection \<open>State\<close>

text \<open>Who asks for the session's user, with what is needed when the answer arrives.\<close>

datatype self_asker =
    LoginAsks nat jsstr
  | GuardAsks jsstr
  | RouteAsks jsstr
  | DesktopAsks jsstr
  | WalletAsks

record self_request =
  sr_id :: nat
  sr_generation :: nat
  sr_asker :: self_asker
  sr_account :: "nat option"

text \<open>What a handler does outside the state: \<open>WentTo\<close> asks the router, \<open>LeftFor\<close> leaves the page,
  \<open>Entered\<close> and \<open>SignInFirst\<close> are the verdicts of a guard.\<close>

datatype session_effect =
    WentTo jsstr
  | LeftFor jsstr
  | Entered jsstr
  | SignInFirst jsstr
  | FormShown
  | SelfFailed
  | HandlerThrew
  | OtpFailed
  | SignedOutNotice
  | Reloaded

record 'st session_state =
  ss_user :: jsval
  ss_local :: 'st
  ss_language :: jsstr
  ss_transition :: nat
  ss_generation :: nat
  ss_next :: nat
  ss_requests :: "self_request list"
  ss_controllers :: "nat list"
  ss_aborted :: "nat list"
  ss_languages :: "(jsstr \<times> jsstr) list"
  ss_verified :: jsval
  ss_wallet :: jsval
  ss_wallet_error :: bool
  ss_log :: "session_effect list"
  ss_session :: "nat option"

definition log_session :: "session_effect \<Rightarrow> 'st session_state \<Rightarrow> 'st session_state" where
  "log_session e st = st\<lparr>ss_log := ss_log st @ [e]\<rparr>"

subsection \<open>The store\<close>

definition USER_KEY :: jsstr where
  "USER_KEY = js ''user''"

text \<open>A storage that refuses makes the setter throw before the state changes.\<close>

definition setUser :: "'st transfer_storage \<Rightarrow> jsval \<Rightarrow> 'st session_state \<Rightarrow> 'st session_state option" where
  "setUser api user st =
     map_option (\<lambda>l. st\<lparr>ss_local := l, ss_user := user\<rparr>)
       (if truthy user then set_item api (ss_local st) USER_KEY (json_print user)
        else remove_item api (ss_local st) USER_KEY)"

definition auth_reset :: "'st transfer_storage \<Rightarrow> 'st session_state \<Rightarrow> 'st session_state option" where
  "auth_reset api st =
     map_option (\<lambda>l. st\<lparr>ss_local := l, ss_user := JNull\<rparr>) (remove_item api (ss_local st) USER_KEY)"

text \<open>A text that cannot be read is removed; \<open>None\<close> is a storage that refuses even that.\<close>

definition initUser :: "'st transfer_storage \<Rightarrow> 'st \<Rightarrow> ('st \<times> jsval) option" where
  "initUser api l =
     (case get_item api l USER_KEY of
        None \<Rightarrow> map_option (\<lambda>l. (l, JNull)) (remove_item api l USER_KEY)
      | Some None \<Rightarrow> Some (l, JNull)
      | Some (Some saved) \<Rightarrow>
          if saved = [] then Some (l, JNull)
          else (case json_parse saved of Some v \<Rightarrow> Some (l, v)
            | None \<Rightarrow> map_option (\<lambda>l. (l, JNull)) (remove_item api l USER_KEY)))"

subsection \<open>Questions for the session's user\<close>

definition ask_self :: "self_asker \<Rightarrow> 'st session_state \<Rightarrow> 'st session_state" where
  "ask_self a st =
     st\<lparr>ss_requests := ss_requests st @
          [\<lparr>sr_id = ss_next st, sr_generation = ss_generation st, sr_asker = a, sr_account = ss_session st\<rparr>],
        ss_controllers := ss_controllers st @ [ss_next st], ss_next := Suc (ss_next st)\<rparr>"

definition cancelSelfRequests :: "'st session_state \<Rightarrow> 'st session_state" where
  "cancelSelfRequests st =
     st\<lparr>ss_generation := Suc (ss_generation st), ss_aborted := ss_aborted st @ ss_controllers st, ss_controllers := []\<rparr>"

definition session_changed :: jsval where
  "session_changed = JObj [(js ''success'', JBool False), (js ''message'', JStr (js ''Session changed during validation''))]"

text \<open>What \<open>getSelf\<close> makes of the answer: \<open>Inl\<close> is a rejected request.\<close>

definition self_result :: "self_request \<Rightarrow> jsval + jsval \<Rightarrow> 'st session_state \<Rightarrow> jsval + jsval" where
  "self_result q r st =
     (case r of Inl e \<Rightarrow> Inl e
      | Inr v \<Rightarrow> Inr (if sr_generation q \<noteq> ss_generation st then session_changed else v))"

definition answered_user :: "jsval \<Rightarrow> jsval option" where
  "answered_user v =
     (if truthy (opt_get v ''success'') \<and> truthy (opt_get v ''data'') then Some (opt_get v ''data'') else None)"

subsection \<open>The login\<close>

definition getSavedLanguage :: "jsval \<Rightarrow> jsstr option" where
  "getSavedLanguage user =
     (case obj_get user (js ''language'') of JStr l \<Rightarrow> Some l
      | _ \<Rightarrow>
        (case obj_get user (js ''setting'') of
           JStr s \<Rightarrow>
             (case json_parse s of None \<Rightarrow> None
              | Some setting \<Rightarrow> (case obj_get setting (js ''language'') of JStr l \<Rightarrow> Some l | _ \<Rightarrow> None))
         | _ \<Rightarrow> None))"

definition save_id :: "'st transfer_storage \<Rightarrow> jsval \<Rightarrow> 'st session_state \<Rightarrow> 'st session_state" where
  "save_id api user st =
     (if truthy (opt_get user ''id'') then st\<lparr>ss_local := saveUserId api (ss_local st) (opt_get user ''id'')\<rparr> else st)"

definition handleLoginSuccess ::
  "'st transfer_storage \<Rightarrow> jsval \<Rightarrow> jsstr option \<Rightarrow> 'st session_state \<Rightarrow> 'st session_state" where
  "handleLoginSuccess api userData redirectTo st0 =
     (let transition = Suc (ss_transition st0);
          st = cancelSelfRequests (st0\<lparr>ss_transition := transition\<rparr>);
          st = st\<lparr>ss_local := removeUserId api (ss_local st)\<rparr>
      in case setUser api JNull st of
           None \<Rightarrow> log_session HandlerThrew st
         | Some st \<Rightarrow>
           (let st = save_id api userData st; targetPath = normalizeAuthRedirect redirectTo in
            if starts_with targetPath (js ''/api/'') then log_session (LeftFor targetPath) st
            else ask_self (LoginAsks transition targetPath) st))"

definition login_answered ::
  "'st transfer_storage \<Rightarrow> nat \<Rightarrow> jsstr \<Rightarrow> jsval + jsval \<Rightarrow> 'st session_state \<Rightarrow> 'st session_state" where
  "login_answered api transition targetPath r st =
     (case r of
        Inl e \<Rightarrow> log_session (WentTo targetPath) (log_session SelfFailed st)
      | Inr self \<Rightarrow>
          if transition \<noteq> ss_transition st then st
          else (case answered_user self of
            None \<Rightarrow> log_session (WentTo targetPath) st
          | Some user \<Rightarrow>
            (case setUser api user st of
               None \<Rightarrow> log_session (WentTo targetPath) (log_session SelfFailed st)
             | Some st \<Rightarrow>
               (let st = save_id api user st in
                case getSavedLanguage user of
                  Some savedLang \<Rightarrow>
                    if savedLang \<noteq> [] \<and> savedLang \<noteq> ss_language st
                    then st\<lparr>ss_languages := ss_languages st @ [(savedLang, targetPath)]\<rparr>
                    else log_session (WentTo targetPath) st
                | None \<Rightarrow> log_session (WentTo targetPath) st))))"

text \<open>The language is loaded, or failed to; either way the login goes on to its target.\<close>

definition language_loaded :: "jsstr \<Rightarrow> jsstr \<Rightarrow> bool \<Rightarrow> 'st session_state \<Rightarrow> 'st session_state" where
  "language_loaded lang targetPath ok st =
     log_session (WentTo targetPath)
       ((if ok then st\<lparr>ss_language := lang\<rparr> else st)\<lparr>ss_languages := remove1 (lang, targetPath) (ss_languages st)\<rparr>)"

definition redirectToLogin :: "jsstr option \<Rightarrow> 'st session_state \<Rightarrow> 'st session_state" where
  "redirectToLogin target st =
     (let path = normalizeAuthRedirect target in
      log_session (if starts_with path (js ''/api/'') then LeftFor path else WentTo path) st)"

text \<open>The answer to a second factor; \<open>remembered\<close> is what \<open>consumeAuthRedirect\<close> returns.\<close>

definition otp_answered ::
  "'st transfer_storage \<Rightarrow> jsval + jsval \<Rightarrow> jsstr option \<Rightarrow> 'st session_state \<Rightarrow> 'st session_state" where
  "otp_answered api r remembered st =
     (case r of Inl e \<Rightarrow> log_session OtpFailed st
      | Inr res \<Rightarrow>
        (case answered_user res of None \<Rightarrow> log_session OtpFailed st
         | Some userData \<Rightarrow>
           (case setUser api userData st of None \<Rightarrow> log_session OtpFailed st
            | Some st \<Rightarrow> redirectToLogin remembered (save_id api userData st))))"

subsection \<open>Guards and readers\<close>

definition guard_start :: "jsstr \<Rightarrow> 'st session_state \<Rightarrow> 'st session_state" where
  "guard_start location st =
     (if \<not> truthy (ss_user st) then log_session (SignInFirst location) st
      else if \<not> strict_eq (ss_verified st) (obj_get (ss_user st) (js ''id'')) then ask_self (GuardAsks location) st
      else log_session (Entered location) st)"

definition self_or_null :: "jsval + jsval \<Rightarrow> jsval" where
  "self_or_null r = (case r of Inl e \<Rightarrow> JNull | Inr v \<Rightarrow> v)"

definition guard_answered ::
  "'st transfer_storage \<Rightarrow> jsstr \<Rightarrow> jsval + jsval \<Rightarrow> 'st session_state \<Rightarrow> 'st session_state" where
  "guard_answered api location r st =
     (case answered_user (self_or_null r) of
        Some user \<Rightarrow>
          (case setUser api user st of None \<Rightarrow> log_session HandlerThrew st
           | Some st \<Rightarrow>
             log_session (Entered location) (st\<lparr>ss_verified := JNum (to_num (obj_get user (js ''id'')))\<rparr>))
      | None \<Rightarrow>
          (case auth_reset api st of None \<Rightarrow> log_session HandlerThrew st
           | Some st \<Rightarrow> log_session (SignInFirst location) (st\<lparr>ss_verified := JNull\<rparr>)))"

definition desktop_start :: "jsstr \<Rightarrow> 'st session_state \<Rightarrow> 'st session_state" where
  "desktop_start location st =
     (if \<not> truthy (ss_user st) then log_session (SignInFirst location) st else ask_self (DesktopAsks location) st)"

definition desktop_answered ::
  "'st transfer_storage \<Rightarrow> jsstr \<Rightarrow> jsval + jsval \<Rightarrow> 'st session_state \<Rightarrow> 'st session_state" where
  "desktop_answered api location r st =
     (case answered_user (self_or_null r) of
        None \<Rightarrow>
          (case auth_reset api st of None \<Rightarrow> log_session HandlerThrew st
           | Some st \<Rightarrow> log_session (SignInFirst location) st)
      | Some user \<Rightarrow>
          (case setUser api user st of None \<Rightarrow> log_session HandlerThrew st
           | Some st \<Rightarrow> log_session (Entered location) st))"

definition loadActiveAuthSession :: "jsval + jsval \<Rightarrow> jsval option" where
  "loadActiveAuthSession r =
     (case r of Inl e \<Rightarrow> None
      | Inr response \<Rightarrow>
        (let userID = to_num (opt_get (opt_get response ''data'') ''id'') in
         if \<not> truthy (opt_get response ''success'') \<or> \<not> is_safe_integer userID \<or> num_le userID (num_int 0) then None
         else Some (opt_get response ''data'')))"

text \<open>The pages for signing in and up check their redirect differently.\<close>

definition sign_in_target :: "jsstr option \<Rightarrow> jsstr" where
  "sign_in_target redirect = (case redirect of Some t \<Rightarrow> if t = [] then js ''/dashboard'' else t | None \<Rightarrow> js ''/dashboard'')"

definition sign_up_target :: "jsstr option \<Rightarrow> jsstr" where
  "sign_up_target redirect =
     (case redirect of
        Some t \<Rightarrow> if t \<noteq> [] \<and> starts_with t (js ''/'') \<and> \<not> starts_with t (js ''//'') then t else js ''/dashboard''
      | None \<Rightarrow> js ''/dashboard'')"

definition route_start :: "jsstr \<Rightarrow> 'st session_state \<Rightarrow> 'st session_state" where
  "route_start target st = (if truthy (ss_user st) then ask_self (RouteAsks target) st else log_session FormShown st)"

definition route_answered ::
  "'st transfer_storage \<Rightarrow> jsstr \<Rightarrow> jsval + jsval \<Rightarrow> 'st session_state \<Rightarrow> 'st session_state" where
  "route_answered api target r st =
     (case loadActiveAuthSession r of
        None \<Rightarrow>
          (case auth_reset api st of None \<Rightarrow> log_session HandlerThrew st
           | Some st \<Rightarrow> log_session FormShown st)
      | Some sessionUser \<Rightarrow>
          (case setUser api sessionUser st of None \<Rightarrow> log_session HandlerThrew st
           | Some st \<Rightarrow> log_session (WentTo target) st))"

definition wallet_failed :: "'st session_state \<Rightarrow> 'st session_state" where
  "wallet_failed st =
     st\<lparr>ss_wallet_error := True, ss_wallet := (if truthy (ss_wallet st) then ss_wallet st else ss_user st)\<rparr>"

definition fetchUser_answered ::
  "'st transfer_storage \<Rightarrow> jsval + jsval \<Rightarrow> 'st session_state \<Rightarrow> 'st session_state" where
  "fetchUser_answered api r st =
     (case answered_user (self_or_null r) of
        None \<Rightarrow> wallet_failed st
      | Some user \<Rightarrow>
        (let st = st\<lparr>ss_wallet_error := False, ss_wallet := user\<rparr> in
         case setUser api user st of None \<Rightarrow> wallet_failed st | Some st \<Rightarrow> st))"

subsection \<open>The sign-out\<close>

text \<open>The dialog cancels, and \<open>logout\<close> cancels again.\<close>

definition sign_out_start :: "'st session_state \<Rightarrow> 'st session_state" where
  "sign_out_start st = cancelSelfRequests (cancelSelfRequests st)"

definition sign_out_answered :: "'st transfer_storage \<Rightarrow> 'st session_state \<Rightarrow> 'st session_state" where
  "sign_out_answered api st =
     (case auth_reset api st of None \<Rightarrow> log_session HandlerThrew st
      | Some st \<Rightarrow>
        log_session Reloaded (log_session SignedOutNotice (st\<lparr>ss_local := removeUserId api (ss_local st)\<rparr>)))"

text \<open>A loaded page starts with the stored user and no memory.\<close>

definition load_page :: "'st transfer_storage \<Rightarrow> 'st session_state \<Rightarrow> 'st session_state" where
  "load_page api st =
     (case initUser api (ss_local st) of None \<Rightarrow> log_session HandlerThrew st
      | Some (l, u) \<Rightarrow>
        st\<lparr>ss_user := u, ss_local := l, ss_transition := 0, ss_generation := 0, ss_next := 0, ss_requests := [],
           ss_controllers := [], ss_aborted := [], ss_languages := [], ss_verified := JNull, ss_wallet := JNull,
           ss_wallet_error := False\<rparr>)"

subsection \<open>Events\<close>

text \<open>\<open>LoginSent\<close> is the beginning of a login or of a second factor. A login that succeeds names the account of the new
  cookie; so does a second factor that does. \<open>SignOutDone\<close> says whether the server ended the session;
  \<open>SessionChanged\<close> is a session that expires or is replaced without the page's doing.\<close>

datatype session_event =
    LoginSent
  | LoginDone nat jsval "jsstr option"
  | LanguageDone jsstr jsstr bool
  | OtpDone "nat option" "jsval + jsval" "jsstr option"
  | GuardEntered jsstr
  | SignInEntered "jsstr option"
  | SignUpEntered "jsstr option"
  | DesktopEntered jsstr
  | WalletOpened
  | SelfDone nat "jsval + jsval"
  | SignOutPressed
  | SignOutDone bool
  | SessionChanged "nat option"
  | PageLoaded

fun self_continue ::
  "'st transfer_storage \<Rightarrow> self_asker \<Rightarrow> jsval + jsval \<Rightarrow> 'st session_state \<Rightarrow> 'st session_state" where
  "self_continue api (LoginAsks transition target) r st = login_answered api transition target r st"
| "self_continue api (GuardAsks location) r st = guard_answered api location r st"
| "self_continue api (RouteAsks target) r st = route_answered api target r st"
| "self_continue api (DesktopAsks location) r st = desktop_answered api location r st"
| "self_continue api WalletAsks r st = fetchUser_answered api r st"

definition request_of :: "'st session_state \<Rightarrow> nat \<Rightarrow> self_request option" where
  "request_of st i = List.find (\<lambda>q. sr_id q = i) (ss_requests st)"

text \<open>The answer to a question: \<open>getSelf\<close> takes its controller out of the set and the asker goes on.\<close>

definition without_request :: "nat \<Rightarrow> 'st session_state \<Rightarrow> 'st session_state" where
  "without_request i st = st\<lparr>ss_requests := filter (\<lambda>q. sr_id q \<noteq> i) (ss_requests st),
     ss_controllers := filter (\<lambda>c. c \<noteq> i) (ss_controllers st)\<rparr>"

definition self_done ::
  "'st transfer_storage \<Rightarrow> nat \<Rightarrow> jsval + jsval \<Rightarrow> 'st session_state \<Rightarrow> 'st session_state" where
  "self_done api i r st =
     (case request_of st i of None \<Rightarrow> st
      | Some q \<Rightarrow>
        self_continue api (sr_asker q) (self_result q r st) (without_request i st))"

fun session_step :: "'st transfer_storage \<Rightarrow> 'st session_state \<Rightarrow> session_event \<Rightarrow> 'st session_state" where
  "session_step api st LoginSent = cancelSelfRequests st"
| "session_step api st (LoginDone a userData redirectTo) =
     handleLoginSuccess api userData redirectTo (st\<lparr>ss_session := Some a\<rparr>)"
| "session_step api st (LanguageDone lang target ok) =
     (if (lang, target) \<in> set (ss_languages st) then language_loaded lang target ok st else st)"
| "session_step api st (OtpDone a r remembered) =
     otp_answered api r remembered (case a of None \<Rightarrow> st | Some n \<Rightarrow> st\<lparr>ss_session := Some n\<rparr>)"
| "session_step api st (GuardEntered location) = guard_start location st"
| "session_step api st (SignInEntered redirect) = route_start (sign_in_target redirect) st"
| "session_step api st (SignUpEntered redirect) = route_start (sign_up_target redirect) st"
| "session_step api st (DesktopEntered location) = desktop_start location st"
| "session_step api st WalletOpened = ask_self WalletAsks st"
| "session_step api st (SelfDone i r) = self_done api i r st"
| "session_step api st SignOutPressed = sign_out_start st"
| "session_step api st (SignOutDone ended) = sign_out_answered api (if ended then st\<lparr>ss_session := None\<rparr> else st)"
| "session_step api st (SessionChanged a) = st\<lparr>ss_session := a\<rparr>"
| "session_step api st PageLoaded = load_page api st"


section \<open>Properties of the session\<close>

subsection \<open>Honest histories\<close>

text \<open>What the server promises: an answer names the account of the cookie the question was sent with, a login and a
  second factor name the account of the new cookie. Nothing is asked of the order of events or of the storage.\<close>

definition account_id :: "nat \<Rightarrow> jsval" where
  "account_id a = JNum (num_int (int a))"

definition names_account :: "nat \<Rightarrow> jsval \<Rightarrow> bool" where
  "names_account a v \<longleftrightarrow> plain v \<and> truthy v \<and> opt_get v ''id'' = account_id a"

definition quiet :: "'st session_state \<Rightarrow> bool" where
  "quiet st \<longleftrightarrow> (\<forall>q \<in> set (ss_requests st). sr_generation q \<noteq> ss_generation st)"

definition succeeds :: "jsval \<Rightarrow> bool" where
  "succeeds v \<longleftrightarrow> truthy (opt_get v ''success'')"

definition user_fits :: "nat \<Rightarrow> jsval \<Rightarrow> bool" where
  "user_fits quota u \<longleftrightarrow> length USER_KEY + length (json_print u) \<le> quota \<and>
     length USER_ID + length (to_str (opt_get u ''id'')) \<le> quota"

fun honest :: "'st session_state \<Rightarrow> session_event \<Rightarrow> bool" where
  "honest st (LoginDone a userData r) = (truthy (opt_get userData ''id'') \<longrightarrow> opt_get userData ''id'' = account_id a)"
| "honest st (SelfDone i (Inr v)) =
     (\<forall>q \<in> set (ss_requests st). sr_id q = i \<and> succeeds v \<longrightarrow>
        (\<exists>a. sr_account q = Some a \<and> names_account a (opt_get v ''data'')))"
| "honest st (OtpDone None (Inr v) r) = (\<not> succeeds v)"
| "honest st (OtpDone (Some a) (Inr v) r) = (succeeds v \<and> names_account a (opt_get v ''data'') \<and> 0 < a)"
| "honest st e = True"

text \<open>What can put the page out of step with the session: a sign-out or a second factor that is answered while a question of
  the present generation is in flight, a second factor whose answer is lost or whose user the storage refuses, and a
  session that changes by itself. Every login, and every other sign-out or second factor, brings them together again.\<close>

fun disturbed :: "nat \<Rightarrow> 'st session_state \<Rightarrow> bool \<Rightarrow> session_event \<Rightarrow> bool" where
  "disturbed quota st b (LoginDone a userData r) = False"
| "disturbed quota st b (SignOutDone True) = (\<not> quiet st)"
| "disturbed quota st b (OtpDone (Some a) (Inl e) r) = True"
| "disturbed quota st b (OtpDone (Some a) (Inr v) r) = (\<not> (user_fits quota (opt_get v ''data'') \<and> quiet st))"
| "disturbed quota st b (SessionChanged a) = (b \<or> a \<noteq> ss_session st)"
| "disturbed quota st b e = b"

definition fresh_page :: "jsstr \<Rightarrow> (jsstr \<rightharpoonup> jsstr) \<Rightarrow> (jsstr \<rightharpoonup> jsstr) session_state" where
  "fresh_page lang m =
     \<lparr>ss_user = JNull, ss_local = m, ss_language = lang, ss_transition = 0, ss_generation = 0, ss_next = 0,
      ss_requests = [], ss_controllers = [], ss_aborted = [], ss_languages = [], ss_verified = JNull,
      ss_wallet = JNull, ss_wallet_error = False, ss_log = [], ss_session = None\<rparr>"

text \<open>A reachable state, with the accounts the browser's session has had and whether the page is out of step.\<close>

inductive session_reach :: "nat \<Rightarrow> nat set \<Rightarrow> bool \<Rightarrow> (jsstr \<rightharpoonup> jsstr) session_state \<Rightarrow> bool" for quota where
  fresh: "m USER_KEY = None \<Longrightarrow> m USER_ID = None \<Longrightarrow> session_reach quota {} False (fresh_page lang m)"
| stepped: "session_reach quota seen b st \<Longrightarrow> honest st e \<Longrightarrow>
    session_reach quota (seen \<union> set_option (ss_session (session_step (session_storage quota) st e)))
      (disturbed quota st b e) (session_step (session_storage quota) st e)"

subsection \<open>The invariant\<close>

text \<open>Store, storage and answers that may still count name nobody outside \<open>A\<close>.\<close>

definition identity_ok :: "nat set \<Rightarrow> (jsstr \<rightharpoonup> jsstr) session_state \<Rightarrow> bool" where
  "identity_ok A st \<longleftrightarrow>
     (if truthy (ss_user st)
      then (\<exists>a \<in> A. names_account a (ss_user st)) \<and> ss_local st USER_KEY = Some (json_print (ss_user st))
      else ss_user st = JNull \<and> ss_local st USER_KEY = None) \<and>
     (\<forall>t. ss_local st USER_ID = Some t \<longrightarrow> (\<exists>a \<in> A. t = to_str (account_id a)))"

definition requests_ok :: "nat set \<Rightarrow> 'st session_state \<Rightarrow> bool" where
  "requests_ok A st \<longleftrightarrow>
     set_option (ss_session st) \<subseteq> A \<and>
     (\<forall>q \<in> set (ss_requests st). sr_id q < ss_next st \<and> sr_generation q \<le> ss_generation st \<and>
        (sr_generation q = ss_generation st \<longrightarrow> set_option (sr_account q) \<subseteq> A)) \<and>
     distinct (map sr_id (ss_requests st)) \<and>
     ss_controllers st = map sr_id (filter (\<lambda>q. sr_generation q = ss_generation st) (ss_requests st))"

lemma ok_mono: "identity_ok A st \<Longrightarrow> A \<subseteq> B \<Longrightarrow> identity_ok B st" "requests_ok A st \<Longrightarrow> A \<subseteq> B \<Longrightarrow> requests_ok B st"
proof -
  show "identity_ok A st \<Longrightarrow> A \<subseteq> B \<Longrightarrow> identity_ok B st" by (simp add: identity_ok_def split: if_splits) blast+
  show "requests_ok A st \<Longrightarrow> A \<subseteq> B \<Longrightarrow> requests_ok B st" by (simp add: requests_ok_def) blast
qed

text \<open>The part of the state the questions live in.\<close>

definition frame :: "'st session_state \<Rightarrow> nat \<times> nat \<times> self_request list \<times> nat list \<times> nat option" where
  "frame st = (ss_generation st, ss_next st, ss_requests st, ss_controllers st, ss_session st)"

lemma requests_frame: "frame st' = frame st \<Longrightarrow> requests_ok A st \<Longrightarrow> requests_ok A st'"
  by (simp add: frame_def requests_ok_def)

lemma frame_session: "frame st' = frame st \<Longrightarrow> ss_session st' = ss_session st"
  by (simp add: frame_def)

lemma key_apart [simp]: "USER_KEY \<noteq> USER_ID" "USER_ID \<noteq> USER_KEY"
  by (simp_all add: USER_KEY_def USER_ID_def js_inject)

lemma storage_simps [simp]:
  "set_item (session_storage quota) m k v = (if length k + length v \<le> quota then Some (m(k \<mapsto> v)) else None)"
  "remove_item (session_storage quota) m k = Some (m(k := None))"
  "get_item (session_storage quota) m k = Some (m k)"
  by (simp_all add: session_storage_def)

lemma log_ok [simp]:
  "identity_ok A (log_session e st) = identity_ok A st" "frame (log_session e st) = frame st"
  by (simp_all add: log_session_def identity_ok_def frame_def)

lemma set_named:
  assumes "setUser (session_storage quota) u st = Some st'" and "identity_ok A st"
    and "a \<in> A" and "names_account a u"
  shows "identity_ok A st' \<and> frame st' = frame st \<and> ss_user st' = u"
  using assms by (auto simp: setUser_def identity_ok_def frame_def names_account_def split: if_splits)

lemma reset_ok:
  assumes "identity_ok A st"
  shows "\<exists>st'. auth_reset (session_storage quota) st = Some st' \<and> identity_ok A st' \<and> frame st' = frame st \<and>
    ss_user st' = JNull"
  using assms by (auto simp: auth_reset_def identity_ok_def frame_def split: if_splits)

lemma save_id_ok:
  assumes "identity_ok A st" and "a \<in> A" and "truthy (opt_get u ''id'') \<Longrightarrow> opt_get u ''id'' = account_id a"
  shows "identity_ok A (save_id (session_storage quota) u st) \<and> frame (save_id (session_storage quota) u st) = frame st"
  using assms by (auto simp: save_id_def saveUserId_def or_same_def identity_ok_def frame_def split: if_splits)

lemma ask_ok:
  "identity_ok A (ask_self a st) = identity_ok A st" "requests_ok A st \<Longrightarrow> requests_ok A (ask_self a st)"
  by (auto simp: ask_self_def identity_ok_def requests_ok_def)

lemma cancel_ok:
  "identity_ok A (cancelSelfRequests st) = identity_ok A st" "requests_ok A st \<Longrightarrow> requests_ok A (cancelSelfRequests st)"
  by (auto simp: cancelSelfRequests_def identity_ok_def requests_ok_def filter_empty_conv fun_eq_iff less_Suc_eq_le)

definition keeps :: "nat set \<Rightarrow> (jsstr \<rightharpoonup> jsstr) session_state \<Rightarrow> (jsstr \<rightharpoonup> jsstr) session_state \<Rightarrow> bool" where
  "keeps A st st' \<longleftrightarrow> identity_ok A st' \<and> frame st' = frame st"

definition names_within :: "nat set \<Rightarrow> jsval + jsval \<Rightarrow> bool" where
  "names_within A r \<longleftrightarrow> (\<forall>u. answered_user (self_or_null r) = Some u \<longrightarrow> (\<exists>a \<in> A. names_account a u))"

lemma keeps_log [simp]: "keeps A st (log_session e st') = keeps A st st'"
  by (simp add: keeps_def)

lemma keeps_set:
  assumes "setUser (session_storage quota) u st = Some st'" and "identity_ok A st" and "a \<in> A" and "names_account a u"
  shows "keeps A st st' \<and> keeps A st (save_id (session_storage quota) u st')"
  using set_named [OF assms] save_id_ok [of A st' a u quota] assms(3,4) by (auto simp: keeps_def names_account_def)

lemma keeps_reset:
  assumes "identity_ok A st"
  obtains st' where "auth_reset (session_storage quota) st = Some st'" and "keeps A st st'"
  using reset_ok [OF assms] by (auto simp: keeps_def)

text \<open>Fields the identity and the questions do not depend on.\<close>

lemma keeps_fields [simp]:
  "keeps A st (st'\<lparr>ss_verified := v\<rparr>) = keeps A st st'" "keeps A st (st'\<lparr>ss_languages := l\<rparr>) = keeps A st st'"
  "keeps A st (st'\<lparr>ss_language := t\<rparr>) = keeps A st st'" "keeps A st (st'\<lparr>ss_wallet_error := b, ss_wallet := w\<rparr>) = keeps A st st'"
  "keeps A (st\<lparr>ss_wallet_error := b, ss_wallet := w\<rparr>) st' = keeps A st st'"
  "keeps A (st\<lparr>ss_wallet := w, ss_wallet_error := b\<rparr>) st' = keeps A st st'"
  by (simp_all add: keeps_def identity_ok_def frame_def)

lemma keeps_self [simp]: "keeps A st st = identity_ok A st"
  by (simp add: keeps_def)

lemma identity_fields [simp]:
  "identity_ok A (st\<lparr>ss_wallet_error := b, ss_wallet := w\<rparr>) = identity_ok A st"
  by (simp add: identity_ok_def)

lemma keeps_wallet [simp]: "keeps A st (wallet_failed st') = keeps A st st'"
  by (simp add: wallet_failed_def keeps_def identity_ok_def frame_def)

lemma active_session_answered:
  assumes "loadActiveAuthSession r = Some u"
  shows "answered_user (self_or_null r) = Some u"
proof -
  obtain v where v: "r = Inr v" "truthy (opt_get v ''success'')" "u = opt_get v ''data''"
    "is_safe_integer (to_num (opt_get u ''id''))"
    using assms by (auto simp: loadActiveAuthSession_def Let_def split: sum.splits if_splits)
  have "truthy u" using v(4) by (cases u) (auto simp: opt_get_def)
  with v show ?thesis by (simp add: answered_user_def self_or_null_def)
qed

lemma login_answered_keeps:
  assumes "identity_ok A st" and "names_within A r"
  shows "keeps A st (login_answered (session_storage quota) k target r st)"
proof (cases r)
  case (Inl e)
  then show ?thesis using assms by (simp add: login_answered_def)
next
  case (Inr v)
  show ?thesis
  proof (cases "k = ss_transition st \<and> answered_user v \<noteq> None")
    case False
    then show ?thesis using assms Inr by (auto simp: login_answered_def)
  next
    case True
    then obtain u a where u: "answered_user v = Some u" "a \<in> A" "names_account a u"
      using assms(2) Inr by (auto simp: names_within_def self_or_null_def)
    show ?thesis
    proof (cases "setUser (session_storage quota) u st")
      case None
      then show ?thesis using True u assms Inr by (simp add: login_answered_def)
    next
      case (Some st')
      show ?thesis using keeps_set [OF Some assms(1) u(2,3)] True u Inr Some
        by (simp add: login_answered_def Let_def split: option.split)
    qed
  qed
qed

lemma guard_answered_keeps:
  assumes "identity_ok A st" and "names_within A r"
  shows "keeps A st (guard_answered (session_storage quota) target r st)"
    and "keeps A st (desktop_answered (session_storage quota) target r st)"
    and "keeps A st (route_answered (session_storage quota) target r st)"
    and "keeps A st (fetchUser_answered (session_storage quota) r st)"
proof -
  obtain st0 where r: "auth_reset (session_storage quota) st = Some st0" "keeps A st st0"
    using keeps_reset [OF assms(1)] .
  have s: "keeps A st st'" if "answered_user (self_or_null r) = Some u" "setUser (session_storage quota) u st = Some st'" for u st'
    using that keeps_set [OF that(2) assms(1)] assms(2) by (auto simp: names_within_def)
  have w: "keeps A st st'"
    if "answered_user (self_or_null r) = Some u"
      "setUser (session_storage quota) u (st\<lparr>ss_wallet_error := b, ss_wallet := x\<rparr>) = Some st'" for u st' x b
    using that keeps_set [OF that(2)] assms by (auto simp: names_within_def)
  show "keeps A st (guard_answered (session_storage quota) target r st)"
    using r s assms(1) by (auto simp: guard_answered_def split: option.split)
  show "keeps A st (desktop_answered (session_storage quota) target r st)"
    using r s assms(1) by (auto simp: desktop_answered_def split: option.split)
  show "keeps A st (route_answered (session_storage quota) target r st)"
    using r s assms(1) active_session_answered [of r] by (auto simp: route_answered_def split: option.split)
  show "keeps A st (fetchUser_answered (session_storage quota) r st)"
    using w assms(1) by (auto simp: fetchUser_answered_def Let_def split: option.split)
qed

lemma continue_keeps:
  "identity_ok A st \<Longrightarrow> names_within A r \<Longrightarrow> keeps A st (self_continue (session_storage quota) a r st)"
  by (cases a) (simp_all add: login_answered_keeps guard_answered_keeps)

lemma request_of_in: "request_of st i = Some q \<Longrightarrow> q \<in> set (ss_requests st) \<and> sr_id q = i"
  by (auto simp: request_of_def find_Some_iff)

text \<open>An answer with an old generation names nobody.\<close>

lemma stale_result: "sr_generation q \<noteq> ss_generation st \<Longrightarrow> answered_user (self_or_null (self_result q r st)) = None"
  by (auto simp: self_result_def self_or_null_def answered_user_def session_changed_def opt_get_def js_inject split: sum.split)

lemma without_request_ok:
  "identity_ok A (without_request i st) = identity_ok A st" "requests_ok A st \<Longrightarrow> requests_ok A (without_request i st)"
  by (auto simp: without_request_def identity_ok_def requests_ok_def distinct_map_filter filter_map comp_def
    conj_commute)

lemma start_session [simp]:
  "ss_session (log_session x st) = ss_session st" "ss_session (ask_self a st) = ss_session st"
  "ss_session (cancelSelfRequests st) = ss_session st"
  by (simp_all add: log_session_def ask_self_def cancelSelfRequests_def)

lemma self_done_ok:
  assumes "identity_ok A st" and "requests_ok A st" and "honest st (SelfDone i r)"
  shows "identity_ok A (self_done (session_storage quota) i r st) \<and> requests_ok A (self_done (session_storage quota) i r st) \<and>
    ss_session (self_done (session_storage quota) i r st) = ss_session st"
proof (cases "request_of st i")
  case None
  then show ?thesis using assms by (simp add: self_done_def)
next
  case (Some q)
  have q: "q \<in> set (ss_requests st)" "sr_id q = i" using request_of_in [OF Some] by auto
  have "names_within A (self_result q r st)"
  proof (cases "sr_generation q = ss_generation st")
    case False
    then show ?thesis by (simp add: names_within_def stale_result)
  next
    case True
    then have "set_option (sr_account q) \<subseteq> A" using assms(2) q by (auto simp: requests_ok_def)
    moreover have "\<exists>a. sr_account q = Some a \<and> names_account a (opt_get v ''data'')" if "r = Inr v" "succeeds v" for v
      using assms(3) q that by auto
    ultimately have "\<exists>a \<in> A. names_account a (opt_get v ''data'')" if "r = Inr v" "succeeds v" for v
      using that by fastforce
    moreover have null: "\<not> truthy (opt_get JNull x)" for x by (simp add: opt_get_def)
    ultimately show ?thesis using True
      by (cases r) (auto simp: names_within_def self_result_def self_or_null_def answered_user_def succeeds_def
        null split: if_splits)
  qed
  then have "keeps A (without_request i st) (self_done (session_storage quota) i r st)"
    using continue_keeps without_request_ok(1) [of A i st] assms(1) by (simp add: self_done_def Some)
  moreover have "ss_session (without_request i st) = ss_session st" by (simp add: without_request_def)
  ultimately show ?thesis using without_request_ok(2) [OF assms(2), of i] requests_frame [of "self_done (session_storage quota) i r st" "without_request i st"]
      frame_session [of "self_done (session_storage quota) i r st" "without_request i st"]
    by (simp add: keeps_def)
qed

lemma id_fits:
  assumes "length USER_ID + length (to_str (opt_get u ''id'')) \<le> quota" and "truthy (opt_get u ''id'')"
  shows "ss_local (save_id (session_storage quota) u st) = (ss_local st)(USER_ID \<mapsto> to_str (opt_get u ''id''))"
  using assms by (simp add: save_id_def saveUserId_def or_same_def)

lemma account_id_truthy: "0 < a \<Longrightarrow> truthy (account_id a)"
  by (auto simp: account_id_def num_truthy_def num_int_def)

text \<open>A login empties store and identifier before it names anyone.\<close>

lemma login_ok:
  assumes "requests_ok B st" and "truthy (opt_get d ''id'') \<Longrightarrow> opt_get d ''id'' = account_id a"
  shows "identity_ok {a} (handleLoginSuccess (session_storage quota) d redirectTo (st\<lparr>ss_session := Some a\<rparr>)) \<and>
    requests_ok {a} (handleLoginSuccess (session_storage quota) d redirectTo (st\<lparr>ss_session := Some a\<rparr>)) \<and>
    ss_session (handleLoginSuccess (session_storage quota) d redirectTo (st\<lparr>ss_session := Some a\<rparr>)) = Some a"
proof -
  let ?api = "session_storage quota"
  define st1 where "st1 = cancelSelfRequests (st\<lparr>ss_session := Some a, ss_transition := Suc (ss_transition st)\<rparr>)"
  define st2 where "st2 = st1\<lparr>ss_local := (removeUserId ?api (ss_local st1))(USER_KEY := None), ss_user := JNull\<rparr>"
  define st3 where "st3 = save_id ?api d st2"
  have "identity_ok {a} st2" by (simp add: st2_def identity_ok_def removeUserId_def or_same_def)
  moreover have r2: "requests_ok {a} st2" using assms(1)
    by (auto simp: st2_def st1_def cancelSelfRequests_def requests_ok_def filter_empty_conv less_Suc_eq_le)
  ultimately have i: "identity_ok {a} st3" "requests_ok {a} st3" "ss_session st3 = Some a"
    using save_id_ok [of "{a}" st2 a d quota] requests_frame [of st3 st2] assms(2)
    by (simp_all add: st3_def st2_def st1_def cancelSelfRequests_def save_id_def)
  have "handleLoginSuccess ?api d redirectTo (st\<lparr>ss_session := Some a\<rparr>) =
    (let t = normalizeAuthRedirect redirectTo in
     if starts_with t (js ''/api/'') then log_session (LeftFor t) st3 else ask_self (LoginAsks (Suc (ss_transition st)) t) st3)"
    by (simp add: handleLoginSuccess_def setUser_def Let_def st3_def st2_def st1_def)
  moreover have "ss_session (log_session x st3) = Some a" "ss_session (ask_self y st3) = Some a" for x y
    using i(3) by (simp_all add: log_session_def ask_self_def)
  ultimately show ?thesis using i requests_frame [of "log_session _ st3" st3]
    by (simp add: Let_def ask_ok)
qed

lemma requests_session:
  "requests_ok A st \<Longrightarrow> set_option x \<subseteq> A \<Longrightarrow> requests_ok A (st\<lparr>ss_session := x\<rparr>)"
  "identity_ok A (st\<lparr>ss_session := x\<rparr>) = identity_ok A st"
  by (auto simp: requests_ok_def identity_ok_def)

text \<open>A second factor, whatever is in flight and whether or not the storage accepts the user.\<close>

lemma otp_ok:
  assumes "identity_ok A st" and "requests_ok A st" and "honest st (OtpDone a r remembered)"
  shows "let st' = session_step (session_storage quota) st (OtpDone a r remembered); A' = A \<union> set_option a in
    identity_ok A' st' \<and> requests_ok A' st' \<and> ss_session st' = (if a = None then ss_session st else a)"
proof -
  let ?A = "A \<union> set_option a"
  define st1 where "st1 = (case a of None \<Rightarrow> st | Some n \<Rightarrow> st\<lparr>ss_session := Some n\<rparr>)"
  have m: "identity_ok ?A st" "requests_ok ?A st" using assms(1,2) by (auto intro: ok_mono)
  have ok: "identity_ok ?A st1" "requests_ok ?A st1"
    using m requests_session(1) [OF m(2), of a] by (auto simp: st1_def requests_session(2) split: option.split)
  have s: "ss_session st1 = (if a = None then ss_session st else a)" by (simp add: st1_def split: option.split)
  have "keeps ?A st1 (otp_answered (session_storage quota) r remembered st1)"
  proof (cases "\<exists>v u. r = Inr v \<and> answered_user v = Some u")
    case False
    then show ?thesis using ok by (auto simp: otp_answered_def split: sum.split option.split)
  next
    case True
    then obtain v u where v: "r = Inr v" "answered_user v = Some u" by blast
    then have u: "succeeds v" "u = opt_get v ''data''" by (auto simp: answered_user_def succeeds_def split: if_splits)
    then obtain n where n: "a = Some n" "names_account n u" using assms(3) v by (cases a) auto
    show ?thesis
    proof (cases "setUser (session_storage quota) u st1")
      case None
      then show ?thesis using ok v by (simp add: otp_answered_def)
    next
      case (Some st2)
      then show ?thesis using keeps_set [OF Some ok(1) _ n(2)] n(1) v
        by (simp add: otp_answered_def redirectToLogin_def Let_def)
    qed
  qed
  then have "identity_ok ?A (otp_answered (session_storage quota) r remembered st1)"
    "requests_ok ?A (otp_answered (session_storage quota) r remembered st1)"
    "ss_session (otp_answered (session_storage quota) r remembered st1) = ss_session st1"
    using requests_frame [OF _ ok(2)] frame_session by (auto simp: keeps_def)
  moreover have "session_step (session_storage quota) st (OtpDone a r remembered) =
    otp_answered (session_storage quota) r remembered st1" by (simp add: st1_def)
  ultimately show ?thesis using s by (simp add: Let_def del: session_step.simps)
qed

text \<open>With nothing in flight and room in the storage, nothing is left of the former account.\<close>

lemma otp_exact:
  assumes "requests_ok B st" and "honest st (OtpDone (Some n) (Inr v) remembered)"
    and "user_fits quota (opt_get v ''data'')" and "quiet st"
  shows "identity_ok {n} (session_step (session_storage quota) st (OtpDone (Some n) (Inr v) remembered)) \<and>
    requests_ok {n} (session_step (session_storage quota) st (OtpDone (Some n) (Inr v) remembered)) \<and>
    ss_session (session_step (session_storage quota) st (OtpDone (Some n) (Inr v) remembered)) = Some n"
proof -
  define u where "u = opt_get v ''data''"
  have u: "names_account n u" "0 < n" "user_fits quota u" "answered_user v = Some u"
    using assms(2,3) by (auto simp: u_def answered_user_def succeeds_def names_account_def)
  define st1 where "st1 = st\<lparr>ss_session := Some n, ss_local := (ss_local st)(USER_KEY \<mapsto> json_print u), ss_user := u\<rparr>"
  define st2 where "st2 = save_id (session_storage quota) u st1"
  have set: "setUser (session_storage quota) u (st\<lparr>ss_session := Some n\<rparr>) = Some st1"
    using u by (simp add: setUser_def st1_def names_account_def user_fits_def)
  have "ss_local st2 = (ss_local st1)(USER_ID \<mapsto> to_str (opt_get u ''id''))"
    using u id_fits [of u quota st1] account_id_truthy by (simp add: st2_def user_fits_def names_account_def)
  moreover have "ss_user st2 = u" by (simp add: st2_def st1_def save_id_def)
  ultimately have "identity_ok {n} st2" using u(1) by (simp add: identity_ok_def names_account_def st1_def)
  moreover have "requests_ok {n} st2" using assms(1,4)
    by (auto simp: st2_def st1_def save_id_def requests_ok_def quiet_def)
  ultimately show ?thesis using set u(4) requests_frame [of "log_session _ st2" st2]
    by (simp add: otp_answered_def redirectToLogin_def Let_def st2_def) (simp add: save_id_def st1_def)
qed

lemma sign_out_ok:
  assumes "requests_ok A st"
  shows "identity_ok B (session_step (session_storage quota) st (SignOutDone ended)) \<and>
    (requests_ok A (session_step (session_storage quota) st (SignOutDone ended))) \<and>
    (ended \<and> quiet st \<longrightarrow> requests_ok {} (session_step (session_storage quota) st (SignOutDone ended)))"
  using assms
  by (auto simp: sign_out_answered_def auth_reset_def log_session_def identity_ok_def removeUserId_def or_same_def
    requests_ok_def quiet_def split: if_splits)

lemma load_ok:
  assumes "identity_ok A st" and "requests_ok A st"
  shows "identity_ok A (load_page (session_storage quota) st) \<and> requests_ok A (load_page (session_storage quota) st) \<and>
    ss_session (load_page (session_storage quota) st) = ss_session st"
proof (cases "truthy (ss_user st)")
  case True
  then have p: "plain (ss_user st)" "ss_local st USER_KEY = Some (json_print (ss_user st))"
    using assms by (auto simp: identity_ok_def names_account_def)
  have "json_parse [] = None" by code_simp
  then have "json_print (ss_user st) \<noteq> []" "json_parse (json_print (ss_user st)) = Some (ss_user st)"
    using json_roundtrip [OF p(1)] by auto
  then show ?thesis using assms p True by (simp add: load_page_def initUser_def identity_ok_def requests_ok_def)
next
  case False
  then show ?thesis using assms by (simp add: load_page_def initUser_def identity_ok_def requests_ok_def)
qed

text \<open>Every other event leaves the session alone and names nobody new.\<close>

fun keeps_session :: "session_event \<Rightarrow> bool" where
  "keeps_session (LoginDone a d r) = False"
| "keeps_session (OtpDone a r t) = False"
| "keeps_session (SignOutDone ended) = False"
| "keeps_session (SessionChanged a) = False"
| "keeps_session e = True"

lemma kept_step_ok:
  assumes "identity_ok A st" and "requests_ok A st" and "honest st e" and "keeps_session e"
  shows "let st' = session_step (session_storage quota) st e in
    identity_ok A st' \<and> requests_ok A st' \<and> ss_session st' = ss_session st"
proof -
  have l: "requests_ok A (log_session x st)" for x using assms(2) requests_frame [of "log_session x st" st] by simp
  show ?thesis
  proof (cases e)
    case (LanguageDone lang target loaded)
    then show ?thesis using assms
      by (auto simp: language_loaded_def log_session_def identity_ok_def requests_ok_def)
  next
    case (SelfDone i r)
    then show ?thesis using self_done_ok [OF assms(1,2)] assms(3) by simp
  next
    case PageLoaded
    then show ?thesis using load_ok [OF assms(1,2)] by simp
  qed (use assms l in \<open>simp_all add: ask_ok cancel_ok guard_start_def route_start_def desktop_start_def sign_out_start_def\<close>)
qed

lemma session_within: "requests_ok A st \<Longrightarrow> set_option (ss_session st) \<subseteq> A"
  by (simp add: requests_ok_def)

lemma session_step_ok:
  assumes "identity_ok A st" and "requests_ok A st" and "honest st e"
  shows "let st' = session_step (session_storage quota) st e; A' = A \<union> set_option (ss_session st') in
    identity_ok A' st' \<and> requests_ok A' st'"
proof (cases "keeps_session e")
  case True
  then show ?thesis using kept_step_ok [OF assms True, of quota] assms(2)
    by (simp add: Let_def Un_absorb2 session_within del: session_step.simps)
next
  case False
  then show ?thesis
  proof (cases e)
    case (LoginDone a d r)
    then show ?thesis using login_ok [OF assms(2), of d a quota r] assms(3) by (auto simp: Let_def intro: ok_mono)
  next
    case (OtpDone a r t)
    then show ?thesis using otp_ok [OF assms(1,2), of a r t quota] assms(2,3)
      by (cases a) (auto simp: Let_def Un_absorb2 session_within simp del: session_step.simps)
  next
    case (SignOutDone ended)
    then show ?thesis using sign_out_ok [OF assms(2), of _ quota ended] by (auto simp: Let_def intro: ok_mono simp del: session_step.simps)
  next
    case (SessionChanged a)
    then show ?thesis using ok_mono(1) [OF assms(1), of "A \<union> set_option a"] ok_mono(2) [OF assms(2), of "A \<union> set_option a"]
        requests_session(1) [of "A \<union> set_option a" st a]
      by (simp add: Let_def requests_session(2))
  qed simp_all
qed

lemma step_exact:
  assumes "requests_ok A st" and "\<not> b \<Longrightarrow> identity_ok (set_option (ss_session st)) st \<and> requests_ok (set_option (ss_session st)) st"
    and "honest st e" and "\<not> disturbed quota st b e"
  shows "let st' = session_step (session_storage quota) st e; S = set_option (ss_session st') in identity_ok S st' \<and> requests_ok S st'"
proof (cases "keeps_session e")
  case True
  then have "\<not> b" using assms(4) by (cases e) auto
  then have "identity_ok (set_option (ss_session st)) st" "requests_ok (set_option (ss_session st)) st" using assms(2) by auto
  from kept_step_ok [OF this assms(3) True, of quota] show ?thesis by (simp add: Let_def del: session_step.simps)
next
  case False
  then show ?thesis
  proof (cases e)
    case (LoginDone a d r)
    then show ?thesis using login_ok [OF assms(1), of d a quota r] assms(3) by (simp add: Let_def)
  next
    case (OtpDone a r t)
    show ?thesis
    proof (cases a)
      case None
      then show ?thesis using OtpDone otp_ok [of _ st a r t quota] assms(2-4) by (auto simp: Let_def)
    next
      case (Some n)
      then obtain v where v: "r = Inr v" "user_fits quota (opt_get v ''data'')" "quiet st"
        using OtpDone assms(4) by (cases r) auto
      then show ?thesis using OtpDone Some otp_exact [OF assms(1), of n v t quota] assms(3)
        by (simp add: Let_def del: session_step.simps)
    qed
  next
    case (SignOutDone ended)
    then show ?thesis using sign_out_ok [OF assms(1), of _ quota ended] sign_out_ok [of "set_option (ss_session st)" st _ quota ended] assms(2,4)
      by (cases ended) (auto simp: Let_def sign_out_answered_def auth_reset_def)
  next
    case (SessionChanged a)
    then show ?thesis using assms(2,4) requests_session by (simp add: Let_def)
  qed simp_all
qed

lemma reach_ok:
  assumes "session_reach quota seen b st"
  shows "(identity_ok seen st \<and> requests_ok seen st) \<and>
    (\<not> b \<longrightarrow> identity_ok (set_option (ss_session st)) st \<and> requests_ok (set_option (ss_session st)) st)"
  using assms
proof induction
  case (fresh m lang)
  then show ?case by (simp add: fresh_page_def identity_ok_def requests_ok_def)
next
  case (stepped seen b st e)
  then show ?case using session_step_ok [of seen st e quota] step_exact [of seen st b e quota] by (auto simp: Let_def)
qed

lemma reach_requests: "session_reach quota seen b st \<Longrightarrow> requests_ok seen st"
  using reach_ok by blast

lemma find_append: "List.find P xs = Some x \<Longrightarrow> List.find P (xs @ ys) = Some x"
  by (induction xs) (auto split: if_splits)

lemma find_snoc: "\<forall>y \<in> set xs. \<not> P y \<Longrightarrow> P x \<Longrightarrow> List.find P (xs @ [x]) = Some x"
  by (induction xs) auto

lemma request_found:
  assumes "requests_ok A st" and "q \<in> set (ss_requests st)"
  shows "request_of st (sr_id q) = Some q"
proof (cases "request_of st (sr_id q)")
  case None
  then show ?thesis using assms(2) by (auto simp: request_of_def find_None_iff)
next
  case (Some p)
  then show ?thesis using request_of_in [OF Some] assms by (auto simp: requests_ok_def distinct_map inj_on_def)
qed

subsection \<open>Who is shown\<close>

text \<open>C1. Whom the store shows. In every history in which the server is honest, with any interleaving of logins,
  guards, wallet refreshes, second factors, sign-outs, page loads, changes of the session and answers in any order, whether or
  not the storage accepts what is written: a user in the store is one the server named for an account the browser's session
  has had, the stored copy is that user, and the identifier sent with every request, if there is one, is that of such an
  account. Both are those of the present session's account unless, since the last login, sign-out or second factor that was not
  so disturbed, a sign-out or a second factor was answered while a question of the present generation was in flight, the
  answer of a second factor was lost or its user refused by the storage, or the session changed without the page's doing.\<close>

theorem store_shows_session:
  assumes "session_reach quota seen out_of_step st"
  shows "(truthy (ss_user st) \<longrightarrow>
      (\<exists>a \<in> seen. names_account a (ss_user st) \<and> (out_of_step \<or> ss_session st = Some a)) \<and>
      ss_local st USER_KEY = Some (json_print (ss_user st))) \<and>
    (\<forall>t. ss_local st USER_ID = Some t \<longrightarrow>
      (\<exists>a \<in> seen. t = to_str (account_id a) \<and> (out_of_step \<or> ss_session st = Some a)))"
proof (cases out_of_step)
  case True
  then show ?thesis using reach_ok [OF assms] by (auto simp: identity_ok_def split: if_splits)
next
  case False
  then have ok: "identity_ok (set_option (ss_session st)) st" and "set_option (ss_session st) \<subseteq> seen"
    using reach_ok [OF assms] session_within by auto
  then have "\<exists>a \<in> seen. P a \<and> (out_of_step \<or> ss_session st = Some a)" if "\<exists>a \<in> set_option (ss_session st). P a" for P
    using that by auto
  with ok show ?thesis by (simp add: identity_ok_def split: if_splits)
qed

text \<open>C10. An answer from before a login or a sign-out signs nobody in. In every reachable state: a question that is in flight
  when its answers are cancelled may still be answered, with anything; the store then keeps its user or
  loses it, the guard keeps what it verified or forgets it, and a wallet that shows a user goes on showing that user. A wallet
  that shows nobody stays so or falls back on the user the store already had; the answer's user is shown nowhere.\<close>

theorem stale_answer_signs_nobody:
  assumes "session_reach quota seen b st" and "q \<in> set (ss_requests st)" and "sr_generation q < ss_generation st"
  shows "let st' = session_step (session_storage quota) st (SelfDone (sr_id q) r) in
    ss_user st' \<in> {ss_user st, JNull} \<and> ss_verified st' \<in> {ss_verified st, JNull} \<and>
    (truthy (ss_wallet st) \<longrightarrow> ss_wallet st' = ss_wallet st) \<and> ss_wallet st' \<in> {ss_wallet st, ss_user st} \<and> sr_id q \<notin> set (ss_controllers st)"
proof -
  have ok: "requests_ok seen st" using reach_requests [OF assms(1)] .
  have f: "request_of st (sr_id q) = Some q" using request_found [OF ok assms(2)] .
  have c: "sr_id q \<notin> set (ss_controllers st)" using ok assms(2,3) by (auto simp: requests_ok_def distinct_map inj_on_def)
  have n: "answered_user (self_or_null (self_result q r st)) = None" using assms(3) by (intro stale_result) simp
  then have a: "loadActiveAuthSession (self_result q r st) = None"
    using active_session_answered by (cases "loadActiveAuthSession (self_result q r st)") auto
  have l: "case self_result q r st of Inl e \<Rightarrow> True | Inr v \<Rightarrow> answered_user v = None"
    using n by (cases "self_result q r st") (auto simp: self_or_null_def)
  show ?thesis using n a l c
    by (cases "sr_asker q")
      (auto simp: self_done_def f Let_def login_answered_def guard_answered_def desktop_answered_def route_answered_def
        fetchUser_answered_def wallet_failed_def auth_reset_def log_session_def without_request_def split: sum.split)
qed

subsection \<open>Two races\<close>

text \<open>C28. A login that was superseded goes on to its target. In every reachable state with a login under way: when a second
  login begins, the question of the first is cancelled. If it had been answered just before, the first login stops; but if
  it is rejected, which is what a cancelled request is, the first login goes on and asks the router for its
  own target.\<close>

theorem superseded_login_goes_on:
  assumes "session_reach quota seen b st" and "q \<in> set (ss_requests st)" and "sr_generation q = ss_generation st"
    and "sr_asker q = LoginAsks (ss_transition st) target"
  shows "let st1 = session_step (session_storage quota) st (LoginDone a d redirectTo) in
    sr_id q \<in> set (ss_aborted st1) \<and>
    ss_log (session_step (session_storage quota) st1 (SelfDone (sr_id q) (Inr v))) = ss_log st1 \<and>
    ss_log (session_step (session_storage quota) st1 (SelfDone (sr_id q) (Inl e))) = ss_log st1 @ [SelfFailed, WentTo target]"
proof -
  define st1 where "st1 = session_step (session_storage quota) st (LoginDone a d redirectTo)"
  have ok: "requests_ok seen st" using reach_requests [OF assms(1)] .
  have f: "request_of st (sr_id q) = Some q" using request_found [OF ok assms(2)] .
  have "ss_transition st1 = Suc (ss_transition st) \<and> ss_aborted st1 = ss_aborted st @ ss_controllers st \<and>
    (\<exists>more. ss_requests st1 = ss_requests st @ more)"
    by (simp add: st1_def handleLoginSuccess_def Let_def setUser_def cancelSelfRequests_def save_id_def ask_self_def
        log_session_def)
  then obtain more where st1: "ss_transition st1 = Suc (ss_transition st)" "ss_aborted st1 = ss_aborted st @ ss_controllers st"
    "ss_requests st1 = ss_requests st @ more" by blast
  then have "request_of st1 (sr_id q) = Some q" using f find_append by (simp add: request_of_def)
  then have r: "self_done (session_storage quota) (sr_id q) r st1 =
    login_answered (session_storage quota) (ss_transition st) target (self_result q r st1) (without_request (sr_id q) st1)" for r
    by (simp add: self_done_def assms(4))
  have "sr_id q \<in> set (ss_controllers st)" using ok assms(2,3) by (auto simp: requests_ok_def)
  then show ?thesis unfolding Let_def st1_def [symmetric] using st1(1,2)
    by (simp add: r self_result_def login_answered_def without_request_def log_session_def)
qed

text \<open>C29. A user can come back after the sign-out. In every reachable state with a user signed in: the questions are cancelled
  when the sign-out begins, but not when it ends. If the wallet asks for the user in between, and the server answers
  that question for the session it still had, after the sign-out was answered, then the user is in the store again although the
  session is over, and the page that is loaded next shows that user.\<close>

theorem signed_out_user_returns:
  assumes "session_reach quota seen b st" and "answered_user v = Some u" and "plain u" and "user_fits quota u"
  shows "let st' = foldl (session_step (session_storage quota)) st
           [SignOutPressed, WalletOpened, SignOutDone True, SelfDone (ss_next st) (Inr v)]
    in Reloaded \<in> set (ss_log st') \<and> ss_session st' = None \<and> ss_user st' = u \<and>
       ss_user (session_step (session_storage quota) st' PageLoaded) = u"
proof -
  let ?api = "session_storage quota"
  have ok: "requests_ok seen st" using reach_requests [OF assms(1)] .
  then have new: "\<forall>y \<in> set (ss_requests st). sr_id y \<noteq> ss_next st" by (auto simp: requests_ok_def)
  define q where "q = \<lparr>sr_id = ss_next st, sr_generation = Suc (Suc (ss_generation st)), sr_asker = WalletAsks,
    sr_account = ss_session st\<rparr>"
  define st1 where "st1 = foldl (session_step ?api) st [SignOutPressed, WalletOpened, SignOutDone True]"
  have st1: "ss_requests st1 = ss_requests st @ [q]" "ss_generation st1 = Suc (Suc (ss_generation st))" "ss_session st1 = None"
    "Reloaded \<in> set (ss_log st1)"
    by (simp_all add: st1_def sign_out_start_def cancelSelfRequests_def ask_self_def sign_out_answered_def auth_reset_def
        log_session_def q_def)
  have f: "request_of st1 (ss_next st) = Some q"
    unfolding request_of_def st1(1) using new by (intro find_snoc) (auto simp: q_def)
  have t: "truthy u" using assms(2) by (auto simp: answered_user_def split: if_splits)
  define st2 where "st2 = session_step ?api st1 (SelfDone (ss_next st) (Inr v))"
  have st2: "ss_session st2 = None" "ss_user st2 = u" "ss_local st2 USER_KEY = Some (json_print u)" "ss_log st2 = ss_log st1"
    using assms(2,4) t st1(2,3)
    by (simp_all add: st2_def self_done_def f self_result_def q_def fetchUser_answered_def self_or_null_def Let_def
        setUser_def user_fits_def without_request_def)
  have "json_parse [] = None" by code_simp
  then have "json_print u \<noteq> []" "json_parse (json_print u) = Some u" using json_roundtrip [OF assms(3)] by auto
  then have "ss_user (session_step ?api st2 PageLoaded) = u" by (simp add: load_page_def initUser_def st2(3))
  with st2 st1(4) show ?thesis by (simp add: st2_def st1_def Let_def)
qed

subsection \<open>Witnesses\<close>

definition user7 :: jsval where
  "user7 = JObj [(js ''id'', JNum (num_int 7))]"

definition answer7 :: jsval where
  "answer7 = JObj [(js ''success'', JBool True), (js ''data'', user7)]"

text \<open>A login under way, and the same login cancelled by the beginning of another.\<close>

definition logging_in :: "(jsstr \<rightharpoonup> jsstr) session_state" where
  "logging_in = session_step (session_storage 1000) (fresh_page [] Map.empty) (LoginDone 7 user7 None)"

definition login_cancelled :: "(jsstr \<rightharpoonup> jsstr) session_state" where
  "login_cancelled = session_step (session_storage 1000) logging_in LoginSent"

definition login_question :: self_request where
  "login_question = \<lparr>sr_id = 0, sr_generation = 1, sr_asker = LoginAsks 1 (js ''/dashboard''), sr_account = Some 7\<rparr>"

lemma user7_id: "opt_get user7 ''id'' = account_id 7"
  by (simp add: user7_def opt_get_def account_id_def)

lemma logging_in_session: "ss_session logging_in = Some 7"
  by (simp add: logging_in_def handleLoginSuccess_def Let_def setUser_def save_id_def)

lemma logging_in_reach: "session_reach 1000 {7} False logging_in"
proof -
  have "session_reach 1000 {} False (fresh_page [] Map.empty)" by (intro session_reach.fresh) simp_all
  from session_reach.stepped [OF this, of "LoginDone 7 user7 None"] show ?thesis
    by (simp add: logging_in_def [symmetric] logging_in_session user7_id del: session_step.simps)
qed

lemma cancelled_reach: "session_reach 1000 {7} False login_cancelled"
  using session_reach.stepped [OF logging_in_reach, of LoginSent] by (simp add: login_cancelled_def logging_in_session)

lemma logging_in_facts:
  "ss_requests logging_in = [login_question]" "ss_generation logging_in = 1" "ss_transition logging_in = 1"
  by (simp_all add: logging_in_def handleLoginSuccess_def Let_def setUser_def cancelSelfRequests_def save_id_def ask_self_def
      normalizeAuthRedirect_def login_question_def fresh_page_def starts_with_def js_lit)

definition logged_in :: "(jsstr \<rightharpoonup> jsstr) session_state" where
  "logged_in = session_step (session_storage 1000) logging_in (SelfDone 0 (Inr answer7))"

lemma plain_user7: "plain user7"
  by (simp add: user7_def index_key_lit is_digit_def)

lemma answer7_user: "answered_user answer7 = Some user7" "opt_get answer7 ''data'' = user7"
  by (simp_all add: answered_user_def answer7_def opt_get_def user7_def js_inject)

lemma logged_in_session: "ss_session logged_in = Some 7"
  by code_simp

lemma logged_in_reach: "session_reach 1000 {7} False logged_in"
proof -
  have "honest logging_in (SelfDone 0 (Inr answer7))"
    by (simp add: logging_in_facts login_question_def names_account_def answer7_user plain_user7 user7_id) (simp add: user7_def)
  from session_reach.stepped [OF logging_in_reach this] show ?thesis
    by (simp add: logged_in_def [symmetric] logged_in_session del: session_step.simps)
qed

theorem store_shows_session_witness:
  "ss_user logged_in = user7 \<and> (\<exists>a \<in> {7}. names_account a user7 \<and> ss_session logged_in = Some a)"
proof -
  have "ss_user logged_in = user7" by code_simp
  then show ?thesis using store_shows_session [OF logged_in_reach] by (simp add: user7_def)
qed

theorem stale_answer_signs_nobody_witness:
  "ss_user (session_step (session_storage 1000) login_cancelled (SelfDone 0 (Inr answer7))) \<in> {ss_user login_cancelled, JNull}"
proof -
  have "ss_requests login_cancelled = [login_question]" "ss_generation login_cancelled = 2"
    by (simp_all add: login_cancelled_def cancelSelfRequests_def logging_in_facts)
  then have "login_question \<in> set (ss_requests login_cancelled)" "sr_generation login_question < ss_generation login_cancelled"
    by (simp_all add: login_question_def)
  from stale_answer_signs_nobody [OF cancelled_reach this, of "Inr answer7"] show ?thesis
    by (simp add: Let_def login_question_def)
qed

theorem superseded_login_goes_on_witness:
  "let st1 = session_step (session_storage 1000) logging_in (LoginDone 8 JNull (Some (js ''/keys''))) in
   ss_log (session_step (session_storage 1000) st1 (SelfDone 0 (Inl JUndef))) = ss_log st1 @ [SelfFailed, WentTo (js ''/dashboard'')]"
proof -
  have "login_question \<in> set (ss_requests logging_in)" "sr_generation login_question = ss_generation logging_in"
    "sr_asker login_question = LoginAsks (ss_transition logging_in) (js ''/dashboard'')"
    by (simp_all add: logging_in_facts) (simp_all add: login_question_def)
  from superseded_login_goes_on [OF logging_in_reach this, of 8 JNull "Some (js ''/keys'')" _ JUndef] show ?thesis
    by (simp add: Let_def login_question_def)
qed

theorem signed_out_user_returns_witness:
  "let st' = foldl (session_step (session_storage 1000)) logging_in
      [SignOutPressed, WalletOpened, SignOutDone True, SelfDone (ss_next logging_in) (Inr answer7)]
   in ss_session st' = None \<and> ss_user st' = user7"
proof -
  have "user_fits 1000 user7" by code_simp
  from signed_out_user_returns [OF logging_in_reach answer7_user(1) plain_user7 this] show ?thesis by (simp add: Let_def)
qed

end
