(* ===== verification/TopUp.thy ===== *)
theory TopUp
  imports BlindBoxPayment "HOL-Library.AList"
begin

section \<open>Topping up the wallet\<close>

text \<open>
  \<open>features/wallet/lib/payment.ts\<close> (kinds of payment, minimum, default method, presets), the reading of the server's
  settings in \<open>use-topup-info.ts\<close>, and what \<open>use-payment.ts\<close> and \<open>use-waffo-pancake-payment.ts\<close> make of the answer
  to a payment. The minimum amounts of the server's answer are numbers or missing; a missing one behaves as \<open>NaN\<close>
  does in every comparison of the code.

  The main results: a discount is found by the number it stands for, whatever its text, and only usable methods are
  offered.
\<close>

subsection \<open>Reading a number from the front of a text\<close>

text \<open>\<open>parseFloat\<close>: the longest decimal literal at the front.\<close>

definition front_exponent :: "jsstr \<Rightarrow> int" where
  "front_exponent s =
     (case s of [] \<Rightarrow> 0
      | c # r \<Rightarrow>
        if c = 101 \<or> c = 69
        then (case r of [] \<Rightarrow> 0
          | d # q \<Rightarrow>
            (let ds = fst (take_digits (if d = 43 \<or> d = 45 then q else r)) in
             if ds = [] then 0 else if d = 45 then - digits_val ds else digits_val ds))
        else 0)"

definition front_number :: "jsstr \<Rightarrow> jsnum" where
  "front_number s =
     (case take_digits s of (ip, r) \<Rightarrow>
       (let (fp, r') = (case r of c # q \<Rightarrow> if c = 46 then take_digits q else ([], r) | [] \<Rightarrow> ([], [])) in
        if ip = [] \<and> fp = [] then NaN
        else fl (of_int (digits_val (ip @ fp)) * 10 powi (front_exponent r' - int (length fp)))))"

definition parseFloat :: "jsval \<Rightarrow> jsnum" where
  "parseFloat v =
     (let s = trim_start (to_str v);
          u = (case s of c # r \<Rightarrow> if c = 43 \<or> c = 45 then r else s | [] \<Rightarrow> []);
          n = (if starts_with u (js ''Infinity'') then PInf else front_number u)
      in if s \<noteq> [] \<and> hd s = 45 then num_neg n else n)"

definition num_or :: "jsnum \<Rightarrow> jsnum \<Rightarrow> jsnum" where
  "num_or x d = (if num_truthy x then x else d)"

definition num_prop :: "jsval \<Rightarrow> string \<Rightarrow> jsnum" where
  "num_prop v k = (case obj_get v (js k) of JNum n \<Rightarrow> n | _ \<Rightarrow> NaN)"

definition opt_str_prop :: "jsval \<Rightarrow> string \<Rightarrow> jsstr option" where
  "opt_str_prop v k = (case obj_get v (js k) of JStr s \<Rightarrow> Some s | _ \<Rightarrow> None)"

subsection \<open>The server's settings\<close>

definition parseJsonArray :: "jsval \<Rightarrow> jsval list" where
  "parseJsonArray data =
     (case data of
        JArr vs \<Rightarrow> vs
      | JStr s \<Rightarrow> (case json_parse s of Some (JArr vs) \<Rightarrow> vs | _ \<Rightarrow> [])
      | _ \<Rightarrow> [])"

definition is_item :: "jsval \<Rightarrow> bool" where
  "is_item v \<longleftrightarrow> (case v of JArr vs \<Rightarrow> True | JObj ps \<Rightarrow> True | _ \<Rightarrow> False)"

record topup_method =
  tm_name :: jsstr
  tm_type :: jsstr
  tm_color :: "jsstr option"
  tm_currency :: "jsstr option"
  tm_min :: jsnum

definition read_method :: "jsnum \<Rightarrow> jsval \<Rightarrow> topup_method" where
  "read_method stripeMinTopup item =
     (let raw = to_num (obj_get item (js ''min_topup''));
          normalized = (if is_finite raw then raw else num_int 0);
          type = str_prop item ''type''
      in \<lparr>tm_name = str_prop item ''name'', tm_type = type, tm_color = opt_str_prop item ''color'',
          tm_currency = opt_str_prop item ''currency'',
          tm_min = (if type = js ''stripe'' \<and> num_le normalized (num_int 0) then stripeMinTopup else normalized)\<rparr>)"

definition parsePaymentMethods :: "jsval \<Rightarrow> jsnum \<Rightarrow> topup_method list" where
  "parsePaymentMethods data stripeMinTopup =
     filter (\<lambda>m. tm_name m \<noteq> [] \<and> tm_type m \<noteq> [] \<and> tm_type m \<noteq> js ''waffo'')
       (map (read_method stripeMinTopup) (filter is_item (parseJsonArray data)))"

record waffo_method =
  wm_name :: jsstr
  wm_icon :: "jsstr option"
  wm_payMethodType :: "jsstr option"
  wm_payMethodName :: "jsstr option"

definition parseWaffoPayMethods :: "jsval \<Rightarrow> waffo_method list" where
  "parseWaffoPayMethods data =
     filter (\<lambda>m. wm_name m \<noteq> [])
       (map (\<lambda>item. \<lparr>wm_name = str_prop item ''name'', wm_icon = opt_str_prop item ''icon'',
           wm_payMethodType = opt_str_prop item ''payMethodType'', wm_payMethodName = opt_str_prop item ''payMethodName''\<rparr>)
         (filter is_item (parseJsonArray data)))"

record creem_product =
  cp_name :: jsstr
  cp_productId :: jsstr
  cp_price :: jsnum
  cp_quota :: jsnum
  cp_euro :: bool

definition parseCreemProducts :: "jsval \<Rightarrow> creem_product list" where
  "parseCreemProducts data =
     filter (\<lambda>p. cp_name p \<noteq> [] \<and> cp_productId p \<noteq> [])
       (map (\<lambda>item. \<lparr>cp_name = str_prop item ''name'', cp_productId = str_prop item ''productId'',
           cp_price = num_or (to_num (obj_get item (js ''price''))) (num_int 0),
           cp_quota = num_or (to_num (obj_get item (js ''quota''))) (num_int 0),
           cp_euro = (obj_get item (js ''currency'') = JStr (js ''EUR''))\<rparr>)
         (filter is_item (parseJsonArray data)))"

definition parseAmountOptions :: "jsval \<Rightarrow> jsnum list" where
  "parseAmountOptions data = filter (\<lambda>x. is_finite x \<and> num_lt (num_int 0) x) (map to_num (parseJsonArray data))"

text \<open>An object indexed by numbers is indexed by their texts.\<close>

type_synonym discounts = "(jsstr \<times> jsnum) list"

definition add_discount :: "discounts \<Rightarrow> jsstr \<times> jsval \<Rightarrow> discounts" where
  "add_discount result kv =
     (let k = str_to_num (fst kv); v = to_num (snd kv) in
      if is_finite k \<and> is_finite v then AList.update (num_to_str k) v result else result)"

definition parseDiscountMap :: "jsval \<Rightarrow> discounts" where
  "parseDiscountMap data =
     (if \<not> truthy data then []
      else case (case data of JStr s \<Rightarrow> json_parse s | _ \<Rightarrow> Some data) of
        Some (JObj ps) \<Rightarrow> foldl add_discount [] (obj_entries ps)
      | _ \<Rightarrow> [])"

record topup_info =
  ti_online :: bool
  ti_stripe :: bool
  ti_waffo :: bool
  ti_pancake :: bool
  ti_nowpayments :: bool
  ti_creem_enabled :: bool
  ti_min :: jsnum
  ti_stripe_min :: jsnum
  ti_waffo_min :: jsnum
  ti_pancake_min :: jsnum
  ti_nowpayments_min :: jsnum
  ti_methods :: "topup_method list"
  ti_options :: "jsnum list"
  ti_discount :: discounts
  ti_creem :: "creem_product list"
  ti_waffo_methods :: "waffo_method list"

definition processedData :: "jsval \<Rightarrow> topup_info" where
  "processedData data =
     \<lparr>ti_online = truthy (obj_get data (js ''enable_online_topup'')),
      ti_stripe = truthy (obj_get data (js ''enable_stripe_topup'')),
      ti_waffo = truthy (obj_get data (js ''enable_waffo_topup'')),
      ti_pancake = truthy (obj_get data (js ''enable_waffo_pancake_topup'')),
      ti_nowpayments = truthy (obj_get data (js ''enable_nowpayments_topup'')),
      ti_creem_enabled = truthy (obj_get data (js ''enable_creem_topup'')),
      ti_min = num_prop data ''min_topup'', ti_stripe_min = num_prop data ''stripe_min_topup'',
      ti_waffo_min = num_prop data ''waffo_min_topup'', ti_pancake_min = num_prop data ''waffo_pancake_min_topup'',
      ti_nowpayments_min = num_prop data ''nowpayments_min_topup'',
      ti_methods = parsePaymentMethods (obj_get data (js ''pay_methods'')) (num_prop data ''stripe_min_topup''),
      ti_options = parseAmountOptions (obj_get data (js ''amount_options'')),
      ti_discount = parseDiscountMap (obj_get data (js ''discount'')),
      ti_creem = parseCreemProducts (obj_get data (js ''creem_products'')),
      ti_waffo_methods = parseWaffoPayMethods (obj_get data (js ''waffo_pay_methods''))\<rparr>"

subsection \<open>Methods, minimum and presets\<close>

definition isStripePayment :: "jsstr \<Rightarrow> bool" where
  "isStripePayment paymentType \<longleftrightarrow> paymentType = js ''stripe'' \<or> paymentType = js ''stripe_cny''"

definition isWaffoPancakePayment :: "jsstr \<Rightarrow> bool" where
  "isWaffoPancakePayment paymentType \<longleftrightarrow> paymentType = js ''waffo_pancake''"

definition isNowPaymentsPayment :: "jsstr \<Rightarrow> bool" where
  "isNowPaymentsPayment paymentType \<longleftrightarrow> paymentType = js ''nowpayments''"

definition getDefaultPaymentType :: "topup_info option \<Rightarrow> jsstr" where
  "getDefaultPaymentType info =
     (case info of None \<Rightarrow> js ''alipay''
      | Some i \<Rightarrow>
          (case ti_methods i of m # _ \<Rightarrow> tm_type m
           | [] \<Rightarrow>
             if ti_stripe i then js ''stripe''
             else if ti_waffo i then js ''waffo''
             else if ti_pancake i then js ''waffo_pancake''
             else if ti_nowpayments i then js ''nowpayments''
             else js ''alipay''))"

definition getMinTopupAmount :: "topup_info option \<Rightarrow> jsnum" where
  "getMinTopupAmount info =
     (case info of None \<Rightarrow> num_int 1
      | Some i \<Rightarrow>
          if ti_online i then ti_min i
          else if ti_stripe i then ti_stripe_min i
          else if ti_waffo i then num_or (ti_waffo_min i) (num_int 1)
          else if ti_pancake i then num_or (ti_pancake_min i) (num_int 1)
          else if ti_nowpayments i then num_or (ti_nowpayments_min i) (num_int 1)
          else num_int 1)"

record preset_amount =
  pa_value :: jsnum
  pa_discount :: "jsnum option"

definition DEFAULT_PRESET_MULTIPLIERS :: "int list" where
  "DEFAULT_PRESET_MULTIPLIERS = [1, 5, 10, 30, 50, 100, 300, 500]"

definition generatePresetAmounts :: "jsnum \<Rightarrow> preset_amount list" where
  "generatePresetAmounts minAmount =
     map (\<lambda>k. \<lparr>pa_value = num_mul minAmount (num_int k), pa_discount = None\<rparr>) DEFAULT_PRESET_MULTIPLIERS"

definition mergePresetAmounts :: "jsnum list \<Rightarrow> discounts \<Rightarrow> preset_amount list" where
  "mergePresetAmounts amountOptions discounts =
     map (\<lambda>a. \<lparr>pa_value = a,
        pa_discount = Some (num_or (case map_of discounts (num_to_str a) of Some d \<Rightarrow> d | None \<Rightarrow> NaN) (num_int 1))\<rparr>)
       amountOptions"

definition info_presets :: "topup_info \<Rightarrow> preset_amount list" where
  "info_presets i =
     (if ti_options i \<noteq> [] then mergePresetAmounts (ti_options i) (ti_discount i)
      else generatePresetAmounts (getMinTopupAmount (Some i)))"

subsection \<open>Answers to a payment\<close>

datatype payment_effect =
    OpenedWindow jsstr
  | SubmittedForm jsstr
  | ShownAddress jsval
  | PaymentNotice
  | PaymentError

definition str_or_empty :: "jsval \<Rightarrow> string \<Rightarrow> jsstr" where
  "str_or_empty v k = (case opt_get v k of JStr s \<Rightarrow> s | _ \<Rightarrow> [])"

definition has_text :: "jsval \<Rightarrow> string \<Rightarrow> bool" where
  "has_text v k = (case opt_get v k of JStr s \<Rightarrow> True | _ \<Rightarrow> False)"

text \<open>What the hook does, and whether the payment counts as begun.\<close>

definition payment_answered :: "jsstr \<Rightarrow> jsval + jsval \<Rightarrow> payment_effect list \<times> bool" where
  "payment_answered paymentType r =
     (case r of Inl e \<Rightarrow> ([PaymentError], False)
      | Inr response \<Rightarrow>
        if \<not> isApiSuccess response then ([PaymentError], False)
        else
          (let data = obj_get response (js ''data''); isStripe = isStripePayment paymentType;
               payUrl = str_or_empty data ''pay_url''; qrUrl = str_or_empty data ''qrcode_url'';
               directUrl = (if payUrl \<noteq> [] then payUrl else qrUrl);
               url = obj_get response (js ''url'')
           in if isStripe \<and> has_text data ''pay_link''
              then ([OpenedWindow (str_or_empty data ''pay_link''), PaymentNotice], True)
              else if isNowPaymentsPayment paymentType \<and> has_text data ''pay_address'' \<and>
                has_text data ''pay_amount''
              then ([ShownAddress data, PaymentNotice], True)
              else if \<not> isStripe \<and> truthy data \<and> directUrl \<noteq> [] then ([OpenedWindow directUrl, PaymentNotice], True)
              else if \<not> isStripe \<and> truthy data \<and> truthy url then ([SubmittedForm (to_str url), PaymentNotice], True)
              else ([], False)))"

text \<open>\<open>protocol\<close> is the protocol of \<open>new URL(t)\<close>, or \<open>None\<close> when that throws.\<close>

definition isSafeHttpCheckoutUrl :: "(jsstr \<Rightarrow> jsstr option) \<Rightarrow> jsstr \<Rightarrow> bool" where
  "isSafeHttpCheckoutUrl protocol v =
     (trim v \<noteq> [] \<and> (case protocol (trim v) of None \<Rightarrow> False | Some p \<Rightarrow> p = js ''http:'' \<or> p = js ''https:''))"

definition getCheckoutUrl :: "jsval \<Rightarrow> jsstr option" where
  "getCheckoutUrl data = (if is_item data then opt_str_prop data ''checkout_url'' else None)"

definition pancake_answered :: "(jsstr \<Rightarrow> jsstr option) \<Rightarrow> jsval + jsval \<Rightarrow> payment_effect list \<times> bool" where
  "pancake_answered protocol r =
     (case r of Inl e \<Rightarrow> ([PaymentError], False)
      | Inr response \<Rightarrow>
        if \<not> isApiSuccess response then ([PaymentError], False)
        else (case getCheckoutUrl (obj_get response (js ''data'')) of
            None \<Rightarrow> ([PaymentError], False)
          | Some checkoutUrl \<Rightarrow>
              if checkoutUrl = [] then ([PaymentError], False)
              else if \<not> isSafeHttpCheckoutUrl protocol checkoutUrl then ([PaymentError], False)
              else ([OpenedWindow checkoutUrl, PaymentNotice], True)))"

text \<open>Waffo's own buttons and Creem's products.\<close>

definition getPaymentUrl :: "jsval \<Rightarrow> jsstr option" where
  "getPaymentUrl data = (if is_item data then opt_str_prop data ''payment_url'' else None)"

definition waffo_answered :: "jsval + jsval \<Rightarrow> payment_effect list" where
  "waffo_answered r =
     (case r of Inl e \<Rightarrow> [PaymentError]
      | Inr response \<Rightarrow>
        if isApiSuccess response
        then (case getPaymentUrl (obj_get response (js ''data'')) of
            None \<Rightarrow> [PaymentError]
          | Some paymentUrl \<Rightarrow> if paymentUrl = [] then [PaymentError] else [OpenedWindow paymentUrl, PaymentNotice])
        else [PaymentError])"

definition creem_answered :: "jsval + jsval \<Rightarrow> payment_effect list \<times> bool" where
  "creem_answered r =
     (case r of Inl e \<Rightarrow> ([PaymentError], False)
      | Inr response \<Rightarrow>
        (let url = opt_get (obj_get response (js ''data'')) ''checkout_url'' in
         if isApiSuccess response \<and> truthy url then ([OpenedWindow (to_str url), PaymentNotice], True)
         else ([PaymentError], False)))"


section \<open>Properties of the settings\<close>

subsection \<open>Discounts\<close>

text \<open>The discount an object of discounts has for a number: the last entry whose key stands for it.\<close>

definition discount_of :: "(jsstr \<times> jsval) list \<Rightarrow> jsnum \<Rightarrow> jsnum option" where
  "discount_of es a =
     (case filter (\<lambda>kv. str_to_num (fst kv) = a \<and> is_finite (to_num (snd kv))) (rev es) of
        [] \<Rightarrow> None | kv # _ \<Rightarrow> Some (to_num (snd kv)))"

lemma discount_of_finite:
  assumes "discount_of es a = Some d"
  shows "is_finite d"
proof (cases "filter (\<lambda>kv. str_to_num (fst kv) = a \<and> is_finite (to_num (snd kv))) (rev es)")
  case Nil
  with assms show ?thesis by (simp add: discount_of_def)
next
  case (Cons kv r)
  then have "kv \<in> set (filter (\<lambda>kv. str_to_num (fst kv) = a \<and> is_finite (to_num (snd kv))) (rev es))" by simp
  then have "is_finite (to_num (snd kv))" unfolding set_filter by blast
  with assms Cons show ?thesis by (simp add: discount_of_def)
qed

lemma discount_fold:
  assumes "num_token a" and "\<And>k v. (k, v) \<in> set es \<Longrightarrow> is_finite (str_to_num k) \<Longrightarrow> num_token (str_to_num k)"
  shows "map_of (foldl add_discount [] es) (num_to_str a) = discount_of es a"
  using assms(2)
proof (induction es rule: rev_induct)
  case Nil
  then show ?case by (simp add: discount_of_def)
next
  case (snoc kv es)
  have IH: "map_of (foldl add_discount [] es) (num_to_str a) = discount_of es a" by (rule snoc.IH) (use snoc.prems in auto)
  let ?k = "str_to_num (fst kv)"
  have inj: "num_to_str ?k = num_to_str a \<longleftrightarrow> ?k = a" if "is_finite ?k"
    using snoc.prems [of "fst kv" "snd kv"] that assms(1) unfolding num_token_def by (metis list.set_intros(1) prod.collapse in_set_conv_decomp)
  have fin: "is_finite a" using assms(1) by (simp add: num_token_def)
  have "map_of (foldl add_discount [] (es @ [kv])) (num_to_str a) =
    map_of (add_discount (foldl add_discount [] es) kv) (num_to_str a)" by simp
  also have "\<dots> =
    (if ?k = a \<and> is_finite (to_num (snd kv)) then Some (to_num (snd kv)) else discount_of es a)"
    using IH inj fin by (auto simp: add_discount_def Let_def update_conv')
  also have "\<dots> = discount_of (es @ [kv]) a" by (simp add: discount_of_def)
  finally show ?case .
qed

text \<open>A discount belongs to a number. For every object of discounts the administrator stored, as an object or as its text: a
  preset amount gets the discount of the last entry whose key stands for the same number, however that key is written,
  and one (no discount) if there is none, or if the entry says zero. Entries that are no finite numbers are ignored.\<close>

theorem discount_by_number:
  assumes "data = JObj ps \<or> (\<exists>s. data = JStr s \<and> s \<noteq> [] \<and> json_parse s = Some (JObj ps))"
    and "\<And>a. a \<in> set options \<Longrightarrow> num_token a"
    and "\<And>k v. (k, v) \<in> set ps \<Longrightarrow> is_finite (str_to_num k) \<Longrightarrow> num_token (str_to_num k)"
  shows "mergePresetAmounts options (parseDiscountMap data) =
    map (\<lambda>a. \<lparr>pa_value = a, pa_discount = Some (case discount_of (obj_entries ps) a of
       None \<Rightarrow> num_int 1 | Some d \<Rightarrow> if d = Fin 0 then num_int 1 else d)\<rparr>) options"
proof -
  have "parseDiscountMap data = foldl add_discount [] (obj_entries ps)"
    using assms(1) by (auto simp: parseDiscountMap_def)
  moreover have "map_of (foldl add_discount [] (obj_entries ps)) (num_to_str a) = discount_of (obj_entries ps) a"
    if "a \<in> set options" for a
    using assms(2) [OF that] assms(3) by (intro discount_fold) auto
  moreover have "d \<noteq> NaN" if "discount_of (obj_entries ps) a = Some d" for a d
    using discount_of_finite [OF that] by auto
  ultimately show ?thesis
    by (auto simp: mergePresetAmounts_def num_or_def num_truthy_def split: option.split)
qed

theorem discount_by_number_witness:
  "map pa_discount (mergePresetAmounts [num_int 10, num_int 20]
     (parseDiscountMap (JObj [(js ''10.0'', JNum (num_int 3)), (js ''x'', JNum (num_int 5))]))) = [Some (num_int 3), Some (num_int 1)]"
proof -
  let ?ps = "[(js ''10.0'', JNum (num_int 3)), (js ''x'', JNum (num_int 5))]"
  have t: "num_token (num_int 10)" "num_token (num_int 20)" by (simp_all add: safe_num_token)
  have s: "str_to_num (js ''10.0'') = num_int 10" "str_to_num (js ''x'') = NaN" by code_simp+
  have o: "obj_entries ?ps = ?ps" by code_simp
  have "mergePresetAmounts [num_int 10, num_int 20] (parseDiscountMap (JObj ?ps)) =
    map (\<lambda>a. \<lparr>pa_value = a, pa_discount = Some (case discount_of (obj_entries ?ps) a of
       None \<Rightarrow> num_int 1 | Some d \<Rightarrow> if d = Fin 0 then num_int 1 else d)\<rparr>) [num_int 10, num_int 20]"
    by (rule discount_by_number) (use t s in auto)
  moreover have "discount_of (obj_entries ?ps) (num_int 10) = Some (num_int 3)"
    "discount_of (obj_entries ?ps) (num_int 20) = None"
    unfolding o by (simp_all add: discount_of_def s num_int_def)
  ultimately show ?thesis by (simp add: num_int_def)
qed

subsection \<open>Methods\<close>

lemma methods_usable:
  "m \<in> set (parsePaymentMethods data stripeMin) \<Longrightarrow> tm_name m \<noteq> [] \<and> tm_type m \<noteq> [] \<and> tm_type m \<noteq> js ''waffo''"
  by (auto simp: parsePaymentMethods_def)

text \<open>A method of another kind than Stripe has a finite minimum.\<close>

lemma method_minimum_finite:
  "m \<in> set (parsePaymentMethods data stripeMin) \<Longrightarrow> tm_type m \<noteq> js ''stripe'' \<Longrightarrow> is_finite (tm_min m)"
  by (auto simp: parsePaymentMethods_def read_method_def Let_def num_int_def)

subsection \<open>Answers without a message\<close>

text \<open>A Stripe payment the server accepted without naming a page to pay on ends without any message.\<close>

lemma stripe_without_link_silent:
  assumes "isStripePayment t" and "isApiSuccess response" and "\<not> has_text (obj_get response (js ''data'')) ''pay_link''"
  shows "payment_answered t (Inr response) = ([], False)"
proof -
  have "\<not> isNowPaymentsPayment t" using assms(1) by (auto simp: isStripePayment_def isNowPaymentsPayment_def js_inject)
  then show ?thesis using assms by (simp add: payment_answered_def Let_def)
qed

end
