(* ===== verification/TopUpPage.thy ===== *)
theory TopUpPage
  imports TopUp
begin

section \<open>The page that tops up the wallet\<close>

text \<open>
  \<open>use-payment.ts\<close> and the top-up part of \<open>use-wallet-workspace.ts\<close>, with the amount field and the method
  buttons of \<open>recharge-form-card.tsx\<close> and the button of \<open>payment-confirm-dialog.tsx\<close>, as one machine of events: the
  settings arrive, the user types, chooses and confirms, the server answers quotes and payments in any order. After
  every event the effects run until they are settled (\<open>settle\<close>). Two methods with the same fields count as one. The
  sums shown and paid are numbers of the server's currency; money is not computed here.

  Waffo's own buttons and the products of Creem, which pay without a quote, are events of the same machine.

  The main results: what the dialog pays was quoted, for the very amount, method and currency; the sum shown settles once the
  quotes are answered; a page whose methods are all hidden calculates forever; and a preset can leave the form stuck.
\<close>

subsection \<open>State\<close>

record quote =
  qu_sequence :: nat
  qu_amount :: jsnum
  qu_type :: jsstr
  qu_currency :: jsstr

record topup_payment =
  py_amount :: jsnum
  py_type :: jsstr
  py_currency :: jsstr

datatype topup_effect =
    QuoteAsked jsnum jsstr jsstr
  | PaymentSent jsnum jsnum jsstr jsstr
  | WaffoSent jsnum jsnum nat
  | CreemSent jsstr
  | PaymentShown payment_effect
  | FetchedUser

text \<open>A request of Waffo's own buttons, by the index of the button, or for a product of Creem.\<close>

datatype provider_request =
    WaffoRequest nat
  | CreemRequest jsstr

record topup_page =
  tp_info :: "topup_info option"
  tp_presets :: "preset_amount list"
  tp_info_error :: bool
  tp_amount :: jsnum
  tp_preset :: "jsnum option"
  tp_method :: "topup_method option"
  tp_currency :: jsstr
  tp_field :: jsstr
  tp_sequence :: nat
  tp_quoted :: jsnum
  tp_quote_key :: jsstr
  tp_calculating :: bool
  tp_quotes :: "quote list"
  tp_processing :: bool
  tp_pancake :: bool
  tp_address :: "jsval option"
  tp_payments :: "topup_payment list"
  tp_open :: bool
  tp_loading :: "nat option"
  tp_creem :: "creem_product option"
  tp_creem_open :: bool
  tp_creem_processing :: bool
  tp_others :: "provider_request list"
  tp_seen_info :: "(topup_info option \<times> jsnum \<times> jsstr) option"
  tp_seen_amount :: "jsnum option"
  tp_seen_quote :: "(topup_method option \<times> jsstr \<times> jsnum) option"
  tp_log :: "topup_effect list"

definition log_topup :: "topup_effect \<Rightarrow> topup_page \<Rightarrow> topup_page" where
  "log_topup e st = st\<lparr>tp_log := tp_log st @ [e]\<rparr>"

definition quote_key :: "jsnum \<Rightarrow> jsstr \<Rightarrow> jsstr \<Rightarrow> jsstr" where
  "quote_key amount paymentType currency = json_print (JArr [JNum amount, JStr paymentType, JStr currency])"

definition method_type :: "topup_page \<Rightarrow> jsstr" where
  "method_type st = (case tp_method st of Some m \<Rightarrow> tm_type m | None \<Rightarrow> [])"

definition currentQuoteKey :: "topup_page \<Rightarrow> jsstr" where
  "currentQuoteKey st = quote_key (tp_amount st) (method_type st) (tp_currency st)"

definition shown_amount :: "topup_page \<Rightarrow> jsnum" where
  "shown_amount st = (if tp_quote_key st = currentQuoteKey st then tp_quoted st else num_int 0)"

definition shown_calculating :: "topup_page \<Rightarrow> bool" where
  "shown_calculating st \<longleftrightarrow>
     tp_calculating st \<or> num_lt (num_int 0) (tp_amount st) \<and> tp_quote_key st \<noteq> currentQuoteKey st"

subsection \<open>Quotes\<close>

definition calculatePaymentAmount :: "jsnum \<Rightarrow> jsstr \<Rightarrow> jsstr \<Rightarrow> topup_page \<Rightarrow> topup_page" where
  "calculatePaymentAmount amount paymentType currency st =
     log_topup (QuoteAsked amount paymentType currency)
       (st\<lparr>tp_sequence := Suc (tp_sequence st), tp_calculating := True,
          tp_quotes := tp_quotes st @
            [\<lparr>qu_sequence = Suc (tp_sequence st), qu_amount = amount, qu_type = paymentType, qu_currency = currency\<rparr>]\<rparr>)"

definition quoted_amount :: "jsval + jsval \<Rightarrow> jsnum" where
  "quoted_amount r =
     (case r of Inl e \<Rightarrow> num_int 0
      | Inr response \<Rightarrow>
          if isApiSuccess response \<and> truthy (obj_get response (js ''data''))
          then parseFloat (obj_get response (js ''data'')) else num_int 0)"

definition quote_answered :: "quote \<Rightarrow> jsval + jsval \<Rightarrow> topup_page \<Rightarrow> topup_page" where
  "quote_answered q r st0 =
     (if q \<notin> set (tp_quotes st0) then st0
      else
        let st = st0\<lparr>tp_quotes := remove1 q (tp_quotes st0)\<rparr> in
        if qu_sequence q \<noteq> tp_sequence st then st
        else st\<lparr>tp_quoted := quoted_amount r,
               tp_quote_key := quote_key (qu_amount q) (qu_type q) (qu_currency q), tp_calculating := False\<rparr>)"

subsection \<open>Effects\<close>

definition default_effect :: "topup_page \<Rightarrow> topup_page" where
  "default_effect st =
     (if tp_seen_info st = Some (tp_info st, tp_amount st, tp_currency st) then st
      else
        let st' = (case tp_info st of
            Some info \<Rightarrow>
              if num_eq (tp_amount st) (num_int 0)
              then
                let t = (if tp_currency st \<noteq> js ''CNY'' \<and> ti_stripe info then js ''stripe''
                         else getDefaultPaymentType (Some info))
                in st\<lparr>tp_amount := getMinTopupAmount (Some info),
                      tp_method := List.find (\<lambda>m. tm_type m = t) (ti_methods info)\<rparr>
              else st
          | None \<Rightarrow> st)
        in st'\<lparr>tp_seen_info := Some (tp_info st', tp_amount st', tp_currency st')\<rparr>)"

definition field_effect :: "topup_page \<Rightarrow> topup_page" where
  "field_effect st =
     (if tp_seen_amount st = Some (tp_amount st) then st
      else st\<lparr>tp_field := num_to_str (tp_amount st), tp_seen_amount := Some (tp_amount st)\<rparr>)"

definition quote_effect :: "topup_page \<Rightarrow> topup_page" where
  "quote_effect st =
     (let deps = (tp_method st, tp_currency st, tp_amount st) in
      if tp_seen_quote st = Some deps then st
      else
        let st' = st\<lparr>tp_seen_quote := Some deps\<rparr> in
        case tp_method st of
          Some m \<Rightarrow>
            if num_lt (num_int 0) (tp_amount st)
            then calculatePaymentAmount (tp_amount st) (tm_type m) (tp_currency st) st' else st'
        | None \<Rightarrow> st')"

definition settle :: "topup_page \<Rightarrow> topup_page" where
  "settle st = quote_effect (field_effect (default_effect st))"

subsection \<open>The user's choices\<close>

definition info_answered :: "jsval + jsval \<Rightarrow> topup_page \<Rightarrow> topup_page" where
  "info_answered r st =
     (case r of Inl e \<Rightarrow> st\<lparr>tp_info_error := True\<rparr>
      | Inr response \<Rightarrow>
          if \<not> truthy (opt_get response ''success'') \<or> \<not> truthy (opt_get response ''data'')
          then st\<lparr>tp_info_error := True\<rparr>
          else
            let info = processedData (opt_get response ''data'') in
            st\<lparr>tp_info := Some info, tp_info_error := False, tp_presets := info_presets info\<rparr>)"

definition handleSelectPreset :: "preset_amount \<Rightarrow> topup_page \<Rightarrow> topup_page" where
  "handleSelectPreset p st = st\<lparr>tp_amount := pa_value p, tp_preset := Some (pa_value p)\<rparr>"

definition valid_amount :: "jsstr \<Rightarrow> topup_page \<Rightarrow> bool" where
  "valid_amount t st \<longleftrightarrow> is_integer (str_to_num t) \<and> num_le (getMinTopupAmount (tp_info st)) (str_to_num t)"

definition handleAmountChange :: "jsstr \<Rightarrow> topup_page \<Rightarrow> topup_page" where
  "handleAmountChange t st =
     (let st = st\<lparr>tp_field := t\<rparr> in
      if valid_amount t st then st\<lparr>tp_amount := str_to_num t, tp_preset := None\<rparr> else st)"

definition method_min :: "topup_method \<Rightarrow> topup_page \<Rightarrow> jsnum" where
  "method_min m st = num_or (tm_min m) (getMinTopupAmount (tp_info st))"

definition method_disabled :: "topup_method \<Rightarrow> topup_page \<Rightarrow> bool" where
  "method_disabled m st \<longleftrightarrow>
     \<not> valid_amount (tp_field st) st \<or> num_lt (tp_amount st) (method_min m st) \<or> tp_loading st \<noteq> None"

definition handlePaymentMethodSelect :: "topup_method \<Rightarrow> topup_page \<Rightarrow> topup_page" where
  "handlePaymentMethodSelect m st =
     (if num_lt (tp_amount st) (method_min m st) then st else st\<lparr>tp_method := Some m, tp_open := True\<rparr>)"

definition info_methods :: "topup_page \<Rightarrow> topup_method list" where
  "info_methods st = (case tp_info st of Some i \<Rightarrow> ti_methods i | None \<Rightarrow> [])"

definition handlePricingMethodChange :: "jsstr \<Rightarrow> topup_page \<Rightarrow> topup_page" where
  "handlePricingMethodChange type st =
     (case List.find (\<lambda>m. tm_type m = type) (info_methods st) of
        None \<Rightarrow> st | Some m \<Rightarrow> st\<lparr>tp_method := Some m\<rparr>)"

definition confirm_disabled :: "topup_page \<Rightarrow> bool" where
  "confirm_disabled st \<longleftrightarrow>
     tp_processing st \<or> tp_pancake st \<or> shown_calculating st \<or> num_le (shown_amount st) (num_int 0)"

text \<open>\<open>PaymentSent\<close> logs the amount of the page and the amount that is sent.\<close>

definition handlePaymentConfirm :: "topup_page \<Rightarrow> topup_page" where
  "handlePaymentConfirm st =
     (case tp_method st of None \<Rightarrow> st
      | Some m \<Rightarrow>
          if shown_calculating st \<or> num_le (shown_amount st) (num_int 0) \<or> tp_processing st then st
          else
            let st' = (if isWaffoPancakePayment (tm_type m) then st\<lparr>tp_pancake := True\<rparr> else st\<lparr>tp_processing := True\<rparr>)
            in log_topup (PaymentSent (tp_amount st) (math_floor (tp_amount st)) (tm_type m) (tp_currency st))
                 (st'\<lparr>tp_payments := tp_payments st' @
                    [\<lparr>py_amount = math_floor (tp_amount st), py_type = tm_type m, py_currency = tp_currency st\<rparr>]\<rparr>))"

definition press_confirm :: "topup_page \<Rightarrow> topup_page" where
  "press_confirm st = (if \<not> tp_open st \<or> confirm_disabled st then st else handlePaymentConfirm st)"

definition payment_done ::
  "(jsstr \<Rightarrow> jsstr option) \<Rightarrow> topup_payment \<Rightarrow> jsval + jsval \<Rightarrow> topup_page \<Rightarrow> topup_page" where
  "payment_done protocol p r st =
     (if p \<notin> set (tp_payments st) then st
      else
        let st = st\<lparr>tp_payments := remove1 p (tp_payments st)\<rparr>;
            pancake = isWaffoPancakePayment (py_type p);
            (effects, ok) = (if pancake then pancake_answered protocol r else payment_answered (py_type p) r);
            st = (if pancake then st\<lparr>tp_pancake := False\<rparr> else st\<lparr>tp_processing := False\<rparr>);
            st = st\<lparr>tp_log := tp_log st @ map PaymentShown effects,
                    tp_address := foldl (\<lambda>a e. case e of ShownAddress v \<Rightarrow> Some v | _ \<Rightarrow> a) (tp_address st) effects\<rparr>
        in if ok then log_topup FetchedUser (st\<lparr>tp_open := False\<rparr>) else st)"

subsection \<open>Payments without a quote\<close>

definition waffo_min :: "topup_info \<Rightarrow> jsnum" where
  "waffo_min info = num_or (ti_waffo_min info) (getMinTopupAmount (Some info))"

text \<open>Whether the button with an index is on the page and can be pressed.\<close>

definition waffo_enabled :: "nat \<Rightarrow> topup_page \<Rightarrow> bool" where
  "waffo_enabled i st \<longleftrightarrow>
     (case tp_info st of None \<Rightarrow> False
      | Some info \<Rightarrow> ti_waffo info \<and> i < length (ti_waffo_methods info) \<and> valid_amount (tp_field st) st \<and>
          \<not> num_lt (tp_amount st) (waffo_min info) \<and> tp_loading st = None)"

text \<open>\<open>WaffoSent\<close> logs the amount of the page and the amount that is sent.\<close>

definition handleWaffoMethodSelect :: "nat \<Rightarrow> topup_page \<Rightarrow> topup_page" where
  "handleWaffoMethodSelect i st =
     log_topup (WaffoSent (tp_amount st) (math_floor (tp_amount st)) i)
       (st\<lparr>tp_loading := Some i, tp_others := tp_others st @ [WaffoRequest i]\<rparr>)"

definition waffo_done :: "nat \<Rightarrow> jsval + jsval \<Rightarrow> topup_page \<Rightarrow> topup_page" where
  "waffo_done i r st =
     (if WaffoRequest i \<notin> set (tp_others st) then st
      else st\<lparr>tp_others := remove1 (WaffoRequest i) (tp_others st), tp_loading := None,
             tp_log := tp_log st @ map PaymentShown (waffo_answered r)\<rparr>)"

definition creem_offered :: "creem_product \<Rightarrow> topup_page \<Rightarrow> bool" where
  "creem_offered p st \<longleftrightarrow> (case tp_info st of None \<Rightarrow> False | Some info \<Rightarrow> ti_creem_enabled info \<and> p \<in> set (ti_creem info))"

definition handleCreemProductSelect :: "creem_product \<Rightarrow> topup_page \<Rightarrow> topup_page" where
  "handleCreemProductSelect p st = st\<lparr>tp_creem := Some p, tp_creem_open := True\<rparr>"

definition handleCreemConfirm :: "topup_page \<Rightarrow> topup_page" where
  "handleCreemConfirm st =
     (case tp_creem st of None \<Rightarrow> st
      | Some p \<Rightarrow>
          log_topup (CreemSent (cp_productId p))
            (st\<lparr>tp_creem_processing := True, tp_others := tp_others st @ [CreemRequest (cp_productId p)]\<rparr>))"

definition press_creem_confirm :: "topup_page \<Rightarrow> topup_page" where
  "press_creem_confirm st = (if \<not> tp_creem_open st \<or> tp_creem_processing st then st else handleCreemConfirm st)"

definition creem_done :: "jsstr \<Rightarrow> jsval + jsval \<Rightarrow> topup_page \<Rightarrow> topup_page" where
  "creem_done i r st =
     (if CreemRequest i \<notin> set (tp_others st) then st
      else
        let (effects, ok) = creem_answered r;
            st = st\<lparr>tp_others := remove1 (CreemRequest i) (tp_others st), tp_creem_processing := False,
                    tp_log := tp_log st @ map PaymentShown effects\<rparr>
        in if ok then log_topup FetchedUser (st\<lparr>tp_creem_open := False, tp_creem := None\<rparr>) else st)"

subsection \<open>Events\<close>

datatype topup_event =
    InfoDone "jsval + jsval"
  | PresetChosen preset_amount
  | FieldTyped jsstr
  | MethodPressed topup_method
  | PricingChanged jsstr
  | CurrencyChanged jsstr
  | QuoteDone quote "jsval + jsval"
  | ConfirmPressed
  | DialogClosed
  | PaymentDone topup_payment "jsval + jsval"
  | AddressClosed
  | WaffoPressed nat
  | WaffoDone nat "jsval + jsval"
  | CreemChosen creem_product
  | CreemConfirmPressed
  | CreemClosed
  | CreemDone jsstr "jsval + jsval"

fun topup_event_step :: "(jsstr \<Rightarrow> jsstr option) \<Rightarrow> topup_page \<Rightarrow> topup_event \<Rightarrow> topup_page" where
  "topup_event_step protocol st (InfoDone r) = info_answered r st"
| "topup_event_step protocol st (PresetChosen p) = (if p \<in> set (tp_presets st) then handleSelectPreset p st else st)"
| "topup_event_step protocol st (FieldTyped t) = (if tp_info st = None then st else handleAmountChange t st)"
| "topup_event_step protocol st (MethodPressed m) =
     (if m \<in> set (info_methods st) \<and> \<not> method_disabled m st then handlePaymentMethodSelect m st else st)"
| "topup_event_step protocol st (PricingChanged type) = handlePricingMethodChange type st"
| "topup_event_step protocol st (CurrencyChanged c) = st\<lparr>tp_currency := c\<rparr>"
| "topup_event_step protocol st (QuoteDone q r) = quote_answered q r st"
| "topup_event_step protocol st ConfirmPressed = press_confirm st"
| "topup_event_step protocol st DialogClosed =
     st\<lparr>tp_open := False\<rparr>"
| "topup_event_step protocol st (PaymentDone p r) = payment_done protocol p r st"
| "topup_event_step protocol st AddressClosed = st\<lparr>tp_address := None\<rparr>"
| "topup_event_step protocol st (WaffoPressed i) = (if waffo_enabled i st then handleWaffoMethodSelect i st else st)"
| "topup_event_step protocol st (WaffoDone i r) = waffo_done i r st"
| "topup_event_step protocol st (CreemChosen p) = (if creem_offered p st then handleCreemProductSelect p st else st)"
| "topup_event_step protocol st CreemConfirmPressed = press_creem_confirm st"
| "topup_event_step protocol st CreemClosed = st\<lparr>tp_creem_open := False\<rparr>"
| "topup_event_step protocol st (CreemDone i r) = creem_done i r st"

definition topup_step :: "(jsstr \<Rightarrow> jsstr option) \<Rightarrow> topup_page \<Rightarrow> topup_event \<Rightarrow> topup_page" where
  "topup_step protocol st e = settle (topup_event_step protocol st e)"

definition new_topup_page :: "jsstr \<Rightarrow> topup_page" where
  "new_topup_page currency =
     \<lparr>tp_info = None, tp_presets = [], tp_info_error = False, tp_amount = num_int 0, tp_preset = None, tp_method = None,
      tp_currency = currency, tp_field = js ''0'', tp_sequence = 0, tp_quoted = num_int 0, tp_quote_key = [],
      tp_calculating = False, tp_quotes = [], tp_processing = False, tp_pancake = False, tp_address = None,
      tp_payments = [], tp_open = False, tp_loading = None, tp_creem = None, tp_creem_open = False,
      tp_creem_processing = False, tp_others = [], tp_seen_info = None, tp_seen_amount = None, tp_seen_quote = None, tp_log = []\<rparr>"

definition topup_run :: "(jsstr \<Rightarrow> jsstr option) \<Rightarrow> jsstr \<Rightarrow> topup_event list \<Rightarrow> topup_page" where
  "topup_run protocol currency es = foldl (topup_step protocol) (settle (new_topup_page currency)) es"


section \<open>Properties of the page\<close>

lemma topup_run_snoc: "topup_run protocol currency (es @ [e]) = topup_step protocol (topup_run protocol currency es) e"
  by (simp add: topup_run_def)

text \<open>What an event and the effects leave alone.\<close>

lemma log_topup_fields [simp]:
  "tp_info (log_topup e st) = tp_info st" "tp_presets (log_topup e st) = tp_presets st"
  "tp_amount (log_topup e st) = tp_amount st" "tp_method (log_topup e st) = tp_method st"
  "tp_currency (log_topup e st) = tp_currency st" "tp_field (log_topup e st) = tp_field st"
  "tp_sequence (log_topup e st) = tp_sequence st" "tp_quoted (log_topup e st) = tp_quoted st"
  "tp_quote_key (log_topup e st) = tp_quote_key st" "tp_calculating (log_topup e st) = tp_calculating st"
  "tp_quotes (log_topup e st) = tp_quotes st" "tp_seen_info (log_topup e st) = tp_seen_info st"
  "tp_seen_amount (log_topup e st) = tp_seen_amount st" "tp_seen_quote (log_topup e st) = tp_seen_quote st"
  "tp_log (log_topup e st) = tp_log st @ [e]" "tp_preset (log_topup e st) = tp_preset st"
  by (simp_all add: log_topup_def)

lemma default_fields [simp]:
  "tp_presets (default_effect st) = tp_presets st" "tp_info (default_effect st) = tp_info st"
  "tp_currency (default_effect st) = tp_currency st" "tp_sequence (default_effect st) = tp_sequence st"
  "tp_quoted (default_effect st) = tp_quoted st" "tp_quote_key (default_effect st) = tp_quote_key st"
  "tp_calculating (default_effect st) = tp_calculating st" "tp_quotes (default_effect st) = tp_quotes st"
  "tp_log (default_effect st) = tp_log st" "tp_seen_quote (default_effect st) = tp_seen_quote st"
  by (simp_all add: default_effect_def Let_def split: option.split)

lemma field_fields [simp]:
  "tp_info (field_effect st) = tp_info st" "tp_presets (field_effect st) = tp_presets st"
  "tp_amount (field_effect st) = tp_amount st" "tp_method (field_effect st) = tp_method st"
  "tp_currency (field_effect st) = tp_currency st" "tp_sequence (field_effect st) = tp_sequence st"
  "tp_quoted (field_effect st) = tp_quoted st" "tp_quote_key (field_effect st) = tp_quote_key st"
  "tp_calculating (field_effect st) = tp_calculating st" "tp_quotes (field_effect st) = tp_quotes st"
  "tp_log (field_effect st) = tp_log st" "tp_seen_quote (field_effect st) = tp_seen_quote st"
  "tp_seen_info (field_effect st) = tp_seen_info st"
  by (simp_all add: field_effect_def)

lemma quote_fields [simp]:
  "tp_info (quote_effect st) = tp_info st" "tp_presets (quote_effect st) = tp_presets st"
  "tp_amount (quote_effect st) = tp_amount st" "tp_method (quote_effect st) = tp_method st"
  "tp_currency (quote_effect st) = tp_currency st" "tp_quoted (quote_effect st) = tp_quoted st"
  "tp_quote_key (quote_effect st) = tp_quote_key st" "tp_field (quote_effect st) = tp_field st"
  "tp_seen_info (quote_effect st) = tp_seen_info st" "tp_seen_amount (quote_effect st) = tp_seen_amount st"
  by (simp_all add: quote_effect_def calculatePaymentAmount_def Let_def split: option.split)

text \<open>Payments without a quote leave amount, method, currency and quotes alone, and log no payment of the dialog.\<close>

fun unquoted :: "topup_event \<Rightarrow> bool" where
  "unquoted (WaffoPressed i) = True"
| "unquoted (WaffoDone i r) = True"
| "unquoted (CreemChosen p) = True"
| "unquoted CreemConfirmPressed = True"
| "unquoted CreemClosed = True"
| "unquoted (CreemDone i r) = True"
| "unquoted e = False"

lemmas unquoted_defs = handleWaffoMethodSelect_def waffo_done_def handleCreemProductSelect_def press_creem_confirm_def
  handleCreemConfirm_def creem_done_def log_topup_def

lemma unquoted_frame:
  assumes "unquoted e"
  shows "let st' = topup_event_step protocol st e in
    tp_info st' = tp_info st \<and> tp_amount st' = tp_amount st \<and> tp_method st' = tp_method st \<and> tp_currency st' = tp_currency st \<and>
    tp_sequence st' = tp_sequence st \<and> tp_quoted st' = tp_quoted st \<and> tp_quote_key st' = tp_quote_key st \<and>
    tp_calculating st' = tp_calculating st \<and> tp_quotes st' = tp_quotes st \<and> tp_seen_quote st' = tp_seen_quote st \<and>
    (\<exists>more. tp_log st' = tp_log st @ more \<and> (\<forall>a p t c. PaymentSent a p t c \<notin> set more \<and> QuoteAsked a t c \<notin> set more))"
  using assms by (cases e) (auto simp: unquoted_defs Let_def split: option.splits prod.splits)

subsection \<open>Settled pages\<close>

definition settled :: "topup_page \<Rightarrow> bool" where
  "settled st \<longleftrightarrow>
     tp_seen_info st = Some (tp_info st, tp_amount st, tp_currency st) \<and> tp_seen_amount st = Some (tp_amount st) \<and>
     tp_seen_quote st = Some (tp_method st, tp_currency st, tp_amount st)"

lemma settled_settle: "settled (settle st)"
proof -
  have "tp_seen_info (default_effect st) = Some (tp_info (default_effect st), tp_amount (default_effect st), tp_currency (default_effect st))"
    by (auto simp: default_effect_def Let_def split: option.split)
  moreover have "tp_seen_amount (field_effect x) = Some (tp_amount x)" for x
    by (simp add: field_effect_def)
  moreover have "tp_seen_quote (quote_effect x) = Some (tp_method x, tp_currency x, tp_amount x)" for x
    by (simp add: quote_effect_def calculatePaymentAmount_def Let_def split: option.split)
  ultimately show ?thesis by (simp add: settled_def settle_def)
qed

lemma settle_settled: "settled st \<Longrightarrow> settle st = st"
  by (simp add: settled_def settle_def default_effect_def field_effect_def quote_effect_def)

lemma settled_run: "settled (topup_run protocol currency es)"
  by (cases es rule: rev_cases) (simp_all add: topup_run_def topup_step_def settled_settle)

subsection \<open>Payments and quotes\<close>

lemma quote_key_nonempty [simp]: "quote_key a t c \<noteq> []" "[] \<noteq> quote_key a t c"
  by (simp_all add: quote_key_def)

lemma quote_key_inj:
  assumes "quote_key a t c = quote_key a' t' c'"
    and "plain (JArr [JNum a, JStr t, JStr c])" and "plain (JArr [JNum a', JStr t', JStr c'])"
  shows "a = a' \<and> t = t' \<and> c = c'"
proof -
  have "JArr [JNum a, JStr t, JStr c] = JArr [JNum a', JStr t', JStr c']"
    using json_roundtrip [OF assms(2)] json_roundtrip [OF assms(3)] assms(1) unfolding quote_key_def by (metis option.inject)
  then show ?thesis by simp
qed

definition asked_quote :: "topup_page \<Rightarrow> quote \<Rightarrow> bool" where
  "asked_quote st q \<longleftrightarrow> QuoteAsked (qu_amount q) (qu_type q) (qu_currency q) \<in> set (tp_log st)"

definition key_of :: "quote \<Rightarrow> jsstr" where
  "key_of q = quote_key (qu_amount q) (qu_type q) (qu_currency q)"

text \<open>Everything quoted was asked and answered, and every payment was quoted.\<close>

definition quotes_ok :: "topup_event list \<Rightarrow> topup_page \<Rightarrow> bool" where
  "quotes_ok es st \<longleftrightarrow>
     (\<forall>q \<in> set (tp_quotes st). asked_quote st q) \<and>
     (tp_quote_key st \<noteq> [] \<longrightarrow>
        (\<exists>q r. QuoteDone q r \<in> set es \<and> asked_quote st q \<and> tp_quote_key st = key_of q \<and> tp_quoted st = quoted_amount r)) \<and>
     (\<forall>a paid t c. PaymentSent a paid t c \<in> set (tp_log st) \<longrightarrow> paid = math_floor a \<and>
        (\<exists>q r. QuoteDone q r \<in> set es \<and> asked_quote st q \<and> key_of q = quote_key a t c \<and>
           \<not> num_le (quoted_amount r) (num_int 0)))"

text \<open>Steps that leave quotes alone and log no payment.\<close>

lemma quotes_ok_quiet:
  assumes "quotes_ok es st" and "set es \<subseteq> set es'" and "tp_quotes st' = tp_quotes st"
    and "tp_quote_key st' = tp_quote_key st" and "tp_quoted st' = tp_quoted st"
    and "\<exists>more. tp_log st' = tp_log st @ more \<and> (\<forall>a p t c. PaymentSent a p t c \<notin> set more)"
  shows "quotes_ok es' st'"
proof -
  obtain more where more: "tp_log st' = tp_log st @ more" "\<And>a p t c. PaymentSent a p t c \<notin> set more"
    using assms(6) by blast
  have asked: "asked_quote st q \<Longrightarrow> asked_quote st' q" for q by (simp add: asked_quote_def more(1))
  show ?thesis unfolding quotes_ok_def assms(3-5)
  proof (intro conjI ballI impI allI)
    fix a paid t c
    assume "PaymentSent a paid t c \<in> set (tp_log st')"
    then have "PaymentSent a paid t c \<in> set (tp_log st)" using more by auto
    then show "paid = math_floor a" "\<exists>q r. QuoteDone q r \<in> set es' \<and> asked_quote st' q \<and> key_of q = quote_key a t c \<and>
        \<not> num_le (quoted_amount r) (num_int 0)"
      using assms(1,2) asked unfolding quotes_ok_def by blast+
  qed (use assms(1,2) asked in \<open>unfold quotes_ok_def, blast+\<close>)
qed

lemma log_kept_settle: "e \<in> set (tp_log st) \<Longrightarrow> e \<in> set (tp_log (settle st))"
proof -
  assume "e \<in> set (tp_log st)"
  then have "e \<in> set (tp_log (field_effect (default_effect st)))" by simp
  moreover have "set (tp_log x) \<subseteq> set (tp_log (quote_effect x))" for x
    by (auto simp: quote_effect_def Let_def calculatePaymentAmount_def split: option.split)
  ultimately show ?thesis unfolding settle_def by (rule subsetD [rotated])
qed

lemma quotes_ok_settle:
  assumes "quotes_ok es st"
  shows "quotes_ok es (settle st)"
proof -
  define x where "x = field_effect (default_effect st)"
  have x: "quotes_ok es x" by (rule quotes_ok_quiet [OF assms]) (simp_all add: x_def)
  have "quotes_ok es (quote_effect x)"
  proof (cases "quote_effect x = x \<or> quote_effect x = x\<lparr>tp_seen_quote := Some (tp_method x, tp_currency x, tp_amount x)\<rparr>")
    case True
    then show ?thesis using x quotes_ok_quiet [OF x] by auto
  next
    case False
    then obtain a t c where e: "quote_effect x =
        calculatePaymentAmount a t c (x\<lparr>tp_seen_quote := Some (tp_method x, tp_currency x, tp_amount x)\<rparr>)"
      by (auto simp: quote_effect_def Let_def split: option.splits if_splits)
    show ?thesis using x unfolding e
      by (auto simp: quotes_ok_def calculatePaymentAmount_def asked_quote_def) blast+
  qed
  then show ?thesis by (simp add: settle_def x_def)
qed

lemma quotes_ok_answer:
  assumes "quotes_ok es st"
  shows "quotes_ok (es @ [QuoteDone q r]) (quote_answered q r st)"
proof (cases "q \<in> set (tp_quotes st)")
  case False
  then show ?thesis by (intro quotes_ok_quiet [OF assms]) (auto simp: quote_answered_def)
next
  case True
  have asked: "asked_quote st q" using assms True by (simp add: quotes_ok_def)
  have same: "asked_quote (quote_answered q r st) = asked_quote st"
    by (simp add: fun_eq_iff asked_quote_def quote_answered_def Let_def)
  have rest: "x \<in> set (tp_quotes (quote_answered q r st)) \<Longrightarrow> x \<in> set (tp_quotes st)" for x
    by (auto simp: quote_answered_def Let_def split: if_splits dest: set_remove1_subset [THEN subsetD])
  have log: "tp_log (quote_answered q r st) = tp_log st" by (simp add: quote_answered_def Let_def)
  have key: "tp_quote_key (quote_answered q r st) = tp_quote_key st \<and> tp_quoted (quote_answered q r st) = tp_quoted st \<or>
    tp_quote_key (quote_answered q r st) = key_of q \<and> tp_quoted (quote_answered q r st) = quoted_amount r"
    by (simp add: quote_answered_def Let_def key_of_def)
  show ?thesis unfolding quotes_ok_def same log
  proof (intro conjI ballI impI allI)
    assume "tp_quote_key (quote_answered q r st) \<noteq> []"
    with key assms asked show "\<exists>p s. QuoteDone p s \<in> set (es @ [QuoteDone q r]) \<and> asked_quote st p \<and>
      tp_quote_key (quote_answered q r st) = key_of p \<and> tp_quoted (quote_answered q r st) = quoted_amount s"
      unfolding quotes_ok_def by (metis UnCI list.set_intros(1) set_append)
  qed (use assms rest in \<open>unfold quotes_ok_def set_append, blast+\<close>)
qed

lemma quotes_ok_confirm:
  assumes "quotes_ok es st"
  shows "quotes_ok es (press_confirm st)"
proof (cases "press_confirm st = st")
  case True
  with assms show ?thesis by simp
next
  case False
  then obtain m where m: "tp_method st = Some m" "\<not> confirm_disabled st"
    by (auto simp: press_confirm_def handlePaymentConfirm_def split: option.splits if_splits)
  then have shown: "\<not> num_le (shown_amount st) (num_int 0)" by (simp add: confirm_disabled_def)
  then have "tp_quote_key st = currentQuoteKey st" by (auto simp: shown_amount_def num_le_def num_eq_def num_int_def split: if_splits)
  then have key: "tp_quote_key st = quote_key (tp_amount st) (tm_type m) (tp_currency st)" "tp_quoted st = shown_amount st"
    by (simp_all add: currentQuoteKey_def method_type_def m(1) shown_amount_def)
  obtain q r where qr: "QuoteDone q r \<in> set es" "asked_quote st q" "tp_quote_key st = key_of q" "tp_quoted st = quoted_amount r"
    using assms key(1) unfolding quotes_ok_def by (metis quote_key_nonempty)
  let ?p = "PaymentSent (tp_amount st) (math_floor (tp_amount st)) (tm_type m) (tp_currency st)"
  have log: "tp_log (press_confirm st) = tp_log st @ [?p]"
    and same: "tp_quotes (press_confirm st) = tp_quotes st" "tp_quote_key (press_confirm st) = tp_quote_key st"
      "tp_quoted (press_confirm st) = tp_quoted st"
    using False m by (auto simp: press_confirm_def handlePaymentConfirm_def Let_def log_topup_def split: if_splits)
  have asked: "asked_quote (press_confirm st) = asked_quote st" by (simp add: fun_eq_iff asked_quote_def log)
  show ?thesis unfolding quotes_ok_def asked log same
  proof (intro conjI allI impI)
    fix a paid t c
    assume "PaymentSent a paid t c \<in> set (tp_log st @ [?p])"
    then consider "PaymentSent a paid t c \<in> set (tp_log st)" | "PaymentSent a paid t c = ?p" by auto
    then have "paid = math_floor a \<and> (\<exists>q r. QuoteDone q r \<in> set es \<and> asked_quote st q \<and> key_of q = quote_key a t c \<and>
        \<not> num_le (quoted_amount r) (num_int 0))"
    proof cases
      case 1
      then show ?thesis using assms unfolding quotes_ok_def by blast
    next
      case 2
      then show ?thesis using qr key shown by auto
    qed
    then show "paid = math_floor a" "\<exists>q r. QuoteDone q r \<in> set es \<and> asked_quote st q \<and> key_of q = quote_key a t c \<and>
        \<not> num_le (quoted_amount r) (num_int 0)" by blast+
  qed (use assms in \<open>unfold quotes_ok_def, blast+\<close>)
qed

text \<open>What an event other than the answer to a quote does to the quotes: nothing.\<close>

definition same_quotes :: "topup_page \<Rightarrow> topup_page \<Rightarrow> bool" where
  "same_quotes st st' \<longleftrightarrow>
     tp_quotes st' = tp_quotes st \<and> tp_sequence st' = tp_sequence st \<and> tp_calculating st' = tp_calculating st \<and>
     tp_quote_key st' = tp_quote_key st \<and> tp_quoted st' = tp_quoted st \<and> tp_seen_quote st' = tp_seen_quote st"

lemma event_same_quotes:
  assumes "\<And>q r. e \<noteq> QuoteDone q r"
  shows "same_quotes st (topup_event_step protocol st e)"
proof (cases "unquoted e")
  case True
  then show ?thesis using unquoted_frame [OF True, of protocol st] by (simp add: Let_def same_quotes_def)
next
  case False
  then show ?thesis using assms
  by (cases e)
    (auto simp: same_quotes_def info_answered_def Let_def handleSelectPreset_def handleAmountChange_def
      handlePaymentMethodSelect_def handlePricingMethodChange_def press_confirm_def handlePaymentConfirm_def payment_done_def
      log_topup_def split: sum.splits option.splits prod.splits)
qed

text \<open>Events that log no payment of the dialog.\<close>

lemma event_log:
  "\<exists>more. tp_log (topup_event_step protocol st e) = tp_log st @ more \<and>
     (e \<noteq> ConfirmPressed \<longrightarrow> (\<forall>a p t c. PaymentSent a p t c \<notin> set more)) \<and> (\<forall>a t c. QuoteAsked a t c \<notin> set more)"
proof (cases "unquoted e")
  case True
  then show ?thesis using unquoted_frame [OF True, of protocol st] by (auto simp: Let_def)
next
  case False
  then show ?thesis
    by (cases e)
      (auto simp: info_answered_def Let_def handleSelectPreset_def handleAmountChange_def handlePaymentMethodSelect_def
        handlePricingMethodChange_def press_confirm_def handlePaymentConfirm_def payment_done_def quote_answered_def
        log_topup_def split: sum.splits option.splits prod.splits)
qed

lemma quotes_ok_event:
  assumes "quotes_ok es st"
  shows "quotes_ok (es @ [e]) (topup_event_step protocol st e)"
proof (cases "e = ConfirmPressed \<or> (\<exists>q r. e = QuoteDone q r)")
  case True
  have "set es \<subseteq> set (es @ [e])" by auto
  with True show ?thesis
    using quotes_ok_answer [OF assms] quotes_ok_quiet [OF quotes_ok_confirm [OF assms], of "es @ [e]" "press_confirm st"] by auto
next
  case False
  then have "same_quotes st (topup_event_step protocol st e)" using event_same_quotes by blast
  then show ?thesis using event_log [of protocol st e] False by (intro quotes_ok_quiet [OF assms]) (auto simp: same_quotes_def)
qed

lemma quotes_ok_run: "quotes_ok es (topup_run protocol currency es)"
proof (induction es rule: rev_induct)
  case Nil
  have "quotes_ok [] (new_topup_page currency)" by (simp add: quotes_ok_def new_topup_page_def)
  then show ?case using quotes_ok_settle by (simp add: topup_run_def)
next
  case (snoc e es)
  then show ?case using quotes_ok_settle [OF quotes_ok_event] by (simp add: topup_run_snoc topup_step_def)
qed

subsection \<open>The sum settles\<close>

definition current_inputs :: "topup_page \<Rightarrow> quote \<Rightarrow> bool" where
  "current_inputs st q \<longleftrightarrow>
     (\<exists>m. tp_method st = Some m \<and> qu_type q = tm_type m) \<and> qu_amount q = tp_amount st \<and> qu_currency q = tp_currency st"

lemma current_key: "current_inputs st q \<Longrightarrow> key_of q = currentQuoteKey st"
  by (auto simp: current_inputs_def key_of_def currentQuoteKey_def method_type_def)

text \<open>The latest quote in flight is for the current inputs, or they are quoted already; and only a quote in flight makes the
  page calculate.\<close>

definition quoting_ok :: "topup_page \<Rightarrow> bool" where
  "quoting_ok st \<longleftrightarrow>
     distinct (map qu_sequence (tp_quotes st)) \<and> (\<forall>q \<in> set (tp_quotes st). qu_sequence q \<le> tp_sequence st) \<and>
     (tp_calculating st \<longrightarrow> (\<exists>q \<in> set (tp_quotes st). qu_sequence q = tp_sequence st)) \<and>
     (tp_method st \<noteq> None \<and> num_lt (num_int 0) (tp_amount st) \<longrightarrow>
        (\<forall>q \<in> set (tp_quotes st). qu_sequence q = tp_sequence st \<longrightarrow> current_inputs st q) \<and>
        (tp_quote_key st = currentQuoteKey st \<or> (\<exists>q \<in> set (tp_quotes st). qu_sequence q = tp_sequence st)))"

lemma quoting_settle:
  assumes "settled st" and "quoting_ok st" and "same_quotes st x"
  shows "quoting_ok (settle x)"
proof -
  define y where "y = field_effect (default_effect x)"
  have y: "same_quotes st y" using assms(3) by (simp add: same_quotes_def y_def)
  have seen: "tp_seen_quote y = Some (tp_method st, tp_currency st, tp_amount st)"
    using y assms(1) by (simp add: same_quotes_def settled_def)
  have "quoting_ok (quote_effect y)"
  proof (cases "tp_seen_quote y = Some (tp_method y, tp_currency y, tp_amount y)")
    case True
    then have e: "tp_method y = tp_method st" "tp_currency y = tp_currency st" "tp_amount y = tp_amount st" using seen by auto
    then have "current_inputs y = current_inputs st" "currentQuoteKey y = currentQuoteKey st"
      by (simp_all add: fun_eq_iff current_inputs_def currentQuoteKey_def method_type_def)
    then have "quoting_ok y" using assms(2) y e unfolding quoting_ok_def same_quotes_def by simp
    then show ?thesis using True by (simp add: quote_effect_def)
  next
    case False
    have base: "distinct (map qu_sequence (tp_quotes y))" "\<forall>q \<in> set (tp_quotes y). qu_sequence q \<le> tp_sequence y"
      "tp_calculating y \<longrightarrow> (\<exists>q \<in> set (tp_quotes y). qu_sequence q = tp_sequence y)"
      using assms(2) y by (simp_all add: quoting_ok_def same_quotes_def)
    show ?thesis
    proof (cases "tp_method y")
      case None
      then show ?thesis using False base by (simp add: quote_effect_def Let_def quoting_ok_def)
    next
      case (Some m)
      show ?thesis using False base Some
        by (auto simp: quote_effect_def Let_def quoting_ok_def calculatePaymentAmount_def current_inputs_def)
    qed
  qed
  then show ?thesis by (simp add: settle_def y_def)
qed

lemma quoting_answer:
  assumes "settled st" and "quoting_ok st"
  shows "quoting_ok (settle (quote_answered q r st))"
proof -
  let ?x = "quote_answered q r st"
  have "settled ?x" using assms(1) by (simp add: settled_def quote_answered_def Let_def)
  then have s: "settle ?x = ?x" by (rule settle_settled)
  show ?thesis
  proof (cases "q \<in> set (tp_quotes st)")
    case False
    then show ?thesis using assms(2) s by (simp add: quote_answered_def)
  next
    case True
    have d: "distinct (map qu_sequence (tp_quotes st))" using assms(2) by (simp add: quoting_ok_def)
    have d': "distinct (map qu_sequence (remove1 q (tp_quotes st)))"
      using d by (auto simp: distinct_map intro: inj_on_subset)
    have rest: "p \<in> set (remove1 q (tp_quotes st)) \<longleftrightarrow> p \<in> set (tp_quotes st) \<and> p \<noteq> q" for p
      using d by (auto simp: distinct_map)
    have uniq: "p \<in> set (tp_quotes st) \<Longrightarrow> qu_sequence p = qu_sequence q \<Longrightarrow> p = q" for p
      using d True by (auto simp: distinct_map inj_on_def)
    show ?thesis
    proof (cases "qu_sequence q = tp_sequence st")
      case True
      note latest = this
      have k: "current_inputs ?x p = current_inputs st p" "currentQuoteKey ?x = currentQuoteKey st" for p
        by (simp_all add: current_inputs_def currentQuoteKey_def method_type_def quote_answered_def Let_def)
      have "tp_method st \<noteq> None \<and> num_lt (num_int 0) (tp_amount st) \<longrightarrow> key_of q = currentQuoteKey st"
        using assms(2) \<open>q \<in> set (tp_quotes st)\<close> latest current_key unfolding quoting_ok_def by blast
      moreover have x: "tp_quotes ?x = remove1 q (tp_quotes st)" "tp_sequence ?x = tp_sequence st" "\<not> tp_calculating ?x"
        "tp_quote_key ?x = key_of q" "tp_method ?x = tp_method st" "tp_amount ?x = tp_amount st"
        using \<open>q \<in> set (tp_quotes st)\<close> latest by (simp_all add: quote_answered_def Let_def key_of_def)
      moreover have "\<forall>p \<in> set (remove1 q (tp_quotes st)). qu_sequence p \<noteq> tp_sequence st"
        using uniq rest latest by metis
      moreover have "\<forall>p \<in> set (remove1 q (tp_quotes st)). qu_sequence p \<le> tp_sequence st"
        using assms(2) rest unfolding quoting_ok_def by blast
      ultimately have "quoting_ok ?x" unfolding quoting_ok_def k x using d' by blast
      then show ?thesis by (simp add: s)
    next
      case False
      have k: "current_inputs ?x p = current_inputs st p" "currentQuoteKey ?x = currentQuoteKey st" for p
        by (simp_all add: current_inputs_def currentQuoteKey_def method_type_def quote_answered_def Let_def)
      have x: "tp_quotes ?x = remove1 q (tp_quotes st)" "tp_sequence ?x = tp_sequence st" "tp_calculating ?x = tp_calculating st"
        "tp_quote_key ?x = tp_quote_key st" "tp_method ?x = tp_method st" "tp_amount ?x = tp_amount st"
        using \<open>q \<in> set (tp_quotes st)\<close> False by (simp_all add: quote_answered_def Let_def)
      have "quoting_ok ?x" unfolding quoting_ok_def k x using assms(2) False d' rest
        by (auto simp: quoting_ok_def)
      then show ?thesis by (simp add: s)
    qed
  qed
qed

lemma quoting_run: "quoting_ok (topup_run protocol currency es)"
proof (induction es rule: rev_induct)
  case Nil
  have "quoting_ok (settle (new_topup_page currency))"
    by (simp add: settle_def new_topup_page_def default_effect_def field_effect_def quote_effect_def quoting_ok_def)
  then show ?case by (simp add: topup_run_def)
next
  case (snoc e es)
  show ?case
  proof (cases "\<exists>q r. e = QuoteDone q r")
    case True
    then show ?thesis using quoting_answer [OF settled_run snoc.IH] by (auto simp: topup_run_snoc topup_step_def)
  next
    case False
    then show ?thesis using quoting_settle [OF settled_run snoc.IH event_same_quotes] by (simp add: topup_run_snoc topup_step_def)
  qed
qed

subsection \<open>What is paid was quoted\<close>

definition quotes_inputs :: "quote \<Rightarrow> jsnum \<Rightarrow> jsstr \<Rightarrow> jsstr \<Rightarrow> bool" where
  "quotes_inputs q a t c \<longleftrightarrow> qu_amount q = a \<and> qu_type q = t \<and> qu_currency q = c"

text \<open>A page that does not calculate has the answer to a quote for its very inputs, and so had every payment.\<close>

definition quoted_now :: "topup_event list \<Rightarrow> topup_page \<Rightarrow> bool" where
  "quoted_now es st \<longleftrightarrow>
     (tp_method st \<noteq> None \<and> num_lt (num_int 0) (tp_amount st) \<and> \<not> tp_calculating st \<longrightarrow>
        (\<exists>q r. QuoteDone q r \<in> set es \<and> asked_quote st q \<and> current_inputs st q \<and> tp_quoted st = quoted_amount r))"

definition payments_quoted :: "topup_event list \<Rightarrow> topup_page \<Rightarrow> bool" where
  "payments_quoted es st \<longleftrightarrow>
     (\<forall>a paid t c. PaymentSent a paid t c \<in> set (tp_log st) \<and> num_lt (num_int 0) a \<longrightarrow>
        (\<exists>q r. QuoteDone q r \<in> set es \<and> asked_quote st q \<and> quotes_inputs q a t c \<and> \<not> num_le (quoted_amount r) (num_int 0)))"

lemma asked_more: "set (tp_log st) \<subseteq> set (tp_log st') \<Longrightarrow> asked_quote st q \<Longrightarrow> asked_quote st' q"
  by (auto simp: asked_quote_def)

lemma log_grows_settle: "set (tp_log st) \<subseteq> set (tp_log (settle st))"
  using log_kept_settle by blast

lemma settle_log: "PaymentSent a p t c \<in> set (tp_log (settle st)) \<longleftrightarrow> PaymentSent a p t c \<in> set (tp_log st)"
  by (auto simp: settle_def quote_effect_def calculatePaymentAmount_def Let_def split: option.split)

lemma quoted_now_settle:
  assumes "settled st" and "quoted_now es st" and "same_quotes st x" and "set (tp_log st) \<subseteq> set (tp_log x)"
  shows "quoted_now es (settle x)"
proof -
  define y where "y = field_effect (default_effect x)"
  have y: "same_quotes st y" using assms(3) by (simp add: same_quotes_def y_def)
  have seen: "tp_seen_quote y = Some (tp_method st, tp_currency st, tp_amount st)"
    using y assms(1) by (simp add: same_quotes_def settled_def)
  have log: "set (tp_log st) \<subseteq> set (tp_log (quote_effect y))"
    using assms(4) log_grows_settle [of x] by (simp add: settle_def y_def)
  have "quoted_now es (quote_effect y)"
  proof (cases "tp_seen_quote y = Some (tp_method y, tp_currency y, tp_amount y)")
    case True
    then have "tp_method y = tp_method st" "tp_currency y = tp_currency st" "tp_amount y = tp_amount st" using seen by auto
    then have "quoted_now es y" using assms(2) y log asked_more [of st y] True
      by (auto simp: quoted_now_def same_quotes_def current_inputs_def quote_effect_def)
    then show ?thesis using True by (simp add: quote_effect_def)
  next
    case False
    then show ?thesis
      by (auto simp: quoted_now_def quote_effect_def calculatePaymentAmount_def Let_def split: option.splits)
  qed
  then show ?thesis by (simp add: settle_def y_def)
qed

lemma payments_quoted_settle:
  assumes "payments_quoted es st"
  shows "payments_quoted es (settle st)"
  using assms asked_more [OF log_grows_settle] unfolding payments_quoted_def settle_log by blast

lemma quoted_now_answer:
  assumes "quoted_now es st" and "quoting_ok st" and "quotes_ok es st"
  shows "quoted_now (es @ [QuoteDone q r]) (quote_answered q r st)"
proof (cases "q \<in> set (tp_quotes st) \<and> qu_sequence q = tp_sequence st")
  case True
  then have x: "tp_method (quote_answered q r st) = tp_method st" "tp_amount (quote_answered q r st) = tp_amount st"
    "tp_quoted (quote_answered q r st) = quoted_amount r" "tp_log (quote_answered q r st) = tp_log st"
    "current_inputs (quote_answered q r st) q = current_inputs st q"
    by (simp_all add: quote_answered_def Let_def current_inputs_def)
  have "asked_quote st q" using assms(3) True by (simp add: quotes_ok_def)
  moreover have "tp_method st \<noteq> None \<and> num_lt (num_int 0) (tp_amount st) \<longrightarrow> current_inputs st q"
    using assms(2) True by (auto simp: quoting_ok_def)
  ultimately have "tp_method st \<noteq> None \<and> num_lt (num_int 0) (tp_amount st) \<longrightarrow>
    asked_quote (quote_answered q r st) q \<and> current_inputs (quote_answered q r st) q" by (simp add: x asked_quote_def)
  then show ?thesis unfolding quoted_now_def x(1-3) by auto
next
  case False
  then have x: "tp_method (quote_answered q r st) = tp_method st" "tp_amount (quote_answered q r st) = tp_amount st"
    "tp_quoted (quote_answered q r st) = tp_quoted st" "tp_calculating (quote_answered q r st) = tp_calculating st"
    "tp_log (quote_answered q r st) = tp_log st" "current_inputs (quote_answered q r st) p = current_inputs st p" for p
    by (auto simp: quote_answered_def Let_def current_inputs_def)
  show ?thesis using assms(1) unfolding quoted_now_def x asked_quote_def by auto
qed

lemma payments_quoted_confirm:
  assumes "payments_quoted es st" and "quoted_now es st"
  shows "payments_quoted es (press_confirm st)"
proof (cases "press_confirm st = st")
  case True
  with assms show ?thesis by simp
next
  case False
  then obtain m where m: "tp_method st = Some m" "\<not> confirm_disabled st"
    by (auto simp: press_confirm_def handlePaymentConfirm_def split: option.splits if_splits)
  then have shown: "\<not> num_le (shown_amount st) (num_int 0)" "\<not> tp_calculating st"
    by (simp_all add: confirm_disabled_def shown_calculating_def)
  then have sum: "shown_amount st = tp_quoted st"
    by (auto simp: shown_amount_def num_le_def num_eq_def num_int_def split: if_splits)
  let ?p = "PaymentSent (tp_amount st) (math_floor (tp_amount st)) (tm_type m) (tp_currency st)"
  have log: "tp_log (press_confirm st) = tp_log st @ [?p]"
    using False m by (auto simp: press_confirm_def handlePaymentConfirm_def Let_def log_topup_def split: if_splits)
  have asked: "asked_quote (press_confirm st) = asked_quote st" by (simp add: fun_eq_iff asked_quote_def log)
  show ?thesis unfolding payments_quoted_def asked log
  proof (intro allI impI)
    fix a paid t c
    assume p: "PaymentSent a paid t c \<in> set (tp_log st @ [?p]) \<and> num_lt (num_int 0) a"
    show "\<exists>q r. QuoteDone q r \<in> set es \<and> asked_quote st q \<and> quotes_inputs q a t c \<and> \<not> num_le (quoted_amount r) (num_int 0)"
    proof (cases "PaymentSent a paid t c \<in> set (tp_log st)")
      case True
      then show ?thesis using assms(1) p unfolding payments_quoted_def by blast
    next
      case False
      then have "a = tp_amount st" "t = tm_type m" "c = tp_currency st" using p by auto
      moreover have "\<exists>q r. QuoteDone q r \<in> set es \<and> asked_quote st q \<and> current_inputs st q \<and> tp_quoted st = quoted_amount r"
        using assms(2) p m(1) shown(2) calculation(1) by (simp add: quoted_now_def)
      moreover have "current_inputs st q \<Longrightarrow> quotes_inputs q (tp_amount st) (tm_type m) (tp_currency st)" for q
        using m(1) by (simp add: current_inputs_def quotes_inputs_def)
      ultimately show ?thesis using shown(1) sum by metis
    qed
  qed
qed

lemma payments_quoted_event:
  assumes "payments_quoted es st" and "quoted_now es st"
  shows "payments_quoted (es @ [e]) (topup_event_step protocol st e)"
proof (cases "e = ConfirmPressed")
  case True
  then show ?thesis using payments_quoted_confirm [OF assms] unfolding payments_quoted_def by auto
next
  case False
  then obtain more where more: "tp_log (topup_event_step protocol st e) = tp_log st @ more"
    "\<And>a p t c. PaymentSent a p t c \<notin> set more" using event_log [of protocol st e] by blast
  have "asked_quote st q \<Longrightarrow> asked_quote (topup_event_step protocol st e) q" for q by (simp add: asked_quote_def more(1))
  moreover have "PaymentSent a p t c \<in> set (tp_log (topup_event_step protocol st e)) \<Longrightarrow> PaymentSent a p t c \<in> set (tp_log st)"
    for a p t c using more by auto
  ultimately show ?thesis using assms(1) unfolding payments_quoted_def by (metis UnCI set_append)
qed

lemma quoted_run:
  "quoted_now es (topup_run protocol currency es) \<and> payments_quoted es (topup_run protocol currency es)"
proof (induction es rule: rev_induct)
  case Nil
  have "quoted_now [] (settle (new_topup_page currency)) \<and> payments_quoted [] (settle (new_topup_page currency))"
    by (simp add: settle_def new_topup_page_def default_effect_def field_effect_def quote_effect_def quoted_now_def
        payments_quoted_def)
  then show ?case by (simp add: topup_run_def)
next
  case (snoc e es)
  let ?st = "topup_run protocol currency es"
  have "payments_quoted (es @ [e]) (settle (topup_event_step protocol ?st e))"
    using payments_quoted_settle [OF payments_quoted_event] snoc.IH by blast
  moreover have "quoted_now (es @ [e]) (settle (topup_event_step protocol ?st e))"
  proof (cases "\<exists>q r. e = QuoteDone q r")
    case True
    then obtain q r where e: "e = QuoteDone q r" by blast
    have "settled (quote_answered q r ?st)"
      using settled_run [of protocol currency es] by (simp add: settled_def quote_answered_def Let_def)
    then show ?thesis using quoted_now_answer [OF _ quoting_run quotes_ok_run] snoc.IH by (simp add: e settle_settled)
  next
    case False
    have "set (tp_log ?st) \<subseteq> set (tp_log (topup_event_step protocol ?st e))" using event_log [of protocol ?st e] by auto
    then have "quoted_now es (settle (topup_event_step protocol ?st e))"
      using quoted_now_settle [OF settled_run _ event_same_quotes] snoc.IH False by blast
    then show ?thesis by (auto simp: quoted_now_def)
  qed
  ultimately show ?case by (simp add: topup_run_snoc topup_step_def)
qed

lemma unordered_positive: "\<not> num_le x (num_int 0) \<Longrightarrow> num_lt (num_int 0) x \<or> x = NaN"
  by (cases x) (auto simp: num_le_def num_eq_def num_int_def)

text \<open>A sum that is no number does not lock the button: \<open>NaN <= 0\<close> is false.\<close>

lemma nan_sum_confirms:
  assumes "tp_quote_key st = currentQuoteKey st" and "tp_quoted st = NaN" and "\<not> tp_calculating st"
    and "\<not> tp_processing st" and "\<not> tp_pancake st"
  shows "\<not> confirm_disabled st"
  using assms by (simp add: confirm_disabled_def shown_calculating_def shown_amount_def num_le_def num_eq_def)

text \<open>C2. What is confirmed was quoted. Whatever the user does and in whatever order the server answers, Waffo's own
  buttons and Creem's products included, which pay without a quote: when the dialog sends a payment, the server has
  answered a quote that was asked with the same texts of amount, method and currency, and, for a positive amount, with exactly the same
  amount, method and currency; the answer was a success, the sum it named is positive or no number, and what is sent is the
  floor of the amount.\<close>

theorem payment_as_quoted:
  assumes "PaymentSent a paid t c \<in> set (tp_log (topup_run protocol currency es))"
  shows "paid = math_floor a \<and>
    (\<exists>q response. QuoteDone q (Inr response) \<in> set es \<and> asked_quote (topup_run protocol currency es) q \<and>
       isApiSuccess response \<and>
       (let sum = parseFloat (obj_get response (js ''data'')) in num_lt (num_int 0) sum \<or> sum = NaN) \<and>
       key_of q = quote_key a t c \<and>
       (num_lt (num_int 0) a \<longrightarrow> qu_amount q = a \<and> qu_type q = t \<and> qu_currency q = c))"
proof -
  let ?st = "topup_run protocol currency es"
  have "paid = math_floor a \<and> (\<exists>q r. QuoteDone q r \<in> set es \<and> asked_quote ?st q \<and> key_of q = quote_key a t c \<and>
      \<not> num_le (quoted_amount r) (num_int 0))"
    using quotes_ok_run [of es protocol currency] assms unfolding quotes_ok_def by blast
  moreover have "num_lt (num_int 0) a \<Longrightarrow> \<exists>q r. QuoteDone q r \<in> set es \<and> asked_quote ?st q \<and> quotes_inputs q a t c \<and>
      \<not> num_le (quoted_amount r) (num_int 0)"
    using quoted_run [of es protocol currency] assms unfolding payments_quoted_def by blast
  moreover have "quotes_inputs q a t c \<Longrightarrow> key_of q = quote_key a t c" for q by (auto simp: quotes_inputs_def key_of_def)
  ultimately obtain q r where qr: "paid = math_floor a" "QuoteDone q r \<in> set es" "asked_quote ?st q"
    "key_of q = quote_key a t c" "\<not> num_le (quoted_amount r) (num_int 0)" "num_lt (num_int 0) a \<longrightarrow> quotes_inputs q a t c"
    by (cases "num_lt (num_int 0) a") blast+
  then obtain response where "r = Inr response" "isApiSuccess response"
    "quoted_amount r = parseFloat (obj_get response (js ''data''))"
    by (auto simp: quoted_amount_def num_le_def num_eq_def num_int_def split: sum.splits if_splits)
  then show ?thesis using qr unordered_positive [OF qr(5)] unfolding quotes_inputs_def Let_def by metis
qed

subsection \<open>The sum shown\<close>

text \<open>C25. The sum shown settles. Whatever has happened before: once every quote that was asked has been answered, in any
  order and with any answers, a page with a method chosen is no longer calculating; the sum it shows is the answer to
  a quote for exactly the inputs on the page.\<close>

theorem shown_sum_settles:
  assumes "tp_quotes (topup_run protocol currency es) = []" and "tp_method (topup_run protocol currency es) = Some m"
    and "num_lt (num_int 0) (tp_amount (topup_run protocol currency es))"
  shows "let st = topup_run protocol currency es in
    \<not> shown_calculating st \<and> shown_amount st = tp_quoted st \<and>
    (\<exists>q r. QuoteDone q r \<in> set es \<and> key_of q = quote_key (tp_amount st) (tm_type m) (tp_currency st) \<and>
       shown_amount st = quoted_amount r)"
proof -
  let ?st = "topup_run protocol currency es"
  have ok: "\<not> tp_calculating ?st" "tp_quote_key ?st = currentQuoteKey ?st"
    using quoting_run [of protocol currency es] assms by (auto simp: quoting_ok_def)
  moreover have "tp_quote_key ?st \<noteq> []" by (simp add: ok(2) currentQuoteKey_def)
  then obtain q r where "QuoteDone q r \<in> set es" "tp_quote_key ?st = key_of q" "tp_quoted ?st = quoted_amount r"
    using quotes_ok_run [of es protocol currency] unfolding quotes_ok_def by blast
  ultimately show ?thesis
    by (auto simp: shown_calculating_def shown_amount_def Let_def currentQuoteKey_def method_type_def assms(2))
qed

subsection \<open>A page without methods\<close>

text \<open>Settings, if they arrive, offer no method of the list.\<close>

fun no_method_event :: "topup_event \<Rightarrow> bool" where
  "no_method_event (InfoDone (Inr response)) =
     (truthy (opt_get response ''success'') \<and> truthy (opt_get response ''data'') \<longrightarrow>
        ti_methods (processedData (opt_get response ''data'')) = [])"
| "no_method_event e = True"

definition no_method_page :: "topup_page \<Rightarrow> bool" where
  "no_method_page st \<longleftrightarrow>
     info_methods st = [] \<and> tp_method st = None \<and> tp_quotes st = [] \<and> tp_quote_key st = [] \<and> \<not> tp_calculating st \<and>
     (\<forall>a t c. QuoteAsked a t c \<notin> set (tp_log st))"

lemma lt_irrefl: "\<not> num_lt x x"
  by (cases x) auto

lemma positive_not_zero: "num_lt (num_int 0) x \<Longrightarrow> \<not> num_eq x (num_int 0) \<and> x \<noteq> Fin 0 \<and> Fin 0 \<noteq> x"
  using lt_irrefl [of x] by (auto simp: num_eq_def num_int_def)

lemma no_method_settle:
  assumes "no_method_page st"
  shows "no_method_page (settle st)"
proof -
  have "tp_method (default_effect st) = None"
    using assms by (auto simp: no_method_page_def default_effect_def info_methods_def Let_def split: option.splits)
  moreover have "quote_effect x = x \<or> quote_effect x = x\<lparr>tp_seen_quote := Some (None, tp_currency x, tp_amount x)\<rparr>"
    if "tp_method x = None" for x
    using that by (simp add: quote_effect_def Let_def)
  ultimately have "settle st = field_effect (default_effect st) \<or>
    settle st = (field_effect (default_effect st))\<lparr>tp_seen_quote := Some (None, tp_currency st, tp_amount (default_effect st))\<rparr>"
    unfolding settle_def by (metis default_fields(3) field_fields(3,4,5))
  then show ?thesis using assms \<open>tp_method (default_effect st) = None\<close>
    by (auto simp: no_method_page_def info_methods_def)
qed

lemma no_method_event_kept:
  assumes "no_method_page st" and "no_method_event e"
  shows "info_methods (topup_event_step protocol st e) = [] \<and> tp_method (topup_event_step protocol st e) = None"
proof (cases "unquoted e")
  case True
  then show ?thesis using assms unquoted_frame [OF True, of protocol st] by (simp add: Let_def no_method_page_def info_methods_def)
next
  case False
  have st: "info_methods st = []" "tp_method st = None" "tp_quotes st = []" using assms(1) by (simp_all add: no_method_page_def)
  show ?thesis
  proof (cases e)
    case (InfoDone r)
    then show ?thesis using st assms(2) by (cases r) (auto simp: info_answered_def Let_def info_methods_def)
  next
    case (PaymentDone p r)
    then show ?thesis using st
      by (auto simp: payment_done_def Let_def log_topup_def info_methods_def split: prod.splits)
  qed (use st False in \<open>auto simp: handleSelectPreset_def handleAmountChange_def handlePricingMethodChange_def
        quote_answered_def press_confirm_def handlePaymentConfirm_def info_methods_def Let_def\<close>)
qed

lemma no_method_step:
  assumes "no_method_page st" and "no_method_event e"
  shows "no_method_page (topup_step protocol st e)"
proof -
  have "same_quotes st (topup_event_step protocol st e)"
    using assms(1) event_same_quotes [of e st protocol]
    by (cases "\<exists>q r. e = QuoteDone q r") (auto simp: no_method_page_def quote_answered_def same_quotes_def)
  then have "no_method_page (topup_event_step protocol st e)"
    using assms no_method_event_kept [OF assms, of protocol] event_log [of protocol st e]
    by (auto simp: no_method_page_def same_quotes_def)
  then show ?thesis by (simp add: topup_step_def no_method_settle)
qed

lemma no_method_run:
  assumes "\<forall>e \<in> set es. no_method_event e"
  shows "no_method_page (topup_run protocol currency es)"
  using assms
proof (induction es rule: rev_induct)
  case Nil
  have "no_method_page (new_topup_page currency)" by (simp add: no_method_page_def new_topup_page_def info_methods_def)
  then show ?case by (simp add: topup_run_def no_method_settle)
next
  case (snoc e es)
  then show ?case using no_method_step by (simp add: topup_run_snoc)
qed

text \<open>C31. A page can calculate forever. In every history in which no settings that arrive offer a method of the list, as
  when only the provider is configured whose methods have buttons of their own: whatever the user types or chooses, whatever
  is answered and however often the settings are asked for again, no quote is ever asked, the button to confirm stays
  locked, and whenever the page has a positive amount the sum is shown as being calculated.\<close>

theorem no_method_calculates_forever:
  assumes "\<forall>e \<in> set es. no_method_event e"
  shows "let st = topup_run protocol currency es in
    (\<forall>a t c. QuoteAsked a t c \<notin> set (tp_log st)) \<and> tp_quotes st = [] \<and> confirm_disabled st \<and>
    (num_lt (num_int 0) (tp_amount st) \<longrightarrow> shown_calculating st)"
  using no_method_run [OF assms, of protocol currency]
  by (simp add: Let_def no_method_page_def confirm_disabled_def shown_calculating_def shown_amount_def currentQuoteKey_def
      num_le_def num_eq_def num_int_def)

subsection \<open>A preset that changes nothing\<close>

text \<open>C32. A preset can leave the form stuck. In every state a page can reach: when the field holds an amount that is not
  valid, and the user chooses the preset of the amount the page still has, the preset is marked as chosen, but the field keeps
  its text and no method can be pressed.\<close>

theorem preset_leaves_field:
  assumes "p \<in> set (tp_presets (topup_run protocol currency es))"
    and "pa_value p = tp_amount (topup_run protocol currency es)"
    and "\<not> valid_amount (tp_field (topup_run protocol currency es)) (topup_run protocol currency es)"
  shows "let st = topup_run protocol currency es; st' = topup_run protocol currency (es @ [PresetChosen p]) in
    tp_preset st' = Some (tp_amount st') \<and> tp_field st' = tp_field st \<and>
    topup_run protocol currency (es @ [PresetChosen p, MethodPressed m]) = st'"
proof -
  let ?st = "topup_run protocol currency es"
  define st' where "st' = ?st\<lparr>tp_preset := Some (pa_value p)\<rparr>"
  have amount: "handleSelectPreset p ?st = st'" using assms(2) by (simp add: handleSelectPreset_def st'_def)
  have "settled st'" using settled_run [of protocol currency es] by (simp add: st'_def settled_def)
  then have s: "settle st' = st'" by (rule settle_settled)
  have one: "topup_run protocol currency (es @ [PresetChosen p]) = st'"
    using assms(1) by (simp add: topup_run_snoc topup_step_def amount s)
  have "\<not> valid_amount (tp_field st') st'" using assms(3) by (simp add: st'_def valid_amount_def)
  then have "topup_step protocol st' (MethodPressed m) = st'" by (simp add: topup_step_def method_disabled_def s)
  then have "topup_run protocol currency ((es @ [PresetChosen p]) @ [MethodPressed m]) = st'"
    unfolding topup_run_snoc [of protocol currency "es @ [PresetChosen p]"] one .
  then show ?thesis using assms(2) by (simp add: one st'_def Let_def)
qed

subsection \<open>Witnesses\<close>

definition alipay_settings :: jsval where
  "alipay_settings = JObj [(js ''success'', JBool True), (js ''data'', JObj
     [(js ''enable_online_topup'', JBool True), (js ''min_topup'', JNum (Fin 10)),
      (js ''pay_methods'', JArr [JObj [(js ''name'', JStr (js ''Alipay'')), (js ''type'', JStr (js ''alipay''))]])])]"

definition sample_method :: topup_method where
  "sample_method = \<lparr>tm_name = js ''Alipay'', tm_type = js ''alipay'', tm_color = None, tm_currency = None, tm_min = Fin 0\<rparr>"

definition sample_quote :: quote where
  "sample_quote = \<lparr>qu_sequence = 1, qu_amount = Fin 10, qu_type = js ''alipay'', qu_currency = js ''CNY''\<rparr>"

definition sample_sum :: jsval where
  "sample_sum = JObj [(js ''success'', JBool True), (js ''data'', JStr (js ''12''))]"

definition quoted_history :: "topup_event list" where
  "quoted_history = [InfoDone (Inr alipay_settings), QuoteDone sample_quote (Inr sample_sum)]"

definition paid_history :: "topup_event list" where
  "paid_history = quoted_history @ [MethodPressed sample_method, ConfirmPressed]"

definition alipay_info :: topup_info where
  "alipay_info = \<lparr>ti_online = True, ti_stripe = False, ti_waffo = False, ti_pancake = False, ti_nowpayments = False, ti_creem_enabled = False,
     ti_min = Fin 10, ti_stripe_min = NaN, ti_waffo_min = NaN, ti_pancake_min = NaN, ti_nowpayments_min = NaN,
     ti_methods = [sample_method], ti_options = [], ti_discount = [], ti_creem = [], ti_waffo_methods = []\<rparr>"

lemma alipay_info: "processedData (opt_get alipay_settings ''data'') = alipay_info"
  by code_simp

lemma parse_digits:
  assumes "s \<noteq> []" and "list_all is_digit s" and "digits_val s < 2 ^ 53" and "0 \<le> digits_val s"
  shows "parseFloat (JStr s) = num_int (digits_val s)"
proof -
  obtain c r where s: "s = c # r" using assms(1) by (cases s) auto
  have c: "is_digit c" using assms(2) s by simp
  then have "\<not> is_ws c" "c \<noteq> 43" "c \<noteq> 45" "c \<noteq> 73" using digit_not_ws by (auto simp: is_digit_def)
  moreover have "take_digits s = (s, [])" by (rule digits_take [OF assms(2)])
  moreover have "fl (of_int (digits_val s)) = Fin (of_int (digits_val s))" using assms(3,4) by (intro fl_int) simp
  ultimately show ?thesis
    by (simp add: parseFloat_def trim_start_def s starts_with_def js_lit Let_def front_number_def front_exponent_def
        num_int_def)
qed

text \<open>The page after the settings, when the first method of the list is the default.\<close>

lemma settings_page:
  assumes "truthy (opt_get response ''success'')" and "truthy (opt_get response ''data'')"
    and "processedData (opt_get response ''data'') = info" and "ti_methods info = m # ms"
    and "num_lt (num_int 0) (getMinTopupAmount (Some info))"
    and "st = topup_run protocol (js ''CNY'') [InfoDone (Inr response)]"
  shows "tp_info st = Some info" "tp_presets st = info_presets info" "tp_amount st = getMinTopupAmount (Some info)"
    "tp_method st = Some m" "tp_currency st = js ''CNY''" "tp_sequence st = 1" "\<not> tp_processing st" "\<not> tp_pancake st"
    "tp_field st = num_to_str (getMinTopupAmount (Some info))"
    "tp_quotes st = [\<lparr>qu_sequence = 1, qu_amount = getMinTopupAmount (Some info), qu_type = tm_type m, qu_currency = js ''CNY''\<rparr>]"
    "tp_loading st = None"
proof -
  have lt: "num_lt (Fin 0) (getMinTopupAmount (Some info))" using assms(5) by (simp add: num_int_def)
  have ne: "Fin 0 \<noteq> getMinTopupAmount (Some info)" "getMinTopupAmount (Some info) \<noteq> Fin 0"
    using positive_not_zero [OF assms(5)] by blast+
  have d: "getDefaultPaymentType (Some info) = tm_type m" by (simp add: getDefaultPaymentType_def assms(4))
  have "st = settle ((settle (new_topup_page (js ''CNY'')))\<lparr>tp_info := Some info, tp_info_error := False, tp_presets := info_presets info\<rparr>)"
    using assms(1,2,3,6) by (simp add: topup_run_def topup_step_def info_answered_def Let_def)
  then show "tp_info st = Some info" "tp_presets st = info_presets info" "tp_amount st = getMinTopupAmount (Some info)"
    "tp_method st = Some m" "tp_currency st = js ''CNY''" "tp_sequence st = 1" "\<not> tp_processing st" "\<not> tp_pancake st"
    "tp_field st = num_to_str (getMinTopupAmount (Some info))"
    "tp_quotes st = [\<lparr>qu_sequence = 1, qu_amount = getMinTopupAmount (Some info), qu_type = tm_type m, qu_currency = js ''CNY''\<rparr>]"
    "tp_loading st = None"
    using lt ne d assms(4)
    by (simp_all add: settle_def new_topup_page_def default_effect_def field_effect_def quote_effect_def Let_def
        num_eq_def num_int_def calculatePaymentAmount_def log_topup_def)
qed

lemma sample_facts:
  "truthy (opt_get alipay_settings ''success'')" "truthy (opt_get alipay_settings ''data'')"
  "ti_methods alipay_info = sample_method # []" "num_lt (num_int 0) (getMinTopupAmount (Some alipay_info))"
  "getMinTopupAmount (Some alipay_info) = Fin 10" "isApiSuccess sample_sum" "obj_get sample_sum (js ''data'') = JStr (js ''12'')"
  by code_simp+

lemma number_ten: "str_to_num (num_to_str (Fin 10)) = Fin 10"
  using safe_num_token [of "num_int 10"] by (simp add: num_token_def num_int_def)

lemma sample_sum_quoted: "quoted_amount (Inr sample_sum) = Fin 12"
proof -
  have "parseFloat (JStr (js ''12'')) = num_int (digits_val (js ''12''))" by (intro parse_digits; code_simp)
  also have "\<dots> = Fin 12" by code_simp
  finally have "parseFloat (JStr (js ''12'')) = Fin 12" .
  then show ?thesis using sample_facts(6,7) by (simp add: quoted_amount_def)
qed

lemmas sample_page = settings_page [OF sample_facts(1,2) alipay_info sample_facts(3,4) refl]

text \<open>The page after its quote.\<close>

definition quoted_page :: "topup_page" where
  "quoted_page = topup_run (\<lambda>t. None) (js ''CNY'') quoted_history"

lemma quoted_page_facts:
  "tp_info quoted_page = Some alipay_info" "tp_amount quoted_page = Fin 10" "tp_method quoted_page = Some sample_method"
  "tp_currency quoted_page = js ''CNY''" "\<not> tp_processing quoted_page" "\<not> tp_pancake quoted_page"
  "tp_field quoted_page = num_to_str (Fin 10)" "tp_quotes quoted_page = []" "tp_quoted quoted_page = Fin 12" "tp_loading quoted_page = None"
proof -
  let ?st = "topup_run (\<lambda>t. None) (js ''CNY'') [InfoDone (Inr alipay_settings)]"
  let ?x = "quote_answered sample_quote (Inr sample_sum) ?st"
  have "settled ?x" using settled_run [of "\<lambda>t. None" "js ''CNY''" "[InfoDone (Inr alipay_settings)]"]
    by (simp add: settled_def quote_answered_def Let_def)
  then have q: "quoted_page = ?x"
    using topup_run_snoc [of "\<lambda>t. None" "js ''CNY''" "[InfoDone (Inr alipay_settings)]"]
    by (simp add: quoted_page_def quoted_history_def topup_step_def settle_settled)
  have s: "tp_quotes ?st = [sample_quote]" "tp_sequence ?st = qu_sequence sample_quote"
    by (simp_all add: sample_page sample_facts(5) sample_quote_def sample_method_def)
  show "tp_info quoted_page = Some alipay_info" "tp_amount quoted_page = Fin 10" "tp_method quoted_page = Some sample_method"
    "tp_currency quoted_page = js ''CNY''" "\<not> tp_processing quoted_page" "\<not> tp_pancake quoted_page"
    "tp_field quoted_page = num_to_str (Fin 10)" "tp_quotes quoted_page = []" "tp_quoted quoted_page = Fin 12" "tp_loading quoted_page = None"
    unfolding q by (simp_all add: quote_answered_def Let_def s sample_sum_quoted del: num_to_str.simps)
      (simp_all add: sample_page sample_facts(5))
qed

theorem shown_sum_settles_witness:
  "\<not> shown_calculating quoted_page \<and> shown_amount quoted_page = Fin 12"
proof -
  have "num_lt (num_int 0) (Fin 10)" by code_simp
  with shown_sum_settles [of "\<lambda>t. None" "js ''CNY''" quoted_history sample_method] quoted_page_facts
  show ?thesis by (simp add: quoted_page_def [symmetric] Let_def)
qed

lemma quoted_page_ready: "\<not> shown_calculating quoted_page \<and> shown_amount quoted_page = Fin 12"
proof -
  have "num_lt (num_int 0) (tp_amount quoted_page)" by (simp add: quoted_page_facts num_int_def)
  then have "\<not> tp_calculating quoted_page" "tp_quote_key quoted_page = currentQuoteKey quoted_page"
    using quoting_run [of "\<lambda>t. None" "js ''CNY''" quoted_history] quoted_page_facts
    by (auto simp: quoting_ok_def quoted_page_def [symmetric])
  then show ?thesis by (simp add: shown_calculating_def shown_amount_def quoted_page_facts)
qed

lemma paid_page: "PaymentSent (Fin 10) (Fin 10) (js ''alipay'') (js ''CNY'') \<in>
    set (tp_log (topup_run (\<lambda>t. None) (js ''CNY'') paid_history))"
proof -
  let ?open = "quoted_page\<lparr>tp_method := Some sample_method, tp_open := True\<rparr>"
  have m: "\<not> method_disabled sample_method quoted_page" "\<not> num_lt (Fin 10) (method_min sample_method quoted_page)"
    "sample_method \<in> set (info_methods quoted_page)"
    using sample_facts(3,5) number_ten
    by (simp_all add: method_disabled_def valid_amount_def quoted_page_facts method_min_def sample_method_def num_or_def
        num_truthy_def num_le_def num_eq_def info_methods_def)
  have "settled ?open" using settled_run [of "\<lambda>t. None" "js ''CNY''" quoted_history]
    by (simp add: settled_def quoted_page_def [symmetric] quoted_page_facts)
  then have o: "topup_step (\<lambda>t. None) quoted_page (MethodPressed sample_method) = ?open"
    using m by (simp add: topup_step_def handlePaymentMethodSelect_def quoted_page_facts settle_settled)
  have "shown_calculating ?open = shown_calculating quoted_page" "shown_amount ?open = shown_amount quoted_page"
    by (simp_all add: shown_calculating_def shown_amount_def currentQuoteKey_def method_type_def quoted_page_facts)
  moreover have "\<not> num_le (Fin 12) (num_int 0)" by code_simp
  moreover have "shown_amount quoted_page = Fin 12" "\<not> shown_calculating quoted_page"
    using quoted_page_ready by auto
  ultimately have "PaymentSent (Fin 10) (Fin 10) (tm_type sample_method) (js ''CNY'') \<in> set (tp_log (press_confirm ?open))"
    by (simp add: press_confirm_def confirm_disabled_def handlePaymentConfirm_def quoted_page_facts Let_def)
  then have "PaymentSent (Fin 10) (Fin 10) (tm_type sample_method) (js ''CNY'') \<in>
      set (tp_log (topup_step (\<lambda>t. None) ?open ConfirmPressed))"
    using log_kept_settle by (simp add: topup_step_def)
  moreover have "topup_run (\<lambda>t. None) (js ''CNY'') paid_history = topup_step (\<lambda>t. None) ?open ConfirmPressed"
    by (simp add: paid_history_def topup_run_def o quoted_page_def [symmetric, unfolded topup_run_def])
  ultimately show ?thesis by (simp add: sample_method_def)
qed

theorem payment_as_quoted_witness:
  "\<exists>q. asked_quote (topup_run (\<lambda>t. None) (js ''CNY'') paid_history) q \<and> qu_amount q = Fin 10 \<and> qu_type q = js ''alipay'' \<and>
     qu_currency q = js ''CNY''"
proof -
  have "num_lt (num_int 0) (Fin 10)" by (simp add: num_int_def)
  with payment_as_quoted [OF paid_page] show ?thesis by blast
qed

definition waffo_settings :: jsval where
  "waffo_settings = JObj [(js ''success'', JBool True), (js ''data'', JObj
     [(js ''enable_waffo_topup'', JBool True), (js ''waffo_min_topup'', JNum (Fin 5)), (js ''amount_options'', JArr [JNum (Fin 5)]),
      (js ''pay_methods'', JArr [JObj [(js ''name'', JStr (js ''Waffo'')), (js ''type'', JStr (js ''waffo''))]])])]"

theorem no_method_calculates_forever_witness:
  "shown_calculating (topup_run (\<lambda>t. None) (js ''USD'') [InfoDone (Inr waffo_settings)])"
proof -
  have h: "truthy (opt_get waffo_settings ''success'')" "truthy (opt_get waffo_settings ''data'')"
    "ti_methods (processedData (opt_get waffo_settings ''data'')) = []"
    "getMinTopupAmount (Some (processedData (opt_get waffo_settings ''data''))) = Fin 5"
    by code_simp+
  have "tp_amount (topup_run (\<lambda>t. None) (js ''USD'') [InfoDone (Inr waffo_settings)]) = Fin 5" using h
    by (simp add: topup_run_def topup_step_def info_answered_def Let_def settle_def new_topup_page_def default_effect_def
        field_effect_def num_eq_def num_int_def quote_effect_def)
  moreover have "\<forall>e \<in> set [InfoDone (Inr waffo_settings)]. no_method_event e" using h(3) by simp
  ultimately show ?thesis
    using no_method_calculates_forever [of "[InfoDone (Inr waffo_settings)]" "\<lambda>t. None" "js ''USD''"]
    by (simp add: Let_def num_int_def)
qed

text \<open>The page after an amount below the minimum was typed.\<close>

definition stuck_history :: "topup_event list" where
  "stuck_history = [InfoDone (Inr alipay_settings), FieldTyped (js ''5'')]"

theorem preset_leaves_field_witness:
  "tp_field (topup_run (\<lambda>t. None) (js ''CNY'') (stuck_history @ [PresetChosen \<lparr>pa_value = Fin 10, pa_discount = None\<rparr>])) =
   js ''5''"
proof -
  let ?page = "topup_run (\<lambda>t. None) (js ''CNY'') [InfoDone (Inr alipay_settings)]"
  let ?st = "topup_run (\<lambda>t. None) (js ''CNY'') stuck_history"
  have v: "\<not> valid_amount (js ''5'') st" if "tp_info st = Some alipay_info" for st
  proof -
    have "int_digits 5 = js ''5''" by code_simp
    then have "str_to_num (js ''5'') = num_int 5" using str_to_num_int_digits [of 5] by simp
    then have "\<not> num_le (Fin 10) (str_to_num (js ''5''))" by (simp add: num_le_def num_eq_def num_int_def)
    then show ?thesis by (simp add: valid_amount_def that sample_facts(5))
  qed
  have "settled (?page\<lparr>tp_field := js ''5''\<rparr>)" using settled_run [of "\<lambda>t. None" "js ''CNY''" "[InfoDone (Inr alipay_settings)]"]
    by (simp add: settled_def)
  then have st: "?st = ?page\<lparr>tp_field := js ''5''\<rparr>"
    using v topup_run_snoc [of "\<lambda>t. None" "js ''CNY''" "[InfoDone (Inr alipay_settings)]"]
    by (simp add: stuck_history_def topup_step_def handleAmountChange_def Let_def sample_page(1) settle_settled)
  have "num_mul (Fin 10) (num_int 1) = Fin 10" using fl_int [of 10] by (simp add: num_int_def)
  then have "\<lparr>pa_value = Fin 10, pa_discount = None\<rparr> \<in> set (generatePresetAmounts (Fin 10))"
    by (simp add: generatePresetAmounts_def DEFAULT_PRESET_MULTIPLIERS_def del: num_mul.simps)
  moreover have "ti_options alipay_info = []" by (simp add: alipay_info_def)
  ultimately have "\<lparr>pa_value = Fin 10, pa_discount = None\<rparr> \<in> set (info_presets alipay_info)"
    by (simp add: info_presets_def sample_facts(5))
  then have "\<lparr>pa_value = Fin 10, pa_discount = None\<rparr> \<in> set (tp_presets ?st)" by (simp add: st sample_page(2))
  moreover have "pa_value \<lparr>pa_value = Fin 10, pa_discount = None\<rparr> = tp_amount ?st" by (simp add: st sample_page(3) sample_facts(5))
  moreover have "\<not> valid_amount (tp_field ?st) ?st" using v [of ?st] by (simp add: st sample_page(1))
  ultimately show ?thesis using preset_leaves_field [of "\<lparr>pa_value = Fin 10, pa_discount = None\<rparr>" "\<lambda>t. None" "js ''CNY''" stuck_history]
    by (simp add: Let_def st)
qed

end
