(* ===== verification/Spec2Isabelle.thy ===== *)
theory Spec2Isabelle
  imports StatusRules WalletTransfer BlindBoxPayment BillingRoundTrip ChannelDrawerModels ChatMachine PlaygroundPage TierEditor Pricing ParamViews
    NavSettings TableUrl SettingsForm SecureVerification AuthSession TopUpPage
begin

text \<open>
  \<^bold>\<open>Verification of the CodeGO console\<close>

  The repository is an API gateway: a Go server that relays model requests and accounts for quota,
  and a TypeScript console under \<open>src/web/default/src\<close> in which administrators configure channels and
  prices and users buy, transfer and spend credits. This development models the libraries of the
  console that decide something (what is sent, stored, charged, hidden, or shown as a price) and the
  components whose state is more than what is on the screen: editors, payments and conversations.
  Answers of the server, the browser's storage, the clock and the host's locale are inputs.

  \<^bold>\<open>The language.\<close> The TypeScript code is translated as it is written, on a model of the
  language it relies on.
  \<^item> \<open>Prelude\<close>: strings as lists of UTF-16 code units (\<open>jsstr\<close>), \<open>trim\<close>, \<open>split\<close>, \<open>join\<close>, \<open>indexOf\<close>,
    \<open>Set\<close>, stable \<open>sort\<close>; the named collections of the development.
  \<^item> \<open>JsNumber\<close>: the binary64 number type with rounding, \<open>NaN\<close> and infinities (zero has one sign),
    \<open>toFixed\<close>, safe integers, number literals.
  \<^item> \<open>JsValue\<close>: dynamic values, truthiness, strict equality, property access, \<open>JSON.parse\<close> and
    \<open>JSON.stringify\<close>, with the round trip of the two.
  \<^item> \<open>JsRegex\<close>: a backtracking matcher with captures and greedy and lazy repetition, and a calculus
    (\<open>rx_eval\<close>) that evaluates a match on a text with symbolic parts; \<open>RegexFirst\<close>: rules for the match
    that is found first, used where greedy choices succeed.
  \<^item> \<open>JsJson\<close> (indented printing and reading of JSON), \<open>JsObject\<close> (objects built by assignments) and
    \<open>WebStorage\<close> (the locale \<open>web_storage\<close> with the laws of the browser's storage, interpreted by a map with
    a quota).

  \<^bold>\<open>Components.\<close>
  \<^item> \<open>StatusRules\<close> (\<open>lib/http-status-code-rules.ts\<close>): status code rules such as \<open>401,500-599\<close>; the
    parser is sound, canonical (sorted, disjoint, not adjacent), stable under printing, and reports
    exactly the bad tokens.
  \<^item> \<open>WalletTransfer\<close> (\<open>features/wallet/wallet-transfer-intent.ts\<close>): the pending transfer in session
    storage, submission, status reads and polling, on the locale \<open>web_storage\<close>. A transfer is stored before it is
    sent, retried under its own request id, released only by a matching receipt, exact in amount and
    fee, and polling ends.
  \<^item> \<open>BlindBox\<close> (\<open>balance-blind-box-state.ts\<close>, \<open>balance-blind-box-actions.ts\<close>): buying, opening and giving away
    boxes; requests stay within the limit, the balance and the stock. \<open>BlindBoxPayment\<close>
    (\<open>use-blind-box-payment.ts\<close>): the external payment as a machine of clicks, answers and polls; a pending
    payment can always be opened, and two ways in which a late answer or a retry goes wrong.
  \<^item> \<open>BillingExpr\<close>, \<open>BillingRules\<close>, \<open>BillingRoundTrip\<close> (\<open>features/pricing/lib/billing-expr.ts\<close>): splitting at
    operators outside parentheses and quotes (locale \<open>top_level\<close>, interpreted for \<open>*\<close> and \<open>&&\<close>),
    tiers, request rules, their printing and parsing. Which rules read back, which are refused and which come back as one
    guarded expression is stated for every group the editor can write; combined expressions split back.
  \<^item> \<open>ChannelMapping\<close> (\<open>model-mapping-validation.ts\<close>, \<open>status-code-risk-guard.ts\<close>,
    \<open>upstream-update-utils.ts\<close> and the list codecs) and \<open>ChannelUtils\<close> (\<open>channel-utils.ts\<close>,
    \<open>multi-key-utils.ts\<close>, tables of \<open>constants.ts\<close>): lists as comma separated text (locale
    \<open>comma_codec\<close>), redirects, risky status mappings, keys, and the rows that aggregate the channels
    of a tag (a refinement of grouping by tag).
  \<^item> \<open>ChannelForm\<close>, \<open>ChannelFormReload\<close> (\<open>channel-form.ts\<close>): a channel as the values of the edit form, the JSON texts
    in which its options are stored, and the create and update payloads; saved options read back as those the
    channel's type can have, a saved channel opens as a form that saves the same but for the key, and the properties of one
    of the two texts the form does not know are erased.
  \<^item> \<open>ChannelDrawer\<close>, \<open>ChannelDrawerModels\<close> (\<open>channel-mutate-drawer.tsx\<close>): the editor around the form as a machine of
    events: loading, the checks and the two questions of a submission, the answer of the server. Nothing is
    sent without its checks in any interleaving; a saved channel reopens with its old values; the warnings
    shown while typing are those of \<open>ChannelMapping\<close>.
  \<^item> \<open>Currency\<close> (\<open>lib/currency.ts\<close>): how amounts are printed, never in tokens where money is due and
    never as zero where the amount is positive.
  \<^item> \<open>Playground\<close> (\<open>message-utils.ts\<close>, \<open>payload-builder.ts\<close>): reasoning tags, streaming compared with
    reading the whole text at once (the visible text agrees; reasoning already shown may stay), repair of interrupted messages, the request payload.
  \<^item> \<open>PlaygroundStream\<close>, \<open>PlaygroundChat\<close>, \<open>ChatMachine\<close> (\<open>use-stream-request.ts\<close>, \<open>use-chat-handler.ts\<close>): the event
    stream (any division into reads gives the same events, and a request reports its end once), what the callbacks do
    to the messages, and the interleaving of requests, stops and answers as a step relation with its
    invariant (one writer at a time, a stopped reply stays, and when the requests have ended the page is idle unless the
    notice before the last question threw); counters and notices that throw are branches of the steps.
  \<^item> \<open>PlaygroundSessions\<close>, \<open>PlaygroundPage\<close> (\<open>storage.ts\<close>, \<open>use-playground-state.ts\<close>, \<open>index.tsx\<close>): conversations,
    their text in the storage and the page's operations; saved conversations come back, replies
    reach the conversation that asked, the import of the former format loses nothing, the choice of model and group
    settles, and one invalid conversation erases all.
  \<^item> \<open>ParamOverride\<close>, \<open>ParamRoundTrip\<close>, \<open>ParamEditor\<close>, \<open>ParamViews\<close> (\<open>param-override-editor-dialog.tsx\<close>): the
    operations of a parameter override, their text and the three views of the editor; saving again is
    stable, identifiers stay distinct, switching views keeps the text.
  \<^item> \<open>TierExpr\<close>, \<open>TierRoundTrip\<close>, \<open>TierEditor\<close> (\<open>tier-expr.ts\<close>, \<open>tiered-pricing-editor.tsx\<close>): tiers, the expression
    they stand for and its parser, with the round trip and what it loses; sequences of edits; the editor with its renders and
    effects: a price made with careful edits is kept, one it cannot represent becomes zero, and another model gets the price of the
    first.
  \<^item> \<open>Pricing\<close> (\<open>dynamic-price.ts\<close>, \<open>price.ts\<close>, \<open>filters.ts\<close>, \<open>free-models.ts\<close>,
    \<open>merge-pricing-models.ts\<close>): the ratio behind a price, the entries of a dynamic price, the filtered
    catalogue and which models are available.
  \<^item> \<open>Navigation\<close> (\<open>nav-modules.ts\<close>, \<open>use-sidebar-config.ts\<close>, \<open>use-sidebar-data.ts\<close>): the modules an administrator
    switches on and the entries of the menu; which addresses the sidebar offers exactly, those without a module included, that users
    can only narrow it, and that the guard of the routes agrees with it. \<open>NavSettings\<close>
    (\<open>system-settings/maintenance\<close>): the page that reads and writes the same texts; every switch is shown as it was saved, and
    what it shows is what everyone gets.
  \<^item> \<open>TableUrl\<close> (\<open>use-table-url-state.ts\<close>): page and filters of a table in the URL; what is set is read back, and
    correcting the page settles.
  \<^item> \<open>SettingsForm\<close> (\<open>use-settings-form.ts\<close>): nested settings and flat options determine each other; a submission
    sends exactly the changed fields, and a reset goes back to what was saved.
  \<^item> \<open>Passkey\<close> (\<open>lib/passkey.ts\<close>): base64url text and bytes, the options and results of a passkey ceremony; no byte is
    lost on the way. \<open>SecureVerification\<close> (\<open>features/auth/secure-verification\<close>): calls that are repeated after
    a verification, as a machine of calls, answers and clicks; nothing is repeated without a
    verification of its own, the dialog never stays locked, and a dialog closed early disturbs the next.
  \<^item> \<open>AuthRedirect\<close> (\<open>features/auth/lib/storage.ts\<close>, \<open>routes/oauth/$provider.tsx\<close>): where a login leads and what the
    page after a provider does; nobody is signed in whom the server did not name, and one kind of target leaves the site.
    \<open>AuthSession\<close> (\<open>auth-store.ts\<close>, \<open>getSelf\<close>, \<open>use-auth-redirect.ts\<close>, the guards): the page's session as a machine
    of events; the store shows nobody but accounts the browser was signed in with, and the present one's unless a
    disturbed sign-out or second factor, or a change from outside, has put it out of step.
  \<^item> \<open>TopUp\<close> and \<open>TopUpPage\<close> (\<open>features/wallet\<close>: \<open>payment.ts\<close>, \<open>use-topup-info.ts\<close>, \<open>use-payment.ts\<close>, the
    top-up part of \<open>use-wallet-workspace.ts\<close>): settings, quotes and payments as a machine of events, the buttons of Waffo and the products of Creem
    included; what is paid by the quoted methods was quoted, the sum shown settles, and two ways in which the form gets stuck.

  \<open>Pricing\<close> and \<open>TierEditor\<close> call \<open>BillingRules\<close> for tiers and rules; \<open>ChatMachine\<close> drives \<open>PlaygroundChat\<close>, whose
  updates \<open>PlaygroundSessions\<close> applies to a conversation; wallet transfers and conversations share the
  storage. \<open>Pricing\<close> calls \<open>Currency\<close> for texts; \<open>ChannelUtils\<close> and \<open>ChannelMapping\<close>
  share the list codec with \<open>ChannelFormReload\<close>, and \<open>ChannelDrawer\<close> joins the form with the checks of
  \<open>ChannelMapping\<close>; all of them share the language theories.

  \<^bold>\<open>Parameters.\<close> \<open>toLowerCase\<close> and \<open>localeCompare\<close> (\<open>lower\<close>, \<open>lc\<close>), \<open>Intl.NumberFormat\<close> (\<open>intl\<close>), the
  identifier generator, the HTTP answers, timer readings and the storage are arguments; a theorem
  that needs something of them says so as a hypothesis. Exceptions are values of a sum type.

  \<^bold>\<open>Bounds and termination.\<close> All functions are total. The regular expression matcher ends because
  a repetition stops, as the language prescribes, at an empty iteration. Fuel is used only in
  printing a number: 330 decimal shifts bring any finite value above 1 and 17 digits identify it, so
  the 800 rounds of the digit search are never used up. The polling loop runs over the rounds the
  environment offers, and its property gives the bound (91) that is enough under the pace of the
  timer.

  Effects of a component run after each render in source order, and what they set is applied together before
  the next render; the number of renders until nothing changes is part of the statements; \<open>TopUpPage\<close> lets them settle after every event.

  \<^bold>\<open>Not modelled.\<close> The Go server, rendering and routes, HTTP clients, the code of the validation library (of
  the channel form's schema the accepted values are stated), the evaluation of arbitrary expressions by the JavaScript engine, date formatting, translations and static content.
  The seeded generator of the demonstration data, and the remaining pages
  are left out.
\<close>

end
